(* ===== verification/PaxosPrelude.thy ===== *)
theory PaxosPrelude
  imports Main "HOL-Library.Word" "HOL-Library.Signed_Division" "HOL-Library.Multiset"
begin

text \<open>
  Shared vocabulary of the development: the machine types of the C code, the ways a C
  function can fail to return, the collections of facts the component theories declare
  into, and the generic lemmas on lists, options and words that more than one component
  uses.
\<close>

section \<open>Machine types and failures\<close>

text \<open>
  \<open>iid_t\<close> and \<open>ballot_t\<close> are \<open>uint32_t\<close> (\<open>paxos/include/paxos.h\<close>): additions wrap.
\<close>

type_synonym iid_t = "32 word"
type_synonym ballot_t = "32 word"
type_synonym byte = "8 word"

text \<open>
  The ways a call of the C code ends without returning: a failed \<open>assert\<close>, a call of
  \<open>exit\<close>, an access outside an array, the use of a null pointer, and a read of a union
  through a member that was not written (these three are undefined behaviour in C; the
  model names them instead of inventing a result). In C++, also a container that is asked
  for more elements than it can hold, and a division of integers by 0.
\<close>

datatype c_error = AssertFailure | ProcessExit | OutOfBounds | NullPointer | BadUnion | LengthError | DivideByZero

type_synonym 'a outcome = "c_error + 'a"

text \<open>Sequencing: the second part runs unless the first one failed.\<close>

definition bindE :: "'a outcome \<Rightarrow> ('a \<Rightarrow> 'b outcome) \<Rightarrow> 'b outcome" where
  "bindE m f = (case m of Inl e \<Rightarrow> Inl e | Inr x \<Rightarrow> f x)"

lemma bindE_simps [simp]: "bindE (Inr x) f = f x" "bindE (Inl e) f = Inl e"
  by (simp_all add: bindE_def)

text \<open>A call that may also not return: \<open>None\<close>. Loops of this kind are partial functions.\<close>

type_synonym 'a run = "'a outcome option"

definition bindR :: "'a run \<Rightarrow> ('a \<Rightarrow> 'b run) \<Rightarrow> 'b run" where
  "bindR m f = (case m of None \<Rightarrow> None | Some (Inl e) \<Rightarrow> Some (Inl e) | Some (Inr x) \<Rightarrow> f x)"

lemma bindR_simps [simp]:
  "bindR (Some (Inr x)) f = f x" "bindR (Some (Inl e)) f = Some (Inl e)" "bindR None f = None"
  by (simp_all add: bindR_def)

lemma bindR_mono [partial_function_mono]:
  fixes B :: "('x \<Rightarrow> 'y option) \<Rightarrow> 'a run"
  assumes f: "mono_option B" and g: "\<And>y. mono_option (\<lambda>f. C y f)"
  shows "mono_option (\<lambda>f. bindR (B f) (\<lambda>y. C y f))"
proof (rule monotoneI)
  fix f g :: "'x \<Rightarrow> 'y option"
  assume fg: "fun_ord option_ord f g"
  have b: "option_ord (B f) (B g)" using assms(1) fg unfolding monotone_def by blast
  have c: "option_ord (C y f) (C y g)" for y
    using assms(2) fg unfolding monotone_def by blast
  show "option_ord (bindR (B f) (\<lambda>y. C y f)) (bindR (B g) (\<lambda>y. C y g))"
  proof (cases "B f")
    case (Some r)
    then have "B g = Some r" using b by (auto simp: flat_ord_def)
    then show ?thesis using Some c by (cases r) (auto simp: flat_ord_def)
  qed (simp add: flat_ord_def)
qed

lemma bindE_Inr: "bindE m f = Inr y \<longleftrightarrow> (\<exists>x. m = Inr x \<and> f x = Inr y)"
  by (cases m) simp_all

section \<open>Printed numbers\<close>

text \<open>What \<open>printf("%d")\<close> and \<open>std::to_string\<close> make of an integer.\<close>

fun nat_to_string :: "nat \<Rightarrow> string" where
  "nat_to_string n =
     (if n < 10 then [char_of (48 + n)] else nat_to_string (n div 10) @ [char_of (48 + n mod 10)])"

declare nat_to_string.simps [simp del]

definition int_to_string :: "int \<Rightarrow> string" where
  "int_to_string i = (if i < 0 then ''-'' @ nat_to_string (nat (- i)) else nat_to_string (nat i))"

section \<open>Collections\<close>

named_theorems wf_intros \<open>operations keep the well-formedness of their component\<close>
named_theorems abs_simps \<open>what an operation does to the abstract value of its component\<close>

section \<open>Lists as arrays\<close>

lemma nth_update_if:
  "i < length xs \<Longrightarrow> xs[i := x] ! j = (if j = i then x else xs ! j)"
  by simp

lemma length_filter_update:
  assumes "i < length xs"
  shows "length (filter P (xs[i := x])) + (if P (xs ! i) then 1 else 0)
       = length (filter P xs) + (if P x then 1 else 0)"
proof -
  have xs: "xs = take i xs @ xs ! i # drop (Suc i) xs"
    using assms by (rule id_take_nth_drop)
  have "filter P xs = filter P (take i xs @ xs ! i # drop (Suc i) xs)"
    using arg_cong [OF xs, of "filter P"] .
  then have "length (filter P xs)
      = length (filter P (take i xs)) + (if P (xs ! i) then 1 else 0)
        + length (filter P (drop (Suc i) xs))"
    by (simp del: append_take_drop_id)
  moreover have "length (filter P (xs[i := x]))
      = length (filter P (take i xs)) + (if P x then 1 else 0)
        + length (filter P (drop (Suc i) xs))"
    using assms by (simp add: upd_conv_take_nth_drop)
  ultimately show ?thesis by simp
qed

lemma length_filter_update_less:
  "i < length xs \<Longrightarrow> P (xs ! i) \<Longrightarrow> \<not> P x \<Longrightarrow>
   length (filter P (xs[i := x])) < length (filter P xs)"
  using length_filter_update [of i xs P x] by simp

lemma length_filter_mono:
  "(\<And>x. P x \<Longrightarrow> Q x) \<Longrightarrow> length (filter P xs) \<le> length (filter Q xs)"
  by (induction xs) (auto intro: le_SucI)

lemma length_filter_eq_card:
  "length (filter P xs) = card {i. i < length xs \<and> P (xs ! i)}"
  by (rule length_filter_conv_card)

lemma ex_nth_not_if_length_filter_less:
  assumes "length (filter P xs) < length xs"
  shows "\<exists>i < length xs. \<not> P (xs ! i)"
proof (rule ccontr)
  assume "\<not> ?thesis"
  then have "filter P xs = xs" by (auto simp: filter_id_conv in_set_conv_nth)
  with assms show False by simp
qed

section \<open>Words\<close>

lemma word_less_plus1:
  fixes x :: "'a::len word"
  assumes "x < y"
  shows "unat (x + 1) = unat x + 1"
proof -
  have "unat x < unat y" using assms by (simp add: word_less_nat_alt)
  moreover have "unat y < 2 ^ LENGTH('a)" by (rule unsigned_less)
  ultimately have "unat x + 1 < 2 ^ LENGTH('a)" by linarith
  then show ?thesis by (simp add: unat_word_ariths)
qed

lemma unat_plus1:
  fixes x :: "'a::len word"
  assumes "x \<noteq> - 1"
  shows "unat (x + 1) = unat x + 1"
proof -
  have "x < - 1" using assms by (metis word_order.not_eq_extremum)
  then show ?thesis by (rule word_less_plus1)
qed

lemma word_less_plus1_self:
  fixes x :: "'a::len word"
  shows "x \<noteq> - 1 \<Longrightarrow> x < x + 1"
  by (simp add: word_less_nat_alt unat_plus1)

lemma unat_add_no_wrap:
  fixes x y :: "'a::len word"
  shows "unat x + unat y < 2 ^ LENGTH('a) \<Longrightarrow> unat (x + y) = unat x + unat y"
  by (simp add: unat_word_ariths)

end
