(* ===== verification/PaxosTypes.thy ===== *)
theory PaxosTypes
  imports PaxosPrelude
begin

text \<open>
  The data of \<open>paxos/include/paxos_types.h\<close> and \<open>paxos/include/paxos.h\<close>: values, the
  nine messages, the configuration, and the value functions of \<open>paxos/paxos.c\<close>.
\<close>

unbundle bit_operations_syntax

section \<open>Values\<close>

text \<open>
  A \<open>paxos_value\<close> is a length and a pointer. The pointer is \<open>None\<close> for \<open>NULL\<close> and
  \<open>Some bs\<close> when it points to the bytes \<open>bs\<close>; a value is well-formed when the length
  is the number of bytes it points to.
\<close>

record paxos_value =
  paxos_value_len :: int
  paxos_value_val :: "byte list option"

definition value_wf :: "paxos_value \<Rightarrow> bool" where
  "value_wf v \<longleftrightarrow>
     (case paxos_value_val v of
        None \<Rightarrow> paxos_value_len v = 0
      | Some bs \<Rightarrow> paxos_value_len v = int (length bs))"

text \<open>The value of zeroed memory, \<open>{0, NULL}\<close>.\<close>

definition null_value :: paxos_value where
  "null_value = \<lparr>paxos_value_len = 0, paxos_value_val = None\<rparr>"

text \<open>
  \<open>memcpy\<close> of \<open>n\<close> bytes into a fresh buffer of \<open>n\<close> bytes.
\<close>

definition memcpy_bytes :: "int \<Rightarrow> byte list option \<Rightarrow> byte list option" where
  "memcpy_bytes n p = (case p of None \<Rightarrow> None | Some bs \<Rightarrow> Some (take (nat n) bs))"

definition paxos_value_new :: "byte list \<Rightarrow> int \<Rightarrow> paxos_value" where
  "paxos_value_new value sz =
     \<lparr>paxos_value_len = sz, paxos_value_val = memcpy_bytes sz (Some value)\<rparr>"

lemma memcpy_bytes_wf:
  "value_wf v \<Longrightarrow> memcpy_bytes (paxos_value_len v) (paxos_value_val v) = paxos_value_val v"
  by (auto simp: value_wf_def memcpy_bytes_def split: option.splits)

lemma value_wf_null [simp]: "value_wf null_value"
  by (simp add: value_wf_def null_value_def)

lemma value_wf_new:
  "sz = int (length bs) \<Longrightarrow> value_wf (paxos_value_new bs sz)"
  by (simp add: value_wf_def paxos_value_new_def memcpy_bytes_def)

section \<open>Messages\<close>

record paxos_prepare =
  prepare_iid :: iid_t
  prepare_ballot :: ballot_t

record paxos_promise =
  promise_iid :: iid_t
  promise_ballot :: ballot_t
  promise_value_ballot :: ballot_t
  promise_value :: paxos_value

record paxos_accept =
  accept_iid :: iid_t
  accept_ballot :: ballot_t
  accept_value :: paxos_value

record paxos_accepted =
  accepted_iid :: iid_t
  accepted_ballot :: ballot_t
  accepted_value_ballot :: ballot_t
  accepted_value :: paxos_value

record paxos_preempted =
  preempted_iid :: iid_t
  preempted_ballot :: ballot_t

record paxos_repeat =
  repeat_from :: iid_t
  repeat_to :: iid_t

record paxos_trim =
  trim_iid :: iid_t

record paxos_acceptor_state =
  state_trim_iid :: iid_t

record paxos_client_value =
  client_value :: paxos_value

text \<open>
  \<open>enum paxos_message_type\<close>, with the integer codes C gives its members, and the tagged
  union \<open>struct paxos_message\<close>.
\<close>

datatype paxos_message_type =
    TY_PREPARE | TY_PROMISE | TY_ACCEPT | TY_ACCEPTED | TY_PREEMPTED
  | TY_REPEAT | TY_TRIM | TY_ACCEPTOR_STATE | TY_CLIENT_VALUE

datatype paxos_message =
    PAXOS_PREPARE paxos_prepare
  | PAXOS_PROMISE paxos_promise
  | PAXOS_ACCEPT paxos_accept
  | PAXOS_ACCEPTED paxos_accepted
  | PAXOS_PREEMPTED paxos_preempted
  | PAXOS_REPEAT paxos_repeat
  | PAXOS_TRIM paxos_trim
  | PAXOS_ACCEPTOR_STATE paxos_acceptor_state
  | PAXOS_CLIENT_VALUE paxos_client_value

fun message_type :: "paxos_message \<Rightarrow> paxos_message_type" where
  "message_type (PAXOS_PREPARE _) = TY_PREPARE"
| "message_type (PAXOS_PROMISE _) = TY_PROMISE"
| "message_type (PAXOS_ACCEPT _) = TY_ACCEPT"
| "message_type (PAXOS_ACCEPTED _) = TY_ACCEPTED"
| "message_type (PAXOS_PREEMPTED _) = TY_PREEMPTED"
| "message_type (PAXOS_REPEAT _) = TY_REPEAT"
| "message_type (PAXOS_TRIM _) = TY_TRIM"
| "message_type (PAXOS_ACCEPTOR_STATE _) = TY_ACCEPTOR_STATE"
| "message_type (PAXOS_CLIENT_VALUE _) = TY_CLIENT_VALUE"

fun message_type_code :: "paxos_message_type \<Rightarrow> nat" where
  "message_type_code TY_PREPARE = 0"
| "message_type_code TY_PROMISE = 1"
| "message_type_code TY_ACCEPT = 2"
| "message_type_code TY_ACCEPTED = 3"
| "message_type_code TY_PREEMPTED = 4"
| "message_type_code TY_REPEAT = 5"
| "message_type_code TY_TRIM = 6"
| "message_type_code TY_ACCEPTOR_STATE = 7"
| "message_type_code TY_CLIENT_VALUE = 8"

lemma message_type_code_inj: "message_type_code s = message_type_code t \<Longrightarrow> s = t"
  by (cases s; cases t) simp_all

text \<open>C compares enumeration members by their codes.\<close>

instantiation paxos_message_type :: linorder
begin

definition less_eq_paxos_message_type :: "paxos_message_type \<Rightarrow> paxos_message_type \<Rightarrow> bool" where
  "s \<le> t \<longleftrightarrow> message_type_code s \<le> message_type_code t"

definition less_paxos_message_type :: "paxos_message_type \<Rightarrow> paxos_message_type \<Rightarrow> bool" where
  "s < t \<longleftrightarrow> message_type_code s < message_type_code t"

instance
  by standard
    (auto simp: less_eq_paxos_message_type_def less_paxos_message_type_def
      intro: message_type_code_inj)

end

section \<open>Configuration\<close>

text \<open>
  The global \<open>paxos_config\<close>. The fields no modelled operation reads are kept so that the
  configuration parser can be stated over the same record.
\<close>

record paxos_config =
  verbosity :: int
  tcp_nodelay :: int
  learner_instances :: int
  learner_catch_up :: int
  proposer_timeout :: int
  proposer_preexec_window :: int
  storage_backend :: int
  trash_files :: int
  bdb_sync :: int
  bdb_cachesize :: "64 word"
  bdb_env_path :: string
  bdb_db_filename :: string
  lmdb_sync :: int
  lmdb_env_path :: string
  lmdb_mapsize :: "64 word"

definition default_config :: paxos_config where
  "default_config =
     \<lparr>verbosity = 2, tcp_nodelay = 1, learner_instances = 2048, learner_catch_up = 1,
      proposer_timeout = 1, proposer_preexec_window = 128, storage_backend = 0,
      trash_files = 0, bdb_sync = 0, bdb_cachesize = 32 * 1024 * 1024,
      bdb_env_path = ''/tmp/acceptor'', bdb_db_filename = ''acc.bdb'', lmdb_sync = 0,
      lmdb_env_path = ''/tmp/acceptor'', lmdb_mapsize = 10 * 1024 * 1024\<rparr>"

definition MAX_N_OF_PROPOSERS :: nat where
  "MAX_N_OF_PROPOSERS = 10"

section \<open>Quorum size\<close>

text \<open>\<open>(acceptors/2)+1\<close>: C division truncates towards zero.\<close>

definition paxos_quorum :: "int \<Rightarrow> int" where
  "paxos_quorum acceptors = acceptors sdiv 2 + 1"

lemma paxos_quorum_nonneg: "0 \<le> n \<Longrightarrow> paxos_quorum n = n div 2 + 1"
  by (cases "n = 0") (simp_all add: paxos_quorum_def signed_divide_int_def)

lemma paxos_quorum_majority: "0 \<le> n \<Longrightarrow> paxos_quorum n \<le> m \<longleftrightarrow> n < 2 * m"
  by (simp add: paxos_quorum_nonneg) linarith

end
