(* ===== verification/Storage.thy ===== *)
theory Storage
  imports PaxosTypes
begin

text \<open>
  \<open>paxos/storage.c\<close>, \<open>paxos/include/storage.h\<close> and \<open>paxos/storage_mem.c\<close>: the record
  store of an acceptor. A storage is a handle and a table of functions on it, as in C; the
  in-memory backend keeps \<open>MAX_RECORDS\<close> records in a ring indexed by instance id. What an
  acceptor may rely on, whatever the backend, is the locale \<open>record_store\<close>.
\<close>

section \<open>The dispatch table\<close>

text \<open>
  Every function may end the process (a failed \<open>assert\<close>, a call of \<open>exit\<close>). \<open>get\<close> answers
  \<open>None\<close> where the C function returns 0 and \<open>Some r\<close> where it fills \<open>out\<close> and returns 1.
\<close>

record 'h storage =
  st_handle :: 'h
  api_open :: "'h \<Rightarrow> ('h \<times> int) outcome"
  api_close :: "'h \<Rightarrow> ('h \<times> int) outcome"
  api_tx_begin :: "'h \<Rightarrow> 'h outcome"
  api_tx_commit :: "'h \<Rightarrow> 'h outcome"
  api_get :: "'h \<Rightarrow> iid_t \<Rightarrow> paxos_accepted option outcome"
  api_put :: "'h \<Rightarrow> paxos_accepted \<Rightarrow> ('h \<times> int) outcome"
  api_trim :: "'h \<Rightarrow> iid_t \<Rightarrow> ('h \<times> int) outcome"
  api_get_trim_instance :: "'h \<Rightarrow> iid_t outcome"

definition on_handle :: "'h storage \<Rightarrow> ('h \<times> int) outcome \<Rightarrow> ('h storage \<times> int) outcome" where
  "on_handle store r = bindE r (\<lambda>(h, rv). Inr (store\<lparr>st_handle := h\<rparr>, rv))"

definition storage_open :: "'h storage \<Rightarrow> ('h storage \<times> int) outcome" where
  "storage_open store = on_handle store (api_open store (st_handle store))"

definition storage_close :: "'h storage \<Rightarrow> ('h storage \<times> int) outcome" where
  "storage_close store = on_handle store (api_close store (st_handle store))"

definition storage_tx_begin :: "'h storage \<Rightarrow> 'h storage outcome" where
  "storage_tx_begin store = bindE (api_tx_begin store (st_handle store)) (\<lambda>h. Inr (store\<lparr>st_handle := h\<rparr>))"

definition storage_tx_commit :: "'h storage \<Rightarrow> 'h storage outcome" where
  "storage_tx_commit store = bindE (api_tx_commit store (st_handle store)) (\<lambda>h. Inr (store\<lparr>st_handle := h\<rparr>))"

definition storage_get_record :: "'h storage \<Rightarrow> iid_t \<Rightarrow> paxos_accepted option outcome" where
  "storage_get_record store iid = api_get store (st_handle store) iid"

definition storage_put_record :: "'h storage \<Rightarrow> paxos_accepted \<Rightarrow> ('h storage \<times> int) outcome" where
  "storage_put_record store acc = on_handle store (api_put store (st_handle store) acc)"

definition storage_trim :: "'h storage \<Rightarrow> iid_t \<Rightarrow> ('h storage \<times> int) outcome" where
  "storage_trim store iid = on_handle store (api_trim store (st_handle store) iid)"

definition storage_get_trim_instance :: "'h storage \<Rightarrow> iid_t outcome" where
  "storage_get_trim_instance store = api_get_trim_instance store (st_handle store)"

lemmas storage_ops =
  on_handle_def storage_open_def storage_close_def storage_tx_begin_def storage_tx_commit_def
  storage_get_record_def storage_put_record_def storage_trim_def storage_get_trim_instance_def

section \<open>The in-memory backend\<close>

definition MAX_RECORDS :: nat where
  "MAX_RECORDS = 4 * 1024"

text \<open>The array \<open>records\<close> has \<open>MAX_RECORDS\<close> elements; every index is taken modulo that.\<close>

record mem_storage =
  mem_acceptor_id :: int
  mem_records :: "nat \<Rightarrow> paxos_accepted"

definition zero_accepted :: paxos_accepted where
  "zero_accepted = \<lparr>accepted_iid = 0, accepted_ballot = 0, accepted_value_ballot = 0,
                    accepted_value = null_value\<rparr>"

definition mem_storage_new :: "int \<Rightarrow> mem_storage" where
  "mem_storage_new acceptor_id =
     \<lparr>mem_acceptor_id = acceptor_id, mem_records = (\<lambda>i. zero_accepted)\<rparr>"

definition mem_storage_open :: "mem_storage \<Rightarrow> (mem_storage \<times> int) outcome" where
  "mem_storage_open h = Inr (h, 1)"

definition mem_storage_close :: "mem_storage \<Rightarrow> (mem_storage \<times> int) outcome" where
  "mem_storage_close h = Inr (h, 0)"

definition mem_storage_tx_begin :: "mem_storage \<Rightarrow> mem_storage outcome" where
  "mem_storage_tx_begin h = Inr h"

definition mem_storage_tx_commit :: "mem_storage \<Rightarrow> mem_storage outcome" where
  "mem_storage_tx_commit h = Inr h"

text \<open>\<open>paxos_accepted_copy\<close>: a structure copy, and a copy of the bytes when there are any.\<close>

definition paxos_accepted_copy :: "paxos_accepted \<Rightarrow> paxos_accepted" where
  "paxos_accepted_copy src =
     (let len = paxos_value_len (accepted_value src) in
      if 0 < len
      then src\<lparr>accepted_value := (accepted_value src)
                 \<lparr>paxos_value_val := memcpy_bytes len (paxos_value_val (accepted_value src))\<rparr>\<rparr>
      else src)"

definition mem_index :: "iid_t \<Rightarrow> nat" where
  "mem_index iid = unat iid mod MAX_RECORDS"

definition mem_storage_get :: "mem_storage \<Rightarrow> iid_t \<Rightarrow> paxos_accepted option outcome" where
  "mem_storage_get s iid =
     (let r = mem_records s (mem_index iid) in
      if iid < accepted_iid r then Inl ProcessExit
      else if iid = accepted_iid r then Inr (Some (paxos_accepted_copy r))
      else Inr None)"

definition mem_storage_put :: "mem_storage \<Rightarrow> paxos_accepted \<Rightarrow> (mem_storage \<times> int) outcome" where
  "mem_storage_put s acc =
     Inr (s\<lparr>mem_records := (mem_records s)(mem_index (accepted_iid acc) := paxos_accepted_copy acc)\<rparr>, 1)"

definition mem_storage_trim :: "mem_storage \<Rightarrow> iid_t \<Rightarrow> (mem_storage \<times> int) outcome" where
  "mem_storage_trim s iid = Inr (s, 0)"

definition mem_storage_get_trim_instance :: "mem_storage \<Rightarrow> iid_t outcome" where
  "mem_storage_get_trim_instance s = Inr 0"

definition storage_init_mem :: "int \<Rightarrow> mem_storage storage" where
  "storage_init_mem acceptor_id =
     \<lparr>st_handle = mem_storage_new acceptor_id, api_open = mem_storage_open,
      api_close = mem_storage_close, api_tx_begin = mem_storage_tx_begin,
      api_tx_commit = mem_storage_tx_commit, api_get = mem_storage_get,
      api_put = mem_storage_put, api_trim = mem_storage_trim,
      api_get_trim_instance = mem_storage_get_trim_instance\<rparr>"

text \<open>
  \<open>storage_init\<close>, as compiled by \<open>paxostest/CMakeLists.txt\<close>, which defines neither
  \<open>HAS_BDB\<close> nor \<open>HAS_LMDB\<close>: every backend but the in-memory one ends the process.
\<close>

definition storage_init :: "paxos_config \<Rightarrow> int \<Rightarrow> mem_storage storage outcome" where
  "storage_init cfg acceptor_id =
     (if storage_backend cfg = 0 then Inr (storage_init_mem acceptor_id) else Inl ProcessExit)"

section \<open>What a backend promises\<close>

text \<open>
  A store is used in transactions: \<open>ok s\<close> holds between them and \<open>busy s\<close> inside one.
  \<open>view s i\<close> is the record of instance \<open>i\<close>, \<open>lost s i\<close> says that reading instance \<open>i\<close>
  ends the process. A store may lose old instances when it stores newer ones, but never
  the one it has just stored, and it never brings back what it has lost.
\<close>

locale record_store =
  fixes ok :: "'h storage \<Rightarrow> bool"
    and busy :: "'h storage \<Rightarrow> bool"
    and view :: "'h storage \<Rightarrow> iid_t \<Rightarrow> paxos_accepted option"
    and lost :: "'h storage \<Rightarrow> iid_t \<Rightarrow> bool"
  assumes tx_begin: "ok s \<Longrightarrow> \<exists>s'. storage_tx_begin s = Inr s' \<and> busy s' \<and> view s' = view s \<and> lost s' = lost s"
    and tx_commit: "busy s \<Longrightarrow> \<exists>s'. storage_tx_commit s = Inr s' \<and> ok s' \<and> view s' = view s \<and> lost s' = lost s"
    and get_lost: "busy s \<Longrightarrow> lost s i \<Longrightarrow> \<exists>e. storage_get_record s i = Inl e"
    and get_view: "busy s \<Longrightarrow> \<not> lost s i \<Longrightarrow> storage_get_record s i = Inr (view s i)"
    and view_iid: "ok s \<Longrightarrow> view s i = Some r \<Longrightarrow> accepted_iid r = i"
    and view_value_wf: "ok s \<Longrightarrow> view s i = Some r \<Longrightarrow> value_wf (accepted_value r)"
    and put: "busy s \<Longrightarrow> value_wf (accepted_value r) \<Longrightarrow> 0 < accepted_iid r \<Longrightarrow> \<not> lost s (accepted_iid r) \<Longrightarrow>
          \<exists>s' rv. storage_put_record s r = Inr (s', rv) \<and> busy s' \<and>
            \<not> lost s' (accepted_iid r) \<and> view s' (accepted_iid r) = Some r \<and>
            (\<forall>i. i \<noteq> accepted_iid r \<longrightarrow> lost s' i \<or> \<not> lost s i \<and> view s' i = view s i)"
    and trim: "busy s \<Longrightarrow> 0 < t \<Longrightarrow>
          \<exists>s' rv. storage_trim s t = Inr (s', rv) \<and> busy s' \<and>
            (\<forall>i. t < i \<longrightarrow> view s' i = view s i \<and> lost s' i = lost s i)"

section \<open>The in-memory backend keeps the promise\<close>

definition mem_api :: "mem_storage storage \<Rightarrow> bool" where
  "mem_api s \<longleftrightarrow>
     api_tx_begin s = mem_storage_tx_begin \<and> api_tx_commit s = mem_storage_tx_commit \<and>
     api_get s = mem_storage_get \<and> api_put s = mem_storage_put \<and> api_trim s = mem_storage_trim"

definition mem_ok :: "mem_storage storage \<Rightarrow> bool" where
  "mem_ok s \<longleftrightarrow> mem_api s \<and> (\<forall>i. value_wf (accepted_value (mem_records (st_handle s) i)))"

definition mem_lost :: "mem_storage storage \<Rightarrow> iid_t \<Rightarrow> bool" where
  "mem_lost s i \<longleftrightarrow> i < accepted_iid (mem_records (st_handle s) (mem_index i))"

definition mem_view :: "mem_storage storage \<Rightarrow> iid_t \<Rightarrow> paxos_accepted option" where
  "mem_view s i =
     (let r = mem_records (st_handle s) (mem_index i)
      in if accepted_iid r = i then Some r else None)"

lemma paxos_accepted_copy_id [simp]:
  assumes "value_wf (accepted_value r)"
  shows "paxos_accepted_copy r = r"
proof -
  have "(accepted_value r)\<lparr>paxos_value_val := paxos_value_val (accepted_value r)\<rparr> = accepted_value r"
    by simp
  then show ?thesis
    by (simp add: paxos_accepted_copy_def memcpy_bytes_wf [OF assms] Let_def)
qed

lemma mem_init_ok: "mem_ok (storage_init_mem n)"
  by (simp add: mem_ok_def mem_api_def storage_init_mem_def mem_storage_new_def zero_accepted_def)

lemma mem_init_view: "0 < i \<Longrightarrow> mem_view (storage_init_mem n) i = None \<and> \<not> mem_lost (storage_init_mem n) i"
  by (auto simp: mem_view_def mem_lost_def storage_init_mem_def mem_storage_new_def
      zero_accepted_def Let_def)

lemma mem_tx:
  assumes "mem_ok s"
  shows "storage_tx_begin s = Inr s" and "storage_tx_commit s = Inr s" and "storage_trim s t = Inr (s, 0)"
  using assms by (simp_all add: storage_ops mem_ok_def mem_api_def mem_storage_tx_begin_def
      mem_storage_tx_commit_def mem_storage_trim_def)

definition mem_with :: "mem_storage storage \<Rightarrow> paxos_accepted \<Rightarrow> mem_storage storage" where
  "mem_with s r = s\<lparr>st_handle := (st_handle s)\<lparr>mem_records :=
     (mem_records (st_handle s))(mem_index (accepted_iid r) := r)\<rparr>\<rparr>"

lemma mem_put_record:
  assumes "mem_ok s" and "value_wf (accepted_value r)"
  shows "storage_put_record s r = Inr (mem_with s r, 1)"
  using assms by (simp add: storage_ops mem_ok_def mem_api_def mem_storage_put_def mem_with_def)

lemma mem_with_ok:
  assumes "mem_ok s" and "value_wf (accepted_value r)"
  shows "mem_ok (mem_with s r)"
  using assms by (simp add: mem_ok_def mem_with_def) (simp add: mem_api_def)

lemma mem_view_wf:
  assumes "mem_ok s" and "mem_view s i = Some r"
  shows "value_wf (accepted_value r)"
proof -
  have "r = mem_records (st_handle s) (mem_index i)"
    using assms(2) by (simp add: mem_view_def Let_def split: if_splits)
  then show ?thesis using assms(1) by (simp only: mem_ok_def)
qed

interpretation ms: record_store mem_ok mem_ok mem_view mem_lost
proof unfold_locales
  fix s :: "mem_storage storage" and i t :: iid_t and r :: paxos_accepted
  assume ok: "mem_ok s"
  show "\<exists>s'. storage_tx_begin s = Inr s' \<and> mem_ok s' \<and> mem_view s' = mem_view s \<and> mem_lost s' = mem_lost s"
    "\<exists>s'. storage_tx_commit s = Inr s' \<and> mem_ok s' \<and> mem_view s' = mem_view s \<and> mem_lost s' = mem_lost s"
    "\<exists>s' rv. storage_trim s t = Inr (s', rv) \<and> mem_ok s' \<and>
      (\<forall>i. t < i \<longrightarrow> mem_view s' i = mem_view s i \<and> mem_lost s' i = mem_lost s i)"
    using ok by (simp_all add: mem_tx)
  show "mem_lost s i \<Longrightarrow> \<exists>e. storage_get_record s i = Inl e"
    using ok by (simp add: storage_ops mem_ok_def mem_api_def mem_storage_get_def mem_lost_def)
  show "\<not> mem_lost s i \<Longrightarrow> storage_get_record s i = Inr (mem_view s i)"
    using ok by (auto simp: storage_ops mem_ok_def mem_api_def mem_storage_get_def mem_lost_def
        mem_view_def Let_def)
  show "mem_view s i = Some r \<Longrightarrow> accepted_iid r = i"
    by (auto simp: mem_view_def Let_def split: if_splits)
  show "mem_view s i = Some r \<Longrightarrow> value_wf (accepted_value r)"
    using ok by (rule mem_view_wf)
  assume wf: "value_wf (accepted_value r)" and nl: "\<not> mem_lost s (accepted_iid r)"
  have "\<not> mem_lost (mem_with s r) (accepted_iid r)" "mem_view (mem_with s r) (accepted_iid r) = Some r"
    by (simp_all add: mem_with_def mem_lost_def mem_view_def)
  moreover have "mem_lost (mem_with s r) i \<or> \<not> mem_lost s i \<and> mem_view (mem_with s r) i = mem_view s i"
    if "i \<noteq> accepted_iid r" for i
    using that nl by (auto simp: mem_with_def mem_lost_def mem_view_def Let_def not_less)
  ultimately show "\<exists>s' rv. storage_put_record s r = Inr (s', rv) \<and> mem_ok s' \<and>
      \<not> mem_lost s' (accepted_iid r) \<and> mem_view s' (accepted_iid r) = Some r \<and>
      (\<forall>i. i \<noteq> accepted_iid r \<longrightarrow> mem_lost s' i \<or> \<not> mem_lost s i \<and> mem_view s' i = mem_view s i)"
    using ok wf mem_with_ok [OF ok wf] by (simp add: mem_put_record)
qed

section \<open>Properties\<close>

text \<open>
  What the in-memory storage returns after a record is stored: the record itself, the old
  answer for an instance of another slot, nothing for a newer instance of the same slot, and
  the end of the process for an older one of the same slot (\<open>mem_storage_get\<close> calls
  \<open>exit\<close>): at most the last \<open>MAX_RECORDS\<close> instances can be read.
\<close>

theorem mem_get_after_put:
  assumes "mem_ok s" and "value_wf (accepted_value r)"
  shows "\<exists>s'. storage_put_record s r = Inr (s', 1) \<and> (\<forall>i. storage_get_record s' i =
     (if i = accepted_iid r then Inr (Some r)
      else if mem_index i = mem_index (accepted_iid r)
        then (if i < accepted_iid r then Inl ProcessExit else Inr None)
      else storage_get_record s i))"
  using assms
  by (auto simp: mem_put_record mem_with_def storage_get_record_def mem_ok_def mem_api_def mem_storage_get_def)

theorem mem_get_after_put_witness:
  "\<exists>s. storage_put_record (storage_init_mem 0) \<lparr>accepted_iid = 4097, accepted_ballot = 10,
       accepted_value_ballot = 10, accepted_value = null_value\<rparr> = Inr (s, 1) \<and>
     storage_get_record s 1 = Inl ProcessExit"
  using mem_get_after_put [OF mem_init_ok [of 0],
      of "\<lparr>accepted_iid = 4097, accepted_ballot = 10, accepted_value_ballot = 10, accepted_value = null_value\<rparr>"]
  by (auto simp: mem_index_def MAX_RECORDS_def)

end
