(* ===== verification/Acceptor.thy ===== *)
theory Acceptor
  imports Storage
begin

text \<open>
  \<open>paxos/acceptor.c\<close>. The acceptor is a trim point and a storage; each handler takes the
  state and a request and returns the new state and the reply, where the reply is \<open>None\<close>
  when the C function returns 0 and leaves \<open>out\<close> alone. The lemmas are proved once, for
  every backend that keeps the promise of \<open>record_store\<close>, and hold for the in-memory
  backend through its interpretation \<open>ms\<close>.
\<close>

section \<open>The handlers\<close>

record 'h acceptor =
  acc_trim_iid :: iid_t
  acc_store :: "'h storage"

definition paxos_accepted_to_promise :: "paxos_accepted \<Rightarrow> paxos_message" where
  "paxos_accepted_to_promise acc =
     PAXOS_PROMISE \<lparr>promise_iid = accepted_iid acc, promise_ballot = accepted_ballot acc,
       promise_value_ballot = accepted_value_ballot acc,
       promise_value = \<lparr>paxos_value_len = paxos_value_len (accepted_value acc),
                        paxos_value_val = paxos_value_val (accepted_value acc)\<rparr>\<rparr>"

definition paxos_accept_to_accepted :: "paxos_accept \<Rightarrow> paxos_accepted" where
  "paxos_accept_to_accepted acc =
     (let value_size = paxos_value_len (accept_value acc);
          val = (if 0 < value_size
                 then memcpy_bytes value_size (paxos_value_val (accept_value acc)) else None)
      in \<lparr>accepted_iid = accept_iid acc, accepted_ballot = accept_ballot acc,
          accepted_value_ballot = accept_ballot acc,
          accepted_value = \<lparr>paxos_value_len = value_size, paxos_value_val = val\<rparr>\<rparr>)"

definition paxos_accepted_to_preempted :: "paxos_accepted \<Rightarrow> paxos_message" where
  "paxos_accepted_to_preempted acc =
     PAXOS_PREEMPTED \<lparr>preempted_iid = accepted_iid acc, preempted_ballot = accepted_ballot acc\<rparr>"

text \<open>
  \<open>acceptor_new\<close> after \<open>storage_init\<close> has filled the table: it returns \<open>NULL\<close> (\<open>None\<close>)
  when the storage does not open, and reads the trim point in a transaction.
\<close>

definition acceptor_new_on :: "'h storage \<Rightarrow> 'h acceptor option outcome" where
  "acceptor_new_on store =
     bindE (storage_open store) (\<lambda>(store, rv).
       if rv < 0 then Inr None
       else bindE (storage_tx_begin store) (\<lambda>store.
            bindE (storage_get_trim_instance store) (\<lambda>trim.
            bindE (storage_tx_commit store) (\<lambda>store.
              Inr (Some \<lparr>acc_trim_iid = trim, acc_store = store\<rparr>)))))"

definition acceptor_new :: "paxos_config \<Rightarrow> int \<Rightarrow> mem_storage acceptor option outcome" where
  "acceptor_new cfg acceptor_id = bindE (storage_init cfg acceptor_id) acceptor_new_on"

definition acceptor_free :: "'h acceptor \<Rightarrow> ('h storage \<times> int) outcome" where
  "acceptor_free a = storage_close (acc_store a)"

definition acceptor_receive_prepare ::
  "'h acceptor \<Rightarrow> paxos_prepare \<Rightarrow> ('h acceptor \<times> paxos_message option) outcome" where
  "acceptor_receive_prepare a req =
     (if prepare_iid req \<le> acc_trim_iid a then Inr (a, None)
      else bindE (storage_tx_begin (acc_store a)) (\<lambda>s.
        bindE (storage_get_record s (prepare_iid req)) (\<lambda>found.
        let acc = (case found of None \<Rightarrow> zero_accepted | Some r \<Rightarrow> r) in
        bindE (if found = None \<or> accepted_ballot acc \<le> prepare_ballot req
               then let acc = acc\<lparr>accepted_iid := prepare_iid req, accepted_ballot := prepare_ballot req\<rparr>
                    in bindE (storage_put_record s acc) (\<lambda>(s, _). Inr (s, acc))
               else Inr (s, acc)) (\<lambda>(s, acc).
        bindE (storage_tx_commit s) (\<lambda>s.
          Inr (a\<lparr>acc_store := s\<rparr>, Some (paxos_accepted_to_promise acc)))))))"

definition acceptor_receive_accept ::
  "'h acceptor \<Rightarrow> paxos_accept \<Rightarrow> ('h acceptor \<times> paxos_message option) outcome" where
  "acceptor_receive_accept a req =
     (if accept_iid req \<le> acc_trim_iid a then Inr (a, None)
      else bindE (storage_tx_begin (acc_store a)) (\<lambda>s.
        bindE (storage_get_record s (accept_iid req)) (\<lambda>found.
        let acc = (case found of None \<Rightarrow> zero_accepted | Some r \<Rightarrow> r) in
        bindE (if found = None \<or> accepted_ballot acc \<le> accept_ballot req
               then let r = paxos_accept_to_accepted req
                    in bindE (storage_put_record s r) (\<lambda>(s, _). Inr (s, PAXOS_ACCEPTED r))
               else Inr (s, paxos_accepted_to_preempted acc)) (\<lambda>(s, out).
        bindE (storage_tx_commit s) (\<lambda>s. Inr (a\<lparr>acc_store := s\<rparr>, Some out))))))"

text \<open>The answer to a repeat request: a stored record that has a value.\<close>

definition acceptor_receive_repeat ::
  "'h acceptor \<Rightarrow> iid_t \<Rightarrow> ('h acceptor \<times> paxos_accepted option) outcome" where
  "acceptor_receive_repeat a iid =
     bindE (storage_tx_begin (acc_store a)) (\<lambda>s.
     bindE (storage_get_record s iid) (\<lambda>found.
     bindE (storage_tx_commit s) (\<lambda>s.
       Inr (a\<lparr>acc_store := s\<rparr>,
            case found of
              None \<Rightarrow> None
            | Some r \<Rightarrow> if 0 < paxos_value_len (accepted_value r) then Some r else None))))"

definition acceptor_receive_trim :: "'h acceptor \<Rightarrow> paxos_trim \<Rightarrow> ('h acceptor \<times> bool) outcome" where
  "acceptor_receive_trim a trim =
     (if trim_iid trim \<le> acc_trim_iid a then Inr (a, False)
      else bindE (storage_tx_begin (acc_store a)) (\<lambda>s.
           bindE (storage_trim s (trim_iid trim)) (\<lambda>(s, _).
           bindE (storage_tx_commit s) (\<lambda>s.
             Inr (a\<lparr>acc_trim_iid := trim_iid trim, acc_store := s\<rparr>, True)))))"

definition acceptor_set_current_state :: "'h acceptor \<Rightarrow> paxos_acceptor_state" where
  "acceptor_set_current_state a = \<lparr>state_trim_iid = acc_trim_iid a\<rparr>"

section \<open>Records an acceptor writes\<close>

definition prepared :: "paxos_accepted option \<Rightarrow> paxos_prepare \<Rightarrow> paxos_accepted" where
  "prepared found req =
     (case found of
        None \<Rightarrow> zero_accepted\<lparr>accepted_iid := prepare_iid req, accepted_ballot := prepare_ballot req\<rparr>
      | Some r \<Rightarrow>
          if accepted_ballot r \<le> prepare_ballot req
          then r\<lparr>accepted_iid := prepare_iid req, accepted_ballot := prepare_ballot req\<rparr> else r)"

definition promised :: "paxos_accepted option \<Rightarrow> ballot_t \<Rightarrow> bool" where
  "promised found b \<longleftrightarrow> (case found of None \<Rightarrow> True | Some r \<Rightarrow> accepted_ballot r \<le> b)"

lemma accept_to_accepted_fields [simp]:
  "accepted_iid (paxos_accept_to_accepted req) = accept_iid req"
  "accepted_ballot (paxos_accept_to_accepted req) = accept_ballot req"
  "accepted_value_ballot (paxos_accept_to_accepted req) = accept_ballot req"
  "paxos_value_len (accepted_value (paxos_accept_to_accepted req)) = paxos_value_len (accept_value req)"
  by (simp_all add: paxos_accept_to_accepted_def Let_def)

lemma accept_to_accepted_value:
  assumes "value_wf (accept_value req)" and "0 < paxos_value_len (accept_value req)"
  shows "accepted_value (paxos_accept_to_accepted req) = accept_value req"
  using assms(2) memcpy_bytes_wf [OF assms(1)]
  by (simp add: paxos_accept_to_accepted_def Let_def)

lemma accept_to_accepted_wf:
  assumes "value_wf (accept_value req)"
  shows "value_wf (accepted_value (paxos_accept_to_accepted req))"
proof (cases "0 < paxos_value_len (accept_value req)")
  case True
  then show ?thesis using assms by (simp add: accept_to_accepted_value)
next
  case False
  then show ?thesis
    using assms by (auto simp: paxos_accept_to_accepted_def value_wf_def split: option.splits)
qed

lemma zero_accepted_wf [simp]: "value_wf (accepted_value zero_accepted)"
  by (simp add: zero_accepted_def)

lemma prepared_iid:
  "(\<And>r. found = Some r \<Longrightarrow> accepted_iid r = prepare_iid req) \<Longrightarrow>
   accepted_iid (prepared found req) = prepare_iid req"
  by (auto simp: prepared_def split: option.splits)

lemma prepared_value_wf:
  "(\<And>r. found = Some r \<Longrightarrow> value_wf (accepted_value r)) \<Longrightarrow>
   value_wf (accepted_value (prepared found req))"
  by (auto simp: prepared_def split: option.splits)

section \<open>Histories\<close>

text \<open>A history of one acceptor, with its replies.\<close>

datatype acceptor_event =
    A_prepare paxos_prepare
  | A_accept paxos_accept
  | A_repeat iid_t
  | A_trim paxos_trim

fun acceptor_exec ::
  "'h acceptor \<Rightarrow> acceptor_event \<Rightarrow> ('h acceptor \<times> paxos_message option) outcome" where
  "acceptor_exec a (A_prepare m) = acceptor_receive_prepare a m"
| "acceptor_exec a (A_accept m) = acceptor_receive_accept a m"
| "acceptor_exec a (A_repeat i) = map_sum id (map_prod id (map_option PAXOS_ACCEPTED)) (acceptor_receive_repeat a i)"
| "acceptor_exec a (A_trim t) = map_sum id (map_prod id (\<lambda>_. None)) (acceptor_receive_trim a t)"

fun acceptor_run ::
  "'h acceptor \<Rightarrow> acceptor_event list \<Rightarrow> ('h acceptor \<times> paxos_message option list) outcome" where
  "acceptor_run a [] = Inr (a, [])"
| "acceptor_run a (e # es) =
     (case acceptor_exec a e of
        Inl x \<Rightarrow> Inl x
      | Inr (a', out) \<Rightarrow> map_sum id (map_prod id ((#) out)) (acceptor_run a' es))"

fun acceptor_event_ok :: "acceptor_event \<Rightarrow> bool" where
  "acceptor_event_ok (A_accept m) \<longleftrightarrow> value_wf (accept_value m)"
| "acceptor_event_ok e \<longleftrightarrow> True"

lemma acceptor_run_Cons:
  assumes "acceptor_run a (e # es) = Inr (a2, outs)"
  obtains a1 out outs1 where "acceptor_exec a e = Inr (a1, out)" "acceptor_run a1 es = Inr (a2, outs1)"
    "outs = out # outs1"
  using assms by (cases "acceptor_exec a e"; cases "acceptor_run (fst (projr (acceptor_exec a e))) es")
    (auto split: prod.splits)

section \<open>The handlers over an abstract store\<close>

context record_store
begin

text \<open>The record of an instance an acceptor still answers for.\<close>

definition answers :: "'h acceptor \<Rightarrow> iid_t \<Rightarrow> bool" where
  "answers a i \<longleftrightarrow> acc_trim_iid a < i \<and> \<not> lost (acc_store a) i"

definition acc_ok :: "'h acceptor \<Rightarrow> bool" where
  "acc_ok a \<longleftrightarrow> ok (acc_store a)"

text \<open>
  What storing a record of instance \<open>j\<close> does to the records an acceptor answers for:
  instance \<open>j\<close> has the new record, every other instance keeps its record or is lost.
\<close>

definition stores :: "'h acceptor \<Rightarrow> paxos_accepted \<Rightarrow> 'h acceptor \<Rightarrow> bool" where
  "stores a r a' \<longleftrightarrow>
     acc_ok a' \<and> acc_trim_iid a' = acc_trim_iid a \<and>
     \<not> lost (acc_store a') (accepted_iid r) \<and> view (acc_store a') (accepted_iid r) = Some r \<and>
     (\<forall>i. i \<noteq> accepted_iid r \<longrightarrow> \<not> lost (acc_store a') i \<longrightarrow>
        \<not> lost (acc_store a) i \<and> view (acc_store a') i = view (acc_store a) i)"

definition keeps :: "'h acceptor \<Rightarrow> 'h acceptor \<Rightarrow> bool" where
  "keeps a a' \<longleftrightarrow>
     acc_ok a' \<and> acc_trim_iid a' = acc_trim_iid a \<and>
     view (acc_store a') = view (acc_store a) \<and> lost (acc_store a') = lost (acc_store a)"

lemma keeps_refl: "acc_ok a \<Longrightarrow> keeps a a"
  by (simp add: keeps_def)

text \<open>What a transaction with one put, and one without, does to an acceptor.\<close>

lemma tx_put:
  assumes "acc_ok a" and "value_wf (accepted_value r)" and "0 < accepted_iid r"
    and "\<not> lost (acc_store a) (accepted_iid r)"
  obtains s s1 rv s2 where "storage_tx_begin (acc_store a) = Inr s" "busy s" "view s = view (acc_store a)"
    "lost s = lost (acc_store a)" "storage_put_record s r = Inr (s1, rv)" "storage_tx_commit s1 = Inr s2"
    "stores a r (a\<lparr>acc_store := s2\<rparr>)"
proof -
  obtain s where s: "storage_tx_begin (acc_store a) = Inr s" "busy s" "view s = view (acc_store a)"
    "lost s = lost (acc_store a)" using tx_begin assms(1) by (auto simp: acc_ok_def)
  obtain s1 rv where p: "storage_put_record s r = Inr (s1, rv)" "busy s1" "\<not> lost s1 (accepted_iid r)"
    "view s1 (accepted_iid r) = Some r" "\<forall>i. i \<noteq> accepted_iid r \<longrightarrow> lost s1 i \<or> \<not> lost s i \<and> view s1 i = view s i"
    using put [OF s(2) assms(2,3)] assms(4) s(4) by auto
  obtain s2 where c: "storage_tx_commit s1 = Inr s2" "ok s2" "view s2 = view s1" "lost s2 = lost s1"
    using tx_commit [OF p(2)] by auto
  have "stores a r (a\<lparr>acc_store := s2\<rparr>)" using p c s by (auto simp: stores_def acc_ok_def)
  then show thesis using that s p(1) c(1) by blast
qed

lemma tx_read:
  assumes "acc_ok a"
  obtains s s2 where "storage_tx_begin (acc_store a) = Inr s" "busy s" "view s = view (acc_store a)"
    "lost s = lost (acc_store a)" "storage_tx_commit s = Inr s2" "keeps a (a\<lparr>acc_store := s2\<rparr>)"
proof -
  obtain s where s: "storage_tx_begin (acc_store a) = Inr s" "busy s" "view s = view (acc_store a)"
    "lost s = lost (acc_store a)" using tx_begin assms by (auto simp: acc_ok_def)
  obtain s2 where c: "storage_tx_commit s = Inr s2" "ok s2" "view s2 = view s" "lost s2 = lost s"
    using tx_commit [OF s(2)] by auto
  have "keeps a (a\<lparr>acc_store := s2\<rparr>)" using s c by (simp add: keeps_def acc_ok_def)
  then show thesis using that s c(1) by blast
qed

lemma prepare_lost:
  assumes "acc_ok a" and "acc_trim_iid a < prepare_iid req" and "lost (acc_store a) (prepare_iid req)"
  shows "\<exists>e. acceptor_receive_prepare a req = Inl e"
proof -
  obtain s where s: "storage_tx_begin (acc_store a) = Inr s" "busy s" "lost s = lost (acc_store a)"
    by (rule tx_read [OF assms(1)])
  then show ?thesis using get_lost [OF s(2)] assms(2,3) by (fastforce simp: acceptor_receive_prepare_def)
qed

lemma accept_lost:
  assumes "acc_ok a" and "acc_trim_iid a < accept_iid req" and "lost (acc_store a) (accept_iid req)"
  shows "\<exists>e. acceptor_receive_accept a req = Inl e"
proof -
  obtain s where s: "storage_tx_begin (acc_store a) = Inr s" "busy s" "lost s = lost (acc_store a)"
    by (rule tx_read [OF assms(1)])
  then show ?thesis using get_lost [OF s(2)] assms(2,3) by (fastforce simp: acceptor_receive_accept_def)
qed

lemma prepare_promises:
  assumes "acc_ok a" and "answers a (prepare_iid req)"
    and "promised (view (acc_store a) (prepare_iid req)) (prepare_ballot req)"
  defines "r \<equiv> prepared (view (acc_store a) (prepare_iid req)) req"
  shows "\<exists>a'. acceptor_receive_prepare a req = Inr (a', Some (paxos_accepted_to_promise r)) \<and> stores a r a' \<and>
    accepted_iid r = prepare_iid req \<and> accepted_ballot r = prepare_ballot req"
proof -
  have iid: "accepted_iid r = prepare_iid req"
    unfolding r_def using view_iid assms(1) by (intro prepared_iid) (auto simp: acc_ok_def)
  have wf: "value_wf (accepted_value r)"
    unfolding r_def using view_value_wf assms(1) by (intro prepared_value_wf) (auto simp: acc_ok_def)
  have an: "acc_trim_iid a < prepare_iid req" "\<not> lost (acc_store a) (accepted_iid r)"
    using assms(2) iid by (simp_all add: answers_def)
  have pos: "0 < accepted_iid r" using an(1) iid word_gt_0 by fastforce
  obtain s s1 rv s2 where x: "storage_tx_begin (acc_store a) = Inr s" "busy s" "view s = view (acc_store a)"
    "lost s = lost (acc_store a)" "storage_put_record s r = Inr (s1, rv)" "storage_tx_commit s1 = Inr s2"
    "stores a r (a\<lparr>acc_store := s2\<rparr>)" by (rule tx_put [OF assms(1) wf pos an(2)])
  have g: "storage_get_record s (prepare_iid req) = Inr (view (acc_store a) (prepare_iid req))"
    using get_view [OF x(2)] an(2) x(3,4) iid by simp
  have "accepted_ballot r = prepare_ballot req"
    using assms(3) by (auto simp: r_def prepared_def promised_def split: option.splits)
  moreover have "acceptor_receive_prepare a req = Inr (a\<lparr>acc_store := s2\<rparr>, Some (paxos_accepted_to_promise r))"
    using an(1) x(1,5,6) g assms(3)
    by (auto simp: acceptor_receive_prepare_def Let_def r_def prepared_def promised_def split: option.splits)
  ultimately show ?thesis using x(7) iid by blast
qed

lemma prepare_higher:
  assumes "acc_ok a" and "answers a (prepare_iid req)"
    and "view (acc_store a) (prepare_iid req) = Some r" and "prepare_ballot req < accepted_ballot r"
  shows "\<exists>a'. acceptor_receive_prepare a req = Inr (a', Some (paxos_accepted_to_promise r)) \<and> keeps a a'"
proof -
  obtain s s2 where x: "storage_tx_begin (acc_store a) = Inr s" "busy s" "view s = view (acc_store a)"
    "lost s = lost (acc_store a)" "storage_tx_commit s = Inr s2" "keeps a (a\<lparr>acc_store := s2\<rparr>)"
    by (rule tx_read [OF assms(1)])
  have g: "storage_get_record s (prepare_iid req) = Inr (Some r)"
    using get_view [OF x(2)] assms(2,3) x(3,4) by (simp add: answers_def)
  show ?thesis
    using assms(2,4) x(1,5,6) g by (auto simp: acceptor_receive_prepare_def Let_def answers_def)
qed

lemma accept_accepts:
  assumes "acc_ok a" and "answers a (accept_iid req)" and "value_wf (accept_value req)"
    and "promised (view (acc_store a) (accept_iid req)) (accept_ballot req)"
  shows "\<exists>a'. acceptor_receive_accept a req = Inr (a', Some (PAXOS_ACCEPTED (paxos_accept_to_accepted req))) \<and>
    stores a (paxos_accept_to_accepted req) a'"
proof -
  let ?r = "paxos_accept_to_accepted req"
  have an: "acc_trim_iid a < accept_iid req" "\<not> lost (acc_store a) (accepted_iid ?r)"
    using assms(2) by (simp_all add: answers_def)
  have pos: "0 < accepted_iid ?r" using an(1) word_gt_0 by fastforce
  obtain s s1 rv s2 where x: "storage_tx_begin (acc_store a) = Inr s" "busy s" "view s = view (acc_store a)"
    "lost s = lost (acc_store a)" "storage_put_record s ?r = Inr (s1, rv)" "storage_tx_commit s1 = Inr s2"
    "stores a ?r (a\<lparr>acc_store := s2\<rparr>)"
    by (rule tx_put [OF assms(1) accept_to_accepted_wf [OF assms(3)] pos an(2)])
  have g: "storage_get_record s (accept_iid req) = Inr (view (acc_store a) (accept_iid req))"
    using get_view [OF x(2)] an(2) x(3,4) by simp
  have "acceptor_receive_accept a req = Inr (a\<lparr>acc_store := s2\<rparr>, Some (PAXOS_ACCEPTED ?r))"
    using an(1) x(1,5,6) g assms(4)
    by (auto simp: acceptor_receive_accept_def Let_def promised_def split: option.splits)
  then show ?thesis using x(7) by blast
qed

lemma accept_preempts:
  assumes "acc_ok a" and "answers a (accept_iid req)"
    and "view (acc_store a) (accept_iid req) = Some r" and "accept_ballot req < accepted_ballot r"
  shows "\<exists>a'. acceptor_receive_accept a req = Inr (a', Some (paxos_accepted_to_preempted r)) \<and> keeps a a'"
proof -
  obtain s s2 where x: "storage_tx_begin (acc_store a) = Inr s" "busy s" "view s = view (acc_store a)"
    "lost s = lost (acc_store a)" "storage_tx_commit s = Inr s2" "keeps a (a\<lparr>acc_store := s2\<rparr>)"
    by (rule tx_read [OF assms(1)])
  have g: "storage_get_record s (accept_iid req) = Inr (Some r)"
    using get_view [OF x(2)] assms(2,3) x(3,4) by (simp add: answers_def)
  show ?thesis
    using assms(2,4) x(1,5,6) g by (auto simp: acceptor_receive_accept_def Let_def answers_def)
qed

text \<open>The four ways a prepare can end.\<close>

lemma prepare_cases:
  assumes "acc_ok a" and "acceptor_receive_prepare a req = Inr (a', out)"
  obtains
    (trimmed) "prepare_iid req \<le> acc_trim_iid a" "a' = a" "out = None"
  | (promise) r where "answers a (prepare_iid req)"
      "r = prepared (view (acc_store a) (prepare_iid req)) req"
      "promised (view (acc_store a) (prepare_iid req)) (prepare_ballot req)"
      "stores a r a'" "accepted_iid r = prepare_iid req" "accepted_ballot r = prepare_ballot req"
      "out = Some (paxos_accepted_to_promise r)"
  | (higher) r where "answers a (prepare_iid req)"
      "view (acc_store a) (prepare_iid req) = Some r" "prepare_ballot req < accepted_ballot r"
      "keeps a a'" "out = Some (paxos_accepted_to_promise r)"
proof (cases "prepare_iid req \<le> acc_trim_iid a")
  case True
  then have "a' = a" "out = None" using assms by (simp_all add: acceptor_receive_prepare_def)
  with True show ?thesis by (rule trimmed)
next
  case False
  let ?found = "view (acc_store a) (prepare_iid req)"
  have ans: "answers a (prepare_iid req)"
    using False prepare_lost [OF assms(1), of req] assms(2) by (auto simp: answers_def not_le)
  show ?thesis
  proof (cases "promised ?found (prepare_ballot req)")
    case True
    then show ?thesis using prepare_promises [OF assms(1) ans True] assms(2) ans by (intro promise) auto
  next
    case high: False
    then obtain r where r: "?found = Some r" "prepare_ballot req < accepted_ballot r"
      by (auto simp: promised_def not_le split: option.splits)
    then show ?thesis using prepare_higher [OF assms(1) ans r] assms(2) ans by (intro higher [OF ans r]) auto
  qed
qed

lemma accept_request_cases:
  assumes "acc_ok a" and "value_wf (accept_value req)"
    and "acceptor_receive_accept a req = Inr (a', out)"
  obtains
    (trimmed) "accept_iid req \<le> acc_trim_iid a" "a' = a" "out = None"
  | (accepted) "answers a (accept_iid req)"
      "promised (view (acc_store a) (accept_iid req)) (accept_ballot req)"
      "stores a (paxos_accept_to_accepted req) a'"
      "out = Some (PAXOS_ACCEPTED (paxos_accept_to_accepted req))"
  | (preempted) r where "answers a (accept_iid req)"
      "view (acc_store a) (accept_iid req) = Some r" "accept_ballot req < accepted_ballot r"
      "keeps a a'" "out = Some (paxos_accepted_to_preempted r)"
proof (cases "accept_iid req \<le> acc_trim_iid a")
  case True
  then have "a' = a" "out = None" using assms by (simp_all add: acceptor_receive_accept_def)
  with True show ?thesis by (rule trimmed)
next
  case False
  let ?found = "view (acc_store a) (accept_iid req)"
  have ans: "answers a (accept_iid req)"
    using False accept_lost [OF assms(1), of req] assms(3) by (auto simp: answers_def not_le)
  show ?thesis
  proof (cases "promised ?found (accept_ballot req)")
    case True
    then show ?thesis using accept_accepts [OF assms(1) ans assms(2) True] assms(3) ans by (intro accepted) auto
  next
    case high: False
    then obtain r where r: "?found = Some r" "accept_ballot req < accepted_ballot r"
      by (auto simp: promised_def not_le split: option.splits)
    then show ?thesis using accept_preempts [OF assms(1) ans r] assms(3) by (intro preempted [OF ans r]) auto
  qed
qed

lemma prepare_total:
  assumes "acc_ok a" and "prepare_iid req \<le> acc_trim_iid a \<or> \<not> lost (acc_store a) (prepare_iid req)"
  shows "\<exists>a' out. acceptor_receive_prepare a req = Inr (a', out) \<and> acc_ok a'"
proof (cases "prepare_iid req \<le> acc_trim_iid a")
  case False
  then have ans: "answers a (prepare_iid req)" using assms(2) by (auto simp: answers_def not_le [symmetric])
  show ?thesis
  proof (cases "promised (view (acc_store a) (prepare_iid req)) (prepare_ballot req)")
    case True
    then show ?thesis using prepare_promises [OF assms(1) ans True] by (auto simp: stores_def)
  next
    case False
    then obtain r where "view (acc_store a) (prepare_iid req) = Some r" "prepare_ballot req < accepted_ballot r"
      by (auto simp: promised_def not_le split: option.splits)
    then show ?thesis using prepare_higher [OF assms(1) ans] by (fastforce simp: keeps_def)
  qed
qed (simp add: acceptor_receive_prepare_def assms(1))

lemma accept_total:
  assumes "acc_ok a" and "value_wf (accept_value req)"
    and "accept_iid req \<le> acc_trim_iid a \<or> \<not> lost (acc_store a) (accept_iid req)"
  shows "\<exists>a' out. acceptor_receive_accept a req = Inr (a', out) \<and> acc_ok a'"
proof (cases "accept_iid req \<le> acc_trim_iid a")
  case False
  then have ans: "answers a (accept_iid req)" using assms(3) by (auto simp: answers_def not_le [symmetric])
  show ?thesis
  proof (cases "promised (view (acc_store a) (accept_iid req)) (accept_ballot req)")
    case True
    then show ?thesis using accept_accepts [OF assms(1) ans assms(2) True] by (auto simp: stores_def)
  next
    case False
    then obtain r where "view (acc_store a) (accept_iid req) = Some r" "accept_ballot req < accepted_ballot r"
      by (auto simp: promised_def not_le split: option.splits)
    then show ?thesis using accept_preempts [OF assms(1) ans] by (fastforce simp: keeps_def)
  qed
qed (simp add: acceptor_receive_accept_def assms(1))

lemma repeat_spec:
  assumes "acc_ok a" and "\<not> lost (acc_store a) i"
  shows "\<exists>a'. acceptor_receive_repeat a i = Inr (a',
      case view (acc_store a) i of
        None \<Rightarrow> None
      | Some r \<Rightarrow> if 0 < paxos_value_len (accepted_value r) then Some r else None) \<and> keeps a a'"
proof -
  obtain s s2 where x: "storage_tx_begin (acc_store a) = Inr s" "busy s" "view s = view (acc_store a)"
    "lost s = lost (acc_store a)" "storage_tx_commit s = Inr s2" "keeps a (a\<lparr>acc_store := s2\<rparr>)"
    by (rule tx_read [OF assms(1)])
  then show ?thesis using get_view [OF x(2)] assms(2) by (auto simp: acceptor_receive_repeat_def)
qed

lemma repeat_lost:
  assumes "acc_ok a" and "lost (acc_store a) i"
  shows "\<exists>e. acceptor_receive_repeat a i = Inl e"
proof -
  obtain s where s: "storage_tx_begin (acc_store a) = Inr s" "busy s" "lost s = lost (acc_store a)"
    by (rule tx_read [OF assms(1)])
  then show ?thesis using get_lost [OF s(2)] assms(2) by (fastforce simp: acceptor_receive_repeat_def)
qed

lemma repeat_cases:
  assumes "acc_ok a" and "acceptor_receive_repeat a i = Inr (a', out)"
  shows "\<not> lost (acc_store a) i \<and> keeps a a' \<and> (\<forall>r. out = Some r \<longrightarrow> view (acc_store a) i = Some r)"
proof -
  have nl: "\<not> lost (acc_store a) i" using repeat_lost [OF assms(1), of i] assms(2) by auto
  then show ?thesis using repeat_spec [OF assms(1) nl] assms(2) by (auto split: option.splits if_splits)
qed

lemma trim_spec:
  assumes "acc_ok a"
  shows "\<exists>a'. acceptor_receive_trim a t = Inr (a', acc_trim_iid a < trim_iid t) \<and>
    acc_ok a' \<and> acc_trim_iid a' = max (acc_trim_iid a) (trim_iid t) \<and>
    (\<forall>i. acc_trim_iid a' < i \<longrightarrow>
       view (acc_store a') i = view (acc_store a) i \<and> lost (acc_store a') i = lost (acc_store a) i)"
proof (cases "trim_iid t \<le> acc_trim_iid a")
  case True
  then show ?thesis using assms by (auto simp: acceptor_receive_trim_def max_def)
next
  case False
  obtain s where s: "storage_tx_begin (acc_store a) = Inr s" "busy s" "view s = view (acc_store a)"
    "lost s = lost (acc_store a)" by (rule tx_read [OF assms])
  have "0 < trim_iid t" using False word_gt_0 by fastforce
  then obtain s1 rv where t: "storage_trim s (trim_iid t) = Inr (s1, rv)" "busy s1"
    "\<forall>i. trim_iid t < i \<longrightarrow> view s1 i = view s i \<and> lost s1 i = lost s i"
    using trim [OF s(2)] by blast
  obtain s2 where c: "storage_tx_commit s1 = Inr s2" "ok s2" "view s2 = view s1" "lost s2 = lost s1"
    using tx_commit [OF t(2)] by auto
  show ?thesis
    using False s t c by (auto simp: acceptor_receive_trim_def acc_ok_def max_def)
qed

text \<open>
  The promise: once an instance has a record with ballot \<open>b\<close>, every later record of that
  instance has a ballot of at least \<open>b\<close>, as long as the acceptor answers for it.
\<close>

definition at_least :: "'h acceptor \<Rightarrow> iid_t \<Rightarrow> ballot_t \<Rightarrow> bool" where
  "at_least a i b \<longleftrightarrow>
     (answers a i \<longrightarrow> (\<exists>r. view (acc_store a) i = Some r \<and> b \<le> accepted_ballot r))"

lemma at_least_keeps: "keeps a a' \<Longrightarrow> at_least a i b \<Longrightarrow> at_least a' i b"
  by (simp add: keeps_def at_least_def answers_def)

lemma at_least_stores:
  assumes "stores a r a'" and "at_least a i b"
    and "i = accepted_iid r \<Longrightarrow> answers a i \<Longrightarrow> b \<le> accepted_ballot r"
    and "answers a (accepted_iid r)"
  shows "at_least a' i b"
proof (cases "i = accepted_iid r")
  case True
  then show ?thesis using assms(1,3,4) by (auto simp: stores_def at_least_def)
next
  case False
  then show ?thesis using assms(1,2) by (auto simp: stores_def at_least_def answers_def)
qed

lemma at_least_prepare:
  assumes "acc_ok a" and "acceptor_receive_prepare a req = Inr (a', out)" and "at_least a i b"
  shows "at_least a' i b"
  using assms(1,2)
proof (cases rule: prepare_cases)
  case trimmed
  then show ?thesis using assms(3) by simp
next
  case (promise r)
  show ?thesis
  proof (rule at_least_stores [OF promise(4) assms(3)])
    assume "i = accepted_iid r" "answers a i"
    then show "b \<le> accepted_ballot r"
      using promise(3,5,6) assms(3) by (auto simp: at_least_def promised_def)
  next
    show "answers a (accepted_iid r)" using promise(1,5) by simp
  qed
next
  case (higher r)
  then show ?thesis using assms(3) at_least_keeps by blast
qed

lemma at_least_accept:
  assumes "acc_ok a" and "value_wf (accept_value req)"
    and "acceptor_receive_accept a req = Inr (a', out)" and "at_least a i b"
  shows "at_least a' i b"
  using assms(1-3)
proof (cases rule: accept_request_cases)
  case trimmed
  then show ?thesis using assms(4) by simp
next
  case accepted
  show ?thesis
  proof (rule at_least_stores [OF accepted(3) assms(4)])
    assume "i = accepted_iid (paxos_accept_to_accepted req)" "answers a i"
    then show "b \<le> accepted_ballot (paxos_accept_to_accepted req)"
      using accepted(2) assms(4) by (auto simp: at_least_def promised_def)
  next
    show "answers a (accepted_iid (paxos_accept_to_accepted req))" using accepted(1) by simp
  qed
next
  case (preempted r)
  then show ?thesis using assms(4) at_least_keeps by blast
qed

text \<open>
  \<open>at_least\<close> holds on to the ballot of a promise through any history, and an accepted message
  of that instance is not below it.
\<close>

lemma exec_floor:
  assumes ok: "acc_ok a" and e: "acceptor_event_ok e" and x: "acceptor_exec a e = Inr (a', out)"
    and b: "at_least a i b"
  shows "acc_ok a' \<and> at_least a' i b \<and> acc_trim_iid a \<le> acc_trim_iid a' \<and>
         (\<forall>r. out = Some (PAXOS_ACCEPTED r) \<longrightarrow> accepted_iid r = i \<longrightarrow> acc_trim_iid a < i \<longrightarrow> b \<le> accepted_ballot r)"
proof (cases e)
  case (A_prepare m)
  then have r: "acceptor_receive_prepare a m = Inr (a', out)" using x by simp
  have "acc_ok a' \<and> acc_trim_iid a \<le> acc_trim_iid a' \<and> (\<forall>r. out \<noteq> Some (PAXOS_ACCEPTED r))"
    using ok r
    by (cases rule: prepare_cases) (auto simp: ok stores_def keeps_def paxos_accepted_to_promise_def)
  then show ?thesis using at_least_prepare [OF ok r b] by simp
next
  case (A_accept m)
  then have r: "acceptor_receive_accept a m = Inr (a', out)" and wf: "value_wf (accept_value m)"
    using x e by simp_all
  have "acc_ok a' \<and> acc_trim_iid a \<le> acc_trim_iid a' \<and>
      (\<forall>r. out = Some (PAXOS_ACCEPTED r) \<longrightarrow> accepted_iid r = i \<longrightarrow> b \<le> accepted_ballot r)"
    using ok wf r
  proof (cases rule: accept_request_cases)
    case accepted
    then show ?thesis
      using b by (auto simp: stores_def at_least_def promised_def)
  qed (auto simp: ok keeps_def paxos_accepted_to_preempted_def)
  then show ?thesis using at_least_accept [OF ok wf r b] by simp
next
  case (A_repeat j)
  then obtain o1 where r: "acceptor_receive_repeat a j = Inr (a', o1)" and o: "out = map_option PAXOS_ACCEPTED o1"
    using x by (cases "acceptor_receive_repeat a j") auto
  note k = repeat_cases [OF ok r]
  have "b \<le> accepted_ballot r1" if o1: "o1 = Some r1" "accepted_iid r1 = i" "acc_trim_iid a < i" for r1
  proof -
    have v: "view (acc_store a) j = Some r1" using k o1(1) by blast
    have "j = i" using view_iid [OF _ v] ok o1(2) by (simp add: acc_ok_def)
    then show ?thesis using b v k o1(3) by (auto simp: at_least_def answers_def)
  qed
  then show ?thesis using at_least_keeps [OF _ b] k o by (auto simp: keeps_def)
next
  case (A_trim t)
  obtain a1 where t: "acceptor_receive_trim a t = Inr (a1, acc_trim_iid a < trim_iid t)" "acc_ok a1"
      "acc_trim_iid a1 = max (acc_trim_iid a) (trim_iid t)"
      "\<forall>i. acc_trim_iid a1 < i \<longrightarrow> view (acc_store a1) i = view (acc_store a) i \<and> lost (acc_store a1) i = lost (acc_store a) i"
    using trim_spec [OF ok] by blast
  then have "a1 = a'" "out = None" using x A_trim by auto
  moreover have "at_least a1 i b" using b t by (auto simp: at_least_def answers_def)
  ultimately show ?thesis using t by simp
qed

lemma run_floor:
  assumes "acc_ok a" and "at_least a i b" and "\<forall>e \<in> set es. acceptor_event_ok e"
    and "acceptor_run a es = Inr (a2, outs)"
  shows "acc_ok a2 \<and> at_least a2 i b \<and> acc_trim_iid a \<le> acc_trim_iid a2 \<and>
    (\<forall>r. Some (PAXOS_ACCEPTED r) \<in> set outs \<longrightarrow> accepted_iid r = i \<longrightarrow> acc_trim_iid a2 < i \<longrightarrow> b \<le> accepted_ballot r)"
  using assms
proof (induction es arbitrary: a outs)
  case (Cons e es)
  obtain a1 out outs1 where s: "acceptor_exec a e = Inr (a1, out)" "acceptor_run a1 es = Inr (a2, outs1)"
    "outs = out # outs1" using Cons.prems(4) by (rule acceptor_run_Cons)
  note f = exec_floor [OF Cons.prems(1) _ s(1) Cons.prems(2)]
  have "acceptor_event_ok e" "\<forall>e \<in> set es. acceptor_event_ok e" using Cons.prems(3) by simp_all
  then show ?case using Cons.IH [OF _ _ _ s(2)] f s(3) by fastforce
qed simp

lemma promise_at_least:
  assumes "acc_ok a" and "acceptor_receive_prepare a req = Inr (a1, Some (PAXOS_PROMISE p))"
  shows "acc_ok a1 \<and> at_least a1 (promise_iid p) (promise_ballot p)"
  using assms
proof (cases rule: prepare_cases)
  case (promise q)
  then show ?thesis by (auto simp: stores_def at_least_def paxos_accepted_to_promise_def)
next
  case (higher q)
  have "accepted_iid q = prepare_iid req" using view_iid [OF _ higher(2)] assms(1) by (simp add: acc_ok_def)
  then show ?thesis
    using higher by (auto simp: keeps_def at_least_def paxos_accepted_to_promise_def)
qed simp

end

section \<open>Properties of an acceptor on the in-memory storage\<close>

text \<open>The record an acceptor holds for an instance, and whether it can still read it.\<close>

definition acceptor_record :: "mem_storage acceptor \<Rightarrow> iid_t \<Rightarrow> paxos_accepted option" where
  "acceptor_record a i = mem_view (acc_store a) i"

definition acceptor_serves :: "mem_storage acceptor \<Rightarrow> iid_t \<Rightarrow> bool" where
  "acceptor_serves a i \<longleftrightarrow> acc_trim_iid a < i \<and> \<not> mem_lost (acc_store a) i"

definition acceptor_wf :: "mem_storage acceptor \<Rightarrow> bool" where
  "acceptor_wf a \<longleftrightarrow> mem_ok (acc_store a)"

lemma acceptor_wf_ms: "acceptor_wf a = ms.acc_ok a"
  by (simp add: acceptor_wf_def ms.acc_ok_def)

lemma acceptor_serves_ms: "acceptor_serves a i = ms.answers a i"
  by (simp add: acceptor_serves_def ms.answers_def)

definition fresh_acceptor :: "mem_storage acceptor" where
  "fresh_acceptor = \<lparr>acc_trim_iid = 0, acc_store = storage_init_mem 0\<rparr>"

lemma fresh_acceptor_wf: "acceptor_wf fresh_acceptor"
  by (simp add: acceptor_wf_def fresh_acceptor_def mem_init_ok)

lemma fresh_acceptor_record: "0 < i \<Longrightarrow> acceptor_record fresh_acceptor i = None \<and> acceptor_serves fresh_acceptor i"
  using mem_init_view [of i 0]
  by (simp add: acceptor_record_def acceptor_serves_def fresh_acceptor_def)

text \<open>
  \<open>acceptor_receive_prepare\<close> on an instance the acceptor serves: the reply is a promise
  that carries the accepted value and its ballot, at the higher of the requested ballot and
  the recorded one, and the record is raised to that ballot; the record of another instance
  stays or becomes unreadable.
\<close>

theorem acceptor_prepare_promises:
  assumes "acceptor_wf a" and "acceptor_serves a (prepare_iid req)"
  defines "old \<equiv> (case acceptor_record a (prepare_iid req) of None \<Rightarrow> zero_accepted | Some r \<Rightarrow> r)"
  shows "\<exists>a' p r. acceptor_receive_prepare a req = Inr (a', Some (PAXOS_PROMISE p)) \<and>
     acceptor_wf a' \<and> acceptor_record a' (prepare_iid req) = Some r \<and>
     promise_iid p = prepare_iid req \<and> promise_ballot p = max (prepare_ballot req) (accepted_ballot old) \<and>
     promise_value_ballot p = accepted_value_ballot old \<and> promise_value p = accepted_value old \<and>
     accepted_ballot r = promise_ballot p \<and> accepted_value_ballot r = accepted_value_ballot old \<and>
     accepted_value r = accepted_value old \<and>
     (\<forall>i. i \<noteq> prepare_iid req \<longrightarrow> acceptor_serves a' i \<longrightarrow> acceptor_record a' i = acceptor_record a i)"
proof -
  have ok: "ms.acc_ok a" using assms(1) by (simp add: acceptor_wf_ms)
  have ans: "acc_trim_iid a < prepare_iid req" "\<not> mem_lost (acc_store a) (prepare_iid req)"
    using assms(2) by (simp_all add: acceptor_serves_def)
  then have "\<exists>a' out. acceptor_receive_prepare a req = Inr (a', out)"
    using ms.prepare_total [OF ok, of req] by blast
  then obtain a' out where rcv: "acceptor_receive_prepare a req = Inr (a', out)" by blast
  from ok rcv show ?thesis
  proof (cases rule: ms.prepare_cases)
    case trimmed
    then show ?thesis using ans(1) by simp
  next
    case (promise r)
    have r: "accepted_ballot r = max (prepare_ballot req) (accepted_ballot old)"
        "accepted_value_ballot r = accepted_value_ballot old" "accepted_value r = accepted_value old"
      using promise(2,3)
      by (auto simp: old_def acceptor_record_def prepared_def promised_def zero_accepted_def max_def split: option.splits)
    show ?thesis
      using promise(4,5,7) r rcv
      by (auto simp: ms.stores_def acceptor_wf_ms acceptor_record_def acceptor_serves_def paxos_accepted_to_promise_def)
  next
    case (higher r)
    have r: "accepted_iid r = prepare_iid req" using ms.view_iid [OF _ higher(2)] ok by (simp add: ms.acc_ok_def)
    have old: "old = r" using higher(2) by (simp add: old_def acceptor_record_def)
    show ?thesis
      using higher rcv r
      by (auto simp: ms.keeps_def acceptor_wf_ms acceptor_record_def old max_def paxos_accepted_to_promise_def)
  qed
qed

theorem acceptor_prepare_promises_witness:
  "\<exists>a' p. acceptor_receive_prepare fresh_acceptor \<lparr>prepare_iid = 1, prepare_ballot = 10\<rparr>
            = Inr (a', Some (PAXOS_PROMISE p)) \<and> promise_ballot p = 10"
proof -
  have "max (10 :: ballot_t) 0 = 10" by (simp add: max_def)
  then show ?thesis
    using acceptor_prepare_promises [OF fresh_acceptor_wf, of "\<lparr>prepare_iid = 1, prepare_ballot = 10\<rparr>"]
      fresh_acceptor_record [of 1] by (auto simp: zero_accepted_def)
qed

text \<open>
  \<open>acceptor_receive_accept\<close> on an instance the acceptor serves: it accepts exactly when it
  has not promised a higher ballot, storing and acknowledging the value at the request's
  ballot; otherwise it reports the ballot it has promised and keeps its records.
\<close>

theorem acceptor_accept_or_preempt:
  assumes "acceptor_wf a" and "acceptor_serves a (accept_iid req)" and "value_wf (accept_value req)"
  shows "\<exists>a'. acceptor_wf a' \<and>
     (case acceptor_record a (accept_iid req) of
        Some r \<Rightarrow>
          if accept_ballot req < accepted_ballot r
          then acceptor_receive_accept a req =
                 Inr (a', Some (PAXOS_PREEMPTED \<lparr>preempted_iid = accept_iid req,
                                                 preempted_ballot = accepted_ballot r\<rparr>)) \<and>
               (\<forall>i. acceptor_record a' i = acceptor_record a i)
          else acceptor_receive_accept a req = Inr (a', Some (PAXOS_ACCEPTED (paxos_accept_to_accepted req))) \<and>
               acceptor_record a' (accept_iid req) = Some (paxos_accept_to_accepted req)
      | None \<Rightarrow> acceptor_receive_accept a req = Inr (a', Some (PAXOS_ACCEPTED (paxos_accept_to_accepted req))) \<and>
               acceptor_record a' (accept_iid req) = Some (paxos_accept_to_accepted req))"
proof -
  have ok: "ms.acc_ok a" using assms(1) by (simp add: acceptor_wf_ms)
  have ans: "acc_trim_iid a < accept_iid req" "\<not> mem_lost (acc_store a) (accept_iid req)"
    using assms(2) by (simp_all add: acceptor_serves_def)
  then have "\<exists>a' out. acceptor_receive_accept a req = Inr (a', out)"
    using ms.accept_total [OF ok assms(3)] by blast
  then obtain a' out where rcv: "acceptor_receive_accept a req = Inr (a', out)" by blast
  from ok assms(3) rcv show ?thesis
  proof (cases rule: ms.accept_request_cases)
    case trimmed
    then show ?thesis using ans(1) by simp
  next
    case accepted
    have "acceptor_wf a'" "acceptor_record a' (accept_iid req) = Some (paxos_accept_to_accepted req)"
      using accepted(3) by (auto simp: ms.stores_def acceptor_wf_ms acceptor_record_def)
    moreover have "\<not> accept_ballot req < accepted_ballot r" if "acceptor_record a (accept_iid req) = Some r" for r
      using accepted(2) that by (auto simp: promised_def acceptor_record_def)
    ultimately show ?thesis
      using accepted(4) rcv by (auto split: option.split)
  next
    case (preempted r)
    have "accepted_iid r = accept_iid req" using ms.view_iid [OF _ preempted(2)] ok by (simp add: ms.acc_ok_def)
    moreover have "acceptor_wf a'" "\<forall>i. acceptor_record a' i = acceptor_record a i"
      using preempted(4) by (simp_all add: ms.keeps_def acceptor_wf_ms acceptor_record_def)
    ultimately show ?thesis
      using preempted(2,3,5) rcv by (auto simp: acceptor_record_def paxos_accepted_to_preempted_def)
  qed
qed

theorem acceptor_accept_or_preempt_witness:
  "\<exists>a' r. acceptor_receive_accept fresh_acceptor \<lparr>accept_iid = 1, accept_ballot = 10, accept_value = null_value\<rparr>
            = Inr (a', Some (PAXOS_ACCEPTED r))"
  using acceptor_accept_or_preempt [OF fresh_acceptor_wf,
      of "\<lparr>accept_iid = 1, accept_ballot = 10, accept_value = null_value\<rparr>"]
    fresh_acceptor_record [of 1] by auto

text \<open>
  C11. An acceptor keeps its promise: after answering a prepare request with a promise, whatever
  requests of any kind follow, every accepted message it sends for that instance (as an
  answer to an accept or to a repeat request) has at least the promised ballot, as long as
  the instance is not trimmed.
\<close>

theorem acceptor_keeps_promise:
  assumes "acceptor_wf a" and "acceptor_receive_prepare a req = Inr (a1, Some (PAXOS_PROMISE p))"
    and "\<forall>e \<in> set es. acceptor_event_ok e" and "acceptor_run a1 es = Inr (a2, outs)"
    and "Some (PAXOS_ACCEPTED r) \<in> set outs" and "accepted_iid r = promise_iid p"
    and "acc_trim_iid a2 < promise_iid p"
  shows "promise_ballot p \<le> accepted_ballot r"
proof -
  have ok: "ms.acc_ok a" using assms(1) by (simp add: acceptor_wf_ms)
  note p = ms.promise_at_least [OF ok assms(2)]
  show ?thesis using ms.run_floor [OF conjunct1 [OF p] conjunct2 [OF p] assms(3,4)] assms(5-7) by simp
qed

definition acc_demo_value :: paxos_value where
  "acc_demo_value = \<lparr>paxos_value_len = 1, paxos_value_val = Some [7]\<rparr>"

definition acc_demo_accepted :: paxos_accepted where
  "acc_demo_accepted = \<lparr>accepted_iid = 1, accepted_ballot = 12, accepted_value_ballot = 12,
     accepted_value = acc_demo_value\<rparr>"

definition acc_demo_events :: "acceptor_event list" where
  "acc_demo_events = [A_accept \<lparr>accept_iid = 1, accept_ballot = 9, accept_value = acc_demo_value\<rparr>,
     A_accept \<lparr>accept_iid = 1, accept_ballot = 12, accept_value = acc_demo_value\<rparr>, A_repeat 1]"

theorem acceptor_keeps_promise_witness:
  "\<exists>a1 p a2 outs. acceptor_receive_prepare fresh_acceptor \<lparr>prepare_iid = 1, prepare_ballot = 10\<rparr>
        = Inr (a1, Some (PAXOS_PROMISE p)) \<and>
     acceptor_run a1 acc_demo_events = Inr (a2, outs) \<and> Some (PAXOS_ACCEPTED acc_demo_accepted) \<in> set outs \<and>
     promise_ballot p \<le> accepted_ballot acc_demo_accepted"
proof -
  have run: "case acceptor_receive_prepare fresh_acceptor \<lparr>prepare_iid = 1, prepare_ballot = 10\<rparr> of
      Inr (a1, Some (PAXOS_PROMISE p)) \<Rightarrow>
        (case acceptor_run a1 acc_demo_events of
           Inr (a2, outs) \<Rightarrow> Some (PAXOS_ACCEPTED acc_demo_accepted) \<in> set outs \<and> promise_iid p = 1 \<and>
             acc_trim_iid a2 = 0
         | _ \<Rightarrow> False)
    | _ \<Rightarrow> False"
    by code_simp
  then obtain a1 p where p: "acceptor_receive_prepare fresh_acceptor
        \<lparr>prepare_iid = 1, prepare_ballot = 10\<rparr> = Inr (a1, Some (PAXOS_PROMISE p))"
    by (auto split: sum.splits prod.splits option.splits paxos_message.splits)
  then obtain a2 outs where r: "acceptor_run a1 acc_demo_events = Inr (a2, outs)"
      "Some (PAXOS_ACCEPTED acc_demo_accepted) \<in> set outs" "promise_iid p = 1" "acc_trim_iid a2 = 0"
    using run by (cases "acceptor_run a1 acc_demo_events") auto
  have "\<forall>e \<in> set acc_demo_events. acceptor_event_ok e"
    by (simp add: acc_demo_events_def value_wf_def acc_demo_value_def)
  then have "promise_ballot p \<le> accepted_ballot acc_demo_accepted"
    using acceptor_keeps_promise [OF fresh_acceptor_wf p _ r(1,2)] r(3,4)
    by (simp add: acc_demo_accepted_def)
  then show ?thesis using p r by blast
qed

text \<open>
  What goes wrong in \<open>acceptor_receive_repeat\<close>: the record it sends as an accepted message
  is the stored one, whose \<open>ballot\<close> a later prepare request has raised. After accepting a
  value at ballot \<open>b\<close> and promising \<open>b' > b\<close>, the acceptor answers a repeat request with an
  accepted message at ballot \<open>b'\<close>, at which it has accepted nothing.
\<close>

theorem repeat_claims_unaccepted_ballot:
  assumes "acceptor_wf a" and "acceptor_serves a (accept_iid m)" and "value_wf (accept_value m)"
    and "0 < paxos_value_len (accept_value m)"
    and "acceptor_receive_accept a m = Inr (a1, Some (PAXOS_ACCEPTED r))"
    and "accept_ballot m < b'"
    and "acceptor_receive_prepare a1 \<lparr>prepare_iid = accept_iid m, prepare_ballot = b'\<rparr> = Inr (a2, out)"
  shows "\<exists>a3 r'. acceptor_receive_repeat a2 (accept_iid m) = Inr (a3, Some r') \<and>
           accepted_ballot r' = b' \<and> accepted_value_ballot r' = accept_ballot m \<and>
           accepted_value r' = accept_value m"
proof -
  let ?i = "accept_iid m" and ?req = "\<lparr>prepare_iid = accept_iid m, prepare_ballot = b'\<rparr>"
  have ok: "ms.acc_ok a" using assms(1) by (simp add: acceptor_wf_ms)
  have st: "ms.stores a (paxos_accept_to_accepted m) a1"
    using ok assms(3,5)
    by (cases rule: ms.accept_request_cases) (auto simp: paxos_accepted_to_preempted_def)
  then have a1: "ms.acc_ok a1" "acc_trim_iid a1 = acc_trim_iid a" "\<not> mem_lost (acc_store a1) ?i"
      "mem_view (acc_store a1) ?i = Some (paxos_accept_to_accepted m)"
    by (auto simp: ms.stores_def)
  have val: "accepted_value (paxos_accept_to_accepted m) = accept_value m"
    using accept_to_accepted_value assms(3,4) by blast
  from a1(1) assms(7) have "\<exists>q. ms.stores a1 q a2 \<and> accepted_iid q = ?i \<and> accepted_ballot q = b' \<and>
      accepted_value_ballot q = accept_ballot m \<and> accepted_value q = accept_value m"
  proof (cases rule: ms.prepare_cases)
    case trimmed
    then show ?thesis using assms(2) a1(2) by (simp add: acceptor_serves_def not_le [symmetric])
  next
    case (promise q)
    then show ?thesis using a1(4) assms(6) val by (auto simp: prepared_def)
  next
    case (higher q)
    then show ?thesis using a1(4) assms(6) by auto
  qed
  then obtain q where q: "ms.stores a1 q a2" "accepted_iid q = ?i" "accepted_ballot q = b'"
      "accepted_value_ballot q = accept_ballot m" "accepted_value q = accept_value m"
    by blast
  then have "ms.acc_ok a2" "\<not> mem_lost (acc_store a2) ?i" "mem_view (acc_store a2) ?i = Some q"
    by (auto simp: ms.stores_def)
  then show ?thesis using ms.repeat_spec [of a2 ?i] q(3-5) assms(4) by auto
qed

theorem repeat_claims_unaccepted_ballot_witness:
  "\<exists>(a2 :: mem_storage acceptor) a3 r. acceptor_receive_repeat a2 1 = Inr (a3, Some r) \<and> accepted_ballot r = 20 \<and>
     accepted_value_ballot r = 12 \<and> accepted_value r = acc_demo_value"
proof -
  let ?m = "\<lparr>accept_iid = 1, accept_ballot = 12, accept_value = acc_demo_value\<rparr>"
  let ?req = "\<lparr>prepare_iid = accept_iid ?m, prepare_ballot = 20\<rparr>"
  have "case acceptor_receive_accept fresh_acceptor ?m of
      Inr (a1, Some (PAXOS_ACCEPTED r)) \<Rightarrow>
        (case acceptor_receive_prepare a1 ?req of Inr (a2, out) \<Rightarrow> True | Inl e \<Rightarrow> False)
    | _ \<Rightarrow> False"
    by code_simp
  then obtain a1 r a2 out where e: "acceptor_receive_accept fresh_acceptor ?m = Inr (a1, Some (PAXOS_ACCEPTED r))"
      "acceptor_receive_prepare a1 ?req = Inr (a2, out)"
    by (auto split: sum.splits prod.splits option.splits paxos_message.splits)
  have s: "acceptor_serves fresh_acceptor (accept_iid ?m)" using fresh_acceptor_record [of 1] by simp
  have v: "value_wf (accept_value ?m)" "0 < paxos_value_len (accept_value ?m)" "accept_ballot ?m < 20"
    by (simp_all add: acc_demo_value_def value_wf_def)
  show ?thesis using repeat_claims_unaccepted_ballot [OF fresh_acceptor_wf s v(1,2) e(1) v(3) e(2)] by auto
qed

end
