(* ===== verification/Quorum.thy ===== *)
theory Quorum
  imports PaxosTypes
begin

text \<open>
  \<open>paxos/quorum.c\<close>: the vote counter of a proposer instance. The state is the record of
  \<open>struct quorum\<close>; \<open>acceptor_ids\<close> is the array of flags, indexed by acceptor id. The
  abstract value of a counter is the set of ids whose flag is set; the interface a
  proposer relies on is the locale \<open>vote_counter\<close>.
\<close>

section \<open>The counter\<close>

record quorum =
  q_count :: int
  q_quorum :: int
  q_acceptors :: int
  q_ids :: "int list"

definition quorum_clear :: "quorum \<Rightarrow> quorum" where
  "quorum_clear q = q\<lparr>q_count := 0, q_ids := replicate (nat (q_acceptors q)) 0\<rparr>"

definition quorum_init :: "int \<Rightarrow> quorum" where
  "quorum_init acceptors =
     quorum_clear
       \<lparr>q_count = 0, q_quorum = paxos_quorum acceptors, q_acceptors = acceptors,
        q_ids = replicate (nat acceptors) 0\<rparr>"

text \<open>
  \<open>quorum_add\<close> returns 1 when the id is new and 0 when its flag was set already. An id
  outside the array is an access out of bounds.
\<close>

definition quorum_add :: "quorum \<Rightarrow> int \<Rightarrow> (quorum \<times> int) outcome" where
  "quorum_add q i =
     (if i < 0 \<or> int (length (q_ids q)) \<le> i then Inl OutOfBounds
      else if q_ids q ! nat i = 0
        then Inr (q\<lparr>q_count := q_count q + 1, q_ids := (q_ids q)[nat i := 1]\<rparr>, 1)
      else Inr (q, 0))"

definition quorum_reached :: "quorum \<Rightarrow> bool" where
  "quorum_reached q \<longleftrightarrow> q_quorum q \<le> q_count q"

section \<open>Well-formedness and the abstract set of voters\<close>

definition quorum_voters :: "quorum \<Rightarrow> int set" where
  "quorum_voters q = {i. 0 \<le> i \<and> i < int (length (q_ids q)) \<and> q_ids q ! nat i \<noteq> 0}"

definition quorum_wf :: "quorum \<Rightarrow> bool" where
  "quorum_wf q \<longleftrightarrow>
     0 \<le> q_acceptors q \<and> length (q_ids q) = nat (q_acceptors q) \<and>
     q_quorum q = paxos_quorum (q_acceptors q) \<and>
     q_count q = int (length (filter (\<lambda>x. x \<noteq> 0) (q_ids q)))"

lemma quorum_voters_range: "quorum_wf q \<Longrightarrow> quorum_voters q \<subseteq> {0..<q_acceptors q}"
  by (auto simp: quorum_voters_def quorum_wf_def)

lemma finite_quorum_voters [simp]: "finite (quorum_voters q)"
  by (rule finite_subset [of _ "{0..<int (length (q_ids q))}"]) (auto simp: quorum_voters_def)

lemma quorum_voters_image:
  "quorum_voters q = int ` {i. i < length (q_ids q) \<and> q_ids q ! i \<noteq> 0}"
proof -
  have "x \<in> int ` {i. i < length (q_ids q) \<and> q_ids q ! i \<noteq> 0}" if "x \<in> quorum_voters q" for x
    using that by (intro image_eqI [of _ _ "nat x"]) (auto simp: quorum_voters_def)
  then show ?thesis by (auto simp: quorum_voters_def)
qed

lemma quorum_count_card: "quorum_wf q \<Longrightarrow> q_count q = int (card (quorum_voters q))"
  by (simp add: quorum_wf_def quorum_voters_image card_image length_filter_eq_card)

lemma quorum_clear_wf [wf_intros]: "quorum_wf q \<Longrightarrow> quorum_wf (quorum_clear q)"
  by (simp add: quorum_wf_def quorum_clear_def filter_replicate)

lemma quorum_init_wf [wf_intros]: "0 \<le> n \<Longrightarrow> quorum_wf (quorum_init n)"
  by (simp add: quorum_wf_def quorum_init_def quorum_clear_def)

lemma quorum_clear_voters [abs_simps]: "quorum_voters (quorum_clear q) = {}"
  by (auto simp: quorum_voters_def quorum_clear_def)

lemma quorum_init_voters [abs_simps]: "quorum_voters (quorum_init n) = {}"
  by (simp add: quorum_init_def quorum_clear_voters)

lemma quorum_clear_acceptors [simp]: "q_acceptors (quorum_clear q) = q_acceptors q"
  by (simp add: quorum_clear_def)

lemma quorum_init_acceptors [simp]: "q_acceptors (quorum_init n) = n"
  by (simp add: quorum_init_def)

lemma quorum_add_defined:
  "quorum_wf q \<Longrightarrow> 0 \<le> i \<Longrightarrow> i < q_acceptors q \<Longrightarrow> \<exists>q' r. quorum_add q i = Inr (q', r)"
  by (auto simp: quorum_add_def quorum_wf_def)

lemma quorum_add_out_of_bounds:
  "quorum_wf q \<Longrightarrow> quorum_add q i = Inl OutOfBounds \<longleftrightarrow> i < 0 \<or> q_acceptors q \<le> i"
  by (auto simp: quorum_add_def quorum_wf_def)

lemma quorum_add_voters:
  assumes "quorum_add q i = Inr (q', r)"
  shows "quorum_voters q' = insert i (quorum_voters q)"
    and "r = (if i \<in> quorum_voters q then 0 else 1)"
    and "q_acceptors q' = q_acceptors q"
  using assms
  by (auto simp: quorum_add_def quorum_voters_def nth_list_update split: if_splits)

lemma quorum_add_wf:
  assumes "quorum_wf q" and "quorum_add q i = Inr (q', r)"
  shows "quorum_wf q'"
proof (cases "q_ids q ! nat i = 0")
  case True
  from assms have i: "nat i < length (q_ids q)"
    by (auto simp: quorum_add_def split: if_splits)
  from assms True have q': "q' = q\<lparr>q_count := q_count q + 1, q_ids := (q_ids q)[nat i := 1]\<rparr>"
    by (auto simp: quorum_add_def split: if_splits)
  show ?thesis
    using assms(1) True length_filter_update [OF i, of "\<lambda>x. x \<noteq> 0" 1]
    by (simp add: q' quorum_wf_def)
next
  case False
  with assms show ?thesis by (auto simp: quorum_add_def split: if_splits)
qed

text \<open>
  The guard of phase 1 and phase 2: the counter is full exactly when more than half of
  the acceptors have voted.
\<close>

lemma quorum_reached_majority:
  "quorum_wf q \<Longrightarrow>
   quorum_reached q \<longleftrightarrow> q_acceptors q < 2 * int (card (quorum_voters q))"
  using paxos_quorum_majority [of "q_acceptors q" "q_count q"] quorum_count_card [of q]
  by (auto simp: quorum_wf_def quorum_reached_def)

section \<open>Majorities\<close>

definition majority :: "int \<Rightarrow> int set \<Rightarrow> bool" where
  "majority n Q \<longleftrightarrow> 0 \<le> n \<and> Q \<subseteq> {0..<n} \<and> n < 2 * int (card Q)"

lemma majority_intersect:
  assumes "majority n P" and "majority n Q"
  shows "\<exists>i. i \<in> P \<and> i \<in> Q \<and> 0 \<le> i \<and> i < n"
proof (rule ccontr)
  assume none: "\<not> ?thesis"
  have sub: "P \<subseteq> {0..<n}" "Q \<subseteq> {0..<n}" using assms by (auto simp: majority_def)
  then have fin: "finite P" "finite Q" by (auto intro: finite_subset)
  have "P \<inter> Q = {}" using none sub by (fastforce simp: subset_iff)
  then have "card P + card Q = card (P \<union> Q)" by (simp add: card_Un_disjoint fin)
  also have "\<dots> \<le> card {0..<n}" using sub by (intro card_mono) auto
  finally have "int (card P) + int (card Q) \<le> max 0 n" by simp
  with assms show False by (auto simp: majority_def max_def split: if_splits)
qed

lemma quorum_reached_iff_majority:
  "quorum_wf q \<Longrightarrow> quorum_reached q \<longleftrightarrow> majority (q_acceptors q) (quorum_voters q)"
  using quorum_reached_majority [of q] quorum_voters_range [of q]
  by (auto simp: majority_def quorum_wf_def)

section \<open>The interface\<close>

text \<open>
  What a client relies on: the counter holds a set of ids, adding an id says whether it
  was new, and the counter is full exactly for a majority. Votes are counted from a list
  of senders, in which a sender may appear several times.
\<close>

locale vote_counter =
  fixes clear :: "'q \<Rightarrow> 'q"
    and add :: "'q \<Rightarrow> int \<Rightarrow> ('q \<times> int) outcome"
    and reached :: "'q \<Rightarrow> bool"
    and voters :: "'q \<Rightarrow> int set"
    and total :: "'q \<Rightarrow> int"
    and invar :: "'q \<Rightarrow> bool"
  assumes invar_clear: "invar q \<Longrightarrow> invar (clear q)"
    and voters_clear: "voters (clear q) = {}"
    and total_clear: "total (clear q) = total q"
    and add_defined: "invar q \<Longrightarrow> 0 \<le> i \<Longrightarrow> i < total q \<Longrightarrow> \<exists>q' r. add q i = Inr (q', r)"
    and invar_add: "invar q \<Longrightarrow> add q i = Inr (q', r) \<Longrightarrow> invar q'"
    and voters_add: "add q i = Inr (q', r) \<Longrightarrow> voters q' = insert i (voters q)"
    and result_add: "add q i = Inr (q', r) \<Longrightarrow> r = (if i \<in> voters q then 0 else 1)"
    and total_add: "add q i = Inr (q', r) \<Longrightarrow> total q' = total q"
    and reached_majority: "invar q \<Longrightarrow> reached q \<longleftrightarrow> majority (total q) (voters q)"
begin

text \<open>Adding the votes of a list of senders, one after the other.\<close>

fun add_all :: "'q \<Rightarrow> int list \<Rightarrow> 'q outcome" where
  "add_all q [] = Inr q"
| "add_all q (i # js) =
     (case add q i of Inl e \<Rightarrow> Inl e | Inr (q', r) \<Rightarrow> add_all q' js)"

lemma add_all_defined:
  "invar q \<Longrightarrow> \<forall>i \<in> set js. 0 \<le> i \<and> i < total q \<Longrightarrow>
   \<exists>q'. add_all q js = Inr q' \<and> invar q' \<and> total q' = total q \<and> voters q' = voters q \<union> set js"
proof (induction js arbitrary: q)
  case Nil
  then show ?case by simp
next
  case (Cons i js)
  from Cons.prems obtain q1 r where q1: "add q i = Inr (q1, r)"
    using add_defined [of q i] by auto
  have inv: "invar q1" and tot: "total q1 = total q" and vot: "voters q1 = insert i (voters q)"
    using Cons.prems(1) q1 by (simp_all add: invar_add [OF _ q1] total_add [OF q1] voters_add [OF q1])
  have "\<forall>j \<in> set js. 0 \<le> j \<and> j < total q1" using Cons.prems(2) tot by simp
  from Cons.IH [OF inv this] show ?case by (auto simp: q1 tot vot)
qed

lemma counted_majority:
  assumes "invar q" and "\<forall>i \<in> set js. 0 \<le> i \<and> i < total q"
  shows "\<exists>q'. add_all (clear q) js = Inr q' \<and> (reached q' \<longleftrightarrow> majority (total q) (set js))"
proof -
  have "\<forall>i \<in> set js. 0 \<le> i \<and> i < total (clear q)" using assms(2) by (simp add: total_clear)
  from add_all_defined [OF invar_clear [OF assms(1)] this] obtain q'
    where "add_all (clear q) js = Inr q'" "invar q'" "total q' = total q" "voters q' = set js"
    by (auto simp: total_clear voters_clear)
  then show ?thesis using reached_majority [of q'] by auto
qed

lemma reached_meet:
  assumes "invar p" and "invar q" and "total p = total q" and "reached p" and "reached q"
  shows "\<exists>i. i \<in> voters p \<and> i \<in> voters q"
proof -
  have "majority (total q) (voters p)" "majority (total q) (voters q)"
    using assms reached_majority by auto
  then show ?thesis using majority_intersect by blast
qed

end

interpretation qc: vote_counter quorum_clear quorum_add quorum_reached quorum_voters q_acceptors quorum_wf
proof unfold_locales
  show "quorum_wf q \<Longrightarrow> quorum_wf (quorum_clear q)" for q by (rule quorum_clear_wf)
  show "quorum_voters (quorum_clear q) = {}" for q by (rule quorum_clear_voters)
  show "q_acceptors (quorum_clear q) = q_acceptors q" for q by simp
  show "quorum_wf q \<Longrightarrow> 0 \<le> i \<Longrightarrow> i < q_acceptors q \<Longrightarrow> \<exists>q' r. quorum_add q i = Inr (q', r)"
    for q i by (rule quorum_add_defined)
  show "quorum_wf q \<Longrightarrow> quorum_add q i = Inr (q', r) \<Longrightarrow> quorum_wf q'" for q i q' r
    by (rule quorum_add_wf)
  show "quorum_add q i = Inr (q', r) \<Longrightarrow> quorum_voters q' = insert i (quorum_voters q)" for q i q' r
    by (rule quorum_add_voters)
  show "quorum_add q i = Inr (q', r) \<Longrightarrow> r = (if i \<in> quorum_voters q then 0 else 1)" for q i q' r
    by (rule quorum_add_voters)
  show "quorum_add q i = Inr (q', r) \<Longrightarrow> q_acceptors q' = q_acceptors q" for q i q' r
    by (rule quorum_add_voters)
  show "quorum_wf q \<Longrightarrow> quorum_reached q \<longleftrightarrow> majority (q_acceptors q) (quorum_voters q)" for q
    by (rule quorum_reached_iff_majority)
qed

section \<open>Properties\<close>

text \<open>Adding a list of senders to a counter, in order; a sender may appear several times.\<close>

fun quorum_add_list :: "quorum \<Rightarrow> int list \<Rightarrow> quorum outcome" where
  "quorum_add_list q [] = Inr q"
| "quorum_add_list q (i # js) =
     (case quorum_add q i of Inl e \<Rightarrow> Inl e | Inr (q', r) \<Rightarrow> quorum_add_list q' js)"

lemma quorum_add_list_all: "quorum_add_list q js = qc.add_all q js"
  by (induction q js rule: quorum_add_list.induct) (auto split: sum.split)

text \<open>
  \<open>quorum_add\<close> on a cleared counter never fails for senders that are acceptors, and however
  often each sender votes, \<open>quorum_reached\<close> holds exactly when the distinct senders are more
  than half of the acceptors.
\<close>

theorem quorum_counts_majority:
  assumes "quorum_wf q" and "\<forall>i \<in> set js. 0 \<le> i \<and> i < q_acceptors q"
  shows "\<exists>q'. quorum_add_list (quorum_clear q) js = Inr q' \<and>
              (quorum_reached q' \<longleftrightarrow> majority (q_acceptors q) (set js))"
  using qc.counted_majority [OF assms] by (simp add: quorum_add_list_all)

theorem quorum_counts_majority_witness:
  "\<exists>q'. quorum_add_list (quorum_clear (quorum_init 3)) [2, 0, 2] = Inr q' \<and>
        (quorum_reached q' \<longleftrightarrow> majority 3 {2, 0})"
  using quorum_counts_majority [of "quorum_init 3" "[2, 0, 2]"] quorum_init_wf [of 3]
  by (simp add: insert_commute del: quorum_add_list.simps)

text \<open>
  Two counters for the same acceptors that have both reached their quorum have a voter in
  common, the fact Paxos rests on.
\<close>

theorem quorums_intersect:
  assumes "quorum_wf p" and "quorum_wf q" and "q_acceptors p = q_acceptors q"
    and "quorum_reached p" and "quorum_reached q"
  shows "\<exists>i. q_ids p ! nat i \<noteq> 0 \<and> q_ids q ! nat i \<noteq> 0 \<and> 0 \<le> i \<and> i < q_acceptors p"
proof -
  obtain i where "i \<in> quorum_voters p" "i \<in> quorum_voters q"
    using qc.reached_meet [OF assms] by blast
  moreover then have "0 \<le> i \<and> i < q_acceptors p" using quorum_voters_range [OF assms(1)] by auto
  ultimately show ?thesis by (auto simp: quorum_voters_def)
qed

theorem quorums_intersect_witness:
  "\<exists>i. ([1, 1, 0] :: int list) ! nat i \<noteq> 0 \<and> ([0, 1, 1] :: int list) ! nat i \<noteq> 0 \<and> 0 \<le> i \<and> i < (3 :: int)"
proof -
  let ?p = "\<lparr>q_count = 2, q_quorum = 2, q_acceptors = 3, q_ids = [1, 1, 0]\<rparr>"
  let ?q = "\<lparr>q_count = 2, q_quorum = 2, q_acceptors = 3, q_ids = [0, 1, 1]\<rparr>"
  have "quorum_wf ?p" "quorum_wf ?q"
    by (simp_all add: quorum_wf_def paxos_quorum_nonneg)
  then show ?thesis using quorums_intersect [of ?p ?q] by (simp add: quorum_reached_def)
qed

end
