(* ===== verification/KHash.thy ===== *)
theory KHash
  imports PaxosPrelude
begin

text \<open>
  \<open>paxos/include/khash.h\<close>, instantiated by \<open>KHASH_MAP_INIT_INT\<close>: the open-addressing hash
  table in which the learner and the proposer keep their instances. The arrays \<open>flags\<close>,
  \<open>keys\<close> and \<open>vals\<close> of the C table are one list of buckets: a bucket is empty, deleted, or
  live with a key and a value; only inside \<open>kh_resize\<close>, where old and new entries share \<open>keys\<close>
  and \<open>vals\<close>, flags and slots are apart. Bucket indices and counters are \<open>nat\<close>; they agree with the
  32-bit counters of C as long as a table has fewer than \<open>2 ^ 31\<close> buckets. Allocation
  always succeeds, so \<open>kh_resize\<close> never returns -1.

  The theorems show that the table behaves as a finite map: quadratic probing reaches
  every bucket, the probe loops end, \<open>kh_get\<close>, \<open>kh_put\<close> and \<open>kh_del\<close> are lookup, insert
  and delete, and the in-place rehash of \<open>kh_resize\<close> loses and duplicates nothing.
\<close>

unbundle bit_operations_syntax

section \<open>The table\<close>

datatype 'v bucket = KEmpty | KDeleted | KLive "32 word" 'v

record 'v khash =
  kh_n_buckets :: nat
  kh_size :: nat
  kh_n_occupied :: nat
  kh_upper_bound :: nat
  kh_buckets :: "'v bucket list"

fun bucket_live :: "'v bucket \<Rightarrow> bool" where
  "bucket_live (KLive k v) = True"
| "bucket_live _ = False"

text \<open>The loop condition of a probe: not empty, and deleted or of another key.\<close>

fun probe_on :: "32 word \<Rightarrow> 'v bucket \<Rightarrow> bool" where
  "probe_on key KEmpty = False"
| "probe_on key KDeleted = True"
| "probe_on key (KLive k v) = (k \<noteq> key)"

definition kh_init :: "'v khash" where
  "kh_init = \<lparr>kh_n_buckets = 0, kh_size = 0, kh_n_occupied = 0, kh_upper_bound = 0,
              kh_buckets = []\<rparr>"

subsection \<open>Lookup\<close>

text \<open>
  The probe loop of \<open>kh_get\<close>. The bound on \<open>step\<close> is not in the C loop: it makes the
  definition total for arbitrary bucket lists and never ends a probe of a well-formed
  table (\<open>kh_get_loop_unfold\<close>).
\<close>

function kh_get_loop ::
  "'v bucket list \<Rightarrow> nat \<Rightarrow> 32 word \<Rightarrow> nat \<Rightarrow> nat \<Rightarrow> nat \<Rightarrow> nat" where
  "kh_get_loop bs n key lst i step =
     (if probe_on key (bs ! i) \<and> step < 2 * n
      then let i' = (i + Suc step) AND (n - 1)
           in if i' = lst then n else kh_get_loop bs n key lst i' (Suc step)
      else if bucket_live (bs ! i) then i else n)"
  by pat_completeness auto
termination
  by (relation "measure (\<lambda>(bs, n, key, lst, i, step). 2 * n - step)") auto

declare kh_get_loop.simps [simp del]

definition kh_get :: "'v khash \<Rightarrow> 32 word \<Rightarrow> nat" where
  "kh_get h key =
     (if kh_n_buckets h \<noteq> 0
      then let i = unat key AND (kh_n_buckets h - 1)
           in kh_get_loop (kh_buckets h) (kh_n_buckets h) key i i 0
      else 0)"

text \<open>\<open>kh_exist\<close>, \<open>kh_key\<close>, \<open>kh_value\<close>, and the assignment \<open>kh_value(h, x) = v\<close>.\<close>

definition kh_exist :: "'v khash \<Rightarrow> nat \<Rightarrow> bool" where
  "kh_exist h x \<longleftrightarrow> bucket_live (kh_buckets h ! x)"

definition kh_value :: "'v khash \<Rightarrow> nat \<Rightarrow> 'v option" where
  "kh_value h x = (case kh_buckets h ! x of KLive k v \<Rightarrow> Some v | _ \<Rightarrow> None)"

definition kh_set_value :: "'v khash \<Rightarrow> nat \<Rightarrow> 'v \<Rightarrow> 'v khash" where
  "kh_set_value h x v =
     (case kh_buckets h ! x of
        KLive k _ \<Rightarrow> h\<lparr>kh_buckets := (kh_buckets h)[x := KLive k v]\<rparr>
      | _ \<Rightarrow> h)"

subsection \<open>Resizing\<close>

text \<open>
  \<open>kroundup32\<close> rounds up to a power of two. The macro spreads the bits of \<open>x - 1\<close> to the
  right; \<open>pow2_from 1\<close> is the number it computes (\<open>kroundup32_word_pred\<close> and
  \<open>kroundup32_word_succ\<close> check the macro itself on the arguments \<open>kh_put\<close> gives it).
\<close>

definition kroundup32_word :: "32 word \<Rightarrow> 32 word" where
  "kroundup32_word x =
     (let x = x - 1; x = x OR drop_bit 1 x; x = x OR drop_bit 2 x; x = x OR drop_bit 4 x;
          x = x OR drop_bit 8 x; x = x OR drop_bit 16 x
      in x + 1)"

function pow2_from :: "nat \<Rightarrow> nat \<Rightarrow> nat" where
  "pow2_from p x = (if x \<le> p \<or> p = 0 then p else pow2_from (2 * p) x)"
  by pat_completeness auto
termination
  by (relation "measure (\<lambda>(p, x). x - p)") auto

declare pow2_from.simps [simp del]

definition kroundup32 :: "nat \<Rightarrow> nat" where
  "kroundup32 x = pow2_from 1 x"

text \<open>\<open>(khint_t)(n * 0.77 + 0.5)\<close>, in integers.\<close>

definition kh_load :: "nat \<Rightarrow> nat" where
  "kh_load n = (77 * n + 50) div 100"

text \<open>
  The rehash is in place: the arrays \<open>keys\<close> and \<open>vals\<close>, here one list of slots, hold old and new
  entries at the same time. \<open>live\<close> are the old flags (\<open>__ac_iseither\<close> is 0), \<open>used\<close> the new ones
  (\<open>__ac_isempty\<close> is 0). A slot nothing was ever written to is \<open>None\<close>.
\<close>

function kh_find_empty :: "bool list \<Rightarrow> nat \<Rightarrow> nat \<Rightarrow> nat" where
  "kh_find_empty used i step =
     (if used ! i \<and> step < 2 * length used
      then kh_find_empty used ((i + Suc step) AND (length used - 1)) (Suc step)
      else i)"
  by pat_completeness auto
termination
  by (relation "measure (\<lambda>(used, i, step). 2 * length used - step)") auto

declare kh_find_empty.simps [simp del]

text \<open>
  The kick-out loop: the entry goes to the slot found for it; an old entry that is still there is
  taken out first, marked as deleted in the old flags, and placed next.
\<close>

function kh_kick ::
  "bool list \<Rightarrow> bool list \<Rightarrow> (32 word \<times> 'v) option list \<Rightarrow> 32 word \<Rightarrow> 'v \<Rightarrow>
     bool list \<times> bool list \<times> (32 word \<times> 'v) option list" where
  "kh_kick live used slots key val =
     (let i = kh_find_empty used (unat key AND (length used - 1)) 0;
          used' = used[i := True];
          slots' = slots[i := Some (key, val)]
      in if i < length live \<and> live ! i
         then (case slots ! i of
                 Some (k, v) \<Rightarrow> kh_kick (live[i := False]) used' slots' k v
               | None \<Rightarrow> (live, used', slots'))
         else (live, used', slots'))"
  by pat_completeness auto
termination
  by (relation "measure (\<lambda>(live, used, slots, key, val). length (filter id live))")
    (auto intro!: length_filter_update_less)

declare kh_kick.simps [simp del]

fun kh_rehash ::
  "bool list \<Rightarrow> bool list \<Rightarrow> (32 word \<times> 'v) option list \<Rightarrow> nat \<Rightarrow> nat \<Rightarrow>
     bool list \<times> bool list \<times> (32 word \<times> 'v) option list" where
  "kh_rehash live used slots j 0 = (live, used, slots)"
| "kh_rehash live used slots j (Suc m) =
     (if live ! j
      then (case slots ! j of
              Some (k, v) \<Rightarrow>
                (let (live', used', slots') = kh_kick (live[j := False]) used slots k v
                 in kh_rehash live' used' slots' (Suc j) m)
            | None \<Rightarrow> (live, used, slots))
      else kh_rehash live used slots (Suc j) m)"

text \<open>The slot of a bucket, and the bucket of a new flag and a slot.\<close>

fun bucket_slot :: "'v bucket \<Rightarrow> (32 word \<times> 'v) option" where
  "bucket_slot (KLive k v) = Some (k, v)"
| "bucket_slot _ = None"

fun new_bucket :: "bool \<Rightarrow> (32 word \<times> 'v) option \<Rightarrow> 'v bucket" where
  "new_bucket True (Some (k, v)) = KLive k v"
| "new_bucket _ _ = KEmpty"

text \<open>\<open>krealloc\<close> makes the slots longer before the rehash, or shorter after it.\<close>

definition kh_resize :: "'v khash \<Rightarrow> nat \<Rightarrow> 'v khash" where
  "kh_resize h new_n_buckets =
     (let n = kroundup32 new_n_buckets; n = (if n < 4 then 4 else n)
      in if kh_load n \<le> kh_size h then h
         else let slots = map bucket_slot (kh_buckets h) @ replicate (n - kh_n_buckets h) None;
                  (live, used, slots) =
                    kh_rehash (map bucket_live (kh_buckets h)) (replicate n False) slots 0 (kh_n_buckets h)
              in \<lparr>kh_n_buckets = n, kh_size = kh_size h, kh_n_occupied = kh_size h,
                  kh_upper_bound = kh_load n, kh_buckets = map2 new_bucket used (take n slots)\<rparr>)"

subsection \<open>Insertion and deletion\<close>

text \<open>The probe loop of \<open>kh_put\<close>; the result is \<open>(x, site, i)\<close>.\<close>

function kh_put_loop ::
  "'v bucket list \<Rightarrow> nat \<Rightarrow> 32 word \<Rightarrow> nat \<Rightarrow> nat \<Rightarrow> nat \<Rightarrow> nat \<Rightarrow> nat \<times> nat \<times> nat" where
  "kh_put_loop bs n key lst i step site =
     (if probe_on key (bs ! i) \<and> step < 2 * n
      then let site' = (case bs ! i of KDeleted \<Rightarrow> i | _ \<Rightarrow> site);
               i' = (i + Suc step) AND (n - 1)
           in if i' = lst then (site', site', i')
              else kh_put_loop bs n key lst i' (Suc step) site'
      else (n, site, i))"
  by pat_completeness auto
termination
  by (relation "measure (\<lambda>(bs, n, key, lst, i, step, site). 2 * n - step)") auto

declare kh_put_loop.simps [simp del]

definition kh_put_site :: "'v bucket list \<Rightarrow> nat \<Rightarrow> 32 word \<Rightarrow> nat" where
  "kh_put_site bs n key =
     (let i = unat key AND (n - 1)
      in if bs ! i = KEmpty then i
         else let (x, site, i) = kh_put_loop bs n key i i 0 n
              in if x = n then (if bs ! i = KEmpty \<and> site \<noteq> n then site else i) else x)"

definition kh_make_room :: "'v khash \<Rightarrow> 'v khash" where
  "kh_make_room h =
     (if kh_upper_bound h \<le> kh_n_occupied h
      then (if 2 * kh_size h < kh_n_buckets h then kh_resize h (kh_n_buckets h - 1)
            else kh_resize h (kh_n_buckets h + 1))
      else h)"

text \<open>
  \<open>kh_put\<close> together with the assignment of the value that follows it at both call sites:
  the new table, the iterator and the return code (0 present, 1 new, 2 reused). A key
  that is present keeps its value; both callers go on to assert that the code is not 0
  or have looked the key up before.
\<close>

definition kh_put :: "'v khash \<Rightarrow> 32 word \<Rightarrow> 'v \<Rightarrow> 'v khash \<times> nat \<times> int" where
  "kh_put h key v =
     (let h = kh_make_room h; x = kh_put_site (kh_buckets h) (kh_n_buckets h) key
      in case kh_buckets h ! x of
           KEmpty \<Rightarrow>
             (h\<lparr>kh_buckets := (kh_buckets h)[x := KLive key v], kh_size := kh_size h + 1,
                kh_n_occupied := kh_n_occupied h + 1\<rparr>, x, 1)
         | KDeleted \<Rightarrow>
             (h\<lparr>kh_buckets := (kh_buckets h)[x := KLive key v], kh_size := kh_size h + 1\<rparr>, x, 2)
         | KLive _ _ \<Rightarrow> (h, x, 0))"

definition kh_del :: "'v khash \<Rightarrow> nat \<Rightarrow> 'v khash" where
  "kh_del h x =
     (if x \<noteq> kh_n_buckets h \<and> bucket_live (kh_buckets h ! x)
      then h\<lparr>kh_buckets := (kh_buckets h)[x := KDeleted], kh_size := kh_size h - 1\<rparr>
      else h)"

section \<open>Quadratic probing reaches every bucket\<close>

text \<open>The offsets \<open>1, 1 + 2, 1 + 2 + 3, \<dots>\<close> are the triangular numbers.\<close>

definition tri :: "nat \<Rightarrow> nat" where
  "tri j = j * (j + 1) div 2"

lemma tri_0 [simp]: "tri 0 = 0"
  by (simp add: tri_def)

lemma tri_Suc: "tri (Suc j) = tri j + Suc j"
proof -
  have "Suc j * (Suc j + 1) = j * (j + 1) + 2 * Suc j" by simp
  then show ?thesis unfolding tri_def by simp
qed

lemma double_tri: "2 * tri j = j * (j + 1)"
  by (induction j) (simp_all add: tri_Suc)

lemma and_mask_mod:
  fixes x :: nat
  shows "x AND (2 ^ m - 1) = x mod 2 ^ m"
  by (metis mask_eq_exp_minus_1 take_bit_eq_mask take_bit_eq_mod)

lemma tri_mod_neq:
  assumes "i < j" and "j < 2 ^ m"
  shows "tri i mod 2 ^ m \<noteq> tri j mod 2 ^ m"
proof
  assume eq: "tri i mod 2 ^ m = tri j mod 2 ^ m"
  have mono: "tri i \<le> tri j"
    unfolding tri_def using assms(1) by (intro div_le_mono mult_le_mono) auto
  have "2 ^ m dvd tri j - tri i" using eq mono by (metis mod_eq_dvd_iff_nat)
  then have "2 ^ Suc m dvd 2 * (tri j - tri i)" by simp
  also have "2 * (tri j - tri i) = (j - i) * (j + i + 1)"
  proof -
    obtain d where d: "j = i + d" using assms(1) less_imp_add_positive by blast
    have "2 * tri j = 2 * tri i + d * (i + d + i + 1)"
      unfolding double_tri by (simp add: d algebra_simps)
    then show ?thesis by (simp add: d)
  qed
  finally have dvd: "2 ^ Suc m dvd (j - i) * (j + i + 1)" .
  show False
  proof (cases "even (j - i)")
    case True
    then have "odd (j + i + 1)" using assms(1) by presburger
    then have "coprime (2 ^ Suc m) (j + i + 1)" by simp
    then have "2 ^ Suc m dvd j - i" using coprime_dvd_mult_left_iff dvd by blast
    then have "2 ^ Suc m \<le> j - i" using assms(1) by (intro dvd_imp_le) auto
    moreover have "j - i < 2 ^ Suc m" using assms by simp
    ultimately show False by linarith
  next
    case False
    then have "coprime (2 ^ Suc m) (j - i)" by simp
    then have "2 ^ Suc m dvd j + i + 1" using coprime_dvd_mult_right_iff dvd by blast
    then have "2 ^ Suc m \<le> j + i + 1" by (intro dvd_imp_le) auto
    moreover have "j + i + 1 < 2 ^ Suc m" using assms by simp
    ultimately show False by linarith
  qed
qed

definition pow2 :: "nat \<Rightarrow> bool" where
  "pow2 n \<longleftrightarrow> (\<exists>m. n = 2 ^ m)"

lemma pow2_pos: "pow2 n \<Longrightarrow> 0 < n"
  by (auto simp: pow2_def)

lemma pow2_and_mask: "pow2 n \<Longrightarrow> x AND (n - 1) = x mod n"
  unfolding pow2_def using and_mask_mod by metis

text \<open>The bucket visited after \<open>j\<close> steps of the probe for key \<open>k\<close>.\<close>

definition probe :: "nat \<Rightarrow> 32 word \<Rightarrow> nat \<Rightarrow> nat" where
  "probe n k j = (unat k + tri j) mod n"

lemma probe_0: "pow2 n \<Longrightarrow> probe n k 0 = unat k AND (n - 1)"
  by (simp add: probe_def pow2_and_mask del: One_nat_def)

lemma probe_Suc: "pow2 n \<Longrightarrow> (probe n k j + Suc j) AND (n - 1) = probe n k (Suc j)"
  unfolding probe_def
  by (subst pow2_and_mask) (simp_all only: mod_add_left_eq tri_Suc add.assoc)

lemma probe_less: "pow2 n \<Longrightarrow> probe n k j < n"
  by (simp add: probe_def pow2_pos)

lemma add_mod_cancel_left: "(a + x) mod n = (a + y) mod n \<longleftrightarrow> x mod n = y mod (n::nat)"
proof -
  have "int ((a + x) mod n) = int ((a + y) mod n) \<longleftrightarrow> int (x mod n) = int (y mod n)"
    by (simp add: of_nat_mod mod_eq_dvd_iff)
  then show ?thesis by simp
qed

lemma probe_inj:
  assumes "pow2 n" and "i < n" and "j < n" and "probe n k i = probe n k j"
  shows "i = j"
proof -
  from assms(1) obtain m where n: "n = 2 ^ m" by (auto simp: pow2_def)
  from assms(4) have eq: "tri i mod 2 ^ m = tri j mod 2 ^ m"
    by (simp add: probe_def add_mod_cancel_left n)
  show ?thesis
    using tri_mod_neq [of i j m] tri_mod_neq [of j i m] eq assms(2,3) n
    by (metis linorder_neqE_nat)
qed

lemma probe_surj:
  assumes "pow2 n" and "x < n"
  shows "\<exists>j < n. probe n k j = x"
proof -
  have "inj_on (probe n k) {0..<n}" by (intro inj_onI) (auto dest: probe_inj [OF assms(1)])
  moreover have "probe n k ` {0..<n} \<subseteq> {0..<n}" using probe_less [OF assms(1)] by auto
  ultimately have "probe n k ` {0..<n} = {0..<n}"
    by (intro endo_inj_surj) auto
  then have "x \<in> probe n k ` {0..<n}" using assms(2) by simp
  then show ?thesis by auto
qed

lemma probe_no_return:
  assumes "pow2 n" and "0 < j" and "j < n"
  shows "probe n k j \<noteq> probe n k 0"
  using probe_inj [OF assms(1), of j 0 k] assms(2,3) by auto

section \<open>Entries\<close>

text \<open>The entries of a table in bucket order, which is the order of \<open>kh_foreach_value\<close>.\<close>

fun bucket_entries :: "'v bucket \<Rightarrow> (32 word \<times> 'v) list" where
  "bucket_entries (KLive k v) = [(k, v)]"
| "bucket_entries _ = []"

definition entries :: "'v bucket list \<Rightarrow> (32 word \<times> 'v) list" where
  "entries bs = concat (map bucket_entries bs)"

definition kh_entries :: "'v khash \<Rightarrow> (32 word \<times> 'v) list" where
  "kh_entries h = entries (kh_buckets h)"

definition kh_map :: "'v khash \<Rightarrow> 32 word \<Rightarrow> 'v option" where
  "kh_map h = map_of (kh_entries h)"

lemma entries_simps [simp]:
  "entries [] = []"
  "entries (b # bs) = bucket_entries b @ entries bs"
  "entries (bs @ cs) = entries bs @ entries cs"
  by (simp_all add: entries_def)

lemma entries_replicate_empty [simp]: "entries (replicate n KEmpty) = []"
  by (simp add: entries_def)

lemma in_entries_iff: "(k, v) \<in> set (entries bs) \<longleftrightarrow> (\<exists>x < length bs. bs ! x = KLive k v)"
proof -
  have "(k, v) \<in> set (bucket_entries b) \<longleftrightarrow> b = KLive k v" for b :: "'a bucket"
    by (cases b) auto
  then show ?thesis by (auto simp: entries_def in_set_conv_nth)
qed

lemma entries_split:
  assumes "x < length bs"
  shows "entries bs = entries (take x bs) @ bucket_entries (bs ! x) @ entries (drop (Suc x) bs)"
proof -
  have "entries bs = entries (take x bs @ bs ! x # drop (Suc x) bs)"
    using arg_cong [OF id_take_nth_drop [OF assms], of entries] .
  then show ?thesis by simp
qed

lemma mset_entries_update:
  assumes "x < length bs"
  shows "mset (entries (bs[x := b])) + mset (bucket_entries (bs ! x))
       = mset (entries bs) + mset (bucket_entries b)"
  using entries_split [OF assms] assms by (simp add: upd_conv_take_nth_drop)

lemma live_index_unique:
  assumes "distinct (map fst (entries bs))"
    and "x < length bs" and "bs ! x = KLive k v" and "y < length bs" and "bs ! y = KLive k w"
  shows "x = y"
proof -
  have less: False if "i < j" "j < length bs" "bs ! i = KLive k a" "bs ! j = KLive k b" for i j a b
  proof -
    have "drop (Suc i) bs ! (j - Suc i) = bs ! j" "j - Suc i < length (drop (Suc i) bs)"
      using that(1,2) by auto
    then have "(k, b) \<in> set (entries (drop (Suc i) bs))"
      unfolding in_entries_iff using that(4) by metis
    moreover have "entries bs = entries (take i bs) @ [(k, a)] @ entries (drop (Suc i) bs)"
      using entries_split [of i bs] that by simp
    ultimately show False using assms(1) by (force simp: rev_image_eqI)
  qed
  show ?thesis using less [of x y] less [of y x] assms by (metis linorder_neqE_nat)
qed

lemma length_filter_live: "length (filter bucket_live bs) = length (entries bs)"
  by (induction bs) (auto split: bucket.splits elim: bucket_live.elims bucket_entries.elims)

lemma nonempty_entries:
  "KDeleted \<notin> set bs \<Longrightarrow> length (filter (\<lambda>b. b \<noteq> KEmpty) bs) = length (entries bs)"
proof (induction bs)
  case Nil
  then show ?case by simp
next
  case (Cons b bs)
  then show ?case by (cases b) auto
qed

text \<open>Two entry lists with the same multiset and distinct keys are the same map.\<close>

lemma map_of_mset:
  assumes "distinct (map fst es)" and "mset es' = mset es"
  shows "map_of es' = map_of es" and "distinct (map fst es')"
proof -
  have "mset (map fst es') = mset (map fst es)" using assms(2) by simp
  then show d: "distinct (map fst es')" using assms(1) by (metis mset_eq_imp_distinct_iff)
  have "set es' = set es" using assms(2) by (metis set_mset_mset)
  with d assms(1) show "map_of es' = map_of es" by (metis map_of_inject_set)
qed

lemma map_of_mset_insert:
  assumes "distinct (map fst es)" and "mset es' = mset es + {#(k, v)#}" and "map_of es k = None"
  shows "map_of es' = (map_of es)(k \<mapsto> v)" and "distinct (map fst es')"
proof -
  have d: "distinct (map fst ((k, v) # es))"
    using assms(1,3) by (auto simp: map_of_eq_None_iff)
  have m: "mset es' = mset ((k, v) # es)" using assms(2) by simp
  show "map_of es' = (map_of es)(k \<mapsto> v)" using map_of_mset(1) [OF d m] by simp
  show "distinct (map fst es')" by (rule map_of_mset(2) [OF d m])
qed

lemma map_of_mset_delete:
  assumes "distinct (map fst es)" and "mset es = mset es' + {#(k, v)#}"
  shows "map_of es' = (map_of es)(k := None)" and "distinct (map fst es')"
proof -
  have m: "mset ((k, v) # es') = mset es" using assms(2) by simp
  have eq: "map_of ((k, v) # es') = map_of es" and d: "distinct (map fst ((k, v) # es'))"
    by (rule map_of_mset [OF assms(1) m])+
  then have "map_of es' k = None" by (auto simp: map_of_eq_None_iff)
  then have "(map_of ((k, v) # es'))(k := None) = map_of es'" by (auto simp: fun_eq_iff)
  with eq show "map_of es' = (map_of es)(k := None)" by simp
  show "distinct (map fst es')" using d by simp
qed

section \<open>Probe loops\<close>

text \<open>
  Every entry is reached by its own probe before any empty bucket, and the probe for a
  key stops at its least stopping point, which exists when the table has an empty bucket.
\<close>

definition path_ok :: "'v bucket list \<Rightarrow> bool" where
  "path_ok bs \<longleftrightarrow>
     (\<forall>x < length bs. \<forall>k v. bs ! x = KLive k v \<longrightarrow>
        (\<exists>j < length bs. probe (length bs) k j = x \<and>
           (\<forall>i < j. bs ! probe (length bs) k i \<noteq> KEmpty)))"

definition stop_at :: "(nat \<Rightarrow> bool) \<Rightarrow> nat \<Rightarrow> bool" where
  "stop_at P j \<longleftrightarrow> P j \<and> (\<forall>i < j. \<not> P i)"

lemma stop_at_exists: "P j \<Longrightarrow> \<exists>i \<le> j. stop_at P i"
  unfolding stop_at_def by (metis LeastI Least_le not_less_Least)

abbreviation key_stop :: "'v bucket list \<Rightarrow> 32 word \<Rightarrow> nat \<Rightarrow> bool" where
  "key_stop bs key \<equiv> stop_at (\<lambda>j. \<not> probe_on key (bs ! probe (length bs) key j))"

abbreviation empty_stop :: "'v bucket list \<Rightarrow> 32 word \<Rightarrow> nat \<Rightarrow> bool" where
  "empty_stop bs key \<equiv> stop_at (\<lambda>j. bs ! probe (length bs) key j = KEmpty)"

lemma key_stop_exists:
  assumes "pow2 (length bs)" and "KEmpty \<in> set bs"
  shows "\<exists>j < length bs. key_stop bs key j"
proof -
  from assms(2) obtain x where x: "x < length bs" "bs ! x = KEmpty" by (auto simp: in_set_conv_nth)
  with probe_surj [OF assms(1)] obtain j where j: "j < length bs" "probe (length bs) key j = x"
    by blast
  with x have "\<not> probe_on key (bs ! probe (length bs) key j)" by simp
  then show ?thesis using stop_at_exists j(1) by (metis (mono_tags, lifting) le_less_trans)
qed

lemma empty_stop_exists:
  assumes "pow2 (length bs)" and "KEmpty \<in> set bs"
  shows "\<exists>j < length bs. empty_stop bs key j"
proof -
  from assms(2) obtain x where x: "x < length bs" "bs ! x = KEmpty" by (auto simp: in_set_conv_nth)
  with probe_surj [OF assms(1)] obtain j where j: "j < length bs" "probe (length bs) key j = x"
    by blast
  with x have "bs ! probe (length bs) key j = KEmpty" by simp
  then show ?thesis using stop_at_exists j(1) by (metis (mono_tags, lifting) le_less_trans)
qed

lemma kh_get_loop_stop:
  assumes "pow2 (length bs)" and "key_stop bs key J" and "J < length bs" and "j \<le> J"
  shows "kh_get_loop bs (length bs) key (probe (length bs) key 0) (probe (length bs) key j) j =
         (if bucket_live (bs ! probe (length bs) key J) then probe (length bs) key J
          else length bs)"
  using assms(4)
proof (induction rule: inc_induct)
  case base
  show ?case using assms(2) by (subst kh_get_loop.simps) (simp add: stop_at_def)
next
  case (step j)
  have on: "probe_on key (bs ! probe (length bs) key j)" "j < 2 * length bs"
    using assms(2,3) step(2) by (auto simp: stop_at_def)
  have "probe (length bs) key (Suc j) \<noteq> probe (length bs) key 0"
    using probe_no_return [OF assms(1)] assms(3) step(2) by simp
  with on step(3) show ?case
    by (subst kh_get_loop.simps) (simp add: probe_Suc [OF assms(1)] del: One_nat_def add_Suc_right)
qed

text \<open>On a table with an empty bucket the loop is the C loop, without the bound on \<open>step\<close>.\<close>

lemma kh_get_loop_unfold:
  assumes "pow2 (length bs)" and "key_stop bs key J" and "J < length bs" and "j \<le> J"
    and "i = probe (length bs) key j"
  shows "kh_get_loop bs (length bs) key (probe (length bs) key 0) i j =
         (if probe_on key (bs ! i)
          then let i' = (i + Suc j) AND (length bs - 1)
               in if i' = probe (length bs) key 0 then length bs
                  else kh_get_loop bs (length bs) key (probe (length bs) key 0) i' (Suc j)
          else if bucket_live (bs ! i) then i else length bs)"
  using assms(3,4) by (subst kh_get_loop.simps) simp

lemma kh_put_loop_stop:
  assumes "pow2 (length bs)" and "key_stop bs key J" and "J < length bs" and "j \<le> J"
  shows "\<exists>site'.
     kh_put_loop bs (length bs) key (probe (length bs) key 0) (probe (length bs) key j) j site
       = (length bs, site', probe (length bs) key J) \<and>
     (site' = site \<or>
      (\<exists>i < J. site' = probe (length bs) key i \<and> bs ! probe (length bs) key i = KDeleted))"
  using assms(4)
proof (induction arbitrary: site rule: inc_induct)
  case base
  show ?case using assms(2) by (subst kh_put_loop.simps) (simp add: stop_at_def)
next
  case (step j)
  let ?i = "probe (length bs) key j"
  have on: "probe_on key (bs ! ?i)" "j < 2 * length bs"
    using assms(2,3) step(2) by (auto simp: stop_at_def)
  have "probe (length bs) key (Suc j) \<noteq> probe (length bs) key 0"
    using probe_no_return [OF assms(1)] assms(3) step(2) by simp
  then have eq: "kh_put_loop bs (length bs) key (probe (length bs) key 0) ?i j site =
      kh_put_loop bs (length bs) key (probe (length bs) key 0) (probe (length bs) key (Suc j))
        (Suc j) (case bs ! ?i of KDeleted \<Rightarrow> ?i | _ \<Rightarrow> site)"
    using on by (subst kh_put_loop.simps) (simp add: probe_Suc [OF assms(1)] del: One_nat_def add_Suc_right)
  show ?case
    using step(3) [of "case bs ! ?i of KDeleted \<Rightarrow> ?i | _ \<Rightarrow> site"] step(2)
    unfolding eq by (cases "bs ! ?i") auto
qed

text \<open>The new flags of a list of buckets.\<close>

definition occupied :: "'v bucket list \<Rightarrow> bool list" where
  "occupied bs = map (\<lambda>b. b \<noteq> KEmpty) bs"

lemma occupied_simps [simp]:
  "length (occupied bs) = length bs"
  "i < length bs \<Longrightarrow> occupied bs ! i \<longleftrightarrow> bs ! i \<noteq> KEmpty"
  "occupied (bs[i := KLive k v]) = (occupied bs)[i := True]"
  "occupied (replicate n KEmpty) = replicate n False"
  by (simp_all add: occupied_def map_update)

lemma kh_find_empty_stop:
  assumes "pow2 (length bs)" and "empty_stop bs key J" and "J < length bs" and "j \<le> J"
  shows "kh_find_empty (occupied bs) (probe (length bs) key j) j = probe (length bs) key J"
  using assms(4)
proof (induction rule: inc_induct)
  case base
  show ?case using assms(2) probe_less [OF assms(1)] by (subst kh_find_empty.simps) (simp add: stop_at_def)
next
  case (step j)
  have "bs ! probe (length bs) key j \<noteq> KEmpty" "j < 2 * length bs"
    using assms(2,3) step(2) by (auto simp: stop_at_def)
  with step(3) show ?case
    using probe_less [OF assms(1), of key j]
    by (subst kh_find_empty.simps) (simp add: probe_Suc [OF assms(1)] del: One_nat_def add_Suc_right)
qed

section \<open>Well-formed tables\<close>

text \<open>A good bucket list: power-of-two length, every entry on its probe path, keys distinct.\<close>

definition buckets_ok :: "'v bucket list \<Rightarrow> bool" where
  "buckets_ok bs \<longleftrightarrow>
     pow2 (length bs) \<and> path_ok bs \<and> distinct (map fst (entries bs)) \<and> KEmpty \<in> set bs"

definition kh_wf :: "'v khash \<Rightarrow> bool" where
  "kh_wf h \<longleftrightarrow>
     (if kh_n_buckets h = 0
      then kh_size h = 0 \<and> kh_n_occupied h = 0 \<and> kh_upper_bound h = 0 \<and> kh_buckets h = []
      else buckets_ok (kh_buckets h) \<and> 4 \<le> kh_n_buckets h \<and>
           length (kh_buckets h) = kh_n_buckets h \<and>
           kh_size h = length (kh_entries h) \<and>
           kh_n_occupied h = length (filter (\<lambda>b. b \<noteq> KEmpty) (kh_buckets h)) \<and>
           kh_upper_bound h = kh_load (kh_n_buckets h) \<and>
           kh_n_occupied h \<le> kh_upper_bound h)"

lemma key_stop_live:
  assumes "buckets_ok bs" and "key_stop bs key J" and "(key, v) \<in> set (entries bs)"
  shows "bs ! probe (length bs) key J = KLive key v"
proof -
  from assms(3) obtain x where x: "x < length bs" "bs ! x = KLive key v"
    by (auto simp: in_entries_iff)
  with assms(1) obtain j where j: "probe (length bs) key j = x"
      "\<forall>i < j. bs ! probe (length bs) key i \<noteq> KEmpty"
    unfolding buckets_ok_def path_ok_def by blast
  have "J \<le> j"
  proof (rule ccontr)
    assume "\<not> J \<le> j"
    then have "probe_on key (bs ! probe (length bs) key j)"
      using assms(2) by (simp add: stop_at_def)
    then show False using j(1) x(2) by simp
  qed
  have off: "\<not> probe_on key (bs ! probe (length bs) key J)"
    using assms(2) by (simp add: stop_at_def)
  have "bs ! probe (length bs) key J \<noteq> KEmpty"
    using j x \<open>J \<le> j\<close> by (cases "J = j") auto
  with off obtain w where w: "bs ! probe (length bs) key J = KLive key w"
    by (cases "bs ! probe (length bs) key J") auto
  have "probe (length bs) key J = x"
    using live_index_unique [OF _ _ w x] probe_less assms(1) by (auto simp: buckets_ok_def)
  with x(2) show ?thesis by simp
qed

lemma key_stop_absent:
  assumes "pow2 (length bs)" and "key_stop bs key J" and "map_of (entries bs) key = None"
  shows "bs ! probe (length bs) key J = KEmpty"
proof -
  have off: "\<not> probe_on key (bs ! probe (length bs) key J)"
    using assms(2) by (simp add: stop_at_def)
  have "(key, w) \<notin> set (entries bs)" for w
    using assms(3) by (force simp: map_of_eq_None_iff)
  then have "bs ! probe (length bs) key J \<noteq> KLive key w" for w
    using probe_less [OF assms(1)] unfolding in_entries_iff by blast
  with off show ?thesis by (cases "bs ! probe (length bs) key J") auto
qed

subsection \<open>Lookup\<close>

lemma kh_init_wf [wf_intros]: "kh_wf kh_init"
  by (simp add: kh_wf_def kh_init_def)

lemma kh_init_map [abs_simps]: "kh_map kh_init = Map.empty"
  by (simp add: kh_map_def kh_entries_def kh_init_def)

lemma kh_get_present:
  assumes "kh_wf h" and "kh_map h k = Some v"
  shows "kh_get h k < kh_n_buckets h \<and> kh_buckets h ! kh_get h k = KLive k v"
proof -
  have n: "kh_n_buckets h \<noteq> 0"
    using assms by (auto simp: kh_wf_def kh_map_def kh_entries_def split: if_splits)
  then have bs: "buckets_ok (kh_buckets h)" and len: "length (kh_buckets h) = kh_n_buckets h"
    using assms(1) by (simp_all add: kh_wf_def)
  have p: "pow2 (length (kh_buckets h))" using bs by (simp add: buckets_ok_def)
  obtain J where J: "J < length (kh_buckets h)" "key_stop (kh_buckets h) k J"
    using key_stop_exists [OF p] bs by (auto simp: buckets_ok_def)
  have "(k, v) \<in> set (entries (kh_buckets h))"
    using assms(2) by (simp add: kh_map_def kh_entries_def map_of_SomeD)
  from key_stop_live [OF bs J(2) this] kh_get_loop_stop [OF p J(2,1), of 0] n
  show ?thesis
    by (simp add: kh_get_def probe_0 [OF p, symmetric] len [symmetric] probe_less [OF p]
        del: One_nat_def)
qed

lemma kh_get_absent:
  assumes "kh_wf h" and "kh_map h k = None"
  shows "kh_get h k = kh_n_buckets h"
proof (cases "kh_n_buckets h = 0")
  case True
  then show ?thesis by (simp add: kh_get_def)
next
  case n: False
  then have bs: "buckets_ok (kh_buckets h)" and len: "length (kh_buckets h) = kh_n_buckets h"
    using assms(1) by (simp_all add: kh_wf_def)
  have p: "pow2 (length (kh_buckets h))" using bs by (simp add: buckets_ok_def)
  obtain J where J: "J < length (kh_buckets h)" "key_stop (kh_buckets h) k J"
    using key_stop_exists [OF p] bs by (auto simp: buckets_ok_def)
  have "map_of (entries (kh_buckets h)) k = None"
    using assms(2) by (simp add: kh_map_def kh_entries_def)
  from key_stop_absent [OF p J(2) this] kh_get_loop_stop [OF p J(2,1), of 0] n
  show ?thesis
    by (simp add: kh_get_def probe_0 [OF p, symmetric] len [symmetric] del: One_nat_def)
qed

text \<open>Looking a key up as the callers do: \<open>kh_get\<close>, compare with \<open>kh_end\<close>, \<open>kh_value\<close>.\<close>

definition kh_lookup :: "'v khash \<Rightarrow> 32 word \<Rightarrow> 'v option" where
  "kh_lookup h k =
     (let x = kh_get h k in if x = kh_n_buckets h then None else kh_value h x)"

lemma kh_lookup_map [abs_simps]: "kh_wf h \<Longrightarrow> kh_lookup h k = kh_map h k"
  using kh_get_present [of h k] kh_get_absent [of h k]
  by (cases "kh_map h k") (auto simp: kh_lookup_def kh_value_def Let_def)

subsection \<open>Updating one bucket\<close>

lemma path_ok_update:
  assumes "path_ok bs" and "x < length bs" and "b \<noteq> KEmpty"
    and "\<And>k v. b = KLive k v \<Longrightarrow> \<exists>j < length bs. probe (length bs) k j = x \<and>
                (\<forall>i < j. bs ! probe (length bs) k i \<noteq> KEmpty)"
  shows "path_ok (bs[x := b])"
  unfolding path_ok_def
proof (intro allI impI)
  fix y k v
  assume y: "y < length (bs[x := b])" and live: "bs[x := b] ! y = KLive k v"
  have keep: "bs[x := b] ! i \<noteq> KEmpty" if "bs ! i \<noteq> KEmpty" for i
    using that assms(2,3) by (cases "i = x") auto
  obtain j where "j < length bs" "probe (length bs) k j = y"
      "\<forall>i < j. bs ! probe (length bs) k i \<noteq> KEmpty"
    using assms(1,4) y live assms(2) by (cases "y = x") (auto simp: path_ok_def)
  with keep show "\<exists>j < length (bs[x := b]). probe (length (bs[x := b])) k j = y \<and>
      (\<forall>i < j. bs[x := b] ! probe (length (bs[x := b])) k i \<noteq> KEmpty)"
    by auto
qed

lemma empty_bucket_kept:
  assumes "KEmpty \<in> set bs" and "bs ! x \<noteq> KEmpty"
  shows "KEmpty \<in> set (bs[x := b])"
proof -
  from assms(1) obtain y where y: "y < length bs" "bs ! y = KEmpty" by (auto simp: in_set_conv_nth)
  with assms(2) have "x \<noteq> y" by auto
  then have "bs[x := b] ! y = KEmpty" using y(2) by simp
  then show ?thesis using y(1) by (metis length_list_update nth_mem)
qed

lemma kh_del_spec:
  assumes "kh_wf h" and "x < kh_n_buckets h" and "kh_buckets h ! x = KLive k v"
  shows "kh_wf (kh_del h x)" and "kh_map (kh_del h x) = (kh_map h)(k := None)"
    and "mset (kh_entries h) = mset (kh_entries (kh_del h x)) + {#(k, v)#}"
proof -
  have bs: "buckets_ok (kh_buckets h)" and len: "length (kh_buckets h) = kh_n_buckets h"
    using assms(1,2) by (auto simp: kh_wf_def)
  have x: "x < length (kh_buckets h)" using assms(2) len by simp
  have h': "kh_del h x = h\<lparr>kh_buckets := (kh_buckets h)[x := KDeleted], kh_size := kh_size h - 1\<rparr>"
    using assms(2,3) by (simp add: kh_del_def)
  have m: "mset (entries (kh_buckets h)) = mset (entries ((kh_buckets h)[x := KDeleted])) + {#(k, v)#}"
    using mset_entries_update [OF x, of KDeleted] assms(3) by simp
  then show ms: "mset (kh_entries h) = mset (kh_entries (kh_del h x)) + {#(k, v)#}"
    by (simp add: kh_entries_def h')
  have d: "distinct (map fst (entries (kh_buckets h)))" using bs by (simp add: buckets_ok_def)
  note del = map_of_mset_delete [OF d m]
  then show "kh_map (kh_del h x) = (kh_map h)(k := None)"
    by (simp add: kh_map_def kh_entries_def h')
  have "path_ok ((kh_buckets h)[x := KDeleted])"
    using bs x by (intro path_ok_update) (auto simp: buckets_ok_def)
  moreover have "KEmpty \<in> set ((kh_buckets h)[x := KDeleted])"
    using bs assms(3) by (intro empty_bucket_kept) (simp_all add: buckets_ok_def)
  moreover have "length (filter (\<lambda>b. b \<noteq> KEmpty) ((kh_buckets h)[x := KDeleted]))
      = length (filter (\<lambda>b. b \<noteq> KEmpty) (kh_buckets h))"
    using length_filter_update [OF x, of "\<lambda>b. b \<noteq> KEmpty" KDeleted] assms(3) by simp
  moreover have "length (entries ((kh_buckets h)[x := KDeleted])) = kh_size h - 1"
    using arg_cong [OF m, of size] assms(1,2) by (simp add: kh_wf_def kh_entries_def)
  ultimately show "kh_wf (kh_del h x)"
    using assms(1,2) bs del(2) by (simp add: kh_wf_def kh_entries_def h' buckets_ok_def)
qed

lemma kh_set_value_spec:
  assumes "kh_wf h" and "x < kh_n_buckets h" and "kh_buckets h ! x = KLive k v"
  shows "kh_wf (kh_set_value h x w)" and "kh_map (kh_set_value h x w) = (kh_map h)(k \<mapsto> w)"
    and "mset (kh_entries (kh_set_value h x w)) + {#(k, v)#} = mset (kh_entries h) + {#(k, w)#}"
    and "kh_n_buckets (kh_set_value h x w) = kh_n_buckets h"
    and "kh_buckets (kh_set_value h x w) = (kh_buckets h)[x := KLive k w]"
proof -
  have bs: "buckets_ok (kh_buckets h)" and len: "length (kh_buckets h) = kh_n_buckets h"
    using assms(1,2) by (auto simp: kh_wf_def)
  have x: "x < length (kh_buckets h)" using assms(2) len by simp
  have h': "kh_set_value h x w = h\<lparr>kh_buckets := (kh_buckets h)[x := KLive k w]\<rparr>"
    using assms(3) by (simp add: kh_set_value_def)
  show "kh_n_buckets (kh_set_value h x w) = kh_n_buckets h"
    and "kh_buckets (kh_set_value h x w) = (kh_buckets h)[x := KLive k w]"
    by (simp_all add: h')
  have m: "mset (entries ((kh_buckets h)[x := KLive k w])) + {#(k, v)#}
      = mset (entries (kh_buckets h)) + {#(k, w)#}"
    using mset_entries_update [OF x, of "KLive k w"] assms(3) by simp
  then show "mset (kh_entries (kh_set_value h x w)) + {#(k, v)#} = mset (kh_entries h) + {#(k, w)#}"
    by (simp add: kh_entries_def h')
  let ?es = "entries ((kh_buckets h)[x := KDeleted])"
  have m1: "mset (entries (kh_buckets h)) = mset ?es + {#(k, v)#}"
    using mset_entries_update [OF x, of KDeleted] assms(3) by simp
  have d: "distinct (map fst (entries (kh_buckets h)))" using bs by (simp add: buckets_ok_def)
  note del = map_of_mset_delete [OF d m1]
  have m2: "mset (entries ((kh_buckets h)[x := KLive k w])) = mset ?es + {#(k, w)#}"
    using m m1 by simp
  have none: "map_of ?es k = None" using del(1) by simp
  note ins = map_of_mset_insert [OF del(2) m2 none]
  then show "kh_map (kh_set_value h x w) = (kh_map h)(k \<mapsto> w)"
    by (simp add: kh_map_def kh_entries_def h' del(1))
  have "path_ok ((kh_buckets h)[x := KLive k w])"
    using bs x assms(3) by (intro path_ok_update) (auto simp: buckets_ok_def path_ok_def)
  moreover have "KEmpty \<in> set ((kh_buckets h)[x := KLive k w])"
    using bs assms(3) by (intro empty_bucket_kept) (simp_all add: buckets_ok_def)
  moreover have "length (filter (\<lambda>b. b \<noteq> KEmpty) ((kh_buckets h)[x := KLive k w]))
      = length (filter (\<lambda>b. b \<noteq> KEmpty) (kh_buckets h))"
    using length_filter_update [OF x, of "\<lambda>b. b \<noteq> KEmpty" "KLive k w"] assms(3) by simp
  moreover have "length (entries ((kh_buckets h)[x := KLive k w])) = length (entries (kh_buckets h))"
    using arg_cong [OF m, of size] by simp
  ultimately show "kh_wf (kh_set_value h x w)"
    using assms(1,2) bs ins(2) by (simp add: kh_wf_def kh_entries_def h' buckets_ok_def)
qed

subsection \<open>Rehashing\<close>

text \<open>
  The rehash on two lists, the old buckets and the new ones, in which no entry can overwrite
  another. It says what the rehash in place has to compute.
\<close>

function kick_two ::
  "'v bucket list \<Rightarrow> 'v bucket list \<Rightarrow> 32 word \<Rightarrow> 'v \<Rightarrow> 'v bucket list \<times> 'v bucket list" where
  "kick_two old new key val =
     (let i = kh_find_empty (occupied new) (unat key AND (length new - 1)) 0;
          new' = new[i := KLive key val]
      in if i < length old \<and> bucket_live (old ! i)
         then (case old ! i of
                 KLive k v \<Rightarrow> kick_two (old[i := KDeleted]) new' k v
               | _ \<Rightarrow> (old, new'))
         else (old, new'))"
  by pat_completeness auto
termination
  by (relation "measure (\<lambda>(old, new, key, val). length (filter bucket_live old))")
    (auto intro!: length_filter_update_less)

declare kick_two.simps [simp del]

fun rehash_two ::
  "'v bucket list \<Rightarrow> 'v bucket list \<Rightarrow> nat \<Rightarrow> nat \<Rightarrow> 'v bucket list \<times> 'v bucket list" where
  "rehash_two old new j 0 = (old, new)"
| "rehash_two old new j (Suc m) =
     (case old ! j of
        KLive k v \<Rightarrow>
          (let (old', new') = kick_two (old[j := KDeleted]) new k v
           in rehash_two old' new' (Suc j) m)
      | _ \<Rightarrow> rehash_two old new (Suc j) m)"

text \<open>
  Flags and shared slots hold two lists of buckets: where a bucket of either is live, the slot has
  its entry.
\<close>

definition holds ::
  "'v bucket list \<Rightarrow> 'v bucket list \<Rightarrow> bool list \<Rightarrow> bool list \<Rightarrow> (32 word \<times> 'v) option list \<Rightarrow> bool" where
  "holds old new live used slots \<longleftrightarrow>
     live = map bucket_live old \<and> used = occupied new \<and>
     length old \<le> length slots \<and> length new \<le> length slots \<and> KDeleted \<notin> set new \<and>
     (\<forall>i < length old. bucket_live (old ! i) \<longrightarrow> slots ! i = bucket_slot (old ! i)) \<and>
     (\<forall>i < length new. new ! i \<noteq> KEmpty \<longrightarrow> slots ! i = bucket_slot (new ! i))"

text \<open>An entry is written to slot \<open>i\<close>, where no old entry is live any more.\<close>

lemma holdsD:
  assumes "holds old new live used slots"
  shows "live = map bucket_live old" and "used = occupied new"
    and "length old \<le> length slots" and "length new \<le> length slots" and "KDeleted \<notin> set new"
    and "i < length old \<Longrightarrow> bucket_live (old ! i) \<Longrightarrow> slots ! i = bucket_slot (old ! i)"
    and "i < length new \<Longrightarrow> new ! i \<noteq> KEmpty \<Longrightarrow> slots ! i = bucket_slot (new ! i)"
  using assms unfolding holds_def by blast+

lemma live_after_delete: "j < length bs \<Longrightarrow> bucket_live (bs[i := KDeleted] ! j) \<Longrightarrow> j \<noteq> i \<and> bucket_live (bs ! j)"
  by (cases "j = i") simp_all

lemma holds_delete:
  assumes "holds old new live used slots"
  shows "holds (old[j := KDeleted]) new (map bucket_live (old[j := KDeleted])) used slots"
proof -
  note d = holdsD [OF assms]
  have "slots ! i = bucket_slot (old[j := KDeleted] ! i)" if i: "i < length old" "bucket_live (old[j := KDeleted] ! i)" for i
    using live_after_delete [OF i] d(6) i(1) by simp
  then show ?thesis using d(2-5,7) by (simp add: holds_def)
qed

lemma holds_write:
  assumes h: "holds old new live used slots" and dead: "i < length old \<longrightarrow> \<not> bucket_live (old ! i)"
  shows "holds old (new[i := KLive key val]) live (used[i := True]) (slots[i := Some (key, val)])"
proof -
  note d = holdsD [OF h]
  have "KDeleted \<notin> set (new[i := KLive key val])"
    using d(5) set_update_subset_insert [of new i "KLive key val"] by auto
  moreover have "slots[i := Some (key, val)] ! j = bucket_slot (old ! j)" if "j < length old" "bucket_live (old ! j)" for j
  proof -
    have "j \<noteq> i" using dead that by auto
    then show ?thesis using d(6) that by simp
  qed
  moreover have "slots[i := Some (key, val)] ! j = bucket_slot (new[i := KLive key val] ! j)"
    if "j < length new" "new[i := KLive key val] ! j \<noteq> KEmpty" for j
    using d(4,7) that by (cases "j = i") auto
  ultimately show ?thesis using d(1-4) by (simp add: holds_def)
qed

lemma kick_two_in_place:
  assumes "holds old new live used slots" and "kick_two old new key val = (old', new')"
  shows "\<exists>slots'. kh_kick live used slots key val = (map bucket_live old', occupied new', slots') \<and>
    holds old' new' (map bucket_live old') (occupied new') slots' \<and> length slots' = length slots \<and>
    length old' = length old \<and> length new' = length new"
  using assms
proof (induction old new key val arbitrary: live used slots rule: kick_two.induct)
  case (1 old new key val)
  define i where "i = kh_find_empty (occupied new) (unat key AND (length new - 1)) 0"
  note h = "1.prems"(1)
  have fl: "live = map bucket_live old" "used = occupied new" using h by (simp_all add: holds_def)
  let ?new = "new[i := KLive key val]" and ?slots = "slots[i := Some (key, val)]"
  show ?case
  proof (cases "i < length old \<and> bucket_live (old ! i)")
    case False
    then have r: "old' = old \<and> new' = ?new"
      using "1.prems"(2) by (subst (asm) kick_two.simps) (auto simp: i_def Let_def)
    have "kh_kick live used slots key val = (live, used[i := True], ?slots)"
      using False by (subst kh_kick.simps) (auto simp: i_def fl Let_def)
    moreover have "holds old ?new live (used[i := True]) ?slots" by (rule holds_write [OF h]) (use False in blast)
    ultimately show ?thesis using r fl by simp
  next
    case True
    then obtain k v where kv: "old ! i = KLive k v" by (cases "old ! i") auto
    let ?old = "old[i := KDeleted]"
    have rec: "kick_two ?old ?new k v = (old', new')"
      using "1.prems"(2) True kv
      by (subst (asm) kick_two.simps) (simp add: i_def [symmetric] Let_def del: One_nat_def)
    have "slots ! i = Some (k, v)" using h True kv by (simp add: holds_def)
    then have "kh_kick live used slots key val = kh_kick (map bucket_live ?old) (used[i := True]) ?slots k v"
      using True by (subst kh_kick.simps) (simp add: i_def [symmetric] fl Let_def map_update del: One_nat_def)
    moreover have "holds ?old ?new (map bucket_live ?old) (used[i := True]) ?slots"
      by (rule holds_write [OF holds_delete [OF h]]) (use True in simp)
    ultimately show ?thesis using "1.IH" [OF i_def refl True kv _ rec] by fastforce
  qed
qed

lemma rehash_two_in_place:
  assumes "holds old new live used slots" and "rehash_two old new j m = (old', new')" and "j + m \<le> length old"
  shows "\<exists>slots'. kh_rehash live used slots j m = (map bucket_live old', occupied new', slots') \<and>
    holds old' new' (map bucket_live old') (occupied new') slots'"
  using assms
proof (induction m arbitrary: j old new live used slots)
  case 0
  then show ?case by (auto simp: holds_def)
next
  case (Suc m)
  have j: "j < length old" using Suc.prems(3) by simp
  have fl: "live = map bucket_live old" using Suc.prems(1) by (simp add: holds_def)
  show ?case
  proof (cases "old ! j")
    case (KLive k v)
    have "slots ! j = Some (k, v)" using Suc.prems(1) j KLive by (simp add: holds_def)
    then have r: "kh_rehash live used slots j (Suc m) =
        (let (live', used', slots') = kh_kick (map bucket_live (old[j := KDeleted])) used slots k v
         in kh_rehash live' used' slots' (Suc j) m)"
      using j KLive by (simp add: fl map_update)
    obtain old1 new1 where kick: "kick_two (old[j := KDeleted]) new k v = (old1, new1)"
      by (cases "kick_two (old[j := KDeleted]) new k v")
    have h: "holds (old[j := KDeleted]) new (map bucket_live (old[j := KDeleted])) used slots"
      by (rule holds_delete [OF Suc.prems(1)])
    obtain slots1 where s1: "kh_kick (map bucket_live (old[j := KDeleted])) used slots k v =
        (map bucket_live old1, occupied new1, slots1)"
      "holds old1 new1 (map bucket_live old1) (occupied new1) slots1" "length old1 = length old"
      using kick_two_in_place [OF h kick] by auto
    have "rehash_two old1 new1 (Suc j) m = (old', new')" using Suc.prems(2) KLive kick by simp
    from Suc.IH [OF s1(2) this] show ?thesis using Suc.prems(3) s1(3) unfolding r by (simp add: s1(1))
  qed (use Suc.IH [OF Suc.prems(1)] Suc.prems(2,3) j in \<open>simp_all add: fl\<close>)
qed

text \<open>The buckets made of the new flags and the slots are the new list.\<close>

lemma holds_buckets:
  assumes "holds old new live used slots"
  shows "map2 new_bucket used (take (length new) slots) = new"
proof (rule nth_equalityI)
  show "length (map2 new_bucket used (take (length new) slots)) = length new"
    using assms by (simp add: holds_def)
  fix i
  assume "i < length (map2 new_bucket used (take (length new) slots))"
  then have i: "i < length new" "i < length slots" using assms by (auto simp: holds_def)
  show "map2 new_bucket used (take (length new) slots) ! i = new ! i"
  proof (cases "new ! i")
    case KDeleted
    then show ?thesis using assms i(1) nth_mem [of i new] by (simp add: holds_def)
  qed (use assms i in \<open>auto simp: holds_def\<close>)
qed

text \<open>The new buckets during a rehash: no bucket is deleted, and there is room left.\<close>

definition fresh_ok :: "'v bucket list \<Rightarrow> bool" where
  "fresh_ok new \<longleftrightarrow> pow2 (length new) \<and> path_ok new \<and> KDeleted \<notin> set new"

lemma fresh_ok_room:
  assumes "fresh_ok new" and "length (entries new) < length new"
  shows "KEmpty \<in> set new"
proof -
  have "length (filter (\<lambda>b. b \<noteq> KEmpty) new) < length new"
    using assms nonempty_entries [of new] by (simp add: fresh_ok_def)
  from ex_nth_not_if_length_filter_less [OF this] show ?thesis by (auto simp: in_set_conv_nth)
qed

lemma fresh_insert:
  assumes "fresh_ok new" and "length (entries new) < length new"
    and "i = kh_find_empty (occupied new) (unat key AND (length new - 1)) 0"
  shows "fresh_ok (new[i := KLive key val])"
    and "mset (entries (new[i := KLive key val])) = mset (entries new) + {#(key, val)#}"
proof -
  have p: "pow2 (length new)" using assms(1) by (simp add: fresh_ok_def)
  obtain J where J: "J < length new" "empty_stop new key J"
    using empty_stop_exists [OF p fresh_ok_room [OF assms(1,2)]] by blast
  have i: "i = probe (length new) key J"
    using kh_find_empty_stop [OF p J(2,1), of 0] assms(3)
    by (simp add: probe_0 [OF p] del: One_nat_def)
  have il: "i < length new" and ie: "new ! i = KEmpty"
    using probe_less [OF p] J(2) by (simp_all add: i stop_at_def)
  have "path_ok (new[i := KLive key val])"
    using assms(1) il J i by (intro path_ok_update) (auto simp: fresh_ok_def stop_at_def)
  moreover have "KDeleted \<notin> set (new[i := KLive key val])"
    using assms(1) set_update_subset_insert [of new i "KLive key val"] by (auto simp: fresh_ok_def)
  ultimately show "fresh_ok (new[i := KLive key val])" using p by (simp add: fresh_ok_def)
  show "mset (entries (new[i := KLive key val])) = mset (entries new) + {#(key, val)#}"
    using mset_entries_update [OF il, of "KLive key val"] ie by simp
qed

lemma kick_two_spec:
  assumes "fresh_ok new" and "length (entries old) + length (entries new) < length new"
    and "kick_two old new key val = (old', new')"
  shows "fresh_ok new' \<and> length new' = length new \<and> length old' = length old \<and>
         mset (entries old') + mset (entries new')
           = mset (entries old) + mset (entries new) + {#(key, val)#} \<and>
         (\<forall>x < length old. \<not> bucket_live (old ! x) \<longrightarrow> \<not> bucket_live (old' ! x))"
  using assms
proof (induction old new key val rule: kick_two.induct)
  case (1 old new key val)
  define i where "i = kh_find_empty (occupied new) (unat key AND (length new - 1)) 0"
  let ?new = "new[i := KLive key val]"
  have ins: "fresh_ok ?new" "mset (entries ?new) = mset (entries new) + {#(key, val)#}"
    using fresh_insert [OF "1.prems"(1) _ i_def] "1.prems"(2) by auto
  show ?case
  proof (cases "i < length old \<and> bucket_live (old ! i)")
    case False
    then have "old' = old \<and> new' = ?new"
      using "1.prems"(3) by (subst (asm) kick_two.simps) (auto simp: i_def Let_def)
    then show ?thesis using ins by simp
  next
    case True
    then obtain k v where kv: "old ! i = KLive k v" by (cases "old ! i") auto
    let ?old = "old[i := KDeleted]"
    have rec: "kick_two ?old ?new k v = (old', new')"
      using "1.prems"(3) True kv
      by (subst (asm) kick_two.simps) (simp add: i_def [symmetric] Let_def del: One_nat_def)
    have mold: "mset (entries old) = mset (entries ?old) + {#(k, v)#}"
      using mset_entries_update [of i old KDeleted] True kv by simp
    have len: "length (entries ?old) + length (entries ?new) < length ?new"
      using arg_cong [OF mold, of size] arg_cong [OF ins(2), of size] "1.prems"(2) by simp
    have IH: "fresh_ok new' \<and> length new' = length ?new \<and> length old' = length ?old \<and>
         mset (entries old') + mset (entries new')
           = mset (entries ?old) + mset (entries ?new) + {#(k, v)#} \<and>
         (\<forall>x < length ?old. \<not> bucket_live (?old ! x) \<longrightarrow> \<not> bucket_live (old' ! x))"
      using "1.IH" [OF i_def refl True kv ins(1) len rec] .
    have "\<forall>x < length old. \<not> bucket_live (old ! x) \<longrightarrow> \<not> bucket_live (old' ! x)"
      using IH True by (metis bucket_live.simps(3) length_list_update nth_list_update)
    then show ?thesis using IH mold ins(2) by simp
  qed
qed

lemma rehash_two_spec:
  assumes "fresh_ok new" and "length (entries old) + length (entries new) \<le> length new - 1"
    and "j + m = length old" and "\<forall>x < j. \<not> bucket_live (old ! x)" and "0 < length new"
    and "rehash_two old new j m = (old', new')"
  shows "fresh_ok new' \<and> length new' = length new \<and>
         mset (entries new') = mset (entries old) + mset (entries new)"
  using assms
proof (induction m arbitrary: j old new)
  case 0
  have "filter bucket_live old = []"
    using "0.prems"(3,4) by (auto simp: filter_empty_conv in_set_conv_nth)
  then have "entries old = []" using length_filter_live [of old] by simp
  with 0 show ?case by simp
next
  case (Suc m)
  show ?case
  proof (cases "old ! j")
    case (KLive k v)
    obtain old1 new1 where kick: "kick_two (old[j := KDeleted]) new k v = (old1, new1)"
      by (cases "kick_two (old[j := KDeleted]) new k v")
    have j: "j < length old" using Suc.prems(3) by simp
    have mold: "mset (entries old) = mset (entries (old[j := KDeleted])) + {#(k, v)#}"
      using mset_entries_update [OF j, of KDeleted] KLive by simp
    have room: "length (entries (old[j := KDeleted])) + length (entries new) < length new"
      using arg_cong [OF mold, of size] Suc.prems(2,5) by simp
    note spec = kick_two_spec [OF Suc.prems(1) room kick]
    have "\<forall>x < Suc j. \<not> bucket_live (old1 ! x)"
      using spec Suc.prems(3,4) by (auto simp: less_Suc_eq nth_list_update)
    moreover have m1: "mset (entries old1) + mset (entries new1) = mset (entries old) + mset (entries new)"
      using spec mold by simp
    moreover have "length (entries old1) + length (entries new1) \<le> length new1 - 1"
    proof -
      have "length (entries old1) + length (entries new1) = length (entries old) + length (entries new)"
        using arg_cong [OF m1, of size] by simp
      then show ?thesis using Suc.prems(2) spec by simp
    qed
    moreover have "rehash_two old1 new1 (Suc j) m = (old', new')"
      using Suc.prems(6) KLive kick by simp
    ultimately have "fresh_ok new' \<and> length new' = length new1 \<and>
        mset (entries new') = mset (entries old1) + mset (entries new1)"
      using spec Suc.prems(3,5) by (intro Suc.IH) auto
    then show ?thesis using spec m1 by simp
  next
    case KEmpty
    then show ?thesis using Suc.prems
      by (intro Suc.IH [of new old "Suc j"]) (auto simp: less_Suc_eq)
  next
    case KDeleted
    then show ?thesis using Suc.prems
      by (intro Suc.IH [of new old "Suc j"]) (auto simp: less_Suc_eq)
  qed
qed

subsection \<open>Resizing\<close>

lemma pow2_from_ge: "0 < p \<Longrightarrow> x \<le> pow2_from p x"
  by (induction p x rule: pow2_from.induct) (subst pow2_from.simps, auto)

lemma pow2_from_pow2: "pow2 p \<Longrightarrow> pow2 (pow2_from p x)"
proof (induction p x rule: pow2_from.induct)
  case (1 p x)
  show ?case
  proof (cases "x \<le> p \<or> p = 0")
    case True
    then show ?thesis using "1.prems" by (subst pow2_from.simps) simp
  next
    case False
    have "pow2 (2 * p)" using "1.prems" by (auto simp: pow2_def intro: exI [of _ "Suc _"])
    with False "1.IH" show ?thesis by (subst pow2_from.simps) simp
  qed
qed

lemma kroundup32_ge: "x \<le> kroundup32 x"
  unfolding kroundup32_def by (rule pow2_from_ge) simp

lemma kroundup32_pow2: "pow2 (kroundup32 x)"
  unfolding kroundup32_def by (rule pow2_from_pow2) (auto simp: pow2_def intro: exI [of _ 0])

lemma pow2_4: "pow2 4"
  by (auto simp: pow2_def intro: exI [of _ 2])

lemma kh_load_less: "4 \<le> n \<Longrightarrow> kh_load n < n"
  by (simp add: kh_load_def div_less_iff_less_mult)

lemma path_ok_replicate [simp]: "path_ok (replicate n KEmpty)"
  by (simp add: path_ok_def)

lemma kh_resize_entries:
  assumes "kh_wf h" and "kh_size h < kh_load (max 4 (kroundup32 m))"
  shows "kh_wf (kh_resize h m) \<and> mset (kh_entries (kh_resize h m)) = mset (kh_entries h) \<and>
         kh_size (kh_resize h m) = kh_size h \<and> kh_n_occupied (kh_resize h m) = kh_size h \<and>
         kh_n_buckets (kh_resize h m) = max 4 (kroundup32 m) \<and>
         kh_upper_bound (kh_resize h m) = kh_load (max 4 (kroundup32 m))"
proof -
  define n where "n = max 4 (kroundup32 m)"
  have n4: "4 \<le> n" by (simp add: n_def)
  have n2: "pow2 n" by (simp add: n_def max_def pow2_4 kroundup32_pow2)
  have ifn: "(if kroundup32 m < 4 then 4 else kroundup32 m) = n" by (simp add: n_def max_def)
  define slots where "slots = map bucket_slot (kh_buckets h) @ replicate (n - kh_n_buckets h) None"
  obtain old new where re: "rehash_two (kh_buckets h) (replicate n KEmpty) 0 (kh_n_buckets h) = (old, new)"
    by (cases "rehash_two (kh_buckets h) (replicate n KEmpty) 0 (kh_n_buckets h)")
  have size: "kh_size h = length (entries (kh_buckets h))"
    and len: "length (kh_buckets h) = kh_n_buckets h"
    and d: "distinct (map fst (entries (kh_buckets h)))"
    using assms(1) by (auto simp: kh_wf_def kh_entries_def buckets_ok_def split: if_splits)
  have small: "kh_size h < kh_load n" using assms(2) by (simp add: n_def)
  have fresh: "fresh_ok (replicate n KEmpty)" using n2 n4 by (simp add: fresh_ok_def)
  have spec: "fresh_ok new \<and> length new = n \<and> mset (entries new) = mset (entries (kh_buckets h))"
    using rehash_two_spec [OF fresh _ _ _ _ re] len size small kh_load_less [OF n4] n4 by simp
  have "holds (kh_buckets h) (replicate n KEmpty) (map bucket_live (kh_buckets h)) (replicate n False) slots"
    using len by (auto simp: holds_def slots_def nth_append)
  from rehash_two_in_place [OF this re] len obtain slots' where s':
    "kh_rehash (map bucket_live (kh_buckets h)) (replicate n False) slots 0 (kh_n_buckets h) =
       (map bucket_live old, occupied new, slots')"
    "holds old new (map bucket_live old) (occupied new) slots'" by auto
  have "map2 new_bucket (occupied new) (take n slots') = new" using holds_buckets [OF s'(2)] spec by simp
  then have r: "kh_resize h m = \<lparr>kh_n_buckets = n, kh_size = kh_size h, kh_n_occupied = kh_size h,
      kh_upper_bound = kh_load n, kh_buckets = new\<rparr>"
    using small by (simp add: kh_resize_def Let_def ifn slots_def [symmetric] s'(1))
  have size': "length (entries new) = kh_size h"
    using size spec by (metis size_mset)
  have "KEmpty \<in> set new"
    using fresh_ok_room [of new] spec size' small kh_load_less [OF n4] by simp
  moreover have "distinct (map fst (entries new))" using map_of_mset(2) [OF d] spec by blast
  moreover have "length (filter (\<lambda>b. b \<noteq> KEmpty) new) = kh_size h"
    using nonempty_entries [of new] spec size' by (simp add: fresh_ok_def)
  ultimately have "kh_wf (kh_resize h m)"
    using spec n4 n2 size' small by (simp add: r kh_wf_def buckets_ok_def fresh_ok_def kh_entries_def)
  then show ?thesis using spec by (simp add: r kh_entries_def n_def)
qed

lemma kh_load_mono: "m \<le> n \<Longrightarrow> kh_load m \<le> kh_load n"
  by (simp add: kh_load_def div_le_mono)

lemma kh_load_strict: "2 * m \<le> n \<Longrightarrow> 2 \<le> m \<Longrightarrow> kh_load m < kh_load n"
  unfolding kh_load_def by linarith

text \<open>\<open>kh_put\<close> first makes room: afterwards a bucket can be occupied without overfilling.\<close>

lemma kh_make_room_spec:
  assumes "kh_wf h"
  shows "kh_wf (kh_make_room h) \<and> mset (kh_entries (kh_make_room h)) = mset (kh_entries h) \<and>
         kh_size (kh_make_room h) = kh_size h \<and> 4 \<le> kh_n_buckets (kh_make_room h) \<and>
         kh_n_occupied (kh_make_room h) < kh_upper_bound (kh_make_room h)"
proof (cases "kh_upper_bound h \<le> kh_n_occupied h")
  case False
  then have "kh_n_buckets h \<noteq> 0" using assms by (auto simp: kh_wf_def split: if_splits)
  then show ?thesis using assms False by (simp add: kh_make_room_def kh_wf_def)
next
  case full: True
  show ?thesis
  proof (cases "2 * kh_size h < kh_n_buckets h")
    case True
    have n: "4 \<le> kh_n_buckets h" "pow2 (kh_n_buckets h)" "kh_upper_bound h = kh_load (kh_n_buckets h)"
      using assms True by (auto simp: kh_wf_def buckets_ok_def split: if_splits)
    let ?n = "max 4 (kroundup32 (kh_n_buckets h - 1))"
    have "kh_n_buckets h - 1 \<le> ?n" using kroundup32_ge [of "kh_n_buckets h - 1"] by simp
    then have "kh_load (kh_n_buckets h - 1) \<le> kh_load ?n" by (rule kh_load_mono)
    moreover have "kh_size h < kh_load (kh_n_buckets h - 1)"
      using True n(1) unfolding kh_load_def by linarith
    ultimately have "kh_size h < kh_load ?n" by simp
    from kh_resize_entries [OF assms this] show ?thesis
      using full True \<open>kh_size h < kh_load ?n\<close> by (simp add: kh_make_room_def)
  next
    case False
    let ?n = "max 4 (kroundup32 (kh_n_buckets h + 1))"
    have "kh_size h < kh_load ?n"
    proof (cases "kh_n_buckets h = 0")
      case True
      have "kh_load 4 \<le> kh_load ?n" by (rule kh_load_mono) simp
      moreover have "kh_load 4 = 3" by (simp add: kh_load_def)
      ultimately show ?thesis using True assms by (simp add: kh_wf_def)
    next
      case n0: False
      then have n: "4 \<le> kh_n_buckets h" "pow2 (kh_n_buckets h)"
          "kh_upper_bound h = kh_load (kh_n_buckets h)"
        using assms by (auto simp: kh_wf_def buckets_ok_def)
      have "pow2 ?n"
        using kroundup32_pow2 [of "kh_n_buckets h + 1"] pow2_4 by (simp add: max_def)
      with n(2) obtain a b where ab: "kh_n_buckets h = 2 ^ a" "?n = 2 ^ b"
        unfolding pow2_def by blast
      have "kh_n_buckets h < ?n" using kroundup32_ge [of "kh_n_buckets h + 1"] by linarith
      then have "(2::nat) ^ a < 2 ^ b" using ab by simp
      then have "a < b" by simp
      then have "(2::nat) ^ Suc a \<le> 2 ^ b" by (intro power_increasing) auto
      then have "2 * kh_n_buckets h \<le> ?n" using ab by simp
      then have lt: "kh_load (kh_n_buckets h) < kh_load ?n" using n(1) by (intro kh_load_strict) auto
      have "kh_size h \<le> kh_n_occupied h"
      proof -
        have "length (filter bucket_live (kh_buckets h)) \<le> length (filter (\<lambda>b. b \<noteq> KEmpty) (kh_buckets h))"
          by (rule length_filter_mono) auto
        then show ?thesis using assms n0 by (simp add: kh_wf_def kh_entries_def length_filter_live)
      qed
      also have "\<dots> \<le> kh_load (kh_n_buckets h)" using assms n0 by (simp add: kh_wf_def)
      finally show ?thesis using lt by simp
    qed
    from kh_resize_entries [OF assms this] show ?thesis
      using full False \<open>kh_size h < kh_load ?n\<close> by (simp add: kh_make_room_def)
  qed
qed

subsection \<open>Insertion\<close>

lemma kh_put_site_spec:
  assumes "buckets_ok bs"
  shows "\<exists>j < length bs. kh_put_site bs (length bs) key = probe (length bs) key j \<and>
           (\<forall>i < j. bs ! probe (length bs) key i \<noteq> KEmpty) \<and>
           (case map_of (entries bs) key of
              None \<Rightarrow> \<not> bucket_live (bs ! probe (length bs) key j)
            | Some v \<Rightarrow> bs ! probe (length bs) key j = KLive key v)"
proof -
  have p: "pow2 (length bs)" using assms by (simp add: buckets_ok_def)
  obtain J where J: "J < length bs" "key_stop bs key J"
    using key_stop_exists [OF p] assms by (auto simp: buckets_ok_def)
  have before: "\<forall>i < J. bs ! probe (length bs) key i \<noteq> KEmpty"
    using J(2) unfolding stop_at_def by (metis probe_on.simps(1))
  obtain site where loop:
      "kh_put_loop bs (length bs) key (probe (length bs) key 0) (probe (length bs) key 0) 0 (length bs)
        = (length bs, site, probe (length bs) key J)"
    and site: "site = length bs \<or>
      (\<exists>i < J. site = probe (length bs) key i \<and> bs ! probe (length bs) key i = KDeleted)"
    using kh_put_loop_stop [OF p J(2,1), of 0] by blast
  have first: "bs ! probe (length bs) key 0 = KEmpty \<Longrightarrow> J = 0"
    using before by (cases "J = 0") auto
  have put: "kh_put_site bs (length bs) key =
      (if bs ! probe (length bs) key J = KEmpty \<and> site \<noteq> length bs then site
       else probe (length bs) key J)"
    using loop first site
    by (auto simp: kh_put_site_def probe_0 [OF p, symmetric] Let_def simp del: One_nat_def)
  show ?thesis
  proof (cases "map_of (entries bs) key")
    case (Some v)
    then have "bs ! probe (length bs) key J = KLive key v"
      using key_stop_live [OF assms J(2)] by (simp add: map_of_SomeD)
    then show ?thesis using put Some J(1) before by auto
  next
    case None
    then have empty: "bs ! probe (length bs) key J = KEmpty" by (rule key_stop_absent [OF p J(2)])
    show ?thesis
    proof (cases "site = length bs")
      case True
      then show ?thesis using put empty None J(1) before by auto
    next
      case False
      with site obtain i where "i < J" "site = probe (length bs) key i"
          "bs ! probe (length bs) key i = KDeleted" by blast
      moreover have "\<forall>i' < i. bs ! probe (length bs) key i' \<noteq> KEmpty"
        using before \<open>i < J\<close> by auto
      ultimately show ?thesis using put empty None False J(1) by (intro exI [of _ i]) auto
    qed
  qed
qed

lemma kh_map_mset:
  assumes "kh_wf h" and "kh_wf h'" and "mset (kh_entries h') = mset (kh_entries h)"
  shows "kh_map h' = kh_map h"
proof -
  have "distinct (map fst (kh_entries h))"
    using assms(1) by (auto simp: kh_wf_def buckets_ok_def kh_entries_def split: if_splits)
  from map_of_mset(1) [OF this assms(3)] show ?thesis by (simp add: kh_map_def)
qed

lemma kh_put_present:
  assumes "kh_wf h" and "kh_map h key = Some w" and "kh_put h key v = (h', x, ret)"
  shows "ret = 0" and "kh_wf h'" and "kh_map h' = kh_map h"
proof -
  let ?h = "kh_make_room h"
  have room: "kh_wf ?h" "mset (kh_entries ?h) = mset (kh_entries h)" "4 \<le> kh_n_buckets ?h"
    using kh_make_room_spec [OF assms(1)] by auto
  have bs: "buckets_ok (kh_buckets ?h)" and len: "length (kh_buckets ?h) = kh_n_buckets ?h"
    using room(1,3) by (auto simp: kh_wf_def split: if_splits)
  have same: "kh_map ?h = kh_map h" by (rule kh_map_mset [OF assms(1) room(1,2)])
  then have "map_of (entries (kh_buckets ?h)) key = Some w"
    using assms(2) by (simp add: kh_map_def kh_entries_def)
  with kh_put_site_spec [OF bs, of key] have
    "kh_buckets ?h ! kh_put_site (kh_buckets ?h) (kh_n_buckets ?h) key = KLive key w"
    by (auto simp: len)
  then have "h' = ?h \<and> ret = 0" using assms(3) by (auto simp: kh_put_def Let_def)
  then show "ret = 0" and "kh_wf h'" and "kh_map h' = kh_map h" using room(1) same by auto
qed

lemma kh_put_absent:
  assumes "kh_wf h" and "kh_map h key = None" and "kh_put h key v = (h', x, ret)"
  shows "0 < ret" and "kh_wf h'" and "kh_map h' = (kh_map h)(key \<mapsto> v)"
    and "kh_size h' = kh_size h + 1"
    and "mset (kh_entries h') = mset (kh_entries h) + {#(key, v)#}"
    and "x < kh_n_buckets h'" and "kh_buckets h' ! x = KLive key v"
proof -
  let ?h = "kh_make_room h"
  let ?bs = "kh_buckets ?h"
  have room: "kh_wf ?h" "mset (kh_entries ?h) = mset (kh_entries h)" "4 \<le> kh_n_buckets ?h"
      "kh_size ?h = kh_size h" "kh_n_occupied ?h < kh_upper_bound ?h"
    using kh_make_room_spec [OF assms(1)] by auto
  have bs: "buckets_ok ?bs" and len: "length ?bs = kh_n_buckets ?h"
    and size: "kh_size ?h = length (entries ?bs)"
    and occ: "kh_n_occupied ?h = length (filter (\<lambda>b. b \<noteq> KEmpty) ?bs)"
    and load: "kh_upper_bound ?h = kh_load (length ?bs)"
    using room(1,3) by (auto simp: kh_wf_def kh_entries_def split: if_splits)
  have same: "kh_map ?h = kh_map h" by (rule kh_map_mset [OF assms(1) room(1,2)])
  then have none: "map_of (entries ?bs) key = None"
    using assms(2) by (simp add: kh_map_def kh_entries_def)
  have d: "distinct (map fst (entries ?bs))" using bs by (simp add: buckets_ok_def)
  define y where "y = kh_put_site ?bs (kh_n_buckets ?h) key"
  obtain j where j: "j < length ?bs" "y = probe (length ?bs) key j"
      "\<forall>i < j. ?bs ! probe (length ?bs) key i \<noteq> KEmpty" and dead: "\<not> bucket_live (?bs ! y)"
    using kh_put_site_spec [OF bs, of key] none by (auto simp: y_def len)
  have yl: "y < length ?bs" using j(2) probe_less bs by (auto simp: buckets_ok_def)
  have xy: "x = y" and b': "kh_buckets h' = ?bs[y := KLive key v]"
    and n': "kh_n_buckets h' = kh_n_buckets ?h" and u': "kh_upper_bound h' = kh_upper_bound ?h"
    and s': "kh_size h' = kh_size ?h + 1" and ret: "0 < ret"
    and o': "kh_n_occupied h' = kh_n_occupied ?h + (if ?bs ! y = KEmpty then 1 else 0)"
    using assms(3) dead unfolding kh_put_def Let_def y_def [symmetric]
    by (auto split: bucket.splits)
  show "0 < ret" by (rule ret)
  show "kh_size h' = kh_size h + 1" using s' room(4) by simp
  have m: "mset (entries (?bs[y := KLive key v])) = mset (entries ?bs) + {#(key, v)#}"
    using mset_entries_update [OF yl, of "KLive key v"] dead by (cases "?bs ! y") auto
  note ins = map_of_mset_insert [OF d m none]
  show "kh_map h' = (kh_map h)(key \<mapsto> v)"
    using ins(1) by (simp add: same [symmetric]) (simp add: kh_map_def kh_entries_def b')
  show "mset (kh_entries h') = mset (kh_entries h) + {#(key, v)#}"
    using m room(2) by (simp add: kh_entries_def b')
  show "x < kh_n_buckets h'" and "kh_buckets h' ! x = KLive key v"
    using yl by (simp_all add: xy n' b' len)
  have "path_ok (?bs[y := KLive key v])"
    using bs yl j by (intro path_ok_update) (auto simp: buckets_ok_def)
  moreover have cnt: "length (filter (\<lambda>b. b \<noteq> KEmpty) (?bs[y := KLive key v])) = kh_n_occupied h'"
    using length_filter_update [OF yl, of "\<lambda>b. b \<noteq> KEmpty" "KLive key v"]
    by (auto simp: o' occ split: if_splits)
  moreover have occ': "kh_n_occupied h' \<le> kh_upper_bound h'"
    using room(5) by (auto simp: o' u')
  moreover have "KEmpty \<in> set (?bs[y := KLive key v])"
  proof -
    have "length (filter (\<lambda>b. b \<noteq> KEmpty) (?bs[y := KLive key v])) < length (?bs[y := KLive key v])"
      using cnt occ' kh_load_less [of "length ?bs"] room(3) load by (simp add: len u')
    from ex_nth_not_if_length_filter_less [OF this] show ?thesis by (auto simp: in_set_conv_nth)
  qed
  moreover have "length (entries (?bs[y := KLive key v])) = kh_size h'"
    using arg_cong [OF m, of size] size s' by simp
  ultimately show "kh_wf h'"
    using bs room(3) len load ins(2)
    by (simp add: kh_wf_def buckets_ok_def kh_entries_def b' n' u')
qed

lemma kh_size_entries: "kh_wf h \<Longrightarrow> kh_size h = length (kh_entries h)"
  by (auto simp: kh_wf_def kh_entries_def split: if_splits)

lemma kh_entries_distinct: "kh_wf h \<Longrightarrow> distinct (map fst (kh_entries h))"
  by (auto simp: kh_wf_def buckets_ok_def kh_entries_def split: if_splits)

lemma kh_dom_finite [simp]: "finite (dom (kh_map h))"
  by (simp add: kh_map_def finite_dom_map_of)

lemma kh_size_dom: "kh_wf h \<Longrightarrow> kh_size h = card (dom (kh_map h))"
  using kh_size_entries [of h] kh_entries_distinct [of h]
  by (simp add: kh_map_def dom_map_of_conv_image_fst)
    (metis distinct_card length_map list.set_map)

lemma kh_entries_map: "kh_wf h \<Longrightarrow> (k, v) \<in> set (kh_entries h) \<longleftrightarrow> kh_map h k = Some v"
  using kh_entries_distinct [of h] by (simp add: kh_map_def)

section \<open>The macro \<open>kroundup32\<close> on the sizes it is given\<close>

lemma kroundup32_word_pred:
  "k \<in> {2, 3, 4, 5, 6, 7, 8, 9, 10, 11, 12, 13, 14, 15, 16, 17, 18, 19, 20, 21, 22, 23, 24,
        25, 26, 27, 28, 29, 30} \<Longrightarrow>
   kroundup32_word (2 ^ k - 1) = 2 ^ k"
  by (auto simp: kroundup32_word_def Let_def drop_bit_eq_div)

lemma kroundup32_word_succ:
  "k \<in> {2, 3, 4, 5, 6, 7, 8, 9, 10, 11, 12, 13, 14, 15, 16, 17, 18, 19, 20, 21, 22, 23, 24,
        25, 26, 27, 28, 29, 30} \<Longrightarrow>
   kroundup32_word (2 ^ k + 1) = 2 ^ (k + 1)"
  by (auto simp: kroundup32_word_def Let_def drop_bit_eq_div)

section \<open>The interface\<close>

text \<open>
  What the learner and the proposer rely on: a table is a finite map, with lookup,
  insertion of an absent key, deletion of a present key and assignment to a present key.
\<close>

locale finite_map =
  fixes empty :: "'h"
    and lookup :: "'h \<Rightarrow> 'k \<Rightarrow> 'v option"
    and put :: "'h \<Rightarrow> 'k \<Rightarrow> 'v \<Rightarrow> 'h"
    and del :: "'h \<Rightarrow> 'k \<Rightarrow> 'h"
    and assign :: "'h \<Rightarrow> 'k \<Rightarrow> 'v \<Rightarrow> 'h"
    and alpha :: "'h \<Rightarrow> 'k \<Rightarrow> 'v option"
    and invar :: "'h \<Rightarrow> bool"
  assumes invar_empty: "invar empty" and alpha_empty: "alpha empty = Map.empty"
    and lookup_alpha: "invar h \<Longrightarrow> lookup h k = alpha h k"
    and invar_put: "invar h \<Longrightarrow> alpha h k = None \<Longrightarrow> invar (put h k v)"
    and alpha_put: "invar h \<Longrightarrow> alpha h k = None \<Longrightarrow> alpha (put h k v) = (alpha h)(k \<mapsto> v)"
    and invar_del: "invar h \<Longrightarrow> alpha h k \<noteq> None \<Longrightarrow> invar (del h k)"
    and alpha_del: "invar h \<Longrightarrow> alpha h k \<noteq> None \<Longrightarrow> alpha (del h k) = (alpha h)(k := None)"
    and invar_assign: "invar h \<Longrightarrow> alpha h k \<noteq> None \<Longrightarrow> invar (assign h k v)"
    and alpha_assign: "invar h \<Longrightarrow> alpha h k \<noteq> None \<Longrightarrow>
          alpha (assign h k v) = (alpha h)(k \<mapsto> v)"
begin

lemma lookup_put:
  "invar h \<Longrightarrow> alpha h k = None \<Longrightarrow>
   lookup (put h k v) j = (if j = k then Some v else lookup h j)"
  by (simp add: lookup_alpha invar_put alpha_put)

lemma lookup_del:
  "invar h \<Longrightarrow> alpha h k \<noteq> None \<Longrightarrow>
   lookup (del h k) j = (if j = k then None else lookup h j)"
  by (simp add: lookup_alpha invar_del alpha_del)

text \<open>An instance moved from one table to another is found there and only there.\<close>

lemma move:
  assumes "invar f" and "invar t" and "alpha f k = Some v" and "alpha t k = None"
  shows "invar (del f k)" and "invar (put t k v)"
    and "lookup (del f k) k = None" and "lookup (put t k v) k = Some v"
  using assms by (simp_all add: invar_del invar_put lookup_del lookup_put)

end

text \<open>The operations by key, composed from iterator operations as the callers compose them.\<close>

definition kh_put_key :: "'v khash \<Rightarrow> 32 word \<Rightarrow> 'v \<Rightarrow> 'v khash" where
  "kh_put_key h k v = fst (kh_put h k v)"

definition kh_del_key :: "'v khash \<Rightarrow> 32 word \<Rightarrow> 'v khash" where
  "kh_del_key h k = kh_del h (kh_get h k)"

definition kh_assign_key :: "'v khash \<Rightarrow> 32 word \<Rightarrow> 'v \<Rightarrow> 'v khash" where
  "kh_assign_key h k v = kh_set_value h (kh_get h k) v"

lemma kh_del_key_spec:
  assumes "kh_wf h" and "kh_map h k = Some v"
  shows "kh_wf (kh_del_key h k)" and "kh_map (kh_del_key h k) = (kh_map h)(k := None)"
    and "mset (kh_entries h) = mset (kh_entries (kh_del_key h k)) + {#(k, v)#}"
  using kh_get_present [OF assms] kh_del_spec [OF assms(1), of "kh_get h k" k v]
  by (auto simp: kh_del_key_def)

lemma kh_assign_key_spec:
  assumes "kh_wf h" and "kh_map h k = Some v"
  shows "kh_wf (kh_assign_key h k w)" and "kh_map (kh_assign_key h k w) = (kh_map h)(k \<mapsto> w)"
    and "mset (kh_entries (kh_assign_key h k w)) + {#(k, v)#} = mset (kh_entries h) + {#(k, w)#}"
  using kh_get_present [OF assms] kh_set_value_spec [OF assms(1), of "kh_get h k" k v w]
  by (auto simp: kh_assign_key_def)

lemma kh_assign_key_same:
  assumes "kh_wf h" and "kh_map h k = Some v"
  shows "kh_assign_key h k v = h"
proof -
  have "kh_buckets h ! kh_get h k = KLive k v" using kh_get_present [OF assms] by simp
  then have "kh_assign_key h k v = h\<lparr>kh_buckets := (kh_buckets h)[kh_get h k := kh_buckets h ! kh_get h k]\<rparr>"
    by (simp add: kh_assign_key_def kh_set_value_def)
  also have "\<dots> = h" by (simp only: list_update_id) simp
  finally show ?thesis .
qed

lemma kh_put_key_spec:
  assumes "kh_wf h" and "kh_map h k = None"
  shows "kh_wf (kh_put_key h k v)" and "kh_map (kh_put_key h k v) = (kh_map h)(k \<mapsto> v)"
    and "mset (kh_entries (kh_put_key h k v)) = mset (kh_entries h) + {#(k, v)#}"
proof -
  obtain h' x r where p: "kh_put h k v = (h', x, r)" by (cases "kh_put h k v") auto
  show "kh_wf (kh_put_key h k v)" and "kh_map (kh_put_key h k v) = (kh_map h)(k \<mapsto> v)"
    and "mset (kh_entries (kh_put_key h k v)) = mset (kh_entries h) + {#(k, v)#}"
    using kh_put_absent [OF assms p] by (simp_all add: kh_put_key_def p)
qed

interpretation kh: finite_map kh_init kh_lookup kh_put_key kh_del_key kh_assign_key kh_map kh_wf
  by unfold_locales
    (auto simp: kh_init_wf kh_init_map kh_lookup_map kh_put_key_spec kh_del_key_spec
      kh_assign_key_spec)

section \<open>Properties\<close>

datatype 'v table_op = T_put "32 word" 'v | T_del "32 word" | T_get "32 word"

text \<open>
  A history of a table: \<open>kh_put\<close> of a key and a value, \<open>kh_del\<close> of what \<open>kh_get\<close> finds, and
  lookups, whose results are collected. \<open>kh_put\<close> of a key that is present changes nothing.
\<close>

fun kh_run :: "'v khash \<Rightarrow> 'v table_op list \<Rightarrow> 'v khash \<times> 'v option list" where
  "kh_run h [] = (h, [])"
| "kh_run h (T_put k v # ops) = kh_run (fst (kh_put h k v)) ops"
| "kh_run h (T_del k # ops) = kh_run (kh_del h (kh_get h k)) ops"
| "kh_run h (T_get k # ops) = (let (h', outs) = kh_run h ops in (h', kh_lookup h k # outs))"

fun map_run :: "(32 word \<Rightarrow> 'v option) \<Rightarrow> 'v table_op list \<Rightarrow> (32 word \<Rightarrow> 'v option) \<times> 'v option list" where
  "map_run m [] = (m, [])"
| "map_run m (T_put k v # ops) = map_run (if m k = None then m(k \<mapsto> v) else m) ops"
| "map_run m (T_del k # ops) = map_run (m(k := None)) ops"
| "map_run m (T_get k # ops) = (let (m', outs) = map_run m ops in (m', m k # outs))"

lemma kh_put_map:
  assumes "kh_wf h"
  shows "kh_wf (fst (kh_put h k v))"
    and "kh_map (fst (kh_put h k v)) = (if kh_map h k = None then (kh_map h)(k \<mapsto> v) else kh_map h)"
proof -
  obtain h' x r where p: "kh_put h k v = (h', x, r)" by (cases "kh_put h k v") auto
  have "kh_wf h' \<and> kh_map h' = (if kh_map h k = None then (kh_map h)(k \<mapsto> v) else kh_map h)"
    using kh_put_absent(2,3) [OF assms _ p] kh_put_present(2,3) [OF assms _ p]
    by (cases "kh_map h k") auto
  then show "kh_wf (fst (kh_put h k v))"
    and "kh_map (fst (kh_put h k v)) = (if kh_map h k = None then (kh_map h)(k \<mapsto> v) else kh_map h)"
    by (simp_all add: p)
qed

lemma kh_del_map:
  assumes "kh_wf h"
  shows "kh_wf (kh_del h (kh_get h k))" and "kh_map (kh_del h (kh_get h k)) = (kh_map h)(k := None)"
proof -
  have "kh_wf (kh_del h (kh_get h k)) \<and> kh_map (kh_del h (kh_get h k)) = (kh_map h)(k := None)"
  proof (cases "kh_map h k")
    case None
    then have "kh_del h (kh_get h k) = h" using kh_get_absent [OF assms] by (simp add: kh_del_def)
    then show ?thesis using None assms by (simp add: fun_upd_idem)
  next
    case (Some v)
    then show ?thesis using kh_del_key_spec [OF assms Some] by (simp add: kh_del_key_def)
  qed
  then show "kh_wf (kh_del h (kh_get h k))" and "kh_map (kh_del h (kh_get h k)) = (kh_map h)(k := None)"
    by auto
qed

lemma kh_run_map:
  "kh_wf h \<Longrightarrow>
   kh_wf (fst (kh_run h ops)) \<and> kh_map (fst (kh_run h ops)) = fst (map_run (kh_map h) ops) \<and>
   snd (kh_run h ops) = snd (map_run (kh_map h) ops)"
  by (induction h ops rule: kh_run.induct)
    (simp_all add: kh_put_map kh_del_map kh_lookup_map split_beta Let_def)

text \<open>
  C16. The open-addressing table is a finite map: for every history of insertions, deletions
  and lookups from an empty table, with all the resizing and in-place rehashing they cause,
  the lookups answer what a map would, the final contents are the map's, and \<open>kh_size\<close> is
  the number of its keys.
\<close>

theorem khash_refines_map:
  "snd (kh_run kh_init ops) = snd (map_run Map.empty ops) \<and>
   kh_map (fst (kh_run kh_init ops)) = fst (map_run Map.empty ops) \<and>
   kh_size (fst (kh_run kh_init ops)) = card (dom (fst (map_run Map.empty ops)))"
  using kh_run_map [OF kh_init_wf, of ops] kh_size_dom [of "fst (kh_run kh_init ops)"]
  by (simp add: kh_init_map)

text \<open>
  The return code and the iterator of \<open>kh_put\<close>: 0 exactly for a key that is present,
  otherwise positive, and then the iterator is inside the table and points to the new entry.
\<close>

theorem kh_put_result:
  assumes "kh_wf h" and "kh_put h k v = (h', x, r)"
  shows "(r = 0 \<longleftrightarrow> kh_lookup h k \<noteq> None) \<and>
         (r \<noteq> 0 \<longrightarrow> 0 < r \<and> x < kh_n_buckets h' \<and> kh_buckets h' ! x = KLive k v \<and>
            kh_get h' k = x)"
proof (cases "kh_map h k")
  case None
  note put = kh_put_absent [OF assms(1) None assms(2)]
  have g: "kh_get h' k < kh_n_buckets h'" "kh_buckets h' ! kh_get h' k = KLive k v"
    using kh_get_present [OF put(2), of k v] put(3) by auto
  have "distinct (map fst (entries (kh_buckets h')))" "length (kh_buckets h') = kh_n_buckets h'"
    using put(2,6) by (auto simp: kh_wf_def buckets_ok_def split: if_splits)
  then have "kh_get h' k = x"
    using live_index_unique [of "kh_buckets h'" "kh_get h' k" k v x v] g put(6,7) by simp
  then show ?thesis using put(1,6,7) None kh_lookup_map [OF assms(1), of k] by auto
next
  case (Some w)
  then show ?thesis using kh_put_present(1) [OF assms(1) Some assms(2)] kh_lookup_map [OF assms(1), of k] by simp
qed

theorem kh_put_result_witness:
  "case kh_put (fst (kh_put kh_init 5 (7::nat))) 9 (8::nat) of
     (h', x, r) \<Rightarrow> r \<noteq> 0 \<and> x < kh_n_buckets h' \<and> kh_get h' 9 = x"
proof -
  let ?h = "fst (kh_put kh_init 5 (7::nat))"
  obtain h' x r where p: "kh_put ?h 9 (8::nat) = (h', x, r)" by (cases "kh_put ?h 9 (8::nat)") auto
  have "kh_lookup ?h 9 = None" by code_simp
  then show ?thesis
    using kh_put_result [OF kh_put_map(1) [OF kh_init_wf] p] p by auto
qed

text \<open>
  C17. \<open>kh_resize\<close> to any size: the in-place kick-out rehash neither loses nor duplicates an
  entry, and the table stays well-formed, so that every key is still found.
\<close>

theorem kh_resize_keeps_entries:
  assumes "kh_wf h"
  shows "mset (kh_entries (kh_resize h m)) = mset (kh_entries h) \<and>
         (\<forall>k. kh_lookup (kh_resize h m) k = kh_lookup h k)"
proof (cases "kh_size h < kh_load (max 4 (kroundup32 m))")
  case True
  then have "kh_wf (kh_resize h m)" "mset (kh_entries (kh_resize h m)) = mset (kh_entries h)"
    using kh_resize_entries [OF assms, of m] by auto
  then show ?thesis
    using kh_map_mset [OF assms] kh_lookup_map [OF assms] kh_lookup_map [of "kh_resize h m"] by simp
next
  case False
  then have "kh_resize h m = h" by (simp add: kh_resize_def Let_def max_def split: if_splits)
  then show ?thesis by simp
qed

theorem kh_resize_keeps_entries_witness:
  "kh_lookup (kh_resize (fst (kh_put kh_init 5 (7::nat))) 100) 5 = Some 7"
proof -
  have "kh_lookup (fst (kh_put kh_init 5 (7::nat))) 5 = Some 7" by code_simp
  then show ?thesis
    using kh_resize_keeps_entries [OF kh_put_map(1) [OF kh_init_wf, of 5 "7::nat"], of 100] by simp
qed

end
