(* ===== verification/Learner.thy ===== *)
theory Learner
  imports PaxosTypes Quorum KHash
begin

text \<open>
  \<open>paxos/learner.c\<close>. An instance keeps the last accepted message of every acceptor; it is
  closed once a majority of them carries the ballot of the last update. The learner hands
  closed instances out in instance order. The table of instances is the hash table of
  \<open>KHash\<close>; an instance is changed in place through its key.

  The theorems relate a learner to the set of accepted messages it has received: what it
  delivers was acknowledged by a majority at one ballot, a majority is noticed as soon as
  it is complete, and deliveries come in order without gaps.
\<close>

section \<open>Instances\<close>

record linstance =
  li_iid :: iid_t
  li_last_update_ballot :: ballot_t
  li_acks :: "paxos_accepted option list"
  li_final_value :: "paxos_accepted option"

definition linstance_new :: "int \<Rightarrow> linstance" where
  "linstance_new acceptors =
     \<lparr>li_iid = 0, li_last_update_ballot = 0, li_acks = replicate (nat acceptors) None,
      li_final_value = None\<rparr>"

definition paxos_value_copy :: "paxos_value \<Rightarrow> paxos_value" where
  "paxos_value_copy src =
     \<lparr>paxos_value_len = paxos_value_len src,
      paxos_value_val = memcpy_bytes (paxos_value_len src) (paxos_value_val src)\<rparr>"

definition paxos_accepted_dup :: "paxos_accepted \<Rightarrow> paxos_accepted" where
  "paxos_accepted_dup ack = ack\<lparr>accepted_value := paxos_value_copy (accepted_value ack)\<rparr>"

text \<open>The loop of \<open>instance_has_quorum\<close>: \<open>count\<close> and \<open>a_valid_index\<close>.\<close>

fun ack_scan :: "ballot_t \<Rightarrow> paxos_accepted option list \<Rightarrow> int \<Rightarrow> int \<Rightarrow> int \<Rightarrow> int \<times> int" where
  "ack_scan b [] i cnt vld = (cnt, vld)"
| "ack_scan b (None # acks) i cnt vld = ack_scan b acks (i + 1) cnt vld"
| "ack_scan b (Some r # acks) i cnt vld =
     (if accepted_ballot r = b then ack_scan b acks (i + 1) (cnt + 1) i
      else ack_scan b acks (i + 1) cnt vld)"

text \<open>
  The test also records the final value: the pointer it stores is to one of the acks, none
  of which is written once the final value is set.
\<close>

definition linstance_has_quorum :: "linstance \<Rightarrow> int \<Rightarrow> linstance \<times> bool" where
  "linstance_has_quorum inst acceptors =
     (if li_final_value inst \<noteq> None then (inst, True)
      else let (cnt, a_valid_index) =
                 ack_scan (li_last_update_ballot inst) (take (nat acceptors) (li_acks inst)) 0 0 (-1)
           in if paxos_quorum acceptors \<le> cnt
              then (inst\<lparr>li_final_value :=
                      (if a_valid_index < 0 then None else li_acks inst ! nat a_valid_index)\<rparr>, True)
              else (inst, False))"

definition linstance_add_accept :: "linstance \<Rightarrow> paxos_accepted \<Rightarrow> nat \<Rightarrow> linstance" where
  "linstance_add_accept inst acc aid =
     inst\<lparr>li_acks := (li_acks inst)[aid := Some (paxos_accepted_dup acc)],
          li_last_update_ballot := accepted_ballot acc\<rparr>"

definition linstance_update ::
  "linstance \<Rightarrow> paxos_accepted \<Rightarrow> int \<Rightarrow> int \<Rightarrow> linstance outcome" where
  "linstance_update inst acc from_id acceptors =
     (let inst = (if li_iid inst = 0
                  then inst\<lparr>li_iid := accepted_iid acc, li_last_update_ballot := accepted_ballot acc\<rparr>
                  else inst);
          (inst, closed) = linstance_has_quorum inst acceptors
      in if closed then Inr inst
         else if from_id < 0 \<or> int (length (li_acks inst)) \<le> from_id then Inl OutOfBounds
         else case li_acks inst ! nat from_id of
                Some prev \<Rightarrow>
                  if accepted_ballot acc \<le> accepted_ballot prev then Inr inst
                  else Inr (linstance_add_accept inst acc (nat from_id))
              | None \<Rightarrow> Inr (linstance_add_accept inst acc (nat from_id)))"

section \<open>The learner\<close>

record learner =
  l_acceptors :: int
  l_late_start :: bool
  l_current_iid :: iid_t
  l_highest_iid_closed :: iid_t
  l_instances :: "linstance khash"

definition learner_new :: "paxos_config \<Rightarrow> int \<Rightarrow> learner" where
  "learner_new cfg acceptors =
     \<lparr>l_acceptors = acceptors, l_late_start = (learner_catch_up cfg = 0), l_current_iid = 1,
      l_highest_iid_closed = 1, l_instances = kh_init\<rparr>"

definition learner_set_instance_id :: "learner \<Rightarrow> iid_t \<Rightarrow> learner" where
  "learner_set_instance_id l iid = l\<lparr>l_current_iid := iid + 1, l_highest_iid_closed := iid\<rparr>"

definition learner_get_instance :: "learner \<Rightarrow> iid_t \<Rightarrow> linstance option" where
  "learner_get_instance l iid = kh_lookup (l_instances l) iid"

definition learner_get_current_instance :: "learner \<Rightarrow> linstance option" where
  "learner_get_current_instance l = learner_get_instance l (l_current_iid l)"

definition learner_get_instance_or_create :: "learner \<Rightarrow> iid_t \<Rightarrow> learner \<times> linstance" where
  "learner_get_instance_or_create l iid =
     (case learner_get_instance l iid of
        Some inst \<Rightarrow> (l, inst)
      | None \<Rightarrow>
          let inst = linstance_new (l_acceptors l)
          in (l\<lparr>l_instances := kh_put_key (l_instances l) iid inst\<rparr>, inst))"

definition learner_delete_instance :: "learner \<Rightarrow> linstance \<Rightarrow> learner" where
  "learner_delete_instance l inst =
     l\<lparr>l_instances := kh_del_key (l_instances l) (li_iid inst)\<rparr>"

definition learner_receive_accepted ::
  "learner \<Rightarrow> paxos_accepted \<Rightarrow> int \<Rightarrow> learner outcome" where
  "learner_receive_accepted l ack from_id =
     (let l = (if l_late_start l then l\<lparr>l_late_start := False, l_current_iid := accepted_iid ack\<rparr>
               else l)
      in if accepted_iid ack < l_current_iid l then Inr l
         else let (l, inst) = learner_get_instance_or_create l (accepted_iid ack) in
           case linstance_update inst ack from_id (l_acceptors l) of
             Inl e \<Rightarrow> Inl e
           | Inr inst \<Rightarrow>
               let (inst, closed) = linstance_has_quorum inst (l_acceptors l)
               in Inr (l\<lparr>l_instances := kh_assign_key (l_instances l) (accepted_iid ack) inst,
                         l_highest_iid_closed :=
                           (if closed \<and> l_highest_iid_closed l < li_iid inst then li_iid inst
                            else l_highest_iid_closed l)\<rparr>))"

text \<open>\<open>None\<close> is the return code 0; \<open>Some out\<close> is 1 with \<open>out\<close> filled.\<close>

definition learner_deliver_next :: "learner \<Rightarrow> learner \<times> paxos_accepted option" where
  "learner_deliver_next l =
     (case learner_get_current_instance l of
        None \<Rightarrow> (l, None)
      | Some inst \<Rightarrow>
          let (inst, closed) = linstance_has_quorum inst (l_acceptors l)
          in if \<not> closed then (l, None)
             else case li_final_value inst of
                    None \<Rightarrow> (l, None)
                  | Some final \<Rightarrow>
                      let out = final\<lparr>accepted_value := paxos_value_copy (accepted_value final)\<rparr>;
                          l = learner_delete_instance l inst
                      in (l\<lparr>l_current_iid := l_current_iid l + 1\<rparr>, Some out))"

definition learner_has_holes :: "learner \<Rightarrow> (iid_t \<times> iid_t) option" where
  "learner_has_holes l =
     (if l_current_iid l < l_highest_iid_closed l
      then Some (l_current_iid l, l_highest_iid_closed l) else None)"

section \<open>Votes recorded in an instance\<close>

definition ack_at :: "ballot_t \<Rightarrow> paxos_accepted option \<Rightarrow> bool" where
  "ack_at b a \<longleftrightarrow> (\<exists>r. a = Some r \<and> accepted_ballot r = b)"

definition ack_votes :: "ballot_t \<Rightarrow> paxos_accepted option list \<Rightarrow> int set" where
  "ack_votes b acks = int ` {i. i < length acks \<and> ack_at b (acks ! i)}"

lemma ack_scan_count:
  "fst (ack_scan b acks i c v) = c + int (length (filter (ack_at b) acks))"
  by (induction b acks i c v rule: ack_scan.induct) (auto simp: ack_at_def)

lemma ack_scan_valid:
  "snd (ack_scan b acks i c v) = v \<and> filter (ack_at b) acks = [] \<or>
   (\<exists>j < length acks. snd (ack_scan b acks i c v) = i + int j \<and> ack_at b (acks ! j))"
proof (induction b acks i c v rule: ack_scan.induct)
  case (1 b i c v)
  then show ?case by simp
next
  case (2 b acks i c v)
  then show ?case by (auto simp: ack_at_def intro: exI [of _ "Suc _"])
next
  case (3 b r acks i c v)
  show ?case
  proof (cases "accepted_ballot r = b")
    case True
    from "3.IH"(1) [OF True] show ?thesis
    proof (elim disjE exE conjE)
      assume "snd (ack_scan b acks (i + 1) (c + 1) i) = i" "filter (ack_at b) acks = []"
      then show ?thesis using True by (auto simp: ack_at_def intro: exI [of _ 0])
    next
      fix j
      assume "j < length acks" "snd (ack_scan b acks (i + 1) (c + 1) i) = i + 1 + int j"
        "ack_at b (acks ! j)"
      then show ?thesis using True by (auto intro!: exI [of _ "Suc j"])
    qed
  next
    case False
    from "3.IH"(2) [OF False] show ?thesis
    proof (elim disjE exE conjE)
      assume "snd (ack_scan b acks (i + 1) c v) = v" "filter (ack_at b) acks = []"
      moreover have "\<not> ack_at b (Some r)" using False by (simp add: ack_at_def)
      ultimately show ?thesis using False by simp
    next
      fix j
      assume "j < length acks" "snd (ack_scan b acks (i + 1) c v) = i + 1 + int j"
        "ack_at b (acks ! j)"
      then show ?thesis using False by (auto intro!: exI [of _ "Suc j"])
    qed
  qed
qed

lemma ack_votes_card: "int (length (filter (ack_at b) acks)) = int (card (ack_votes b acks))"
  by (simp add: ack_votes_def card_image length_filter_eq_card)

lemma ack_votes_majority:
  "0 \<le> n \<Longrightarrow> length acks = nat n \<Longrightarrow>
   paxos_quorum n \<le> int (length (filter (ack_at b) acks)) \<longleftrightarrow> majority n (ack_votes b acks)"
  by (auto simp: paxos_quorum_majority ack_votes_card majority_def ack_votes_def)

lemma ack_votes_update:
  "i < length acks \<Longrightarrow>
   ack_votes b (acks[i := Some r]) =
     (if accepted_ballot r = b then insert (int i) (ack_votes b acks)
      else ack_votes b acks - {int i})"
  by (auto simp: ack_votes_def ack_at_def nth_list_update split: if_splits)

lemma majority_mono: "majority n P \<Longrightarrow> P \<subseteq> Q \<Longrightarrow> Q \<subseteq> {0..<n} \<Longrightarrow> majority n Q"
proof -
  assume m: "majority n P" and s: "P \<subseteq> Q" and q: "Q \<subseteq> {0..<n}"
  have "finite Q" using q by (rule finite_subset) simp
  then have "card P \<le> card Q" using s by (rule card_mono)
  with m q show ?thesis by (auto simp: majority_def)
qed

section \<open>Instances and the messages they come from\<close>

text \<open>
  An instance of key \<open>k\<close> with \<open>n\<close> acceptors, built from the accepted messages \<open>M\<close>: every
  ack is a message for \<open>k\<close> from its acceptor; the final value is an ack of a majority
  ballot; and an instance without a final value has no majority.
\<close>

definition linst_ok :: "int \<Rightarrow> iid_t \<Rightarrow> (paxos_accepted \<times> int) set \<Rightarrow> linstance \<Rightarrow> bool" where
  "linst_ok n k M inst \<longleftrightarrow>
     length (li_acks inst) = nat n \<and>
     (\<forall>i r. i < length (li_acks inst) \<longrightarrow> li_acks inst ! i = Some r \<longrightarrow>
        (r, int i) \<in> M \<and> accepted_iid r = k) \<and>
     (case li_final_value inst of
        None \<Rightarrow> \<forall>b. \<not> majority n (ack_votes b (li_acks inst))
      | Some r \<Rightarrow> Some r \<in> set (li_acks inst) \<and>
                 majority n (ack_votes (accepted_ballot r) (li_acks inst)))"

lemma linst_ok_mono: "linst_ok n k M inst \<Longrightarrow> M \<subseteq> M' \<Longrightarrow> linst_ok n k M' inst"
  by (auto simp: linst_ok_def)

lemma majority_nonempty: "majority n Q \<Longrightarrow> Q \<noteq> {}"
  by (auto simp: majority_def)

lemma linst_ok_new: "0 \<le> n \<Longrightarrow> linst_ok n k M (linstance_new n)"
proof -
  have "ack_votes b (replicate (nat n) None) = {}" for b by (auto simp: ack_votes_def ack_at_def)
  then show ?thesis using majority_nonempty by (auto simp: linst_ok_def linstance_new_def)
qed

text \<open>The test finds a majority of the last update's ballot, and only that.\<close>

lemma has_quorum_open:
  assumes "0 \<le> n" and "length (li_acks inst) = nat n" and "li_final_value inst = None"
  shows "\<not> majority n (ack_votes (li_last_update_ballot inst) (li_acks inst)) \<Longrightarrow>
           linstance_has_quorum inst n = (inst, False)"
    and "majority n (ack_votes (li_last_update_ballot inst) (li_acks inst)) \<Longrightarrow>
           \<exists>r. Some r \<in> set (li_acks inst) \<and> accepted_ballot r = li_last_update_ballot inst \<and>
               linstance_has_quorum inst n = (inst\<lparr>li_final_value := Some r\<rparr>, True)"
proof -
  let ?b = "li_last_update_ballot inst"
  obtain c v where cv: "ack_scan ?b (li_acks inst) 0 0 (-1) = (c, v)"
    by (cases "ack_scan ?b (li_acks inst) 0 0 (-1)")
  have c: "c = int (length (filter (ack_at ?b) (li_acks inst)))"
    using ack_scan_count [of ?b "li_acks inst" 0 0 "-1"] cv by simp
  have m: "paxos_quorum n \<le> c \<longleftrightarrow> majority n (ack_votes ?b (li_acks inst))"
    using ack_votes_majority [OF assms(1,2)] c by simp
  have q: "linstance_has_quorum inst n =
      (if majority n (ack_votes ?b (li_acks inst))
       then (inst\<lparr>li_final_value := (if v < 0 then None else li_acks inst ! nat v)\<rparr>, True)
       else (inst, False))"
    using assms(2,3) m cv by (simp add: linstance_has_quorum_def)
  show "\<not> majority n (ack_votes ?b (li_acks inst)) \<Longrightarrow> linstance_has_quorum inst n = (inst, False)"
    using q by simp
  assume maj: "majority n (ack_votes ?b (li_acks inst))"
  then have "filter (ack_at ?b) (li_acks inst) \<noteq> []"
    using majority_nonempty by (fastforce simp: ack_votes_def filter_empty_conv)
  then obtain j where j: "j < length (li_acks inst)" "v = int j" "ack_at ?b (li_acks inst ! j)"
    using ack_scan_valid [of ?b "li_acks inst" 0 0 "-1"] cv by auto
  then obtain r where "li_acks inst ! j = Some r" "accepted_ballot r = ?b"
    by (auto simp: ack_at_def)
  then show "\<exists>r. Some r \<in> set (li_acks inst) \<and> accepted_ballot r = ?b \<and>
      linstance_has_quorum inst n = (inst\<lparr>li_final_value := Some r\<rparr>, True)"
    using j q maj by (metis nat_int negative_zle not_less nth_mem of_nat_0_le_iff)
qed

lemma has_quorum_closed:
  "li_final_value inst \<noteq> None \<Longrightarrow> linstance_has_quorum inst n = (inst, True)"
  by (simp add: linstance_has_quorum_def)

lemma linst_ok_has_quorum:
  assumes "0 \<le> n" and "linst_ok n k M inst"
  shows "linstance_has_quorum inst n = (inst, li_final_value inst \<noteq> None)"
proof (cases "li_final_value inst")
  case None
  then show ?thesis
    using has_quorum_open(1) [OF assms(1) _ None] assms(2) by (simp add: linst_ok_def)
next
  case (Some r)
  then show ?thesis by (simp add: has_quorum_closed)
qed

lemma accepted_dup_id [simp]:
  assumes "value_wf (accepted_value ack)"
  shows "paxos_accepted_dup ack = ack"
proof -
  have "paxos_value_copy (accepted_value ack) = accepted_value ack"
    by (simp add: paxos_value_copy_def memcpy_bytes_wf [OF assms])
  then show ?thesis by (simp add: paxos_accepted_dup_def)
qed

text \<open>
  Recording a message and testing for a quorum, the two steps of
  \<open>learner_receive_accepted\<close> on one instance, keep the instance good; a test that says
  closed has a final value.
\<close>

definition linst_step :: "linstance \<Rightarrow> paxos_accepted \<Rightarrow> int \<Rightarrow> int \<Rightarrow> (linstance \<times> bool) outcome" where
  "linst_step inst ack from_id n =
     (case linstance_update inst ack from_id n of
        Inl e \<Rightarrow> Inl e
      | Inr inst' \<Rightarrow> Inr (linstance_has_quorum inst' n))"

lemma linst_ok_fields:
  "li_acks inst' = li_acks inst \<Longrightarrow> li_final_value inst' = li_final_value inst \<Longrightarrow>
   linst_ok n k M inst' = linst_ok n k M inst"
  by (simp add: linst_ok_def split: option.split)

text \<open>
  An open instance has, for every message it was given, one from the same acceptor at the
  same ballot or a higher one.
\<close>

definition linst_full :: "iid_t \<Rightarrow> (paxos_accepted \<times> int) set \<Rightarrow> linstance \<Rightarrow> bool" where
  "linst_full k M inst \<longleftrightarrow>
     (li_final_value inst = None \<longrightarrow>
      (\<forall>r i. (r, i) \<in> M \<longrightarrow> accepted_iid r = k \<longrightarrow> 0 \<le> i \<and>
         (\<exists>s. nat i < length (li_acks inst) \<and> li_acks inst ! nat i = Some s \<and>
              accepted_ballot r \<le> accepted_ballot s)))"

lemma linst_full_update:
  assumes "linst_full k M inst" and "li_final_value inst = None"
    and "0 \<le> from_id" and "nat from_id < length (li_acks inst)"
    and "\<And>s. li_acks inst ! nat from_id = Some s \<Longrightarrow> accepted_ballot s \<le> accepted_ballot ack"
    and "li_acks inst' = (li_acks inst)[nat from_id := Some ack]"
  shows "linst_full k (insert (ack, from_id) M) inst'"
  unfolding linst_full_def
proof (intro impI allI)
  fix r i
  assume *: "(r, i) \<in> insert (ack, from_id) M" "accepted_iid r = k"
  show "0 \<le> i \<and> (\<exists>s. nat i < length (li_acks inst') \<and> li_acks inst' ! nat i = Some s \<and>
      accepted_ballot r \<le> accepted_ballot s)"
  proof (cases "(r, i) = (ack, from_id)")
    case True
    then show ?thesis using assms(3,4,6) by simp
  next
    case False
    then obtain s where s: "0 \<le> i" "nat i < length (li_acks inst)" "li_acks inst ! nat i = Some s"
        "accepted_ballot r \<le> accepted_ballot s"
      using * assms(1,2) by (auto simp: linst_full_def)
    show ?thesis
    proof (cases "nat i = nat from_id")
      case True
      then show ?thesis using s assms(4,6) assms(5) [of s] by auto
    next
      case False
      then show ?thesis using s assms(6) by simp
    qed
  qed
qed

lemma linst_full_same:
  assumes "linst_full k M inst" and "0 \<le> from_id" and "nat from_id < length (li_acks inst)"
    and "li_acks inst ! nat from_id = Some s" and "accepted_ballot ack \<le> accepted_ballot s"
  shows "linst_full k (insert (ack, from_id) M) inst"
  using assms by (auto simp: linst_full_def)

lemma linst_full_fields:
  "li_acks inst' = li_acks inst \<Longrightarrow> li_final_value inst' = li_final_value inst \<Longrightarrow>
   linst_full k M inst' = linst_full k M inst"
  by (auto simp: linst_full_def)

lemma linst_full_closed: "li_final_value inst \<noteq> None \<Longrightarrow> linst_full k M inst"
  by (auto simp: linst_full_def)

definition linst_first :: "linstance \<Rightarrow> paxos_accepted \<Rightarrow> linstance" where
  "linst_first inst ack =
     (if li_iid inst = 0
      then inst\<lparr>li_iid := accepted_iid ack, li_last_update_ballot := accepted_ballot ack\<rparr>
      else inst)"

lemma linst_first_fields [simp]:
  "li_acks (linst_first inst ack) = li_acks inst"
  "li_final_value (linst_first inst ack) = li_final_value inst"
  "li_iid inst = 0 \<or> li_iid inst = accepted_iid ack \<Longrightarrow> li_iid (linst_first inst ack) = accepted_iid ack"
  by (auto simp: linst_first_def)

lemma linstance_update_eq:
  assumes "0 \<le> n" and "linst_ok n k M inst" and "0 \<le> from_id" and "from_id < n"
  shows "linstance_update inst ack from_id n =
     (let f = linst_first inst ack; i = nat from_id in
      if li_final_value f \<noteq> None then Inr f
      else case li_acks f ! i of
             Some prev \<Rightarrow> if accepted_ballot ack \<le> accepted_ballot prev then Inr f
                          else Inr (linstance_add_accept f ack i)
           | None \<Rightarrow> Inr (linstance_add_accept f ack i))"
proof -
  have ok: "linst_ok n k M (linst_first inst ack)"
    using assms(2) linst_ok_fields [of "linst_first inst ack" inst] by simp
  then have "length (li_acks inst) = nat n" by (simp add: linst_ok_def)
  then show ?thesis
    using linst_ok_has_quorum [OF assms(1) ok] assms(3,4)
    by (simp add: linstance_update_def linst_first_def [symmetric] Let_def split: option.split)
qed

text \<open>What recording a message in an open instance and testing it again does.\<close>

lemma linst_record_ok:
  assumes n: "0 \<le> n" and ok: "linst_ok n k M inst" and open_: "li_final_value inst = None"
    and ack: "accepted_iid ack = k" "value_wf (accepted_value ack)"
    and frm: "0 \<le> from_id" "from_id < n"
    and upd: "upd = linstance_add_accept inst ack (nat from_id)"
    and test: "linstance_has_quorum upd n = (inst', closed)"
  shows "linst_ok n k (insert (ack, from_id) M) inst'" and "li_iid inst' = li_iid inst"
    and "closed = (li_final_value inst' \<noteq> None)" and "li_acks inst' = li_acks upd"
proof -
  let ?M = "insert (ack, from_id) M"
  have len: "length (li_acks inst) = nat n" using ok by (simp add: linst_ok_def)
  have i: "nat from_id < length (li_acks inst)" using frm len by simp
  have acks: "li_acks upd = (li_acks inst)[nat from_id := Some ack]"
    and fin: "li_final_value upd = None" and lub: "li_last_update_ballot upd = accepted_ballot ack"
    and iid: "li_iid upd = li_iid inst"
    using open_ ack(2) by (simp_all add: upd linstance_add_accept_def)
  have lenu: "length (li_acks upd) = nat n" using len acks by simp
  have msgs: "\<forall>j r. j < length (li_acks upd) \<longrightarrow> li_acks upd ! j = Some r \<longrightarrow>
      (r, int j) \<in> ?M \<and> accepted_iid r = k"
    using ok ack(1) frm i by (auto simp: acks nth_list_update linst_ok_def)
  have other: "\<not> majority n (ack_votes b (li_acks upd))" if "b \<noteq> accepted_ballot ack" for b
  proof
    assume "majority n (ack_votes b (li_acks upd))"
    moreover have "ack_votes b (li_acks upd) \<subseteq> ack_votes b (li_acks inst)"
      using that by (auto simp: acks ack_votes_update [OF i])
    moreover have "ack_votes b (li_acks inst) \<subseteq> {0..<n}" using len by (auto simp: ack_votes_def)
    ultimately have "majority n (ack_votes b (li_acks inst))" by (rule majority_mono)
    then show False using ok open_ by (simp add: linst_ok_def)
  qed
  have "linst_ok n k ?M inst' \<and> li_iid inst' = li_iid inst \<and>
        closed = (li_final_value inst' \<noteq> None) \<and> li_acks inst' = li_acks upd"
  proof (cases "majority n (ack_votes (accepted_ballot ack) (li_acks upd))")
    case False
    then have "inst' = upd \<and> \<not> closed"
      using test has_quorum_open(1) [OF n lenu fin] by (simp add: lub)
    moreover have "\<not> majority n (ack_votes b (li_acks upd))" for b
      using other False by (cases "b = accepted_ballot ack") auto
    ultimately show ?thesis using msgs lenu fin iid by (auto simp: linst_ok_def)
  next
    case True
    then obtain r where r: "Some r \<in> set (li_acks upd)" "accepted_ballot r = accepted_ballot ack"
        "linstance_has_quorum upd n = (upd\<lparr>li_final_value := Some r\<rparr>, True)"
      using has_quorum_open(2) [OF n lenu fin] by (auto simp: lub)
    then have "inst' = upd\<lparr>li_final_value := Some r\<rparr> \<and> closed" using test by simp
    then show ?thesis using msgs lenu iid r(1,2) True by (auto simp: linst_ok_def)
  qed
  then show "linst_ok n k ?M inst'" and "li_iid inst' = li_iid inst"
    and "closed = (li_final_value inst' \<noteq> None)" and "li_acks inst' = li_acks upd" by auto
qed

text \<open>
  One message on one instance, from a sender that is an acceptor: the code always returns,
  and the instance stays good and full.
\<close>

lemma linst_step_ok:
  assumes n: "0 \<le> n" and ok: "linst_ok n k M inst" and iid: "li_iid inst = 0 \<or> li_iid inst = k"
    and ack: "accepted_iid ack = k" "value_wf (accepted_value ack)"
    and frm: "0 \<le> from_id" "from_id < n"
  obtains inst' closed where "linst_step inst ack from_id n = Inr (inst', closed)"
    and "linst_ok n k (insert (ack, from_id) M) inst'" and "li_iid inst' = k"
    and "closed = (li_final_value inst' \<noteq> None)"
    and "linst_full k M inst \<Longrightarrow> linst_full k (insert (ack, from_id) M) inst'"
    and "li_final_value inst \<noteq> None \<Longrightarrow> li_final_value inst' = li_final_value inst"
proof -
  let ?M = "insert (ack, from_id) M" and ?f = "linst_first inst ack"
  have okf: "linst_ok n k M ?f" using ok linst_ok_fields [of ?f inst] by simp
  have iidf: "li_iid ?f = k" using iid ack(1) by simp
  note up = linstance_update_eq [OF n ok frm, of ack, unfolded Let_def]
  have len: "nat from_id < length (li_acks inst)" using frm ok by (simp add: linst_ok_def)
  note result = that
  have keep: thesis
    if u: "linstance_update inst ack from_id n = Inr ?f" and full: "linst_full k M inst \<Longrightarrow> linst_full k ?M ?f"
  proof (rule result [of ?f "li_final_value ?f \<noteq> None"])
    show "linst_step inst ack from_id n = Inr (?f, li_final_value ?f \<noteq> None)"
      using u linst_ok_has_quorum [OF n okf] by (simp add: linst_step_def)
  qed (use linst_ok_mono [OF okf, of ?M] iidf full in auto)
  show thesis
  proof (cases "li_final_value inst = None")
    case False
    show thesis using up False by (intro keep) (auto intro: linst_full_closed)
  next
    case True
    show thesis
    proof (cases "\<exists>s. li_acks inst ! nat from_id = Some s \<and> accepted_ballot ack \<le> accepted_ballot s")
      case stale: True
      then obtain s where s: "li_acks inst ! nat from_id = Some s" "accepted_ballot ack \<le> accepted_ballot s"
        by blast
      show thesis
      proof (rule keep)
        show "linstance_update inst ack from_id n = Inr ?f" using up True s by simp
        show "linst_full k ?M ?f" if "linst_full k M inst"
          using linst_full_same [OF _ frm(1) _ _ s(2), of k M ?f] that s(1) len
            linst_full_fields [of ?f inst k M] by simp
      qed
    next
      case new: False
      define upd where "upd = linstance_add_accept ?f ack (nat from_id)"
      obtain inst' closed where test: "linstance_has_quorum upd n = (inst', closed)"
        by (cases "linstance_has_quorum upd n")
      have "linstance_update inst ack from_id n = Inr upd"
        using up True new by (auto simp: upd_def split: option.split)
      then have step: "linst_step inst ack from_id n = Inr (inst', closed)"
        by (simp add: linst_step_def test)
      have opn: "li_final_value ?f = None" using True by simp
      note rec = linst_record_ok [OF n okf opn ack frm upd_def test]
      have "li_acks inst' = (li_acks inst)[nat from_id := Some ack]"
        using rec(4) ack(2) by (simp add: upd_def linstance_add_accept_def)
      then have "linst_full k ?M inst'" if "linst_full k M inst"
        using new by (intro linst_full_update [OF that True frm(1) len]) (auto simp: not_le)
      with step rec iidf True show thesis by (intro result) auto
    qed
  qed
qed

section \<open>The learner and the messages it has received\<close>

text \<open>
  \<open>M\<close> is the set of accepted messages received so far, each with its sender.
\<close>

definition linst_in :: "int \<Rightarrow> (paxos_accepted \<times> int) set \<Rightarrow> iid_t \<Rightarrow> iid_t \<Rightarrow> linstance \<Rightarrow> bool" where
  "linst_in n M h k inst \<longleftrightarrow>
     linst_ok n k M inst \<and> li_iid inst = k \<and> (li_final_value inst \<noteq> None \<longrightarrow> k \<le> h)"

lemma linst_in_mono:
  "linst_in n M h k inst \<Longrightarrow> M \<subseteq> M' \<Longrightarrow> h \<le> h' \<Longrightarrow> linst_in n M' h' k inst"
  using linst_ok_mono [of n k M inst M'] by (auto simp: linst_in_def)

definition learner_inv :: "int \<Rightarrow> (paxos_accepted \<times> int) set \<Rightarrow> learner \<Rightarrow> bool" where
  "learner_inv n M l \<longleftrightarrow>
     l_acceptors l = n \<and> 0 \<le> n \<and> kh_wf (l_instances l) \<and>
     (\<forall>r i. (r, i) \<in> M \<longrightarrow> value_wf (accepted_value r)) \<and>
     (\<forall>k inst. kh_map (l_instances l) k = Some inst \<longrightarrow>
        linst_in n M (l_highest_iid_closed l) k inst)"

text \<open>Nothing received for an instance that is still to be delivered has been forgotten.\<close>

definition slot_full :: "iid_t \<Rightarrow> (paxos_accepted \<times> int) set \<Rightarrow> linstance option \<Rightarrow> bool" where
  "slot_full k M slot \<longleftrightarrow>
     (case slot of
        None \<Rightarrow> \<forall>r i. (r, i) \<in> M \<longrightarrow> accepted_iid r \<noteq> k
      | Some inst \<Rightarrow> linst_full k M inst)"

definition learner_full :: "(paxos_accepted \<times> int) set \<Rightarrow> learner \<Rightarrow> bool" where
  "learner_full M l \<longleftrightarrow>
     (l_late_start l \<longrightarrow> M = {}) \<and>
     (\<forall>k. l_current_iid l \<le> k \<longrightarrow> slot_full k M (kh_map (l_instances l) k))"

lemma slot_full_empty: "slot_full k {} slot"
  by (simp add: slot_full_def linst_full_def split: option.split)

lemma slot_full_other:
  "slot_full k M slot \<Longrightarrow> accepted_iid ack \<noteq> k \<Longrightarrow> slot_full k (insert (ack, i) M) slot"
  by (auto simp: slot_full_def linst_full_def split: option.splits)

lemma slot_full_inst:
  "slot_full k M slot \<Longrightarrow>
   linst_full k M (case slot of None \<Rightarrow> linstance_new n | Some i \<Rightarrow> i)"
  by (auto simp: slot_full_def linst_full_def split: option.splits)

lemma learner_inv_insert:
  "learner_inv n M l \<Longrightarrow> value_wf (accepted_value ack) \<Longrightarrow> learner_inv n (insert (ack, i) M) l"
  unfolding learner_inv_def using linst_in_mono [OF _ subset_insertI order_refl] by blast

lemma learner_inv_new: "0 \<le> n \<Longrightarrow> learner_inv n {} (learner_new cfg n)"
  by (simp add: learner_inv_def learner_new_def kh_init_wf kh_init_map)

lemma learner_full_new: "learner_full {} (learner_new cfg n)"
  by (simp add: learner_full_def slot_full_empty)

lemma learner_get_instance_map:
  "learner_inv n M l \<Longrightarrow> learner_get_instance l k = kh_map (l_instances l) k"
  by (simp add: learner_get_instance_def learner_inv_def kh.lookup_alpha)

text \<open>The state after the late start test, at the top of \<open>learner_receive_accepted\<close>.\<close>

definition late_learner :: "learner \<Rightarrow> paxos_accepted \<Rightarrow> learner" where
  "late_learner l ack =
     (if l_late_start l then l\<lparr>l_late_start := False, l_current_iid := accepted_iid ack\<rparr> else l)"

lemma late_learner_fields [simp]:
  "l_instances (late_learner l ack) = l_instances l" "l_acceptors (late_learner l ack) = l_acceptors l"
  "l_highest_iid_closed (late_learner l ack) = l_highest_iid_closed l"
  "\<not> l_late_start (late_learner l ack)"
  by (simp_all add: late_learner_def)

lemma late_learner_inv: "learner_inv n M (late_learner l ack) = learner_inv n M l"
  by (simp add: learner_inv_def)

lemma late_learner_full: "learner_full M l \<Longrightarrow> learner_full M (late_learner l ack)"
  by (auto simp: late_learner_def learner_full_def slot_full_empty)

text \<open>
  The two ways a message from an acceptor is received: an instance already delivered, or
  one step on its instance.
\<close>

lemma receive_cases:
  assumes inv: "learner_inv n M l" and wf: "value_wf (accepted_value ack)"
    and frm: "0 \<le> from_id" "from_id < n"
  obtains
    (old) "accepted_iid ack < l_current_iid (late_learner l ack)"
      "learner_receive_accepted l ack from_id = Inr (late_learner l ack)"
  | (step) l' inst inst' where "l_current_iid (late_learner l ack) \<le> accepted_iid ack"
      "learner_receive_accepted l ack from_id = Inr l'"
      "inst = (case kh_map (l_instances l) (accepted_iid ack) of None \<Rightarrow> linstance_new n | Some i \<Rightarrow> i)"
      "linst_ok n (accepted_iid ack) (insert (ack, from_id) M) inst'" "li_iid inst' = accepted_iid ack"
      "linst_full (accepted_iid ack) M inst \<Longrightarrow>
         linst_full (accepted_iid ack) (insert (ack, from_id) M) inst'"
      "li_final_value inst \<noteq> None \<Longrightarrow> li_final_value inst' = li_final_value inst"
      "kh_wf (l_instances l')" "kh_map (l_instances l') = (kh_map (l_instances l))(accepted_iid ack \<mapsto> inst')"
      "l_acceptors l' = n" "l_current_iid l' = l_current_iid (late_learner l ack)" "\<not> l_late_start l'"
      "l_highest_iid_closed l' =
         (if li_final_value inst' \<noteq> None then max (l_highest_iid_closed l) (accepted_iid ack)
          else l_highest_iid_closed l)"
proof (cases "accepted_iid ack < l_current_iid (late_learner l ack)")
  case True
  then show ?thesis
    using old by (simp add: learner_receive_accepted_def late_learner_def [symmetric])
next
  case False
  let ?k = "accepted_iid ack" and ?l = "late_learner l ack"
  define inst where "inst =
    (case kh_map (l_instances l) ?k of None \<Rightarrow> linstance_new n | Some i \<Rightarrow> i)"
  define tbl where "tbl =
    (case kh_map (l_instances l) ?k of None \<Rightarrow> kh_put_key (l_instances l) ?k inst | Some i \<Rightarrow> l_instances l)"
  have n: "0 \<le> n" "l_acceptors l = n" and wfl: "kh_wf (l_instances l)"
    using inv by (simp_all add: learner_inv_def)
  have get: "learner_get_instance ?l ?k = kh_map (l_instances l) ?k"
    using learner_get_instance_map [of n M ?l] inv by (simp add: late_learner_inv)
  have goc: "learner_get_instance_or_create ?l ?k = (?l\<lparr>l_instances := tbl\<rparr>, inst)"
    using get n by (simp add: learner_get_instance_or_create_def inst_def tbl_def Let_def split: option.split)
  have tbl: "kh_wf tbl" "kh_map tbl = (kh_map (l_instances l))(?k \<mapsto> inst)"
    using wfl kh.invar_put [OF wfl] kh.alpha_put [OF wfl]
    by (auto simp: tbl_def inst_def split: option.split)
  have ok: "linst_ok n ?k M inst" and iid: "li_iid inst = 0 \<or> li_iid inst = ?k"
    using inv linst_ok_new [OF n(1)]
    by (auto simp: inst_def learner_inv_def linst_in_def linstance_new_def split: option.split)
  obtain inst' closed where st: "linst_step inst ack from_id n = Inr (inst', closed)"
    and ok': "linst_ok n ?k (insert (ack, from_id) M) inst'" and iid': "li_iid inst' = ?k"
    and cl: "closed = (li_final_value inst' \<noteq> None)"
    and full: "linst_full ?k M inst \<Longrightarrow> linst_full ?k (insert (ack, from_id) M) inst'"
    and stay: "li_final_value inst \<noteq> None \<Longrightarrow> li_final_value inst' = li_final_value inst"
    using linst_step_ok [OF n(1) ok iid refl wf frm] by metis
  obtain u where u: "linstance_update inst ack from_id n = Inr u" "linstance_has_quorum u n = (inst', closed)"
    using st by (auto simp: linst_step_def split: sum.splits)
  define l' where "l' = ?l\<lparr>l_instances := kh_assign_key tbl ?k inst',
      l_highest_iid_closed := (if closed \<and> l_highest_iid_closed l < ?k then ?k
                               else l_highest_iid_closed l)\<rparr>"
  have asg: "kh_wf (kh_assign_key tbl ?k inst')"
      "kh_map (kh_assign_key tbl ?k inst') = (kh_map (l_instances l))(?k \<mapsto> inst')"
    using kh.invar_assign [OF tbl(1)] kh.alpha_assign [OF tbl(1)] tbl(2) by auto
  show ?thesis
  proof (rule step [of l' inst inst'])
    show "learner_receive_accepted l ack from_id = Inr l'"
      using False goc u iid' n
      by (simp add: learner_receive_accepted_def late_learner_def [symmetric] l'_def Let_def)
    show "l_highest_iid_closed l' =
       (if li_final_value inst' \<noteq> None then max (l_highest_iid_closed l) ?k else l_highest_iid_closed l)"
      using cl by (auto simp: l'_def max_def)
  qed (use False ok' iid' full stay asg n in \<open>auto simp: l'_def inst_def\<close>)
qed

lemma learner_receive_inv:
  assumes inv: "learner_inv n M l" and wf: "value_wf (accepted_value ack)"
    and frm: "0 \<le> from_id" "from_id < n"
    and rcv: "learner_receive_accepted l ack from_id = Inr l'"
  shows "learner_inv n (insert (ack, from_id) M) l'"
  using inv wf frm
proof (cases rule: receive_cases)
  case old
  then show ?thesis
    using rcv learner_inv_insert [OF inv wf] by (auto simp: late_learner_inv)
next
  case (step l1 inst inst')
  then have l': "l' = l1" using rcv by simp
  have h: "l_highest_iid_closed l \<le> l_highest_iid_closed l1" using step(13) by simp
  have new: "linst_in n (insert (ack, from_id) M) (l_highest_iid_closed l1) (accepted_iid ack) inst'"
    using step(4,5,13) by (simp add: linst_in_def)
  have "linst_in n (insert (ack, from_id) M) (l_highest_iid_closed l1) k i"
    if "kh_map (l_instances l) k = Some i" for k i
    using inv that linst_in_mono [OF _ subset_insertI h] by (auto simp: learner_inv_def)
  then show ?thesis
    using step(8,9,10) new inv wf by (auto simp: learner_inv_def l')
qed

lemma learner_receive_full:
  assumes inv: "learner_inv n M l" and full: "learner_full M l" and wf: "value_wf (accepted_value ack)"
    and frm: "0 \<le> from_id" "from_id < n"
    and rcv: "learner_receive_accepted l ack from_id = Inr l'"
  shows "learner_full (insert (ack, from_id) M) l'"
proof -
  note full1 = late_learner_full [OF full, of ack]
  show ?thesis
    using inv wf frm
  proof (cases rule: receive_cases)
    case old
    then have l': "l' = late_learner l ack" using rcv by simp
    have "slot_full k (insert (ack, from_id) M) (kh_map (l_instances l') k)"
      if "l_current_iid l' \<le> k" for k
    proof (rule slot_full_other)
      show "slot_full k M (kh_map (l_instances l') k)" using full1 that by (simp add: learner_full_def l')
      show "accepted_iid ack \<noteq> k" using old(1) that l' by auto
    qed
    then show ?thesis by (simp add: learner_full_def l')
  next
    case (step l1 inst inst')
    then have l': "l' = l1" using rcv by simp
    let ?M = "insert (ack, from_id) M"
    have old: "slot_full k M (kh_map (l_instances l) k)" if "l_current_iid l1 \<le> k" for k
      using full1 that step(11) by (simp add: learner_full_def)
    have "linst_full (accepted_iid ack) M inst"
      unfolding step(3) using old [of "accepted_iid ack"] step(1,11) by (intro slot_full_inst) simp
    then have f: "linst_full (accepted_iid ack) ?M inst'" by (rule step(6))
    have "slot_full k ?M (kh_map (l_instances l1) k)" if k: "l_current_iid l1 \<le> k" for k
    proof (cases "k = accepted_iid ack")
      case True
      then show ?thesis using f by (simp add: step(9) slot_full_def)
    next
      case False
      then show ?thesis using slot_full_other [OF old [OF k], of ack from_id] by (simp add: step(9))
    qed
    then show ?thesis using step(12) by (simp add: learner_full_def l')
  qed
qed

section \<open>Delivering\<close>

definition backers :: "(paxos_accepted \<times> int) set \<Rightarrow> iid_t \<Rightarrow> ballot_t \<Rightarrow> int set" where
  "backers M k b = {i. \<exists>r. (r, i) \<in> M \<and> accepted_iid r = k \<and> accepted_ballot r = b}"

lemma linst_ok_closed:
  assumes "linst_ok n k M inst" and "li_final_value inst = Some r"
  shows "\<exists>i. (r, i) \<in> M \<and> 0 \<le> i \<and> i < n" and "accepted_iid r = k"
    and "\<exists>Q. majority n Q \<and> Q \<subseteq> backers M k (accepted_ballot r)"
proof -
  have len: "length (li_acks inst) = nat n" and mem: "Some r \<in> set (li_acks inst)"
    and maj: "majority n (ack_votes (accepted_ballot r) (li_acks inst))"
    and msgs: "\<And>i r. i < length (li_acks inst) \<Longrightarrow> li_acks inst ! i = Some r \<Longrightarrow>
        (r, int i) \<in> M \<and> accepted_iid r = k"
    using assms by (auto simp: linst_ok_def)
  obtain j where j: "j < length (li_acks inst)" "li_acks inst ! j = Some r"
    using mem by (auto simp: in_set_conv_nth)
  show "accepted_iid r = k" using msgs [OF j] by simp
  show "\<exists>i. (r, i) \<in> M \<and> 0 \<le> i \<and> i < n"
    using msgs [OF j] j(1) len by (intro exI [of _ "int j"]) auto
  have "ack_votes (accepted_ballot r) (li_acks inst) \<subseteq> backers M k (accepted_ballot r)"
    using msgs by (fastforce simp: ack_votes_def ack_at_def backers_def)
  with maj show "\<exists>Q. majority n Q \<and> Q \<subseteq> backers M k (accepted_ballot r)" by blast
qed

lemma deliver_cases:
  assumes inv: "learner_inv n M l" and d: "learner_deliver_next l = (l', out)"
  obtains
    (wait) "l' = l" "out = None"
      "\<And>inst. kh_map (l_instances l) (l_current_iid l) = Some inst \<Longrightarrow> li_final_value inst = None"
  | (deliver) inst r where "kh_map (l_instances l) (l_current_iid l) = Some inst"
      "li_final_value inst = Some r" "out = Some r" "linst_ok n (l_current_iid l) M inst"
      "l' = l\<lparr>l_instances := kh_del_key (l_instances l) (l_current_iid l),
              l_current_iid := l_current_iid l + 1\<rparr>"
      "kh_wf (l_instances l')"
      "kh_map (l_instances l') = (kh_map (l_instances l))(l_current_iid l := None)"
proof (cases "kh_map (l_instances l) (l_current_iid l)")
  case None
  then have "l' = l" "out = None"
    using d learner_get_instance_map [OF inv]
    by (simp_all add: learner_deliver_next_def learner_get_current_instance_def)
  then show ?thesis using None by (intro wait) auto
next
  case (Some inst)
  have n: "0 \<le> n" "l_acceptors l = n" and wfl: "kh_wf (l_instances l)"
    and ok: "linst_ok n (l_current_iid l) M inst" and iid: "li_iid inst = l_current_iid l"
    using inv Some by (auto simp: learner_inv_def linst_in_def)
  have get: "learner_get_current_instance l = Some inst"
    using learner_get_instance_map [OF inv] Some by (simp add: learner_get_current_instance_def)
  note hq = linst_ok_has_quorum [OF n(1) ok]
  show ?thesis
  proof (cases "li_final_value inst")
    case None
    then have "l' = l" "out = None" using d get hq n by (simp_all add: learner_deliver_next_def)
    then show ?thesis using None Some by (intro wait) auto
  next
    case fin: (Some r)
    have "value_wf (accepted_value r)"
      using linst_ok_closed(1) [OF ok fin] inv by (auto simp: learner_inv_def)
    then have cp: "r\<lparr>accepted_value := paxos_value_copy (accepted_value r)\<rparr> = r"
      using accepted_dup_id [of r] by (simp add: paxos_accepted_dup_def)
    have l': "l' = l\<lparr>l_instances := kh_del_key (l_instances l) (l_current_iid l),
              l_current_iid := l_current_iid l + 1\<rparr>" and out: "out = Some r"
      using d get hq n fin cp iid
      by (auto simp: learner_deliver_next_def learner_delete_instance_def)
    have "kh_wf (l_instances l')"
      and "kh_map (l_instances l') = (kh_map (l_instances l))(l_current_iid l := None)"
      using kh.invar_del [OF wfl] kh.alpha_del [OF wfl] Some by (simp_all add: l')
    then show ?thesis using deliver [OF Some fin out ok l'] by simp
  qed
qed

lemma learner_deliver_inv:
  assumes inv: "learner_inv n M l" and d: "learner_deliver_next l = (l', out)"
  shows "learner_inv n M l'"
  using inv d
proof (cases rule: deliver_cases)
  case wait
  then show ?thesis using inv by simp
next
  case (deliver inst r)
  have "linst_in n M (l_highest_iid_closed l') k i" if "kh_map (l_instances l') k = Some i" for k i
    using inv that deliver(7) by (auto simp: learner_inv_def deliver(5) split: if_splits)
  moreover have "l_acceptors l' = l_acceptors l" by (simp add: deliver(5))
  ultimately show ?thesis using inv deliver(6) by (simp add: learner_inv_def)
qed

lemma learner_deliver_full:
  assumes inv: "learner_inv n M l" and full: "learner_full M l"
    and d: "learner_deliver_next l = (l', out)" and nw: "out \<noteq> None \<Longrightarrow> l_current_iid l \<noteq> -1"
  shows "learner_full M l'"
  using inv d
proof (cases rule: deliver_cases)
  case wait
  then show ?thesis using full by simp
next
  case (deliver inst r)
  have "slot_full k M (kh_map (l_instances l') k)" if k: "l_current_iid l' \<le> k" for k
  proof -
    have c: "l_current_iid l + 1 \<le> k" using k by (simp add: deliver(5))
    have "l_current_iid l < l_current_iid l + 1"
      using nw deliver(3) by (auto intro: word_less_plus1_self)
    with c have "l_current_iid l < k" by simp
    then show ?thesis using full by (auto simp: learner_full_def deliver(7))
  qed
  then show ?thesis using full by (simp add: learner_full_def deliver(5))
qed

section \<open>Runs\<close>

text \<open>A history of a learner: accepted messages with their senders, and calls of deliver.\<close>

datatype learner_event = L_accepted paxos_accepted int | L_deliver

fun learner_run :: "learner \<Rightarrow> learner_event list \<Rightarrow> (learner \<times> paxos_accepted list) outcome" where
  "learner_run l [] = Inr (l, [])"
| "learner_run l (L_accepted ack from_id # es) =
     (case learner_receive_accepted l ack from_id of
        Inl e \<Rightarrow> Inl e | Inr l' \<Rightarrow> learner_run l' es)"
| "learner_run l (L_deliver # es) =
     (let (l', out) = learner_deliver_next l in
      case learner_run l' es of
        Inl e \<Rightarrow> Inl e
      | Inr (l'', outs) \<Rightarrow> Inr (l'', (case out of None \<Rightarrow> outs | Some r \<Rightarrow> r # outs)))"

definition received :: "learner_event list \<Rightarrow> (paxos_accepted \<times> int) set" where
  "received es = {(ack, i). L_accepted ack i \<in> set es}"

text \<open>Senders are acceptors, values are well-formed.\<close>

definition events_ok :: "int \<Rightarrow> learner_event list \<Rightarrow> bool" where
  "events_ok n es \<longleftrightarrow>
     (\<forall>(ack, i) \<in> received es. 0 \<le> i \<and> i < n \<and> value_wf (accepted_value ack))"

lemma received_simps [simp]:
  "received [] = {}" "received (L_deliver # es) = received es"
  "received (L_accepted ack i # es) = insert (ack, i) (received es)"
  by (auto simp: received_def)

lemma events_ok_simps [simp]:
  "events_ok n []" "events_ok n (L_deliver # es) = events_ok n es"
  "events_ok n (L_accepted ack i # es) \<longleftrightarrow>
     0 \<le> i \<and> i < n \<and> value_wf (accepted_value ack) \<and> events_ok n es"
  by (auto simp: events_ok_def)

lemma learner_receive_defined:
  assumes "learner_inv n M l" and "value_wf (accepted_value ack)" and "0 \<le> i" and "i < n"
  shows "\<exists>l'. learner_receive_accepted l ack i = Inr l'"
  using assms by (cases rule: receive_cases) auto

lemma learner_run_inv:
  "learner_inv n M l \<Longrightarrow> events_ok n es \<Longrightarrow>
   \<exists>l' outs. learner_run l es = Inr (l', outs) \<and> learner_inv n (received es \<union> M) l'"
proof (induction l es arbitrary: M rule: learner_run.induct)
  case (1 l)
  then show ?case by simp
next
  case (2 l ack i es)
  from 2(2,3) obtain l1 where l1: "learner_receive_accepted l ack i = Inr l1"
    using learner_receive_defined by fastforce
  then have "learner_inv n (insert (ack, i) M) l1"
    using learner_receive_inv 2(2,3) by simp
  then show ?case using 2(1) [OF l1, of "insert (ack, i) M"] 2(3) l1 by simp
next
  case (3 l es)
  obtain l1 out where d: "learner_deliver_next l = (l1, out)" by (cases "learner_deliver_next l")
  then have "learner_inv n M l1" using learner_deliver_inv 3(2) by blast
  then show ?case using 3(1) [OF d [symmetric] refl] 3(3) d by fastforce
qed

text \<open>What comes out is backed by a majority, whatever state the run started in.\<close>

lemma learner_run_backed:
  "learner_inv n M l \<Longrightarrow> events_ok n es \<Longrightarrow> learner_run l es = Inr (l', outs) \<Longrightarrow> r \<in> set outs \<Longrightarrow>
   (\<exists>i. (r, i) \<in> received es \<union> M) \<and>
   (\<exists>Q. majority n Q \<and> Q \<subseteq> backers (received es \<union> M) (accepted_iid r) (accepted_ballot r))"
proof (induction l es arbitrary: M outs rule: learner_run.induct)
  case (1 l)
  then show ?case by simp
next
  case (2 l ack i es)
  from 2(2,3) obtain l1 where l1: "learner_receive_accepted l ack i = Inr l1"
    using learner_receive_defined by fastforce
  then have "learner_inv n (insert (ack, i) M) l1"
    using learner_receive_inv 2(2,3) by simp
  then show ?case using 2(1) [OF l1, of "insert (ack, i) M" outs] 2(3-5) l1 by simp
next
  case (3 l es)
  obtain l1 out where d: "learner_deliver_next l = (l1, out)" by (cases "learner_deliver_next l")
  have inv1: "learner_inv n M l1" using learner_deliver_inv 3(2) d by blast
  obtain outs1 where o: "learner_run l1 es = Inr (l', outs1)"
      "outs = (case out of None \<Rightarrow> outs1 | Some r \<Rightarrow> r # outs1)"
    using 3(4) d by (auto split: sum.splits)
  show ?case
  proof (cases "r \<in> set outs1")
    case True
    then show ?thesis using 3(1) [OF d [symmetric] refl inv1] 3(3) o(1) by simp
  next
    case False
    then have out: "out = Some r" using 3(5) o(2) by (auto split: option.splits)
    from 3(2) d show ?thesis
    proof (cases rule: deliver_cases)
      case wait
      then show ?thesis using out by simp
    next
      case (deliver inst s)
      then have "s = r" using out by simp
      note closed = linst_ok_closed [OF deliver(4), of r]
      have fin: "li_final_value inst = Some r" using deliver(2) \<open>s = r\<close> by simp
      obtain Q where Q: "majority n Q" "Q \<subseteq> backers M (l_current_iid l) (accepted_ballot r)"
        using closed(3) [OF fin] by blast
      moreover have "backers M (l_current_iid l) b \<subseteq> backers (received es \<union> M) (accepted_iid r) b" for b
        using closed(2) [OF fin] by (auto simp: backers_def)
      ultimately have "\<exists>Q. majority n Q \<and>
          Q \<subseteq> backers (received es \<union> M) (accepted_iid r) (accepted_ballot r)" by blast
      then show ?thesis using closed(1) [OF fin] by auto
    qed
  qed
qed

text \<open>Deliveries are consecutive.\<close>

lemma receive_current_iid:
  assumes "\<not> l_late_start l" and "learner_receive_accepted l ack i = Inr l'"
  shows "l_current_iid l' = l_current_iid l \<and> \<not> l_late_start l'"
  using assms
  by (auto simp: learner_receive_accepted_def learner_get_instance_or_create_def Let_def
      split: if_splits prod.splits sum.splits option.splits)

lemma learner_run_consecutive:
  "learner_inv n M l \<Longrightarrow> events_ok n es \<Longrightarrow> learner_run l es = Inr (l', outs) \<Longrightarrow> \<not> l_late_start l \<Longrightarrow>
   map accepted_iid outs = map (\<lambda>i. l_current_iid l + of_nat i) [0..<length outs] \<and>
   l_current_iid l' = l_current_iid l + of_nat (length outs) \<and> \<not> l_late_start l'"
proof (induction l es arbitrary: M outs rule: learner_run.induct)
  case (1 l)
  then show ?case by simp
next
  case (2 l ack i es)
  from 2(2,3) obtain l1 where l1: "learner_receive_accepted l ack i = Inr l1"
    using learner_receive_defined by fastforce
  then have "learner_inv n (insert (ack, i) M) l1"
    using learner_receive_inv 2(2,3) by simp
  then show ?case
    using 2(1) [OF l1, of "insert (ack, i) M" outs] 2(3-5) l1 receive_current_iid [OF 2(5) l1] by simp
next
  case (3 l es)
  obtain l1 out where d: "learner_deliver_next l = (l1, out)" by (cases "learner_deliver_next l")
  have inv1: "learner_inv n M l1" using learner_deliver_inv 3(2) d by blast
  obtain outs1 where o: "learner_run l1 es = Inr (l', outs1)"
      "outs = (case out of None \<Rightarrow> outs1 | Some r \<Rightarrow> r # outs1)"
    using 3(4) d by (auto split: sum.splits)
  have late1: "\<not> l_late_start l1"
    using 3(2) d 3(5) by (cases rule: deliver_cases) auto
  have ih: "map accepted_iid outs1 = map (\<lambda>i. l_current_iid l1 + of_nat i) [0..<length outs1]"
      "l_current_iid l' = l_current_iid l1 + of_nat (length outs1)" "\<not> l_late_start l'"
    using 3(1) [OF d [symmetric] refl inv1 _ o(1) late1] 3(3) by auto
  from 3(2) d show ?case
  proof (cases rule: deliver_cases)
    case wait
    then show ?thesis using ih o(2) by simp
  next
    case (deliver inst r)
    have "accepted_iid r = l_current_iid l" using linst_ok_closed(2) [OF deliver(4,2)] .
    moreover have "map (\<lambda>i. l_current_iid l + of_nat i) [0..<Suc (length outs1)]
        = l_current_iid l # map (\<lambda>i. l_current_iid l + 1 + of_nat i) [0..<length outs1]"
      by (rule nth_equalityI) (auto simp: nth_Cons' add.assoc simp del: upt_Suc)
    moreover have "l_current_iid l1 = l_current_iid l + 1" by (simp add: deliver(5))
    ultimately show ?thesis
      using ih o(2) deliver(3) by (simp del: upt_Suc add: add.assoc)
  qed
qed

text \<open>Nothing is forgotten as long as the instance ids do not wrap around.\<close>

lemma learner_run_full:
  "learner_inv n M l \<Longrightarrow> learner_full M l \<Longrightarrow> events_ok n es \<Longrightarrow> learner_run l es = Inr (l', outs) \<Longrightarrow>
   \<forall>r \<in> set outs. accepted_iid r \<noteq> -1 \<Longrightarrow> learner_full (received es \<union> M) l'"
proof (induction l es arbitrary: M outs rule: learner_run.induct)
  case (1 l)
  then show ?case by simp
next
  case (2 l ack i es)
  from 2(2,4) obtain l1 where l1: "learner_receive_accepted l ack i = Inr l1"
    using learner_receive_defined by fastforce
  then have "learner_inv n (insert (ack, i) M) l1" "learner_full (insert (ack, i) M) l1"
    using learner_receive_inv learner_receive_full 2(2-4) by simp_all
  then show ?case using 2(1) [OF l1, of "insert (ack, i) M" outs] 2(4-6) l1 by simp
next
  case (3 l es)
  obtain l1 out where d: "learner_deliver_next l = (l1, out)" by (cases "learner_deliver_next l")
  have inv1: "learner_inv n M l1" using learner_deliver_inv 3(2) d by blast
  obtain outs1 where o: "learner_run l1 es = Inr (l', outs1)"
      "outs = (case out of None \<Rightarrow> outs1 | Some r \<Rightarrow> r # outs1)"
    using 3(5) d by (auto split: sum.splits)
  have "learner_full M l1"
  proof (rule learner_deliver_full [OF 3(2,3) d])
    assume "out \<noteq> None"
    from 3(2) d show "l_current_iid l \<noteq> -1"
    proof (cases rule: deliver_cases)
      case wait
      then show ?thesis using \<open>out \<noteq> None\<close> by simp
    next
      case (deliver inst r)
      then have "r \<in> set outs" using o(2) by simp
      then show ?thesis using linst_ok_closed(2) [OF deliver(4,2)] 3(6) by auto
    qed
  qed
  moreover have "\<forall>r \<in> set outs1. accepted_iid r \<noteq> -1"
    using 3(6) o(2) by (auto split: option.splits)
  ultimately show ?case using 3(1) [OF d [symmetric] refl inv1] 3(4) o(1) by simp
qed

text \<open>
  The converse of \<open>learner_run_backed\<close>: once a majority has acknowledged the current
  instance at one ballot, and none of them has gone on to a higher one, it is delivered.
\<close>

lemma learner_delivers:
  assumes inv: "learner_inv n M l" and full: "learner_full M l"
    and maj: "majority n Q" "Q \<subseteq> backers M (l_current_iid l) b"
    and top: "\<And>r i. (r, i) \<in> M \<Longrightarrow> i \<in> Q \<Longrightarrow> accepted_iid r = l_current_iid l \<Longrightarrow> accepted_ballot r \<le> b"
  shows "\<exists>l' r. learner_deliver_next l = (l', Some r) \<and> accepted_iid r = l_current_iid l"
proof -
  let ?k = "l_current_iid l"
  obtain l' out where d: "learner_deliver_next l = (l', out)" by (cases "learner_deliver_next l")
  from inv d show ?thesis
  proof (cases rule: deliver_cases)
    case (deliver inst r)
    then show ?thesis using d linst_ok_closed(2) [OF deliver(4,2)] by simp
  next
    case wait
    have slot: "slot_full ?k M (kh_map (l_instances l) ?k)" using full by (simp add: learner_full_def)
    obtain i0 where "i0 \<in> Q" using majority_nonempty [OF maj(1)] by blast
    then obtain inst where inst: "kh_map (l_instances l) ?k = Some inst"
      using slot maj(2) by (fastforce simp: slot_full_def backers_def split: option.splits)
    have open_: "li_final_value inst = None" using wait(3) inst by blast
    have ok: "linst_ok n ?k M inst" using inv inst by (simp add: learner_inv_def linst_in_def)
    have lf: "linst_full ?k M inst" using slot inst by (simp add: slot_full_def)
    have "i \<in> ack_votes b (li_acks inst)" if i: "i \<in> Q" for i
    proof -
      obtain r where r: "(r, i) \<in> M" "accepted_iid r = ?k" "accepted_ballot r = b"
        using i maj(2) by (auto simp: backers_def)
      with lf open_ obtain s where s: "0 \<le> i" "nat i < length (li_acks inst)"
          "li_acks inst ! nat i = Some s" "b \<le> accepted_ballot s"
        unfolding linst_full_def by blast
      then have "(s, int (nat i)) \<in> M \<and> accepted_iid s = ?k" using ok unfolding linst_ok_def by blast
      then have "(s, i) \<in> M" "accepted_iid s = ?k" using s(1) by simp_all
      then have "accepted_ballot s = b" using top [OF _ i] s(4) by force
      then show ?thesis
        using s by (auto simp: ack_votes_def ack_at_def intro!: image_eqI [of _ _ "nat i"])
    qed
    then have "Q \<subseteq> ack_votes b (li_acks inst)" by blast
    moreover have "ack_votes b (li_acks inst) \<subseteq> {0..<n}"
      using ok inv by (auto simp: ack_votes_def linst_ok_def)
    ultimately have "majority n (ack_votes b (li_acks inst))" using maj(1) majority_mono by blast
    then show ?thesis using ok open_ by (simp add: linst_ok_def)
  qed
qed

text \<open>A closed instance behind a gap makes the learner report the gap.\<close>

lemma learner_reports_holes:
  assumes "learner_inv n M l" and "kh_map (l_instances l) k = Some inst"
    and "li_final_value inst \<noteq> None" and "l_current_iid l < k"
  shows "\<exists>t. learner_has_holes l = Some (l_current_iid l, t) \<and> k \<le> t"
proof -
  have "k \<le> l_highest_iid_closed l"
    using assms(1-3) unfolding learner_inv_def linst_in_def by blast
  then show ?thesis using assms(4) by (simp add: learner_has_holes_def)
qed

section \<open>Properties\<close>

definition ldemo_accepted :: "iid_t \<Rightarrow> ballot_t \<Rightarrow> paxos_accepted" where
  "ldemo_accepted i b = \<lparr>accepted_iid = i, accepted_ballot = b, accepted_value_ballot = b,
     accepted_value = \<lparr>paxos_value_len = 1, paxos_value_val = Some [7]\<rparr>\<rparr>"

definition ldemo_events :: "learner_event list" where
  "ldemo_events = [L_accepted (ldemo_accepted 2 10) 1, L_accepted (ldemo_accepted 1 10) 0, L_deliver,
     L_accepted (ldemo_accepted 2 10) 2, L_accepted (ldemo_accepted 1 10) 0, L_accepted (ldemo_accepted 1 10) 2,
     L_deliver, L_deliver]"

lemma ldemo_ok: "events_ok 3 ldemo_events"
  by (simp add: ldemo_events_def ldemo_accepted_def value_wf_def)

lemma ldemo_run:
  "\<exists>l. learner_run (learner_new default_config 3) ldemo_events =
         Inr (l, [ldemo_accepted 1 10, ldemo_accepted 2 10])"
proof -
  have "case learner_run (learner_new default_config 3) ldemo_events of
      Inr (l, outs) \<Rightarrow> outs = [ldemo_accepted 1 10, ldemo_accepted 2 10] | Inl e \<Rightarrow> False"
    by code_simp
  then show ?thesis by (auto split: sum.splits prod.splits)
qed

text \<open>
  A new learner whose messages come from acceptors never fails: no handler indexes outside
  the acks of an instance or ends the process.
\<close>

theorem learner_never_fails:
  assumes "0 \<le> n" and "events_ok n es"
  shows "\<exists>l outs. learner_run (learner_new cfg n) es = Inr (l, outs)"
  using learner_run_inv [OF learner_inv_new [OF assms(1)] assms(2)] by blast

theorem learner_never_fails_witness:
  "\<exists>l outs. learner_run (learner_new default_config 3) ldemo_events = Inr (l, outs)"
  using learner_never_fails [OF _ ldemo_ok] by simp

text \<open>All accepted messages of an instance at a ballot carry the same value.\<close>

definition one_value :: "(paxos_accepted \<times> int) set \<Rightarrow> iid_t \<Rightarrow> ballot_t \<Rightarrow> bool" where
  "one_value M k b \<longleftrightarrow>
     (\<forall>(r, i) \<in> M. \<forall>(r', j) \<in> M. accepted_iid r = k \<and> accepted_ballot r = b \<and> accepted_iid r' = k \<and> accepted_ballot r' = b \<longrightarrow>
        accepted_value r = accepted_value r')"

lemma one_valueD:
  "one_value M k b \<Longrightarrow> (r, i) \<in> M \<Longrightarrow> (r', j) \<in> M \<Longrightarrow> accepted_iid r = k \<Longrightarrow> accepted_ballot r = b \<Longrightarrow>
   accepted_iid r' = k \<Longrightarrow> accepted_ballot r' = b \<Longrightarrow> accepted_value r = accepted_value r'"
  unfolding one_value_def by blast

text \<open>
  C6. What a learner delivers has been accepted: for every value that comes out of
  \<open>learner_deliver_next\<close>, an acceptor sent exactly that accepted message, and a majority of the
  acceptors sent accepted messages for the same instance at the same ballot. When the accepted
  messages of that instance and ballot agree on the value, a majority of acceptors sent the
  delivered value; nothing in the learner checks that they agree (see C5).
\<close>

theorem learner_delivers_chosen:
  assumes "0 \<le> n" and "events_ok n es" and "learner_run (learner_new cfg n) es = Inr (l, outs)"
    and "r \<in> set outs"
  shows "(\<exists>i. (r, i) \<in> received es) \<and>
         (\<exists>Q. majority n Q \<and> Q \<subseteq> backers (received es) (accepted_iid r) (accepted_ballot r)) \<and>
         (one_value (received es) (accepted_iid r) (accepted_ballot r) \<longrightarrow>
            (\<exists>Q. majority n Q \<and> (\<forall>i \<in> Q. \<exists>r'. (r', i) \<in> received es \<and> accepted_iid r' = accepted_iid r \<and>
               accepted_ballot r' = accepted_ballot r \<and> accepted_value r' = accepted_value r)))"
proof -
  obtain i Q where i: "(r, i) \<in> received es"
    and Q: "majority n Q" "Q \<subseteq> backers (received es) (accepted_iid r) (accepted_ballot r)"
    using learner_run_backed [OF learner_inv_new [OF assms(1)] assms(2-4)] by auto
  have "\<exists>r'. (r', j) \<in> received es \<and> accepted_iid r' = accepted_iid r \<and> accepted_ballot r' = accepted_ballot r \<and>
      accepted_value r' = accepted_value r"
    if one: "one_value (received es) (accepted_iid r) (accepted_ballot r)" and j: "j \<in> Q" for j
  proof -
    obtain r' where r': "(r', j) \<in> received es" "accepted_iid r' = accepted_iid r" "accepted_ballot r' = accepted_ballot r"
      using Q(2) j by (auto simp: backers_def)
    then show ?thesis using one_valueD [OF one r'(1) i] by blast
  qed
  then show ?thesis using i Q by blast
qed

theorem learner_delivers_chosen_witness:
  "\<exists>Q. majority 3 Q \<and> (\<forall>i \<in> Q. \<exists>r'. (r', i) \<in> received ldemo_events \<and> accepted_iid r' = 2 \<and> accepted_ballot r' = 10 \<and>
     accepted_value r' = accepted_value (ldemo_accepted 2 10))"
proof -
  obtain l where r: "learner_run (learner_new default_config 3) ldemo_events =
      Inr (l, [ldemo_accepted 1 10, ldemo_accepted 2 10])" using ldemo_run by blast
  have "one_value (received ldemo_events) 2 10"
    by (auto simp: one_value_def ldemo_events_def ldemo_accepted_def)
  then show ?thesis
    using learner_delivers_chosen [OF _ ldemo_ok r, of "ldemo_accepted 2 10"] by (simp add: ldemo_accepted_def)
qed

text \<open>
  Deliveries are in order and without gaps: with \<open>learner_catch_up\<close> set, the delivered
  instances are 1, 2, 3 and so on, whatever the order of the messages.
\<close>

theorem learner_delivers_in_order:
  assumes "0 \<le> n" and "events_ok n es" and "learner_catch_up cfg \<noteq> 0"
    and "learner_run (learner_new cfg n) es = Inr (l, outs)"
  shows "map accepted_iid outs = map (\<lambda>i. 1 + of_nat i) [0..<length outs]"
  using learner_run_consecutive [OF learner_inv_new [OF assms(1)] assms(2,4)] assms(3)
  by (simp add: learner_new_def)

theorem learner_delivers_in_order_witness:
  "\<exists>l outs. learner_run (learner_new default_config 3) ldemo_events = Inr (l, outs) \<and>
     length outs = 2 \<and> map accepted_iid outs = [1, 2]"
proof -
  obtain l where r: "learner_run (learner_new default_config 3) ldemo_events =
      Inr (l, [ldemo_accepted 1 10, ldemo_accepted 2 10])" using ldemo_run by blast
  have "learner_catch_up default_config \<noteq> 0" by (simp add: default_config_def)
  from learner_delivers_in_order [OF _ ldemo_ok this r] r show ?thesis by (auto simp: upt_rec)
qed

text \<open>
  C7. Nothing that was chosen is missed: when a majority has sent accepted messages for the
  learner's current instance at one ballot, none of them has sent one at a higher ballot, and the
  instance numbers have not wrapped around (the largest has not been delivered), the next call
  of \<open>learner_deliver_next\<close> delivers that instance.
\<close>

theorem learner_delivers_when_chosen:
  assumes "0 \<le> n" and "events_ok n es" and "learner_run (learner_new cfg n) es = Inr (l, outs)"
    and "\<forall>r \<in> set outs. accepted_iid r \<noteq> -1"
    and "majority n Q" and "Q \<subseteq> backers (received es) (l_current_iid l) b"
    and "\<forall>(r, i) \<in> received es. i \<in> Q \<longrightarrow> accepted_iid r = l_current_iid l \<longrightarrow> accepted_ballot r \<le> b"
  shows "\<exists>l' r. learner_deliver_next l = (l', Some r) \<and> accepted_iid r = l_current_iid l"
proof -
  note new = learner_inv_new [OF assms(1), of cfg]
  have inv: "learner_inv n (received es) l"
    using learner_run_inv [OF new assms(2)] assms(3) by auto
  have full: "learner_full (received es) l"
    using learner_run_full [OF new learner_full_new assms(2,3,4)] by simp
  show ?thesis
    using learner_delivers [OF inv full assms(5,6)] assms(7) by blast
qed

theorem learner_delivers_when_chosen_witness:
  "\<exists>l r. learner_run (learner_new default_config 3)
       [L_accepted (ldemo_accepted 1 10) 0, L_accepted (ldemo_accepted 1 10) 2] = Inr (l, []) \<and>
     snd (learner_deliver_next l) = Some r \<and> accepted_iid r = 1"
proof -
  let ?es = "[L_accepted (ldemo_accepted 1 10) 0, L_accepted (ldemo_accepted 1 10) 2]"
  have ok: "events_ok 3 ?es" by (simp add: ldemo_accepted_def value_wf_def)
  have "case learner_run (learner_new default_config 3) ?es of
      Inr (l, outs) \<Rightarrow> outs = [] \<and> l_current_iid l = 1 | Inl e \<Rightarrow> False"
    by code_simp
  then obtain l where r: "learner_run (learner_new default_config 3) ?es = Inr (l, [])" "l_current_iid l = 1"
    by (auto split: sum.splits prod.splits)
  have "card {0, 2 :: int} = 2" by simp
  then have m: "majority 3 {0, 2}" unfolding majority_def by auto
  have b: "{0, 2} \<subseteq> backers (received ?es) (l_current_iid l) 10"
    using r(2) by (auto simp: backers_def ldemo_accepted_def)
  show ?thesis
    using learner_delivers_when_chosen [OF _ ok r(1) _ m b] r by (auto simp: ldemo_accepted_def)
qed

text \<open>
  A gap is noticed: when an instance beyond the current one is closed, \<open>learner_has_holes\<close>
  reports a range that starts at the current instance and reaches at least that far.
\<close>

theorem learner_notices_gap:
  assumes "0 \<le> n" and "events_ok n es" and "learner_run (learner_new cfg n) es = Inr (l, outs)"
    and "learner_get_instance l k = Some inst" and "li_final_value inst \<noteq> None" and "l_current_iid l < k"
  shows "\<exists>t. learner_has_holes l = Some (l_current_iid l, t) \<and> k \<le> t"
proof -
  have inv: "learner_inv n (received es) l"
    using learner_run_inv [OF learner_inv_new [OF assms(1), of cfg] assms(2)] assms(3) by auto
  show ?thesis
    using learner_reports_holes [OF inv _ assms(5,6)] learner_get_instance_map [OF inv] assms(4) by simp
qed

theorem learner_notices_gap_witness:
  "\<exists>l t. learner_run (learner_new default_config 3)
       [L_accepted (ldemo_accepted 3 10) 0, L_accepted (ldemo_accepted 3 10) 2] = Inr (l, []) \<and>
     learner_has_holes l = Some (1, t) \<and> 3 \<le> t"
proof -
  let ?es = "[L_accepted (ldemo_accepted 3 10) 0, L_accepted (ldemo_accepted 3 10) 2]"
  have ok: "events_ok 3 ?es" by (simp add: ldemo_accepted_def value_wf_def)
  have "case learner_run (learner_new default_config 3) ?es of
      Inr (l, outs) \<Rightarrow> outs = [] \<and> l_current_iid l = 1 \<and>
        (case learner_get_instance l 3 of Some inst \<Rightarrow> li_final_value inst \<noteq> None | None \<Rightarrow> False)
    | Inl e \<Rightarrow> False"
    by code_simp
  then obtain l inst where r: "learner_run (learner_new default_config 3) ?es = Inr (l, [])"
      "l_current_iid l = 1" "learner_get_instance l 3 = Some inst" "li_final_value inst \<noteq> None"
    by (auto split: sum.splits prod.splits option.splits)
  show ?thesis using learner_notices_gap [OF _ ok r(1,3,4)] r(1,2) by simp
qed

end
