(* ===== verification/CArray.thy ===== *)
theory CArray
  imports PaxosPrelude
begin

text \<open>
  \<open>paxos/carray.c\<close>: the growing ring buffer in which a proposer queues client values.
  Elements are the pointers the C code stores; a slot of \<open>malloc\<close>ed memory that was not
  written is \<open>None\<close>. The C counters are \<open>int\<close>; they are never negative, so they are
  \<open>nat\<close> here. The abstract value is the list of queued elements; the interface a proposer
  relies on is the locale \<open>fifo_queue\<close>.
\<close>

section \<open>The ring buffer\<close>

record 'a carray =
  ca_head :: nat
  ca_tail :: nat
  ca_size :: nat
  ca_count :: nat
  ca_array :: "'a option list"

definition carray_new :: "nat \<Rightarrow> 'a carray" where
  "carray_new sz =
     \<lparr>ca_head = 0, ca_tail = 0, ca_size = sz, ca_count = 0, ca_array = replicate sz None\<rparr>"

definition carray_empty :: "'a carray \<Rightarrow> bool" where
  "carray_empty a \<longleftrightarrow> ca_count a = 0"

definition carray_size :: "'a carray \<Rightarrow> nat" where
  "carray_size a = ca_size a"

definition carray_full :: "'a carray \<Rightarrow> bool" where
  "carray_full a \<longleftrightarrow> ca_count a = ca_size a"

definition carray_at :: "'a carray \<Rightarrow> nat \<Rightarrow> 'a option" where
  "carray_at a i = ca_array a ! ((ca_head a + i) mod ca_size a)"

text \<open>The last three statements of \<open>carray_push_back\<close>, after the buffer has grown.\<close>

definition carray_store :: "'a carray \<Rightarrow> 'a option \<Rightarrow> 'a carray" where
  "carray_store a p =
     a\<lparr>ca_array := (ca_array a)[ca_tail a := p],
       ca_tail := (ca_tail a + 1) mod ca_size a,
       ca_count := ca_count a + 1\<rparr>"

text \<open>
  \<open>carray_grow\<close> pushes the elements into a new buffer of twice the size. The new buffer
  has room for all of them (\<open>carray_copy_not_full\<close> below), so the push never grows in
  turn and is \<open>carray_store\<close>.
\<close>

fun carray_copy :: "'a carray \<Rightarrow> nat \<Rightarrow> nat \<Rightarrow> 'a carray \<Rightarrow> 'a carray" where
  "carray_copy a i 0 tmp = tmp"
| "carray_copy a i (Suc n) tmp = carray_copy a (Suc i) n (carray_store tmp (carray_at a i))"

definition carray_grow :: "'a carray \<Rightarrow> 'a carray" where
  "carray_grow a =
     (let tmp = carray_copy a 0 (ca_count a) (carray_new (ca_size a * 2))
      in a\<lparr>ca_head := 0, ca_tail := ca_tail tmp, ca_size := ca_size tmp,
           ca_array := ca_array tmp\<rparr>)"

definition carray_push_back :: "'a carray \<Rightarrow> 'a \<Rightarrow> 'a carray" where
  "carray_push_back a p =
     carray_store (if carray_full a then carray_grow a else a) (Some p)"

definition carray_pop_front :: "'a carray \<Rightarrow> 'a option \<times> 'a carray" where
  "carray_pop_front a =
     (if carray_empty a then (None, a)
      else (ca_array a ! ca_head a,
            a\<lparr>ca_head := (ca_head a + 1) mod ca_size a, ca_count := ca_count a - 1\<rparr>))"

text \<open>\<open>carray_foreach\<close> calls back with the elements in this order.\<close>

definition carray_foreach :: "'a carray \<Rightarrow> 'a option list" where
  "carray_foreach a = map (carray_at a) [0..<ca_count a]"

section \<open>Well-formedness and the abstract list\<close>

definition carray_wf :: "'a carray \<Rightarrow> bool" where
  "carray_wf a \<longleftrightarrow>
     0 < ca_size a \<and> ca_head a < ca_size a \<and> ca_count a \<le> ca_size a \<and>
     ca_tail a = (ca_head a + ca_count a) mod ca_size a \<and>
     length (ca_array a) = ca_size a \<and>
     (\<forall>i < ca_count a. carray_at a i \<noteq> None)"

definition carray_list :: "'a carray \<Rightarrow> 'a list" where
  "carray_list a = map (\<lambda>i. the (carray_at a i)) [0..<ca_count a]"

lemma length_carray_list [simp]: "length (carray_list a) = ca_count a"
  by (simp add: carray_list_def)

lemma carray_list_nth: "i < ca_count a \<Longrightarrow> carray_list a ! i = the (carray_at a i)"
  by (simp add: carray_list_def)

lemma carray_new_wf [wf_intros]: "0 < n \<Longrightarrow> carray_wf (carray_new n)"
  by (simp add: carray_wf_def carray_new_def)

lemma carray_new_list [abs_simps]: "carray_list (carray_new n) = []"
  by (simp add: carray_list_def carray_new_def)

lemma carray_foreach_list: "carray_wf a \<Longrightarrow> carray_foreach a = map Some (carray_list a)"
  by (auto simp: carray_foreach_def carray_list_def carray_wf_def)

lemma ring_index_inj:
  assumes "i < n" and "j < n" and "(h + i) mod n = (h + j) mod n"
  shows "i = (j::nat)"
proof -
  have aux: "x = y" if le: "x \<le> y" and y: "y < n" and eq: "(h + x) mod n = (h + y) mod n" for x y :: nat
  proof -
    have "n dvd (h + y) - (h + x)"
      using le eq by (metis add_le_cancel_left mod_eq_dvd_iff_nat)
    then have "n dvd y - x" by simp
    moreover have "y - x < n" using y by simp
    ultimately show ?thesis using le by (auto dest: nat_dvd_not_less)
  qed
  show ?thesis
  proof (cases "i \<le> j")
    case True
    then show ?thesis using assms aux by blast
  next
    case False
    then show ?thesis using assms aux [of j i] by simp
  qed
qed

lemma carray_store_at:
  assumes "carray_wf a" and "\<not> carray_full a" and "i \<le> ca_count a"
  shows "carray_at (carray_store a p) i = (if i = ca_count a then p else carray_at a i)"
proof -
  have cnt: "ca_count a < ca_size a" using assms(1,2) by (simp add: carray_wf_def carray_full_def)
  have "(ca_head a + i) mod ca_size a = (ca_head a + ca_count a) mod ca_size a \<longleftrightarrow> i = ca_count a"
    using ring_index_inj [of i "ca_size a" "ca_count a" "ca_head a"] cnt assms(3) by auto
  moreover have "(ca_head a + ca_count a) mod ca_size a < ca_size a"
    using cnt by simp
  ultimately show ?thesis
    using assms(1) by (auto simp: carray_at_def carray_store_def carray_wf_def nth_list_update)
qed

lemma carray_store_wf:
  assumes "carray_wf a" and "\<not> carray_full a"
  shows "carray_wf (carray_store a (Some p))"
proof -
  have cnt: "ca_count a < ca_size a" using assms by (simp add: carray_wf_def carray_full_def)
  have "\<forall>i < Suc (ca_count a). carray_at (carray_store a (Some p)) i \<noteq> None"
    using carray_store_at [OF assms] assms(1) by (auto simp: carray_wf_def less_Suc_eq_le)
  moreover have "((ca_head a + ca_count a) mod ca_size a + 1) mod ca_size a
      = (ca_head a + (ca_count a + 1)) mod ca_size a"
    by (simp add: mod_Suc_eq)
  ultimately show ?thesis
    using assms(1) cnt by (auto simp: carray_wf_def carray_store_def)
qed

lemma carray_store_list:
  assumes "carray_wf a" and "\<not> carray_full a"
  shows "carray_list (carray_store a (Some p)) = carray_list a @ [p]"
proof -
  have "map (\<lambda>i. the (carray_at (carray_store a (Some p)) i)) [0..<ca_count a]
      = map (\<lambda>i. the (carray_at a i)) [0..<ca_count a]"
    using carray_store_at [OF assms] by auto
  moreover have "the (carray_at (carray_store a (Some p)) (ca_count a)) = p"
    using carray_store_at [OF assms] by simp
  moreover have "ca_count (carray_store a (Some p)) = Suc (ca_count a)"
    by (simp add: carray_store_def)
  ultimately show ?thesis by (simp add: carray_list_def)
qed

lemma carray_store_size [simp]: "ca_size (carray_store a p) = ca_size a"
  by (simp add: carray_store_def)

lemma carray_store_count [simp]: "ca_count (carray_store a p) = Suc (ca_count a)"
  by (simp add: carray_store_def)

section \<open>Growing\<close>

lemma carray_copy_spec:
  assumes "carray_wf a" and "carray_wf tmp"
    and "i + n \<le> ca_count a" and "ca_count tmp + n < ca_size tmp"
  shows "carray_wf (carray_copy a i n tmp) \<and>
         ca_size (carray_copy a i n tmp) = ca_size tmp \<and>
         ca_head (carray_copy a i n tmp) = ca_head tmp \<and>
         ca_count (carray_copy a i n tmp) = ca_count tmp + n \<and>
         carray_list (carray_copy a i n tmp) = carray_list tmp @ take n (drop i (carray_list a))"
  using assms(2-4)
proof (induction n arbitrary: i tmp)
  case 0
  then show ?case by simp
next
  case (Suc n)
  have "carray_at a i \<noteq> None" using assms(1) Suc.prems(2) by (simp add: carray_wf_def)
  then obtain x where x: "carray_at a i = Some x" by blast
  have nf: "\<not> carray_full tmp" using Suc.prems(3) by (simp add: carray_full_def)
  let ?t = "carray_store tmp (Some x)"
  have t: "carray_wf ?t" "carray_list ?t = carray_list tmp @ [x]"
    using carray_store_wf [OF Suc.prems(1) nf] carray_store_list [OF Suc.prems(1) nf] by auto
  have i: "i < length (carray_list a)" and xi: "carray_list a ! i = x"
    using Suc.prems(2) x by (auto simp: carray_list_def)
  have "take (Suc n) (drop i (carray_list a)) = x # take n (drop (Suc i) (carray_list a))"
    using i xi by (simp add: Cons_nth_drop_Suc [symmetric])
  then show ?case
    using Suc.IH [OF t(1), of "Suc i"] Suc.prems t(2) x
    by (auto simp: carray_store_def)
qed

lemma carray_grow_spec:
  assumes "carray_wf a" and "carray_full a"
  shows "carray_wf (carray_grow a) \<and> carray_list (carray_grow a) = carray_list a \<and>
         \<not> carray_full (carray_grow a) \<and> ca_size (carray_grow a) = 2 * ca_size a"
proof -
  have pos: "0 < ca_size a" and full: "ca_count a = ca_size a"
    using assms by (simp_all add: carray_wf_def carray_full_def)
  let ?new = "carray_new (ca_size a * 2) :: 'a carray"
  have new: "carray_wf ?new" "ca_size ?new = 2 * ca_size a" "ca_count ?new = 0" "ca_head ?new = 0"
    using pos carray_new_wf [of "ca_size a * 2"] by (simp_all add: carray_new_def)
  let ?tmp = "carray_copy a 0 (ca_count a) ?new"
  have tmp: "carray_wf ?tmp" "ca_size ?tmp = 2 * ca_size a" "ca_head ?tmp = 0"
      "ca_count ?tmp = ca_count a" "carray_list ?tmp = carray_list a"
    using carray_copy_spec [OF assms(1) new(1), of 0 "ca_count a"] pos full new
    by (simp_all add: carray_new_list)
  have eq: "carray_grow a = ?tmp"
    using tmp by (intro carray.equality) (simp_all add: carray_grow_def Let_def)
  show ?thesis using tmp pos full by (simp add: eq carray_full_def)
qed

text \<open>The buffer that \<open>carray_grow\<close> fills always has room: its pushes never grow in turn.\<close>

lemma carray_copy_not_full:
  assumes "carray_wf a" and "i < ca_count a"
  shows "\<not> carray_full (carray_copy a 0 i (carray_new (ca_size a * 2)))"
proof -
  have "ca_count a \<le> ca_size a" "0 < ca_size a" using assms(1) by (simp_all add: carray_wf_def)
  moreover have "carray_wf (carray_new (ca_size a * 2) :: 'a carray)"
    using assms(1) by (intro carray_new_wf) (simp add: carray_wf_def)
  ultimately show ?thesis
    using carray_copy_spec [OF assms(1), of "carray_new (ca_size a * 2)" 0 i] assms(2)
    by (simp add: carray_full_def carray_new_def)
qed

section \<open>The operations on the abstract list\<close>

lemma carray_push_back_wf [wf_intros]: "carray_wf a \<Longrightarrow> carray_wf (carray_push_back a p)"
  using carray_grow_spec [of a] by (auto simp: carray_push_back_def carray_store_wf)

lemma carray_push_back_list [abs_simps]:
  "carray_wf a \<Longrightarrow> carray_list (carray_push_back a p) = carray_list a @ [p]"
  using carray_grow_spec [of a] by (auto simp: carray_push_back_def carray_store_list)

lemma carray_pop_front_at:
  assumes "carray_wf a" and "\<not> carray_empty a" and "i + 1 < ca_count a"
  shows "carray_at (snd (carray_pop_front a)) i = carray_at a (Suc i)"
  using assms by (simp add: carray_at_def carray_pop_front_def mod_add_left_eq)

lemma carray_pop_front_wf:
  assumes "carray_wf a"
  shows "carray_wf (snd (carray_pop_front a))"
proof (cases "carray_empty a")
  case True
  with assms show ?thesis by (simp add: carray_pop_front_def)
next
  case False
  then have cnt: "0 < ca_count a" by (simp add: carray_empty_def)
  have "((ca_head a + 1) mod ca_size a + (ca_count a - 1)) mod ca_size a
      = (ca_head a + ca_count a) mod ca_size a"
    using cnt by (subst mod_add_left_eq) simp
  moreover have "\<forall>i < ca_count a - 1. carray_at (snd (carray_pop_front a)) i \<noteq> None"
    using carray_pop_front_at [OF assms False] assms by (auto simp: carray_wf_def)
  ultimately show ?thesis
    using assms cnt False by (auto simp: carray_wf_def carray_pop_front_def)
qed

lemma carray_pop_front_spec:
  assumes "carray_wf a"
  shows "fst (carray_pop_front a) = (case carray_list a of [] \<Rightarrow> None | x # _ \<Rightarrow> Some x)"
    and "carray_list (snd (carray_pop_front a)) = tl (carray_list a)"
proof -
  show "fst (carray_pop_front a) = (case carray_list a of [] \<Rightarrow> None | x # _ \<Rightarrow> Some x)"
  proof (cases "carray_empty a")
    case True
    then show ?thesis by (simp add: carray_pop_front_def carray_list_def carray_empty_def)
  next
    case False
    then obtain n where n: "ca_count a = Suc n" by (auto simp: carray_empty_def gr0_conv_Suc)
    have "ca_array a ! ca_head a = carray_at a 0"
      using assms by (simp add: carray_at_def carray_wf_def)
    moreover have "carray_at a 0 \<noteq> None" using assms n by (simp add: carray_wf_def)
    ultimately show ?thesis
      using False n by (simp add: carray_pop_front_def carray_list_def upt_rec [of 0])
  qed
  show "carray_list (snd (carray_pop_front a)) = tl (carray_list a)"
  proof (cases "carray_empty a")
    case True
    then show ?thesis by (simp add: carray_pop_front_def carray_list_def carray_empty_def)
  next
    case False
    show ?thesis
    proof (rule nth_equalityI)
      show "length (carray_list (snd (carray_pop_front a))) = length (tl (carray_list a))"
        using False by (simp add: carray_pop_front_def)
    next
      fix i
      assume "i < length (carray_list (snd (carray_pop_front a)))"
      then have i: "i + 1 < ca_count a" using False by (simp add: carray_pop_front_def)
      then show "carray_list (snd (carray_pop_front a)) ! i = tl (carray_list a) ! i"
        using carray_pop_front_at [OF assms False i] False
        by (simp add: carray_list_nth nth_tl carray_pop_front_def)
    qed
  qed
qed

section \<open>The interface\<close>

locale fifo_queue =
  fixes push :: "'q \<Rightarrow> 'a \<Rightarrow> 'q"
    and pop :: "'q \<Rightarrow> 'a option \<times> 'q"
    and contents :: "'q \<Rightarrow> 'a list"
    and invar :: "'q \<Rightarrow> bool"
  assumes invar_push: "invar q \<Longrightarrow> invar (push q x)"
    and contents_push: "invar q \<Longrightarrow> contents (push q x) = contents q @ [x]"
    and invar_pop: "invar q \<Longrightarrow> invar (snd (pop q))"
    and result_pop: "invar q \<Longrightarrow>
          fst (pop q) = (case contents q of [] \<Rightarrow> None | x # _ \<Rightarrow> Some x)"
    and contents_pop: "invar q \<Longrightarrow> contents (snd (pop q)) = tl (contents q)"
begin

fun push_all :: "'q \<Rightarrow> 'a list \<Rightarrow> 'q" where
  "push_all q [] = q"
| "push_all q (x # xs) = push_all (push q x) xs"

fun pop_n :: "nat \<Rightarrow> 'q \<Rightarrow> 'a option list \<times> 'q" where
  "pop_n 0 q = ([], q)"
| "pop_n (Suc n) q =
     (let (x, q1) = pop q; (xs, q2) = pop_n n q1 in (x # xs, q2))"

lemma push_all_spec:
  "invar q \<Longrightarrow> invar (push_all q xs) \<and> contents (push_all q xs) = contents q @ xs"
  by (induction xs arbitrary: q) (simp_all add: invar_push contents_push)

lemma pop_n_spec:
  "invar q \<Longrightarrow> n \<le> length (contents q) \<Longrightarrow>
   invar (snd (pop_n n q)) \<and> fst (pop_n n q) = map Some (take n (contents q)) \<and>
   contents (snd (pop_n n q)) = drop n (contents q)"
proof (induction n arbitrary: q)
  case 0
  then show ?case by simp
next
  case (Suc n)
  then obtain x xs where xs: "contents q = x # xs" by (cases "contents q") auto
  obtain q1 where pop: "pop q = (Some x, q1)"
    using result_pop [OF Suc.prems(1)] xs by (cases "pop q") simp
  have q1: "invar q1" "contents q1 = xs"
    using invar_pop [OF Suc.prems(1)] contents_pop [OF Suc.prems(1)] xs pop by simp_all
  show ?case
    using Suc.IH [OF q1(1)] Suc.prems(2) xs pop q1(2)
    by (simp add: split_beta Let_def)
qed

text \<open>Elements come out in the order in which they were put in.\<close>

lemma first_in_first_out:
  assumes "invar q" and "contents q = []"
  shows "fst (pop_n (length xs) (push_all q xs)) = map Some xs"
  using push_all_spec [OF assms(1), of xs] pop_n_spec [of "push_all q xs" "length xs"] assms(2)
  by simp

lemma pop_mset:
  "invar q \<Longrightarrow> pop q = (r, q') \<Longrightarrow>
   mset (contents q) = mset (contents q') + (case r of None \<Rightarrow> {#} | Some x \<Rightarrow> {#x#})"
  using result_pop [of q] contents_pop [of q] by (cases "contents q") auto

end

interpretation ca: fifo_queue carray_push_back carray_pop_front carray_list carray_wf
  by unfold_locales
    (simp_all add: carray_push_back_wf carray_push_back_list carray_pop_front_wf
      carray_pop_front_spec)

section \<open>Properties\<close>

datatype 'a queue_op = Q_push 'a | Q_pop

fun carray_run :: "'a carray \<Rightarrow> 'a queue_op list \<Rightarrow> 'a option list" where
  "carray_run a [] = []"
| "carray_run a (Q_push x # ops) = carray_run (carray_push_back a x) ops"
| "carray_run a (Q_pop # ops) = (let (x, a') = carray_pop_front a in x # carray_run a' ops)"

fun list_run :: "'a list \<Rightarrow> 'a queue_op list \<Rightarrow> 'a option list" where
  "list_run xs [] = []"
| "list_run xs (Q_push x # ops) = list_run (xs @ [x]) ops"
| "list_run [] (Q_pop # ops) = None # list_run [] ops"
| "list_run (x # xs) (Q_pop # ops) = Some x # list_run xs ops"

lemma carray_run_list: "carray_wf a \<Longrightarrow> carray_run a ops = list_run (carray_list a) ops"
proof (induction a ops rule: carray_run.induct)
  case (1 a)
  then show ?case by simp
next
  case (2 a x ops)
  then show ?case using ca.invar_push [of a x] ca.contents_push [of a x] by simp
next
  case (3 a ops)
  obtain x a' where pop: "carray_pop_front a = (x, a')" by (cases "carray_pop_front a")
  have "carray_wf a'" "carray_list a' = tl (carray_list a)"
      "x = (case carray_list a of [] \<Rightarrow> None | y # _ \<Rightarrow> Some y)"
    using ca.invar_pop [OF 3(2)] ca.contents_pop [OF 3(2)] ca.result_pop [OF 3(2)] pop by simp_all
  then show ?case using 3(1) [OF pop [symmetric] refl] pop by (cases "carray_list a") simp_all
qed

text \<open>
  C18. The growing ring buffer is a first-in first-out queue: for every sequence of pushes and
  pops, from a new buffer of any positive size, it answers what a list would, also when it
  wraps around and when it grows.
\<close>

theorem carray_is_queue:
  assumes "0 < n"
  shows "carray_run (carray_new n) ops = list_run [] ops"
  using carray_run_list [OF carray_new_wf [OF assms]] by (simp add: carray_new_list)

theorem carray_is_queue_witness:
  "carray_run (carray_new 1) [Q_push (1::nat), Q_push 2, Q_pop, Q_push 3, Q_pop, Q_pop, Q_pop]
     = [Some 1, Some 2, Some 3, None]"
  using carray_is_queue [of 1 "[Q_push (1::nat), Q_push 2, Q_pop, Q_push 3, Q_pop, Q_pop, Q_pop]"]
  by simp

end
