(* ===== verification/Proposer.thy ===== *)
theory Proposer
  imports PaxosTypes Quorum CArray KHash
begin

text \<open>
  \<open>paxos/proposer.c\<close>. A proposer has a queue of client values and two tables of instances:
  those waiting for promises and those waiting for accepted messages. Every handler takes
  the state and a message and returns the new state and the message to send; a failed
  \<open>assert\<close> is the error \<open>AssertFailure\<close>. \<open>gettimeofday\<close> is an argument \<open>now\<close>.

  The theorems: the tables stay disjoint and below \<open>next_prepare_iid\<close>, so that no assertion
  fails and no handler goes wrong; ballots keep the residue of their proposer; no client
  value is lost; and the accept request carries the promised value of the highest ballot.
\<close>

section \<open>Instances\<close>

record timeval =
  tv_sec :: int
  tv_usec :: int

record pinstance =
  pi_iid :: iid_t
  pi_ballot :: ballot_t
  pi_value :: "paxos_value option"
  pi_promised_value :: "paxos_value option"
  pi_value_ballot :: ballot_t
  pi_quorum :: quorum
  pi_created_at :: timeval

definition pinstance_new :: "iid_t \<Rightarrow> ballot_t \<Rightarrow> int \<Rightarrow> timeval \<Rightarrow> pinstance outcome" where
  "pinstance_new iid ballot acceptors now =
     (if 0 < iid
      then Inr \<lparr>pi_iid = iid, pi_ballot = ballot, pi_value = None, pi_promised_value = None,
                pi_value_ballot = 0, pi_quorum = quorum_init acceptors, pi_created_at = now\<rparr>
      else Inl AssertFailure)"

definition instance_has_value :: "pinstance \<Rightarrow> bool" where
  "instance_has_value inst \<longleftrightarrow> pi_value inst \<noteq> None"

definition instance_has_promised_value :: "pinstance \<Rightarrow> bool" where
  "instance_has_promised_value inst \<longleftrightarrow> pi_promised_value inst \<noteq> None"

text \<open>The difference of the seconds is stored in an \<open>int\<close>.\<close>

definition instance_has_timedout :: "paxos_config \<Rightarrow> pinstance \<Rightarrow> timeval \<Rightarrow> bool" where
  "instance_has_timedout cfg inst now \<longleftrightarrow>
     proposer_timeout cfg \<le>
       sint (word_of_int (tv_sec now - tv_sec (pi_created_at inst)) :: 32 word)"

definition instance_to_accept :: "pinstance \<Rightarrow> paxos_accept outcome" where
  "instance_to_accept inst =
     (let v = (if instance_has_promised_value inst then pi_promised_value inst else pi_value inst)
      in case v of
           None \<Rightarrow> Inl NullPointer
         | Some v \<Rightarrow>
             Inr \<lparr>accept_iid = pi_iid inst, accept_ballot = pi_ballot inst,
                  accept_value = \<lparr>paxos_value_len = paxos_value_len v,
                                  paxos_value_val = paxos_value_val v\<rparr>\<rparr>)"

text \<open>\<open>memcmp\<close>: the difference of the first bytes that differ.\<close>

fun memcmp_bytes :: "byte list \<Rightarrow> byte list \<Rightarrow> int" where
  "memcmp_bytes (x # xs) (y # ys) = (if x = y then memcmp_bytes xs ys else uint x - uint y)"
| "memcmp_bytes _ _ = 0"

definition value_bytes :: "paxos_value \<Rightarrow> byte list" where
  "value_bytes v = (case paxos_value_val v of None \<Rightarrow> [] | Some bs \<Rightarrow> bs)"

definition paxos_value_cmp :: "paxos_value \<Rightarrow> paxos_value \<Rightarrow> int" where
  "paxos_value_cmp v1 v2 =
     (if paxos_value_len v1 \<noteq> paxos_value_len v2 then -1
      else memcmp_bytes (take (nat (paxos_value_len v1)) (value_bytes v1))
                        (take (nat (paxos_value_len v1)) (value_bytes v2)))"

section \<open>The proposer\<close>

record proposer =
  p_id :: int
  p_acceptors :: int
  p_values :: "paxos_value carray"
  p_max_trim_iid :: iid_t
  p_next_prepare_iid :: iid_t
  p_prepare_instances :: "pinstance khash"
  p_accept_instances :: "pinstance khash"

definition proposer_new :: "int \<Rightarrow> int \<Rightarrow> proposer" where
  "proposer_new ident acceptors =
     \<lparr>p_id = ident, p_acceptors = acceptors, p_values = carray_new 128, p_max_trim_iid = 0,
      p_next_prepare_iid = 0, p_prepare_instances = kh_init, p_accept_instances = kh_init\<rparr>"

definition proposer_propose :: "proposer \<Rightarrow> byte list \<Rightarrow> int \<Rightarrow> proposer" where
  "proposer_propose p value sz =
     p\<lparr>p_values := carray_push_back (p_values p) (paxos_value_new value sz)\<rparr>"

definition proposer_prepared_count :: "proposer \<Rightarrow> nat" where
  "proposer_prepared_count p = kh_size (p_prepare_instances p)"

definition proposer_set_instance_id :: "proposer \<Rightarrow> iid_t \<Rightarrow> proposer" where
  "proposer_set_instance_id p iid = p\<lparr>p_next_prepare_iid := iid\<rparr>"

definition proposer_next_ballot :: "proposer \<Rightarrow> ballot_t \<Rightarrow> ballot_t" where
  "proposer_next_ballot p b =
     (if 0 < b then of_nat MAX_N_OF_PROPOSERS + b
      else word_of_int (int MAX_N_OF_PROPOSERS + p_id p))"

text \<open>\<open>kh_put\<close> followed by \<open>assert(rv > 0)\<close> and the assignment of the value.\<close>

definition kh_put_assert :: "'v khash \<Rightarrow> 32 word \<Rightarrow> 'v \<Rightarrow> 'v khash outcome" where
  "kh_put_assert h k v =
     (let (h', x, rv) = kh_put h k v in if 0 < rv then Inr h' else Inl AssertFailure)"

definition proposer_prepare :: "proposer \<Rightarrow> timeval \<Rightarrow> (proposer \<times> paxos_prepare) outcome" where
  "proposer_prepare p now =
     (let iid = p_next_prepare_iid p + 1;
          p = p\<lparr>p_next_prepare_iid := iid\<rparr>;
          bal = proposer_next_ballot p 0
      in case pinstance_new iid bal (p_acceptors p) now of
           Inl e \<Rightarrow> Inl e
         | Inr inst \<Rightarrow>
             (case kh_put_assert (p_prepare_instances p) iid inst of
                Inl e \<Rightarrow> Inl e
              | Inr h \<Rightarrow> Inr (p\<lparr>p_prepare_instances := h\<rparr>,
                             \<lparr>prepare_iid = pi_iid inst, prepare_ballot = pi_ballot inst\<rparr>)))"

text \<open>
  \<open>proposer_preempt\<close> works on the instance in place and fills \<open>out\<close>.
\<close>

definition proposer_preempt ::
  "proposer \<Rightarrow> pinstance \<Rightarrow> timeval \<Rightarrow> pinstance \<times> paxos_prepare" where
  "proposer_preempt p inst now =
     (let inst = inst\<lparr>pi_ballot := proposer_next_ballot p (pi_ballot inst), pi_value_ballot := 0,
                      pi_promised_value := None, pi_quorum := quorum_clear (pi_quorum inst)\<rparr>;
          out = \<lparr>prepare_iid = pi_iid inst, prepare_ballot = pi_ballot inst\<rparr>
      in (inst\<lparr>pi_created_at := now\<rparr>, out))"

definition proposer_move_instance ::
  "pinstance khash \<Rightarrow> pinstance khash \<Rightarrow> pinstance \<Rightarrow>
     (pinstance khash \<times> pinstance khash \<times> pinstance) outcome" where
  "proposer_move_instance f t inst =
     (let k = kh_get f (pi_iid inst) in
      if k = kh_n_buckets f then Inl AssertFailure
      else let f = kh_del f k;
               inst = inst\<lparr>pi_quorum := quorum_clear (pi_quorum inst)\<rparr>
           in case kh_put_assert t (pi_iid inst) inst of
                Inl e \<Rightarrow> Inl e
              | Inr t \<Rightarrow> Inr (f, t, inst))"

text \<open>Saving the value of a promise, the branch of \<open>proposer_receive_promise\<close>.\<close>

definition promise_value_saved :: "pinstance \<Rightarrow> paxos_promise \<Rightarrow> pinstance" where
  "promise_value_saved inst ack =
     (if 0 < paxos_value_len (promise_value ack) \<and> pi_value_ballot inst < promise_value_ballot ack
      then inst\<lparr>pi_value_ballot := promise_value_ballot ack,
                pi_promised_value :=
                  Some (paxos_value_new (value_bytes (promise_value ack))
                          (paxos_value_len (promise_value ack)))\<rparr>
      else inst)"

definition proposer_receive_promise ::
  "proposer \<Rightarrow> paxos_promise \<Rightarrow> int \<Rightarrow> timeval \<Rightarrow> (proposer \<times> paxos_prepare option) outcome" where
  "proposer_receive_promise p ack from_id now =
     (case kh_lookup (p_prepare_instances p) (promise_iid ack) of
        None \<Rightarrow> Inr (p, None)
      | Some inst \<Rightarrow>
          let store = (\<lambda>inst. p\<lparr>p_prepare_instances :=
                kh_assign_key (p_prepare_instances p) (promise_iid ack) inst\<rparr>)
          in if promise_ballot ack < pi_ballot inst then Inr (p, None)
             else if pi_ballot inst < promise_ballot ack
               then let (inst, out) = proposer_preempt p inst now in Inr (store inst, Some out)
             else case quorum_add (pi_quorum inst) from_id of
                    Inl e \<Rightarrow> Inl e
                  | Inr (q, rv) \<Rightarrow>
                      if rv = 0 then Inr (store (inst\<lparr>pi_quorum := q\<rparr>), None)
                      else Inr (store (promise_value_saved (inst\<lparr>pi_quorum := q\<rparr>) ack), None))"

text \<open>The search for the instance with the smallest id, over the buckets in order.\<close>

fun smallest_scan :: "pinstance bucket list \<Rightarrow> pinstance option \<Rightarrow> pinstance option" where
  "smallest_scan [] found = found"
| "smallest_scan (KLive k inst # bs) found =
     smallest_scan bs
       (case found of
          None \<Rightarrow> Some inst
        | Some f \<Rightarrow> if pi_iid inst < pi_iid f then Some inst else Some f)"
| "smallest_scan (_ # bs) found = smallest_scan bs found"

definition proposer_accept :: "proposer \<Rightarrow> (proposer \<times> paxos_accept option) outcome" where
  "proposer_accept p =
     (case smallest_scan (kh_buckets (p_prepare_instances p)) None of
        None \<Rightarrow> Inr (p, None)
      | Some inst \<Rightarrow>
          if \<not> quorum_reached (pi_quorum inst) then Inr (p, None)
          else let (inst, p) =
                 (if \<not> instance_has_value inst
                  then let (v, vals) = carray_pop_front (p_values p);
                           inst = inst\<lparr>pi_value := v\<rparr>
                       in (inst, p\<lparr>p_values := vals,
                             p_prepare_instances :=
                               kh_assign_key (p_prepare_instances p) (pi_iid inst) inst\<rparr>)
                  else (inst, p))
               in if \<not> instance_has_value inst \<and> \<not> instance_has_promised_value inst then Inr (p, None)
                  else case proposer_move_instance (p_prepare_instances p) (p_accept_instances p) inst of
                         Inl e \<Rightarrow> Inl e
                       | Inr (f, t, inst) \<Rightarrow>
                           (case instance_to_accept inst of
                              Inl e \<Rightarrow> Inl e
                            | Inr out \<Rightarrow>
                                Inr (p\<lparr>p_prepare_instances := f, p_accept_instances := t\<rparr>, Some out)))"

text \<open>
  \<open>proposer_receive_accepted\<close> returns whether the message counted. When the quorum is
  reached with a value that is not the client's, the client's value is queued again.
\<close>

definition proposer_requeue :: "paxos_value carray \<Rightarrow> pinstance \<Rightarrow> paxos_value carray" where
  "proposer_requeue vals inst =
     (case (pi_value inst, pi_promised_value inst) of
        (Some v, Some pv) \<Rightarrow> if paxos_value_cmp v pv \<noteq> 0 then carray_push_back vals v else vals
      | _ \<Rightarrow> vals)"

definition proposer_receive_accepted ::
  "proposer \<Rightarrow> paxos_accepted \<Rightarrow> int \<Rightarrow> (proposer \<times> bool) outcome" where
  "proposer_receive_accepted p ack from_id =
     (let k = kh_get (p_accept_instances p) (accepted_iid ack) in
      case kh_lookup (p_accept_instances p) (accepted_iid ack) of
        None \<Rightarrow> Inr (p, False)
      | Some inst \<Rightarrow>
          if accepted_ballot ack = pi_ballot inst
          then case quorum_add (pi_quorum inst) from_id of
                 Inl e \<Rightarrow> Inl e
               | Inr (q, rv) \<Rightarrow>
                   let inst = inst\<lparr>pi_quorum := q\<rparr>;
                       p' = p\<lparr>p_accept_instances := kh_set_value (p_accept_instances p) k inst\<rparr>
                   in if rv = 0 then Inr (p', False)
                      else if quorum_reached q
                        then Inr (p\<lparr>p_values := proposer_requeue (p_values p) inst,
                                    p_accept_instances := kh_del (p_accept_instances p) k\<rparr>, True)
                      else Inr (p', True)
          else Inr (p, False))"

definition proposer_receive_preempted ::
  "proposer \<Rightarrow> paxos_preempted \<Rightarrow> timeval \<Rightarrow> (proposer \<times> paxos_prepare option) outcome" where
  "proposer_receive_preempted p ack now =
     (case kh_lookup (p_accept_instances p) (preempted_iid ack) of
        None \<Rightarrow> Inr (p, None)
      | Some inst \<Rightarrow>
          if pi_ballot inst < preempted_ballot ack
          then case proposer_move_instance (p_accept_instances p) (p_prepare_instances p) inst of
                 Inl e \<Rightarrow> Inl e
               | Inr (f, t, inst) \<Rightarrow>
                   let (inst', out) = proposer_preempt p inst now
                   in Inr (p\<lparr>p_accept_instances := f,
                             p_prepare_instances := kh_assign_key t (pi_iid inst) inst'\<rparr>, Some out)
          else Inr (p, None))"

text \<open>One turn of the loop of \<open>proposer_trim_instances\<close> at bucket \<open>k\<close>, and the loop.\<close>

definition trim_bucket ::
  "iid_t \<Rightarrow> nat \<Rightarrow> paxos_value carray \<times> pinstance khash \<Rightarrow> paxos_value carray \<times> pinstance khash" where
  "trim_bucket iid k s =
     (let (vals, h) = s in
      case kh_value h k of
        None \<Rightarrow> (vals, h)
      | Some inst \<Rightarrow>
          if pi_iid inst \<le> iid
          then ((case pi_value inst of None \<Rightarrow> vals | Some v \<Rightarrow> carray_push_back vals v), kh_del h k)
          else (vals, h))"

definition proposer_trim_instances ::
  "paxos_value carray \<Rightarrow> pinstance khash \<Rightarrow> iid_t \<Rightarrow> paxos_value carray \<times> pinstance khash" where
  "proposer_trim_instances vals h iid = fold (trim_bucket iid) [0..<kh_n_buckets h] (vals, h)"

definition proposer_receive_acceptor_state :: "proposer \<Rightarrow> paxos_acceptor_state \<Rightarrow> proposer" where
  "proposer_receive_acceptor_state p st =
     (if state_trim_iid st < p_max_trim_iid p then p
      else let p = p\<lparr>p_max_trim_iid := state_trim_iid st\<rparr>;
               p = (if p_next_prepare_iid p < state_trim_iid st
                    then p\<lparr>p_next_prepare_iid := state_trim_iid st\<rparr> else p);
               (vals, h) = proposer_trim_instances (p_values p) (p_prepare_instances p) (state_trim_iid st);
               (vals, g) = proposer_trim_instances vals (p_accept_instances p) (state_trim_iid st)
           in p\<lparr>p_values := vals, p_prepare_instances := h, p_accept_instances := g\<rparr>)"

section \<open>Timeouts\<close>

record timeout_iterator =
  it_pi :: nat
  it_ai :: nat
  it_timeout :: timeval

definition proposer_timeout_iterator :: "timeval \<Rightarrow> timeout_iterator" where
  "proposer_timeout_iterator now = \<lparr>it_pi = 0, it_ai = 0, it_timeout = now\<rparr>"

text \<open>
  \<open>next_timedout\<close> leaves the iterator at the instance it returns, or at the end.
\<close>

function next_timedout ::
  "paxos_config \<Rightarrow> pinstance khash \<Rightarrow> nat \<Rightarrow> timeval \<Rightarrow> nat \<times> pinstance option" where
  "next_timedout cfg h k t =
     (if k < kh_n_buckets h
      then case kh_value h k of
             None \<Rightarrow> next_timedout cfg h (Suc k) t
           | Some inst \<Rightarrow>
               if quorum_reached (pi_quorum inst) then next_timedout cfg h (Suc k) t
               else if instance_has_timedout cfg inst t then (k, Some inst)
               else next_timedout cfg h (Suc k) t
      else (k, None))"
  by pat_completeness auto
termination
  by (relation "measure (\<lambda>(cfg, h, k, t). kh_n_buckets h - k)") auto

declare next_timedout.simps [simp del]

definition timeout_iterator_prepare ::
  "paxos_config \<Rightarrow> timeout_iterator \<Rightarrow> proposer \<Rightarrow>
     timeout_iterator \<times> proposer \<times> paxos_prepare option" where
  "timeout_iterator_prepare cfg iter p =
     (let (k, found) = next_timedout cfg (p_prepare_instances p) (it_pi iter) (it_timeout iter);
          iter = iter\<lparr>it_pi := k\<rparr>
      in case found of
           None \<Rightarrow> (iter, p, None)
         | Some inst \<Rightarrow>
             (iter,
              p\<lparr>p_prepare_instances :=
                  kh_set_value (p_prepare_instances p) k (inst\<lparr>pi_created_at := it_timeout iter\<rparr>)\<rparr>,
              Some \<lparr>prepare_iid = pi_iid inst, prepare_ballot = pi_ballot inst\<rparr>))"

definition timeout_iterator_accept ::
  "paxos_config \<Rightarrow> timeout_iterator \<Rightarrow> proposer \<Rightarrow>
     (timeout_iterator \<times> proposer \<times> paxos_accept option) outcome" where
  "timeout_iterator_accept cfg iter p =
     (let (k, found) = next_timedout cfg (p_accept_instances p) (it_ai iter) (it_timeout iter);
          iter = iter\<lparr>it_ai := k\<rparr>
      in case found of
           None \<Rightarrow> Inr (iter, p, None)
         | Some inst \<Rightarrow>
             (case instance_to_accept inst of
                Inl e \<Rightarrow> Inl e
              | Inr out \<Rightarrow>
                  Inr (iter,
                       p\<lparr>p_accept_instances :=
                           kh_set_value (p_accept_instances p) k
                             (inst\<lparr>pi_created_at := it_timeout iter\<rparr>)\<rparr>,
                       Some out)))"

section \<open>The operations on the tables\<close>

lemma kh_put_assert_absent:
  assumes "kh_wf h" and "kh_map h k = None"
  shows "kh_put_assert h k v = Inr (kh_put_key h k v)"
proof -
  obtain h' x r where p: "kh_put h k v = (h', x, r)" by (cases "kh_put h k v") auto
  then show ?thesis using kh_put_absent(1) [OF assms p] by (simp add: kh_put_assert_def kh_put_key_def)
qed

lemma kh_put_assert_present:
  assumes "kh_wf h" and "kh_map h k = Some w"
  shows "kh_put_assert h k v = Inl AssertFailure"
proof -
  obtain h' x r where p: "kh_put h k v = (h', x, r)" by (cases "kh_put h k v") auto
  then show ?thesis using kh_put_present(1) [OF assms p] by (simp add: kh_put_assert_def)
qed

definition votes_cleared :: "pinstance \<Rightarrow> pinstance" where
  "votes_cleared inst = inst\<lparr>pi_quorum := quorum_clear (pi_quorum inst)\<rparr>"

lemma votes_cleared_fields [simp]:
  "pi_iid (votes_cleared inst) = pi_iid inst" "pi_ballot (votes_cleared inst) = pi_ballot inst"
  "pi_value (votes_cleared inst) = pi_value inst"
  "pi_promised_value (votes_cleared inst) = pi_promised_value inst"
  "pi_value_ballot (votes_cleared inst) = pi_value_ballot inst"
  "pi_quorum (votes_cleared inst) = quorum_clear (pi_quorum inst)"
  by (simp_all add: votes_cleared_def)

lemma move_instance_spec:
  assumes "kh_wf f" and "kh_wf t" and "kh_map f (pi_iid inst) = Some j" and "kh_map t (pi_iid inst) = None"
  shows "proposer_move_instance f t inst =
    Inr (kh_del_key f (pi_iid inst), kh_put_key t (pi_iid inst) (votes_cleared inst), votes_cleared inst)"
proof -
  have "kh_get f (pi_iid inst) \<noteq> kh_n_buckets f"
    using kh_get_present [OF assms(1,3)] by simp
  then show ?thesis
    using kh_put_assert_absent [OF assms(2,4)]
    by (simp add: proposer_move_instance_def kh_del_key_def votes_cleared_def Let_def)
qed

lemma smallest_scan_spec:
  "(case smallest_scan bs found of
      None \<Rightarrow> found = None \<and> entries bs = []
    | Some inst \<Rightarrow>
        (inst \<in> snd ` set (entries bs) \<or> found = Some inst) \<and>
        (\<forall>i \<in> snd ` set (entries bs) \<union> set_option found. pi_iid inst \<le> pi_iid i))"
proof (induction bs found rule: smallest_scan.induct)
  case (1 found)
  then show ?case by (cases found) auto
next
  case (2 k inst bs found)
  show ?case
  proof (cases found)
    case None
    then show ?thesis using 2 by (auto split: option.splits)
  next
    case (Some f)
    show ?thesis
    proof (cases "pi_iid inst < pi_iid f")
      case True
      from 2 Some True have ih: "case smallest_scan bs (Some inst) of None \<Rightarrow> False
        | Some i \<Rightarrow> (i \<in> snd ` set (entries bs) \<or> i = inst) \<and> pi_iid i \<le> pi_iid inst \<and>
            (\<forall>j \<in> snd ` set (entries bs). pi_iid i \<le> pi_iid j)"
        by (auto split: option.splits)
      show ?thesis using ih Some True by (auto split: option.splits)
    next
      case False
      from 2 Some False have ih: "case smallest_scan bs (Some f) of None \<Rightarrow> False
        | Some i \<Rightarrow> (i \<in> snd ` set (entries bs) \<or> i = f) \<and> pi_iid i \<le> pi_iid f \<and>
            (\<forall>j \<in> snd ` set (entries bs). pi_iid i \<le> pi_iid j)"
        by (auto split: option.splits)
      show ?thesis using ih Some False by (auto split: option.splits)
    qed
  qed
qed (auto split: option.splits)

lemma smallest_scan_map:
  assumes "kh_wf h" and "\<And>k i. kh_map h k = Some i \<Longrightarrow> pi_iid i = k"
  shows "case smallest_scan (kh_buckets h) None of
           None \<Rightarrow> kh_map h = Map.empty
         | Some inst \<Rightarrow> kh_map h (pi_iid inst) = Some inst \<and>
                        (\<forall>k \<in> dom (kh_map h). pi_iid inst \<le> k)"
proof -
  have e: "(k, i) \<in> set (entries (kh_buckets h)) \<longleftrightarrow> kh_map h k = Some i" for k i
    using kh_entries_map [OF assms(1)] by (simp add: kh_entries_def)
  show ?thesis
  proof (cases "smallest_scan (kh_buckets h) None")
    case None
    then have "entries (kh_buckets h) = []"
      using smallest_scan_spec [of None "kh_buckets h"] by simp
    then have "kh_map h k = None" for k using e [of k] by (cases "kh_map h k") auto
    then show ?thesis using None by auto
  next
    case (Some inst)
    then have s: "inst \<in> snd ` set (entries (kh_buckets h))"
        "\<forall>i \<in> snd ` set (entries (kh_buckets h)). pi_iid inst \<le> pi_iid i"
      using smallest_scan_spec [of None "kh_buckets h"] by auto
    then obtain k where "kh_map h k = Some inst" using e by force
    moreover have "pi_iid inst \<le> k" if "kh_map h k = Some i" for k i
      using s(2) e [of k i] assms(2) [OF that] that by force
    ultimately show ?thesis using Some assms(2) by auto
  qed
qed

section \<open>Well-formed proposers\<close>

definition pinst_ok :: "int \<Rightarrow> iid_t \<Rightarrow> iid_t \<Rightarrow> pinstance \<Rightarrow> bool" where
  "pinst_ok n hi k inst \<longleftrightarrow>
     pi_iid inst = k \<and> 0 < k \<and> k \<le> hi \<and> quorum_wf (pi_quorum inst) \<and> q_acceptors (pi_quorum inst) = n \<and>
     (\<forall>v. pi_value inst = Some v \<longrightarrow> value_wf v) \<and> (\<forall>v. pi_promised_value inst = Some v \<longrightarrow> value_wf v)"

text \<open>
  The tables are disjoint and hold good instances no higher than \<open>next_prepare_iid\<close>; an
  instance in the accept table has a value.
\<close>

definition proposer_inv :: "proposer \<Rightarrow> bool" where
  "proposer_inv p \<longleftrightarrow>
     0 \<le> p_acceptors p \<and> carray_wf (p_values p) \<and> (\<forall>v \<in> set (carray_list (p_values p)). value_wf v) \<and>
     kh_wf (p_prepare_instances p) \<and> kh_wf (p_accept_instances p) \<and>
     (\<forall>k inst. kh_map (p_prepare_instances p) k = Some inst \<longrightarrow>
        pinst_ok (p_acceptors p) (p_next_prepare_iid p) k inst) \<and>
     (\<forall>k inst. kh_map (p_accept_instances p) k = Some inst \<longrightarrow>
        pinst_ok (p_acceptors p) (p_next_prepare_iid p) k inst \<and>
        (instance_has_value inst \<or> instance_has_promised_value inst)) \<and>
     dom (kh_map (p_prepare_instances p)) \<inter> dom (kh_map (p_accept_instances p)) = {}"

lemma pinst_ok_top: "pinst_ok n hi k inst \<Longrightarrow> hi \<le> hi' \<Longrightarrow> pinst_ok n hi' k inst"
  by (auto simp: pinst_ok_def)

lemma pinst_ok_cleared: "pinst_ok n hi k inst \<Longrightarrow> pinst_ok n hi k (votes_cleared inst)"
  by (simp add: pinst_ok_def quorum_clear_wf)

lemma pinst_ok_created: "pinst_ok n hi k (inst\<lparr>pi_created_at := t\<rparr>) = pinst_ok n hi k inst"
  by (simp add: pinst_ok_def)

lemma proposer_new_inv: "0 \<le> n \<Longrightarrow> proposer_inv (proposer_new i n)"
  by (simp add: proposer_inv_def proposer_new_def kh_init_wf kh_init_map carray_new_wf carray_new_list)

lemma proposer_propose_inv:
  "proposer_inv p \<Longrightarrow> sz = int (length bs) \<Longrightarrow> proposer_inv (proposer_propose p bs sz)"
  by (auto simp: proposer_inv_def proposer_propose_def carray_push_back_wf carray_push_back_list
      value_wf_new)

lemma proposer_invD:
  assumes "proposer_inv p"
  shows "0 \<le> p_acceptors p" and "carray_wf (p_values p)"
    and "\<And>v. v \<in> set (carray_list (p_values p)) \<Longrightarrow> value_wf v"
    and "kh_wf (p_prepare_instances p)" and "kh_wf (p_accept_instances p)"
    and "\<And>k inst. kh_map (p_prepare_instances p) k = Some inst \<Longrightarrow>
           pinst_ok (p_acceptors p) (p_next_prepare_iid p) k inst"
    and "\<And>k inst. kh_map (p_accept_instances p) k = Some inst \<Longrightarrow>
           pinst_ok (p_acceptors p) (p_next_prepare_iid p) k inst"
    and "\<And>k inst. kh_map (p_accept_instances p) k = Some inst \<Longrightarrow>
           instance_has_value inst \<or> instance_has_promised_value inst"
    and "\<And>k inst. kh_map (p_prepare_instances p) k = Some inst \<Longrightarrow>
           kh_map (p_accept_instances p) k = None"
    and "\<And>k inst. kh_map (p_accept_instances p) k = Some inst \<Longrightarrow>
           kh_map (p_prepare_instances p) k = None"
  using assms unfolding proposer_inv_def by blast+

section \<open>What each handler does to the tables\<close>

definition fresh_pinstance :: "proposer \<Rightarrow> timeval \<Rightarrow> pinstance" where
  "fresh_pinstance p now =
     \<lparr>pi_iid = p_next_prepare_iid p + 1, pi_ballot = proposer_next_ballot p 0, pi_value = None,
      pi_promised_value = None, pi_value_ballot = 0, pi_quorum = quorum_init (p_acceptors p),
      pi_created_at = now\<rparr>"

lemma fresh_pinstance_fields [simp]:
  "pi_iid (fresh_pinstance p now) = p_next_prepare_iid p + 1"
  "pi_ballot (fresh_pinstance p now) = proposer_next_ballot p 0"
  "pi_value (fresh_pinstance p now) = None" "pi_promised_value (fresh_pinstance p now) = None"
  "pi_value_ballot (fresh_pinstance p now) = 0"
  "pi_quorum (fresh_pinstance p now) = quorum_init (p_acceptors p)"
  by (simp_all add: fresh_pinstance_def)

text \<open>Preparing fails on an assertion exactly when the instance ids wrap around.\<close>

lemma prepare_wraps:
  "p_next_prepare_iid p = -1 \<Longrightarrow> proposer_prepare p now = Inl AssertFailure"
  by (simp add: proposer_prepare_def pinstance_new_def)

lemma prepare_key_fresh:
  assumes "proposer_inv p" and "p_next_prepare_iid p \<noteq> -1"
  shows "kh_map (p_prepare_instances p) (p_next_prepare_iid p + 1) = None"
    and "kh_map (p_accept_instances p) (p_next_prepare_iid p + 1) = None"
proof -
  have less: "p_next_prepare_iid p < p_next_prepare_iid p + 1"
    using assms(2) by (rule word_less_plus1_self)
  have no: "\<not> pinst_ok n (p_next_prepare_iid p) (p_next_prepare_iid p + 1) inst" for n inst
    using less by (auto simp: pinst_ok_def)
  show "kh_map (p_prepare_instances p) (p_next_prepare_iid p + 1) = None"
    using proposer_invD(6) [OF assms(1)] no by (metis not_Some_eq)
  show "kh_map (p_accept_instances p) (p_next_prepare_iid p + 1) = None"
    using proposer_invD(7) [OF assms(1)] no by (metis not_Some_eq)
qed

lemma prepare_eq:
  assumes inv: "proposer_inv p" and nw: "p_next_prepare_iid p \<noteq> -1"
  defines "i \<equiv> p_next_prepare_iid p + 1"
  shows "proposer_prepare p now =
     Inr (p\<lparr>p_next_prepare_iid := i,
            p_prepare_instances := kh_put_key (p_prepare_instances p) i (fresh_pinstance p now)\<rparr>,
          \<lparr>prepare_iid = i, prepare_ballot = proposer_next_ballot p 0\<rparr>)"
proof -
  have pos: "0 < i" using word_less_plus1_self [OF nw] by (simp add: i_def word_gt_0)
    (metis word_not_simps(1))
  have nb: "proposer_next_ballot (p\<lparr>p_next_prepare_iid := i\<rparr>) 0 = proposer_next_ballot p 0"
    by (simp add: proposer_next_ballot_def)
  show ?thesis
    using kh_put_assert_absent [OF proposer_invD(4) [OF inv] prepare_key_fresh(1) [OF inv nw]] pos
    by (simp add: proposer_prepare_def Let_def pinstance_new_def nb i_def [symmetric])
      (simp add: fresh_pinstance_def i_def)
qed

definition preempted_pinstance :: "proposer \<Rightarrow> pinstance \<Rightarrow> timeval \<Rightarrow> pinstance" where
  "preempted_pinstance p inst now = fst (proposer_preempt p inst now)"

lemma preempted_pinstance_fields [simp]:
  "pi_iid (preempted_pinstance p inst now) = pi_iid inst"
  "pi_ballot (preempted_pinstance p inst now) = proposer_next_ballot p (pi_ballot inst)"
  "pi_value (preempted_pinstance p inst now) = pi_value inst"
  "pi_promised_value (preempted_pinstance p inst now) = None"
  "pi_value_ballot (preempted_pinstance p inst now) = 0"
  "pi_quorum (preempted_pinstance p inst now) = quorum_clear (pi_quorum inst)"
  by (simp_all add: preempted_pinstance_def proposer_preempt_def)

lemma proposer_preempt_eq:
  "proposer_preempt p inst now =
     (preempted_pinstance p inst now,
      \<lparr>prepare_iid = pi_iid inst, prepare_ballot = proposer_next_ballot p (pi_ballot inst)\<rparr>)"
  by (simp add: preempted_pinstance_def proposer_preempt_def)

lemma pinst_ok_preempted: "pinst_ok n hi k inst \<Longrightarrow> pinst_ok n hi k (preempted_pinstance p inst now)"
  by (simp add: pinst_ok_def quorum_clear_wf)

text \<open>What a counted promise leaves in its instance.\<close>

lemma promise_value_saved_fields [simp]:
  "pi_iid (promise_value_saved inst ack) = pi_iid inst"
  "pi_ballot (promise_value_saved inst ack) = pi_ballot inst"
  "pi_value (promise_value_saved inst ack) = pi_value inst"
  "pi_quorum (promise_value_saved inst ack) = pi_quorum inst"
  by (simp_all add: promise_value_saved_def)

lemma value_new_bytes:
  "value_wf v \<Longrightarrow> 0 < paxos_value_len v \<Longrightarrow> paxos_value_new (value_bytes v) (paxos_value_len v) = v"
  by (cases v) (auto simp: value_wf_def value_bytes_def paxos_value_new_def memcpy_bytes_def
      split: option.splits)

lemma promise_value_saved_value:
  assumes "value_wf (promise_value ack)"
  shows "pi_promised_value (promise_value_saved inst ack) =
      (if 0 < paxos_value_len (promise_value ack) \<and> pi_value_ballot inst < promise_value_ballot ack
       then Some (promise_value ack) else pi_promised_value inst)"
    and "pi_value_ballot (promise_value_saved inst ack) =
      (if 0 < paxos_value_len (promise_value ack) \<and> pi_value_ballot inst < promise_value_ballot ack
       then promise_value_ballot ack else pi_value_ballot inst)"
  using value_new_bytes [OF assms] by (simp_all add: promise_value_saved_def)

lemma receive_promise_cases:
  assumes inv: "proposer_inv p" and frm: "0 \<le> from_id" "from_id < p_acceptors p"
  obtains
    (dropped) "proposer_receive_promise p ack from_id now = Inr (p, None)"
  | (preempted) inst h where "kh_map (p_prepare_instances p) (promise_iid ack) = Some inst"
      "pi_ballot inst < promise_ballot ack"
      "proposer_receive_promise p ack from_id now =
         Inr (p\<lparr>p_prepare_instances := h\<rparr>,
              Some \<lparr>prepare_iid = pi_iid inst,
                    prepare_ballot = proposer_next_ballot p (pi_ballot inst)\<rparr>)"
      "kh_wf h"
      "kh_map h = (kh_map (p_prepare_instances p))(promise_iid ack \<mapsto> preempted_pinstance p inst now)"
      "h = kh_assign_key (p_prepare_instances p) (promise_iid ack) (preempted_pinstance p inst now)"
  | (duplicate) inst h where "kh_map (p_prepare_instances p) (promise_iid ack) = Some inst"
      "from_id \<in> quorum_voters (pi_quorum inst)"
      "proposer_receive_promise p ack from_id now = Inr (p\<lparr>p_prepare_instances := h\<rparr>, None)"
      "kh_wf h" "kh_map h = kh_map (p_prepare_instances p)"
      "h = kh_assign_key (p_prepare_instances p) (promise_iid ack) inst"
  | (counted) inst q h where "kh_map (p_prepare_instances p) (promise_iid ack) = Some inst"
      "promise_ballot ack = pi_ballot inst" "from_id \<notin> quorum_voters (pi_quorum inst)"
      "quorum_add (pi_quorum inst) from_id = Inr (q, 1)"
      "proposer_receive_promise p ack from_id now = Inr (p\<lparr>p_prepare_instances := h\<rparr>, None)"
      "kh_wf h"
      "kh_map h = (kh_map (p_prepare_instances p))
         (promise_iid ack \<mapsto> promise_value_saved (inst\<lparr>pi_quorum := q\<rparr>) ack)"
      "h = kh_assign_key (p_prepare_instances p) (promise_iid ack)
             (promise_value_saved (inst\<lparr>pi_quorum := q\<rparr>) ack)"
proof -
  let ?h = "p_prepare_instances p" and ?i = "promise_iid ack"
  have wf: "kh_wf ?h" using proposer_invD(4) [OF inv] .
  show ?thesis
  proof (cases "kh_map ?h ?i")
    case None
    then show ?thesis using wf by (intro dropped) (simp add: proposer_receive_promise_def kh.lookup_alpha)
  next
    case (Some inst)
    then have look: "kh_lookup ?h ?i = Some inst" using wf by (simp add: kh.lookup_alpha)
    have pok: "pinst_ok (p_acceptors p) (p_next_prepare_iid p) ?i inst"
      using proposer_invD(6) [OF inv Some] .
    have asg: "kh_wf (kh_assign_key ?h ?i x)" "kh_map (kh_assign_key ?h ?i x) = (kh_map ?h)(?i \<mapsto> x)" for x
      using kh.invar_assign [OF wf] kh.alpha_assign [OF wf] Some by simp_all
    consider "promise_ballot ack < pi_ballot inst" | "pi_ballot inst < promise_ballot ack"
      | "promise_ballot ack = pi_ballot inst" by fastforce
    then show ?thesis
    proof cases
      case 1
      then show ?thesis using look by (intro dropped) (simp add: proposer_receive_promise_def)
    next
      case 2
      have "proposer_receive_promise p ack from_id now =
         Inr (p\<lparr>p_prepare_instances := kh_assign_key ?h ?i (preempted_pinstance p inst now)\<rparr>,
              Some \<lparr>prepare_iid = pi_iid inst,
                    prepare_ballot = proposer_next_ballot p (pi_ballot inst)\<rparr>)"
        using 2 look by (auto simp: proposer_receive_promise_def proposer_preempt_eq Let_def)
      then show ?thesis using preempted [OF Some 2 _ asg refl] by blast
    next
      case 3
      have qwf: "quorum_wf (pi_quorum inst)" "q_acceptors (pi_quorum inst) = p_acceptors p"
        using pok by (simp_all add: pinst_ok_def)
      then obtain q r where q: "quorum_add (pi_quorum inst) from_id = Inr (q, r)"
        using qc.add_defined [of "pi_quorum inst" from_id] frm by auto
      have r: "r = (if from_id \<in> quorum_voters (pi_quorum inst) then 0 else 1)"
        using qc.result_add [OF q] .
      show ?thesis
      proof (cases "from_id \<in> quorum_voters (pi_quorum inst)")
        case True
        then have "q = pi_quorum inst" using q r by (auto simp: quorum_add_def split: if_splits)
        then have "proposer_receive_promise p ack from_id now =
            Inr (p\<lparr>p_prepare_instances := kh_assign_key ?h ?i inst\<rparr>, None)"
          using 3 look q r True by (simp add: proposer_receive_promise_def Let_def)
        moreover have "kh_map (kh_assign_key ?h ?i inst) = kh_map ?h"
          using asg(2) [of inst] Some by auto
        ultimately show ?thesis using duplicate [OF Some True _ asg(1)] by blast
      next
        case False
        have "proposer_receive_promise p ack from_id now =
            Inr (p\<lparr>p_prepare_instances := kh_assign_key ?h ?i
                    (promise_value_saved (inst\<lparr>pi_quorum := q\<rparr>) ack)\<rparr>, None)"
          using 3 look q r False by (simp add: proposer_receive_promise_def Let_def)
        then show ?thesis using counted [OF Some 3 False _ _ asg refl] q r False by simp
      qed
    qed
  qed
qed

definition valued_pinstance :: "pinstance \<Rightarrow> paxos_value option \<Rightarrow> pinstance" where
  "valued_pinstance inst v = (if pi_value inst = None then inst\<lparr>pi_value := v\<rparr> else inst)"

lemma valued_pinstance_fields [simp]:
  "pi_iid (valued_pinstance inst v) = pi_iid inst"
  "pi_ballot (valued_pinstance inst v) = pi_ballot inst"
  "pi_value (valued_pinstance inst v) = (if pi_value inst = None then v else pi_value inst)"
  "pi_promised_value (valued_pinstance inst v) = pi_promised_value inst"
  "pi_value_ballot (valued_pinstance inst v) = pi_value_ballot inst"
  "pi_quorum (valued_pinstance inst v) = pi_quorum inst"
  by (simp_all add: valued_pinstance_def)

text \<open>The value an accept request carries: the promised one before the client's.\<close>

definition pinst_choice :: "pinstance \<Rightarrow> paxos_value option" where
  "pinst_choice inst =
     (case pi_promised_value inst of Some v \<Rightarrow> Some v | None \<Rightarrow> pi_value inst)"

lemma pinst_choice_votes [simp]:
  "pinst_choice (inst\<lparr>pi_quorum := q\<rparr>) = pinst_choice inst"
  "pinst_choice (inst\<lparr>pi_created_at := t\<rparr>) = pinst_choice inst"
  by (simp_all add: pinst_choice_def split: option.split)

lemma instance_to_accept_eq:
  "pinst_choice inst = Some v \<Longrightarrow>
   instance_to_accept inst =
     Inr \<lparr>accept_iid = pi_iid inst, accept_ballot = pi_ballot inst, accept_value = v\<rparr>"
  by (auto simp: instance_to_accept_def pinst_choice_def instance_has_promised_value_def Let_def
      split: option.splits)

text \<open>
  \<open>proposer_accept\<close> takes the smallest prepared instance, gives it the head of the queue if
  it has no value, and moves it when it has something to propose.
\<close>

lemma accept_cases:
  assumes inv: "proposer_inv p"
  obtains
    (idle) "proposer_accept p = Inr (p, None)"
      "(\<forall>k. kh_map (p_prepare_instances p) k = None) \<or>
       (\<exists>inst. kh_map (p_prepare_instances p) (pi_iid inst) = Some inst \<and>
          (\<forall>k \<in> dom (kh_map (p_prepare_instances p)). pi_iid inst \<le> k) \<and>
          (\<not> quorum_reached (pi_quorum inst) \<or>
           pinst_choice inst = None \<and> carray_list (p_values p) = []))"
  | (accept) inst inst' w v vals f t where
      "kh_map (p_prepare_instances p) (pi_iid inst) = Some inst"
      "\<forall>k \<in> dom (kh_map (p_prepare_instances p)). pi_iid inst \<le> k"
      "quorum_reached (pi_quorum inst)"
      "(if pi_value inst = None then carray_pop_front (p_values p) else (None, p_values p)) = (w, vals)"
      "inst' = votes_cleared (valued_pinstance inst w)" "pinst_choice inst' = Some v"
      "proposer_accept p =
         Inr (p\<lparr>p_values := vals, p_prepare_instances := f, p_accept_instances := t\<rparr>,
              Some \<lparr>accept_iid = pi_iid inst, accept_ballot = pi_ballot inst, accept_value = v\<rparr>)"
      "kh_wf f" "kh_wf t"
      "kh_map f = (kh_map (p_prepare_instances p))(pi_iid inst := None)"
      "kh_map t = (kh_map (p_accept_instances p))(pi_iid inst \<mapsto> inst')"
      "kh_map (p_accept_instances p) (pi_iid inst) = None"
      "mset (kh_entries (p_prepare_instances p)) = mset (kh_entries f) + {#(pi_iid inst, inst)#}"
      "mset (kh_entries t) = mset (kh_entries (p_accept_instances p)) + {#(pi_iid inst, inst')#}"
proof -
  let ?h = "p_prepare_instances p" and ?g = "p_accept_instances p"
  have wf: "kh_wf ?h" and wfg: "kh_wf ?g" and ca: "carray_wf (p_values p)"
    using proposer_invD(2,4,5) [OF inv] by blast+
  have iid: "kh_map ?h k = Some i \<Longrightarrow> pi_iid i = k" for k i
    using proposer_invD(6) [OF inv] by (auto simp: pinst_ok_def)
  have scan: "case smallest_scan (kh_buckets ?h) None of
      None \<Rightarrow> kh_map ?h = Map.empty
    | Some inst \<Rightarrow> kh_map ?h (pi_iid inst) = Some inst \<and> (\<forall>k \<in> dom (kh_map ?h). pi_iid inst \<le> k)"
    by (rule smallest_scan_map [OF wf]) (rule iid)
  show ?thesis
  proof (cases "smallest_scan (kh_buckets ?h) None")
    case None
    show ?thesis
    proof (rule idle)
      show "proposer_accept p = Inr (p, None)" using None by (simp add: proposer_accept_def)
    qed (use None scan in simp)
  next
    case (Some inst)
    then have inst: "kh_map ?h (pi_iid inst) = Some inst" and least: "\<forall>k \<in> dom (kh_map ?h). pi_iid inst \<le> k"
      using scan by auto
    show ?thesis
    proof (cases "quorum_reached (pi_quorum inst)")
      case False
      show ?thesis
      proof (rule idle)
        show "proposer_accept p = Inr (p, None)" using False Some by (simp add: proposer_accept_def)
      qed (use False inst least in blast)
    next
      case reached: True
      obtain w vals where wv:
        "(if pi_value inst = None then carray_pop_front (p_values p) else (None, p_values p)) = (w, vals)"
        by (meson surj_pair)
      define inst1 where "inst1 = valued_pinstance inst w"
      define h1 where "h1 = (if pi_value inst = None then kh_assign_key ?h (pi_iid inst) inst1 else ?h)"
      have h1: "kh_wf h1" "kh_map h1 = (kh_map ?h)(pi_iid inst \<mapsto> inst1)"
        and h1m: "mset (kh_entries h1) + {#(pi_iid inst, inst)#}
                = mset (kh_entries ?h) + {#(pi_iid inst, inst1)#}"
        using kh_assign_key_spec [OF wf inst, of inst1] wf inst
        by (auto simp: h1_def inst1_def valued_pinstance_def)
      have acc: "proposer_accept p =
          (if pinst_choice inst1 = None then Inr (p\<lparr>p_values := vals, p_prepare_instances := h1\<rparr>, None)
           else case proposer_move_instance h1 ?g inst1 of
                  Inl e \<Rightarrow> Inl e
                | Inr (f, t, i) \<Rightarrow>
                    (case instance_to_accept i of
                       Inl e \<Rightarrow> Inl e
                     | Inr out \<Rightarrow> Inr (p\<lparr>p_values := vals, p_prepare_instances := f,
                                           p_accept_instances := t\<rparr>, Some out)))"
        using Some reached wv
        by (auto simp: proposer_accept_def h1_def inst1_def valued_pinstance_def instance_has_value_def
            instance_has_promised_value_def pinst_choice_def Let_def
            split: option.split sum.split)
      show ?thesis
      proof (cases "pinst_choice inst1")
        case None
        then have pv: "pi_value inst = None" "w = None" "pi_promised_value inst = None"
          by (auto simp: pinst_choice_def inst1_def valued_pinstance_def split: option.splits if_splits)
        then have w: "carray_pop_front (p_values p) = (None, vals)" using wv by simp
        then have e: "carray_list (p_values p) = []"
          using carray_pop_front_spec(1) [OF ca] by (auto split: list.splits)
        then have v: "vals = p_values p"
          using w by (auto simp: carray_pop_front_def carray_empty_def carray_list_def split: if_splits)
        have "h1 = kh_assign_key ?h (pi_iid inst) inst"
          using pv by (cases inst) (simp add: h1_def inst1_def valued_pinstance_def)
        also have "\<dots> = ?h" by (rule kh_assign_key_same [OF wf inst])
        finally have res: "proposer_accept p = Inr (p, None)" using acc None v by simp
        have "pinst_choice inst = None" using pv by (simp add: pinst_choice_def)
        then show ?thesis using inst least e res by - (rule idle, blast+)
      next
        case choice: (Some v)
        have iid1: "pi_iid inst1 = pi_iid inst" by (simp add: inst1_def)
        have none: "kh_map ?g (pi_iid inst) = None" using proposer_invD(9) [OF inv inst] .
        have mv: "proposer_move_instance h1 ?g inst1 =
            Inr (kh_del_key h1 (pi_iid inst), kh_put_key ?g (pi_iid inst) (votes_cleared inst1),
                 votes_cleared inst1)"
          using move_instance_spec [OF h1(1) wfg, of inst1] h1(2) none iid1 by simp
        have ch': "pinst_choice (votes_cleared inst1) = Some v"
          using choice by (auto simp: pinst_choice_def split: option.splits)
        have in1: "kh_map h1 (pi_iid inst) = Some inst1" using h1(2) by simp
        note del = kh_del_key_spec [OF h1(1) in1]
        note put = kh_put_key_spec [OF wfg none, of "votes_cleared inst1"]
        show ?thesis
        proof (rule accept [OF inst least reached wv _ ch'])
          show "votes_cleared inst1 = votes_cleared (valued_pinstance inst w)" by (simp add: inst1_def)
          show "proposer_accept p =
             Inr (p\<lparr>p_values := vals, p_prepare_instances := kh_del_key h1 (pi_iid inst),
                    p_accept_instances := kh_put_key ?g (pi_iid inst) (votes_cleared inst1)\<rparr>,
                  Some \<lparr>accept_iid = pi_iid inst, accept_ballot = pi_ballot inst, accept_value = v\<rparr>)"
            using acc mv choice instance_to_accept_eq [OF ch'] by (simp add: inst1_def)
          show "kh_map (kh_del_key h1 (pi_iid inst)) = (kh_map ?h)(pi_iid inst := None)"
            using del(2) h1(2) by simp
          show "mset (kh_entries ?h) = mset (kh_entries (kh_del_key h1 (pi_iid inst))) + {#(pi_iid inst, inst)#}"
            using del(3) h1m by simp
        qed (use del(1) put none in simp_all)
      qed
    qed
  qed
qed

lemma receive_accepted_cases:
  assumes inv: "proposer_inv p" and frm: "0 \<le> from_id" "from_id < p_acceptors p"
  obtains
    (ignored) "proposer_receive_accepted p ack from_id = Inr (p, False)"
  | (counted) inst q h r where "kh_map (p_accept_instances p) (accepted_iid ack) = Some inst"
      "accepted_ballot ack = pi_ballot inst" "quorum_add (pi_quorum inst) from_id = Inr (q, r)"
      "r = 0 \<or> \<not> quorum_reached q"
      "proposer_receive_accepted p ack from_id = Inr (p\<lparr>p_accept_instances := h\<rparr>, r \<noteq> 0)"
      "kh_wf h"
      "kh_map h = (kh_map (p_accept_instances p))(accepted_iid ack \<mapsto> inst\<lparr>pi_quorum := q\<rparr>)"
      "h = kh_assign_key (p_accept_instances p) (accepted_iid ack) (inst\<lparr>pi_quorum := q\<rparr>)"
  | (closed) inst q h where "kh_map (p_accept_instances p) (accepted_iid ack) = Some inst"
      "accepted_ballot ack = pi_ballot inst" "quorum_add (pi_quorum inst) from_id = Inr (q, 1)"
      "from_id \<notin> quorum_voters (pi_quorum inst)" "quorum_reached q"
      "proposer_receive_accepted p ack from_id =
         Inr (p\<lparr>p_values := proposer_requeue (p_values p) inst, p_accept_instances := h\<rparr>, True)"
      "kh_wf h" "kh_map h = (kh_map (p_accept_instances p))(accepted_iid ack := None)"
      "mset (kh_entries (p_accept_instances p)) = mset (kh_entries h) + {#(accepted_iid ack, inst)#}"
proof -
  let ?h = "p_accept_instances p" and ?i = "accepted_iid ack"
  have wf: "kh_wf ?h" using proposer_invD(5) [OF inv] .
  show ?thesis
  proof (cases "kh_map ?h ?i")
    case None
    then show ?thesis using wf by (intro ignored) (simp add: proposer_receive_accepted_def kh.lookup_alpha)
  next
    case (Some inst)
    then have look: "kh_lookup ?h ?i = Some inst" using wf by (simp add: kh.lookup_alpha)
    have pok: "pinst_ok (p_acceptors p) (p_next_prepare_iid p) ?i inst"
      using proposer_invD(7) [OF inv Some] .
    show ?thesis
    proof (cases "accepted_ballot ack = pi_ballot inst")
      case False
      then show ?thesis using look by (intro ignored) (simp add: proposer_receive_accepted_def)
    next
      case same: True
      obtain q r where q: "quorum_add (pi_quorum inst) from_id = Inr (q, r)"
        using qc.add_defined [of "pi_quorum inst" from_id] frm pok by (auto simp: pinst_ok_def)
      have r: "r = (if from_id \<in> quorum_voters (pi_quorum inst) then 0 else 1)"
        using qc.result_add [OF q] .
      show ?thesis
      proof (cases "r = 0 \<or> \<not> quorum_reached q")
        case True
        note asg = kh_assign_key_spec [OF wf Some, of "inst\<lparr>pi_quorum := q\<rparr>"]
        have "proposer_receive_accepted p ack from_id =
            Inr (p\<lparr>p_accept_instances := kh_assign_key ?h ?i (inst\<lparr>pi_quorum := q\<rparr>)\<rparr>, r \<noteq> 0)"
          using True same look q by (auto simp: proposer_receive_accepted_def kh_assign_key_def Let_def)
        then show ?thesis by (rule counted [OF Some same q True _ asg(1,2) refl])
      next
        case False
        then have r1: "r = 1" "from_id \<notin> quorum_voters (pi_quorum inst)" using r by (auto split: if_splits)
        note del = kh_del_key_spec [OF wf Some]
        have "proposer_receive_accepted p ack from_id =
            Inr (p\<lparr>p_values := proposer_requeue (p_values p) inst,
                   p_accept_instances := kh_del_key ?h ?i\<rparr>, True)"
          using False same look q
          by (simp add: proposer_receive_accepted_def kh_del_key_def proposer_requeue_def Let_def)
        then show ?thesis
          using closed [OF Some same _ r1(2) _ _ del] q False r1(1) by blast
      qed
    qed
  qed
qed

lemma receive_preempted_cases:
  assumes inv: "proposer_inv p"
  obtains
    (ignored) "proposer_receive_preempted p ack now = Inr (p, None)"
  | (moved) inst inst' f t where "kh_map (p_accept_instances p) (preempted_iid ack) = Some inst"
      "pi_ballot inst < preempted_ballot ack"
      "inst' = preempted_pinstance p (votes_cleared inst) now"
      "proposer_receive_preempted p ack now =
         Inr (p\<lparr>p_accept_instances := f, p_prepare_instances := t\<rparr>,
              Some \<lparr>prepare_iid = pi_iid inst,
                    prepare_ballot = proposer_next_ballot p (pi_ballot inst)\<rparr>)"
      "kh_wf f" "kh_wf t"
      "kh_map f = (kh_map (p_accept_instances p))(preempted_iid ack := None)"
      "kh_map t = (kh_map (p_prepare_instances p))(preempted_iid ack \<mapsto> inst')"
      "mset (kh_entries (p_accept_instances p)) = mset (kh_entries f) + {#(preempted_iid ack, inst)#}"
      "mset (kh_entries t) = mset (kh_entries (p_prepare_instances p)) + {#(preempted_iid ack, inst')#}"
proof -
  let ?f = "p_accept_instances p" and ?t = "p_prepare_instances p" and ?i = "preempted_iid ack"
  have wf: "kh_wf ?f" "kh_wf ?t" using proposer_invD(4,5) [OF inv] by blast+
  show ?thesis
  proof (cases "kh_map ?f ?i")
    case None
    then show ?thesis using wf by (intro ignored) (simp add: proposer_receive_preempted_def kh.lookup_alpha)
  next
    case (Some inst)
    then have look: "kh_lookup ?f ?i = Some inst" using wf by (simp add: kh.lookup_alpha)
    have iid: "pi_iid inst = ?i" using proposer_invD(7) [OF inv Some] by (simp add: pinst_ok_def)
    have none: "kh_map ?t ?i = None" using proposer_invD(10) [OF inv Some] .
    show ?thesis
    proof (cases "pi_ballot inst < preempted_ballot ack")
      case False
      then show ?thesis using look by (intro ignored) (simp add: proposer_receive_preempted_def)
    next
      case True
      define inst' where "inst' = preempted_pinstance p (votes_cleared inst) now"
      have mv: "proposer_move_instance ?f ?t inst =
          Inr (kh_del_key ?f ?i, kh_put_key ?t ?i (votes_cleared inst), votes_cleared inst)"
        using move_instance_spec [OF wf, of inst] Some none iid by simp
      note del = kh_del_key_spec [OF wf(1) Some]
      note put = kh_put_key_spec [OF wf(2) none, of "votes_cleared inst"]
      have mid: "kh_map (kh_put_key ?t ?i (votes_cleared inst)) ?i = Some (votes_cleared inst)"
        using put(2) by simp
      note asg = kh_assign_key_spec [OF put(1) mid, of inst']
      show ?thesis
      proof (rule moved [OF Some True inst'_def])
        show "proposer_receive_preempted p ack now =
           Inr (p\<lparr>p_accept_instances := kh_del_key ?f ?i,
                  p_prepare_instances := kh_assign_key (kh_put_key ?t ?i (votes_cleared inst)) ?i inst'\<rparr>,
                Some \<lparr>prepare_iid = pi_iid inst,
                      prepare_ballot = proposer_next_ballot p (pi_ballot inst)\<rparr>)"
          using look True mv iid
          by (simp add: proposer_receive_preempted_def proposer_preempt_eq inst'_def)
        show "mset (kh_entries (kh_assign_key (kh_put_key ?t ?i (votes_cleared inst)) ?i inst'))
            = mset (kh_entries ?t) + {#(?i, inst')#}"
          using asg(3) put(3) by simp
      qed (use del asg(1,2) put(2) in simp_all)
    qed
  qed
qed

section \<open>Client values held by a proposer\<close>

definition inst_pending :: "pinstance \<Rightarrow> paxos_value multiset" where
  "inst_pending inst = (case pi_value inst of None \<Rightarrow> {#} | Some v \<Rightarrow> {#v#})"

definition table_pending :: "pinstance khash \<Rightarrow> paxos_value multiset" where
  "table_pending h = (\<Sum>(k, inst) \<in># mset (kh_entries h). inst_pending inst)"

definition proposer_pending :: "proposer \<Rightarrow> paxos_value multiset" where
  "proposer_pending p =
     mset (carray_list (p_values p)) + table_pending (p_prepare_instances p)
     + table_pending (p_accept_instances p)"

lemma table_pending_add:
  "mset (kh_entries h) = mset (kh_entries h') + {#(k, inst)#} \<Longrightarrow>
   table_pending h = table_pending h' + inst_pending inst"
  by (simp add: table_pending_def)

lemma table_pending_assign:
  assumes "kh_wf h" and "kh_map h k = Some inst" and "pi_value inst' = pi_value inst"
  shows "table_pending (kh_assign_key h k inst') = table_pending h"
proof -
  have "table_pending (kh_assign_key h k inst') + inst_pending inst = table_pending h + inst_pending inst'"
    using arg_cong [OF kh_assign_key_spec(3) [OF assms(1,2), of inst'],
        of "\<lambda>M. \<Sum>(k, i) \<in># M. inst_pending i"]
    by (simp add: table_pending_def ac_simps)
  then show ?thesis using assms(3) by (simp add: inst_pending_def)
qed

lemma table_pending_put:
  "kh_wf h \<Longrightarrow> kh_map h k = None \<Longrightarrow>
   table_pending (kh_put_key h k inst) = table_pending h + inst_pending inst"
  by (rule table_pending_add [OF kh_put_key_spec(3)])

section \<open>Trimming\<close>

definition trimmed :: "iid_t \<Rightarrow> pinstance bucket \<Rightarrow> bool" where
  "trimmed iid b \<longleftrightarrow> (case b of KLive k inst \<Rightarrow> pi_iid inst \<le> iid | _ \<Rightarrow> False)"

text \<open>The loop after the buckets below \<open>m\<close>.\<close>

definition trim_upto ::
  "iid_t \<Rightarrow> nat \<Rightarrow> paxos_value carray \<Rightarrow> pinstance khash \<Rightarrow> paxos_value carray \<times> pinstance khash \<Rightarrow> bool" where
  "trim_upto iid m vals h s \<longleftrightarrow>
     kh_wf (snd s) \<and> kh_n_buckets (snd s) = kh_n_buckets h \<and>
     (\<forall>x < kh_n_buckets h. kh_buckets (snd s) ! x =
        (if x < m \<and> trimmed iid (kh_buckets h ! x) then KDeleted else kh_buckets h ! x)) \<and>
     carray_wf (fst s) \<and>
     mset (carray_list (fst s)) + table_pending (snd s) = mset (carray_list vals) + table_pending h"

lemma trim_bucket_upto:
  assumes "trim_upto iid m vals h s" and m: "m < kh_n_buckets h"
  shows "trim_upto iid (Suc m) vals h (trim_bucket iid m s)"
proof -
  obtain v' h' where s: "s = (v', h')" by (cases s)
  have wf: "kh_wf h'" and n: "kh_n_buckets h' = kh_n_buckets h"
    and bs: "\<And>x. x < kh_n_buckets h \<Longrightarrow> kh_buckets h' ! x =
        (if x < m \<and> trimmed iid (kh_buckets h ! x) then KDeleted else kh_buckets h ! x)"
    and ca: "carray_wf v'"
    and pend: "mset (carray_list v') + table_pending h' = mset (carray_list vals) + table_pending h"
    using assms(1) by (auto simp: trim_upto_def s)
  have bm: "kh_buckets h' ! m = kh_buckets h ! m" using bs [OF m] by simp
  show ?thesis
  proof (cases "trimmed iid (kh_buckets h ! m)")
    case True
    then obtain k inst where live: "kh_buckets h' ! m = KLive k inst" "pi_iid inst \<le> iid"
      using bm by (auto simp: trimmed_def split: bucket.splits)
    define v2 where "v2 = (case pi_value inst of None \<Rightarrow> v' | Some v \<Rightarrow> carray_push_back v' v)"
    have tb: "trim_bucket iid m s = (v2, kh_del h' m)"
      using live by (simp add: trim_bucket_def s kh_value_def v2_def)
    have mn: "m < kh_n_buckets h'" using m n by simp
    note del = kh_del_spec [OF wf mn live(1)]
    have len: "length (kh_buckets h') = kh_n_buckets h'" using wf mn by (auto simp: kh_wf_def)
    have hd: "kh_del h' m = h'\<lparr>kh_buckets := (kh_buckets h')[m := KDeleted], kh_size := kh_size h' - 1\<rparr>"
      using live mn by (simp add: kh_del_def)
    have b2: "kh_buckets (kh_del h' m) ! x =
        (if x < Suc m \<and> trimmed iid (kh_buckets h ! x) then KDeleted else kh_buckets h ! x)"
      if "x < kh_n_buckets h" for x
    proof (cases "x = m")
      case True
      then show ?thesis using that len n \<open>trimmed iid (kh_buckets h ! m)\<close> by (simp add: hd)
    next
      case False
      then have "x < Suc m \<longleftrightarrow> x < m" by auto
      then show ?thesis using bs [OF that] False by (simp add: hd)
    qed
    have v2: "carray_wf v2" "mset (carray_list v2) = mset (carray_list v') + inst_pending inst"
      using ca by (auto simp: v2_def inst_pending_def carray_push_back_wf carray_push_back_list
          split: option.split)
    show ?thesis
      using del(1) b2 v2 pend n table_pending_add [OF del(3)]
      by (simp add: trim_upto_def tb hd ac_simps)
  next
    case False
    then have tb: "trim_bucket iid m s = s"
      using bm by (auto simp: trim_bucket_def s kh_value_def trimmed_def split: bucket.splits)
    have "kh_buckets h' ! x =
        (if x < Suc m \<and> trimmed iid (kh_buckets h ! x) then KDeleted else kh_buckets h ! x)"
      if "x < kh_n_buckets h" for x
      using bs [OF that] False by (auto simp: less_Suc_eq)
    then show ?thesis using wf n ca pend by (simp add: trim_upto_def tb) (simp add: s)
  qed
qed

lemma trim_upto_all:
  assumes "kh_wf h" and "carray_wf vals" and "m \<le> kh_n_buckets h"
  shows "trim_upto iid m vals h (fold (trim_bucket iid) [0..<m] (vals, h))"
  using assms(3)
proof (induction m)
  case 0
  then show ?case using assms(1,2) by (simp add: trim_upto_def)
next
  case (Suc m)
  then show ?case using trim_bucket_upto [of iid m vals h] by simp
qed

lemma kh_map_bucket:
  assumes "kh_wf h"
  shows "kh_map h k = Some v \<longleftrightarrow> (\<exists>x < kh_n_buckets h. kh_buckets h ! x = KLive k v)"
proof -
  have "length (kh_buckets h) = kh_n_buckets h" using assms by (auto simp: kh_wf_def split: if_splits)
  then show ?thesis
    using kh_entries_map [OF assms, of k v] by (simp add: kh_entries_def in_entries_iff)
qed

lemma trim_instances_spec:
  assumes wf: "kh_wf h" and ca: "carray_wf vals"
    and iids: "\<And>k inst. kh_map h k = Some inst \<Longrightarrow> pi_iid inst = k"
    and t: "proposer_trim_instances vals h iid = (vals', h')"
  shows "kh_wf h'" and "carray_wf vals'" and "kh_map h' = (\<lambda>k. if k \<le> iid then None else kh_map h k)"
    and "mset (carray_list vals') + table_pending h' = mset (carray_list vals) + table_pending h"
proof -
  have up: "trim_upto iid (kh_n_buckets h) vals h (vals', h')"
    using trim_upto_all [OF wf ca order_refl, of iid] t by (simp add: proposer_trim_instances_def)
  then show wf': "kh_wf h'" and "carray_wf vals'"
    and "mset (carray_list vals') + table_pending h' = mset (carray_list vals) + table_pending h"
    by (simp_all add: trim_upto_def)
  have n: "kh_n_buckets h' = kh_n_buckets h"
    and bs: "\<And>x. x < kh_n_buckets h \<Longrightarrow> kh_buckets h' ! x =
        (if trimmed iid (kh_buckets h ! x) then KDeleted else kh_buckets h ! x)"
    using up by (simp_all add: trim_upto_def)
  have iff: "kh_map h' k = Some v \<longleftrightarrow> \<not> k \<le> iid \<and> kh_map h k = Some v" for k v
  proof -
    have "kh_buckets h' ! x = KLive k v \<longleftrightarrow> \<not> k \<le> iid \<and> kh_buckets h ! x = KLive k v"
      if x: "x < kh_n_buckets h" for x
    proof -
      have "kh_buckets h ! x = KLive k v \<Longrightarrow> pi_iid v = k"
        using iids kh_map_bucket [OF wf, of k v] x by blast
      then show ?thesis
        by (cases "kh_buckets h ! x") (auto simp: bs [OF x] trimmed_def)
    qed
    then show ?thesis
      unfolding kh_map_bucket [OF wf'] kh_map_bucket [OF wf] n by blast
  qed
  show "kh_map h' = (\<lambda>k. if k \<le> iid then None else kh_map h k)"
  proof
    fix k
    show "kh_map h' k = (if k \<le> iid then None else kh_map h k)"
      using iff [of k] by (metis option.exhaust)
  qed
qed

section \<open>The handlers keep the invariant and the client values\<close>

lemma table_pending_in:
  assumes "kh_wf h" and "v \<in># table_pending h"
  shows "\<exists>k inst. kh_map h k = Some inst \<and> pi_value inst = Some v"
proof -
  obtain e where e: "e \<in> set (kh_entries h)" "v \<in># inst_pending (snd e)"
    using assms(2) by (auto simp: table_pending_def in_Union_mset_iff split_beta)
  then have "(fst e, snd e) \<in> set (kh_entries h)" "pi_value (snd e) = Some v"
    by (simp_all add: inst_pending_def split: option.splits)
  then have "kh_map h (fst e) = Some (snd e)" using e(1) kh_entries_map [OF assms(1), of "fst e" "snd e"] by simp
  then show ?thesis using \<open>pi_value (snd e) = Some v\<close> by blast
qed

lemma pending_wf:
  assumes "proposer_inv p" and "v \<in># proposer_pending p"
  shows "value_wf v"
proof -
  consider "v \<in> set (carray_list (p_values p))" | "v \<in># table_pending (p_prepare_instances p)"
    | "v \<in># table_pending (p_accept_instances p)"
    using assms(2) by (auto simp: proposer_pending_def)
  then show ?thesis
  proof cases
    case 1
    then show ?thesis using proposer_invD(3) [OF assms(1)] by blast
  next
    case 2
    then show ?thesis
      using table_pending_in [OF proposer_invD(4) [OF assms(1)]] proposer_invD(6) [OF assms(1)]
      by (force simp: pinst_ok_def)
  next
    case 3
    then show ?thesis
      using table_pending_in [OF proposer_invD(5) [OF assms(1)]] proposer_invD(7) [OF assms(1)]
      by (force simp: pinst_ok_def)
  qed
qed

lemma proposer_invI:
  assumes "0 \<le> p_acceptors p" and "carray_wf (p_values p)"
    and "\<And>v. v \<in> set (carray_list (p_values p)) \<Longrightarrow> value_wf v"
    and "kh_wf (p_prepare_instances p)" and "kh_wf (p_accept_instances p)"
    and "\<And>k inst. kh_map (p_prepare_instances p) k = Some inst \<Longrightarrow>
           pinst_ok (p_acceptors p) (p_next_prepare_iid p) k inst \<and>
           kh_map (p_accept_instances p) k = None"
    and "\<And>k inst. kh_map (p_accept_instances p) k = Some inst \<Longrightarrow>
           pinst_ok (p_acceptors p) (p_next_prepare_iid p) k inst \<and>
           (instance_has_value inst \<or> instance_has_promised_value inst)"
  shows "proposer_inv p"
proof -
  have "dom (kh_map (p_prepare_instances p)) \<inter> dom (kh_map (p_accept_instances p)) = {}"
    using assms(6) by fastforce
  then show ?thesis unfolding proposer_inv_def using assms by blast
qed

text \<open>Replacing an instance in place.\<close>

lemma proposer_inv_prepare_update:
  assumes inv: "proposer_inv p" and inst: "kh_map (p_prepare_instances p) k = Some inst"
    and ok: "pinst_ok (p_acceptors p) (p_next_prepare_iid p) k inst'"
    and h: "kh_wf h" "kh_map h = (kh_map (p_prepare_instances p))(k \<mapsto> inst')"
  shows "proposer_inv (p\<lparr>p_prepare_instances := h\<rparr>)"
proof (rule proposer_invI)
  fix j i
  assume "kh_map (p_prepare_instances (p\<lparr>p_prepare_instances := h\<rparr>)) j = Some i"
  then show "pinst_ok (p_acceptors (p\<lparr>p_prepare_instances := h\<rparr>))
       (p_next_prepare_iid (p\<lparr>p_prepare_instances := h\<rparr>)) j i \<and>
      kh_map (p_accept_instances (p\<lparr>p_prepare_instances := h\<rparr>)) j = None"
    using proposer_invD(6,9) [OF inv] inst ok h(2) by (auto split: if_splits)
next
  fix j i
  assume "kh_map (p_accept_instances (p\<lparr>p_prepare_instances := h\<rparr>)) j = Some i"
  then show "pinst_ok (p_acceptors (p\<lparr>p_prepare_instances := h\<rparr>))
       (p_next_prepare_iid (p\<lparr>p_prepare_instances := h\<rparr>)) j i \<and>
      (instance_has_value i \<or> instance_has_promised_value i)"
    using proposer_invD(7,8) [OF inv] by auto
qed (use proposer_invD(1-5) [OF inv] h(1) in auto)

lemma proposer_inv_accept_update:
  assumes inv: "proposer_inv p" and inst: "kh_map (p_accept_instances p) k = Some inst"
    and ok: "pinst_ok (p_acceptors p) (p_next_prepare_iid p) k inst'"
    and val: "pi_value inst' = pi_value inst" "pi_promised_value inst' = pi_promised_value inst"
    and h: "kh_wf h" "kh_map h = (kh_map (p_accept_instances p))(k \<mapsto> inst')"
  shows "proposer_inv (p\<lparr>p_accept_instances := h\<rparr>)"
proof (rule proposer_invI)
  have none: "kh_map (p_prepare_instances p) k = None" using proposer_invD(10) [OF inv inst] .
  fix j i
  assume "kh_map (p_prepare_instances (p\<lparr>p_accept_instances := h\<rparr>)) j = Some i"
  then show "pinst_ok (p_acceptors (p\<lparr>p_accept_instances := h\<rparr>))
       (p_next_prepare_iid (p\<lparr>p_accept_instances := h\<rparr>)) j i \<and>
      kh_map (p_accept_instances (p\<lparr>p_accept_instances := h\<rparr>)) j = None"
    using proposer_invD(6,9) [OF inv] none h(2) by auto
next
  have hv: "instance_has_value inst' \<or> instance_has_promised_value inst'"
    using proposer_invD(8) [OF inv inst] val by (simp add: instance_has_value_def instance_has_promised_value_def)
  fix j i
  assume "kh_map (p_accept_instances (p\<lparr>p_accept_instances := h\<rparr>)) j = Some i"
  then show "pinst_ok (p_acceptors (p\<lparr>p_accept_instances := h\<rparr>))
       (p_next_prepare_iid (p\<lparr>p_accept_instances := h\<rparr>)) j i \<and>
      (instance_has_value i \<or> instance_has_promised_value i)"
    using proposer_invD(7,8) [OF inv] ok hv h(2) by (auto split: if_splits)
qed (use proposer_invD(1-5) [OF inv] h(1) in auto)

lemma prepare_inv:
  assumes inv: "proposer_inv p" and nw: "p_next_prepare_iid p \<noteq> -1"
    and pr: "proposer_prepare p now = Inr (p', out)"
  shows "proposer_inv p' \<and> proposer_pending p' = proposer_pending p"
proof -
  define i where "i = p_next_prepare_iid p + 1"
  let ?h = "kh_put_key (p_prepare_instances p) i (fresh_pinstance p now)"
  have p': "p' = p\<lparr>p_next_prepare_iid := i, p_prepare_instances := ?h\<rparr>"
    using pr prepare_eq [OF inv nw, of now] by (simp add: i_def)
  note wf = proposer_invD(4) [OF inv]
  note none = prepare_key_fresh [OF inv nw, folded i_def]
  note put = kh_put_key_spec [OF wf none(1), of "fresh_pinstance p now"]
  have le: "p_next_prepare_iid p \<le> i" "0 < i"
    using word_less_plus1_self [OF nw] by (auto simp: i_def word_gt_0 intro: order.strict_implies_order)
  have new: "pinst_ok (p_acceptors p) i i (fresh_pinstance p now)"
    using le(2) quorum_init_wf [OF proposer_invD(1) [OF inv]] by (simp add: pinst_ok_def i_def)
  have "proposer_inv p'"
    unfolding p'
  proof (rule proposer_invI; simp)
    fix k inst
    assume "kh_map ?h k = Some inst"
    then show "pinst_ok (p_acceptors p) i k inst \<and> kh_map (p_accept_instances p) k = None"
      using put(2) new none(2) pinst_ok_top [OF proposer_invD(6) [OF inv] le(1)] proposer_invD(9) [OF inv]
      by (auto split: if_splits)
  next
    fix k inst
    assume "kh_map (p_accept_instances p) k = Some inst"
    then show "pinst_ok (p_acceptors p) i k inst \<and>
        (instance_has_value inst \<or> instance_has_promised_value inst)"
      using pinst_ok_top [OF proposer_invD(7) [OF inv] le(1)] proposer_invD(8) [OF inv] by blast
  qed (use proposer_invD(1-5) [OF inv] put(1) in auto)
  moreover have "table_pending ?h = table_pending (p_prepare_instances p)"
    using table_pending_put [OF wf none(1)] by (simp add: inst_pending_def)
  ultimately show ?thesis by (simp add: proposer_pending_def p')
qed

lemma pinst_ok_counted:
  assumes "pinst_ok n hi k inst" and "quorum_add (pi_quorum inst) from_id = Inr (q, r)"
  shows "pinst_ok n hi k (inst\<lparr>pi_quorum := q\<rparr>)"
  using assms(1) qc.invar_add [OF _ assms(2)] qc.total_add [OF assms(2)] by (simp add: pinst_ok_def)

lemma pinst_ok_saved:
  assumes "pinst_ok n hi k inst" and "value_wf (promise_value ack)"
  shows "pinst_ok n hi k (promise_value_saved inst ack)"
  using assms promise_value_saved_value [OF assms(2), of inst] by (simp add: pinst_ok_def)

lemma receive_promise_inv:
  assumes inv: "proposer_inv p" and wf: "value_wf (promise_value ack)"
    and frm: "0 \<le> from_id" "from_id < p_acceptors p"
    and rcv: "proposer_receive_promise p ack from_id now = Inr (p', out)"
  shows "proposer_inv p' \<and> proposer_pending p' = proposer_pending p"
  using inv frm
proof (cases rule: receive_promise_cases [of p from_id ack now])
  case dropped
  then show ?thesis using rcv inv by simp
next
  case (preempted inst h)
  have p': "p' = p\<lparr>p_prepare_instances := h\<rparr>" using rcv preempted(3) by simp
  have "proposer_inv p'"
    unfolding p' using proposer_inv_prepare_update [OF inv preempted(1) _ preempted(4,5)]
      pinst_ok_preempted [OF proposer_invD(6) [OF inv preempted(1)]] by blast
  moreover have "table_pending h = table_pending (p_prepare_instances p)"
    using table_pending_assign [OF proposer_invD(4) [OF inv] preempted(1)] preempted(6) by simp
  ultimately show ?thesis by (simp add: proposer_pending_def p')
next
  case (duplicate inst h)
  have p': "p' = p\<lparr>p_prepare_instances := h\<rparr>" using rcv duplicate(3) by simp
  have "kh_map h = (kh_map (p_prepare_instances p))(promise_iid ack \<mapsto> inst)"
    using duplicate(1,5) by auto
  then have "proposer_inv p'"
    unfolding p' using proposer_inv_prepare_update [OF inv duplicate(1) _ duplicate(4)]
      proposer_invD(6) [OF inv duplicate(1)] by blast
  moreover have "table_pending h = table_pending (p_prepare_instances p)"
    using table_pending_assign [OF proposer_invD(4) [OF inv] duplicate(1) refl] duplicate(6) by simp
  ultimately show ?thesis by (simp add: proposer_pending_def p')
next
  case (counted inst q h)
  have p': "p' = p\<lparr>p_prepare_instances := h\<rparr>" using rcv counted(5) by simp
  have "proposer_inv p'"
    unfolding p' using proposer_inv_prepare_update [OF inv counted(1) _ counted(6,7)]
      pinst_ok_saved [OF pinst_ok_counted [OF proposer_invD(6) [OF inv counted(1)] counted(4)] wf] by blast
  moreover have "table_pending h = table_pending (p_prepare_instances p)"
    using table_pending_assign [OF proposer_invD(4) [OF inv] counted(1)] counted(8) by simp
  ultimately show ?thesis by (simp add: proposer_pending_def p')
qed

lemma pop_front_wf_values:
  assumes "carray_wf a" and "carray_pop_front a = (w, a')"
    and "\<And>v. v \<in> set (carray_list a) \<Longrightarrow> value_wf v"
  shows "carray_wf a'" and "\<And>v. v \<in> set (carray_list a') \<Longrightarrow> value_wf v"
    and "\<And>v. w = Some v \<Longrightarrow> value_wf v"
    and "mset (carray_list a) = mset (carray_list a') + (case w of None \<Rightarrow> {#} | Some v \<Rightarrow> {#v#})"
proof -
  show "carray_wf a'" using carray_pop_front_wf [OF assms(1)] assms(2) by simp
  have w: "w = (case carray_list a of [] \<Rightarrow> None | x # _ \<Rightarrow> Some x)" and t: "carray_list a' = tl (carray_list a)"
    using carray_pop_front_spec [OF assms(1)] assms(2) by simp_all
  show "\<And>v. v \<in> set (carray_list a') \<Longrightarrow> value_wf v"
    using assms(3) t by (metis list.set_sel(2) tl_Nil)
  show "\<And>v. w = Some v \<Longrightarrow> value_wf v" using w assms(3) by (auto split: list.splits)
  show "mset (carray_list a) = mset (carray_list a') + (case w of None \<Rightarrow> {#} | Some v \<Rightarrow> {#v#})"
    using ca.pop_mset [OF assms(1,2)] .
qed

lemma accept_inv:
  assumes inv: "proposer_inv p" and acc: "proposer_accept p = Inr (p', out)"
  shows "proposer_inv p' \<and> proposer_pending p' = proposer_pending p"
  using inv
proof (cases rule: accept_cases)
  case idle
  then show ?thesis using acc inv by simp
next
  case (accept inst inst' w v vals f t)
  have p': "p' = p\<lparr>p_values := vals, p_prepare_instances := f, p_accept_instances := t\<rparr>"
    using acc accept(7) by simp
  note q = proposer_invD(2,3) [OF inv]
  have vals: "carray_wf vals" "\<And>x. x \<in> set (carray_list vals) \<Longrightarrow> value_wf x"
      "\<And>x. w = Some x \<Longrightarrow> value_wf x"
      "mset (carray_list (p_values p)) = mset (carray_list vals) + (case w of None \<Rightarrow> {#} | Some v \<Rightarrow> {#v#})"
      "pi_value inst \<noteq> None \<Longrightarrow> w = None"
    using pop_front_wf_values [OF q(1) _ q(2), of w vals] q accept(4) by (auto split: if_splits)
  have iok: "pinst_ok (p_acceptors p) (p_next_prepare_iid p) (pi_iid inst) inst"
    using proposer_invD(6) [OF inv accept(1)] .
  have "pinst_ok (p_acceptors p) (p_next_prepare_iid p) (pi_iid inst) (valued_pinstance inst w)"
    using iok vals(3) by (auto simp: pinst_ok_def)
  then have iok': "pinst_ok (p_acceptors p) (p_next_prepare_iid p) (pi_iid inst) inst'"
    unfolding accept(5) by (rule pinst_ok_cleared)
  have hv: "instance_has_value inst' \<or> instance_has_promised_value inst'"
    using accept(6) by (auto simp: pinst_choice_def instance_has_value_def instance_has_promised_value_def
        split: option.splits)
  have "proposer_inv p'"
    unfolding p'
  proof (rule proposer_invI; simp)
    fix k i
    assume "kh_map f k = Some i"
    then show "pinst_ok (p_acceptors p) (p_next_prepare_iid p) k i \<and> kh_map t k = None"
      using accept(10,11) proposer_invD(6,9) [OF inv] by (auto split: if_splits)
  next
    fix k i
    assume "kh_map t k = Some i"
    then show "pinst_ok (p_acceptors p) (p_next_prepare_iid p) k i \<and>
        (instance_has_value i \<or> instance_has_promised_value i)"
      using accept(11) iok' hv proposer_invD(7,8) [OF inv] by (auto split: if_splits)
  qed (use proposer_invD(1) [OF inv] vals(1,2) accept(8,9) in auto)
  moreover have "inst_pending inst' = inst_pending inst + (case w of None \<Rightarrow> {#} | Some v \<Rightarrow> {#v#})"
    using vals(5) by (auto simp: accept(5) inst_pending_def split: option.split)
  then have "proposer_pending p' = proposer_pending p"
    using table_pending_add [OF accept(13)] table_pending_add [OF accept(14)] vals(4)
    by (simp add: proposer_pending_def p' ac_simps)
  ultimately show ?thesis by simp
qed

text \<open>
  A client value leaves a proposer in one way only: its instance is closed by a quorum and
  no other value was promised.
\<close>

definition own_value_closed :: "pinstance \<Rightarrow> paxos_value multiset" where
  "own_value_closed inst =
     (case (pi_value inst, pi_promised_value inst) of
        (Some v, None) \<Rightarrow> {#v#}
      | (Some v, Some pv) \<Rightarrow> if paxos_value_cmp v pv = 0 then {#v#} else {#}
      | _ \<Rightarrow> {#})"

lemma requeue_spec:
  assumes "carray_wf vals"
  shows "carray_wf (proposer_requeue vals inst)"
    and "set (carray_list (proposer_requeue vals inst)) \<subseteq>
         set (carray_list vals) \<union> set_option (pi_value inst)"
    and "mset (carray_list (proposer_requeue vals inst)) + own_value_closed inst =
         mset (carray_list vals) + inst_pending inst"
  using assms
  by (auto simp: proposer_requeue_def own_value_closed_def inst_pending_def carray_push_back_wf
      carray_push_back_list split: option.split)

lemma receive_accepted_inv:
  assumes inv: "proposer_inv p" and frm: "0 \<le> from_id" "from_id < p_acceptors p"
    and rcv: "proposer_receive_accepted p ack from_id = Inr (p', counts)"
  shows "proposer_inv p' \<and>
     (proposer_pending p' = proposer_pending p \<or>
      (\<exists>inst. kh_map (p_accept_instances p) (accepted_iid ack) = Some inst \<and>
         accepted_ballot ack = pi_ballot inst \<and>
         kh_map (p_accept_instances p') (accepted_iid ack) = None \<and>
         proposer_pending p' + own_value_closed inst = proposer_pending p))"
  using inv frm
proof (cases rule: receive_accepted_cases [of p from_id ack])
  case ignored
  then show ?thesis using rcv inv by simp
next
  case (counted inst q h r)
  have p': "p' = p\<lparr>p_accept_instances := h\<rparr>" using rcv counted(5) by simp
  have "proposer_inv p'"
    unfolding p' using counted(6,7) pinst_ok_counted [OF proposer_invD(7) [OF inv counted(1)] counted(3)]
    by (intro proposer_inv_accept_update [OF inv counted(1)]) auto
  moreover have "table_pending h = table_pending (p_accept_instances p)"
    using table_pending_assign [OF proposer_invD(5) [OF inv] counted(1)] counted(8) by simp
  ultimately show ?thesis by (simp add: proposer_pending_def p')
next
  case (closed inst q h)
  have p': "p' = p\<lparr>p_values := proposer_requeue (p_values p) inst, p_accept_instances := h\<rparr>"
    using rcv closed(6) by simp
  note iok = proposer_invD(7) [OF inv closed(1)]
  note rq = requeue_spec [OF proposer_invD(2) [OF inv], of inst]
  have "proposer_inv p'"
    unfolding p'
  proof (rule proposer_invI; simp)
    fix v
    assume "v \<in> set (carray_list (proposer_requeue (p_values p) inst))"
    then show "value_wf v" using rq(2) iok proposer_invD(3) [OF inv] by (auto simp: pinst_ok_def)
  next
    fix k i
    assume "kh_map (p_prepare_instances p) k = Some i"
    then show "pinst_ok (p_acceptors p) (p_next_prepare_iid p) k i \<and> kh_map h k = None"
      using closed(8) proposer_invD(6,9) [OF inv] by auto
  next
    fix k i
    assume "kh_map h k = Some i"
    then show "pinst_ok (p_acceptors p) (p_next_prepare_iid p) k i \<and>
        (instance_has_value i \<or> instance_has_promised_value i)"
      using closed(8) proposer_invD(7,8) [OF inv] by (auto split: if_splits)
  qed (use proposer_invD(1,4) [OF inv] rq(1) closed(7) in auto)
  moreover have "proposer_pending p' + own_value_closed inst = proposer_pending p"
    using table_pending_add [OF closed(9)] rq(3)
    by (simp add: proposer_pending_def p' ac_simps)
  ultimately show ?thesis using closed(1,2,8) by (auto simp: p')
qed

text \<open>
  What an accepted message does to the value of its instance: the first message that completes a
  majority of votes at the instance's ballot closes it, and every other leaves all values.
\<close>

definition accepted_step :: "proposer \<Rightarrow> paxos_accepted \<Rightarrow> int \<Rightarrow> proposer \<Rightarrow> bool" where
  "accepted_step p ack a p' \<longleftrightarrow>
     (case kh_map (p_accept_instances p) (accepted_iid ack) of
        None \<Rightarrow> p' = p
      | Some inst \<Rightarrow>
          if accepted_ballot ack \<noteq> pi_ballot inst then p' = p
          else if a \<notin> quorum_voters (pi_quorum inst) \<and> majority (p_acceptors p) (insert a (quorum_voters (pi_quorum inst)))
            then kh_map (p_accept_instances p') = (kh_map (p_accept_instances p))(accepted_iid ack := None) \<and>
              proposer_pending p' + own_value_closed inst = proposer_pending p
          else proposer_pending p' = proposer_pending p \<and>
            (\<exists>q. quorum_voters q = insert a (quorum_voters (pi_quorum inst)) \<and>
               kh_map (p_accept_instances p') =
                 (kh_map (p_accept_instances p))(accepted_iid ack \<mapsto> inst\<lparr>pi_quorum := q\<rparr>)))"

lemma receive_accepted_step:
  assumes inv: "proposer_inv p" and frm: "0 \<le> from_id" "from_id < p_acceptors p"
    and rcv: "proposer_receive_accepted p ack from_id = Inr (p', counts)"
  shows "accepted_step p ack from_id p'"
proof -
  have maj: "quorum_reached q \<longleftrightarrow> majority (p_acceptors p) (insert from_id (quorum_voters (pi_quorum inst)))"
    if "kh_map (p_accept_instances p) (accepted_iid ack) = Some inst" "quorum_add (pi_quorum inst) from_id = Inr (q, r)"
    for inst q r
  proof -
    have "quorum_wf (pi_quorum inst)" "q_acceptors (pi_quorum inst) = p_acceptors p"
      using proposer_invD(7) [OF inv that(1)] by (simp_all add: pinst_ok_def)
    then show ?thesis
      using qc.reached_majority [OF qc.invar_add [OF _ that(2)]] qc.total_add [OF that(2)] qc.voters_add [OF that(2)] by simp
  qed
  show ?thesis
    using inv frm
  proof (cases rule: receive_accepted_cases [of p from_id ack])
    case ignored
    have "p' = p" using rcv ignored by simp
    moreover have "accepted_ballot ack \<noteq> pi_ballot inst \<or> from_id \<in> quorum_voters (pi_quorum inst)"
      if k: "kh_map (p_accept_instances p) (accepted_iid ack) = Some inst" for inst
    proof (rule ccontr)
      assume n: "\<not> ?thesis"
      obtain q r where q: "quorum_add (pi_quorum inst) from_id = Inr (q, r)"
        using qc.add_defined [of "pi_quorum inst" from_id] frm proposer_invD(7) [OF inv k] by (auto simp: pinst_ok_def)
      have "kh_lookup (p_accept_instances p) (accepted_iid ack) = Some inst"
        using proposer_invD(5) [OF inv] k by (simp add: kh.lookup_alpha)
      moreover have "r = 1" using n qc.result_add [OF q] by simp
      ultimately show False
        using n q ignored by (simp add: proposer_receive_accepted_def Let_def split: if_splits)
    qed
    moreover have "\<exists>q. quorum_voters q = insert from_id (quorum_voters (pi_quorum inst)) \<and>
        kh_map (p_accept_instances p) = (kh_map (p_accept_instances p))(accepted_iid ack \<mapsto> inst\<lparr>pi_quorum := q\<rparr>)"
      if "kh_map (p_accept_instances p) (accepted_iid ack) = Some inst" "from_id \<in> quorum_voters (pi_quorum inst)" for inst
      using that by (intro exI [of _ "pi_quorum inst"]) (simp add: insert_absorb fun_upd_idem)
    ultimately show ?thesis unfolding accepted_step_def by (auto split: option.split)
  next
    case (counted inst q h r)
    have p': "p' = p\<lparr>p_accept_instances := h\<rparr>" using rcv counted(5) by simp
    have "table_pending h = table_pending (p_accept_instances p)"
      using table_pending_assign [OF proposer_invD(5) [OF inv] counted(1)] counted(8) by simp
    then have "proposer_pending p' = proposer_pending p" by (simp add: proposer_pending_def p')
    moreover have "\<not> (from_id \<notin> quorum_voters (pi_quorum inst) \<and> majority (p_acceptors p) (insert from_id (quorum_voters (pi_quorum inst))))"
      using counted(4) maj [OF counted(1,3)] qc.result_add [OF counted(3)] by auto
    ultimately show ?thesis
      using counted(1,2,7) qc.voters_add [OF counted(3)] by (auto simp: accepted_step_def p')
  next
    case (closed inst q h)
    have p': "p' = p\<lparr>p_values := proposer_requeue (p_values p) inst, p_accept_instances := h\<rparr>"
      using rcv closed(6) by simp
    have "proposer_pending p' + own_value_closed inst = proposer_pending p"
      using table_pending_add [OF closed(9)] requeue_spec(3) [OF proposer_invD(2) [OF inv], of inst]
      by (simp add: proposer_pending_def p' ac_simps)
    then show ?thesis
      using closed(1,2,4,5,8) maj [OF closed(1,3)] by (simp add: accepted_step_def p')
  qed
qed

lemma receive_preempted_inv:
  assumes inv: "proposer_inv p" and rcv: "proposer_receive_preempted p ack now = Inr (p', out)"
  shows "proposer_inv p' \<and> proposer_pending p' = proposer_pending p"
  using inv
proof (cases rule: receive_preempted_cases [of p ack now])
  case ignored
  then show ?thesis using rcv inv by simp
next
  case (moved inst inst' f t)
  have p': "p' = p\<lparr>p_accept_instances := f, p_prepare_instances := t\<rparr>" using rcv moved(4) by simp
  note iok = pinst_ok_preempted [OF pinst_ok_cleared [OF proposer_invD(7) [OF inv moved(1)]], of p now,
      folded moved(3)]
  have "proposer_inv p'"
    unfolding p'
  proof (rule proposer_invI; simp)
    fix k i
    assume "kh_map t k = Some i"
    then show "pinst_ok (p_acceptors p) (p_next_prepare_iid p) k i \<and> kh_map f k = None"
      using moved(7,8) iok proposer_invD(6,9) [OF inv] by (auto split: if_splits)
  next
    fix k i
    assume "kh_map f k = Some i"
    then show "pinst_ok (p_acceptors p) (p_next_prepare_iid p) k i \<and>
        (instance_has_value i \<or> instance_has_promised_value i)"
      using moved(7) proposer_invD(7,8) [OF inv] by (auto split: if_splits)
  qed (use proposer_invD(1-3) [OF inv] moved(5,6) in auto)
  moreover have "inst_pending inst' = inst_pending inst" by (simp add: moved(3) inst_pending_def)
  ultimately show ?thesis
    using table_pending_add [OF moved(9)] table_pending_add [OF moved(10)]
    by (simp add: proposer_pending_def p' ac_simps)
qed

text \<open>Trimming drops the instances up to the trim point and queues their client values again.\<close>

lemma receive_acceptor_state_inv:
  fixes p :: proposer and st :: paxos_acceptor_state
  assumes inv: "proposer_inv p"
  defines "p' \<equiv> proposer_receive_acceptor_state p st"
  defines "tr \<equiv> state_trim_iid st"
  shows "proposer_inv p'" and "proposer_pending p' = proposer_pending p"
    and "p_next_prepare_iid p \<le> p_next_prepare_iid p'" and "p_acceptors p' = p_acceptors p"
    and "p_id p' = p_id p"
    and "p_max_trim_iid p \<le> tr \<Longrightarrow>
           kh_map (p_prepare_instances p') = (\<lambda>k. if k \<le> tr then None else kh_map (p_prepare_instances p) k) \<and>
           kh_map (p_accept_instances p') = (\<lambda>k. if k \<le> tr then None else kh_map (p_accept_instances p) k)"
    and "tr < p_max_trim_iid p \<Longrightarrow> p' = p"
proof -
  obtain v1 h where t1: "proposer_trim_instances (p_values p) (p_prepare_instances p) tr = (v1, h)"
    by (cases "proposer_trim_instances (p_values p) (p_prepare_instances p) tr")
  obtain v2 g where t2: "proposer_trim_instances v1 (p_accept_instances p) tr = (v2, g)"
    by (cases "proposer_trim_instances v1 (p_accept_instances p) tr")
  define nx where "nx = max (p_next_prepare_iid p) tr"
  have eq: "p' = (if tr < p_max_trim_iid p then p
      else p\<lparr>p_max_trim_iid := tr, p_next_prepare_iid := nx, p_values := v2,
             p_prepare_instances := h, p_accept_instances := g\<rparr>)"
    using t1 t2
    by (cases p) (auto simp: p'_def tr_def nx_def proposer_receive_acceptor_state_def max_def Let_def)
  have i1: "\<And>k i. kh_map (p_prepare_instances p) k = Some i \<Longrightarrow> pi_iid i = k"
    and i2: "\<And>k i. kh_map (p_accept_instances p) k = Some i \<Longrightarrow> pi_iid i = k"
    using proposer_invD(6,7) [OF inv] by (auto simp: pinst_ok_def)
  note s1 = trim_instances_spec [OF proposer_invD(4,2) [OF inv] i1 t1]
  note s2 = trim_instances_spec [OF proposer_invD(5) [OF inv] s1(2) i2 t2]
  have le: "p_next_prepare_iid p \<le> nx" by (simp add: nx_def)
  show pend: "proposer_pending p' = proposer_pending p"
  proof (cases "tr < p_max_trim_iid p")
    case True
    then show ?thesis by (simp add: eq)
  next
    case False
    have "proposer_pending p' = mset (carray_list v2) + table_pending g + table_pending h"
      using False by (simp add: eq proposer_pending_def ac_simps)
    also have "\<dots> = (mset (carray_list v1) + table_pending h) + table_pending (p_accept_instances p)"
      using s2(4) by (simp add: ac_simps)
    also have "\<dots> = proposer_pending p" using s1(4) by (simp add: proposer_pending_def)
    finally show ?thesis .
  qed
  show "p_next_prepare_iid p \<le> p_next_prepare_iid p'" using le by (simp add: eq)
  show "p_acceptors p' = p_acceptors p" and "p_id p' = p_id p" by (simp_all add: eq)
  show "p_max_trim_iid p \<le> tr \<Longrightarrow>
      kh_map (p_prepare_instances p') = (\<lambda>k. if k \<le> tr then None else kh_map (p_prepare_instances p) k) \<and>
      kh_map (p_accept_instances p') = (\<lambda>k. if k \<le> tr then None else kh_map (p_accept_instances p) k)"
    using s1(3) s2(3) by (auto simp: eq)
  show "tr < p_max_trim_iid p \<Longrightarrow> p' = p" by (simp add: eq)
  show "proposer_inv p'"
  proof (cases "tr < p_max_trim_iid p")
    case True
    then show ?thesis using inv by (simp add: eq)
  next
    case False
    have vals: "value_wf v" if v: "v \<in> set (carray_list v2)" for v
    proof -
      have "v \<in># proposer_pending p'" using v False by (simp add: eq proposer_pending_def)
      then show ?thesis using pending_wf [OF inv] pend by simp
    qed
    have p2: "p' = p\<lparr>p_max_trim_iid := tr, p_next_prepare_iid := nx, p_values := v2,
             p_prepare_instances := h, p_accept_instances := g\<rparr>" using False by (simp add: eq)
    show ?thesis
      unfolding p2
    proof (rule proposer_invI; simp)
      fix k i
      assume "kh_map h k = Some i"
      then show "pinst_ok (p_acceptors p) nx k i \<and> kh_map g k = None"
        using s1(3) s2(3) pinst_ok_top [OF proposer_invD(6) [OF inv] le] proposer_invD(9) [OF inv]
        by (auto split: if_splits)
    next
      fix k i
      assume "kh_map g k = Some i"
      then show "pinst_ok (p_acceptors p) nx k i \<and> (instance_has_value i \<or> instance_has_promised_value i)"
        using s2(3) pinst_ok_top [OF proposer_invD(7) [OF inv] le] proposer_invD(8) [OF inv]
        by (auto split: if_splits)
    qed (use proposer_invD(1) [OF inv] s1(1) s2(1,2) vals in auto)
  qed
qed

section \<open>Timeouts\<close>

text \<open>
  The iterator stops at the first instance, from its position on, that has no quorum and has
  timed out.
\<close>

definition overdue :: "paxos_config \<Rightarrow> timeval \<Rightarrow> pinstance \<Rightarrow> bool" where
  "overdue cfg t inst \<longleftrightarrow> \<not> quorum_reached (pi_quorum inst) \<and> instance_has_timedout cfg inst t"

lemma next_timedout_spec:
  assumes "next_timedout cfg h k t = (k', found)"
  shows "(\<forall>x. k \<le> x \<longrightarrow> x < k' \<longrightarrow> x < kh_n_buckets h \<longrightarrow>
            (\<forall>inst. kh_value h x = Some inst \<longrightarrow> \<not> overdue cfg t inst)) \<and> k \<le> k' \<and>
         (case found of
            None \<Rightarrow> kh_n_buckets h \<le> k'
          | Some inst \<Rightarrow> k' < kh_n_buckets h \<and> kh_value h k' = Some inst \<and> overdue cfg t inst)"
  using assms
proof (induction cfg h k t rule: next_timedout.induct)
  case (1 cfg h k t)
  show ?case
  proof (cases "k < kh_n_buckets h")
    case False
    then show ?thesis using 1(4) by (auto simp: next_timedout.simps [of cfg h k t])
  next
    case k: True
    show ?thesis
    proof (cases "\<exists>inst. kh_value h k = Some inst \<and> overdue cfg t inst")
      case True
      then obtain inst where inst: "kh_value h k = Some inst" "overdue cfg t inst" by blast
      then have "(k', found) = (k, Some inst)"
        using 1(4) k by (simp add: next_timedout.simps [of cfg h k t] overdue_def)
      then show ?thesis using k inst by simp
    next
      case False
      then have "next_timedout cfg h (Suc k) t = (k', found)"
        using 1(4) k by (auto simp: next_timedout.simps [of cfg h k t] overdue_def split: option.splits if_splits)
      then have ih: "(\<forall>x. Suc k \<le> x \<longrightarrow> x < k' \<longrightarrow> x < kh_n_buckets h \<longrightarrow>
            (\<forall>inst. kh_value h x = Some inst \<longrightarrow> \<not> overdue cfg t inst)) \<and> Suc k \<le> k' \<and>
         (case found of
            None \<Rightarrow> kh_n_buckets h \<le> k'
          | Some inst \<Rightarrow> k' < kh_n_buckets h \<and> kh_value h k' = Some inst \<and> overdue cfg t inst)"
        using 1(1-3) k False by (cases "kh_value h k") (auto simp: overdue_def)
      moreover have "\<not> overdue cfg t inst" if "kh_value h x = Some inst" "x = k" for x inst
        using False that by blast
      ultimately show ?thesis by (metis Suc_leD Suc_leI le_neq_implies_less)
    qed
  qed
qed

lemma kh_value_map:
  "kh_wf h \<Longrightarrow> x < kh_n_buckets h \<Longrightarrow> kh_value h x = Some inst \<Longrightarrow>
   \<exists>k. kh_buckets h ! x = KLive k inst \<and> kh_map h k = Some inst"
  using kh_map_bucket [of h] by (auto simp: kh_value_def split: bucket.splits)

definition touched :: "timeval \<Rightarrow> pinstance \<Rightarrow> pinstance" where
  "touched t inst = inst\<lparr>pi_created_at := t\<rparr>"

lemma touched_fields [simp]:
  "pi_iid (touched t inst) = pi_iid inst" "pi_ballot (touched t inst) = pi_ballot inst"
  "pi_value (touched t inst) = pi_value inst"
  "pi_promised_value (touched t inst) = pi_promised_value inst"
  "pi_value_ballot (touched t inst) = pi_value_ballot inst"
  "pi_quorum (touched t inst) = pi_quorum inst"
  by (simp_all add: touched_def)

lemma touched_not_overdue: "0 < proposer_timeout cfg \<Longrightarrow> \<not> overdue cfg t (touched t inst)"
  by (simp add: overdue_def instance_has_timedout_def touched_def)

lemma pinst_ok_touched: "pinst_ok n hi k (touched t inst) = pinst_ok n hi k inst"
  by (simp add: pinst_ok_def)

lemma set_value_key:
  assumes wf: "kh_wf h" and x: "x < kh_n_buckets h" and b: "kh_buckets h ! x = KLive k inst"
  shows "kh_set_value h x inst' = kh_assign_key h k inst'"
proof -
  have m: "kh_map h k = Some inst" using kh_map_bucket [OF wf] x b by blast
  have "kh_get h k < kh_n_buckets h" "kh_buckets h ! kh_get h k = KLive k inst"
    using kh_get_present [OF wf m] by auto
  then have "kh_get h k = x"
    using wf x b live_index_unique [of "kh_buckets h" "kh_get h k" k inst x inst]
    by (auto simp: kh_wf_def buckets_ok_def split: if_splits)
  then show ?thesis by (simp add: kh_assign_key_def)
qed

lemma timeout_prepare_cases:
  assumes inv: "proposer_inv p"
  obtains
    (finished) iter' where "timeout_iterator_prepare cfg iter p = (iter', p, None)"
      "kh_n_buckets (p_prepare_instances p) \<le> it_pi iter'"
      "it_timeout iter' = it_timeout iter" "it_ai iter' = it_ai iter"
  | (retry) iter' k inst h where
      "timeout_iterator_prepare cfg iter p =
         (iter', p\<lparr>p_prepare_instances := h\<rparr>,
          Some \<lparr>prepare_iid = pi_iid inst, prepare_ballot = pi_ballot inst\<rparr>)"
      "kh_map (p_prepare_instances p) k = Some inst" "overdue cfg (it_timeout iter) inst"
      "h = kh_assign_key (p_prepare_instances p) k (touched (it_timeout iter) inst)"
      "kh_wf h" "kh_map h = (kh_map (p_prepare_instances p))(k \<mapsto> touched (it_timeout iter) inst)"
      "kh_n_buckets h = kh_n_buckets (p_prepare_instances p)"
      "it_pi iter \<le> it_pi iter'" "it_pi iter' < kh_n_buckets h"
      "kh_buckets h ! it_pi iter' = KLive k (touched (it_timeout iter) inst)"
      "it_timeout iter' = it_timeout iter" "it_ai iter' = it_ai iter"
proof -
  let ?h = "p_prepare_instances p" and ?t = "it_timeout iter"
  note wf = proposer_invD(4) [OF inv]
  obtain k' found where nt: "next_timedout cfg ?h (it_pi iter) ?t = (k', found)"
    by (cases "next_timedout cfg ?h (it_pi iter) ?t")
  note spec = next_timedout_spec [OF nt]
  show ?thesis
  proof (cases found)
    case None
    then show ?thesis using nt spec
      by (intro finished [of "iter\<lparr>it_pi := k'\<rparr>"]) (simp_all add: timeout_iterator_prepare_def)
  next
    case (Some inst)
    then have k': "it_pi iter \<le> k'" "k' < kh_n_buckets ?h" "kh_value ?h k' = Some inst" "overdue cfg ?t inst"
      using spec by simp_all
    obtain k where k: "kh_buckets ?h ! k' = KLive k inst" "kh_map ?h k = Some inst"
      using kh_value_map [OF wf k'(2,3)] by blast
    have len: "length (kh_buckets ?h) = kh_n_buckets ?h" using wf by (auto simp: kh_wf_def split: if_splits)
    note set = set_value_key [OF wf k'(2) k(1), of "touched ?t inst"]
    note sv = kh_set_value_spec [OF wf k'(2) k(1), of "touched ?t inst"]
    show ?thesis
    proof (rule retry [OF _ k(2) k'(4) refl])
      show "timeout_iterator_prepare cfg iter p =
         (iter\<lparr>it_pi := k'\<rparr>, p\<lparr>p_prepare_instances := kh_assign_key ?h k (touched ?t inst)\<rparr>,
          Some \<lparr>prepare_iid = pi_iid inst, prepare_ballot = pi_ballot inst\<rparr>)"
        using nt Some set by (simp add: timeout_iterator_prepare_def touched_def)
      show "kh_wf (kh_assign_key ?h k (touched ?t inst))" using sv(1) set by simp
      show "kh_map (kh_assign_key ?h k (touched ?t inst)) = (kh_map ?h)(k \<mapsto> touched ?t inst)"
        using sv(2) set by simp
      show "kh_n_buckets (kh_assign_key ?h k (touched ?t inst)) = kh_n_buckets ?h" using sv(4) set by simp
      then show "it_pi (iter\<lparr>it_pi := k'\<rparr>) < kh_n_buckets (kh_assign_key ?h k (touched ?t inst))"
        using k'(2) by simp
      show "kh_buckets (kh_assign_key ?h k (touched ?t inst)) ! it_pi (iter\<lparr>it_pi := k'\<rparr>) =
          KLive k (touched ?t inst)"
        using sv(5) set k'(2) len by simp
    qed (use k'(1) in simp_all)
  qed
qed

lemma timeout_prepare_inv:
  assumes inv: "proposer_inv p" and t: "timeout_iterator_prepare cfg iter p = (iter', p', out)"
  shows "proposer_inv p' \<and> proposer_pending p' = proposer_pending p"
  using inv
proof (cases rule: timeout_prepare_cases [of p cfg iter])
  case (finished i)
  then show ?thesis using t inv by simp
next
  case (retry i k inst h)
  have p': "p' = p\<lparr>p_prepare_instances := h\<rparr>" using t retry(1) by simp
  have "proposer_inv p'"
    unfolding p' using proposer_inv_prepare_update [OF inv retry(2) _ retry(5,6)]
      proposer_invD(6) [OF inv retry(2)] pinst_ok_touched by blast
  moreover have "table_pending h = table_pending (p_prepare_instances p)"
    using table_pending_assign [OF proposer_invD(4) [OF inv] retry(2)] retry(4) by simp
  ultimately show ?thesis by (simp add: proposer_pending_def p')
qed

lemma timeout_accept_cases:
  assumes inv: "proposer_inv p"
  obtains
    (finished) iter' where "timeout_iterator_accept cfg iter p = Inr (iter', p, None)"
      "kh_n_buckets (p_accept_instances p) \<le> it_ai iter'"
      "it_timeout iter' = it_timeout iter" "it_pi iter' = it_pi iter"
  | (retry) iter' k inst v h where
      "timeout_iterator_accept cfg iter p =
         Inr (iter', p\<lparr>p_accept_instances := h\<rparr>,
          Some \<lparr>accept_iid = pi_iid inst, accept_ballot = pi_ballot inst, accept_value = v\<rparr>)"
      "kh_map (p_accept_instances p) k = Some inst" "overdue cfg (it_timeout iter) inst"
      "pinst_choice inst = Some v"
      "h = kh_assign_key (p_accept_instances p) k (touched (it_timeout iter) inst)"
      "kh_wf h" "kh_map h = (kh_map (p_accept_instances p))(k \<mapsto> touched (it_timeout iter) inst)"
      "kh_n_buckets h = kh_n_buckets (p_accept_instances p)"
      "it_ai iter \<le> it_ai iter'" "it_ai iter' < kh_n_buckets h"
      "kh_buckets h ! it_ai iter' = KLive k (touched (it_timeout iter) inst)"
      "it_timeout iter' = it_timeout iter" "it_pi iter' = it_pi iter"
proof -
  let ?h = "p_accept_instances p" and ?t = "it_timeout iter"
  note wf = proposer_invD(5) [OF inv]
  obtain k' found where nt: "next_timedout cfg ?h (it_ai iter) ?t = (k', found)"
    by (cases "next_timedout cfg ?h (it_ai iter) ?t")
  note spec = next_timedout_spec [OF nt]
  show ?thesis
  proof (cases found)
    case None
    then show ?thesis using nt spec
      by (intro finished [of "iter\<lparr>it_ai := k'\<rparr>"]) (simp_all add: timeout_iterator_accept_def)
  next
    case (Some inst)
    then have k': "it_ai iter \<le> k'" "k' < kh_n_buckets ?h" "kh_value ?h k' = Some inst" "overdue cfg ?t inst"
      using spec by simp_all
    obtain k where k: "kh_buckets ?h ! k' = KLive k inst" "kh_map ?h k = Some inst"
      using kh_value_map [OF wf k'(2,3)] by blast
    have len: "length (kh_buckets ?h) = kh_n_buckets ?h" using wf by (auto simp: kh_wf_def split: if_splits)
    have "pinst_choice inst \<noteq> None"
      using proposer_invD(8) [OF inv k(2)]
      by (auto simp: pinst_choice_def instance_has_value_def instance_has_promised_value_def split: option.splits)
    then obtain v where v: "pinst_choice inst = Some v" by blast
    note set = set_value_key [OF wf k'(2) k(1), of "touched ?t inst"]
    note sv = kh_set_value_spec [OF wf k'(2) k(1), of "touched ?t inst"]
    show ?thesis
    proof (rule retry [OF _ k(2) k'(4) v refl])
      show "timeout_iterator_accept cfg iter p =
         Inr (iter\<lparr>it_ai := k'\<rparr>, p\<lparr>p_accept_instances := kh_assign_key ?h k (touched ?t inst)\<rparr>,
          Some \<lparr>accept_iid = pi_iid inst, accept_ballot = pi_ballot inst, accept_value = v\<rparr>)"
        using nt Some set instance_to_accept_eq [OF v] by (simp add: timeout_iterator_accept_def touched_def)
      show "kh_wf (kh_assign_key ?h k (touched ?t inst))" using sv(1) set by simp
      show "kh_map (kh_assign_key ?h k (touched ?t inst)) = (kh_map ?h)(k \<mapsto> touched ?t inst)"
        using sv(2) set by simp
      show "kh_n_buckets (kh_assign_key ?h k (touched ?t inst)) = kh_n_buckets ?h" using sv(4) set by simp
      then show "it_ai (iter\<lparr>it_ai := k'\<rparr>) < kh_n_buckets (kh_assign_key ?h k (touched ?t inst))"
        using k'(2) by simp
      show "kh_buckets (kh_assign_key ?h k (touched ?t inst)) ! it_ai (iter\<lparr>it_ai := k'\<rparr>) =
          KLive k (touched ?t inst)"
        using sv(5) set k'(2) len by simp
    qed (use k'(1) in simp_all)
  qed
qed

lemma timeout_accept_inv:
  assumes inv: "proposer_inv p" and t: "timeout_iterator_accept cfg iter p = Inr (iter', p', out)"
  shows "proposer_inv p' \<and> proposer_pending p' = proposer_pending p"
  using inv
proof (cases rule: timeout_accept_cases [of p cfg iter])
  case (finished i)
  then show ?thesis using t inv by simp
next
  case (retry i k inst v h)
  have p': "p' = p\<lparr>p_accept_instances := h\<rparr>" using t retry(1) by simp
  have "pinst_ok (p_acceptors p) (p_next_prepare_iid p) k (touched (it_timeout iter) inst)"
    using proposer_invD(7) [OF inv retry(2)] pinst_ok_touched by blast
  then have "proposer_inv p'"
    unfolding p' using retry(6,7) by (intro proposer_inv_accept_update [OF inv retry(2)]) auto
  moreover have "table_pending h = table_pending (p_accept_instances p)"
    using table_pending_assign [OF proposer_invD(5) [OF inv] retry(2)] retry(5) by simp
  ultimately show ?thesis by (simp add: proposer_pending_def p')
qed

section \<open>Ballots\<close>

lemma next_ballot_first:
  assumes "0 \<le> p_id p" and "p_id p < int MAX_N_OF_PROPOSERS"
  shows "unat (proposer_next_ballot p 0) = MAX_N_OF_PROPOSERS + nat (p_id p)"
proof -
  have "word_of_int (int MAX_N_OF_PROPOSERS + p_id p) = (word_of_nat (MAX_N_OF_PROPOSERS + nat (p_id p)) :: ballot_t)"
    using assms(1) by (metis int_nat_eq of_int_of_nat_eq of_nat_add)
  then have "proposer_next_ballot p 0 = word_of_nat (MAX_N_OF_PROPOSERS + nat (p_id p))"
    by (simp only: proposer_next_ballot_def) simp
  moreover have "MAX_N_OF_PROPOSERS + nat (p_id p) < 2 ^ 32"
    using assms by (simp add: MAX_N_OF_PROPOSERS_def)
  ultimately show ?thesis by (simp only: unat_of_nat) simp
qed

lemma next_ballot_step:
  assumes "0 < b" and "unat b + MAX_N_OF_PROPOSERS < 2 ^ 32"
  shows "unat (proposer_next_ballot p b) = unat b + MAX_N_OF_PROPOSERS"
  using assms by (simp add: proposer_next_ballot_def MAX_N_OF_PROPOSERS_def unat_word_ariths)

section \<open>Collecting promises\<close>

text \<open>Promises for one proposer, received one after the other.\<close>

fun promises_run :: "timeval \<Rightarrow> proposer \<Rightarrow> (paxos_promise \<times> int) list \<Rightarrow> proposer outcome" where
  "promises_run now p [] = Inr p"
| "promises_run now p ((ack, from_id) # acks) =
     (case proposer_receive_promise p ack from_id now of
        Inl e \<Rightarrow> Inl e | Inr (p', out) \<Rightarrow> promises_run now p' acks)"

text \<open>
  The value kept from a set of promises: \<open>best S v b\<close> says that \<open>(v, b)\<close> is the reported vote
  of the highest ballot among the promises of \<open>S\<close> that report one.
\<close>

definition reports :: "paxos_promise \<Rightarrow> bool" where
  "reports ack \<longleftrightarrow> 0 < paxos_value_len (promise_value ack) \<and> 0 < promise_value_ballot ack"

definition best :: "paxos_promise set \<Rightarrow> paxos_value option \<Rightarrow> ballot_t \<Rightarrow> bool" where
  "best S v b \<longleftrightarrow>
     (case v of
        None \<Rightarrow> b = 0 \<and> (\<forall>ack \<in> S. \<not> reports ack)
      | Some x \<Rightarrow> (\<exists>ack \<in> S. reports ack \<and> promise_value ack = x \<and> promise_value_ballot ack = b) \<and>
                  (\<forall>ack \<in> S. reports ack \<longrightarrow> promise_value_ballot ack \<le> b))"

lemma best_empty: "best {} None 0"
  by (simp add: best_def)

lemma best_saved:
  assumes "best S (pi_promised_value inst) (pi_value_ballot inst)" and "value_wf (promise_value ack)"
  shows "best (insert ack S) (pi_promised_value (promise_value_saved inst ack))
           (pi_value_ballot (promise_value_saved inst ack))"
proof (cases "pi_promised_value inst")
  case None
  then have "pi_value_ballot inst = 0" "\<forall>x \<in> S. \<not> reports x" using assms(1) by (simp_all add: best_def)
  then show ?thesis
    using None promise_value_saved_value [OF assms(2), of inst] by (auto simp: best_def reports_def)
next
  case (Some v)
  then have b: "\<exists>x \<in> S. reports x \<and> promise_value x = v \<and> promise_value_ballot x = pi_value_ballot inst"
      "\<forall>x \<in> S. reports x \<longrightarrow> promise_value_ballot x \<le> pi_value_ballot inst"
    using assms(1) by (simp_all add: best_def)
  show ?thesis
  proof (cases "0 < paxos_value_len (promise_value ack) \<and> pi_value_ballot inst < promise_value_ballot ack")
    case True
    then have "0 < promise_value_ballot ack" by (auto simp: word_gt_0)
    then show ?thesis
      using True b promise_value_saved_value [OF assms(2), of inst] by (auto simp: best_def reports_def)
  next
    case False
    then show ?thesis
      using Some b promise_value_saved_value [OF assms(2), of inst]
      by (auto simp: best_def reports_def)
  qed
qed

lemma promises_run_best:
  assumes "proposer_inv p" and "kh_map (p_prepare_instances p) k = Some inst"
    and "\<forall>(ack, a) \<in> set acks. promise_iid ack = k \<and> promise_ballot ack = pi_ballot inst \<and>
           value_wf (promise_value ack) \<and> 0 \<le> a \<and> a < p_acceptors p"
    and "distinct (map snd acks)" and "quorum_voters (pi_quorum inst) \<inter> set (map snd acks) = {}"
    and "best S (pi_promised_value inst) (pi_value_ballot inst)"
  shows "\<exists>p' inst'. promises_run now p acks = Inr p' \<and> proposer_inv p' \<and> p_acceptors p' = p_acceptors p \<and>
           kh_map (p_prepare_instances p') k = Some inst' \<and> pi_ballot inst' = pi_ballot inst \<and>
           pi_value inst' = pi_value inst \<and>
           quorum_voters (pi_quorum inst') = quorum_voters (pi_quorum inst) \<union> set (map snd acks) \<and>
           best (fst ` set acks \<union> S) (pi_promised_value inst') (pi_value_ballot inst')"
  using assms
proof (induction acks arbitrary: p inst S)
  case Nil
  then show ?case by auto
next
  case (Cons x acks)
  obtain ack a where x: "x = (ack, a)" by (cases x)
  have ack: "promise_iid ack = k" "promise_ballot ack = pi_ballot inst" "value_wf (promise_value ack)"
      "0 \<le> a" "a < p_acceptors p"
    using Cons.prems(3) by (auto simp: x)
  have new: "a \<notin> quorum_voters (pi_quorum inst)" using Cons.prems(5) by (auto simp: x)
  have iok: "quorum_wf (pi_quorum inst)" "q_acceptors (pi_quorum inst) = p_acceptors p"
    using proposer_invD(6) [OF Cons.prems(1,2)] by (simp_all add: pinst_ok_def)
  obtain q r where q: "quorum_add (pi_quorum inst) a = Inr (q, r)"
    using qc.add_defined [OF iok(1) ack(4)] ack(5) iok(2) by auto
  have r: "r = 1" using qc.result_add [OF q] new by simp
  let ?inst = "promise_value_saved (inst\<lparr>pi_quorum := q\<rparr>) ack"
  let ?h = "kh_assign_key (p_prepare_instances p) k ?inst"
  let ?p = "p\<lparr>p_prepare_instances := ?h\<rparr>"
  note wf = proposer_invD(4) [OF Cons.prems(1)]
  have rcv: "proposer_receive_promise p ack a now = Inr (?p, None)"
    using kh.lookup_alpha [OF wf, of k] Cons.prems(2) ack(1,2) q r
    by (simp add: proposer_receive_promise_def)
  have inv: "proposer_inv ?p" using receive_promise_inv [OF Cons.prems(1) ack(3-5) rcv] by simp
  have inst: "kh_map (p_prepare_instances ?p) k = Some ?inst"
    using kh_assign_key_spec(2) [OF wf Cons.prems(2)] by simp
  have vot: "quorum_voters (pi_quorum ?inst) = insert a (quorum_voters (pi_quorum inst))"
    using qc.voters_add [OF q] by simp
  have best1: "best (insert ack S) (pi_promised_value ?inst) (pi_value_ballot ?inst)"
    using best_saved [of S "inst\<lparr>pi_quorum := q\<rparr>" ack] Cons.prems(6) ack(3) by simp
  have acks: "\<forall>(ack', a') \<in> set acks. promise_iid ack' = k \<and> promise_ballot ack' = pi_ballot ?inst \<and>
      value_wf (promise_value ack') \<and> 0 \<le> a' \<and> a' < p_acceptors ?p"
    using Cons.prems(3) by auto
  have dist: "distinct (map snd acks)" "quorum_voters (pi_quorum ?inst) \<inter> set (map snd acks) = {}"
    using Cons.prems(4,5) vot by (auto simp: x)
  obtain p' inst' where "promises_run now ?p acks = Inr p'" "proposer_inv p'"
    "p_acceptors p' = p_acceptors ?p" "kh_map (p_prepare_instances p') k = Some inst'"
    "pi_ballot inst' = pi_ballot ?inst" "pi_value inst' = pi_value ?inst"
    "quorum_voters (pi_quorum inst') = quorum_voters (pi_quorum ?inst) \<union> set (map snd acks)"
    "best (fst ` set acks \<union> insert ack S) (pi_promised_value inst') (pi_value_ballot inst')"
    using Cons.IH [OF inv inst acks dist best1] by blast
  then show ?case using rcv vot by (intro exI [of _ p'] exI [of _ inst']) (simp add: x)
qed

section \<open>All operations of a proposer\<close>

datatype proposer_event =
    P_propose "byte list"
  | P_prepare timeval
  | P_promise paxos_promise int timeval
  | P_accept
  | P_accepted paxos_accepted int
  | P_preempted paxos_preempted timeval
  | P_acceptor_state paxos_acceptor_state
  | P_timeout_prepare paxos_config timeout_iterator
  | P_timeout_accept paxos_config timeout_iterator

fun proposer_exec :: "proposer \<Rightarrow> proposer_event \<Rightarrow> proposer outcome" where
  "proposer_exec p (P_propose bs) = Inr (proposer_propose p bs (int (length bs)))"
| "proposer_exec p (P_prepare now) = map_sum id fst (proposer_prepare p now)"
| "proposer_exec p (P_promise ack a now) = map_sum id fst (proposer_receive_promise p ack a now)"
| "proposer_exec p P_accept = map_sum id fst (proposer_accept p)"
| "proposer_exec p (P_accepted ack a) = map_sum id fst (proposer_receive_accepted p ack a)"
| "proposer_exec p (P_preempted ack now) = map_sum id fst (proposer_receive_preempted p ack now)"
| "proposer_exec p (P_acceptor_state st) = Inr (proposer_receive_acceptor_state p st)"
| "proposer_exec p (P_timeout_prepare cfg iter) = Inr (fst (snd (timeout_iterator_prepare cfg iter p)))"
| "proposer_exec p (P_timeout_accept cfg iter) =
     map_sum id (\<lambda>r. fst (snd r)) (timeout_iterator_accept cfg iter p)"

text \<open>Messages come from acceptors and carry well-formed values.\<close>

fun proposer_event_ok :: "int \<Rightarrow> proposer_event \<Rightarrow> bool" where
  "proposer_event_ok n (P_promise ack a now) \<longleftrightarrow> 0 \<le> a \<and> a < n \<and> value_wf (promise_value ack)"
| "proposer_event_ok n (P_accepted ack a) \<longleftrightarrow> 0 \<le> a \<and> a < n"
| "proposer_event_ok n e \<longleftrightarrow> True"

lemma proposer_exec_defined:
  assumes inv: "proposer_inv p" and ok: "proposer_event_ok (p_acceptors p) e"
    and nw: "\<And>now. e = P_prepare now \<Longrightarrow> p_next_prepare_iid p \<noteq> -1"
  shows "\<exists>p'. proposer_exec p e = Inr p'"
proof (cases e)
  case (P_prepare now)
  then show ?thesis using prepare_eq [OF inv nw] by simp
next
  case (P_promise ack a now)
  then have "0 \<le> a" "a < p_acceptors p" using ok by auto
  with inv show ?thesis
    by (cases rule: receive_promise_cases [of p a ack now]) (auto simp: P_promise)
next
  case P_accept
  from inv show ?thesis by (cases rule: accept_cases) (auto simp: P_accept)
next
  case (P_accepted ack a)
  then have "0 \<le> a" "a < p_acceptors p" using ok by auto
  with inv show ?thesis
    by (cases rule: receive_accepted_cases [of p a ack]) (auto simp: P_accepted)
next
  case (P_preempted ack now)
  from inv show ?thesis by (cases rule: receive_preempted_cases [of p ack now]) (auto simp: P_preempted)
next
  case (P_timeout_accept cfg iter)
  from inv show ?thesis
    by (cases rule: timeout_accept_cases [of p cfg iter]) (auto simp: P_timeout_accept)
qed auto

lemma map_sum_InrD: "map_sum id f x = Inr y \<Longrightarrow> \<exists>z. x = Inr z \<and> y = f z"
  by (cases x) auto

text \<open>
  How an event may change the client values a proposer holds: a proposal adds its value, an
  accepted message may close an instance and with it the instance's own value, and nothing
  else adds or removes any.
\<close>

definition pending_step :: "proposer \<Rightarrow> proposer_event \<Rightarrow> proposer \<Rightarrow> bool" where
  "pending_step p e p' \<longleftrightarrow>
     (case e of
        P_propose bs \<Rightarrow> proposer_pending p' = proposer_pending p + {#paxos_value_new bs (int (length bs))#}
      | P_accepted ack a \<Rightarrow> accepted_step p ack a p'
      | _ \<Rightarrow> proposer_pending p' = proposer_pending p)"

lemma proposer_exec_inv:
  assumes inv: "proposer_inv p" and ok: "proposer_event_ok (p_acceptors p) e" and x: "proposer_exec p e = Inr p'"
  shows "proposer_inv p' \<and> pending_step p e p'"
proof (cases e)
  case (P_propose bs)
  then have p': "p' = proposer_propose p bs (int (length bs))" using x by simp
  have "proposer_pending p' = proposer_pending p + {#paxos_value_new bs (int (length bs))#}"
    using proposer_invD(2) [OF inv]
    by (simp add: p' proposer_pending_def proposer_propose_def carray_push_back_list)
  then show ?thesis using proposer_propose_inv [OF inv] P_propose by (simp add: p' pending_step_def)
next
  case (P_prepare now)
  then obtain out where pr: "proposer_prepare p now = Inr (p', out)" using x by (auto dest: map_sum_InrD)
  have "p_next_prepare_iid p \<noteq> -1" using pr prepare_wraps [of p now] by auto
  then show ?thesis using prepare_inv [OF inv _ pr] P_prepare by (simp add: pending_step_def)
next
  case (P_promise ack a now)
  then obtain out where r: "proposer_receive_promise p ack a now = Inr (p', out)"
    using x by (auto dest: map_sum_InrD)
  have "0 \<le> a" "a < p_acceptors p" "value_wf (promise_value ack)" using ok P_promise by auto
  then show ?thesis using receive_promise_inv [OF inv _ _ _ r] P_promise by (simp add: pending_step_def)
next
  case P_accept
  then obtain out where r: "proposer_accept p = Inr (p', out)" using x by (auto dest: map_sum_InrD)
  show ?thesis using accept_inv [OF inv r] P_accept by (simp add: pending_step_def)
next
  case (P_accepted ack a)
  then obtain b where r: "proposer_receive_accepted p ack a = Inr (p', b)" using x by (auto dest: map_sum_InrD)
  have "0 \<le> a" "a < p_acceptors p" using ok P_accepted by auto
  then show ?thesis using receive_accepted_inv [OF inv _ _ r] receive_accepted_step [OF inv _ _ r] P_accepted
    by (simp add: pending_step_def)
next
  case (P_preempted ack now)
  then obtain out where r: "proposer_receive_preempted p ack now = Inr (p', out)"
    using x by (auto dest: map_sum_InrD)
  show ?thesis using receive_preempted_inv [OF inv r] P_preempted by (simp add: pending_step_def)
next
  case (P_acceptor_state st)
  then show ?thesis
    using x receive_acceptor_state_inv(1,2) [OF inv, of st] by (auto simp: pending_step_def)
next
  case (P_timeout_prepare cfg iter)
  obtain it q out where t: "timeout_iterator_prepare cfg iter p = (it, q, out)"
    by (cases "timeout_iterator_prepare cfg iter p") auto
  then show ?thesis
    using x timeout_prepare_inv [OF inv t] P_timeout_prepare by (simp add: pending_step_def)
next
  case (P_timeout_accept cfg iter)
  then obtain it out where r: "timeout_iterator_accept cfg iter p = Inr (it, p', out)"
    using x by (auto dest!: map_sum_InrD)
  show ?thesis using timeout_accept_inv [OF inv r] P_timeout_accept by (simp add: pending_step_def)
qed

section \<open>Properties\<close>

definition pdemo_time :: timeval where
  "pdemo_time = \<lparr>tv_sec = 0, tv_usec = 0\<rparr>"

definition pdemo_value :: "byte \<Rightarrow> paxos_value" where
  "pdemo_value x = \<lparr>paxos_value_len = 1, paxos_value_val = Some [x]\<rparr>"

definition pdemo_start :: proposer where
  "pdemo_start = proposer_propose (proposer_new 0 3) [7] 1"

definition pdemo_promise :: "ballot_t \<Rightarrow> paxos_value \<Rightarrow> paxos_promise" where
  "pdemo_promise vb v = \<lparr>promise_iid = 1, promise_ballot = 10, promise_value_ballot = vb, promise_value = v\<rparr>"

lemma pdemo_start_inv: "proposer_inv pdemo_start"
  using proposer_propose_inv [OF proposer_new_inv [of 3 0], of 1 "[7]"] by (simp add: pdemo_start_def)

lemma pdemo_prepared:
  obtains p where "proposer_prepare pdemo_start pdemo_time =
      Inr (p, \<lparr>prepare_iid = 1, prepare_ballot = 10\<rparr>)"
    and "proposer_inv p" and "p_acceptors p = 3"
    and "kh_map (p_prepare_instances p) 1 = Some (fresh_pinstance pdemo_start pdemo_time)"
    and "pi_ballot (fresh_pinstance pdemo_start pdemo_time) = 10"
proof -
  have e: "p_next_prepare_iid pdemo_start = 0" "proposer_next_ballot pdemo_start 0 = 10"
      "p_acceptors pdemo_start = 3"
    by (simp_all add: pdemo_start_def proposer_propose_def proposer_new_def proposer_next_ballot_def
        MAX_N_OF_PROPOSERS_def)
  have nw: "p_next_prepare_iid pdemo_start \<noteq> -1" using e by simp
  note pr = prepare_eq [OF pdemo_start_inv nw, of pdemo_time]
  note put = kh_put_key_spec(2) [OF proposer_invD(4) [OF pdemo_start_inv] prepare_key_fresh(1) [OF pdemo_start_inv nw],
      of "fresh_pinstance pdemo_start pdemo_time"]
  note inv = prepare_inv [OF pdemo_start_inv nw pr]
  show thesis
    using that [OF pr [unfolded e, simplified]] inv put e by simp
qed

text \<open>
  C8. No handler of a well-formed proposer fails, for any event with messages from acceptors:
  no assertion is violated and no null pointer used, and the proposer stays well-formed. The
  only exception is \<open>proposer_prepare\<close> when the instance counter is about to wrap around,
  where the assertion of \<open>instance_new\<close> stops the process.
\<close>

theorem proposer_never_fails:
  assumes "proposer_inv p" and "proposer_event_ok (p_acceptors p) e"
  shows "(\<exists>p'. proposer_exec p e = Inr p' \<and> proposer_inv p') \<or>
         (\<exists>now. e = P_prepare now \<and> p_next_prepare_iid p = -1 \<and> proposer_exec p e = Inl AssertFailure)"
proof (cases "\<exists>now. e = P_prepare now \<and> p_next_prepare_iid p = -1")
  case True
  then show ?thesis using prepare_wraps [of p] by auto
next
  case False
  then obtain p' where "proposer_exec p e = Inr p'" using proposer_exec_defined [OF assms] by blast
  then show ?thesis using proposer_exec_inv [OF assms] by blast
qed

theorem proposer_never_fails_witness:
  "\<exists>p'. proposer_exec pdemo_start (P_prepare pdemo_time) = Inr p' \<and> proposer_inv p'"
proof -
  have "p_next_prepare_iid pdemo_start \<noteq> -1"
    by (simp add: pdemo_start_def proposer_propose_def proposer_new_def)
  then show ?thesis
    using proposer_never_fails [OF pdemo_start_inv, of "P_prepare pdemo_time"] by auto
qed

text \<open>
  C9. Client values are neither lost nor duplicated: a proposer holds each value in its queue
  or in one of its instances, a proposal adds exactly its value, and the only event that
  removes one is the accepted message that closes an instance: the first one with which a
  majority of acceptors has accepted at the instance's ballot. It removes the instance, and with
  it the instance's own value unless another value was promised, in which case it is queued
  again. Any other accepted message leaves all values, and the instance with its sender counted.
\<close>

theorem proposer_keeps_client_values:
  assumes "proposer_inv p" and "proposer_event_ok (p_acceptors p) e" and "proposer_exec p e = Inr p'"
  shows "case e of
     P_propose bs \<Rightarrow> proposer_pending p' = proposer_pending p + {#paxos_value_new bs (int (length bs))#}
   | P_accepted ack a \<Rightarrow>
       (case kh_map (p_accept_instances p) (accepted_iid ack) of
          None \<Rightarrow> p' = p
        | Some inst \<Rightarrow>
            if accepted_ballot ack \<noteq> pi_ballot inst then p' = p
            else if a \<notin> quorum_voters (pi_quorum inst) \<and> majority (p_acceptors p) (insert a (quorum_voters (pi_quorum inst)))
              then kh_map (p_accept_instances p') = (kh_map (p_accept_instances p))(accepted_iid ack := None) \<and>
                proposer_pending p' + own_value_closed inst = proposer_pending p
            else proposer_pending p' = proposer_pending p \<and>
              (\<exists>q. quorum_voters q = insert a (quorum_voters (pi_quorum inst)) \<and>
                 kh_map (p_accept_instances p') =
                   (kh_map (p_accept_instances p))(accepted_iid ack \<mapsto> inst\<lparr>pi_quorum := q\<rparr>)))
   | _ \<Rightarrow> proposer_pending p' = proposer_pending p"
  using proposer_exec_inv [OF assms] unfolding pending_step_def accepted_step_def by (rule conjunct2)

theorem proposer_keeps_client_values_witness:
  "proposer_pending (proposer_propose pdemo_start [8] 1) = proposer_pending pdemo_start + {#pdemo_value 8#}"
  using proposer_keeps_client_values [OF pdemo_start_inv, of "P_propose [8]"]
  by (simp add: pdemo_value_def paxos_value_new_def memcpy_bytes_def)

text \<open>
  C10. Collecting promises: from an instance that has none yet, any list of promises at its
  ballot from distinct acceptors is counted exactly once each, the quorum is reached exactly
  when the senders are a majority, and the promised value is the one reported with the
  highest ballot, if any promise reports one.
\<close>

theorem promises_choose_highest:
  assumes "proposer_inv p" and "kh_map (p_prepare_instances p) k = Some inst"
    and "quorum_voters (pi_quorum inst) = {}" and "pi_promised_value inst = None" and "pi_value_ballot inst = 0"
    and "\<forall>(ack, a) \<in> set acks. promise_iid ack = k \<and> promise_ballot ack = pi_ballot inst \<and>
           value_wf (promise_value ack) \<and> 0 \<le> a \<and> a < p_acceptors p"
    and "distinct (map snd acks)"
  shows "\<exists>p' inst'. promises_run now p acks = Inr p' \<and> kh_map (p_prepare_instances p') k = Some inst' \<and>
           (quorum_reached (pi_quorum inst') \<longleftrightarrow> majority (p_acceptors p) (set (map snd acks))) \<and>
           best (fst ` set acks) (pi_promised_value inst') (pi_value_ballot inst')"
proof -
  have b: "best {} (pi_promised_value inst) (pi_value_ballot inst)" using assms(4,5) by (simp add: best_empty)
  obtain p' inst' where r: "promises_run now p acks = Inr p'" "proposer_inv p'" "p_acceptors p' = p_acceptors p"
      "kh_map (p_prepare_instances p') k = Some inst'"
      "quorum_voters (pi_quorum inst') = set (map snd acks)"
      "best (fst ` set acks) (pi_promised_value inst') (pi_value_ballot inst')"
    using promises_run_best [OF assms(1,2,6,7) _ b, of now] assms(3) by auto
  have "quorum_wf (pi_quorum inst')" "q_acceptors (pi_quorum inst') = p_acceptors p"
    using proposer_invD(6) [OF r(2,4)] r(3) by (simp_all add: pinst_ok_def)
  then have "quorum_reached (pi_quorum inst') \<longleftrightarrow> majority (p_acceptors p) (set (map snd acks))"
    using quorum_reached_iff_majority [of "pi_quorum inst'"] r(5) by simp
  then show ?thesis using r by blast
qed

theorem promises_choose_highest_witness:
  "\<exists>p p' inst'. promises_run pdemo_time p
       [(pdemo_promise 3 (pdemo_value 1), 0), (pdemo_promise 5 (pdemo_value 2), 2)] = Inr p' \<and>
     kh_map (p_prepare_instances p') 1 = Some inst' \<and> pi_promised_value inst' = Some (pdemo_value 2)"
proof -
  obtain p where p: "proposer_inv p" "p_acceptors p = 3"
      "kh_map (p_prepare_instances p) 1 = Some (fresh_pinstance pdemo_start pdemo_time)"
      "pi_ballot (fresh_pinstance pdemo_start pdemo_time) = 10"
    using pdemo_prepared by metis
  let ?acks = "[(pdemo_promise 3 (pdemo_value 1), 0), (pdemo_promise 5 (pdemo_value 2), 2)]"
  have ok: "\<forall>(ack, a) \<in> set ?acks. promise_iid ack = 1 \<and>
      promise_ballot ack = pi_ballot (fresh_pinstance pdemo_start pdemo_time) \<and>
      value_wf (promise_value ack) \<and> 0 \<le> a \<and> a < p_acceptors p"
    using p(2,4) by (simp add: pdemo_promise_def pdemo_value_def value_wf_def)
  obtain p' inst' where r: "promises_run pdemo_time p ?acks = Inr p'"
      "kh_map (p_prepare_instances p') 1 = Some inst'"
      "best (fst ` set ?acks) (pi_promised_value inst') (pi_value_ballot inst')"
    using promises_choose_highest [OF p(1,3) _ _ _ ok, of pdemo_time]
    by (auto simp: quorum_init_voters)
  have rep: "reports (pdemo_promise 3 (pdemo_value 1))" "reports (pdemo_promise 5 (pdemo_value 2))"
    by (simp_all add: reports_def pdemo_promise_def pdemo_value_def)
  have "pi_promised_value inst' = Some (pdemo_value 2)"
    using r(3) rep by (auto simp: best_def pdemo_promise_def split: option.splits)
  then show ?thesis using r by blast
qed

text \<open>
  An accept request is sent for the smallest prepared instance, only after a majority of
  the acceptors has promised its ballot, and carries the promised value if there is one,
  otherwise the instance's client value or the head of the queue; the instance moves from
  the prepare to the accept table.
\<close>

theorem proposer_accept_request:
  assumes "proposer_inv p" and "proposer_accept p = Inr (p', Some m)"
  shows "\<exists>inst. kh_map (p_prepare_instances p) (accept_iid m) = Some inst \<and>
     (\<forall>k \<in> dom (kh_map (p_prepare_instances p)). accept_iid m \<le> k) \<and>
     majority (p_acceptors p) (quorum_voters (pi_quorum inst)) \<and> accept_ballot m = pi_ballot inst \<and>
     Some (accept_value m) =
       (case (pi_promised_value inst, pi_value inst) of
          (Some v, _) \<Rightarrow> Some v | (None, Some v) \<Rightarrow> Some v
        | (None, None) \<Rightarrow> (case carray_list (p_values p) of [] \<Rightarrow> None | v # vs \<Rightarrow> Some v)) \<and>
     kh_map (p_prepare_instances p') = (kh_map (p_prepare_instances p))(accept_iid m := None) \<and>
     accept_iid m \<in> dom (kh_map (p_accept_instances p')) \<and>
     accept_iid m \<notin> dom (kh_map (p_accept_instances p))"
  using assms(1)
proof (cases rule: accept_cases)
  case idle
  then show ?thesis using assms(2) by simp
next
  case (accept inst inst' w v vals f t)
  have m: "m = \<lparr>accept_iid = pi_iid inst, accept_ballot = pi_ballot inst, accept_value = v\<rparr>"
    and p': "p' = p\<lparr>p_values := vals, p_prepare_instances := f, p_accept_instances := t\<rparr>"
    using assms(2) accept(7) by auto
  have iok: "quorum_wf (pi_quorum inst)" "q_acceptors (pi_quorum inst) = p_acceptors p"
    using proposer_invD(6) [OF assms(1) accept(1)] by (simp_all add: pinst_ok_def)
  have "majority (p_acceptors p) (quorum_voters (pi_quorum inst))"
    using accept(3) quorum_reached_iff_majority [OF iok(1)] iok(2) by simp
  moreover have "pi_value inst = None \<Longrightarrow> w = (case carray_list (p_values p) of [] \<Rightarrow> None | x # _ \<Rightarrow> Some x)"
    using carray_pop_front_spec(1) [OF proposer_invD(2) [OF assms(1)]] accept(4) by simp
  then have "Some v = (case (pi_promised_value inst, pi_value inst) of
      (Some v, _) \<Rightarrow> Some v | (None, Some v) \<Rightarrow> Some v
    | (None, None) \<Rightarrow> (case carray_list (p_values p) of [] \<Rightarrow> None | v # vs \<Rightarrow> Some v))"
    using accept(5,6) by (auto simp: pinst_choice_def split: option.splits)
  ultimately show ?thesis
    using accept(1,2,10,11,12) by (auto simp: m p' dom_def)
qed

definition pdemo_ready :: "proposer outcome" where
  "pdemo_ready =
     (case proposer_prepare pdemo_start pdemo_time of
        Inl e \<Rightarrow> Inl e
      | Inr (p, m) \<Rightarrow> promises_run pdemo_time p [(pdemo_promise 0 null_value, 0), (pdemo_promise 0 null_value, 1)])"

lemma promises_run_inv:
  "proposer_inv p \<Longrightarrow> \<forall>(ack, a) \<in> set acks. value_wf (promise_value ack) \<and> 0 \<le> a \<and> a < p_acceptors p \<Longrightarrow>
   promises_run now p acks = Inr p' \<Longrightarrow> proposer_inv p'"
proof (induction now p acks rule: promises_run.induct)
  case (1 now p)
  then show ?case by simp
next
  case (2 now p ack a acks)
  then have a: "value_wf (promise_value ack)" "0 \<le> a" "a < p_acceptors p" by auto
  obtain p1 out where r: "proposer_receive_promise p ack a now = Inr (p1, out)" "promises_run now p1 acks = Inr p'"
    using 2(4) by (auto split: sum.splits)
  have "p_acceptors p1 = p_acceptors p"
    using 2(2) a(2,3) by (cases rule: receive_promise_cases [of p a ack now]) (use r(1) in auto)
  then show ?case
    using 2(1) [OF r(1) refl] receive_promise_inv [OF 2(2) a r(1)] 2(3) r(2) by auto
qed

lemma pdemo_ready_inv:
  assumes "pdemo_ready = Inr p"
  shows "proposer_inv p"
proof -
  obtain p0 where p0: "proposer_prepare pdemo_start pdemo_time =
      Inr (p0, \<lparr>prepare_iid = 1, prepare_ballot = 10\<rparr>)" "proposer_inv p0" "p_acceptors p0 = 3"
    using pdemo_prepared by metis
  have "promises_run pdemo_time p0 [(pdemo_promise 0 null_value, 0), (pdemo_promise 0 null_value, 1)] = Inr p"
    using assms by (simp only: pdemo_ready_def p0(1)) simp
  then show ?thesis
    by (rule promises_run_inv [OF p0(2), rotated]) (simp add: p0(3) pdemo_promise_def)
qed

theorem proposer_accept_request_witness:
  "\<exists>p p' m. proposer_accept p = Inr (p', Some m) \<and>
     accept_value m = pdemo_value 7 \<and> accept_iid m \<in> dom (kh_map (p_accept_instances p'))"
proof -
  have "case pdemo_ready of
      Inr p \<Rightarrow> (case proposer_accept p of Inr (p', Some m) \<Rightarrow> accept_value m = pdemo_value 7 | _ \<Rightarrow> False)
    | Inl e \<Rightarrow> False"
    by code_simp
  then obtain p p' m where r: "pdemo_ready = Inr p" "proposer_accept p = Inr (p', Some m)"
      "accept_value m = pdemo_value 7"
    by (auto split: sum.splits prod.splits option.splits)
  show ?thesis using proposer_accept_request [OF pdemo_ready_inv [OF r(1)] r(2)] r by blast
qed

text \<open>
  Trimming: a trim point that is not older than the last one drops exactly the instances
  up to it from both tables, keeps all others, queues the client values of the dropped ones
  again, and never moves \<open>next_prepare_iid\<close> back; an older trim point changes nothing.
\<close>

theorem proposer_trims:
  assumes "proposer_inv p"
  shows "(let p' = proposer_receive_acceptor_state p st; t = state_trim_iid st in
     proposer_inv p' \<and> p_next_prepare_iid p \<le> p_next_prepare_iid p' \<and>
     proposer_pending p' = proposer_pending p \<and>
     (if t < p_max_trim_iid p then p' = p
      else kh_map (p_prepare_instances p') = (\<lambda>k. if k \<le> t then None else kh_map (p_prepare_instances p) k) \<and>
           kh_map (p_accept_instances p') = (\<lambda>k. if k \<le> t then None else kh_map (p_accept_instances p) k)))"
  using receive_acceptor_state_inv [OF assms, of st] by (simp add: Let_def not_less)

theorem proposer_trims_witness:
  "proposer_pending (proposer_receive_acceptor_state pdemo_start \<lparr>state_trim_iid = 4\<rparr>) = proposer_pending pdemo_start"
  using proposer_trims [OF pdemo_start_inv, of "\<lparr>state_trim_iid = 4\<rparr>"] by (simp add: Let_def)

end
