(* ===== verification/Consensus.thy ===== *)
theory Consensus
  imports PaxosTypes Quorum
begin

text \<open>
  What the messages on the wire guarantee together: the part of the safety argument that does
  not depend on who holds which state. The history of a run is three sets of messages with
  their senders: promises, accept requests and accepted messages. \<open>history_ok\<close> says how a
  message of each kind is backed by the others; from it follows that once a majority has
  accepted a value at some ballot, every accept request of that instance at that ballot or a
  higher one carries the same value, so that two majorities never accept different values.
\<close>

section \<open>Votes and accept requests\<close>

definition voted :: "(paxos_accepted \<times> int) set \<Rightarrow> int \<Rightarrow> iid_t \<Rightarrow> ballot_t \<Rightarrow> paxos_value \<Rightarrow> bool" where
  "voted V a i b v \<longleftrightarrow>
     (\<exists>r. (r, a) \<in> V \<and> accepted_iid r = i \<and> accepted_ballot r = b \<and> accepted_value r = v)"

definition has_bytes :: "paxos_value \<Rightarrow> bool" where
  "has_bytes v \<longleftrightarrow> 0 < paxos_value_len v"

text \<open>
  A promise tells everything its sender had accepted below the promised ballot, and nothing
  that was not accepted.
\<close>

definition promise_ok :: "int \<Rightarrow> (paxos_accepted \<times> int) set \<Rightarrow> paxos_promise \<Rightarrow> int \<Rightarrow> bool" where
  "promise_ok n V p a \<longleftrightarrow>
     0 \<le> a \<and> a < n \<and> value_wf (promise_value p) \<and>
     (\<forall>b v. voted V a (promise_iid p) b v \<longrightarrow> b < promise_ballot p \<longrightarrow>
        has_bytes (promise_value p) \<and> b \<le> promise_value_ballot p) \<and>
     (has_bytes (promise_value p) \<longrightarrow>
        voted V a (promise_iid p) (promise_value_ballot p) (promise_value p) \<and>
        promise_value_ballot p \<le> promise_ballot p)"

text \<open>
  An instance at ballot \<open>b\<close> is backed by the promises of the acceptors \<open>Q\<close>: none of them
  reports a vote above \<open>top\<close>, and if one reports a vote then \<open>choice\<close> is a value that was
  voted for at ballot \<open>top\<close>.
\<close>

definition supports ::
  "(paxos_promise \<times> int) set \<Rightarrow> iid_t \<Rightarrow> ballot_t \<Rightarrow> paxos_value option \<Rightarrow> ballot_t \<Rightarrow> int \<Rightarrow> bool" where
  "supports P i b choice hi a \<longleftrightarrow>
     (\<exists>p. (p, a) \<in> P \<and> promise_iid p = i \<and> promise_ballot p = b \<and>
        (has_bytes (promise_value p) \<longrightarrow> choice \<noteq> None \<and> promise_value_ballot p \<le> hi))"

definition backed ::
  "(paxos_promise \<times> int) set \<Rightarrow> (paxos_accepted \<times> int) set \<Rightarrow> iid_t \<Rightarrow> ballot_t \<Rightarrow>
     int set \<Rightarrow> paxos_value option \<Rightarrow> ballot_t \<Rightarrow> bool" where
  "backed P V i b Q choice hi \<longleftrightarrow>
     (\<forall>a \<in> Q. supports P i b choice hi a) \<and>
     (\<forall>v. choice = Some v \<longrightarrow> hi \<le> b \<and> (\<exists>a. voted V a i hi v))"

definition accept_ok ::
  "int \<Rightarrow> paxos_value set \<Rightarrow> (paxos_promise \<times> int) set \<Rightarrow> (paxos_accepted \<times> int) set \<Rightarrow> paxos_accept \<Rightarrow> bool" where
  "accept_ok n W P V m \<longleftrightarrow>
     accept_value m \<in> W \<and> value_wf (accept_value m) \<and> has_bytes (accept_value m) \<and>
     (\<exists>Q choice hi. majority n Q \<and> backed P V (accept_iid m) (accept_ballot m) Q choice hi \<and>
        (\<forall>v. choice = Some v \<longrightarrow> hi < accept_ballot m \<and> accept_value m = v))"

definition accepted_ok :: "int \<Rightarrow> (paxos_accept \<times> int) set \<Rightarrow> paxos_accepted \<Rightarrow> int \<Rightarrow> bool" where
  "accepted_ok n A r a \<longleftrightarrow>
     0 \<le> a \<and> a < n \<and> value_wf (accepted_value r) \<and>
     (\<exists>m j. (m, j) \<in> A \<and> accept_iid m = accepted_iid r \<and> accept_ballot m = accepted_ballot r \<and>
        accept_value m = accepted_value r)"

definition accepts_unique :: "(paxos_accept \<times> int) set \<Rightarrow> bool" where
  "accepts_unique A \<longleftrightarrow>
     (\<forall>m j m' j'. (m, j) \<in> A \<longrightarrow> (m', j') \<in> A \<longrightarrow> accept_iid m = accept_iid m' \<longrightarrow>
        accept_ballot m = accept_ballot m' \<longrightarrow> accept_value m = accept_value m')"

definition history_ok ::
  "int \<Rightarrow> paxos_value set \<Rightarrow> (paxos_promise \<times> int) set \<Rightarrow> (paxos_accept \<times> int) set \<Rightarrow>
     (paxos_accepted \<times> int) set \<Rightarrow> bool" where
  "history_ok n W P A V \<longleftrightarrow>
     (\<forall>(p, a) \<in> P. promise_ok n V p a) \<and> (\<forall>(m, j) \<in> A. accept_ok n W P V m) \<and>
     (\<forall>(r, a) \<in> V. accepted_ok n A r a) \<and> accepts_unique A"

lemma history_okD:
  assumes "history_ok n W P A V"
  shows "(p, a) \<in> P \<Longrightarrow> promise_ok n V p a" and "(m, j) \<in> A \<Longrightarrow> accept_ok n W P V m"
    and "(r, a) \<in> V \<Longrightarrow> accepted_ok n A r a" and "accepts_unique A"
  using assms by (auto simp: history_ok_def)

section \<open>Agreement on the wire\<close>

definition chosen :: "int \<Rightarrow> (paxos_accepted \<times> int) set \<Rightarrow> iid_t \<Rightarrow> ballot_t \<Rightarrow> paxos_value \<Rightarrow> bool" where
  "chosen n V i b v \<longleftrightarrow> (\<exists>Q. majority n Q \<and> (\<forall>a \<in> Q. voted V a i b v))"

lemma vote_accept:
  assumes "history_ok n W P A V" and "voted V a i b v"
  shows "\<exists>m j. (m, j) \<in> A \<and> accept_iid m = i \<and> accept_ballot m = b \<and> accept_value m = v"
  using assms history_okD(3) [OF assms(1)] by (auto simp: voted_def accepted_ok_def)

lemma votes_agree:
  assumes "history_ok n W P A V" and "voted V a i b v" and "voted V a' i b v'"
  shows "v = v'"
  using vote_accept [OF assms(1,2)] vote_accept [OF assms(1,3)] history_okD(4) [OF assms(1)]
  unfolding accepts_unique_def by metis

lemma chosen_accept:
  assumes h: "history_ok n W P A V" and ch: "chosen n V i b v"
  shows "(m, j) \<in> A \<Longrightarrow> accept_iid m = i \<Longrightarrow> b \<le> accept_ballot m \<Longrightarrow> accept_value m = v"
proof (induction "unat (accept_ballot m)" arbitrary: m j rule: less_induct)
  case less
  obtain Q where Q: "majority n Q" "\<forall>a \<in> Q. voted V a i b v" using ch by (auto simp: chosen_def)
  show ?case
  proof (cases "accept_ballot m = b")
    case True
    obtain a where "a \<in> Q" using Q(1) by (force simp: majority_def)
    then show ?thesis
      using vote_accept [OF h] Q(2) less.prems(1,2) True history_okD(4) [OF h]
      unfolding accepts_unique_def by metis
  next
    case False
    then have lt: "b < accept_ballot m" using less.prems(3) by simp
    obtain Q' choice hi where b: "majority n Q'" "backed P V i (accept_ballot m) Q' choice hi"
      and c: "\<And>v. choice = Some v \<Longrightarrow> hi < accept_ballot m \<and> accept_value m = v"
      using history_okD(2) [OF h less.prems(1)] less.prems(2) by (auto simp: accept_ok_def)
    obtain a where a: "a \<in> Q" "a \<in> Q'" using majority_intersect [OF Q(1) b(1)] by blast
    obtain p where p: "(p, a) \<in> P" "promise_iid p = i" "promise_ballot p = accept_ballot m"
        "has_bytes (promise_value p) \<Longrightarrow> choice \<noteq> None \<and> promise_value_ballot p \<le> hi"
      using b(2) a(2) unfolding backed_def supports_def by blast
    have "has_bytes (promise_value p) \<and> b \<le> promise_value_ballot p"
      using history_okD(1) [OF h p(1)] Q(2) a(1) lt p(2,3) by (auto simp: promise_ok_def)
    then have ch: "choice \<noteq> None" and bh: "b \<le> hi" using p(4) by auto
    then obtain w where w: "choice = Some w" by blast
    then obtain a' where "voted V a' i hi w" using b(2) by (auto simp: backed_def)
    then obtain m' j' where m': "(m', j') \<in> A" "accept_iid m' = i" "accept_ballot m' = hi" "accept_value m' = w"
      using vote_accept [OF h] by blast
    have "hi < accept_ballot m" "accept_value m = w" using c [OF w] by auto
    then have "accept_value m' = v"
      using less.hyps [of m' j'] m' bh by (simp add: word_less_nat_alt)
    then show ?thesis using m'(4) \<open>accept_value m = w\<close> by simp
  qed
qed

lemma chosen_unique:
  assumes h: "history_ok n W P A V" and c: "chosen n V i b v" and c': "chosen n V i b' v'"
  shows "v = v'"
proof -
  have "x = y" if cx: "chosen n V i d1 x" and cy: "chosen n V i d2 y" and le: "d1 \<le> d2" for d1 d2 x y
  proof -
    obtain Q where Q: "majority n Q" "\<forall>a \<in> Q. voted V a i d2 y" using cy by (auto simp: chosen_def)
    obtain a where "a \<in> Q" using Q(1) by (force simp: majority_def)
    then obtain m j where "(m, j) \<in> A" "accept_iid m = i" "accept_ballot m = d2" "accept_value m = y"
      using vote_accept [OF h] Q(2) by blast
    then show ?thesis using chosen_accept [OF h cx, of m j] le by simp
  qed
  then show ?thesis using c c' by (metis linear)
qed

lemma chosen_proposed:
  assumes h: "history_ok n W P A V" and v: "voted V a i b v"
  shows "v \<in> W"
proof -
  obtain m j where m: "(m, j) \<in> A" "accept_value m = v" using vote_accept [OF h v] by blast
  show ?thesis using history_okD(2) [OF h m(1)] m(2) by (simp add: accept_ok_def)
qed

section \<open>Histories grow\<close>

lemma voted_mono: "voted V a i b v \<Longrightarrow> V \<subseteq> V' \<Longrightarrow> voted V' a i b v"
  by (auto simp: voted_def)

lemma voted_insert:
  "voted (insert (r, a) V) a' i b v \<longleftrightarrow>
   voted V a' i b v \<or> a' = a \<and> accepted_iid r = i \<and> accepted_ballot r = b \<and> accepted_value r = v"
  by (auto simp: voted_def)

lemma supports_mono: "supports P i b choice hi a \<Longrightarrow> P \<subseteq> P' \<Longrightarrow> supports P' i b choice hi a"
  unfolding supports_def by blast

lemma backed_mono:
  assumes "backed P V i b Q choice hi" and "P \<subseteq> P'" and "V \<subseteq> V'"
  shows "backed P' V' i b Q choice hi"
proof -
  have "supports P' i b choice hi a" if "a \<in> Q" for a
    using supports_mono [OF _ assms(2)] that assms(1) by (simp add: backed_def)
  moreover have "hi \<le> b \<and> (\<exists>a. voted V' a i hi v)" if "choice = Some v" for v
    using voted_mono [OF _ assms(3), of _ i hi v] that assms(1) unfolding backed_def by blast
  ultimately show ?thesis by (simp add: backed_def)
qed

lemma accept_ok_mono:
  assumes "accept_ok n W P V m" and "W \<subseteq> W'" and "P \<subseteq> P'" and "V \<subseteq> V'"
  shows "accept_ok n W' P' V' m"
  using assms(1,2) backed_mono [OF _ assms(3,4)] unfolding accept_ok_def by blast

lemma accepted_ok_mono: "accepted_ok n A r a \<Longrightarrow> A \<subseteq> A' \<Longrightarrow> accepted_ok n A' r a"
  by (auto simp: accepted_ok_def)

lemma history_empty: "history_ok n W {} {} {}"
  by (simp add: history_ok_def accepts_unique_def)

lemma history_proposed: "history_ok n W P A V \<Longrightarrow> W \<subseteq> W' \<Longrightarrow> history_ok n W' P A V"
  using accept_ok_mono [OF _ _ order_refl order_refl] by (fastforce simp: history_ok_def)

lemma history_promise:
  assumes "history_ok n W P A V" and "promise_ok n V p a"
  shows "history_ok n W (insert (p, a) P) A V"
  using assms accept_ok_mono [OF _ order_refl subset_insertI order_refl]
  unfolding history_ok_def by blast

lemma history_accept:
  assumes h: "history_ok n W P A V" and ok: "accept_ok n W P V m"
    and u: "\<And>m' j'. (m', j') \<in> A \<Longrightarrow> accept_iid m' = accept_iid m \<Longrightarrow>
              accept_ballot m' = accept_ballot m \<Longrightarrow> accept_value m' = accept_value m"
  shows "history_ok n W P (insert (m, j) A) V"
proof -
  have "accepts_unique (insert (m, j) A)"
    using u history_okD(4) [OF h] unfolding accepts_unique_def by (metis insert_iff prod.inject)
  then show ?thesis
    using h ok accepted_ok_mono [OF _ subset_insertI] unfolding history_ok_def by blast
qed

text \<open>
  A new vote of \<open>a\<close> must not contradict what \<open>a\<close> has promised: it is not below a promised
  ballot.
\<close>

lemma history_accepted:
  assumes h: "history_ok n W P A V" and ok: "accepted_ok n A r a"
    and kept: "\<And>p. (p, a) \<in> P \<Longrightarrow> promise_iid p = accepted_iid r \<Longrightarrow> promise_ballot p \<le> accepted_ballot r"
  shows "history_ok n W P A (insert (r, a) V)"
proof -
  have "promise_ok n (insert (r, a) V) p a'" if p: "(p, a') \<in> P" for p a'
    using history_okD(1) [OF h p] kept [of p] p
    by (auto simp: promise_ok_def voted_insert)
  moreover have "accept_ok n W P (insert (r, a) V) m" if "(m, j) \<in> A" for m j
    using accept_ok_mono [OF history_okD(2) [OF h that] order_refl order_refl subset_insertI] .
  ultimately show ?thesis
    using h ok unfolding history_ok_def by blast
qed

end
