(* ===== verification/PaxosSafety.thy ===== *)
theory PaxosSafety
  imports PaxosSystem
begin

text \<open>
  The inductive invariant of \<open>PaxosSystem\<close> without repeat requests: the history of messages
  is good in the sense of \<open>Consensus\<close>, the record of every acceptor covers what it has
  promised and accepted, the ballots of every proposer are its own and ahead of its accept
  requests, and every learner has only counted messages that were sent. Each handler is
  shown to keep its own part; messages of the others only add to the history.
\<close>

section \<open>Acceptors\<close>

definition record_covers ::
  "(paxos_accepted \<times> int) set \<Rightarrow> (paxos_promise \<times> int) set \<Rightarrow> int \<Rightarrow> iid_t \<Rightarrow> paxos_accepted option \<Rightarrow> bool" where
  "record_covers V P a i found \<longleftrightarrow>
     (case found of
        None \<Rightarrow> (\<forall>b v. \<not> voted V a i b v) \<and> (\<forall>p. (p, a) \<in> P \<longrightarrow> promise_iid p \<noteq> i)
      | Some r \<Rightarrow>
          accepted_value_ballot r \<le> accepted_ballot r \<and>
          (\<forall>b v. voted V a i b v \<longrightarrow> has_bytes (accepted_value r) \<and> b \<le> accepted_value_ballot r) \<and>
          (has_bytes (accepted_value r) \<longrightarrow> voted V a i (accepted_value_ballot r) (accepted_value r)) \<and>
          (\<forall>p. (p, a) \<in> P \<longrightarrow> promise_iid p = i \<longrightarrow> promise_ballot p \<le> accepted_ballot r))"

definition acceptor_covers ::
  "(paxos_accepted \<times> int) set \<Rightarrow> (paxos_promise \<times> int) set \<Rightarrow> int \<Rightarrow> mem_storage acceptor \<Rightarrow> bool" where
  "acceptor_covers V P a x \<longleftrightarrow>
     ms.acc_ok x \<and> (\<forall>i. ms.answers x i \<longrightarrow> record_covers V P a i (mem_view (acc_store x) i))"

lemma acceptor_coversD:
  assumes "acceptor_covers V P a x"
  shows "ms.acc_ok x" and "ms.answers x i \<Longrightarrow> record_covers V P a i (mem_view (acc_store x) i)"
  using assms by (auto simp: acceptor_covers_def)

lemma start_covers: "acceptor_covers {} {} a (acceptor_start b)"
  using mem_init_ok [of b] mem_init_view [of _ b]
  by (auto simp: acceptor_covers_def ms.acc_ok_def acceptor_start_def ms.answers_def record_covers_def voted_def)

lemma covers_other_promise:
  "a' \<noteq> a \<Longrightarrow> acceptor_covers V (insert (p, a') P) a x = acceptor_covers V P a x"
proof -
  assume "a' \<noteq> a"
  then have "record_covers V (insert (p, a') P) a i f = record_covers V P a i f" for i f
    by (cases f) (simp_all add: record_covers_def)
  then show ?thesis by (simp add: acceptor_covers_def)
qed

lemma covers_other_accepted:
  "a' \<noteq> a \<Longrightarrow> acceptor_covers (insert (r, a') V) P a x = acceptor_covers V P a x"
proof -
  assume "a' \<noteq> a"
  then have "record_covers (insert (r, a') V) P a i f = record_covers V P a i f" for i f
    by (cases f) (simp_all add: record_covers_def voted_insert)
  then show ?thesis by (simp add: acceptor_covers_def)
qed

lemma covers_keeps:
  "acceptor_covers V P a x \<Longrightarrow> ms.keeps x x' \<Longrightarrow> acceptor_covers V P a x'"
  by (simp add: acceptor_covers_def ms.keeps_def ms.answers_def ms.acc_ok_def)

text \<open>
  After storing a record, every other instance is covered as before; the instance of the
  record is covered if the record covers it.
\<close>

lemma covers_stores:
  assumes cov: "acceptor_covers V P a x" and st: "ms.stores x r x'"
    and new: "record_covers V' P' a (accepted_iid r) (Some r)"
    and other: "\<And>i found. i \<noteq> accepted_iid r \<Longrightarrow> record_covers V P a i found \<Longrightarrow> record_covers V' P' a i found"
  shows "acceptor_covers V' P' a x'"
proof -
  have ok: "ms.acc_ok x'" and tr: "acc_trim_iid x' = acc_trim_iid x"
    and vr: "mem_view (acc_store x') (accepted_iid r) = Some r"
    and ov: "\<And>i. i \<noteq> accepted_iid r \<Longrightarrow> \<not> mem_lost (acc_store x') i \<Longrightarrow>
        \<not> mem_lost (acc_store x) i \<and> mem_view (acc_store x') i = mem_view (acc_store x) i"
    using st by (auto simp: ms.stores_def)
  have "record_covers V' P' a i (mem_view (acc_store x') i)" if ans: "ms.answers x' i" for i
  proof (cases "i = accepted_iid r")
    case True
    then show ?thesis using new vr by simp
  next
    case False
    then have "\<not> mem_lost (acc_store x) i" and v: "mem_view (acc_store x') i = mem_view (acc_store x) i"
      using ov ans by (auto simp: ms.answers_def)
    then have "ms.answers x i" using ans tr by (simp add: ms.answers_def)
    then show ?thesis using other [OF False] acceptor_coversD(2) [OF cov] v by simp
  qed
  then show ?thesis using ok by (simp add: acceptor_covers_def)
qed

definition promise_of :: "paxos_accepted \<Rightarrow> paxos_promise" where
  "promise_of r = \<lparr>promise_iid = accepted_iid r, promise_ballot = accepted_ballot r,
     promise_value_ballot = accepted_value_ballot r, promise_value = accepted_value r\<rparr>"

lemma promise_of_fields [simp]:
  "promise_iid (promise_of r) = accepted_iid r" "promise_ballot (promise_of r) = accepted_ballot r"
  "promise_value_ballot (promise_of r) = accepted_value_ballot r"
  "promise_value (promise_of r) = accepted_value r"
  by (simp_all add: promise_of_def)

lemma to_promise_eq: "paxos_accepted_to_promise r = PAXOS_PROMISE (promise_of r)"
  by (simp add: paxos_accepted_to_promise_def promise_of_def)

text \<open>A record that covers an instance makes a good promise.\<close>

lemma covers_promise_ok:
  assumes "record_covers V P a (accepted_iid r) (Some r)" and "value_wf (accepted_value r)"
    and "0 \<le> a" and "a < n"
  shows "promise_ok n V (promise_of r) a"
  using assms by (auto simp: promise_ok_def record_covers_def)

lemma prepared_covers:
  assumes cov: "record_covers V P a (prepare_iid req) found"
    and pr: "promised found (prepare_ballot req)"
  shows "record_covers V (insert (promise_of (prepared found req), a) P) a (prepare_iid req)
           (Some (prepared found req))"
proof (cases found)
  case None
  then show ?thesis
    using cov by (auto simp: prepared_def record_covers_def zero_accepted_def has_bytes_def null_value_def)
next
  case (Some r)
  then show ?thesis
    using cov pr by (auto simp: prepared_def record_covers_def promised_def)
qed

lemma acceptor_prepare_covers:
  assumes cov: "acceptor_covers V P a x" and a: "0 \<le> a" "a < n"
    and rcv: "acceptor_receive_prepare x req = Inr (x', out)"
  shows "out = None \<and> x' = x \<or>
    (\<exists>p. out = Some (PAXOS_PROMISE p) \<and> promise_ok n V p a \<and> acceptor_covers V (insert (p, a) P) a x')"
  using acceptor_coversD(1) [OF cov] rcv
proof (cases rule: ms.prepare_cases)
  case trimmed
  then show ?thesis by simp
next
  case (promise r)
  let ?found = "mem_view (acc_store x) (prepare_iid req)" and ?P = "insert (promise_of r, a) P"
  have "record_covers V P a (prepare_iid req) ?found" using acceptor_coversD(2) [OF cov promise(1)] .
  then have new: "record_covers V ?P a (accepted_iid r) (Some r)"
    using prepared_covers [OF _ promise(3)] promise(2,5) by simp
  have "mem_view (acc_store x') (accepted_iid r) = Some r" "mem_ok (acc_store x')"
    using promise(4) by (auto simp: ms.stores_def ms.acc_ok_def)
  then have "value_wf (accepted_value r)" using mem_view_wf by blast
  then have "promise_ok n V (promise_of r) a" using covers_promise_ok [OF new _ a] by blast
  moreover have "acceptor_covers V ?P a x'"
  proof (rule covers_stores [OF cov promise(4) new])
    fix i found
    assume "i \<noteq> accepted_iid r" "record_covers V P a i found"
    then show "record_covers V ?P a i found" by (auto simp: record_covers_def split: option.splits)
  qed
  ultimately show ?thesis using promise(7) by (simp add: to_promise_eq)
next
  case (higher r)
  let ?P = "insert (promise_of r, a) P"
  have ok: "mem_ok (acc_store x)" using acceptor_coversD(1) [OF cov] by (simp add: ms.acc_ok_def)
  have iid: "accepted_iid r = prepare_iid req" using ms.view_iid [OF ok higher(2)] .
  have rc: "record_covers V P a (accepted_iid r) (Some r)"
    using acceptor_coversD(2) [OF cov higher(1)] higher(2) iid by simp
  have "promise_ok n V (promise_of r) a"
    using covers_promise_ok [OF rc mem_view_wf [OF ok higher(2)] a] .
  moreover have "acceptor_covers V ?P a x'"
  proof -
    have "record_covers V ?P a i (mem_view (acc_store x) i)" if ans: "ms.answers x i" for i
    proof (cases "i = accepted_iid r")
      case True
      then show ?thesis using rc higher(2) iid by (auto simp: record_covers_def)
    next
      case False
      then show ?thesis using acceptor_coversD(2) [OF cov ans]
        by (auto simp: record_covers_def split: option.splits)
    qed
    then have "acceptor_covers V ?P a x"
      using acceptor_coversD(1) [OF cov] by (simp add: acceptor_covers_def)
    then show ?thesis using higher(4) by (rule covers_keeps)
  qed
  ultimately show ?thesis using higher(5) by (simp add: to_promise_eq)
qed

lemma acceptor_accept_covers:
  assumes cov: "acceptor_covers V P a x"
    and val: "value_wf (accept_value req)" "has_bytes (accept_value req)"
    and rcv: "acceptor_receive_accept x req = Inr (x', out)"
  shows "(\<forall>r. out \<noteq> Some (PAXOS_ACCEPTED r)) \<and> (\<forall>p. out \<noteq> Some (PAXOS_PROMISE p)) \<and>
           acceptor_covers V P a x' \<or>
    (\<exists>r. out = Some (PAXOS_ACCEPTED r) \<and> accepted_iid r = accept_iid req \<and>
       accepted_ballot r = accept_ballot req \<and> accepted_value r = accept_value req \<and>
       (\<forall>p. (p, a) \<in> P \<longrightarrow> promise_iid p = accept_iid req \<longrightarrow> promise_ballot p \<le> accept_ballot req) \<and>
       acceptor_covers (insert (r, a) V) P a x')"
  using acceptor_coversD(1) [OF cov] val(1) rcv
proof (cases rule: ms.accept_request_cases)
  case trimmed
  then show ?thesis using cov by simp
next
  case accepted
  define r where "r = paxos_accept_to_accepted req"
  let ?found = "mem_view (acc_store x) (accept_iid req)" and ?V = "insert (r, a) V"
  have f: "accepted_iid r = accept_iid req" "accepted_ballot r = accept_ballot req"
      "accepted_value_ballot r = accept_ballot req" "accepted_value r = accept_value req"
    using accept_to_accepted_value [OF val(1)] val(2) by (simp_all add: r_def has_bytes_def)
  have rc: "record_covers V P a (accept_iid req) ?found" using acceptor_coversD(2) [OF cov accepted(1)] .
  have low: "b \<le> accept_ballot req" if "voted V a (accept_iid req) b v" for b v
    using rc accepted(2) that by (fastforce simp: record_covers_def promised_def split: option.splits)
  have prom: "promise_ballot p \<le> accept_ballot req" if "(p, a) \<in> P" "promise_iid p = accept_iid req" for p
    using rc accepted(2) that by (fastforce simp: record_covers_def promised_def split: option.splits)
  have new: "record_covers ?V P a (accepted_iid r) (Some r)"
    using low prom val(2) by (auto simp: record_covers_def f voted_insert)
  have "acceptor_covers ?V P a x'"
  proof (rule covers_stores [OF cov _ new])
    show "ms.stores x r x'" using accepted(3) by (simp add: r_def)
  next
    fix i found
    assume "i \<noteq> accepted_iid r" "record_covers V P a i found"
    then show "record_covers ?V P a i found" by (auto simp: record_covers_def voted_insert split: option.splits)
  qed
  then show ?thesis using accepted(4) f prom by (auto simp: r_def)
next
  case (preempted r)
  then show ?thesis using covers_keeps [OF cov] by (simp add: paxos_accepted_to_preempted_def)
qed

lemma acceptor_trim_covers:
  assumes cov: "acceptor_covers V P a x" and t: "acceptor_receive_trim x t = Inr (x', d)"
  shows "acceptor_covers V P a x'"
proof -
  have spec: "ms.acc_ok x'" "acc_trim_iid x \<le> acc_trim_iid x'"
    "\<And>i. acc_trim_iid x' < i \<Longrightarrow> mem_view (acc_store x') i = mem_view (acc_store x) i \<and>
       mem_lost (acc_store x') i = mem_lost (acc_store x) i"
    using ms.trim_spec [OF acceptor_coversD(1) [OF cov], of t] t by auto
  have "record_covers V P a i (mem_view (acc_store x') i)" if ans: "ms.answers x' i" for i
  proof -
    have i: "acc_trim_iid x' < i" using ans by (simp add: ms.answers_def)
    then have "ms.answers x i" using ans spec(2) spec(3) [OF i] by (auto simp: ms.answers_def)
    then show ?thesis using acceptor_coversD(2) [OF cov] spec(3) [OF i] by simp
  qed
  then show ?thesis using spec(1) by (simp add: acceptor_covers_def)
qed

section \<open>Proposers\<close>

definition owns :: "int \<Rightarrow> ballot_t \<Rightarrow> bool" where
  "owns i b \<longleftrightarrow> MAX_N_OF_PROPOSERS \<le> unat b \<and> int (unat b mod MAX_N_OF_PROPOSERS) = i"

lemma owns_unique: "owns i b \<Longrightarrow> owns j b \<Longrightarrow> i = j"
  by (simp add: owns_def)

lemma owns_pos: "owns i b \<Longrightarrow> 0 < b"
  by (auto simp: owns_def MAX_N_OF_PROPOSERS_def word_less_nat_alt)

lemma owns_first: "proposer_id_ok (p_id p) \<Longrightarrow> owns (p_id p) (proposer_next_ballot p 0)"
  using next_ballot_first [of p] by (auto simp: owns_def proposer_id_ok_def MAX_N_OF_PROPOSERS_def)

text \<open>The next ballot is higher and has the same owner, unless it wraps around.\<close>

lemma next_ballot_wraps:
  assumes "owns i b" and "MAX_N_OF_PROPOSERS \<le> unat (proposer_next_ballot p b)"
  shows "unat b + MAX_N_OF_PROPOSERS < 2 ^ 32"
proof (rule ccontr)
  assume big: "\<not> unat b + MAX_N_OF_PROPOSERS < 2 ^ 32"
  have "unat b < 2 ^ 32" using unsigned_less [of b] by simp
  with big have "(MAX_N_OF_PROPOSERS + unat b) mod 2 ^ 32 = MAX_N_OF_PROPOSERS + unat b - 2 ^ 32"
    by (subst le_mod_geq) (simp_all add: MAX_N_OF_PROPOSERS_def)
  also have "\<dots> < MAX_N_OF_PROPOSERS" using \<open>unat b < 2 ^ 32\<close> big by (simp add: MAX_N_OF_PROPOSERS_def)
  finally show False
    using assms owns_pos [OF assms(1)]
    by (simp add: proposer_next_ballot_def MAX_N_OF_PROPOSERS_def unat_word_ariths)
qed

lemma owns_next:
  assumes "owns i b" and "MAX_N_OF_PROPOSERS \<le> unat (proposer_next_ballot p b)"
  shows "owns i (proposer_next_ballot p b)" and "b < proposer_next_ballot p b"
  using assms next_ballot_step [OF owns_pos [OF assms(1)] next_ballot_wraps [OF assms], of p]
  by (simp_all add: owns_def word_less_nat_alt MAX_N_OF_PROPOSERS_def)

text \<open>
  An instance waiting for promises is ahead of all accept requests of its proposer, and the
  promises it has counted back the value it would propose.
\<close>

definition prepare_inst_ok ::
  "(paxos_promise \<times> int) set \<Rightarrow> (paxos_accept \<times> int) set \<Rightarrow> (paxos_accepted \<times> int) set \<Rightarrow> int \<Rightarrow>
     iid_t \<Rightarrow> pinstance \<Rightarrow> bool" where
  "prepare_inst_ok P A V i k inst \<longleftrightarrow>
     owns i (pi_ballot inst) \<and>
     (\<forall>m. (m, i) \<in> A \<longrightarrow> accept_iid m = k \<longrightarrow> accept_ballot m < pi_ballot inst) \<and>
     (pi_promised_value inst = None \<longrightarrow> pi_value_ballot inst = 0) \<and>
     backed P V k (pi_ballot inst) (quorum_voters (pi_quorum inst)) (pi_promised_value inst)
       (pi_value_ballot inst)"

text \<open>An instance waiting for accepted messages has sent its accept request.\<close>

definition accept_inst_ok :: "(paxos_accept \<times> int) set \<Rightarrow> int \<Rightarrow> iid_t \<Rightarrow> pinstance \<Rightarrow> bool" where
  "accept_inst_ok A i k inst \<longleftrightarrow>
     owns i (pi_ballot inst) \<and>
     (\<forall>m. (m, i) \<in> A \<longrightarrow> accept_iid m = k \<longrightarrow> accept_ballot m \<le> pi_ballot inst) \<and>
     (\<forall>v. pinst_choice inst = Some v \<longrightarrow>
        (\<lparr>accept_iid = k, accept_ballot = pi_ballot inst, accept_value = v\<rparr>, i) \<in> A)"

definition proposer_covers ::
  "int \<Rightarrow> paxos_value set \<Rightarrow> (paxos_promise \<times> int) set \<Rightarrow> (paxos_accept \<times> int) set \<Rightarrow>
     (paxos_accepted \<times> int) set \<Rightarrow> int \<Rightarrow> proposer \<Rightarrow> bool" where
  "proposer_covers n W P A V i p \<longleftrightarrow>
     p_id p = i \<and> p_acceptors p = n \<and> proposer_inv p \<and>
     (\<forall>v. v \<in># proposer_pending p \<longrightarrow> v \<in> W \<and> has_bytes v) \<and>
     (\<forall>k inst. kh_map (p_prepare_instances p) k = Some inst \<longrightarrow> prepare_inst_ok P A V i k inst) \<and>
     (\<forall>k inst. kh_map (p_accept_instances p) k = Some inst \<longrightarrow> accept_inst_ok A i k inst) \<and>
     (\<forall>m. (m, i) \<in> A \<longrightarrow> accept_iid m \<le> p_next_prepare_iid p)"

lemma proposer_coversD:
  assumes "proposer_covers n W P A V i p"
  shows "p_id p = i" and "p_acceptors p = n" and "proposer_inv p"
    and "v \<in># proposer_pending p \<Longrightarrow> v \<in> W" and "v \<in># proposer_pending p \<Longrightarrow> has_bytes v"
    and "kh_map (p_prepare_instances p) k = Some inst \<Longrightarrow> prepare_inst_ok P A V i k inst"
    and "kh_map (p_accept_instances p) k = Some inst \<Longrightarrow> accept_inst_ok A i k inst"
    and "(m, i) \<in> A \<Longrightarrow> accept_iid m \<le> p_next_prepare_iid p"
  using assms unfolding proposer_covers_def by blast+

lemma proposer_coversI:
  assumes "p_id p = i" and "p_acceptors p = n" and "proposer_inv p"
    and "\<And>v. v \<in># proposer_pending p \<Longrightarrow> v \<in> W \<and> has_bytes v"
    and "\<And>k inst. kh_map (p_prepare_instances p) k = Some inst \<Longrightarrow> prepare_inst_ok P A V i k inst"
    and "\<And>k inst. kh_map (p_accept_instances p) k = Some inst \<Longrightarrow> accept_inst_ok A i k inst"
    and "\<And>m. (m, i) \<in> A \<Longrightarrow> accept_iid m \<le> p_next_prepare_iid p"
  shows "proposer_covers n W P A V i p"
  unfolding proposer_covers_def using assms by blast

lemma start_proposer_covers: "0 \<le> n \<Longrightarrow> proposer_covers n W {} {} {} i (proposer_new i n)"
proof (rule proposer_coversI)
  show "0 \<le> n \<Longrightarrow> proposer_inv (proposer_new i n)" by (rule proposer_new_inv)
qed (auto simp: proposer_pending_def table_pending_def kh_entries_def proposer_new_def
    carray_new_list kh_init_def kh_map_def)

text \<open>The history of the others only grows.\<close>

lemma prepare_inst_mono:
  "prepare_inst_ok P A V i k inst \<Longrightarrow> P \<subseteq> P' \<Longrightarrow> V \<subseteq> V' \<Longrightarrow> prepare_inst_ok P' A V' i k inst"
  using backed_mono by (auto simp: prepare_inst_ok_def)

lemma proposer_covers_mono:
  assumes "proposer_covers n W P A V i p" and "W \<subseteq> W'" and "P \<subseteq> P'" and "V \<subseteq> V'"
  shows "proposer_covers n W' P' A V' i p"
  using assms(1,2) prepare_inst_mono [OF _ assms(3,4)] unfolding proposer_covers_def by blast

lemma proposer_covers_other:
  assumes "proposer_covers n W P A V i p" and "j \<noteq> i"
  shows "proposer_covers n W P (insert (m, j) A) V i p"
  using assms
  by (auto simp: proposer_covers_def prepare_inst_ok_def accept_inst_ok_def)

text \<open>A fresh ballot has no promises yet.\<close>

lemma fresh_backed: "backed P V k b {} None hi"
  by (simp add: backed_def)

lemma preempted_inst_ok:
  assumes own: "owns i (pi_ballot inst)" and sane: "MAX_N_OF_PROPOSERS \<le> unat (proposer_next_ballot p (pi_ballot inst))"
    and low: "\<And>m. (m, i) \<in> A \<Longrightarrow> accept_iid m = k \<Longrightarrow> accept_ballot m \<le> pi_ballot inst"
  shows "prepare_inst_ok P A V i k (preempted_pinstance p inst now)"
  using owns_next [OF own sane] low
  by (fastforce simp: prepare_inst_ok_def quorum_clear_voters fresh_backed)

lemma covers_propose:
  assumes cov: "proposer_covers n W P A V i p" and bs: "bs \<noteq> []"
  defines "v \<equiv> paxos_value_new bs (int (length bs))"
  shows "proposer_covers n (insert v W) P A V i (proposer_propose p bs (int (length bs)))"
proof (rule proposer_coversI)
  let ?p = "proposer_propose p bs (int (length bs))"
  note c = proposer_coversD [OF cov]
  show "proposer_inv ?p" using proposer_propose_inv [OF c(3)] by simp
  have pend: "proposer_pending ?p = proposer_pending p + {#v#}"
    using proposer_invD(2) [OF c(3)]
    by (simp add: proposer_pending_def proposer_propose_def carray_push_back_list v_def)
  show "w \<in> insert v W \<and> has_bytes w" if "w \<in># proposer_pending ?p" for w
    using that pend c(4,5) bs by (auto simp: v_def has_bytes_def paxos_value_new_def)
qed (use proposer_coversD [OF cov] in \<open>auto simp: proposer_propose_def\<close>)

lemma covers_prepare:
  assumes cov: "proposer_covers n W P A V i p" and i: "proposer_id_ok i"
    and pr: "proposer_prepare p now = Inr (p', out)"
  shows "proposer_covers n W P A V i p'"
proof -
  note c = proposer_coversD [OF cov]
  have nw: "p_next_prepare_iid p \<noteq> -1" using pr prepare_wraps [of p now] by auto
  let ?k = "p_next_prepare_iid p + 1"
  have less: "p_next_prepare_iid p < ?k" using word_less_plus1_self [OF nw] .
  note put = kh_put_key_spec [OF proposer_invD(4) [OF c(3)] prepare_key_fresh(1) [OF c(3) nw], of "fresh_pinstance p now"]
  have p': "p' = p\<lparr>p_next_prepare_iid := ?k,
      p_prepare_instances := kh_put_key (p_prepare_instances p) ?k (fresh_pinstance p now)\<rparr>"
    using pr prepare_eq [OF c(3) nw, of now] by simp
  note inv = prepare_inv [OF c(3) nw pr]
  have no: "accept_iid m \<noteq> ?k" if "(m, i) \<in> A" for m
    using c(8) [OF that] less by auto
  have new: "prepare_inst_ok P A V i ?k (fresh_pinstance p now)"
    using no owns_first [of p] c(1) i by (auto simp: prepare_inst_ok_def quorum_init_voters fresh_backed)
  show ?thesis
  proof (rule proposer_coversI)
    show "prepare_inst_ok P A V i k inst" if "kh_map (p_prepare_instances p') k = Some inst" for k inst
      using that put(2) new c(6) by (auto simp: p' split: if_splits)
    show "accept_iid m \<le> p_next_prepare_iid p'" if "(m, i) \<in> A" for m
      using c(8) [OF that] less by (simp add: p')
    show "accept_inst_ok A i k inst" if "kh_map (p_accept_instances p') k = Some inst" for k inst
      using that c(7) by (simp add: p')
  qed (use c(1,2,4,5) inv in \<open>auto simp: p'\<close>)
qed

text \<open>Counting a promise.\<close>

lemma supports_weaken:
  "supports P i b choice hi a \<Longrightarrow> (choice \<noteq> None \<Longrightarrow> choice' \<noteq> None) \<Longrightarrow> hi \<le> hi' \<Longrightarrow>
   supports P i b choice' hi' a"
  unfolding supports_def by fastforce

lemma counted_inst_ok:
  assumes ok: "prepare_inst_ok P A V i k inst" and h: "history_ok n W P A V"
    and m: "(m, a) \<in> P" "promise_iid m = k" "promise_ballot m = pi_ballot inst"
    and q: "quorum_add (pi_quorum inst) a = Inr (q, r)"
    and own: "\<And>m j. (m, j) \<in> A \<Longrightarrow> owns j (accept_ballot m)"
  shows "prepare_inst_ok P A V i k (promise_value_saved (inst\<lparr>pi_quorum := q\<rparr>) m)"
proof -
  let ?inst = "inst\<lparr>pi_quorum := q\<rparr>"
  let ?new = "promise_value_saved ?inst m"
  note pm = history_okD(1) [OF h m(1)]
  have wf: "value_wf (promise_value m)" using pm by (simp add: promise_ok_def)
  note sv = promise_value_saved_value [OF wf, of ?inst, unfolded has_bytes_def [symmetric]]
  have vot: "quorum_voters q = insert a (quorum_voters (pi_quorum inst))" using qc.voters_add [OF q] .
  have b: "backed P V k (pi_ballot inst) (quorum_voters (pi_quorum inst)) (pi_promised_value inst) (pi_value_ballot inst)"
    and none: "pi_promised_value inst = None \<Longrightarrow> pi_value_ballot inst = 0"
    using ok by (simp_all add: prepare_inst_ok_def)
  have pos: "0 < promise_value_ballot m" if hb: "has_bytes (promise_value m)"
  proof -
    have "voted V a (promise_iid m) (promise_value_ballot m) (promise_value m)"
      using pm hb by (simp add: promise_ok_def)
    then obtain x j where "(x, j) \<in> A" "accept_ballot x = promise_value_ballot m"
      using vote_accept [OF h] by blast
    then show ?thesis using owns_pos [OF own [of x j]] by simp
  qed
  have kept: "pi_promised_value inst \<noteq> None \<Longrightarrow> pi_promised_value ?new \<noteq> None"
    using sv(1) by simp
  have mono: "pi_value_ballot inst \<le> pi_value_ballot ?new" using sv(2) by auto
  have old: "supports P k (pi_ballot inst) (pi_promised_value ?new) (pi_value_ballot ?new) a'"
    if a': "a' \<in> quorum_voters (pi_quorum inst)" for a'
  proof -
    have "supports P k (pi_ballot inst) (pi_promised_value inst) (pi_value_ballot inst) a'"
      using b a' unfolding backed_def by blast
    then show ?thesis using kept mono by (rule supports_weaken)
  qed
  have "has_bytes (promise_value m) \<Longrightarrow>
      pi_promised_value ?new \<noteq> None \<and> promise_value_ballot m \<le> pi_value_ballot ?new"
    using sv none pos by (cases "pi_promised_value inst") (auto simp: not_less)
  then have mine: "supports P k (pi_ballot inst) (pi_promised_value ?new) (pi_value_ballot ?new) a"
    using m unfolding supports_def by blast
  have ch: "pi_value_ballot ?new \<le> pi_ballot inst \<and> (\<exists>a. voted V a k (pi_value_ballot ?new) v)"
    if v: "pi_promised_value ?new = Some v" for v
  proof (cases "has_bytes (promise_value m) \<and> pi_value_ballot inst < promise_value_ballot m")
    case True
    then show ?thesis using sv v pm m(2,3) by (auto simp: promise_ok_def)
  next
    case False
    then have "pi_promised_value inst = Some v" "pi_value_ballot ?new = pi_value_ballot inst"
      using sv v by auto
    then show ?thesis using b by (simp add: backed_def)
  qed
  have "backed P V k (pi_ballot inst) (quorum_voters q) (pi_promised_value ?new) (pi_value_ballot ?new)"
    using old mine ch vot by (auto simp: backed_def)
  moreover have "pi_promised_value ?new = None \<Longrightarrow> pi_value_ballot ?new = 0"
    using sv none by (auto split: if_splits)
  ultimately show ?thesis using ok by (simp add: prepare_inst_ok_def)
qed

lemma covers_receive_promise:
  assumes cov: "proposer_covers n W P A V i p" and h: "history_ok n W P A V"
    and own: "\<And>m j. (m, j) \<in> A \<Longrightarrow> owns j (accept_ballot m)"
    and m: "(m, a) \<in> P" and sane: "ballot_sane out"
    and rcv: "proposer_receive_promise p m a now = Inr (p', out)"
  shows "proposer_covers n W P A V i p'"
proof -
  note c = proposer_coversD [OF cov]
  have pm: "value_wf (promise_value m)" "0 \<le> a" "a < p_acceptors p"
    using history_okD(1) [OF h m] c(2) by (auto simp: promise_ok_def)
  have main: "proposer_covers n W P A V i (p\<lparr>p_prepare_instances := h'\<rparr>)"
    if p': "p' = p\<lparr>p_prepare_instances := h'\<rparr>"
      and h': "\<And>k x. kh_map h' k = Some x \<Longrightarrow>
            prepare_inst_ok P A V i k x \<or> kh_map (p_prepare_instances p) k = Some x" for h'
  proof (rule proposer_coversI)
    show "prepare_inst_ok P A V i k x"
      if "kh_map (p_prepare_instances (p\<lparr>p_prepare_instances := h'\<rparr>)) k = Some x" for k x
      using that h' [of k x] c(6) by auto
  qed (use c receive_promise_inv [OF c(3) pm rcv, unfolded p'] in auto)
  from c(3) pm(2,3) show ?thesis
  proof (cases rule: receive_promise_cases [of p a m now])
    case dropped
    then show ?thesis using rcv cov by simp
  next
    case (preempted inst h')
    note ok = c(6) [OF preempted(1)]
    have "MAX_N_OF_PROPOSERS \<le> unat (proposer_next_ballot p (pi_ballot inst))"
      using sane rcv preempted(3) by (auto simp: ballot_sane_def)
    then have new: "prepare_inst_ok P A V i (promise_iid m) (preempted_pinstance p inst now)"
      using ok by (intro preempted_inst_ok) (auto simp: prepare_inst_ok_def intro: order.strict_implies_order)
    have "p' = p\<lparr>p_prepare_instances := h'\<rparr>" using rcv preempted(3) by simp
    moreover have "prepare_inst_ok P A V i k x \<or> kh_map (p_prepare_instances p) k = Some x"
      if "kh_map h' k = Some x" for k x
      using that new preempted(5) by (auto split: if_splits)
    ultimately show ?thesis using main [of h'] by simp
  next
    case (duplicate inst h')
    have "p' = p\<lparr>p_prepare_instances := h'\<rparr>" using rcv duplicate(3) by simp
    then show ?thesis using main [of h'] duplicate(5) by simp
  next
    case (counted inst q h')
    have new: "prepare_inst_ok P A V i (promise_iid m) (promise_value_saved (inst\<lparr>pi_quorum := q\<rparr>) m)"
      using counted_inst_ok [OF c(6) [OF counted(1)] h m refl counted(2,4) own] .
    have "p' = p\<lparr>p_prepare_instances := h'\<rparr>" using rcv counted(5) by simp
    moreover have "prepare_inst_ok P A V i k x \<or> kh_map (p_prepare_instances p) k = Some x"
      if "kh_map h' k = Some x" for k x
      using that new counted(7) by (auto split: if_splits)
    ultimately show ?thesis using main [of h'] by simp
  qed
qed

text \<open>
  Proposing: the accept request is backed by the promises of a majority, and it is the first
  of its proposer for this instance and ballot.
\<close>

lemma covers_accept:
  assumes cov: "proposer_covers n W P A V i p" and h: "history_ok n W P A V"
    and own: "\<And>m j. (m, j) \<in> A \<Longrightarrow> owns j (accept_ballot m)"
    and acc: "proposer_accept p = Inr (p', Some m)"
  shows "proposer_covers n W P (insert (m, i) A) V i p'"
    and "history_ok n W P (insert (m, i) A) V" and "owns i (accept_ballot m)"
proof -
  note c = proposer_coversD [OF cov]
  have "proposer_covers n W P (insert (m, i) A) V i p' \<and>
      history_ok n W P (insert (m, i) A) V \<and> owns i (accept_ballot m)"
    using c(3)
  proof (cases rule: accept_cases)
    case idle
    then show ?thesis using acc by simp
  next
    case (accept inst inst' w v vals f t)
    let ?k = "pi_iid inst" and ?b = "pi_ballot inst"
    have m: "m = \<lparr>accept_iid = ?k, accept_ballot = ?b, accept_value = v\<rparr>"
      and p': "p' = p\<lparr>p_values := vals, p_prepare_instances := f, p_accept_instances := t\<rparr>"
      using acc accept(7) by auto
    note ok = c(6) [OF accept(1)]
    have iok: "pinst_ok n (p_next_prepare_iid p) ?k inst"
      using proposer_invD(6) [OF c(3) accept(1)] c(2) by simp
    have ob: "owns i ?b" and low: "\<And>x. (x, i) \<in> A \<Longrightarrow> accept_iid x = ?k \<Longrightarrow> accept_ballot x < ?b"
      and bk: "backed P V ?k ?b (quorum_voters (pi_quorum inst)) (pi_promised_value inst) (pi_value_ballot inst)"
      using ok by (auto simp: prepare_inst_ok_def)
    have maj: "majority n (quorum_voters (pi_quorum inst))"
      using accept(3) iok quorum_reached_iff_majority by (simp add: pinst_ok_def)
    have hi: "pi_value_ballot inst < ?b" if pv: "pi_promised_value inst = Some x" for x
    proof -
      obtain a where "pi_value_ballot inst \<le> ?b" "voted V a ?k (pi_value_ballot inst) x"
        using bk pv by (auto simp: backed_def)
      moreover then obtain y j where y: "(y, j) \<in> A" "accept_iid y = ?k" "accept_ballot y = pi_value_ballot inst"
        using vote_accept [OF h] by blast
      have "pi_value_ballot inst \<noteq> ?b"
      proof
        assume eq: "pi_value_ballot inst = ?b"
        then have "j = i" using owns_unique [OF own [OF y(1)]] ob y(3) by simp
        then show False using low y eq by force
      qed
      ultimately show ?thesis by simp
    qed
    have inv': "proposer_inv p'" "proposer_pending p' = proposer_pending p"
      using accept_inv [OF c(3) acc] by auto
    have tk: "kh_map (p_accept_instances p') ?k = Some inst'" using accept(11) by (simp add: p')
    have val: "v \<in> W \<and> value_wf v \<and> has_bytes v"
    proof (cases "pi_promised_value inst")
      case None
      then have "pi_value inst' = Some v" using accept(5,6) by (simp add: pinst_choice_def)
      then have "v \<in># inst_pending inst'" by (simp add: inst_pending_def)
      then have "v \<in># table_pending t" using table_pending_add [OF accept(14)] by simp
      then have "v \<in># proposer_pending p'" by (simp add: proposer_pending_def p')
      then show ?thesis using c(4,5) inv' pending_wf by metis
    next
      case (Some x)
      then have "x = v" using accept(5,6) by (simp add: pinst_choice_def)
      then obtain a where "voted V a ?k (pi_value_ballot inst) v" using bk Some by (auto simp: backed_def)
      then obtain y j where "(y, j) \<in> A" "accept_value y = v" using vote_accept [OF h] by blast
      then show ?thesis using history_okD(2) [OF h] by (auto simp: accept_ok_def)
    qed
    have "pi_promised_value inst = Some x \<Longrightarrow> v = x" for x
      using accept(5,6) by (simp add: pinst_choice_def)
    then have mok: "accept_ok n W P V m"
      unfolding accept_ok_def using val maj bk hi
      by (auto simp: m intro!: exI [of _ "quorum_voters (pi_quorum inst)"]
          exI [of _ "pi_promised_value inst"] exI [of _ "pi_value_ballot inst"])
    have uniq: "accept_value m' = accept_value m"
      if m': "(m', j') \<in> A" "accept_iid m' = accept_iid m" "accept_ballot m' = accept_ballot m" for m' j'
    proof -
      have "j' = i" using owns_unique [OF own [OF m'(1)]] ob m'(3) by (simp add: m)
      then show ?thesis using low m' by (force simp: m)
    qed
    have h': "history_ok n W P (insert (m, i) A) V" using history_accept [OF h mok uniq] .
    have pin: "prepare_inst_ok P (insert (m, i) A) V i k x" if "kh_map (p_prepare_instances p') k = Some x" for k x
    proof -
      have "k \<noteq> ?k" "kh_map (p_prepare_instances p) k = Some x"
        using that accept(10) by (auto simp: p' split: if_splits)
      then show ?thesis using c(6) by (auto simp: prepare_inst_ok_def m)
    qed
    have ain: "accept_inst_ok (insert (m, i) A) i k x" if "kh_map (p_accept_instances p') k = Some x" for k x
    proof (cases "k = ?k")
      case True
      then have "x = inst'" using that tk by simp
      then show ?thesis using ob low accept(5,6) True
        by (force simp: accept_inst_ok_def m)
    next
      case False
      then have "kh_map (p_accept_instances p) k = Some x" using that accept(11) by (simp add: p')
      then show ?thesis using c(7) False by (auto simp: accept_inst_ok_def m)
    qed
    have "proposer_covers n W P (insert (m, i) A) V i p'"
    proof (rule proposer_coversI)
      show "accept_iid x \<le> p_next_prepare_iid p'" if "(x, i) \<in> insert (m, i) A" for x
        using that c(8) iok by (auto simp: m p' pinst_ok_def)
    qed (use c(1,2,4,5) inv' pin ain in \<open>auto simp: p'\<close>)
    then show ?thesis using h' ob by (simp add: m)
  qed
  then show "proposer_covers n W P (insert (m, i) A) V i p'"
    and "history_ok n W P (insert (m, i) A) V" and "owns i (accept_ballot m)" by auto
qed

lemma covers_accept_idle:
  assumes cov: "proposer_covers n W P A V i p" and acc: "proposer_accept p = Inr (p', None)"
  shows "proposer_covers n W P A V i p'"
  using proposer_coversD(3) [OF cov]
proof (cases rule: accept_cases)
  case idle
  then show ?thesis using acc cov by simp
next
  case (accept inst inst' w v vals f t)
  then show ?thesis using acc by simp
qed

text \<open>The other handlers.\<close>

lemma accept_inst_votes:
  "accept_inst_ok A i k inst \<Longrightarrow> accept_inst_ok A i k (inst\<lparr>pi_quorum := q\<rparr>)"
  by (simp add: accept_inst_ok_def)

lemma covers_receive_accepted:
  assumes cov: "proposer_covers n W P A V i p" and a: "0 \<le> a" "a < n"
    and rcv: "proposer_receive_accepted p m a = Inr (p', counts)"
  shows "proposer_covers n W P A V i p'"
proof -
  note c = proposer_coversD [OF cov]
  have a': "a < p_acceptors p" using a(2) c(2) by simp
  have sub: "v \<in># proposer_pending p" if "v \<in># proposer_pending p'" for v
    using receive_accepted_inv [OF c(3) a(1) a' rcv] that by (metis union_iff)
  note inv' = receive_accepted_inv [OF c(3) a(1) a' rcv, THEN conjunct1]
  from c(3) a(1) a' show ?thesis
  proof (cases rule: receive_accepted_cases [of p a m])
    case ignored
    then show ?thesis using rcv cov by simp
  next
    case (counted inst q h r)
    have p': "p' = p\<lparr>p_accept_instances := h\<rparr>" using rcv counted(5) by simp
    have "accept_inst_ok A i k x" if "kh_map h k = Some x" for k x
      using that counted(1,7) c(7) accept_inst_votes by (auto split: if_splits)
    then show ?thesis using c inv' sub by (intro proposer_coversI) (auto simp: p')
  next
    case (closed inst q h)
    have p': "p' = p\<lparr>p_values := proposer_requeue (p_values p) inst, p_accept_instances := h\<rparr>"
      using rcv closed(6) by simp
    have "accept_inst_ok A i k x" if "kh_map h k = Some x" for k x
      using that closed(8) c(7) by (auto split: if_splits)
    then show ?thesis using c inv' sub by (intro proposer_coversI) (auto simp: p')
  qed
qed

lemma covers_receive_preempted:
  assumes cov: "proposer_covers n W P A V i p" and sane: "ballot_sane out"
    and rcv: "proposer_receive_preempted p m now = Inr (p', out)"
  shows "proposer_covers n W P A V i p'"
proof -
  note c = proposer_coversD [OF cov]
  note inv' = receive_preempted_inv [OF c(3) rcv]
  from c(3) show ?thesis
  proof (cases rule: receive_preempted_cases [of p m now])
    case ignored
    then show ?thesis using rcv cov by simp
  next
    case (moved inst inst' f t)
    have p': "p' = p\<lparr>p_accept_instances := f, p_prepare_instances := t\<rparr>" using rcv moved(4) by simp
    note ok = c(7) [OF moved(1)]
    have "MAX_N_OF_PROPOSERS \<le> unat (proposer_next_ballot p (pi_ballot inst))"
      using sane rcv moved(4) by (auto simp: ballot_sane_def)
    then have new: "prepare_inst_ok P A V i (preempted_iid m) inst'"
      unfolding moved(3) using ok by (intro preempted_inst_ok) (auto simp: accept_inst_ok_def)
    have "prepare_inst_ok P A V i k x" if "kh_map t k = Some x" for k x
      using that moved(8) new c(6) by (auto split: if_splits)
    moreover have "accept_inst_ok A i k x" if "kh_map f k = Some x" for k x
      using that moved(7) c(7) by (auto split: if_splits)
    ultimately show ?thesis using c inv' by (intro proposer_coversI) (auto simp: p')
  qed
qed

lemma covers_acceptor_state:
  assumes cov: "proposer_covers n W P A V i p"
  shows "proposer_covers n W P A V i (proposer_receive_acceptor_state p st)"
proof (cases "state_trim_iid st < p_max_trim_iid p")
  case True
  then show ?thesis using cov by (simp add: proposer_receive_acceptor_state_def)
next
  case False
  let ?p = "proposer_receive_acceptor_state p st"
  note c = proposer_coversD [OF cov]
  note st = receive_acceptor_state_inv [OF c(3), of st]
  have maps: "kh_map (p_prepare_instances ?p) k = Some x \<Longrightarrow> kh_map (p_prepare_instances p) k = Some x"
    "kh_map (p_accept_instances ?p) k = Some x \<Longrightarrow> kh_map (p_accept_instances p) k = Some x" for k x
    using st(6) False by (auto simp: not_less split: if_splits)
  show ?thesis
  proof (rule proposer_coversI)
    show "accept_iid m \<le> p_next_prepare_iid ?p" if "(m, i) \<in> A" for m
      using c(8) [OF that] st(3) by simp
  qed (use c maps st in auto)
qed

lemma prepare_inst_touched: "prepare_inst_ok P A V i k (touched t inst) = prepare_inst_ok P A V i k inst"
  by (simp add: prepare_inst_ok_def)

lemma accept_inst_touched: "accept_inst_ok A i k (touched t inst) = accept_inst_ok A i k inst"
  by (simp add: accept_inst_ok_def touched_def)

lemma covers_timeout_prepare:
  assumes cov: "proposer_covers n W P A V i p"
    and t: "timeout_iterator_prepare cfg iter p = (iter', p', out)"
  shows "proposer_covers n W P A V i p'"
proof -
  note c = proposer_coversD [OF cov]
  note inv' = timeout_prepare_inv [OF c(3) t]
  from c(3) show ?thesis
  proof (cases rule: timeout_prepare_cases [of p cfg iter])
    case (finished j)
    then show ?thesis using t cov by simp
  next
    case (retry j k inst h)
    have p': "p' = p\<lparr>p_prepare_instances := h\<rparr>" using t retry(1) by simp
    have "prepare_inst_ok P A V i k' x" if "kh_map h k' = Some x" for k' x
      using that retry(2,6) c(6) prepare_inst_touched by (auto split: if_splits)
    then show ?thesis using c inv' by (intro proposer_coversI) (auto simp: p')
  qed
qed

text \<open>A repeated accept request is one that was sent before.\<close>

lemma covers_timeout_accept:
  assumes cov: "proposer_covers n W P A V i p"
    and t: "timeout_iterator_accept cfg iter p = Inr (iter', p', out)"
  shows "proposer_covers n W P A V i p' \<and> (\<forall>m. out = Some m \<longrightarrow> (m, i) \<in> A)"
proof -
  note c = proposer_coversD [OF cov]
  note inv' = timeout_accept_inv [OF c(3) t]
  from c(3) show ?thesis
  proof (cases rule: timeout_accept_cases [of p cfg iter])
    case (finished j)
    then show ?thesis using t cov by simp
  next
    case (retry j k inst v h)
    have p': "p' = p\<lparr>p_accept_instances := h\<rparr>"
      and out: "out = Some \<lparr>accept_iid = pi_iid inst, accept_ballot = pi_ballot inst, accept_value = v\<rparr>"
      using t retry(1) by auto
    have iid: "pi_iid inst = k" using proposer_invD(7) [OF c(3) retry(2)] by (simp add: pinst_ok_def)
    have "accept_inst_ok A i k' x" if "kh_map h k' = Some x" for k' x
      using that retry(2,7) c(7) accept_inst_touched by (auto split: if_splits)
    then have "proposer_covers n W P A V i p'" using c inv' by (intro proposer_coversI) (auto simp: p')
    moreover have "(\<lparr>accept_iid = k, accept_ballot = pi_ballot inst, accept_value = v\<rparr>, i) \<in> A"
      using c(7) [OF retry(2)] retry(4) by (simp add: accept_inst_ok_def)
    ultimately show ?thesis by (simp add: out iid)
  qed
qed

section \<open>The invariant of the system\<close>

definition delivered_ok :: "int \<Rightarrow> (paxos_accepted \<times> int) set \<Rightarrow> paxos_accepted \<Rightarrow> bool" where
  "delivered_ok n V r \<longleftrightarrow>
     (\<exists>a. (r, a) \<in> V) \<and> (\<exists>Q. majority n Q \<and> Q \<subseteq> backers V (accepted_iid r) (accepted_ballot r))"

definition sys_inv :: "int \<Rightarrow> paxos_system \<Rightarrow> bool" where
  "sys_inv n s \<longleftrightarrow>
     history_ok n (sys_proposed s) (sys_promises s) (sys_accepts s) (sys_accepteds s) \<and>
     (\<forall>m j. (m, j) \<in> sys_accepts s \<longrightarrow> owns j (accept_ballot m)) \<and>
     (\<forall>a. 0 \<le> a \<longrightarrow> a < n \<longrightarrow>
        acceptor_covers (sys_accepteds s) (sys_promises s) a (sys_acceptors s a)) \<and>
     (\<forall>i. proposer_id_ok i \<longrightarrow>
        proposer_covers n (sys_proposed s) (sys_promises s) (sys_accepts s) (sys_accepteds s) i
          (sys_proposers s i)) \<and>
     (\<forall>j. learner_inv n (sys_accepteds s) (sys_learners s j)) \<and>
     (\<forall>j r. (j, r) \<in> sys_delivered s \<longrightarrow> delivered_ok n (sys_accepteds s) r)"

lemma sys_invD:
  assumes "sys_inv n s"
  shows "history_ok n (sys_proposed s) (sys_promises s) (sys_accepts s) (sys_accepteds s)"
    and "\<And>m j. (m, j) \<in> sys_accepts s \<Longrightarrow> owns j (accept_ballot m)"
    and "\<And>a. 0 \<le> a \<Longrightarrow> a < n \<Longrightarrow>
           acceptor_covers (sys_accepteds s) (sys_promises s) a (sys_acceptors s a)"
    and "\<And>i. proposer_id_ok i \<Longrightarrow>
           proposer_covers n (sys_proposed s) (sys_promises s) (sys_accepts s) (sys_accepteds s) i
             (sys_proposers s i)"
    and "\<And>j. learner_inv n (sys_accepteds s) (sys_learners s j)"
    and "\<And>j r. (j, r) \<in> sys_delivered s \<Longrightarrow> delivered_ok n (sys_accepteds s) r"
  using assms unfolding sys_inv_def by blast+

lemma sys_invI:
  assumes "history_ok n (sys_proposed s) (sys_promises s) (sys_accepts s) (sys_accepteds s)"
    and "\<And>m j. (m, j) \<in> sys_accepts s \<Longrightarrow> owns j (accept_ballot m)"
    and "\<And>a. 0 \<le> a \<Longrightarrow> a < n \<Longrightarrow>
           acceptor_covers (sys_accepteds s) (sys_promises s) a (sys_acceptors s a)"
    and "\<And>i. proposer_id_ok i \<Longrightarrow>
           proposer_covers n (sys_proposed s) (sys_promises s) (sys_accepts s) (sys_accepteds s) i
             (sys_proposers s i)"
    and "\<And>j. learner_inv n (sys_accepteds s) (sys_learners s j)"
    and "\<And>j r. (j, r) \<in> sys_delivered s \<Longrightarrow> delivered_ok n (sys_accepteds s) r"
  shows "sys_inv n s"
  unfolding sys_inv_def using assms by blast

lemma start_inv: "0 \<le> n \<Longrightarrow> sys_inv n (sys_start cfg n)"
  by (rule sys_invI)
    (simp_all add: sys_start_def history_empty start_covers start_proposer_covers learner_inv_new)

lemma set_proposer_inv:
  assumes inv: "sys_inv n s"
    and p: "proposer_covers n (sys_proposed s) (sys_promises s) (sys_accepts s) (sys_accepteds s) i p"
  shows "sys_inv n (set_proposer i p s)"
  using sys_invD [OF inv] p by (intro sys_invI) simp_all

lemma set_learner_inv:
  assumes inv: "sys_inv n s" and l: "learner_inv n (sys_accepteds s) l"
  shows "sys_inv n (set_learner j l s)"
  using sys_invD [OF inv] l by (intro sys_invI) simp_all

lemma send_prepare_inv: "sys_inv n s \<Longrightarrow> sys_inv n (sys_send_prepare out s)"
  by (simp add: sys_inv_def)

lemma backers_mono: "V \<subseteq> V' \<Longrightarrow> backers V i b \<subseteq> backers V' i b"
  by (auto simp: backers_def)

lemma delivered_ok_mono: "delivered_ok n V r \<Longrightarrow> V \<subseteq> V' \<Longrightarrow> delivered_ok n V' r"
  unfolding delivered_ok_def using backers_mono by blast

text \<open>A proposer that sends an accept request.\<close>

lemma set_proposer_accept_inv:
  assumes inv: "sys_inv n s"
    and p: "proposer_covers n (sys_proposed s) (sys_promises s) (insert (m, i) (sys_accepts s)) (sys_accepteds s) i p"
    and h: "history_ok n (sys_proposed s) (sys_promises s) (insert (m, i) (sys_accepts s)) (sys_accepteds s)"
    and own: "owns i (accept_ballot m)"
  shows "sys_inv n (sys_send_accept i (Some m) (set_proposer i p s))"
proof (rule sys_invI)
  fix k
  assume "proposer_id_ok k"
  then show "proposer_covers n (sys_proposed (sys_send_accept i (Some m) (set_proposer i p s)))
      (sys_promises (sys_send_accept i (Some m) (set_proposer i p s)))
      (sys_accepts (sys_send_accept i (Some m) (set_proposer i p s)))
      (sys_accepteds (sys_send_accept i (Some m) (set_proposer i p s))) k
      (sys_proposers (sys_send_accept i (Some m) (set_proposer i p s)) k)"
    using p proposer_covers_other [OF sys_invD(4) [OF inv], of k i m] by simp
qed (use sys_invD [OF inv] h own in auto)

text \<open>An acceptor that answers.\<close>

lemma set_acceptor_inv:
  assumes inv: "sys_inv n s" and x: "acceptor_covers (sys_accepteds s) (sys_promises s) a x"
  shows "sys_inv n (set_acceptor a x s)"
  using sys_invD [OF inv] x by (intro sys_invI) simp_all

lemma promise_reply_inv:
  assumes inv: "sys_inv n s" and p: "promise_ok n (sys_accepteds s) p a"
    and x: "acceptor_covers (sys_accepteds s) (insert (p, a) (sys_promises s)) a x"
  shows "sys_inv n (sys_reply a (Some (PAXOS_PROMISE p)) (set_acceptor a x s))"
proof -
  note d = sys_invD [OF inv]
  have "acceptor_covers (sys_accepteds s) (insert (p, a) (sys_promises s)) a' (((sys_acceptors s)(a := x)) a')"
    if "0 \<le> a'" "a' < n" for a'
    using d(3) [OF that] x covers_other_promise [of a a'] by (cases "a' = a") auto
  moreover have "proposer_covers n (sys_proposed s) (insert (p, a) (sys_promises s)) (sys_accepts s)
      (sys_accepteds s) i (sys_proposers s i)" if "proposer_id_ok i" for i
    using proposer_covers_mono [OF d(4) [OF that] order_refl subset_insertI order_refl] .
  ultimately show ?thesis
    using d history_promise [OF d(1) p] by (intro sys_invI) (simp_all add: sys_reply_def)
qed

lemma accepted_reply_inv:
  assumes inv: "sys_inv n s" and r: "accepted_ok n (sys_accepts s) r a"
    and kept: "\<And>p. (p, a) \<in> sys_promises s \<Longrightarrow> promise_iid p = accepted_iid r \<Longrightarrow>
                 promise_ballot p \<le> accepted_ballot r"
    and x: "acceptor_covers (insert (r, a) (sys_accepteds s)) (sys_promises s) a x"
  shows "sys_inv n (sys_reply a (Some (PAXOS_ACCEPTED r)) (set_acceptor a x s))"
proof -
  note d = sys_invD [OF inv]
  have "acceptor_covers (insert (r, a) (sys_accepteds s)) (sys_promises s) a' (((sys_acceptors s)(a := x)) a')"
    if "0 \<le> a'" "a' < n" for a'
    using d(3) [OF that] x covers_other_accepted [of a a'] by (cases "a' = a") auto
  moreover have "proposer_covers n (sys_proposed s) (sys_promises s) (sys_accepts s)
      (insert (r, a) (sys_accepteds s)) i (sys_proposers s i)" if "proposer_id_ok i" for i
    using proposer_covers_mono [OF d(4) [OF that] order_refl order_refl subset_insertI] .
  moreover have "learner_inv n (insert (r, a) (sys_accepteds s)) (sys_learners s j)" for j
    using learner_inv_insert [OF d(5)] r by (simp add: accepted_ok_def)
  moreover have "delivered_ok n (insert (r, a) (sys_accepteds s)) q" if "(j, q) \<in> sys_delivered s" for j q
    using delivered_ok_mono [OF d(6) [OF that] subset_insertI] .
  ultimately show ?thesis
    using d history_accepted [OF d(1) r kept] by (intro sys_invI) (simp_all add: sys_reply_def)
qed

lemma preempted_reply_inv:
  assumes "sys_inv n s" and "\<And>p. out \<noteq> Some (PAXOS_PROMISE p)" and "\<And>r. out \<noteq> Some (PAXOS_ACCEPTED r)"
  shows "sys_inv n (sys_reply a out s)"
  using assms by (auto simp: sys_reply_def sys_inv_def split: option.split paxos_message.split)

lemma exec_acceptor_prepare_inv:
  assumes inv: "sys_inv n s" and e: "sys_exec rep n s (E_acceptor_prepare a m) = Some s'"
  shows "sys_inv n s'"
proof -
  obtain x out where a: "0 \<le> a" "a < n" and r: "acceptor_receive_prepare (sys_acceptors s a) m = Inr (x, out)"
    and s': "s' = sys_reply a out (set_acceptor a x s)"
    using e by (auto split: if_splits sum.splits)
  note cov = sys_invD(3) [OF inv a]
  from acceptor_prepare_covers [OF cov a r] show ?thesis
  proof (elim disjE exE conjE)
    assume "out = None" "x = sys_acceptors s a"
    then show ?thesis using set_acceptor_inv [OF inv cov] by (simp add: s' sys_reply_def)
  next
    fix p
    assume "out = Some (PAXOS_PROMISE p)" "promise_ok n (sys_accepteds s) p a"
      "acceptor_covers (sys_accepteds s) (insert (p, a) (sys_promises s)) a x"
    then show ?thesis using promise_reply_inv [OF inv] by (simp add: s')
  qed
qed

lemma exec_acceptor_accept_inv:
  assumes inv: "sys_inv n s" and e: "sys_exec rep n s (E_acceptor_accept a m i) = Some s'"
  shows "sys_inv n s'"
proof -
  obtain x out where a: "0 \<le> a" "a < n" and m: "(m, i) \<in> sys_accepts s"
    and r: "acceptor_receive_accept (sys_acceptors s a) m = Inr (x, out)"
    and s': "s' = sys_reply a out (set_acceptor a x s)"
    using e by (auto split: if_splits sum.splits)
  note d = sys_invD [OF inv]
  have val: "value_wf (accept_value m)" "has_bytes (accept_value m)"
    using history_okD(2) [OF d(1) m] by (simp_all add: accept_ok_def)
  from acceptor_accept_covers [OF d(3) [OF a] val r] show ?thesis
  proof (elim disjE exE conjE)
    assume "\<forall>r. out \<noteq> Some (PAXOS_ACCEPTED r)" "\<forall>p. out \<noteq> Some (PAXOS_PROMISE p)"
      "acceptor_covers (sys_accepteds s) (sys_promises s) a x"
    then show ?thesis using preempted_reply_inv [OF set_acceptor_inv [OF inv]] by (simp add: s')
  next
    fix r
    assume r: "out = Some (PAXOS_ACCEPTED r)" "accepted_iid r = accept_iid m"
      "accepted_ballot r = accept_ballot m" "accepted_value r = accept_value m"
      "\<forall>p. (p, a) \<in> sys_promises s \<longrightarrow> promise_iid p = accept_iid m \<longrightarrow> promise_ballot p \<le> accept_ballot m"
      "acceptor_covers (insert (r, a) (sys_accepteds s)) (sys_promises s) a x"
    have "accepted_ok n (sys_accepts s) r a"
      using a m r val(1) by (auto simp: accepted_ok_def)
    then show ?thesis using accepted_reply_inv [OF inv] r by (simp add: s')
  qed
qed

lemma exec_learner_inv:
  assumes inv: "sys_inv n s"
    and e: "sys_exec rep n s (E_learner_accepted j m a) = Some s' \<or>
            sys_exec rep n s (E_learner_deliver j) = Some s'"
  shows "sys_inv n s'"
  using e
proof
  note d = sys_invD [OF inv]
  assume "sys_exec rep n s (E_learner_accepted j m a) = Some s'"
  then obtain l where m: "(m, a) \<in> sys_accepteds s" and l: "learner_receive_accepted (sys_learners s j) m a = Inr l"
    and s': "s' = set_learner j l s"
    by (auto split: if_splits sum.splits)
  have ok: "value_wf (accepted_value m)" "0 \<le> a" "a < n"
    using history_okD(3) [OF d(1) m] by (simp_all add: accepted_ok_def)
  have "learner_inv n (sys_accepteds s) l"
    using learner_receive_inv [OF d(5) ok l] m by (simp add: insert_absorb)
  then show ?thesis using set_learner_inv [OF inv] by (simp add: s')
next
  note d = sys_invD [OF inv]
  assume e: "sys_exec rep n s (E_learner_deliver j) = Some s'"
  obtain l out where dl: "learner_deliver_next (sys_learners s j) = (l, out)"
    by (cases "learner_deliver_next (sys_learners s j)")
  note li = set_learner_inv [OF inv learner_deliver_inv [OF d(5) dl], of j]
  show ?thesis
  proof (cases out)
    case None
    then show ?thesis using e dl li by simp
  next
    case (Some r)
    have "delivered_ok n (sys_accepteds s) r"
      using d(5) [of j] dl
    proof (cases rule: deliver_cases)
      case wait
      then show ?thesis using Some by simp
    next
      case (deliver inst q)
      then have q: "li_final_value inst = Some r" using Some by simp
      show ?thesis
        using linst_ok_closed [OF deliver(4) q] by (auto simp: delivered_ok_def)
    qed
    then show ?thesis
      using e dl Some sys_invD [OF li] by (auto intro!: sys_invI)
  qed
qed

lemma exec_proposer_inv:
  assumes inv: "sys_inv n s" and e: "sys_exec rep n s ev = Some s'"
    and ev: "ev = E_propose i bs \<or> ev = E_prepare i now \<or> ev = E_promise i pm a now \<or>
             ev = E_accepted i am a \<or> ev = E_preempted i xm now \<or> ev = E_acceptor_state i st \<or>
             ev = E_timeout_prepare i cfg iter"
  shows "sys_inv n s'"
proof -
  note d = sys_invD [OF inv]
  have i: "proposer_id_ok i" using e ev by (auto split: if_splits)
  note cov = d(4) [OF i]
  show ?thesis
    using ev
  proof (elim disjE)
    assume ev: "ev = E_propose i bs"
    let ?v = "paxos_value_new bs (int (length bs))"
    have "bs \<noteq> []" and s': "s' = (set_proposer i (proposer_propose (sys_proposers s i) bs (int (length bs))) s)
             \<lparr>sys_proposed := insert ?v (sys_proposed s)\<rparr>"
      using e ev by (auto split: if_splits)
    then have p: "proposer_covers n (insert ?v (sys_proposed s)) (sys_promises s) (sys_accepts s)
        (sys_accepteds s) i (proposer_propose (sys_proposers s i) bs (int (length bs)))"
      using covers_propose [OF cov] by blast
    show ?thesis
    proof (rule sys_invI)
      fix k
      assume "proposer_id_ok k"
      then show "proposer_covers n (sys_proposed s') (sys_promises s') (sys_accepts s') (sys_accepteds s') k
          (sys_proposers s' k)"
        using p proposer_covers_mono [OF d(4) subset_insertI order_refl order_refl]
        by (auto simp: s')
    qed (use d history_proposed [OF d(1) subset_insertI, of ?v] in \<open>auto simp: s'\<close>)
  next
    assume "ev = E_prepare i now"
    then obtain p m where p: "proposer_prepare (sys_proposers s i) now = Inr (p, m)"
      and "s' = sys_send_prepare (Some m) (set_proposer i p s)"
      using e by (auto split: if_splits sum.splits)
    then show ?thesis using send_prepare_inv [OF set_proposer_inv [OF inv covers_prepare [OF cov i p]]] by simp
  next
    assume "ev = E_promise i pm a now"
    then obtain p out where m: "(pm, a) \<in> sys_promises s" "ballot_sane out"
      "proposer_receive_promise (sys_proposers s i) pm a now = Inr (p, out)"
      and "s' = sys_send_prepare out (set_proposer i p s)"
      using e by (auto split: if_splits sum.splits)
    then show ?thesis
      using send_prepare_inv [OF set_proposer_inv [OF inv covers_receive_promise [OF cov d(1,2) m]]] by simp
  next
    assume "ev = E_accepted i am a"
    then obtain p b where m: "(am, a) \<in> sys_accepteds s"
      "proposer_receive_accepted (sys_proposers s i) am a = Inr (p, b)" and s': "s' = set_proposer i p s"
      using e by (auto split: if_splits sum.splits)
    have "0 \<le> a" "a < n" using history_okD(3) [OF d(1) m(1)] by (simp_all add: accepted_ok_def)
    then show ?thesis
      using set_proposer_inv [OF inv covers_receive_accepted [OF cov _ _ m(2)]] by (simp add: s')
  next
    assume "ev = E_preempted i xm now"
    then obtain p out where m: "ballot_sane out"
      "proposer_receive_preempted (sys_proposers s i) xm now = Inr (p, out)"
      and "s' = sys_send_prepare out (set_proposer i p s)"
      using e by (auto split: if_splits sum.splits)
    then show ?thesis
      using send_prepare_inv [OF set_proposer_inv [OF inv covers_receive_preempted [OF cov m]]] by simp
  next
    assume "ev = E_acceptor_state i st"
    then show ?thesis using e set_proposer_inv [OF inv covers_acceptor_state [OF cov]] by (auto split: if_splits)
  next
    assume "ev = E_timeout_prepare i cfg iter"
    moreover obtain iter' p out where t: "timeout_iterator_prepare cfg iter (sys_proposers s i) = (iter', p, out)"
      by (cases "timeout_iterator_prepare cfg iter (sys_proposers s i)") auto
    ultimately show ?thesis
      using e send_prepare_inv [OF set_proposer_inv [OF inv covers_timeout_prepare [OF cov t]]]
      by (auto split: if_splits)
  qed
qed

lemma exec_proposer_accept_inv:
  assumes inv: "sys_inv n s"
    and e: "sys_exec rep n s (E_try_accept i) = Some s' \<or>
            sys_exec rep n s (E_timeout_accept i cfg iter) = Some s'"
  shows "sys_inv n s'"
  using e
proof
  note d = sys_invD [OF inv]
  assume "sys_exec rep n s (E_try_accept i) = Some s'"
  then obtain p out where i: "proposer_id_ok i" and a: "proposer_accept (sys_proposers s i) = Inr (p, out)"
    and s': "s' = sys_send_accept i out (set_proposer i p s)"
    by (auto split: if_splits sum.splits)
  show ?thesis
  proof (cases out)
    case None
    then show ?thesis
      using set_proposer_inv [OF inv covers_accept_idle [OF d(4) [OF i]]] a by (simp add: s' sys_send_accept_def)
  next
    case (Some m)
    then have "proposer_accept (sys_proposers s i) = Inr (p, Some m)" using a by simp
    note ca = covers_accept [OF d(4) [OF i] d(1,2) this]
    show ?thesis using set_proposer_accept_inv [OF inv ca] by (simp add: s' Some)
  qed
next
  note d = sys_invD [OF inv]
  assume "sys_exec rep n s (E_timeout_accept i cfg iter) = Some s'"
  then obtain it p out where i: "proposer_id_ok i"
    and a: "timeout_iterator_accept cfg iter (sys_proposers s i) = Inr (it, p, out)"
    and s': "s' = sys_send_accept i out (set_proposer i p s)"
    by (auto split: if_splits sum.splits)
  note ct = covers_timeout_accept [OF d(4) [OF i] a]
  have "sys_send_accept i out (set_proposer i p s) = set_proposer i p s"
    using ct by (cases out) (simp_all add: sys_send_accept_def set_proposer_def insert_absorb)
  then show ?thesis using set_proposer_inv [OF inv] ct by (simp add: s')
qed

lemma exec_inv:
  assumes inv: "sys_inv n s" and e: "sys_exec False n s ev = Some s'"
  shows "sys_inv n s'"
proof (cases ev)
  case (E_acceptor_trim a t)
  then obtain x d where a: "0 \<le> a" "a < n"
    and t: "acceptor_receive_trim (sys_acceptors s a) t = Inr (x, d)" and s': "s' = set_acceptor a x s"
    using e by (auto split: if_splits sum.splits)
  then show ?thesis using set_acceptor_inv [OF inv acceptor_trim_covers [OF sys_invD(3) [OF inv a] t]] by simp
next
  case (E_acceptor_repeat a i)
  then show ?thesis using e by simp
next
  case (E_propose i bs)
  then show ?thesis using exec_proposer_inv [OF inv e] by simp
next
  case (E_prepare i now)
  then show ?thesis using exec_proposer_inv [OF inv e] by simp
next
  case (E_promise i m a now)
  then show ?thesis using exec_proposer_inv [OF inv e] by simp
next
  case (E_accepted i m a)
  then show ?thesis using exec_proposer_inv [OF inv e] by simp
next
  case (E_preempted i m now)
  then show ?thesis using exec_proposer_inv [OF inv e] by simp
next
  case (E_acceptor_state i st)
  then show ?thesis using exec_proposer_inv [OF inv e] by simp
next
  case (E_timeout_prepare i cfg iter)
  then show ?thesis using exec_proposer_inv [OF inv e] by simp
next
  case (E_try_accept i)
  show ?thesis by (rule exec_proposer_accept_inv [OF inv disjI1 [OF e [unfolded E_try_accept]]])
next
  case (E_timeout_accept i cfg iter)
  show ?thesis by (rule exec_proposer_accept_inv [OF inv disjI2 [OF e [unfolded E_timeout_accept]]])
next
  case (E_acceptor_prepare a m)
  show ?thesis by (rule exec_acceptor_prepare_inv [OF inv e [unfolded E_acceptor_prepare]])
next
  case (E_acceptor_accept a m i)
  show ?thesis by (rule exec_acceptor_accept_inv [OF inv e [unfolded E_acceptor_accept]])
next
  case (E_learner_accepted j m a)
  show ?thesis by (rule exec_learner_inv [OF inv disjI1 [OF e [unfolded E_learner_accepted]]])
next
  case (E_learner_deliver j)
  show ?thesis by (rule exec_learner_inv [OF inv disjI2 [OF e [unfolded E_learner_deliver]]])
qed

lemma reachable_inv: "reachable rep cfg n s \<Longrightarrow> \<not> rep \<Longrightarrow> 0 \<le> n \<Longrightarrow> sys_inv n s"
  by (induction rule: reachable.induct) (auto intro: start_inv exec_inv)

section \<open>What learners deliver\<close>

lemma delivered_chosen:
  assumes inv: "sys_inv n s" and d: "(j, r) \<in> sys_delivered s"
  shows "chosen n (sys_accepteds s) (accepted_iid r) (accepted_ballot r) (accepted_value r)"
proof -
  note h = sys_invD(1) [OF inv]
  obtain a Q where a: "(r, a) \<in> sys_accepteds s" and Q: "majority n Q"
      "Q \<subseteq> backers (sys_accepteds s) (accepted_iid r) (accepted_ballot r)"
    using sys_invD(6) [OF inv d] by (auto simp: delivered_ok_def)
  have vr: "voted (sys_accepteds s) a (accepted_iid r) (accepted_ballot r) (accepted_value r)"
    using a by (auto simp: voted_def)
  have "voted (sys_accepteds s) x (accepted_iid r) (accepted_ballot r) (accepted_value r)" if "x \<in> Q" for x
  proof -
    have "x \<in> backers (sys_accepteds s) (accepted_iid r) (accepted_ballot r)" using Q(2) that by blast
    then obtain v where v: "voted (sys_accepteds s) x (accepted_iid r) (accepted_ballot r) v"
      unfolding backers_def voted_def by blast
    then show ?thesis using votes_agree [OF h v vr] by simp
  qed
  then show ?thesis using Q(1) by (auto simp: chosen_def)
qed

lemma delivered_agree:
  assumes inv: "sys_inv n s" and d: "(j, r) \<in> sys_delivered s" "(j', r') \<in> sys_delivered s"
    and iid: "accepted_iid r = accepted_iid r'"
  shows "accepted_value r = accepted_value r'"
  using chosen_unique [OF sys_invD(1) [OF inv]] delivered_chosen [OF inv d(1)]
    delivered_chosen [OF inv d(2)] iid by metis

lemma delivered_proposed:
  assumes inv: "sys_inv n s" and d: "(j, r) \<in> sys_delivered s"
  shows "accepted_value r \<in> sys_proposed s"
proof -
  obtain Q where Q: "majority n Q"
      "\<forall>a \<in> Q. voted (sys_accepteds s) a (accepted_iid r) (accepted_ballot r) (accepted_value r)"
    using delivered_chosen [OF inv d] by (auto simp: chosen_def)
  obtain a where "a \<in> Q" using majority_nonempty [OF Q(1)] by blast
  then show ?thesis using chosen_proposed [OF sys_invD(1) [OF inv]] Q(2) by blast
qed

end
