(* ===== verification/MsgPack.thy ===== *)
theory MsgPack
  imports PaxosTypes
begin

text \<open>
  \<open>evpaxos/paxos_types_pack.c\<close> and \<open>evpaxos/message.c\<close>: messages on the wire. The msgpack
  library itself is not part of the repository. The packer is modelled by the calls it is
  given, in order; a received object is a value of \<open>msgpack_object\<close>, the union the library
  hands out. What the library does between the two, turning calls into bytes and bytes into
  objects, is the parameter pair \<open>emit\<close> and \<open>unpack_next\<close>, about which the theorems assume
  \<open>codec_ok\<close>. \<open>wire_emit\<close> and \<open>wire_unpack\<close> are a concrete pair with these laws.
\<close>

section \<open>Packing\<close>

datatype pack_call =
    Pack_array nat
  | Pack_int32 int
  | Pack_uint32 "32 word"
  | Pack_raw int
  | Pack_raw_body "byte list"

definition msgpack_pack_string :: "byte list option \<Rightarrow> int \<Rightarrow> pack_call list" where
  "msgpack_pack_string buffer len =
     [Pack_raw len, Pack_raw_body (case buffer of None \<Rightarrow> [] | Some bs \<Rightarrow> take (nat len) bs)]"

definition msgpack_pack_paxos_value :: "paxos_value \<Rightarrow> pack_call list" where
  "msgpack_pack_paxos_value v = msgpack_pack_string (paxos_value_val v) (paxos_value_len v)"

definition pack_type :: "paxos_message_type \<Rightarrow> pack_call" where
  "pack_type t = Pack_int32 (int (message_type_code t))"

definition msgpack_pack_paxos_prepare :: "paxos_prepare \<Rightarrow> pack_call list" where
  "msgpack_pack_paxos_prepare v =
     [Pack_array 3, pack_type TY_PREPARE, Pack_uint32 (prepare_iid v), Pack_uint32 (prepare_ballot v)]"

definition msgpack_pack_paxos_promise :: "paxos_promise \<Rightarrow> pack_call list" where
  "msgpack_pack_paxos_promise v =
     [Pack_array 5, pack_type TY_PROMISE, Pack_uint32 (promise_iid v), Pack_uint32 (promise_ballot v),
      Pack_uint32 (promise_value_ballot v)] @ msgpack_pack_paxos_value (promise_value v)"

definition msgpack_pack_paxos_accept :: "paxos_accept \<Rightarrow> pack_call list" where
  "msgpack_pack_paxos_accept v =
     [Pack_array 4, pack_type TY_ACCEPT, Pack_uint32 (accept_iid v), Pack_uint32 (accept_ballot v)]
     @ msgpack_pack_paxos_value (accept_value v)"

definition msgpack_pack_paxos_accepted :: "paxos_accepted \<Rightarrow> pack_call list" where
  "msgpack_pack_paxos_accepted v =
     [Pack_array 5, pack_type TY_ACCEPTED, Pack_uint32 (accepted_iid v),
      Pack_uint32 (accepted_ballot v), Pack_uint32 (accepted_value_ballot v)]
     @ msgpack_pack_paxos_value (accepted_value v)"

definition msgpack_pack_paxos_preempted :: "paxos_preempted \<Rightarrow> pack_call list" where
  "msgpack_pack_paxos_preempted v =
     [Pack_array 3, pack_type TY_PREEMPTED, Pack_uint32 (preempted_iid v),
      Pack_uint32 (preempted_ballot v)]"

definition msgpack_pack_paxos_repeat :: "paxos_repeat \<Rightarrow> pack_call list" where
  "msgpack_pack_paxos_repeat v =
     [Pack_array 3, pack_type TY_REPEAT, Pack_uint32 (repeat_from v), Pack_uint32 (repeat_to v)]"

definition msgpack_pack_paxos_trim :: "paxos_trim \<Rightarrow> pack_call list" where
  "msgpack_pack_paxos_trim v = [Pack_array 2, pack_type TY_TRIM, Pack_uint32 (trim_iid v)]"

definition msgpack_pack_paxos_acceptor_state :: "paxos_acceptor_state \<Rightarrow> pack_call list" where
  "msgpack_pack_paxos_acceptor_state v =
     [Pack_array 2, pack_type TY_ACCEPTOR_STATE, Pack_uint32 (state_trim_iid v)]"

definition msgpack_pack_paxos_client_value :: "paxos_client_value \<Rightarrow> pack_call list" where
  "msgpack_pack_paxos_client_value v =
     [Pack_array 2, pack_type TY_CLIENT_VALUE] @ msgpack_pack_paxos_value (client_value v)"

fun msgpack_pack_paxos_message :: "paxos_message \<Rightarrow> pack_call list" where
  "msgpack_pack_paxos_message (PAXOS_PREPARE m) = msgpack_pack_paxos_prepare m"
| "msgpack_pack_paxos_message (PAXOS_PROMISE m) = msgpack_pack_paxos_promise m"
| "msgpack_pack_paxos_message (PAXOS_ACCEPT m) = msgpack_pack_paxos_accept m"
| "msgpack_pack_paxos_message (PAXOS_ACCEPTED m) = msgpack_pack_paxos_accepted m"
| "msgpack_pack_paxos_message (PAXOS_PREEMPTED m) = msgpack_pack_paxos_preempted m"
| "msgpack_pack_paxos_message (PAXOS_REPEAT m) = msgpack_pack_paxos_repeat m"
| "msgpack_pack_paxos_message (PAXOS_TRIM m) = msgpack_pack_paxos_trim m"
| "msgpack_pack_paxos_message (PAXOS_ACCEPTOR_STATE m) = msgpack_pack_paxos_acceptor_state m"
| "msgpack_pack_paxos_message (PAXOS_CLIENT_VALUE m) = msgpack_pack_paxos_client_value m"

section \<open>Unpacking\<close>

text \<open>
  \<open>msgpack_object\<close>: the members the code reads. \<open>MSGPACK_OBJECT_AT\<close> trusts the sender: it
  takes the object for an array and its members for integers and raw bytes.
\<close>

datatype msgpack_object =
    Obj_u64 "64 word"
  | Obj_raw "byte list"
  | Obj_array "msgpack_object list"
  | Obj_other

definition MSGPACK_OBJECT_AT :: "msgpack_object \<Rightarrow> nat \<Rightarrow> msgpack_object outcome" where
  "MSGPACK_OBJECT_AT obj i =
     (case obj of
        Obj_array xs \<Rightarrow> if i < length xs then Inr (xs ! i) else Inl OutOfBounds
      | _ \<Rightarrow> Inl BadUnion)"

definition via_u64 :: "msgpack_object \<Rightarrow> 64 word outcome" where
  "via_u64 obj = (case obj of Obj_u64 u \<Rightarrow> Inr u | _ \<Rightarrow> Inl BadUnion)"

definition via_raw :: "msgpack_object \<Rightarrow> byte list outcome" where
  "via_raw obj = (case obj of Obj_raw bs \<Rightarrow> Inr bs | _ \<Rightarrow> Inl BadUnion)"

definition msgpack_unpack_uint32_at :: "msgpack_object \<Rightarrow> nat \<Rightarrow> (32 word \<times> nat) outcome" where
  "msgpack_unpack_uint32_at obj i =
     bindE (MSGPACK_OBJECT_AT obj i) (\<lambda>x. bindE (via_u64 x) (\<lambda>u. Inr (ucast u, i + 1)))"

text \<open>The size of a raw object is a \<open>uint32_t\<close>, the length of a value an \<open>int\<close>.\<close>

definition msgpack_unpack_string_at ::
  "msgpack_object \<Rightarrow> nat \<Rightarrow> (byte list option \<times> int \<times> nat) outcome" where
  "msgpack_unpack_string_at obj i =
     bindE (MSGPACK_OBJECT_AT obj i) (\<lambda>x. bindE (via_raw x) (\<lambda>bs.
       let len = sint (of_nat (length bs) :: 32 word)
       in Inr (if 0 < len then Some (take (nat len) bs) else None, len, i + 1)))"

definition msgpack_unpack_paxos_value_at :: "msgpack_object \<Rightarrow> nat \<Rightarrow> (paxos_value \<times> nat) outcome" where
  "msgpack_unpack_paxos_value_at obj i =
     bindE (msgpack_unpack_string_at obj i) (\<lambda>(buffer, len, i).
       Inr (\<lparr>paxos_value_len = len, paxos_value_val = buffer\<rparr>, i))"

definition msgpack_unpack_paxos_prepare :: "msgpack_object \<Rightarrow> paxos_prepare outcome" where
  "msgpack_unpack_paxos_prepare obj =
     bindE (msgpack_unpack_uint32_at obj 1) (\<lambda>(iid, i).
     bindE (msgpack_unpack_uint32_at obj i) (\<lambda>(ballot, i).
       Inr \<lparr>prepare_iid = iid, prepare_ballot = ballot\<rparr>))"

definition msgpack_unpack_paxos_promise :: "msgpack_object \<Rightarrow> paxos_promise outcome" where
  "msgpack_unpack_paxos_promise obj =
     bindE (msgpack_unpack_uint32_at obj 1) (\<lambda>(iid, i).
     bindE (msgpack_unpack_uint32_at obj i) (\<lambda>(ballot, i).
     bindE (msgpack_unpack_uint32_at obj i) (\<lambda>(value_ballot, i).
     bindE (msgpack_unpack_paxos_value_at obj i) (\<lambda>(v, i).
       Inr \<lparr>promise_iid = iid, promise_ballot = ballot, promise_value_ballot = value_ballot,
            promise_value = v\<rparr>))))"

definition msgpack_unpack_paxos_accept :: "msgpack_object \<Rightarrow> paxos_accept outcome" where
  "msgpack_unpack_paxos_accept obj =
     bindE (msgpack_unpack_uint32_at obj 1) (\<lambda>(iid, i).
     bindE (msgpack_unpack_uint32_at obj i) (\<lambda>(ballot, i).
     bindE (msgpack_unpack_paxos_value_at obj i) (\<lambda>(v, i).
       Inr \<lparr>accept_iid = iid, accept_ballot = ballot, accept_value = v\<rparr>)))"

definition msgpack_unpack_paxos_accepted :: "msgpack_object \<Rightarrow> paxos_accepted outcome" where
  "msgpack_unpack_paxos_accepted obj =
     bindE (msgpack_unpack_uint32_at obj 1) (\<lambda>(iid, i).
     bindE (msgpack_unpack_uint32_at obj i) (\<lambda>(ballot, i).
     bindE (msgpack_unpack_uint32_at obj i) (\<lambda>(value_ballot, i).
     bindE (msgpack_unpack_paxos_value_at obj i) (\<lambda>(v, i).
       Inr \<lparr>accepted_iid = iid, accepted_ballot = ballot, accepted_value_ballot = value_ballot,
            accepted_value = v\<rparr>))))"

definition msgpack_unpack_paxos_preempted :: "msgpack_object \<Rightarrow> paxos_preempted outcome" where
  "msgpack_unpack_paxos_preempted obj =
     bindE (msgpack_unpack_uint32_at obj 1) (\<lambda>(iid, i).
     bindE (msgpack_unpack_uint32_at obj i) (\<lambda>(ballot, i).
       Inr \<lparr>preempted_iid = iid, preempted_ballot = ballot\<rparr>))"

definition msgpack_unpack_paxos_repeat :: "msgpack_object \<Rightarrow> paxos_repeat outcome" where
  "msgpack_unpack_paxos_repeat obj =
     bindE (msgpack_unpack_uint32_at obj 1) (\<lambda>(from, i).
     bindE (msgpack_unpack_uint32_at obj i) (\<lambda>(to, i).
       Inr \<lparr>repeat_from = from, repeat_to = to\<rparr>))"

definition msgpack_unpack_paxos_trim :: "msgpack_object \<Rightarrow> paxos_trim outcome" where
  "msgpack_unpack_paxos_trim obj =
     bindE (msgpack_unpack_uint32_at obj 1) (\<lambda>(iid, i). Inr \<lparr>trim_iid = iid\<rparr>)"

definition msgpack_unpack_paxos_acceptor_state :: "msgpack_object \<Rightarrow> paxos_acceptor_state outcome" where
  "msgpack_unpack_paxos_acceptor_state obj =
     bindE (msgpack_unpack_uint32_at obj 1) (\<lambda>(iid, i). Inr \<lparr>state_trim_iid = iid\<rparr>)"

definition msgpack_unpack_paxos_client_value :: "msgpack_object \<Rightarrow> paxos_client_value outcome" where
  "msgpack_unpack_paxos_client_value obj =
     bindE (msgpack_unpack_paxos_value_at obj 1) (\<lambda>(v, i). Inr \<lparr>client_value = v\<rparr>)"

text \<open>
  The type is the low half of the first integer, as an enumeration is a 32-bit integer. With
  a type that is none of the nine, the switch leaves the payload unwritten: \<open>None\<close>.
\<close>

definition message_type_of :: "64 word \<Rightarrow> paxos_message_type option" where
  "message_type_of u =
     (let c = unat (ucast u :: 32 word)
      in List.find (\<lambda>t. message_type_code t = c)
           [TY_PREPARE, TY_PROMISE, TY_ACCEPT, TY_ACCEPTED, TY_PREEMPTED, TY_REPEAT, TY_TRIM,
            TY_ACCEPTOR_STATE, TY_CLIENT_VALUE])"

definition unpack_payload :: "paxos_message_type \<Rightarrow> msgpack_object \<Rightarrow> paxos_message outcome" where
  "unpack_payload t obj =
     (case t of
        TY_PREPARE \<Rightarrow> map_sum id PAXOS_PREPARE (msgpack_unpack_paxos_prepare obj)
      | TY_PROMISE \<Rightarrow> map_sum id PAXOS_PROMISE (msgpack_unpack_paxos_promise obj)
      | TY_ACCEPT \<Rightarrow> map_sum id PAXOS_ACCEPT (msgpack_unpack_paxos_accept obj)
      | TY_ACCEPTED \<Rightarrow> map_sum id PAXOS_ACCEPTED (msgpack_unpack_paxos_accepted obj)
      | TY_PREEMPTED \<Rightarrow> map_sum id PAXOS_PREEMPTED (msgpack_unpack_paxos_preempted obj)
      | TY_REPEAT \<Rightarrow> map_sum id PAXOS_REPEAT (msgpack_unpack_paxos_repeat obj)
      | TY_TRIM \<Rightarrow> map_sum id PAXOS_TRIM (msgpack_unpack_paxos_trim obj)
      | TY_ACCEPTOR_STATE \<Rightarrow> map_sum id PAXOS_ACCEPTOR_STATE (msgpack_unpack_paxos_acceptor_state obj)
      | TY_CLIENT_VALUE \<Rightarrow> map_sum id PAXOS_CLIENT_VALUE (msgpack_unpack_paxos_client_value obj))"

definition msgpack_unpack_paxos_message :: "msgpack_object \<Rightarrow> paxos_message option outcome" where
  "msgpack_unpack_paxos_message obj =
     bindE (MSGPACK_OBJECT_AT obj 0) (\<lambda>x. bindE (via_u64 x) (\<lambda>u.
       case message_type_of u of
         None \<Rightarrow> Inr None
       | Some t \<Rightarrow> map_sum id Some (unpack_payload t obj)))"

section \<open>Sending and receiving\<close>

text \<open>
  A write: the buffer of the connection and the packer calls whose bytes are appended to it.
\<close>

type_synonym bev_write = "nat \<times> pack_call list"

definition send_paxos_message :: "nat \<Rightarrow> paxos_message \<Rightarrow> bev_write" where
  "send_paxos_message bev msg = (bev, msgpack_pack_paxos_message msg)"

definition send_paxos_prepare :: "nat \<Rightarrow> paxos_prepare \<Rightarrow> bev_write" where
  "send_paxos_prepare bev p = send_paxos_message bev (PAXOS_PREPARE p)"

definition send_paxos_promise :: "nat \<Rightarrow> paxos_promise \<Rightarrow> bev_write" where
  "send_paxos_promise bev p = send_paxos_message bev (PAXOS_PROMISE p)"

definition send_paxos_accept :: "nat \<Rightarrow> paxos_accept \<Rightarrow> bev_write" where
  "send_paxos_accept bev p = send_paxos_message bev (PAXOS_ACCEPT p)"

definition send_paxos_accepted :: "nat \<Rightarrow> paxos_accepted \<Rightarrow> bev_write" where
  "send_paxos_accepted bev p = send_paxos_message bev (PAXOS_ACCEPTED p)"

definition send_paxos_preempted :: "nat \<Rightarrow> paxos_preempted \<Rightarrow> bev_write" where
  "send_paxos_preempted bev p = send_paxos_message bev (PAXOS_PREEMPTED p)"

definition send_paxos_repeat :: "nat \<Rightarrow> paxos_repeat \<Rightarrow> bev_write" where
  "send_paxos_repeat bev p = send_paxos_message bev (PAXOS_REPEAT p)"

definition send_paxos_trim :: "nat \<Rightarrow> paxos_trim \<Rightarrow> bev_write" where
  "send_paxos_trim bev t = send_paxos_message bev (PAXOS_TRIM t)"

definition paxos_submit :: "nat \<Rightarrow> byte list \<Rightarrow> int \<Rightarrow> bev_write" where
  "paxos_submit bev data sz =
     send_paxos_message bev
       (PAXOS_CLIENT_VALUE \<lparr>client_value = \<lparr>paxos_value_len = sz, paxos_value_val = Some data\<rparr>\<rparr>)"

text \<open>
  \<open>recv_paxos_message\<close>: \<open>None\<close> is the return code 0, for an empty buffer and for one that
  does not hold a whole object yet; otherwise the message, and the buffer without its bytes.
\<close>

definition recv_paxos_message ::
  "(byte list \<Rightarrow> (msgpack_object \<times> nat) option) \<Rightarrow> byte list \<Rightarrow>
     (paxos_message option \<times> byte list) option outcome" where
  "recv_paxos_message unpack_next input =
     (if length input = 0 then Inr None
      else case unpack_next input of
             None \<Rightarrow> Inr None
           | Some (obj, offset) \<Rightarrow>
               bindE (msgpack_unpack_paxos_message obj) (\<lambda>msg. Inr (Some (msg, drop offset input))))"

section \<open>The library between calls and objects\<close>

text \<open>
  The objects a sequence of calls describes, as the msgpack format documents it: a nonnegative
  integer of either call becomes a positive integer, a raw header is followed by its body. The
  code packs flat arrays only.
\<close>

fun scalar_objects :: "pack_call list \<Rightarrow> msgpack_object list option" where
  "scalar_objects [] = Some []"
| "scalar_objects (Pack_int32 i # cs) =
     (if 0 \<le> i \<and> i < 2 ^ 31 then map_option ((#) (Obj_u64 (word_of_int i))) (scalar_objects cs) else None)"
| "scalar_objects (Pack_uint32 w # cs) = map_option ((#) (Obj_u64 (ucast w))) (scalar_objects cs)"
| "scalar_objects (Pack_raw n # Pack_raw_body bs # cs) =
     (if n = int (length bs) \<and> n < 2 ^ 31 then map_option ((#) (Obj_raw bs)) (scalar_objects cs) else None)"
| "scalar_objects _ = None"

definition array_object :: "pack_call list \<Rightarrow> msgpack_object option" where
  "array_object calls =
     (case calls of
        Pack_array n # cs \<Rightarrow>
          (case scalar_objects cs of
             Some xs \<Rightarrow> if length xs = n \<and> n < 2 ^ 31 then Some (Obj_array xs) else None
           | None \<Rightarrow> None)
      | _ \<Rightarrow> None)"

definition codec_ok ::
  "(pack_call list \<Rightarrow> byte list) \<Rightarrow> (byte list \<Rightarrow> (msgpack_object \<times> nat) option) \<Rightarrow> bool" where
  "codec_ok emit unpack_next \<longleftrightarrow>
     (\<forall>cs obj. array_object cs = Some obj \<longrightarrow>
        emit cs \<noteq> [] \<and>
        (\<forall>rest. unpack_next (emit cs @ rest) = Some (obj, length (emit cs))) \<and>
        (\<forall>n < length (emit cs). unpack_next (take n (emit cs)) = None))"

text \<open>A message arrives with \<open>NULL\<close> for the bytes of an empty value.\<close>

definition wire_value :: "paxos_value \<Rightarrow> paxos_value" where
  "wire_value v = (if paxos_value_len v = 0 then null_value else v)"

fun wire_message :: "paxos_message \<Rightarrow> paxos_message" where
  "wire_message (PAXOS_PROMISE m) = PAXOS_PROMISE (m\<lparr>promise_value := wire_value (promise_value m)\<rparr>)"
| "wire_message (PAXOS_ACCEPT m) = PAXOS_ACCEPT (m\<lparr>accept_value := wire_value (accept_value m)\<rparr>)"
| "wire_message (PAXOS_ACCEPTED m) = PAXOS_ACCEPTED (m\<lparr>accepted_value := wire_value (accepted_value m)\<rparr>)"
| "wire_message (PAXOS_CLIENT_VALUE m) = PAXOS_CLIENT_VALUE (m\<lparr>client_value := wire_value (client_value m)\<rparr>)"
| "wire_message m = m"

definition value_sendable :: "paxos_value \<Rightarrow> bool" where
  "value_sendable v \<longleftrightarrow> value_wf v \<and> paxos_value_len v < 2 ^ 31"

fun sendable :: "paxos_message \<Rightarrow> bool" where
  "sendable (PAXOS_PROMISE m) = value_sendable (promise_value m)"
| "sendable (PAXOS_ACCEPT m) = value_sendable (accept_value m)"
| "sendable (PAXOS_ACCEPTED m) = value_sendable (accepted_value m)"
| "sendable (PAXOS_CLIENT_VALUE m) = value_sendable (client_value m)"
| "sendable m = True"

section \<open>Round trip through the library's objects\<close>

text \<open>The bytes of a value that is sent, and the object they become.\<close>

definition value_body :: "paxos_value \<Rightarrow> byte list" where
  "value_body v = (case paxos_value_val v of None \<Rightarrow> [] | Some bs \<Rightarrow> bs)"

lemma pack_value:
  "value_sendable v \<Longrightarrow>
   msgpack_pack_paxos_value v = [Pack_raw (int (length (value_body v))), Pack_raw_body (value_body v)]"
  by (auto simp: msgpack_pack_paxos_value_def msgpack_pack_string_def value_sendable_def value_wf_def
      value_body_def split: option.splits)

lemma value_body_length: "value_sendable v \<Longrightarrow> int (length (value_body v)) < 2 ^ 31"
  by (auto simp: value_sendable_def value_wf_def value_body_def split: option.splits)

lemma wire_value_body:
  "value_sendable v \<Longrightarrow>
   wire_value v = \<lparr>paxos_value_len = int (length (value_body v)),
     paxos_value_val = (if value_body v = [] then None else Some (value_body v))\<rparr>"
  by (cases v)
    (auto simp: value_sendable_def value_wf_def value_body_def wire_value_def null_value_def
      split: option.splits)

lemma sint_of_nat_word32: "int n < 2 ^ 31 \<Longrightarrow> sint (of_nat n :: 32 word) = int n"
  by (simp add: signed_of_nat signed_take_bit_int_eq_self)

lemma unpack_value_at:
  assumes "i < length xs" and "xs ! i = Obj_raw (value_body v)" and "value_sendable v"
  shows "msgpack_unpack_paxos_value_at (Obj_array xs) i = Inr (wire_value v, i + 1)"
  using assms value_body_length [OF assms(3)]
  by (simp add: msgpack_unpack_paxos_value_at_def msgpack_unpack_string_at_def MSGPACK_OBJECT_AT_def
      via_raw_def sint_of_nat_word32 wire_value_body)

lemma unpack_uint32_at:
  "i < length xs \<Longrightarrow> xs ! i = Obj_u64 u \<Longrightarrow>
   msgpack_unpack_uint32_at (Obj_array xs) i = Inr (ucast u, i + 1)"
  by (simp add: msgpack_unpack_uint32_at_def MSGPACK_OBJECT_AT_def via_u64_def)

lemmas pack_defs =
  msgpack_pack_paxos_prepare_def msgpack_pack_paxos_promise_def msgpack_pack_paxos_accept_def
  msgpack_pack_paxos_accepted_def msgpack_pack_paxos_preempted_def msgpack_pack_paxos_repeat_def
  msgpack_pack_paxos_trim_def msgpack_pack_paxos_acceptor_state_def msgpack_pack_paxos_client_value_def

lemmas unpack_defs =
  msgpack_unpack_paxos_prepare_def msgpack_unpack_paxos_promise_def msgpack_unpack_paxos_accept_def
  msgpack_unpack_paxos_accepted_def msgpack_unpack_paxos_preempted_def msgpack_unpack_paxos_repeat_def
  msgpack_unpack_paxos_trim_def msgpack_unpack_paxos_acceptor_state_def
  msgpack_unpack_paxos_client_value_def

lemma ucast_ucast_32_64: "ucast (ucast (w :: 32 word) :: 64 word) = w"
  by (rule bit_word_eqI) (simp add: bit_simps)

lemma object_of_message:
  assumes "sendable m"
  obtains xs where "array_object (msgpack_pack_paxos_message m) = Some (Obj_array xs)"
    and "msgpack_unpack_paxos_message (Obj_array xs) = Inr (Some (wire_message m))"
  using assms value_body_length
  by (cases m)
    (auto simp: array_object_def pack_defs pack_type_def pack_value msgpack_unpack_paxos_message_def
      MSGPACK_OBJECT_AT_def [of _ 0] via_u64_def message_type_of_def unpack_payload_def
      unpack_defs unpack_uint32_at unpack_value_at ucast_ucast_32_64)

section \<open>A concrete codec\<close>

text \<open>
  The long forms of the msgpack format: array 32, uint 32, int 32 and raw 32, each a tag and
  four bytes, most significant first.
\<close>

definition be32 :: "32 word \<Rightarrow> byte list" where
  "be32 w = [ucast (drop_bit 24 w), ucast (drop_bit 16 w), ucast (drop_bit 8 w), ucast w]"

fun read_be32 :: "byte list \<Rightarrow> (32 word \<times> byte list) option" where
  "read_be32 (a # b # c # d # rest) =
     Some (push_bit 24 (ucast a) OR push_bit 16 (ucast b) OR push_bit 8 (ucast c) OR ucast d, rest)"
| "read_be32 _ = None"

fun wire_call :: "pack_call \<Rightarrow> byte list" where
  "wire_call (Pack_array n) = 0xdd # be32 (of_nat n)"
| "wire_call (Pack_int32 i) = 0xd2 # be32 (word_of_int i)"
| "wire_call (Pack_uint32 w) = 0xce # be32 w"
| "wire_call (Pack_raw n) = 0xdb # be32 (word_of_int n)"
| "wire_call (Pack_raw_body bs) = bs"

definition wire_emit :: "pack_call list \<Rightarrow> byte list" where
  "wire_emit cs = concat (map wire_call cs)"

definition read_raw :: "32 word \<times> byte list \<Rightarrow> (msgpack_object \<times> byte list) option" where
  "read_raw nr =
     (case nr of (n, rest) \<Rightarrow>
        if unat n \<le> length rest then Some (Obj_raw (take (unat n) rest), drop (unat n) rest) else None)"

fun read_scalar :: "byte list \<Rightarrow> (msgpack_object \<times> byte list) option" where
  "read_scalar [] = None"
| "read_scalar (t # bs) =
     (if t = 0xce \<or> t = 0xd2 then map_option (\<lambda>(w, rest). (Obj_u64 (ucast w), rest)) (read_be32 bs)
      else if t = 0xdb then Option.bind (read_be32 bs) read_raw
      else None)"

fun read_scalars :: "nat \<Rightarrow> byte list \<Rightarrow> (msgpack_object list \<times> byte list) option" where
  "read_scalars 0 bs = Some ([], bs)"
| "read_scalars (Suc k) bs =
     (case read_scalar bs of
        None \<Rightarrow> None
      | Some (x, rest) \<Rightarrow> map_option (\<lambda>(xs, rest'). (x # xs, rest')) (read_scalars k rest))"

fun read_array :: "byte list \<Rightarrow> (msgpack_object list \<times> byte list) option" where
  "read_array [] = None"
| "read_array (t # bs) =
     (if t = 0xdd then case read_be32 bs of None \<Rightarrow> None | Some (n, rest) \<Rightarrow> read_scalars (unat n) rest
      else None)"

definition wire_unpack :: "byte list \<Rightarrow> (msgpack_object \<times> nat) option" where
  "wire_unpack bs = map_option (\<lambda>(xs, rest). (Obj_array xs, length bs - length rest)) (read_array bs)"

lemma read_be32_be32 [simp]: "read_be32 (be32 w @ rest) = Some (w, rest)"
proof -
  have "push_bit 24 (ucast (ucast (drop_bit 24 w) :: byte)) OR push_bit 16 (ucast (ucast (drop_bit 16 w) :: byte))
      OR push_bit 8 (ucast (ucast (drop_bit 8 w) :: byte)) OR ucast (ucast w :: byte) = w" (is "?x = w")
  proof (rule bit_word_eqI)
    fix n assume n: "n < LENGTH(32)"
    consider "n < 8" | "8 \<le> n" "n < 16" | "16 \<le> n" "n < 24" | "24 \<le> n" by linarith
    then show "bit ?x n = bit w n"
      using n by cases (auto simp: bit_simps)
  qed
  then show ?thesis by (simp add: be32_def)
qed

lemma length_be32 [simp]: "length (be32 w) = 4"
  by (simp add: be32_def)

lemma read_be32_short: "length bs < 4 \<Longrightarrow> read_be32 bs = None"
  by (cases bs rule: read_be32.cases) auto

text \<open>
  A reader of one item and the bytes of that item: read back with anything behind them, and
  not read from any proper prefix.
\<close>

definition reads :: "(byte list \<Rightarrow> ('a \<times> byte list) option) \<Rightarrow> byte list \<Rightarrow> 'a \<Rightarrow> bool" where
  "reads r bs x \<longleftrightarrow>
     (\<forall>rest. r (bs @ rest) = Some (x, rest)) \<and> (\<forall>n < length bs. r (take n bs) = None)"

lemma reads_word: "t = 0xce \<or> t = 0xd2 \<Longrightarrow> reads read_scalar (t # be32 w) (Obj_u64 (ucast w))"
  by (auto simp: reads_def take_Cons' read_be32_short)

lemma unat_word_of_nat32: "n < 2 ^ 31 \<Longrightarrow> unat (of_nat n :: 32 word) = n"
  by (simp add: unat_of_nat take_bit_nat_eq_self)

lemma reads_raw:
  assumes "length bs < 2 ^ 31"
  shows "reads read_scalar (0xdb # be32 (of_nat (length bs)) @ bs) (Obj_raw bs)"
proof -
  note n = unat_word_of_nat32 [OF assms]
  have "read_scalar (take k (0xdb # be32 (of_nat (length bs)) @ bs)) = None" if "k < length bs + 5" for k
  proof (cases "k < 5")
    case True
    then show ?thesis by (cases k) (simp_all add: read_be32_short)
  next
    case False
    then have "take k (0xdb # be32 (of_nat (length bs)) @ bs) =
        0xdb # be32 (of_nat (length bs)) @ take (k - 5) bs"
      by (cases k) auto
    then show ?thesis using that False by (simp add: read_raw_def n)
  qed
  then show ?thesis by (simp add: reads_def read_raw_def n)
qed

lemma reads_scalars_Cons:
  assumes "reads read_scalar b x" and "reads (read_scalars k) bs xs"
  shows "reads (read_scalars (Suc k)) (b @ bs) (x # xs)"
proof -
  have "read_scalars (Suc k) (take n (b @ bs)) = None" if "n < length b + length bs" for n
    using assms that by (cases "n < length b") (auto simp: reads_def)
  then show ?thesis using assms by (simp add: reads_def)
qed

lemma reads_scalar_objects:
  "scalar_objects cs = Some xs \<Longrightarrow> reads (read_scalars (length xs)) (wire_emit cs) xs"
proof (induction cs arbitrary: xs rule: scalar_objects.induct)
  case 1
  then show ?case by (simp add: reads_def wire_emit_def)
next
  case (2 i cs)
  then obtain ys where ys: "0 \<le> i" "i < 2 ^ 31" "scalar_objects cs = Some ys" "xs = Obj_u64 (word_of_int i) # ys"
    by (auto split: if_splits)
  have "ucast (word_of_int i :: 32 word) = (word_of_int i :: 64 word)"
    using ys(1,2) by (simp add: unsigned_of_int take_bit_int_eq_self)
  then show ?case
    using reads_scalars_Cons [OF reads_word [of "0xd2" "word_of_int i"] "2.IH" [OF conjI [OF ys(1,2)] ys(3)]] ys
    by (simp add: wire_emit_def del: read_scalars.simps)
next
  case (3 w cs)
  then show ?case using reads_scalars_Cons [OF reads_word [of "0xce" w]]
    by (auto simp: wire_emit_def simp del: read_scalars.simps)
next
  case (4 n bs cs)
  then obtain ys where ys: "n = int (length bs)" "n < 2 ^ 31" "scalar_objects cs = Some ys" "xs = Obj_raw bs # ys"
    by (auto split: if_splits)
  then show ?case
    using reads_scalars_Cons [OF reads_raw [of bs] "4.IH" [OF conjI [OF ys(1,2)] ys(3)]] by (simp add: wire_emit_def del: read_scalars.simps)
qed simp_all

lemma reads_array:
  assumes "reads (read_scalars n) bs xs" and "n < 2 ^ 31"
  shows "reads read_array (0xdd # be32 (of_nat n) @ bs) xs"
proof -
  note m = unat_word_of_nat32 [OF assms(2)]
  have "read_array (take k (0xdd # be32 (of_nat n) @ bs)) = None" if "k < length bs + 5" for k
  proof (cases "k < 5")
    case True
    then show ?thesis by (cases k) (simp_all add: read_be32_short)
  next
    case False
    then have "take k (0xdd # be32 (of_nat n) @ bs) = 0xdd # be32 (of_nat n) @ take (k - 5) bs"
      by (cases k) auto
    then show ?thesis using that False assms(1) by (simp add: m reads_def)
  qed
  then show ?thesis using assms(1) by (simp add: reads_def m)
qed

lemma wire_codec_ok: "codec_ok wire_emit wire_unpack"
  unfolding codec_ok_def
proof (intro allI impI)
  fix cs obj
  assume "array_object cs = Some obj"
  then obtain n cs' xs where c: "cs = Pack_array n # cs'" "scalar_objects cs' = Some xs" "length xs = n"
      "n < 2 ^ 31" "obj = Obj_array xs"
    by (auto simp: array_object_def split: list.splits pack_call.splits option.splits if_splits)
  have e: "wire_emit cs = 0xdd # be32 (of_nat n) @ wire_emit cs'" by (simp add: c(1) wire_emit_def)
  have "reads read_array (wire_emit cs) xs"
    unfolding e using reads_array [OF reads_scalar_objects [OF c(2), unfolded c(3)] c(4)] .
  then show "wire_emit cs \<noteq> [] \<and>
      (\<forall>rest. wire_unpack (wire_emit cs @ rest) = Some (obj, length (wire_emit cs))) \<and>
      (\<forall>n < length (wire_emit cs). wire_unpack (take n (wire_emit cs)) = None)"
    by (simp add: reads_def wire_unpack_def c(5)) (simp add: e)
qed

section \<open>Properties\<close>

lemma recv_sent:
  assumes codec: "codec_ok emit unpack_next" and m: "sendable m"
  shows "recv_paxos_message unpack_next (emit (msgpack_pack_paxos_message m) @ rest) =
      Inr (Some (Some (wire_message m), rest))"
    and "n < length (emit (msgpack_pack_paxos_message m)) \<Longrightarrow>
      recv_paxos_message unpack_next (take n (emit (msgpack_pack_paxos_message m))) = Inr None"
    and "emit (msgpack_pack_paxos_message m) \<noteq> []"
proof -
  obtain xs where xs: "array_object (msgpack_pack_paxos_message m) = Some (Obj_array xs)"
      "msgpack_unpack_paxos_message (Obj_array xs) = Inr (Some (wire_message m))"
    using object_of_message [OF m] .
  note law = codec [unfolded codec_ok_def, rule_format, OF xs(1)]
  show "emit (msgpack_pack_paxos_message m) \<noteq> []" using law by simp
  show "recv_paxos_message unpack_next (emit (msgpack_pack_paxos_message m) @ rest) =
      Inr (Some (Some (wire_message m), rest))"
    using law xs(2) by (simp add: recv_paxos_message_def)
  show "recv_paxos_message unpack_next (take n (emit (msgpack_pack_paxos_message m))) = Inr None"
    if "n < length (emit (msgpack_pack_paxos_message m))"
    using law that by (simp add: recv_paxos_message_def)
qed

text \<open>
  C20. Round trip of a message, for any msgpack library that encodes flat arrays as documented
  (\<open>codec_ok\<close>): whatever follows on the connection, \<open>recv_paxos_message\<close> takes exactly the
  bytes that \<open>send_paxos_message\<close> wrote and returns the message, field by field, with \<open>NULL\<close>
  for the bytes of an empty value; of a message that has only partly arrived it takes nothing.
\<close>

theorem message_roundtrip:
  assumes "codec_ok emit unpack_next" and "sendable m"
    and "send_paxos_message bev m = (bev', calls)"
  shows "recv_paxos_message unpack_next (emit calls @ rest) = Inr (Some (Some (wire_message m), rest)) \<and>
    (\<forall>n. n < length (emit calls) \<longrightarrow> recv_paxos_message unpack_next (take n (emit calls)) = Inr None)"
  using recv_sent [OF assms(1,2)] assms(3) by (auto simp: send_paxos_message_def)

definition wire_demo_message :: paxos_message where
  "wire_demo_message = PAXOS_ACCEPT \<lparr>accept_iid = 7, accept_ballot = 12,
     accept_value = \<lparr>paxos_value_len = 2, paxos_value_val = Some [1, 2]\<rparr>\<rparr>"

theorem message_roundtrip_witness:
  "recv_paxos_message wire_unpack (wire_emit (snd (send_paxos_message 0 wire_demo_message)) @ [9]) =
     Inr (Some (Some wire_demo_message, [9]))"
proof -
  have "sendable wire_demo_message"
    by (simp add: wire_demo_message_def value_sendable_def value_wf_def)
  from message_roundtrip [OF wire_codec_ok this surjective_pairing [of "send_paxos_message 0 wire_demo_message"],
      of "[9]"]
  show ?thesis by (simp add: wire_demo_message_def wire_value_def)
qed

text \<open>
  What the unpacking code does not check: an array that is too short for the type of its
  message is read past its end, and an object that is no array, or whose type is no integer,
  is read through the wrong member of the union.
\<close>

theorem unpack_reads_past_end:
  "msgpack_unpack_paxos_message (Obj_array [Obj_u64 1, Obj_u64 iid, Obj_u64 ballot]) = Inl OutOfBounds \<and>
   msgpack_unpack_paxos_message (Obj_array []) = Inl OutOfBounds \<and>
   msgpack_unpack_paxos_message (Obj_raw bs) = Inl BadUnion \<and>
   msgpack_unpack_paxos_message (Obj_array [Obj_raw bs]) = Inl BadUnion"
  by (simp add: msgpack_unpack_paxos_message_def MSGPACK_OBJECT_AT_def via_u64_def message_type_of_def
      unpack_payload_def msgpack_unpack_paxos_promise_def msgpack_unpack_uint32_at_def)

end
