(* ===== verification/EvConfig.thy ===== *)
theory EvConfig
  imports PaxosTypes
begin

text \<open>
  \<open>evpaxos/config.c\<close>: the configuration file. Characters are those of the file, a C string is
  the list of its characters without the final zero, and a \<open>char*\<close> that may be \<open>NULL\<close> is an
  option. The functions of the C library that the parser calls are defined first.
\<close>

section \<open>The C library\<close>

definition code_of :: "char \<Rightarrow> nat" where
  "code_of c = of_char c"

definition isspace :: "char \<Rightarrow> bool" where
  "isspace c \<longleftrightarrow> code_of c = 32 \<or> (9 \<le> code_of c \<and> code_of c \<le> 13)"

definition isdigit :: "char \<Rightarrow> bool" where
  "isdigit c \<longleftrightarrow> 48 \<le> code_of c \<and> code_of c \<le> 57"

definition tolower :: "char \<Rightarrow> char" where
  "tolower c = (if 65 \<le> code_of c \<and> code_of c \<le> 90 then char_of (code_of c + 32) else c)"

text \<open>\<open>strcasecmp(s, t) == 0\<close>\<close>

definition strcaseeq :: "string \<Rightarrow> string \<Rightarrow> bool" where
  "strcaseeq s t \<longleftrightarrow> map tolower s = map tolower t"

text \<open>\<open>strsep(&line, " ")\<close>: the token, and the new value of \<open>line\<close>.\<close>

definition strsep :: "string \<Rightarrow> string \<times> string option" where
  "strsep s =
     (takeWhile (\<lambda>c. c \<noteq> CHR '' '') s,
      case dropWhile (\<lambda>c. c \<noteq> CHR '' '') s of [] \<Rightarrow> None | _ # rest \<Rightarrow> Some rest)"

fun digits_value :: "nat \<Rightarrow> string \<Rightarrow> nat \<times> string" where
  "digits_value acc [] = (acc, [])"
| "digits_value acc (c # s) =
     (if isdigit c then digits_value (10 * acc + (code_of c - 48)) s else (acc, c # s))"

text \<open>
  An optional sign and digits: whether the number is negative, its magnitude, and what
  follows. \<open>None\<close> when there is no digit.
\<close>

definition scan_number :: "string \<Rightarrow> (bool \<times> nat \<times> string) option" where
  "scan_number s =
     (let s = dropWhile isspace s;
          neg = (case s of c # _ \<Rightarrow> c = CHR ''-'' | [] \<Rightarrow> False);
          s = (case s of c # s' \<Rightarrow> if c = CHR ''-'' \<or> c = CHR ''+'' then s' else s | [] \<Rightarrow> s)
      in case s of
           [] \<Rightarrow> None
         | c # _ \<Rightarrow> if isdigit c then let (n, rest) = digits_value 0 s in Some (neg, n, rest) else None)"

text \<open>
  \<open>strtol(str, &end, 10)\<close>, which stops at \<open>LONG_MIN\<close> and \<open>LONG_MAX\<close>, assigned to an \<open>int\<close>.
\<close>

definition strtol_int :: "string \<Rightarrow> (int \<times> string) option" where
  "strtol_int s =
     map_option (\<lambda>(neg, n, rest).
       let v = (if neg then max (- (2 ^ 63)) (- int n) else min (2 ^ 63 - 1) (int n))
       in (sint (word_of_int v :: 32 word), rest)) (scan_number s)"

text \<open>\<open>strtoull\<close>: the value, the rest, and whether \<open>errno\<close> was set.\<close>

definition strtoull :: "string \<Rightarrow> 64 word \<times> string \<times> bool" where
  "strtoull s =
     (case scan_number s of
        None \<Rightarrow> (0, s, False)
      | Some (neg, n, rest) \<Rightarrow>
          if 2 ^ 64 \<le> n then (- 1, rest, True)
          else (if neg then - of_nat n else of_nat n, rest, False))"

text \<open>
  \<open>sscanf(str, "%d %s %d", &id, address, &port)\<close> with \<open>char address[128]\<close>: the address and the
  port when all three items are there. A word of 128 characters or more is written past the
  end of the buffer.
\<close>

definition sscanf_address :: "string option \<Rightarrow> (string \<times> int) option outcome" where
  "sscanf_address str =
     (case str of
        None \<Rightarrow> Inl NullPointer
      | Some s \<Rightarrow>
          (case strtol_int s of
             None \<Rightarrow> Inr None
           | Some (ident, s) \<Rightarrow>
               let s = dropWhile isspace s; word = takeWhile (\<lambda>c. \<not> isspace c) s;
                   s = dropWhile (\<lambda>c. \<not> isspace c) s
               in if word = [] then Inr None
                  else if 128 \<le> length word then Inl OutOfBounds
                  else case strtol_int s of
                         None \<Rightarrow> Inr None
                       | Some (port, s) \<Rightarrow> Inr (Some (word, port))))"

section \<open>Data\<close>

record address =
  addr_addr :: "string option"
  addr_port :: int

record evpaxos_config =
  proposers_count :: nat
  acceptors_count :: nat
  proposers :: "address list"
  acceptors :: "address list"

datatype option_type =
  option_boolean | option_integer | option_string | option_verbosity | option_backend | option_bytes

text \<open>The members of \<open>paxos_config\<close> the option table points to.\<close>

datatype config_field =
    F_verbosity | F_tcp_nodelay | F_learner_catch_up | F_proposer_timeout
  | F_proposer_preexec_window | F_storage_backend | F_bdb_sync | F_trash_files | F_bdb_cachesize
  | F_bdb_env_path | F_bdb_db_filename | F_lmdb_sync | F_lmdb_env_path | F_lmdb_mapsize

definition options :: "(string \<times> config_field \<times> option_type) list" where
  "options =
     [(''verbosity'', F_verbosity, option_verbosity),
      (''tcp-nodelay'', F_tcp_nodelay, option_boolean),
      (''learner-catch-up'', F_learner_catch_up, option_boolean),
      (''proposer-timeout'', F_proposer_timeout, option_integer),
      (''proposer-preexec-window'', F_proposer_preexec_window, option_integer),
      (''storage-backend'', F_storage_backend, option_backend),
      (''bdb-sync'', F_bdb_sync, option_boolean),
      (''acceptor-trash-files'', F_trash_files, option_boolean),
      (''bdb-cachesize'', F_bdb_cachesize, option_bytes),
      (''bdb-env-path'', F_bdb_env_path, option_string),
      (''bdb-db-filename'', F_bdb_db_filename, option_string),
      (''lmdb-sync'', F_lmdb_sync, option_boolean),
      (''lmdb-env-path'', F_lmdb_env_path, option_string),
      (''lmdb-mapsize'', F_lmdb_mapsize, option_bytes)]"

text \<open>A write through an \<open>int*\<close>, a \<open>char**\<close> and a \<open>size_t*\<close> of the table.\<close>

fun set_int :: "config_field \<Rightarrow> int \<Rightarrow> paxos_config \<Rightarrow> paxos_config" where
  "set_int F_verbosity n cfg = cfg\<lparr>verbosity := n\<rparr>"
| "set_int F_tcp_nodelay n cfg = cfg\<lparr>tcp_nodelay := n\<rparr>"
| "set_int F_learner_catch_up n cfg = cfg\<lparr>learner_catch_up := n\<rparr>"
| "set_int F_proposer_timeout n cfg = cfg\<lparr>proposer_timeout := n\<rparr>"
| "set_int F_proposer_preexec_window n cfg = cfg\<lparr>proposer_preexec_window := n\<rparr>"
| "set_int F_storage_backend n cfg = cfg\<lparr>storage_backend := n\<rparr>"
| "set_int F_bdb_sync n cfg = cfg\<lparr>bdb_sync := n\<rparr>"
| "set_int F_trash_files n cfg = cfg\<lparr>trash_files := n\<rparr>"
| "set_int F_lmdb_sync n cfg = cfg\<lparr>lmdb_sync := n\<rparr>"
| "set_int _ n cfg = cfg"

fun set_string :: "config_field \<Rightarrow> string \<Rightarrow> paxos_config \<Rightarrow> paxos_config" where
  "set_string F_bdb_env_path s cfg = cfg\<lparr>bdb_env_path := s\<rparr>"
| "set_string F_bdb_db_filename s cfg = cfg\<lparr>bdb_db_filename := s\<rparr>"
| "set_string F_lmdb_env_path s cfg = cfg\<lparr>lmdb_env_path := s\<rparr>"
| "set_string _ s cfg = cfg"

fun set_bytes :: "config_field \<Rightarrow> 64 word \<Rightarrow> paxos_config \<Rightarrow> paxos_config" where
  "set_bytes F_bdb_cachesize n cfg = cfg\<lparr>bdb_cachesize := n\<rparr>"
| "set_bytes F_lmdb_mapsize n cfg = cfg\<lparr>lmdb_mapsize := n\<rparr>"
| "set_bytes _ n cfg = cfg"

section \<open>Addresses\<close>

definition zero_address :: address where
  "zero_address = \<lparr>addr_addr = None, addr_port = 0\<rparr>"

text \<open>\<open>strdup\<close> reads its argument.\<close>

definition address_init :: "string option \<Rightarrow> int \<Rightarrow> address outcome" where
  "address_init a port =
     (case a of None \<Rightarrow> Inl NullPointer | Some s \<Rightarrow> Inr \<lparr>addr_addr = Some s, addr_port = port\<rparr>)"

definition address_copy :: "address \<Rightarrow> address outcome" where
  "address_copy src = address_init (addr_addr src) (addr_port src)"

text \<open>
  \<open>struct sockaddr_in\<close> in host byte order. The argument \<open>inet_addr\<close> is the C library function
  that turns a dotted address into a number.
\<close>

record sockaddr_in =
  sin_port :: "16 word"
  sin_addr :: "32 word"

definition address_to_sockaddr :: "(string \<Rightarrow> 32 word) \<Rightarrow> address \<Rightarrow> sockaddr_in outcome" where
  "address_to_sockaddr inet_addr a =
     (case addr_addr a of
        None \<Rightarrow> Inl NullPointer
      | Some s \<Rightarrow> Inr \<lparr>sin_port = word_of_int (addr_port a), sin_addr = inet_addr s\<rparr>)"

definition array_at :: "'a list \<Rightarrow> int \<Rightarrow> 'a outcome" where
  "array_at xs i = (if 0 \<le> i \<and> i < int (length xs) then Inr (xs ! nat i) else Inl OutOfBounds)"

definition evpaxos_proposer_address ::
  "(string \<Rightarrow> 32 word) \<Rightarrow> evpaxos_config \<Rightarrow> int \<Rightarrow> sockaddr_in outcome" where
  "evpaxos_proposer_address inet_addr c i = bindE (array_at (proposers c) i) (address_to_sockaddr inet_addr)"

definition evpaxos_proposer_listen_port :: "evpaxos_config \<Rightarrow> int \<Rightarrow> int outcome" where
  "evpaxos_proposer_listen_port c i = map_sum id addr_port (array_at (proposers c) i)"

definition evpaxos_acceptor_count :: "evpaxos_config \<Rightarrow> int" where
  "evpaxos_acceptor_count c = int (acceptors_count c)"

definition evpaxos_acceptor_address ::
  "(string \<Rightarrow> 32 word) \<Rightarrow> evpaxos_config \<Rightarrow> int \<Rightarrow> sockaddr_in outcome" where
  "evpaxos_acceptor_address inet_addr c i = bindE (array_at (acceptors c) i) (address_to_sockaddr inet_addr)"

definition evpaxos_acceptor_listen_port :: "evpaxos_config \<Rightarrow> int \<Rightarrow> int outcome" where
  "evpaxos_acceptor_listen_port c i = map_sum id addr_port (array_at (acceptors c) i)"

section \<open>Parsing values\<close>

definition strtrim :: "string option \<Rightarrow> string outcome" where
  "strtrim str =
     (case str of
        None \<Rightarrow> Inl NullPointer
      | Some s \<Rightarrow> Inr (rev (dropWhile isspace (rev (dropWhile isspace s)))))"

text \<open>\<open>*bytes\<close> and the return code; \<open>*bytes\<close> is written in every case.\<close>

definition parse_bytes :: "string \<Rightarrow> 64 word \<times> bool" where
  "parse_bytes str =
     (let (n, rest, err) = strtoull str; rest = dropWhile isspace rest
      in if err then (n, False)
         else if rest = [] then (n, True)
         else if strcaseeq rest ''kb'' then (n * 1024, True)
         else if strcaseeq rest ''mb'' then (n * (1024 * 1024), True)
         else if strcaseeq rest ''gb'' then (n * (1024 * 1024 * 1024), True)
         else (n, False))"

definition parse_boolean :: "string \<Rightarrow> int option" where
  "parse_boolean str =
     (if strcaseeq str ''yes'' then Some 1 else if strcaseeq str ''no'' then Some 0 else None)"

definition parse_integer :: "string \<Rightarrow> int option" where
  "parse_integer str = map_option fst (strtol_int str)"

definition parse_string :: "string \<Rightarrow> string option" where
  "parse_string str = (case str of [] \<Rightarrow> None | c # _ \<Rightarrow> if code_of c = 10 then None else Some str)"

definition parse_address :: "string option \<Rightarrow> address option outcome" where
  "parse_address str =
     bindE (sscanf_address str) (\<lambda>r.
       case r of
         None \<Rightarrow> Inr None
       | Some (word, port) \<Rightarrow> map_sum id Some (address_init (Some word) port))"

definition parse_verbosity :: "string \<Rightarrow> int option" where
  "parse_verbosity str =
     (if strcaseeq str ''quiet'' then Some 0 else if strcaseeq str ''error'' then Some 1
      else if strcaseeq str ''info'' then Some 2 else if strcaseeq str ''debug'' then Some 3 else None)"

definition parse_backend :: "string \<Rightarrow> int option" where
  "parse_backend str =
     (if strcaseeq str ''memory'' then Some 0 else if strcaseeq str ''bdb'' then Some 1
      else if strcaseeq str ''lmdb'' then Some 2 else None)"

definition lookup_option :: "string \<Rightarrow> (config_field \<times> option_type) option" where
  "lookup_option opt = map_option snd (List.find (\<lambda>entry. strcaseeq (fst entry) opt) options)"

section \<open>Parsing lines\<close>

text \<open>
  The state of the parser: the configuration under construction and the global
  \<open>paxos_config\<close>; the result adds the return code.
\<close>

type_synonym parse_state = "evpaxos_config \<times> paxos_config"

definition array_set :: "'a list \<Rightarrow> nat \<Rightarrow> 'a \<Rightarrow> 'a list outcome" where
  "array_set xs i x = (if i < length xs then Inr (xs[i := x]) else Inl OutOfBounds)"

text \<open>
  \<open>&c->acceptors[c->acceptors_count++]\<close>, filled by \<open>parse_address\<close>: the entry keeps what it was
  when the line does not parse.
\<close>

definition add_acceptor :: "evpaxos_config \<Rightarrow> address option \<Rightarrow> evpaxos_config outcome" where
  "add_acceptor c a =
     (case a of
        None \<Rightarrow> Inr (c\<lparr>acceptors_count := acceptors_count c + 1\<rparr>)
      | Some x \<Rightarrow> map_sum id (\<lambda>xs. c\<lparr>acceptors_count := acceptors_count c + 1, acceptors := xs\<rparr>)
                   (array_set (acceptors c) (acceptors_count c) x))"

definition add_proposer :: "evpaxos_config \<Rightarrow> address option \<Rightarrow> evpaxos_config outcome" where
  "add_proposer c a =
     (case a of
        None \<Rightarrow> Inr (c\<lparr>proposers_count := proposers_count c + 1\<rparr>)
      | Some x \<Rightarrow> map_sum id (\<lambda>xs. c\<lparr>proposers_count := proposers_count c + 1, proposers := xs\<rparr>)
                   (array_set (proposers c) (proposers_count c) x))"

definition parse_option :: "paxos_config \<Rightarrow> config_field \<Rightarrow> option_type \<Rightarrow> string \<Rightarrow> paxos_config \<times> bool" where
  "parse_option cfg f ty line =
     (let int_result = (\<lambda>r. case r of None \<Rightarrow> (cfg, False) | Some n \<Rightarrow> (set_int f n cfg, True))
      in case ty of
           option_boolean \<Rightarrow> int_result (parse_boolean line)
         | option_integer \<Rightarrow> int_result (parse_integer line)
         | option_string \<Rightarrow>
             (case parse_string line of None \<Rightarrow> (cfg, False) | Some s \<Rightarrow> (set_string f s cfg, True))
         | option_verbosity \<Rightarrow> int_result (parse_verbosity line)
         | option_backend \<Rightarrow> int_result (parse_backend line)
         | option_bytes \<Rightarrow> (let (n, ok) = parse_bytes line in (set_bytes f n cfg, ok)))"

text \<open>The branches of \<open>parse_line\<close> for an acceptor, a proposer, a replica and an option.\<close>

definition acceptor_line :: "parse_state \<Rightarrow> string option \<Rightarrow> (parse_state \<times> bool) outcome" where
  "acceptor_line st line =
     (case st of (c, cfg) \<Rightarrow>
      if MAX_N_OF_PROPOSERS \<le> acceptors_count c then Inr (st, False)
      else bindE (parse_address line) (\<lambda>a.
           bindE (add_acceptor c a) (\<lambda>c. Inr ((c, cfg), a \<noteq> None))))"

definition proposer_line :: "parse_state \<Rightarrow> string option \<Rightarrow> (parse_state \<times> bool) outcome" where
  "proposer_line st line =
     (case st of (c, cfg) \<Rightarrow>
      if MAX_N_OF_PROPOSERS \<le> proposers_count c then Inr (st, False)
      else bindE (parse_address line) (\<lambda>a.
           bindE (add_proposer c a) (\<lambda>c. Inr ((c, cfg), a \<noteq> None))))"

definition replica_line :: "parse_state \<Rightarrow> string option \<Rightarrow> (parse_state \<times> bool) outcome" where
  "replica_line st line =
     (case st of (c, cfg) \<Rightarrow>
      if MAX_N_OF_PROPOSERS \<le> proposers_count c \<or> MAX_N_OF_PROPOSERS \<le> acceptors_count c
      then Inr (st, False)
      else bindE (parse_address line) (\<lambda>a.
           bindE (add_proposer c a) (\<lambda>c'.
           bindE (array_at (proposers c') (int (proposers_count c))) (\<lambda>pro_addr.
           bindE (address_copy pro_addr) (\<lambda>b.
           bindE (add_acceptor c' (Some b)) (\<lambda>c'. Inr ((c', cfg), a \<noteq> None)))))))"

definition option_line :: "parse_state \<Rightarrow> string \<Rightarrow> string option \<Rightarrow> (parse_state \<times> bool) outcome" where
  "option_line st tok line =
     (case st of (c, cfg) \<Rightarrow>
      bindE (strtrim line) (\<lambda>line.
        case lookup_option tok of
          None \<Rightarrow> Inr (st, False)
        | Some (f, ty) \<Rightarrow>
            let (cfg, ok) = parse_option cfg f ty line in Inr ((c, cfg), ok)))"

definition parse_line :: "parse_state \<Rightarrow> string \<Rightarrow> (parse_state \<times> bool) outcome" where
  "parse_line st line =
     bindE (strtrim (Some line)) (\<lambda>line.
       let (tok, line) = strsep line in
       if strcaseeq tok ''a'' \<or> strcaseeq tok ''acceptor'' then acceptor_line st line
       else if strcaseeq tok ''p'' \<or> strcaseeq tok ''proposer'' then proposer_line st line
       else if strcaseeq tok ''r'' \<or> strcaseeq tok ''replica'' then replica_line st line
       else option_line st tok line)"

section \<open>Reading the file\<close>

text \<open>\<open>fgets\<close> of up to \<open>n\<close> characters: the line and the rest of the file.\<close>

fun fgets :: "nat \<Rightarrow> string \<Rightarrow> string \<times> string" where
  "fgets 0 s = ([], s)"
| "fgets (Suc n) [] = ([], [])"
| "fgets (Suc n) (c # s) =
     (if code_of c = 10 then ([c], s) else let (line, rest) = fgets n s in (c # line, rest))"

lemma fgets_rest_le: "length (snd (fgets n s)) \<le> length s"
  by (induction n s rule: fgets.induct) (auto simp: Let_def split: prod.splits)

lemma fgets_rest_less: "0 < n \<Longrightarrow> s \<noteq> [] \<Longrightarrow> fgets n s = (line, rest) \<Longrightarrow> length rest < length s"
  using fgets_rest_le by (cases n; cases s) (auto split: if_splits prod.splits intro: le_imp_less_Suc,
    metis le_imp_less_Suc snd_conv)

text \<open>
  The loop over the lines, with \<open>char line[512]\<close>. Comments start with a number sign.
\<close>

definition skipped :: "string \<Rightarrow> bool" where
  "skipped line = (case line of [] \<Rightarrow> False | c # _ \<Rightarrow> c = CHR ''#'' \<or> code_of c = 10)"

function read_lines :: "parse_state \<Rightarrow> string \<Rightarrow> (parse_state \<times> bool) outcome" where
  "read_lines st contents =
     (case contents of
        [] \<Rightarrow> Inr (st, True)
      | _ # _ \<Rightarrow>
          (case fgets 511 contents of
             (line, rest) \<Rightarrow>
               if skipped line then read_lines st rest
               else case parse_line st line of
                      Inl e \<Rightarrow> Inl e
                    | Inr (st, ok) \<Rightarrow> if ok then read_lines st rest else Inr (st, False)))"
  by pat_completeness auto

termination
  by (relation "measure (\<lambda>(st, contents). length contents)") (auto dest!: fgets_rest_less [rotated 2, OF sym])

declare read_lines.simps [simp del]

definition empty_config :: evpaxos_config where
  "empty_config = \<lparr>proposers_count = 0, acceptors_count = 0,
     proposers = replicate MAX_N_OF_PROPOSERS zero_address,
     acceptors = replicate MAX_N_OF_PROPOSERS zero_address\<rparr>"

text \<open>
  \<open>contents\<close> is what the file holds, \<open>None\<close> when it cannot be opened or is not a regular
  file. The result is \<open>NULL\<close> or the configuration, and the global one, which a failed parse
  leaves as far as it got.
\<close>

definition evpaxos_config_read ::
  "paxos_config \<Rightarrow> string option \<Rightarrow> (evpaxos_config option \<times> paxos_config) outcome" where
  "evpaxos_config_read cfg contents =
     (case contents of
        None \<Rightarrow> Inr (None, cfg)
      | Some str \<Rightarrow>
          map_sum id (\<lambda>((c, cfg), ok). (if ok then Some c else None, cfg))
            (read_lines (empty_config, cfg) str))"

section \<open>What a configuration that was read holds\<close>

text \<open>
  The counts stay within the arrays, and every entry below its count has an address.
\<close>

definition config_ok :: "evpaxos_config \<Rightarrow> bool" where
  "config_ok c \<longleftrightarrow>
     acceptors_count c \<le> MAX_N_OF_PROPOSERS \<and> proposers_count c \<le> MAX_N_OF_PROPOSERS \<and>
     length (acceptors c) = MAX_N_OF_PROPOSERS \<and> length (proposers c) = MAX_N_OF_PROPOSERS \<and>
     (\<forall>i < acceptors_count c. addr_addr (acceptors c ! i) \<noteq> None) \<and>
     (\<forall>i < proposers_count c. addr_addr (proposers c ! i) \<noteq> None)"

definition config_sized :: "evpaxos_config \<Rightarrow> bool" where
  "config_sized c \<longleftrightarrow> length (acceptors c) = MAX_N_OF_PROPOSERS \<and> length (proposers c) = MAX_N_OF_PROPOSERS"

lemma empty_config_ok: "config_ok empty_config"
  by (simp add: config_ok_def empty_config_def)

lemma parse_address_set: "parse_address l = Inr (Some a) \<Longrightarrow> addr_addr a \<noteq> None"
  by (auto simp: parse_address_def bindE_Inr address_init_def split: option.splits)

lemma add_acceptor_ok:
  assumes "config_ok c" and "acceptors_count c < MAX_N_OF_PROPOSERS" and "addr_addr a \<noteq> None"
  shows "add_acceptor c (Some a) =
      Inr (c\<lparr>acceptors_count := acceptors_count c + 1, acceptors := (acceptors c)[acceptors_count c := a]\<rparr>)"
    and "config_ok (c\<lparr>acceptors_count := acceptors_count c + 1,
      acceptors := (acceptors c)[acceptors_count c := a]\<rparr>)"
  using assms by (auto simp: add_acceptor_def array_set_def config_ok_def nth_list_update less_Suc_eq)

lemma add_proposer_ok:
  assumes "config_ok c" and "proposers_count c < MAX_N_OF_PROPOSERS" and "addr_addr a \<noteq> None"
  shows "add_proposer c (Some a) =
      Inr (c\<lparr>proposers_count := proposers_count c + 1, proposers := (proposers c)[proposers_count c := a]\<rparr>)"
    and "config_ok (c\<lparr>proposers_count := proposers_count c + 1,
      proposers := (proposers c)[proposers_count c := a]\<rparr>)"
  using assms by (auto simp: add_proposer_def array_set_def config_ok_def nth_list_update less_Suc_eq)

lemma acceptor_line_ok:
  assumes "config_ok c" and "acceptor_line (c, cfg) line = Inr ((c', cfg'), True)"
  shows "config_ok c'"
  using assms add_acceptor_ok [OF assms(1)] parse_address_set [of line]
  by (auto simp: acceptor_line_def bindE_Inr split: if_splits)

lemma proposer_line_ok:
  assumes "config_ok c" and "proposer_line (c, cfg) line = Inr ((c', cfg'), True)"
  shows "config_ok c'"
  using assms add_proposer_ok [OF assms(1)] parse_address_set [of line]
  by (auto simp: proposer_line_def bindE_Inr split: if_splits)

lemma replica_line_eq:
  assumes "config_ok c" and "proposers_count c < MAX_N_OF_PROPOSERS"
    and "acceptors_count c < MAX_N_OF_PROPOSERS" and "parse_address line = Inr (Some a)"
    and "addr_addr a \<noteq> None"
  obtains c' where "replica_line (c, cfg) line = Inr ((c', cfg), True)" and "config_ok c'"
    and "acceptors_count c' = acceptors_count c + 1"
    and "acceptors c' = (acceptors c)[acceptors_count c := a]"
    and "proposers_count c' = proposers_count c + 1"
    and "proposers c' = (proposers c)[proposers_count c := a]"
proof -
  let ?p = "c\<lparr>proposers_count := proposers_count c + 1, proposers := (proposers c)[proposers_count c := a]\<rparr>"
  note p = add_proposer_ok [OF assms(1,2,5)]
  have m: "acceptors_count ?p < MAX_N_OF_PROPOSERS" using assms(3) by simp
  note q = add_acceptor_ok [OF p(2) m assms(5)]
  have at: "array_at (proposers ?p) (int (proposers_count c)) = Inr a"
    using assms(1,2) by (simp add: array_at_def config_ok_def)
  have cp: "address_copy a = Inr a" using assms(5) by (cases a) (auto simp: address_copy_def address_init_def)
  show thesis
  proof (rule that [OF _ q(2)])
    show "replica_line (c, cfg) line = Inr ((?p\<lparr>acceptors_count := acceptors_count ?p + 1,
        acceptors := (acceptors ?p)[acceptors_count ?p := a]\<rparr>, cfg), True)"
      using assms(2-4) p(1) at cp q(1) by (simp add: replica_line_def)
  qed simp_all
qed

lemma replica_line_address:
  assumes "replica_line (c, cfg) line = Inr ((c', cfg'), True)"
  obtains a where "parse_address line = Inr (Some a)" and "proposers_count c < MAX_N_OF_PROPOSERS"
    and "acceptors_count c < MAX_N_OF_PROPOSERS"
  using assms by (auto simp: replica_line_def bindE_Inr split: if_splits)

lemma replica_line_ok:
  assumes "config_ok c" and "replica_line (c, cfg) line = Inr ((c', cfg'), True)"
  shows "config_ok c'"
proof -
  obtain a where a: "parse_address line = Inr (Some a)" "proposers_count c < MAX_N_OF_PROPOSERS"
    "acceptors_count c < MAX_N_OF_PROPOSERS" using replica_line_address [OF assms(2)] .
  obtain c1 where "replica_line (c, cfg) line = Inr ((c1, cfg), True)" "config_ok c1"
    using replica_line_eq [OF assms(1) a(2,3,1) parse_address_set [OF a(1)]] by metis
  then show ?thesis using assms(2) by simp
qed

lemma option_line_config:
  "option_line (c, cfg) tok line = Inr ((c', cfg'), ok) \<Longrightarrow> c' = c"
  by (cases "lookup_option tok")
    (auto simp: option_line_def bindE_Inr split: prod.splits, metis surj_pair)

lemma parse_line_ok:
  assumes "config_ok c" and "parse_line (c, cfg) line = Inr ((c', cfg'), True)"
  shows "config_ok c'"
proof -
  obtain l where l: "strtrim (Some line) = Inr l" by (simp add: strtrim_def)
  obtain tok r where "strsep l = (tok, r)" by (cases "strsep l")
  then have "acceptor_line (c, cfg) r = Inr ((c', cfg'), True) \<or> proposer_line (c, cfg) r = Inr ((c', cfg'), True) \<or>
      replica_line (c, cfg) r = Inr ((c', cfg'), True) \<or> option_line (c, cfg) tok r = Inr ((c', cfg'), True)"
    using assms(2) l by (simp add: parse_line_def split: if_splits)
  then show ?thesis
    using acceptor_line_ok [OF assms(1)] proposer_line_ok [OF assms(1)] replica_line_ok [OF assms(1)]
      option_line_config assms(1) by blast
qed

text \<open>One turn of the loop over the lines.\<close>

lemma read_lines_Nil: "read_lines st [] = Inr (st, True)"
  by (simp add: read_lines.simps)

lemma read_lines_step:
  "contents \<noteq> [] \<Longrightarrow> fgets 511 contents = (line, rest) \<Longrightarrow>
   read_lines st contents =
     (if skipped line then read_lines st rest
      else bindE (parse_line st line) (\<lambda>(st, ok). if ok then read_lines st rest else Inr (st, False)))"
  by (subst read_lines.simps) (cases contents, auto simp: bindE_def split: sum.splits)

lemma read_lines_ok:
  "config_ok (fst st) \<Longrightarrow> read_lines st contents = Inr (st', True) \<Longrightarrow> config_ok (fst st')"
proof (induction "length contents" arbitrary: st contents rule: less_induct)
  case less
  show ?case
  proof (cases "contents = []")
    case True
    then show ?thesis using less(2,3) by (simp add: read_lines_Nil)
  next
    case False
    obtain line rest where l: "fgets 511 contents = (line, rest)" by (cases "fgets 511 contents")
    note ih = less(1) [OF fgets_rest_less [OF _ False l], simplified]
    show ?thesis
    proof (cases "skipped line")
      case True
      then show ?thesis using less(2,3) ih by (simp add: read_lines_step [OF False l])
    next
      case go: False
      then obtain st1 where p: "parse_line st line = Inr (st1, True)" "read_lines st1 rest = Inr (st', True)"
        using less(3) by (auto simp: read_lines_step [OF False l] bindE_Inr split: if_splits)
      have "config_ok (fst st1)"
        using parse_line_ok [of "fst st" "snd st" line "fst st1" "snd st1"] less(2) p(1) by simp
      then show ?thesis using ih p(2) by blast
    qed
  qed
qed

section \<open>Writing a configuration\<close>

text \<open>Decimal numbers, and what \<open>strtol\<close> reads of them.\<close>

lemma code_of_char_of: "n < 256 \<Longrightarrow> code_of (char_of n) = n"
  by (simp add: code_of_def)

definition digits_fold :: "nat \<Rightarrow> string \<Rightarrow> nat" where
  "digits_fold acc ds = foldl (\<lambda>a c. 10 * a + (code_of c - 48)) acc ds"

lemma digits_value_append:
  "\<forall>c \<in> set ds. isdigit c \<Longrightarrow> rest = [] \<or> \<not> isdigit (hd rest) \<Longrightarrow>
   digits_value acc (ds @ rest) = (digits_fold acc ds, rest)"
proof (induction ds arbitrary: acc)
  case Nil
  then show ?case by (cases rest) (simp_all add: digits_fold_def)
qed (simp add: digits_fold_def)

lemma decimal_digits: "c \<in> set (nat_to_string n) \<Longrightarrow> isdigit c"
proof (induction n rule: nat_to_string.induct)
  case (1 n)
  show ?case
  proof (cases "n < 10")
    case True
    then show ?thesis using 1(2) by (simp add: nat_to_string.simps [of n] isdigit_def code_of_char_of)
  next
    case False
    have "n mod 10 < 10" by simp
    then have "isdigit (char_of (48 + n mod 10))" by (simp add: isdigit_def code_of_char_of)
    then show ?thesis using 1 False by (auto simp: nat_to_string.simps [of n])
  qed
qed

lemma decimal_nonempty: "nat_to_string n \<noteq> []"
  by (simp add: nat_to_string.simps [of n])

lemma decimal_value: "digits_fold 0 (nat_to_string n) = n"
proof (induction n rule: nat_to_string.induct)
  case (1 n)
  show ?case
  proof (cases "n < 10")
    case True
    then show ?thesis by (simp add: nat_to_string.simps [of n] digits_fold_def code_of_char_of)
  next
    case False
    have "code_of (char_of (48 + n mod 10)) = 48 + n mod 10"
      by (rule code_of_char_of) (use mod_less_divisor [of 10 n] in linarith)
    then show ?thesis using 1 False by (simp add: nat_to_string.simps [of n] digits_fold_def)
  qed
qed

lemma code_of_inj: "code_of c = code_of d \<longleftrightarrow> c = d"
  by (simp add: code_of_def)

lemma digit_not_special: "isdigit c \<Longrightarrow> \<not> isspace c \<and> c \<noteq> CHR ''-'' \<and> c \<noteq> CHR ''+''"
  by (auto simp: isdigit_def isspace_def code_of_def)

lemma dropWhile_space_digits:
  "ds \<noteq> [] \<Longrightarrow> \<forall>c \<in> set ds. isdigit c \<Longrightarrow> dropWhile isspace (ds @ rest) = ds @ rest"
  by (cases ds) (auto dest: digit_not_special)

lemma strtol_decimal:
  assumes "n < 2 ^ 31" and "rest = [] \<or> \<not> isdigit (hd rest)" and "\<forall>c \<in> set sp. isspace c"
  shows "strtol_int (sp @ nat_to_string n @ rest) = Some (int n, rest)"
proof -
  have d: "\<forall>c \<in> set (nat_to_string n). isdigit c" using decimal_digits by blast
  obtain c ds where c: "nat_to_string n = c # ds" using decimal_nonempty by (cases "nat_to_string n") auto
  have "dropWhile isspace (sp @ nat_to_string n @ rest) = nat_to_string n @ rest"
    using assms(3) dropWhile_space_digits [OF decimal_nonempty d] by (simp add: dropWhile_append2)
  moreover have "isdigit c" "c \<noteq> CHR ''-''" "c \<noteq> CHR ''+''" using d digit_not_special c by auto
  moreover have "digits_value 0 (c # ds @ rest) = (n, rest)"
    using digits_value_append [OF d assms(2)] decimal_value [of n] c by simp
  moreover have "sint (word_of_int (int n) :: 32 word) = int n"
    using assms(1) by (simp add: signed_of_nat signed_take_bit_int_eq_self)
  ultimately show ?thesis using assms(1) c
    by (simp add: strtol_int_def scan_number_def Let_def min_def)
qed

text \<open>The entries of a configuration file, as they are written.\<close>

datatype config_entry =
    Acceptor_entry nat string nat
  | Proposer_entry nat string nat
  | Replica_entry nat string nat

fun entry_args :: "config_entry \<Rightarrow> nat \<times> string \<times> nat" where
  "entry_args (Acceptor_entry i a p) = (i, a, p)"
| "entry_args (Proposer_entry i a p) = (i, a, p)"
| "entry_args (Replica_entry i a p) = (i, a, p)"

fun entry_word :: "config_entry \<Rightarrow> string" where
  "entry_word (Acceptor_entry i a p) = ''acceptor''"
| "entry_word (Proposer_entry i a p) = ''proposer''"
| "entry_word (Replica_entry i a p) = ''replica''"

fun is_acceptor :: "config_entry \<Rightarrow> bool" where
  "is_acceptor (Proposer_entry i a p) = False" | "is_acceptor _ = True"

fun is_proposer :: "config_entry \<Rightarrow> bool" where
  "is_proposer (Acceptor_entry i a p) = False" | "is_proposer _ = True"

definition entry_address :: "config_entry \<Rightarrow> address" where
  "entry_address e = (case entry_args e of (i, a, p) \<Rightarrow> \<lparr>addr_addr = Some a, addr_port = int p\<rparr>)"

definition args_line :: "config_entry \<Rightarrow> string" where
  "args_line e = (case entry_args e of (i, a, p) \<Rightarrow> nat_to_string i @ '' '' @ a @ '' '' @ nat_to_string p)"

definition entry_line :: "config_entry \<Rightarrow> string" where
  "entry_line e = entry_word e @ '' '' @ args_line e @ [CHR 0x0A]"

definition entry_ok :: "config_entry \<Rightarrow> bool" where
  "entry_ok e \<longleftrightarrow>
     (case entry_args e of (i, a, p) \<Rightarrow>
        i < 2 ^ 31 \<and> p < 2 ^ 31 \<and> a \<noteq> [] \<and> length a < 128 \<and> (\<forall>c \<in> set a. \<not> isspace c))"

definition config_text :: "config_entry list \<Rightarrow> string" where
  "config_text es = concat (map entry_line es)"

definition config_acceptors :: "evpaxos_config \<Rightarrow> address list" where
  "config_acceptors c = take (acceptors_count c) (acceptors c)"

definition config_proposers :: "evpaxos_config \<Rightarrow> address list" where
  "config_proposers c = take (proposers_count c) (proposers c)"

lemma scan_args:
  assumes "entry_ok e"
  shows "parse_address (Some (args_line e)) = Inr (Some (entry_address e))"
proof -
  obtain i a p where e: "entry_args e = (i, a, p)" by (cases "entry_args e")
  note ok = assms [unfolded entry_ok_def e, simplified]
  have sp: "isspace CHR '' ''" "\<not> isdigit CHR '' ''" by (simp_all add: isspace_def isdigit_def code_of_def)
  have w: "takeWhile (\<lambda>c. \<not> isspace c) (a @ '' '' @ nat_to_string p) = a"
      "dropWhile (\<lambda>c. \<not> isspace c) (a @ '' '' @ nat_to_string p) = '' '' @ nat_to_string p"
    using ok sp by (simp_all add: takeWhile_append2 dropWhile_append2)
  have a: "dropWhile isspace ('' '' @ a @ '' '' @ nat_to_string p) = a @ '' '' @ nat_to_string p"
    using ok sp by (cases a) simp_all
  have 1: "strtol_int (nat_to_string i @ '' '' @ a @ '' '' @ nat_to_string p) = Some (int i, '' '' @ a @ '' '' @ nat_to_string p)"
    using strtol_decimal [of i "'' '' @ a @ '' '' @ nat_to_string p" "[]"] ok sp by simp
  have 2: "strtol_int ('' '' @ nat_to_string p) = Some (int p, [])"
    using strtol_decimal [of p "[]" "'' ''"] ok sp by simp
  show ?thesis
    using 1 2 a w ok
    by (simp add: parse_address_def sscanf_address_def args_line_def e entry_address_def address_init_def)
qed

lemma trim_entry:
  assumes "entry_ok e"
  shows "strtrim (Some (entry_line e)) = Inr (entry_word e @ '' '' @ args_line e)"
proof -
  obtain i a p where e: "entry_args e = (i, a, p)" by (cases "entry_args e")
  obtain ds d where d: "nat_to_string p = ds @ [d]" using decimal_nonempty by (cases "nat_to_string p" rule: rev_cases) auto
  then have "isdigit d" using decimal_digits [of d p] by simp
  then have dsp: "\<not> isspace d" using digit_not_special by blast
  have nl: "isspace (CHR 0x0A)" by (simp add: isspace_def code_of_def)
  have hd: "dropWhile isspace (entry_word e @ s) = entry_word e @ s" for s
    by (cases e) (simp_all add: isspace_def code_of_def)
  show ?thesis
    using dsp nl by (simp add: strtrim_def entry_line_def hd args_line_def e d)
qed

lemma strsep_entry: "strsep (entry_word e @ CHR '' '' # s) = (entry_word e, Some s)"
  by (cases e) (simp_all add: strsep_def)

lemma entry_word_eqs:
  "strcaseeq ''acceptor'' ''a'' = False" "strcaseeq ''acceptor'' ''acceptor''"
  "strcaseeq ''proposer'' ''a'' = False" "strcaseeq ''proposer'' ''acceptor'' = False"
  "strcaseeq ''proposer'' ''proposer''"
  "strcaseeq ''replica'' ''a'' = False" "strcaseeq ''replica'' ''acceptor'' = False"
  "strcaseeq ''replica'' ''p'' = False" "strcaseeq ''replica'' ''proposer'' = False"
  "strcaseeq ''replica'' ''replica''"
  by (simp_all add: strcaseeq_def tolower_def code_of_def)

lemma parse_line_entry:
  assumes "entry_ok e"
  shows "parse_line st (entry_line e) =
    (case e of
       Acceptor_entry i a p \<Rightarrow> acceptor_line st (Some (args_line e))
     | Proposer_entry i a p \<Rightarrow> proposer_line st (Some (args_line e))
     | Replica_entry i a p \<Rightarrow> replica_line st (Some (args_line e)))"
  using trim_entry [OF assms] strsep_entry [of e "args_line e"]
  by (cases e) (simp_all add: parse_line_def entry_word_eqs)

lemma take_update_last: "n < length xs \<Longrightarrow> take (Suc n) (xs[n := x]) = take n xs @ [x]"
  by (simp add: take_Suc_conv_app_nth)

lemma parse_entry:
  assumes "entry_ok e" and "config_ok c"
    and "is_acceptor e \<longrightarrow> acceptors_count c < MAX_N_OF_PROPOSERS"
    and "is_proposer e \<longrightarrow> proposers_count c < MAX_N_OF_PROPOSERS"
  obtains c' where "parse_line (c, cfg) (entry_line e) = Inr ((c', cfg), True)" and "config_ok c'"
    and "config_acceptors c' = config_acceptors c @ (if is_acceptor e then [entry_address e] else [])"
    and "config_proposers c' = config_proposers c @ (if is_proposer e then [entry_address e] else [])"
    and "acceptors_count c' = acceptors_count c + (if is_acceptor e then 1 else 0)"
    and "proposers_count c' = proposers_count c + (if is_proposer e then 1 else 0)"
proof -
  note pl = parse_line_entry [OF assms(1)]
  have set: "addr_addr (entry_address e) \<noteq> None" by (simp add: entry_address_def split: prod.splits)
  have len: "length (acceptors c) = MAX_N_OF_PROPOSERS" "length (proposers c) = MAX_N_OF_PROPOSERS"
    using assms(2) by (simp_all add: config_ok_def)
  show thesis
  proof (cases e)
    case (Acceptor_entry i a p)
    then have lt: "acceptors_count c < MAX_N_OF_PROPOSERS" using assms(3) by simp
    note add = add_acceptor_ok [OF assms(2) lt set]
    have "parse_line (c, cfg) (entry_line e) = acceptor_line (c, cfg) (Some (args_line e))"
      using pl Acceptor_entry by simp
    then show thesis
      using lt len add(1) Acceptor_entry scan_args [OF assms(1)]
      by (intro that [OF _ add(2)])
        (simp_all add: acceptor_line_def config_acceptors_def config_proposers_def take_update_last)
  next
    case (Proposer_entry i a p)
    then have lt: "proposers_count c < MAX_N_OF_PROPOSERS" using assms(4) by simp
    note add = add_proposer_ok [OF assms(2) lt set]
    have "parse_line (c, cfg) (entry_line e) = proposer_line (c, cfg) (Some (args_line e))"
      using pl Proposer_entry by simp
    then show thesis
      using lt len add(1) Proposer_entry scan_args [OF assms(1)]
      by (intro that [OF _ add(2)])
        (simp_all add: proposer_line_def config_acceptors_def config_proposers_def take_update_last)
  next
    case (Replica_entry i a p)
    then have lt: "proposers_count c < MAX_N_OF_PROPOSERS" "acceptors_count c < MAX_N_OF_PROPOSERS"
      using assms(3,4) by simp_all
    obtain c' where c': "replica_line (c, cfg) (Some (args_line e)) = Inr ((c', cfg), True)" "config_ok c'"
        "acceptors_count c' = acceptors_count c + 1"
        "acceptors c' = (acceptors c)[acceptors_count c := entry_address e]"
        "proposers_count c' = proposers_count c + 1"
        "proposers c' = (proposers c)[proposers_count c := entry_address e]"
      using replica_line_eq [OF assms(2) lt scan_args [OF assms(1)] set] by metis
    have "parse_line (c, cfg) (entry_line e) = replica_line (c, cfg) (Some (args_line e))"
      using pl Replica_entry by simp
    then show thesis
      using lt len c' Replica_entry
      by (intro that [OF _ c'(2)])
        (simp_all add: config_acceptors_def config_proposers_def take_update_last)
  qed
qed

lemma fgets_line:
  "\<forall>c \<in> set l. code_of c \<noteq> 10 \<Longrightarrow> code_of d = 10 \<Longrightarrow> length l < n \<Longrightarrow>
   fgets n (l @ d # rest) = (l @ [d], rest)"
proof (induction l arbitrary: n)
  case Nil
  then show ?case by (cases n) simp_all
next
  case (Cons c l)
  then obtain m where "n = Suc m" "length l < m" by (cases n) auto
  then show ?case using Cons by simp
qed

lemma decimal_length: "n < 10 ^ k \<Longrightarrow> 0 < k \<Longrightarrow> length (nat_to_string n) \<le> k"
proof (induction k arbitrary: n)
  case (Suc k)
  show ?case
  proof (cases "n < 10")
    case False
    then have "n div 10 < 10 ^ k" "0 < k" using Suc(2) by (auto simp: less_mult_imp_div_less intro: gr0I)
    then show ?thesis using Suc(1) [of "n div 10"] False by (simp add: nat_to_string.simps [of n])
  qed (simp add: nat_to_string.simps [of n])
qed simp

lemma fgets_entry:
  assumes "entry_ok e"
  shows "fgets 511 (entry_line e @ rest) = (entry_line e, rest)"
proof -
  obtain i a p where e: "entry_args e = (i, a, p)" by (cases "entry_args e")
  note ok = assms [unfolded entry_ok_def e, simplified]
  let ?l = "entry_word e @ '' '' @ args_line e"
  have nl: "isspace c" if "code_of c = 10" for c using that by (simp add: isspace_def)
  have dg: "code_of c \<noteq> 10" if "c \<in> set (nat_to_string n)" for c n
    using decimal_digits [OF that] by (auto simp: isdigit_def)
  have w: "\<forall>c \<in> set (entry_word e). code_of c \<noteq> 10" by (cases e) (simp_all add: code_of_def)
  have sp: "code_of CHR '' '' \<noteq> 10" by (simp add: code_of_def)
  have "\<forall>c \<in> set ?l. code_of c \<noteq> 10"
    using w sp dg nl ok by (auto simp: args_line_def e)
  moreover have "length ?l < 511"
  proof -
    have "length (nat_to_string i) \<le> 10" "length (nat_to_string p) \<le> 10"
      using ok by (auto intro!: decimal_length)
    moreover have "length (entry_word e) \<le> 8" by (cases e) simp_all
    ultimately show ?thesis using ok by (simp add: args_line_def e)
  qed
  moreover have "code_of (CHR 0x0A) = 10" by (simp add: code_of_def)
  ultimately have "fgets 511 (?l @ CHR 0x0A # rest) = (?l @ [CHR 0x0A], rest)"
    using fgets_line [of ?l "CHR 0x0A" 511 rest] by blast
  then show ?thesis by (simp add: entry_line_def)
qed

lemma entry_not_skipped: "\<not> skipped (entry_line e)"
  by (cases e) (simp_all add: skipped_def entry_line_def code_of_def)

lemma read_entries:
  assumes "\<forall>e \<in> set es. entry_ok e" and "config_ok c"
    and "acceptors_count c + length (filter is_acceptor es) \<le> MAX_N_OF_PROPOSERS"
    and "proposers_count c + length (filter is_proposer es) \<le> MAX_N_OF_PROPOSERS"
  shows "\<exists>c'. read_lines (c, cfg) (config_text es) = Inr ((c', cfg), True) \<and>
    config_acceptors c' = config_acceptors c @ map entry_address (filter is_acceptor es) \<and>
    config_proposers c' = config_proposers c @ map entry_address (filter is_proposer es)"
  using assms
proof (induction es arbitrary: c)
  case Nil
  then show ?case by (simp add: config_text_def read_lines_Nil)
next
  case (Cons e es)
  then have ok: "entry_ok e" by simp
  obtain c1 where c1: "parse_line (c, cfg) (entry_line e) = Inr ((c1, cfg), True)" "config_ok c1"
      "config_acceptors c1 = config_acceptors c @ (if is_acceptor e then [entry_address e] else [])"
      "config_proposers c1 = config_proposers c @ (if is_proposer e then [entry_address e] else [])"
      "acceptors_count c1 = acceptors_count c + (if is_acceptor e then 1 else 0)"
      "proposers_count c1 = proposers_count c + (if is_proposer e then 1 else 0)"
    using parse_entry [OF ok Cons(3)] Cons(4,5) by (auto split: if_splits)
  have step: "read_lines (c, cfg) (config_text (e # es)) = read_lines (c1, cfg) (config_text es)"
  proof -
    have ne: "entry_line e @ config_text es \<noteq> []" by (simp add: entry_line_def)
    show ?thesis
      using read_lines_step [OF ne fgets_entry [OF ok]] entry_not_skipped c1(1)
      by (simp add: config_text_def)
  qed
  show ?case
    using Cons(1) [of c1] Cons(2,4,5) c1 by (auto simp: step)
qed

lemma entry_available:
  assumes "0 \<le> i" and "i < int n" and "n \<le> length xs" and "\<forall>k < n. addr_addr (xs ! k) \<noteq> None"
  shows "\<exists>a. bindE (array_at xs i) (address_to_sockaddr inet_addr) = Inr a"
    and "\<exists>p. map_sum id addr_port (array_at xs i) = Inr p"
proof -
  have "addr_addr (xs ! nat i) \<noteq> None" using assms by auto
  then show "\<exists>a. bindE (array_at xs i) (address_to_sockaddr inet_addr) = Inr a"
    "\<exists>p. map_sum id addr_port (array_at xs i) = Inr p"
    using assms(1-3) by (auto simp: array_at_def address_to_sockaddr_def)
qed

section \<open>Properties\<close>

text \<open>
  A configuration that was read is safe to use: there are at most ten acceptors and ten
  proposers, and asking for the address or the port of any of them by its index succeeds.
\<close>

theorem config_read_bounded:
  assumes "evpaxos_config_read cfg contents = Inr (Some c, cfg')"
  shows "0 \<le> evpaxos_acceptor_count c \<and> evpaxos_acceptor_count c \<le> int MAX_N_OF_PROPOSERS \<and>
    proposers_count c \<le> MAX_N_OF_PROPOSERS \<and>
    (0 \<le> i \<and> i < evpaxos_acceptor_count c \<longrightarrow>
       (\<exists>a. evpaxos_acceptor_address inet_addr c i = Inr a) \<and> (\<exists>n. evpaxos_acceptor_listen_port c i = Inr n)) \<and>
    (0 \<le> i \<and> i < int (proposers_count c) \<longrightarrow>
       (\<exists>a. evpaxos_proposer_address inet_addr c i = Inr a) \<and> (\<exists>n. evpaxos_proposer_listen_port c i = Inr n))"
proof -
  obtain str where "contents = Some str" using assms by (cases contents) (auto simp: evpaxos_config_read_def)
  then have "read_lines (empty_config, cfg) str = Inr ((c, cfg'), True)"
    using assms by (cases "read_lines (empty_config, cfg) str")
      (auto simp: evpaxos_config_read_def split: if_splits)
  then have ok: "config_ok c" using read_lines_ok [of "(empty_config, cfg)"] empty_config_ok by fastforce
  have "(\<exists>a. evpaxos_acceptor_address inet_addr c i = Inr a) \<and> (\<exists>n. evpaxos_acceptor_listen_port c i = Inr n)"
    if "0 \<le> i" "i < evpaxos_acceptor_count c"
    using entry_available [of i "acceptors_count c" "acceptors c"] that ok
    by (auto simp: config_ok_def evpaxos_acceptor_count_def evpaxos_acceptor_address_def
        evpaxos_acceptor_listen_port_def)
  moreover have "(\<exists>a. evpaxos_proposer_address inet_addr c i = Inr a) \<and> (\<exists>n. evpaxos_proposer_listen_port c i = Inr n)"
    if "0 \<le> i" "i < int (proposers_count c)"
    using entry_available [of i "proposers_count c" "proposers c"] that ok
    by (auto simp: config_ok_def evpaxos_proposer_address_def evpaxos_proposer_listen_port_def)
  ultimately show ?thesis
    using ok by (auto simp: config_ok_def evpaxos_acceptor_count_def)
qed

definition config_demo :: "config_entry list" where
  "config_demo = [Acceptor_entry 0 ''127.0.0.1'' 8800, Replica_entry 1 ''10.0.0.7'' 65535]"

lemma config_demo_ok: "\<forall>e \<in> set config_demo. entry_ok e"
  by (simp add: config_demo_def entry_ok_def isspace_def code_of_def)

theorem config_read_bounded_witness:
  "\<exists>c a. evpaxos_config_read default_config (Some (config_text config_demo)) = Inr (Some c, default_config) \<and>
     evpaxos_acceptor_count c \<le> 10"
proof -
  obtain c where c: "read_lines (empty_config, default_config) (config_text config_demo) =
      Inr ((c, default_config), True)"
    using read_entries [OF config_demo_ok empty_config_ok]
    by (auto simp: config_demo_def empty_config_def MAX_N_OF_PROPOSERS_def)
  then have r: "evpaxos_config_read default_config (Some (config_text config_demo)) = Inr (Some c, default_config)"
    by (simp add: evpaxos_config_read_def)
  show ?thesis using config_read_bounded [OF r] r by (auto simp: MAX_N_OF_PROPOSERS_def)
qed

text \<open>
  C23. Round trip of a configuration file: for up to ten acceptors and ten proposers, with
  addresses of one word of less than 128 characters, reading the file with one line per
  entry returns the acceptors and the proposers in the order of the lines, with their
  addresses and ports, and leaves the global options alone.
\<close>

theorem config_roundtrip:
  assumes "\<forall>e \<in> set es. entry_ok e"
    and "length (filter is_acceptor es) \<le> MAX_N_OF_PROPOSERS"
    and "length (filter is_proposer es) \<le> MAX_N_OF_PROPOSERS"
  shows "\<exists>c. evpaxos_config_read cfg (Some (config_text es)) = Inr (Some c, cfg) \<and>
    config_acceptors c = map entry_address (filter is_acceptor es) \<and>
    config_proposers c = map entry_address (filter is_proposer es)"
proof -
  have "config_acceptors empty_config = []" "config_proposers empty_config = []"
    by (simp_all add: config_acceptors_def config_proposers_def empty_config_def)
  then show ?thesis
    using read_entries [OF assms(1) empty_config_ok, of cfg] assms(2,3)
    by (auto simp: empty_config_def evpaxos_config_read_def)
qed

theorem config_roundtrip_witness:
  "\<exists>c. evpaxos_config_read default_config (Some (config_text config_demo)) = Inr (Some c, default_config) \<and>
     config_acceptors c =
       [\<lparr>addr_addr = Some ''127.0.0.1'', addr_port = 8800\<rparr>, \<lparr>addr_addr = Some ''10.0.0.7'', addr_port = 65535\<rparr>] \<and>
     config_proposers c = [\<lparr>addr_addr = Some ''10.0.0.7'', addr_port = 65535\<rparr>]"
  using config_roundtrip [OF config_demo_ok, of default_config]
  by (simp add: config_demo_def MAX_N_OF_PROPOSERS_def entry_address_def)

text \<open>
  A line of a single word ends the process: unless it is the keyword of an acceptor, a
  proposer or a replica whose array is already full, the rest of the line is \<open>NULL\<close> after
  \<open>strsep\<close>, and both \<open>sscanf\<close> and \<open>strtrim\<close> read through it.
\<close>

theorem single_word_line_crashes:
  assumes "\<forall>c \<in> set word. \<not> isspace c" and "acceptors_count c < MAX_N_OF_PROPOSERS"
    and "proposers_count c < MAX_N_OF_PROPOSERS"
  shows "parse_line (c, cfg) (word @ [CHR 0x0A]) = Inl NullPointer"
proof -
  have ns: "\<not> isspace x" if "x \<in> set word" for x using assms(1) that by blast
  have nl: "isspace (CHR 0x0A)" "isspace CHR '' ''" by (simp_all add: isspace_def code_of_def)
  have "dropWhile isspace (word @ [CHR 0x0A]) = (if word = [] then [] else word @ [CHR 0x0A])"
    using ns nl by (cases word) auto
  moreover have "dropWhile isspace xs = xs" if "set xs = set word" for xs
    using ns that by (cases xs) auto
  then have "dropWhile isspace (rev word) = rev word" by simp
  ultimately have trim: "strtrim (Some (word @ [CHR 0x0A])) = Inr word"
    using nl by (simp add: strtrim_def)
  have d: "takeWhile (\<lambda>x. x \<noteq> CHR '' '') word = word" "dropWhile (\<lambda>x. x \<noteq> CHR '' '') word = []"
    using ns nl(2) by (auto simp: takeWhile_eq_all_conv dropWhile_eq_Nil_conv)
  have sep: "strsep word = (word, None)" unfolding strsep_def d by simp
  show ?thesis
    using assms(2,3)
    by (simp add: parse_line_def trim sep acceptor_line_def proposer_line_def replica_line_def
        option_line_def parse_address_def sscanf_address_def strtrim_def [of None])
qed

theorem single_word_line_crashes_witness:
  "parse_line (empty_config, default_config) (''bdb-sync'' @ [CHR 0x0A]) = Inl NullPointer"
  by (rule single_word_line_crashes)
    (simp_all add: isspace_def code_of_def empty_config_def MAX_N_OF_PROPOSERS_def)

end
