(* ===== verification/EvPeers.thy ===== *)
theory EvPeers
  imports MsgPack EvConfig
begin

text \<open>
  \<open>evpaxos/peers.c\<close>: the connections of a process and the dispatch of messages. The peers are
  the acceptors this process connects to, the clients the processes that connect to it. The
  calls of libevent, and of the application, are recorded as the actions they are; what libevent returns (a buffer, an
  event flag) is an argument. The objects of a peer are reached through its position.
\<close>

section \<open>Actions\<close>

text \<open>\<open>struct timeval\<close> of a timer, and the timers of a process.\<close>

datatype ev_timer = Timer_reconnect int | Timer_acceptor_state | Timer_holes | Timer_timeouts | Timer_preexec

datatype ev_callback = Callback_peer | Callback_client

datatype net_action =
    Net_write bev_write
  | Net_setcb nat ev_callback
  | Net_enable nat
  | Net_setfd nat int
  | Net_connect nat sockaddr_in
  | Net_nodelay int int
  | Net_nodelay_bev nat int
  | Net_free nat
  | Net_listen "16 word"
  | Net_timer_new ev_timer
  | Net_timer_add ev_timer int int
  | Net_timer_free ev_timer
  | Net_loopexit
  | App_deliver iid_t "byte list option" int

text \<open>
  The names of the callbacks that the processes subscribe (\<open>evacceptor.c\<close>, \<open>evproposer.c\<close>,
  \<open>evlearner.c\<close>).
\<close>

datatype ev_cb =
    CB_acceptor_prepare | CB_acceptor_accept | CB_acceptor_repeat | CB_acceptor_trim
  | CB_proposer_promise | CB_proposer_accepted | CB_proposer_preempted | CB_proposer_client_value
  | CB_proposer_acceptor_state
  | CB_learner_accepted

section \<open>Peers\<close>

record peer =
  pr_id :: int
  pr_status :: "16 word"
  pr_bev :: nat
  pr_reconnect_ev :: bool
  pr_addr :: sockaddr_in

text \<open>
  \<open>struct peers\<close>, with \<open>peers_count\<close> and \<open>clients_count\<close> the lengths of the lists. A
  subscription holds the name of its callback; \<open>subs\<close> has room for 32 of them.
\<close>

record 'cb subscription =
  sub_type :: paxos_message_type
  sub_callback :: 'cb

record 'cb peers =
  ps_peers :: "peer list"
  ps_clients :: "peer list"
  ps_listener :: bool
  ps_config :: evpaxos_config
  ps_subs :: "'cb subscription list"

text \<open>The flags of libevent's buffer events.\<close>

definition BEV_EVENT_EOF :: "16 word" where "BEV_EVENT_EOF = 0x10"
definition BEV_EVENT_ERROR :: "16 word" where "BEV_EVENT_ERROR = 0x20"
definition BEV_EVENT_CONNECTED :: "16 word" where "BEV_EVENT_CONNECTED = 0x80"

definition peers_new :: "evpaxos_config \<Rightarrow> 'cb peers" where
  "peers_new config =
     \<lparr>ps_peers = [], ps_clients = [], ps_listener = False, ps_config = config, ps_subs = []\<rparr>"

definition peers_count :: "'cb peers \<Rightarrow> int" where
  "peers_count p = int (length (ps_peers p))"

definition clients_count :: "'cb peers \<Rightarrow> int" where
  "clients_count p = int (length (ps_clients p))"

text \<open>\<open>bev\<close> is the buffer \<open>bufferevent_socket_new\<close> returned.\<close>

definition make_peer :: "int \<Rightarrow> sockaddr_in \<Rightarrow> nat \<Rightarrow> peer" where
  "make_peer ident addr bev =
     \<lparr>pr_id = ident, pr_status = BEV_EVENT_EOF, pr_bev = bev, pr_reconnect_ev = False, pr_addr = addr\<rparr>"

definition connect_peer :: "paxos_config \<Rightarrow> peer \<Rightarrow> net_action list" where
  "connect_peer cfg p =
     [Net_enable (pr_bev p), Net_connect (pr_bev p) (pr_addr p), Net_nodelay_bev (pr_bev p) (tcp_nodelay cfg)]"

definition peers_connect ::
  "paxos_config \<Rightarrow> 'cb peers \<Rightarrow> int \<Rightarrow> sockaddr_in \<Rightarrow> nat \<Rightarrow> 'cb peers \<times> net_action list" where
  "peers_connect cfg p ident addr bev =
     (let peer = (make_peer ident addr bev)\<lparr>pr_reconnect_ev := True\<rparr>
      in (p\<lparr>ps_peers := ps_peers p @ [peer]\<rparr>,
          [Net_setcb bev Callback_peer, Net_timer_new (Timer_reconnect ident)] @ connect_peer cfg peer))"

text \<open>The buffers come from the list \<open>bevs\<close>, one for every acceptor.\<close>

fun connect_from ::
  "(string \<Rightarrow> 32 word) \<Rightarrow> paxos_config \<Rightarrow> 'cb peers \<Rightarrow> int \<Rightarrow> nat list \<Rightarrow> ('cb peers \<times> net_action list) outcome" where
  "connect_from inet_addr cfg p i [] = Inr (p, [])"
| "connect_from inet_addr cfg p i (bev # bevs) =
     (if i < evpaxos_acceptor_count (ps_config p)
      then bindE (evpaxos_acceptor_address inet_addr (ps_config p) i) (\<lambda>addr.
           let (p, out) = peers_connect cfg p i addr bev
           in bindE (connect_from inet_addr cfg p (i + 1) bevs) (\<lambda>(p, out').
                Inr (p, out @ out')))
      else Inr (p, []))"

definition peers_connect_to_acceptors ::
  "(string \<Rightarrow> 32 word) \<Rightarrow> paxos_config \<Rightarrow> 'cb peers \<Rightarrow> nat list \<Rightarrow> ('cb peers \<times> net_action list) outcome" where
  "peers_connect_to_acceptors inet_addr cfg p bevs = connect_from inet_addr cfg p 0 bevs"

text \<open>The iteration calls \<open>cb\<close> on every peer in order; the callbacks of the code write to it.\<close>

definition peers_foreach_acceptor :: "'cb peers \<Rightarrow> (peer \<Rightarrow> bev_write) \<Rightarrow> net_action list" where
  "peers_foreach_acceptor p cb = map (\<lambda>x. Net_write (cb x)) (ps_peers p)"

definition peers_foreach_client :: "'cb peers \<Rightarrow> (peer \<Rightarrow> bev_write) \<Rightarrow> net_action list" where
  "peers_foreach_client p cb = map (\<lambda>x. Net_write (cb x)) (ps_clients p)"

text \<open>
  \<open>peers_get_acceptor\<close>: its loop condition is \<open>p->peers_count\<close>, which does not change, so that
  the loop runs past the end of the array when no peer has the id.
\<close>

fun scan_peers :: "peer list \<Rightarrow> int \<Rightarrow> peer outcome" where
  "scan_peers [] ident = Inl OutOfBounds"
| "scan_peers (x # xs) ident = (if pr_id x = ident then Inr x else scan_peers xs ident)"

definition peers_get_acceptor :: "'cb peers \<Rightarrow> int \<Rightarrow> peer option outcome" where
  "peers_get_acceptor p ident =
     (if peers_count p = 0 then Inr None else map_sum id Some (scan_peers (ps_peers p) ident))"

definition peer_get_buffer :: "peer \<Rightarrow> nat" where "peer_get_buffer p = pr_bev p"

definition peer_get_id :: "peer \<Rightarrow> int" where "peer_get_id p = pr_id p"

definition peer_connected :: "peer \<Rightarrow> bool" where
  "peer_connected p \<longleftrightarrow> pr_status p = BEV_EVENT_CONNECTED"

text \<open>\<open>bound\<close> says whether \<open>evconnlistener_new_bind\<close> succeeded.\<close>

definition peers_listen :: "'cb peers \<Rightarrow> int \<Rightarrow> bool \<Rightarrow> 'cb peers \<times> net_action list \<times> int" where
  "peers_listen p port bound =
     (if bound then (p\<lparr>ps_listener := True\<rparr>, [Net_listen (word_of_int port)], 1)
      else (p\<lparr>ps_listener := False\<rparr>, [Net_listen (word_of_int port)], 0))"

definition MAX_SUBS :: nat where "MAX_SUBS = 32"

definition peers_subscribe :: "'cb peers \<Rightarrow> paxos_message_type \<Rightarrow> 'cb \<Rightarrow> 'cb peers outcome" where
  "peers_subscribe p ty cb =
     (if length (ps_subs p) < MAX_SUBS
      then Inr (p\<lparr>ps_subs := ps_subs p @ [\<lparr>sub_type = ty, sub_callback = cb\<rparr>]\<rparr>)
      else Inl OutOfBounds)"

text \<open>A sequence of calls of \<open>peers_subscribe\<close>.\<close>

fun subscribe_all :: "'cb peers \<Rightarrow> (paxos_message_type \<times> 'cb) list \<Rightarrow> 'cb peers outcome" where
  "subscribe_all ps [] = Inr ps"
| "subscribe_all ps ((ty, cb) # subs) = bindE (peers_subscribe ps ty cb) (\<lambda>ps. subscribe_all ps subs)"

section \<open>Dispatch\<close>

text \<open>
  A callback takes the peer the message came from, the message and the state of the process,
  and returns the new state and the actions; it may fail, and it may not return. \<open>call\<close> is the
  meaning of the callback names.
\<close>

type_synonym ('cb, 's) callbacks =
  "'cb \<Rightarrow> peer \<Rightarrow> paxos_message \<Rightarrow> 's \<Rightarrow> ('s \<times> net_action list) run"

fun dispatch_subs ::
  "('cb, 's) callbacks \<Rightarrow> 'cb subscription list \<Rightarrow> peer \<Rightarrow> paxos_message \<Rightarrow> 's \<Rightarrow>
     ('s \<times> net_action list) run" where
  "dispatch_subs call [] p msg s = Some (Inr (s, []))"
| "dispatch_subs call (sub # subs) p msg s =
     (if sub_type sub = message_type msg
      then bindR (call (sub_callback sub) p msg s) (\<lambda>(s, out).
           bindR (dispatch_subs call subs p msg s) (\<lambda>(s, out'). Some (Inr (s, out @ out'))))
      else dispatch_subs call subs p msg s)"

text \<open>A message of no known type matches no subscription.\<close>

definition dispatch_message ::
  "('cb, 's) callbacks \<Rightarrow> 'cb subscription list \<Rightarrow> peer \<Rightarrow> paxos_message option \<Rightarrow> 's \<Rightarrow>
     ('s \<times> net_action list) run" where
  "dispatch_message call subs p msg s =
     (case msg of None \<Rightarrow> Some (Inr (s, [])) | Some m \<Rightarrow> dispatch_subs call subs p m s)"

text \<open>
  The loop of \<open>on_read\<close> over the input buffer: what is left in the buffer, the state and the
  actions.
\<close>

partial_function (option) on_read ::
  "(byte list \<Rightarrow> (msgpack_object \<times> nat) option) \<Rightarrow> ('cb, 's) callbacks \<Rightarrow> 'cb subscription list \<Rightarrow>
     peer \<Rightarrow> byte list \<Rightarrow> 's \<Rightarrow> (byte list \<times> 's \<times> net_action list) run" where
  "on_read unpack_next call subs p input s =
     (case recv_paxos_message unpack_next input of
        Inl e \<Rightarrow> Some (Inl e)
      | Inr None \<Rightarrow> Some (Inr (input, s, []))
      | Inr (Some (msg, rest)) \<Rightarrow>
          bindR (dispatch_message call subs p msg s) (\<lambda>(s, out).
          bindR (on_read unpack_next call subs p rest s) (\<lambda>(rest, s, out').
            Some (Inr (rest, s, out @ out')))))"

section \<open>Connection events\<close>

text \<open>
  \<open>on_peer_event\<close> on the peer at position \<open>k\<close>; \<open>new_bev\<close> is the buffer libevent returns for
  the next attempt.
\<close>

definition on_peer_event ::
  "'cb peers \<Rightarrow> nat \<Rightarrow> 16 word \<Rightarrow> nat \<Rightarrow> 'cb peers \<times> net_action list" where
  "on_peer_event p k ev new_bev =
     (let x = ps_peers p ! k in
      if ev AND BEV_EVENT_CONNECTED \<noteq> 0 then (p\<lparr>ps_peers := (ps_peers p)[k := x\<lparr>pr_status := ev\<rparr>]\<rparr>, [])
      else if ev AND BEV_EVENT_ERROR \<noteq> 0 \<or> ev AND BEV_EVENT_EOF \<noteq> 0
      then (p\<lparr>ps_peers := (ps_peers p)[k := x\<lparr>pr_bev := new_bev, pr_status := ev\<rparr>]\<rparr>,
            [Net_free (pr_bev x), Net_setcb new_bev Callback_peer,
             Net_timer_add (Timer_reconnect (pr_id x)) 2 0])
      else (p, []))"

definition on_connection_timeout :: "paxos_config \<Rightarrow> 'cb peers \<Rightarrow> nat \<Rightarrow> net_action list" where
  "on_connection_timeout cfg p k = connect_peer cfg (ps_peers p ! k)"

text \<open>The loop that closes the gap of a client: \<open>n\<close> turns from index \<open>i\<close> on.\<close>

fun shift_clients :: "peer list \<Rightarrow> nat \<Rightarrow> nat \<Rightarrow> peer list" where
  "shift_clients cs i 0 = cs"
| "shift_clients cs i (Suc n) = shift_clients (cs[i := (cs ! (i + 1))\<lparr>pr_id := int i\<rparr>]) (i + 1) n"

definition free_peer :: "peer \<Rightarrow> net_action list" where
  "free_peer x =
     Net_free (pr_bev x) # (if pr_reconnect_ev x then [Net_timer_free (Timer_reconnect (pr_id x))] else [])"

definition free_all_peers :: "peer list \<Rightarrow> net_action list" where
  "free_all_peers ps = concat (map free_peer ps)"

definition peers_free :: "'cb peers \<Rightarrow> net_action list" where
  "peers_free p = free_all_peers (ps_peers p) @ free_all_peers (ps_clients p)"

text \<open>
  \<open>on_client_event\<close> on the client \<open>x\<close>, which knows its position by its id.
\<close>

definition on_client_event :: "'cb peers \<Rightarrow> peer \<Rightarrow> 16 word \<Rightarrow> 'cb peers \<times> net_action list" where
  "on_client_event p x ev =
     (if ev AND BEV_EVENT_EOF \<noteq> 0 \<or> ev AND BEV_EVENT_ERROR \<noteq> 0
      then let cs = shift_clients (ps_clients p) (nat (pr_id x)) (nat (clients_count p - 1 - pr_id x))
           in (p\<lparr>ps_clients := take (length cs - 1) cs\<rparr>, free_peer x)
      else (p, []))"

definition on_listener_error :: "net_action list" where
  "on_listener_error = [Net_loopexit]"

definition on_accept ::
  "paxos_config \<Rightarrow> 'cb peers \<Rightarrow> int \<Rightarrow> sockaddr_in \<Rightarrow> nat \<Rightarrow> 'cb peers \<times> net_action list" where
  "on_accept cfg p fd addr bev =
     (p\<lparr>ps_clients := ps_clients p @ [make_peer (clients_count p) addr bev]\<rparr>,
      [Net_setfd bev fd, Net_setcb bev Callback_client, Net_enable bev, Net_nodelay fd (tcp_nodelay cfg)])"

section \<open>Positions and ids\<close>

text \<open>Every peer and every client is at the position its id says.\<close>

definition placed :: "peer list \<Rightarrow> bool" where
  "placed xs \<longleftrightarrow> (\<forall>i < length xs. pr_id (xs ! i) = int i)"

definition peers_ok :: "'cb peers \<Rightarrow> bool" where
  "peers_ok p \<longleftrightarrow> placed (ps_peers p) \<and> placed (ps_clients p) \<and> length (ps_subs p) \<le> MAX_SUBS"

definition renumber :: "peer list \<Rightarrow> peer list" where
  "renumber xs = map2 (\<lambda>i x. x\<lparr>pr_id := int i\<rparr>) [0..<length xs] xs"

definition without :: "nat \<Rightarrow> 'a list \<Rightarrow> 'a list" where
  "without k xs = take k xs @ drop (Suc k) xs"

lemma length_renumber [simp]: "length (renumber xs) = length xs"
  by (simp add: renumber_def)

lemma renumber_nth: "i < length xs \<Longrightarrow> renumber xs ! i = (xs ! i)\<lparr>pr_id := int i\<rparr>"
  by (simp add: renumber_def)

lemma placed_renumber: "placed (renumber xs)"
  by (simp add: placed_def renumber_nth)

lemma placed_append: "placed xs \<Longrightarrow> pr_id x = int (length xs) \<Longrightarrow> placed (xs @ [x])"
  by (auto simp: placed_def nth_append)

lemma placed_update: "placed xs \<Longrightarrow> k < length xs \<Longrightarrow> pr_id x = int k \<Longrightarrow> placed (xs[k := x])"
  by (auto simp: placed_def nth_list_update)

lemma placed_renumber_same: "placed xs \<Longrightarrow> renumber xs = xs"
  by (rule nth_equalityI) (simp_all add: placed_def renumber_nth)

lemma length_shift_clients [simp]: "length (shift_clients cs i n) = length cs"
  by (induction cs i n rule: shift_clients.induct) simp_all

lemma shift_clients_nth:
  "i + n < length cs \<Longrightarrow> j < length cs \<Longrightarrow>
   shift_clients cs i n ! j =
     (if i \<le> j \<and> j < i + n then (cs ! (j + 1))\<lparr>pr_id := int j\<rparr> else cs ! j)"
proof (induction cs i n rule: shift_clients.induct)
  case (2 cs i n)
  then show ?case by (auto simp: nth_list_update)
qed auto

lemma client_gone:
  assumes "placed cs" and "k < length cs"
  shows "take (length cs - 1) (shift_clients cs k (nat (int (length cs) - 1 - int k))) = renumber (without k cs)"
proof -
  have n: "nat (int (length cs) - 1 - int k) = length cs - 1 - k" by linarith
  have "take (length cs - 1) (shift_clients cs k (length cs - 1 - k)) ! i = renumber (without k cs) ! i"
    if "i < length cs - 1" for i
  proof (cases "i < k")
    case True
    then have "renumber (without k cs) ! i = (cs ! i)\<lparr>pr_id := int i\<rparr>"
      using that assms(2) by (simp add: renumber_nth without_def nth_append)
    then show ?thesis using that True assms by (simp add: shift_clients_nth placed_def)
  next
    case False
    then have "renumber (without k cs) ! i = (cs ! (i + 1))\<lparr>pr_id := int i\<rparr>"
      using that assms(2) by (simp add: renumber_nth without_def nth_append min_def)
    then show ?thesis using that False assms(2) by (simp add: shift_clients_nth)
  qed
  then show ?thesis
    unfolding n by (intro nth_equalityI) (use assms(2) in \<open>simp_all add: without_def\<close>)
qed

lemma on_client_event_eq:
  assumes "peers_ok p" and "k < length (ps_clients p)"
    and "ev AND BEV_EVENT_EOF \<noteq> 0 \<or> ev AND BEV_EVENT_ERROR \<noteq> 0"
  shows "on_client_event p (ps_clients p ! k) ev =
    (p\<lparr>ps_clients := renumber (without k (ps_clients p))\<rparr>, free_peer (ps_clients p ! k))"
proof -
  have "pr_id (ps_clients p ! k) = int k" using assms(1,2) by (simp add: peers_ok_def placed_def)
  then show ?thesis
    using client_gone [of "ps_clients p" k] assms by (simp add: on_client_event_def clients_count_def peers_ok_def)
qed

text \<open>What can happen to the connections of a process.\<close>

datatype conn_event =
    Conn_accept int sockaddr_in nat
  | Conn_client nat "16 word"
  | Conn_peer nat "16 word" nat
  | Conn_connect sockaddr_in nat

fun conn_exec :: "paxos_config \<Rightarrow> 'cb peers \<Rightarrow> conn_event \<Rightarrow> 'cb peers" where
  "conn_exec cfg p (Conn_accept fd addr bev) = fst (on_accept cfg p fd addr bev)"
| "conn_exec cfg p (Conn_client k ev) =
     (if k < length (ps_clients p) then fst (on_client_event p (ps_clients p ! k) ev) else p)"
| "conn_exec cfg p (Conn_peer k ev bev) =
     (if k < length (ps_peers p) then fst (on_peer_event p k ev bev) else p)"
| "conn_exec cfg p (Conn_connect addr bev) = fst (peers_connect cfg p (peers_count p) addr bev)"

lemma conn_exec_ok: "peers_ok p \<Longrightarrow> peers_ok (conn_exec cfg p e)"
proof (cases e)
  case (Conn_client k ev)
  assume "peers_ok p"
  then show ?thesis
    using on_client_event_eq [of p k ev] Conn_client
    by (cases "ev AND BEV_EVENT_EOF \<noteq> 0 \<or> ev AND BEV_EVENT_ERROR \<noteq> 0")
      (auto simp: peers_ok_def placed_renumber on_client_event_def)
qed (auto simp: peers_ok_def on_accept_def on_peer_event_def peers_connect_def make_peer_def clients_count_def
    peers_count_def Let_def placed_def nth_append nth_list_update)

lemma conn_run_ok: "peers_ok p \<Longrightarrow> peers_ok (foldl (conn_exec cfg) p es)"
  by (induction es arbitrary: p) (simp_all add: conn_exec_ok)

lemma peers_new_ok: "peers_ok (peers_new c)"
  by (simp add: peers_ok_def peers_new_def placed_def)

lemma scan_peers_found:
  "k < length xs \<Longrightarrow> pr_id (xs ! k) = i \<Longrightarrow> \<forall>j < k. pr_id (xs ! j) \<noteq> i \<Longrightarrow> scan_peers xs i = Inr (xs ! k)"
proof (induction xs arbitrary: k)
  case (Cons x xs)
  show ?case
  proof (cases k)
    case (Suc n)
    have "\<forall>j < n. pr_id (xs ! j) \<noteq> i" using Cons(4) Suc by fastforce
    moreover have "pr_id x \<noteq> i" using Cons(4) Suc by fastforce
    ultimately show ?thesis using Cons(1) [of n] Cons(2,3) Suc by simp
  qed (use Cons in simp)
qed simp

lemma scan_peers_missing: "\<forall>x \<in> set xs. pr_id x \<noteq> i \<Longrightarrow> scan_peers xs i = Inl OutOfBounds"
  by (induction xs) auto

lemma get_acceptor_placed:
  assumes "peers_ok p" and "0 \<le> i" and "i < peers_count p"
  shows "peers_get_acceptor p i = Inr (Some (ps_peers p ! nat i))"
proof -
  have k: "nat i < length (ps_peers p)" using assms(2,3) by (simp add: peers_count_def nat_less_iff)
  have "pr_id (ps_peers p ! j) = int j" if "j < length (ps_peers p)" for j
    using assms(1) that by (simp add: peers_ok_def placed_def)
  then have "scan_peers (ps_peers p) i = Inr (ps_peers p ! nat i)"
    using k assms(2) by (intro scan_peers_found) auto
  then show ?thesis using assms(2,3) by (simp add: peers_get_acceptor_def)
qed

section \<open>A stream of messages\<close>

lemmas on_read_unfold = on_read.simps

fun handle_all ::
  "('cb, 's) callbacks \<Rightarrow> 'cb subscription list \<Rightarrow> peer \<Rightarrow> paxos_message list \<Rightarrow> 's \<Rightarrow>
     ('s \<times> net_action list) run" where
  "handle_all call subs p [] s = Some (Inr (s, []))"
| "handle_all call subs p (m # ms) s =
     bindR (dispatch_subs call subs p m s) (\<lambda>(s, out).
     bindR (handle_all call subs p ms s) (\<lambda>(s, out'). Some (Inr (s, out @ out'))))"

lemma bindR_assoc: "bindR (bindR m f) g = bindR m (\<lambda>x. bindR (f x) g)"
  by (auto simp: bindR_def split: option.splits sum.splits)

lemma bindR_cong: "(\<And>x. f x = g x) \<Longrightarrow> bindR m f = bindR m g"
  by (auto simp: bindR_def split: option.splits sum.splits)

lemma handle_all_append:
  "handle_all call subs p (ms @ ms') s =
     bindR (handle_all call subs p ms s) (\<lambda>(s, out).
     bindR (handle_all call subs p ms' s) (\<lambda>(s, out'). Some (Inr (s, out @ out'))))"
proof (induction ms arbitrary: s)
  case Nil
  show ?case by (cases "handle_all call subs p ms' s") (auto simp: bindR_def split: sum.split)
next
  case (Cons m ms)
  show ?case
    by (auto simp: Cons bindR_assoc split: prod.splits intro!: bindR_cong)
qed

text \<open>
  Reading a buffer that holds whole messages and the beginning of another one, or nothing
  more.
\<close>

definition message_bytes :: "(pack_call list \<Rightarrow> byte list) \<Rightarrow> paxos_message \<Rightarrow> byte list" where
  "message_bytes emit m = emit (msgpack_pack_paxos_message m)"

definition unfinished :: "(pack_call list \<Rightarrow> byte list) \<Rightarrow> byte list \<Rightarrow> bool" where
  "unfinished emit t \<longleftrightarrow>
     t = [] \<or> (\<exists>m n. sendable m \<and> n < length (message_bytes emit m) \<and> t = take n (message_bytes emit m))"

lemma recv_unfinished:
  "codec_ok emit unpack_next \<Longrightarrow> unfinished emit t \<Longrightarrow> recv_paxos_message unpack_next t = Inr None"
  using recv_sent(2) [of emit unpack_next]
  by (cases "t = []") (auto simp: unfinished_def message_bytes_def recv_paxos_message_def [of _ "[]"])

lemma on_read_messages:
  assumes codec: "codec_ok emit unpack_next" and t: "unfinished emit t" and "\<forall>m \<in> set ms. sendable m"
  shows "on_read unpack_next call subs p (concat (map (message_bytes emit) ms) @ t) s =
    bindR (handle_all call subs p (map wire_message ms) s) (\<lambda>(s, out). Some (Inr (t, s, out)))"
  using assms(3)
proof (induction ms arbitrary: s)
  case Nil
  then show ?case
    by (subst on_read_unfold) (simp add: recv_unfinished [OF codec t])
next
  case (Cons m ms)
  have "recv_paxos_message unpack_next
      (concat (map (message_bytes emit) (m # ms)) @ t) =
      Inr (Some (Some (wire_message m), concat (map (message_bytes emit) ms) @ t))"
    using recv_sent(1) [OF codec, of m "concat (map (message_bytes emit) ms) @ t"] Cons(2)
    by (simp add: message_bytes_def)
  then show ?case
    using Cons by (subst on_read_unfold)
      (auto simp: dispatch_message_def bindR_assoc split: prod.splits intro!: bindR_cong)
qed

lemma split_stream:
  assumes "x @ y = concat (map f ms)" and "\<forall>m \<in> set ms. f m \<noteq> []"
  shows "\<exists>ms1 ms2 t. ms = ms1 @ ms2 \<and> x = concat (map f ms1) @ t \<and> t @ y = concat (map f ms2) \<and>
    (t = [] \<or> (\<exists>m n. m \<in> set ms \<and> n < length (f m) \<and> t = take n (f m)))"
  using assms
proof (induction ms arbitrary: x)
  case (Cons m ms)
  show ?case
  proof (cases "length (f m) \<le> length x")
    case True
    then obtain x' where x': "x = f m @ x'" "x' @ y = concat (map f ms)"
      using Cons(2) by (auto simp: append_eq_append_conv_if split: if_splits)
        (metis append_take_drop_id)
    have rest: "\<forall>m \<in> set ms. f m \<noteq> []" using Cons(3) by simp
    obtain ms1 ms2 t where s: "ms = ms1 @ ms2" "x' = concat (map f ms1) @ t" "t @ y = concat (map f ms2)"
        "t = [] \<or> (\<exists>m n. m \<in> set ms \<and> n < length (f m) \<and> t = take n (f m))"
      using Cons(1) [OF x'(2) rest] by blast
    show ?thesis
      by (rule exI [of _ "m # ms1"], rule exI [of _ ms2], rule exI [of _ t]) (use s x' in auto)
  next
    case False
    then have "x = take (length x) (f m)"
      using Cons(2) by (metis append_eq_conv_conj concat.simps(2) linorder_linear list.simps(9) take_append
          take_all take_eq_Nil diff_is_0_eq append_Nil2)
    moreover have "m \<in> set (m # ms)" "length x < length (f m)" using False by simp_all
    ultimately have "\<exists>m' n. m' \<in> set (m # ms) \<and> n < length (f m') \<and> x = take n (f m')" by blast
    then show ?thesis using Cons(2)
      by (intro exI [of _ "[]"] exI [of _ "m # ms"] exI [of _ x]) simp
  qed
qed simp

text \<open>
  The data arrives in chunks; after each, libevent calls \<open>on_read\<close> on what is in the buffer.
\<close>

fun on_reads ::
  "(byte list \<Rightarrow> (msgpack_object \<times> nat) option) \<Rightarrow> ('cb, 's) callbacks \<Rightarrow> 'cb subscription list \<Rightarrow>
     peer \<Rightarrow> byte list \<Rightarrow> byte list list \<Rightarrow> 's \<Rightarrow> (byte list \<times> 's \<times> net_action list) run" where
  "on_reads unpack_next call subs p buf [] s = Some (Inr (buf, s, []))"
| "on_reads unpack_next call subs p buf (c # cs) s =
     bindR (on_read unpack_next call subs p (buf @ c) s) (\<lambda>(buf, s, out).
     bindR (on_reads unpack_next call subs p buf cs s) (\<lambda>(buf, s, out').
       Some (Inr (buf, s, out @ out'))))"

lemma on_reads_messages:
  assumes codec: "codec_ok emit unpack_next" and "unfinished emit buf" and "\<forall>m \<in> set ms. sendable m"
    and "buf @ concat chunks = concat (map (message_bytes emit) ms)"
  shows "on_reads unpack_next call subs p buf chunks s =
    bindR (handle_all call subs p (map wire_message ms) s) (\<lambda>(s, out). Some (Inr ([], s, out)))"
  using assms(2-4)
proof (induction chunks arbitrary: buf ms s)
  case Nil
  have ne: "message_bytes emit m \<noteq> []" if "sendable m" for m
    using recv_sent(3) [OF codec that] by (simp add: message_bytes_def)
  have "ms = []"
  proof (cases ms)
    case (Cons m ms')
    then have m: "sendable m" "buf = message_bytes emit m @ concat (map (message_bytes emit) ms')"
      using Nil(2,3) by simp_all
    then have "recv_paxos_message unpack_next buf \<noteq> Inr None"
      using recv_sent(1) [OF codec m(1)] by (simp add: message_bytes_def)
    then show ?thesis using recv_unfinished [OF codec Nil(1)] by simp
  qed
  then show ?case using Nil by simp
next
  case (Cons c cs)
  have ne: "\<forall>m \<in> set ms. message_bytes emit m \<noteq> []"
    using recv_sent(3) [OF codec] Cons(3) by (simp add: message_bytes_def)
  have all: "(buf @ c) @ concat cs = concat (map (message_bytes emit) ms)" using Cons(4) by simp
  obtain ms1 ms2 t where sp: "ms = ms1 @ ms2" "buf @ c = concat (map (message_bytes emit) ms1) @ t"
      "t @ concat cs = concat (map (message_bytes emit) ms2)"
      "t = [] \<or> (\<exists>m n. m \<in> set ms \<and> n < length (message_bytes emit m) \<and> t = take n (message_bytes emit m))"
    using split_stream [OF all ne] by blast
  have t: "unfinished emit t" using sp(4) Cons(3) by (auto simp: unfinished_def)
  have s1: "\<forall>m \<in> set ms1. sendable m" and s2: "\<forall>m \<in> set ms2. sendable m" using Cons(3) sp(1) by auto
  have r: "on_read unpack_next call subs p (buf @ c) s =
      bindR (handle_all call subs p (map wire_message ms1) s) (\<lambda>(s, out). Some (Inr (t, s, out)))"
    using on_read_messages [OF codec t s1] sp(2) by simp
  show ?case
    using Cons(1) [OF t s2 sp(3)]
    by (auto simp: r sp(1) handle_all_append bindR_assoc split: prod.splits intro!: bindR_cong)
qed

section \<open>Properties\<close>

text \<open>
  C21. Messages survive fragmentation: however the network cuts the bytes of a sequence of
  messages into chunks, the callbacks see exactly these messages, whole and in order, and
  the buffer is empty in the end; for any msgpack library as documented and any callbacks.
\<close>

theorem stream_in_order:
  assumes "codec_ok emit unpack_next" and "\<forall>m \<in> set ms. sendable m"
    and "concat chunks = concat (map (\<lambda>m. emit (msgpack_pack_paxos_message m)) ms)"
  shows "on_reads unpack_next call subs p [] chunks s =
    bindR (handle_all call subs p (map wire_message ms) s) (\<lambda>(s, out). Some (Inr ([], s, out)))"
  using on_reads_messages [of emit unpack_next "[]" ms chunks] assms
  by (simp add: unfinished_def message_bytes_def [abs_def])

definition peer_demo :: peer where
  "peer_demo = make_peer 0 \<lparr>sin_port = 8800, sin_addr = 0x7f000001\<rparr> 5"

text \<open>A callback that counts, on a message that arrives in two pieces.\<close>

definition counting :: "(unit, nat) callbacks" where
  "counting cb p m s = Some (Inr (s + 1, []))"

definition counting_subs :: "unit subscription list" where
  "counting_subs = [\<lparr>sub_type = TY_ACCEPT, sub_callback = ()\<rparr>]"

theorem stream_in_order_witness:
  "on_reads wire_unpack counting counting_subs peer_demo []
     [take 9 (wire_emit (msgpack_pack_paxos_message wire_demo_message)),
      drop 9 (wire_emit (msgpack_pack_paxos_message wire_demo_message))] 0 = Some (Inr ([], 1, []))"
proof -
  let ?b = "wire_emit (msgpack_pack_paxos_message wire_demo_message)"
  have "\<forall>m \<in> set [wire_demo_message]. sendable m"
    by (simp add: wire_demo_message_def value_sendable_def value_wf_def)
  note ok = this
  have c: "concat [take 9 ?b, drop 9 ?b] =
      concat (map (\<lambda>m. wire_emit (msgpack_pack_paxos_message m)) [wire_demo_message])"
    by simp
  show ?thesis
    unfolding stream_in_order [OF wire_codec_ok ok c]
    by (simp add: counting_def counting_subs_def wire_demo_message_def)
qed

text \<open>
  When a client disconnects, the others keep their order and move up: the list is the old
  one without that client, every client's id is its new position again, and exactly the
  objects of the one that left are freed.
\<close>

theorem client_leaves:
  assumes "peers_ok p" and "k < length (ps_clients p)"
    and "ev AND BEV_EVENT_EOF \<noteq> 0 \<or> ev AND BEV_EVENT_ERROR \<noteq> 0"
  shows "on_client_event p (ps_clients p ! k) ev =
      (p\<lparr>ps_clients := renumber (without k (ps_clients p))\<rparr>, free_peer (ps_clients p ! k)) \<and>
    peers_ok (fst (on_client_event p (ps_clients p ! k) ev))"
  using on_client_event_eq [OF assms] assms(1) by (simp add: peers_ok_def placed_renumber)

definition peers_demo :: "unit peers" where
  "peers_demo = foldl (conn_exec default_config) (peers_new empty_config)
     [Conn_accept 7 \<lparr>sin_port = 1, sin_addr = 0\<rparr> 11, Conn_accept 8 \<lparr>sin_port = 2, sin_addr = 0\<rparr> 12,
      Conn_connect \<lparr>sin_port = 3, sin_addr = 0\<rparr> 13]"

theorem client_leaves_witness:
  "map pr_bev (ps_clients (fst (on_client_event peers_demo (ps_clients peers_demo ! 0) BEV_EVENT_EOF))) = [12] \<and>
   map pr_id (ps_clients (fst (on_client_event peers_demo (ps_clients peers_demo ! 0) BEV_EVENT_EOF))) = [0]"
proof -
  have ok: "peers_ok peers_demo" unfolding peers_demo_def by (rule conn_run_ok [OF peers_new_ok])
  have cs: "ps_clients peers_demo =
      [make_peer 0 \<lparr>sin_port = 1, sin_addr = 0\<rparr> 11, make_peer 1 \<lparr>sin_port = 2, sin_addr = 0\<rparr> 12]"
    by (simp add: peers_demo_def peers_new_def on_accept_def peers_connect_def clients_count_def Let_def)
  have "on_client_event peers_demo (ps_clients peers_demo ! 0) BEV_EVENT_EOF =
      (peers_demo\<lparr>ps_clients := renumber (without 0 (ps_clients peers_demo))\<rparr>, free_peer (ps_clients peers_demo ! 0))"
    using client_leaves [OF ok, of 0 BEV_EVENT_EOF] cs by (simp add: BEV_EVENT_EOF_def)
  then show ?thesis by (simp add: cs without_def renumber_def make_peer_def)
qed

text \<open>
  Looking up an acceptor after any connection events: the peer with the id, for every id
  below the number of acceptors; for any other id the loop reads past the end of the array,
  unless there is no acceptor at all.
\<close>

theorem get_acceptor_by_id:
  assumes "p = foldl (conn_exec cfg) (peers_new c) es"
  shows "peers_get_acceptor p i =
    (if peers_count p = 0 then Inr None
     else if 0 \<le> i \<and> i < peers_count p then Inr (Some (ps_peers p ! nat i))
     else Inl OutOfBounds)"
proof -
  have ok: "peers_ok p" using conn_run_ok [OF peers_new_ok] assms by blast
  have "scan_peers (ps_peers p) i = Inl OutOfBounds" if "\<not> (0 \<le> i \<and> i < peers_count p)"
    using ok that by (intro scan_peers_missing) (auto simp: peers_ok_def placed_def in_set_conv_nth peers_count_def)
  then show ?thesis
    using get_acceptor_placed [OF ok] by (auto simp: peers_get_acceptor_def)
qed

theorem get_acceptor_by_id_witness: "peers_get_acceptor peers_demo 3 = Inl OutOfBounds"
  using get_acceptor_by_id [OF peers_demo_def, of 3]
  by (simp add: peers_count_def peers_demo_def peers_new_def on_accept_def peers_connect_def Let_def)

end
