(* ===== verification/EvAcceptor.thy ===== *)
theory EvAcceptor
  imports Acceptor EvPeers
begin

text \<open>
  \<open>evpaxos/evacceptor.c\<close>: the acceptor process. Its handlers run the acceptor of \<open>acceptor.c\<close>
  and write its replies: a promise or a preempted message to the peer that asked, an accepted
  message to every client, a stored record of a repeat request to the peer that asked.
\<close>

section \<open>Handlers\<close>

record 'h evacceptor =
  ea_state :: "'h acceptor option"
  ea_timer_tv :: "int \<times> int"

text \<open>\<open>acceptor_new\<close> may have returned \<open>NULL\<close>; the handlers use the pointer unchecked.\<close>

definition with_acceptor :: "'h evacceptor \<Rightarrow> ('h acceptor \<Rightarrow> 'a outcome) \<Rightarrow> 'a outcome" where
  "with_acceptor a f = (case ea_state a of None \<Rightarrow> Inl NullPointer | Some st \<Rightarrow> f st)"

definition peer_send_paxos_message :: "paxos_message \<Rightarrow> peer \<Rightarrow> bev_write" where
  "peer_send_paxos_message msg p = send_paxos_message (peer_get_buffer p) msg"

definition evacceptor_handle_prepare ::
  "'h evacceptor \<Rightarrow> peer \<Rightarrow> paxos_prepare \<Rightarrow> ('h evacceptor \<times> net_action list) outcome" where
  "evacceptor_handle_prepare a p prepare =
     with_acceptor a (\<lambda>st.
     bindE (acceptor_receive_prepare st prepare) (\<lambda>(st, out).
       Inr (a\<lparr>ea_state := Some st\<rparr>,
            case out of
              None \<Rightarrow> []
            | Some m \<Rightarrow> [Net_write (send_paxos_message (peer_get_buffer p) m)])))"

definition evacceptor_handle_accept ::
  "'cb peers \<Rightarrow> 'h evacceptor \<Rightarrow> peer \<Rightarrow> paxos_accept \<Rightarrow> ('h evacceptor \<times> net_action list) outcome" where
  "evacceptor_handle_accept ps a p accept =
     with_acceptor a (\<lambda>st.
     bindE (acceptor_receive_accept st accept) (\<lambda>(st, out).
       Inr (a\<lparr>ea_state := Some st\<rparr>,
            case out of
              None \<Rightarrow> []
            | Some m \<Rightarrow>
                if message_type m = TY_ACCEPTED then peers_foreach_client ps (peer_send_paxos_message m)
                else if message_type m = TY_PREEMPTED
                then [Net_write (send_paxos_message (peer_get_buffer p) m)]
                else [])))"

text \<open>
  The loop of \<open>evacceptor_handle_repeat\<close>. Its counter is an unsigned 32-bit integer: with
  \<open>to\<close> equal to \<open>UINT32_MAX\<close> the condition never fails.
\<close>

partial_function (option) repeat_loop ::
  "'h acceptor \<Rightarrow> nat \<Rightarrow> iid_t \<Rightarrow> iid_t \<Rightarrow> ('h acceptor \<times> net_action list) run" where
  "repeat_loop st buf iid last_iid =
     (if iid \<le> last_iid
      then bindR (Some (acceptor_receive_repeat st iid)) (\<lambda>(st, out).
           bindR (repeat_loop st buf (iid + 1) last_iid) (\<lambda>(st, outs).
             Some (Inr (st, (case out of None \<Rightarrow> [] | Some r \<Rightarrow> [Net_write (send_paxos_accepted buf r)]) @ outs))))
      else Some (Inr (st, [])))"

definition evacceptor_handle_repeat ::
  "'h evacceptor \<Rightarrow> peer \<Rightarrow> paxos_repeat \<Rightarrow> ('h evacceptor \<times> net_action list) run" where
  "evacceptor_handle_repeat a p req =
     (case ea_state a of
        None \<Rightarrow> Some (if repeat_from req \<le> repeat_to req then Inl NullPointer else Inr (a, []))
      | Some st \<Rightarrow>
          bindR (repeat_loop st (peer_get_buffer p) (repeat_from req) (repeat_to req)) (\<lambda>(st, outs).
            Some (Inr (a\<lparr>ea_state := Some st\<rparr>, outs))))"

definition evacceptor_handle_trim ::
  "'h evacceptor \<Rightarrow> paxos_trim \<Rightarrow> ('h evacceptor \<times> net_action list) outcome" where
  "evacceptor_handle_trim a trim =
     with_acceptor a (\<lambda>st. bindE (acceptor_receive_trim st trim) (\<lambda>(st, _). Inr (a\<lparr>ea_state := Some st\<rparr>, [])))"

text \<open>The timer callback.\<close>

definition send_acceptor_state :: "'cb peers \<Rightarrow> 'h evacceptor \<Rightarrow> net_action list outcome" where
  "send_acceptor_state ps a =
     with_acceptor a (\<lambda>st.
       let msg = PAXOS_ACCEPTOR_STATE (acceptor_set_current_state st)
       in Inr (peers_foreach_client ps (peer_send_paxos_message msg) @
               [Net_timer_add Timer_acceptor_state (fst (ea_timer_tv a)) (snd (ea_timer_tv a))]))"

definition evacceptor_init_internal ::
  "paxos_config \<Rightarrow> int \<Rightarrow> ev_cb peers \<Rightarrow>
     (ev_cb peers \<times> mem_storage evacceptor \<times> net_action list) outcome" where
  "evacceptor_init_internal cfg ident ps =
     bindE (acceptor_new cfg ident) (\<lambda>st.
     bindE (subscribe_all ps [(TY_PREPARE, CB_acceptor_prepare), (TY_ACCEPT, CB_acceptor_accept),
              (TY_REPEAT, CB_acceptor_repeat), (TY_TRIM, CB_acceptor_trim)]) (\<lambda>ps.
       Inr (ps, \<lparr>ea_state = st, ea_timer_tv = (1, 0)\<rparr>,
            [Net_timer_new Timer_acceptor_state, Net_timer_add Timer_acceptor_state 1 0])))"

text \<open>
  \<open>evacceptor_init\<close>, with the result of reading the configuration file and of binding the port:
  \<open>None\<close> is \<open>NULL\<close>.
\<close>

definition evacceptor_init ::
  "paxos_config \<Rightarrow> int \<Rightarrow> evpaxos_config option \<Rightarrow> bool \<Rightarrow>
     (ev_cb peers \<times> mem_storage evacceptor \<times> net_action list) option outcome" where
  "evacceptor_init cfg ident config bound =
     (case config of
        None \<Rightarrow> Inr None
      | Some c \<Rightarrow>
          if ident < 0 \<or> evpaxos_acceptor_count c \<le> ident then Inr None
          else bindE (evpaxos_acceptor_listen_port c ident) (\<lambda>port.
               let (ps, out, rv) = peers_listen (peers_new c) port bound
               in if rv = 0 then Inr None
                  else bindE (evacceptor_init_internal cfg ident ps) (\<lambda>(ps, a, out').
                         Inr (Some (ps, a, out @ out')))))"

definition evacceptor_free_internal :: "net_action list" where
  "evacceptor_free_internal = [Net_timer_free Timer_acceptor_state]"

definition evacceptor_free :: "'cb peers \<Rightarrow> net_action list" where
  "evacceptor_free ps = peers_free ps @ evacceptor_free_internal"

section \<open>The repeat loop\<close>

lemma repeat_loop_step:
  "iid \<le> l \<Longrightarrow> acceptor_receive_repeat st iid = Inr (st', out) \<Longrightarrow>
   repeat_loop st buf iid l =
     bindR (repeat_loop st' buf (iid + 1) l) (\<lambda>(st, outs).
       Some (Inr (st, (case out of None \<Rightarrow> [] | Some r \<Rightarrow> [Net_write (send_paxos_accepted buf r)]) @ outs)))"
  by (subst repeat_loop.simps) simp

text \<open>What a repeat request is answered with for one instance.\<close>

definition repeat_answer :: "mem_storage acceptor \<Rightarrow> iid_t \<Rightarrow> paxos_accepted option" where
  "repeat_answer a iid =
     (case acceptor_record a iid of
        None \<Rightarrow> None
      | Some r \<Rightarrow> if 0 < paxos_value_len (accepted_value r) then Some r else None)"

definition iid_range :: "iid_t \<Rightarrow> iid_t \<Rightarrow> iid_t list" where
  "iid_range lo hi = map of_nat [unat lo..<Suc (unat hi)]"

lemma iid_range_Nil: "hi < lo \<Longrightarrow> iid_range lo hi = []"
  by (simp add: iid_range_def word_less_nat_alt)

lemma iid_range_Cons: "lo \<le> hi \<Longrightarrow> hi \<noteq> - 1 \<Longrightarrow> iid_range lo hi = lo # iid_range (lo + 1) hi"
proof -
  assume le: "lo \<le> hi" and hi: "hi \<noteq> - 1"
  then have "lo \<noteq> - 1" using word_order.extremum_uniqueI by blast
  then have "unat (lo + 1) = Suc (unat lo)" using unat_plus1 [of lo] by simp
  moreover have "unat lo < Suc (unat hi)" using le by (simp add: word_le_nat_alt)
  ultimately show ?thesis by (simp add: iid_range_def upt_conv_Cons del: upt_Suc)
qed

lemma iid_range_in: "i \<in> set (iid_range lo hi) \<longleftrightarrow> lo \<le> i \<and> i \<le> hi"
proof
  assume "i \<in> set (iid_range lo hi)"
  then obtain n where n: "unat lo \<le> n" "n \<le> unat hi" "i = of_nat n" by (auto simp: iid_range_def)
  moreover have "unat (of_nat n :: iid_t) = n"
  proof -
    have "unat hi < 2 ^ LENGTH(32)" by (rule unsigned_less)
    then show ?thesis using n(2) by (simp add: unat_of_nat take_bit_nat_eq_self)
  qed
  ultimately show "lo \<le> i \<and> i \<le> hi" by (simp add: word_le_nat_alt)
next
  assume "lo \<le> i \<and> i \<le> hi"
  then show "i \<in> set (iid_range lo hi)"
    by (auto simp: iid_range_def word_le_nat_alt simp del: upt_Suc intro!: image_eqI [of _ _ "unat i"])
qed

lemma repeat_same:
  assumes "acceptor_wf a" and "\<not> mem_lost (acc_store a) iid"
  shows "\<exists>a'. acceptor_receive_repeat a iid = Inr (a', repeat_answer a iid) \<and> acceptor_wf a' \<and>
    (\<forall>i. acceptor_record a' i = acceptor_record a i \<and> mem_lost (acc_store a') i = mem_lost (acc_store a) i) \<and>
    acc_trim_iid a' = acc_trim_iid a"
proof -
  have ok: "ms.acc_ok a" using assms(1) by (simp add: acceptor_wf_ms)
  show ?thesis
    using ms.repeat_spec [OF ok assms(2)]
    by (auto simp: ms.keeps_def acceptor_wf_ms acceptor_record_def repeat_answer_def)
qed

lemma repeat_loop_answers:
  assumes "acceptor_wf a" and "\<forall>i. lo \<le> i \<longrightarrow> i \<le> hi \<longrightarrow> \<not> mem_lost (acc_store a) i" and "hi \<noteq> - 1"
  shows "\<exists>a'. repeat_loop a buf lo hi =
      Some (Inr (a', map (\<lambda>r. Net_write (send_paxos_accepted buf r))
        (List.map_filter (repeat_answer a) (iid_range lo hi)))) \<and> acceptor_wf a' \<and>
      (\<forall>i. acceptor_record a' i = acceptor_record a i)"
  using assms(1,2)
proof (induction "unat hi + 1 - unat lo" arbitrary: a lo)
  case 0
  then have "hi < lo" "\<not> lo \<le> hi" by (simp_all add: word_less_nat_alt word_le_nat_alt)
  then show ?case using 0 by (subst repeat_loop.simps) (simp add: iid_range_Nil List.map_filter_simps)
next
  case (Suc n)
  then have le: "lo \<le> hi" by (simp add: word_le_nat_alt)
  then have lo: "lo \<noteq> - 1" using assms(3) word_order.extremum_uniqueI by blast
  obtain a1 where a1: "acceptor_receive_repeat a lo = Inr (a1, repeat_answer a lo)" "acceptor_wf a1"
      "\<forall>i. acceptor_record a1 i = acceptor_record a i \<and> mem_lost (acc_store a1) i = mem_lost (acc_store a) i"
    using repeat_same [OF Suc(3)] Suc(4) le by blast
  have n: "n = unat hi + 1 - unat (lo + 1)" using Suc(2) lo by (simp add: unat_plus1)
  have lost: "\<forall>i. lo + 1 \<le> i \<longrightarrow> i \<le> hi \<longrightarrow> \<not> mem_lost (acc_store a1) i"
  proof (intro allI impI)
    fix i assume i: "lo + 1 \<le> i" "i \<le> hi"
    have "lo \<le> i" using order.strict_implies_order [OF word_less_plus1_self [OF lo]] i(1) by (rule order.trans)
    then show "\<not> mem_lost (acc_store a1) i" using a1(3) Suc(4) i(2) by blast
  qed
  have same: "repeat_answer a1 = repeat_answer a" using a1(3) by (simp add: repeat_answer_def fun_eq_iff)
  show ?case
    using Suc(1) [OF n a1(2) lost] a1(3)
    by (auto simp: repeat_loop_step [OF le a1(1)] same iid_range_Cons [OF le assms(3)] List.map_filter_simps
        split: option.split)
qed

text \<open>With the largest bound there is no result.\<close>

lemma repeat_loop_bound:
  "repeat_loop a buf iid hi = Some r \<Longrightarrow> \<not> (acceptor_wf a \<and> (\<forall>i. \<not> mem_lost (acc_store a) i) \<and> hi = - 1)"
proof (induction a buf iid hi r rule: repeat_loop.raw_induct [rotated, consumes 1])
  fix f and a :: "mem_storage acceptor" and buf and iid l :: iid_t and r
  assume IH: "\<And>a buf iid l r. f a buf iid l = Some r \<Longrightarrow>
      \<not> (acceptor_wf a \<and> (\<forall>i. \<not> mem_lost (acc_store a) i) \<and> l = - 1)"
    and body: "(if iid \<le> l
      then bindR (Some (acceptor_receive_repeat a iid)) (\<lambda>(st, out).
           bindR (f st buf (iid + 1) l) (\<lambda>(st, outs).
             Some (Inr (st, (case out of None \<Rightarrow> [] | Some r \<Rightarrow> [Net_write (send_paxos_accepted buf r)]) @ outs))))
      else Some (Inr (a, []))) = Some r"
  show "\<not> (acceptor_wf a \<and> (\<forall>i. \<not> mem_lost (acc_store a) i) \<and> l = - 1)"
  proof
    assume wf: "acceptor_wf a \<and> (\<forall>i. \<not> mem_lost (acc_store a) i) \<and> l = - 1"
    then obtain a' where a': "acceptor_receive_repeat a iid = Inr (a', repeat_answer a iid)"
        "acceptor_wf a'" "\<forall>i. \<not> mem_lost (acc_store a') i"
      using repeat_same [of a iid] by metis
    then have "f a' buf (iid + 1) l \<noteq> None"
      using body wf by (cases "f a' buf (iid + 1) (- 1)") auto
    then obtain y where "f a' buf (iid + 1) l = Some y" by blast
    then show False using IH a'(2,3) wf by blast
  qed
qed

lemma repeat_loop_diverges:
  "acceptor_wf a \<Longrightarrow> \<forall>i. \<not> mem_lost (acc_store a) i \<Longrightarrow> repeat_loop a buf lo (- 1) = None"
  using repeat_loop_bound [of a buf lo "- 1"] by fastforce

section \<open>The handlers return\<close>

text \<open>The acceptor can answer for an instance: it is trimmed, or its record has not been overwritten.\<close>

definition answerable :: "mem_storage acceptor \<Rightarrow> iid_t \<Rightarrow> bool" where
  "answerable a i \<longleftrightarrow> i \<le> acc_trim_iid a \<or> \<not> mem_lost (acc_store a) i"

lemma receive_prepare_total:
  assumes "acceptor_wf a" and "answerable a (prepare_iid req)"
  shows "\<exists>a' out. acceptor_receive_prepare a req = Inr (a', out) \<and> acceptor_wf a'"
proof -
  have ok: "ms.acc_ok a" using assms(1) by (simp add: acceptor_wf_ms)
  then show ?thesis using ms.prepare_total [OF ok] assms(2) by (auto simp: answerable_def acceptor_wf_ms)
qed

lemma receive_accept_total:
  assumes "acceptor_wf a" and "answerable a (accept_iid req)" and "value_wf (accept_value req)"
  shows "\<exists>a' out. acceptor_receive_accept a req = Inr (a', out) \<and> acceptor_wf a'"
proof -
  have ok: "ms.acc_ok a" using assms(1) by (simp add: acceptor_wf_ms)
  then show ?thesis using ms.accept_total [OF ok assms(3)] assms(2) by (auto simp: answerable_def acceptor_wf_ms)
qed

section \<open>Properties\<close>

text \<open>
  A repeat request below the largest instance number is answered completely: the handler
  returns, it has written to the peer that asked, in instance order, exactly the records of
  the range that have a value, and the records are as before. It needs every instance of the
  range to be readable: one whose slot of the ring has been reused ends the process.
\<close>

theorem repeat_request_answered:
  assumes "acceptor_wf a" and "\<forall>i. lo \<le> i \<longrightarrow> i \<le> hi \<longrightarrow> \<not> mem_lost (acc_store a) i" and "hi \<noteq> - 1"
  shows "\<exists>a'. evacceptor_handle_repeat \<lparr>ea_state = Some a, ea_timer_tv = tv\<rparr> p
        \<lparr>repeat_from = lo, repeat_to = hi\<rparr> =
      Some (Inr (\<lparr>ea_state = Some a', ea_timer_tv = tv\<rparr>,
        map (\<lambda>r. Net_write (send_paxos_accepted (peer_get_buffer p) r))
          (List.map_filter (repeat_answer a) (iid_range lo hi)))) \<and>
    acceptor_wf a' \<and> (\<forall>i. acceptor_record a' i = acceptor_record a i)"
  using repeat_loop_answers [OF assms, of "peer_get_buffer p"]
  by (auto simp: evacceptor_handle_repeat_def)

definition record_demo :: paxos_accepted where
  "record_demo = \<lparr>accepted_iid = 2, accepted_ballot = 11, accepted_value_ballot = 11,
     accepted_value = \<lparr>paxos_value_len = 1, paxos_value_val = Some [7]\<rparr>\<rparr>"

definition acceptor_demo :: "mem_storage acceptor" where
  "acceptor_demo =
     fresh_acceptor\<lparr>acc_store := mem_with (acc_store fresh_acceptor) record_demo\<rparr>"

lemma acceptor_demo_ok:
  "acceptor_wf acceptor_demo" "\<forall>i. 1 \<le> i \<longrightarrow> i \<le> 3 \<longrightarrow> \<not> mem_lost (acc_store acceptor_demo) i"
  "List.map_filter (repeat_answer acceptor_demo) (iid_range 1 3) = [record_demo]"
proof -
  have ok: "mem_ok (acc_store fresh_acceptor)" using fresh_acceptor_wf by (simp add: acceptor_wf_def)
  have wf: "value_wf (accepted_value record_demo)" by (simp add: record_demo_def value_wf_def)
  have st: "acc_store acceptor_demo = (acc_store fresh_acceptor)\<lparr>st_handle := (st_handle (acc_store fresh_acceptor))
      \<lparr>mem_records := (mem_records (st_handle (acc_store fresh_acceptor)))(mem_index 2 := record_demo)\<rparr>\<rparr>"
    by (simp add: acceptor_demo_def mem_with_def) (simp add: record_demo_def)
  have rec: "mem_records (st_handle (acc_store fresh_acceptor)) = (\<lambda>_. zero_accepted)"
    by (simp add: fresh_acceptor_def storage_init_mem_def mem_storage_new_def)
  have ix: "mem_index 1 = 1" "mem_index 2 = 2" "mem_index 3 = 3" by (simp_all add: mem_index_def MAX_RECORDS_def)
  show "acceptor_wf acceptor_demo"
    using mem_with_ok [OF ok wf] by (simp add: acceptor_wf_def acceptor_demo_def)
  have range: "iid_range 1 3 = [1, 2, 3]" by (simp add: iid_range_def upt_rec)
  have "i \<in> set (iid_range 1 3) \<Longrightarrow> \<not> mem_lost (acc_store acceptor_demo) i" for i
    by (auto simp: range st rec ix mem_lost_def record_demo_def zero_accepted_def)
  then show "\<forall>i. 1 \<le> i \<longrightarrow> i \<le> 3 \<longrightarrow> \<not> mem_lost (acc_store acceptor_demo) i"
    by (simp add: iid_range_in)
  show "List.map_filter (repeat_answer acceptor_demo) (iid_range 1 3) = [record_demo]"
    unfolding range
    by (simp add: List.map_filter_simps repeat_answer_def acceptor_record_def mem_view_def st rec ix)
      (simp add: record_demo_def zero_accepted_def)
qed

theorem repeat_request_answered_witness:
  "\<exists>a. evacceptor_handle_repeat \<lparr>ea_state = Some acceptor_demo, ea_timer_tv = (1, 0)\<rparr> peer_demo
      \<lparr>repeat_from = 1, repeat_to = 3\<rparr> =
    Some (Inr (a, [Net_write (send_paxos_accepted 5 record_demo)]))"
  using repeat_request_answered [OF acceptor_demo_ok(1,2), of "(1, 0)" peer_demo] acceptor_demo_ok(3)
  by (auto simp: peer_demo_def peer_get_buffer_def make_peer_def)

text \<open>
  C25. A repeat request whose upper bound is the largest instance number is never finished,
  whatever its lower bound: the loop counter wraps around (\<open>evacceptor_handle_repeat\<close>).
\<close>

theorem repeat_request_diverges:
  assumes "acceptor_wf a" and "\<forall>i. \<not> mem_lost (acc_store a) i"
  shows "evacceptor_handle_repeat \<lparr>ea_state = Some a, ea_timer_tv = tv\<rparr> p
      \<lparr>repeat_from = lo, repeat_to = - 1\<rparr> = None"
  using repeat_loop_diverges [OF assms] by (simp add: evacceptor_handle_repeat_def)

theorem repeat_request_diverges_witness:
  "evacceptor_handle_repeat \<lparr>ea_state = Some fresh_acceptor, ea_timer_tv = (1, 0)\<rparr> peer_demo
     \<lparr>repeat_from = - 1, repeat_to = - 1\<rparr> = None"
proof -
  have "\<forall>i. \<not> mem_lost (acc_store fresh_acceptor) i"
    by (simp add: mem_lost_def fresh_acceptor_def storage_init_mem_def mem_storage_new_def zero_accepted_def)
  from repeat_request_diverges [OF fresh_acceptor_wf this] show ?thesis .
qed

end
