(* ===== verification/EvProposer.thy ===== *)
theory EvProposer
  imports Proposer EvPeers
begin

text \<open>
  \<open>evpaxos/evproposer.c\<close>: the proposer process. Its handlers run the proposer of \<open>proposer.c\<close>,
  send the requests that come out to every acceptor, move every instance that is ready into the
  second phase and keep a window of prepared instances open. \<open>gettimeofday\<close> is an argument: the
  instant \<open>now\<close>, or for the loop that opens instances the \<open>clk\<close> of its turns.
\<close>

section \<open>Opening instances and proposing\<close>

record evproposer =
  ep_id :: int
  ep_preexec_window :: int
  ep_state :: proposer
  ep_tv :: "int \<times> int"

definition peer_send_prepare :: "paxos_prepare \<Rightarrow> peer \<Rightarrow> bev_write" where
  "peer_send_prepare msg p = send_paxos_prepare (peer_get_buffer p) msg"

definition peer_send_accept :: "paxos_accept \<Rightarrow> peer \<Rightarrow> bev_write" where
  "peer_send_accept msg p = send_paxos_accept (peer_get_buffer p) msg"

definition send_prepare_all :: "'cb peers \<Rightarrow> paxos_prepare \<Rightarrow> net_action list" where
  "send_prepare_all ps pr = peers_foreach_acceptor ps (peer_send_prepare pr)"

definition send_accept_all :: "'cb peers \<Rightarrow> paxos_accept \<Rightarrow> net_action list" where
  "send_accept_all ps ar = peers_foreach_acceptor ps (peer_send_accept ar)"

text \<open>The loop of \<open>proposer_preexecute\<close>: \<open>n\<close> turns from turn \<open>i\<close> on.\<close>

fun preexec_loop ::
  "'cb peers \<Rightarrow> (nat \<Rightarrow> timeval) \<Rightarrow> nat \<Rightarrow> nat \<Rightarrow> proposer \<Rightarrow> (proposer \<times> net_action list) outcome" where
  "preexec_loop ps clk i 0 p = Inr (p, [])"
| "preexec_loop ps clk i (Suc n) p =
     bindE (proposer_prepare p (clk i)) (\<lambda>(p, pr).
     bindE (preexec_loop ps clk (Suc i) n p) (\<lambda>(p, out).
       Inr (p, send_prepare_all ps pr @ out)))"

definition proposer_preexecute ::
  "'cb peers \<Rightarrow> (nat \<Rightarrow> timeval) \<Rightarrow> int \<Rightarrow> proposer \<Rightarrow> (proposer \<times> net_action list) outcome" where
  "proposer_preexecute ps clk window p =
     (let n = window - int (proposer_prepared_count p)
      in if n \<le> 0 then Inr (p, []) else preexec_loop ps clk 0 (nat n) p)"

text \<open>The loop of \<open>try_accept\<close>.\<close>

partial_function (option) accept_loop :: "'cb peers \<Rightarrow> proposer \<Rightarrow> (proposer \<times> net_action list) run" where
  "accept_loop ps p =
     bindR (Some (proposer_accept p)) (\<lambda>(p, accept).
       case accept of
         None \<Rightarrow> Some (Inr (p, []))
       | Some a \<Rightarrow>
           bindR (accept_loop ps p) (\<lambda>(p, out). Some (Inr (p, send_accept_all ps a @ out))))"

definition try_accept ::
  "'cb peers \<Rightarrow> (nat \<Rightarrow> timeval) \<Rightarrow> int \<Rightarrow> proposer \<Rightarrow> (proposer \<times> net_action list) run" where
  "try_accept ps clk window p =
     bindR (accept_loop ps p) (\<lambda>(p, out).
     bindR (Some (proposer_preexecute ps clk window p)) (\<lambda>(p, out').
       Some (Inr (p, out @ out'))))"

section \<open>Handlers\<close>

text \<open>Running a handler on the state of the process.\<close>

definition on_proposer ::
  "evproposer \<Rightarrow> (proposer \<times> net_action list) run \<Rightarrow> (evproposer \<times> net_action list) run" where
  "on_proposer ep r = bindR r (\<lambda>(p, out). Some (Inr (ep\<lparr>ep_state := p\<rparr>, out)))"

definition evproposer_handle_promise ::
  "'cb peers \<Rightarrow> timeval \<Rightarrow> (nat \<Rightarrow> timeval) \<Rightarrow> evproposer \<Rightarrow> peer \<Rightarrow> paxos_promise \<Rightarrow>
     (evproposer \<times> net_action list) run" where
  "evproposer_handle_promise ps now clk ep x pro =
     on_proposer ep
      (bindR (Some (proposer_receive_promise (ep_state ep) pro (peer_get_id x) now)) (\<lambda>(p, prepare).
       bindR (try_accept ps clk (ep_preexec_window ep) p) (\<lambda>(p, out).
         Some (Inr (p, (case prepare of None \<Rightarrow> [] | Some pr \<Rightarrow> send_prepare_all ps pr) @ out)))))"

definition evproposer_handle_accepted ::
  "'cb peers \<Rightarrow> (nat \<Rightarrow> timeval) \<Rightarrow> evproposer \<Rightarrow> peer \<Rightarrow> paxos_accepted \<Rightarrow>
     (evproposer \<times> net_action list) run" where
  "evproposer_handle_accepted ps clk ep x acc =
     on_proposer ep
      (bindR (Some (proposer_receive_accepted (ep_state ep) acc (peer_get_id x))) (\<lambda>(p, counted).
         if counted then try_accept ps clk (ep_preexec_window ep) p else Some (Inr (p, []))))"

definition evproposer_handle_preempted ::
  "'cb peers \<Rightarrow> timeval \<Rightarrow> (nat \<Rightarrow> timeval) \<Rightarrow> evproposer \<Rightarrow> paxos_preempted \<Rightarrow>
     (evproposer \<times> net_action list) run" where
  "evproposer_handle_preempted ps now clk ep msg =
     on_proposer ep
      (bindR (Some (proposer_receive_preempted (ep_state ep) msg now)) (\<lambda>(p, prepare).
         case prepare of
           None \<Rightarrow> Some (Inr (p, []))
         | Some pr \<Rightarrow>
             bindR (try_accept ps clk (ep_preexec_window ep) p) (\<lambda>(p, out).
               Some (Inr (p, send_prepare_all ps pr @ out)))))"

definition evproposer_handle_client_value ::
  "'cb peers \<Rightarrow> (nat \<Rightarrow> timeval) \<Rightarrow> evproposer \<Rightarrow> paxos_client_value \<Rightarrow>
     (evproposer \<times> net_action list) run" where
  "evproposer_handle_client_value ps clk ep v =
     on_proposer ep
      (try_accept ps clk (ep_preexec_window ep)
        (proposer_propose (ep_state ep) (value_bytes (client_value v)) (paxos_value_len (client_value v))))"

definition evproposer_handle_acceptor_state :: "evproposer \<Rightarrow> paxos_acceptor_state \<Rightarrow> evproposer" where
  "evproposer_handle_acceptor_state ep st = ep\<lparr>ep_state := proposer_receive_acceptor_state (ep_state ep) st\<rparr>"

text \<open>The two loops of \<open>evproposer_check_timeouts\<close>.\<close>

partial_function (option) retry_prepares ::
  "paxos_config \<Rightarrow> 'cb peers \<Rightarrow> timeout_iterator \<Rightarrow> proposer \<Rightarrow>
     (timeout_iterator \<times> proposer \<times> net_action list) run" where
  "retry_prepares cfg ps iter p =
     (case timeout_iterator_prepare cfg iter p of
        (iter, p, None) \<Rightarrow> Some (Inr (iter, p, []))
      | (iter, p, Some pr) \<Rightarrow>
          bindR (retry_prepares cfg ps iter p) (\<lambda>(iter, p, out).
            Some (Inr (iter, p, send_prepare_all ps pr @ out))))"

partial_function (option) retry_accepts ::
  "paxos_config \<Rightarrow> 'cb peers \<Rightarrow> timeout_iterator \<Rightarrow> proposer \<Rightarrow>
     (timeout_iterator \<times> proposer \<times> net_action list) run" where
  "retry_accepts cfg ps iter p =
     bindR (Some (timeout_iterator_accept cfg iter p)) (\<lambda>(iter, p, accept).
       case accept of
         None \<Rightarrow> Some (Inr (iter, p, []))
       | Some ar \<Rightarrow>
           bindR (retry_accepts cfg ps iter p) (\<lambda>(iter, p, out).
             Some (Inr (iter, p, send_accept_all ps ar @ out))))"

definition evproposer_check_timeouts ::
  "paxos_config \<Rightarrow> 'cb peers \<Rightarrow> timeval \<Rightarrow> evproposer \<Rightarrow> (evproposer \<times> net_action list) run" where
  "evproposer_check_timeouts cfg ps now ep =
     on_proposer ep
      (let iter = proposer_timeout_iterator now in
       bindR (retry_prepares cfg ps iter (ep_state ep)) (\<lambda>(iter, p, out).
       bindR (retry_accepts cfg ps iter p) (\<lambda>(iter, p, out').
         Some (Inr (p, out @ out' @ [Net_timer_add Timer_timeouts (fst (ep_tv ep)) (snd (ep_tv ep))])))))"

definition evproposer_preexec_once ::
  "'cb peers \<Rightarrow> (nat \<Rightarrow> timeval) \<Rightarrow> evproposer \<Rightarrow> (evproposer \<times> net_action list) run" where
  "evproposer_preexec_once ps clk ep =
     on_proposer ep (Some (proposer_preexecute ps clk (ep_preexec_window ep) (ep_state ep)))"

section \<open>Setting up\<close>

text \<open>\<open>event_base_once\<close> with \<open>EV_TIMEOUT\<close> and no time is a timer that fires at once.\<close>

definition evproposer_init_internal ::
  "paxos_config \<Rightarrow> int \<Rightarrow> evpaxos_config \<Rightarrow> ev_cb peers \<Rightarrow>
     (ev_cb peers \<times> evproposer \<times> net_action list) outcome" where
  "evproposer_init_internal cfg ident c ps =
     (let acceptor_count = evpaxos_acceptor_count c;
          subs = [(TY_PROMISE, CB_proposer_promise), (TY_ACCEPTED, CB_proposer_accepted),
                  (TY_PREEMPTED, CB_proposer_preempted), (TY_CLIENT_VALUE, CB_proposer_client_value),
                  (TY_ACCEPTOR_STATE, CB_proposer_acceptor_state)];
          tv = (proposer_timeout cfg, 0)
      in bindE (subscribe_all ps subs) (\<lambda>ps.
           Inr (ps, \<lparr>ep_id = ident, ep_preexec_window = proposer_preexec_window cfg,
                     ep_state = proposer_new ident acceptor_count, ep_tv = tv\<rparr>,
                [Net_timer_new Timer_timeouts, Net_timer_add Timer_timeouts (fst tv) (snd tv),
                 Net_timer_add Timer_preexec 0 0])))"

definition evproposer_init ::
  "(string \<Rightarrow> 32 word) \<Rightarrow> paxos_config \<Rightarrow> int \<Rightarrow> evpaxos_config option \<Rightarrow> nat list \<Rightarrow> bool \<Rightarrow>
     (ev_cb peers \<times> evproposer \<times> net_action list) option outcome" where
  "evproposer_init inet_addr cfg ident config bevs bound =
     (case config of
        None \<Rightarrow> Inr None
      | Some c \<Rightarrow>
          if ident < 0 \<or> int MAX_N_OF_PROPOSERS \<le> ident then Inr None
          else bindE (peers_connect_to_acceptors inet_addr cfg (peers_new c) bevs) (\<lambda>(ps, out).
               bindE (evpaxos_proposer_listen_port c ident) (\<lambda>port.
               let (ps, out', rv) = peers_listen ps port bound
               in if rv = 0 then Inr None
                  else bindE (evproposer_init_internal cfg ident c ps) (\<lambda>(ps, ep, out'').
                         Inr (Some (ps, ep, out @ out' @ out''))))))"

definition evproposer_free_internal :: "net_action list" where
  "evproposer_free_internal = [Net_timer_free Timer_timeouts]"

definition evproposer_free :: "'cb peers \<Rightarrow> net_action list" where
  "evproposer_free ps = peers_free ps @ evproposer_free_internal"

definition evproposer_set_instance_id :: "evproposer \<Rightarrow> iid_t \<Rightarrow> evproposer" where
  "evproposer_set_instance_id ep iid = ep\<lparr>ep_state := proposer_set_instance_id (ep_state ep) iid\<rparr>"

section \<open>The loops that propose and open instances\<close>

lemma accept_loop_returns:
  "proposer_inv p \<Longrightarrow>
   \<exists>p' accs. accept_loop ps p = Some (Inr (p', concat (map (send_accept_all ps) accs))) \<and>
     proposer_inv p' \<and> proposer_pending p' = proposer_pending p \<and> proposer_accept p' = Inr (p', None) \<and>
     p_next_prepare_iid p' = p_next_prepare_iid p \<and> p_acceptors p' = p_acceptors p \<and> p_id p' = p_id p \<and>
     sorted_wrt (<) (map accept_iid accs) \<and>
     proposer_prepared_count p = proposer_prepared_count p' + length accs \<and>
     dom (kh_map (p_prepare_instances p)) =
       dom (kh_map (p_prepare_instances p')) \<union> set (map accept_iid accs)"
proof (induction "card (dom (kh_map (p_prepare_instances p)))" arbitrary: p rule: less_induct)
  case less
  from less(2) show ?case
  proof (cases rule: accept_cases)
    case idle
    then show ?thesis using less(2)
      by (intro exI [of _ p] exI [of _ "[]"], subst accept_loop.simps) simp
  next
    case (accept inst inst' w v vals f t)
    let ?D = "dom (kh_map (p_prepare_instances p))"
    let ?p = "p\<lparr>p_values := vals, p_prepare_instances := f, p_accept_instances := t\<rparr>"
    let ?m = "\<lparr>accept_iid = pi_iid inst, accept_ballot = pi_ballot inst, accept_value = v\<rparr>"
    have inv: "proposer_inv ?p" "proposer_pending ?p = proposer_pending p"
      using accept_inv [OF less(2) accept(7)] by simp_all
    have D: "dom (kh_map (p_prepare_instances ?p)) = ?D - {pi_iid inst}" "pi_iid inst \<in> ?D"
      using accept(1,10) by auto
    have small: "card (dom (kh_map (p_prepare_instances ?p))) < card ?D"
      unfolding D(1) by (rule card_Diff1_less [OF kh_dom_finite D(2)])
    have one: "proposer_prepared_count p = Suc (proposer_prepared_count ?p)"
      using kh_size_dom [OF proposer_invD(4) [OF less(2)]] kh_size_dom [OF proposer_invD(4) [OF inv(1)]] small
        card_Suc_Diff1 [OF kh_dom_finite D(2)] D(1) by (simp add: proposer_prepared_count_def)
    then obtain p' accs where ih:
        "accept_loop ps ?p = Some (Inr (p', concat (map (send_accept_all ps) accs)))"
        "proposer_inv p'" "proposer_pending p' = proposer_pending ?p" "proposer_accept p' = Inr (p', None)"
        "p_next_prepare_iid p' = p_next_prepare_iid ?p" "p_acceptors p' = p_acceptors ?p" "p_id p' = p_id ?p"
        "sorted_wrt (<) (map accept_iid accs)"
        "proposer_prepared_count ?p = proposer_prepared_count p' + length accs"
        "dom (kh_map (p_prepare_instances ?p)) =
           dom (kh_map (p_prepare_instances p')) \<union> set (map accept_iid accs)"
      using less(1) [OF small inv(1)] by blast
    have "\<forall>k \<in> set (map accept_iid accs). pi_iid inst < k"
      using accept(2) ih(10) D(1) by (metis DiffE UnCI insertI1 order_neq_le_trans)
    moreover have "accept_loop ps p = Some (Inr (p', concat (map (send_accept_all ps) (?m # accs))))"
      using ih(1) by (subst accept_loop.simps) (simp add: accept(7))
    moreover have "?D = dom (kh_map (p_prepare_instances p')) \<union> set (map accept_iid (?m # accs))"
      using ih(10) D by auto
    ultimately show ?thesis using ih inv(2) one
      by (intro exI [of _ p'] exI [of _ "?m # accs"]) simp
  qed
qed

lemma prepare_counts:
  assumes inv: "proposer_inv p" and nw: "p_next_prepare_iid p \<noteq> - 1"
    and pr: "proposer_prepare p now = Inr (p', out)"
  shows "proposer_prepared_count p' = Suc (proposer_prepared_count p)"
    and "p_next_prepare_iid p' = p_next_prepare_iid p + 1"
    and "out = \<lparr>prepare_iid = p_next_prepare_iid p + 1, prepare_ballot = proposer_next_ballot p 0\<rparr>"
    and "p_id p' = p_id p" and "p_acceptors p' = p_acceptors p"
    and "p_accept_instances p' = p_accept_instances p"
proof -
  let ?k = "p_next_prepare_iid p + 1"
  note e = prepare_eq [OF inv nw, of now]
  note wf = proposer_invD(4) [OF inv]
  note put = kh_put_key_spec [OF wf prepare_key_fresh(1) [OF inv nw], of "fresh_pinstance p now"]
  have h: "p_prepare_instances p' = kh_put_key (p_prepare_instances p) ?k (fresh_pinstance p now)"
    using pr e by auto
  have "?k \<notin> dom (kh_map (p_prepare_instances p))" using prepare_key_fresh(1) [OF inv nw] by blast
  then have "card (dom (kh_map (p_prepare_instances p'))) = Suc (card (dom (kh_map (p_prepare_instances p))))"
    by (simp add: h put(2))
  then show "proposer_prepared_count p' = Suc (proposer_prepared_count p)"
    by (simp add: proposer_prepared_count_def h kh_size_dom [OF put(1)] kh_size_dom [OF wf])
qed (use pr prepare_eq [OF inv nw, of now] in auto)

lemma preexec_loop_opens:
  "proposer_inv p \<Longrightarrow> unat (p_next_prepare_iid p) + n < 2 ^ 32 \<Longrightarrow>
   \<exists>p'. preexec_loop ps clk i n p = Inr (p', concat (map (\<lambda>j. send_prepare_all ps
        \<lparr>prepare_iid = p_next_prepare_iid p + 1 + of_nat j, prepare_ballot = proposer_next_ballot p 0\<rparr>) [0..<n])) \<and>
     proposer_inv p' \<and> proposer_pending p' = proposer_pending p \<and> p_id p' = p_id p \<and>
     p_acceptors p' = p_acceptors p \<and> p_next_prepare_iid p' = p_next_prepare_iid p + of_nat n \<and>
     proposer_prepared_count p' = proposer_prepared_count p + n"
proof (induction n arbitrary: p i)
  case (Suc n)
  have nw: "p_next_prepare_iid p \<noteq> - 1"
    using Suc(3) by (auto simp: unsigned_minus_1_eq_mask mask_eq_exp_minus_1)
  obtain p1 pr where pr: "proposer_prepare p (clk i) = Inr (p1, pr)"
    using prepare_eq [OF Suc(2) nw] by blast
  note c = prepare_counts [OF Suc(2) nw pr]
  have inv1: "proposer_inv p1" "proposer_pending p1 = proposer_pending p"
    using prepare_inv [OF Suc(2) nw pr] by simp_all
  have "unat (p_next_prepare_iid p1) + n < 2 ^ 32" using Suc(3) nw by (simp add: c(2) unat_plus1)
  note ih = Suc(1) [OF inv1(1) this, of "Suc i"]
  have b: "proposer_next_ballot p1 0 = proposer_next_ballot p 0"
    by (simp add: proposer_next_ballot_def c(4))
  have "[0..<Suc n] = 0 # map Suc [0..<n]" by (simp add: map_Suc_upt upt_conv_Cons del: upt_Suc)
  then show ?case
    using ih inv1(2) c by (auto simp: pr b comp_def add.assoc)
qed simp

lemma try_accept_returns:
  assumes inv: "proposer_inv p" and room: "unat (p_next_prepare_iid p) + nat window < 2 ^ 32"
  shows "\<exists>p' accs n. try_accept ps clk window p =
      Some (Inr (p', concat (map (send_accept_all ps) accs) @
        concat (map (\<lambda>j. send_prepare_all ps
          \<lparr>prepare_iid = p_next_prepare_iid p + 1 + of_nat j, prepare_ballot = proposer_next_ballot p 0\<rparr>) [0..<n]))) \<and>
    proposer_inv p' \<and> proposer_pending p' = proposer_pending p \<and> p_id p' = p_id p \<and>
    p_acceptors p' = p_acceptors p \<and> sorted_wrt (<) (map accept_iid accs) \<and>
    set (map accept_iid accs) \<subseteq> dom (kh_map (p_prepare_instances p)) \<and>
    n = nat (window - (int (proposer_prepared_count p) - int (length accs))) \<and>
    p_next_prepare_iid p' = p_next_prepare_iid p + of_nat n \<and>
    window \<le> int (proposer_prepared_count p')"
proof -
  obtain p1 accs where a: "accept_loop ps p = Some (Inr (p1, concat (map (send_accept_all ps) accs)))"
      "proposer_inv p1" "proposer_pending p1 = proposer_pending p"
      "p_next_prepare_iid p1 = p_next_prepare_iid p" "p_acceptors p1 = p_acceptors p" "p_id p1 = p_id p"
      "sorted_wrt (<) (map accept_iid accs)"
      "proposer_prepared_count p = proposer_prepared_count p1 + length accs"
      "dom (kh_map (p_prepare_instances p)) =
         dom (kh_map (p_prepare_instances p1)) \<union> set (map accept_iid accs)"
    using accept_loop_returns [OF inv, of ps] by blast
  define n where "n = nat (window - int (proposer_prepared_count p1))"
  have b: "proposer_next_ballot p1 0 = proposer_next_ballot p 0"
    by (simp add: proposer_next_ballot_def a(6))
  have room1: "unat (p_next_prepare_iid p1) + n < 2 ^ 32" using room by (simp add: n_def a(4))
  obtain p' where l: "preexec_loop ps clk 0 n p1 = Inr (p', concat (map (\<lambda>j. send_prepare_all ps
        \<lparr>prepare_iid = p_next_prepare_iid p + 1 + of_nat j, prepare_ballot = proposer_next_ballot p 0\<rparr>) [0..<n]))"
      "proposer_inv p'" "proposer_pending p' = proposer_pending p" "p_id p' = p_id p"
      "p_acceptors p' = p_acceptors p" "p_next_prepare_iid p' = p_next_prepare_iid p + of_nat n"
      "proposer_prepared_count p' = proposer_prepared_count p1 + n"
    using preexec_loop_opens [OF a(2) room1, of ps clk 0] a(3-6) b by auto
  have "proposer_preexecute ps clk window p1 = preexec_loop ps clk 0 n p1"
    by (simp add: proposer_preexecute_def n_def)
  then show ?thesis using a l
    by (intro exI [of _ p'] exI [of _ accs] exI [of _ n])
      (auto simp: try_accept_def n_def)
qed

section \<open>The retry loops\<close>

text \<open>
  Both loops of \<open>evproposer_check_timeouts\<close> go over one table in the same way: from bucket \<open>k\<close>
  they return the instances that are overdue, and mark each as sent now.
\<close>

inductive retries ::
  "paxos_config \<Rightarrow> timeval \<Rightarrow> nat \<Rightarrow> pinstance khash \<Rightarrow> pinstance list \<Rightarrow> nat \<Rightarrow> pinstance khash \<Rightarrow> bool"
  for cfg t where
  finished: "next_timedout cfg h k t = (k', None) \<Longrightarrow> retries cfg t k h [] k' h"
| again: "next_timedout cfg h k t = (k1, Some inst) \<Longrightarrow>
    retries cfg t k1 (kh_set_value h k1 (touched t inst)) is k' h' \<Longrightarrow>
    retries cfg t k h (inst # is) k' h'"

definition overdue_keys :: "paxos_config \<Rightarrow> timeval \<Rightarrow> pinstance khash \<Rightarrow> iid_t set" where
  "overdue_keys cfg t h = {k. \<exists>inst. kh_map h k = Some inst \<and> overdue cfg t inst}"

definition touch_overdue ::
  "paxos_config \<Rightarrow> timeval \<Rightarrow> pinstance khash \<Rightarrow> iid_t \<rightharpoonup> pinstance" where
  "touch_overdue cfg t h =
     (\<lambda>k. map_option (\<lambda>i. if overdue cfg t i then touched t i else i) (kh_map h k))"

definition searched :: "paxos_config \<Rightarrow> timeval \<Rightarrow> nat \<Rightarrow> pinstance khash \<Rightarrow> bool" where
  "searched cfg t k h \<longleftrightarrow>
     (\<forall>x < min k (kh_n_buckets h). \<forall>inst. kh_value h x = Some inst \<longrightarrow> \<not> overdue cfg t inst)"

lemma searched_start: "searched cfg t 0 h"
  by (simp add: searched_def)

lemma overdue_keys_finite: "finite (overdue_keys cfg t h)"
  by (rule finite_subset [OF _ kh_dom_finite [of h]]) (auto simp: overdue_keys_def)

lemma retry_found:
  assumes wf: "kh_wf h" and "0 < proposer_timeout cfg" and s: "searched cfg t k h"
    and nt: "next_timedout cfg h k t = (k1, Some inst)"
  obtains j where "kh_map h j = Some inst" "overdue cfg t inst"
    "kh_wf (kh_set_value h k1 (touched t inst))"
    "kh_map (kh_set_value h k1 (touched t inst)) = (kh_map h)(j \<mapsto> touched t inst)"
    "kh_set_value h k1 (touched t inst) = kh_assign_key h j (touched t inst)"
    "searched cfg t k1 (kh_set_value h k1 (touched t inst))"
    "overdue_keys cfg t h = insert j (overdue_keys cfg t (kh_set_value h k1 (touched t inst)))"
    "j \<notin> overdue_keys cfg t (kh_set_value h k1 (touched t inst))"
proof -
  have k1: "k \<le> k1" "k1 < kh_n_buckets h" "kh_value h k1 = Some inst" "overdue cfg t inst"
    and before: "\<And>x i. k \<le> x \<Longrightarrow> x < k1 \<Longrightarrow> x < kh_n_buckets h \<Longrightarrow> kh_value h x = Some i \<Longrightarrow> \<not> overdue cfg t i"
    using next_timedout_spec [OF nt] by auto
  obtain j where j: "kh_buckets h ! k1 = KLive j inst" "kh_map h j = Some inst"
    using kh_value_map [OF wf k1(2,3)] by blast
  let ?h = "kh_set_value h k1 (touched t inst)"
  note sv = kh_set_value_spec [OF wf k1(2) j(1), of "touched t inst"]
  have no: "\<not> overdue cfg t (touched t inst)" using touched_not_overdue assms(2) .
  have "searched cfg t k1 ?h"
    using s before unfolding searched_def
    by (auto simp: sv(4,5) kh_value_def not_le intro: leI)
  moreover have "overdue_keys cfg t h = insert j (overdue_keys cfg t ?h)" "j \<notin> overdue_keys cfg t ?h"
    using j(2) k1(4) no by (auto simp: overdue_keys_def sv(2))
  ultimately show thesis
    using that [OF j(2) k1(4) sv(1,2) set_value_key [OF wf k1(2) j(1)]] by blast
qed

lemma retry_done:
  assumes wf: "kh_wf h" and s: "searched cfg t k h" and nt: "next_timedout cfg h k t = (k', None)"
  shows "overdue_keys cfg t h = {}"
proof -
  have "\<not> overdue cfg t i" if "x < kh_n_buckets h" "kh_value h x = Some i" for x i
  proof (cases "x < k")
    case False
    have "kh_n_buckets h \<le> k'" using next_timedout_spec [OF nt] by simp
    then have "x < k'" using that(1) by simp
    then show ?thesis using next_timedout_spec [OF nt] False that \<open>x < k'\<close> by (simp add: not_less)
  qed (use s that in \<open>simp add: searched_def\<close>)
  then show ?thesis using kh_map_bucket [OF wf] by (fastforce simp: overdue_keys_def kh_value_def)
qed

lemma retries_total:
  "kh_wf h \<Longrightarrow> 0 < proposer_timeout cfg \<Longrightarrow> searched cfg t k h \<Longrightarrow> \<exists>is k' h'. retries cfg t k h is k' h'"
proof (induction "card (overdue_keys cfg t h)" arbitrary: k h rule: less_induct)
  case less
  obtain k1 out where nt: "next_timedout cfg h k t = (k1, out)" by (cases "next_timedout cfg h k t")
  show ?case
  proof (cases out)
    case None
    then show ?thesis using nt retries.finished by blast
  next
    case (Some inst)
    let ?h = "kh_set_value h k1 (touched t inst)"
    obtain j where j: "kh_wf ?h" "searched cfg t k1 ?h"
        "overdue_keys cfg t h = insert j (overdue_keys cfg t ?h)" "j \<notin> overdue_keys cfg t ?h"
      using retry_found [OF less(2-4)] nt Some by metis
    have "card (overdue_keys cfg t ?h) < card (overdue_keys cfg t h)"
      using j(3,4) overdue_keys_finite [of cfg t ?h] by simp
    then show ?thesis
      using less(1) [OF _ j(1) less(3) j(2)] nt Some retries.again by blast
  qed
qed

lemma retries_all:
  "retries cfg t k h is k' h' \<Longrightarrow> kh_wf h \<Longrightarrow> 0 < proposer_timeout cfg \<Longrightarrow> searched cfg t k h \<Longrightarrow>
   mset is = image_mset (\<lambda>k. the (kh_map h k)) (mset_set (overdue_keys cfg t h)) \<and>
   kh_map h' = touch_overdue cfg t h \<and> kh_wf h'"
proof (induction rule: retries.induct)
  case (finished h k k')
  have none: "overdue_keys cfg t h = {}" using retry_done finished by blast
  then have "touch_overdue cfg t h = kh_map h"
    by (auto simp: touch_overdue_def overdue_keys_def fun_eq_iff intro!: option.map_ident_strong)
  then show ?case using finished(2) none by simp
next
  case (again h k k1 inst is' k' h')
  let ?h = "kh_set_value h k1 (touched t inst)"
  obtain j where j: "kh_map h j = Some inst" "overdue cfg t inst" "kh_wf ?h"
      "kh_map ?h = (kh_map h)(j \<mapsto> touched t inst)" "searched cfg t k1 ?h"
      "overdue_keys cfg t h = insert j (overdue_keys cfg t ?h)" "j \<notin> overdue_keys cfg t ?h"
    using retry_found [OF again(4,5,6,1)] by metis
  have same: "image_mset (\<lambda>k. the (kh_map ?h k)) (mset_set (overdue_keys cfg t ?h)) =
      image_mset (\<lambda>k. the (kh_map h k)) (mset_set (overdue_keys cfg t ?h))"
    by (rule image_mset_cong) (use j(4,7) overdue_keys_finite [of cfg t ?h] in auto)
  have "touch_overdue cfg t ?h = touch_overdue cfg t h"
    using j(1,2) touched_not_overdue [OF again(5)]
    by (auto simp: touch_overdue_def j(4) fun_eq_iff)
  then show ?case
    using again(3) [OF j(3) again(5) j(5)] j(1,6,7) overdue_keys_finite [of cfg t ?h] same by simp
qed

lemma retry_prepares_retries:
  "retries cfg t k (p_prepare_instances p) is k' h' \<Longrightarrow>
   \<exists>iter'. retry_prepares cfg ps \<lparr>it_pi = k, it_ai = ai, it_timeout = t\<rparr> p =
     Some (Inr (iter', p\<lparr>p_prepare_instances := h'\<rparr>,
       concat (map (\<lambda>i. send_prepare_all ps \<lparr>prepare_iid = pi_iid i, prepare_ballot = pi_ballot i\<rparr>) is))) \<and>
     it_ai iter' = ai \<and> it_timeout iter' = t"
proof (induction k "p_prepare_instances p" "is" k' h' arbitrary: p rule: retries.induct)
  case (finished k k')
  then show ?case
    by (subst retry_prepares.simps) (simp add: timeout_iterator_prepare_def)
next
  case (again k k1 inst is' k' h')
  let ?p = "p\<lparr>p_prepare_instances := kh_set_value (p_prepare_instances p) k1 (touched t inst)\<rparr>"
  show ?case
    using again(3) [of ?p] again(1)
    by (subst retry_prepares.simps) (auto simp: timeout_iterator_prepare_def touched_def)
qed

lemma retry_accepts_retries:
  "retries cfg t k (p_accept_instances p) is k' h' \<Longrightarrow> \<forall>i \<in> set is. pinst_choice i \<noteq> None \<Longrightarrow>
   \<exists>iter'. retry_accepts cfg ps \<lparr>it_pi = pi, it_ai = k, it_timeout = t\<rparr> p =
     Some (Inr (iter', p\<lparr>p_accept_instances := h'\<rparr>,
       concat (map (\<lambda>i. send_accept_all ps \<lparr>accept_iid = pi_iid i, accept_ballot = pi_ballot i,
         accept_value = the (pinst_choice i)\<rparr>) is)))"
proof (induction k "p_accept_instances p" "is" k' h' arbitrary: p rule: retries.induct)
  case (finished k k')
  then show ?case
    by (subst retry_accepts.simps) (simp add: timeout_iterator_accept_def)
next
  case (again k k1 inst is' k' h')
  let ?p = "p\<lparr>p_accept_instances := kh_set_value (p_accept_instances p) k1 (touched t inst)\<rparr>"
  obtain v where "pinst_choice inst = Some v" using again(4) by auto
  then show ?case
    using again(3) [of ?p] again(1,4)
    by (subst retry_accepts.simps) (auto simp: timeout_iterator_accept_def instance_to_accept_eq touched_def)
qed

text \<open>
  A retry leaves the proposer well-formed: only the times of its instances change.
\<close>

lemma touch_overdue_inv:
  assumes inv: "proposer_inv p" and "kh_wf h" "kh_map h = touch_overdue cfg t (p_prepare_instances p)"
    and "kh_wf g" "kh_map g = touch_overdue cfg t (p_accept_instances p)"
  shows "proposer_inv (p\<lparr>p_prepare_instances := h, p_accept_instances := g\<rparr>)"
proof (rule proposer_invI; simp)
  fix k i
  assume "kh_map h k = Some i"
  then show "pinst_ok (p_acceptors p) (p_next_prepare_iid p) k i \<and> kh_map g k = None"
    using proposer_invD(6,9) [OF inv] assms(3,5) pinst_ok_touched by (auto simp: touch_overdue_def)
next
  fix k i
  assume "kh_map g k = Some i"
  then obtain j where j: "kh_map (p_accept_instances p) k = Some j" "i = j \<or> i = touched t j"
    using assms(5) by (auto simp: touch_overdue_def)
  then show "pinst_ok (p_acceptors p) (p_next_prepare_iid p) k i \<and>
      (instance_has_value i \<or> instance_has_promised_value i)"
    using proposer_invD(7,8) [OF inv j(1)] pinst_ok_touched
    by (auto simp: instance_has_value_def instance_has_promised_value_def)
qed (use proposer_invD(1-3) [OF inv] assms(2,4) in auto)

lemma touch_overdue_clean:
  assumes "0 < proposer_timeout cfg" and "kh_map h' = touch_overdue cfg t h"
  shows "overdue_keys cfg t h' = {}"
  using touched_not_overdue [OF assms(1)]
  by (auto simp: overdue_keys_def assms(2) touch_overdue_def split: if_splits)

lemma mset_eq_image:
  "mset xs = image_mset f (mset_set A) \<Longrightarrow> finite A \<Longrightarrow> set xs = f ` A"
  by (metis finite_set_mset_mset_set set_image_mset set_mset_mset)

lemma check_timeouts_retries:
  assumes inv: "proposer_inv (ep_state ep)" and pos: "0 < proposer_timeout cfg"
  shows "\<exists>ep' is js. evproposer_check_timeouts cfg ps now ep =
      Some (Inr (ep', concat (map (\<lambda>i. send_prepare_all ps \<lparr>prepare_iid = pi_iid i, prepare_ballot = pi_ballot i\<rparr>) is) @
        concat (map (\<lambda>i. send_accept_all ps \<lparr>accept_iid = pi_iid i, accept_ballot = pi_ballot i,
          accept_value = the (pinst_choice i)\<rparr>) js) @
        [Net_timer_add Timer_timeouts (fst (ep_tv ep)) (snd (ep_tv ep))])) \<and>
    proposer_inv (ep_state ep') \<and>
    mset is = image_mset (\<lambda>k. the (kh_map (p_prepare_instances (ep_state ep)) k))
      (mset_set (overdue_keys cfg now (p_prepare_instances (ep_state ep)))) \<and>
    mset js = image_mset (\<lambda>k. the (kh_map (p_accept_instances (ep_state ep)) k))
      (mset_set (overdue_keys cfg now (p_accept_instances (ep_state ep)))) \<and>
    overdue_keys cfg now (p_prepare_instances (ep_state ep')) = {} \<and>
    overdue_keys cfg now (p_accept_instances (ep_state ep')) = {}"
proof -
  let ?p = "ep_state ep"
  note wf = proposer_invD(4,5) [OF inv]
  obtain "is" k1 h1 where r: "retries cfg now 0 (p_prepare_instances ?p) is k1 h1"
    using retries_total [OF wf(1) pos searched_start] by blast
  obtain js k2 h2 where s: "retries cfg now 0 (p_accept_instances ?p) js k2 h2"
    using retries_total [OF wf(2) pos searched_start] by blast
  note ra = retries_all [OF r wf(1) pos searched_start]
  note sa = retries_all [OF s wf(2) pos searched_start]
  have "set js = (\<lambda>k. the (kh_map (p_accept_instances ?p) k)) ` overdue_keys cfg now (p_accept_instances ?p)"
    using sa mset_eq_image overdue_keys_finite by blast
  then have "\<forall>i \<in> set js. \<exists>k. kh_map (p_accept_instances ?p) k = Some i"
    by (auto simp: overdue_keys_def)
  then have choice: "\<forall>i \<in> set js. pinst_choice i \<noteq> None"
    using proposer_invD(8) [OF inv]
    by (fastforce simp: pinst_choice_def instance_has_value_def instance_has_promised_value_def split: option.splits)
  obtain it where l1: "retry_prepares cfg ps (proposer_timeout_iterator now) ?p =
      Some (Inr (it, ?p\<lparr>p_prepare_instances := h1\<rparr>,
       concat (map (\<lambda>i. send_prepare_all ps \<lparr>prepare_iid = pi_iid i, prepare_ballot = pi_ballot i\<rparr>) is)))"
      "it_ai it = 0" "it_timeout it = now"
    using retry_prepares_retries [OF r, of ps 0] by (auto simp: proposer_timeout_iterator_def)
  have it: "it = \<lparr>it_pi = it_pi it, it_ai = 0, it_timeout = now\<rparr>" using l1(2,3) by (cases it) simp
  have s': "retries cfg now 0 (p_accept_instances (?p\<lparr>p_prepare_instances := h1\<rparr>)) js k2 h2" using s by simp
  obtain it' where l2: "retry_accepts cfg ps it (?p\<lparr>p_prepare_instances := h1\<rparr>) =
      Some (Inr (it', ?p\<lparr>p_prepare_instances := h1, p_accept_instances := h2\<rparr>,
       concat (map (\<lambda>i. send_accept_all ps \<lparr>accept_iid = pi_iid i, accept_ballot = pi_ballot i,
         accept_value = the (pinst_choice i)\<rparr>) js)))"
    using retry_accepts_retries [OF s' choice, of ps "it_pi it"] it by auto
  have "proposer_inv (?p\<lparr>p_prepare_instances := h1, p_accept_instances := h2\<rparr>)"
    using touch_overdue_inv [OF inv] ra sa by blast
  then show ?thesis
    using l1(1) l2 ra sa touch_overdue_clean [OF pos]
    by (intro exI [of _ "ep\<lparr>ep_state := ?p\<lparr>p_prepare_instances := h1, p_accept_instances := h2\<rparr>\<rparr>"]
        exI [of _ "is"] exI [of _ js])
      (simp add: evproposer_check_timeouts_def on_proposer_def)
qed

text \<open>Without a positive timeout an overdue instance is overdue again at once.\<close>

lemma overdue_again:
  "proposer_timeout cfg \<le> 0 \<Longrightarrow> overdue cfg t inst \<Longrightarrow> overdue cfg t (touched t inst)"
  by (simp add: overdue_def instance_has_timedout_def touched_def)

definition stuck :: "paxos_config \<Rightarrow> timeout_iterator \<Rightarrow> proposer \<Rightarrow> bool" where
  "stuck cfg iter p \<longleftrightarrow> proposer_inv p \<and> proposer_timeout cfg \<le> 0 \<and>
     (\<exists>x inst. it_pi iter \<le> x \<and> x < kh_n_buckets (p_prepare_instances p) \<and>
        kh_value (p_prepare_instances p) x = Some inst \<and> overdue cfg (it_timeout iter) inst)"

lemma stuck_step:
  assumes "stuck cfg iter p"
  shows "\<exists>iter' p' pr. timeout_iterator_prepare cfg iter p = (iter', p', Some pr) \<and> stuck cfg iter' p'"
proof -
  obtain x inst where x: "it_pi iter \<le> x" "x < kh_n_buckets (p_prepare_instances p)"
      "kh_value (p_prepare_instances p) x = Some inst" "overdue cfg (it_timeout iter) inst"
    and inv: "proposer_inv p" and le: "proposer_timeout cfg \<le> 0"
    using assms by (auto simp: stuck_def)
  obtain k1 out where nt: "next_timedout cfg (p_prepare_instances p) (it_pi iter) (it_timeout iter) = (k1, out)"
    by (cases "next_timedout cfg (p_prepare_instances p) (it_pi iter) (it_timeout iter)")
  have "out \<noteq> None"
  proof
    assume "out = None"
    then have "x < k1" using next_timedout_spec [OF nt] x(2) by simp
    then show False using next_timedout_spec [OF nt] x by blast
  qed
  from inv show ?thesis
  proof (cases rule: timeout_prepare_cases [of p cfg iter])
    case (finished iter')
    then show ?thesis using nt \<open>out \<noteq> None\<close>
      by (auto simp: timeout_iterator_prepare_def)
  next
    case (retry iter' k j h)
    have "proposer_inv (p\<lparr>p_prepare_instances := h\<rparr>)" using timeout_prepare_inv [OF inv retry(1)] by simp
    moreover have "kh_value h (it_pi iter') = Some (touched (it_timeout iter) j)"
      using retry(10) by (simp add: kh_value_def)
    ultimately have "stuck cfg iter' (p\<lparr>p_prepare_instances := h\<rparr>)"
      using retry(9,11) overdue_again [OF le retry(3)] le unfolding stuck_def by auto
    then show ?thesis using retry(1) by blast
  qed
qed

lemma retry_prepares_stuck:
  "retry_prepares cfg ps iter p = Some r \<Longrightarrow> \<not> stuck cfg iter p"
proof (induction cfg ps iter p r rule: retry_prepares.raw_induct [rotated, consumes 1])
  fix f cfg and ps :: "'a peers" and iter p r
  assume IH: "\<And>cfg ps iter p r. f cfg ps iter p = Some r \<Longrightarrow> \<not> stuck cfg iter p"
    and body: "(case timeout_iterator_prepare cfg iter p of
        (iter, p, None) \<Rightarrow> Some (Inr (iter, p, []))
      | (iter, p, Some pr) \<Rightarrow>
          bindR (f cfg ps iter p) (\<lambda>(iter, p, out).
            Some (Inr (iter, p, send_prepare_all ps pr @ out)))) = Some r"
  show "\<not> stuck cfg iter p"
  proof
    assume "stuck cfg iter p"
    then obtain iter' p' pr where s: "timeout_iterator_prepare cfg iter p = (iter', p', Some pr)"
        "stuck cfg iter' p'"
      using stuck_step by blast
    then have "f cfg ps iter' p' \<noteq> None" using body by (cases "f cfg ps iter' p'") auto
    then obtain y where "f cfg ps iter' p' = Some y" by blast
    then show False using IH s(2) by blast
  qed
qed

section \<open>The handlers return\<close>

text \<open>A process that can handle one more message: well-formed, with room for its window.\<close>

definition proposer_ready :: "int \<Rightarrow> evproposer \<Rightarrow> bool" where
  "proposer_ready n ep \<longleftrightarrow> proposer_inv (ep_state ep) \<and> p_acceptors (ep_state ep) = n \<and>
     unat (p_next_prepare_iid (ep_state ep)) + nat (ep_preexec_window ep) < 2 ^ 32"

definition handled :: "int \<Rightarrow> evproposer \<Rightarrow> (evproposer \<times> net_action list) run \<Rightarrow> bool" where
  "handled n ep r \<longleftrightarrow> (\<exists>ep' out. r = Some (Inr (ep', out)) \<and> proposer_inv (ep_state ep') \<and>
     p_acceptors (ep_state ep') = n \<and> ep_preexec_window ep' = ep_preexec_window ep)"

lemma on_proposer_handled:
  assumes "r = Some (Inr (p, out))" and "proposer_inv p" and "p_acceptors p = n"
  shows "handled n ep (on_proposer ep r)"
  using assms by (simp add: on_proposer_def handled_def)

lemma try_accept_handled:
  assumes "proposer_ready n ep" and "proposer_inv p" and "p_acceptors p = p_acceptors (ep_state ep)"
    and "p_next_prepare_iid p = p_next_prepare_iid (ep_state ep)"
  shows "\<exists>p' out. try_accept ps clk (ep_preexec_window ep) p = Some (Inr (p', out)) \<and> proposer_inv p' \<and>
    p_acceptors p' = n"
  using try_accept_returns [OF assms(2), of "ep_preexec_window ep" ps clk] assms(1,3,4)
  unfolding proposer_ready_def by auto

lemma handle_promise_returns:
  assumes rdy: "proposer_ready n ep" and frm: "0 \<le> pr_id x" "pr_id x < n" and wf: "value_wf (promise_value pro)"
  shows "handled n ep (evproposer_handle_promise ps now clk ep x pro)"
proof -
  let ?p = "ep_state ep"
  have inv: "proposer_inv ?p" and n: "pr_id x < p_acceptors ?p" using rdy frm(2) by (simp_all add: proposer_ready_def)
  from inv frm(1) n obtain p1 pr where r: "proposer_receive_promise ?p pro (pr_id x) now = Inr (p1, pr)"
      "p_acceptors p1 = p_acceptors ?p" "p_next_prepare_iid p1 = p_next_prepare_iid ?p"
    by (cases rule: receive_promise_cases [of ?p "pr_id x" pro now]) auto
  have inv1: "proposer_inv p1" using receive_promise_inv [OF inv wf frm(1) n r(1)] by simp
  obtain p2 out where "try_accept ps clk (ep_preexec_window ep) p1 = Some (Inr (p2, out))"
      "proposer_inv p2" "p_acceptors p2 = n"
    using try_accept_handled [OF rdy inv1 r(2,3)] by blast
  then show ?thesis
    unfolding evproposer_handle_promise_def
    by (intro on_proposer_handled [where p = p2]) (simp_all add: r(1) peer_get_id_def)
qed

lemma handle_accepted_returns:
  assumes rdy: "proposer_ready n ep" and frm: "0 \<le> pr_id x" "pr_id x < n"
  shows "handled n ep (evproposer_handle_accepted ps clk ep x acc)"
proof -
  let ?p = "ep_state ep"
  have inv: "proposer_inv ?p" and n: "pr_id x < p_acceptors ?p" using rdy frm(2) by (simp_all add: proposer_ready_def)
  from inv frm(1) n obtain p1 b where r: "proposer_receive_accepted ?p acc (pr_id x) = Inr (p1, b)"
      "p_acceptors p1 = p_acceptors ?p" "p_next_prepare_iid p1 = p_next_prepare_iid ?p"
    by (cases rule: receive_accepted_cases [of ?p "pr_id x" acc]) auto
  have inv1: "proposer_inv p1" using receive_accepted_inv [OF inv frm(1) n r(1)] by simp
  obtain p2 out where t: "try_accept ps clk (ep_preexec_window ep) p1 = Some (Inr (p2, out))"
      "proposer_inv p2" "p_acceptors p2 = n"
    using try_accept_handled [OF rdy inv1 r(2,3)] by blast
  show ?thesis
    unfolding evproposer_handle_accepted_def
    by (rule on_proposer_handled [where p = "if b then p2 else p1" and out = "if b then out else []"])
      (use t r inv1 rdy in \<open>simp_all add: peer_get_id_def proposer_ready_def\<close>)
qed

lemma handle_preempted_returns:
  assumes rdy: "proposer_ready n ep"
  shows "handled n ep (evproposer_handle_preempted ps now clk ep msg)"
proof -
  let ?p = "ep_state ep"
  have inv: "proposer_inv ?p" using rdy by (simp add: proposer_ready_def)
  from inv obtain p1 pr where r: "proposer_receive_preempted ?p msg now = Inr (p1, pr)"
      "p_acceptors p1 = p_acceptors ?p" "p_next_prepare_iid p1 = p_next_prepare_iid ?p"
    by (cases rule: receive_preempted_cases [of ?p msg now]) auto
  have inv1: "proposer_inv p1" using receive_preempted_inv [OF inv r(1)] by simp
  obtain p2 out where t: "try_accept ps clk (ep_preexec_window ep) p1 = Some (Inr (p2, out))"
      "proposer_inv p2" "p_acceptors p2 = n"
    using try_accept_handled [OF rdy inv1 r(2,3)] by blast
  show ?thesis
  proof (cases pr)
    case None
    then show ?thesis unfolding evproposer_handle_preempted_def
      using r inv1 rdy by (intro on_proposer_handled [where p = p1]) (simp_all add: proposer_ready_def)
  next
    case (Some a)
    then show ?thesis unfolding evproposer_handle_preempted_def
      using r t by (intro on_proposer_handled [where p = p2]) simp_all
  qed
qed

lemma handle_client_value_returns:
  assumes rdy: "proposer_ready n ep" and wf: "value_wf (client_value v)"
  shows "handled n ep (evproposer_handle_client_value ps clk ep v)"
proof -
  let ?p = "proposer_propose (ep_state ep) (value_bytes (client_value v)) (paxos_value_len (client_value v))"
  have "paxos_value_len (client_value v) = int (length (value_bytes (client_value v)))"
    using wf by (auto simp: value_wf_def value_bytes_def split: option.splits)
  then have inv: "proposer_inv ?p" using rdy proposer_propose_inv by (simp add: proposer_ready_def)
  have "p_acceptors ?p = p_acceptors (ep_state ep)" "p_next_prepare_iid ?p = p_next_prepare_iid (ep_state ep)"
    by (simp_all add: proposer_propose_def)
  then obtain p2 out where "try_accept ps clk (ep_preexec_window ep) ?p = Some (Inr (p2, out))"
      "proposer_inv p2" "p_acceptors p2 = n"
    using try_accept_handled [OF rdy inv] by blast
  then show ?thesis
    unfolding evproposer_handle_client_value_def by (rule on_proposer_handled)
qed

lemma handle_acceptor_state_keeps:
  "proposer_ready n ep \<Longrightarrow> proposer_inv (ep_state (evproposer_handle_acceptor_state ep st)) \<and>
     p_acceptors (ep_state (evproposer_handle_acceptor_state ep st)) = n \<and>
     ep_preexec_window (evproposer_handle_acceptor_state ep st) = ep_preexec_window ep"
  using receive_acceptor_state_inv(1,4) [of "ep_state ep" st]
  by (simp add: proposer_ready_def evproposer_handle_acceptor_state_def)

section \<open>Properties\<close>

text \<open>
  A client value makes the handler return: the value joins the ones the proposer holds, and
  none is lost; accept requests go out for prepared instances in increasing order; and prepare
  requests go out for as many fresh, consecutive instances as it takes to have
  \<open>preexec_window\<close> prepared instances again, all with the first ballot of this proposer.
\<close>

theorem client_value_handled:
  assumes "proposer_ready n ep" and "value_wf (client_value v)"
  shows "\<exists>ep' accs k. evproposer_handle_client_value ps clk ep v =
      Some (Inr (ep', concat (map (send_accept_all ps) accs) @
        concat (map (\<lambda>j. send_prepare_all ps
          \<lparr>prepare_iid = p_next_prepare_iid (ep_state ep) + 1 + of_nat j,
           prepare_ballot = proposer_next_ballot (ep_state ep) 0\<rparr>) [0..<k]))) \<and>
    proposer_inv (ep_state ep') \<and>
    proposer_pending (ep_state ep') = proposer_pending (ep_state ep) +
      {#paxos_value_new (value_bytes (client_value v)) (paxos_value_len (client_value v))#} \<and>
    sorted_wrt (<) (map accept_iid accs) \<and>
    set (map accept_iid accs) \<subseteq> dom (kh_map (p_prepare_instances (ep_state ep))) \<and>
    p_next_prepare_iid (ep_state ep') = p_next_prepare_iid (ep_state ep) + of_nat k \<and>
    ep_preexec_window ep \<le> int (proposer_prepared_count (ep_state ep'))"
proof -
  let ?p = "proposer_propose (ep_state ep) (value_bytes (client_value v)) (paxos_value_len (client_value v))"
  have inv0: "proposer_inv (ep_state ep)" using assms(1) by (simp add: proposer_ready_def)
  have "paxos_value_len (client_value v) = int (length (value_bytes (client_value v)))"
    using assms(2) by (auto simp: value_wf_def value_bytes_def split: option.splits)
  then have inv: "proposer_inv ?p" using proposer_propose_inv [OF inv0] by simp
  have f: "p_next_prepare_iid ?p = p_next_prepare_iid (ep_state ep)"
      "p_prepare_instances ?p = p_prepare_instances (ep_state ep)"
      "proposer_next_ballot ?p 0 = proposer_next_ballot (ep_state ep) 0"
      "proposer_pending ?p = proposer_pending (ep_state ep) +
        {#paxos_value_new (value_bytes (client_value v)) (paxos_value_len (client_value v))#}"
    using proposer_invD(2) [OF inv0]
    by (simp_all add: proposer_propose_def proposer_next_ballot_def proposer_pending_def carray_push_back_list)
  have room: "unat (p_next_prepare_iid ?p) + nat (ep_preexec_window ep) < 2 ^ 32"
    using assms(1) by (simp add: proposer_ready_def f(1))
  obtain p' accs k where r: "try_accept ps clk (ep_preexec_window ep) ?p =
      Some (Inr (p', concat (map (send_accept_all ps) accs) @
        concat (map (\<lambda>j. send_prepare_all ps
          \<lparr>prepare_iid = p_next_prepare_iid ?p + 1 + of_nat j, prepare_ballot = proposer_next_ballot ?p 0\<rparr>) [0..<k])))"
      "proposer_inv p'" "proposer_pending p' = proposer_pending ?p" "sorted_wrt (<) (map accept_iid accs)"
      "set (map accept_iid accs) \<subseteq> dom (kh_map (p_prepare_instances ?p))"
      "p_next_prepare_iid p' = p_next_prepare_iid ?p + of_nat k"
      "ep_preexec_window ep \<le> int (proposer_prepared_count p')"
    using try_accept_returns [OF inv room, of ps clk] by blast
  show ?thesis
    by (rule exI [of _ "ep\<lparr>ep_state := p'\<rparr>"], rule exI [of _ accs], rule exI [of _ k])
      (use r f in \<open>simp add: evproposer_handle_client_value_def on_proposer_def\<close>)
qed

definition ev_pdemo :: evproposer where
  "ev_pdemo = \<lparr>ep_id = 0, ep_preexec_window = 2, ep_state = proposer_new 0 3, ep_tv = (1, 0)\<rparr>"

theorem client_value_handled_witness:
  "\<exists>ep' out. evproposer_handle_client_value peers_demo (\<lambda>_. pdemo_time) ev_pdemo \<lparr>client_value = pdemo_value 7\<rparr> =
     Some (Inr (ep', out)) \<and> 2 \<le> proposer_prepared_count (ep_state ep')"
proof -
  have r: "proposer_ready 3 ev_pdemo"
    by (simp add: proposer_ready_def ev_pdemo_def proposer_new_inv) (simp add: proposer_new_def)
  have v: "value_wf (client_value \<lparr>client_value = pdemo_value 7\<rparr>)" by (simp add: pdemo_value_def value_wf_def)
  have w: "ep_preexec_window ev_pdemo = 2" by (simp add: ev_pdemo_def)
  show ?thesis
    using client_value_handled [OF r v, of peers_demo "\<lambda>_. pdemo_time"] unfolding w by fastforce
qed

lemma mset_set_distinct:
  assumes "mset xs = mset_set A" and "finite A"
  shows "distinct xs"
proof -
  have "set xs = A" using assms by (metis finite_set_mset_mset_set set_mset_mset)
  then show ?thesis using assms by (simp add: distinct_count_atmost_1)
qed

lemma overdue_once:
  assumes "mset is = image_mset (\<lambda>k. the (kh_map h k)) (mset_set (overdue_keys cfg t h))"
    and iid: "\<And>k inst. kh_map h k = Some inst \<Longrightarrow> pi_iid inst = k"
  shows "distinct (map pi_iid is)"
    and "set is = {inst. kh_map h (pi_iid inst) = Some inst \<and> overdue cfg t inst}"
proof -
  have "image_mset pi_iid (mset is) = image_mset (\<lambda>k. k) (mset_set (overdue_keys cfg t h))"
    unfolding assms(1) multiset.map_comp comp_def
    by (rule image_mset_cong) (use iid overdue_keys_finite [of cfg t h] in \<open>auto simp: overdue_keys_def\<close>)
  then have "mset (map pi_iid is) = mset_set (overdue_keys cfg t h)" by simp
  then show "distinct (map pi_iid is)" using overdue_keys_finite by (rule mset_set_distinct)
  have s: "set is = (\<lambda>k. the (kh_map h k)) ` overdue_keys cfg t h"
    using mset_eq_image [OF assms(1) overdue_keys_finite] .
  show "set is = {inst. kh_map h (pi_iid inst) = Some inst \<and> overdue cfg t inst}"
  proof (intro set_eqI iffI)
    fix i
    assume "i \<in> set is"
    then obtain k where "kh_map h k = Some i" "overdue cfg t i" by (auto simp: s overdue_keys_def)
    then show "i \<in> {inst. kh_map h (pi_iid inst) = Some inst \<and> overdue cfg t inst}" using iid by auto
  next
    fix i
    assume "i \<in> {inst. kh_map h (pi_iid inst) = Some inst \<and> overdue cfg t inst}"
    then have "pi_iid i \<in> overdue_keys cfg t h" "the (kh_map h (pi_iid i)) = i" by (auto simp: overdue_keys_def)
    then show "i \<in> set is" unfolding s by (metis imageI)
  qed
qed

text \<open>
  C22. The timeout check returns when the timeout is positive: it sends again, to every acceptor,
  the prepare request of exactly the instances of the first phase that are overdue and the
  accept request of exactly those of the second phase, each once; then nothing is overdue, the
  proposer is well-formed and the timer is started again.
\<close>

theorem timeouts_resend:
  assumes "proposer_inv (ep_state ep)" and "0 < proposer_timeout cfg"
  shows "\<exists>ep' prs ars. evproposer_check_timeouts cfg ps now ep =
      Some (Inr (ep', concat (map (send_prepare_all ps) prs) @ concat (map (send_accept_all ps) ars) @
        [Net_timer_add Timer_timeouts (fst (ep_tv ep)) (snd (ep_tv ep))])) \<and>
    proposer_inv (ep_state ep') \<and>
    distinct (map prepare_iid prs) \<and>
    set prs = {\<lparr>prepare_iid = k, prepare_ballot = pi_ballot inst\<rparr> | k inst.
      kh_map (p_prepare_instances (ep_state ep)) k = Some inst \<and> overdue cfg now inst} \<and>
    distinct (map accept_iid ars) \<and>
    set ars = {\<lparr>accept_iid = k, accept_ballot = pi_ballot inst, accept_value = v\<rparr> | k inst v.
      kh_map (p_accept_instances (ep_state ep)) k = Some inst \<and> overdue cfg now inst \<and> pinst_choice inst = Some v} \<and>
    overdue_keys cfg now (p_prepare_instances (ep_state ep')) = {} \<and>
    overdue_keys cfg now (p_accept_instances (ep_state ep')) = {}"
proof -
  let ?h = "p_prepare_instances (ep_state ep)" and ?g = "p_accept_instances (ep_state ep)"
  let ?pr = "\<lambda>i. \<lparr>prepare_iid = pi_iid i, prepare_ballot = pi_ballot i\<rparr>"
  let ?ar = "\<lambda>i. \<lparr>accept_iid = pi_iid i, accept_ballot = pi_ballot i, accept_value = the (pinst_choice i)\<rparr>"
  obtain ep' "is" js where r: "evproposer_check_timeouts cfg ps now ep =
      Some (Inr (ep', concat (map (\<lambda>i. send_prepare_all ps (?pr i)) is) @
        concat (map (\<lambda>i. send_accept_all ps (?ar i)) js) @
        [Net_timer_add Timer_timeouts (fst (ep_tv ep)) (snd (ep_tv ep))]))"
      "proposer_inv (ep_state ep')"
      "mset is = image_mset (\<lambda>k. the (kh_map ?h k)) (mset_set (overdue_keys cfg now ?h))"
      "mset js = image_mset (\<lambda>k. the (kh_map ?g k)) (mset_set (overdue_keys cfg now ?g))"
      "overdue_keys cfg now (p_prepare_instances (ep_state ep')) = {}"
      "overdue_keys cfg now (p_accept_instances (ep_state ep')) = {}"
    using check_timeouts_retries [OF assms, of ps now] by blast
  have iid: "kh_map ?h k = Some inst \<Longrightarrow> pi_iid inst = k" "kh_map ?g k = Some inst \<Longrightarrow> pi_iid inst = k" for k inst
    using proposer_invD(6,7) [OF assms(1)] by (auto simp: pinst_ok_def)
  have choice: "kh_map ?g k = Some inst \<Longrightarrow> \<exists>v. pinst_choice inst = Some v" for k inst
    using proposer_invD(8) [OF assms(1)]
    by (fastforce simp: pinst_choice_def instance_has_value_def instance_has_promised_value_def split: option.splits)
  note hs = overdue_once [OF r(3) iid(1)] and gs = overdue_once [OF r(4) iid(2)]
  have "set (map ?pr is) = {\<lparr>prepare_iid = k, prepare_ballot = pi_ballot inst\<rparr> | k inst.
      kh_map ?h k = Some inst \<and> overdue cfg now inst}"
    using iid(1) by (auto simp: hs(2))
  moreover have "set (map ?ar js) = {\<lparr>accept_iid = k, accept_ballot = pi_ballot inst, accept_value = v\<rparr> | k inst v.
      kh_map ?g k = Some inst \<and> overdue cfg now inst \<and> pinst_choice inst = Some v}"
  proof (intro set_eqI iffI; clarsimp simp: gs(2))
    fix k inst v
    assume a: "kh_map ?g k = Some inst" "overdue cfg now inst" "pinst_choice inst = Some v"
    then have "pi_iid inst = k" using iid(2) by blast
    with a show "\<lparr>accept_iid = k, accept_ballot = pi_ballot inst, accept_value = v\<rparr> \<in>
        ?ar ` {inst. kh_map ?g (pi_iid inst) = Some inst \<and> overdue cfg now inst}"
      by (intro image_eqI [of _ _ inst]) auto
  qed (use choice in fastforce)
  moreover have "distinct (map prepare_iid (map ?pr is))" "distinct (map accept_iid (map ?ar js))"
    using hs(1) gs(1) by (simp_all add: comp_def)
  ultimately show ?thesis using r(1,2,5,6)
    by (intro exI [of _ ep'] exI [of _ "map ?pr is"] exI [of _ "map ?ar js"]) (simp add: comp_def)
qed

lemma pdemo_overdue:
  assumes "proposer_timeout cfg \<le> 5"
  shows "overdue cfg \<lparr>tv_sec = 5, tv_usec = 0\<rparr> (fresh_pinstance pdemo_start pdemo_time)"
proof -
  have "quorum_reached (quorum_init 3) = False" by code_simp
  then show ?thesis using assms
    by (simp add: overdue_def instance_has_timedout_def fresh_pinstance_def pdemo_start_def pdemo_time_def
        proposer_propose_def proposer_new_def)
qed

theorem timeouts_resend_witness:
  "\<exists>ep ep' out. evproposer_check_timeouts default_config peers_demo \<lparr>tv_sec = 5, tv_usec = 0\<rparr> ep = Some (Inr (ep', out)) \<and>
     Net_write (send_paxos_prepare 13 \<lparr>prepare_iid = 1, prepare_ballot = 10\<rparr>) \<in> set out"
proof -
  obtain p where p: "proposer_inv p"
      "kh_map (p_prepare_instances p) 1 = Some (fresh_pinstance pdemo_start pdemo_time)"
      "pi_ballot (fresh_pinstance pdemo_start pdemo_time) = 10"
    using pdemo_prepared by metis
  let ?ep = "ev_pdemo\<lparr>ep_state := p\<rparr>" and ?now = "\<lparr>tv_sec = 5, tv_usec = 0\<rparr>"
  have inv: "proposer_inv (ep_state ?ep)" and pos: "0 < proposer_timeout default_config"
    using p(1) by (simp_all add: default_config_def)
  have "overdue default_config ?now (fresh_pinstance pdemo_start pdemo_time)"
    by (rule pdemo_overdue) (simp add: default_config_def)
  then have m: "\<lparr>prepare_iid = 1, prepare_ballot = 10\<rparr> \<in> {\<lparr>prepare_iid = k, prepare_ballot = pi_ballot inst\<rparr> | k inst.
      kh_map (p_prepare_instances (ep_state ?ep)) k = Some inst \<and> overdue default_config ?now inst}"
    using p(2,3) by (auto intro!: exI [of _ "fresh_pinstance pdemo_start pdemo_time"])
  obtain ep' prs ars where r: "evproposer_check_timeouts default_config peers_demo ?now ?ep =
      Some (Inr (ep', concat (map (send_prepare_all peers_demo) prs) @ concat (map (send_accept_all peers_demo) ars) @
        [Net_timer_add Timer_timeouts (fst (ep_tv ?ep)) (snd (ep_tv ?ep))]))"
      "set prs = {\<lparr>prepare_iid = k, prepare_ballot = pi_ballot inst\<rparr> | k inst.
        kh_map (p_prepare_instances (ep_state ?ep)) k = Some inst \<and> overdue default_config ?now inst}"
    using timeouts_resend [OF inv pos, of peers_demo ?now] by (elim exE conjE) (rule that)
  have "\<lparr>prepare_iid = 1, prepare_ballot = 10\<rparr> \<in> set prs" unfolding r(2) by (rule m)
  moreover have "send_prepare_all peers_demo pr = [Net_write (send_paxos_prepare 13 pr)]" for pr
    by (simp add: send_prepare_all_def peers_foreach_acceptor_def peer_send_prepare_def peer_get_buffer_def
        peers_demo_def peers_new_def on_accept_def peers_connect_def make_peer_def Let_def)
  ultimately show ?thesis using r(1) by fastforce
qed

text \<open>
  With a timeout of zero or less, as the configuration file may set it, the timeout check
  never returns once an instance of the first phase is overdue: the instance it has just sent
  again is overdue again (\<open>evproposer_check_timeouts\<close>, \<open>next_timedout\<close>).
\<close>

theorem timeouts_diverge:
  assumes "proposer_inv (ep_state ep)" and "proposer_timeout cfg \<le> 0"
    and "kh_map (p_prepare_instances (ep_state ep)) k = Some inst" and "overdue cfg now inst"
  shows "evproposer_check_timeouts cfg ps now ep = None"
proof -
  obtain x where x: "x < kh_n_buckets (p_prepare_instances (ep_state ep))"
      "kh_buckets (p_prepare_instances (ep_state ep)) ! x = KLive k inst"
    using kh_map_bucket [OF proposer_invD(4) [OF assms(1)]] assms(3) by blast
  then have "kh_value (p_prepare_instances (ep_state ep)) x = Some inst" by (simp add: kh_value_def)
  then have "stuck cfg (proposer_timeout_iterator now) (ep_state ep)"
    using x(1) assms(1,2,4) unfolding stuck_def by (auto simp: proposer_timeout_iterator_def)
  then have "retry_prepares cfg ps (proposer_timeout_iterator now) (ep_state ep) = None"
    using retry_prepares_stuck by (metis not_Some_eq)
  then show ?thesis by (simp add: evproposer_check_timeouts_def on_proposer_def)
qed

theorem timeouts_diverge_witness:
  "\<exists>ep. evproposer_check_timeouts (default_config\<lparr>proposer_timeout := 0\<rparr>) peers_demo \<lparr>tv_sec = 5, tv_usec = 0\<rparr> ep = None"
proof -
  obtain p where p: "proposer_inv p"
      "kh_map (p_prepare_instances p) 1 = Some (fresh_pinstance pdemo_start pdemo_time)"
    using pdemo_prepared by metis
  let ?cfg = "default_config\<lparr>proposer_timeout := 0\<rparr>"
  have o: "overdue ?cfg \<lparr>tv_sec = 5, tv_usec = 0\<rparr> (fresh_pinstance pdemo_start pdemo_time)"
    by (rule pdemo_overdue) simp
  have "evproposer_check_timeouts ?cfg peers_demo \<lparr>tv_sec = 5, tv_usec = 0\<rparr> (ev_pdemo\<lparr>ep_state := p\<rparr>) = None"
    using timeouts_diverge [OF _ _ _ o, of "ev_pdemo\<lparr>ep_state := p\<rparr>" 1 peers_demo] p by simp
  then show ?thesis by blast
qed

end
