(* ===== verification/EvLearner.thy ===== *)
theory EvLearner
  imports Learner EvPeers
begin

text \<open>
  \<open>evpaxos/evlearner.c\<close>: the learner process. It runs the learner of \<open>learner.c\<close> on the accepted
  messages, hands every instance that is closed to the application, and asks the acceptors to
  repeat what it misses. The application callback is recorded as the action \<open>App_deliver\<close>.
\<close>

section \<open>Handlers\<close>

record evlearner =
  el_state :: learner
  el_tv :: "int \<times> int"

definition peer_send_repeat :: "paxos_repeat \<Rightarrow> peer \<Rightarrow> bev_write" where
  "peer_send_repeat msg p = send_paxos_repeat (peer_get_buffer p) msg"

text \<open>\<open>msg.to - msg.from\<close> is compared with \<open>chunks\<close> as unsigned numbers.\<close>

definition evlearner_check_holes :: "'cb peers \<Rightarrow> evlearner \<Rightarrow> net_action list" where
  "evlearner_check_holes ps l =
     (let chunks = 10;
          out = (case learner_has_holes (el_state l) of
                   None \<Rightarrow> []
                 | Some (f, t) \<Rightarrow>
                     let t = (if chunks < t - f then f + chunks else t)
                     in peers_foreach_acceptor ps (peer_send_repeat \<lparr>repeat_from = f, repeat_to = t\<rparr>))
      in out @ [Net_timer_add Timer_holes (fst (el_tv l)) (snd (el_tv l))])"

definition deliver_call :: "paxos_accepted \<Rightarrow> net_action" where
  "deliver_call r =
     App_deliver (accepted_iid r) (paxos_value_val (accepted_value r)) (paxos_value_len (accepted_value r))"

partial_function (option) evlearner_deliver_next_closed :: "learner \<Rightarrow> (learner \<times> net_action list) run" where
  "evlearner_deliver_next_closed l =
     (case learner_deliver_next l of
        (l, None) \<Rightarrow> Some (Inr (l, []))
      | (l, Some r) \<Rightarrow>
          bindR (evlearner_deliver_next_closed l) (\<lambda>(l, out). Some (Inr (l, deliver_call r # out))))"

definition evlearner_handle_accepted ::
  "evlearner \<Rightarrow> peer \<Rightarrow> paxos_accepted \<Rightarrow> (evlearner \<times> net_action list) run" where
  "evlearner_handle_accepted l p msg =
     (let peer_id = peer_get_id p
      in bindR (Some (learner_receive_accepted (el_state l) msg peer_id)) (\<lambda>st.
         bindR (evlearner_deliver_next_closed st) (\<lambda>(st, out).
           Some (Inr (l\<lparr>el_state := st\<rparr>, out)))))"

definition evlearner_init_internal ::
  "paxos_config \<Rightarrow> evpaxos_config \<Rightarrow> ev_cb peers \<Rightarrow> (ev_cb peers \<times> evlearner \<times> net_action list) outcome" where
  "evlearner_init_internal cfg config ps =
     (let acceptor_count = evpaxos_acceptor_count config;
          l = \<lparr>el_state = learner_new cfg acceptor_count, el_tv = (0, 100000)\<rparr>
      in bindE (peers_subscribe ps TY_ACCEPTED CB_learner_accepted) (\<lambda>ps.
           Inr (ps, l, [Net_timer_new Timer_holes, Net_timer_add Timer_holes 0 100000])))"

text \<open>
  \<open>config\<close> is what reading the configuration file returned; \<open>bevs\<close> are the buffers of the
  connections.
\<close>

definition evlearner_init ::
  "(string \<Rightarrow> 32 word) \<Rightarrow> paxos_config \<Rightarrow> evpaxos_config option \<Rightarrow> nat list \<Rightarrow>
     (ev_cb peers \<times> evlearner \<times> net_action list) option outcome" where
  "evlearner_init inet_addr cfg config bevs =
     (case config of
        None \<Rightarrow> Inr None
      | Some c \<Rightarrow>
          bindE (peers_connect_to_acceptors inet_addr cfg (peers_new c) bevs) (\<lambda>(ps, out).
          bindE (evlearner_init_internal cfg c ps) (\<lambda>(ps, l, out').
            Inr (Some (ps, l, out @ out')))))"

definition evlearner_free_internal :: "net_action list" where
  "evlearner_free_internal = [Net_timer_free Timer_holes]"

definition evlearner_free :: "'cb peers \<Rightarrow> net_action list" where
  "evlearner_free ps = peers_free ps @ evlearner_free_internal"

definition evlearner_set_instance_id :: "evlearner \<Rightarrow> iid_t \<Rightarrow> evlearner" where
  "evlearner_set_instance_id l iid = l\<lparr>el_state := learner_set_instance_id (el_state l) iid\<rparr>"

section \<open>The delivery loop\<close>

lemma deliver_shrinks:
  assumes inv: "learner_inv n M l" and d: "learner_deliver_next l = (l', Some r)"
  shows "card (dom (kh_map (l_instances l'))) < card (dom (kh_map (l_instances l)))"
  using inv d
proof (cases rule: deliver_cases)
  case (deliver inst r')
  have "finite (dom (kh_map (l_instances l)))" by (rule kh_dom_finite)
  moreover have "dom (kh_map (l_instances l')) = dom (kh_map (l_instances l)) - {l_current_iid l}"
    by (auto simp: deliver(7))
  moreover have "l_current_iid l \<in> dom (kh_map (l_instances l))" using deliver(1) by blast
  ultimately show ?thesis by (simp only: card_Diff1_less)
qed simp

lemma deliver_none: "learner_deliver_next l = (l', None) \<Longrightarrow> l' = l"
  by (auto simp: learner_deliver_next_def Let_def split: option.splits prod.splits if_splits)

lemma deliver_idle:
  "learner_deliver_next l = (l', None) \<Longrightarrow> learner_run l' (replicate k L_deliver) = Inr (l2, outs) \<Longrightarrow> outs = []"
proof (induction k arbitrary: outs)
  case (Suc k)
  have "l' = l" using Suc(2) by (rule deliver_none)
  then show ?case using Suc by (auto split: sum.splits)
qed simp

lemma deliver_loop_returns:
  "learner_inv n M l \<Longrightarrow>
   \<exists>l' outs. evlearner_deliver_next_closed l = Some (Inr (l', map deliver_call outs)) \<and>
     learner_run l (replicate (length outs) L_deliver) = Inr (l', outs) \<and>
     learner_inv n M l' \<and> learner_deliver_next l' = (l', None)"
proof (induction "card (dom (kh_map (l_instances l)))" arbitrary: l rule: less_induct)
  case less
  obtain l1 out where d: "learner_deliver_next l = (l1, out)" by (cases "learner_deliver_next l")
  have inv1: "learner_inv n M l1" using learner_deliver_inv [OF less(2) d] .
  show ?case
  proof (cases out)
    case None
    then have "l1 = l" using d deliver_none by blast
    then show ?thesis using d None less(2)
      by (intro exI [of _ l] exI [of _ "[]"], subst evlearner_deliver_next_closed.simps) simp
  next
    case (Some r)
    have small: "card (dom (kh_map (l_instances l1))) < card (dom (kh_map (l_instances l)))"
      using deliver_shrinks [OF less(2)] d Some by simp
    obtain l' outs where ih: "evlearner_deliver_next_closed l1 = Some (Inr (l', map deliver_call outs))"
        "learner_run l1 (replicate (length outs) L_deliver) = Inr (l', outs)"
        "learner_inv n M l'" "learner_deliver_next l' = (l', None)"
      using less(1) [OF small inv1] by blast
    then have "evlearner_deliver_next_closed l = Some (Inr (l', map deliver_call (r # outs)))"
      by (subst evlearner_deliver_next_closed.simps) (simp add: d Some)
    moreover have "learner_run l (replicate (length (r # outs)) L_deliver) = Inr (l', r # outs)"
      using ih(2) d Some by simp
    ultimately show ?thesis using ih(3,4) by blast
  qed
qed

lemma learner_handler_total:
  assumes "learner_inv n M (el_state l)" and "value_wf (accepted_value msg)"
    and "0 \<le> pr_id p" and "pr_id p < n"
  obtains st l' outs where "learner_receive_accepted (el_state l) msg (pr_id p) = Inr st"
    "evlearner_handle_accepted l p msg = Some (Inr (l', map deliver_call outs))"
    "learner_inv n (insert (msg, pr_id p) M) st"
    "learner_run st (replicate (length outs) L_deliver) = Inr (el_state l', outs)"
    "learner_inv n (insert (msg, pr_id p) M) (el_state l')"
    "learner_deliver_next (el_state l') = (el_state l', None)"
proof -
  obtain st where st: "learner_receive_accepted (el_state l) msg (pr_id p) = Inr st"
    using learner_receive_defined [OF assms] by blast
  have inv: "learner_inv n (insert (msg, pr_id p) M) st"
    using learner_receive_inv [OF assms st] .
  obtain st' outs where r: "evlearner_deliver_next_closed st = Some (Inr (st', map deliver_call outs))"
      "learner_run st (replicate (length outs) L_deliver) = Inr (st', outs)"
      "learner_inv n (insert (msg, pr_id p) M) st'" "learner_deliver_next st' = (st', None)"
    using deliver_loop_returns [OF inv] by blast
  have "evlearner_handle_accepted l p msg = Some (Inr (l\<lparr>el_state := st'\<rparr>, map deliver_call outs))"
    using st r(1) by (simp add: evlearner_handle_accepted_def peer_get_id_def)
  then show thesis using that [OF st _ inv, of "l\<lparr>el_state := st'\<rparr>" outs] r(2-4) by simp
qed

lemma received_replicate [simp]: "received (replicate k L_deliver) = {}"
  by (induction k) simp_all

lemma events_ok_replicate [simp]: "events_ok n (replicate k L_deliver)"
  by (simp add: events_ok_def)

section \<open>Properties\<close>

text \<open>
  The handler of accepted messages returns: what it hands to the application is what the
  learner delivers after this message, as many instances as are ready, in consecutive order
  without repetition; afterwards nothing is ready any more.
\<close>

theorem learner_handler_returns:
  assumes "learner_inv n M (el_state l)" and "value_wf (accepted_value msg)"
    and "0 \<le> pr_id p" and "pr_id p < n" and "\<not> l_late_start (el_state l)"
  shows "\<exists>l' outs. evlearner_handle_accepted l p msg = Some (Inr (l', map deliver_call outs)) \<and>
    learner_run (el_state l) (L_accepted msg (pr_id p) # replicate (length outs) L_deliver) =
      Inr (el_state l', outs) \<and>
    learner_inv n (insert (msg, pr_id p) M) (el_state l') \<and>
    learner_deliver_next (el_state l') = (el_state l', None) \<and>
    map accepted_iid outs = map (\<lambda>i. l_current_iid (el_state l) + of_nat i) [0..<length outs]"
proof -
  obtain st l' outs where r: "learner_receive_accepted (el_state l) msg (pr_id p) = Inr st"
      "evlearner_handle_accepted l p msg = Some (Inr (l', map deliver_call outs))"
      "learner_inv n (insert (msg, pr_id p) M) st"
      "learner_run st (replicate (length outs) L_deliver) = Inr (el_state l', outs)"
      "learner_inv n (insert (msg, pr_id p) M) (el_state l')"
      "learner_deliver_next (el_state l') = (el_state l', None)"
    using learner_handler_total [OF assms(1-4)] by blast
  have st: "l_current_iid st = l_current_iid (el_state l)" "\<not> l_late_start st"
    using receive_current_iid [OF assms(5) r(1)] by simp_all
  have "map accepted_iid outs = map (\<lambda>i. l_current_iid st + of_nat i) [0..<length outs]"
    using learner_run_consecutive [OF r(3) _ r(4) st(2)] by simp
  then show ?thesis using r st
    by (intro exI [of _ l'] exI [of _ outs]) simp
qed

definition ev_ldemo :: evlearner where
  "ev_ldemo = \<lparr>el_state = learner_new (default_config\<lparr>learner_catch_up := 1\<rparr>) 1, el_tv = (0, 100000)\<rparr>"

theorem learner_handler_returns_witness:
  "\<exists>l'. evlearner_handle_accepted ev_ldemo peer_demo (ldemo_accepted 1 10) =
     Some (Inr (l', [deliver_call (ldemo_accepted 1 10)]))"
proof -
  have inv: "learner_inv 1 {} (el_state ev_ldemo)" by (simp add: ev_ldemo_def learner_inv_new)
  have pre: "value_wf (accepted_value (ldemo_accepted 1 10))" "0 \<le> pr_id peer_demo" "pr_id peer_demo < 1"
      "\<not> l_late_start (el_state ev_ldemo)"
    by (simp_all add: ldemo_accepted_def value_wf_def peer_demo_def make_peer_def ev_ldemo_def learner_new_def)
  obtain l' outs where r: "evlearner_handle_accepted ev_ldemo peer_demo (ldemo_accepted 1 10) =
        Some (Inr (l', map deliver_call outs))"
      "learner_run (el_state ev_ldemo) (L_accepted (ldemo_accepted 1 10) (pr_id peer_demo) #
        replicate (length outs) L_deliver) = Inr (el_state l', outs)"
      "learner_deliver_next (el_state l') = (el_state l', None)"
    using learner_handler_returns [OF inv pre] by blast
  have e: "case learner_run (el_state ev_ldemo)
      [L_accepted (ldemo_accepted 1 10) 0] of Inl e \<Rightarrow> False | Inr (l, outs) \<Rightarrow>
        (case learner_deliver_next l of (l2, Some r) \<Rightarrow> r = ldemo_accepted 1 10 \<and>
           (case learner_deliver_next l2 of (l3, None) \<Rightarrow> True | _ \<Rightarrow> False) | _ \<Rightarrow> False)"
    by code_simp
  have id0: "pr_id peer_demo = 0" by (simp add: peer_demo_def make_peer_def)
  have "outs = [ldemo_accepted 1 10]"
  proof (cases "length outs")
    case 0
    then show ?thesis using r(2,3) e id0 by (auto split: sum.splits prod.splits option.splits)
  next
    case (Suc k)
    then show ?thesis using r(2) e id0
      by (cases k) (auto split: sum.splits prod.splits option.splits dest: deliver_idle)
  qed
  then show ?thesis using r(1) by auto
qed

text \<open>
  What the timer of the learner sends: when there is a gap, every acceptor is asked for a
  range that starts at the next instance to deliver, holds at least two and at most eleven
  instances and does not wrap around; otherwise nothing. The timer is started again.
\<close>

theorem hole_request_bounded:
  "\<exists>req. evlearner_check_holes ps l =
     (if l_current_iid (el_state l) < l_highest_iid_closed (el_state l)
      then map (\<lambda>p. Net_write (send_paxos_repeat (pr_bev p) req)) (ps_peers ps) else []) @
     [Net_timer_add Timer_holes (fst (el_tv l)) (snd (el_tv l))] \<and>
   (l_current_iid (el_state l) < l_highest_iid_closed (el_state l) \<longrightarrow>
      repeat_from req = l_current_iid (el_state l) \<and>
      unat (repeat_to req) = min (unat (l_highest_iid_closed (el_state l))) (unat (repeat_from req) + 10))"
proof (cases "l_current_iid (el_state l) < l_highest_iid_closed (el_state l)")
  case False
  then show ?thesis by (simp add: evlearner_check_holes_def learner_has_holes_def Let_def)
next
  case True
  let ?f = "l_current_iid (el_state l)" and ?t = "l_highest_iid_closed (el_state l)"
  let ?t' = "if 10 < ?t - ?f then ?f + 10 else ?t"
  have sub: "unat (?t - ?f) = unat ?t - unat ?f" using True by (simp add: unat_sub_if' word_less_nat_alt)
  have "unat ?t < 2 ^ LENGTH(32)" by (rule unsigned_less)
  then have "unat ?t' = min (unat ?t) (unat ?f + 10)"
    using True sub by (auto simp: word_less_nat_alt unat_word_ariths)
  then show ?thesis using True
    by (intro exI [of _ "\<lparr>repeat_from = ?f, repeat_to = ?t'\<rparr>"])
      (simp add: evlearner_check_holes_def learner_has_holes_def peers_foreach_acceptor_def
        peer_send_repeat_def peer_get_buffer_def Let_def)
qed

theorem hole_request_bounded_witness:
  "\<exists>req. evlearner_check_holes peers_demo \<lparr>el_state = (learner_new default_config 3)
       \<lparr>l_current_iid := 5, l_highest_iid_closed := 100\<rparr>, el_tv = (0, 100000)\<rparr> =
     [Net_write (send_paxos_repeat 13 req), Net_timer_add Timer_holes 0 100000] \<and>
   repeat_from req = 5 \<and> unat (repeat_to req) = 15"
  using hole_request_bounded [of peers_demo "\<lparr>el_state = (learner_new default_config 3)
       \<lparr>l_current_iid := 5, l_highest_iid_closed := 100\<rparr>, el_tv = (0, 100000)\<rparr>"]
  by (auto simp: peers_demo_def peers_new_def on_accept_def peers_connect_def make_peer_def Let_def)

end
