(* ===== verification/EvReplica.thy ===== *)
theory EvReplica
  imports PaxosSystem EvAcceptor EvProposer EvLearner
begin

text \<open>
  \<open>evpaxos/evreplica.c\<close>: a replica is an acceptor, a proposer and a learner that share their
  connections. Here the callbacks that the three subscribe get their meaning: what a message
  does to the state of a replica. A callback reads its message from the member of the union
  that belongs to its type; reading another member is the error \<open>BadUnion\<close>.
\<close>

section \<open>The replica\<close>

text \<open>
  \<open>rp_calls\<close> counts the callbacks run so far; it selects the readings of the clock.
\<close>

record replica =
  rp_peers :: "ev_cb peers"
  rp_acceptor :: "mem_storage evacceptor"
  rp_proposer :: evproposer
  rp_learner :: evlearner
  rp_calls :: nat

definition evpaxos_replica_free :: "ev_cb peers \<Rightarrow> net_action list" where
  "evpaxos_replica_free ps =
     evlearner_free_internal @ evproposer_free_internal @ evacceptor_free_internal @ peers_free ps"

text \<open>
  \<open>config\<close> is what \<open>evpaxos_config_read\<close> returned; \<open>NULL\<close> is not checked. The result is
  \<open>None\<close> for \<open>NULL\<close>, with the actions done by then.
\<close>

definition evpaxos_replica_init ::
  "(string \<Rightarrow> 32 word) \<Rightarrow> paxos_config \<Rightarrow> int \<Rightarrow> evpaxos_config option \<Rightarrow> nat list \<Rightarrow> bool \<Rightarrow>
     (replica option \<times> net_action list) outcome" where
  "evpaxos_replica_init inet_addr cfg ident config bevs bound =
     (case config of
        None \<Rightarrow> Inl NullPointer
      | Some c \<Rightarrow>
          bindE (peers_connect_to_acceptors inet_addr cfg (peers_new c) bevs) (\<lambda>(ps, out1).
          bindE (evacceptor_init_internal cfg ident ps) (\<lambda>(ps, a, out2).
          bindE (evproposer_init_internal cfg ident c ps) (\<lambda>(ps, p, out3).
          bindE (evlearner_init_internal cfg c ps) (\<lambda>(ps, l, out4).
          bindE (evpaxos_acceptor_listen_port c ident) (\<lambda>port.
            let (ps, out5, rv) = peers_listen ps port bound;
                out = out1 @ out2 @ out3 @ out4 @ out5
            in if rv = 0 then Inr (None, out @ evpaxos_replica_free ps)
               else Inr (Some \<lparr>rp_peers = ps, rp_acceptor = a, rp_proposer = p, rp_learner = l, rp_calls = 0\<rparr>,
                         out)))))))"

definition evpaxos_replica_set_instance_id :: "replica \<Rightarrow> iid_t \<Rightarrow> replica" where
  "evpaxos_replica_set_instance_id r iid =
     r\<lparr>rp_learner := evlearner_set_instance_id (rp_learner r) iid,
       rp_proposer := evproposer_set_instance_id (rp_proposer r) iid\<rparr>"

definition peer_send_trim :: "paxos_trim \<Rightarrow> peer \<Rightarrow> bev_write" where
  "peer_send_trim trim p = send_paxos_trim (peer_get_buffer p) trim"

definition evpaxos_replica_send_trim :: "replica \<Rightarrow> iid_t \<Rightarrow> net_action list" where
  "evpaxos_replica_send_trim r iid = peers_foreach_acceptor (rp_peers r) (peer_send_trim \<lparr>trim_iid = iid\<rparr>)"

text \<open>The loop of \<open>evpaxos_replica_submit\<close>: \<open>n\<close> turns from peer \<open>i\<close> on.\<close>

fun submit_from :: "ev_cb peers \<Rightarrow> int \<Rightarrow> nat \<Rightarrow> byte list \<Rightarrow> int \<Rightarrow> net_action list outcome" where
  "submit_from ps i 0 data sz = Inr []"
| "submit_from ps i (Suc n) data sz =
     bindE (peers_get_acceptor ps i) (\<lambda>p.
       case p of
         None \<Rightarrow> Inl NullPointer
       | Some p \<Rightarrow>
           if peer_connected p then Inr [Net_write (paxos_submit (peer_get_buffer p) data sz)]
           else submit_from ps (i + 1) n data sz)"

definition evpaxos_replica_submit :: "replica \<Rightarrow> byte list \<Rightarrow> int \<Rightarrow> net_action list outcome" where
  "evpaxos_replica_submit r data sz =
     submit_from (rp_peers r) 0 (nat (peers_count (rp_peers r))) data sz"

definition evpaxos_replica_count :: "replica \<Rightarrow> int" where
  "evpaxos_replica_count r = peers_count (rp_peers r)"

section \<open>The callbacks of a replica\<close>

definition on_rp_acceptor ::
  "replica \<Rightarrow> (mem_storage evacceptor \<times> net_action list) run \<Rightarrow> (replica \<times> net_action list) run" where
  "on_rp_acceptor r x = bindR x (\<lambda>(a, out). Some (Inr (r\<lparr>rp_acceptor := a\<rparr>, out)))"

definition on_rp_proposer ::
  "replica \<Rightarrow> (evproposer \<times> net_action list) run \<Rightarrow> (replica \<times> net_action list) run" where
  "on_rp_proposer r x = bindR x (\<lambda>(p, out). Some (Inr (r\<lparr>rp_proposer := p\<rparr>, out)))"

definition on_rp_learner ::
  "replica \<Rightarrow> (evlearner \<times> net_action list) run \<Rightarrow> (replica \<times> net_action list) run" where
  "on_rp_learner r x = bindR x (\<lambda>(l, out). Some (Inr (r\<lparr>rp_learner := l\<rparr>, out)))"

text \<open>Reading a member of the union \<open>paxos_message.u\<close>.\<close>

definition u_prepare :: "paxos_message \<Rightarrow> paxos_prepare run" where
  "u_prepare msg = Some (case msg of PAXOS_PREPARE m \<Rightarrow> Inr m | _ \<Rightarrow> Inl BadUnion)"

definition u_promise :: "paxos_message \<Rightarrow> paxos_promise run" where
  "u_promise msg = Some (case msg of PAXOS_PROMISE m \<Rightarrow> Inr m | _ \<Rightarrow> Inl BadUnion)"

definition u_accept :: "paxos_message \<Rightarrow> paxos_accept run" where
  "u_accept msg = Some (case msg of PAXOS_ACCEPT m \<Rightarrow> Inr m | _ \<Rightarrow> Inl BadUnion)"

definition u_accepted :: "paxos_message \<Rightarrow> paxos_accepted run" where
  "u_accepted msg = Some (case msg of PAXOS_ACCEPTED m \<Rightarrow> Inr m | _ \<Rightarrow> Inl BadUnion)"

definition u_preempted :: "paxos_message \<Rightarrow> paxos_preempted run" where
  "u_preempted msg = Some (case msg of PAXOS_PREEMPTED m \<Rightarrow> Inr m | _ \<Rightarrow> Inl BadUnion)"

definition u_repeat :: "paxos_message \<Rightarrow> paxos_repeat run" where
  "u_repeat msg = Some (case msg of PAXOS_REPEAT m \<Rightarrow> Inr m | _ \<Rightarrow> Inl BadUnion)"

definition u_trim :: "paxos_message \<Rightarrow> paxos_trim run" where
  "u_trim msg = Some (case msg of PAXOS_TRIM m \<Rightarrow> Inr m | _ \<Rightarrow> Inl BadUnion)"

definition u_state :: "paxos_message \<Rightarrow> paxos_acceptor_state run" where
  "u_state msg = Some (case msg of PAXOS_ACCEPTOR_STATE m \<Rightarrow> Inr m | _ \<Rightarrow> Inl BadUnion)"

definition u_client_value :: "paxos_message \<Rightarrow> paxos_client_value run" where
  "u_client_value msg = Some (case msg of PAXOS_CLIENT_VALUE m \<Rightarrow> Inr m | _ \<Rightarrow> Inl BadUnion)"

lemmas union_defs =
  u_prepare_def u_promise_def u_accept_def u_accepted_def u_preempted_def u_repeat_def u_trim_def
  u_state_def u_client_value_def

fun ev_handler ::
  "timeval \<Rightarrow> (nat \<Rightarrow> timeval) \<Rightarrow> ev_cb \<Rightarrow> peer \<Rightarrow> paxos_message \<Rightarrow> replica \<Rightarrow> (replica \<times> net_action list) run" where
  "ev_handler now clk CB_acceptor_prepare x msg r =
     bindR (u_prepare msg) (\<lambda>m. on_rp_acceptor r (Some (evacceptor_handle_prepare (rp_acceptor r) x m)))"
| "ev_handler now clk CB_acceptor_accept x msg r =
     bindR (u_accept msg) (\<lambda>m. on_rp_acceptor r (Some (evacceptor_handle_accept (rp_peers r) (rp_acceptor r) x m)))"
| "ev_handler now clk CB_acceptor_repeat x msg r =
     bindR (u_repeat msg) (\<lambda>m. on_rp_acceptor r (evacceptor_handle_repeat (rp_acceptor r) x m))"
| "ev_handler now clk CB_acceptor_trim x msg r =
     bindR (u_trim msg) (\<lambda>m. on_rp_acceptor r (Some (evacceptor_handle_trim (rp_acceptor r) m)))"
| "ev_handler now clk CB_proposer_promise x msg r =
     bindR (u_promise msg) (\<lambda>m. on_rp_proposer r
       (evproposer_handle_promise (rp_peers r) now clk (rp_proposer r) x m))"
| "ev_handler now clk CB_proposer_accepted x msg r =
     bindR (u_accepted msg) (\<lambda>m. on_rp_proposer r
       (evproposer_handle_accepted (rp_peers r) clk (rp_proposer r) x m))"
| "ev_handler now clk CB_proposer_preempted x msg r =
     bindR (u_preempted msg) (\<lambda>m. on_rp_proposer r
       (evproposer_handle_preempted (rp_peers r) now clk (rp_proposer r) m))"
| "ev_handler now clk CB_proposer_client_value x msg r =
     bindR (u_client_value msg) (\<lambda>m. on_rp_proposer r
       (evproposer_handle_client_value (rp_peers r) clk (rp_proposer r) m))"
| "ev_handler now clk CB_proposer_acceptor_state x msg r =
     bindR (u_state msg) (\<lambda>m. on_rp_proposer r
       (Some (Inr (evproposer_handle_acceptor_state (rp_proposer r) m, []))))"
| "ev_handler now clk CB_learner_accepted x msg r =
     bindR (u_accepted msg) (\<lambda>m. on_rp_learner r (evlearner_handle_accepted (rp_learner r) x m))"

definition ev_call :: "(nat \<Rightarrow> timeval) \<Rightarrow> (nat \<Rightarrow> nat \<Rightarrow> timeval) \<Rightarrow> (ev_cb, replica) callbacks" where
  "ev_call now clk cb x m r =
     ev_handler (now (rp_calls r)) (clk (rp_calls r)) cb x m (r\<lparr>rp_calls := rp_calls r + 1\<rparr>)"

text \<open>The subscriptions of a replica, in the order of the calls.\<close>

definition replica_subs :: "ev_cb subscription list" where
  "replica_subs = map (\<lambda>(ty, cb). \<lparr>sub_type = ty, sub_callback = cb\<rparr>)
     [(TY_PREPARE, CB_acceptor_prepare), (TY_ACCEPT, CB_acceptor_accept),
      (TY_REPEAT, CB_acceptor_repeat), (TY_TRIM, CB_acceptor_trim),
      (TY_PROMISE, CB_proposer_promise), (TY_ACCEPTED, CB_proposer_accepted),
      (TY_PREEMPTED, CB_proposer_preempted), (TY_CLIENT_VALUE, CB_proposer_client_value),
      (TY_ACCEPTOR_STATE, CB_proposer_acceptor_state), (TY_ACCEPTED, CB_learner_accepted)]"

section \<open>Every message is handled\<close>

definition replica_ok :: "int \<Rightarrow> (paxos_accepted \<times> int) set \<Rightarrow> replica \<Rightarrow> bool" where
  "replica_ok n M r \<longleftrightarrow>
     (\<exists>a. ea_state (rp_acceptor r) = Some a \<and> acceptor_wf a) \<and>
     proposer_inv (ep_state (rp_proposer r)) \<and> p_acceptors (ep_state (rp_proposer r)) = n \<and>
     learner_inv n M (el_state (rp_learner r))"

text \<open>There are instance numbers left for a whole window of prepares.\<close>

definition replica_room :: "replica \<Rightarrow> bool" where
  "replica_room r \<longleftrightarrow>
     unat (p_next_prepare_iid (ep_state (rp_proposer r))) + nat (ep_preexec_window (rp_proposer r)) < 2 ^ 32"

text \<open>
  What a message needs: well-formed values; a sender that is an acceptor, where it votes; an
  instance the acceptor can answer for; a repeat range whose loop ends.
\<close>

definition message_fits :: "int \<Rightarrow> replica \<Rightarrow> peer \<Rightarrow> paxos_message \<Rightarrow> bool" where
  "message_fits n r x msg \<longleftrightarrow>
     (case ea_state (rp_acceptor r) of
        None \<Rightarrow> False
      | Some a \<Rightarrow>
          (case msg of
             PAXOS_PREPARE m \<Rightarrow> answerable a (prepare_iid m)
           | PAXOS_PROMISE m \<Rightarrow> 0 \<le> pr_id x \<and> pr_id x < n \<and> value_wf (promise_value m)
           | PAXOS_ACCEPT m \<Rightarrow> answerable a (accept_iid m) \<and> value_wf (accept_value m)
           | PAXOS_ACCEPTED m \<Rightarrow> 0 \<le> pr_id x \<and> pr_id x < n \<and> value_wf (accepted_value m)
           | PAXOS_REPEAT m \<Rightarrow> repeat_to m \<noteq> - 1 \<and>
               (\<forall>i \<in> set (iid_range (repeat_from m) (repeat_to m)). \<not> mem_lost (acc_store a) i)
           | PAXOS_CLIENT_VALUE m \<Rightarrow> value_wf (client_value m)
           | _ \<Rightarrow> True))"

definition dispatched :: "int \<Rightarrow> replica \<Rightarrow> (replica \<times> net_action list) run \<Rightarrow> bool" where
  "dispatched n r res \<longleftrightarrow> (\<exists>r' out M. res = Some (Inr (r', out)) \<and> replica_ok n M r' \<and> rp_peers r' = rp_peers r)"

definition answered :: "(mem_storage evacceptor \<times> net_action list) run \<Rightarrow> bool" where
  "answered res \<longleftrightarrow> (\<exists>a out st. res = Some (Inr (a, out)) \<and> ea_state a = Some st \<and> acceptor_wf st)"

lemma dispatched_acceptor:
  assumes "replica_ok n M r" and "answered res"
  shows "dispatched n r (on_rp_acceptor (r\<lparr>rp_calls := k\<rparr>) res)"
  using assms by (auto simp: dispatched_def answered_def on_rp_acceptor_def replica_ok_def)

lemma dispatched_proposer:
  assumes "replica_ok n M r" and "handled n (rp_proposer r) res"
  shows "dispatched n r (on_rp_proposer (r\<lparr>rp_calls := k\<rparr>) res)"
  using assms by (auto simp: dispatched_def handled_def on_rp_proposer_def replica_ok_def)

lemma proposer_ready_replica:
  "replica_ok n M r \<Longrightarrow> replica_room r \<Longrightarrow> proposer_ready n (rp_proposer r)"
  by (simp add: replica_ok_def replica_room_def proposer_ready_def)

lemma dispatch_ends:
  "bindR res (\<lambda>(s, out). Some (Inr (s, out))) = res"
  by (auto simp: bindR_def split: option.split sum.split)

lemma dispatch_acceptor_messages:
  assumes ok: "replica_ok n M r" and fits: "message_fits n r x msg"
    and ty: "message_type msg \<in> {TY_PREPARE, TY_ACCEPT, TY_REPEAT, TY_TRIM}"
  shows "dispatched n r (dispatch_subs (ev_call now clk) replica_subs x msg r)"
proof -
  obtain a where a: "ea_state (rp_acceptor r) = Some a" "acceptor_wf a"
    using ok by (auto simp: replica_ok_def)
  note subs = replica_subs_def dispatch_ends ev_call_def union_defs
  show ?thesis
  proof (cases msg)
    case (PAXOS_PREPARE m)
    then have "answerable a (prepare_iid m)" using fits a(1) by (simp add: message_fits_def)
    then obtain a' out where "acceptor_receive_prepare a m = Inr (a', out)" "acceptor_wf a'"
      using receive_prepare_total [OF a(2)] by blast
    then have "answered (Some (evacceptor_handle_prepare (rp_acceptor r) x m))"
      using a(1) by (simp add: answered_def evacceptor_handle_prepare_def with_acceptor_def)
    then show ?thesis using PAXOS_PREPARE by (simp add: subs dispatched_acceptor [OF ok])
  next
    case (PAXOS_ACCEPT m)
    then have "answerable a (accept_iid m)" "value_wf (accept_value m)"
      using fits a(1) by (simp_all add: message_fits_def)
    then obtain a' out where "acceptor_receive_accept a m = Inr (a', out)" "acceptor_wf a'"
      using receive_accept_total [OF a(2)] by blast
    then have "answered (Some (evacceptor_handle_accept (rp_peers r) (rp_acceptor r) x m))"
      using a(1) by (simp add: answered_def evacceptor_handle_accept_def with_acceptor_def)
    then show ?thesis using PAXOS_ACCEPT by (simp add: subs dispatched_acceptor [OF ok])
  next
    case (PAXOS_REPEAT m)
    then have h: "repeat_to m \<noteq> - 1"
        "\<forall>i. repeat_from m \<le> i \<longrightarrow> i \<le> repeat_to m \<longrightarrow> \<not> mem_lost (acc_store a) i"
      using fits a(1) by (auto simp: message_fits_def iid_range_in)
    obtain a' outs where "repeat_loop a (peer_get_buffer x) (repeat_from m) (repeat_to m) = Some (Inr (a', outs))"
        "acceptor_wf a'"
      using repeat_loop_answers [OF a(2) h(2,1), of "peer_get_buffer x"] by blast
    then have "answered (evacceptor_handle_repeat (rp_acceptor r) x m)"
      using a(1) by (simp add: answered_def evacceptor_handle_repeat_def)
    then show ?thesis using PAXOS_REPEAT by (simp add: subs dispatched_acceptor [OF ok])
  next
    case (PAXOS_TRIM m)
    have "ms.acc_ok a" using a(2) by (simp add: acceptor_wf_ms)
    then obtain a' d where t: "acceptor_receive_trim a m = Inr (a', d)" "acceptor_wf a'"
      using ms.trim_spec [of a m] by (auto simp: acceptor_wf_ms)
    then have "answered (Some (evacceptor_handle_trim (rp_acceptor r) m))"
      using a(1) by (simp add: answered_def evacceptor_handle_trim_def with_acceptor_def t)
    then show ?thesis using PAXOS_TRIM by (simp add: subs dispatched_acceptor [OF ok])
  qed (use ty in simp_all)
qed

lemma dispatch_accepted_message:
  assumes ok: "replica_ok n M r" and room: "replica_room r" and frm: "0 \<le> pr_id x" "pr_id x < n"
    and wf: "value_wf (accepted_value m)"
  shows "dispatched n r (dispatch_subs (ev_call now clk) replica_subs x (PAXOS_ACCEPTED m) r)"
proof -
  obtain ep out where p: "evproposer_handle_accepted (rp_peers r) (clk (rp_calls r)) (rp_proposer r) x m =
        Some (Inr (ep, out))"
      "proposer_inv (ep_state ep)" "p_acceptors (ep_state ep) = n"
    using handle_accepted_returns [OF proposer_ready_replica [OF ok room] frm] unfolding handled_def by blast
  have "learner_inv n M (el_state (rp_learner r))" using ok by (simp add: replica_ok_def)
  then obtain l' outs where l: "evlearner_handle_accepted (rp_learner r) x m = Some (Inr (l', map deliver_call outs))"
      "learner_inv n (insert (m, pr_id x) M) (el_state l')"
    using learner_handler_total [OF _ wf frm] by metis
  have "replica_ok n (insert (m, pr_id x) M)
      (r\<lparr>rp_proposer := ep, rp_calls := Suc (Suc (rp_calls r)), rp_learner := l'\<rparr>)"
    using ok p(2,3) l(2) by (simp add: replica_ok_def)
  then show ?thesis using p(1) l(1)
    by (auto simp: replica_subs_def ev_call_def union_defs on_rp_proposer_def on_rp_learner_def dispatched_def)
qed

lemma dispatch_proposer_messages:
  assumes ok: "replica_ok n M r" and room: "replica_room r" and fits: "message_fits n r x msg"
    and ty: "message_type msg \<in> {TY_PROMISE, TY_PREEMPTED, TY_CLIENT_VALUE, TY_ACCEPTOR_STATE}"
  shows "dispatched n r (dispatch_subs (ev_call now clk) replica_subs x msg r)"
proof -
  obtain a where a: "ea_state (rp_acceptor r) = Some a" using ok by (auto simp: replica_ok_def)
  note rdy = proposer_ready_replica [OF ok room]
  note subs = replica_subs_def dispatch_ends ev_call_def union_defs
  show ?thesis
  proof (cases msg)
    case (PAXOS_PROMISE m)
    then have "0 \<le> pr_id x" "pr_id x < n" "value_wf (promise_value m)"
      using fits a by (simp_all add: message_fits_def)
    note h = handle_promise_returns [OF rdy this]
    show ?thesis using PAXOS_PROMISE by (simp add: subs dispatched_proposer [OF ok h])
  next
    case (PAXOS_PREEMPTED m)
    note h = handle_preempted_returns [OF rdy]
    show ?thesis using PAXOS_PREEMPTED by (simp add: subs dispatched_proposer [OF ok h])
  next
    case (PAXOS_CLIENT_VALUE m)
    then have "value_wf (client_value m)" using fits a by (simp add: message_fits_def)
    note h = handle_client_value_returns [OF rdy this]
    show ?thesis using PAXOS_CLIENT_VALUE by (simp add: subs dispatched_proposer [OF ok h])
  next
    case (PAXOS_ACCEPTOR_STATE m)
    have "handled n (rp_proposer r) (Some (Inr (evproposer_handle_acceptor_state (rp_proposer r) m, [])))"
      using handle_acceptor_state_keeps [OF rdy] by (simp add: handled_def)
    then show ?thesis using PAXOS_ACCEPTOR_STATE by (simp add: subs dispatched_proposer [OF ok])
  qed (use ty in simp_all)
qed

section \<open>Setting up a replica\<close>

lemma subscribe_all_subs:
  "length (ps_subs ps) + length subs \<le> MAX_SUBS \<Longrightarrow>
   subscribe_all ps subs = Inr (ps\<lparr>ps_subs := ps_subs ps @ map (\<lambda>(ty, cb). \<lparr>sub_type = ty, sub_callback = cb\<rparr>) subs\<rparr>)"
  by (induction ps subs rule: subscribe_all.induct) (auto simp: peers_subscribe_def)

definition acceptor_peer :: "(string \<Rightarrow> 32 word) \<Rightarrow> evpaxos_config \<Rightarrow> int \<Rightarrow> nat \<Rightarrow> peer" where
  "acceptor_peer inet_addr c i bev =
     (make_peer i (case evpaxos_acceptor_address inet_addr c i of Inr a \<Rightarrow> a) bev)\<lparr>pr_reconnect_ev := True\<rparr>"

lemma connect_from_all:
  assumes "\<forall>j. i \<le> j \<longrightarrow> j < evpaxos_acceptor_count (ps_config p) \<longrightarrow>
      (\<exists>a. evpaxos_acceptor_address inet_addr (ps_config p) j = Inr a)"
    and "i + int (length bevs) \<le> evpaxos_acceptor_count (ps_config p)"
  shows "\<exists>out. connect_from inet_addr cfg p i bevs =
    Inr (p\<lparr>ps_peers := ps_peers p @ map (\<lambda>j. acceptor_peer inet_addr (ps_config p) (i + int j) (bevs ! j)) [0..<length bevs]\<rparr>, out)"
  using assms
proof (induction bevs arbitrary: p i)
  case (Cons bev bevs)
  let ?c = "ps_config p"
  obtain a where a: "evpaxos_acceptor_address inet_addr ?c i = Inr a" using Cons(2,3) by fastforce
  define x where "x = acceptor_peer inet_addr ?c i bev"
  have pc: "fst (peers_connect cfg p i a bev) = p\<lparr>ps_peers := ps_peers p @ [x]\<rparr>"
    by (simp add: peers_connect_def x_def acceptor_peer_def a Let_def)
  then obtain o1 where pc: "peers_connect cfg p i a bev = (p\<lparr>ps_peers := ps_peers p @ [x]\<rparr>, o1)"
    by (metis prod.collapse)
  have "[0..<length (bev # bevs)] = 0 # map Suc [0..<length bevs]"
    by (simp add: map_Suc_upt upt_conv_Cons del: upt_Suc)
  then have l: "map (\<lambda>j. acceptor_peer inet_addr ?c (i + int j) ((bev # bevs) ! j)) [0..<length (bev # bevs)] =
      x # map (\<lambda>j. acceptor_peer inet_addr ?c (i + 1 + int j) (bevs ! j)) [0..<length bevs]"
    by (simp add: x_def comp_def ac_simps)
  show ?case
    using Cons(1) [of "i + 1" "p\<lparr>ps_peers := ps_peers p @ [x]\<rparr>"] Cons(2,3) unfolding l
    by (auto simp: a pc)
qed simp

lemma config_addresses:
  assumes "config_ok c" and "0 \<le> i" and "i < evpaxos_acceptor_count c"
  shows "\<exists>a. evpaxos_acceptor_address inet_addr c i = Inr a"
    and "\<exists>n. evpaxos_acceptor_listen_port c i = Inr n"
  using entry_available(1) [of i "acceptors_count c" "acceptors c" inet_addr]
    entry_available(2) [of i "acceptors_count c" "acceptors c"] assms
  by (auto simp: config_ok_def evpaxos_acceptor_count_def evpaxos_acceptor_address_def
      evpaxos_acceptor_listen_port_def)

lemma submit_from_find:
  "peers_ok ps \<Longrightarrow> k + n = length (ps_peers ps) \<Longrightarrow>
   submit_from ps (int k) n data sz =
     Inr (case find peer_connected (drop k (ps_peers ps)) of
            None \<Rightarrow> [] | Some p \<Rightarrow> [Net_write (paxos_submit (pr_bev p) data sz)])"
proof (induction n arbitrary: k)
  case (Suc n)
  have k: "k < length (ps_peers ps)" using Suc(3) by simp
  then have g: "peers_get_acceptor ps (int k) = Inr (Some (ps_peers ps ! k))"
    using get_acceptor_placed [OF Suc(2), of "int k"] by (simp add: peers_count_def)
  have d: "drop k (ps_peers ps) = ps_peers ps ! k # drop (Suc k) (ps_peers ps)"
    using k by (simp add: Cons_nth_drop_Suc)
  have "int (Suc k) = int k + 1" by simp
  then show ?case using Suc(1) [of "Suc k"] Suc(2,3) unfolding d
    by (simp add: g peer_get_buffer_def add.commute)
qed simp

text \<open>The replica that a configuration sets up, with the buffers \<open>bevs\<close> for its connections.\<close>

definition replica_peers :: "(string \<Rightarrow> 32 word) \<Rightarrow> evpaxos_config \<Rightarrow> nat list \<Rightarrow> peer list" where
  "replica_peers inet_addr c bevs = map (\<lambda>j. acceptor_peer inet_addr c (int j) (bevs ! j)) [0..<length bevs]"

definition replica_start ::
  "(string \<Rightarrow> 32 word) \<Rightarrow> paxos_config \<Rightarrow> int \<Rightarrow> evpaxos_config \<Rightarrow> nat list \<Rightarrow> replica" where
  "replica_start inet_addr cfg ident c bevs =
     \<lparr>rp_peers = (peers_new c)\<lparr>ps_peers := replica_peers inet_addr c bevs, ps_subs := replica_subs, ps_listener := True\<rparr>,
      rp_acceptor = \<lparr>ea_state = Some (acceptor_start ident), ea_timer_tv = (1, 0)\<rparr>,
      rp_proposer = \<lparr>ep_id = ident, ep_preexec_window = proposer_preexec_window cfg,
        ep_state = proposer_new ident (evpaxos_acceptor_count c), ep_tv = (proposer_timeout cfg, 0)\<rparr>,
      rp_learner = \<lparr>el_state = learner_new cfg (evpaxos_acceptor_count c), el_tv = (0, 100000)\<rparr>, rp_calls = 0\<rparr>"

lemma replica_init_eq:
  assumes "config_ok c" and "0 \<le> ident" and "ident < evpaxos_acceptor_count c"
    and "int (length bevs) = evpaxos_acceptor_count c" and "storage_backend cfg = 0"
  shows "\<exists>out. evpaxos_replica_init inet_addr cfg ident (Some c) bevs True =
    Inr (Some (replica_start inet_addr cfg ident c bevs), out)"
proof -
  define ps :: "ev_cb peers" where "ps = (peers_new c)\<lparr>ps_peers := replica_peers inet_addr c bevs\<rparr>"
  have new: "ps_peers (peers_new c :: ev_cb peers) = []" "ps_config (peers_new c :: ev_cb peers) = c" by (simp_all add: peers_new_def)
  obtain out1 where conn: "peers_connect_to_acceptors inet_addr cfg (peers_new c) bevs = Inr (ps, out1)"
    using connect_from_all [of 0 "peers_new c :: ev_cb peers" inet_addr bevs cfg] config_addresses(1) [OF assms(1)] assms(4)
    by (auto simp: peers_connect_to_acceptors_def new replica_peers_def ps_def)
  obtain port where port: "evpaxos_acceptor_listen_port c ident = Inr port"
    using config_addresses(2) [OF assms(1-3)] by blast
  have subs: "ps_subs ps = []" by (simp add: ps_def peers_new_def)
  note sub = subscribe_all_subs [of _ "[_, _, _, _]"] subscribe_all_subs [of _ "[_, _, _, _, _]"]
  show ?thesis
    using conn port acceptor_start_new [OF assms(5), of ident] subs
    by (simp add: evpaxos_replica_init_def evacceptor_init_internal_def evproposer_init_internal_def
        evlearner_init_internal_def peers_subscribe_def peers_listen_def sub MAX_SUBS_def replica_subs_def Let_def
        replica_start_def ps_def)
qed

lemma replica_peers_ids:
  "map pr_id (replica_peers inet_addr c bevs) = map int [0..<length bevs]"
  "map pr_bev (replica_peers inet_addr c bevs) = bevs"
  by (simp_all add: replica_peers_def acceptor_peer_def make_peer_def comp_def map_nth)

section \<open>Properties\<close>

text \<open>
  C24. Setting up a replica with a configuration that was read succeeds when the port can be
  bound: it is connected to every acceptor of the configuration, in order and with its id, its
  callbacks are subscribed each under the type of the messages it reads, its acceptor,
  proposer and learner are well-formed, and no connection is up yet.
\<close>

theorem replica_init_ready:
  assumes "config_ok c" and "0 \<le> ident" and "ident < evpaxos_acceptor_count c"
    and "int (length bevs) = evpaxos_acceptor_count c" and "storage_backend cfg = 0"
  shows "\<exists>r out. evpaxos_replica_init inet_addr cfg ident (Some c) bevs True = Inr (Some r, out) \<and>
    ps_subs (rp_peers r) = replica_subs \<and>
    map pr_id (ps_peers (rp_peers r)) = map int [0..<acceptors_count c] \<and>
    map pr_bev (ps_peers (rp_peers r)) = bevs \<and>
    (\<forall>x \<in> set (ps_peers (rp_peers r)). \<not> peer_connected x) \<and>
    replica_ok (evpaxos_acceptor_count c) {} r \<and>
    (nat (proposer_preexec_window cfg) < 2 ^ 32 \<longrightarrow> replica_room r)"
proof -
  let ?n = "evpaxos_acceptor_count c" and ?r = "replica_start inet_addr cfg ident c bevs"
  have "\<forall>x \<in> set (ps_peers (rp_peers ?r)). \<not> peer_connected x"
    by (auto simp: replica_start_def replica_peers_def acceptor_peer_def make_peer_def peer_connected_def
        BEV_EVENT_EOF_def BEV_EVENT_CONNECTED_def)
  moreover have "acceptor_wf (acceptor_start ident)"
    by (simp add: acceptor_wf_def acceptor_start_def mem_init_ok)
  then have "replica_ok ?n {} ?r"
    using assms(2,3) by (simp add: replica_ok_def replica_start_def proposer_new_inv learner_inv_new) (simp add: proposer_new_def)
  moreover have "nat (proposer_preexec_window cfg) < 2 ^ 32 \<longrightarrow> replica_room ?r"
    by (simp add: replica_room_def replica_start_def proposer_new_def)
  moreover have "length bevs = acceptors_count c" using assms(4) by (simp add: evpaxos_acceptor_count_def)
  ultimately show ?thesis
    using replica_init_eq [OF assms, of inet_addr]
    by (auto simp: replica_start_def replica_peers_ids)
qed

definition one_acceptor :: evpaxos_config where
  "one_acceptor = empty_config\<lparr>acceptors_count := 1,
     acceptors := (acceptors empty_config)[0 := \<lparr>addr_addr = Some ''127.0.0.1'', addr_port = 8800\<rparr>]\<rparr>"

theorem replica_init_ready_witness:
  "\<exists>r out. evpaxos_replica_init (\<lambda>_. 0x7f000001) default_config 0 (Some one_acceptor) [4] True = Inr (Some r, out) \<and>
     map pr_bev (ps_peers (rp_peers r)) = [4] \<and> replica_ok 1 {} r \<and> replica_room r"
proof -
  have ok: "config_ok one_acceptor"
    by (simp add: one_acceptor_def config_ok_def empty_config_def MAX_N_OF_PROPOSERS_def)
  have n: "evpaxos_acceptor_count one_acceptor = 1" by (simp add: evpaxos_acceptor_count_def one_acceptor_def)
  have b: "storage_backend default_config = 0" "proposer_preexec_window default_config = 128"
    by (simp_all add: default_config_def)
  show ?thesis using replica_init_ready [OF ok, of 0 "[4]" default_config "\<lambda>_. 0x7f000001"] n b by auto
qed

text \<open>
  C19. No message takes a replica down: when a well-formed replica with instance numbers left
  gets a message with well-formed values, with an acceptor as the sender of a vote, an instance
  its acceptor can still read and a repeat range below the largest number, every callback
  returns, none reads the wrong member of the union, no assertion fails, no access is out of
  bounds, and the replica is well-formed afterwards, with the same connections.
\<close>

theorem replica_handles_message:
  assumes "replica_ok n M r" and "replica_room r" and "message_fits n r x msg"
  shows "\<exists>r' out M'. dispatch_message (ev_call now clk) replica_subs x (Some msg) r = Some (Inr (r', out)) \<and>
    replica_ok n M' r' \<and> rp_peers r' = rp_peers r"
proof -
  have "dispatched n r (dispatch_subs (ev_call now clk) replica_subs x msg r)"
  proof (cases msg)
    case (PAXOS_ACCEPTED m)
    then have "0 \<le> pr_id x" "pr_id x < n" "value_wf (accepted_value m)"
      using assms(3) by (simp_all add: message_fits_def split: option.splits)
    then show ?thesis using dispatch_accepted_message [OF assms(1,2)] PAXOS_ACCEPTED by simp
  qed (use dispatch_acceptor_messages [OF assms(1,3)] dispatch_proposer_messages [OF assms] in simp_all)
  then show ?thesis by (simp add: dispatched_def dispatch_message_def)
qed

definition replica_demo :: replica where
  "replica_demo = \<lparr>rp_peers = peers_new one_acceptor,
     rp_acceptor = \<lparr>ea_state = Some fresh_acceptor, ea_timer_tv = (1, 0)\<rparr>,
     rp_proposer = ev_pdemo, rp_learner = \<lparr>el_state = learner_new default_config 3, el_tv = (0, 100000)\<rparr>, rp_calls = 0\<rparr>"

theorem replica_handles_message_witness:
  "\<exists>r' out. dispatch_message (ev_call (\<lambda>_. pdemo_time) (\<lambda>_ _. pdemo_time)) replica_subs peer_demo
     (Some (PAXOS_PREPARE \<lparr>prepare_iid = 1, prepare_ballot = 10\<rparr>)) replica_demo = Some (Inr (r', out))"
proof -
  have e: "p_acceptors (ep_state ev_pdemo) = 3" "p_next_prepare_iid (ep_state ev_pdemo) = 0"
      "ep_preexec_window ev_pdemo = 2" "proposer_inv (ep_state ev_pdemo)"
    by (simp_all add: ev_pdemo_def proposer_new_inv) (simp_all add: proposer_new_def)
  have ok: "replica_ok 3 {} replica_demo"
    by (simp add: replica_ok_def replica_demo_def fresh_acceptor_wf learner_inv_new e)
  have room: "replica_room replica_demo" by (simp add: replica_room_def replica_demo_def e)
  have "message_fits 3 replica_demo peer_demo (PAXOS_PREPARE \<lparr>prepare_iid = 1, prepare_ballot = 10\<rparr>)"
    using fresh_acceptor_record [of 1]
    by (simp add: message_fits_def replica_demo_def answerable_def acceptor_serves_def)
  from replica_handles_message [OF ok room this] show ?thesis by blast
qed

text \<open>
  Submitting a value sends it, once, to the first acceptor whose connection is up, and to
  nobody when none is.
\<close>

theorem submit_first_connected:
  assumes "peers_ok (rp_peers r)"
  shows "evpaxos_replica_submit r data sz =
    Inr (case find peer_connected (ps_peers (rp_peers r)) of
           None \<Rightarrow> [] | Some p \<Rightarrow> [Net_write (paxos_submit (pr_bev p) data sz)])"
  using submit_from_find [OF assms, of 0] by (simp add: evpaxos_replica_submit_def peers_count_def)

definition connected_demo :: "ev_cb peers" where
  "connected_demo = foldl (conn_exec default_config) (peers_new one_acceptor)
     [Conn_connect \<lparr>sin_port = 1, sin_addr = 0\<rparr> 11, Conn_connect \<lparr>sin_port = 2, sin_addr = 0\<rparr> 12,
      Conn_peer 1 BEV_EVENT_CONNECTED 0]"

theorem submit_first_connected_witness:
  "evpaxos_replica_submit (replica_demo\<lparr>rp_peers := connected_demo\<rparr>) [7] 1 = Inr [Net_write (paxos_submit 12 [7] 1)]"
proof -
  have ok: "peers_ok connected_demo" unfolding connected_demo_def by (rule conn_run_ok [OF peers_new_ok])
  have "find peer_connected (ps_peers connected_demo) =
      Some ((make_peer 1 \<lparr>sin_port = 2, sin_addr = 0\<rparr> 12)\<lparr>pr_reconnect_ev := True, pr_status := BEV_EVENT_CONNECTED\<rparr>)"
    by (simp add: connected_demo_def peers_new_def peers_connect_def peers_count_def on_peer_event_def
        make_peer_def peer_connected_def BEV_EVENT_CONNECTED_def BEV_EVENT_EOF_def Let_def)
  then show ?thesis
    using submit_first_connected [of "replica_demo\<lparr>rp_peers := connected_demo\<rparr>" "[7]" 1] ok
    by (simp add: make_peer_def)
qed

end
