(* ===== verification/EvSystem.thy ===== *)
theory EvSystem
  imports PaxosSafety EvReplica
begin

text \<open>
  Replicas that run the handlers of \<open>evpaxos/\<close> on the messages they write to each other. A
  message is on the network when the packer calls of a write describe an object that unpacks to
  it; it may be read any number of times, late, or never. What is written on a connection to
  an acceptor can be read on a client connection of some replica, and what an acceptor writes to
  a client can be read on a connection to that acceptor. Every message is served, repeat requests
  of learners that catch up included.

  Runs in which no ballot has wrapped around \<open>2 ^ 32\<close> (\<open>no_wrap\<close>) and no acceptor has answered a
  repeat request with a ballot above the one at which it accepted the value (\<open>no_overclaim\<close>, the
  defect that \<open>repeat_breaks_agreement\<close> shows) are shown to be runs of \<open>PaxosSystem\<close>, so that
  replicas deliver the same values in them. A repeat request is then no step at all: what the
  acceptor answers it has sent before (\<open>records_sent\<close>).
\<close>

section \<open>What a handler has written\<close>

text \<open>The message of a write, and \<open>None\<close> where the reader could not unpack one.\<close>

definition decode_write :: "pack_call list \<Rightarrow> paxos_message option" where
  "decode_write calls =
     (case array_object calls of
        None \<Rightarrow> None
      | Some obj \<Rightarrow> (case msgpack_unpack_paxos_message obj of Inl e \<Rightarrow> None | Inr m \<Rightarrow> m))"

fun written :: "nat list \<Rightarrow> net_action \<Rightarrow> paxos_message option" where
  "written bufs (Net_write (buf, calls)) = (if buf \<in> set bufs then decode_write calls else None)"
| "written bufs _ = None"

definition sent_on :: "nat list \<Rightarrow> net_action list \<Rightarrow> paxos_message list" where
  "sent_on bufs out = List.map_filter (written bufs) out"

fun delivery :: "net_action \<Rightarrow> (iid_t \<times> byte list option \<times> int) option" where
  "delivery (App_deliver iid v len) = Some (iid, v, len)"
| "delivery _ = None"

text \<open>A ballot that wraps around starts again below \<open>MAX_N_OF_PROPOSERS\<close>.\<close>

fun ballot_high :: "paxos_message \<Rightarrow> bool" where
  "ballot_high (PAXOS_PREPARE m) \<longleftrightarrow> MAX_N_OF_PROPOSERS \<le> unat (prepare_ballot m)"
| "ballot_high _ \<longleftrightarrow> True"

text \<open>An accepted message for the ballot at which its value was accepted.\<close>

fun ballot_accepted :: "paxos_message \<Rightarrow> bool" where
  "ballot_accepted (PAXOS_ACCEPTED m) \<longleftrightarrow> accepted_ballot m = accepted_value_ballot m"
| "ballot_accepted _ \<longleftrightarrow> True"

section \<open>States and events\<close>

text \<open>
  The replicas by id, the messages written to acceptors, the messages acceptors have written to
  their clients, the values clients have submitted, and what the replicas have delivered.
\<close>

record ev_system =
  es_replicas :: "int \<Rightarrow> replica"
  es_requests :: "paxos_message set"
  es_replies :: "(int \<times> paxos_message) set"
  es_submitted :: "byte list set"
  es_delivered :: "(int \<times> iid_t \<times> byte list option \<times> int) set"

text \<open>
  A replica reads a message from a client, or from the acceptor of a connection, with the
  readings of the clock; a process that is no replica submits a value; a replica submits a value
  or a trim request; the timers; the connection events of a replica.
\<close>

datatype ev_event =
    EV_request int nat paxos_message "nat \<Rightarrow> timeval" "nat \<Rightarrow> nat \<Rightarrow> timeval"
  | EV_reply int nat paxos_message "nat \<Rightarrow> timeval" "nat \<Rightarrow> nat \<Rightarrow> timeval"
  | EV_client "byte list"
  | EV_submit int "byte list"
  | EV_trim int iid_t
  | EV_timeouts int timeval
  | EV_preexec int "nat \<Rightarrow> timeval"
  | EV_holes int
  | EV_state int
  | EV_connection int conn_event

definition peer_bufs :: "replica \<Rightarrow> nat list" where
  "peer_bufs r = map pr_bev (ps_peers (rp_peers r))"

definition client_bufs :: "replica \<Rightarrow> nat list" where
  "client_bufs r = map pr_bev (ps_clients (rp_peers r))"

text \<open>Replica \<open>i\<close> has become \<open>r\<close> and done \<open>out\<close>.\<close>

definition ev_commit :: "int \<Rightarrow> replica \<Rightarrow> net_action list \<Rightarrow> ev_system \<Rightarrow> ev_system" where
  "ev_commit i r out s =
     s\<lparr>es_replicas := (es_replicas s)(i := r),
       es_requests := es_requests s \<union> set (sent_on (peer_bufs r) out),
       es_replies := es_replies s \<union> Pair i ` set (sent_on (client_bufs r) out),
       es_delivered := es_delivered s \<union> Pair i ` set (List.map_filter delivery out)\<rparr>"

definition ev_returns :: "int \<Rightarrow> (replica \<times> net_action list) run \<Rightarrow> ev_system \<Rightarrow> ev_system option" where
  "ev_returns i res s = (case res of Some (Inr (r, out)) \<Rightarrow> Some (ev_commit i r out s) | _ \<Rightarrow> None)"

text \<open>
  Two conditions on what is on the network; what has been written stays, so that a state that
  meets them has only met them before.
\<close>

definition no_wrap :: "ev_system \<Rightarrow> bool" where
  "no_wrap s \<longleftrightarrow> (\<forall>m \<in> es_requests s. ballot_high m)"

definition no_overclaim :: "ev_system \<Rightarrow> bool" where
  "no_overclaim s \<longleftrightarrow> (\<forall>(i, m) \<in> es_replies s. ballot_accepted m)"

text \<open>A buffer that libevent hands out is not in use.\<close>

fun fresh_buffer :: "replica \<Rightarrow> conn_event \<Rightarrow> bool" where
  "fresh_buffer r (Conn_accept fd addr bev) = (bev \<notin> set (peer_bufs r @ client_bufs r))"
| "fresh_buffer r (Conn_peer k ev bev) = (bev \<notin> set (peer_bufs r @ client_bufs r))"
| "fresh_buffer r (Conn_client k ev) = True"
| "fresh_buffer r (Conn_connect addr bev) = False"

text \<open>
  One event of \<open>n\<close> replicas. \<open>None\<close> is an event that cannot happen, or a handler that fails or
  does not return.
\<close>

fun ev_exec :: "paxos_config \<Rightarrow> int \<Rightarrow> ev_system \<Rightarrow> ev_event \<Rightarrow> ev_system option" where
  "ev_exec cfg n s (EV_request i k m now clk) =
     (let r = es_replicas s i; ps = rp_peers r in
      if 0 \<le> i \<and> i < n \<and> m \<in> es_requests s \<and> k < length (ps_clients ps)
      then ev_returns i (dispatch_message (ev_call now clk) (ps_subs ps) (ps_clients ps ! k) (Some m) r) s
      else None)"
| "ev_exec cfg n s (EV_reply i k m now clk) =
     (let r = es_replicas s i; ps = rp_peers r in
      if 0 \<le> i \<and> i < n \<and> (int k, m) \<in> es_replies s \<and> k < length (ps_peers ps)
      then ev_returns i (dispatch_message (ev_call now clk) (ps_subs ps) (ps_peers ps ! k) (Some m) r) s
      else None)"
| "ev_exec cfg n s (EV_client data) =
     (if data \<noteq> []
      then Some (s\<lparr>es_requests := es_requests s \<union>
               set_option (written [0] (Net_write (paxos_submit 0 data (int (length data))))),
             es_submitted := insert data (es_submitted s)\<rparr>)
      else None)"
| "ev_exec cfg n s (EV_submit i data) =
     (let r = es_replicas s i in
      if 0 \<le> i \<and> i < n \<and> data \<noteq> []
      then (case evpaxos_replica_submit r data (int (length data)) of
              Inl e \<Rightarrow> None
            | Inr out \<Rightarrow> Some (ev_commit i r out (s\<lparr>es_submitted := insert data (es_submitted s)\<rparr>)))
      else None)"
| "ev_exec cfg n s (EV_trim i iid) =
     (let r = es_replicas s i in
      if 0 \<le> i \<and> i < n then Some (ev_commit i r (evpaxos_replica_send_trim r iid) s) else None)"
| "ev_exec cfg n s (EV_timeouts i now) =
     (let r = es_replicas s i in
      if 0 \<le> i \<and> i < n
      then ev_returns i (on_rp_proposer r (evproposer_check_timeouts cfg (rp_peers r) now (rp_proposer r))) s
      else None)"
| "ev_exec cfg n s (EV_preexec i clk) =
     (let r = es_replicas s i in
      if 0 \<le> i \<and> i < n
      then ev_returns i (on_rp_proposer r (evproposer_preexec_once (rp_peers r) clk (rp_proposer r))) s
      else None)"
| "ev_exec cfg n s (EV_holes i) =
     (let r = es_replicas s i in
      if 0 \<le> i \<and> i < n then Some (ev_commit i r (evlearner_check_holes (rp_peers r) (rp_learner r)) s) else None)"
| "ev_exec cfg n s (EV_state i) =
     (let r = es_replicas s i in
      if 0 \<le> i \<and> i < n
      then (case send_acceptor_state (rp_peers r) (rp_acceptor r) of
              Inl e \<Rightarrow> None
            | Inr out \<Rightarrow> Some (ev_commit i r out s))
      else None)"
| "ev_exec cfg n s (EV_connection i ce) =
     (let r = es_replicas s i in
      if 0 \<le> i \<and> i < n \<and> fresh_buffer r ce
      then Some (s\<lparr>es_replicas := (es_replicas s)(i := r\<lparr>rp_peers := conn_exec cfg (rp_peers r) ce\<rparr>)\<rparr>)
      else None)"

text \<open>The replicas that one configuration sets up, each with buffers of its own.\<close>

definition ev_start ::
  "(string \<Rightarrow> 32 word) \<Rightarrow> paxos_config \<Rightarrow> evpaxos_config \<Rightarrow> (int \<Rightarrow> nat list) \<Rightarrow> ev_system" where
  "ev_start inet_addr cfg c bevs =
     \<lparr>es_replicas = (\<lambda>i. replica_start inet_addr cfg i c (bevs i)), es_requests = {}, es_replies = {},
      es_submitted = {}, es_delivered = {}\<rparr>"

inductive ev_reachable ::
  "(string \<Rightarrow> 32 word) \<Rightarrow> paxos_config \<Rightarrow> evpaxos_config \<Rightarrow> (int \<Rightarrow> nat list) \<Rightarrow> ev_system \<Rightarrow> bool"
  for inet_addr cfg c bevs where
  ev_init: "ev_reachable inet_addr cfg c bevs (ev_start inet_addr cfg c bevs)"
| ev_step: "ev_reachable inet_addr cfg c bevs s \<Longrightarrow> ev_exec cfg (evpaxos_acceptor_count c) s e = Some s' \<Longrightarrow>
    ev_reachable inet_addr cfg c bevs s'"

fun ev_run :: "paxos_config \<Rightarrow> int \<Rightarrow> ev_system \<Rightarrow> ev_event list \<Rightarrow> ev_system option" where
  "ev_run cfg n s [] = Some s"
| "ev_run cfg n s (e # es) = (case ev_exec cfg n s e of None \<Rightarrow> None | Some s' \<Rightarrow> ev_run cfg n s' es)"

lemma ev_run_reachable:
  "ev_reachable inet_addr cfg c bevs s \<Longrightarrow> ev_run cfg (evpaxos_acceptor_count c) s es = Some s' \<Longrightarrow>
   ev_reachable inet_addr cfg c bevs s'"
  by (induction cfg "evpaxos_acceptor_count c" s es rule: ev_run.induct)
    (auto split: option.splits intro: ev_reachable.ev_step)

section \<open>Messages on the wire\<close>

fun message_wf :: "paxos_message \<Rightarrow> bool" where
  "message_wf (PAXOS_PROMISE m) = value_wf (promise_value m)"
| "message_wf (PAXOS_ACCEPT m) = value_wf (accept_value m)"
| "message_wf (PAXOS_ACCEPTED m) = value_wf (accepted_value m)"
| "message_wf (PAXOS_CLIENT_VALUE m) = value_wf (client_value m)"
| "message_wf _ = True"

lemma pack_large_value:
  assumes "value_wf v" and "\<not> value_sendable v"
  shows "msgpack_pack_paxos_value v = [Pack_raw (paxos_value_len v), Pack_raw_body (case paxos_value_val v of None \<Rightarrow> [] | Some bs \<Rightarrow> bs)]"
    and "\<not> paxos_value_len v < 2147483648"
  using assms by (auto simp: msgpack_pack_paxos_value_def msgpack_pack_string_def value_sendable_def value_wf_def
      split: option.splits)

text \<open>A value that is too long for the format makes a message nobody can unpack.\<close>

lemma decode_unsendable:
  assumes "message_wf m" and "\<not> sendable m"
  shows "decode_write (msgpack_pack_paxos_message m) = None"
  using assms
  by (cases m) (auto simp: decode_write_def array_object_def pack_defs pack_type_def pack_large_value)

lemma decode_wire:
  assumes "message_wf m" and "decode_write (msgpack_pack_paxos_message m) = Some m'"
  shows "m' = wire_message m"
proof (cases "sendable m")
  case True
  then obtain xs where "array_object (msgpack_pack_paxos_message m) = Some (Obj_array xs)"
    "msgpack_unpack_paxos_message (Obj_array xs) = Inr (Some (wire_message m))" by (rule object_of_message)
  then show ?thesis using assms(2) by (simp add: decode_write_def)
qed (use decode_unsendable assms in simp)

lemma message_type_wire [simp]: "message_type (wire_message m) = message_type m"
  by (cases m) simp_all

lemma wire_with_bytes: "has_bytes v \<Longrightarrow> wire_value v = v"
  by (simp add: wire_value_def has_bytes_def)

text \<open>The proposer does not look at the bytes of an empty value.\<close>

lemma receive_wire_promise:
  "proposer_receive_promise p (m\<lparr>promise_value := wire_value (promise_value m)\<rparr>) a now =
   proposer_receive_promise p m a now"
proof -
  have "promise_value_saved inst (m\<lparr>promise_value := wire_value (promise_value m)\<rparr>) = promise_value_saved inst m" for inst
    by (simp add: promise_value_saved_def wire_value_def null_value_def)
  then show ?thesis by (simp add: proposer_receive_promise_def Let_def split: option.split sum.split prod.split)
qed

lemma written_Some:
  "written bufs a = Some m \<longleftrightarrow> (\<exists>w. a = Net_write w \<and> fst w \<in> set bufs \<and> decode_write (snd w) = Some m)"
proof (cases a)
  case (Net_write w)
  then show ?thesis by (cases w) simp
qed simp_all

lemma in_map_filter: "y \<in> set (List.map_filter f xs) \<longleftrightarrow> (\<exists>x \<in> set xs. f x = Some y)"
  by (induction xs) (auto simp: map_filter_simps split: option.splits)

lemma mem_sent_on:
  "m \<in> set (sent_on bufs out) \<longleftrightarrow>
   (\<exists>w. Net_write w \<in> set out \<and> fst w \<in> set bufs \<and> decode_write (snd w) = Some m)"
  unfolding sent_on_def in_map_filter written_Some by blast

lemma mem_delivery:
  "x \<in> set (List.map_filter delivery out) \<longleftrightarrow>
   (\<exists>iid v len. App_deliver iid v len \<in> set out \<and> x = (iid, v, len))"
proof -
  have d: "delivery a = Some x \<longleftrightarrow> (\<exists>iid v len. a = App_deliver iid v len \<and> x = (iid, v, len))" for a
    by (cases a) auto
  show ?thesis unfolding in_map_filter d by blast
qed

section \<open>Steps of the abstract system\<close>

definition reaches :: "int \<Rightarrow> paxos_system \<Rightarrow> paxos_system \<Rightarrow> bool" where
  "reaches n t t' \<longleftrightarrow> (\<exists>es. sys_run False n t es = Some t')"

lemma sys_run_append:
  "sys_run rep n t (es @ es') = (case sys_run rep n t es of None \<Rightarrow> None | Some t' \<Rightarrow> sys_run rep n t' es')"
  by (induction rep n t es rule: sys_run.induct) (auto split: option.splits)

lemma reaches_refl: "reaches n t t"
  unfolding reaches_def by (rule exI [of _ "[]"]) simp

lemma reaches_trans: "reaches n t t1 \<Longrightarrow> reaches n t1 t2 \<Longrightarrow> reaches n t t2"
  by (auto simp: reaches_def) (metis option.simps(5) sys_run_append)

lemma reaches_step: "sys_exec False n t e = Some t' \<Longrightarrow> reaches n t t'"
  unfolding reaches_def by (rule exI [of _ "[e]"]) simp

lemma reaches_reachable: "reachable False cfg n t \<Longrightarrow> reaches n t t' \<Longrightarrow> reachable False cfg n t'"
  using run_reachable by (auto simp: reaches_def)

text \<open>
  What stands behind a message before it goes through the wire: a request, with the values that
  were submitted, and a reply of acceptor \<open>a\<close>.
\<close>

fun asked :: "paxos_system \<Rightarrow> byte list set \<Rightarrow> paxos_message \<Rightarrow> bool" where
  "asked t B (PAXOS_PREPARE m) \<longleftrightarrow> m \<in> sys_prepares t"
| "asked t B (PAXOS_ACCEPT m) \<longleftrightarrow> (\<exists>i. (m, i) \<in> sys_accepts t)"
| "asked t B (PAXOS_REPEAT m) \<longleftrightarrow> True"
| "asked t B (PAXOS_TRIM m) \<longleftrightarrow> True"
| "asked t B (PAXOS_CLIENT_VALUE m) \<longleftrightarrow>
     (\<exists>data \<in> B. data \<noteq> [] \<and> client_value m = paxos_value_new data (int (length data)))"
| "asked t B _ \<longleftrightarrow> False"

fun replied :: "paxos_system \<Rightarrow> int \<Rightarrow> paxos_message \<Rightarrow> bool" where
  "replied t a (PAXOS_PROMISE m) \<longleftrightarrow> (m, a) \<in> sys_promises t"
| "replied t a (PAXOS_ACCEPTED m) \<longleftrightarrow> (m, a) \<in> sys_accepteds t"
| "replied t a (PAXOS_PREEMPTED m) \<longleftrightarrow> m \<in> sys_preempteds t"
| "replied t a (PAXOS_ACCEPTOR_STATE m) \<longleftrightarrow> True"
| "replied t a _ \<longleftrightarrow> False"

lemma asked_wf: "sys_inv n t \<Longrightarrow> asked t B m \<Longrightarrow> message_wf m"
  using history_okD(2) [OF sys_invD(1)]
  by (cases m) (auto simp: accept_ok_def value_wf_new)

lemma replied_wf: "sys_inv n t \<Longrightarrow> replied t a m \<Longrightarrow> message_wf m"
  using history_okD(1,3) [OF sys_invD(1)]
  by (cases m) (auto simp: promise_ok_def accepted_ok_def)

lemma asked_accept_bytes: "sys_inv n t \<Longrightarrow> (m, i) \<in> sys_accepts t \<Longrightarrow> has_bytes (accept_value m)"
  using history_okD(2) [OF sys_invD(1)] by (auto simp: accept_ok_def)

lemma replied_accepted_bytes: "sys_inv n t \<Longrightarrow> (m, a) \<in> sys_accepteds t \<Longrightarrow> has_bytes (accepted_value m)"
  using history_okD(3) [OF sys_invD(1)] asked_accept_bytes by (auto simp: accepted_ok_def) metis

section \<open>What a proposer does\<close>

text \<open>Timers aside, \<open>out\<close> writes requests that were made, on connections of \<open>xs\<close>.\<close>

fun silent :: "net_action \<Rightarrow> bool" where
  "silent (Net_write w) \<longleftrightarrow> False"
| "silent (App_deliver iid v len) \<longleftrightarrow> False"
| "silent _ \<longleftrightarrow> True"

definition asks :: "paxos_system \<Rightarrow> byte list set \<Rightarrow> peer list \<Rightarrow> net_action list \<Rightarrow> bool" where
  "asks t B xs out \<longleftrightarrow>
     (\<forall>a \<in> set out. silent a \<or> (\<exists>x \<in> set xs. \<exists>m. asked t B m \<and> a = Net_write (send_paxos_message (pr_bev x) m)))"

lemma asked_mono:
  "asked t B m \<Longrightarrow> sys_prepares t \<subseteq> sys_prepares t' \<Longrightarrow> sys_accepts t \<subseteq> sys_accepts t' \<Longrightarrow> asked t' B m"
  by (cases m) auto

lemma asks_mono:
  "asks t B xs out \<Longrightarrow> sys_prepares t \<subseteq> sys_prepares t' \<Longrightarrow> sys_accepts t \<subseteq> sys_accepts t' \<Longrightarrow> asks t' B xs out"
  using asked_mono unfolding asks_def by blast

lemma asks_simps [simp]:
  "asks t B xs []"
  "asks t B xs (out @ out') \<longleftrightarrow> asks t B xs out \<and> asks t B xs out'"
  "asks t B xs [Net_timer_add k a b]"
  by (auto simp: asks_def)

lemma asks_all:
  "m \<in> sys_prepares t \<Longrightarrow> asks t B (ps_peers ps) (send_prepare_all ps m)"
  "(a, i) \<in> sys_accepts t \<Longrightarrow> asks t B (ps_peers ps) (send_accept_all ps a)"
proof -
  show "m \<in> sys_prepares t \<Longrightarrow> asks t B (ps_peers ps) (send_prepare_all ps m)"
    unfolding asks_def send_prepare_all_def peers_foreach_acceptor_def peer_send_prepare_def send_paxos_prepare_def
      peer_get_buffer_def
    by (intro ballI disjI2) (auto intro!: bexI exI [of _ "PAXOS_PREPARE m"])
  show "(a, i) \<in> sys_accepts t \<Longrightarrow> asks t B (ps_peers ps) (send_accept_all ps a)"
    unfolding asks_def send_accept_all_def peers_foreach_acceptor_def peer_send_accept_def send_paxos_accept_def
      peer_get_buffer_def
    by (intro ballI disjI2) (auto intro!: bexI exI [of _ "PAXOS_ACCEPT a"])
qed

text \<open>The abstract system has moved from \<open>t\<close> to \<open>t'\<close>; only proposer \<open>i\<close> and its requests have changed.\<close>

definition values_of :: "byte list set \<Rightarrow> paxos_value set" where
  "values_of B = (\<lambda>data. paxos_value_new data (int (length data))) ` B"

definition pmoves ::
  "int \<Rightarrow> byte list set \<Rightarrow> int \<Rightarrow> peer list \<Rightarrow> paxos_system \<Rightarrow> net_action list \<Rightarrow> paxos_system \<Rightarrow> bool" where
  "pmoves n B i xs t out t' \<longleftrightarrow>
     reaches n t t' \<and>
     sys_acceptors t' = sys_acceptors t \<and> sys_learners t' = sys_learners t \<and> sys_promises t' = sys_promises t \<and>
     sys_accepteds t' = sys_accepteds t \<and> sys_preempteds t' = sys_preempteds t \<and>
     sys_delivered t' = sys_delivered t \<and> (\<forall>j. j \<noteq> i \<longrightarrow> sys_proposers t' j = sys_proposers t j) \<and>
     sys_prepares t \<subseteq> sys_prepares t' \<and> sys_accepts t \<subseteq> sys_accepts t' \<and>
     sys_proposed t' \<subseteq> sys_proposed t \<union> values_of B \<and> asks t' B xs out"

lemma pmoves_refl: "pmoves n B i xs t [] t"
  by (simp add: pmoves_def reaches_refl)

lemma pmoves_trans:
  assumes "pmoves n B i xs t o1 t1" and "pmoves n B i xs t1 o2 t2"
  shows "pmoves n B i xs t (o1 @ o2) t2"
proof -
  have "reaches n t t2" using assms reaches_trans [of n t t1 t2] unfolding pmoves_def by blast
  moreover have "asks t2 B xs o1"
    by (rule asks_mono [of t1]) (use assms in \<open>simp_all add: pmoves_def\<close>)
  ultimately show ?thesis using assms unfolding pmoves_def by auto
qed

text \<open>One event of proposer \<open>i\<close> that sends a prepare request, or an accept request, or nothing.\<close>

definition sends_prepare :: "'cb peers \<Rightarrow> paxos_prepare option \<Rightarrow> net_action list" where
  "sends_prepare ps pr = (case pr of None \<Rightarrow> [] | Some m \<Rightarrow> send_prepare_all ps m)"

definition sends_accept :: "'cb peers \<Rightarrow> paxos_accept option \<Rightarrow> net_action list" where
  "sends_accept ps ar = (case ar of None \<Rightarrow> [] | Some m \<Rightarrow> send_accept_all ps m)"

lemma pmoves_prepare_event:
  assumes "sys_exec False n t e = Some (sys_send_prepare pr (set_proposer i p t))"
  shows "\<exists>t'. pmoves n B i (ps_peers ps) t (sends_prepare ps pr) t' \<and> sys_proposers t' i = p"
  using assms reaches_step [OF assms]
  by (intro exI [of _ "sys_send_prepare pr (set_proposer i p t)"])
    (cases pr, auto simp: pmoves_def sends_prepare_def sys_send_prepare_def asks_all)

lemma pmoves_accept_event:
  assumes "sys_exec False n t e = Some (sys_send_accept i ar (set_proposer i p t))"
  shows "\<exists>t'. pmoves n B i (ps_peers ps) t (sends_accept ps ar) t' \<and> sys_proposers t' i = p"
proof -
  let ?t' = "sys_send_accept i ar (set_proposer i p t)"
  have "asks ?t' B (ps_peers ps) (sends_accept ps ar)"
    by (cases ar) (auto simp: sends_accept_def intro: asks_all(2) [where i = i])
  then show ?thesis
    using reaches_step [OF assms]
    by (intro exI [of _ ?t']) (cases ar, auto simp: pmoves_def sys_send_accept_def)
qed

lemma pmoves_quiet_event:
  assumes "sys_exec False n t e = Some (set_proposer i p t)"
  shows "\<exists>t'. pmoves n B i xs t [] t' \<and> sys_proposers t' i = p"
  using reaches_step [OF assms] by (intro exI [of _ "set_proposer i p t"]) (simp add: pmoves_def)

lemma pmoves_then:
  assumes "\<exists>t1. pmoves n B i xs t o1 t1 \<and> sys_proposers t1 i = p1"
    and "\<And>t1. sys_proposers t1 i = p1 \<Longrightarrow> \<exists>t2. pmoves n B i xs t1 o2 t2 \<and> sys_proposers t2 i = p2"
  shows "\<exists>t2. pmoves n B i xs t (o1 @ o2) t2 \<and> sys_proposers t2 i = p2"
proof -
  obtain t1 where t1: "pmoves n B i xs t o1 t1" "sys_proposers t1 i = p1" using assms(1) by blast
  obtain t2 where "pmoves n B i xs t1 o2 t2" "sys_proposers t2 i = p2" using assms(2) [OF t1(2)] by blast
  then show ?thesis using pmoves_trans [OF t1(1)] by blast
qed

lemma pmoves_none: "\<exists>t'. pmoves n B i xs t [] t' \<and> sys_proposers t' i = sys_proposers t i"
  using pmoves_refl by blast

section \<open>The loops of the proposer process\<close>

lemma preexec_loop_moves:
  "proposer_id_ok i \<Longrightarrow> preexec_loop ps clk j k (sys_proposers t i) = Inr (p, out) \<Longrightarrow>
   \<exists>t'. pmoves n B i (ps_peers ps) t out t' \<and> sys_proposers t' i = p"
proof (induction k arbitrary: j t out)
  case 0
  then show ?case using pmoves_none by auto
next
  case (Suc k)
  obtain p1 pr o2 where p1: "proposer_prepare (sys_proposers t i) (clk j) = Inr (p1, pr)"
    "preexec_loop ps clk (Suc j) k p1 = Inr (p, o2)" "out = send_prepare_all ps pr @ o2"
    using Suc.prems(2) by (auto simp: bindE_Inr)
  have "\<exists>t1. pmoves n B i (ps_peers ps) t (sends_prepare ps (Some pr)) t1 \<and> sys_proposers t1 i = p1"
    by (rule pmoves_prepare_event [where e = "E_prepare i (clk j)"]) (simp add: p1(1) Suc.prems(1))
  from pmoves_then [OF this Suc.IH [OF Suc.prems(1)]] p1(2,3) show ?case by (simp add: sends_prepare_def)
qed

lemma preexecute_moves:
  "proposer_id_ok i \<Longrightarrow> proposer_preexecute ps clk window (sys_proposers t i) = Inr (p, out) \<Longrightarrow>
   \<exists>t'. pmoves n B i (ps_peers ps) t out t' \<and> sys_proposers t' i = p"
  using preexec_loop_moves pmoves_none by (auto simp: proposer_preexecute_def Let_def split: if_splits)

lemma bindR_Inr: "bindR m f = Some (Inr y) \<longleftrightarrow> (\<exists>x. m = Some (Inr x) \<and> f x = Some (Inr y))"
  by (auto simp: bindR_def split: option.splits sum.splits)

lemma accept_loop_moves:
  assumes "accept_loop ps p0 = Some y"
  shows "proposer_id_ok i \<Longrightarrow> sys_proposers t i = p0 \<Longrightarrow> y = Inr (p, out) \<Longrightarrow>
    \<exists>t'. pmoves n B i (ps_peers ps) t out t' \<and> sys_proposers t' i = p"
  using assms
proof (induction ps p0 y arbitrary: t out rule: accept_loop.raw_induct [rotated, consumes 1])
  case (1 loop ps p0 y)
  obtain p1 ar where a: "proposer_accept p0 = Inr (p1, ar)"
    "(case ar of None \<Rightarrow> Some (Inr (p1, [])) | Some a \<Rightarrow> bindR (loop ps p1) (\<lambda>(p, out).
        Some (Inr (p, send_accept_all ps a @ out)))) = Some (Inr (p, out))"
    using 1(2) unfolding 1(5) bindR_Inr by auto
  have e: "\<exists>t1. pmoves n B i (ps_peers ps) t (sends_accept ps ar) t1 \<and> sys_proposers t1 i = p1"
    by (rule pmoves_accept_event [where e = "E_try_accept i"]) (simp add: a(1) 1(3,4))
  show ?case
  proof (cases ar)
    case None
    then show ?thesis using a(2) e by (simp add: sends_accept_def)
  next
    case (Some m)
    obtain o2 where o2: "loop ps p1 = Some (Inr (p, o2))" "out = send_accept_all ps m @ o2"
      using a(2) Some by (auto simp: bindR_Inr)
    show ?thesis
      using pmoves_then [OF e 1(1) [OF o2(1) 1(3) _ refl]] o2(2) Some by (simp add: sends_accept_def)
  qed
qed

lemma try_accept_moves:
  assumes "proposer_id_ok i" and "try_accept ps clk window (sys_proposers t i) = Some (Inr (p, out))"
  shows "\<exists>t'. pmoves n B i (ps_peers ps) t out t' \<and> sys_proposers t' i = p"
proof -
  obtain p1 o1 o2 where l: "accept_loop ps (sys_proposers t i) = Some (Inr (p1, o1))"
    "proposer_preexecute ps clk window p1 = Inr (p, o2)" "out = o1 @ o2"
    using assms(2) by (auto simp: try_accept_def bindR_Inr)
  show ?thesis unfolding l(3)
    by (rule pmoves_then [OF accept_loop_moves [OF l(1) assms(1) refl refl]])
      (rule preexecute_moves [OF assms(1), where clk = clk and window = window], simp add: l(2))
qed

lemma retry_prepares_moves:
  assumes "retry_prepares cfg ps iter p0 = Some y"
  shows "proposer_id_ok i \<Longrightarrow> sys_proposers t i = p0 \<Longrightarrow> y = Inr (iter', p, out) \<Longrightarrow>
    \<exists>t'. pmoves n B i (ps_peers ps) t out t' \<and> sys_proposers t' i = p"
  using assms
proof (induction cfg ps iter p0 y arbitrary: t out rule: retry_prepares.raw_induct [rotated, consumes 1])
  case (1 loop cfg ps iter p0 y)
  obtain iter1 p1 pr where a: "timeout_iterator_prepare cfg iter p0 = (iter1, p1, pr)"
    by (cases "timeout_iterator_prepare cfg iter p0")
  have e: "\<exists>t1. pmoves n B i (ps_peers ps) t (sends_prepare ps pr) t1 \<and> sys_proposers t1 i = p1"
    by (rule pmoves_prepare_event [where e = "E_timeout_prepare i cfg iter"]) (simp add: a 1(3,4))
  show ?case
  proof (cases pr)
    case None
    then show ?thesis using 1(2) e unfolding 1(5) a by (simp add: sends_prepare_def)
  next
    case (Some m)
    obtain o2 where o2: "loop cfg ps iter1 p1 = Some (Inr (iter', p, o2))" "out = send_prepare_all ps m @ o2"
      using 1(2) Some unfolding 1(5) a by (auto simp: bindR_Inr)
    show ?thesis
      using pmoves_then [OF e 1(1) [OF o2(1) 1(3) _ refl]] o2(2) Some by (simp add: sends_prepare_def)
  qed
qed

lemma retry_accepts_moves:
  assumes "retry_accepts cfg ps iter p0 = Some y"
  shows "proposer_id_ok i \<Longrightarrow> sys_proposers t i = p0 \<Longrightarrow> y = Inr (iter', p, out) \<Longrightarrow>
    \<exists>t'. pmoves n B i (ps_peers ps) t out t' \<and> sys_proposers t' i = p"
  using assms
proof (induction cfg ps iter p0 y arbitrary: t out rule: retry_accepts.raw_induct [rotated, consumes 1])
  case (1 loop cfg ps iter p0 y)
  obtain iter1 p1 ar where a: "timeout_iterator_accept cfg iter p0 = Inr (iter1, p1, ar)"
    "(case ar of None \<Rightarrow> Some (Inr (iter1, p1, [])) | Some a \<Rightarrow> bindR (loop cfg ps iter1 p1) (\<lambda>(iter, p, out).
        Some (Inr (iter, p, send_accept_all ps a @ out)))) = Some (Inr (iter', p, out))"
    using 1(2) unfolding 1(5) bindR_Inr by auto
  have e: "\<exists>t1. pmoves n B i (ps_peers ps) t (sends_accept ps ar) t1 \<and> sys_proposers t1 i = p1"
    by (rule pmoves_accept_event [where e = "E_timeout_accept i cfg iter"]) (simp add: a(1) 1(3,4))
  show ?case
  proof (cases ar)
    case None
    then show ?thesis using a(2) e by (simp add: sends_accept_def)
  next
    case (Some m)
    obtain o2 where o2: "loop cfg ps iter1 p1 = Some (Inr (iter', p, o2))" "out = send_accept_all ps m @ o2"
      using a(2) Some by (auto simp: bindR_Inr)
    show ?thesis
      using pmoves_then [OF e 1(1) [OF o2(1) 1(3) _ refl]] o2(2) Some by (simp add: sends_accept_def)
  qed
qed

section \<open>The handlers of the proposer process\<close>

lemma on_proposer_Inr:
  "on_proposer ep r = Some (Inr (ep', out)) \<longleftrightarrow> (\<exists>p. r = Some (Inr (p, out)) \<and> ep' = ep\<lparr>ep_state := p\<rparr>)"
  by (auto simp: on_proposer_def bindR_Inr)

lemma decode_sendable: "sendable m \<Longrightarrow> decode_write (msgpack_pack_paxos_message m) = Some (wire_message m)"
  by (rule object_of_message [of m]) (simp_all add: decode_write_def)

text \<open>A prepare request that was written has a ballot that has not wrapped around.\<close>

lemma sent_prepare_sane:
  assumes "list_all ballot_high (sent_on (map pr_bev (ps_peers ps)) (sends_prepare ps pr @ out))" and "ps_peers ps \<noteq> []"
  shows "ballot_sane pr"
proof (cases pr)
  case (Some m)
  obtain x where x: "x \<in> set (ps_peers ps)" using assms(2) by (cases "ps_peers ps") auto
  have "Net_write (send_paxos_message (pr_bev x) (PAXOS_PREPARE m)) \<in> set (sends_prepare ps pr @ out)"
    using x by (auto simp: Some sends_prepare_def send_prepare_all_def peers_foreach_acceptor_def peer_send_prepare_def
        send_paxos_prepare_def peer_get_buffer_def)
  moreover have "decode_write (msgpack_pack_paxos_message (PAXOS_PREPARE m)) = Some (PAXOS_PREPARE m)"
    using decode_sendable [of "PAXOS_PREPARE m"] by simp
  ultimately have "PAXOS_PREPARE m \<in> set (sent_on (map pr_bev (ps_peers ps)) (sends_prepare ps pr @ out))"
    unfolding mem_sent_on using x by (force simp: send_paxos_message_def)
  then show ?thesis using assms(1) Some by (auto simp: list_all_iff ballot_sane_def)
qed (simp add: ballot_sane_def)

text \<open>A reply that was read, from acceptor \<open>a\<close>.\<close>

lemma handle_promise_moves:
  assumes i: "proposer_id_ok i" "ep_state ep = sys_proposers t i" and m: "(m, pr_id x) \<in> sys_promises t"
    and h: "evproposer_handle_promise ps now clk ep x (m\<lparr>promise_value := wire_value (promise_value m)\<rparr>) = Some (Inr (ep', out))"
    and high: "list_all ballot_high (sent_on (map pr_bev (ps_peers ps)) out)" and ne: "ps_peers ps \<noteq> []"
  shows "\<exists>t'. pmoves n B i (ps_peers ps) t out t' \<and> sys_proposers t' i = ep_state ep'"
proof -
  obtain p1 pr p2 o2 where p: "proposer_receive_promise (sys_proposers t i) m (pr_id x) now = Inr (p1, pr)"
    "try_accept ps clk (ep_preexec_window ep) p1 = Some (Inr (p2, o2))" "out = sends_prepare ps pr @ o2" "ep_state ep' = p2"
    using h by (auto simp: evproposer_handle_promise_def on_proposer_Inr bindR_Inr receive_wire_promise i(2)
        peer_get_id_def sends_prepare_def)
  have "ballot_sane pr" using sent_prepare_sane high ne unfolding p(3) by blast
  then have "\<exists>t1. pmoves n B i (ps_peers ps) t (sends_prepare ps pr) t1 \<and> sys_proposers t1 i = p1"
    by (intro pmoves_prepare_event [where e = "E_promise i m (pr_id x) now"]) (simp add: i(1) m p(1))
  from pmoves_then [OF this try_accept_moves [OF i(1), where clk = clk and window = "ep_preexec_window ep"]]
  show ?thesis using p(2-4) by simp
qed

lemma handle_accepted_moves:
  assumes i: "proposer_id_ok i" "ep_state ep = sys_proposers t i" and m: "(m, pr_id x) \<in> sys_accepteds t"
    and h: "evproposer_handle_accepted ps clk ep x m = Some (Inr (ep', out))"
  shows "\<exists>t'. pmoves n B i (ps_peers ps) t out t' \<and> sys_proposers t' i = ep_state ep'"
proof -
  obtain p1 counted where p: "proposer_receive_accepted (sys_proposers t i) m (pr_id x) = Inr (p1, counted)"
    "(if counted then try_accept ps clk (ep_preexec_window ep) p1 else Some (Inr (p1, []))) = Some (Inr (ep_state ep', out))"
    using h by (auto simp: evproposer_handle_accepted_def on_proposer_Inr bindR_Inr i(2) peer_get_id_def)
  have e: "\<exists>t1. pmoves n B i (ps_peers ps) t [] t1 \<and> sys_proposers t1 i = p1"
    by (rule pmoves_quiet_event [where e = "E_accepted i m (pr_id x)"]) (simp add: i(1) m p(1))
  show ?thesis
  proof (cases counted)
    case True
    from pmoves_then [OF e try_accept_moves [OF i(1), where clk = clk and window = "ep_preexec_window ep"]]
    show ?thesis using p(2) True by simp
  qed (use e p(2) in simp)
qed

lemma handle_preempted_moves:
  assumes i: "proposer_id_ok i" "ep_state ep = sys_proposers t i" and m: "m \<in> sys_preempteds t"
    and h: "evproposer_handle_preempted ps now clk ep m = Some (Inr (ep', out))"
    and high: "list_all ballot_high (sent_on (map pr_bev (ps_peers ps)) out)" and ne: "ps_peers ps \<noteq> []"
  shows "\<exists>t'. pmoves n B i (ps_peers ps) t out t' \<and> sys_proposers t' i = ep_state ep'"
proof -
  obtain p1 pr where p: "proposer_receive_preempted (sys_proposers t i) m now = Inr (p1, pr)"
    "(case pr of None \<Rightarrow> Some (Inr (p1, [])) | Some pr \<Rightarrow> bindR (try_accept ps clk (ep_preexec_window ep) p1) (\<lambda>(p, out).
        Some (Inr (p, send_prepare_all ps pr @ out)))) = Some (Inr (ep_state ep', out))"
    using h by (auto simp: evproposer_handle_preempted_def on_proposer_Inr bindR_Inr i(2))
  then obtain o2 where o2: "out = sends_prepare ps pr @ o2"
    "pr = None \<longrightarrow> ep_state ep' = p1 \<and> o2 = []"
    "pr \<noteq> None \<longrightarrow> try_accept ps clk (ep_preexec_window ep) p1 = Some (Inr (ep_state ep', o2))"
    by (cases pr) (auto simp: sends_prepare_def bindR_Inr)
  have "ballot_sane pr" using sent_prepare_sane high ne unfolding o2(1) by blast
  then have e: "\<exists>t1. pmoves n B i (ps_peers ps) t (sends_prepare ps pr) t1 \<and> sys_proposers t1 i = p1"
    by (intro pmoves_prepare_event [where e = "E_preempted i m now"]) (simp add: i(1) m p(1))
  show ?thesis
  proof (cases pr)
    case None
    then show ?thesis using e o2 by (simp add: sends_prepare_def)
  next
    case (Some w)
    from pmoves_then [OF e try_accept_moves [OF i(1), where clk = clk and window = "ep_preexec_window ep"]]
    show ?thesis using o2 Some by simp
  qed
qed

lemma handle_client_value_moves:
  assumes i: "proposer_id_ok i" "ep_state ep = sys_proposers t i"
    and v: "data \<in> B" "data \<noteq> []" "client_value v = paxos_value_new data (int (length data))"
    and h: "evproposer_handle_client_value ps clk ep v = Some (Inr (ep', out))"
  shows "\<exists>t'. pmoves n B i (ps_peers ps) t out t' \<and> sys_proposers t' i = ep_state ep'"
proof -
  let ?p = "proposer_propose (sys_proposers t i) data (int (length data))"
  let ?t = "(set_proposer i ?p t)\<lparr>sys_proposed := insert (paxos_value_new data (int (length data))) (sys_proposed t)\<rparr>"
  have "value_bytes (client_value v) = data" "paxos_value_len (client_value v) = int (length data)"
    by (simp_all add: v(3) value_bytes_def paxos_value_new_def memcpy_bytes_def)
  then have p: "try_accept ps clk (ep_preexec_window ep) ?p = Some (Inr (ep_state ep', out))"
    using h by (auto simp: evproposer_handle_client_value_def on_proposer_Inr i(2))
  have "reaches n t ?t" by (rule reaches_step [where e = "E_propose i data"]) (simp add: i(1) v(2))
  then have "pmoves n B i (ps_peers ps) t [] ?t \<and> sys_proposers ?t i = ?p"
    using v(1) by (auto simp: pmoves_def values_of_def)
  then have "\<exists>t1. pmoves n B i (ps_peers ps) t [] t1 \<and> sys_proposers t1 i = ?p" by blast
  from pmoves_then [OF this try_accept_moves [OF i(1), where clk = clk and window = "ep_preexec_window ep"]]
  show ?thesis using p by simp
qed

lemma handle_acceptor_state_moves:
  assumes "proposer_id_ok i" and "ep_state ep = sys_proposers t i"
  shows "\<exists>t'. pmoves n B i xs t [] t' \<and> sys_proposers t' i = ep_state (evproposer_handle_acceptor_state ep m)"
  by (rule pmoves_quiet_event [where e = "E_acceptor_state i m"])
    (simp add: assms evproposer_handle_acceptor_state_def)

lemma check_timeouts_moves:
  assumes i: "proposer_id_ok i" "ep_state ep = sys_proposers t i"
    and h: "evproposer_check_timeouts cfg ps now ep = Some (Inr (ep', out))"
  shows "\<exists>t'. pmoves n B i (ps_peers ps) t out t' \<and> sys_proposers t' i = ep_state ep'"
proof -
  obtain iter1 p1 o1 iter2 o2 where p:
    "retry_prepares cfg ps (proposer_timeout_iterator now) (sys_proposers t i) = Some (Inr (iter1, p1, o1))"
    "retry_accepts cfg ps iter1 p1 = Some (Inr (iter2, ep_state ep', o2))"
    "out = (o1 @ o2) @ [Net_timer_add Timer_timeouts (fst (ep_tv ep)) (snd (ep_tv ep))]"
    using h by (auto simp: evproposer_check_timeouts_def on_proposer_Inr bindR_Inr i(2) Let_def)
  have "\<exists>t2. pmoves n B i (ps_peers ps) t (o1 @ o2) t2 \<and> sys_proposers t2 i = ep_state ep'"
    by (rule pmoves_then [OF retry_prepares_moves [OF p(1) i(1) refl refl]])
      (rule retry_accepts_moves [OF p(2) i(1) _ refl])
  then show ?thesis unfolding p(3) pmoves_def by auto
qed

lemma preexec_once_moves:
  assumes i: "proposer_id_ok i" "ep_state ep = sys_proposers t i"
    and h: "evproposer_preexec_once ps clk ep = Some (Inr (ep', out))"
  shows "\<exists>t'. pmoves n B i (ps_peers ps) t out t' \<and> sys_proposers t' i = ep_state ep'"
  using preexecute_moves [OF i(1)] h by (auto simp: evproposer_preexec_once_def on_proposer_Inr i(2))

section \<open>What an acceptor and a learner do\<close>

text \<open>The abstract system has moved; of the replicas only \<open>i\<close> has changed, and messages were added.\<close>

definition moves :: "int \<Rightarrow> byte list set \<Rightarrow> int \<Rightarrow> paxos_system \<Rightarrow> paxos_system \<Rightarrow> bool" where
  "moves n B i t t' \<longleftrightarrow>
     reaches n t t' \<and>
     (\<forall>j. 0 \<le> j \<longrightarrow> j \<noteq> i \<longrightarrow> sys_acceptors t' j = sys_acceptors t j \<and> sys_proposers t' j = sys_proposers t j \<and>
        sys_learners t' (nat j) = sys_learners t (nat j)) \<and>
     sys_prepares t \<subseteq> sys_prepares t' \<and> sys_accepts t \<subseteq> sys_accepts t' \<and> sys_promises t \<subseteq> sys_promises t' \<and>
     sys_accepteds t \<subseteq> sys_accepteds t' \<and> sys_preempteds t \<subseteq> sys_preempteds t' \<and>
     sys_delivered t \<subseteq> sys_delivered t' \<and> sys_proposed t' \<subseteq> sys_proposed t \<union> values_of B"

lemma moves_refl: "moves n B i t t"
  by (simp add: moves_def reaches_refl)

lemma moves_trans: "moves n B i t t1 \<Longrightarrow> moves n B i t1 t2 \<Longrightarrow> moves n B i t t2"
  using reaches_trans [of n t t1 t2] unfolding moves_def by auto

lemma pmoves_moves: "pmoves n B i xs t out t' \<Longrightarrow> moves n B i t t'"
  by (simp add: pmoves_def moves_def)

text \<open>An acceptor: its state, and what it has sent.\<close>

lemma acceptor_prepare_moves:
  assumes "0 \<le> i" and "i < n" and "m \<in> sys_prepares t"
    and "acceptor_receive_prepare (sys_acceptors t i) m = Inr (st, out)"
  shows "\<exists>t'. moves n B i t t' \<and> sys_acceptors t' i = st \<and> sys_proposers t' = sys_proposers t \<and>
    sys_learners t' = sys_learners t \<and> (\<forall>msg. out = Some msg \<longrightarrow> replied t' i msg)"
proof -
  let ?t = "sys_reply i out (set_acceptor i st t)"
  have "reaches n t ?t" by (rule reaches_step [where e = "E_acceptor_prepare i m"]) (simp add: assms)
  moreover have "out = None \<or> (\<exists>p. out = Some (PAXOS_PROMISE p))"
    using assms(4) by (auto simp: acceptor_receive_prepare_def bindE_Inr to_promise_eq Let_def split: if_splits)
  ultimately show ?thesis
    by (intro exI [of _ ?t]) (auto simp: moves_def sys_reply_def)
qed

lemma acceptor_accept_moves:
  assumes "0 \<le> i" and "i < n" and "(m, j) \<in> sys_accepts t"
    and "acceptor_receive_accept (sys_acceptors t i) m = Inr (st, out)"
  shows "\<exists>t'. moves n B i t t' \<and> sys_acceptors t' i = st \<and> sys_proposers t' = sys_proposers t \<and>
    sys_learners t' = sys_learners t \<and> (\<forall>msg. out = Some msg \<longrightarrow> replied t' i msg)"
proof -
  let ?t = "sys_reply i out (set_acceptor i st t)"
  have "reaches n t ?t" by (rule reaches_step [where e = "E_acceptor_accept i m j"]) (simp add: assms)
  moreover have "out = None \<or> (\<exists>r. out = Some (PAXOS_ACCEPTED r)) \<or> (\<exists>p. out = Some (PAXOS_PREEMPTED p))"
    using assms(4)
    by (auto simp: acceptor_receive_accept_def bindE_Inr paxos_accepted_to_preempted_def Let_def split: if_splits)
  ultimately show ?thesis
    by (intro exI [of _ ?t]) (auto simp: moves_def sys_reply_def)
qed

lemma acceptor_trim_moves:
  assumes "0 \<le> i" and "i < n" and "acceptor_receive_trim (sys_acceptors t i) m = Inr (st, done)"
  shows "\<exists>t'. moves n B i t t' \<and> sys_acceptors t' i = st \<and> sys_proposers t' = sys_proposers t \<and>
    sys_learners t' = sys_learners t"
proof -
  let ?t = "set_acceptor i st t"
  have "reaches n t ?t" by (rule reaches_step [where e = "E_acceptor_trim i m"]) (simp add: assms)
  then show ?thesis by (intro exI [of _ ?t]) (simp add: moves_def)
qed

text \<open>A learner: its state, and what it has delivered.\<close>

definition delivers :: "paxos_system \<Rightarrow> int \<Rightarrow> net_action list \<Rightarrow> bool" where
  "delivers t i out \<longleftrightarrow> (\<forall>a \<in> set out. \<exists>r. (nat i, r) \<in> sys_delivered t \<and> a = deliver_call r)"

definition lmoves :: "int \<Rightarrow> byte list set \<Rightarrow> int \<Rightarrow> paxos_system \<Rightarrow> net_action list \<Rightarrow> paxos_system \<Rightarrow> bool" where
  "lmoves n B i t out t' \<longleftrightarrow>
     moves n B i t t' \<and> sys_acceptors t' = sys_acceptors t \<and> sys_proposers t' = sys_proposers t \<and>
     sys_prepares t' = sys_prepares t \<and> sys_accepts t' = sys_accepts t \<and> delivers t' i out"

lemma delivers_mono: "delivers t i out \<Longrightarrow> sys_delivered t \<subseteq> sys_delivered t' \<Longrightarrow> delivers t' i out"
  unfolding delivers_def by blast

lemma delivers_append [simp]: "delivers t i (o1 @ o2) \<longleftrightarrow> delivers t i o1 \<and> delivers t i o2"
  by (simp add: delivers_def ball_Un)

lemma lmoves_trans:
  assumes "lmoves n B i t o1 t1" and "lmoves n B i t1 o2 t2"
  shows "lmoves n B i t (o1 @ o2) t2"
proof -
  have "delivers t2 i o1"
    by (rule delivers_mono [of t1]) (use assms in \<open>simp_all add: lmoves_def moves_def\<close>)
  then show ?thesis using assms moves_trans [of n B i t t1 t2] by (simp add: lmoves_def)
qed

lemma deliver_loop_moves:
  assumes "evlearner_deliver_next_closed l = Some y"
  shows "0 \<le> i \<Longrightarrow> sys_learners t (nat i) = l \<Longrightarrow> y = Inr (l', out) \<Longrightarrow>
    \<exists>t'. lmoves n B i t out t' \<and> sys_learners t' (nat i) = l'"
  using assms
proof (induction l y arbitrary: t out rule: evlearner_deliver_next_closed.raw_induct [rotated, consumes 1])
  case (1 loop l y)
  obtain l1 d where d: "learner_deliver_next l = (l1, d)" by (cases "learner_deliver_next l")
  show ?case
  proof (cases d)
    case None
    let ?t = "set_learner (nat i) l1 t"
    have "reaches n t ?t"
      by (rule reaches_step [where e = "E_learner_deliver (nat i)"]) (simp add: 1(4) d None)
    then have "lmoves n B i t [] ?t" using 1(3) by (auto simp: lmoves_def moves_def delivers_def)
    then show ?thesis using 1(2) unfolding 1(5) d None by (intro exI [of _ ?t]) simp
  next
    case (Some r)
    let ?t = "(set_learner (nat i) l1 t)\<lparr>sys_delivered := insert (nat i, r) (sys_delivered t)\<rparr>"
    have "reaches n t ?t"
      by (rule reaches_step [where e = "E_learner_deliver (nat i)"]) (simp add: 1(4) d Some)
    then have m: "lmoves n B i t [deliver_call r] ?t" using 1(3) by (auto simp: lmoves_def moves_def delivers_def)
    obtain o2 where o2: "loop l1 = Some (Inr (l', o2))" "out = deliver_call r # o2"
      using 1(2) unfolding 1(5) d Some by (auto simp: bindR_Inr)
    obtain t2 where "lmoves n B i ?t o2 t2" "sys_learners t2 (nat i) = l'"
      using 1(1) [OF o2(1) 1(3) _ refl, of ?t] by auto
    then show ?thesis using lmoves_trans [OF m] o2(2) by auto
  qed
qed

lemma handle_learner_moves:
  assumes "0 \<le> i" and "el_state el = sys_learners t (nat i)" and m: "(m, pr_id x) \<in> sys_accepteds t"
    and h: "evlearner_handle_accepted el x m = Some (Inr (el', out))"
  shows "\<exists>t'. lmoves n B i t out t' \<and> sys_learners t' (nat i) = el_state el'"
proof -
  obtain l1 l2 where l: "learner_receive_accepted (sys_learners t (nat i)) m (pr_id x) = Inr l1"
    "evlearner_deliver_next_closed l1 = Some (Inr (l2, out))" "el_state el' = l2"
    using h by (auto simp: evlearner_handle_accepted_def bindR_Inr assms(2) peer_get_id_def)
  let ?t = "set_learner (nat i) l1 t"
  have "reaches n t ?t"
    by (rule reaches_step [where e = "E_learner_accepted (nat i) m (pr_id x)"]) (simp add: m l(1))
  then have "lmoves n B i t [] ?t" using assms(1) by (auto simp: lmoves_def moves_def delivers_def)
  moreover obtain t2 where "lmoves n B i ?t out t2" "sys_learners t2 (nat i) = l2"
    using deliver_loop_moves [OF l(2) assms(1) _ refl, of ?t n B] by auto
  ultimately show ?thesis using lmoves_trans [of n B i t "[]" ?t out t2] l(3) by auto
qed

section \<open>What a repeat request is answered with\<close>

text \<open>
  The record of an acceptor has the ballot at which its value was accepted only if the acceptor has
  sent that record as an accepted message.
\<close>

definition record_sent :: "(paxos_accepted \<times> int) set \<Rightarrow> int \<Rightarrow> paxos_accepted \<Rightarrow> bool" where
  "record_sent V a r \<longleftrightarrow>
     accepted_value_ballot r \<le> accepted_ballot r \<and>
     (has_bytes (accepted_value r) \<longrightarrow> accepted_ballot r = accepted_value_ballot r \<longrightarrow> (r, a) \<in> V)"

definition acceptor_sent :: "(paxos_accepted \<times> int) set \<Rightarrow> int \<Rightarrow> mem_storage acceptor \<Rightarrow> bool" where
  "acceptor_sent V a x \<longleftrightarrow>
     (\<forall>i r. \<not> mem_lost (acc_store x) i \<longrightarrow> mem_view (acc_store x) i = Some r \<longrightarrow> record_sent V a r)"

definition records_sent :: "int \<Rightarrow> paxos_system \<Rightarrow> bool" where
  "records_sent n t \<longleftrightarrow> (\<forall>a. 0 \<le> a \<longrightarrow> a < n \<longrightarrow> acceptor_sent (sys_accepteds t) a (sys_acceptors t a))"

lemma records_sentD:
  "records_sent n t \<Longrightarrow> 0 \<le> a \<Longrightarrow> a < n \<Longrightarrow> \<not> mem_lost (acc_store (sys_acceptors t a)) i \<Longrightarrow>
   mem_view (acc_store (sys_acceptors t a)) i = Some r \<Longrightarrow> record_sent (sys_accepteds t) a r"
  by (auto simp: records_sent_def acceptor_sent_def)

lemma acceptor_sent_mono: "acceptor_sent V a x \<Longrightarrow> V \<subseteq> V' \<Longrightarrow> acceptor_sent V' a x"
  unfolding acceptor_sent_def record_sent_def by blast

lemma acceptor_sent_stores:
  assumes "acceptor_sent V a x" and "ms.stores x r x'" and "record_sent V' a r" and "V \<subseteq> V'"
  shows "acceptor_sent V' a x'"
  unfolding acceptor_sent_def
proof (intro allI impI)
  fix i q
  assume q: "\<not> mem_lost (acc_store x') i" "mem_view (acc_store x') i = Some q"
  show "record_sent V' a q"
  proof (cases "i = accepted_iid r")
    case True
    then show ?thesis using assms(2,3) q(2) by (simp add: ms.stores_def)
  next
    case False
    then have "\<not> mem_lost (acc_store x) i" "mem_view (acc_store x) i = Some q"
      using assms(2) q by (auto simp: ms.stores_def)
    then show ?thesis using acceptor_sent_mono [OF assms(1,4)] by (auto simp: acceptor_sent_def)
  qed
qed

lemma acceptor_sent_keeps: "acceptor_sent V a x \<Longrightarrow> ms.keeps x x' \<Longrightarrow> acceptor_sent V a x'"
  by (simp add: acceptor_sent_def ms.keeps_def)

lemma prepare_sent:
  assumes x: "acceptor_sent V a x" and ok: "ms.acc_ok x"
    and r: "acceptor_receive_prepare x req = Inr (x', out)"
  shows "acceptor_sent V a x'"
  using ok r
proof (cases rule: ms.prepare_cases)
  case trimmed
  then show ?thesis using x by simp
next
  case (promise r)
  have "record_sent V a r"
  proof (cases "mem_view (acc_store x) (prepare_iid req)")
    case None
    then show ?thesis using promise(2)
      by (simp add: prepared_def record_sent_def zero_accepted_def has_bytes_def null_value_def)
  next
    case (Some q)
    have q: "record_sent V a q" using x promise(1) Some by (auto simp: acceptor_sent_def ms.answers_def)
    have iid: "accepted_iid q = prepare_iid req"
      using ms.view_iid [OF _ Some] ok by (simp add: ms.acc_ok_def)
    have b: "accepted_ballot q \<le> prepare_ballot req" using promise(3) Some by (simp add: promised_def)
    have r: "r = q\<lparr>accepted_ballot := prepare_ballot req\<rparr>"
      using promise(2) Some b iid by (simp add: prepared_def)
    show ?thesis
    proof (cases "prepare_ballot req = accepted_value_ballot q")
      case True
      then have "accepted_ballot q = prepare_ballot req" using q b by (simp add: record_sent_def)
      then have "r = q" by (simp add: r)
      then show ?thesis using q by simp
    next
      case False
      have "accepted_value_ballot q \<le> prepare_ballot req" using q b order.trans by (auto simp: record_sent_def)
      then show ?thesis using False by (simp add: r record_sent_def)
    qed
  qed
  then show ?thesis using acceptor_sent_stores [OF x promise(4)] by blast
next
  case (higher r)
  then show ?thesis using acceptor_sent_keeps [OF x] by blast
qed

lemma accept_sent:
  assumes x: "acceptor_sent V a x" and ok: "ms.acc_ok x" "value_wf (accept_value req)"
    and r: "acceptor_receive_accept x req = Inr (x', out)"
  shows "acceptor_sent (case out of Some (PAXOS_ACCEPTED r) \<Rightarrow> insert (r, a) V | _ \<Rightarrow> V) a x'"
  using ok r
proof (cases rule: ms.accept_request_cases)
  case trimmed
  then show ?thesis using x by simp
next
  case accepted
  have "record_sent (insert (paxos_accept_to_accepted req, a) V) a (paxos_accept_to_accepted req)"
    by (simp add: record_sent_def)
  from acceptor_sent_stores [OF x accepted(3) this] show ?thesis using accepted(4) by auto
next
  case (preempted r)
  then show ?thesis using acceptor_sent_keeps [OF x] by (simp add: paxos_accepted_to_preempted_def)
qed

text \<open>The in-memory storage keeps no trim point, so that a trim request leaves the records.\<close>

lemma trim_store:
  assumes "ms.acc_ok x" and "acceptor_receive_trim x m = Inr (x', d)"
  shows "acc_store x' = acc_store x"
  using assms by (auto simp: acceptor_receive_trim_def ms.acc_ok_def mem_tx split: if_splits)

lemma accepteds_reply:
  "sys_accepteds (sys_reply a out s) =
     (case out of Some (PAXOS_ACCEPTED r) \<Rightarrow> insert (r, a) (sys_accepteds s) | _ \<Rightarrow> sys_accepteds s)"
  "sys_acceptors (sys_reply a out s) = sys_acceptors s"
  by (auto simp: sys_reply_def split: option.split paxos_message.split)

lemma records_sent_set:
  assumes "records_sent n t" and "acceptor_sent (sys_accepteds t') a x"
    and "sys_acceptors t' = (sys_acceptors t)(a := x)" and "sys_accepteds t \<subseteq> sys_accepteds t'"
  shows "records_sent n t'"
  using assms acceptor_sent_mono unfolding records_sent_def by (auto simp: fun_upd_apply)

lemma records_sent_same:
  "records_sent n t \<Longrightarrow> sys_acceptors t' = sys_acceptors t \<Longrightarrow> sys_accepteds t' = sys_accepteds t \<Longrightarrow> records_sent n t'"
  by (simp add: records_sent_def)

lemma exec_sent:
  assumes sent: "records_sent n t" and inv: "sys_inv n t" and e: "sys_exec False n t e = Some t'"
  shows "records_sent n t'"
proof (cases e)
  case (E_acceptor_prepare a m)
  then obtain x out where a: "0 \<le> a" "a < n" and r: "acceptor_receive_prepare (sys_acceptors t a) m = Inr (x, out)"
    and t': "t' = sys_reply a out (set_acceptor a x t)"
    using e by (auto split: if_splits sum.splits)
  have "acceptor_sent (sys_accepteds t) a x"
    using prepare_sent [OF _ acceptor_coversD(1) [OF sys_invD(3) [OF inv a]] r] sent a by (simp add: records_sent_def)
  moreover have "sys_accepteds t \<subseteq> sys_accepteds t'" by (auto simp: t' accepteds_reply split: option.split paxos_message.split)
  ultimately show ?thesis
    using records_sent_set [OF sent acceptor_sent_mono] by (simp add: t' accepteds_reply)
next
  case (E_acceptor_accept a m i)
  then obtain x out where a: "0 \<le> a" "a < n" and m: "(m, i) \<in> sys_accepts t"
    and r: "acceptor_receive_accept (sys_acceptors t a) m = Inr (x, out)"
    and t': "t' = sys_reply a out (set_acceptor a x t)"
    using e by (auto split: if_splits sum.splits)
  have wf: "value_wf (accept_value m)" using history_okD(2) [OF sys_invD(1) [OF inv] m] by (simp add: accept_ok_def)
  have "acceptor_sent (sys_accepteds t') a x"
    using accept_sent [OF _ acceptor_coversD(1) [OF sys_invD(3) [OF inv a]] wf r] sent a
    by (simp add: records_sent_def t' accepteds_reply)
  moreover have "sys_accepteds t \<subseteq> sys_accepteds t'" by (auto simp: t' accepteds_reply split: option.split paxos_message.split)
  ultimately show ?thesis using records_sent_set [OF sent] by (simp add: t' accepteds_reply)
next
  case (E_acceptor_trim a m)
  then obtain x d where a: "0 \<le> a" "a < n" and r: "acceptor_receive_trim (sys_acceptors t a) m = Inr (x, d)"
    and t': "t' = set_acceptor a x t"
    using e by (auto split: if_splits sum.splits)
  have "acceptor_sent (sys_accepteds t) a x"
    using sent a trim_store [OF acceptor_coversD(1) [OF sys_invD(3) [OF inv a]] r] by (simp add: records_sent_def acceptor_sent_def)
  then show ?thesis using records_sent_set [OF sent] by (simp add: t')
qed (use e in \<open>auto intro!: records_sent_same [OF sent] split: if_splits sum.splits prod.splits option.splits\<close>)

lemma reachable_sent:
  assumes "reachable False cfg n t" and "0 \<le> n"
  shows "records_sent n t"
  using assms(1)
proof (induction rule: reachable.induct)
  case start
  show ?case
    by (auto simp: records_sent_def acceptor_sent_def record_sent_def sys_start_def acceptor_start_def mem_view_def
        storage_init_mem_def mem_storage_new_def zero_accepted_def has_bytes_def null_value_def Let_def split: if_splits)
next
  case (step s e s')
  then show ?case using exec_sent reachable_inv [OF step.hyps(1) _ assms(2)] by blast
qed

text \<open>The loop that answers a repeat request leaves the acceptor alone and writes records that can be read.\<close>

lemma receive_repeat_mem:
  assumes "mem_ok (acc_store st)" and "acceptor_receive_repeat st i = Inr (st', found)"
  shows "st' = st" and "found = Some r \<Longrightarrow> \<not> mem_lost (acc_store st) i \<and> mem_view (acc_store st) i = Some r \<and>
    has_bytes (accepted_value r)"
proof -
  have b: "bindE (storage_get_record (acc_store st) i) (\<lambda>found. Inr (st, case found of None \<Rightarrow> None
      | Some r \<Rightarrow> if 0 < paxos_value_len (accepted_value r) then Some r else None)) = Inr (st', found)"
    using assms by (simp add: acceptor_receive_repeat_def mem_tx)
  then show "st' = st" by (auto simp: bindE_Inr)
  assume "found = Some r"
  moreover have "\<not> mem_lost (acc_store st) i"
    using b ms.get_lost [OF assms(1), of i] by (auto simp: bindE_Inr)
  ultimately show "\<not> mem_lost (acc_store st) i \<and> mem_view (acc_store st) i = Some r \<and> has_bytes (accepted_value r)"
    using b ms.get_view [OF assms(1)] by (auto simp: bindE_Inr has_bytes_def split: option.splits if_splits)
qed

lemma repeat_loop_writes:
  assumes "repeat_loop st buf lo hi = Some y"
  shows "mem_ok (acc_store st) \<Longrightarrow> y = Inr (st', out) \<Longrightarrow> st' = st"
    and "mem_ok (acc_store st) \<Longrightarrow> y = Inr (st', out) \<Longrightarrow> a \<in> set out \<Longrightarrow>
      \<exists>i r. \<not> mem_lost (acc_store st) i \<and> mem_view (acc_store st) i = Some r \<and> has_bytes (accepted_value r) \<and>
        a = Net_write (send_paxos_message buf (PAXOS_ACCEPTED r))"
proof -
  have "mem_ok (acc_store st) \<longrightarrow> (\<forall>st' out. y = Inr (st', out) \<longrightarrow> st' = st \<and> (\<forall>a \<in> set out.
      \<exists>i r. \<not> mem_lost (acc_store st) i \<and> mem_view (acc_store st) i = Some r \<and> has_bytes (accepted_value r) \<and>
        a = Net_write (send_paxos_message buf (PAXOS_ACCEPTED r))))"
    using assms
  proof (induction st buf lo hi y rule: repeat_loop.raw_induct [rotated, consumes 1])
    case (1 loop st buf lo hi y)
    show ?case
    proof (intro impI allI, cases "lo \<le> hi")
      case False
      fix st' out assume "y = Inr (st', out)"
      then show "st' = st \<and> (\<forall>a \<in> set out. \<exists>i r. \<not> mem_lost (acc_store st) i \<and> mem_view (acc_store st) i = Some r \<and>
          has_bytes (accepted_value r) \<and> a = Net_write (send_paxos_message buf (PAXOS_ACCEPTED r)))"
        using 1(2) False by auto
    next
      case True
      fix st' out assume ok: "mem_ok (acc_store st)" and y: "y = Inr (st', out)"
      obtain st1 found o2 where f: "acceptor_receive_repeat st lo = Inr (st1, found)"
        "loop st1 buf (lo + 1) hi = Some (Inr (st', o2))"
        "out = (case found of None \<Rightarrow> [] | Some r \<Rightarrow> [Net_write (send_paxos_accepted buf r)]) @ o2"
        using 1(2) True by (auto simp: y bindR_Inr)
      note g = receive_repeat_mem [OF ok f(1)]
      show "st' = st \<and> (\<forall>a \<in> set out. \<exists>i r. \<not> mem_lost (acc_store st) i \<and> mem_view (acc_store st) i = Some r \<and>
          has_bytes (accepted_value r) \<and> a = Net_write (send_paxos_message buf (PAXOS_ACCEPTED r)))"
        using 1(1) [OF f(2)] ok g f(3) by (auto simp: send_paxos_accepted_def split: option.splits)
    qed
  qed
  then show "mem_ok (acc_store st) \<Longrightarrow> y = Inr (st', out) \<Longrightarrow> st' = st"
    and "mem_ok (acc_store st) \<Longrightarrow> y = Inr (st', out) \<Longrightarrow> a \<in> set out \<Longrightarrow>
      \<exists>i r. \<not> mem_lost (acc_store st) i \<and> mem_view (acc_store st) i = Some r \<and> has_bytes (accepted_value r) \<and>
        a = Net_write (send_paxos_message buf (PAXOS_ACCEPTED r))" by blast+
qed

section \<open>The simulation relation\<close>

text \<open>No buffer belongs to a connection of each kind.\<close>

definition apart :: "'cb peers \<Rightarrow> bool" where
  "apart ps \<longleftrightarrow> (\<forall>x \<in> set (ps_peers ps). \<forall>y \<in> set (ps_clients ps). pr_bev x \<noteq> pr_bev y)"

definition peers_rel :: "int \<Rightarrow> ev_cb peers \<Rightarrow> bool" where
  "peers_rel n ps \<longleftrightarrow>
     peers_ok ps \<and> ps_subs ps = replica_subs \<and> int (length (ps_peers ps)) = n \<and>
     apart ps"

definition replica_rel :: "int \<Rightarrow> paxos_system \<Rightarrow> int \<Rightarrow> replica \<Rightarrow> bool" where
  "replica_rel n t i r \<longleftrightarrow>
     ea_state (rp_acceptor r) = Some (sys_acceptors t i) \<and> ep_state (rp_proposer r) = sys_proposers t i \<and>
     el_state (rp_learner r) = sys_learners t (nat i) \<and> peers_rel n (rp_peers r)"

definition ev_rel :: "int \<Rightarrow> ev_system \<Rightarrow> paxos_system \<Rightarrow> bool" where
  "ev_rel n s t \<longleftrightarrow>
     (\<forall>i. 0 \<le> i \<longrightarrow> i < n \<longrightarrow> replica_rel n t i (es_replicas s i)) \<and>
     (\<forall>m \<in> es_requests s. \<exists>m0. asked t (es_submitted s) m0 \<and> m = wire_message m0) \<and>
     (\<forall>(i, m) \<in> es_replies s. \<exists>m0. replied t i m0 \<and> m = wire_message m0) \<and>
     sys_proposed t \<subseteq> values_of (es_submitted s) \<and>
     (\<forall>(i, iid, v, len) \<in> es_delivered s. \<exists>r. (nat i, r) \<in> sys_delivered t \<and> deliver_call r = App_deliver iid v len)"

text \<open>A reply that was given, or one that nobody can read.\<close>

definition says :: "paxos_system \<Rightarrow> int \<Rightarrow> paxos_message \<Rightarrow> bool" where
  "says t a m \<longleftrightarrow> replied t a m \<or> decode_write (msgpack_pack_paxos_message m) = None"

text \<open>What replica \<open>i\<close> may do: timers, requests on its connections to acceptors, replies to its clients, deliveries.\<close>

definition does :: "paxos_system \<Rightarrow> byte list set \<Rightarrow> int \<Rightarrow> 'cb peers \<Rightarrow> net_action list \<Rightarrow> bool" where
  "does t B i ps out \<longleftrightarrow>
     (\<forall>a \<in> set out. silent a \<or>
        (\<exists>x \<in> set (ps_peers ps). \<exists>m. asked t B m \<and> a = Net_write (send_paxos_message (pr_bev x) m)) \<or>
        (\<exists>x \<in> set (ps_clients ps). \<exists>m. says t i m \<and> a = Net_write (send_paxos_message (pr_bev x) m)) \<or>
        (\<exists>r. (nat i, r) \<in> sys_delivered t \<and> a = deliver_call r))"

lemma asks_does: "asks t B (ps_peers ps) out \<Longrightarrow> does t B i ps out"
  unfolding asks_def does_def by blast

lemma delivers_does: "delivers t i out \<Longrightarrow> does t B i ps out"
  unfolding delivers_def does_def by blast

lemma does_append: "does t B i ps o1 \<Longrightarrow> does t B i ps o2 \<Longrightarrow> does t B i ps (o1 @ o2)"
  unfolding does_def by (simp add: ball_Un)

lemma does_clients:
  assumes "\<forall>a \<in> set out. \<exists>x \<in> set (ps_clients ps). \<exists>m. replied t i m \<and> a = Net_write (send_paxos_message (pr_bev x) m)"
  shows "does t B i ps out"
  using assms unfolding does_def says_def by blast

lemma does_says:
  assumes "\<forall>a \<in> set out. \<exists>x \<in> set (ps_clients ps). \<exists>m. says t i m \<and> a = Net_write (send_paxos_message (pr_bev x) m)"
  shows "does t B i ps out"
  using assms unfolding does_def by blast

text \<open>What a write of \<open>does\<close> is read as.\<close>

lemma does_requests:
  assumes inv: "sys_inv n t" and d: "does t B i ps out"
    and dis: "apart ps"
    and m: "m \<in> set (sent_on (map pr_bev (ps_peers ps)) out)"
  shows "\<exists>m0. asked t B m0 \<and> m = wire_message m0"
proof -
  obtain w where w: "Net_write w \<in> set out" "fst w \<in> pr_bev ` set (ps_peers ps)" "decode_write (snd w) = Some m"
    using m unfolding mem_sent_on by auto
  have "(\<exists>x \<in> set (ps_peers ps). \<exists>m. asked t B m \<and> Net_write w = Net_write (send_paxos_message (pr_bev x) m)) \<or>
      (\<exists>x \<in> set (ps_clients ps). \<exists>m. says t i m \<and> Net_write w = Net_write (send_paxos_message (pr_bev x) m))"
    using bspec [OF d [unfolded does_def] w(1)] by (auto simp: deliver_call_def)
  then obtain m0 where "asked t B m0" "snd w = msgpack_pack_paxos_message m0"
    using w(2) dis unfolding apart_def by (fastforce simp: send_paxos_message_def)
  then show ?thesis using decode_wire [OF asked_wf [OF inv]] w(3) by auto
qed

lemma does_replies:
  assumes inv: "sys_inv n t" and d: "does t B i ps out"
    and dis: "apart ps"
    and m: "m \<in> set (sent_on (map pr_bev (ps_clients ps)) out)"
  shows "\<exists>m0. replied t i m0 \<and> m = wire_message m0"
proof -
  obtain w where w: "Net_write w \<in> set out" "fst w \<in> pr_bev ` set (ps_clients ps)" "decode_write (snd w) = Some m"
    using m unfolding mem_sent_on by auto
  have "(\<exists>x \<in> set (ps_peers ps). \<exists>m. asked t B m \<and> Net_write w = Net_write (send_paxos_message (pr_bev x) m)) \<or>
      (\<exists>x \<in> set (ps_clients ps). \<exists>m. says t i m \<and> Net_write w = Net_write (send_paxos_message (pr_bev x) m))"
    using bspec [OF d [unfolded does_def] w(1)] by (auto simp: deliver_call_def)
  then obtain m0 where "says t i m0" "snd w = msgpack_pack_paxos_message m0"
    using w(2) dis unfolding apart_def by (fastforce simp: send_paxos_message_def)
  then have "replied t i m0" "snd w = msgpack_pack_paxos_message m0" using w(3) by (auto simp: says_def)
  then show ?thesis using decode_wire [OF replied_wf [OF inv]] w(3) by auto
qed

lemma does_deliveries:
  assumes "does t B i ps out" and "(iid, v, len) \<in> set (List.map_filter delivery out)"
  shows "\<exists>r. (nat i, r) \<in> sys_delivered t \<and> deliver_call r = App_deliver iid v len"
proof -
  have "App_deliver iid v len \<in> set out" using assms(2) unfolding mem_delivery by auto
  then show ?thesis using bspec [OF assms(1) [unfolded does_def]] by fastforce
qed

lemma movesD:
  assumes "moves n B i t t'"
  shows "reaches n t t'" and "sys_prepares t \<subseteq> sys_prepares t'" and "sys_accepts t \<subseteq> sys_accepts t'"
    and "sys_delivered t \<subseteq> sys_delivered t'" and "sys_proposed t' \<subseteq> sys_proposed t \<union> values_of B"
  using assms unfolding moves_def by blast+

lemma ev_relD:
  assumes "ev_rel n s t"
  shows "0 \<le> i \<Longrightarrow> i < n \<Longrightarrow> replica_rel n t i (es_replicas s i)"
    and "m \<in> es_requests s \<Longrightarrow> \<exists>m0. asked t (es_submitted s) m0 \<and> m = wire_message m0"
    and "(i, m) \<in> es_replies s \<Longrightarrow> \<exists>m0. replied t i m0 \<and> m = wire_message m0"
    and "sys_proposed t \<subseteq> values_of (es_submitted s)"
    and "(i, iid, v, len) \<in> es_delivered s \<Longrightarrow>
      \<exists>r. (nat i, r) \<in> sys_delivered t \<and> deliver_call r = App_deliver iid v len"
  using assms unfolding ev_rel_def by blast+

lemma replied_mono: "replied t i m \<Longrightarrow> moves n B j t t' \<Longrightarrow> replied t' i m"
  by (cases m) (auto simp: moves_def)

lemma asked_moves: "asked t B m \<Longrightarrow> moves n C j t t' \<Longrightarrow> asked t' B m"
  by (erule asked_mono) (erule movesD)+

text \<open>A replica that has moved as the abstract system did, and has done what it may do.\<close>

lemma commit_rel:
  assumes rel: "ev_rel n s t" and inv: "sys_inv n t'" and mv: "moves n (es_submitted s) i t t'"
    and i: "0 \<le> i" "i < n" and r: "replica_rel n t' i r" and d: "does t' (es_submitted s) i (rp_peers r) out"
  shows "ev_rel n (ev_commit i r out s) t'"
proof -
  let ?B = "es_submitted s"
  define s' where "s' = ev_commit i r out s"
  note s' = s'_def [unfolded ev_commit_def]
  have dis: "apart (rp_peers r)"
    using r by (simp add: replica_rel_def peers_rel_def)
  have "replica_rel n t' j (es_replicas s' j)" if "0 \<le> j" "j < n" for j
  proof (cases "j = i")
    case False
    have "replica_rel n t j (es_replicas s j)" using rel that by (simp add: ev_rel_def)
    then show ?thesis using mv False that by (simp add: replica_rel_def moves_def s')
  qed (use r in \<open>simp add: s'\<close>)
  moreover have "\<exists>m0. asked t' ?B m0 \<and> m = wire_message m0" if "m \<in> es_requests s'" for m
  proof (cases "m \<in> es_requests s")
    case True
    then show ?thesis using ev_relD(2) [OF rel] asked_moves [OF _ mv] by blast
  next
    case False
    then have "m \<in> set (sent_on (map pr_bev (ps_peers (rp_peers r))) out)" using that by (simp add: s' peer_bufs_def)
    then show ?thesis by (rule does_requests [OF inv d dis])
  qed
  moreover have "\<exists>m0. replied t' j m0 \<and> m = wire_message m0" if jm: "(j, m) \<in> es_replies s'" for j m
  proof (cases "(j, m) \<in> es_replies s")
    case True
    then show ?thesis using ev_relD(3) [OF rel] replied_mono [OF _ mv] by blast
  next
    case False
    then have "j = i" "m \<in> set (sent_on (map pr_bev (ps_clients (rp_peers r))) out)"
      using jm by (auto simp: s' client_bufs_def)
    then show ?thesis using does_replies [OF inv d dis] by blast
  qed
  moreover have "sys_proposed t' \<subseteq> values_of ?B" using ev_relD(4) [OF rel] movesD(5) [OF mv] by blast
  moreover have "\<exists>r. (nat j, r) \<in> sys_delivered t' \<and> deliver_call r = App_deliver iid v len"
    if jd: "(j, iid, v, len) \<in> es_delivered s'" for j iid v len
  proof (cases "(j, iid, v, len) \<in> es_delivered s")
    case True
    then show ?thesis using ev_relD(5) [OF rel] movesD(4) [OF mv] by blast
  next
    case False
    then have "j = i" "(iid, v, len) \<in> set (List.map_filter delivery out)" using jd by (auto simp: s')
    then show ?thesis using does_deliveries [OF d] by blast
  qed
  ultimately show ?thesis unfolding s'_def [symmetric] ev_rel_def by (auto simp: s')
qed

section \<open>Every message is simulated\<close>

definition follows :: "int \<Rightarrow> byte list set \<Rightarrow> int \<Rightarrow> paxos_system \<Rightarrow> replica \<Rightarrow> net_action list \<Rightarrow> paxos_system \<Rightarrow> bool" where
  "follows n B i t r out t' \<longleftrightarrow> moves n B i t t' \<and> replica_rel n t' i r \<and> does t' B i (rp_peers r) out"

lemma follows_proposer:
  assumes rel: "replica_rel n t i r"
    and mv: "\<exists>t'. pmoves n B i (ps_peers (rp_peers r)) t out t' \<and> sys_proposers t' i = ep_state ep"
  shows "\<exists>t'. follows n B i t (r\<lparr>rp_proposer := ep, rp_calls := k\<rparr>) out t'"
proof -
  obtain t' where t': "pmoves n B i (ps_peers (rp_peers r)) t out t'" "sys_proposers t' i = ep_state ep"
    using mv by blast
  have "does t' B i (rp_peers r) out" by (rule asks_does) (use t'(1) in \<open>simp add: pmoves_def\<close>)
  moreover have "replica_rel n t' i (r\<lparr>rp_proposer := ep, rp_calls := k\<rparr>)"
    using rel t' by (simp add: replica_rel_def pmoves_def)
  ultimately show ?thesis using pmoves_moves [OF t'(1)] by (auto simp: follows_def)
qed

lemma follows_acceptor:
  assumes rel: "replica_rel n t i r"
    and mv: "moves n B i t t'" "sys_acceptors t' i = st" "sys_proposers t' = sys_proposers t" "sys_learners t' = sys_learners t"
    and out: "does t' B i (rp_peers r) out"
  shows "\<exists>t'. follows n B i t (r\<lparr>rp_acceptor := (rp_acceptor r)\<lparr>ea_state := Some st\<rparr>, rp_calls := k\<rparr>) out t'"
  using rel mv out by (intro exI [of _ t']) (simp add: follows_def replica_rel_def)

lemma calls_rel [simp]: "replica_rel n t i (r\<lparr>rp_calls := k\<rparr>) = replica_rel n t i r"
  by (simp add: replica_rel_def)

lemmas callback_defs =
  dispatch_message_def replica_subs_def ev_call_def union_defs dispatch_ends on_rp_acceptor_def on_rp_proposer_def
  on_rp_learner_def bindR_Inr bindE_Inr

lemma rp_commute:
  "r\<lparr>rp_calls := k, rp_proposer := p\<rparr> = r\<lparr>rp_proposer := p, rp_calls := k\<rparr>"
  "r\<lparr>rp_calls := k, rp_acceptor := a\<rparr> = r\<lparr>rp_acceptor := a, rp_calls := k\<rparr>"
  by simp_all

lemma request_follows:
  assumes inv: "sys_inv n t" and sent: "records_sent n t" and rel: "replica_rel n t i r" and i: "0 \<le> i" "i < n" "proposer_id_ok i"
    and x: "x \<in> set (ps_clients (rp_peers r))" and m: "asked t B m0"
    and h: "dispatch_message (ev_call now clk) replica_subs x (Some (wire_message m0)) r = Some (Inr (r', out))"
    and claims: "list_all ballot_accepted (sent_on (client_bufs r') out)"
  shows "\<exists>t'. follows n B i t r' out t'"
proof (cases m0)
  case (PAXOS_PREPARE m)
  obtain st msg where a: "acceptor_receive_prepare (sys_acceptors t i) m = Inr (st, msg)"
    and r': "r' = r\<lparr>rp_acceptor := (rp_acceptor r)\<lparr>ea_state := Some st\<rparr>, rp_calls := rp_calls r + 1\<rparr>"
    and out: "out = (case msg of None \<Rightarrow> [] | Some m \<Rightarrow> [Net_write (send_paxos_message (peer_get_buffer x) m)])"
    using h rel unfolding PAXOS_PREPARE
    by (auto simp: callback_defs evacceptor_handle_prepare_def with_acceptor_def replica_rel_def)
  have "m \<in> sys_prepares t" using m PAXOS_PREPARE by simp
  from acceptor_prepare_moves [OF i(1,2) this a] obtain t' where
    t': "moves n B i t t'" "sys_acceptors t' i = st" "sys_proposers t' = sys_proposers t" "sys_learners t' = sys_learners t"
    "\<forall>m. msg = Some m \<longrightarrow> replied t' i m" by blast
  have "does t' B i (rp_peers r) out"
    by (rule does_clients) (use t'(5) x in \<open>auto simp: out peer_get_buffer_def split: option.splits\<close>)
  then show ?thesis unfolding r' by (rule follows_acceptor [OF rel t'(1-4)])
next
  case (PAXOS_ACCEPT m)
  obtain j where mj: "(m, j) \<in> sys_accepts t" using m PAXOS_ACCEPT by auto
  have w: "wire_message m0 = PAXOS_ACCEPT m"
    using wire_with_bytes [OF asked_accept_bytes [OF inv mj]] PAXOS_ACCEPT by simp
  obtain st msg where a: "acceptor_receive_accept (sys_acceptors t i) m = Inr (st, msg)"
    and r': "r' = r\<lparr>rp_acceptor := (rp_acceptor r)\<lparr>ea_state := Some st\<rparr>, rp_calls := rp_calls r + 1\<rparr>"
    and out: "out = (case msg of None \<Rightarrow> [] | Some m \<Rightarrow>
        if message_type m = TY_ACCEPTED then peers_foreach_client (rp_peers r) (peer_send_paxos_message m)
        else if message_type m = TY_PREEMPTED then [Net_write (send_paxos_message (peer_get_buffer x) m)] else [])"
    using h rel unfolding w
    by (auto simp: callback_defs evacceptor_handle_accept_def with_acceptor_def replica_rel_def)
  from acceptor_accept_moves [OF i(1,2) mj a] obtain t' where
    t': "moves n B i t t'" "sys_acceptors t' i = st" "sys_proposers t' = sys_proposers t" "sys_learners t' = sys_learners t"
    "\<forall>m. msg = Some m \<longrightarrow> replied t' i m" by blast
  have "does t' B i (rp_peers r) out"
    by (rule does_clients)
      (use t'(5) x in \<open>auto simp: out peer_get_buffer_def peers_foreach_client_def peer_send_paxos_message_def
        split: option.splits if_splits\<close>)
  then show ?thesis unfolding r' by (rule follows_acceptor [OF rel t'(1-4)])
next
  case (PAXOS_TRIM m)
  obtain st d where a: "acceptor_receive_trim (sys_acceptors t i) m = Inr (st, d)"
    and r': "r' = r\<lparr>rp_acceptor := (rp_acceptor r)\<lparr>ea_state := Some st\<rparr>, rp_calls := rp_calls r + 1\<rparr>"
    and out: "out = []"
    using h rel unfolding PAXOS_TRIM
    by (auto simp: callback_defs evacceptor_handle_trim_def with_acceptor_def replica_rel_def)
  from acceptor_trim_moves [OF i(1,2) a] obtain t' where
    t': "moves n B i t t'" "sys_acceptors t' i = st" "sys_proposers t' = sys_proposers t" "sys_learners t' = sys_learners t"
    by blast
  have "does t' B i (rp_peers r) out" by (simp add: does_def out)
  then show ?thesis unfolding r' by (rule follows_acceptor [OF rel t'(1-4)])
next
  case (PAXOS_CLIENT_VALUE v)
  then obtain data where d: "data \<in> B" "data \<noteq> []" "client_value v = paxos_value_new data (int (length data))"
    using m by auto
  have "wire_value (client_value v) = client_value v"
    using d(2,3) by (simp add: wire_value_def paxos_value_new_def)
  then have w: "wire_message m0 = PAXOS_CLIENT_VALUE v" using PAXOS_CLIENT_VALUE by simp
  obtain ep where p: "evproposer_handle_client_value (rp_peers r) (clk (rp_calls r)) (rp_proposer r) v = Some (Inr (ep, out))"
    and r': "r' = r\<lparr>rp_proposer := ep, rp_calls := rp_calls r + 1\<rparr>"
    using h unfolding w by (auto simp: callback_defs)
  have st: "ep_state (rp_proposer r) = sys_proposers t i" using rel by (simp add: replica_rel_def)
  show ?thesis unfolding r' by (rule follows_proposer [OF rel handle_client_value_moves [OF i(3) st d p]])
next
  case (PAXOS_REPEAT m)
  let ?ea = "rp_acceptor r" and ?st = "sys_acceptors t i"
  have ea: "ea_state ?ea = Some ?st" using rel by (simp add: replica_rel_def)
  have ok: "mem_ok (acc_store ?st)"
    using acceptor_coversD(1) [OF sys_invD(3) [OF inv i(1,2)]] by (simp add: ms.acc_ok_def)
  obtain st where l: "repeat_loop ?st (pr_bev x) (repeat_from m) (repeat_to m) = Some (Inr (st, out))"
    and r': "r' = r\<lparr>rp_acceptor := ?ea\<lparr>ea_state := Some st\<rparr>, rp_calls := rp_calls r + 1\<rparr>"
    using h ea unfolding PAXOS_REPEAT
    by (auto simp: callback_defs evacceptor_handle_repeat_def peer_get_buffer_def)
  note lo = repeat_loop_writes [OF l ok refl]
  have "does t B i (rp_peers r) out"
  proof (rule does_says, rule ballI)
    fix a
    assume a: "a \<in> set out"
    from lo(2) [OF a] obtain j q where q: "\<not> mem_lost (acc_store ?st) j" "mem_view (acc_store ?st) j = Some q"
      "has_bytes (accepted_value q)" "a = Net_write (send_paxos_message (pr_bev x) (PAXOS_ACCEPTED q))" by blast
    have "says t i (PAXOS_ACCEPTED q)"
    proof (cases "decode_write (msgpack_pack_paxos_message (PAXOS_ACCEPTED q))")
      case (Some q')
      have "message_wf (PAXOS_ACCEPTED q)" using mem_view_wf [OF ok q(2)] by simp
      from decode_wire [OF this Some] have "q' = PAXOS_ACCEPTED q" using wire_with_bytes [OF q(3)] by simp
      moreover have "pr_bev x \<in> set (client_bufs r')" using x by (simp add: r' client_bufs_def)
      ultimately have "PAXOS_ACCEPTED q \<in> set (sent_on (client_bufs r') out)"
        unfolding mem_sent_on using a q(4) Some by (auto simp: send_paxos_message_def)
      then have "accepted_ballot q = accepted_value_ballot q" using claims by (auto simp: list_all_iff)
      then have "(q, i) \<in> sys_accepteds t"
        using records_sentD [OF sent i(1,2) q(1,2)] q(3) by (simp add: record_sent_def)
      then show ?thesis by (simp add: says_def)
    qed (simp add: says_def)
    then show "\<exists>x \<in> set (ps_clients (rp_peers r)). \<exists>m. says t i m \<and> a = Net_write (send_paxos_message (pr_bev x) m)"
      using x q(4) by blast
  qed
  moreover have "sys_acceptors t i = st" by (simp add: lo(1))
  ultimately show ?thesis unfolding r' by (intro follows_acceptor [OF rel moves_refl]) simp_all
qed (use m in simp_all)


lemma follows_learner:
  assumes rel: "replica_rel n t i r"
    and mv: "\<exists>t'. lmoves n B i t out t' \<and> sys_learners t' (nat i) = el_state el"
  shows "\<exists>t'. follows n B i t (r\<lparr>rp_learner := el, rp_calls := k\<rparr>) out t'"
proof -
  obtain t' where t': "lmoves n B i t out t'" "sys_learners t' (nat i) = el_state el" using mv by blast
  have "does t' B i (rp_peers r) out" by (rule delivers_does) (use t'(1) in \<open>simp add: lmoves_def\<close>)
  then show ?thesis using rel t' by (auto simp: follows_def lmoves_def replica_rel_def)
qed

lemma says_moves: "says t i m \<Longrightarrow> moves n C j t t' \<Longrightarrow> says t' i m"
  using replied_mono by (auto simp: says_def)

lemma does_moves: "does t B i ps out \<Longrightarrow> moves n C j t t' \<Longrightarrow> does t' B i ps out"
  unfolding does_def using asked_moves says_moves movesD(4) by (metis subsetD)

lemma follows_trans:
  assumes "follows n B i t r1 o1 t1" and "follows n B i t1 r2 o2 t2" and "rp_peers r2 = rp_peers r1"
  shows "follows n B i t r2 (o1 @ o2) t2"
proof -
  have mv: "moves n B i t1 t2" using assms(2) by (simp add: follows_def)
  have "does t1 B i (rp_peers r2) o1" "does t2 B i (rp_peers r2) o2" using assms by (simp_all add: follows_def)
  then show ?thesis
    using assms(1,2) moves_trans [OF _ mv] does_append [OF does_moves [OF _ mv]] by (auto simp: follows_def)
qed

lemma reply_follows:
  assumes inv: "sys_inv n t" and rel: "replica_rel n t i r" and i: "0 \<le> i" "i < n" "proposer_id_ok i"
    and k: "k < length (ps_peers (rp_peers r))" and m: "replied t (int k) m0"
    and h: "dispatch_message (ev_call now clk) replica_subs (ps_peers (rp_peers r) ! k) (Some (wire_message m0)) r = Some (Inr (r', out))"
    and high: "list_all ballot_high (sent_on (peer_bufs r') out)"
  shows "\<exists>t'. follows n B i t r' out t'"
proof -
  let ?x = "ps_peers (rp_peers r) ! k" and ?ps = "rp_peers r" and ?c = "rp_calls r"
  have id: "pr_id ?x = int k" using rel k by (simp add: replica_rel_def peers_rel_def peers_ok_def placed_def)
  have st: "ep_state (rp_proposer r) = sys_proposers t i" "el_state (rp_learner r) = sys_learners t (nat i)"
    using rel by (simp_all add: replica_rel_def)
  have ne: "ps_peers ?ps \<noteq> []" using k by auto
  note fp = follows_proposer [OF rel]
  show ?thesis
  proof (cases m0)
    case (PAXOS_PROMISE p)
    obtain ep where p: "evproposer_handle_promise ?ps (now ?c) (clk ?c) (rp_proposer r) ?x
        (p\<lparr>promise_value := wire_value (promise_value p)\<rparr>) = Some (Inr (ep, out))"
      and r': "r' = r\<lparr>rp_proposer := ep, rp_calls := ?c + 1\<rparr>"
      using h unfolding PAXOS_PROMISE by (auto simp: callback_defs)
    have "list_all ballot_high (sent_on (map pr_bev (ps_peers ?ps)) out)" using high by (simp add: r' peer_bufs_def)
    from handle_promise_moves [OF i(3) st(1) _ p this ne] m id
    show ?thesis unfolding r' by (intro fp) (simp add: PAXOS_PROMISE)
  next
    case (PAXOS_ACCEPTED a)
    have ma: "(a, pr_id ?x) \<in> sys_accepteds t" using m id by (simp add: PAXOS_ACCEPTED)
    have w: "wire_message m0 = PAXOS_ACCEPTED a"
      using wire_with_bytes [OF replied_accepted_bytes [OF inv ma]] PAXOS_ACCEPTED by simp
    obtain ep el o1 o2 where p: "evproposer_handle_accepted ?ps (clk ?c) (rp_proposer r) ?x a = Some (Inr (ep, o1))"
      and l: "evlearner_handle_accepted (rp_learner r) ?x a = Some (Inr (el, o2))"
      and r': "r' = r\<lparr>rp_proposer := ep, rp_calls := ?c + 1, rp_learner := el, rp_calls := ?c + 2\<rparr>" and out: "out = o1 @ o2"
      using h unfolding w by (auto simp: callback_defs)
    obtain t1 where t1: "follows n B i t (r\<lparr>rp_proposer := ep, rp_calls := ?c + 1\<rparr>) o1 t1"
      using fp [OF handle_accepted_moves [OF i(3) st(1) ma p]] by blast
    have "moves n B i t t1" using t1 by (simp add: follows_def)
    then have ma': "(a, pr_id ?x) \<in> sys_accepteds t1" unfolding moves_def using ma by blast
    have rel1: "replica_rel n t1 i (r\<lparr>rp_proposer := ep, rp_calls := ?c + 1\<rparr>)" using t1 by (simp add: follows_def)
    then have "el_state (rp_learner r) = sys_learners t1 (nat i)" by (simp add: replica_rel_def)
    from follows_learner [OF rel1 handle_learner_moves [OF i(1) this ma' l], of B "?c + 2"]
    obtain t2 where "follows n B i t1 r' o2 t2" by (auto simp: r')
    moreover have "rp_peers r' = rp_peers (r\<lparr>rp_proposer := ep, rp_calls := ?c + 1\<rparr>)" by (simp add: r')
    ultimately show ?thesis unfolding out using follows_trans [OF t1] by blast
  next
    case (PAXOS_PREEMPTED p)
    obtain ep where p: "evproposer_handle_preempted ?ps (now ?c) (clk ?c) (rp_proposer r) p = Some (Inr (ep, out))"
      and r': "r' = r\<lparr>rp_proposer := ep, rp_calls := ?c + 1\<rparr>"
      using h unfolding PAXOS_PREEMPTED by (auto simp: callback_defs)
    have "list_all ballot_high (sent_on (map pr_bev (ps_peers ?ps)) out)" using high by (simp add: r' peer_bufs_def)
    from handle_preempted_moves [OF i(3) st(1) _ p this ne] m
    show ?thesis unfolding r' by (intro fp) (simp add: PAXOS_PREEMPTED)
  next
    case (PAXOS_ACCEPTOR_STATE p)
    have r': "r' = r\<lparr>rp_proposer := evproposer_handle_acceptor_state (rp_proposer r) p, rp_calls := ?c + 1\<rparr>" and out: "out = []"
      using h unfolding PAXOS_ACCEPTOR_STATE by (auto simp: callback_defs)
    show ?thesis unfolding r' out by (rule fp [OF handle_acceptor_state_moves [OF i(3) st(1)]])
  qed (use m in simp_all)
qed

section \<open>Every event is simulated\<close>

lemma does_requests_all:
  assumes "asked t B m"
  shows "does t B i ps (peers_foreach_acceptor ps (\<lambda>x. send_paxos_message (pr_bev x) m))"
  using assms unfolding does_def peers_foreach_acceptor_def by auto

lemma does_request: "asked t B m \<Longrightarrow> x \<in> set (ps_peers ps) \<Longrightarrow> does t B i ps [Net_write (send_paxos_message (pr_bev x) m)]"
  unfolding does_def by auto

lemma does_timer: "does t B i ps [Net_timer_add k a b]"
  by (simp add: does_def)

lemma holes_does: "does t B i ps (evlearner_check_holes ps l)"
proof -
  have "peers_foreach_acceptor ps (peer_send_repeat m) = peers_foreach_acceptor ps (\<lambda>x. send_paxos_message (pr_bev x) (PAXOS_REPEAT m))" for m
    by (simp add: peers_foreach_acceptor_def peer_send_repeat_def send_paxos_repeat_def peer_get_buffer_def)
  then show ?thesis
    unfolding evlearner_check_holes_def Let_def
    by (auto intro!: does_append does_timer does_requests_all simp: does_def [where out = "[]"] split: option.splits)
qed

lemma trim_does: "does t B i (rp_peers r) (evpaxos_replica_send_trim r iid)"
proof -
  have "evpaxos_replica_send_trim r iid =
      peers_foreach_acceptor (rp_peers r) (\<lambda>x. send_paxos_message (pr_bev x) (PAXOS_TRIM \<lparr>trim_iid = iid\<rparr>))"
    by (simp add: evpaxos_replica_send_trim_def peers_foreach_acceptor_def peer_send_trim_def send_paxos_trim_def peer_get_buffer_def)
  then show ?thesis by (simp add: does_requests_all)
qed

lemma state_does:
  assumes "send_acceptor_state ps a = Inr out"
  shows "does t B i ps out"
proof -
  obtain st where out: "out = peers_foreach_client ps (peer_send_paxos_message (PAXOS_ACCEPTOR_STATE st)) @
      [Net_timer_add Timer_acceptor_state (fst (ea_timer_tv a)) (snd (ea_timer_tv a))]"
    using assms by (auto simp: send_acceptor_state_def with_acceptor_def Let_def split: option.splits)
  have "does t B i ps (peers_foreach_client ps (peer_send_paxos_message (PAXOS_ACCEPTOR_STATE st)))"
    by (rule does_clients)
      (auto simp: peers_foreach_client_def peer_send_paxos_message_def peer_get_buffer_def intro!: exI [of _ "PAXOS_ACCEPTOR_STATE st"])
  then show ?thesis unfolding out by (intro does_append does_timer)
qed

lemma submit_does:
  assumes ok: "peers_ok (rp_peers r)" and data: "data \<in> B" "data \<noteq> []"
    and h: "evpaxos_replica_submit r data (int (length data)) = Inr out"
  shows "does t B i (rp_peers r) out"
proof -
  let ?v = "PAXOS_CLIENT_VALUE \<lparr>client_value = \<lparr>paxos_value_len = int (length data), paxos_value_val = Some data\<rparr>\<rparr>"
  have v: "asked t B ?v" using data by (auto simp: paxos_value_new_def memcpy_bytes_def intro!: bexI [of _ data])
  have out: "out = (case find peer_connected (ps_peers (rp_peers r)) of
      None \<Rightarrow> [] | Some p \<Rightarrow> [Net_write (send_paxos_message (pr_bev p) ?v)])"
    using submit_from_find [OF ok, of 0] h
    by (auto simp: evpaxos_replica_submit_def peers_count_def paxos_submit_def split: option.split)
  show ?thesis
  proof (cases "find peer_connected (ps_peers (rp_peers r))")
    case (Some p)
    then have "p \<in> set (ps_peers (rp_peers r))" by (auto simp: find_Some_iff)
    then show ?thesis using does_request [OF v] by (simp add: out Some)
  qed (simp add: out does_def)
qed

lemma follows_nothing: "replica_rel n t i r \<Longrightarrow> does t B i (rp_peers r) out \<Longrightarrow> follows n B i t r out t"
  by (simp add: follows_def moves_refl)

text \<open>A step of the abstract system that follows a replica makes up for its commit.\<close>

lemma commit_follows:
  assumes rel: "ev_rel n s t" and inv: "\<And>t'. reaches n t t' \<Longrightarrow> sys_inv n t'" and i: "0 \<le> i" "i < n"
    and f: "\<exists>t'. follows n (es_submitted s) i t r out t'"
  shows "\<exists>t'. reaches n t t' \<and> ev_rel n (ev_commit i r out s) t'"
proof -
  obtain t' where t': "moves n (es_submitted s) i t t'" "replica_rel n t' i r" "does t' (es_submitted s) i (rp_peers r) out"
    using f by (auto simp: follows_def)
  show ?thesis using commit_rel [OF rel inv [OF movesD(1) [OF t'(1)]] t'(1) i t'(2,3)] movesD(1) [OF t'(1)] by blast
qed

lemma ev_returns_Some:
  "ev_returns i res s = Some s' \<longleftrightarrow> (\<exists>r out. res = Some (Inr (r, out)) \<and> s' = ev_commit i r out s)"
  by (auto simp: ev_returns_def split: option.splits sum.splits)

lemma commit_no_wrap: "no_wrap (ev_commit i r out s) \<Longrightarrow> list_all ballot_high (sent_on (peer_bufs r) out)"
  by (auto simp: no_wrap_def ev_commit_def list_all_iff)

lemma commit_no_overclaim:
  "no_overclaim (ev_commit i r out s) \<Longrightarrow> list_all ballot_accepted (sent_on (client_bufs r) out)"
  by (auto simp: no_overclaim_def ev_commit_def list_all_iff)

text \<open>What has been written stays on the network.\<close>

lemma exec_grows:
  assumes "ev_exec cfg n s e = Some s'"
  shows "es_requests s \<subseteq> es_requests s'" and "es_replies s \<subseteq> es_replies s'"
  using assms
  by (cases e; auto simp: Let_def ev_returns_Some ev_commit_def split: if_splits sum.splits)+

lemma no_wrap_before: "ev_exec cfg n s e = Some s' \<Longrightarrow> no_wrap s' \<Longrightarrow> no_wrap s"
  using exec_grows(1) unfolding no_wrap_def by blast

lemma no_overclaim_before: "ev_exec cfg n s e = Some s' \<Longrightarrow> no_overclaim s' \<Longrightarrow> no_overclaim s"
  using exec_grows(2) unfolding no_overclaim_def by blast

lemma on_rp_proposer_follows:
  assumes rel: "replica_rel n t i r"
    and h: "on_rp_proposer r res = Some (Inr (r', out))"
    and mv: "\<And>ep. res = Some (Inr (ep, out)) \<Longrightarrow>
      \<exists>t'. pmoves n B i (ps_peers (rp_peers r)) t out t' \<and> sys_proposers t' i = ep_state ep"
  shows "\<exists>t'. follows n B i t r' out t'"
proof -
  obtain ep where ep: "res = Some (Inr (ep, out))" "r' = r\<lparr>rp_proposer := ep\<rparr>"
    using h by (auto simp: on_rp_proposer_def bindR_Inr)
  have "r' = r\<lparr>rp_proposer := ep, rp_calls := rp_calls r\<rparr>" by (simp add: ep(2))
  then show ?thesis using follows_proposer [OF rel mv [OF ep(1)]] by metis
qed

text \<open>Values that are submitted add to what may be asked.\<close>

lemma asked_more: "asked t B m \<Longrightarrow> B \<subseteq> C \<Longrightarrow> asked t C m"
  by (cases m) auto

lemma rel_submitted:
  assumes "ev_rel n s t"
  shows "ev_rel n (s\<lparr>es_submitted := insert data (es_submitted s)\<rparr>) t"
proof -
  have "\<exists>m0. asked t (insert data (es_submitted s)) m0 \<and> m = wire_message m0" if "m \<in> es_requests s" for m
    using ev_relD(2) [OF assms that] asked_more by blast
  moreover have "values_of (es_submitted s) \<subseteq> values_of (insert data (es_submitted s))" by (auto simp: values_of_def)
  ultimately show ?thesis using assms unfolding ev_rel_def by auto
qed

text \<open>Connections come and go; the acceptors of a replica stay, and its buffers stay apart.\<close>

lemma apart_fewer:
  assumes "apart ps" and "ps_peers ps' = ps_peers ps"
    and "set (map pr_bev (ps_clients ps')) \<subseteq> set (map pr_bev (ps_clients ps))"
  shows "apart ps'"
  using assms unfolding apart_def set_map by (metis imageE image_eqI subsetD)

lemma bufs_renumber: "map pr_bev (renumber xs) = map pr_bev xs"
proof -
  have "map pr_bev (renumber xs) = map (pr_bev \<circ> snd) (zip [0..<length xs] xs)" by (simp add: renumber_def comp_def case_prod_beta)
  also have "\<dots> = map pr_bev xs" by (simp flip: map_map)
  finally show ?thesis .
qed

lemma set_without: "set (without k xs) \<subseteq> set xs"
  by (auto simp: without_def dest: in_set_takeD in_set_dropD)

lemma connection_rel:
  assumes rel: "peers_rel n (rp_peers r)" and f: "fresh_buffer r e"
  shows "peers_rel n (conn_exec cfg (rp_peers r) e)"
proof -
  let ?ps = "rp_peers r" and ?ps' = "conn_exec cfg (rp_peers r) e"
  have ok: "peers_ok ?ps" and ap: "apart ?ps" using rel by (simp_all add: peers_rel_def)
  have "ps_subs ?ps' = ps_subs ?ps \<and> length (ps_peers ?ps') = length (ps_peers ?ps) \<and> apart ?ps'"
  proof (cases e)
    case (Conn_accept fd addr bev)
    then show ?thesis using ap f
      by (auto simp: on_accept_def Let_def apart_def make_peer_def peer_bufs_def client_bufs_def)
  next
    case (Conn_client k ev)
    show ?thesis
    proof (cases "k < length (ps_clients ?ps) \<and> (ev AND BEV_EVENT_EOF \<noteq> 0 \<or> ev AND BEV_EVENT_ERROR \<noteq> 0)")
      case True
      have fewer: "set (map pr_bev (renumber (without k (ps_clients ?ps)))) \<subseteq> set (map pr_bev (ps_clients ?ps))"
        unfolding bufs_renumber set_map by (rule image_mono) (rule set_without)
      have eq: "?ps' = ?ps\<lparr>ps_clients := renumber (without k (ps_clients ?ps))\<rparr>"
        using True on_client_event_eq [OF ok, of k ev] by (simp add: Conn_client)
      have "apart ?ps'" by (rule apart_fewer [OF ap]) (use fewer in \<open>simp_all add: eq\<close>)
      then show ?thesis by (simp add: eq)
    qed (use ap in \<open>auto simp: Conn_client on_client_event_def\<close>)
  next
    case (Conn_peer k ev bev)
    then show ?thesis using ap f
      by (auto simp: Conn_peer on_peer_event_def Let_def apart_def make_peer_def peer_bufs_def client_bufs_def
          dest!: subsetD [OF set_update_subset_insert])
  qed (use f in simp)
  then show ?thesis using rel conn_exec_ok [OF ok] by (simp add: peers_rel_def)
qed

text \<open>A client that is no replica.\<close>

lemma client_rel:
  assumes rel: "ev_rel n s t" and inv: "sys_inv n t" and data: "data \<noteq> []"
  shows "ev_rel n (s\<lparr>es_requests := es_requests s \<union>
      set_option (written [0] (Net_write (paxos_submit 0 data (int (length data))))),
      es_submitted := insert data (es_submitted s)\<rparr>) t"
proof -
  let ?v = "PAXOS_CLIENT_VALUE \<lparr>client_value = \<lparr>paxos_value_len = int (length data), paxos_value_val = Some data\<rparr>\<rparr>"
  let ?B = "insert data (es_submitted s)"
  have v: "asked t ?B ?v" using data by (auto simp: paxos_value_new_def memcpy_bytes_def)
  have "\<exists>m0. asked t ?B m0 \<and> m = wire_message m0"
    if "m \<in> set_option (written [0] (Net_write (paxos_submit 0 data (int (length data)))))" for m
    using that v decode_wire [OF asked_wf [OF inv v]]
    by (auto simp: paxos_submit_def send_paxos_message_def simp del: asked.simps intro!: exI [of _ ?v])
  then show ?thesis using rel_submitted [OF rel, of data] unfolding ev_rel_def by auto
qed

lemma exec_rel:
  assumes rel: "ev_rel n s t" and inv: "\<And>t'. reaches n t t' \<Longrightarrow> sys_inv n t'" and n: "n \<le> int MAX_N_OF_PROPOSERS"
    and sent: "records_sent n t" and wrap: "no_wrap s'" and claims: "no_overclaim s'"
    and e: "ev_exec cfg n s e = Some s'"
  shows "\<exists>t'. reaches n t t' \<and> ev_rel n s' t'"
proof -
  have inv0: "sys_inv n t" by (rule inv [OF reaches_refl])
  have subs: "ps_subs (rp_peers (es_replicas s i)) = replica_subs" if "0 \<le> i" "i < n" for i
    using ev_relD(1) [OF rel that] by (simp add: replica_rel_def peers_rel_def)
  have pid: "proposer_id_ok i" if "0 \<le> i" "i < n" for i using that n by (simp add: proposer_id_ok_def)
  show ?thesis
  proof (cases e)
    case (EV_request i k m now clk)
    let ?r = "es_replicas s i"
    obtain r' out where h: "0 \<le> i" "i < n" "m \<in> es_requests s" "k < length (ps_clients (rp_peers ?r))"
      "dispatch_message (ev_call now clk) (ps_subs (rp_peers ?r)) (ps_clients (rp_peers ?r) ! k) (Some m) ?r = Some (Inr (r', out))"
      and c: "s' = ev_commit i r' out s"
      using e by (auto simp: EV_request Let_def ev_returns_Some split: if_splits)
    obtain m0 where m0: "asked t (es_submitted s) m0" "m = wire_message m0" using ev_relD(2) [OF rel h(3)] by blast
    show ?thesis unfolding c
      by (rule commit_follows [OF rel inv h(1,2)], assumption,
          rule request_follows [OF inv0 sent ev_relD(1) [OF rel h(1,2)] h(1,2) pid [OF h(1,2)] nth_mem [OF h(4)] m0(1)])
        (use h(5) commit_no_overclaim claims c in \<open>simp_all add: m0(2) subs [OF h(1,2)]\<close>)
  next
    case (EV_reply i k m now clk)
    let ?r = "es_replicas s i"
    obtain r' out where h: "0 \<le> i" "i < n" "(int k, m) \<in> es_replies s" "k < length (ps_peers (rp_peers ?r))"
      "dispatch_message (ev_call now clk) (ps_subs (rp_peers ?r)) (ps_peers (rp_peers ?r) ! k) (Some m) ?r = Some (Inr (r', out))"
      and c: "s' = ev_commit i r' out s"
      using e by (auto simp: EV_reply Let_def ev_returns_Some split: if_splits)
    obtain m0 where m0: "replied t (int k) m0" "m = wire_message m0" using ev_relD(3) [OF rel h(3)] by blast
    show ?thesis unfolding c
      by (rule commit_follows [OF rel inv h(1,2)], assumption,
          rule reply_follows [OF inv0 ev_relD(1) [OF rel h(1,2)] h(1,2) pid [OF h(1,2)] h(4) m0(1)])
        (use h(5) commit_no_wrap wrap c in \<open>simp_all add: m0(2) subs [OF h(1,2)]\<close>)
  next
    case (EV_client data)
    then show ?thesis using e client_rel [OF rel inv0, of data] reaches_refl [of n t] by (auto split: if_splits)
  next
    case (EV_submit i data)
    let ?s = "s\<lparr>es_submitted := insert data (es_submitted s)\<rparr>" and ?r = "es_replicas s i"
    obtain out where h: "0 \<le> i" "i < n" "data \<noteq> []" "evpaxos_replica_submit ?r data (int (length data)) = Inr out"
      and c: "s' = ev_commit i ?r out ?s"
      using e by (auto simp: EV_submit Let_def split: if_splits sum.splits)
    have r: "replica_rel n t i ?r" by (rule ev_relD(1) [OF rel h(1,2)])
    then have "peers_ok (rp_peers ?r)" by (simp add: replica_rel_def peers_rel_def)
    from submit_does [OF this _ h(3,4), of "es_submitted ?s"] show ?thesis
      unfolding c using commit_follows [OF rel_submitted [OF rel] inv h(1,2)] follows_nothing [OF r] by force
  next
    case (EV_trim i iid)
    then have h: "0 \<le> i" "i < n" and c: "s' = ev_commit i (es_replicas s i) (evpaxos_replica_send_trim (es_replicas s i) iid) s"
      using e by (auto simp: Let_def split: if_splits)
    show ?thesis unfolding c using commit_follows [OF rel inv h] follows_nothing [OF ev_relD(1) [OF rel h] trim_does] by blast
  next
    case (EV_timeouts i now)
    let ?r = "es_replicas s i"
    obtain r' out where h: "0 \<le> i" "i < n"
      "on_rp_proposer ?r (evproposer_check_timeouts cfg (rp_peers ?r) now (rp_proposer ?r)) = Some (Inr (r', out))"
      and c: "s' = ev_commit i r' out s"
      using e by (auto simp: EV_timeouts Let_def ev_returns_Some split: if_splits)
    have r: "replica_rel n t i ?r" by (rule ev_relD(1) [OF rel h(1,2)])
    then have "ep_state (rp_proposer ?r) = sys_proposers t i" by (simp add: replica_rel_def)
    from on_rp_proposer_follows [OF r h(3) check_timeouts_moves [OF pid [OF h(1,2)] this, where cfg = cfg and now = now]]
    show ?thesis unfolding c by (intro commit_follows [OF rel inv h(1,2)])
  next
    case (EV_preexec i clk)
    let ?r = "es_replicas s i"
    obtain r' out where h: "0 \<le> i" "i < n"
      "on_rp_proposer ?r (evproposer_preexec_once (rp_peers ?r) clk (rp_proposer ?r)) = Some (Inr (r', out))"
      and c: "s' = ev_commit i r' out s"
      using e by (auto simp: EV_preexec Let_def ev_returns_Some split: if_splits)
    have r: "replica_rel n t i ?r" by (rule ev_relD(1) [OF rel h(1,2)])
    then have "ep_state (rp_proposer ?r) = sys_proposers t i" by (simp add: replica_rel_def)
    from on_rp_proposer_follows [OF r h(3) preexec_once_moves [OF pid [OF h(1,2)] this, where clk = clk]]
    show ?thesis unfolding c by (intro commit_follows [OF rel inv h(1,2)])
  next
    case (EV_holes i)
    then have h: "0 \<le> i" "i < n"
      and c: "s' = ev_commit i (es_replicas s i) (evlearner_check_holes (rp_peers (es_replicas s i)) (rp_learner (es_replicas s i))) s"
      using e by (auto simp: Let_def split: if_splits)
    show ?thesis unfolding c using commit_follows [OF rel inv h] follows_nothing [OF ev_relD(1) [OF rel h] holes_does] by blast
  next
    case (EV_state i)
    let ?r = "es_replicas s i"
    obtain out where h: "0 \<le> i" "i < n" "send_acceptor_state (rp_peers ?r) (rp_acceptor ?r) = Inr out"
      and c: "s' = ev_commit i ?r out s"
      using e by (auto simp: EV_state Let_def split: if_splits sum.splits)
    show ?thesis
      unfolding c using commit_follows [OF rel inv h(1,2)] follows_nothing [OF ev_relD(1) [OF rel h(1,2)] state_does [OF h(3)]] by blast
  next
    case (EV_connection i ce)
    let ?r = "es_replicas s i"
    have h: "0 \<le> i" "i < n" "fresh_buffer ?r ce"
      and s': "s' = s\<lparr>es_replicas := (es_replicas s)(i := ?r\<lparr>rp_peers := conn_exec cfg (rp_peers ?r) ce\<rparr>)\<rparr>"
      using e by (auto simp: EV_connection Let_def split: if_splits)
    have "replica_rel n t i (?r\<lparr>rp_peers := conn_exec cfg (rp_peers ?r) ce\<rparr>)"
      using ev_relD(1) [OF rel h(1,2)] connection_rel [OF _ h(3)] by (simp add: replica_rel_def)
    then have "ev_rel n s' t" using rel by (simp add: ev_rel_def s')
    then show ?thesis using reaches_refl by blast
  qed
qed

text \<open>Replicas at work are a run of the abstract system.\<close>

lemma start_rel:
  assumes "config_ok c" and "\<forall>i. int (length (bevs i)) = evpaxos_acceptor_count c"
  shows "ev_rel (evpaxos_acceptor_count c) (ev_start inet_addr cfg c bevs) (sys_start cfg (evpaxos_acceptor_count c))"
proof -
  let ?n = "evpaxos_acceptor_count c"
  have "placed (replica_peers inet_addr c (bevs i))" for i
    using replica_peers_ids(1) [of inet_addr c "bevs i"] unfolding placed_def
    by (metis (no_types, lifting) add_0 diff_zero length_map length_upt nth_map nth_upt)
  moreover have "int (length (replica_peers inet_addr c (bevs i))) = ?n" for i
    using assms(2) by (simp add: replica_peers_def)
  ultimately have "peers_rel ?n (rp_peers (replica_start inet_addr cfg i c (bevs i)))" for i
    by (simp add: peers_rel_def peers_ok_def replica_start_def peers_new_def apart_def placed_def replica_subs_def MAX_SUBS_def)
  then have "replica_rel ?n (sys_start cfg ?n) i (replica_start inet_addr cfg i c (bevs i))" for i
    by (simp add: replica_rel_def sys_start_def replica_start_def)
  then show ?thesis by (simp add: ev_rel_def ev_start_def sys_start_def)
qed

lemma system_simulated:
  assumes "ev_reachable inet_addr cfg c bevs s"
    and c: "config_ok c" "\<forall>i. int (length (bevs i)) = evpaxos_acceptor_count c"
    and "no_wrap s" and "no_overclaim s"
  shows "\<exists>t. reachable False cfg (evpaxos_acceptor_count c) t \<and> ev_rel (evpaxos_acceptor_count c) s t"
  using assms(1,4,5)
proof (induction rule: ev_reachable.induct)
  case ev_init
  show ?case using start_rel [OF c] reachable.start by blast
next
  case (ev_step s e s')
  let ?n = "evpaxos_acceptor_count c"
  obtain t where t: "reachable False cfg ?n t" "ev_rel ?n s t"
    using ev_step.IH no_wrap_before no_overclaim_before ev_step.hyps(2) ev_step.prems by blast
  have n: "0 \<le> ?n" "?n \<le> int MAX_N_OF_PROPOSERS" using c(1) by (simp_all add: evpaxos_acceptor_count_def config_ok_def)
  have "sys_inv ?n t'" if "reaches ?n t t'" for t'
    by (rule reachable_inv [OF reaches_reachable [OF t(1) that] _ n(1)]) simp
  from exec_rel [OF t(2) this n(2) reachable_sent [OF t(1) n(1)] ev_step.prems ev_step.hyps(2)] show ?case using reaches_reachable [OF t(1)] by blast
qed

section \<open>Evaluation\<close>

text \<open>The loops with projections in place of patterns, which the evaluator takes apart lazily.\<close>

lemma accept_loop_code [code]:
  "accept_loop ps p =
     (case proposer_accept p of
        Inl e \<Rightarrow> Some (Inl e)
      | Inr x \<Rightarrow>
          (case snd x of
             None \<Rightarrow> Some (Inr (fst x, []))
           | Some a \<Rightarrow>
               (case accept_loop ps (fst x) of
                  None \<Rightarrow> None
                | Some r \<Rightarrow>
                    (case r of
                       Inl e \<Rightarrow> Some (Inl e)
                     | Inr y \<Rightarrow> Some (Inr (fst y, send_accept_all ps a @ snd y))))))"
  by (subst accept_loop.simps) (auto simp: bindR_def split: option.splits sum.splits)

lemma retry_accepts_code [code]:
  "retry_accepts cfg ps iter p =
     (case timeout_iterator_accept cfg iter p of
        Inl e \<Rightarrow> Some (Inl e)
      | Inr x \<Rightarrow>
          (case snd (snd x) of
             None \<Rightarrow> Some (Inr (fst x, fst (snd x), []))
           | Some a \<Rightarrow>
               (case retry_accepts cfg ps (fst x) (fst (snd x)) of
                  None \<Rightarrow> None
                | Some r \<Rightarrow>
                    (case r of
                       Inl e \<Rightarrow> Some (Inl e)
                     | Inr y \<Rightarrow> Some (Inr (fst y, fst (snd y), send_accept_all ps a @ snd (snd y)))))))"
  by (subst retry_accepts.simps) (auto simp: bindR_def split: option.splits sum.splits)

lemma retry_prepares_code [code]:
  "retry_prepares cfg ps iter p =
     (let x = timeout_iterator_prepare cfg iter p
      in case snd (snd x) of
           None \<Rightarrow> Some (Inr (fst x, fst (snd x), []))
         | Some m \<Rightarrow>
             (case retry_prepares cfg ps (fst x) (fst (snd x)) of
                None \<Rightarrow> None
              | Some r \<Rightarrow>
                  (case r of
                     Inl e \<Rightarrow> Some (Inl e)
                   | Inr y \<Rightarrow> Some (Inr (fst y, fst (snd y), send_prepare_all ps m @ snd (snd y))))))"
  by (subst retry_prepares.simps) (auto simp: bindR_def Let_def split: option.splits sum.splits prod.splits)

lemma deliver_next_closed_code [code]:
  "evlearner_deliver_next_closed l =
     (case snd (learner_deliver_next l) of
        None \<Rightarrow> Some (Inr (fst (learner_deliver_next l), []))
      | Some d \<Rightarrow>
          (case evlearner_deliver_next_closed (fst (learner_deliver_next l)) of
             None \<Rightarrow> None
           | Some r \<Rightarrow>
               (case r of
                  Inl e \<Rightarrow> Some (Inl e)
                | Inr y \<Rightarrow> Some (Inr (fst y, deliver_call d # snd y)))))"
  by (subst evlearner_deliver_next_closed.simps) (auto simp: bindR_def split: option.splits sum.splits prod.splits)

lemma repeat_loop_code [code]:
  "repeat_loop st buf iid last_iid =
     (if iid \<le> last_iid
      then (case acceptor_receive_repeat st iid of
              Inl e \<Rightarrow> Some (Inl e)
            | Inr x \<Rightarrow>
                (case repeat_loop (fst x) buf (iid + 1) last_iid of
                   None \<Rightarrow> None
                 | Some r \<Rightarrow>
                     (case r of
                        Inl e \<Rightarrow> Some (Inl e)
                      | Inr y \<Rightarrow> Some (Inr (fst y, (case snd x of None \<Rightarrow> [] | Some r \<Rightarrow> [Net_write (send_paxos_accepted buf r)]) @ snd y)))))
      else Some (Inr (st, [])))"
  by (subst repeat_loop.simps) (auto simp: bindR_def split: option.splits sum.splits)

lemma array_object_code [code]:
  "array_object calls =
     (case calls of
        Pack_array n # cs \<Rightarrow>
          (case scalar_objects cs of
             Some xs \<Rightarrow> if length xs = n \<and> int n < 2147483648 then Some (Obj_array xs) else None
           | None \<Rightarrow> None)
      | _ \<Rightarrow> None)"
  by (auto simp: array_object_def split: list.split pack_call.split option.split)

section \<open>Properties\<close>

lemma delivered_behind:
  assumes "ev_rel n s t" and "(i, iid, v, len) \<in> es_delivered s"
  obtains r where "(nat i, r) \<in> sys_delivered t" and "accepted_iid r = iid"
    and "v = paxos_value_val (accepted_value r)" and "len = paxos_value_len (accepted_value r)"
  using ev_relD(5) [OF assms] by (auto simp: deliver_call_def)

text \<open>
  C2. The replicas of the code refine the abstract system of acceptors, proposers and learners that
  exchange message records: after any history of connections, messages in any order (repeat
  requests included), timers and submitted values in which no ballot has wrapped around and no
  acceptor has answered a repeat request with a ballot above the one at which it accepted the
  value, the abstract system can be in a state where every acceptor, proposer and learner is as
  in its replica, and where the same has been delivered.
\<close>

theorem replicas_refine_paxos:
  assumes "ev_reachable inet_addr cfg c bevs s" and "config_ok c"
    and "\<forall>i. int (length (bevs i)) = evpaxos_acceptor_count c" and "no_wrap s" and "no_overclaim s"
  shows "\<exists>t. reachable False cfg (evpaxos_acceptor_count c) t \<and>
    (\<forall>i. 0 \<le> i \<longrightarrow> i < evpaxos_acceptor_count c \<longrightarrow>
       ea_state (rp_acceptor (es_replicas s i)) = Some (sys_acceptors t i) \<and>
       ep_state (rp_proposer (es_replicas s i)) = sys_proposers t i \<and>
       el_state (rp_learner (es_replicas s i)) = sys_learners t (nat i)) \<and>
    (\<forall>(i, iid, v, len) \<in> es_delivered s. \<exists>r. (nat i, r) \<in> sys_delivered t \<and> deliver_call r = App_deliver iid v len)"
proof -
  obtain t where t: "reachable False cfg (evpaxos_acceptor_count c) t" "ev_rel (evpaxos_acceptor_count c) s t"
    using system_simulated [OF assms] by blast
  have "\<forall>i. 0 \<le> i \<longrightarrow> i < evpaxos_acceptor_count c \<longrightarrow>
      ea_state (rp_acceptor (es_replicas s i)) = Some (sys_acceptors t i) \<and>
      ep_state (rp_proposer (es_replicas s i)) = sys_proposers t i \<and>
      el_state (rp_learner (es_replicas s i)) = sys_learners t (nat i)"
    using ev_relD(1) [OF t(2)] by (simp add: replica_rel_def)
  moreover have "\<forall>(i, iid, v, len) \<in> es_delivered s. \<exists>r. (nat i, r) \<in> sys_delivered t \<and> deliver_call r = App_deliver iid v len"
    using ev_relD(5) [OF t(2)] by blast
  ultimately show ?thesis using t(1) by blast
qed

text \<open>
  Two runs. Three replicas: replica 0 proposes a value, replicas 0 and 1 accept it, replicas 0 and 2
  deliver it. One replica on its own: it proposes a value twice, its learner hears of the second
  instance first, finds the hole, and asks the acceptor to repeat the first.
\<close>

definition acceptors_config :: "nat \<Rightarrow> evpaxos_config" where
  "acceptors_config n = empty_config\<lparr>acceptors_count := n,
     acceptors := map (\<lambda>i. if i < n then \<lparr>addr_addr = Some ''127.0.0.1'', addr_port = 8800 + int i\<rparr>
       else acceptors empty_config ! i) [0..<MAX_N_OF_PROPOSERS]\<rparr>"

definition three_acceptors :: evpaxos_config where
  "three_acceptors = acceptors_config 3"

definition one_acceptor :: evpaxos_config where
  "one_acceptor = acceptors_config 1"

definition demo_config :: "int \<Rightarrow> paxos_config" where
  "demo_config window = default_config\<lparr>proposer_preexec_window := window\<rparr>"

definition demo_clock :: "nat \<Rightarrow> timeval" where
  "demo_clock = (\<lambda>_. \<lparr>tv_sec = 0, tv_usec = 0\<rparr>)"

definition demo_start :: ev_system where
  "demo_start = ev_start (\<lambda>_. 0x7f000001) (demo_config 1) three_acceptors (\<lambda>_. [1, 2, 3])"

definition alone_start :: ev_system where
  "alone_start = ev_start (\<lambda>_. 0x7f000001) (demo_config 2) one_acceptor (\<lambda>_. [1])"

definition ask :: "int \<Rightarrow> paxos_message \<Rightarrow> ev_event" where
  "ask i m = EV_request i 0 m demo_clock (\<lambda>_. demo_clock)"

definition answer :: "int \<Rightarrow> nat \<Rightarrow> paxos_message \<Rightarrow> ev_event" where
  "answer i k m = EV_reply i k m demo_clock (\<lambda>_. demo_clock)"

definition wire_demo_value :: paxos_value where
  "wire_demo_value = paxos_value_new [7] 1"

definition wire_demo_prepare :: "iid_t \<Rightarrow> paxos_message" where
  "wire_demo_prepare k = PAXOS_PREPARE \<lparr>prepare_iid = k, prepare_ballot = 10\<rparr>"

definition wire_demo_promise :: "iid_t \<Rightarrow> paxos_message" where
  "wire_demo_promise k = PAXOS_PROMISE \<lparr>promise_iid = k, promise_ballot = 10, promise_value_ballot = 0, promise_value = null_value\<rparr>"

definition wire_demo_accept :: "iid_t \<Rightarrow> paxos_message" where
  "wire_demo_accept k = PAXOS_ACCEPT \<lparr>accept_iid = k, accept_ballot = 10, accept_value = wire_demo_value\<rparr>"

definition wire_demo_accepted :: "iid_t \<Rightarrow> paxos_message" where
  "wire_demo_accepted k = PAXOS_ACCEPTED
     \<lparr>accepted_iid = k, accepted_ballot = 10, accepted_value_ballot = 10, accepted_value = wire_demo_value\<rparr>"

definition demo_connection :: "int \<Rightarrow> ev_event" where
  "demo_connection i = EV_connection i (Conn_accept 9 \<lparr>sin_port = 1, sin_addr = 0\<rparr> 4)"

definition demo_events :: "ev_event list" where
  "demo_events =
     [demo_connection 0, demo_connection 1, EV_preexec 0 demo_clock,
      ask 0 (wire_demo_prepare 1), ask 1 (wire_demo_prepare 1), EV_client [7], ask 0 (PAXOS_CLIENT_VALUE \<lparr>client_value = wire_demo_value\<rparr>),
      answer 0 0 (wire_demo_promise 1), answer 0 1 (wire_demo_promise 1), ask 0 (wire_demo_accept 1), ask 1 (wire_demo_accept 1),
      answer 0 0 (wire_demo_accepted 1), answer 0 1 (wire_demo_accepted 1), answer 2 0 (wire_demo_accepted 1), answer 2 1 (wire_demo_accepted 1)]"

definition alone_events :: "ev_event list" where
  "alone_events =
     [demo_connection 0, EV_preexec 0 demo_clock, ask 0 (wire_demo_prepare 1), ask 0 (wire_demo_prepare 2), EV_client [7],
      ask 0 (PAXOS_CLIENT_VALUE \<lparr>client_value = wire_demo_value\<rparr>), ask 0 (PAXOS_CLIENT_VALUE \<lparr>client_value = wire_demo_value\<rparr>),
      answer 0 0 (wire_demo_promise 1), answer 0 0 (wire_demo_promise 2), ask 0 (wire_demo_accept 1), ask 0 (wire_demo_accept 2),
      answer 0 0 (wire_demo_accepted 2), EV_holes 0, ask 0 (PAXOS_REPEAT \<lparr>repeat_from = 1, repeat_to = 2\<rparr>),
      answer 0 0 (wire_demo_accepted 1)]"

lemma acceptors_config_ok: "n \<le> MAX_N_OF_PROPOSERS \<Longrightarrow> config_ok (acceptors_config n)"
  and acceptors_config_count: "evpaxos_acceptor_count (acceptors_config n) = int n"
  by (auto simp: config_ok_def acceptors_config_def empty_config_def evpaxos_acceptor_count_def MAX_N_OF_PROPOSERS_def)

lemma demo_configs:
  "config_ok three_acceptors" "evpaxos_acceptor_count three_acceptors = 3"
  "config_ok one_acceptor" "evpaxos_acceptor_count one_acceptor = 1"
  by (simp_all add: three_acceptors_def one_acceptor_def acceptors_config_ok acceptors_config_count MAX_N_OF_PROPOSERS_def)

lemma demo_reachable:
  obtains s where "ev_reachable (\<lambda>_. 0x7f000001) (demo_config 1) three_acceptors (\<lambda>_. [1, 2, 3]) s"
    and "no_wrap s" and "no_overclaim s"
    and "(0, 1, Some [7], 1) \<in> es_delivered s" and "(2, 1, Some [7], 1) \<in> es_delivered s"
proof -
  have "case ev_run (demo_config 1) 3 demo_start demo_events of
      None \<Rightarrow> False
    | Some s \<Rightarrow> no_wrap s \<and> no_overclaim s \<and>
        (0, 1, Some [7], 1) \<in> es_delivered s \<and> (2, 1, Some [7], 1) \<in> es_delivered s"
    by code_simp
  then obtain s where s: "ev_run (demo_config 1) 3 demo_start demo_events = Some s" "no_wrap s" "no_overclaim s"
    "(0, 1, Some [7], 1) \<in> es_delivered s" "(2, 1, Some [7], 1) \<in> es_delivered s"
    by (cases "ev_run (demo_config 1) 3 demo_start demo_events") auto
  have "ev_reachable (\<lambda>_. 0x7f000001) (demo_config 1) three_acceptors (\<lambda>_. [1, 2, 3]) demo_start"
    unfolding demo_start_def by (rule ev_init)
  from ev_run_reachable [OF this] s show thesis by (intro that [of s]) (simp_all add: demo_configs)
qed

lemma alone_reachable:
  obtains s where "ev_reachable (\<lambda>_. 0x7f000001) (demo_config 2) one_acceptor (\<lambda>_. [1]) s"
    and "no_wrap s" and "no_overclaim s" and "PAXOS_REPEAT \<lparr>repeat_from = 1, repeat_to = 2\<rparr> \<in> es_requests s"
    and "(0, 1, Some [7], 1) \<in> es_delivered s" and "(0, 2, Some [7], 1) \<in> es_delivered s" and "es_submitted s = {[7]}"
proof -
  have "case ev_run (demo_config 2) 1 alone_start alone_events of
      None \<Rightarrow> False
    | Some s \<Rightarrow> no_wrap s \<and> no_overclaim s \<and> PAXOS_REPEAT \<lparr>repeat_from = 1, repeat_to = 2\<rparr> \<in> es_requests s \<and>
        (0, 1, Some [7], 1) \<in> es_delivered s \<and> (0, 2, Some [7], 1) \<in> es_delivered s \<and> es_submitted s = {[7]}"
    by code_simp
  then obtain s where s: "ev_run (demo_config 2) 1 alone_start alone_events = Some s" "no_wrap s" "no_overclaim s"
    "PAXOS_REPEAT \<lparr>repeat_from = 1, repeat_to = 2\<rparr> \<in> es_requests s"
    "(0, 1, Some [7], 1) \<in> es_delivered s" "(0, 2, Some [7], 1) \<in> es_delivered s" "es_submitted s = {[7]}"
    by (cases "ev_run (demo_config 2) 1 alone_start alone_events") auto
  have "ev_reachable (\<lambda>_. 0x7f000001) (demo_config 2) one_acceptor (\<lambda>_. [1]) alone_start"
    unfolding alone_start_def by (rule ev_init)
  from ev_run_reachable [OF this] s show thesis by (intro that [of s]) (simp_all add: demo_configs)
qed

theorem replicas_refine_paxos_witness:
  "\<exists>s t r. PAXOS_REPEAT \<lparr>repeat_from = 1, repeat_to = 2\<rparr> \<in> es_requests s \<and> (0, 1, Some [7], 1) \<in> es_delivered s \<and>
     reachable False (demo_config 2) 1 t \<and> ep_state (rp_proposer (es_replicas (s :: ev_system) 0)) = sys_proposers t 0 \<and>
     (0, r) \<in> sys_delivered t \<and> deliver_call r = App_deliver 1 (Some [7]) 1"
proof -
  obtain s where s: "ev_reachable (\<lambda>_. 0x7f000001) (demo_config 2) one_acceptor (\<lambda>_. [1]) s" "no_wrap s" "no_overclaim s"
    "PAXOS_REPEAT \<lparr>repeat_from = 1, repeat_to = 2\<rparr> \<in> es_requests s" "(0, 1, Some [7], 1) \<in> es_delivered s"
    by (rule alone_reachable)
  obtain t where t: "reachable False (demo_config 2) 1 t" "ep_state (rp_proposer (es_replicas s 0)) = sys_proposers t 0"
    "\<forall>(i, iid, v, len) \<in> es_delivered s. \<exists>r. (nat i, r) \<in> sys_delivered t \<and> deliver_call r = App_deliver iid v len"
    using replicas_refine_paxos [OF s(1) demo_configs(3) _ s(2,3)] by (auto simp: demo_configs)
  obtain r where "(0, r) \<in> sys_delivered t" "deliver_call r = App_deliver 1 (Some [7]) 1" using bspec [OF t(3) s(5)] by auto
  then show ?thesis using s(4,5) t(1,2) by blast
qed

text \<open>
  C3. Agreement of replicas. Whatever the replicas of one configuration are sent, repeat requests
  included, in whatever order messages arrive, get lost or come twice, connections break and timers
  fire: as long as no ballot has wrapped around and no acceptor has answered a repeat request with
  a ballot above the one at which it accepted the value, two replicas, or one replica twice, that
  hand a value of the same instance to the application hand over the same bytes.
\<close>

theorem replicas_agree:
  assumes "ev_reachable inet_addr cfg c bevs s" and "config_ok c"
    and "\<forall>i. int (length (bevs i)) = evpaxos_acceptor_count c" and "no_wrap s" and "no_overclaim s"
    and "(i, iid, v, len) \<in> es_delivered s" and "(j, iid, v', len') \<in> es_delivered s"
  shows "v = v' \<and> len = len'"
proof -
  obtain t where t: "reachable False cfg (evpaxos_acceptor_count c) t" "ev_rel (evpaxos_acceptor_count c) s t"
    using system_simulated [OF assms(1-5)] by blast
  have inv: "sys_inv (evpaxos_acceptor_count c) t"
    using reachable_inv [OF t(1)] by (simp add: evpaxos_acceptor_count_def)
  obtain r r' where "(nat i, r) \<in> sys_delivered t" "(nat j, r') \<in> sys_delivered t" "accepted_iid r = accepted_iid r'"
    "v = paxos_value_val (accepted_value r)" "len = paxos_value_len (accepted_value r)"
    "v' = paxos_value_val (accepted_value r')" "len' = paxos_value_len (accepted_value r')"
    using delivered_behind [OF t(2) assms(6)] delivered_behind [OF t(2) assms(7)] by metis
  then show ?thesis using delivered_agree [OF inv] by metis
qed

theorem replicas_agree_witness:
  "\<exists>s :: ev_system. (0, 1, Some [7], 1) \<in> es_delivered s \<and>
     (\<forall>v len. (2, 1, v, len) \<in> es_delivered s \<longrightarrow> v = Some [7] \<and> len = 1) \<and> (2, 1, Some [7], 1) \<in> es_delivered s"
proof -
  obtain s where s: "ev_reachable (\<lambda>_. 0x7f000001) (demo_config 1) three_acceptors (\<lambda>_. [1, 2, 3]) s" "no_wrap s" "no_overclaim s"
    "(0, 1, Some [7], 1) \<in> es_delivered s" "(2, 1, Some [7], 1) \<in> es_delivered s" by (rule demo_reachable)
  have "\<forall>v len. (2, 1, v, len) \<in> es_delivered s \<longrightarrow> v = Some [7] \<and> len = 1"
    using replicas_agree [OF s(1) demo_configs(1) _ s(2,3) _ s(4)] by (simp add: demo_configs)
  then show ?thesis using s(4,5) by (intro exI [of _ s] conjI)
qed

text \<open>
  C4. Validity of replicas. As long as no ballot has wrapped around and no acceptor has answered a
  repeat request with a ballot above the one at which it accepted the value, what a replica hands
  to the application is, byte for byte and with its length, a value that a client or a replica has
  submitted.
\<close>

theorem replicas_deliver_submitted:
  assumes "ev_reachable inet_addr cfg c bevs s" and "config_ok c"
    and "\<forall>i. int (length (bevs i)) = evpaxos_acceptor_count c" and "no_wrap s" and "no_overclaim s"
    and "(i, iid, v, len) \<in> es_delivered s"
  shows "\<exists>data \<in> es_submitted s. v = Some data \<and> len = int (length data)"
proof -
  obtain t where t: "reachable False cfg (evpaxos_acceptor_count c) t" "ev_rel (evpaxos_acceptor_count c) s t"
    using system_simulated [OF assms(1-5)] by blast
  have inv: "sys_inv (evpaxos_acceptor_count c) t"
    using reachable_inv [OF t(1)] by (simp add: evpaxos_acceptor_count_def)
  obtain r where r: "(nat i, r) \<in> sys_delivered t" "v = paxos_value_val (accepted_value r)"
    "len = paxos_value_len (accepted_value r)"
    using delivered_behind [OF t(2) assms(6)] by metis
  have "accepted_value r \<in> values_of (es_submitted s)"
    using delivered_proposed [OF inv r(1)] ev_relD(4) [OF t(2)] by blast
  then show ?thesis using r by (auto simp: values_of_def paxos_value_new_def memcpy_bytes_def)
qed

theorem replicas_deliver_submitted_witness:
  "\<exists>s :: ev_system. es_submitted s = {[7]} \<and> (0, 1, Some [7], 1) \<in> es_delivered s \<and> (0, 2, Some [7], 1) \<in> es_delivered s \<and>
     (\<forall>i iid v len. (i, iid, v, len) \<in> es_delivered s \<longrightarrow> v = Some [7] \<and> len = 1)"
proof -
  obtain s where s: "ev_reachable (\<lambda>_. 0x7f000001) (demo_config 2) one_acceptor (\<lambda>_. [1]) s" "no_wrap s" "no_overclaim s"
    "(0, 1, Some [7], 1) \<in> es_delivered s" "(0, 2, Some [7], 1) \<in> es_delivered s" "es_submitted s = {[7]}"
    by (rule alone_reachable)
  have "\<forall>i iid v len. (i, iid, v, len) \<in> es_delivered s \<longrightarrow> v = Some [7] \<and> len = 1"
    using replicas_deliver_submitted [OF s(1) demo_configs(3) _ s(2,3)] by (fastforce simp: demo_configs s(6))
  then show ?thesis using s(4-6) by (intro exI [of _ s] conjI)
qed

end
