(* ===== verification/SortedMap.thy ===== *)
theory SortedMap
  imports KHash
begin

text \<open>
  Maps that are kept in the order of their keys, as \<open>std::map\<close> and the trees of a database
  are: association lists with increasing keys. They implement the interface \<open>finite_map\<close>.
\<close>

type_synonym ('k, 'v) smap = "('k \<times> 'v) list"

fun smap_put :: "('k :: linorder, 'v) smap \<Rightarrow> 'k \<Rightarrow> 'v \<Rightarrow> ('k, 'v) smap" where
  "smap_put [] k v = [(k, v)]"
| "smap_put ((j, w) # m) k v =
     (if j < k then (j, w) # smap_put m k v else if j = k then (k, v) # m else (k, v) # (j, w) # m)"

definition smap_get :: "('k :: linorder, 'v) smap \<Rightarrow> 'k \<Rightarrow> 'v option" where
  "smap_get m k = map_of m k"

definition smap_erase :: "('k :: linorder, 'v) smap \<Rightarrow> 'k \<Rightarrow> ('k, 'v) smap" where
  "smap_erase m k = filter (\<lambda>(j, _). j \<noteq> k) m"

definition smap_wf :: "('k :: linorder, 'v) smap \<Rightarrow> bool" where
  "smap_wf m = sorted_wrt (<) (map fst m)"

lemma set_smap_put: "fst ` set (smap_put m k v) = insert k (fst ` set m)"
  by (induction m k v rule: smap_put.induct) auto

lemma smap_get_put: "smap_wf m \<Longrightarrow> smap_get (smap_put m k v) = (smap_get m)(k \<mapsto> v)"
  by (induction m k v rule: smap_put.induct) (auto simp: smap_get_def smap_wf_def fun_eq_iff)

lemma smap_wf_put: "smap_wf m \<Longrightarrow> smap_wf (smap_put m k v)"
proof (induction m k v rule: smap_put.induct)
  case (2 j w m k v)
  have "\<forall>x \<in> fst ` set (smap_put m k v). j < x" if "j < k"
    using 2(2) that unfolding set_smap_put by (auto simp: smap_wf_def)
  then show ?case using 2 by (auto simp: smap_wf_def)
qed (simp add: smap_wf_def)

lemma smap_get_erase: "smap_get (smap_erase m k) = (smap_get m)(k := None)"
  by (induction m) (auto simp: smap_get_def smap_erase_def fun_eq_iff)

lemma smap_wf_erase: "smap_wf m \<Longrightarrow> smap_wf (smap_erase m k)"
  by (induction m) (auto simp: smap_wf_def smap_erase_def)

lemma smap_get_in: "smap_wf m \<Longrightarrow> smap_get m k = Some v \<longleftrightarrow> (k, v) \<in> set m"
  by (simp add: smap_get_def smap_wf_def strict_sorted_iff)

interpretation sm: finite_map "[]" smap_get smap_put smap_erase smap_put smap_get smap_wf
  by unfold_locales
    (auto simp: smap_get_put smap_wf_put smap_get_erase smap_wf_erase smap_get_def [of "[]"] smap_wf_def [of "[]"])

end
