(* ===== verification/StorageDb.thy ===== *)
theory StorageDb
  imports Storage SortedMap
begin

text \<open>
  What the two database backends of an acceptor share: \<open>paxos/storage_utils.c\<close>, the image of a
  record in a flat buffer, and the loop that trims with a cursor. The database itself is not
  part of the repository. Its contents are a map, in key order, from instance ids to what the
  code has put there: key 0 holds the trim point, every other key the record of an instance.
\<close>

section \<open>Records in a buffer\<close>

text \<open>
  A buffer holds the bytes of a \<open>struct paxos_accepted\<close> and behind them the bytes of its value,
  or just an \<open>iid_t\<close>. The pointer inside the copied structure is only \<open>NULL\<close> or not; it is
  replaced when there are bytes to copy. Reading a structure from the four bytes of an
  \<open>iid_t\<close> runs past the end of the buffer.
\<close>

datatype db_data = Record_data paxos_accepted "byte list" | Iid_data iid_t

definition paxos_accepted_to_buffer :: "paxos_accepted \<Rightarrow> db_data outcome" where
  "paxos_accepted_to_buffer acc =
     (let len = paxos_value_len (accepted_value acc) in
      if 0 < len
      then (case memcpy_bytes len (paxos_value_val (accepted_value acc)) of
              None \<Rightarrow> Inl NullPointer
            | Some bs \<Rightarrow> Inr (Record_data acc bs))
      else Inr (Record_data acc []))"

definition paxos_accepted_from_buffer :: "db_data \<Rightarrow> paxos_accepted outcome" where
  "paxos_accepted_from_buffer buffer =
     (case buffer of
        Iid_data iid \<Rightarrow> Inl OutOfBounds
      | Record_data acc bs \<Rightarrow>
          if 0 < paxos_value_len (accepted_value acc)
          then Inr (acc\<lparr>accepted_value := (accepted_value acc)
                 \<lparr>paxos_value_val := memcpy_bytes (paxos_value_len (accepted_value acc)) (Some bs)\<rparr>\<rparr>)
          else Inr acc)"

text \<open>The first four bytes of a buffer, as an \<open>iid_t\<close>: \<open>iid\<close> is the first field of the structure.\<close>

fun data_iid :: "db_data \<Rightarrow> iid_t" where
  "data_iid (Iid_data iid) = iid"
| "data_iid (Record_data acc bs) = accepted_iid acc"

lemma from_buffer_to_buffer:
  assumes "value_wf (accepted_value acc)"
  shows "\<exists>bs. paxos_accepted_to_buffer acc = Inr (Record_data acc bs) \<and>
    paxos_accepted_from_buffer (Record_data acc bs) = Inr acc"
proof -
  have v: "(accepted_value acc)\<lparr>paxos_value_val := Some bs\<rparr> = accepted_value acc"
    if "paxos_value_val (accepted_value acc) = Some bs" for bs
    using that by simp
  have "acc\<lparr>accepted_value := (accepted_value acc)\<lparr>paxos_value_val := Some bs\<rparr>\<rparr> = acc"
    if "paxos_value_val (accepted_value acc) = Some bs" for bs
    using that by (simp add: v)
  then show ?thesis
    using assms by (auto simp: paxos_accepted_to_buffer_def paxos_accepted_from_buffer_def Let_def value_wf_def
        memcpy_bytes_def split: option.splits)
qed

section \<open>Keys\<close>

text \<open>
  A key is a piece of memory, here always with an instance id in it. A function that compares
  keys as instance ids orders the database by instance.
\<close>

record db_key =
  key_size :: nat
  key_iid :: iid_t

definition iid_key :: "iid_t \<Rightarrow> db_key" where
  "iid_key iid = \<lparr>key_size = 4, key_iid = iid\<rparr>"

definition orders_iids :: "(db_key \<Rightarrow> db_key \<Rightarrow> int outcome) \<Rightarrow> bool" where
  "orders_iids cmp \<longleftrightarrow>
     (\<forall>i j. cmp (iid_key i) (iid_key j) = Inr (if i = j then 0 else if i < j then - 1 else 1))"

section \<open>Contents\<close>

type_synonym db_contents = "(iid_t, db_data) smap"

text \<open>The key after a position, in key order.\<close>

definition next_key :: "db_contents \<Rightarrow> iid_t option \<Rightarrow> iid_t option" where
  "next_key C pos =
     (case pos of
        None \<Rightarrow> (case C of [] \<Rightarrow> None | (k, _) # _ \<Rightarrow> Some k)
      | Some p \<Rightarrow> map_option fst (find (\<lambda>(k, _). p < k) C))"

text \<open>
  Contents written by an acceptor. \<open>record_at\<close> is the record of an instance, \<open>trim_at\<close> the
  trim point, 0 when there is none.
\<close>

definition entry_ok :: "iid_t \<Rightarrow> db_data \<Rightarrow> bool" where
  "entry_ok k d =
     (if k = 0 then (case d of Iid_data t \<Rightarrow> True | _ \<Rightarrow> False)
      else (case d of
              Record_data acc bs \<Rightarrow> accepted_iid acc = k \<and> value_wf (accepted_value acc) \<and>
                paxos_accepted_from_buffer d = Inr acc
            | _ \<Rightarrow> False))"

definition contents_ok :: "db_contents \<Rightarrow> bool" where
  "contents_ok C = (smap_wf C \<and> (\<forall>(k, d) \<in> set C. entry_ok k d))"

definition record_at :: "db_contents \<Rightarrow> iid_t \<Rightarrow> paxos_accepted option" where
  "record_at C i = (case smap_get C i of Some (Record_data acc bs) \<Rightarrow> Some acc | _ \<Rightarrow> None)"

definition trim_at :: "db_contents \<Rightarrow> iid_t" where
  "trim_at C = (case smap_get C 0 of Some d \<Rightarrow> data_iid d | None \<Rightarrow> 0)"

lemma contents_ok_Nil [simp]: "contents_ok []"
  by (simp add: contents_ok_def smap_wf_def)

lemma contents_get: "contents_ok C \<Longrightarrow> smap_get C k = Some d \<Longrightarrow> entry_ok k d"
  by (auto simp: contents_ok_def smap_get_in)

lemma contents_put:
  assumes "contents_ok C" and "entry_ok k d"
  shows "contents_ok (smap_put C k d)"
proof -
  have "entry_ok j e" if "(j, e) \<in> set (smap_put C k d)" for j e
  proof -
    have "smap_wf C" using assms(1) by (simp add: contents_ok_def)
    then have "smap_get (smap_put C k d) j = Some e" and "smap_get (smap_put C k d) = (smap_get C)(k \<mapsto> d)"
      by (simp add: smap_get_in [OF smap_wf_put] that) (rule smap_get_put, fact)
    then show ?thesis using contents_get [OF assms(1)] assms(2) by (auto split: if_splits)
  qed
  then show ?thesis using assms(1) smap_wf_put by (auto simp: contents_ok_def)
qed

lemma contents_filter: "contents_ok C \<Longrightarrow> contents_ok (filter P C)"
  by (auto simp: contents_ok_def smap_wf_def sorted_wrt_map intro: sorted_wrt_filter)

lemma record_entry_ok:
  "0 < accepted_iid r \<Longrightarrow> paxos_accepted_from_buffer (Record_data r bs) = Inr r \<Longrightarrow>
   value_wf (accepted_value r) \<Longrightarrow> entry_ok (accepted_iid r) (Record_data r bs)"
  by (auto simp: entry_ok_def)

lemma trim_entry_ok: "entry_ok 0 (Iid_data t)"
  by (simp add: entry_ok_def)

lemma record_at_0 [simp]: "contents_ok C \<Longrightarrow> record_at C 0 = None"
  using contents_get [of C 0] by (auto simp: record_at_def entry_ok_def split: option.splits db_data.splits)

lemma record_at_iid: "contents_ok C \<Longrightarrow> record_at C i = Some r \<Longrightarrow> accepted_iid r = i \<and> value_wf (accepted_value r)"
  using contents_get [of C i]
  by (auto simp: record_at_def entry_ok_def split: option.splits db_data.splits if_splits)

lemma record_at_put:
  "contents_ok C \<Longrightarrow> record_at (smap_put C k (Record_data r bs)) i = (if i = k then Some r else record_at C i)"
  "contents_ok C \<Longrightarrow> record_at (smap_put C k (Iid_data t)) i = (if i = k then None else record_at C i)"
  by (simp_all add: record_at_def contents_ok_def smap_get_put)

lemma trim_at_put:
  "contents_ok C \<Longrightarrow> trim_at (smap_put C k d) = (if k = 0 then data_iid d else trim_at C)"
  by (simp add: trim_at_def contents_ok_def smap_get_put)

lemma smap_get_filter:
  assumes "smap_wf C"
  shows "smap_get (filter (\<lambda>(k, _). P k) C) i = (if P i then smap_get C i else None)"
proof -
  have wf: "smap_wf (filter (\<lambda>(k, _). P k) C)"
    using assms by (auto simp: smap_wf_def sorted_wrt_map intro: sorted_wrt_filter)
  show ?thesis
  proof (cases "smap_get (filter (\<lambda>(k, _). P k) C) i")
    case None
    then have "\<forall>v. (i, v) \<notin> set (filter (\<lambda>(k, _). P k) C)" using smap_get_in [OF wf, of i] by fastforce
    then have "P i \<Longrightarrow> smap_get C i = None" using smap_get_in [OF assms, of i] by fastforce
    then show ?thesis using None by simp
  next
    case (Some v)
    then have "(i, v) \<in> set C" "P i" using smap_get_in [OF wf, of i v] by auto
    then show ?thesis using Some smap_get_in [OF assms, of i v] by simp
  qed
qed

text \<open>After a trim the records up to the trim point are gone and the others are there.\<close>

definition trimmed_contents :: "iid_t \<Rightarrow> db_contents \<Rightarrow> db_contents" where
  "trimmed_contents iid C = filter (\<lambda>(k, _). k = 0 \<or> iid < k) (smap_put C 0 (Iid_data iid))"

lemma record_at_trimmed:
  "contents_ok C \<Longrightarrow> iid < i \<Longrightarrow> record_at (trimmed_contents iid C) i = record_at C i"
  "contents_ok C \<Longrightarrow> i \<le> iid \<Longrightarrow> record_at (trimmed_contents iid C) i = None"
  "contents_ok C \<Longrightarrow> smap_get (trimmed_contents iid C) 0 = Some (Iid_data iid)"
  by (auto simp: trimmed_contents_def record_at_def contents_ok_def smap_get_filter smap_wf_put smap_get_put)

section \<open>Trimming with a cursor\<close>

text \<open>
  The loop of \<open>lmdb_storage_trim\<close> and \<open>bdb_storage_trim\<close>: \<open>nxt\<close> moves the cursor to the next
  key, \<open>del\<close> deletes the entry it is on; the loop ends when one of them fails or the key is
  beyond the trim point. There are at most \<open>2 ^ 32\<close> keys, so that \<open>2 ^ 32 + 1\<close> rounds are
  never used up.
\<close>

function trim_loop :: "('m \<Rightarrow> 'm \<times> int \<times> iid_t) \<Rightarrow> ('m \<Rightarrow> 'm \<times> int) \<Rightarrow> nat \<Rightarrow> iid_t \<Rightarrow> 'm \<Rightarrow> 'm" where
  "trim_loop nxt del rounds iid w =
     (if rounds = 0 then w
      else let (w, result, min) = nxt w in
        if result \<noteq> 0 then w
        else if min \<noteq> 0 \<and> min \<le> iid
          then (let (w, result) = del w in if result \<noteq> 0 then w else trim_loop nxt del (rounds - 1) iid w)
        else if min \<le> iid then trim_loop nxt del (rounds - 1) iid w
        else w)"
  by pat_completeness auto
termination by (relation "measure (\<lambda>(nxt, del, rounds, iid, w). rounds)") auto

declare trim_loop.simps [simp del]

definition trim_rounds :: nat where
  "trim_rounds = 2 ^ 32 + 1"

text \<open>
  What a cursor promises: it visits the keys in order, and deletes the entry it is on.
\<close>

locale key_cursor =
  fixes nxt :: "'m \<Rightarrow> 'm \<times> int \<times> iid_t"
    and del :: "'m \<Rightarrow> 'm \<times> int"
    and at_key :: "'m \<Rightarrow> db_contents \<Rightarrow> iid_t option \<Rightarrow> bool"
  assumes next_end: "at_key w C pos \<Longrightarrow> smap_wf C \<Longrightarrow> next_key C pos = None \<Longrightarrow>
      \<exists>w' rc k pos'. nxt w = (w', rc, k) \<and> rc \<noteq> 0 \<and> at_key w' C pos'"
    and next_some: "at_key w C pos \<Longrightarrow> smap_wf C \<Longrightarrow> next_key C pos = Some k \<Longrightarrow>
      \<exists>w'. nxt w = (w', 0, k) \<and> at_key w' C (Some k)"
    and del_key: "at_key w C (Some k) \<Longrightarrow> smap_wf C \<Longrightarrow> smap_get C k \<noteq> None \<Longrightarrow>
      \<exists>w'. del w = (w', 0) \<and> at_key w' (smap_erase C k) (Some k)"
begin

text \<open>
  In the middle of the loop the keys of \<open>A\<close> have been visited and those of \<open>B\<close> not yet.
\<close>

lemma next_key_split:
  assumes "\<forall>(k, _) \<in> set A. case pos of None \<Rightarrow> False | Some p \<Rightarrow> k \<le> p"
    and "\<forall>(k, _) \<in> set B. case pos of None \<Rightarrow> True | Some p \<Rightarrow> p < k"
  shows "next_key (A @ B) pos = (case B of [] \<Rightarrow> None | (k, _) # _ \<Rightarrow> Some k)"
proof (cases pos)
  case None
  then have "A = []" using assms(1) by (cases A) auto
  then show ?thesis using None by (simp add: next_key_def)
next
  case (Some p)
  have a: "find (\<lambda>(k, _). p < k) (A @ B) = find (\<lambda>(k, _). p < k) B"
    using assms(1) Some by (induction A) auto
  show ?thesis using assms(2) Some a by (cases B) (auto simp: next_key_def)
qed

lemma erase_middle:
  assumes "smap_wf (A @ (k :: iid_t, d) # B)"
  shows "smap_erase (A @ (k, d) # B) k = A @ B"
proof -
  have ne: "\<forall>(j, _) \<in> set A. j \<noteq> k" "\<forall>(j, _) \<in> set B. j \<noteq> k"
    using assms by (auto simp: smap_wf_def sorted_wrt_append)
  have "filter (\<lambda>(j, _). j \<noteq> k) X = X" if "\<forall>(j, _) \<in> set X. j \<noteq> k" for X
    using that by (induction X) auto
  then show ?thesis using ne by (simp add: smap_erase_def)
qed

lemma loop_from:
  assumes "at_key w (A @ B) pos" and "smap_wf (A @ B)" and "length B < rounds"
    and "\<forall>(k, _) \<in> set A. case pos of None \<Rightarrow> False | Some p \<Rightarrow> k \<le> p"
    and "\<forall>(k, _) \<in> set B. case pos of None \<Rightarrow> True | Some p \<Rightarrow> p < k"
  shows "\<exists>pos'. at_key (trim_loop nxt del rounds iid w) (A @ filter (\<lambda>(k, _). k = 0 \<or> iid < k) B) pos'"
  using assms
proof (induction B arbitrary: w A pos rounds)
  case Nil
  have "next_key (A @ []) pos = None" using next_key_split [OF Nil.prems(4,5)] by simp
  then obtain w' rc k pos' where "nxt w = (w', rc, k)" "rc \<noteq> 0" "at_key w' A pos'"
    using next_end [OF Nil.prems(1,2)] by auto
  then show ?case using Nil.prems(3) by (subst trim_loop.simps) auto
next
  case (Cons e B)
  obtain k d where e: "e = (k, d)" by (cases e)
  have nx: "next_key (A @ e # B) pos = Some k" using next_key_split [OF Cons.prems(4,5)] by (simp add: e)
  then obtain w1 where w1: "nxt w = (w1, 0, k)" "at_key w1 (A @ e # B) (Some k)"
    using next_some [OF Cons.prems(1,2)] by auto
  have wf: "smap_wf (A @ B)" "\<forall>(j, _) \<in> set A. j < k" "\<forall>(j, _) \<in> set B. k < j"
    using Cons.prems(2) by (auto simp: smap_wf_def sorted_wrt_append e)
  have r: "rounds \<noteq> 0" "length B < rounds - 1" using Cons.prems(3) by auto
  have sp: "\<forall>(j, _) \<in> set A. case Some k of None \<Rightarrow> False | Some p \<Rightarrow> j \<le> p"
    "\<forall>(j, _) \<in> set B. case Some k of None \<Rightarrow> True | Some p \<Rightarrow> p < j"
    "\<forall>(j, _) \<in> set (A @ [e]). case Some k of None \<Rightarrow> False | Some p \<Rightarrow> j \<le> p"
    using wf(2,3) by (auto simp: e)
  consider (gone) "k \<noteq> 0" "k \<le> iid" | (kept) "k = 0" | (beyond) "k \<noteq> 0" "iid < k" by fastforce
  then show ?case
  proof cases
    case gone
    have "smap_get (A @ e # B) k = Some d" using smap_get_in [OF Cons.prems(2)] by (simp add: e)
    then obtain w2 where w2: "del w1 = (w2, 0)" "at_key w2 (A @ B) (Some k)"
      using del_key [OF w1(2) Cons.prems(2)] erase_middle [OF Cons.prems(2) [unfolded e]] by (auto simp: e)
    have "trim_loop nxt del rounds iid w = trim_loop nxt del (rounds - 1) iid w2"
      using r gone w1(1) w2(1) by (subst trim_loop.simps) simp
    moreover have "\<not> iid < k" using gone by simp
    ultimately show ?thesis using Cons.IH [OF w2(2) wf(1) r(2) sp(1,2)] gone(1) by (simp add: e)
  next
    case kept
    have "trim_loop nxt del rounds iid w = trim_loop nxt del (rounds - 1) iid w1"
      using r kept w1(1) by (subst trim_loop.simps) simp
    then show ?thesis using Cons.IH [of w1 "A @ [e]" "Some k" "rounds - 1"] w1(2) Cons.prems(2) r(2) sp kept
      by (simp add: e)
  next
    case beyond
    have "\<not> k \<le> iid" using beyond by simp
    then have "trim_loop nxt del rounds iid w = w1"
      using r w1(1) by (subst trim_loop.simps) simp
    moreover have "filter (\<lambda>(j, _). j = 0 \<or> iid < j) B = B"
      using wf(3) beyond by (auto simp: filter_id_conv)
    ultimately show ?thesis using w1(2) beyond by (auto simp: e)
  qed
qed

lemma keys_bounded:
  assumes "smap_wf (C :: db_contents)"
  shows "length C < trim_rounds"
proof -
  have "distinct (map fst C)" using assms by (simp add: smap_wf_def strict_sorted_iff)
  then have "length C = card (fst ` set C)" using distinct_card [of "map fst C"] by simp
  also have "\<dots> \<le> card (UNIV :: iid_t set)" by (rule card_mono) simp_all
  also have "\<dots> = 2 ^ 32" by (simp add: card_word)
  finally show ?thesis by (simp add: trim_rounds_def)
qed

lemma trims:
  assumes "at_key w C None" and "smap_wf C"
  shows "\<exists>pos. at_key (trim_loop nxt del trim_rounds iid w) (filter (\<lambda>(k, _). k = 0 \<or> iid < k) C) pos"
  using loop_from [of w "[]" C None trim_rounds iid] assms keys_bounded [OF assms(2)] by simp

end

end
