(* ===== verification/Durable.thy ===== *)
theory Durable
  imports Acceptor
begin

text \<open>
  An acceptor whose process may end at any time and be started again. What a database backend
  promises beyond \<open>record_store\<close>: the records and the trim point of the last committed
  transaction are on disk, and a process that opens the storage again finds them there. For
  such a storage the acceptor keeps its promises over restarts.
\<close>

text \<open>
  The life of an acceptor: handled requests, with the replies to them, and restarts. A process
  that ends inside a handler has not committed, so that the disk is as before the request.
\<close>

inductive acceptor_life ::
  "('h storage \<Rightarrow> 'd) \<Rightarrow> ('d \<Rightarrow> 'h storage \<Rightarrow> bool) \<Rightarrow> 'h acceptor \<Rightarrow> paxos_message option list \<Rightarrow> 'h acceptor \<Rightarrow> bool"
  for disk boots a where
  born: "acceptor_life disk boots a [] a"
| handled: "acceptor_life disk boots a outs a1 \<Longrightarrow> acceptor_event_ok e \<Longrightarrow> acceptor_exec a1 e = Inr (a2, out) \<Longrightarrow>
    acceptor_life disk boots a (outs @ [out]) a2"
| restarted: "acceptor_life disk boots a outs a1 \<Longrightarrow> boots (disk (acc_store a1)) s0 \<Longrightarrow>
    acceptor_new_on s0 = Inr (Some a2) \<Longrightarrow> acceptor_life disk boots a outs a2"

text \<open>
  \<open>disk s\<close> is what would survive the end of the process now, \<open>boots d s\<close> says that \<open>s\<close> is what
  the initialisation of the storage gives a new process that finds \<open>d\<close> on disk, and
  \<open>trim_point s\<close> is the trim point in the storage.
\<close>

locale durable_store = record_store ok busy view lost
  for ok :: "'h storage \<Rightarrow> bool" and busy :: "'h storage \<Rightarrow> bool"
    and view :: "'h storage \<Rightarrow> iid_t \<Rightarrow> paxos_accepted option"
    and lost :: "'h storage \<Rightarrow> iid_t \<Rightarrow> bool" +
  fixes disk :: "'h storage \<Rightarrow> 'd"
    and boots :: "'d \<Rightarrow> 'h storage \<Rightarrow> bool"
    and trim_point :: "'h storage \<Rightarrow> iid_t"
  assumes disk_begin: "ok s \<Longrightarrow> storage_tx_begin s = Inr s' \<Longrightarrow> disk s' = disk s \<and> trim_point s' = trim_point s"
    and disk_put: "busy s \<Longrightarrow> value_wf (accepted_value r) \<Longrightarrow> 0 < accepted_iid r \<Longrightarrow>
        storage_put_record s r = Inr (s', rv) \<Longrightarrow> disk s' = disk s \<and> trim_point s' = trim_point s"
    and disk_trim: "busy s \<Longrightarrow> 0 < t \<Longrightarrow> storage_trim s t = Inr (s', rv) \<Longrightarrow> disk s' = disk s \<and> trim_point s' = t"
    and trim_commit: "busy s \<Longrightarrow> storage_tx_commit s = Inr s' \<Longrightarrow> trim_point s' = trim_point s"
    and read_trim: "busy s \<Longrightarrow> storage_get_trim_instance s = Inr (trim_point s)"
    and reopen: "ok s \<Longrightarrow> boots (disk s) s0 \<Longrightarrow>
        \<exists>s' rv. storage_open s0 = Inr (s', rv) \<and> 0 \<le> rv \<and> ok s' \<and> view s' = view s \<and> lost s' = lost s \<and>
          trim_point s' = trim_point s"
begin

definition synced :: "'h acceptor \<Rightarrow> bool" where
  "synced a \<longleftrightarrow> acc_ok a \<and> acc_trim_iid a = trim_point (acc_store a)"

text \<open>A restarted acceptor has the records and the trim point of the one before.\<close>

lemma restart:
  assumes "synced a" and "boots (disk (acc_store a)) s0"
  shows "\<exists>a'. acceptor_new_on s0 = Inr (Some a') \<and> synced a' \<and> keeps a a'"
proof -
  have ok: "ok (acc_store a)" using assms(1) by (simp add: synced_def acc_ok_def)
  obtain s rv where s: "storage_open s0 = Inr (s, rv)" "0 \<le> rv" "ok s" "view s = view (acc_store a)"
    "lost s = lost (acc_store a)" "trim_point s = trim_point (acc_store a)"
    using reopen [OF ok assms(2)] by blast
  obtain s1 where s1: "storage_tx_begin s = Inr s1" "busy s1" "view s1 = view s" "lost s1 = lost s"
    using tx_begin [OF s(3)] by blast
  obtain s2 where s2: "storage_tx_commit s1 = Inr s2" "ok s2" "view s2 = view s1" "lost s2 = lost s1"
    using tx_commit [OF s1(2)] by blast
  have "trim_point s1 = trim_point s" using disk_begin [OF s(3) s1(1)] by simp
  then show ?thesis
    using s s1 s2 read_trim [OF s1(2)] trim_commit [OF s1(2) s2(1)] assms(1)
    by (auto simp: acceptor_new_on_def synced_def acc_ok_def keeps_def)
qed

lemma beyond_trim: "\<not> i \<le> t \<Longrightarrow> 0 < (i :: iid_t)"
  by (auto simp: word_le_nat_alt word_less_nat_alt)

lemma tx_put_trim:
  assumes "ok s" and "storage_tx_begin s = Inr s1" and "busy s1" and "value_wf (accepted_value r)" and "0 < accepted_iid r"
    and "storage_put_record s1 r = Inr (s2, rv)" and "busy s2" and "storage_tx_commit s2 = Inr s3"
  shows "trim_point s3 = trim_point s"
  using disk_begin [OF assms(1,2)] disk_put [OF assms(3-6)] trim_commit [OF assms(7,8)] by simp

text \<open>Every handler keeps the trim point of the acceptor and of its storage in step.\<close>

lemma prepare_synced:
  assumes "synced a" and "acceptor_receive_prepare a req = Inr (a', out)"
  shows "synced a'"
proof (cases "prepare_iid req \<le> acc_trim_iid a")
  case False
  have ok: "acc_ok a" "ok (acc_store a)" using assms(1) by (simp_all add: synced_def acc_ok_def)
  obtain s1 where s1: "storage_tx_begin (acc_store a) = Inr s1" "busy s1" "view s1 = view (acc_store a)"
    using tx_begin [OF ok(2)] by blast
  have t1: "trim_point s1 = trim_point (acc_store a)" using disk_begin [OF ok(2) s1(1)] by simp
  obtain found where g: "storage_get_record s1 (prepare_iid req) = Inr found"
    using assms(2) False s1(1) by (auto simp: acceptor_receive_prepare_def bindE_Inr)
  then have f: "found = view (acc_store a) (prepare_iid req)"
    using get_lost [OF s1(2)] get_view [OF s1(2)] s1(3) by (cases "lost s1 (prepare_iid req)") fastforce+
  let ?r = "prepared found req"
  have iid: "accepted_iid ?r = prepare_iid req" using view_iid [OF ok(2)] f by (intro prepared_iid) simp
  have r: "value_wf (accepted_value ?r)" "0 < accepted_iid ?r"
    using view_value_wf [OF ok(2)] f iid beyond_trim [OF False] by (auto intro!: prepared_value_wf)
  have tot: "acc_ok a' \<and> acc_trim_iid a' = acc_trim_iid a"
    using ok(1) assms(2) by (cases rule: prepare_cases) (auto simp: ok(1) stores_def keeps_def)
  have "trim_point (acc_store a') = trim_point (acc_store a)"
  proof (cases "promised found (prepare_ballot req)")
    case True
    obtain s2 rv where p: "storage_put_record s1 ?r = Inr (s2, rv)" "storage_tx_commit s2 = Inr (acc_store a')"
      using assms(2) False s1(1) g True
      by (auto simp: acceptor_receive_prepare_def bindE_Inr Let_def prepared_def promised_def split: option.splits)
    have "busy s2"
      using put [OF s1(2) r] get_lost [OF s1(2)] g iid p(1) by fastforce
    then show ?thesis using tx_put_trim [OF ok(2) s1(1,2) r p(1) _ p(2)] by simp
  next
    case False
    then have "storage_tx_commit s1 = Inr (acc_store a')"
      using assms(2) \<open>\<not> prepare_iid req \<le> acc_trim_iid a\<close> s1(1) g
      by (auto simp: acceptor_receive_prepare_def bindE_Inr Let_def promised_def split: option.splits)
    then show ?thesis using trim_commit [OF s1(2)] t1 by simp
  qed
  then show ?thesis using tot assms(1) by (simp add: synced_def)
qed (use assms in \<open>simp add: acceptor_receive_prepare_def\<close>)

lemma accept_synced:
  assumes "synced a" and "value_wf (accept_value req)" and "acceptor_receive_accept a req = Inr (a', out)"
  shows "synced a'"
proof (cases "accept_iid req \<le> acc_trim_iid a")
  case False
  have ok: "acc_ok a" "ok (acc_store a)" using assms(1) by (simp_all add: synced_def acc_ok_def)
  obtain s1 where s1: "storage_tx_begin (acc_store a) = Inr s1" "busy s1" using tx_begin [OF ok(2)] by blast
  have t1: "trim_point s1 = trim_point (acc_store a)" using disk_begin [OF ok(2) s1(1)] by simp
  obtain found where g: "storage_get_record s1 (accept_iid req) = Inr found"
    using assms(3) False s1(1) by (auto simp: acceptor_receive_accept_def bindE_Inr)
  let ?r = "paxos_accept_to_accepted req"
  have r: "value_wf (accepted_value ?r)" "0 < accepted_iid ?r"
    using accept_to_accepted_wf [OF assms(2)] beyond_trim [OF False] by simp_all
  have tot: "acc_ok a' \<and> acc_trim_iid a' = acc_trim_iid a"
    using ok(1) assms(2,3) by (cases rule: accept_request_cases) (auto simp: ok(1) stores_def keeps_def)
  have "trim_point (acc_store a') = trim_point (acc_store a)"
  proof (cases "promised found (accept_ballot req)")
    case True
    obtain s2 rv where p: "storage_put_record s1 ?r = Inr (s2, rv)" "storage_tx_commit s2 = Inr (acc_store a')"
      using assms(3) False s1(1) g True
      by (auto simp: acceptor_receive_accept_def bindE_Inr Let_def promised_def split: option.splits)
    have "busy s2" using put [OF s1(2) r] get_lost [OF s1(2)] g p(1) by fastforce
    then show ?thesis using tx_put_trim [OF ok(2) s1(1,2) r p(1) _ p(2)] by simp
  next
    case False
    then have "storage_tx_commit s1 = Inr (acc_store a')"
      using assms(3) \<open>\<not> accept_iid req \<le> acc_trim_iid a\<close> s1(1) g
      by (auto simp: acceptor_receive_accept_def bindE_Inr Let_def promised_def split: option.splits)
    then show ?thesis using trim_commit [OF s1(2)] t1 by simp
  qed
  then show ?thesis using tot assms(1) by (simp add: synced_def)
qed (use assms in \<open>simp add: acceptor_receive_accept_def\<close>)

lemma repeat_synced:
  assumes "synced a" and "acceptor_receive_repeat a i = Inr (a', out)"
  shows "synced a'"
proof -
  have ok: "acc_ok a" "ok (acc_store a)" using assms(1) by (simp_all add: synced_def acc_ok_def)
  obtain s1 where s1: "storage_tx_begin (acc_store a) = Inr s1" "busy s1" using tx_begin [OF ok(2)] by blast
  then have "storage_tx_commit s1 = Inr (acc_store a')"
    using assms(2) by (auto simp: acceptor_receive_repeat_def bindE_Inr)
  then show ?thesis
    using trim_commit [OF s1(2)] disk_begin [OF ok(2) s1(1)] repeat_cases [OF ok(1) assms(2)] assms(1)
    by (auto simp: synced_def keeps_def)
qed

lemma trim_synced:
  assumes "synced a" and "acceptor_receive_trim a t = Inr (a', d)"
  shows "synced a'"
proof (cases "trim_iid t \<le> acc_trim_iid a")
  case False
  have ok: "acc_ok a" "ok (acc_store a)" using assms(1) by (simp_all add: synced_def acc_ok_def)
  obtain s1 where s1: "storage_tx_begin (acc_store a) = Inr s1" "busy s1" using tx_begin [OF ok(2)] by blast
  have pos: "0 < trim_iid t" using False by (rule beyond_trim)
  obtain s2 rv where s2: "storage_trim s1 (trim_iid t) = Inr (s2, rv)" "storage_tx_commit s2 = Inr (acc_store a')"
    and a': "acc_trim_iid a' = trim_iid t"
    using assms(2) False s1(1) by (auto simp: acceptor_receive_trim_def bindE_Inr)
  have "busy s2" using trim [OF s1(2) pos] s2(1) by fastforce
  then have "trim_point (acc_store a') = trim_iid t"
    using trim_commit [OF _ s2(2)] disk_trim [OF s1(2) pos s2(1)] by simp
  moreover have "acc_ok a'" using trim_spec [OF ok(1), of t] assms(2) by auto
  ultimately show ?thesis using a' by (simp add: synced_def)
qed (use assms in \<open>auto simp: acceptor_receive_trim_def\<close>)

lemma exec_synced:
  assumes "synced a" and "acceptor_event_ok e" and "acceptor_exec a e = Inr (a', out)"
  shows "synced a'"
proof (cases e)
  case (A_prepare m)
  then show ?thesis using prepare_synced [OF assms(1)] assms(3) by simp
next
  case (A_accept m)
  then show ?thesis using accept_synced [OF assms(1)] assms(2,3) by simp
next
  case (A_repeat i)
  then show ?thesis using repeat_synced [OF assms(1)] assms(3) by (cases "acceptor_receive_repeat a i") auto
next
  case (A_trim t)
  then show ?thesis using trim_synced [OF assms(1)] assms(3) by (cases "acceptor_receive_trim a t") auto
qed

lemma life_floor:
  assumes "acceptor_life disk boots a outs a2" and "synced a" and "at_least a i b"
  shows "synced a2 \<and> at_least a2 i b \<and> acc_trim_iid a \<le> acc_trim_iid a2 \<and>
    (\<forall>r. Some (PAXOS_ACCEPTED r) \<in> set outs \<longrightarrow> accepted_iid r = i \<longrightarrow> acc_trim_iid a2 < i \<longrightarrow> b \<le> accepted_ballot r)"
  using assms(1)
proof induction
  case (handled outs a1 e a2 out)
  have ok: "acc_ok a1" using handled.IH by (simp add: synced_def)
  show ?case
    using exec_floor [OF ok handled.hyps(2,3)] handled.IH exec_synced [OF _ handled.hyps(2,3)] by fastforce
next
  case (restarted outs a1 s0 a2)
  obtain a' where a': "acceptor_new_on s0 = Inr (Some a')" "synced a'" "keeps a1 a'"
    using restart [OF conjunct1 [OF restarted.IH] restarted.hyps(2)] by blast
  then have "a' = a2" using restarted.hyps(3) by simp
  then have "synced a2" "keeps a1 a2" using a' by simp_all
  then show ?case using restarted.IH at_least_keeps [of a1 a2] by (auto simp: keeps_def)
qed (use assms in simp)

text \<open>The promise, over restarts.\<close>

lemma life_keeps_promise:
  assumes "synced a" and "acceptor_receive_prepare a req = Inr (a1, Some (PAXOS_PROMISE p))"
    and "acceptor_life disk boots a1 outs a2" and "Some (PAXOS_ACCEPTED r) \<in> set outs" and "accepted_iid r = promise_iid p"
    and "acc_trim_iid a2 < promise_iid p"
  shows "promise_ballot p \<le> accepted_ballot r"
proof -
  have "acc_ok a" using assms(1) by (simp add: synced_def)
  then have "at_least a1 (promise_iid p) (promise_ballot p)" using promise_at_least [OF _ assms(2)] by blast
  then show ?thesis
    using life_floor [OF assms(3) prepare_synced [OF assms(1,2)]] assms(4-6) by blast
qed

end

section \<open>A life with a restart\<close>

text \<open>Promise ballot 10, accept at ballot 12, end and start again, answer a repeat request.\<close>

definition life_prepare :: paxos_prepare where
  "life_prepare = \<lparr>prepare_iid = 1, prepare_ballot = 10\<rparr>"

definition life_accept :: paxos_accept where
  "life_accept = \<lparr>accept_iid = 1, accept_ballot = 12, accept_value = acc_demo_value\<rparr>"

definition life_promise :: paxos_promise where
  "life_promise = \<lparr>promise_iid = 1, promise_ballot = 10, promise_value_ballot = 0, promise_value = null_value\<rparr>"

definition restart_script where
  "restart_script a0 reboot =
     bindE (acceptor_receive_prepare a0 life_prepare) (\<lambda>(a1, o1).
     bindE (acceptor_receive_accept a1 life_accept) (\<lambda>(a2, o2).
     bindE (acceptor_new_on (reboot a2)) (\<lambda>a.
     bindE (acceptor_receive_repeat (the a) 1) (\<lambda>(a3, o3). Inr (a1, o1, a2, o2, a, a3, o3)))))"

definition life_answers where
  "life_answers res =
     (case res of
        Inr (a1, o1, a2, o2, a, a3, o3) \<Rightarrow> o1 = Some (PAXOS_PROMISE life_promise) \<and> a \<noteq> None \<and>
          o3 = Some acc_demo_accepted \<and> acc_trim_iid a3 = 0
      | Inl _ \<Rightarrow> False)"

lemma restart_script_life:
  assumes "life_answers (restart_script a0 reboot)" and "\<And>a. boots (disk (acc_store a)) (reboot a)"
  obtains a1 outs a3 where "acceptor_receive_prepare a0 life_prepare = Inr (a1, Some (PAXOS_PROMISE life_promise))"
    "acceptor_life disk boots a1 outs a3" "Some (PAXOS_ACCEPTED acc_demo_accepted) \<in> set outs" "acc_trim_iid a3 = 0"
proof -
  obtain a1 a2 m a a3 where
    "restart_script a0 reboot = Inr (a1, Some (PAXOS_PROMISE life_promise), a2, m, Some a, a3, Some acc_demo_accepted)"
    and r2: "acc_trim_iid a3 = 0"
    using assms(1) by (auto simp: life_answers_def split: sum.splits prod.splits)
  then have p: "acceptor_receive_prepare a0 life_prepare = Inr (a1, Some (PAXOS_PROMISE life_promise))"
    and m: "acceptor_receive_accept a1 life_accept = Inr (a2, m)"
    and n: "acceptor_new_on (reboot a2) = Inr (Some a)"
    and r: "acceptor_receive_repeat a 1 = Inr (a3, Some acc_demo_accepted)"
    by (auto simp: restart_script_def bindE_Inr)
  have wf: "value_wf (accept_value life_accept)" by (simp add: life_accept_def acc_demo_value_def value_wf_def)
  have "acceptor_life disk boots a1 ([] @ [m]) a2"
    by (rule handled [OF born, where e = "A_accept life_accept"]) (simp_all add: m wf)
  then have "acceptor_life disk boots a1 ([] @ [m]) a" by (rule restarted) (rule assms(2), rule n)
  then have "acceptor_life disk boots a1 (([] @ [m]) @ [Some (PAXOS_ACCEPTED acc_demo_accepted)]) a3"
    by (rule handled [where e = "A_repeat 1"]) (simp_all add: r)
  then show thesis using that [OF p _ _ r2] by simp
qed

end
