(* ===== verification/StorageLmdb.thy ===== *)
theory StorageLmdb
  imports StorageDb Durable
begin

text \<open>
  \<open>paxos/storage_lmdb.c\<close>: the records of an acceptor in an LMDB database. The library and the
  calls of the operating system are not part of the repository: they are the fields of
  \<open>mdb_lib\<close>, functions on a state \<open>'m\<close> of the library and the disk, which the handle of the
  storage carries. A handle of the library is a number, 0 is \<open>NULL\<close>. \<open>mdb_works\<close> states the
  documented behaviour that the theorems rely on.
\<close>

section \<open>The library\<close>

record 'm mdb_lib =
  mdb_notfound :: int
  mdb_env_create :: "'m \<Rightarrow> 'm \<times> int \<times> nat"
  mdb_env_set_mapsize :: "nat \<Rightarrow> 64 word \<Rightarrow> 'm \<Rightarrow> 'm \<times> int"
  mdb_env_open :: "nat \<Rightarrow> string \<Rightarrow> bool \<Rightarrow> 'm \<Rightarrow> 'm \<times> int"
  mdb_env_close :: "nat \<Rightarrow> 'm \<Rightarrow> 'm"
  mdb_txn_begin :: "nat \<Rightarrow> 'm \<Rightarrow> 'm \<times> int \<times> nat"
  mdb_txn_commit :: "nat \<Rightarrow> 'm \<Rightarrow> 'm \<times> int"
  mdb_txn_abort :: "nat \<Rightarrow> 'm \<Rightarrow> 'm"
  mdb_open :: "nat \<Rightarrow> 'm \<Rightarrow> 'm \<times> int \<times> nat"
  mdb_close :: "nat \<Rightarrow> nat \<Rightarrow> 'm \<Rightarrow> 'm"
  mdb_set_compare :: "nat \<Rightarrow> nat \<Rightarrow> (db_key \<Rightarrow> db_key \<Rightarrow> int outcome) \<Rightarrow> 'm \<Rightarrow> 'm \<times> int"
  mdb_get :: "nat \<Rightarrow> nat \<Rightarrow> db_key \<Rightarrow> 'm \<Rightarrow> int \<times> db_data"
  mdb_put :: "nat \<Rightarrow> nat \<Rightarrow> db_key \<Rightarrow> db_data \<Rightarrow> 'm \<Rightarrow> 'm \<times> int"
  mdb_cursor_open :: "nat \<Rightarrow> nat \<Rightarrow> 'm \<Rightarrow> 'm \<times> int \<times> nat"
  mdb_cursor_next :: "nat \<Rightarrow> 'm \<Rightarrow> 'm \<times> int \<times> db_key"
  mdb_cursor_del :: "nat \<Rightarrow> 'm \<Rightarrow> 'm \<times> int"
  mdb_cursor_close :: "nat \<Rightarrow> 'm \<Rightarrow> 'm"
  os_stat :: "string \<Rightarrow> 'm \<Rightarrow> bool"
  os_mkdir :: "string \<Rightarrow> 'm \<Rightarrow> 'm \<times> int"
  os_system :: "string \<Rightarrow> 'm \<Rightarrow> 'm"

section \<open>The operations\<close>

record 'm lmdb_storage =
  ls_env :: nat
  ls_txn :: nat
  ls_dbi :: nat
  ls_acceptor_id :: int
  ls_world :: 'm

definition lmdb_compare_iid :: "db_key \<Rightarrow> db_key \<Rightarrow> int outcome" where
  "lmdb_compare_iid lhs rhs =
     (if key_size lhs \<noteq> 4 \<or> key_size rhs \<noteq> 4 then Inl AssertFailure
      else let lid = key_iid lhs; rid = key_iid rhs
           in Inr (if lid = rid then 0 else if lid < rid then - 1 else 1))"

text \<open>
  \<open>lmdb_storage_init\<close>. A failed call jumps to \<open>error\<close>, where what has been opened so far is
  closed; a transaction whose commit has failed is still in \<open>txn\<close> and is aborted.
\<close>

definition lmdb_init_error :: "'m mdb_lib \<Rightarrow> nat \<Rightarrow> nat \<Rightarrow> nat \<Rightarrow> 'm \<Rightarrow> 'm" where
  "lmdb_init_error lib env txn dbi w =
     (let w = (if txn \<noteq> 0 then mdb_txn_abort lib txn w else w);
          w = (if dbi \<noteq> 0 then mdb_close lib env dbi w else w)
      in if env \<noteq> 0 then mdb_env_close lib env w else w)"

definition lmdb_storage_init ::
  "'m mdb_lib \<Rightarrow> paxos_config \<Rightarrow> string \<Rightarrow> 'm lmdb_storage \<Rightarrow> 'm lmdb_storage \<times> int" where
  "lmdb_storage_init lib cfg path s =
     (let failed = (\<lambda>env txn dbi w. (s\<lparr>ls_world := lmdb_init_error lib env txn dbi w\<rparr>, - 1));
          (w, result, env) = mdb_env_create lib (ls_world s)
      in if result \<noteq> 0 then failed 0 0 0 w
      else let (w, result) = mdb_env_set_mapsize lib env (lmdb_mapsize cfg) w
      in if result \<noteq> 0 then failed env 0 0 w
      else let (w, result) = mdb_env_open lib env path (lmdb_sync cfg = 0) w
      in if result \<noteq> 0 then failed env 0 0 w
      else let (w, result, txn) = mdb_txn_begin lib env w
      in if result \<noteq> 0 then failed env 0 0 w
      else let (w, result, dbi) = mdb_open lib txn w
      in if result \<noteq> 0 then failed env txn 0 w
      else let (w, result) = mdb_set_compare lib txn dbi lmdb_compare_iid w
      in if result \<noteq> 0 then failed env txn dbi w
      else let (w, result) = mdb_txn_commit lib txn w
      in if result \<noteq> 0 then failed env txn dbi w
      else (s\<lparr>ls_env := env, ls_dbi := dbi, ls_world := w\<rparr>, 0))"

definition lmdb_storage_new :: "'m \<Rightarrow> int \<Rightarrow> 'm lmdb_storage" where
  "lmdb_storage_new w acceptor_id =
     \<lparr>ls_env = 0, ls_txn = 0, ls_dbi = 0, ls_acceptor_id = acceptor_id, ls_world = w\<rparr>"

definition lmdb_storage_close :: "'m mdb_lib \<Rightarrow> 'm lmdb_storage \<Rightarrow> ('m lmdb_storage \<times> int) outcome" where
  "lmdb_storage_close lib s =
     (let w = ls_world s;
          w = (if ls_txn s \<noteq> 0 then mdb_txn_abort lib (ls_txn s) w else w);
          w = (if ls_dbi s \<noteq> 0 then mdb_close lib (ls_env s) (ls_dbi s) w else w);
          w = (if ls_env s \<noteq> 0 then mdb_env_close lib (ls_env s) w else w)
      in Inr (s\<lparr>ls_world := w\<rparr>, 0))"

text \<open>The path is cut to the 16 bytes that are allocated for the separator and the id.\<close>

definition lmdb_path :: "paxos_config \<Rightarrow> int \<Rightarrow> string" where
  "lmdb_path cfg acceptor_id =
     take (length (lmdb_env_path cfg) + 15) (lmdb_env_path cfg @ ''_'' @ int_to_string acceptor_id)"

text \<open>The command to remove old files is written into 600 bytes.\<close>

definition lmdb_storage_open ::
  "'m mdb_lib \<Rightarrow> paxos_config \<Rightarrow> 'm lmdb_storage \<Rightarrow> ('m lmdb_storage \<times> int) outcome" where
  "lmdb_storage_open lib cfg s =
     (let path = lmdb_path cfg (ls_acceptor_id s);
          rm_command = ''rm -r '' @ path;
          failed = (\<lambda>s. bindE (lmdb_storage_close lib s) (\<lambda>(s, _). Inr (s, - 1)))
      in if trash_files cfg \<noteq> 0 \<and> 600 \<le> length rm_command then Inl OutOfBounds
      else let w = (if trash_files cfg \<noteq> 0 then os_system lib rm_command (ls_world s) else ls_world s);
               (w, result) = (if os_stat lib path w then (w, 0) else os_mkdir lib path w);
               s = s\<lparr>ls_world := w\<rparr>
      in if result \<noteq> 0 then failed s
      else let (s, result) = lmdb_storage_init lib cfg path s
      in if result \<noteq> 0 then failed s else Inr (s, 0))"

definition lmdb_storage_tx_begin :: "'m mdb_lib \<Rightarrow> 'm lmdb_storage \<Rightarrow> 'm lmdb_storage outcome" where
  "lmdb_storage_tx_begin lib s =
     (if ls_txn s \<noteq> 0 then Inl AssertFailure
      else let (w, result, txn) = mdb_txn_begin lib (ls_env s) (ls_world s)
           in if result = 0 then Inr (s\<lparr>ls_txn := txn, ls_world := w\<rparr>) else Inl AssertFailure)"

definition lmdb_storage_tx_commit :: "'m mdb_lib \<Rightarrow> 'm lmdb_storage \<Rightarrow> 'm lmdb_storage outcome" where
  "lmdb_storage_tx_commit lib s =
     (if ls_txn s = 0 then Inl AssertFailure
      else let (w, result) = mdb_txn_commit lib (ls_txn s) (ls_world s)
           in if result = 0 then Inr (s\<lparr>ls_txn := 0, ls_world := w\<rparr>) else Inl AssertFailure)"

text \<open>Any error of the library is answered like a record that is not there.\<close>

definition lmdb_storage_get :: "'m mdb_lib \<Rightarrow> 'm lmdb_storage \<Rightarrow> iid_t \<Rightarrow> paxos_accepted option outcome" where
  "lmdb_storage_get lib s iid =
     (let (result, data) = mdb_get lib (ls_txn s) (ls_dbi s) (iid_key iid) (ls_world s)
      in if result \<noteq> 0 then Inr None
         else bindE (paxos_accepted_from_buffer data) (\<lambda>out.
                if iid = accepted_iid out then Inr (Some out) else Inl AssertFailure))"

definition lmdb_storage_put :: "'m mdb_lib \<Rightarrow> 'm lmdb_storage \<Rightarrow> paxos_accepted \<Rightarrow> ('m lmdb_storage \<times> int) outcome" where
  "lmdb_storage_put lib s acc =
     bindE (paxos_accepted_to_buffer acc) (\<lambda>buffer.
       let (w, result) = mdb_put lib (ls_txn s) (ls_dbi s) (iid_key (accepted_iid acc)) buffer (ls_world s)
       in if result = 0 then Inr (s\<lparr>ls_world := w\<rparr>, 0) else Inl AssertFailure)"

definition lmdb_storage_get_trim_instance :: "'m mdb_lib \<Rightarrow> 'm lmdb_storage \<Rightarrow> iid_t outcome" where
  "lmdb_storage_get_trim_instance lib s =
     (let (result, data) = mdb_get lib (ls_txn s) (ls_dbi s) (iid_key 0) (ls_world s)
      in if result \<noteq> 0 then (if result \<noteq> mdb_notfound lib then Inl AssertFailure else Inr 0)
         else Inr (data_iid data))"

definition lmdb_storage_put_trim_instance ::
  "'m mdb_lib \<Rightarrow> 'm lmdb_storage \<Rightarrow> iid_t \<Rightarrow> ('m lmdb_storage \<times> int) outcome" where
  "lmdb_storage_put_trim_instance lib s iid =
     (let (w, result) = mdb_put lib (ls_txn s) (ls_dbi s) (iid_key 0) (Iid_data iid) (ls_world s)
      in if result = 0 then Inr (s\<lparr>ls_world := w\<rparr>, 0) else Inl AssertFailure)"

definition lmdb_next :: "'m mdb_lib \<Rightarrow> nat \<Rightarrow> 'm \<Rightarrow> 'm \<times> int \<times> iid_t" where
  "lmdb_next lib cursor w = (let (w, result, key) = mdb_cursor_next lib cursor w in (w, result, key_iid key))"

definition lmdb_storage_trim :: "'m mdb_lib \<Rightarrow> 'm lmdb_storage \<Rightarrow> iid_t \<Rightarrow> ('m lmdb_storage \<times> int) outcome" where
  "lmdb_storage_trim lib s iid =
     (if iid = 0 then Inr (s, 0)
      else bindE (lmdb_storage_put_trim_instance lib s iid) (\<lambda>(s, _).
        let (w, result, cursor) = mdb_cursor_open lib (ls_txn s) (ls_dbi s) (ls_world s)
        in if result \<noteq> 0 then Inr (s\<lparr>ls_world := w\<rparr>, 0)
           else let w = trim_loop (lmdb_next lib cursor) (mdb_cursor_del lib cursor) trim_rounds iid w;
                    w = (if cursor \<noteq> 0 then mdb_cursor_close lib cursor w else w)
                in Inr (s\<lparr>ls_world := w\<rparr>, 0)))"

definition storage_init_lmdb :: "'m mdb_lib \<Rightarrow> paxos_config \<Rightarrow> 'm \<Rightarrow> int \<Rightarrow> 'm lmdb_storage storage" where
  "storage_init_lmdb lib cfg w acceptor_id =
     \<lparr>st_handle = lmdb_storage_new w acceptor_id, api_open = lmdb_storage_open lib cfg,
      api_close = lmdb_storage_close lib, api_tx_begin = lmdb_storage_tx_begin lib,
      api_tx_commit = lmdb_storage_tx_commit lib, api_get = lmdb_storage_get lib,
      api_put = lmdb_storage_put lib, api_trim = lmdb_storage_trim lib,
      api_get_trim_instance = lmdb_storage_get_trim_instance lib\<rparr>"

section \<open>The documented behaviour of the library\<close>

text \<open>
  What a user of the library can tell of its state: the contents of the environments on disk,
  by directory; the environments that were created, with the directory once they are open; the
  transactions, with the contents they see; the databases, with whether keys are compared as
  instance ids; the cursors, with their transaction and position. \<open>mdb_works lib ob\<close>: seen
  through \<open>ob\<close>, every call that is used as documented succeeds and does what it should.
\<close>

record mdb_state =
  md_disk :: "string \<Rightarrow> db_contents option"
  md_env :: "nat \<Rightarrow> string option option"
  md_txn :: "nat \<Rightarrow> (string \<times> db_contents) option"
  md_dbi :: "nat \<Rightarrow> bool option"
  md_cur :: "nat \<Rightarrow> (nat \<times> iid_t option) option"

definition mdb_opens :: "'m mdb_lib \<Rightarrow> ('m \<Rightarrow> mdb_state) \<Rightarrow> bool" where
  "mdb_opens lib ob \<longleftrightarrow>
     (\<forall>w p. os_stat lib p w = (md_disk (ob w) p \<noteq> None)) \<and>
     (\<forall>w p. md_disk (ob w) p = None \<longrightarrow>
        (\<exists>w'. os_mkdir lib p w = (w', 0) \<and> ob w' = (ob w)\<lparr>md_disk := (md_disk (ob w))(p \<mapsto> [])\<rparr>)) \<and>
     (\<forall>w. \<exists>w' e. mdb_env_create lib w = (w', 0, e) \<and> e \<noteq> 0 \<and>
        ob w' = (ob w)\<lparr>md_env := (md_env (ob w))(e \<mapsto> None)\<rparr>) \<and>
     (\<forall>w e n. md_env (ob w) e = Some None \<longrightarrow>
        (\<exists>w'. mdb_env_set_mapsize lib e n w = (w', 0) \<and> ob w' = ob w)) \<and>
     (\<forall>w e p ns. md_env (ob w) e = Some None \<longrightarrow> md_disk (ob w) p \<noteq> None \<longrightarrow>
        (\<exists>w'. mdb_env_open lib e p ns w = (w', 0) \<and> ob w' = (ob w)\<lparr>md_env := (md_env (ob w))(e \<mapsto> Some p)\<rparr>)) \<and>
     (\<forall>w t. md_txn (ob w) t \<noteq> None \<longrightarrow>
        (\<exists>w' d. mdb_open lib t w = (w', 0, d) \<and> d \<noteq> 0 \<and>
           ob w' = (ob w)\<lparr>md_dbi := (md_dbi (ob w))(d \<mapsto> False)\<rparr>)) \<and>
     (\<forall>w t d cmp. md_txn (ob w) t \<noteq> None \<longrightarrow> md_dbi (ob w) d = Some False \<longrightarrow> orders_iids cmp \<longrightarrow>
        (\<exists>w'. mdb_set_compare lib t d cmp w = (w', 0) \<and>
           ob w' = (ob w)\<lparr>md_dbi := (md_dbi (ob w))(d \<mapsto> True)\<rparr>))"

definition mdb_transacts :: "'m mdb_lib \<Rightarrow> ('m \<Rightarrow> mdb_state) \<Rightarrow> bool" where
  "mdb_transacts lib ob \<longleftrightarrow>
     (\<forall>w e p C. md_env (ob w) e = Some (Some p) \<longrightarrow> md_disk (ob w) p = Some C \<longrightarrow> (\<forall>t. md_txn (ob w) t = None) \<longrightarrow>
        (\<exists>w' t. mdb_txn_begin lib e w = (w', 0, t) \<and> t \<noteq> 0 \<and>
           ob w' = (ob w)\<lparr>md_txn := (md_txn (ob w))(t \<mapsto> (p, C))\<rparr>)) \<and>
     (\<forall>w t p C. md_txn (ob w) t = Some (p, C) \<longrightarrow>
        (\<exists>w'. mdb_txn_commit lib t w = (w', 0) \<and>
           ob w' = (ob w)\<lparr>md_txn := (md_txn (ob w))(t := None), md_disk := (md_disk (ob w))(p \<mapsto> C)\<rparr>))"

definition mdb_stores :: "'m mdb_lib \<Rightarrow> ('m \<Rightarrow> mdb_state) \<Rightarrow> bool" where
  "mdb_stores lib ob \<longleftrightarrow>
     (\<forall>w t d p C k. md_txn (ob w) t = Some (p, C) \<longrightarrow> md_dbi (ob w) d = Some True \<longrightarrow>
        (case smap_get C k of
           Some x \<Rightarrow> mdb_get lib t d (iid_key k) w = (0, x)
         | None \<Rightarrow> fst (mdb_get lib t d (iid_key k) w) = mdb_notfound lib)) \<and>
     mdb_notfound lib \<noteq> 0 \<and>
     (\<forall>w t d p C k x. md_txn (ob w) t = Some (p, C) \<longrightarrow> md_dbi (ob w) d = Some True \<longrightarrow>
        (\<exists>w'. mdb_put lib t d (iid_key k) x w = (w', 0) \<and>
           ob w' = (ob w)\<lparr>md_txn := (md_txn (ob w))(t \<mapsto> (p, smap_put C k x))\<rparr>))"

definition mdb_walks :: "'m mdb_lib \<Rightarrow> ('m \<Rightarrow> mdb_state) \<Rightarrow> bool" where
  "mdb_walks lib ob \<longleftrightarrow>
     (\<forall>w t d. md_txn (ob w) t \<noteq> None \<longrightarrow> md_dbi (ob w) d = Some True \<longrightarrow>
        (\<exists>w' c. mdb_cursor_open lib t d w = (w', 0, c) \<and> c \<noteq> 0 \<and>
           ob w' = (ob w)\<lparr>md_cur := (md_cur (ob w))(c \<mapsto> (t, None))\<rparr>)) \<and>
     (\<forall>w c t pos p C. md_cur (ob w) c = Some (t, pos) \<longrightarrow> md_txn (ob w) t = Some (p, C) \<longrightarrow>
        (case next_key C pos of
           None \<Rightarrow> (\<exists>w' rc k. mdb_cursor_next lib c w = (w', rc, k) \<and> rc \<noteq> 0 \<and> ob w' = ob w)
         | Some k \<Rightarrow> (\<exists>w'. mdb_cursor_next lib c w = (w', 0, iid_key k) \<and>
             ob w' = (ob w)\<lparr>md_cur := (md_cur (ob w))(c \<mapsto> (t, Some k))\<rparr>))) \<and>
     (\<forall>w c t k p C. md_cur (ob w) c = Some (t, Some k) \<longrightarrow> md_txn (ob w) t = Some (p, C) \<longrightarrow>
        smap_get C k \<noteq> None \<longrightarrow>
        (\<exists>w'. mdb_cursor_del lib c w = (w', 0) \<and>
           ob w' = (ob w)\<lparr>md_txn := (md_txn (ob w))(t \<mapsto> (p, smap_erase C k))\<rparr>)) \<and>
     (\<forall>w c. md_cur (ob w) c \<noteq> None \<longrightarrow>
        ob (mdb_cursor_close lib c w) = (ob w)\<lparr>md_cur := (md_cur (ob w))(c := None)\<rparr>)"

definition mdb_works :: "'m mdb_lib \<Rightarrow> ('m \<Rightarrow> mdb_state) \<Rightarrow> bool" where
  "mdb_works lib ob \<longleftrightarrow> mdb_opens lib ob \<and> mdb_transacts lib ob \<and> mdb_stores lib ob \<and> mdb_walks lib ob"

lemma compare_orders: "orders_iids lmdb_compare_iid"
  by (simp add: orders_iids_def lmdb_compare_iid_def iid_key_def Let_def)

lemma mdb_transactsD:
  assumes "mdb_works lib ob"
  shows "md_env (ob w) e = Some (Some p) \<Longrightarrow> md_disk (ob w) p = Some C \<Longrightarrow> (\<And>t. md_txn (ob w) t = None) \<Longrightarrow>
      \<exists>w' t. mdb_txn_begin lib e w = (w', 0, t) \<and> t \<noteq> 0 \<and> ob w' = (ob w)\<lparr>md_txn := (md_txn (ob w))(t \<mapsto> (p, C))\<rparr>"
    and "md_txn (ob w) t = Some (p, C) \<Longrightarrow>
      \<exists>w'. mdb_txn_commit lib t w = (w', 0) \<and>
        ob w' = (ob w)\<lparr>md_txn := (md_txn (ob w))(t := None), md_disk := (md_disk (ob w))(p \<mapsto> C)\<rparr>"
  using assms unfolding mdb_works_def mdb_transacts_def by blast+

lemma mdb_storesD:
  assumes "mdb_works lib ob" and "md_txn (ob w) t = Some (p, C)" and "md_dbi (ob w) d = Some True"
  shows "smap_get C k = Some x \<Longrightarrow> mdb_get lib t d (iid_key k) w = (0, x)"
    and "smap_get C k = None \<Longrightarrow> fst (mdb_get lib t d (iid_key k) w) = mdb_notfound lib"
    and "mdb_notfound lib \<noteq> 0"
    and "\<exists>w'. mdb_put lib t d (iid_key k) y w = (w', 0) \<and>
        ob w' = (ob w)\<lparr>md_txn := (md_txn (ob w))(t \<mapsto> (p, smap_put C k y))\<rparr>"
proof -
  have st: "mdb_stores lib ob" using assms(1) by (simp add: mdb_works_def)
  have "case smap_get C k of
      Some x \<Rightarrow> mdb_get lib t d (iid_key k) w = (0, x)
    | None \<Rightarrow> fst (mdb_get lib t d (iid_key k) w) = mdb_notfound lib"
    using st assms(2,3) unfolding mdb_stores_def by blast
  then show "smap_get C k = Some x \<Longrightarrow> mdb_get lib t d (iid_key k) w = (0, x)"
    and "smap_get C k = None \<Longrightarrow> fst (mdb_get lib t d (iid_key k) w) = mdb_notfound lib" by simp_all
  show "mdb_notfound lib \<noteq> 0"
    and "\<exists>w'. mdb_put lib t d (iid_key k) y w = (w', 0) \<and>
        ob w' = (ob w)\<lparr>md_txn := (md_txn (ob w))(t \<mapsto> (p, smap_put C k y))\<rparr>"
    using st assms(2,3) unfolding mdb_stores_def by blast+
qed

lemma mdb_walksD:
  assumes "mdb_works lib ob"
  shows "md_txn (ob w) t \<noteq> None \<Longrightarrow> md_dbi (ob w) d = Some True \<Longrightarrow>
      \<exists>w' c. mdb_cursor_open lib t d w = (w', 0, c) \<and> c \<noteq> 0 \<and> ob w' = (ob w)\<lparr>md_cur := (md_cur (ob w))(c \<mapsto> (t, None))\<rparr>"
    and "md_cur (ob w) c = Some (t, pos) \<Longrightarrow> md_txn (ob w) t = Some (p, C) \<Longrightarrow> next_key C pos = None \<Longrightarrow>
      \<exists>w' rc k. mdb_cursor_next lib c w = (w', rc, k) \<and> rc \<noteq> 0 \<and> ob w' = ob w"
    and "md_cur (ob w) c = Some (t, pos) \<Longrightarrow> md_txn (ob w) t = Some (p, C) \<Longrightarrow> next_key C pos = Some k \<Longrightarrow>
      \<exists>w'. mdb_cursor_next lib c w = (w', 0, iid_key k) \<and> ob w' = (ob w)\<lparr>md_cur := (md_cur (ob w))(c \<mapsto> (t, Some k))\<rparr>"
    and "md_cur (ob w) c = Some (t, Some k) \<Longrightarrow> md_txn (ob w) t = Some (p, C) \<Longrightarrow> smap_get C k \<noteq> None \<Longrightarrow>
      \<exists>w'. mdb_cursor_del lib c w = (w', 0) \<and> ob w' = (ob w)\<lparr>md_txn := (md_txn (ob w))(t \<mapsto> (p, smap_erase C k))\<rparr>"
    and "md_cur (ob w) c \<noteq> None \<Longrightarrow> ob (mdb_cursor_close lib c w) = (ob w)\<lparr>md_cur := (md_cur (ob w))(c := None)\<rparr>"
  using assms by (fastforce simp: mdb_works_def mdb_walks_def)+

section \<open>The storage of an acceptor\<close>

definition lmdb_api :: "'m mdb_lib \<Rightarrow> 'm lmdb_storage storage \<Rightarrow> bool" where
  "lmdb_api lib s \<longleftrightarrow>
     api_tx_begin s = lmdb_storage_tx_begin lib \<and> api_tx_commit s = lmdb_storage_tx_commit lib \<and>
     api_get s = lmdb_storage_get lib \<and> api_put s = lmdb_storage_put lib \<and> api_trim s = lmdb_storage_trim lib \<and>
     api_get_trim_instance s = lmdb_storage_get_trim_instance lib"

text \<open>\<open>P\<close> is the path of the environment that belongs to the acceptor.\<close>

definition lmdb_open :: "('m \<Rightarrow> mdb_state) \<Rightarrow> string \<Rightarrow> 'm lmdb_storage \<Rightarrow> bool" where
  "lmdb_open ob P h \<longleftrightarrow>
     md_env (ob (ls_world h)) (ls_env h) = Some (Some P) \<and> md_dbi (ob (ls_world h)) (ls_dbi h) = Some True"

definition lmdb_ok :: "'m mdb_lib \<Rightarrow> ('m \<Rightarrow> mdb_state) \<Rightarrow> string \<Rightarrow> 'm lmdb_storage storage \<Rightarrow> bool" where
  "lmdb_ok lib ob P s \<longleftrightarrow>
     mdb_works lib ob \<and> lmdb_api lib s \<and> lmdb_open ob P (st_handle s) \<and> ls_txn (st_handle s) = 0 \<and>
     (\<forall>t. md_txn (ob (ls_world (st_handle s))) t = None) \<and>
     (\<exists>C. md_disk (ob (ls_world (st_handle s))) P = Some C \<and> contents_ok C)"

definition lmdb_busy :: "'m mdb_lib \<Rightarrow> ('m \<Rightarrow> mdb_state) \<Rightarrow> string \<Rightarrow> 'm lmdb_storage storage \<Rightarrow> bool" where
  "lmdb_busy lib ob P s \<longleftrightarrow>
     mdb_works lib ob \<and> lmdb_api lib s \<and> lmdb_open ob P (st_handle s) \<and> ls_txn (st_handle s) \<noteq> 0 \<and>
     (\<exists>C. md_txn (ob (ls_world (st_handle s))) = Map.empty(ls_txn (st_handle s) \<mapsto> (P, C)) \<and> contents_ok C)"

definition lmdb_contents :: "('m \<Rightarrow> mdb_state) \<Rightarrow> string \<Rightarrow> 'm lmdb_storage storage \<Rightarrow> db_contents" where
  "lmdb_contents ob P s =
     (let seen = ob (ls_world (st_handle s)) in
      case md_txn seen (ls_txn (st_handle s)) of
        Some (p, C) \<Rightarrow> C
      | None \<Rightarrow> (case md_disk seen P of Some C \<Rightarrow> C | None \<Rightarrow> []))"

text \<open>Key 0 cannot be read as a record once the trim point is there.\<close>

definition lmdb_view :: "('m \<Rightarrow> mdb_state) \<Rightarrow> string \<Rightarrow> 'm lmdb_storage storage \<Rightarrow> iid_t \<Rightarrow> paxos_accepted option" where
  "lmdb_view ob P s = record_at (lmdb_contents ob P s)"

definition lmdb_lost :: "('m \<Rightarrow> mdb_state) \<Rightarrow> string \<Rightarrow> 'm lmdb_storage storage \<Rightarrow> iid_t \<Rightarrow> bool" where
  "lmdb_lost ob P s i \<longleftrightarrow> i = 0 \<and> smap_get (lmdb_contents ob P s) 0 \<noteq> None"

definition lmdb_trim_point :: "('m \<Rightarrow> mdb_state) \<Rightarrow> string \<Rightarrow> 'm lmdb_storage storage \<Rightarrow> iid_t" where
  "lmdb_trim_point ob P s = trim_at (lmdb_contents ob P s)"

definition lmdb_disk :: "('m \<Rightarrow> mdb_state) \<Rightarrow> string \<Rightarrow> 'm lmdb_storage storage \<Rightarrow> db_contents option" where
  "lmdb_disk ob P s = md_disk (ob (ls_world (st_handle s))) P"

lemma lmdb_busy_contents:
  assumes "lmdb_busy lib ob P s"
  shows "md_txn (ob (ls_world (st_handle s))) (ls_txn (st_handle s)) = Some (P, lmdb_contents ob P s)"
    and "contents_ok (lmdb_contents ob P s)"
  using assms by (auto simp: lmdb_busy_def lmdb_contents_def Let_def)

lemma lmdb_ok_contents:
  assumes "lmdb_ok lib ob P s"
  shows "md_disk (ob (ls_world (st_handle s))) P = Some (lmdb_contents ob P s)"
    and "contents_ok (lmdb_contents ob P s)"
  using assms by (auto simp: lmdb_ok_def lmdb_contents_def Let_def)

lemma lmdb_busyI:
  assumes "mdb_works lib ob" and "lmdb_api lib s" and "lmdb_open ob P (st_handle s)" and "ls_txn (st_handle s) \<noteq> 0"
    and "md_txn (ob (ls_world (st_handle s))) = Map.empty(ls_txn (st_handle s) \<mapsto> (P, C))" and "contents_ok C"
  shows "lmdb_busy lib ob P s" and "lmdb_contents ob P s = C"
  using assms by (auto simp: lmdb_busy_def lmdb_contents_def)

lemma lmdb_okI:
  assumes "mdb_works lib ob" and "lmdb_api lib s" and "lmdb_open ob P (st_handle s)" and "ls_txn (st_handle s) = 0"
    and "md_txn (ob (ls_world (st_handle s))) = Map.empty"
    and "md_disk (ob (ls_world (st_handle s))) P = Some C" and "contents_ok C"
  shows "lmdb_ok lib ob P s" and "lmdb_contents ob P s = C"
  using assms by (auto simp: lmdb_ok_def lmdb_contents_def)

lemma lmdb_api_handle [simp]: "lmdb_api lib (s\<lparr>st_handle := h\<rparr>) = lmdb_api lib s"
  by (simp add: lmdb_api_def)

lemmas lmdb_ops =
  storage_ops lmdb_api_def lmdb_open_def lmdb_storage_tx_begin_def lmdb_storage_tx_commit_def
  lmdb_storage_get_def lmdb_storage_put_def lmdb_storage_get_trim_instance_def

lemma lmdb_begin:
  assumes "lmdb_ok lib ob P s"
  shows "\<exists>s'. storage_tx_begin s = Inr s' \<and> lmdb_busy lib ob P s' \<and>
    lmdb_contents ob P s' = lmdb_contents ob P s \<and> lmdb_disk ob P s' = lmdb_disk ob P s"
proof -
  let ?h = "st_handle s"
  have ok: "mdb_works lib ob" "lmdb_api lib s" "lmdb_open ob P ?h" "ls_txn ?h = 0"
    "\<And>t. md_txn (ob (ls_world ?h)) t = None" using assms by (auto simp: lmdb_ok_def)
  note C = lmdb_ok_contents [OF assms]
  have env: "md_env (ob (ls_world ?h)) (ls_env ?h) = Some (Some P)" using ok(3) by (simp add: lmdb_open_def)
  obtain w t where w: "mdb_txn_begin lib (ls_env ?h) (ls_world ?h) = (w, 0, t)" "t \<noteq> 0"
    "ob w = (ob (ls_world ?h))\<lparr>md_txn := (md_txn (ob (ls_world ?h)))(t \<mapsto> (P, lmdb_contents ob P s))\<rparr>"
    using mdb_transactsD(1) [OF ok(1) env C(1) ok(5)] by blast
  have none: "md_txn (ob (ls_world ?h)) = Map.empty" using ok(5) by (simp add: fun_eq_iff)
  let ?s = "s\<lparr>st_handle := ?h\<lparr>ls_txn := t, ls_world := w\<rparr>\<rparr>"
  have "storage_tx_begin s = Inr ?s" using ok(2,4) w(1) by (simp add: lmdb_ops)
  moreover have "lmdb_busy lib ob P ?s" "lmdb_contents ob P ?s = lmdb_contents ob P s"
    by (rule lmdb_busyI; use ok w none C(2) in \<open>simp add: lmdb_open_def\<close>)+
  ultimately show ?thesis using w(3) by (auto simp: lmdb_disk_def)
qed

lemma lmdb_commit:
  assumes "lmdb_busy lib ob P s"
  shows "\<exists>s'. storage_tx_commit s = Inr s' \<and> lmdb_ok lib ob P s' \<and> lmdb_contents ob P s' = lmdb_contents ob P s"
proof -
  let ?h = "st_handle s"
  have ok: "mdb_works lib ob" "lmdb_api lib s" "lmdb_open ob P ?h" "ls_txn ?h \<noteq> 0"
    using assms by (auto simp: lmdb_busy_def)
  note C = lmdb_busy_contents [OF assms]
  obtain w where w: "mdb_txn_commit lib (ls_txn ?h) (ls_world ?h) = (w, 0)"
    "ob w = (ob (ls_world ?h))\<lparr>md_txn := (md_txn (ob (ls_world ?h)))(ls_txn ?h := None),
       md_disk := (md_disk (ob (ls_world ?h)))(P \<mapsto> lmdb_contents ob P s)\<rparr>"
    using mdb_transactsD(2) [OF ok(1) C(1)] by blast
  have "(md_txn (ob (ls_world ?h)))(ls_txn ?h := None) = Map.empty"
    using assms by (auto simp: lmdb_busy_def fun_eq_iff)
  note none = this
  let ?s = "s\<lparr>st_handle := ?h\<lparr>ls_txn := 0, ls_world := w\<rparr>\<rparr>"
  have "storage_tx_commit s = Inr ?s" using ok(2,4) w(1) by (simp add: lmdb_ops)
  moreover have "lmdb_ok lib ob P ?s" "lmdb_contents ob P ?s = lmdb_contents ob P s"
    by (rule lmdb_okI; use ok w none C(2) in \<open>simp add: lmdb_open_def\<close>)+
  ultimately show ?thesis by blast
qed

lemma lmdb_get:
  assumes "lmdb_busy lib ob P s"
  shows "lmdb_lost ob P s i \<Longrightarrow> storage_get_record s i = Inl OutOfBounds"
    and "\<not> lmdb_lost ob P s i \<Longrightarrow> storage_get_record s i = Inr (lmdb_view ob P s i)"
    and "storage_get_trim_instance s = Inr (lmdb_trim_point ob P s)"
proof -
  let ?h = "st_handle s" and ?C = "lmdb_contents ob P s"
  have ok: "mdb_works lib ob" "lmdb_api lib s" "lmdb_open ob P ?h" using assms by (auto simp: lmdb_busy_def)
  note C = lmdb_busy_contents [OF assms]
  have d: "md_dbi (ob (ls_world ?h)) (ls_dbi ?h) = Some True" using ok(3) by (simp add: lmdb_open_def)
  note get = mdb_storesD [OF ok(1) C(1) d]
  have some: "mdb_get lib (ls_txn ?h) (ls_dbi ?h) (iid_key k) (ls_world ?h) = (0, x)" if "smap_get ?C k = Some x" for k x
    using get(1) that by blast
  have none: "\<exists>x. mdb_get lib (ls_txn ?h) (ls_dbi ?h) (iid_key k) (ls_world ?h) = (mdb_notfound lib, x)"
    if "smap_get ?C k = None" for k
    using get(2) [OF that] by (cases "mdb_get lib (ls_txn ?h) (ls_dbi ?h) (iid_key k) (ls_world ?h)") simp
  have nf: "mdb_notfound lib \<noteq> 0" by (rule get(3))
  show "storage_get_trim_instance s = Inr (lmdb_trim_point ob P s)"
    using some [of 0] none [of 0] nf ok(2)
    by (cases "smap_get ?C 0") (auto simp: lmdb_ops lmdb_trim_point_def trim_at_def)
  { assume "lmdb_lost ob P s i"
    then obtain x where x: "i = 0" "smap_get ?C 0 = Some x" by (auto simp: lmdb_lost_def)
    then obtain t where "x = Iid_data t" using contents_get [OF C(2) x(2)] by (cases x) (auto simp: entry_ok_def)
    then show "storage_get_record s i = Inl OutOfBounds"
      using some x ok(2) by (simp add: lmdb_ops paxos_accepted_from_buffer_def) }
  { assume nl: "\<not> lmdb_lost ob P s i"
    show "storage_get_record s i = Inr (lmdb_view ob P s i)"
    proof (cases "smap_get ?C i")
      case None
      then show ?thesis using none [of i] nf ok(2) by (auto simp: lmdb_ops lmdb_view_def record_at_def)
    next
      case (Some x)
      then have "i \<noteq> 0" using nl by (auto simp: lmdb_lost_def)
      then obtain acc bs where "x = Record_data acc bs" "accepted_iid acc = i"
          "paxos_accepted_from_buffer (Record_data acc bs) = Inr acc"
        using contents_get [OF C(2) Some] by (cases x) (auto simp: entry_ok_def)
      then show ?thesis using Some some ok(2) by (simp add: lmdb_ops lmdb_view_def record_at_def)
    qed }
qed

text \<open>A put of an entry inside a transaction, as \<open>put\<close> and \<open>trim\<close> make it.\<close>

lemma lmdb_put_entry:
  assumes "lmdb_busy lib ob P s" and "entry_ok k x"
  obtains w where "mdb_put lib (ls_txn (st_handle s)) (ls_dbi (st_handle s)) (iid_key k) x (ls_world (st_handle s)) = (w, 0)"
    "lmdb_busy lib ob P (s\<lparr>st_handle := (st_handle s)\<lparr>ls_world := w\<rparr>\<rparr>)"
    "lmdb_contents ob P (s\<lparr>st_handle := (st_handle s)\<lparr>ls_world := w\<rparr>\<rparr>) = smap_put (lmdb_contents ob P s) k x"
    "lmdb_disk ob P (s\<lparr>st_handle := (st_handle s)\<lparr>ls_world := w\<rparr>\<rparr>) = lmdb_disk ob P s"
proof -
  let ?h = "st_handle s" and ?C = "lmdb_contents ob P s"
  have ok: "mdb_works lib ob" "lmdb_api lib s" "lmdb_open ob P ?h" "ls_txn ?h \<noteq> 0"
    "md_txn (ob (ls_world ?h)) = Map.empty(ls_txn ?h \<mapsto> (P, ?C))"
    using assms(1) by (auto simp: lmdb_busy_def lmdb_contents_def)
  note C = lmdb_busy_contents [OF assms(1)]
  have d: "md_dbi (ob (ls_world ?h)) (ls_dbi ?h) = Some True" using ok(3) by (simp add: lmdb_open_def)
  obtain w where w: "mdb_put lib (ls_txn ?h) (ls_dbi ?h) (iid_key k) x (ls_world ?h) = (w, 0)"
    "ob w = (ob (ls_world ?h))\<lparr>md_txn := (md_txn (ob (ls_world ?h)))(ls_txn ?h \<mapsto> (P, smap_put ?C k x))\<rparr>"
    using mdb_storesD(4) [OF ok(1) C(1) d] by blast
  let ?s = "s\<lparr>st_handle := ?h\<lparr>ls_world := w\<rparr>\<rparr>"
  have "lmdb_busy lib ob P ?s" "lmdb_contents ob P ?s = smap_put ?C k x"
    by (rule lmdb_busyI; use ok w contents_put [OF C(2) assms(2)] in \<open>simp add: lmdb_open_def\<close>)+
  then show thesis by (rule that [OF w(1)]) (simp add: lmdb_disk_def w(2))
qed

lemma lmdb_put:
  assumes "lmdb_busy lib ob P s" and "value_wf (accepted_value r)" and "0 < accepted_iid r"
  shows "\<exists>s' bs. storage_put_record s r = Inr (s', 0) \<and> lmdb_busy lib ob P s' \<and>
    lmdb_contents ob P s' = smap_put (lmdb_contents ob P s) (accepted_iid r) (Record_data r bs) \<and>
    lmdb_disk ob P s' = lmdb_disk ob P s"
proof -
  obtain bs where b: "paxos_accepted_to_buffer r = Inr (Record_data r bs)"
    "paxos_accepted_from_buffer (Record_data r bs) = Inr r" using from_buffer_to_buffer [OF assms(2)] by blast
  obtain w where "mdb_put lib (ls_txn (st_handle s)) (ls_dbi (st_handle s)) (iid_key (accepted_iid r)) (Record_data r bs)
      (ls_world (st_handle s)) = (w, 0)"
    "lmdb_busy lib ob P (s\<lparr>st_handle := (st_handle s)\<lparr>ls_world := w\<rparr>\<rparr>)"
    "lmdb_contents ob P (s\<lparr>st_handle := (st_handle s)\<lparr>ls_world := w\<rparr>\<rparr>) =
      smap_put (lmdb_contents ob P s) (accepted_iid r) (Record_data r bs)"
    "lmdb_disk ob P (s\<lparr>st_handle := (st_handle s)\<lparr>ls_world := w\<rparr>\<rparr>) = lmdb_disk ob P s"
    by (rule lmdb_put_entry [OF assms(1) record_entry_ok [OF assms(3) b(2) assms(2)]])
  moreover have "lmdb_api lib s" using assms(1) by (simp add: lmdb_busy_def)
  ultimately show ?thesis using b(1) by (auto simp: lmdb_ops)
qed

text \<open>The cursor of \<open>lmdb_storage_trim\<close>. \<open>E\<close> is what stays as it is while the loop runs.\<close>

definition lmdb_at ::
  "'m mdb_lib \<Rightarrow> ('m \<Rightarrow> mdb_state) \<Rightarrow> nat \<Rightarrow> nat \<Rightarrow> string \<Rightarrow> mdb_state \<Rightarrow> 'm \<Rightarrow> db_contents \<Rightarrow> iid_t option \<Rightarrow> bool" where
  "lmdb_at lib ob c t P E w C pos \<longleftrightarrow>
     mdb_works lib ob \<and> md_cur (ob w) c = Some (t, pos) \<and> md_txn (ob w) = Map.empty(t \<mapsto> (P, C)) \<and>
     md_env (ob w) = md_env E \<and> md_dbi (ob w) = md_dbi E \<and> md_disk (ob w) = md_disk E"

interpretation lc: key_cursor "lmdb_next lib c" "mdb_cursor_del lib c" "lmdb_at lib ob c t P E"
proof unfold_locales
  fix w C pos k
  assume at: "lmdb_at lib ob c t P E w C pos"
  then have a: "mdb_works lib ob" "md_cur (ob w) c = Some (t, pos)" "md_txn (ob w) t = Some (P, C)"
    by (simp_all add: lmdb_at_def)
  { assume "next_key C pos = None"
    from mdb_walksD(2) [OF a this] obtain w' rc key
      where "mdb_cursor_next lib c w = (w', rc, key)" "rc \<noteq> 0" "ob w' = ob w" by blast
    then have "lmdb_next lib c w = (w', rc, key_iid key)" "rc \<noteq> 0" "lmdb_at lib ob c t P E w' C pos"
      using at by (simp_all add: lmdb_next_def lmdb_at_def)
    then show "\<exists>w' rc k pos'. lmdb_next lib c w = (w', rc, k) \<and> rc \<noteq> 0 \<and> lmdb_at lib ob c t P E w' C pos'"
      by blast }
  { assume "next_key C pos = Some k"
    from mdb_walksD(3) [OF a this] obtain w' where "mdb_cursor_next lib c w = (w', 0, iid_key k)"
      "ob w' = (ob w)\<lparr>md_cur := (md_cur (ob w))(c \<mapsto> (t, Some k))\<rparr>" by blast
    then show "\<exists>w'. lmdb_next lib c w = (w', 0, k) \<and> lmdb_at lib ob c t P E w' C (Some k)"
      using at by (simp add: lmdb_next_def lmdb_at_def iid_key_def) }
next
  fix w C k
  assume at: "lmdb_at lib ob c t P E w C (Some k)" and k: "smap_get C k \<noteq> None"
  then have a: "mdb_works lib ob" "md_cur (ob w) c = Some (t, Some k)" "md_txn (ob w) t = Some (P, C)"
    by (simp_all add: lmdb_at_def)
  from mdb_walksD(4) [OF a k] obtain w' where "mdb_cursor_del lib c w = (w', 0)"
    "ob w' = (ob w)\<lparr>md_txn := (md_txn (ob w))(t \<mapsto> (P, smap_erase C k))\<rparr>" by blast
  then show "\<exists>w'. mdb_cursor_del lib c w = (w', 0) \<and> lmdb_at lib ob c t P E w' (smap_erase C k) (Some k)"
    using at by (simp add: lmdb_at_def)
qed

lemma lmdb_trim:
  assumes "lmdb_busy lib ob P s" and "0 < iid"
  shows "\<exists>s'. storage_trim s iid = Inr (s', 0) \<and> lmdb_busy lib ob P s' \<and>
    lmdb_contents ob P s' = trimmed_contents iid (lmdb_contents ob P s) \<and> lmdb_disk ob P s' = lmdb_disk ob P s"
proof -
  let ?h = "st_handle s" and ?C = "smap_put (lmdb_contents ob P s) 0 (Iid_data iid)"
  obtain w where w: "mdb_put lib (ls_txn ?h) (ls_dbi ?h) (iid_key 0) (Iid_data iid) (ls_world ?h) = (w, 0)"
    and b: "lmdb_busy lib ob P (s\<lparr>st_handle := ?h\<lparr>ls_world := w\<rparr>\<rparr>)"
    and c: "lmdb_contents ob P (s\<lparr>st_handle := ?h\<lparr>ls_world := w\<rparr>\<rparr>) = ?C"
    and dk: "lmdb_disk ob P (s\<lparr>st_handle := ?h\<lparr>ls_world := w\<rparr>\<rparr>) = lmdb_disk ob P s"
    by (rule lmdb_put_entry [OF assms(1) trim_entry_ok])
  have ok: "mdb_works lib ob" "lmdb_api lib s" "md_txn (ob w) = Map.empty(ls_txn ?h \<mapsto> (P, ?C))"
    "md_dbi (ob w) (ls_dbi ?h) = Some True" "md_env (ob w) (ls_env ?h) = Some (Some P)" "ls_txn ?h \<noteq> 0" "contents_ok ?C"
    using b c lmdb_busy_contents [OF b] by (auto simp: lmdb_busy_def lmdb_open_def lmdb_api_def lmdb_contents_def)
  obtain w1 cur where w1: "mdb_cursor_open lib (ls_txn ?h) (ls_dbi ?h) w = (w1, 0, cur)" "cur \<noteq> 0"
    "ob w1 = (ob w)\<lparr>md_cur := (md_cur (ob w))(cur \<mapsto> (ls_txn ?h, None))\<rparr>"
    using mdb_walksD(1) [OF ok(1) _ ok(4), of "ls_txn ?h"] ok(3) by auto
  have "lmdb_at lib ob cur (ls_txn ?h) P (ob w) w1 ?C None" using ok(1,3) w1(3) by (simp add: lmdb_at_def)
  moreover have "smap_wf ?C" using ok(7) by (simp add: contents_ok_def)
  ultimately have "\<exists>pos. lmdb_at lib ob cur (ls_txn ?h) P (ob w)
      (trim_loop (lmdb_next lib cur) (mdb_cursor_del lib cur) trim_rounds iid w1) (trimmed_contents iid (lmdb_contents ob P s)) pos"
    unfolding trimmed_contents_def by (rule lc.trims)
  then obtain pos where "lmdb_at lib ob cur (ls_txn ?h) P (ob w)
      (trim_loop (lmdb_next lib cur) (mdb_cursor_del lib cur) trim_rounds iid w1) (trimmed_contents iid (lmdb_contents ob P s)) pos" ..
  moreover define w2 where "w2 = trim_loop (lmdb_next lib cur) (mdb_cursor_del lib cur) trim_rounds iid w1"
  ultimately have w2: "md_cur (ob w2) cur \<noteq> None"
    "md_txn (ob w2) = Map.empty(ls_txn ?h \<mapsto> (P, trimmed_contents iid (lmdb_contents ob P s)))"
    "md_env (ob w2) = md_env (ob w)" "md_dbi (ob w2) = md_dbi (ob w)" "md_disk (ob w2) = md_disk (ob w)"
    by (simp_all add: lmdb_at_def)
  have w3: "ob (mdb_cursor_close lib cur w2) = (ob w2)\<lparr>md_cur := (md_cur (ob w2))(cur := None)\<rparr>"
    by (rule mdb_walksD(5) [OF ok(1) w2(1)])
  let ?s = "s\<lparr>st_handle := ?h\<lparr>ls_world := mdb_cursor_close lib cur w2\<rparr>\<rparr>"
  have "storage_trim s iid = Inr (?s, 0)"
    using assms(2) ok(2) w w1(1,2)
    by (simp add: lmdb_ops lmdb_storage_trim_def lmdb_storage_put_trim_instance_def w2_def word_gt_0)
  moreover have "contents_ok (trimmed_contents iid (lmdb_contents ob P s))"
    unfolding trimmed_contents_def by (rule contents_filter) (rule ok(7))
  moreover have "lmdb_busy lib ob P ?s" "lmdb_contents ob P ?s = trimmed_contents iid (lmdb_contents ob P s)"
    by (rule lmdb_busyI; use ok w2 w3 calculation in \<open>simp add: lmdb_open_def\<close>)+
  moreover have "lmdb_disk ob P ?s = lmdb_disk ob P s" using dk w2(5) w3 by (simp add: lmdb_disk_def)
  ultimately show ?thesis by blast
qed

section \<open>Opening the storage\<close>

text \<open>
  A new process finds the files, and nothing of the library is in use. \<open>lmdb_boots\<close>: the
  storage has just been initialised over such a state, with the contents \<open>D\<close> in the
  environment of the acceptor, or no environment at all.
\<close>

definition lmdb_boots ::
  "'m mdb_lib \<Rightarrow> ('m \<Rightarrow> mdb_state) \<Rightarrow> paxos_config \<Rightarrow> int \<Rightarrow> db_contents option \<Rightarrow> 'm lmdb_storage storage \<Rightarrow> bool" where
  "lmdb_boots lib ob cfg ident D s \<longleftrightarrow>
     (\<exists>w. s = storage_init_lmdb lib cfg w ident \<and> md_disk (ob w) (lmdb_path cfg ident) = D \<and>
        md_txn (ob w) = Map.empty)"

lemma mdb_opensD:
  assumes "mdb_works lib ob"
  shows "os_stat lib p w = (md_disk (ob w) p \<noteq> None)"
    and "md_disk (ob w) p = None \<Longrightarrow>
      \<exists>w'. os_mkdir lib p w = (w', 0) \<and> ob w' = (ob w)\<lparr>md_disk := (md_disk (ob w))(p \<mapsto> [])\<rparr>"
    and "\<exists>w' e. mdb_env_create lib w = (w', 0, e) \<and> e \<noteq> 0 \<and> ob w' = (ob w)\<lparr>md_env := (md_env (ob w))(e \<mapsto> None)\<rparr>"
    and "md_env (ob w) e = Some None \<Longrightarrow> \<exists>w'. mdb_env_set_mapsize lib e n w = (w', 0) \<and> ob w' = ob w"
    and "md_env (ob w) e = Some None \<Longrightarrow> md_disk (ob w) p \<noteq> None \<Longrightarrow>
      \<exists>w'. mdb_env_open lib e p ns w = (w', 0) \<and> ob w' = (ob w)\<lparr>md_env := (md_env (ob w))(e \<mapsto> Some p)\<rparr>"
    and "md_txn (ob w) t \<noteq> None \<Longrightarrow>
      \<exists>w' d. mdb_open lib t w = (w', 0, d) \<and> d \<noteq> 0 \<and> ob w' = (ob w)\<lparr>md_dbi := (md_dbi (ob w))(d \<mapsto> False)\<rparr>"
    and "md_txn (ob w) t \<noteq> None \<Longrightarrow> md_dbi (ob w) d = Some False \<Longrightarrow>
      \<exists>w'. mdb_set_compare lib t d lmdb_compare_iid w = (w', 0) \<and>
        ob w' = (ob w)\<lparr>md_dbi := (md_dbi (ob w))(d \<mapsto> True)\<rparr>"
proof -
  have o: "mdb_opens lib ob" using assms by (simp add: mdb_works_def)
  show "os_stat lib p w = (md_disk (ob w) p \<noteq> None)" using o by (simp add: mdb_opens_def)
qed (use assms compare_orders in \<open>unfold mdb_works_def mdb_opens_def, blast\<close>)+

lemma lmdb_init_opens:
  assumes L: "mdb_works lib ob" and D: "md_disk (ob (ls_world h)) P = Some C" and T: "md_txn (ob (ls_world h)) = Map.empty"
  shows "\<exists>w e d. lmdb_storage_init lib cfg P h = (h\<lparr>ls_env := e, ls_dbi := d, ls_world := w\<rparr>, 0) \<and>
    md_env (ob w) e = Some (Some P) \<and> md_dbi (ob w) d = Some True \<and> md_disk (ob w) = md_disk (ob (ls_world h)) \<and>
    md_txn (ob w) = Map.empty"
proof -
  obtain w1 e where w1: "mdb_env_create lib (ls_world h) = (w1, 0, e)"
    "ob w1 = (ob (ls_world h))\<lparr>md_env := (md_env (ob (ls_world h)))(e \<mapsto> None)\<rparr>" using mdb_opensD(3) [OF L] by blast
  then have e1: "md_env (ob w1) e = Some None" "md_disk (ob w1) P \<noteq> None" using D by simp_all
  obtain w2 where w2: "mdb_env_set_mapsize lib e (lmdb_mapsize cfg) w1 = (w2, 0)" "ob w2 = ob w1"
    using mdb_opensD(4) [OF L e1(1)] by blast
  obtain w3 where w3: "mdb_env_open lib e P (lmdb_sync cfg = 0) w2 = (w3, 0)"
    "ob w3 = (ob w1)\<lparr>md_env := (md_env (ob w1))(e \<mapsto> Some P)\<rparr>"
    using mdb_opensD(5) [OF L, of w2 e P] e1 w2(2) by auto
  have b: "md_env (ob w3) e = Some (Some P)" "md_disk (ob w3) P = Some C" "\<And>t. md_txn (ob w3) t = None"
    using w3(2) w1(2) D T by simp_all
  obtain w4 t where w4: "mdb_txn_begin lib e w3 = (w4, 0, t)"
    "ob w4 = (ob w3)\<lparr>md_txn := (md_txn (ob w3))(t \<mapsto> (P, C))\<rparr>" using mdb_transactsD(1) [OF L b] by blast
  have t4: "md_txn (ob w4) t \<noteq> None" using w4(2) by simp
  obtain w5 d where w5: "mdb_open lib t w4 = (w5, 0, d)" "ob w5 = (ob w4)\<lparr>md_dbi := (md_dbi (ob w4))(d \<mapsto> False)\<rparr>"
    using mdb_opensD(6) [OF L t4] by blast
  have t5: "md_txn (ob w5) t \<noteq> None" "md_dbi (ob w5) d = Some False" using w5(2) t4 by simp_all
  obtain w6 where w6: "mdb_set_compare lib t d lmdb_compare_iid w5 = (w6, 0)"
    "ob w6 = (ob w5)\<lparr>md_dbi := (md_dbi (ob w5))(d \<mapsto> True)\<rparr>" using mdb_opensD(7) [OF L t5] by blast
  have t6: "md_txn (ob w6) t = Some (P, C)" using w6(2) w5(2) w4(2) by simp
  obtain w7 where w7: "mdb_txn_commit lib t w6 = (w7, 0)"
    "ob w7 = (ob w6)\<lparr>md_txn := (md_txn (ob w6))(t := None), md_disk := (md_disk (ob w6))(P \<mapsto> C)\<rparr>"
    using mdb_transactsD(2) [OF L t6] by blast
  have "lmdb_storage_init lib cfg P h = (h\<lparr>ls_env := e, ls_dbi := d, ls_world := w7\<rparr>, 0)"
    using w1(1) w2(1) w3(1) w4(1) w5(1) w6(1) w7(1) by (simp add: lmdb_storage_init_def)
  moreover have "md_disk (ob w7) = md_disk (ob (ls_world h))" "md_txn (ob w7) = Map.empty"
    "md_env (ob w7) e = Some (Some P)" "md_dbi (ob w7) d = Some True"
    using w7(2) w6(2) w5(2) w4(2) w3(2) w1(2) D T by (simp_all add: fun_eq_iff)
  ultimately show ?thesis by blast
qed

lemma lmdb_opens:
  assumes L: "mdb_works lib ob" and cfg: "trash_files cfg = 0" and B: "lmdb_boots lib ob cfg ident D s"
    and D: "\<And>C. D = Some C \<Longrightarrow> contents_ok C"
  shows "\<exists>s'. storage_open s = Inr (s', 0) \<and> lmdb_ok lib ob (lmdb_path cfg ident) s' \<and>
    lmdb_contents ob (lmdb_path cfg ident) s' = (case D of None \<Rightarrow> [] | Some C \<Rightarrow> C)"
proof -
  let ?P = "lmdb_path cfg ident" and ?C = "case D of None \<Rightarrow> [] | Some C \<Rightarrow> C"
  obtain w where s: "s = storage_init_lmdb lib cfg w ident" "md_disk (ob w) ?P = D" "md_txn (ob w) = Map.empty"
    using B by (auto simp: lmdb_boots_def)
  have "\<exists>w1. (if os_stat lib ?P w then (w, 0) else os_mkdir lib ?P w) = (w1, 0) \<and>
      md_disk (ob w1) ?P = Some ?C \<and> md_txn (ob w1) = Map.empty"
    using mdb_opensD(1,2) [OF L, where p = ?P and w = w] s by (cases D) auto
  then obtain w1 where w1: "(if os_stat lib ?P w then (w, 0) else os_mkdir lib ?P w) = (w1, 0)"
    "md_disk (ob w1) ?P = Some ?C" "md_txn (ob w1) = Map.empty" by blast
  let ?h = "(lmdb_storage_new w ident)\<lparr>ls_world := w1\<rparr>"
  have h: "md_disk (ob (ls_world ?h)) ?P = Some ?C" "md_txn (ob (ls_world ?h)) = Map.empty" using w1 by simp_all
  obtain w2 e d where w2: "lmdb_storage_init lib cfg ?P ?h = (?h\<lparr>ls_env := e, ls_dbi := d, ls_world := w2\<rparr>, 0)"
    "md_env (ob w2) e = Some (Some ?P)" "md_dbi (ob w2) d = Some True" "md_disk (ob w2) = md_disk (ob w1)"
    "md_txn (ob w2) = Map.empty" using lmdb_init_opens [OF L h, of cfg] by auto
  have C: "contents_ok ?C" using D by (cases D) simp_all
  let ?s = "s\<lparr>st_handle := ?h\<lparr>ls_env := e, ls_dbi := d, ls_world := w2\<rparr>\<rparr>"
  have "storage_open s = Inr (?s, 0)"
    using w1(1) w2(1) cfg
    by (simp add: storage_ops s(1) storage_init_lmdb_def lmdb_storage_open_def) (simp add: lmdb_storage_new_def)
  moreover have "lmdb_ok lib ob ?P ?s" "lmdb_contents ob ?P ?s = ?C"
    by (rule lmdb_okI; use L w2 w1(2) C in \<open>simp add: s(1) storage_init_lmdb_def lmdb_api_def lmdb_open_def
        lmdb_storage_new_def\<close>)+
  ultimately show ?thesis by blast
qed

section \<open>The storage keeps what it promises\<close>

text \<open>Over any library that works, for any configuration that does not remove the files.\<close>

definition lmdb_sound :: "'m mdb_lib \<Rightarrow> ('m \<Rightarrow> mdb_state) \<Rightarrow> paxos_config \<Rightarrow> int \<Rightarrow> 'm lmdb_storage storage \<Rightarrow> bool" where
  "lmdb_sound lib ob cfg ident s \<longleftrightarrow> lmdb_ok lib ob (lmdb_path cfg ident) s \<and> trash_files cfg = 0"

interpretation lm: durable_store "lmdb_sound (lib :: 'm mdb_lib) ob cfg ident" "\<lambda>s. lmdb_busy lib ob (lmdb_path cfg ident) s \<and> trash_files cfg = 0"
  "lmdb_view ob (lmdb_path cfg ident)" "lmdb_lost ob (lmdb_path cfg ident)" "lmdb_disk ob (lmdb_path cfg ident)"
  "lmdb_boots lib ob cfg ident" "lmdb_trim_point ob (lmdb_path cfg ident)"
proof unfold_locales
  let ?P = "lmdb_path cfg ident"
  fix s s' s0 :: "'m lmdb_storage storage" and i t :: iid_t and r :: paxos_accepted and rv :: int
  note same = lmdb_view_def lmdb_lost_def lmdb_trim_point_def fun_eq_iff
  { assume ok: "lmdb_sound lib ob cfg ident s"
    then have ok': "lmdb_ok lib ob ?P s" "trash_files cfg = 0" by (simp_all add: lmdb_sound_def)
    note C = lmdb_ok_contents [OF ok'(1)]
    show "\<exists>s'. storage_tx_begin s = Inr s' \<and> (lmdb_busy lib ob ?P s' \<and> trash_files cfg = 0) \<and>
        lmdb_view ob ?P s' = lmdb_view ob ?P s \<and> lmdb_lost ob ?P s' = lmdb_lost ob ?P s"
      using lmdb_begin [OF ok'(1)] ok'(2) by (auto simp: same)
    show "lmdb_view ob ?P s i = Some r \<Longrightarrow> accepted_iid r = i"
      "lmdb_view ob ?P s i = Some r \<Longrightarrow> value_wf (accepted_value r)"
      using record_at_iid [OF C(2)] by (auto simp: lmdb_view_def)
    show "storage_tx_begin s = Inr s' \<Longrightarrow> lmdb_disk ob ?P s' = lmdb_disk ob ?P s \<and> lmdb_trim_point ob ?P s' = lmdb_trim_point ob ?P s"
      using lmdb_begin [OF ok'(1)] by (auto simp: lmdb_trim_point_def)
    show "lmdb_boots lib ob cfg ident (lmdb_disk ob ?P s) s0 \<Longrightarrow>
        \<exists>s' rv. storage_open s0 = Inr (s', rv) \<and> 0 \<le> rv \<and> lmdb_sound lib ob cfg ident s' \<and>
          lmdb_view ob ?P s' = lmdb_view ob ?P s \<and> lmdb_lost ob ?P s' = lmdb_lost ob ?P s \<and>
          lmdb_trim_point ob ?P s' = lmdb_trim_point ob ?P s"
      using lmdb_opens [of lib ob cfg ident "lmdb_disk ob ?P s" s0] ok' C
      by (fastforce simp: lmdb_disk_def same lmdb_sound_def lmdb_ok_def) }
  { assume "lmdb_busy lib ob ?P s \<and> trash_files cfg = 0"
    then have b: "lmdb_busy lib ob ?P s" "trash_files cfg = 0" by simp_all
    note C = lmdb_busy_contents [OF b(1)]
    show "\<exists>s'. storage_tx_commit s = Inr s' \<and> lmdb_sound lib ob cfg ident s' \<and>
        lmdb_view ob ?P s' = lmdb_view ob ?P s \<and> lmdb_lost ob ?P s' = lmdb_lost ob ?P s"
      using lmdb_commit [OF b(1)] b(2) by (auto simp: same lmdb_sound_def)
    show "storage_tx_commit s = Inr s' \<Longrightarrow> lmdb_trim_point ob ?P s' = lmdb_trim_point ob ?P s"
      using lmdb_commit [OF b(1)] by (auto simp: lmdb_trim_point_def)
    show "lmdb_lost ob ?P s i \<Longrightarrow> \<exists>e. storage_get_record s i = Inl e"
      using lmdb_get(1) [OF b(1)] by blast
    show "\<not> lmdb_lost ob ?P s i \<Longrightarrow> storage_get_record s i = Inr (lmdb_view ob ?P s i)"
      by (rule lmdb_get(2) [OF b(1)])
    show "storage_get_trim_instance s = Inr (lmdb_trim_point ob ?P s)" by (rule lmdb_get(3) [OF b(1)])
    show "0 < t \<Longrightarrow> \<exists>s' rv. storage_trim s t = Inr (s', rv) \<and> (lmdb_busy lib ob ?P s' \<and> trash_files cfg = 0) \<and>
        (\<forall>i. t < i \<longrightarrow> lmdb_view ob ?P s' i = lmdb_view ob ?P s i \<and> lmdb_lost ob ?P s' i = lmdb_lost ob ?P s i)"
      using lmdb_trim [OF b(1)] b(2) record_at_trimmed(1) [OF C(2)]
      by (fastforce simp: lmdb_view_def lmdb_lost_def)
    show "0 < t \<Longrightarrow> storage_trim s t = Inr (s', rv) \<Longrightarrow> lmdb_disk ob ?P s' = lmdb_disk ob ?P s \<and> lmdb_trim_point ob ?P s' = t"
      using lmdb_trim [OF b(1)] record_at_trimmed(3) [OF C(2)] by (fastforce simp: lmdb_trim_point_def trim_at_def)
    assume wf: "value_wf (accepted_value r)" and pos: "0 < accepted_iid r"
    note put = lmdb_put [OF b(1) wf pos]
    show "storage_put_record s r = Inr (s', rv) \<Longrightarrow> lmdb_disk ob ?P s' = lmdb_disk ob ?P s \<and> lmdb_trim_point ob ?P s' = lmdb_trim_point ob ?P s"
      using put pos trim_at_put [OF C(2)] by (fastforce simp: lmdb_trim_point_def)
    have z: "smap_get (smap_put (lmdb_contents ob ?P s) (accepted_iid r) d) 0 = smap_get (lmdb_contents ob ?P s) 0" for d
      using pos C(2) by (auto simp: contents_ok_def smap_get_put)
    show "\<exists>s' rv. storage_put_record s r = Inr (s', rv) \<and> (lmdb_busy lib ob ?P s' \<and> trash_files cfg = 0) \<and>
        \<not> lmdb_lost ob ?P s' (accepted_iid r) \<and> lmdb_view ob ?P s' (accepted_iid r) = Some r \<and>
        (\<forall>i. i \<noteq> accepted_iid r \<longrightarrow> lmdb_lost ob ?P s' i \<or> \<not> lmdb_lost ob ?P s i \<and> lmdb_view ob ?P s' i = lmdb_view ob ?P s i)"
      using put pos b(2) record_at_put(1) [OF C(2)] z by (fastforce simp: lmdb_view_def lmdb_lost_def) }
qed

text \<open>A state of an acceptor on LMDB between two requests.\<close>

definition lmdb_acceptor ::
  "'m mdb_lib \<Rightarrow> ('m \<Rightarrow> mdb_state) \<Rightarrow> paxos_config \<Rightarrow> int \<Rightarrow> 'm lmdb_storage acceptor \<Rightarrow> bool" where
  "lmdb_acceptor lib ob cfg ident a \<longleftrightarrow>
     lmdb_sound lib ob cfg ident (acc_store a) \<and>
     acc_trim_iid a = lmdb_trim_point ob (lmdb_path cfg ident) (acc_store a)"

lemma lmdb_acceptor_synced: "lmdb_acceptor lib ob cfg ident a \<Longrightarrow> lm.synced lib ob cfg ident a"
  by (simp add: lmdb_acceptor_def lm.synced_def lm.acc_ok_def)

lemma lmdb_synced_acceptor: "lm.synced lib ob cfg ident a \<Longrightarrow> lmdb_acceptor lib ob cfg ident a"
  by (simp add: lmdb_acceptor_def lm.synced_def lm.acc_ok_def)

lemma lmdb_starts:
  assumes "mdb_works lib ob" and "trash_files cfg = 0" and "lmdb_boots lib ob cfg ident D s"
    and "\<And>C. D = Some C \<Longrightarrow> contents_ok C"
  shows "\<exists>a. acceptor_new_on s = Inr (Some a) \<and> lmdb_acceptor lib ob cfg ident a"
proof -
  obtain s' where s': "storage_open s = Inr (s', 0)" "lmdb_ok lib ob (lmdb_path cfg ident) s'"
    using lmdb_opens [OF assms] by blast
  then have "lmdb_sound lib ob cfg ident s'" using assms(2) by (simp add: lmdb_sound_def)
  then obtain s1 where s1: "storage_tx_begin s' = Inr s1" "lmdb_busy lib ob (lmdb_path cfg ident) s1"
    using lmdb_begin [OF s'(2)] by blast
  obtain s2 where s2: "storage_tx_commit s1 = Inr s2" "lmdb_ok lib ob (lmdb_path cfg ident) s2"
    "lmdb_contents ob (lmdb_path cfg ident) s2 = lmdb_contents ob (lmdb_path cfg ident) s1" using lmdb_commit [OF s1(2)] by blast
  show ?thesis
    using s' s1 s2 lmdb_get(3) [OF s1(2)] assms(2)
    by (simp add: acceptor_new_on_def lmdb_acceptor_def lmdb_sound_def lmdb_trim_point_def)
qed

section \<open>A library that works\<close>

text \<open>
  The documented behaviour, as a library on \<open>mdb_state\<close> itself, with one handle of each kind.
\<close>

definition ref_mdb :: "mdb_state mdb_lib" where
  "ref_mdb =
     \<lparr>mdb_notfound = - 30798,
      mdb_env_create = (\<lambda>w. (w\<lparr>md_env := (md_env w)(1 \<mapsto> None)\<rparr>, 0, 1)),
      mdb_env_set_mapsize = (\<lambda>e n w. (w, 0)),
      mdb_env_open = (\<lambda>e p ns w. (w\<lparr>md_env := (md_env w)(e \<mapsto> Some p)\<rparr>, 0)),
      mdb_env_close = (\<lambda>e w. w\<lparr>md_env := (md_env w)(e := None)\<rparr>),
      mdb_txn_begin = (\<lambda>e w.
        case md_env w e of
          Some (Some p) \<Rightarrow> (w\<lparr>md_txn := (md_txn w)(1 \<mapsto> (p, case md_disk w p of Some C \<Rightarrow> C | None \<Rightarrow> []))\<rparr>, 0, 1)
        | _ \<Rightarrow> (w, 22, 0)),
      mdb_txn_commit = (\<lambda>t w.
        case md_txn w t of
          Some (p, C) \<Rightarrow> (w\<lparr>md_txn := (md_txn w)(t := None), md_disk := (md_disk w)(p \<mapsto> C)\<rparr>, 0)
        | None \<Rightarrow> (w, 22)),
      mdb_txn_abort = (\<lambda>t w. w\<lparr>md_txn := (md_txn w)(t := None)\<rparr>),
      mdb_open = (\<lambda>t w. (w\<lparr>md_dbi := (md_dbi w)(1 \<mapsto> False)\<rparr>, 0, 1)),
      mdb_close = (\<lambda>e d w. w\<lparr>md_dbi := (md_dbi w)(d := None)\<rparr>),
      mdb_set_compare = (\<lambda>t d cmp w. (w\<lparr>md_dbi := (md_dbi w)(d \<mapsto> True)\<rparr>, 0)),
      mdb_get = (\<lambda>t d k w.
        case md_txn w t of
          Some (p, C) \<Rightarrow> (case smap_get C (key_iid k) of Some x \<Rightarrow> (0, x) | None \<Rightarrow> (- 30798, Iid_data 0))
        | None \<Rightarrow> (22, Iid_data 0)),
      mdb_put = (\<lambda>t d k x w.
        case md_txn w t of
          Some (p, C) \<Rightarrow> (w\<lparr>md_txn := (md_txn w)(t \<mapsto> (p, smap_put C (key_iid k) x))\<rparr>, 0)
        | None \<Rightarrow> (w, 22)),
      mdb_cursor_open = (\<lambda>t d w. (w\<lparr>md_cur := (md_cur w)(1 \<mapsto> (t, None))\<rparr>, 0, 1)),
      mdb_cursor_next = (\<lambda>c w.
        case md_cur w c of
          None \<Rightarrow> (w, 22, iid_key 0)
        | Some (t, pos) \<Rightarrow>
            (case md_txn w t of
               None \<Rightarrow> (w, 22, iid_key 0)
             | Some (p, C) \<Rightarrow>
                 (case next_key C pos of
                    None \<Rightarrow> (w, - 30798, iid_key 0)
                  | Some k \<Rightarrow> (w\<lparr>md_cur := (md_cur w)(c \<mapsto> (t, Some k))\<rparr>, 0, iid_key k)))),
      mdb_cursor_del = (\<lambda>c w.
        case md_cur w c of
          Some (t, Some k) \<Rightarrow>
            (case md_txn w t of
               None \<Rightarrow> (w, 22)
             | Some (p, C) \<Rightarrow> (w\<lparr>md_txn := (md_txn w)(t \<mapsto> (p, smap_erase C k))\<rparr>, 0))
        | _ \<Rightarrow> (w, 22)),
      mdb_cursor_close = (\<lambda>c w. w\<lparr>md_cur := (md_cur w)(c := None)\<rparr>),
      os_stat = (\<lambda>p w. md_disk w p \<noteq> None),
      os_mkdir = (\<lambda>p w. (w\<lparr>md_disk := (md_disk w)(p \<mapsto> [])\<rparr>, 0)),
      os_system = (\<lambda>cmd w. w)\<rparr>"

lemma ref_mdb_works: "mdb_works ref_mdb (\<lambda>w. w)"
proof -
  have "mdb_opens ref_mdb (\<lambda>w. w)" by (simp add: mdb_opens_def ref_mdb_def)
  moreover have "mdb_transacts ref_mdb (\<lambda>w. w)" by (simp add: mdb_transacts_def ref_mdb_def)
  moreover have "mdb_stores ref_mdb (\<lambda>w. w)"
    by (simp add: mdb_stores_def ref_mdb_def iid_key_def split: option.split)
  moreover have "mdb_walks ref_mdb (\<lambda>w. w)"
    by (simp add: mdb_walks_def ref_mdb_def split: option.split)
  ultimately show ?thesis by (simp add: mdb_works_def)
qed

text \<open>A disk without files, and the acceptor that starts on it.\<close>

definition empty_mdb :: mdb_state where
  "empty_mdb = \<lparr>md_disk = Map.empty, md_env = Map.empty, md_txn = Map.empty, md_dbi = Map.empty, md_cur = Map.empty\<rparr>"

definition lmdb_demo :: "mdb_state lmdb_storage acceptor" where
  "lmdb_demo =
     (case acceptor_new_on (storage_init_lmdb ref_mdb default_config empty_mdb 3) of
        Inr (Some a) \<Rightarrow> a
      | _ \<Rightarrow> \<lparr>acc_trim_iid = 0, acc_store = storage_init_lmdb ref_mdb default_config empty_mdb 3\<rparr>)"

lemma lmdb_demo_ok: "lmdb_acceptor ref_mdb (\<lambda>w. w) default_config 3 lmdb_demo"
proof -
  have "lmdb_boots ref_mdb (\<lambda>w. w) default_config 3 None (storage_init_lmdb ref_mdb default_config empty_mdb 3)"
    by (auto simp: lmdb_boots_def empty_mdb_def)
  from lmdb_starts [OF ref_mdb_works _ this] show ?thesis by (auto simp: lmdb_demo_def default_config_def)
qed

section \<open>Properties\<close>

text \<open>
  C12. An acceptor on LMDB keeps its promise over restarts: after it has answered a prepare request
  with a promise, whatever requests follow, and however often its process ends and is started
  again on the same files, no accepted message for that instance has a lower ballot, as long
  as the instance is not trimmed.
\<close>

theorem lmdb_keeps_promise:
  assumes "lmdb_acceptor lib ob cfg ident a"
    and "acceptor_receive_prepare a req = Inr (a1, Some (PAXOS_PROMISE p))"
    and "acceptor_life (lmdb_disk ob (lmdb_path cfg ident)) (lmdb_boots lib ob cfg ident) a1 outs a2"
    and "Some (PAXOS_ACCEPTED r) \<in> set outs" and "accepted_iid r = promise_iid p"
    and "acc_trim_iid a2 < promise_iid p"
  shows "promise_ballot p \<le> accepted_ballot r"
  by (rule lm.life_keeps_promise [OF lmdb_acceptor_synced [OF assms(1)] assms(2-6)])

text \<open>
  C13. Restarting an acceptor on LMDB: the new process has the same trim point and the same record
  for every instance, and answers for the same instances.
\<close>

theorem lmdb_restart_recovers:
  assumes "lmdb_acceptor lib ob cfg ident a"
    and "lmdb_boots lib ob cfg ident (lmdb_disk ob (lmdb_path cfg ident) (acc_store a)) s"
  shows "\<exists>a'. acceptor_new_on s = Inr (Some a') \<and> lmdb_acceptor lib ob cfg ident a' \<and>
    acc_trim_iid a' = acc_trim_iid a \<and>
    lmdb_view ob (lmdb_path cfg ident) (acc_store a') = lmdb_view ob (lmdb_path cfg ident) (acc_store a)"
  using lm.restart [OF lmdb_acceptor_synced [OF assms(1)] assms(2)] lmdb_synced_acceptor
  by (auto simp: lm.keeps_def)

text \<open>
  \<open>lmdb_storage_trim\<close>: inside a transaction, trimming removes exactly the records up to the
  trim point, keeps the others, and the trim point is the one that is read back.
\<close>

theorem lmdb_trim_exact:
  assumes "lmdb_busy lib ob P s" and "0 < iid"
  shows "\<exists>s'. storage_trim s iid = Inr (s', 0) \<and> storage_get_trim_instance s' = Inr iid \<and>
    (\<forall>i. 0 < i \<longrightarrow> storage_get_record s' i = (if i \<le> iid then Inr None else storage_get_record s i))"
proof -
  obtain s' where s': "storage_trim s iid = Inr (s', 0)" "lmdb_busy lib ob P s'"
    "lmdb_contents ob P s' = trimmed_contents iid (lmdb_contents ob P s)" using lmdb_trim [OF assms] by blast
  note C = lmdb_busy_contents(2) [OF assms(1)]
  have "storage_get_record s' i = (if i \<le> iid then Inr None else storage_get_record s i)" if "0 < i" for i
  proof -
    have "\<not> lmdb_lost ob P s' i" "\<not> lmdb_lost ob P s i" using that by (auto simp: lmdb_lost_def)
    then show ?thesis
      using lmdb_get(2) [OF s'(2)] lmdb_get(2) [OF assms(1)] s'(3) record_at_trimmed(1,2) [OF C]
      by (simp add: lmdb_view_def)
  qed
  moreover have "storage_get_trim_instance s' = Inr iid"
    using lmdb_get(3) [OF s'(2)] s'(3) record_at_trimmed(3) [OF C]
    by (simp add: lmdb_trim_point_def trim_at_def)
  ultimately show ?thesis using s'(1) by blast
qed

text \<open>
  Once an acceptor on LMDB has been trimmed, a repeat request that starts at instance 0 reads
  the trim point as if it were a record, past the end of its four bytes.
\<close>

theorem lmdb_repeat_zero_overreads:
  assumes "lmdb_acceptor lib ob cfg ident a" and "acc_trim_iid a \<noteq> 0"
  shows "acceptor_receive_repeat a 0 = Inl OutOfBounds"
proof -
  have ok: "lmdb_ok lib ob (lmdb_path cfg ident) (acc_store a)"
    using assms(1) by (simp add: lmdb_acceptor_def lmdb_sound_def)
  obtain s where s: "storage_tx_begin (acc_store a) = Inr s" "lmdb_busy lib ob (lmdb_path cfg ident) s"
    "lmdb_contents ob (lmdb_path cfg ident) s = lmdb_contents ob (lmdb_path cfg ident) (acc_store a)"
    using lmdb_begin [OF ok] by blast
  have "lmdb_lost ob (lmdb_path cfg ident) s 0"
    using assms s(3) by (auto simp: lmdb_lost_def lmdb_acceptor_def lmdb_trim_point_def trim_at_def split: option.splits)
  then show ?thesis using lmdb_get(1) [OF s(2)] s(1) by (simp add: acceptor_receive_repeat_def)
qed

section \<open>A concrete acceptor\<close>

text \<open>What is left of a state of the library when the process ends.\<close>

definition crashed_mdb :: "mdb_state \<Rightarrow> mdb_state" where
  "crashed_mdb w = w\<lparr>md_env := Map.empty, md_txn := Map.empty, md_dbi := Map.empty, md_cur := Map.empty\<rparr>"

definition lmdb_reboot :: "mdb_state lmdb_storage acceptor \<Rightarrow> mdb_state lmdb_storage storage" where
  "lmdb_reboot a = storage_init_lmdb ref_mdb default_config (crashed_mdb (ls_world (st_handle (acc_store a)))) 3"

lemma lmdb_reboot_boots:
  "lmdb_boots ref_mdb (\<lambda>w. w) default_config 3
     (lmdb_disk (\<lambda>w. w) (lmdb_path default_config 3) (acc_store a)) (lmdb_reboot a)"
  by (auto simp: lmdb_boots_def lmdb_reboot_def lmdb_disk_def crashed_mdb_def)

theorem lmdb_keeps_promise_witness:
  "\<exists>a1 outs a3.
     acceptor_receive_prepare lmdb_demo life_prepare = Inr (a1, Some (PAXOS_PROMISE life_promise)) \<and>
     acceptor_life (lmdb_disk (\<lambda>w. w) (lmdb_path default_config 3)) (lmdb_boots ref_mdb (\<lambda>w. w) default_config 3) a1 outs a3 \<and>
     Some (PAXOS_ACCEPTED acc_demo_accepted) \<in> set outs \<and>
     promise_ballot life_promise \<le> accepted_ballot acc_demo_accepted"
proof -
  have "life_answers (restart_script lmdb_demo lmdb_reboot)" by code_simp
  then obtain a1 outs a3 where
    l: "acceptor_receive_prepare lmdb_demo life_prepare = Inr (a1, Some (PAXOS_PROMISE life_promise))"
      "acceptor_life (lmdb_disk (\<lambda>w. w) (lmdb_path default_config 3)) (lmdb_boots ref_mdb (\<lambda>w. w) default_config 3) a1 outs a3"
      "Some (PAXOS_ACCEPTED acc_demo_accepted) \<in> set outs" "acc_trim_iid a3 = 0"
    using lmdb_reboot_boots by (rule restart_script_life)
  have "promise_ballot life_promise \<le> accepted_ballot acc_demo_accepted"
    by (rule lmdb_keeps_promise [OF lmdb_demo_ok l(1-3)]) (simp_all add: l(4) acc_demo_accepted_def life_promise_def)
  then show ?thesis using l(1-3) by blast
qed

theorem lmdb_restart_recovers_witness:
  "\<exists>a. acceptor_new_on (lmdb_reboot lmdb_demo) = Inr (Some a) \<and> acc_trim_iid a = acc_trim_iid lmdb_demo"
  using lmdb_restart_recovers [OF lmdb_demo_ok lmdb_reboot_boots] by blast

theorem lmdb_trim_exact_witness:
  "\<exists>s s'. storage_trim s 5 = Inr (s', 0) \<and> storage_get_trim_instance s' = Inr 5 \<and>
     storage_tx_begin (acc_store lmdb_demo) = Inr s"
proof -
  have "lmdb_ok ref_mdb (\<lambda>w. w) (lmdb_path default_config 3) (acc_store lmdb_demo)"
    using lmdb_demo_ok by (simp add: lmdb_acceptor_def lmdb_sound_def)
  then obtain s where s: "storage_tx_begin (acc_store lmdb_demo) = Inr s"
    "lmdb_busy ref_mdb (\<lambda>w. w) (lmdb_path default_config 3) s" using lmdb_begin by blast
  show ?thesis using lmdb_trim_exact [OF s(2), of 5] s(1) by auto
qed

theorem lmdb_repeat_zero_overreads_witness:
  "\<exists>a d. acceptor_receive_trim lmdb_demo \<lparr>trim_iid = 5\<rparr> = Inr (a, d) \<and> acceptor_receive_repeat a 0 = Inl OutOfBounds"
proof -
  note sy = lmdb_acceptor_synced [OF lmdb_demo_ok]
  have "lm.acc_ok ref_mdb (\<lambda>w. w) default_config 3 lmdb_demo" using sy by (simp add: lm.synced_def)
  from lm.trim_spec [OF this, of "\<lparr>trim_iid = 5\<rparr>"] obtain a d
    where t: "acceptor_receive_trim lmdb_demo \<lparr>trim_iid = 5\<rparr> = Inr (a, d)" "acc_trim_iid a = max (acc_trim_iid lmdb_demo) 5"
    by auto
  have "acc_trim_iid a \<noteq> 0" using t(2) by (auto simp: max_def split: if_splits)
  then show ?thesis
    using lmdb_repeat_zero_overreads [OF lmdb_synced_acceptor [OF lm.trim_synced [OF sy t(1)]]] t(1) by blast
qed

end
