(* ===== verification/StorageBdb.thy ===== *)
theory StorageBdb
  imports StorageDb Durable
begin

text \<open>
  \<open>paxos/storage_bdb.c\<close>: the records of an acceptor in a BerkeleyDB database. As for LMDB the
  library and the operating system are the fields of a record, \<open>bdb_lib\<close>, functions on a state
  \<open>'m\<close>; the methods of \<open>DB_ENV\<close>, \<open>DB\<close>, \<open>DB_TXN\<close> and \<open>DBC\<close> take the handle as a number, 0 is
  \<open>NULL\<close>. \<open>bdb_works\<close> states the documented behaviour that the theorems rely on.
\<close>

section \<open>The library\<close>

record 'm bdb_lib =
  db_notfound :: int
  db_keyempty :: int
  db_env_create :: "'m \<Rightarrow> 'm \<times> int \<times> nat"
  env_set_nosync :: "nat \<Rightarrow> 'm \<Rightarrow> 'm \<times> int"
  env_set_cachesize :: "nat \<Rightarrow> 64 word \<Rightarrow> 64 word \<Rightarrow> 'm \<Rightarrow> 'm \<times> int"
  env_open :: "nat \<Rightarrow> string \<Rightarrow> 'm \<Rightarrow> 'm \<times> int"
  env_close :: "nat \<Rightarrow> 'm \<Rightarrow> 'm \<times> int"
  env_txn_begin :: "nat \<Rightarrow> 'm \<Rightarrow> 'm \<times> int \<times> nat"
  txn_commit :: "nat \<Rightarrow> 'm \<Rightarrow> 'm \<times> int"
  db_create :: "nat \<Rightarrow> 'm \<Rightarrow> 'm \<times> int \<times> nat"
  db_set_bt_compare :: "nat \<Rightarrow> (db_key \<Rightarrow> db_key \<Rightarrow> int outcome) \<Rightarrow> 'm \<Rightarrow> 'm"
  db_open :: "nat \<Rightarrow> nat \<Rightarrow> string \<Rightarrow> 'm \<Rightarrow> 'm \<times> int"
  db_close :: "nat \<Rightarrow> 'm \<Rightarrow> 'm \<times> int"
  db_get :: "nat \<Rightarrow> nat \<Rightarrow> db_key \<Rightarrow> 'm \<Rightarrow> int \<times> db_data"
  db_get_iid :: "nat \<Rightarrow> nat \<Rightarrow> db_key \<Rightarrow> 'm \<Rightarrow> int \<times> iid_t"
  db_put :: "nat \<Rightarrow> nat \<Rightarrow> db_key \<Rightarrow> db_data \<Rightarrow> 'm \<Rightarrow> 'm \<times> int"
  db_cursor :: "nat \<Rightarrow> nat \<Rightarrow> 'm \<Rightarrow> 'm \<times> int \<times> nat"
  c_get_next :: "nat \<Rightarrow> 'm \<Rightarrow> 'm \<times> int \<times> db_key"
  c_del :: "nat \<Rightarrow> 'm \<Rightarrow> 'm \<times> int"
  c_close :: "nat \<Rightarrow> 'm \<Rightarrow> 'm"
  bdb_stat :: "string \<Rightarrow> 'm \<Rightarrow> bool"
  bdb_mkdir :: "string \<Rightarrow> 'm \<Rightarrow> 'm \<times> int"
  bdb_system :: "string \<Rightarrow> 'm \<Rightarrow> 'm"

section \<open>The operations\<close>

record 'm bdb_storage =
  bs_db :: nat
  bs_env :: nat
  bs_txn :: nat
  bs_acceptor_id :: int
  bs_world :: 'm

definition bdb_compare_iid :: "db_key \<Rightarrow> db_key \<Rightarrow> int outcome" where
  "bdb_compare_iid lhs rhs =
     (if key_size lhs \<noteq> 4 \<or> key_size rhs \<noteq> 4 then Inl AssertFailure
      else let lid = key_iid lhs; rid = key_iid rhs
           in Inr (if lid = rid then 0 else if lid < rid then - 1 else 1))"

definition bdb_storage_new :: "'m \<Rightarrow> int \<Rightarrow> 'm bdb_storage" where
  "bdb_storage_new w acceptor_id =
     \<lparr>bs_db = 0, bs_env = 0, bs_txn = 0, bs_acceptor_id = acceptor_id, bs_world = w\<rparr>"

text \<open>A method of the handle \<open>p\<close> is called through the pointer.\<close>

definition through_pointer :: "nat \<Rightarrow> 'a \<Rightarrow> 'a outcome" where
  "through_pointer p x = (if p = 0 then Inl NullPointer else Inr x)"

definition bdb_init_tx_handle ::
  "'m bdb_lib \<Rightarrow> paxos_config \<Rightarrow> string \<Rightarrow> 'm bdb_storage \<Rightarrow> 'm bdb_storage \<times> int" where
  "bdb_init_tx_handle lib cfg path s =
     (let failed = (\<lambda>w. (s\<lparr>bs_world := w\<rparr>, - 1));
          (w, result, env) = db_env_create lib (bs_world s)
      in if result \<noteq> 0 then failed w
      else let (w, result) = (if bdb_sync cfg = 0 then env_set_nosync lib env w else (w, result))
      in if result \<noteq> 0 then failed w
      else let bytes = bdb_cachesize cfg mod (1024 * 1024 * 1024);
               gbytes = (bdb_cachesize cfg - bytes) div (1024 * 1024 * 1024);
               (w, result) = env_set_cachesize lib env gbytes bytes w
      in if result \<noteq> 0 then failed w
      else let (w, result) = env_open lib env path w
      in if result \<noteq> 0 then failed w
      else (s\<lparr>bs_env := env, bs_world := w\<rparr>, 0))"

definition bdb_storage_tx_begin :: "'m bdb_lib \<Rightarrow> 'm bdb_storage \<Rightarrow> 'm bdb_storage outcome" where
  "bdb_storage_tx_begin lib s =
     bindE (through_pointer (bs_env s) (env_txn_begin lib (bs_env s) (bs_world s))) (\<lambda>(w, result, txn).
       if result = 0 then Inr (s\<lparr>bs_txn := txn, bs_world := w\<rparr>) else Inl AssertFailure)"

definition bdb_storage_tx_commit :: "'m bdb_lib \<Rightarrow> 'm bdb_storage \<Rightarrow> 'm bdb_storage outcome" where
  "bdb_storage_tx_commit lib s =
     bindE (through_pointer (bs_txn s) (txn_commit lib (bs_txn s) (bs_world s))) (\<lambda>(w, result).
       if result = 0 then Inr (s\<lparr>bs_world := w\<rparr>) else Inl AssertFailure)"

definition bdb_init_db ::
  "'m bdb_lib \<Rightarrow> string \<Rightarrow> 'm bdb_storage \<Rightarrow> ('m bdb_storage \<times> int) outcome" where
  "bdb_init_db lib path s =
     (let (w, result, db) = db_create lib (bs_env s) (bs_world s);
          s = s\<lparr>bs_db := db, bs_world := w\<rparr>
      in if result \<noteq> 0 then Inr (s, - 1)
      else let s = s\<lparr>bs_world := db_set_bt_compare lib db bdb_compare_iid w\<rparr>
      in bindE (bdb_storage_tx_begin lib s) (\<lambda>s.
         let (w, result) = db_open lib db (bs_txn s) path (bs_world s)
         in bindE (bdb_storage_tx_commit lib (s\<lparr>bs_world := w\<rparr>)) (\<lambda>s.
              Inr (s, if result \<noteq> 0 then - 1 else 0))))"

definition bdb_path :: "paxos_config \<Rightarrow> int \<Rightarrow> string" where
  "bdb_path cfg acceptor_id = bdb_env_path cfg @ ''_'' @ int_to_string acceptor_id"

definition bdb_storage_open ::
  "'m bdb_lib \<Rightarrow> paxos_config \<Rightarrow> 'm bdb_storage \<Rightarrow> ('m bdb_storage \<times> int) outcome" where
  "bdb_storage_open lib cfg s =
     (let path = bdb_path cfg (bs_acceptor_id s);
          rm_command = ''rm -r '' @ path
      in if trash_files cfg \<noteq> 0 \<and> 600 \<le> length rm_command then Inl OutOfBounds
      else let w = (if trash_files cfg \<noteq> 0 then bdb_system lib rm_command (bs_world s) else bs_world s);
               (w, result) = (if bdb_stat lib path w then (w, 0) else bdb_mkdir lib path w);
               s = s\<lparr>bs_world := w\<rparr>
      in if result \<noteq> 0 then Inr (s, - 1)
      else let (s, result) = bdb_init_tx_handle lib cfg path s
      in if result \<noteq> 0 then Inr (s, - 1)
      else bindE (bdb_init_db lib (bdb_db_filename cfg) s) (\<lambda>(s, result).
             Inr (s, if result \<noteq> 0 then - 1 else 1)))"

definition bdb_storage_close :: "'m bdb_lib \<Rightarrow> 'm bdb_storage \<Rightarrow> ('m bdb_storage \<times> int) outcome" where
  "bdb_storage_close lib s =
     bindE (through_pointer (bs_db s) (db_close lib (bs_db s) (bs_world s))) (\<lambda>(w, r1).
     bindE (through_pointer (bs_env s) (env_close lib (bs_env s) w)) (\<lambda>(w, r2).
       Inr (s\<lparr>bs_world := w\<rparr>, if r1 \<noteq> 0 \<or> r2 \<noteq> 0 then - 1 else 0)))"

text \<open>Any error of the library is answered like a record that is not there.\<close>

definition bdb_storage_get :: "'m bdb_lib \<Rightarrow> 'm bdb_storage \<Rightarrow> iid_t \<Rightarrow> paxos_accepted option outcome" where
  "bdb_storage_get lib s iid =
     bindE (through_pointer (bs_db s) (db_get lib (bs_db s) (bs_txn s) (iid_key iid) (bs_world s))) (\<lambda>(result, data).
       if result = db_notfound lib \<or> result = db_keyempty lib then Inr None
       else if result \<noteq> 0 then Inr None
       else bindE (paxos_accepted_from_buffer data) (\<lambda>out.
              if iid = accepted_iid out then Inr (Some out) else Inl AssertFailure))"

definition bdb_storage_put :: "'m bdb_lib \<Rightarrow> 'm bdb_storage \<Rightarrow> paxos_accepted \<Rightarrow> ('m bdb_storage \<times> int) outcome" where
  "bdb_storage_put lib s acc =
     bindE (paxos_accepted_to_buffer acc) (\<lambda>buffer.
     bindE (through_pointer (bs_db s) (db_put lib (bs_db s) (bs_txn s) (iid_key (accepted_iid acc)) buffer (bs_world s))) (\<lambda>(w, rv).
       Inr (s\<lparr>bs_world := w\<rparr>, if rv \<noteq> 0 then rv else 0)))"

definition bdb_storage_get_trim_instance :: "'m bdb_lib \<Rightarrow> 'm bdb_storage \<Rightarrow> iid_t outcome" where
  "bdb_storage_get_trim_instance lib s =
     bindE (through_pointer (bs_db s) (db_get_iid lib (bs_db s) (bs_txn s) (iid_key 0) (bs_world s))) (\<lambda>(result, iid).
       if result = db_notfound lib \<or> result = db_keyempty lib then Inr 0
       else if result \<noteq> 0 then Inr 0
       else Inr iid)"

definition bdb_storage_put_trim_instance ::
  "'m bdb_lib \<Rightarrow> 'm bdb_storage \<Rightarrow> iid_t \<Rightarrow> ('m bdb_storage \<times> int) outcome" where
  "bdb_storage_put_trim_instance lib s iid =
     bindE (through_pointer (bs_db s) (db_put lib (bs_db s) (bs_txn s) (iid_key 0) (Iid_data iid) (bs_world s))) (\<lambda>(w, result).
       Inr (s\<lparr>bs_world := w\<rparr>, if result \<noteq> 0 then result else 0))"

definition bdb_next :: "'m bdb_lib \<Rightarrow> nat \<Rightarrow> 'm \<Rightarrow> 'm \<times> int \<times> iid_t" where
  "bdb_next lib cursor w = (let (w, result, key) = c_get_next lib cursor w in (w, result, key_iid key))"

definition bdb_storage_trim :: "'m bdb_lib \<Rightarrow> 'm bdb_storage \<Rightarrow> iid_t \<Rightarrow> ('m bdb_storage \<times> int) outcome" where
  "bdb_storage_trim lib s iid =
     (if iid = 0 then Inr (s, 0)
      else bindE (bdb_storage_put_trim_instance lib s iid) (\<lambda>(s, _).
        let (w, result, cursor) = db_cursor lib (bs_db s) (bs_txn s) (bs_world s)
        in if result \<noteq> 0 then Inr (s\<lparr>bs_world := w\<rparr>, 0)
           else let w = trim_loop (bdb_next lib cursor) (c_del lib cursor) trim_rounds iid w;
                    w = (if cursor \<noteq> 0 then c_close lib cursor w else w)
                in Inr (s\<lparr>bs_world := w\<rparr>, 0)))"

definition storage_init_bdb :: "'m bdb_lib \<Rightarrow> paxos_config \<Rightarrow> 'm \<Rightarrow> int \<Rightarrow> 'm bdb_storage storage" where
  "storage_init_bdb lib cfg w acceptor_id =
     \<lparr>st_handle = bdb_storage_new w acceptor_id, api_open = bdb_storage_open lib cfg,
      api_close = bdb_storage_close lib, api_tx_begin = bdb_storage_tx_begin lib,
      api_tx_commit = bdb_storage_tx_commit lib, api_get = bdb_storage_get lib,
      api_put = bdb_storage_put lib, api_trim = bdb_storage_trim lib,
      api_get_trim_instance = bdb_storage_get_trim_instance lib\<rparr>"

section \<open>The documented behaviour of the library\<close>

text \<open>
  The files of the environments on disk, by directory and name; the environments; the
  transactions, each with its environment and the files as it sees them; the databases, with
  whether their keys are compared as instance ids and the file once it is open; the cursors,
  with their database, transaction and position.
\<close>

type_synonym db_files = "string \<Rightarrow> db_contents option"

record bdb_state =
  bd_disk :: "string \<Rightarrow> db_files option"
  bd_env :: "nat \<Rightarrow> string option option"
  bd_txn :: "nat \<Rightarrow> (string \<times> db_files) option"
  bd_db :: "nat \<Rightarrow> (bool \<times> string option) option"
  bd_cur :: "nat \<Rightarrow> (nat \<times> nat \<times> iid_t option) option"

definition bdb_opens :: "'m bdb_lib \<Rightarrow> ('m \<Rightarrow> bdb_state) \<Rightarrow> bool" where
  "bdb_opens lib ob \<longleftrightarrow>
     (\<forall>w p. bdb_stat lib p w = (bd_disk (ob w) p \<noteq> None)) \<and>
     (\<forall>w p. bd_disk (ob w) p = None \<longrightarrow>
        (\<exists>w'. bdb_mkdir lib p w = (w', 0) \<and> ob w' = (ob w)\<lparr>bd_disk := (bd_disk (ob w))(p \<mapsto> Map.empty)\<rparr>)) \<and>
     (\<forall>w. \<exists>w' e. db_env_create lib w = (w', 0, e) \<and> e \<noteq> 0 \<and>
        ob w' = (ob w)\<lparr>bd_env := (bd_env (ob w))(e \<mapsto> None)\<rparr>) \<and>
     (\<forall>w e. bd_env (ob w) e = Some None \<longrightarrow> (\<exists>w'. env_set_nosync lib e w = (w', 0) \<and> ob w' = ob w)) \<and>
     (\<forall>w e g b. bd_env (ob w) e = Some None \<longrightarrow> (\<exists>w'. env_set_cachesize lib e g b w = (w', 0) \<and> ob w' = ob w)) \<and>
     (\<forall>w e p. bd_env (ob w) e = Some None \<longrightarrow> bd_disk (ob w) p \<noteq> None \<longrightarrow>
        (\<exists>w'. env_open lib e p w = (w', 0) \<and> ob w' = (ob w)\<lparr>bd_env := (bd_env (ob w))(e \<mapsto> Some p)\<rparr>)) \<and>
     (\<forall>w e p. bd_env (ob w) e = Some (Some p) \<longrightarrow>
        (\<exists>w' d. db_create lib e w = (w', 0, d) \<and> d \<noteq> 0 \<and>
           ob w' = (ob w)\<lparr>bd_db := (bd_db (ob w))(d \<mapsto> (False, None))\<rparr>)) \<and>
     (\<forall>w d cmp. bd_db (ob w) d = Some (False, None) \<longrightarrow> orders_iids cmp \<longrightarrow>
        ob (db_set_bt_compare lib d cmp w) = (ob w)\<lparr>bd_db := (bd_db (ob w))(d \<mapsto> (True, None))\<rparr>) \<and>
     (\<forall>w d b t p F f. bd_db (ob w) d = Some (b, None) \<longrightarrow> bd_txn (ob w) t = Some (p, F) \<longrightarrow>
        (\<exists>w'. db_open lib d t f w = (w', 0) \<and>
           ob w' = (ob w)\<lparr>bd_db := (bd_db (ob w))(d \<mapsto> (b, Some f)),
             bd_txn := (bd_txn (ob w))(t \<mapsto> (p, F(f \<mapsto> (case F f of None \<Rightarrow> [] | Some C \<Rightarrow> C))))\<rparr>))"

definition bdb_transacts :: "'m bdb_lib \<Rightarrow> ('m \<Rightarrow> bdb_state) \<Rightarrow> bool" where
  "bdb_transacts lib ob \<longleftrightarrow>
     (\<forall>w e p F. bd_env (ob w) e = Some (Some p) \<longrightarrow> bd_disk (ob w) p = Some F \<longrightarrow> (\<forall>t. bd_txn (ob w) t = None) \<longrightarrow>
        (\<exists>w' t. env_txn_begin lib e w = (w', 0, t) \<and> t \<noteq> 0 \<and>
           ob w' = (ob w)\<lparr>bd_txn := (bd_txn (ob w))(t \<mapsto> (p, F))\<rparr>)) \<and>
     (\<forall>w t p F. bd_txn (ob w) t = Some (p, F) \<longrightarrow>
        (\<exists>w'. txn_commit lib t w = (w', 0) \<and>
           ob w' = (ob w)\<lparr>bd_txn := (bd_txn (ob w))(t := None), bd_disk := (bd_disk (ob w))(p \<mapsto> F)\<rparr>))"

text \<open>A buffer of four bytes takes a trim point and no record.\<close>

definition bdb_stores :: "'m bdb_lib \<Rightarrow> ('m \<Rightarrow> bdb_state) \<Rightarrow> bool" where
  "bdb_stores lib ob \<longleftrightarrow>
     (\<forall>w t d f p F C k. bd_txn (ob w) t = Some (p, F) \<longrightarrow> bd_db (ob w) d = Some (True, Some f) \<longrightarrow> F f = Some C \<longrightarrow>
        (case smap_get C k of
           Some x \<Rightarrow> db_get lib d t (iid_key k) w = (0, x)
         | None \<Rightarrow> fst (db_get lib d t (iid_key k) w) = db_notfound lib)) \<and>
     (\<forall>w t d f p F C k. bd_txn (ob w) t = Some (p, F) \<longrightarrow> bd_db (ob w) d = Some (True, Some f) \<longrightarrow> F f = Some C \<longrightarrow>
        (case smap_get C k of
           Some (Iid_data i) \<Rightarrow> db_get_iid lib d t (iid_key k) w = (0, i)
         | Some (Record_data acc bs) \<Rightarrow> fst (db_get_iid lib d t (iid_key k) w) \<noteq> 0
         | None \<Rightarrow> fst (db_get_iid lib d t (iid_key k) w) = db_notfound lib)) \<and>
     db_notfound lib \<noteq> 0 \<and> db_keyempty lib \<noteq> 0 \<and>
     (\<forall>w t d f p F C k x. bd_txn (ob w) t = Some (p, F) \<longrightarrow> bd_db (ob w) d = Some (True, Some f) \<longrightarrow> F f = Some C \<longrightarrow>
        (\<exists>w'. db_put lib d t (iid_key k) x w = (w', 0) \<and>
           ob w' = (ob w)\<lparr>bd_txn := (bd_txn (ob w))(t \<mapsto> (p, F(f \<mapsto> smap_put C k x)))\<rparr>))"

definition bdb_walks :: "'m bdb_lib \<Rightarrow> ('m \<Rightarrow> bdb_state) \<Rightarrow> bool" where
  "bdb_walks lib ob \<longleftrightarrow>
     (\<forall>w t d f. bd_txn (ob w) t \<noteq> None \<longrightarrow> bd_db (ob w) d = Some (True, Some f) \<longrightarrow>
        (\<exists>w' c. db_cursor lib d t w = (w', 0, c) \<and> c \<noteq> 0 \<and>
           ob w' = (ob w)\<lparr>bd_cur := (bd_cur (ob w))(c \<mapsto> (d, t, None))\<rparr>)) \<and>
     (\<forall>w c d t pos f p F C. bd_cur (ob w) c = Some (d, t, pos) \<longrightarrow> bd_txn (ob w) t = Some (p, F) \<longrightarrow>
        bd_db (ob w) d = Some (True, Some f) \<longrightarrow> F f = Some C \<longrightarrow>
        (case next_key C pos of
           None \<Rightarrow> (\<exists>w' rc k. c_get_next lib c w = (w', rc, k) \<and> rc \<noteq> 0 \<and> ob w' = ob w)
         | Some k \<Rightarrow> (\<exists>w'. c_get_next lib c w = (w', 0, iid_key k) \<and>
             ob w' = (ob w)\<lparr>bd_cur := (bd_cur (ob w))(c \<mapsto> (d, t, Some k))\<rparr>))) \<and>
     (\<forall>w c d t k f p F C. bd_cur (ob w) c = Some (d, t, Some k) \<longrightarrow> bd_txn (ob w) t = Some (p, F) \<longrightarrow>
        bd_db (ob w) d = Some (True, Some f) \<longrightarrow> F f = Some C \<longrightarrow> smap_get C k \<noteq> None \<longrightarrow>
        (\<exists>w'. c_del lib c w = (w', 0) \<and>
           ob w' = (ob w)\<lparr>bd_txn := (bd_txn (ob w))(t \<mapsto> (p, F(f \<mapsto> smap_erase C k)))\<rparr>)) \<and>
     (\<forall>w c. bd_cur (ob w) c \<noteq> None \<longrightarrow> ob (c_close lib c w) = (ob w)\<lparr>bd_cur := (bd_cur (ob w))(c := None)\<rparr>)"

definition bdb_works :: "'m bdb_lib \<Rightarrow> ('m \<Rightarrow> bdb_state) \<Rightarrow> bool" where
  "bdb_works lib ob \<longleftrightarrow> bdb_opens lib ob \<and> bdb_transacts lib ob \<and> bdb_stores lib ob \<and> bdb_walks lib ob"

lemma bdb_compare_orders: "orders_iids bdb_compare_iid"
  by (simp add: orders_iids_def bdb_compare_iid_def iid_key_def Let_def)

lemma bdb_transactsD:
  assumes "bdb_works lib ob"
  shows "bd_env (ob w) e = Some (Some p) \<Longrightarrow> bd_disk (ob w) p = Some F \<Longrightarrow> (\<And>t. bd_txn (ob w) t = None) \<Longrightarrow>
      \<exists>w' t. env_txn_begin lib e w = (w', 0, t) \<and> t \<noteq> 0 \<and> ob w' = (ob w)\<lparr>bd_txn := (bd_txn (ob w))(t \<mapsto> (p, F))\<rparr>"
    and "bd_txn (ob w) t = Some (p, F) \<Longrightarrow>
      \<exists>w'. txn_commit lib t w = (w', 0) \<and>
        ob w' = (ob w)\<lparr>bd_txn := (bd_txn (ob w))(t := None), bd_disk := (bd_disk (ob w))(p \<mapsto> F)\<rparr>"
  using assms unfolding bdb_works_def bdb_transacts_def by blast+

lemma bdb_storesD:
  assumes "bdb_works lib ob" and "bd_txn (ob w) t = Some (p, F)" and "bd_db (ob w) d = Some (True, Some f)" and "F f = Some C"
  shows "case smap_get C k of
      Some x \<Rightarrow> db_get lib d t (iid_key k) w = (0, x)
    | None \<Rightarrow> fst (db_get lib d t (iid_key k) w) = db_notfound lib"
    and "case smap_get C k of
      Some (Iid_data i) \<Rightarrow> db_get_iid lib d t (iid_key k) w = (0, i)
    | Some (Record_data acc bs) \<Rightarrow> fst (db_get_iid lib d t (iid_key k) w) \<noteq> 0
    | None \<Rightarrow> fst (db_get_iid lib d t (iid_key k) w) = db_notfound lib"
    and "db_notfound lib \<noteq> 0" and "db_keyempty lib \<noteq> 0"
    and "\<exists>w'. db_put lib d t (iid_key k) y w = (w', 0) \<and>
        ob w' = (ob w)\<lparr>bd_txn := (bd_txn (ob w))(t \<mapsto> (p, F(f \<mapsto> smap_put C k y)))\<rparr>"
proof -
  have st: "bdb_stores lib ob" using assms(1) by (simp add: bdb_works_def)
  note laws = st [unfolded bdb_stores_def]
  note get = conjunct1 [OF laws] and rest = conjunct2 [OF laws]
  show "case smap_get C k of
      Some x \<Rightarrow> db_get lib d t (iid_key k) w = (0, x)
    | None \<Rightarrow> fst (db_get lib d t (iid_key k) w) = db_notfound lib"
    by (rule get [rule_format, where F = F and f = f, OF assms(2-4)])
  show "case smap_get C k of
      Some (Iid_data i) \<Rightarrow> db_get_iid lib d t (iid_key k) w = (0, i)
    | Some (Record_data acc bs) \<Rightarrow> fst (db_get_iid lib d t (iid_key k) w) \<noteq> 0
    | None \<Rightarrow> fst (db_get_iid lib d t (iid_key k) w) = db_notfound lib"
    by (rule conjunct1 [OF rest, rule_format, where F = F and f = f, OF assms(2-4)])
  note rest = conjunct2 [OF rest]
  show "db_notfound lib \<noteq> 0" and "db_keyempty lib \<noteq> 0" using rest by blast+
  show "\<exists>w'. db_put lib d t (iid_key k) y w = (w', 0) \<and>
        ob w' = (ob w)\<lparr>bd_txn := (bd_txn (ob w))(t \<mapsto> (p, F(f \<mapsto> smap_put C k y)))\<rparr>"
    by (rule conjunct2 [OF conjunct2 [OF rest], rule_format, where F = F and f = f, OF assms(2-4)])
qed

lemma bdb_walksD:
  assumes "bdb_works lib ob"
  shows "bd_txn (ob w) t \<noteq> None \<Longrightarrow> bd_db (ob w) d = Some (True, Some f) \<Longrightarrow>
      \<exists>w' c. db_cursor lib d t w = (w', 0, c) \<and> c \<noteq> 0 \<and> ob w' = (ob w)\<lparr>bd_cur := (bd_cur (ob w))(c \<mapsto> (d, t, None))\<rparr>"
    and "bd_cur (ob w) c = Some (d, t, pos) \<Longrightarrow> bd_txn (ob w) t = Some (p, F) \<Longrightarrow> bd_db (ob w) d = Some (True, Some f) \<Longrightarrow>
      F f = Some C \<Longrightarrow> next_key C pos = None \<Longrightarrow>
      \<exists>w' rc k. c_get_next lib c w = (w', rc, k) \<and> rc \<noteq> 0 \<and> ob w' = ob w"
    and "bd_cur (ob w) c = Some (d, t, pos) \<Longrightarrow> bd_txn (ob w) t = Some (p, F) \<Longrightarrow> bd_db (ob w) d = Some (True, Some f) \<Longrightarrow>
      F f = Some C \<Longrightarrow> next_key C pos = Some k \<Longrightarrow>
      \<exists>w'. c_get_next lib c w = (w', 0, iid_key k) \<and> ob w' = (ob w)\<lparr>bd_cur := (bd_cur (ob w))(c \<mapsto> (d, t, Some k))\<rparr>"
    and "bd_cur (ob w) c = Some (d, t, Some k) \<Longrightarrow> bd_txn (ob w) t = Some (p, F) \<Longrightarrow> bd_db (ob w) d = Some (True, Some f) \<Longrightarrow>
      F f = Some C \<Longrightarrow> smap_get C k \<noteq> None \<Longrightarrow>
      \<exists>w'. c_del lib c w = (w', 0) \<and> ob w' = (ob w)\<lparr>bd_txn := (bd_txn (ob w))(t \<mapsto> (p, F(f \<mapsto> smap_erase C k)))\<rparr>"
    and "bd_cur (ob w) c \<noteq> None \<Longrightarrow> ob (c_close lib c w) = (ob w)\<lparr>bd_cur := (bd_cur (ob w))(c := None)\<rparr>"
proof -
  have "bdb_walks lib ob" using assms by (simp add: bdb_works_def)
  note laws = this [unfolded bdb_walks_def]
  note next_law = conjunct1 [OF conjunct2 [OF laws], rule_format, where F = F and f = f and C = C]
  show "bd_txn (ob w) t \<noteq> None \<Longrightarrow> bd_db (ob w) d = Some (True, Some f) \<Longrightarrow>
      \<exists>w' c. db_cursor lib d t w = (w', 0, c) \<and> c \<noteq> 0 \<and> ob w' = (ob w)\<lparr>bd_cur := (bd_cur (ob w))(c \<mapsto> (d, t, None))\<rparr>"
    by (rule conjunct1 [OF laws, rule_format])
  show "bd_cur (ob w) c = Some (d, t, pos) \<Longrightarrow> bd_txn (ob w) t = Some (p, F) \<Longrightarrow> bd_db (ob w) d = Some (True, Some f) \<Longrightarrow>
      F f = Some C \<Longrightarrow> next_key C pos = None \<Longrightarrow>
      \<exists>w' rc k. c_get_next lib c w = (w', rc, k) \<and> rc \<noteq> 0 \<and> ob w' = ob w"
    by (drule (3) next_law) simp
  show "bd_cur (ob w) c = Some (d, t, pos) \<Longrightarrow> bd_txn (ob w) t = Some (p, F) \<Longrightarrow> bd_db (ob w) d = Some (True, Some f) \<Longrightarrow>
      F f = Some C \<Longrightarrow> next_key C pos = Some k \<Longrightarrow>
      \<exists>w'. c_get_next lib c w = (w', 0, iid_key k) \<and> ob w' = (ob w)\<lparr>bd_cur := (bd_cur (ob w))(c \<mapsto> (d, t, Some k))\<rparr>"
    by (drule (3) next_law) simp
  show "bd_cur (ob w) c = Some (d, t, Some k) \<Longrightarrow> bd_txn (ob w) t = Some (p, F) \<Longrightarrow> bd_db (ob w) d = Some (True, Some f) \<Longrightarrow>
      F f = Some C \<Longrightarrow> smap_get C k \<noteq> None \<Longrightarrow>
      \<exists>w'. c_del lib c w = (w', 0) \<and> ob w' = (ob w)\<lparr>bd_txn := (bd_txn (ob w))(t \<mapsto> (p, F(f \<mapsto> smap_erase C k)))\<rparr>"
    by (rule conjunct1 [OF conjunct2 [OF conjunct2 [OF laws]], rule_format, where F = F and f = f and C = C])
  show "bd_cur (ob w) c \<noteq> None \<Longrightarrow> ob (c_close lib c w) = (ob w)\<lparr>bd_cur := (bd_cur (ob w))(c := None)\<rparr>"
    using conjunct2 [OF conjunct2 [OF conjunct2 [OF laws]]] by blast
qed

section \<open>The storage of an acceptor\<close>

definition bdb_api :: "'m bdb_lib \<Rightarrow> 'm bdb_storage storage \<Rightarrow> bool" where
  "bdb_api lib s \<longleftrightarrow>
     api_tx_begin s = bdb_storage_tx_begin lib \<and> api_tx_commit s = bdb_storage_tx_commit lib \<and>
     api_get s = bdb_storage_get lib \<and> api_put s = bdb_storage_put lib \<and> api_trim s = bdb_storage_trim lib \<and>
     api_get_trim_instance s = bdb_storage_get_trim_instance lib"

text \<open>\<open>P\<close> is the directory of the environment that belongs to the acceptor, \<open>f\<close> the database file.\<close>

definition bdb_open :: "('m \<Rightarrow> bdb_state) \<Rightarrow> string \<Rightarrow> string \<Rightarrow> 'm bdb_storage \<Rightarrow> bool" where
  "bdb_open ob P f h \<longleftrightarrow>
     bs_env h \<noteq> 0 \<and> bs_db h \<noteq> 0 \<and> bd_env (ob (bs_world h)) (bs_env h) = Some (Some P) \<and>
     bd_db (ob (bs_world h)) (bs_db h) = Some (True, Some f)"

definition bdb_ok :: "'m bdb_lib \<Rightarrow> ('m \<Rightarrow> bdb_state) \<Rightarrow> string \<Rightarrow> string \<Rightarrow> 'm bdb_storage storage \<Rightarrow> bool" where
  "bdb_ok lib ob P f s \<longleftrightarrow>
     bdb_works lib ob \<and> bdb_api lib s \<and> bdb_open ob P f (st_handle s) \<and>
     bd_txn (ob (bs_world (st_handle s))) = Map.empty \<and>
     (\<exists>F C. bd_disk (ob (bs_world (st_handle s))) P = Some F \<and> F f = Some C \<and> contents_ok C)"

definition bdb_busy :: "'m bdb_lib \<Rightarrow> ('m \<Rightarrow> bdb_state) \<Rightarrow> string \<Rightarrow> string \<Rightarrow> 'm bdb_storage storage \<Rightarrow> bool" where
  "bdb_busy lib ob P f s \<longleftrightarrow>
     bdb_works lib ob \<and> bdb_api lib s \<and> bdb_open ob P f (st_handle s) \<and> bs_txn (st_handle s) \<noteq> 0 \<and>
     (\<exists>F C. bd_txn (ob (bs_world (st_handle s))) = Map.empty(bs_txn (st_handle s) \<mapsto> (P, F)) \<and> F f = Some C \<and> contents_ok C)"

definition bdb_contents :: "('m \<Rightarrow> bdb_state) \<Rightarrow> string \<Rightarrow> string \<Rightarrow> 'm bdb_storage storage \<Rightarrow> db_contents" where
  "bdb_contents ob P f s =
     (let seen = ob (bs_world (st_handle s));
          files = (case bd_txn seen (bs_txn (st_handle s)) of
                     Some (p, F) \<Rightarrow> F
                   | None \<Rightarrow> (case bd_disk seen P of Some F \<Rightarrow> F | None \<Rightarrow> Map.empty))
      in case files f of Some C \<Rightarrow> C | None \<Rightarrow> [])"

definition bdb_view :: "('m \<Rightarrow> bdb_state) \<Rightarrow> string \<Rightarrow> string \<Rightarrow> 'm bdb_storage storage \<Rightarrow> iid_t \<Rightarrow> paxos_accepted option" where
  "bdb_view ob P f s = record_at (bdb_contents ob P f s)"

definition bdb_lost :: "('m \<Rightarrow> bdb_state) \<Rightarrow> string \<Rightarrow> string \<Rightarrow> 'm bdb_storage storage \<Rightarrow> iid_t \<Rightarrow> bool" where
  "bdb_lost ob P f s i \<longleftrightarrow> i = 0 \<and> smap_get (bdb_contents ob P f s) 0 \<noteq> None"

definition bdb_trim_point :: "('m \<Rightarrow> bdb_state) \<Rightarrow> string \<Rightarrow> string \<Rightarrow> 'm bdb_storage storage \<Rightarrow> iid_t" where
  "bdb_trim_point ob P f s = trim_at (bdb_contents ob P f s)"

definition bdb_disk :: "('m \<Rightarrow> bdb_state) \<Rightarrow> string \<Rightarrow> 'm bdb_storage storage \<Rightarrow> db_files option" where
  "bdb_disk ob P s = bd_disk (ob (bs_world (st_handle s))) P"

lemma bdb_busyI:
  assumes "bdb_works lib ob" and "bdb_api lib s" and "bdb_open ob P f (st_handle s)" and "bs_txn (st_handle s) \<noteq> 0"
    and "bd_txn (ob (bs_world (st_handle s))) = Map.empty(bs_txn (st_handle s) \<mapsto> (P, F))" and "F f = Some C" and "contents_ok C"
  shows "bdb_busy lib ob P f s" and "bdb_contents ob P f s = C"
  using assms by (auto simp: bdb_busy_def bdb_contents_def)

lemma bdb_okI:
  assumes "bdb_works lib ob" and "bdb_api lib s" and "bdb_open ob P f (st_handle s)"
    and "bd_txn (ob (bs_world (st_handle s))) = Map.empty"
    and "bd_disk (ob (bs_world (st_handle s))) P = Some F" and "F f = Some C" and "contents_ok C"
  shows "bdb_ok lib ob P f s" and "bdb_contents ob P f s = C"
  using assms by (auto simp: bdb_ok_def bdb_contents_def)

lemma bdb_busyE:
  assumes "bdb_busy lib ob P f s"
  obtains F where "bdb_works lib ob" "bdb_api lib s" "bdb_open ob P f (st_handle s)" "bs_txn (st_handle s) \<noteq> 0"
    "bd_txn (ob (bs_world (st_handle s))) = Map.empty(bs_txn (st_handle s) \<mapsto> (P, F))"
    "F f = Some (bdb_contents ob P f s)" "contents_ok (bdb_contents ob P f s)"
  using assms by (auto simp: bdb_busy_def bdb_contents_def)

lemma bdb_okE:
  assumes "bdb_ok lib ob P f s"
  obtains F where "bdb_works lib ob" "bdb_api lib s" "bdb_open ob P f (st_handle s)"
    "bd_txn (ob (bs_world (st_handle s))) = Map.empty" "bd_disk (ob (bs_world (st_handle s))) P = Some F"
    "F f = Some (bdb_contents ob P f s)" "contents_ok (bdb_contents ob P f s)"
  using assms by (auto simp: bdb_ok_def bdb_contents_def)

lemma bdb_api_handle [simp]: "bdb_api lib (s\<lparr>st_handle := h\<rparr>) = bdb_api lib s"
  by (simp add: bdb_api_def)

lemmas bdb_ops =
  storage_ops bdb_api_def through_pointer_def bdb_storage_tx_begin_def bdb_storage_tx_commit_def
  bdb_storage_get_def bdb_storage_put_def bdb_storage_get_trim_instance_def

lemma bdb_begin:
  assumes "bdb_ok lib ob P f s"
  shows "\<exists>s'. storage_tx_begin s = Inr s' \<and> bdb_busy lib ob P f s' \<and>
    bdb_contents ob P f s' = bdb_contents ob P f s \<and> bdb_disk ob P s' = bdb_disk ob P s"
proof -
  let ?h = "st_handle s"
  obtain F where k: "bdb_works lib ob" "bdb_api lib s" "bdb_open ob P f ?h"
    "bd_txn (ob (bs_world ?h)) = Map.empty" "bd_disk (ob (bs_world ?h)) P = Some F"
    "F f = Some (bdb_contents ob P f s)" "contents_ok (bdb_contents ob P f s)" by (rule bdb_okE [OF assms])
  have env: "bd_env (ob (bs_world ?h)) (bs_env ?h) = Some (Some P)" "\<And>t. bd_txn (ob (bs_world ?h)) t = None"
    using k(3,4) by (simp_all add: bdb_open_def)
  obtain w t where w: "env_txn_begin lib (bs_env ?h) (bs_world ?h) = (w, 0, t)" "t \<noteq> 0"
    "ob w = (ob (bs_world ?h))\<lparr>bd_txn := (bd_txn (ob (bs_world ?h)))(t \<mapsto> (P, F))\<rparr>"
    using bdb_transactsD(1) [OF k(1) env(1) k(5) env(2)] by blast
  let ?s = "s\<lparr>st_handle := ?h\<lparr>bs_txn := t, bs_world := w\<rparr>\<rparr>"
  have "storage_tx_begin s = Inr ?s" using k(2,3) w(1) by (simp add: bdb_ops bdb_open_def)
  moreover have "bdb_busy lib ob P f ?s" "bdb_contents ob P f ?s = bdb_contents ob P f s"
    by (rule bdb_busyI [where F = F]; use k w in \<open>simp add: bdb_open_def\<close>)+
  ultimately show ?thesis using w(3) by (auto simp: bdb_disk_def)
qed

lemma bdb_commit:
  assumes "bdb_busy lib ob P f s"
  shows "\<exists>s'. storage_tx_commit s = Inr s' \<and> bdb_ok lib ob P f s' \<and> bdb_contents ob P f s' = bdb_contents ob P f s"
proof -
  let ?h = "st_handle s"
  obtain F where k: "bdb_works lib ob" "bdb_api lib s" "bdb_open ob P f ?h" "bs_txn ?h \<noteq> 0"
    "bd_txn (ob (bs_world ?h)) = Map.empty(bs_txn ?h \<mapsto> (P, F))"
    "F f = Some (bdb_contents ob P f s)" "contents_ok (bdb_contents ob P f s)" by (rule bdb_busyE [OF assms])
  have "bd_txn (ob (bs_world ?h)) (bs_txn ?h) = Some (P, F)" using k(5) by simp
  from bdb_transactsD(2) [OF k(1) this] obtain w where w: "txn_commit lib (bs_txn ?h) (bs_world ?h) = (w, 0)"
    "ob w = (ob (bs_world ?h))\<lparr>bd_txn := (bd_txn (ob (bs_world ?h)))(bs_txn ?h := None),
       bd_disk := (bd_disk (ob (bs_world ?h)))(P \<mapsto> F)\<rparr>" by blast
  let ?s = "s\<lparr>st_handle := ?h\<lparr>bs_world := w\<rparr>\<rparr>"
  have "storage_tx_commit s = Inr ?s" using k(2,4) w(1) by (simp add: bdb_ops)
  moreover have "bdb_ok lib ob P f ?s" "bdb_contents ob P f ?s = bdb_contents ob P f s"
    by (rule bdb_okI [where F = F]; use k w in \<open>simp add: bdb_open_def\<close>)+
  ultimately show ?thesis by blast
qed

lemma bdb_get:
  assumes "bdb_busy lib ob P f s"
  shows "bdb_lost ob P f s i \<Longrightarrow> storage_get_record s i = Inl OutOfBounds"
    and "\<not> bdb_lost ob P f s i \<Longrightarrow> storage_get_record s i = Inr (bdb_view ob P f s i)"
    and "storage_get_trim_instance s = Inr (bdb_trim_point ob P f s)"
proof -
  let ?h = "st_handle s" and ?C = "bdb_contents ob P f s"
  obtain F where k: "bdb_works lib ob" "bdb_api lib s" "bdb_open ob P f ?h" "bs_txn ?h \<noteq> 0"
    "bd_txn (ob (bs_world ?h)) = Map.empty(bs_txn ?h \<mapsto> (P, F))" "F f = Some ?C" "contents_ok ?C"
    by (rule bdb_busyE [OF assms])
  have x: "bd_txn (ob (bs_world ?h)) (bs_txn ?h) = Some (P, F)" "bd_db (ob (bs_world ?h)) (bs_db ?h) = Some (True, Some f)"
    "bs_db ?h \<noteq> 0" using k(3,5) by (simp_all add: bdb_open_def)
  note get = bdb_storesD [OF k(1) x(1,2) k(6)]
  have some: "db_get lib (bs_db ?h) (bs_txn ?h) (iid_key j) (bs_world ?h) = (0, y)" if "smap_get ?C j = Some y" for j y
    using get(1) [of j] that by simp
  have none: "\<exists>y. db_get lib (bs_db ?h) (bs_txn ?h) (iid_key j) (bs_world ?h) = (db_notfound lib, y)"
    if "smap_get ?C j = None" for j
    using get(1) [of j] that by (cases "db_get lib (bs_db ?h) (bs_txn ?h) (iid_key j) (bs_world ?h)") simp
  have nf: "db_notfound lib \<noteq> 0" "db_keyempty lib \<noteq> 0" by (rule get(3), rule get(4))
  have z: "\<exists>i. smap_get ?C 0 = Some (Iid_data i)" if "smap_get ?C 0 \<noteq> None"
    using that contents_get [OF k(7), of 0] by (auto simp: entry_ok_def split: db_data.splits)
  show "storage_get_trim_instance s = Inr (bdb_trim_point ob P f s)"
  proof (cases "smap_get ?C 0")
    case None
    then have "fst (db_get_iid lib (bs_db ?h) (bs_txn ?h) (iid_key 0) (bs_world ?h)) = db_notfound lib"
      using get(2) [of 0] by simp
    then show ?thesis using None k(2) x(3) by (auto simp: bdb_ops bdb_trim_point_def trim_at_def split: prod.split)
  next
    case (Some y)
    then obtain i where i: "smap_get ?C 0 = Some (Iid_data i)" using z by auto
    then have "db_get_iid lib (bs_db ?h) (bs_txn ?h) (iid_key 0) (bs_world ?h) = (0, i)" using get(2) [of 0] by simp
    then show ?thesis using i k(2) x(3) nf by (simp add: bdb_ops bdb_trim_point_def trim_at_def)
  qed
  { assume "bdb_lost ob P f s i"
    then obtain j where "i = 0" "smap_get ?C 0 = Some (Iid_data j)" using z by (auto simp: bdb_lost_def)
    then show "storage_get_record s i = Inl OutOfBounds"
      using some k(2) x(3) nf by (simp add: bdb_ops paxos_accepted_from_buffer_def) }
  { assume nl: "\<not> bdb_lost ob P f s i"
    show "storage_get_record s i = Inr (bdb_view ob P f s i)"
    proof (cases "smap_get ?C i")
      case None
      then show ?thesis using none [of i] k(2) x(3) by (auto simp: bdb_ops bdb_view_def record_at_def)
    next
      case (Some y)
      then have "i \<noteq> 0" using nl by (auto simp: bdb_lost_def)
      then obtain acc bs where "y = Record_data acc bs" "accepted_iid acc = i"
          "paxos_accepted_from_buffer (Record_data acc bs) = Inr acc"
        using contents_get [OF k(7) Some] by (cases y) (auto simp: entry_ok_def)
      then show ?thesis using Some some k(2) x(3) nf by (simp add: bdb_ops bdb_view_def record_at_def)
    qed }
qed

text \<open>A put of an entry inside a transaction, as \<open>put\<close> and \<open>trim\<close> make it.\<close>

lemma bdb_put_entry:
  assumes "bdb_busy lib ob P f s" and "entry_ok k x"
  obtains w where "db_put lib (bs_db (st_handle s)) (bs_txn (st_handle s)) (iid_key k) x (bs_world (st_handle s)) = (w, 0)"
    "bdb_busy lib ob P f (s\<lparr>st_handle := (st_handle s)\<lparr>bs_world := w\<rparr>\<rparr>)"
    "bdb_contents ob P f (s\<lparr>st_handle := (st_handle s)\<lparr>bs_world := w\<rparr>\<rparr>) = smap_put (bdb_contents ob P f s) k x"
    "bdb_disk ob P (s\<lparr>st_handle := (st_handle s)\<lparr>bs_world := w\<rparr>\<rparr>) = bdb_disk ob P s"
proof -
  let ?h = "st_handle s" and ?C = "bdb_contents ob P f s"
  obtain F where q: "bdb_works lib ob" "bdb_api lib s" "bdb_open ob P f ?h" "bs_txn ?h \<noteq> 0"
    "bd_txn (ob (bs_world ?h)) = Map.empty(bs_txn ?h \<mapsto> (P, F))" "F f = Some ?C" "contents_ok ?C"
    by (rule bdb_busyE [OF assms(1)])
  have x: "bd_txn (ob (bs_world ?h)) (bs_txn ?h) = Some (P, F)" "bd_db (ob (bs_world ?h)) (bs_db ?h) = Some (True, Some f)"
    using q(3,5) by (simp_all add: bdb_open_def)
  obtain w where w: "db_put lib (bs_db ?h) (bs_txn ?h) (iid_key k) x (bs_world ?h) = (w, 0)"
    "ob w = (ob (bs_world ?h))\<lparr>bd_txn := (bd_txn (ob (bs_world ?h)))(bs_txn ?h \<mapsto> (P, F(f \<mapsto> smap_put ?C k x)))\<rparr>"
    using bdb_storesD(5) [OF q(1) x q(6)] by blast
  let ?s = "s\<lparr>st_handle := ?h\<lparr>bs_world := w\<rparr>\<rparr>"
  have "bdb_busy lib ob P f ?s" "bdb_contents ob P f ?s = smap_put ?C k x"
    by (rule bdb_busyI [where F = "F(f \<mapsto> smap_put ?C k x)"];
        use q w contents_put [OF q(7) assms(2)] in \<open>simp add: bdb_open_def\<close>)+
  then show thesis by (rule that [OF w(1)]) (simp add: bdb_disk_def w(2))
qed

lemma bdb_put:
  assumes "bdb_busy lib ob P f s" and "value_wf (accepted_value r)" and "0 < accepted_iid r"
  shows "\<exists>s' bs. storage_put_record s r = Inr (s', 0) \<and> bdb_busy lib ob P f s' \<and>
    bdb_contents ob P f s' = smap_put (bdb_contents ob P f s) (accepted_iid r) (Record_data r bs) \<and>
    bdb_disk ob P s' = bdb_disk ob P s"
proof -
  obtain bs where b: "paxos_accepted_to_buffer r = Inr (Record_data r bs)"
    "paxos_accepted_from_buffer (Record_data r bs) = Inr r" using from_buffer_to_buffer [OF assms(2)] by blast
  obtain w where "db_put lib (bs_db (st_handle s)) (bs_txn (st_handle s)) (iid_key (accepted_iid r)) (Record_data r bs)
      (bs_world (st_handle s)) = (w, 0)"
    "bdb_busy lib ob P f (s\<lparr>st_handle := (st_handle s)\<lparr>bs_world := w\<rparr>\<rparr>)"
    "bdb_contents ob P f (s\<lparr>st_handle := (st_handle s)\<lparr>bs_world := w\<rparr>\<rparr>) =
      smap_put (bdb_contents ob P f s) (accepted_iid r) (Record_data r bs)"
    "bdb_disk ob P (s\<lparr>st_handle := (st_handle s)\<lparr>bs_world := w\<rparr>\<rparr>) = bdb_disk ob P s"
    by (rule bdb_put_entry [OF assms(1) record_entry_ok [OF assms(3) b(2) assms(2)]])
  moreover have "bdb_api lib s" "bs_db (st_handle s) \<noteq> 0" using assms(1) by (simp_all add: bdb_busy_def bdb_open_def)
  ultimately show ?thesis using b(1) by (auto simp: bdb_ops)
qed

text \<open>The cursor of \<open>bdb_storage_trim\<close>. \<open>E\<close> and \<open>G\<close> are what stays as it is while the loop runs.\<close>

definition bdb_at ::
  "'m bdb_lib \<Rightarrow> ('m \<Rightarrow> bdb_state) \<Rightarrow> nat \<Rightarrow> nat \<Rightarrow> nat \<Rightarrow> string \<Rightarrow> string \<Rightarrow> bdb_state \<Rightarrow> db_files \<Rightarrow> 'm \<Rightarrow> db_contents \<Rightarrow>
     iid_t option \<Rightarrow> bool" where
  "bdb_at lib ob c d t P f E G w C pos \<longleftrightarrow>
     bdb_works lib ob \<and> bd_cur (ob w) c = Some (d, t, pos) \<and> bd_txn (ob w) = Map.empty(t \<mapsto> (P, G(f \<mapsto> C))) \<and>
     bd_db E d = Some (True, Some f) \<and>
     bd_env (ob w) = bd_env E \<and> bd_db (ob w) = bd_db E \<and> bd_disk (ob w) = bd_disk E"

interpretation bc: key_cursor "bdb_next lib c" "c_del lib c" "bdb_at lib ob c d t P f E G"
proof unfold_locales
  fix w C pos k
  assume at: "bdb_at lib ob c d t P f E G w C pos"
  then have a: "bdb_works lib ob" "bd_cur (ob w) c = Some (d, t, pos)" "bd_txn (ob w) t = Some (P, G(f \<mapsto> C))"
    "bd_db (ob w) d = Some (True, Some f)" "(G(f \<mapsto> C)) f = Some C"
    by (simp_all add: bdb_at_def)
  { assume "next_key C pos = None"
    from bdb_walksD(2) [OF a this] obtain w' rc key
      where "c_get_next lib c w = (w', rc, key)" "rc \<noteq> 0" "ob w' = ob w" by blast
    then have "bdb_next lib c w = (w', rc, key_iid key)" "rc \<noteq> 0" "bdb_at lib ob c d t P f E G w' C pos"
      using at by (simp_all add: bdb_next_def bdb_at_def)
    then show "\<exists>w' rc k pos'. bdb_next lib c w = (w', rc, k) \<and> rc \<noteq> 0 \<and> bdb_at lib ob c d t P f E G w' C pos'"
      by blast }
  { assume "next_key C pos = Some k"
    from bdb_walksD(3) [OF a this] obtain w' where "c_get_next lib c w = (w', 0, iid_key k)"
      "ob w' = (ob w)\<lparr>bd_cur := (bd_cur (ob w))(c \<mapsto> (d, t, Some k))\<rparr>" by blast
    then show "\<exists>w'. bdb_next lib c w = (w', 0, k) \<and> bdb_at lib ob c d t P f E G w' C (Some k)"
      using at by (simp add: bdb_next_def bdb_at_def iid_key_def) }
next
  fix w C k
  assume at: "bdb_at lib ob c d t P f E G w C (Some k)" and k: "smap_get C k \<noteq> None"
  then have a: "bdb_works lib ob" "bd_cur (ob w) c = Some (d, t, Some k)" "bd_txn (ob w) t = Some (P, G(f \<mapsto> C))"
    "bd_db (ob w) d = Some (True, Some f)" "(G(f \<mapsto> C)) f = Some C"
    by (simp_all add: bdb_at_def)
  from bdb_walksD(4) [OF a k] obtain w' where "c_del lib c w = (w', 0)"
    "ob w' = (ob w)\<lparr>bd_txn := (bd_txn (ob w))(t \<mapsto> (P, G(f \<mapsto> C, f \<mapsto> smap_erase C k)))\<rparr>" by blast
  then show "\<exists>w'. c_del lib c w = (w', 0) \<and> bdb_at lib ob c d t P f E G w' (smap_erase C k) (Some k)"
    using at by (simp add: bdb_at_def)
qed

lemma bdb_trim:
  assumes "bdb_busy lib ob P f s" and "0 < iid"
  shows "\<exists>s'. storage_trim s iid = Inr (s', 0) \<and> bdb_busy lib ob P f s' \<and>
    bdb_contents ob P f s' = trimmed_contents iid (bdb_contents ob P f s) \<and> bdb_disk ob P s' = bdb_disk ob P s"
proof -
  let ?h = "st_handle s" and ?C = "smap_put (bdb_contents ob P f s) 0 (Iid_data iid)"
  let ?T = "trimmed_contents iid (bdb_contents ob P f s)"
  obtain w where w: "db_put lib (bs_db ?h) (bs_txn ?h) (iid_key 0) (Iid_data iid) (bs_world ?h) = (w, 0)"
    and b: "bdb_busy lib ob P f (s\<lparr>st_handle := ?h\<lparr>bs_world := w\<rparr>\<rparr>)"
    and c: "bdb_contents ob P f (s\<lparr>st_handle := ?h\<lparr>bs_world := w\<rparr>\<rparr>) = ?C"
    and dk: "bdb_disk ob P (s\<lparr>st_handle := ?h\<lparr>bs_world := w\<rparr>\<rparr>) = bdb_disk ob P s"
    by (rule bdb_put_entry [OF assms(1) trim_entry_ok])
  obtain F where "bdb_works lib ob" "bdb_api lib s" "bdb_open ob P f (?h\<lparr>bs_world := w\<rparr>)" "bs_txn ?h \<noteq> 0"
    "bd_txn (ob w) = Map.empty(bs_txn ?h \<mapsto> (P, F))" "F f = Some ?C" "contents_ok ?C"
    by (rule bdb_busyE [OF b]) (simp add: c)
  then have ok: "bdb_works lib ob" "bdb_api lib s" "bd_txn (ob w) = Map.empty(bs_txn ?h \<mapsto> (P, F(f \<mapsto> ?C)))"
    "bd_db (ob w) (bs_db ?h) = Some (True, Some f)" "bd_env (ob w) (bs_env ?h) = Some (Some P)" "bs_txn ?h \<noteq> 0"
    "contents_ok ?C" "bs_db ?h \<noteq> 0" "bs_env ?h \<noteq> 0" and Ff: "F(f \<mapsto> ?C) = F"
    by (auto simp: bdb_open_def fun_upd_idem)
  obtain w1 cur where w1: "db_cursor lib (bs_db ?h) (bs_txn ?h) w = (w1, 0, cur)" "cur \<noteq> 0"
    "ob w1 = (ob w)\<lparr>bd_cur := (bd_cur (ob w))(cur \<mapsto> (bs_db ?h, bs_txn ?h, None))\<rparr>"
    using bdb_walksD(1) [OF ok(1) _ ok(4), of "bs_txn ?h"] ok(3) by auto
  have "bdb_at lib ob cur (bs_db ?h) (bs_txn ?h) P f (ob w) F w1 ?C None"
    using ok(1,3,4) w1(3) by (simp add: bdb_at_def)
  moreover have "smap_wf ?C" using ok(7) by (simp add: contents_ok_def)
  ultimately have "\<exists>pos. bdb_at lib ob cur (bs_db ?h) (bs_txn ?h) P f (ob w) F
      (trim_loop (bdb_next lib cur) (c_del lib cur) trim_rounds iid w1) ?T pos"
    unfolding trimmed_contents_def by (rule bc.trims)
  then obtain pos where "bdb_at lib ob cur (bs_db ?h) (bs_txn ?h) P f (ob w) F
      (trim_loop (bdb_next lib cur) (c_del lib cur) trim_rounds iid w1) ?T pos" ..
  moreover define w2 where "w2 = trim_loop (bdb_next lib cur) (c_del lib cur) trim_rounds iid w1"
  ultimately have w2: "bd_cur (ob w2) cur \<noteq> None"
    "bd_txn (ob w2) = Map.empty(bs_txn ?h \<mapsto> (P, F(f \<mapsto> ?T)))"
    "bd_env (ob w2) = bd_env (ob w)" "bd_db (ob w2) = bd_db (ob w)" "bd_disk (ob w2) = bd_disk (ob w)"
    by (simp_all add: bdb_at_def)
  have w3: "ob (c_close lib cur w2) = (ob w2)\<lparr>bd_cur := (bd_cur (ob w2))(cur := None)\<rparr>"
    by (rule bdb_walksD(5) [OF ok(1) w2(1)])
  let ?s = "s\<lparr>st_handle := ?h\<lparr>bs_world := c_close lib cur w2\<rparr>\<rparr>"
  have "storage_trim s iid = Inr (?s, 0)"
    using assms(2) ok(2,8) w w1(1,2)
    by (simp add: bdb_ops bdb_storage_trim_def bdb_storage_put_trim_instance_def w2_def word_gt_0)
  moreover have T: "contents_ok ?T" unfolding trimmed_contents_def by (rule contents_filter) (rule ok(7))
  moreover have "bdb_busy lib ob P f ?s" "bdb_contents ob P f ?s = ?T"
    by (rule bdb_busyI [where F = "F(f \<mapsto> ?T)"]; use ok w2 w3 T in \<open>simp add: bdb_open_def\<close>)+
  moreover have "bdb_disk ob P ?s = bdb_disk ob P s" using dk w2(5) w3 by (simp add: bdb_disk_def)
  ultimately show ?thesis by blast
qed

section \<open>Opening the storage\<close>

text \<open>
  A new process finds the files, and no transaction is open. \<open>bdb_boots\<close>: the storage has just
  been initialised over such a state, with the files \<open>D\<close> in the directory of the acceptor, or
  no directory at all.
\<close>

definition bdb_boots ::
  "'m bdb_lib \<Rightarrow> ('m \<Rightarrow> bdb_state) \<Rightarrow> paxos_config \<Rightarrow> int \<Rightarrow> db_files option \<Rightarrow> 'm bdb_storage storage \<Rightarrow> bool" where
  "bdb_boots lib ob cfg ident D s \<longleftrightarrow>
     (\<exists>w. s = storage_init_bdb lib cfg w ident \<and> bd_disk (ob w) (bdb_path cfg ident) = D \<and>
        bd_txn (ob w) = Map.empty)"

text \<open>The contents of the database file in the files of an environment.\<close>

definition db_of :: "string \<Rightarrow> db_files option \<Rightarrow> db_contents" where
  "db_of f D = (case D of None \<Rightarrow> [] | Some F \<Rightarrow> (case F f of None \<Rightarrow> [] | Some C \<Rightarrow> C))"

lemma bdb_opensD:
  assumes "bdb_works lib ob"
  shows "bdb_stat lib p w = (bd_disk (ob w) p \<noteq> None)"
    and "bd_disk (ob w) p = None \<Longrightarrow>
      \<exists>w'. bdb_mkdir lib p w = (w', 0) \<and> ob w' = (ob w)\<lparr>bd_disk := (bd_disk (ob w))(p \<mapsto> Map.empty)\<rparr>"
    and "\<exists>w' e. db_env_create lib w = (w', 0, e) \<and> e \<noteq> 0 \<and> ob w' = (ob w)\<lparr>bd_env := (bd_env (ob w))(e \<mapsto> None)\<rparr>"
    and "bd_env (ob w) e = Some None \<Longrightarrow> \<exists>w'. env_set_nosync lib e w = (w', 0) \<and> ob w' = ob w"
    and "bd_env (ob w) e = Some None \<Longrightarrow> \<exists>w'. env_set_cachesize lib e g b w = (w', 0) \<and> ob w' = ob w"
    and "bd_env (ob w) e = Some None \<Longrightarrow> bd_disk (ob w) p \<noteq> None \<Longrightarrow>
      \<exists>w'. env_open lib e p w = (w', 0) \<and> ob w' = (ob w)\<lparr>bd_env := (bd_env (ob w))(e \<mapsto> Some p)\<rparr>"
    and "bd_env (ob w) e = Some (Some p) \<Longrightarrow>
      \<exists>w' d. db_create lib e w = (w', 0, d) \<and> d \<noteq> 0 \<and> ob w' = (ob w)\<lparr>bd_db := (bd_db (ob w))(d \<mapsto> (False, None))\<rparr>"
    and "bd_db (ob w) d = Some (False, None) \<Longrightarrow>
      ob (db_set_bt_compare lib d bdb_compare_iid w) = (ob w)\<lparr>bd_db := (bd_db (ob w))(d \<mapsto> (True, None))\<rparr>"
    and "bd_db (ob w) d = Some (True, None) \<Longrightarrow> bd_txn (ob w) t = Some (p, F) \<Longrightarrow>
      \<exists>w'. db_open lib d t f w = (w', 0) \<and> ob w' = (ob w)\<lparr>bd_db := (bd_db (ob w))(d \<mapsto> (True, Some f)),
        bd_txn := (bd_txn (ob w))(t \<mapsto> (p, F(f \<mapsto> db_of f (Some F))))\<rparr>"
proof -
  have o: "bdb_opens lib ob" using assms by (simp add: bdb_works_def)
  show "bdb_stat lib p w = (bd_disk (ob w) p \<noteq> None)" using o by (simp add: bdb_opens_def)
qed (use assms bdb_compare_orders in \<open>unfold bdb_works_def bdb_opens_def, force simp: db_of_def\<close>)+

lemma bdb_tx_handle_opens:
  assumes L: "bdb_works lib ob" and D: "bd_disk (ob (bs_world h)) P \<noteq> None"
  shows "\<exists>w e. bdb_init_tx_handle lib cfg P h = (h\<lparr>bs_env := e, bs_world := w\<rparr>, 0) \<and> e \<noteq> 0 \<and>
    bd_env (ob w) e = Some (Some P) \<and> bd_disk (ob w) = bd_disk (ob (bs_world h)) \<and>
    bd_txn (ob w) = bd_txn (ob (bs_world h))"
proof -
  obtain w1 e where w1: "db_env_create lib (bs_world h) = (w1, 0, e)" "e \<noteq> 0"
    "ob w1 = (ob (bs_world h))\<lparr>bd_env := (bd_env (ob (bs_world h)))(e \<mapsto> None)\<rparr>" using bdb_opensD(3) [OF L] by blast
  then have e1: "bd_env (ob w1) e = Some None" by simp
  obtain w2 where w2: "(if bdb_sync cfg = 0 then env_set_nosync lib e w1 else (w1, 0)) = (w2, 0)" "ob w2 = ob w1"
    using bdb_opensD(4) [OF L e1] by (cases "bdb_sync cfg = 0") auto
  let ?b = "bdb_cachesize cfg mod (1024 * 1024 * 1024)"
  obtain w3 where w3: "env_set_cachesize lib e ((bdb_cachesize cfg - ?b) div (1024 * 1024 * 1024)) ?b w2 = (w3, 0)"
    "ob w3 = ob w1" using bdb_opensD(5) [OF L, of w2 e] e1 w2(2) by auto
  obtain w4 where w4: "env_open lib e P w3 = (w4, 0)" "ob w4 = (ob w1)\<lparr>bd_env := (bd_env (ob w1))(e \<mapsto> Some P)\<rparr>"
    using bdb_opensD(6) [OF L, of w3 e P] e1 w3(2) w1(3) D by auto
  have "bdb_init_tx_handle lib cfg P h = (h\<lparr>bs_env := e, bs_world := w4\<rparr>, 0)"
    unfolding bdb_init_tx_handle_def using w1(1) w2(1) w3(1) w4(1) by (simp only: Let_def split_conv refl if_False simp_thms)
  moreover have "bd_env (ob w4) e = Some (Some P)" "bd_disk (ob w4) = bd_disk (ob (bs_world h))"
    "bd_txn (ob w4) = bd_txn (ob (bs_world h))" using w1(3) w4(2) by simp_all
  ultimately show ?thesis using w1(2) by blast
qed

lemma bdb_db_opens:
  assumes L: "bdb_works lib ob" and D: "bd_disk (ob (bs_world h)) P = Some F"
    and T: "bd_txn (ob (bs_world h)) = Map.empty" and E: "bs_env h \<noteq> 0" "bd_env (ob (bs_world h)) (bs_env h) = Some (Some P)"
  shows "\<exists>w d t. bdb_init_db lib f h = Inr (h\<lparr>bs_db := d, bs_txn := t, bs_world := w\<rparr>, 0) \<and> d \<noteq> 0 \<and>
    bd_env (ob w) = bd_env (ob (bs_world h)) \<and> bd_db (ob w) d = Some (True, Some f) \<and> bd_txn (ob w) = Map.empty \<and>
    bd_disk (ob w) P = Some (F(f \<mapsto> db_of f (Some F)))"
proof -
  obtain w1 d where w1: "db_create lib (bs_env h) (bs_world h) = (w1, 0, d)" "d \<noteq> 0"
    "ob w1 = (ob (bs_world h))\<lparr>bd_db := (bd_db (ob (bs_world h)))(d \<mapsto> (False, None))\<rparr>"
    using bdb_opensD(7) [OF L E(2)] by blast
  let ?w2 = "db_set_bt_compare lib d bdb_compare_iid w1"
  have w2: "ob ?w2 = (ob w1)\<lparr>bd_db := (bd_db (ob w1))(d \<mapsto> (True, None))\<rparr>"
    using bdb_opensD(8) [OF L, of w1 d] w1(3) by simp
  have b: "bd_env (ob ?w2) (bs_env h) = Some (Some P)" "bd_disk (ob ?w2) P = Some F" "\<And>t. bd_txn (ob ?w2) t = None"
    using w1(3) w2 E(2) D T by simp_all
  obtain w3 t where w3: "env_txn_begin lib (bs_env h) ?w2 = (w3, 0, t)" "t \<noteq> 0"
    "ob w3 = (ob ?w2)\<lparr>bd_txn := (bd_txn (ob ?w2))(t \<mapsto> (P, F))\<rparr>" using bdb_transactsD(1) [OF L b] by blast
  obtain w4 where w4: "db_open lib d t f w3 = (w4, 0)"
    "ob w4 = (ob w3)\<lparr>bd_db := (bd_db (ob w3))(d \<mapsto> (True, Some f)),
      bd_txn := (bd_txn (ob w3))(t \<mapsto> (P, F(f \<mapsto> db_of f (Some F))))\<rparr>"
    using bdb_opensD(9) [OF L, of w3 d t P F f] w3(3) w2 by auto
  have "bd_txn (ob w4) t = Some (P, F(f \<mapsto> db_of f (Some F)))" using w4(2) by simp
  from bdb_transactsD(2) [OF L this] obtain w5 where w5: "txn_commit lib t w4 = (w5, 0)"
    "ob w5 = (ob w4)\<lparr>bd_txn := (bd_txn (ob w4))(t := None), bd_disk := (bd_disk (ob w4))(P \<mapsto> F(f \<mapsto> db_of f (Some F)))\<rparr>"
    by blast
  have "bdb_init_db lib f h = Inr (h\<lparr>bs_db := d, bs_txn := t, bs_world := w5\<rparr>, 0)"
    using w1(1) w3(1,2) w4(1) w5(1) E(1)
    by (simp add: bdb_init_db_def bdb_storage_tx_begin_def bdb_storage_tx_commit_def through_pointer_def)
  moreover have "bd_env (ob w5) = bd_env (ob (bs_world h))" "bd_db (ob w5) d = Some (True, Some f)"
    "bd_txn (ob w5) = Map.empty" "bd_disk (ob w5) P = Some (F(f \<mapsto> db_of f (Some F)))"
    using w5(2) w4(2) w3(3) w2 w1(3) T by (simp_all add: fun_eq_iff)
  ultimately show ?thesis using w1(2) by blast
qed

lemma bdb_opens:
  assumes L: "bdb_works lib ob" and cfg: "trash_files cfg = 0" and B: "bdb_boots lib ob cfg ident D s"
    and D: "contents_ok (db_of (bdb_db_filename cfg) D)"
  shows "\<exists>s'. storage_open s = Inr (s', 1) \<and> bdb_ok lib ob (bdb_path cfg ident) (bdb_db_filename cfg) s' \<and>
    bdb_contents ob (bdb_path cfg ident) (bdb_db_filename cfg) s' = db_of (bdb_db_filename cfg) D"
proof -
  let ?P = "bdb_path cfg ident" and ?f = "bdb_db_filename cfg" and ?F = "case D of None \<Rightarrow> Map.empty | Some F \<Rightarrow> F"
  obtain w where s: "s = storage_init_bdb lib cfg w ident" "bd_disk (ob w) ?P = D" "bd_txn (ob w) = Map.empty"
    using B by (auto simp: bdb_boots_def)
  have "\<exists>w1. (if bdb_stat lib ?P w then (w, 0) else bdb_mkdir lib ?P w) = (w1, 0) \<and>
      bd_disk (ob w1) ?P = Some ?F \<and> bd_txn (ob w1) = Map.empty"
    using bdb_opensD(1,2) [OF L, where p = ?P and w = w] s by (cases D) auto
  then obtain w1 where w1: "(if bdb_stat lib ?P w then (w, 0) else bdb_mkdir lib ?P w) = (w1, 0)"
    "bd_disk (ob w1) ?P = Some ?F" "bd_txn (ob w1) = Map.empty" by blast
  let ?h = "(bdb_storage_new w ident)\<lparr>bs_world := w1\<rparr>"
  have "bd_disk (ob (bs_world ?h)) ?P \<noteq> None" using w1 by simp
  from bdb_tx_handle_opens [OF L this, of cfg] obtain w2 e
    where w2: "bdb_init_tx_handle lib cfg ?P ?h = (?h\<lparr>bs_env := e, bs_world := w2\<rparr>, 0)" "e \<noteq> 0"
    "bd_env (ob w2) e = Some (Some ?P)" "bd_disk (ob w2) = bd_disk (ob w1)" "bd_txn (ob w2) = Map.empty"
    using w1(3) by auto
  let ?h2 = "?h\<lparr>bs_env := e, bs_world := w2\<rparr>"
  have h2: "bd_disk (ob (bs_world ?h2)) ?P = Some ?F" "bd_txn (ob (bs_world ?h2)) = Map.empty" "bs_env ?h2 \<noteq> 0"
    "bd_env (ob (bs_world ?h2)) (bs_env ?h2) = Some (Some ?P)" using w2 w1(2) by simp_all
  have of: "db_of ?f (Some ?F) = db_of ?f D" by (cases D) (simp_all add: db_of_def)
  from bdb_db_opens [OF L h2, of ?f] obtain w3 d t
    where w3: "bdb_init_db lib ?f ?h2 = Inr (?h2\<lparr>bs_db := d, bs_txn := t, bs_world := w3\<rparr>, 0)" "d \<noteq> 0"
    "bd_env (ob w3) e = Some (Some ?P)" "bd_db (ob w3) d = Some (True, Some ?f)" "bd_txn (ob w3) = Map.empty"
    "bd_disk (ob w3) ?P = Some (?F(?f \<mapsto> db_of ?f D))"
    using w2(3) of by auto
  let ?s = "s\<lparr>st_handle := ?h2\<lparr>bs_db := d, bs_txn := t, bs_world := w3\<rparr>\<rparr>"
  have "bs_acceptor_id (bdb_storage_new w ident) = ident" "bs_world (bdb_storage_new w ident) = w"
    by (simp_all add: bdb_storage_new_def)
  then have "storage_open s = Inr (?s, 1)"
    using w1(1) w2(1) w3(1) cfg by (simp add: storage_ops s(1) storage_init_bdb_def bdb_storage_open_def)
  moreover have "bdb_ok lib ob ?P ?f ?s" "bdb_contents ob ?P ?f ?s = db_of ?f D"
    by (rule bdb_okI [where F = "?F(?f \<mapsto> db_of ?f D)"];
        use L w2 w3 D in \<open>simp add: s(1) storage_init_bdb_def bdb_api_def bdb_open_def bdb_storage_new_def\<close>)+
  ultimately show ?thesis by blast
qed

section \<open>The storage keeps what it promises\<close>

text \<open>Over any library that works, for any configuration that does not remove the files.\<close>

definition bdb_sound :: "'m bdb_lib \<Rightarrow> ('m \<Rightarrow> bdb_state) \<Rightarrow> paxos_config \<Rightarrow> int \<Rightarrow> 'm bdb_storage storage \<Rightarrow> bool" where
  "bdb_sound lib ob cfg ident s \<longleftrightarrow>
     bdb_ok lib ob (bdb_path cfg ident) (bdb_db_filename cfg) s \<and> trash_files cfg = 0"

definition bdb_holds :: "'m bdb_lib \<Rightarrow> ('m \<Rightarrow> bdb_state) \<Rightarrow> paxos_config \<Rightarrow> int \<Rightarrow> 'm bdb_storage storage \<Rightarrow> bool" where
  "bdb_holds lib ob cfg ident s \<longleftrightarrow>
     bdb_busy lib ob (bdb_path cfg ident) (bdb_db_filename cfg) s \<and> trash_files cfg = 0"

lemma bdb_disk_contents:
  assumes "bdb_ok lib ob P f s"
  shows "db_of f (bdb_disk ob P s) = bdb_contents ob P f s" and "contents_ok (bdb_contents ob P f s)"
proof -
  obtain F where "bd_disk (ob (bs_world (st_handle s))) P = Some F" "F f = Some (bdb_contents ob P f s)"
    "contents_ok (bdb_contents ob P f s)" by (rule bdb_okE [OF assms])
  then show "db_of f (bdb_disk ob P s) = bdb_contents ob P f s" and "contents_ok (bdb_contents ob P f s)"
    by (simp_all add: db_of_def bdb_disk_def)
qed

lemma bdb_busy_contents: "bdb_busy lib ob P f s \<Longrightarrow> contents_ok (bdb_contents ob P f s)"
  by (erule bdb_busyE)

interpretation bd: durable_store "bdb_sound (lib :: 'm bdb_lib) ob cfg ident" "bdb_holds lib ob cfg ident"
  "bdb_view ob (bdb_path cfg ident) (bdb_db_filename cfg)" "bdb_lost ob (bdb_path cfg ident) (bdb_db_filename cfg)"
  "bdb_disk ob (bdb_path cfg ident)" "bdb_boots lib ob cfg ident"
  "bdb_trim_point ob (bdb_path cfg ident) (bdb_db_filename cfg)"
proof unfold_locales
  let ?P = "bdb_path cfg ident" and ?f = "bdb_db_filename cfg"
  fix s s' s0 :: "'m bdb_storage storage" and i t :: iid_t and r :: paxos_accepted and rv :: int
  note same = bdb_view_def bdb_lost_def bdb_trim_point_def fun_eq_iff
  { assume ok: "bdb_sound lib ob cfg ident s"
    then have ok': "bdb_ok lib ob ?P ?f s" "trash_files cfg = 0" by (simp_all add: bdb_sound_def)
    note C = bdb_disk_contents [OF ok'(1)]
    show "\<exists>s'. storage_tx_begin s = Inr s' \<and> bdb_holds lib ob cfg ident s' \<and>
        bdb_view ob ?P ?f s' = bdb_view ob ?P ?f s \<and> bdb_lost ob ?P ?f s' = bdb_lost ob ?P ?f s"
      using bdb_begin [OF ok'(1)] ok'(2) by (auto simp: same bdb_holds_def)
    show "bdb_view ob ?P ?f s i = Some r \<Longrightarrow> accepted_iid r = i"
      "bdb_view ob ?P ?f s i = Some r \<Longrightarrow> value_wf (accepted_value r)"
      using record_at_iid [OF C(2)] by (auto simp: bdb_view_def)
    show "storage_tx_begin s = Inr s' \<Longrightarrow> bdb_disk ob ?P s' = bdb_disk ob ?P s \<and> bdb_trim_point ob ?P ?f s' = bdb_trim_point ob ?P ?f s"
      using bdb_begin [OF ok'(1)] by (auto simp: bdb_trim_point_def)
    show "bdb_boots lib ob cfg ident (bdb_disk ob ?P s) s0 \<Longrightarrow>
        \<exists>s' rv. storage_open s0 = Inr (s', rv) \<and> 0 \<le> rv \<and> bdb_sound lib ob cfg ident s' \<and>
          bdb_view ob ?P ?f s' = bdb_view ob ?P ?f s \<and> bdb_lost ob ?P ?f s' = bdb_lost ob ?P ?f s \<and>
          bdb_trim_point ob ?P ?f s' = bdb_trim_point ob ?P ?f s"
      using bdb_opens [of lib ob cfg ident "bdb_disk ob ?P s" s0] ok' C
      by (fastforce simp: same bdb_sound_def bdb_ok_def) }
  { assume "bdb_holds lib ob cfg ident s"
    then have b: "bdb_busy lib ob ?P ?f s" "trash_files cfg = 0" by (simp_all add: bdb_holds_def)
    note C = bdb_busy_contents [OF b(1)]
    show "\<exists>s'. storage_tx_commit s = Inr s' \<and> bdb_sound lib ob cfg ident s' \<and>
        bdb_view ob ?P ?f s' = bdb_view ob ?P ?f s \<and> bdb_lost ob ?P ?f s' = bdb_lost ob ?P ?f s"
      using bdb_commit [OF b(1)] b(2) by (auto simp: same bdb_sound_def)
    show "storage_tx_commit s = Inr s' \<Longrightarrow> bdb_trim_point ob ?P ?f s' = bdb_trim_point ob ?P ?f s"
      using bdb_commit [OF b(1)] by (auto simp: bdb_trim_point_def)
    show "bdb_lost ob ?P ?f s i \<Longrightarrow> \<exists>e. storage_get_record s i = Inl e"
      using bdb_get(1) [OF b(1)] by blast
    show "\<not> bdb_lost ob ?P ?f s i \<Longrightarrow> storage_get_record s i = Inr (bdb_view ob ?P ?f s i)"
      by (rule bdb_get(2) [OF b(1)])
    show "storage_get_trim_instance s = Inr (bdb_trim_point ob ?P ?f s)" by (rule bdb_get(3) [OF b(1)])
    show "0 < t \<Longrightarrow> \<exists>s' rv. storage_trim s t = Inr (s', rv) \<and> bdb_holds lib ob cfg ident s' \<and>
        (\<forall>i. t < i \<longrightarrow> bdb_view ob ?P ?f s' i = bdb_view ob ?P ?f s i \<and> bdb_lost ob ?P ?f s' i = bdb_lost ob ?P ?f s i)"
      using bdb_trim [OF b(1)] b(2) record_at_trimmed(1) [OF C]
      by (fastforce simp: bdb_view_def bdb_lost_def bdb_holds_def)
    show "0 < t \<Longrightarrow> storage_trim s t = Inr (s', rv) \<Longrightarrow> bdb_disk ob ?P s' = bdb_disk ob ?P s \<and> bdb_trim_point ob ?P ?f s' = t"
      using bdb_trim [OF b(1)] record_at_trimmed(3) [OF C] by (fastforce simp: bdb_trim_point_def trim_at_def)
    assume wf: "value_wf (accepted_value r)" and pos: "0 < accepted_iid r"
    note put = bdb_put [OF b(1) wf pos]
    show "storage_put_record s r = Inr (s', rv) \<Longrightarrow> bdb_disk ob ?P s' = bdb_disk ob ?P s \<and> bdb_trim_point ob ?P ?f s' = bdb_trim_point ob ?P ?f s"
      using put pos trim_at_put [OF C] by (fastforce simp: bdb_trim_point_def)
    have z: "smap_get (smap_put (bdb_contents ob ?P ?f s) (accepted_iid r) d) 0 = smap_get (bdb_contents ob ?P ?f s) 0" for d
      using pos C by (auto simp: contents_ok_def smap_get_put)
    show "\<exists>s' rv. storage_put_record s r = Inr (s', rv) \<and> bdb_holds lib ob cfg ident s' \<and>
        \<not> bdb_lost ob ?P ?f s' (accepted_iid r) \<and> bdb_view ob ?P ?f s' (accepted_iid r) = Some r \<and>
        (\<forall>i. i \<noteq> accepted_iid r \<longrightarrow>
           bdb_lost ob ?P ?f s' i \<or> \<not> bdb_lost ob ?P ?f s i \<and> bdb_view ob ?P ?f s' i = bdb_view ob ?P ?f s i)"
      using put pos b(2) record_at_put(1) [OF C] z by (fastforce simp: bdb_view_def bdb_lost_def bdb_holds_def) }
qed

text \<open>A state of an acceptor on BerkeleyDB between two requests.\<close>

definition bdb_acceptor ::
  "'m bdb_lib \<Rightarrow> ('m \<Rightarrow> bdb_state) \<Rightarrow> paxos_config \<Rightarrow> int \<Rightarrow> 'm bdb_storage acceptor \<Rightarrow> bool" where
  "bdb_acceptor lib ob cfg ident a \<longleftrightarrow>
     bdb_sound lib ob cfg ident (acc_store a) \<and>
     acc_trim_iid a = bdb_trim_point ob (bdb_path cfg ident) (bdb_db_filename cfg) (acc_store a)"

lemma bdb_acceptor_synced: "bdb_acceptor lib ob cfg ident a = bd.synced lib ob cfg ident a"
  by (simp add: bdb_acceptor_def bd.synced_def bd.acc_ok_def)

lemma bdb_starts:
  assumes "bdb_works lib ob" and "trash_files cfg = 0" and "bdb_boots lib ob cfg ident D s"
    and "contents_ok (db_of (bdb_db_filename cfg) D)"
  shows "\<exists>a. acceptor_new_on s = Inr (Some a) \<and> bdb_acceptor lib ob cfg ident a"
proof -
  let ?P = "bdb_path cfg ident" and ?f = "bdb_db_filename cfg"
  obtain s' where s': "storage_open s = Inr (s', 1)" "bdb_ok lib ob ?P ?f s'" using bdb_opens [OF assms] by blast
  obtain s1 where s1: "storage_tx_begin s' = Inr s1" "bdb_busy lib ob ?P ?f s1" using bdb_begin [OF s'(2)] by blast
  obtain s2 where s2: "storage_tx_commit s1 = Inr s2" "bdb_ok lib ob ?P ?f s2"
    "bdb_contents ob ?P ?f s2 = bdb_contents ob ?P ?f s1" using bdb_commit [OF s1(2)] by blast
  show ?thesis
    using s' s1 s2 bdb_get(3) [OF s1(2)] assms(2)
    by (simp add: acceptor_new_on_def bdb_acceptor_def bdb_sound_def bdb_trim_point_def)
qed

section \<open>A library that works\<close>

text \<open>
  The documented behaviour, as a library on \<open>bdb_state\<close> itself, with one handle of each kind.
\<close>

definition ref_bdb_read :: "nat \<Rightarrow> nat \<Rightarrow> db_key \<Rightarrow> bdb_state \<Rightarrow> db_data option" where
  "ref_bdb_read d t k w =
     (case bd_txn w t of
        Some (p, F) \<Rightarrow>
          (case bd_db w d of
             Some (True, Some f) \<Rightarrow> (case F f of Some C \<Rightarrow> smap_get C (key_iid k) | None \<Rightarrow> None)
           | _ \<Rightarrow> None)
      | None \<Rightarrow> None)"

text \<open>The contents of the open file \<open>f\<close> of the database \<open>d\<close> are changed by \<open>g\<close> in the transaction \<open>t\<close>.\<close>

definition ref_bdb_write :: "nat \<Rightarrow> nat \<Rightarrow> (db_contents \<Rightarrow> db_contents) \<Rightarrow> bdb_state \<Rightarrow> bdb_state \<times> int" where
  "ref_bdb_write d t g w =
     (case bd_txn w t of
        Some (p, F) \<Rightarrow>
          (case bd_db w d of
             Some (b, Some f) \<Rightarrow>
               (case F f of
                  Some C \<Rightarrow> (w\<lparr>bd_txn := (bd_txn w)(t \<mapsto> (p, F(f \<mapsto> g C)))\<rparr>, 0)
                | None \<Rightarrow> (w, 22))
           | _ \<Rightarrow> (w, 22))
      | None \<Rightarrow> (w, 22))"

definition ref_bdb_next :: "nat \<Rightarrow> bdb_state \<Rightarrow> bdb_state \<times> int \<times> db_key" where
  "ref_bdb_next c w =
     (case bd_cur w c of
        Some (d, t, pos) \<Rightarrow>
          (case (bd_txn w t, bd_db w d) of
             (Some (p, F), Some (b, Some f)) \<Rightarrow>
               (case next_key (case F f of Some C \<Rightarrow> C | None \<Rightarrow> []) pos of
                  None \<Rightarrow> (w, - 30989, iid_key 0)
                | Some k \<Rightarrow> (w\<lparr>bd_cur := (bd_cur w)(c \<mapsto> (d, t, Some k))\<rparr>, 0, iid_key k))
           | _ \<Rightarrow> (w, 22, iid_key 0))
      | None \<Rightarrow> (w, 22, iid_key 0))"

definition ref_bdb :: "bdb_state bdb_lib" where
  "ref_bdb =
     \<lparr>db_notfound = - 30989, db_keyempty = - 30996,
      db_env_create = (\<lambda>w. (w\<lparr>bd_env := (bd_env w)(1 \<mapsto> None)\<rparr>, 0, 1)),
      env_set_nosync = (\<lambda>e w. (w, 0)),
      env_set_cachesize = (\<lambda>e g b w. (w, 0)),
      env_open = (\<lambda>e p w. (w\<lparr>bd_env := (bd_env w)(e \<mapsto> Some p)\<rparr>, 0)),
      env_close = (\<lambda>e w. (w\<lparr>bd_env := (bd_env w)(e := None)\<rparr>, 0)),
      env_txn_begin = (\<lambda>e w.
        case bd_env w e of
          Some (Some p) \<Rightarrow> (w\<lparr>bd_txn := (bd_txn w)(1 \<mapsto> (p, case bd_disk w p of Some F \<Rightarrow> F | None \<Rightarrow> Map.empty))\<rparr>, 0, 1)
        | _ \<Rightarrow> (w, 22, 0)),
      txn_commit = (\<lambda>t w.
        case bd_txn w t of
          Some (p, F) \<Rightarrow> (w\<lparr>bd_txn := (bd_txn w)(t := None), bd_disk := (bd_disk w)(p \<mapsto> F)\<rparr>, 0)
        | None \<Rightarrow> (w, 22)),
      db_create = (\<lambda>e w. (w\<lparr>bd_db := (bd_db w)(1 \<mapsto> (False, None))\<rparr>, 0, 1)),
      db_set_bt_compare = (\<lambda>d cmp w. w\<lparr>bd_db := (bd_db w)(d \<mapsto> (True, None))\<rparr>),
      db_open = (\<lambda>d t f w.
        case (bd_db w d, bd_txn w t) of
          (Some (b, _), Some (p, F)) \<Rightarrow>
            (w\<lparr>bd_db := (bd_db w)(d \<mapsto> (b, Some f)),
               bd_txn := (bd_txn w)(t \<mapsto> (p, F(f \<mapsto> (case F f of None \<Rightarrow> [] | Some C \<Rightarrow> C))))\<rparr>, 0)
        | _ \<Rightarrow> (w, 22)),
      db_close = (\<lambda>d w. (w\<lparr>bd_db := (bd_db w)(d := None)\<rparr>, 0)),
      db_get = (\<lambda>d t k w. case ref_bdb_read d t k w of Some x \<Rightarrow> (0, x) | None \<Rightarrow> (- 30989, Iid_data 0)),
      db_get_iid = (\<lambda>d t k w.
        case ref_bdb_read d t k w of
          Some (Iid_data i) \<Rightarrow> (0, i)
        | Some (Record_data acc bs) \<Rightarrow> (- 30999, 0)
        | None \<Rightarrow> (- 30989, 0)),
      db_put = (\<lambda>d t k x. ref_bdb_write d t (\<lambda>C. smap_put C (key_iid k) x)),
      db_cursor = (\<lambda>d t w. (w\<lparr>bd_cur := (bd_cur w)(1 \<mapsto> (d, t, None))\<rparr>, 0, 1)),
      c_get_next = ref_bdb_next,
      c_del = (\<lambda>c w.
        case bd_cur w c of
          Some (d, t, Some k) \<Rightarrow> ref_bdb_write d t (\<lambda>C. smap_erase C k) w
        | _ \<Rightarrow> (w, 22)),
      c_close = (\<lambda>c w. w\<lparr>bd_cur := (bd_cur w)(c := None)\<rparr>),
      bdb_stat = (\<lambda>p w. bd_disk w p \<noteq> None),
      bdb_mkdir = (\<lambda>p w. (w\<lparr>bd_disk := (bd_disk w)(p \<mapsto> Map.empty)\<rparr>, 0)),
      bdb_system = (\<lambda>cmd w. w)\<rparr>"

lemma ref_bdb_works: "bdb_works ref_bdb (\<lambda>w. w)"
proof -
  have "bdb_opens ref_bdb (\<lambda>w. w)" by (simp add: bdb_opens_def ref_bdb_def)
  moreover have "bdb_transacts ref_bdb (\<lambda>w. w)" by (simp add: bdb_transacts_def ref_bdb_def)
  moreover have "bdb_stores ref_bdb (\<lambda>w. w)"
    by (simp add: bdb_stores_def ref_bdb_def ref_bdb_read_def ref_bdb_write_def iid_key_def
        split: option.split db_data.split)
  moreover have "bdb_walks ref_bdb (\<lambda>w. w)"
    by (simp add: bdb_walks_def ref_bdb_def ref_bdb_next_def ref_bdb_write_def split: option.split)
  ultimately show ?thesis by (simp add: bdb_works_def)
qed

text \<open>A disk without files, and the acceptor that starts on it.\<close>

definition empty_bdb :: bdb_state where
  "empty_bdb = \<lparr>bd_disk = Map.empty, bd_env = Map.empty, bd_txn = Map.empty, bd_db = Map.empty, bd_cur = Map.empty\<rparr>"

definition bdb_started :: "bdb_state bdb_lib \<Rightarrow> bdb_state bdb_storage acceptor" where
  "bdb_started lib =
     (case acceptor_new_on (storage_init_bdb lib default_config empty_bdb 3) of
        Inr (Some a) \<Rightarrow> a
      | _ \<Rightarrow> \<lparr>acc_trim_iid = 0, acc_store = storage_init_bdb lib default_config empty_bdb 3\<rparr>)"

definition bdb_demo :: "bdb_state bdb_storage acceptor" where
  "bdb_demo = bdb_started ref_bdb"

lemma bdb_demo_ok: "bdb_acceptor ref_bdb (\<lambda>w. w) default_config 3 bdb_demo"
proof -
  have "bdb_boots ref_bdb (\<lambda>w. w) default_config 3 None (storage_init_bdb ref_bdb default_config empty_bdb 3)"
    by (auto simp: bdb_boots_def empty_bdb_def)
  moreover have "trash_files default_config = 0" by (simp add: default_config_def)
  moreover have "contents_ok (db_of (bdb_db_filename default_config) None)"
    by (simp add: db_of_def contents_ok_def smap_wf_def)
  ultimately obtain a where "acceptor_new_on (storage_init_bdb ref_bdb default_config empty_bdb 3) = Inr (Some a)"
    "bdb_acceptor ref_bdb (\<lambda>w. w) default_config 3 a" using bdb_starts [OF ref_bdb_works] by blast
  then show ?thesis by (simp add: bdb_demo_def bdb_started_def)
qed

section \<open>Properties\<close>

text \<open>
  An acceptor on BerkeleyDB keeps its promise over restarts: after it has answered a prepare
  request with a promise, whatever requests follow, and however often its process ends and is
  started again on the same files, no accepted message for that instance has a lower ballot,
  as long as the instance is not trimmed.
\<close>

theorem bdb_keeps_promise:
  assumes "bdb_acceptor lib ob cfg ident a"
    and "acceptor_receive_prepare a req = Inr (a1, Some (PAXOS_PROMISE p))"
    and "acceptor_life (bdb_disk ob (bdb_path cfg ident)) (bdb_boots lib ob cfg ident) a1 outs a2"
    and "Some (PAXOS_ACCEPTED r) \<in> set outs" and "accepted_iid r = promise_iid p"
    and "acc_trim_iid a2 < promise_iid p"
  shows "promise_ballot p \<le> accepted_ballot r"
  by (rule bd.life_keeps_promise [OF assms(1) [unfolded bdb_acceptor_synced] assms(2-6)])

text \<open>
  C14. \<open>bdb_storage_trim\<close>: inside a transaction, trimming removes exactly the records up to the
  trim point, keeps the others, and the trim point is the one that is read back.
\<close>

theorem bdb_trim_exact:
  assumes "bdb_busy lib ob P f s" and "0 < iid"
  shows "\<exists>s'. storage_trim s iid = Inr (s', 0) \<and> storage_get_trim_instance s' = Inr iid \<and>
    (\<forall>i. 0 < i \<longrightarrow> storage_get_record s' i = (if i \<le> iid then Inr None else storage_get_record s i))"
proof -
  obtain s' where s': "storage_trim s iid = Inr (s', 0)" "bdb_busy lib ob P f s'"
    "bdb_contents ob P f s' = trimmed_contents iid (bdb_contents ob P f s)" using bdb_trim [OF assms] by blast
  note C = bdb_busy_contents [OF assms(1)]
  have "storage_get_record s' i = (if i \<le> iid then Inr None else storage_get_record s i)" if "0 < i" for i
  proof -
    have "\<not> bdb_lost ob P f s' i" "\<not> bdb_lost ob P f s i" using that by (auto simp: bdb_lost_def)
    then show ?thesis
      using bdb_get(2) [OF s'(2)] bdb_get(2) [OF assms(1)] s'(3) record_at_trimmed(1,2) [OF C]
      by (simp add: bdb_view_def)
  qed
  moreover have "storage_get_trim_instance s' = Inr iid"
    using bdb_get(3) [OF s'(2)] s'(3) record_at_trimmed(3) [OF C]
    by (simp add: bdb_trim_point_def trim_at_def)
  ultimately show ?thesis using s'(1) by blast
qed

text \<open>
  A disk that is full: from now on every \<open>DB->put\<close> returns an error and writes nothing. The
  acceptor goes on with its handles and the database as it is.
\<close>

definition put_fails :: "('m \<Rightarrow> bdb_state) \<Rightarrow> (nat \<Rightarrow> nat \<Rightarrow> db_key \<Rightarrow> db_data \<Rightarrow> 'm \<Rightarrow> 'm \<times> int) \<Rightarrow> bool" where
  "put_fails ob put \<longleftrightarrow> (\<forall>d t k x w. snd (put d t k x w) \<noteq> 0 \<and> ob (fst (put d t k x w)) = ob w)"

definition with_library :: "'m bdb_lib \<Rightarrow> paxos_config \<Rightarrow> int \<Rightarrow> 'm bdb_storage acceptor \<Rightarrow> 'm bdb_storage acceptor" where
  "with_library lib cfg ident a =
     (let h = st_handle (acc_store a)
      in a\<lparr>acc_store := (storage_init_bdb lib cfg (bs_world h) ident)\<lparr>st_handle := h\<rparr>\<rparr>)"

text \<open>The record of an instance in the database of an acceptor.\<close>

definition bdb_record ::
  "('m \<Rightarrow> bdb_state) \<Rightarrow> paxos_config \<Rightarrow> int \<Rightarrow> 'm bdb_storage acceptor \<Rightarrow> iid_t \<Rightarrow> paxos_accepted option" where
  "bdb_record ob cfg ident a = bdb_view ob (bdb_path cfg ident) (bdb_db_filename cfg) (acc_store a)"

text \<open>
  A storage on a full disk, seen as one on a disk that is not: only \<open>put\<close> and \<open>trim\<close> differ.
\<close>

definition with_room :: "'m bdb_lib \<Rightarrow> 'm bdb_storage storage \<Rightarrow> 'm bdb_storage storage" where
  "with_room lib s = s\<lparr>api_put := bdb_storage_put lib, api_trim := bdb_storage_trim lib\<rparr>"

definition full_api ::
  "'m bdb_lib \<Rightarrow> (nat \<Rightarrow> nat \<Rightarrow> db_key \<Rightarrow> db_data \<Rightarrow> 'm \<Rightarrow> 'm \<times> int) \<Rightarrow> 'm bdb_storage storage \<Rightarrow> bool" where
  "full_api lib put s \<longleftrightarrow> api_put s = bdb_storage_put (lib\<lparr>db_put := put\<rparr>)"

lemma with_room_ops:
  "storage_tx_begin (with_room lib s) = map_sum id (with_room lib) (storage_tx_begin s)"
  "storage_tx_commit (with_room lib s) = map_sum id (with_room lib) (storage_tx_commit s)"
  "storage_get_record (with_room lib s) i = storage_get_record s i"
  by (cases "api_tx_begin s (st_handle s)"; cases "api_tx_commit s (st_handle s)"; simp add: storage_ops with_room_def)+

lemma full_api_ops:
  "full_api lib put s \<Longrightarrow> storage_tx_begin s = Inr s' \<Longrightarrow> full_api lib put s'"
  "full_api lib put s \<Longrightarrow> storage_tx_commit s = Inr s' \<Longrightarrow> full_api lib put s'"
  by (auto simp: storage_ops full_api_def bindE_Inr)

lemma full_put:
  assumes "bdb_busy lib ob P f (with_room lib s)" and "full_api lib put s" and "put_fails ob put"
    and "value_wf (accepted_value r)"
  shows "\<exists>s' rv. storage_put_record s r = Inr (s', rv) \<and> full_api lib put s' \<and> bdb_busy lib ob P f (with_room lib s') \<and>
    bdb_contents ob P f (with_room lib s') = bdb_contents ob P f (with_room lib s)"
proof -
  let ?h = "st_handle s"
  obtain bs where b: "paxos_accepted_to_buffer r = Inr (Record_data r bs)" using from_buffer_to_buffer [OF assms(4)] by blast
  obtain w rv where w: "put (bs_db ?h) (bs_txn ?h) (iid_key (accepted_iid r)) (Record_data r bs) (bs_world ?h) = (w, rv)"
    by (cases "put (bs_db ?h) (bs_txn ?h) (iid_key (accepted_iid r)) (Record_data r bs) (bs_world ?h)")
  have ob: "ob w = ob (bs_world ?h)" and rv: "rv \<noteq> 0"
    using assms(3) w unfolding put_fails_def by (metis fst_conv, metis snd_conv)
  have db: "bs_db ?h \<noteq> 0" using assms(1) by (simp add: bdb_busy_def bdb_open_def with_room_def)
  have "storage_put_record s r = Inr (s\<lparr>st_handle := ?h\<lparr>bs_world := w\<rparr>\<rparr>, rv)"
    using assms(2) b w db rv by (simp add: storage_ops full_api_def bdb_storage_put_def through_pointer_def)
  moreover have "bdb_busy lib ob P f (with_room lib (s\<lparr>st_handle := ?h\<lparr>bs_world := w\<rparr>\<rparr>)) \<and>
      bdb_contents ob P f (with_room lib (s\<lparr>st_handle := ?h\<lparr>bs_world := w\<rparr>\<rparr>)) = bdb_contents ob P f (with_room lib s)"
    using assms(1) by (simp add: bdb_busy_def bdb_open_def bdb_contents_def with_room_def bdb_api_def ob)
  ultimately show ?thesis using assms(2) by (auto simp: full_api_def)
qed

text \<open>A transaction on a full disk that reads a record and puts another leaves the contents.\<close>

lemma full_transaction:
  assumes ok: "bdb_ok lib ob P f (with_room lib s)" and api: "full_api lib put s" and pf: "put_fails ob put" and i: "0 < i"
    and wf: "value_wf (accepted_value r)"
  obtains s1 s2 rv s3 where "storage_tx_begin s = Inr s1" "storage_get_record s1 i = Inr (bdb_view ob P f (with_room lib s) i)"
    "storage_put_record s1 r = Inr (s2, rv)" "storage_tx_commit s2 = Inr s3" "full_api lib put s3"
    "bdb_ok lib ob P f (with_room lib s3)" "bdb_view ob P f (with_room lib s3) = bdb_view ob P f (with_room lib s)"
proof -
  obtain t1 where t1: "storage_tx_begin (with_room lib s) = Inr t1" "bdb_busy lib ob P f t1"
    "bdb_contents ob P f t1 = bdb_contents ob P f (with_room lib s)" using bdb_begin [OF ok] by blast
  then obtain s1 where s1: "storage_tx_begin s = Inr s1" "t1 = with_room lib s1"
    by (cases "storage_tx_begin s") (auto simp: with_room_ops)
  have api1: "full_api lib put s1" by (rule full_api_ops(1) [OF api s1(1)])
  obtain s2 rv where s2: "storage_put_record s1 r = Inr (s2, rv)" "full_api lib put s2" "bdb_busy lib ob P f (with_room lib s2)"
    "bdb_contents ob P f (with_room lib s2) = bdb_contents ob P f (with_room lib s1)"
    using full_put [OF t1(2) [unfolded s1(2)] api1 pf wf] by blast
  obtain t3 where t3: "storage_tx_commit (with_room lib s2) = Inr t3" "bdb_ok lib ob P f t3"
    "bdb_contents ob P f t3 = bdb_contents ob P f (with_room lib s2)" using bdb_commit [OF s2(3)] by blast
  then obtain s3 where s3: "storage_tx_commit s2 = Inr s3" "t3 = with_room lib s3"
    by (cases "storage_tx_commit s2") (auto simp: with_room_ops)
  have "\<not> bdb_lost ob P f t1 i" using i by (auto simp: bdb_lost_def)
  from bdb_get(2) [OF t1(2) this] have "storage_get_record s1 i = Inr (bdb_view ob P f (with_room lib s) i)"
    using t1(3) by (simp add: s1(2) with_room_ops bdb_view_def)
  moreover have "bdb_view ob P f (with_room lib s3) = bdb_view ob P f (with_room lib s)"
    using t1(3) t3(3) s2(4) by (simp add: s1(2) s3(2) bdb_view_def)
  ultimately show thesis
    using that [OF s1(1) _ s2(1) s3(1) full_api_ops(2) [OF s2(2) s3(1)]] t3(2) by (simp add: s3(2))
qed

lemma with_library_full:
  fixes put :: "nat \<Rightarrow> nat \<Rightarrow> db_key \<Rightarrow> db_data \<Rightarrow> 'm \<Rightarrow> 'm \<times> int"
  assumes "bdb_acceptor lib ob cfg ident a"
  defines "s \<equiv> acc_store (with_library (lib\<lparr>db_put := put\<rparr>) cfg ident a)"
  shows "full_api lib put s" and "bdb_ok lib ob (bdb_path cfg ident) (bdb_db_filename cfg) (with_room lib s)"
    and "bdb_view ob (bdb_path cfg ident) (bdb_db_filename cfg) (with_room lib s) = bdb_record ob cfg ident a"
proof -
  have same: "bdb_storage_tx_begin (lib\<lparr>db_put := put\<rparr>) = bdb_storage_tx_begin lib"
    "bdb_storage_tx_commit (lib\<lparr>db_put := put\<rparr>) = bdb_storage_tx_commit lib"
    "bdb_storage_get (lib\<lparr>db_put := put\<rparr>) = bdb_storage_get lib"
    "bdb_storage_get_trim_instance (lib\<lparr>db_put := put\<rparr>) = bdb_storage_get_trim_instance lib"
    by (simp_all add: fun_eq_iff bdb_storage_tx_begin_def bdb_storage_tx_commit_def bdb_storage_get_def
        bdb_storage_get_trim_instance_def)
  have h: "st_handle s = st_handle (acc_store a)" by (simp add: s_def with_library_def Let_def)
  show "full_api lib put s" by (simp add: s_def with_library_def Let_def full_api_def storage_init_bdb_def)
  have "bdb_api lib (with_room lib s)"
    by (simp add: bdb_api_def with_room_def s_def with_library_def Let_def storage_init_bdb_def same)
  moreover have "bdb_ok lib ob (bdb_path cfg ident) (bdb_db_filename cfg) (acc_store a)"
    using assms(1) by (simp add: bdb_acceptor_def bdb_sound_def)
  ultimately show "bdb_ok lib ob (bdb_path cfg ident) (bdb_db_filename cfg) (with_room lib s)"
    by (simp add: bdb_ok_def with_room_def h)
  show "bdb_view ob (bdb_path cfg ident) (bdb_db_filename cfg) (with_room lib s) = bdb_record ob cfg ident a"
    by (simp add: bdb_record_def bdb_view_def bdb_contents_def with_room_def h)
qed

text \<open>What the handlers answer, from the calls of the storage they make; the result of \<open>put\<close> is not used.\<close>

lemma prepare_in_transaction:
  assumes "acc_trim_iid a < prepare_iid req" and "storage_tx_begin (acc_store a) = Inr s1"
    and "storage_get_record s1 (prepare_iid req) = Inr found" and "promised found (prepare_ballot req)"
    and "storage_put_record s1 (prepared found req) = Inr (s2, rv)" and "storage_tx_commit s2 = Inr s3"
  shows "acceptor_receive_prepare a req = Inr (a\<lparr>acc_store := s3\<rparr>, Some (paxos_accepted_to_promise (prepared found req)))"
proof (cases found)
  case None
  then show ?thesis using assms by (simp add: acceptor_receive_prepare_def prepared_def Let_def)
next
  case (Some r)
  then show ?thesis using assms by (simp add: acceptor_receive_prepare_def prepared_def promised_def Let_def)
qed

lemma accept_in_transaction:
  assumes "acc_trim_iid a < accept_iid req" and "storage_tx_begin (acc_store a) = Inr s1"
    and "storage_get_record s1 (accept_iid req) = Inr found" and "promised found (accept_ballot req)"
    and "storage_put_record s1 (paxos_accept_to_accepted req) = Inr (s2, rv)" and "storage_tx_commit s2 = Inr s3"
  shows "acceptor_receive_accept a req = Inr (a\<lparr>acc_store := s3\<rparr>, Some (PAXOS_ACCEPTED (paxos_accept_to_accepted req)))"
proof (cases found)
  case None
  then show ?thesis using assms by (simp add: acceptor_receive_accept_def Let_def)
next
  case (Some r)
  then show ?thesis using assms by (simp add: acceptor_receive_accept_def promised_def Let_def)
qed

text \<open>
  C15. A disk that is full: \<open>DB->put\<close> fails. \<open>bdb_storage_put\<close> returns the error, the handlers of the
  acceptor do not look at it: for any library that works except that every put fails, an acceptor
  whose database allows both requests answers a prepare request with a promise of its ballot, and
  then accepts a request for the same instance at a lower ballot.
\<close>

theorem bdb_full_disk_forgets_promise:
  assumes "bdb_acceptor lib ob cfg ident a" and "put_fails ob put"
    and "acc_trim_iid a < prepare_iid req" and "accept_iid m = prepare_iid req" and "value_wf (accept_value m)"
    and "promised (bdb_record ob cfg ident a (prepare_iid req)) (accept_ballot m)" and "accept_ballot m < prepare_ballot req"
  shows "\<exists>a1 p a2 r. acceptor_receive_prepare (with_library (lib\<lparr>db_put := put\<rparr>) cfg ident a) req = Inr (a1, Some (PAXOS_PROMISE p)) \<and>
    acceptor_receive_accept a1 m = Inr (a2, Some (PAXOS_ACCEPTED r)) \<and>
    promise_iid p = prepare_iid req \<and> promise_ballot p = prepare_ballot req \<and>
    accepted_iid r = promise_iid p \<and> accepted_ballot r < promise_ballot p"
proof -
  let ?P = "bdb_path cfg ident" and ?f = "bdb_db_filename cfg" and ?i = "prepare_iid req"
  let ?a = "with_library (lib\<lparr>db_put := put\<rparr>) cfg ident a" and ?found = "bdb_record ob cfg ident a (prepare_iid req)"
  note full = with_library_full [OF assms(1), of put]
  have pos: "0 < ?i" using assms(3) word_gt_0 by fastforce
  have trim: "acc_trim_iid ?a = acc_trim_iid a" by (simp add: with_library_def Let_def)
  have found: "accepted_iid q = ?i \<and> value_wf (accepted_value q)" if "?found = Some q" for q
  proof -
    have "contents_ok (bdb_contents ob ?P ?f (acc_store a))"
      using assms(1) by (auto simp: bdb_acceptor_def bdb_sound_def elim: bdb_okE)
    then show ?thesis using record_at_iid that by (simp add: bdb_record_def bdb_view_def)
  qed
  have low: "promised ?found (prepare_ballot req)"
    using assms(6,7) by (auto simp: promised_def split: option.splits)
  define r where "r = prepared ?found req"
  have r: "accepted_iid r = ?i" "accepted_ballot r = prepare_ballot req" "value_wf (accepted_value r)"
    using found low by (auto simp: r_def prepared_def promised_def split: option.splits)
  obtain s1 s2 rv s3 where t: "storage_tx_begin (acc_store ?a) = Inr s1" "storage_get_record s1 ?i = Inr ?found"
    "storage_put_record s1 r = Inr (s2, rv)" "storage_tx_commit s2 = Inr s3" "full_api lib put s3"
    "bdb_ok lib ob ?P ?f (with_room lib s3)" "bdb_view ob ?P ?f (with_room lib s3) = bdb_record ob cfg ident a"
    by (rule full_transaction [OF full(2,1) assms(2) pos r(3)]) (simp only: full(3))
  have p: "acceptor_receive_prepare ?a req = Inr (?a\<lparr>acc_store := s3\<rparr>, Some (paxos_accepted_to_promise r))"
    by (rule prepare_in_transaction [OF _ t(1,2) low t(3) [unfolded r_def] t(4), folded r_def]) (use assms(3) trim in simp)
  obtain u1 u2 ru u3 where u: "storage_tx_begin s3 = Inr u1" "storage_get_record u1 ?i = Inr ?found"
    "storage_put_record u1 (paxos_accept_to_accepted m) = Inr (u2, ru)" "storage_tx_commit u2 = Inr u3"
    by (rule full_transaction [OF t(6,5) assms(2) pos accept_to_accepted_wf [OF assms(5)]]) (simp only: t(7))
  have "acceptor_receive_accept (?a\<lparr>acc_store := s3\<rparr>) m =
      Inr (?a\<lparr>acc_store := u3\<rparr>, Some (PAXOS_ACCEPTED (paxos_accept_to_accepted m)))"
    using accept_in_transaction [of "?a\<lparr>acc_store := s3\<rparr>" m u1 ?found u2 ru u3] assms(3,4,6) u trim by simp
  then show ?thesis
    using p assms(4,7) r(1,2) by (auto simp: paxos_accepted_to_promise_def)
qed

section \<open>A concrete acceptor\<close>

text \<open>What is left of a state of the library when the process ends.\<close>

definition crashed_bdb :: "bdb_state \<Rightarrow> bdb_state" where
  "crashed_bdb w = w\<lparr>bd_env := Map.empty, bd_txn := Map.empty, bd_db := Map.empty, bd_cur := Map.empty\<rparr>"

definition bdb_reboot :: "bdb_state bdb_storage acceptor \<Rightarrow> bdb_state bdb_storage storage" where
  "bdb_reboot a = storage_init_bdb ref_bdb default_config (crashed_bdb (bs_world (st_handle (acc_store a)))) 3"

lemma bdb_reboot_boots:
  "bdb_boots ref_bdb (\<lambda>w. w) default_config 3
     (bdb_disk (\<lambda>w. w) (bdb_path default_config 3) (acc_store a)) (bdb_reboot a)"
  by (auto simp: bdb_boots_def bdb_reboot_def bdb_disk_def crashed_bdb_def)

theorem bdb_keeps_promise_witness:
  "\<exists>a1 outs a3.
     acceptor_receive_prepare bdb_demo life_prepare = Inr (a1, Some (PAXOS_PROMISE life_promise)) \<and>
     acceptor_life (bdb_disk (\<lambda>w. w) (bdb_path default_config 3)) (bdb_boots ref_bdb (\<lambda>w. w) default_config 3) a1 outs a3 \<and>
     Some (PAXOS_ACCEPTED acc_demo_accepted) \<in> set outs \<and>
     promise_ballot life_promise \<le> accepted_ballot acc_demo_accepted"
proof -
  have "life_answers (restart_script bdb_demo bdb_reboot)" by code_simp
  then obtain a1 outs a3 where
    l: "acceptor_receive_prepare bdb_demo life_prepare = Inr (a1, Some (PAXOS_PROMISE life_promise))"
      "acceptor_life (bdb_disk (\<lambda>w. w) (bdb_path default_config 3)) (bdb_boots ref_bdb (\<lambda>w. w) default_config 3) a1 outs a3"
      "Some (PAXOS_ACCEPTED acc_demo_accepted) \<in> set outs" "acc_trim_iid a3 = 0"
    using bdb_reboot_boots by (rule restart_script_life)
  have "promise_ballot life_promise \<le> accepted_ballot acc_demo_accepted"
    by (rule bdb_keeps_promise [OF bdb_demo_ok l(1-3)]) (simp_all add: l(4) acc_demo_accepted_def life_promise_def)
  then show ?thesis using l(1-3) by blast
qed

theorem bdb_trim_exact_witness:
  "\<exists>s s'. storage_trim s 5 = Inr (s', 0) \<and> storage_get_trim_instance s' = Inr 5 \<and>
     storage_tx_begin (acc_store bdb_demo) = Inr s"
proof -
  have "bdb_ok ref_bdb (\<lambda>w. w) (bdb_path default_config 3) (bdb_db_filename default_config) (acc_store bdb_demo)"
    using bdb_demo_ok by (simp add: bdb_acceptor_def bdb_sound_def)
  then obtain s where s: "storage_tx_begin (acc_store bdb_demo) = Inr s"
    "bdb_busy ref_bdb (\<lambda>w. w) (bdb_path default_config 3) (bdb_db_filename default_config) s" using bdb_begin by blast
  show ?thesis using bdb_trim_exact [OF s(2), of 5] s(1) by auto
qed

text \<open>The acceptor on the library above, and a put that answers \<open>ENOSPC\<close>.\<close>

definition low_accept :: paxos_accept where
  "low_accept = \<lparr>accept_iid = 1, accept_ballot = 5, accept_value = acc_demo_value\<rparr>"

theorem bdb_full_disk_forgets_promise_witness:
  "\<exists>a1 p a2 r.
     acceptor_receive_prepare (with_library (ref_bdb\<lparr>db_put := \<lambda>d t k x w. (w, 28)\<rparr>) default_config 3 bdb_demo) life_prepare =
       Inr (a1, Some (PAXOS_PROMISE p)) \<and> promise_ballot p = 10 \<and>
     acceptor_receive_accept a1 low_accept = Inr (a2, Some (PAXOS_ACCEPTED r)) \<and> accepted_ballot r < 10"
proof -
  have "bdb_record (\<lambda>w. w) default_config 3 bdb_demo 1 = None \<and> acc_trim_iid bdb_demo = 0" by code_simp
  moreover have "put_fails (\<lambda>w. w) (\<lambda>d t k x w. (w, 28))" by (simp add: put_fails_def)
  moreover have "value_wf (accept_value low_accept)" by (simp add: low_accept_def acc_demo_value_def value_wf_def)
  ultimately show ?thesis
    using bdb_full_disk_forgets_promise [OF bdb_demo_ok, of "\<lambda>d t k x w. (w, 28)" life_prepare low_accept]
    by (auto simp: life_prepare_def low_accept_def promised_def)
qed

end
