(* ===== verification/CaceSerialize.thy ===== *)
theory CaceSerialize
  imports PaxosPrelude
begin

text \<open>
  \<open>cace/include/variables/serializer/serialize.h\<close>: the serializer that turns the value of a
  consensus variable into bytes and back. The templates of the header are instantiated by the
  type of the object; here a type is a value of \<open>ser_type\<close> and an object a value of \<open>ser_val\<close>,
  a plain object being its bytes in memory. \<open>size_t\<close> is a 64-bit word and is stored with its
  low byte first. Whether a container can be created with a number of elements
  (\<open>std::length_error\<close> otherwise) is the parameter \<open>room\<close>.
\<close>

section \<open>Integers in memory\<close>

primrec le_bytes :: "nat \<Rightarrow> nat \<Rightarrow> byte list" where
  "le_bytes 0 n = []"
| "le_bytes (Suc k) n = word_of_nat (n mod 256) # le_bytes k (n div 256)"

primrec le_nat :: "byte list \<Rightarrow> nat" where
  "le_nat [] = 0"
| "le_nat (b # bs) = unat b + 256 * le_nat bs"

definition size_bytes :: "nat \<Rightarrow> byte list" where
  "size_bytes n = le_bytes 8 (unat (word_of_nat n :: 64 word))"

lemma length_le_bytes [simp]: "length (le_bytes k n) = k"
  by (induction k arbitrary: n) simp_all

lemma le_nat_le_bytes: "le_nat (le_bytes k n) = n mod 256 ^ k"
proof (induction k arbitrary: n)
  case (Suc k)
  have "unat (word_of_nat (n mod 256) :: byte) = n mod 256" by (simp add: unsigned_of_nat take_bit_eq_mod)
  then show ?case by (simp add: Suc mod_mult2_eq)
qed simp

lemma length_size_bytes [simp]: "length (size_bytes n) = 8"
  by (simp add: size_bytes_def)

lemma le_nat_size_bytes: "n < 2 ^ 64 \<Longrightarrow> le_nat (size_bytes n) = n"
  by (simp add: size_bytes_def le_nat_le_bytes unsigned_of_nat take_bit_eq_mod)

lemma le_nat_less: "le_nat bs < 256 ^ length bs"
proof (induction bs)
  case (Cons b bs)
  have "unat b < 2 ^ LENGTH(8)" by (rule unsigned_less)
  then show ?case using Cons by simp
qed simp

section \<open>Types and objects\<close>

datatype ser_type =
    T_pod nat
  | T_string
  | T_vector ser_type
  | T_list ser_type
  | T_tuple "ser_type list"

datatype ser_val =
    Pod "byte list"
  | Str "byte list"
  | Vec "ser_val list"
  | Lst "ser_val list"
  | Tup "ser_val list"

section \<open>Sizes\<close>

text \<open>\<open>get_tuple_size\<close> visits the components from the first to the last.\<close>

fun get_tuple_size :: "64 word list \<Rightarrow> 64 word" where
  "get_tuple_size [] = 0"
| "get_tuple_size [s] = s"
| "get_tuple_size (s # ss) = s + get_tuple_size ss"

definition get_size_elems :: "64 word list \<Rightarrow> 64 word" where
  "get_size_elems ss = fold (\<lambda>cur acc. acc + cur) ss 8"

primrec get_size :: "ser_val \<Rightarrow> 64 word" where
  "get_size (Pod bs) = word_of_nat (length bs)"
| "get_size (Str bs) = 8 + word_of_nat (length bs) * 1"
| "get_size (Vec vs) = get_size_elems (map get_size vs)"
| "get_size (Lst vs) = get_size_elems (map get_size vs)"
| "get_size (Tup vs) = get_tuple_size (map get_size vs)"

section \<open>Writing\<close>

text \<open>
  The output iterator is the buffer with a position. \<open>std::copy\<close> writes without a check; past
  the end of the buffer that is undefined.
\<close>

type_synonym out_iter = "byte list \<times> nat"

definition write_bytes :: "byte list \<Rightarrow> out_iter \<Rightarrow> out_iter outcome" where
  "write_bytes bs it = (case it of (buf, pos) \<Rightarrow>
     if pos + length bs \<le> length buf
     then Inr (take pos buf @ bs @ drop (pos + length bs) buf, pos + length bs)
     else Inl OutOfBounds)"

primrec write_all :: "(out_iter \<Rightarrow> out_iter outcome) list \<Rightarrow> out_iter \<Rightarrow> out_iter outcome" where
  "write_all [] it = Inr it"
| "write_all (f # fs) it = bindE (f it) (write_all fs)"

definition write_counted :: "(out_iter \<Rightarrow> out_iter outcome) list \<Rightarrow> out_iter \<Rightarrow> out_iter outcome" where
  "write_counted fs it = bindE (write_bytes (size_bytes (length fs)) it) (write_all fs)"

fun serialize_tuple :: "(out_iter \<Rightarrow> out_iter outcome) list \<Rightarrow> out_iter \<Rightarrow> out_iter outcome" where
  "serialize_tuple [] it = Inr it"
| "serialize_tuple [f] it = f it"
| "serialize_tuple (f # fs) it = bindE (f it) (serialize_tuple fs)"

primrec serializer :: "ser_val \<Rightarrow> out_iter \<Rightarrow> out_iter outcome" where
  "serializer (Pod bs) = write_bytes bs"
| "serializer (Str bs) = write_counted (map (\<lambda>c. write_bytes [c]) bs)"
| "serializer (Vec vs) = write_counted (map serializer vs)"
| "serializer (Lst vs) = write_counted (map serializer vs)"
| "serializer (Tup vs) = serialize_tuple (map serializer vs)"

definition resize_bytes :: "nat \<Rightarrow> byte list \<Rightarrow> byte list" where
  "resize_bytes n bs = take n bs @ replicate (n - length bs) 0"

definition serialize :: "ser_val \<Rightarrow> byte list \<Rightarrow> byte list outcome" where
  "serialize v res =
     (let offset = length res; sz = get_size v;
          res = resize_bytes (unat (word_of_nat (length res) + sz)) res
      in bindE (serializer v (res, offset)) (\<lambda>(res, it).
           if offset + unat sz = it then Inr res else Inl AssertFailure))"

section \<open>Reading\<close>

text \<open>A reader gets the bytes from its iterator to the end and returns those it left.\<close>

type_synonym 'v reader = "byte list \<Rightarrow> ('v \<times> byte list) outcome"

definition read_bytes :: "nat \<Rightarrow> byte list reader" where
  "read_bytes n bs = (if n \<le> length bs then Inr (take n bs, drop n bs) else Inl AssertFailure)"

definition read_size :: "nat reader" where
  "read_size bs = bindE (read_bytes 8 bs) (\<lambda>(x, bs). Inr (le_nat x, bs))"

primrec read_many :: "'v reader \<Rightarrow> nat \<Rightarrow> 'v list reader" where
  "read_many f 0 bs = Inr ([], bs)"
| "read_many f (Suc n) bs =
     bindE (f bs) (\<lambda>(v, bs). bindE (read_many f n bs) (\<lambda>(vs, bs). Inr (v # vs, bs)))"

primrec deserialize_tuple :: "'v reader list \<Rightarrow> 'v list reader" where
  "deserialize_tuple [] bs = Inr ([], bs)"
| "deserialize_tuple (f # fs) bs =
     bindE (f bs) (\<lambda>(v, bs). bindE (deserialize_tuple fs bs) (\<lambda>(vs, bs). Inr (v # vs, bs)))"

definition read_string :: "(ser_type \<Rightarrow> nat \<Rightarrow> bool) \<Rightarrow> ser_val reader" where
  "read_string room bs =
     bindE (read_size bs) (\<lambda>(n, bs).
       if n = 0 then Inr (Str [], bs)
       else if \<not> room (T_pod 1) n then Inl LengthError
       else bindE (read_many (read_bytes 1) n bs) (\<lambda>(cs, bs). Inr (Str (concat cs), bs)))"

definition read_vector :: "(ser_type \<Rightarrow> nat \<Rightarrow> bool) \<Rightarrow> ser_type \<Rightarrow> ser_val reader \<Rightarrow> ser_val reader" where
  "read_vector room t f bs =
     bindE (read_size bs) (\<lambda>(n, bs).
       if \<not> room t n then Inl LengthError
       else bindE (read_many f n bs) (\<lambda>(vs, bs). Inr (Vec vs, bs)))"

definition read_list :: "ser_val reader \<Rightarrow> ser_val reader" where
  "read_list f bs =
     bindE (read_size bs) (\<lambda>(n, bs). bindE (read_many f n bs) (\<lambda>(vs, bs). Inr (Lst vs, bs)))"

primrec deserialize_helper :: "(ser_type \<Rightarrow> nat \<Rightarrow> bool) \<Rightarrow> ser_type \<Rightarrow> ser_val reader" where
  "deserialize_helper room (T_pod n) = (\<lambda>bs. bindE (read_bytes n bs) (\<lambda>(x, bs). Inr (Pod x, bs)))"
| "deserialize_helper room T_string = read_string room"
| "deserialize_helper room (T_vector t) = read_vector room t (deserialize_helper room t)"
| "deserialize_helper room (T_list t) = read_list (deserialize_helper room t)"
| "deserialize_helper room (T_tuple ts) =
     (\<lambda>bs. bindE (deserialize_tuple (map (deserialize_helper room) ts) bs) (\<lambda>(vs, bs). Inr (Tup vs, bs)))"

definition deserialize :: "(ser_type \<Rightarrow> nat \<Rightarrow> bool) \<Rightarrow> ser_type \<Rightarrow> byte list \<Rightarrow> ser_val outcome" where
  "deserialize room t res = bindE (deserialize_helper room t res) (\<lambda>(v, _). Inr v)"

section \<open>The format\<close>

text \<open>The bytes of an object, without a buffer.\<close>

primrec encoding :: "ser_val \<Rightarrow> byte list" where
  "encoding (Pod bs) = bs"
| "encoding (Str bs) = size_bytes (length bs) @ bs"
| "encoding (Vec vs) = size_bytes (length vs) @ concat (map encoding vs)"
| "encoding (Lst vs) = size_bytes (length vs) @ concat (map encoding vs)"
| "encoding (Tup vs) = concat (map encoding vs)"

text \<open>An object of a type, whose containers can be created again.\<close>

primrec fits :: "(ser_type \<Rightarrow> nat \<Rightarrow> bool) \<Rightarrow> ser_val \<Rightarrow> ser_type \<Rightarrow> bool" where
  "fits room (Pod bs) t = (t = T_pod (length bs))"
| "fits room (Str bs) t =
     (t = T_string \<and> length bs < 2 ^ 64 \<and> (bs \<noteq> [] \<longrightarrow> room (T_pod 1) (length bs)))"
| "fits room (Vec vs) t = (case t of
     T_vector a \<Rightarrow> length vs < 2 ^ 64 \<and> room a (length vs) \<and> list_all (\<lambda>f. f a) (map (fits room) vs)
   | _ \<Rightarrow> False)"
| "fits room (Lst vs) t = (case t of
     T_list a \<Rightarrow> length vs < 2 ^ 64 \<and> list_all (\<lambda>f. f a) (map (fits room) vs)
   | _ \<Rightarrow> False)"
| "fits room (Tup vs) t = (case t of
     T_tuple ts \<Rightarrow> list_all2 (\<lambda>f a. f a) (map (fits room) vs) ts
   | _ \<Rightarrow> False)"

section \<open>Writing follows the format\<close>

lemma get_size_elems_sum: "get_size_elems ss = 8 + sum_list ss"
proof -
  have "fold (\<lambda>cur acc. acc + cur) ss x = x + sum_list ss" for x
    by (induction ss arbitrary: x) (simp_all add: add.assoc)
  then show ?thesis by (simp add: get_size_elems_def)
qed

lemma get_tuple_size_sum: "get_tuple_size ss = sum_list ss"
  by (induction ss rule: get_tuple_size.induct) simp_all

lemma sum_list_of_nat: "(\<And>x. x \<in> set xs \<Longrightarrow> f x = word_of_nat (g x)) \<Longrightarrow>
  sum_list (map f xs) = (word_of_nat (sum_list (map g xs)) :: 'a::len word)"
  by (induction xs) simp_all

lemma get_size_encoding: "get_size v = word_of_nat (length (encoding v))"
proof (induction v)
  case (Vec vs)
  then show ?case by (simp add: get_size_elems_sum length_concat comp_def sum_list_of_nat)
next
  case (Lst vs)
  then show ?case by (simp add: get_size_elems_sum length_concat comp_def sum_list_of_nat)
next
  case (Tup vs)
  then show ?case by (simp add: get_tuple_size_sum length_concat comp_def sum_list_of_nat)
qed simp_all

text \<open>A writer puts its bytes where the iterator stands.\<close>

definition puts :: "(out_iter \<Rightarrow> out_iter outcome) \<Rightarrow> byte list \<Rightarrow> bool" where
  "puts f bs = (\<forall>pre old post. length old = length bs \<longrightarrow>
     f (pre @ old @ post, length pre) = Inr (pre @ bs @ post, length pre + length bs))"

lemma putsD: "puts f bs \<Longrightarrow> length old = length bs \<Longrightarrow>
  f (pre @ old @ post, length pre) = Inr (pre @ bs @ post, length pre + length bs)"
  by (simp add: puts_def)

lemma puts_bytes: "puts (write_bytes bs) bs"
  by (simp add: puts_def write_bytes_def)

lemma puts_append:
  assumes f: "puts f bs" and g: "puts g cs"
  shows "puts (\<lambda>it. bindE (f it) g) (bs @ cs)"
  unfolding puts_def
proof (intro allI impI)
  fix pre old post :: "byte list"
  assume l: "length old = length (bs @ cs)"
  define old1 old2 where "old1 = take (length bs) old" and "old2 = drop (length bs) old"
  have old: "old = old1 @ old2" "length old1 = length bs" "length old2 = length cs"
    using l by (simp_all add: old1_def old2_def)
  have 1: "f (pre @ old1 @ old2 @ post, length pre) = Inr (pre @ bs @ old2 @ post, length pre + length bs)"
    by (rule putsD [OF f old(2)])
  have 2: "g ((pre @ bs) @ old2 @ post, length (pre @ bs)) =
      Inr ((pre @ bs) @ cs @ post, length (pre @ bs) + length cs)"
    by (rule putsD [OF g old(3)])
  show "bindE (f (pre @ old @ post, length pre)) g =
      Inr (pre @ (bs @ cs) @ post, length pre + length (bs @ cs))"
    using 1 2 by (simp add: old(1) add.assoc)
qed

lemma puts_Nil: "puts Inr []"
  by (simp add: puts_def)

lemma puts_all: "list_all2 puts fs bss \<Longrightarrow> puts (write_all fs) (concat bss)"
proof (induction fs bss rule: list_all2_induct)
  case (Cons f fs bs bss)
  then have "puts (\<lambda>it. bindE (f it) (write_all fs)) (bs @ concat bss)" by (blast intro: puts_append)
  then show ?case by (simp add: puts_def)
qed (simp add: puts_def)

lemma serialize_tuple_all: "serialize_tuple fs it = write_all fs it"
proof (induction fs it rule: serialize_tuple.induct)
  case (2 f it)
  have "bindE m Inr = m" for m :: "out_iter outcome" by (cases m) simp_all
  moreover have "write_all [] = Inr" by (rule ext) simp
  ultimately show ?case by simp
next
  case (3 f g fs it)
  then show ?case by (cases "f it") simp_all
qed simp

lemma puts_counted:
  "list_all2 puts fs bss \<Longrightarrow> puts (write_counted fs) (size_bytes (length fs) @ concat bss)"
  using puts_append [OF puts_bytes puts_all] by (simp add: puts_def write_counted_def)

lemma serializer_puts: "puts (serializer v) (encoding v)"
proof (induction v)
  case (Pod bs)
  show ?case by (simp add: puts_bytes)
next
  case (Str bs)
  have "list_all2 puts (map (\<lambda>c. write_bytes [c]) bs) (map (\<lambda>c. [c]) bs)"
    by (simp add: list_all2_conv_all_nth puts_bytes)
  from puts_counted [OF this] show ?case by simp
next
  case (Vec vs)
  then have "list_all2 puts (map serializer vs) (map encoding vs)"
    by (simp add: list_all2_conv_all_nth)
  from puts_counted [OF this] show ?case by simp
next
  case (Lst vs)
  then have "list_all2 puts (map serializer vs) (map encoding vs)"
    by (simp add: list_all2_conv_all_nth)
  from puts_counted [OF this] show ?case by simp
next
  case (Tup vs)
  then have "list_all2 puts (map serializer vs) (map encoding vs)"
    by (simp add: list_all2_conv_all_nth)
  from puts_all [OF this] show ?case by (simp add: serialize_tuple_all puts_def)
qed

lemma serialize_appends:
  assumes "length res + length (encoding v) < 2 ^ 64"
  shows "serialize v res = Inr (res @ encoding v)"
proof -
  have sz: "unat (get_size v) = length (encoding v)"
    using assms by (simp add: get_size_encoding unsigned_of_nat take_bit_eq_mod)
  have tot: "unat (word_of_nat (length res) + get_size v) = length res + length (encoding v)"
    using assms by (simp add: get_size_encoding unsigned_of_nat take_bit_eq_mod flip: of_nat_add)
  have "serializer v (res @ replicate (length (encoding v)) 0 @ [], length res) =
      Inr (res @ encoding v @ [], length res + length (encoding v))"
    by (rule putsD [OF serializer_puts]) simp
  then show ?thesis by (simp add: serialize_def resize_bytes_def sz tot)
qed

section \<open>Reading follows the format\<close>

text \<open>
  A reader takes the bytes of an object and leaves the rest; when the input ends inside the
  object, the assertion on the end of the input fails.
\<close>

definition gets :: "'v reader \<Rightarrow> 'v \<Rightarrow> byte list \<Rightarrow> bool" where
  "gets f v bs = ((\<forall>rest. f (bs @ rest) = Inr (v, rest)) \<and>
     (\<forall>n < length bs. f (take n bs) = Inl AssertFailure))"

lemma getsD:
  "gets f v bs \<Longrightarrow> f (bs @ rest) = Inr (v, rest)"
  "gets f v bs \<Longrightarrow> n < length bs \<Longrightarrow> f (take n bs) = Inl AssertFailure"
  by (simp_all add: gets_def)

lemma gets_return: "gets (\<lambda>bs. Inr (v, bs)) v []"
  by (simp add: gets_def)

lemma gets_bind:
  assumes f: "gets f v bs" and g: "gets (g v) w cs"
  shows "gets (\<lambda>x. bindE (f x) (\<lambda>(v, x). g v x)) w (bs @ cs)"
  unfolding gets_def
proof (intro conjI allI impI)
  fix rest
  show "bindE (f ((bs @ cs) @ rest)) (\<lambda>(v, x). g v x) = Inr (w, rest)"
    using getsD(1) [OF f] getsD(1) [OF g] by simp
next
  fix n assume n: "n < length (bs @ cs)"
  show "bindE (f (take n (bs @ cs))) (\<lambda>(v, x). g v x) = Inl AssertFailure"
  proof (cases "n < length bs")
    case True
    then show ?thesis using getsD(2) [OF f] by simp
  next
    case False
    then have "g v (take (n - length bs) cs) = Inl AssertFailure"
      using n by (intro getsD(2) [OF g]) auto
    then show ?thesis using False getsD(1) [OF f, of "take (n - length bs) cs"] by simp
  qed
qed

lemma gets_map:
  "gets f v bs \<Longrightarrow> gets (\<lambda>x. bindE (f x) (\<lambda>(v, x). Inr (h v, x))) (h v) bs"
  using gets_bind [OF _ gets_return, of f v bs h] by simp

lemma gets_bytes: "n = length bs \<Longrightarrow> gets (read_bytes n) bs bs"
  by (simp add: gets_def read_bytes_def)

lemma gets_size: "n < 2 ^ 64 \<Longrightarrow> gets read_size n (size_bytes n)"
  using gets_map [OF gets_bytes [of 8 "size_bytes n"], of le_nat]
  by (simp add: gets_def read_size_def le_nat_size_bytes)

lemma gets_many:
  "(\<And>v. v \<in> set vs \<Longrightarrow> gets f v (e v)) \<Longrightarrow> gets (read_many f (length vs)) vs (concat (map e vs))"
proof (induction vs)
  case (Cons v vs)
  have "gets (\<lambda>x. bindE (read_many f (length vs) x) (\<lambda>(vs, x). Inr (v # vs, x))) (v # vs) (concat (map e vs))"
    using Cons by (intro gets_map) simp
  moreover have "gets f v (e v)" using Cons.prems by simp
  ultimately have "gets (\<lambda>x. bindE (f x) (\<lambda>(v, x). bindE (read_many f (length vs) x) (\<lambda>(vs, x). Inr (v # vs, x))))
      (v # vs) (e v @ concat (map e vs))"
    by (intro gets_bind)
  then show ?case by (simp add: gets_def)
qed (simp add: gets_def)

lemma gets_tuple:
  "list_all2 (\<lambda>f v. gets f v (e v)) fs vs \<Longrightarrow> gets (deserialize_tuple fs) vs (concat (map e vs))"
proof (induction fs vs rule: list_all2_induct)
  case (Cons f fs v vs)
  have "gets (\<lambda>x. bindE (deserialize_tuple fs x) (\<lambda>(vs, x). Inr (v # vs, x))) (v # vs) (concat (map e vs))"
    using Cons by (intro gets_map) simp
  with Cons(1) have "gets (\<lambda>x. bindE (f x) (\<lambda>(v, x). bindE (deserialize_tuple fs x) (\<lambda>(vs, x). Inr (v # vs, x))))
      (v # vs) (e v @ concat (map e vs))"
    by (intro gets_bind)
  then show ?case by (simp add: gets_def)
qed (simp add: gets_def)

lemma gets_counted:
  assumes n: "n < 2 ^ 64" and g: "gets (g n) v cs"
  shows "gets (\<lambda>x. bindE (read_size x) (\<lambda>(n, x). g n x)) v (size_bytes n @ cs)"
  using gets_bind [where f = read_size and g = g, OF gets_size [OF n] g] .

lemma concat_singletons: "concat (map (\<lambda>b. [b]) bs) = bs"
  by (induction bs) simp_all

lemma gets_chars: "gets (read_many (read_bytes 1) (length bs)) (map (\<lambda>b. [b]) bs) bs"
proof -
  have "gets (read_bytes 1) c (id c)" if "c \<in> set (map (\<lambda>b. [b]) bs)" for c
    using that gets_bytes [of 1 c] by auto
  from gets_many [of "map (\<lambda>b. [b]) bs", OF this] show ?thesis by (simp add: concat_singletons)
qed

lemma gets_string:
  assumes "fits room (Str bs) T_string"
  shows "gets (read_string room) (Str bs) (size_bytes (length bs) @ bs)"
  unfolding read_string_def
proof (rule gets_counted)
  have "gets (\<lambda>x. bindE (read_many (read_bytes 1) (length bs) x) (\<lambda>(cs, x). Inr (Str (concat cs), x)))
      (Str bs) bs"
    using gets_map [OF gets_chars, where h = "\<lambda>cs. Str (concat cs)"] by (simp add: concat_singletons)
  then show "gets (\<lambda>x. if length bs = 0 then Inr (Str [], x)
      else if \<not> room (T_pod 1) (length bs) then Inl LengthError
      else bindE (read_many (read_bytes 1) (length bs) x) (\<lambda>(cs, x). Inr (Str (concat cs), x))) (Str bs) bs"
    using assms by (cases "bs = []") (simp_all add: gets_return)
qed (use assms in simp)

lemma deserialize_helper_gets:
  "fits room v t \<Longrightarrow> gets (deserialize_helper room t) v (encoding v)"
proof (induction v arbitrary: t)
  case (Pod bs)
  then show ?case using gets_map [OF gets_bytes [OF refl], where h = Pod] by simp
next
  case (Str bs)
  then show ?case using gets_string [of room bs] by simp
next
  case (Vec vs)
  from Vec.prems obtain a where t: "t = T_vector a" and n: "length vs < 2 ^ 64" and r: "room a (length vs)"
    and vs: "\<forall>v \<in> set vs. fits room v a"
    by (auto simp: list_all_iff split: ser_type.splits)
  have "gets (read_many (deserialize_helper room a) (length vs)) vs (concat (map encoding vs))"
    using Vec.IH vs by (intro gets_many) simp
  from gets_map [OF this, where h = Vec]
  have "gets (\<lambda>x. if \<not> room a (length vs) then Inl LengthError
      else bindE (read_many (deserialize_helper room a) (length vs) x) (\<lambda>(vs, x). Inr (Vec vs, x)))
      (Vec vs) (concat (map encoding vs))"
    using r by simp
  from gets_counted [where g = "\<lambda>n x. if \<not> room a n then Inl LengthError
      else bindE (read_many (deserialize_helper room a) n x) (\<lambda>(vs, x). Inr (Vec vs, x))", OF n this]
  show ?case by (simp add: t read_vector_def [abs_def])
next
  case (Lst vs)
  from Lst.prems obtain a where t: "t = T_list a" and n: "length vs < 2 ^ 64"
    and vs: "\<forall>v \<in> set vs. fits room v a"
    by (auto simp: list_all_iff split: ser_type.splits)
  have "gets (read_many (deserialize_helper room a) (length vs)) vs (concat (map encoding vs))"
    using Lst.IH vs by (intro gets_many) simp
  from gets_counted [where g = "\<lambda>n x. bindE (read_many (deserialize_helper room a) n x) (\<lambda>(vs, x). Inr (Lst vs, x))",
      OF n gets_map [OF this, where h = Lst]]
  show ?case by (simp add: t read_list_def [abs_def])
next
  case (Tup vs)
  from Tup.prems obtain ts where t: "t = T_tuple ts" and vs: "list_all2 (\<lambda>f a. f a) (map (fits room) vs) ts"
    by (auto split: ser_type.splits)
  have "list_all2 (\<lambda>f v. gets f v (encoding v)) (map (deserialize_helper room) ts) vs"
    using vs Tup.IH by (simp add: list_all2_conv_all_nth)
  from gets_map [OF gets_tuple [OF this], where h = Tup] show ?case by (simp add: t)
qed

section \<open>Properties\<close>

text \<open>
  C30. What \<open>deserialize\<close> returns for the bytes \<open>serialize\<close> appended is the object, for every type
  built from plain objects, strings, vectors, lists and tuples, whatever follows in the
  stream; no assertion of either fails.
\<close>

theorem serialize_roundtrip:
  assumes "fits room v t" and "length res + length (encoding v) < 2 ^ 64"
  shows "\<exists>out. serialize v res = Inr (res @ out) \<and> deserialize room t (out @ rest) = Inr v"
  using getsD(1) [OF deserialize_helper_gets [OF assms(1)]] serialize_appends [OF assms(2)]
  by (simp add: deserialize_def)

theorem serialize_roundtrip_witness:
  "\<exists>out. serialize (Vec [Str [104, 105], Str []]) [7] = Inr ([7] @ out) \<and>
     deserialize (\<lambda>_ n. n < 100) (T_vector T_string) (out @ [1, 2]) = Inr (Vec [Str [104, 105], Str []])"
  by (rule serialize_roundtrip [of "\<lambda>_ n. n < 100" "Vec [Str [104, 105], Str []]" "T_vector T_string" "[7]" "[1, 2]"])
    simp_all

text \<open>
  A stream that ends inside an object is never read past its end and never taken for a
  shorter object: an assertion stops the program.
\<close>

theorem deserialize_truncated:
  assumes "fits room v t" and "n < length (encoding v)"
  shows "deserialize room t (take n (encoding v)) = Inl AssertFailure"
  using getsD(2) [OF deserialize_helper_gets [OF assms(1)] assms(2)] by (simp add: deserialize_def)

theorem deserialize_truncated_witness:
  "deserialize (\<lambda>_ n. n < 100) (T_vector T_string) (take 17 (encoding (Vec [Str [104, 105], Str []]))) = Inl AssertFailure"
  by (rule deserialize_truncated [of "\<lambda>_ n. n < 100" "Vec [Str [104, 105], Str []]"]) simp_all

end
