(* ===== verification/Samples.thy ===== *)
theory Samples
  imports EvReplica CaceSerialize
begin

text \<open>
  The sample programs with logic of their own: \<open>sample/counter.c\<close>, a replicated counter that
  writes checkpoints and trims the log of the acceptors, and \<open>sample/client.c\<close>, which measures
  latencies. A C string is read from the bytes of a value up to the first 0; the file of a
  counter is its content, \<open>None\<close> when it does not exist. The replica whose functions a callback
  calls is an argument, as are the clock and the random numbers.
\<close>

section \<open>The counter\<close>

record trim_info =
  ti_count :: int
  ti_last_trim :: int
  ti_instances :: "int list"

record counter_replica =
  cr_id :: int
  cr_count :: "32 word"
  cr_instance_id :: iid_t
  cr_trim :: trim_info
  cr_file :: "string option"

definition set_counter :: "int \<Rightarrow> counter_replica \<Rightarrow> counter_replica" where
  "set_counter n r = r\<lparr>cr_count := word_of_int n\<rparr>"

definition set_instance :: "int \<Rightarrow> counter_replica \<Rightarrow> counter_replica" where
  "set_instance n r = r\<lparr>cr_instance_id := word_of_int n\<rparr>"

text \<open>\<open>fscanf(f, "%d %d", ...)\<close> stores what it has read until it fails.\<close>

definition init_state :: "counter_replica \<Rightarrow> counter_replica" where
  "init_state r =
     (let r = r\<lparr>cr_count := 0, cr_instance_id := 0\<rparr>
      in case cr_file r of
           None \<Rightarrow> r
         | Some s \<Rightarrow>
             (case strtol_int s of
                None \<Rightarrow> r
              | Some (n, s) \<Rightarrow>
                  (case strtol_int s of
                     None \<Rightarrow> set_counter n r
                   | Some (i, s) \<Rightarrow> set_instance i (set_counter n r))))"

definition state_text :: "counter_replica \<Rightarrow> string" where
  "state_text r = int_to_string (sint (cr_count r)) @ '' '' @ int_to_string (sint (cr_instance_id r))"

definition checkpoint_state :: "bool \<Rightarrow> counter_replica \<Rightarrow> counter_replica outcome" where
  "checkpoint_state opened r = (if opened then Inr (r\<lparr>cr_file := Some (state_text r)\<rparr>) else Inl NullPointer)"

definition update_state :: "iid_t \<Rightarrow> counter_replica \<Rightarrow> counter_replica" where
  "update_state iid r = r\<lparr>cr_count := cr_count r + 1, cr_instance_id := iid\<rparr>"

definition min_instance :: "int \<Rightarrow> int list \<Rightarrow> int" where
  "min_instance = foldl (\<lambda>m x. if x < m then x else m)"

text \<open>The result has the instance that is handed to \<open>evpaxos_replica_send_trim\<close>, if any.\<close>

definition update_trim_info :: "int \<Rightarrow> int \<Rightarrow> counter_replica \<Rightarrow> (counter_replica \<times> int option) outcome" where
  "update_trim_info replica_id trim_id r =
     (let t = cr_trim r in
      if replica_id < 0 \<or> 16 \<le> replica_id then Inl OutOfBounds
      else if trim_id \<le> ti_instances t ! nat replica_id then Inr (r, None)
      else let first = ti_instances t ! 0; instances = (ti_instances t)[nat replica_id := trim_id]
           in if 16 < ti_count t then Inl OutOfBounds
              else let m = min_instance first (take (nat (ti_count t)) instances)
                   in if ti_last_trim t < m
                      then Inr (r\<lparr>cr_trim := t\<lparr>ti_instances := instances, ti_last_trim := m\<rparr>\<rparr>, Some m)
                      else Inr (r\<lparr>cr_trim := t\<lparr>ti_instances := instances\<rparr>\<rparr>, None))"

definition c_bytes :: "string \<Rightarrow> byte list" where
  "c_bytes s = map (\<lambda>c. of_nat (of_char c)) s @ [0]"

definition submit_text :: "replica \<Rightarrow> string \<Rightarrow> net_action list outcome" where
  "submit_text rp s = evpaxos_replica_submit rp (c_bytes s) (int (length s) + 1)"

definition submit_trim :: "replica \<Rightarrow> counter_replica \<Rightarrow> net_action list outcome" where
  "submit_trim rp r =
     submit_text rp (''TRIM '' @ int_to_string (cr_id r) @ '' '' @ int_to_string (sint (cr_instance_id r)))"

text \<open>The string at the start of a value: there is none in a value without a 0.\<close>

definition c_string :: "byte list option \<Rightarrow> string outcome" where
  "c_string v = (case v of
     None \<Rightarrow> Inl NullPointer
   | Some bs \<Rightarrow> if 0 \<in> set bs then Inr (map (\<lambda>b. char_of (unat b)) (takeWhile (\<lambda>b. b \<noteq> 0) bs)) else Inl OutOfBounds)"

text \<open>\<open>sscanf(value, "TRIM %d %d", ...)\<close>, when it returns 2.\<close>

definition sscanf_trim :: "string \<Rightarrow> (int \<times> int) option" where
  "sscanf_trim s =
     (if take 4 s \<noteq> ''TRIM'' then None
      else case strtol_int (drop 4 s) of
             None \<Rightarrow> None
           | Some (i, s) \<Rightarrow> map_option (\<lambda>(t, _). (i, t)) (strtol_int s))"

definition apply_value ::
  "replica \<Rightarrow> iid_t \<Rightarrow> string \<Rightarrow> counter_replica \<Rightarrow> (counter_replica \<times> net_action list) outcome" where
  "apply_value rp iid s r =
     (case sscanf_trim s of
        Some (i, t) \<Rightarrow> bindE (update_trim_info i t r) (\<lambda>(r, m).
          Inr (r, case m of None \<Rightarrow> [] | Some m \<Rightarrow> evpaxos_replica_send_trim rp (word_of_int m)))
      | None \<Rightarrow> Inr (update_state iid r, []))"

definition counter_deliver ::
  "replica \<Rightarrow> bool \<Rightarrow> iid_t \<Rightarrow> byte list option \<Rightarrow> counter_replica \<Rightarrow> (counter_replica \<times> net_action list) outcome" where
  "counter_deliver rp opened iid value r =
     bindE (c_string value) (\<lambda>s.
     bindE (apply_value rp iid s r) (\<lambda>(r, out).
       if unat iid mod 100 = 0
       then bindE (checkpoint_state opened r) (\<lambda>r.
            bindE (submit_trim rp r) (\<lambda>out'. Inr (r, out @ out')))
       else Inr (r, out)))"

text \<open>The timer for the next value of the client is added again.\<close>

definition on_client_value :: "replica \<Rightarrow> net_action list outcome" where
  "on_client_value rp = submit_text rp ''COUNT''"

definition counter_start :: "int \<Rightarrow> string option \<Rightarrow> replica \<Rightarrow> counter_replica \<times> replica" where
  "counter_start ident content rp =
     (let r = init_state \<lparr>cr_id = ident, cr_count = 0, cr_instance_id = 0,
                cr_trim = \<lparr>ti_count = 0, ti_last_trim = 0, ti_instances = replicate 16 0\<rparr>, cr_file = content\<rparr>;
          rp = evpaxos_replica_set_instance_id rp (cr_instance_id r)
      in (r\<lparr>cr_trim := (cr_trim r)\<lparr>ti_count := evpaxos_replica_count rp\<rparr>\<rparr>, rp))"

section \<open>The client\<close>

definition MAX_VALUE_SIZE :: int where
  "MAX_VALUE_SIZE = 8192"

text \<open>Latencies are in microseconds; their averages are divisions of integers.\<close>

record stats =
  st_delivered :: int
  st_min :: int
  st_max :: int
  st_avg :: int

record client =
  cl_value_size :: int
  cl_outstanding :: int
  cl_stats :: stats

definition alphanum :: string where
  "alphanum = ''0123456789abcdefghijklmnopqrstuvwxyz''"

text \<open>
  The bytes of an array of \<open>MAX_VALUE_SIZE\<close> bytes that starts with a random string of \<open>len\<close>
  bytes; \<open>rands\<close> are the random numbers, \<open>junk\<close> what the array held.
\<close>

definition random_string :: "(nat \<Rightarrow> nat) \<Rightarrow> byte list \<Rightarrow> int \<Rightarrow> byte list outcome" where
  "random_string rands junk len =
     (if len \<le> 0 \<or> int (length junk) < len then Inl OutOfBounds
      else let n = nat len - 1
           in Inr (map (\<lambda>i. of_nat (of_char (alphanum ! (rands i mod 36)))) [0..<n] @ [0] @ drop (n + 1) junk))"

definition timeval_bytes :: "timeval \<Rightarrow> byte list" where
  "timeval_bytes t = le_bytes 8 (unat (word_of_int (tv_sec t) :: 64 word)) @ le_bytes 8 (unat (word_of_int (tv_usec t) :: 64 word))"

text \<open>
  \<open>client_submit_value\<close>: the structure is the time, the size and the array. 4000 bytes more than
  it needs are sent; \<open>None\<close> stands for an array of any content.
\<close>

definition client_submit_value ::
  "timeval \<Rightarrow> (nat \<Rightarrow> nat) \<Rightarrow> byte list \<Rightarrow> nat \<Rightarrow> client \<Rightarrow> bev_write outcome" where
  "client_submit_value now rands junk bev c =
     bindE (random_string rands junk (cl_value_size c)) (\<lambda>v.
       let bytes = timeval_bytes now @ le_bytes 8 (nat (cl_value_size c)) @ v;
           sz = 24 + cl_value_size c + 4000
       in if int (length bytes) < sz then Inl OutOfBounds else Inr (paxos_submit bev (take (nat sz) bytes) sz))"

definition timeval_diff :: "timeval \<Rightarrow> timeval \<Rightarrow> int" where
  "timeval_diff t1 t2 =
     (let us = (tv_sec t2 - tv_sec t1) * 1000000
      in if us < 0 then 0 else us + (tv_usec t2 - tv_usec t1))"

text \<open>\<open>/\<close> of C rounds towards 0.\<close>

definition c_div :: "int \<Rightarrow> int \<Rightarrow> int" where
  "c_div a b = (if 0 \<le> a then a div b else - (- a div b))"

definition update_stats :: "int \<Rightarrow> stats \<Rightarrow> stats" where
  "update_stats lat s =
     (let n = st_delivered s + 1
      in \<lparr>st_delivered = n,
          st_min = (if st_min s = 0 \<or> lat < st_min s then lat else st_min s),
          st_max = (if st_max s < lat then lat else st_max s),
          st_avg = st_avg s + c_div (lat - st_avg s) n\<rparr>)"

text \<open>The time in a delivered value: its first 16 bytes.\<close>

definition value_time :: "byte list option \<Rightarrow> timeval outcome" where
  "value_time v = (case v of
     None \<Rightarrow> Inl NullPointer
   | Some bs \<Rightarrow> if length bs < 16 then Inl OutOfBounds
       else Inr \<lparr>tv_sec = sint (of_nat (le_nat (take 8 bs)) :: 64 word),
                 tv_usec = sint (of_nat (le_nat (take 8 (drop 8 bs))) :: 64 word)\<rparr>)"

definition client_deliver ::
  "timeval \<Rightarrow> timeval \<Rightarrow> (nat \<Rightarrow> nat) \<Rightarrow> byte list \<Rightarrow> nat \<Rightarrow> byte list option \<Rightarrow> client \<Rightarrow> (client \<times> bev_write) outcome" where
  "client_deliver now now' rands junk bev value c =
     bindE (value_time value) (\<lambda>t.
       let c = c\<lparr>cl_stats := update_stats (timeval_diff t now) (cl_stats c)\<rparr>
       in bindE (client_submit_value now' rands junk bev c) (\<lambda>w. Inr (c, w)))"

definition stats_zero :: stats where
  "stats_zero = \<lparr>st_delivered = 0, st_min = 0, st_max = 0, st_avg = 0\<rparr>"

definition on_stats :: "client \<Rightarrow> client" where
  "on_stats c = c\<lparr>cl_stats := stats_zero\<rparr>"

primrec submit_values ::
  "nat \<Rightarrow> (nat \<Rightarrow> timeval) \<Rightarrow> (nat \<Rightarrow> nat \<Rightarrow> nat) \<Rightarrow> byte list \<Rightarrow> nat \<Rightarrow> client \<Rightarrow> bev_write list outcome" where
  "submit_values 0 now rands junk bev c = Inr []"
| "submit_values (Suc k) now rands junk bev c =
     bindE (client_submit_value (now k) (rands k) junk bev c) (\<lambda>w.
     bindE (submit_values k now rands junk bev c) (\<lambda>ws. Inr (w # ws)))"

definition client_on_connect ::
  "(nat \<Rightarrow> timeval) \<Rightarrow> (nat \<Rightarrow> nat \<Rightarrow> nat) \<Rightarrow> byte list \<Rightarrow> nat \<Rightarrow> 16 word \<Rightarrow> client \<Rightarrow> bev_write list outcome" where
  "client_on_connect now rands junk bev events c =
     (if and events BEV_EVENT_CONNECTED \<noteq> 0 then submit_values (nat (cl_outstanding c)) now rands junk bev c
      else Inr [])"

section \<open>Checkpoints\<close>

lemma strtol_int_negative:
  assumes "0 < n" "n \<le> 2 ^ 31" "rest = [] \<or> \<not> isdigit (hd rest)" "\<forall>c \<in> set sp. isspace c"
  shows "strtol_int (sp @ ''-'' @ nat_to_string n @ rest) = Some (- int n, rest)"
proof -
  have d: "\<forall>c \<in> set (nat_to_string n). isdigit c" using decimal_digits by blast
  obtain c ds where c: "nat_to_string n = c # ds" using decimal_nonempty by (cases "nat_to_string n") auto
  have "\<not> isspace (CHR ''-'')" by (simp add: isspace_def code_of_def)
  then have "dropWhile isspace (sp @ ''-'' @ nat_to_string n @ rest) = ''-'' @ nat_to_string n @ rest"
    using assms(4) by (simp add: dropWhile_append2)
  moreover have "isdigit c" using d c by auto
  moreover have "digits_value 0 (c # ds @ rest) = (n, rest)"
    using digits_value_append [OF d assms(3)] decimal_value [of n] c by simp
  moreover have "sint (word_of_int (- int n) :: 32 word) = - int n"
    using assms(2) by (simp add: sint_sbintrunc' signed_take_bit_int_eq_self del: of_int_minus)
  ultimately show ?thesis using assms(2) c
    by (simp add: strtol_int_def scan_number_def Let_def max_def del: of_int_minus)
qed

lemma strtol_int_string:
  assumes "- (2 ^ 31) \<le> i" "i < 2 ^ 31" "rest = [] \<or> \<not> isdigit (hd rest)" "\<forall>c \<in> set sp. isspace c"
  shows "strtol_int (sp @ int_to_string i @ rest) = Some (i, rest)"
proof (cases "i < 0")
  case True
  then show ?thesis
    using strtol_int_negative [of "nat (- i)" rest sp] assms by (simp add: int_to_string_def nat_le_iff)
next
  case False
  then show ?thesis
    using strtol_decimal [of "nat i" rest sp] assms by (simp add: int_to_string_def nat_less_iff)
qed

lemma sint_32: "- (2 ^ 31) \<le> sint (w :: 32 word)" "sint (w :: 32 word) < 2 ^ 31"
  using sint_ge [of w] sint_lt [of w] by simp_all

lemma space_char: "isspace CHR '' ''" "\<not> isdigit CHR '' ''"
  by (simp_all add: isspace_def isdigit_def code_of_def)

text \<open>A counter that starts from its checkpoint has the counter and the instance of then.\<close>

lemma init_from_checkpoint:
  assumes "cr_file r = Some (state_text r0)"
  shows "init_state r = r\<lparr>cr_count := cr_count r0, cr_instance_id := cr_instance_id r0\<rparr>"
proof -
  have 1: "strtol_int (state_text r0) =
      Some (sint (cr_count r0), '' '' @ int_to_string (sint (cr_instance_id r0)))"
    using strtol_int_string [OF sint_32 [of "cr_count r0"], of "'' '' @ int_to_string (sint (cr_instance_id r0))" "[]"]
    by (simp add: state_text_def space_char)
  have 2: "strtol_int ('' '' @ int_to_string (sint (cr_instance_id r0))) = Some (sint (cr_instance_id r0), [])"
    using strtol_int_string [OF sint_32 [of "cr_instance_id r0"], of "[]" "'' ''"] by (simp add: space_char)
  show ?thesis using assms 1 2 by (simp add: init_state_def Let_def set_counter_def set_instance_def)
qed

text \<open>What a trim carries: the id and the instance of the checkpoint that was just written.\<close>

lemma sscanf_trim_text:
  assumes "- (2 ^ 31) \<le> i" "i < 2 ^ 31" "- (2 ^ 31) \<le> t" "t < 2 ^ 31"
  shows "sscanf_trim (''TRIM '' @ int_to_string i @ '' '' @ int_to_string t) = Some (i, t)"
proof -
  have 1: "strtol_int ('' '' @ int_to_string i @ '' '' @ int_to_string t) = Some (i, '' '' @ int_to_string t)"
    using strtol_int_string [of i "'' '' @ int_to_string t" "'' ''"] assms by (simp add: space_char)
  have 2: "strtol_int ('' '' @ int_to_string t) = Some (t, [])"
    using strtol_int_string [of t "[]" "'' ''"] assms by (simp add: space_char)
  show ?thesis using 1 2 by (simp add: sscanf_trim_def)
qed

section \<open>Runs of a counter\<close>

text \<open>A log is the list of the delivered instances with their values.\<close>

type_synonym counter_log = "(iid_t \<times> byte list option) list"

primrec counter_run :: "replica \<Rightarrow> counter_log \<Rightarrow> counter_replica \<Rightarrow> (counter_replica \<times> net_action list) outcome" where
  "counter_run rp [] r = Inr (r, [])"
| "counter_run rp (e # log) r =
     bindE (counter_deliver rp True (fst e) (snd e) r) (\<lambda>(r, out).
     bindE (counter_run rp log r) (\<lambda>(r, out'). Inr (r, out @ out')))"

definition counted :: "iid_t \<times> byte list option \<Rightarrow> bool" where
  "counted e = (case c_string (snd e) of Inr s \<Rightarrow> sscanf_trim s = None | _ \<Rightarrow> False)"

text \<open>The counter and the instance after a log, and the log that is delivered after a restart.\<close>

definition tally :: "32 word \<times> iid_t \<Rightarrow> counter_log \<Rightarrow> 32 word \<times> iid_t" where
  "tally = foldl (\<lambda>(n, i) e. if counted e then (n + 1, fst e) else (n, i))"

definition later :: "iid_t \<Rightarrow> counter_log \<Rightarrow> counter_log" where
  "later i log = filter (\<lambda>e. unat i < unat (fst e)) log"

definition state_of :: "counter_replica \<Rightarrow> 32 word \<times> iid_t" where
  "state_of r = (cr_count r, cr_instance_id r)"

lemma update_trim_info_keeps:
  "update_trim_info i t r = Inr (r', m) \<Longrightarrow>
     state_of r' = state_of r \<and> cr_file r' = cr_file r \<and> cr_id r' = cr_id r \<and> ti_count (cr_trim r') = ti_count (cr_trim r)"
  by (auto simp: update_trim_info_def Let_def state_of_def split: if_splits)

lemma apply_value_state:
  assumes "apply_value rp iid s r = Inr (r', out)"
  shows "state_of r' = (if sscanf_trim s = None then (cr_count r + 1, iid) else state_of r) \<and>
    cr_file r' = cr_file r \<and> cr_id r' = cr_id r"
  using assms
  by (auto simp: apply_value_def bindE_Inr update_state_def state_of_def split: option.splits prod.splits
      dest: update_trim_info_keeps [unfolded state_of_def])

lemma counter_deliver_state:
  assumes "counter_deliver rp True iid value r = Inr (r', out)"
  shows "state_of r' = tally (state_of r) [(iid, value)]"
    and "cr_file r' = (if unat iid mod 100 = 0 then Some (state_text r') else cr_file r)"
proof -
  obtain s r1 out1 where s: "c_string value = Inr s" "apply_value rp iid s r = Inr (r1, out1)"
    and r': "r' = (if unat iid mod 100 = 0 then r1\<lparr>cr_file := Some (state_text r1)\<rparr> else r1)"
    using assms by (auto simp: counter_deliver_def bindE_Inr checkpoint_state_def split: if_splits)
  note a = apply_value_state [OF s(2)]
  show "state_of r' = tally (state_of r) [(iid, value)]"
    using a r' s(1) by (auto simp: tally_def counted_def state_of_def)
  show "cr_file r' = (if unat iid mod 100 = 0 then Some (state_text r') else cr_file r)"
    using a r' by (auto simp: state_text_def)
qed

lemma tally_append: "tally s (xs @ ys) = tally (tally s xs) ys"
  by (simp add: tally_def)

lemma counter_run_append:
  "counter_run rp (xs @ ys) r = bindE (counter_run rp xs r) (\<lambda>(r, out).
     bindE (counter_run rp ys r) (\<lambda>(r, out'). Inr (r, out @ out')))"
proof (induction xs arbitrary: r)
  case Nil
  then show ?case by (cases "counter_run rp ys r") auto
next
  case (Cons e xs)
  then show ?case
    by (cases "counter_deliver rp True (fst e) (snd e) r")
      (auto simp: bindE_def split: sum.splits prod.splits)
qed

text \<open>
  The file of a counter after a log: from its content the counter of now is reached by the
  instances of the log that come after it.
\<close>

definition log_ok :: "counter_log \<Rightarrow> bool" where
  "log_ok log \<longleftrightarrow> sorted_wrt (<) (map (unat \<circ> fst) log) \<and> (\<forall>e \<in> set log. 0 < unat (fst e))"

definition resumes :: "counter_log \<Rightarrow> counter_replica \<Rightarrow> bool" where
  "resumes log r \<longleftrightarrow>
     (\<forall>e \<in> set log. counted e \<longrightarrow> unat (fst e) \<le> unat (cr_instance_id r)) \<and>
     cr_instance_id r \<in> insert 0 (fst ` set log) \<and> cr_instance_id (init_state r) \<in> insert 0 (fst ` set log) \<and>
     tally (state_of (init_state r)) (later (cr_instance_id (init_state r)) log) = state_of r"

lemma init_state_file: "cr_file r' = cr_file r \<Longrightarrow> state_of (init_state r') = state_of (init_state r)"
  by (simp add: init_state_def Let_def state_of_def set_counter_def set_instance_def split: option.splits prod.splits)

lemma tally_uncounted: "\<forall>e \<in> set log. \<not> counted e \<Longrightarrow> tally s log = s"
  by (induction log arbitrary: s) (auto simp: tally_def split: prod.splits)

lemma resumes_step:
  assumes r: "resumes log r" and ok: "log_ok (log @ [e])" and d: "counter_deliver rp True (fst e) (snd e) r = Inr (r', out)"
  shows "resumes (log @ [e]) r'"
proof -
  have st: "state_of r' = tally (state_of r) [e]" using counter_deliver_state(1) [OF d] by simp
  have before: "unat i < unat (fst e)" if "i \<in> insert 0 (fst ` set log)" for i
    using that ok by (auto simp: log_ok_def sorted_wrt_append)
  have inst: "cr_instance_id r' = (if counted e then fst e else cr_instance_id r)"
    using st by (auto simp: state_of_def tally_def split: if_splits)
  have a: "\<forall>x \<in> set (log @ [e]). counted x \<longrightarrow> unat (fst x) \<le> unat (cr_instance_id r')"
    using r ok inst by (fastforce simp: resumes_def log_ok_def sorted_wrt_append)
  have b: "cr_instance_id r' \<in> insert 0 (fst ` set (log @ [e]))" using r inst by (auto simp: resumes_def)
  show ?thesis
  proof (cases "unat (fst e) mod 100 = 0")
    case True
    then have f: "cr_file r' = Some (state_text r')" using counter_deliver_state(2) [OF d] by simp
    have i: "state_of (init_state r') = state_of r'" "cr_instance_id (init_state r') = cr_instance_id r'"
      using init_from_checkpoint [OF f] by (simp_all add: state_of_def)
    have "\<forall>x \<in> set (later (cr_instance_id r') (log @ [e])). \<not> counted x"
      using a by (auto simp: later_def simp flip: not_le)
    then show ?thesis using a b i tally_uncounted unfolding resumes_def by simp
  next
    case False
    then have "cr_file r' = cr_file r" using counter_deliver_state(2) [OF d] by simp
    from init_state_file [OF this] have s: "state_of (init_state r') = state_of (init_state r)"
      and i: "cr_instance_id (init_state r') = cr_instance_id (init_state r)" by (simp_all add: state_of_def)
    have "unat (cr_instance_id (init_state r)) < unat (fst e)" using r before by (simp add: resumes_def)
    then have "later (cr_instance_id (init_state r)) (log @ [e]) = later (cr_instance_id (init_state r)) log @ [e]"
      by (simp add: later_def)
    then have "tally (state_of (init_state r)) (later (cr_instance_id (init_state r)) (log @ [e])) = state_of r'"
      using r st by (simp add: resumes_def tally_append)
    then show ?thesis using a b i s r unfolding resumes_def by auto
  qed
qed

lemma resumes_run:
  assumes "resumes log0 r" "log_ok (log0 @ log)" "counter_run rp log r = Inr (r', out)"
  shows "resumes (log0 @ log) r'"
  using assms
proof (induction log arbitrary: log0 r out)
  case (Cons e log)
  obtain r1 out1 out2 where r1: "counter_deliver rp True (fst e) (snd e) r = Inr (r1, out1)"
      "counter_run rp log r1 = Inr (r', out2)"
    using Cons.prems(3) by (auto simp: bindE_Inr)
  have "log_ok (log0 @ [e])" using Cons.prems(2) by (auto simp: log_ok_def sorted_wrt_append)
  then have "resumes (log0 @ [e]) r1" using resumes_step [OF Cons.prems(1) _ r1(1)] by blast
  then show ?case using Cons.IH [of "log0 @ [e]" r1 out2] Cons.prems(2) r1(2) by simp
qed simp

lemma run_tallies: "counter_run rp log r = Inr (r', out) \<Longrightarrow> state_of r' = tally (state_of r) log"
proof (induction log arbitrary: r out)
  case (Cons e log)
  then obtain r1 out1 out2 where r1: "counter_deliver rp True (fst e) (snd e) r = Inr (r1, out1)"
      "counter_run rp log r1 = Inr (r', out2)"
    by (auto simp: bindE_Inr)
  then show ?case
    using Cons.IH [OF r1(2)] counter_deliver_state(1) [OF r1(1)] tally_append [of "state_of r" "[e]" log] by simp
qed (simp add: tally_def)

definition value_ok :: "byte list option \<Rightarrow> bool" where
  "value_ok v = (case c_string v of
     Inl _ \<Rightarrow> False
   | Inr s \<Rightarrow> (case sscanf_trim s of None \<Rightarrow> True | Some (i, t) \<Rightarrow> 0 \<le> i \<and> i < 16))"

text \<open>The replica can be asked to submit, and the configuration has at most 16 acceptors.\<close>

definition replica_ready :: "replica \<Rightarrow> bool" where
  "replica_ready rp \<longleftrightarrow> evpaxos_replica_count rp \<le> 16 \<and> (\<forall>s. \<exists>out. submit_text rp s = Inr out)"

lemma update_trim_info_ok:
  "0 \<le> i \<Longrightarrow> i < 16 \<Longrightarrow> ti_count (cr_trim r) \<le> 16 \<Longrightarrow> \<exists>r' m. update_trim_info i t r = Inr (r', m)"
  by (simp add: update_trim_info_def Let_def)

lemma counter_deliver_ok:
  assumes "replica_ready rp" "value_ok value" "ti_count (cr_trim r) \<le> 16"
  shows "\<exists>r' out. counter_deliver rp True iid value r = Inr (r', out) \<and> ti_count (cr_trim r') = ti_count (cr_trim r)"
proof -
  obtain s where s: "c_string value = Inr s" "case sscanf_trim s of None \<Rightarrow> True | Some (i, t) \<Rightarrow> 0 \<le> i \<and> i < 16"
    using assms(2) by (auto simp: value_ok_def split: sum.splits)
  have "\<exists>r1 out1. apply_value rp iid s r = Inr (r1, out1) \<and> ti_count (cr_trim r1) = ti_count (cr_trim r)"
  proof (cases "sscanf_trim s")
    case None
    then show ?thesis by (simp add: apply_value_def update_state_def)
  next
    case (Some p)
    then obtain r1 m where "update_trim_info (fst p) (snd p) r = Inr (r1, m)"
      using s(2) assms(3) update_trim_info_ok [of "fst p" r "snd p"] by auto
    then show ?thesis using Some update_trim_info_keeps by (fastforce simp: apply_value_def split: prod.splits)
  qed
  then obtain r1 out1 where r1: "apply_value rp iid s r = Inr (r1, out1)" "ti_count (cr_trim r1) = ti_count (cr_trim r)"
    by blast
  obtain out2 where "submit_trim rp (r1\<lparr>cr_file := Some (state_text r1)\<rparr>) = Inr out2"
    using assms(1) by (auto simp: replica_ready_def submit_trim_def)
  then show ?thesis using s(1) r1 by (simp add: counter_deliver_def checkpoint_state_def)
qed

lemma counter_run_ok:
  assumes "replica_ready rp" "\<forall>e \<in> set log. value_ok (snd e)" "ti_count (cr_trim r) \<le> 16"
  shows "\<exists>r' out. counter_run rp log r = Inr (r', out)"
  using assms
proof (induction log arbitrary: r)
  case (Cons e log)
  obtain r1 out1 where r1: "counter_deliver rp True (fst e) (snd e) r = Inr (r1, out1)"
      "ti_count (cr_trim r1) = ti_count (cr_trim r)"
    using counter_deliver_ok [OF Cons.prems(1), of "snd e" r "fst e"] Cons.prems by auto
  then show ?case using Cons.IH [of r1] Cons.prems by auto
qed simp

lemma start_state: "state_of (fst (counter_start ident content rp)) = state_of (init_state r)" if "cr_file r = content"
  using that by (cases r) (auto simp: counter_start_def Let_def init_state_def state_of_def set_counter_def set_instance_def
      split: option.splits prod.splits)

lemma start_count: "ti_count (cr_trim (fst (counter_start ident content rp))) = evpaxos_replica_count rp"
  by (simp add: counter_start_def Let_def evpaxos_replica_count_def evpaxos_replica_set_instance_id_def)

lemma start_file: "cr_file (fst (counter_start ident content rp)) = content"
  by (simp add: counter_start_def Let_def init_state_def set_counter_def set_instance_def split: option.splits prod.splits)

text \<open>
  C32. A counter that is started again goes on where it was. From a start without a checkpoint,
  any log of values with increasing instances is delivered without an error; when the counter is
  then started again from its state file, and the instances after the one that it hands to its
  replica are delivered once more, it has the same counter and the same instance.
\<close>

theorem counter_restart_resumes:
  assumes "replica_ready rp" "log_ok log" "\<forall>e \<in> set log. value_ok (snd e)"
  shows "\<exists>r out r' out'. counter_run rp log (fst (counter_start ident None rp)) = Inr (r, out) \<and>
    counter_run rp (later (cr_instance_id (fst (counter_start ident (cr_file r) rp))) log)
      (fst (counter_start ident (cr_file r) rp)) = Inr (r', out') \<and>
    cr_count r' = cr_count r \<and> cr_instance_id r' = cr_instance_id r"
proof -
  let ?r0 = "fst (counter_start ident None rp)"
  have c: "ti_count (cr_trim (fst (counter_start ident f rp))) \<le> 16" for f
    using assms(1) by (simp add: start_count replica_ready_def)
  obtain r out where r: "counter_run rp log ?r0 = Inr (r, out)"
    using counter_run_ok [OF assms(1,3) c] by blast
  let ?r1 = "fst (counter_start ident (cr_file r) rp)"
  let ?log = "later (cr_instance_id ?r1) log"
  have v: "\<forall>e \<in> set ?log. value_ok (snd e)" using assms(3) by (simp add: later_def)
  obtain r' out' where r': "counter_run rp ?log ?r1 = Inr (r', out')"
    using counter_run_ok [OF assms(1) v c] by blast
  have z: "state_of ?r0 = (0, 0)" "state_of (init_state ?r0) = (0, 0)"
    using start_state [of ?r0 None ident rp] start_file [of ident None rp]
    by (simp_all add: init_state_def Let_def state_of_def)
  have "resumes [] ?r0"
    using z by (simp add: resumes_def state_of_def later_def tally_def)
  from resumes_run [OF this _ r] assms(2) have res: "resumes log r" by simp
  have s: "state_of ?r1 = state_of (init_state r)" by (rule start_state) simp
  then have "cr_instance_id ?r1 = cr_instance_id (init_state r)" by (simp add: state_of_def)
  then have "state_of r' = state_of r"
    using run_tallies [OF r'] res s by (simp add: resumes_def)
  then show ?thesis using r r' by (auto simp: state_of_def)
qed

section \<open>Trims\<close>

definition reported :: "counter_log \<Rightarrow> nat \<Rightarrow> int \<Rightarrow> bool" where
  "reported log k t \<longleftrightarrow> (\<exists>e \<in> set log. \<exists>s. c_string (snd e) = Inr s \<and> sscanf_trim s = Some (int k, t))"

definition trim_ok :: "counter_log \<Rightarrow> trim_info \<Rightarrow> bool" where
  "trim_ok log t \<longleftrightarrow> length (ti_instances t) = 16 \<and> 0 \<le> ti_last_trim t \<and>
     (\<forall>k < 16. ti_instances t ! k = 0 \<or> reported log k (ti_instances t ! k))"

lemma min_instance_le: "min_instance a xs \<le> a \<and> (\<forall>x \<in> set xs. min_instance a xs \<le> x)"
  by (induction xs rule: rev_induct) (auto simp: min_instance_def)

lemma reported_mono: "reported log k t \<Longrightarrow> reported (log @ xs) k t"
  by (auto simp: reported_def)

lemma trim_ok_mono: "trim_ok log t \<Longrightarrow> trim_ok (log @ xs) t"
  by (auto simp: trim_ok_def reported_mono)

lemma update_trim_covered:
  assumes "update_trim_info i t r = Inr (r', m)" "trim_ok log (cr_trim r)" "reported log (nat i) t"
  shows "trim_ok log (cr_trim r') \<and>
    (\<forall>n. m = Some n \<longrightarrow> 0 < n \<and> (\<forall>k < nat (ti_count (cr_trim r)). \<exists>t' \<ge> n. reported log k t'))"
proof -
  let ?t = "cr_trim r"
  let ?is = "(ti_instances ?t)[nat i := t]"
  have i: "0 \<le> i" "i < 16" using assms(1) by (auto simp: update_trim_info_def Let_def split: if_splits)
  have len: "length (ti_instances ?t) = 16" and last: "0 \<le> ti_last_trim ?t" using assms(2) by (auto simp: trim_ok_def)
  have new: "\<forall>k < 16. ?is ! k = 0 \<or> reported log k (?is ! k)"
    using assms(2,3) i by (auto simp: trim_ok_def nth_list_update)
  have cover: "\<exists>t' \<ge> n. reported log k t'"
    if m: "min_instance a (take (nat c) ?is) = n" "ti_last_trim ?t < n" "c \<le> 16" "k < nat c" for a n c k
  proof -
    have "?is ! k \<in> set (take (nat c) ?is)" using m(3,4) len by (auto simp: in_set_conv_nth intro!: exI [of _ k])
    then have "n \<le> ?is ! k" using min_instance_le [of a "take (nat c) ?is"] m(1) by auto
    then show ?thesis using new [rule_format, of k] m(2-4) last by auto
  qed
  show ?thesis
    using assms(1,2) i len last new cover
    by (auto simp: update_trim_info_def Let_def trim_ok_def split: if_splits)
qed

lemma counter_deliver_trims:
  assumes "counter_deliver rp True iid v r = Inr (r', out)" "trim_ok log (cr_trim r)"
  shows "trim_ok (log @ [(iid, v)]) (cr_trim r')"
proof -
  obtain s r1 out1 where s: "c_string v = Inr s" "apply_value rp iid s r = Inr (r1, out1)"
    and r': "cr_trim r' = cr_trim r1"
    using assms(1) by (auto simp: counter_deliver_def bindE_Inr checkpoint_state_def split: if_splits)
  have ok: "trim_ok (log @ [(iid, v)]) (cr_trim r)" by (rule trim_ok_mono [OF assms(2)])
  show ?thesis
  proof (cases "sscanf_trim s")
    case None
    then show ?thesis using s(2) r' ok by (auto simp: apply_value_def update_state_def)
  next
    case (Some p)
    then obtain m where u: "update_trim_info (fst p) (snd p) r = Inr (r1, m)"
      using s(2) by (auto simp: apply_value_def bindE_Inr split: prod.splits)
    then have "0 \<le> fst p" by (auto simp: update_trim_info_def Let_def split: if_splits)
    then have "reported (log @ [(iid, v)]) (nat (fst p)) (snd p)"
      using s(1) Some by (auto simp: reported_def)
    then show ?thesis using update_trim_covered [OF u ok] r' by simp
  qed
qed

lemma counter_run_trims:
  assumes "counter_run rp log r = Inr (r', out)" "trim_ok log0 (cr_trim r)"
  shows "trim_ok (log0 @ log) (cr_trim r')"
  using assms
proof (induction log arbitrary: log0 r out)
  case (Cons e log)
  then obtain r1 out1 out2 where r1: "counter_deliver rp True (fst e) (snd e) r = Inr (r1, out1)"
      "counter_run rp log r1 = Inr (r', out2)"
    by (auto simp: bindE_Inr)
  then show ?case
    using Cons.IH [OF r1(2) counter_deliver_trims [OF r1(1) Cons.prems(2)]] by simp
qed simp

lemma start_trims: "trim_ok [] (cr_trim (fst (counter_start ident content rp)))"
proof -
  have "cr_trim (init_state r) = cr_trim r" for r
    by (simp add: init_state_def Let_def set_counter_def set_instance_def split: option.splits prod.splits)
  then show ?thesis by (simp add: counter_start_def Let_def trim_ok_def)
qed

text \<open>
  C33. The log of the acceptors is trimmed only up to what every replica has in a checkpoint. When
  a counter sends a trim, after any log from any start, each of the replicas that the
  configuration counts has reported a checkpoint of that instance or of a later one.
\<close>

theorem trims_are_covered:
  assumes "counter_run rp log (fst (counter_start ident content rp)) = Inr (r, out)"
    and "c_string v = Inr s" "sscanf_trim s = Some (i, t)" "update_trim_info i t r = Inr (r', Some m)"
  shows "0 < m \<and> (\<forall>k < nat (ti_count (cr_trim r)). \<exists>t' \<ge> m. reported (log @ [(iid, v)]) k t')"
proof -
  have ok: "trim_ok (log @ [(iid, v)]) (cr_trim r)"
    using trim_ok_mono [OF counter_run_trims [OF assms(1) start_trims], of "[(iid, v)]"] by simp
  have "0 \<le> i" using assms(4) by (auto simp: update_trim_info_def Let_def split: if_splits)
  then have "reported (log @ [(iid, v)]) (nat i) t" using assms(2,3) by (auto simp: reported_def)
  then show ?thesis using update_trim_covered [OF assms(4) ok] by blast
qed

section \<open>Examples\<close>

lemma c_string_bytes:
  assumes "CHR 0x00 \<notin> set s"
  shows "c_string (Some (c_bytes s)) = Inr s"
proof -
  have b: "(of_nat (of_char c) :: byte) = 0 \<longleftrightarrow> c = CHR 0x00" for c
  proof
    assume "(of_nat (of_char c) :: byte) = 0"
    then have "of_char c = (0 :: nat)"
      using nat_of_char_less_256 [of c] nat_dvd_not_less [of "of_char c" 256] by (auto simp: word_of_nat_eq_0_iff)
    then have "code_of c = code_of (CHR 0x00)" by (simp add: code_of_def)
    then show "c = CHR 0x00" by (simp only: code_of_inj)
  qed simp
  have i: "char_of (unat (of_nat (of_char c) :: byte)) = c" for c
    by (simp add: unsigned_of_nat take_bit_eq_mod)
  have nz: "\<forall>x \<in> set (map (\<lambda>c. of_nat (of_char c) :: byte) s). x \<noteq> 0"
    using assms b by (metis (no_types, lifting) image_iff list.set_map)
  have "takeWhile (\<lambda>b. b \<noteq> 0) (map (\<lambda>c. of_nat (of_char c) :: byte) s @ [0]) = map (\<lambda>c. of_nat (of_char c)) s"
    using nz by (subst takeWhile_append2) (simp_all only: takeWhile.simps if_False append_Nil2, simp_all)
  then show ?thesis using i by (simp add: c_string_def c_bytes_def o_def)
qed

definition demo_replica :: replica where
  "demo_replica = replica_demo\<lparr>rp_peers := (rp_peers replica_demo)\<lparr>ps_peers := [peer_demo]\<rparr>\<rparr>"

definition demo_counter_log :: counter_log where
  "demo_counter_log = [(1, Some (c_bytes ''COUNT'')), (100, Some (c_bytes ''COUNT'')), (101, Some (c_bytes ''COUNT''))]"

definition trim_value :: "nat \<Rightarrow> byte list" where
  "trim_value t = c_bytes (''TRIM 0 '' @ nat_to_string t)"

lemma demo_replica_ready: "replica_ready demo_replica"
  by (simp add: replica_ready_def demo_replica_def evpaxos_replica_count_def submit_text_def evpaxos_replica_submit_def
      peers_count_def peers_get_acceptor_def peer_demo_def make_peer_def)

lemma demo_count: "c_string (Some (c_bytes ''COUNT'')) = Inr ''COUNT''" "sscanf_trim ''COUNT'' = None"
  by (simp_all add: c_string_bytes sscanf_trim_def)

theorem counter_restart_resumes_witness:
  "\<exists>r out r' out'. counter_run demo_replica demo_counter_log (fst (counter_start 0 None demo_replica)) = Inr (r, out) \<and>
    counter_run demo_replica
      (later (cr_instance_id (fst (counter_start 0 (cr_file r) demo_replica))) demo_counter_log)
      (fst (counter_start 0 (cr_file r) demo_replica)) = Inr (r', out') \<and> cr_count r' = cr_count r"
proof -
  have "log_ok demo_counter_log" by (simp add: log_ok_def demo_counter_log_def)
  moreover have "\<forall>e \<in> set demo_counter_log. value_ok (snd e)"
    by (simp add: demo_counter_log_def value_ok_def demo_count)
  ultimately show ?thesis using counter_restart_resumes [OF demo_replica_ready, of demo_counter_log 0] by blast
qed

lemma demo_trim_start:
  "cr_trim (fst (counter_start 0 None demo_replica)) =
     \<lparr>ti_count = 1, ti_last_trim = 0, ti_instances = 0 # replicate 15 0\<rparr>"
  using replicate_Suc [of 15 "0 :: int"] by (simp add: counter_start_def Let_def init_state_def demo_replica_def evpaxos_replica_count_def peers_count_def
      evpaxos_replica_set_instance_id_def)

lemma demo_trim_value:
  "t < 2 ^ 31 \<Longrightarrow> c_string (Some (trim_value t)) = Inr (''TRIM 0 '' @ nat_to_string t) \<and>
     sscanf_trim (''TRIM 0 '' @ nat_to_string t) = Some (0, int t)"
proof -
  assume t: "t < 2 ^ 31"
  have "CHR 0x00 \<notin> set (nat_to_string t)"
    using decimal_digits [of "CHR 0x00" t] by (auto simp: isdigit_def code_of_def)
  then have "c_string (Some (trim_value t)) = Inr (''TRIM 0 '' @ nat_to_string t)"
    unfolding trim_value_def by (intro c_string_bytes) simp
  moreover have "nat_to_string 0 = ''0''" by code_simp
  ultimately show ?thesis using sscanf_trim_text [of 0 "int t"] t by (simp add: int_to_string_def)
qed

text \<open>
  With one replica, its first report leads to no trim: the minimum starts from the entry of the
  replica 0 before the report.
\<close>

lemma first_report_not_trimmed:
  assumes "counter_run demo_replica [(1, Some (trim_value 100))] (fst (counter_start 0 None demo_replica)) = Inr (r, out)"
  shows "out = [] \<and> cr_trim r = \<lparr>ti_count = 1, ti_last_trim = 0, ti_instances = 100 # replicate 15 0\<rparr>"
  using assms demo_trim_value [of 100]
  by (auto simp: counter_deliver_def apply_value_def update_trim_info_def Let_def demo_trim_start min_instance_def)

theorem trims_are_covered_witness:
  "\<exists>r out r' s. counter_run demo_replica [(1, Some (trim_value 100))] (fst (counter_start 0 None demo_replica)) = Inr (r, out) \<and>
    c_string (Some (trim_value 200)) = Inr s \<and> sscanf_trim s = Some (0, 200) \<and>
    update_trim_info 0 200 r = Inr (r', Some 100) \<and>
    (\<exists>t' \<ge> 100. reported [(1, Some (trim_value 100)), (2, Some (trim_value 200))] 0 t')"
proof -
  have "\<forall>e \<in> set [(1 :: iid_t, Some (trim_value 100))]. value_ok (snd e)"
    using demo_trim_value [of 100] by (simp add: value_ok_def)
  moreover have c: "ti_count (cr_trim (fst (counter_start 0 None demo_replica))) \<le> 16"
    by (simp add: demo_trim_start)
  ultimately obtain r out where r: "counter_run demo_replica [(1, Some (trim_value 100))]
      (fst (counter_start 0 None demo_replica)) = Inr (r, out)"
    using counter_run_ok [OF demo_replica_ready _ c] by blast
  have t: "cr_trim r = \<lparr>ti_count = 1, ti_last_trim = 0, ti_instances = 100 # replicate 15 0\<rparr>"
    using first_report_not_trimmed [OF r] by simp
  then obtain r' where r': "update_trim_info 0 200 r = Inr (r', Some 100)"
    by (simp add: update_trim_info_def Let_def min_instance_def)
  have v: "c_string (Some (trim_value 200)) = Inr (''TRIM 0 '' @ nat_to_string 200)"
      "sscanf_trim (''TRIM 0 '' @ nat_to_string 200) = Some (0, 200)"
    using demo_trim_value [of 200] by simp_all
  show ?thesis using trims_are_covered [OF r v r', of 2] r v r' t by auto
qed

section \<open>The measurements of a client\<close>

lemma c_div_between:
  assumes "0 < n"
  shows "0 \<le> a \<Longrightarrow> 0 \<le> c_div a n \<and> c_div a n \<le> a" and "a < 0 \<Longrightarrow> a \<le> c_div a n \<and> c_div a n \<le> 0"
proof -
  have d: "0 \<le> b div n \<and> b div n \<le> b" if "0 \<le> b" for b
    using zdiv_mono2 [of b 1 n] assms that by (simp add: pos_imp_zdiv_nonneg_iff)
  show "0 \<le> a \<Longrightarrow> 0 \<le> c_div a n \<and> c_div a n \<le> a" using d [of a] by (simp add: c_div_def)
  show "a < 0 \<Longrightarrow> a \<le> c_div a n \<and> c_div a n \<le> 0" using d [of "- a"] by (simp add: c_div_def)
qed

lemma average_between:
  assumes "0 < n" "lo \<le> avg" "avg \<le> hi" "lo \<le> lat" "lat \<le> hi"
  shows "lo \<le> avg + c_div (lat - avg) n \<and> avg + c_div (lat - avg) n \<le> hi"
  using c_div_between [OF assms(1), of "lat - avg"] assms(2-5) by (cases "0 \<le> lat - avg") auto

lemma update_stats_parts:
  "st_delivered (update_stats lat s) = st_delivered s + 1"
  "st_min (update_stats lat s) = (if st_min s = 0 \<or> lat < st_min s then lat else st_min s)"
  "st_max (update_stats lat s) = (if st_max s < lat then lat else st_max s)"
  "st_avg (update_stats lat s) = st_avg s + c_div (lat - st_avg s) (st_delivered s + 1)"
  by (simp_all add: update_stats_def Let_def)

text \<open>Positive latencies give the least, the greatest, and an average between them.\<close>

lemma latency_statistics:
  assumes "ls \<noteq> []" "\<forall>l \<in> set ls. 0 < l"
  shows "st_delivered (fold update_stats ls stats_zero) = int (length ls) \<and>
    st_min (fold update_stats ls stats_zero) = Min (set ls) \<and> st_max (fold update_stats ls stats_zero) = Max (set ls) \<and>
    st_min (fold update_stats ls stats_zero) \<le> st_avg (fold update_stats ls stats_zero) \<and>
    st_avg (fold update_stats ls stats_zero) \<le> st_max (fold update_stats ls stats_zero)"
  using assms
proof (induction ls rule: rev_induct)
  case (snoc l ls)
  show ?case
  proof (cases "ls = []")
    case True
    then show ?thesis using snoc.prems by (simp add: update_stats_def stats_zero_def c_div_def)
  next
    case False
    let ?s = "fold update_stats ls stats_zero"
    have IH: "st_delivered ?s = int (length ls)" "st_min ?s = Min (set ls)" "st_max ?s = Max (set ls)"
        "st_min ?s \<le> st_avg ?s" "st_avg ?s \<le> st_max ?s"
      using snoc False by auto
    have pos: "st_min ?s \<noteq> 0" using IH(2) False snoc.prems Min_in [of "set ls"] by fastforce
    have mm: "Min (set (ls @ [l])) = min l (Min (set ls))" "Max (set (ls @ [l])) = max l (Max (set ls))"
      using False by simp_all
    have "min l (st_min ?s) \<le> st_avg ?s + c_div (l - st_avg ?s) (st_delivered ?s + 1) \<and>
        st_avg ?s + c_div (l - st_avg ?s) (st_delivered ?s + 1) \<le> max l (st_max ?s)"
      by (rule average_between) (use IH in auto)
    then show ?thesis using IH pos unfolding mm
      by (simp add: update_stats_parts min_def max_def split del: if_split) (auto split: if_splits)
  qed
qed simp

text \<open>A value of more than 4192 bytes is sent from beyond the structure that holds it.\<close>

lemma client_value_overread:
  assumes "int (length junk) = MAX_VALUE_SIZE" "0 < cl_value_size c" "cl_value_size c \<le> MAX_VALUE_SIZE"
  shows "client_submit_value now rands junk bev c = Inl OutOfBounds \<longleftrightarrow> 4192 < cl_value_size c"
  using assms
  by (auto simp: client_submit_value_def random_string_def Let_def MAX_VALUE_SIZE_def timeval_bytes_def)

end
