(* ===== verification/CaceVariable.thy ===== *)
theory CaceVariable
  imports CaceSerialize
begin

text \<open>
  \<open>cace/src/variables/ConsensusVariable.cpp\<close>: a shared variable of the CACE middleware. An
  agent keeps its own belief and the last belief of every other agent (\<open>proposals\<close>); after a
  change it runs the acceptance function of the variable's strategy over the proposals and
  takes over the belief that wins. Proposals are consensus variables too, of which only the
  fields of \<open>belief\<close> are used. \<open>double\<close> values are 64-bit patterns, whose text
  (\<open>std::to_string\<close>) is a parameter; delegates are numbers, and \<open>notify\<close> returns the calls.
  Mutexes are not part of the model.
\<close>

section \<open>Constants\<close>

text \<open>A strategy may come from the \<open>int16\<close> field of a message, so it is a number.\<close>

definition NoDistribution :: int where "NoDistribution = 0"
definition FireAndForgetSet :: int where "FireAndForgetSet = 8"
definition FireAndForgetElection :: int where "FireAndForgetElection = 9"
definition FireAndForget :: int where "FireAndForget = 10"
definition TwoWayHandShakeSet :: int where "TwoWayHandShakeSet = 36"
definition TwoWayHandShakeElection :: int where "TwoWayHandShakeElection = 37"
definition TwoWayHandShakeMostRecent :: int where "TwoWayHandShakeMostRecent = 38"
definition TwoWayHandShakeLowestID :: int where "TwoWayHandShakeLowestID = 39"
definition TwoWayHandShake :: int where "TwoWayHandShake = 40"
definition ThreeWayHandShakeSet :: int where "ThreeWayHandShakeSet = 66"
definition ThreeWayHandShakeElection :: int where "ThreeWayHandShakeElection = 67"
definition ThreeWayHandShakeMostRecent :: int where "ThreeWayHandShakeMostRecent = 68"
definition ThreeWayHandShakeLowestID :: int where "ThreeWayHandShakeLowestID = 69"
definition ThreeWayHandShake :: int where "ThreeWayHandShake = 70"

lemmas strategy_codes =
  NoDistribution_def FireAndForgetSet_def FireAndForgetElection_def FireAndForget_def
  TwoWayHandShakeSet_def TwoWayHandShakeElection_def TwoWayHandShakeMostRecent_def
  TwoWayHandShakeLowestID_def TwoWayHandShake_def ThreeWayHandShakeSet_def
  ThreeWayHandShakeElection_def ThreeWayHandShakeMostRecent_def ThreeWayHandShakeLowestID_def
  ThreeWayHandShake_def

definition CDouble :: int where "CDouble = 1"
definition CInt :: int where "CInt = 2"
definition CString :: int where "CString = 3"
definition CLong :: int where "CLong = 5"
definition CDoubleList :: int where "CDoubleList = 10"
definition CIntList :: int where "CIntList = 20"
definition CStringList :: int where "CStringList = 30"
definition Custom :: int where "Custom = 254"

lemmas type_codes =
  CDouble_def CInt_def CString_def CLong_def CDoubleList_def CIntList_def CStringList_def Custom_def

text \<open>\<open>numeric_limits<long>::max()\<close> as an \<open>unsigned long\<close>, and the bits of \<open>numeric_limits<double>::min()\<close>.\<close>

definition long_max :: "64 word" where "long_max = 9223372036854775807"
definition double_min :: "64 word" where "double_min = 4503599627370496"

section \<open>The variable\<close>

datatype accept_fn = Default_accept | LowestID_accept | MostRecent_accept | Election_accept | List_accept

record belief =
  cv_hasValue :: bool
  cv_val :: "byte list"
  cv_name :: string
  cv_type :: int
  cv_robotID :: int
  cv_arrivalTime :: "64 word"
  cv_decissionTime :: "64 word"
  cv_validityTime :: "64 word"
  cv_lamportAge :: "64 word"
  cv_strategy :: int
  cv_acceptFunction :: accept_fn
  cv_changeNotify :: "nat list"

record cvar = belief +
  cv_proposals :: "belief list"

definition setAcceptStrategy :: "int \<Rightarrow> 'a belief_scheme \<Rightarrow> 'a belief_scheme" where
  "setAcceptStrategy s v = v\<lparr>
     cv_acceptFunction :=
       (if s \<in> {ThreeWayHandShakeElection, TwoWayHandShakeElection, FireAndForgetElection} then Election_accept
        else if s \<in> {ThreeWayHandShakeSet, TwoWayHandShakeSet, FireAndForgetSet} then List_accept
        else if s \<in> {ThreeWayHandShakeLowestID, TwoWayHandShakeLowestID} then LowestID_accept
        else if s \<in> {ThreeWayHandShakeMostRecent, TwoWayHandShakeMostRecent} then MostRecent_accept
        else Default_accept),
     cv_strategy := s\<rparr>"

definition belief_new ::
  "string \<Rightarrow> int \<Rightarrow> 64 word \<Rightarrow> int \<Rightarrow> 64 word \<Rightarrow> 64 word \<Rightarrow> int \<Rightarrow> belief" where
  "belief_new name strategy validity robot decission lamport ty =
     setAcceptStrategy strategy
       \<lparr>cv_hasValue = False, cv_val = [], cv_name = name, cv_type = ty, cv_robotID = robot,
        cv_arrivalTime = decission, cv_decissionTime = decission, cv_validityTime = validity,
        cv_lamportAge = lamport, cv_strategy = strategy, cv_acceptFunction = Default_accept,
        cv_changeNotify = []\<rparr>"

text \<open>The constructor: no value, no proposals, the arrival time is the decision time.\<close>

definition cvar_of :: "belief \<Rightarrow> belief list \<Rightarrow> cvar" where
  "cvar_of b ps = belief.extend b \<lparr>cv_proposals = ps\<rparr>"

definition ConsensusVariable ::
  "string \<Rightarrow> int \<Rightarrow> 64 word \<Rightarrow> int \<Rightarrow> 64 word \<Rightarrow> 64 word \<Rightarrow> int \<Rightarrow> cvar" where
  "ConsensusVariable name strategy validity robot decission lamport ty =
     cvar_of (belief_new name strategy validity robot decission lamport ty) []"

text \<open>The copy constructor takes everything but the registered delegates.\<close>

definition ConsensusVariable_copy :: "cvar \<Rightarrow> cvar" where
  "ConsensusVariable_copy v =
     (setAcceptStrategy (cv_strategy v)
       \<lparr>cv_hasValue = cv_hasValue v, cv_val = cv_val v, cv_name = cv_name v, cv_type = cv_type v,
        cv_robotID = cv_robotID v, cv_arrivalTime = cv_arrivalTime v,
        cv_decissionTime = cv_decissionTime v, cv_validityTime = cv_validityTime v,
        cv_lamportAge = cv_lamportAge v, cv_strategy = cv_strategy v,
        cv_acceptFunction = Default_accept, cv_changeNotify = [], cv_proposals = cv_proposals v\<rparr>)"

definition cv_update :: "belief \<Rightarrow> 'a belief_scheme \<Rightarrow> 'a belief_scheme" where
  "cv_update w v =
     (let v = v\<lparr>cv_name := cv_name w, cv_arrivalTime := cv_arrivalTime w\<rparr>;
          v = setAcceptStrategy (cv_strategy w) v;
          v = (if cv_validityTime w \<noteq> long_max then v\<lparr>cv_validityTime := cv_validityTime w\<rparr> else v);
          v = (if cv_decissionTime w \<noteq> long_max then v\<lparr>cv_decissionTime := cv_decissionTime w\<rparr> else v);
          v = v\<lparr>cv_lamportAge := cv_lamportAge w\<rparr>;
          v = (if cv_type w \<noteq> 0 then v\<lparr>cv_type := cv_type w\<rparr> else v);
          v = v\<lparr>cv_val := cv_val w\<rparr>;
          v = v\<lparr>cv_hasValue := (cv_val v \<noteq> [])\<rparr>
      in v\<lparr>cv_changeNotify := cv_changeNotify v @ cv_changeNotify w\<rparr>)"

definition setValue_bytes :: "byte list \<Rightarrow> 'a belief_scheme \<Rightarrow> 'a belief_scheme" where
  "setValue_bytes x v = v\<lparr>cv_val := x, cv_hasValue := (x \<noteq> [])\<rparr>"

definition notify :: "cvar \<Rightarrow> (nat \<times> cvar) list" where
  "notify v = map (\<lambda>del. (del, v)) (cv_changeNotify v)"

section \<open>Comparing beliefs\<close>

text \<open>The loop of \<open>valueEqual\<close> over the indices of \<open>val\<close>.\<close>

function bytes_equal_from :: "byte list \<Rightarrow> byte list \<Rightarrow> nat \<Rightarrow> bool" where
  "bytes_equal_from xs ys i =
     (if i < length xs then (if xs ! i \<noteq> ys ! i then False else bytes_equal_from xs ys (i + 1)) else True)"
  by pat_completeness auto
termination by (relation "measure (\<lambda>(xs, ys, i). length xs - i)") auto

declare bytes_equal_from.simps [simp del]

definition valueEqual :: "'a belief_scheme \<Rightarrow> byte list option \<Rightarrow> bool" where
  "valueEqual v cmp =
     (case cmp of
        None \<Rightarrow> \<not> cv_hasValue v
      | Some ys \<Rightarrow>
          if \<not> cv_hasValue v then False
          else if length (cv_val v) \<noteq> length ys then False
          else bytes_equal_from (cv_val v) ys 0)"

definition believeEqual :: "'a belief_scheme \<Rightarrow> 'b belief_scheme \<Rightarrow> bool" where
  "believeEqual this v =
     (valueEqual this (Some (cv_val v)) \<and> cv_type v = cv_type this \<and>
      cv_validityTime v = cv_validityTime this \<and> cv_decissionTime v = cv_decissionTime this)"

definition isAcknowledged :: "int list \<Rightarrow> cvar \<Rightarrow> bool" where
  "isAcknowledged active v =
     (if length (cv_proposals v) < length active then False
      else list_all (\<lambda>p. \<not> cv_lamportAge v > cv_lamportAge p) (cv_proposals v))"

definition checkConflict :: "int list \<Rightarrow> cvar \<Rightarrow> bool" where
  "checkConflict active v =
     list_ex (\<lambda>p. list_ex (\<lambda>i. i = cv_robotID p \<and> \<not> valueEqual v (Some (cv_val p))) active) (cv_proposals v)"

definition isAgreed :: "int list \<Rightarrow> cvar \<Rightarrow> bool" where
  "isAgreed active v = (isAcknowledged active v \<and> \<not> checkConflict active v)"

text \<open>\<open>std::string::find_last_of\<close> for one character.\<close>

fun find_last_of :: "char \<Rightarrow> string \<Rightarrow> nat option" where
  "find_last_of c [] = None"
| "find_last_of c (x # xs) =
     (case find_last_of c xs of Some i \<Rightarrow> Some (i + 1) | None \<Rightarrow> if x = c then Some 0 else None)"

definition getScope :: "'a belief_scheme \<Rightarrow> string" where
  "getScope v = (case find_last_of (CHR ''/'') (cv_name v) of
     None \<Rightarrow> ''/''
   | Some idx \<Rightarrow> take idx (cv_name v) @ ''/'')"

section \<open>Typed values\<close>

text \<open>
  The overloads of \<open>setValue\<close> and \<open>getValue\<close>, with the object they serialize. \<open>None\<close> is the
  result false, with the out parameter not written.
\<close>

type_synonym room_fn = "ser_type \<Rightarrow> nat \<Rightarrow> bool"

definition setValue_ser :: "int \<Rightarrow> ser_val \<Rightarrow> 'a belief_scheme \<Rightarrow> 'a belief_scheme outcome" where
  "setValue_ser ty x v =
     bindE (serialize x []) (\<lambda>bs. Inr (v\<lparr>cv_val := bs, cv_hasValue := True, cv_type := ty\<rparr>))"

definition getValue_ser :: "room_fn \<Rightarrow> int \<Rightarrow> ser_type \<Rightarrow> 'a belief_scheme \<Rightarrow> ser_val option outcome" where
  "getValue_ser room ty t v =
     (if cv_type v = ty then bindE (deserialize room t (cv_val v)) (\<lambda>x. Inr (Some x)) else Inr None)"

definition word_pod :: "nat \<Rightarrow> 'a::len word \<Rightarrow> ser_val" where
  "word_pod k w = Pod (le_bytes k (unat w))"

fun pod_word :: "ser_val \<Rightarrow> 'a::len word" where
  "pod_word (Pod bs) = word_of_nat (le_nat bs)"
| "pod_word _ = 0"

fun str_bytes :: "ser_val \<Rightarrow> byte list" where
  "str_bytes (Str bs) = bs"
| "str_bytes _ = []"

fun vec_elems :: "ser_val \<Rightarrow> ser_val list" where
  "vec_elems (Vec vs) = vs"
| "vec_elems _ = []"

definition omap :: "('a \<Rightarrow> 'b) \<Rightarrow> 'a option outcome \<Rightarrow> 'b option outcome" where
  "omap f m = bindE m (\<lambda>x. Inr (map_option f x))"

definition setValue_double :: "64 word \<Rightarrow> 'a belief_scheme \<Rightarrow> 'a belief_scheme outcome" where
  "setValue_double x = setValue_ser CDouble (word_pod 8 x)"
definition getValue_double :: "room_fn \<Rightarrow> 'a belief_scheme \<Rightarrow> 64 word option outcome" where
  "getValue_double room v = omap pod_word (getValue_ser room CDouble (T_pod 8) v)"

definition setValue_int :: "32 word \<Rightarrow> 'a belief_scheme \<Rightarrow> 'a belief_scheme outcome" where
  "setValue_int x = setValue_ser CInt (word_pod 4 x)"
definition getValue_int :: "room_fn \<Rightarrow> 'a belief_scheme \<Rightarrow> 32 word option outcome" where
  "getValue_int room v = omap pod_word (getValue_ser room CInt (T_pod 4) v)"

definition setValue_long :: "64 word \<Rightarrow> 'a belief_scheme \<Rightarrow> 'a belief_scheme outcome" where
  "setValue_long x = setValue_ser CLong (word_pod 8 x)"
definition getValue_long :: "room_fn \<Rightarrow> 'a belief_scheme \<Rightarrow> 64 word option outcome" where
  "getValue_long room v = omap pod_word (getValue_ser room CLong (T_pod 8) v)"

definition setValue_string :: "byte list \<Rightarrow> 'a belief_scheme \<Rightarrow> 'a belief_scheme outcome" where
  "setValue_string x = setValue_ser CString (Str x)"
definition getValue_string :: "room_fn \<Rightarrow> 'a belief_scheme \<Rightarrow> byte list option outcome" where
  "getValue_string room v = omap str_bytes (getValue_ser room CString T_string v)"

definition setValue_doubles :: "64 word list \<Rightarrow> 'a belief_scheme \<Rightarrow> 'a belief_scheme outcome" where
  "setValue_doubles xs = setValue_ser CDoubleList (Vec (map (word_pod 8) xs))"
definition getValue_doubles :: "room_fn \<Rightarrow> 'a belief_scheme \<Rightarrow> 64 word list option outcome" where
  "getValue_doubles room v =
     omap (map pod_word \<circ> vec_elems) (getValue_ser room CDoubleList (T_vector (T_pod 8)) v)"

definition setValue_ints :: "32 word list \<Rightarrow> 'a belief_scheme \<Rightarrow> 'a belief_scheme outcome" where
  "setValue_ints xs = setValue_ser CIntList (Vec (map (word_pod 4) xs))"
definition getValue_ints :: "room_fn \<Rightarrow> 'a belief_scheme \<Rightarrow> 32 word list option outcome" where
  "getValue_ints room v =
     omap (map pod_word \<circ> vec_elems) (getValue_ser room CIntList (T_vector (T_pod 4)) v)"

definition setValue_strings :: "byte list list \<Rightarrow> 'a belief_scheme \<Rightarrow> 'a belief_scheme outcome" where
  "setValue_strings xs = setValue_ser CStringList (Vec (map Str xs))"
definition getValue_strings :: "room_fn \<Rightarrow> 'a belief_scheme \<Rightarrow> byte list list option outcome" where
  "getValue_strings room v =
     omap (map str_bytes \<circ> vec_elems) (getValue_ser room CStringList (T_vector T_string) v)"

text \<open>The template for other types does not set \<open>hasValue\<close>.\<close>

definition setValue_custom :: "ser_val \<Rightarrow> 'a belief_scheme \<Rightarrow> 'a belief_scheme outcome" where
  "setValue_custom x v =
     bindE (serialize x []) (\<lambda>bs. Inr (v\<lparr>cv_val := bs, cv_type := Custom\<rparr>))"
definition getValue_custom :: "room_fn \<Rightarrow> ser_type \<Rightarrow> 'a belief_scheme \<Rightarrow> ser_val option outcome" where
  "getValue_custom room t v = getValue_ser room Custom t v"

section \<open>Acceptance\<close>

text \<open>
  An acceptance function gets the current winner (\<open>None\<close> is the variable itself) and a
  proposal and tells whether the winner stays. A commanded value is stored first.
\<close>

definition winner_view :: "cvar \<Rightarrow> belief option \<Rightarrow> belief" where
  "winner_view this w = (case w of None \<Rightarrow> belief.truncate this | Some p \<Rightarrow> p)"

definition take_commanded :: "byte list option \<Rightarrow> cvar \<Rightarrow> cvar" where
  "take_commanded cmd this = (case cmd of None \<Rightarrow> this | Some x \<Rightarrow> setValue_bytes x this)"

definition defaultAcceptStrategy :: "cvar \<Rightarrow> belief option \<Rightarrow> belief \<Rightarrow> byte list option \<Rightarrow> cvar \<times> bool" where
  "defaultAcceptStrategy this w lt cmd =
     (let this = take_commanded cmd this; gt = winner_view this w
      in (this, cv_lamportAge gt > cv_lamportAge lt \<or>
                (cv_lamportAge gt = cv_lamportAge lt \<and> cv_robotID gt > cv_robotID lt)))"

definition lowestIDAcceptStrategy :: "cvar \<Rightarrow> belief option \<Rightarrow> belief \<Rightarrow> byte list option \<Rightarrow> cvar \<times> bool" where
  "lowestIDAcceptStrategy this w lt cmd =
     (let this = take_commanded cmd this; gt = winner_view this w
      in (this, \<not> (cv_hasValue lt \<and> cv_robotID lt < cv_robotID gt)))"

definition mostRecentAcceptStrategy :: "cvar \<Rightarrow> belief option \<Rightarrow> belief \<Rightarrow> byte list option \<Rightarrow> cvar \<times> bool" where
  "mostRecentAcceptStrategy this w lt cmd =
     (let this = take_commanded cmd this; gt = winner_view this w
      in (this, \<not> (cv_hasValue lt \<and> cv_decissionTime gt < cv_decissionTime lt)))"

text \<open>\<open>setValue(numeric_limits<double>::min())\<close>: the eight bytes of the number.\<close>

definition electionAcceptStrategy :: "cvar \<Rightarrow> cvar \<times> bool" where
  "electionAcceptStrategy this =
     (if \<not> cv_hasValue this
      then (this\<lparr>cv_val := le_bytes 8 (unat double_min), cv_hasValue := True, cv_type := CDouble\<rparr>, True)
      else (this, True))"

text \<open>The loop that should look for new data has no body, so \<open>newest\<close> stays the variable.\<close>

definition listAcceptStrategy :: "cvar \<Rightarrow> byte list option \<Rightarrow> cvar \<times> bool" where
  "listAcceptStrategy this cmd = (take_commanded cmd this, False)"

definition accept_call :: "cvar \<Rightarrow> belief option \<Rightarrow> belief \<Rightarrow> byte list option \<Rightarrow> cvar \<times> bool" where
  "accept_call this w lt cmd =
     (case cv_acceptFunction this of
        Default_accept \<Rightarrow> defaultAcceptStrategy this w lt cmd
      | LowestID_accept \<Rightarrow> lowestIDAcceptStrategy this w lt cmd
      | MostRecent_accept \<Rightarrow> mostRecentAcceptStrategy this w lt cmd
      | Election_accept \<Rightarrow> electionAcceptStrategy this
      | List_accept \<Rightarrow> listAcceptStrategy this cmd)"

fun accept_loop :: "cvar \<Rightarrow> belief option \<Rightarrow> byte list option \<Rightarrow> belief list \<Rightarrow> cvar \<times> belief option" where
  "accept_loop this w cmd [] = (this, w)"
| "accept_loop this w cmd (p # ps) =
     (let (this, stays) = accept_call this w p cmd
      in accept_loop this (if stays then w else Some p) cmd ps)"

text \<open>The result is the variable, the returned flag and the calls of delegates.\<close>

definition acceptProposals ::
  "byte list option \<Rightarrow> cvar \<Rightarrow> cvar \<times> bool \<times> (nat \<times> cvar) list" where
  "acceptProposals cmd this =
     (let (this, w) = accept_loop this None cmd (cv_proposals this);
          this = (case w of None \<Rightarrow> this | Some p \<Rightarrow> cv_update p this);
          ret = False
      in (this, ret, notify this))"

section \<open>Text\<close>

fun join_bar :: "string list \<Rightarrow> string" where
  "join_bar [] = []"
| "join_bar [x] = x"
| "join_bar (x # xs) = x @ ''|'' @ join_bar xs"

definition bytes_string :: "byte list \<Rightarrow> string" where
  "bytes_string = map (\<lambda>b. char_of (unat b))"

definition or_no_conversion :: "string option outcome \<Rightarrow> string outcome" where
  "or_no_conversion m = bindE m (\<lambda>r. Inr (case r of None \<Rightarrow> '' [No Conversion] '' | Some x \<Rightarrow> x))"

definition valueAsString :: "(64 word \<Rightarrow> string) \<Rightarrow> room_fn \<Rightarrow> 'a belief_scheme \<Rightarrow> string outcome" where
  "valueAsString fmt room v =
     (if \<not> cv_hasValue v then Inr '' ''
      else if cv_type v = CDouble
      then or_no_conversion (omap (\<lambda>t. fmt t @ ''d'') (getValue_double room v))
      else if cv_type v = CInt
      then or_no_conversion (omap (\<lambda>t. int_to_string (sint t) @ ''i'') (getValue_int room v))
      else if cv_type v = CLong
      then or_no_conversion (omap (\<lambda>t. int_to_string (sint t) @ ''l'') (getValue_long room v))
      else if cv_type v = CString
      then or_no_conversion (omap bytes_string (getValue_string room v))
      else if cv_type v = CIntList
      then or_no_conversion (omap (\<lambda>l. ''il('' @ join_bar (map (int_to_string \<circ> sint) l) @ '')'') (getValue_ints room v))
      else if cv_type v = CDoubleList
      then or_no_conversion (omap (\<lambda>l. ''dl('' @ join_bar (map fmt l) @ '')'') (getValue_doubles room v))
      else if cv_type v = CStringList
      then or_no_conversion (omap (\<lambda>l. ''sl('' @ join_bar (map bytes_string l) @ '')'') (getValue_strings room v))
      else Inr '' [No Conversion] '')"

primrec proposals_string :: "(64 word \<Rightarrow> string) \<Rightarrow> room_fn \<Rightarrow> belief list \<Rightarrow> string outcome" where
  "proposals_string fmt room [] = Inr []"
| "proposals_string fmt room (p # ps) =
     bindE (valueAsString fmt room p) (\<lambda>t. bindE (proposals_string fmt room ps) (\<lambda>r.
       Inr ('' ('' @ int_to_string (cv_robotID p) @ ''-'' @ t @ '')'' @ r)))"

definition cvar_toString :: "(64 word \<Rightarrow> string) \<Rightarrow> room_fn \<Rightarrow> cvar \<Rightarrow> string outcome" where
  "cvar_toString fmt room v =
     bindE (valueAsString fmt room v) (\<lambda>t.
     bindE (if cv_proposals v = [] then Inr [CHR 0x09]
            else bindE (proposals_string fmt room (cv_proposals v)) (\<lambda>ps. Inr (CHR 0x09 # ''{'' @ ps @ '' }''))) (\<lambda>ps.
       Inr (cv_name v @ [CHR 0x09] @ t @ ps @
            CHR 0x09 # ''Age: '' @ nat_to_string (unat (cv_lamportAge v)) @
            CHR 0x09 # ''Type: '' @ int_to_string (cv_type v) @
            CHR 0x09 # ''ValidityTime: '' @ nat_to_string (unat (cv_validityTime v)))))"

section \<open>Lemmas\<close>

lemma bytes_equal_from_iff:
  "length xs = length ys \<Longrightarrow> i \<le> length xs \<Longrightarrow> bytes_equal_from xs ys i \<longleftrightarrow> drop i xs = drop i ys"
proof (induction xs ys i rule: bytes_equal_from.induct)
  case (1 xs ys i)
  show ?case
  proof (cases "i < length xs")
    case True
    then have "drop i xs = xs ! i # drop (Suc i) xs" "drop i ys = ys ! i # drop (Suc i) ys"
      using 1(2) by (simp_all add: Cons_nth_drop_Suc)
    then show ?thesis using True 1 by (subst bytes_equal_from.simps) auto
  next
    case False
    then show ?thesis using 1(2,3) by (subst bytes_equal_from.simps) simp
  qed
qed

lemma valueEqual_iff:
  "valueEqual v None \<longleftrightarrow> \<not> cv_hasValue v"
  "valueEqual v (Some x) \<longleftrightarrow> cv_hasValue v \<and> cv_val v = x"
  by (auto simp: valueEqual_def bytes_equal_from_iff)

lemma setAcceptStrategy_simps [simp]:
  "cv_hasValue (setAcceptStrategy s v) = cv_hasValue v" "cv_val (setAcceptStrategy s v) = cv_val v"
  "cv_name (setAcceptStrategy s v) = cv_name v" "cv_type (setAcceptStrategy s v) = cv_type v"
  "cv_robotID (setAcceptStrategy s v) = cv_robotID v"
  "cv_arrivalTime (setAcceptStrategy s v) = cv_arrivalTime v"
  "cv_decissionTime (setAcceptStrategy s v) = cv_decissionTime v"
  "cv_validityTime (setAcceptStrategy s v) = cv_validityTime v"
  "cv_lamportAge (setAcceptStrategy s v) = cv_lamportAge v" "cv_strategy (setAcceptStrategy s v) = s"
  "cv_changeNotify (setAcceptStrategy s v) = cv_changeNotify v"
  "belief.more (setAcceptStrategy s v) = belief.more v"
  by (simp_all add: setAcceptStrategy_def)

lemma setAcceptStrategy_proposals [simp]:
  "cv_proposals (setAcceptStrategy s v) = cv_proposals (v :: cvar)"
  by (cases v) (simp add: setAcceptStrategy_def)

lemma cv_update_simps [simp]:
  "cv_val (cv_update w v) = cv_val w" "cv_hasValue (cv_update w v) = (cv_val w \<noteq> [])"
  "cv_lamportAge (cv_update w v) = cv_lamportAge w" "cv_robotID (cv_update w v) = cv_robotID v"
  "cv_name (cv_update w v) = cv_name w" "cv_strategy (cv_update w v) = cv_strategy w"
  "cv_decissionTime (cv_update w v) =
     (if cv_decissionTime w \<noteq> long_max then cv_decissionTime w else cv_decissionTime v)"
  "cv_validityTime (cv_update w v) =
     (if cv_validityTime w \<noteq> long_max then cv_validityTime w else cv_validityTime v)"
  "cv_proposals (cv_update w u) = cv_proposals (u :: cvar)"
  by (simp_all add: cv_update_def Let_def)

subsection \<open>Typed values\<close>

lemma setValue_ser_get:
  assumes "fits room x t" and "length (encoding x) < 2 ^ 64"
  shows "setValue_ser ty x v = Inr (v\<lparr>cv_val := encoding x, cv_hasValue := True, cv_type := ty\<rparr>)"
    and "getValue_ser room ty t (v\<lparr>cv_val := encoding x, cv_hasValue := True, cv_type := ty\<rparr>) = Inr (Some x)"
  using assms getsD(1) [OF deserialize_helper_gets [OF assms(1)], of "[]"]
  by (simp_all add: setValue_ser_def getValue_ser_def serialize_appends deserialize_def)

lemma pod_word_pod [simp]:
  assumes "LENGTH('a) = 8 * k"
  shows "pod_word (word_pod k w) = (w :: 'a::len word)"
proof -
  have "unat w < 2 ^ LENGTH('a)" by (rule unsigned_less)
  also have "(2::nat) ^ LENGTH('a) = 256 ^ k" by (simp add: assms power_mult)
  finally show ?thesis by (simp add: word_pod_def le_nat_le_bytes)
qed

lemma fits_word_pod [simp]: "fits room (word_pod k w) t = (t = T_pod k)"
  by (simp add: word_pod_def)

lemma encoding_word_pod [simp]: "length (encoding (word_pod k w)) = k"
  by (simp add: word_pod_def)

lemma length_encoding_pods: "length (encoding (Vec (map (word_pod k) ws))) = 8 + k * length ws"
  by (simp add: length_concat comp_def sum_list_triv)

lemma length_encoding_vec: "length vs \<le> length (encoding (Vec (map Str vs)))"
  by (induction vs) simp_all

subsection \<open>The loop over the proposals\<close>

text \<open>Whether the winner stays, by strategy, for a variable that needs no default value.\<close>

definition stays :: "accept_fn \<Rightarrow> belief \<Rightarrow> belief \<Rightarrow> bool" where
  "stays fn gt lt =
     (case fn of
        Default_accept \<Rightarrow> cv_lamportAge gt > cv_lamportAge lt \<or>
          (cv_lamportAge gt = cv_lamportAge lt \<and> cv_robotID gt > cv_robotID lt)
      | LowestID_accept \<Rightarrow> \<not> (cv_hasValue lt \<and> cv_robotID lt < cv_robotID gt)
      | MostRecent_accept \<Rightarrow> \<not> (cv_hasValue lt \<and> cv_decissionTime gt < cv_decissionTime lt)
      | Election_accept \<Rightarrow> True
      | List_accept \<Rightarrow> False)"

fun winner_of :: "('b \<Rightarrow> 'b \<Rightarrow> bool) \<Rightarrow> 'b \<Rightarrow> 'b list \<Rightarrow> 'b" where
  "winner_of keep g [] = g"
| "winner_of keep g (p # ps) = winner_of keep (if keep g p then g else p) ps"

lemma winner_of_in: "winner_of keep g ps \<in> insert g (set ps)"
proof (induction ps arbitrary: g)
  case (Cons p ps)
  then show ?case using Cons.IH [of g] Cons.IH [of p] by auto
qed simp

lemma winner_of_best:
  assumes refl: "\<And>x. le x x" and trans: "\<And>x y z. le x y \<Longrightarrow> le y z \<Longrightarrow> le x z"
    and keep: "\<And>g p. if keep g p then le p g else le g p"
  shows "x \<in> insert g (set ps) \<Longrightarrow> le x (winner_of keep g ps)"
proof (induction ps arbitrary: g x)
  case Nil
  then show ?case by (simp add: refl)
next
  case (Cons p ps)
  define g' where "g' = (if keep g p then g else p)"
  have "le g g'" "le p g'" using keep [of g p] refl by (auto simp: g'_def)
  moreover have "le y (winner_of keep g' ps)" if "y \<in> insert g' (set ps)" for y
    using Cons.IH [OF that] .
  ultimately show ?case using Cons.prems trans by (fastforce simp: g'_def [symmetric])
qed

lemma winner_of_filter:
  "(\<And>g p. \<not> P p \<Longrightarrow> keep g p) \<Longrightarrow> winner_of keep g ps = winner_of keep g (filter P ps)"
  by (induction ps arbitrary: g) auto

lemma accept_call_stays:
  assumes "cv_acceptFunction this = Election_accept \<longrightarrow> cv_hasValue this"
  shows "accept_call this w p None = (this, stays (cv_acceptFunction this) (winner_view this w) p)"
  using assms
  by (simp add: accept_call_def stays_def defaultAcceptStrategy_def lowestIDAcceptStrategy_def
      mostRecentAcceptStrategy_def electionAcceptStrategy_def listAcceptStrategy_def take_commanded_def
      Let_def split: accept_fn.split)

lemma accept_loop_stays:
  assumes ok: "cv_acceptFunction this = Election_accept \<longrightarrow> cv_hasValue this"
  shows "\<exists>w'. accept_loop this w None ps = (this, w') \<and>
    winner_view this w' = winner_of (stays (cv_acceptFunction this)) (winner_view this w) ps"
proof (induction ps arbitrary: w)
  case (Cons p ps)
  define w1 where "w1 = (if stays (cv_acceptFunction this) (winner_view this w) p then w else Some p)"
  have "winner_view this w1 =
      (if stays (cv_acceptFunction this) (winner_view this w) p then winner_view this w else p)"
    by (simp add: w1_def winner_view_def)
  moreover from Cons.IH [of w1] obtain w' where "accept_loop this w1 None ps = (this, w')"
    and "winner_view this w' = winner_of (stays (cv_acceptFunction this)) (winner_view this w1) ps" by blast
  ultimately show ?case by (simp add: accept_call_stays [OF ok] w1_def)
qed simp

definition own_belief :: "cvar \<Rightarrow> belief" where
  "own_belief v = belief.truncate v"

lemma own_belief_simps [simp]:
  "cv_val (own_belief v) = cv_val v" "cv_hasValue (own_belief v) = cv_hasValue v"
  "cv_lamportAge (own_belief v) = cv_lamportAge v" "cv_robotID (own_belief v) = cv_robotID v"
  "cv_decissionTime (own_belief v) = cv_decissionTime v"
  by (simp_all add: own_belief_def belief.truncate_def)

text \<open>The belief that wins, and what the variable takes from it.\<close>

definition accepted_belief :: "cvar \<Rightarrow> belief" where
  "accepted_belief v = winner_of (stays (cv_acceptFunction v)) (own_belief v) (cv_proposals v)"

lemma accept_loop_in: "snd (accept_loop t x c ps) \<in> insert x (Some ` set ps)"
proof (induction ps arbitrary: t x)
  case (Cons p ps)
  obtain t1 b where c: "accept_call t x p c = (t1, b)" by force
  show ?case using Cons.IH [of t1 x] Cons.IH [of t1 "Some p"] by (auto simp: c)
qed simp

lemma acceptProposals_takes:
  assumes ok: "cv_acceptFunction v = Election_accept \<longrightarrow> cv_hasValue v"
  shows "fst (acceptProposals None v) = v \<and> accepted_belief v = own_belief v \<or>
    accepted_belief v \<in> set (cv_proposals v) \<and>
    fst (acceptProposals None v) = cv_update (accepted_belief v) v"
proof -
  from accept_loop_stays [OF ok] obtain w where
    l: "accept_loop v None None (cv_proposals v) = (v, w)"
    and w: "winner_view v w = accepted_belief v"
    unfolding accepted_belief_def own_belief_def winner_view_def by fastforce
  have mem: "w = Some p \<Longrightarrow> p \<in> set (cv_proposals v)" for p
    using accept_loop_in [of v None None "cv_proposals v"] l by auto
  show ?thesis using l w mem
    by (cases w) (auto simp: acceptProposals_def winner_view_def own_belief_def Let_def)
qed

lemma acceptProposals_value:
  assumes "cv_acceptFunction v = Election_accept \<longrightarrow> cv_hasValue v"
  shows "cv_val (fst (acceptProposals None v)) = cv_val (accepted_belief v)"
    and "cv_lamportAge (fst (acceptProposals None v)) = cv_lamportAge (accepted_belief v)"
  using acceptProposals_takes [OF assms] by auto

lemma accepted_belief_in: "accepted_belief v \<in> insert (own_belief v) (set (cv_proposals v))"
  unfolding accepted_belief_def by (rule winner_of_in)

definition newer :: "belief \<Rightarrow> belief \<Rightarrow> bool" where
  "newer x y = (cv_lamportAge x < cv_lamportAge y \<or>
     (cv_lamportAge x = cv_lamportAge y \<and> cv_robotID x \<le> cv_robotID y))"

lemma default_newest:
  assumes "cv_acceptFunction v = Default_accept" and "x \<in> insert (own_belief v) (set (cv_proposals v))"
  shows "newer x (accepted_belief v)"
  unfolding accepted_belief_def
proof (rule winner_of_best [where le = newer])
  show "newer x x" for x by (simp add: newer_def)
  show "newer x z" if "newer x y" "newer y z" for x y z using that by (auto simp: newer_def)
  show "if stays (cv_acceptFunction v) g p then newer p g else newer g p" for g p
    using assms(1) by (auto simp: stays_def newer_def not_less)
qed (rule assms(2))

text \<open>
  Among the proposals with a value and the variable itself, the strategies for the lowest id
  and for the most recent decision choose by one field.
\<close>

lemma stays_by_key:
  assumes keep: "\<And>g p. cv_hasValue p \<Longrightarrow> stays fn g p = (\<not> key p < key g)"
    and ignore: "\<And>g p. \<not> cv_hasValue p \<Longrightarrow> stays fn g p"
    and x: "x \<in> insert g (set ps)" and val: "x = g \<or> cv_hasValue x"
  shows "(key (winner_of (stays fn) g ps) :: 'k::linorder) \<le> key x"
proof -
  define ps' where "ps' = filter cv_hasValue ps"
  have cong: "winner_of f g qs = winner_of h g qs"
    if "\<And>g p. p \<in> set qs \<Longrightarrow> f g p = h g p" for f h g and qs :: "belief list"
    using that by (induction qs arbitrary: g) simp_all
  have "winner_of (stays fn) g ps = winner_of (stays fn) g ps'"
    unfolding ps'_def by (rule winner_of_filter) (rule ignore)
  also have "\<dots> = winner_of (\<lambda>g p. \<not> key p < key g) g ps'"
    by (rule cong) (simp add: ps'_def keep)
  finally have w: "winner_of (stays fn) g ps = winner_of (\<lambda>g p. \<not> key p < key g) g ps'" .
  have "x \<in> insert g (set ps')" using x val by (auto simp: ps'_def)
  then show ?thesis
    unfolding w by (intro winner_of_best [where le = "\<lambda>x y. key y \<le> key x"]) auto
qed

lemma winner_has_value:
  assumes ignore: "\<And>g p. \<not> cv_hasValue p \<Longrightarrow> stays fn g p"
  shows "winner_of (stays fn) g ps \<noteq> g \<Longrightarrow> cv_hasValue (winner_of (stays fn) g ps)"
  using winner_of_in [of "stays fn" g "filter cv_hasValue ps"]
    winner_of_filter [of cv_hasValue "stays fn" g ps] ignore by auto

lemma typed_values:
  assumes room: "\<And>t n. n \<le> m \<Longrightarrow> room t n" and m: "m < 2 ^ 60"
    and s: "length s \<le> m" "length ds \<le> m" "length is \<le> m" "length (encoding (Vec (map Str ss))) \<le> m"
  shows "bindE (setValue_double d v) (getValue_double room) = Inr (Some d)"
    and "bindE (setValue_int i v) (getValue_int room) = Inr (Some i)"
    and "bindE (setValue_long l v) (getValue_long room) = Inr (Some l)"
    and "bindE (setValue_string s v) (getValue_string room) = Inr (Some s)"
    and "bindE (setValue_doubles ds v) (getValue_doubles room) = Inr (Some ds)"
    and "bindE (setValue_ints is v) (getValue_ints room) = Inr (Some is)"
    and "bindE (setValue_strings ss v) (getValue_strings room) = Inr (Some ss)"
proof -
  have len: "length x < 2 ^ 64" if "length x \<le> m" for x :: "'x list" using that m by simp
  have rt: "bindE (setValue_ser ty x v) (\<lambda>v. omap f (getValue_ser room ty t v)) = Inr (Some (f x))"
    if "fits room x t" "length (encoding x) < 2 ^ 64" for ty t x and f :: "ser_val \<Rightarrow> 'y"
    using setValue_ser_get [OF that, of ty v] by (simp add: omap_def)
  show "bindE (setValue_double d v) (getValue_double room) = Inr (Some d)"
    using rt [of "word_pod 8 d" "T_pod 8" CDouble "pod_word :: ser_val \<Rightarrow> 64 word"]
    by (simp add: setValue_double_def getValue_double_def [abs_def])
  show "bindE (setValue_int i v) (getValue_int room) = Inr (Some i)"
    using rt [of "word_pod 4 i" "T_pod 4" CInt "pod_word :: ser_val \<Rightarrow> 32 word"]
    by (simp add: setValue_int_def getValue_int_def [abs_def])
  show "bindE (setValue_long l v) (getValue_long room) = Inr (Some l)"
    using rt [of "word_pod 8 l" "T_pod 8" CLong "pod_word :: ser_val \<Rightarrow> 64 word"]
    by (simp add: setValue_long_def getValue_long_def [abs_def])
  show "bindE (setValue_string s v) (getValue_string room) = Inr (Some s)"
    using rt [of "Str s" T_string CString str_bytes] s m room
    by (simp add: setValue_string_def getValue_string_def [abs_def])
  show "bindE (setValue_doubles ds v) (getValue_doubles room) = Inr (Some ds)"
    using rt [of "Vec (map (word_pod 8) ds)" "T_vector (T_pod 8)" CDoubleList "map (pod_word :: ser_val \<Rightarrow> 64 word) \<circ> vec_elems"]
      s m room length_encoding_pods [of 8 ds]
    by (simp add: setValue_doubles_def getValue_doubles_def [abs_def] list_all_iff comp_def)
  show "bindE (setValue_ints is v) (getValue_ints room) = Inr (Some is)"
    using rt [of "Vec (map (word_pod 4) is)" "T_vector (T_pod 4)" CIntList "map (pod_word :: ser_val \<Rightarrow> 32 word) \<circ> vec_elems"]
      s m room length_encoding_pods [of 4 "is"]
    by (simp add: setValue_ints_def getValue_ints_def [abs_def] list_all_iff comp_def)
  have "length x \<le> m" if "x \<in> set ss" for x
  proof -
    have "length x \<le> length (encoding (Vec (map Str ss)))" using that by (induction ss) auto
    then show ?thesis using s(4) by simp
  qed
  then have "\<forall>x \<in> set ss. length x < 2 ^ 64 \<and> room (T_pod 1) (length x)"
    using len room by blast
  then show "bindE (setValue_strings ss v) (getValue_strings room) = Inr (Some ss)"
    using rt [of "Vec (map Str ss)" "T_vector T_string" CStringList "map str_bytes \<circ> vec_elems"]
      s(4) m room length_encoding_vec [of ss]
    by (simp add: setValue_strings_def getValue_strings_def [abs_def] list_all_iff comp_def)
qed

section \<open>Properties\<close>

text \<open>
  Every overload of \<open>setValue\<close> stores a value that the matching \<open>getValue\<close> reads back
  unchanged: 64-bit and 32-bit integers, doubles (bit for bit), strings, and lists of them.
\<close>

theorem typed_values_roundtrip:
  assumes "\<And>t n. n \<le> m \<Longrightarrow> room t n" and "m < 2 ^ 60"
    and "length s \<le> m" "length ds \<le> m" "length is \<le> m" "length (encoding (Vec (map Str ss))) \<le> m"
  shows "bindE (setValue_double d v) (getValue_double room) = Inr (Some d) \<and>
    bindE (setValue_int i v) (getValue_int room) = Inr (Some i) \<and>
    bindE (setValue_long l v) (getValue_long room) = Inr (Some l) \<and>
    bindE (setValue_string s v) (getValue_string room) = Inr (Some s) \<and>
    bindE (setValue_doubles ds v) (getValue_doubles room) = Inr (Some ds) \<and>
    bindE (setValue_ints is v) (getValue_ints room) = Inr (Some is) \<and>
    bindE (setValue_strings ss v) (getValue_strings room) = Inr (Some ss)"
  by (intro conjI typed_values [where room = room and m = m, OF assms])

definition demo_belief :: "int \<Rightarrow> 64 word \<Rightarrow> byte list \<Rightarrow> belief" where
  "demo_belief robot age x =
     setValue_bytes x (belief_new ''x'' ThreeWayHandShake 100 robot 5 age CInt)"

definition demo_cvar :: "int \<Rightarrow> 64 word \<Rightarrow> byte list \<Rightarrow> belief list \<Rightarrow> cvar" where
  "demo_cvar robot age x ps = cvar_of (demo_belief robot age x) ps"

lemmas demo_defs = demo_cvar_def demo_belief_def cvar_of_def belief_new_def setValue_bytes_def
  setAcceptStrategy_def belief.defs cvar.defs

theorem typed_values_roundtrip_witness:
  "bindE (setValue_doubles [0, double_min] (demo_cvar 1 0 [] [])) (getValue_doubles (\<lambda>_ n. n < 1000)) = Inr (Some [0, double_min])"
  using typed_values_roundtrip [of 50 "\<lambda>_ n. n < 1000" "[]" "[0, double_min]" "[]" "[]" _ "demo_cvar 1 0 [] []"]
  by (simp add: size_bytes_def)

text \<open>
  C29. \<open>isAgreed\<close>: if the variable has a value and its proposals come from different active agents,
  it is agreed exactly when every active agent is known to hold the same value with at
  least the same Lamport age.
\<close>

theorem agreed_iff_all_agents_agree:
  assumes val: "cv_hasValue v" and act: "distinct active"
    and ids: "distinct (map cv_robotID (cv_proposals v))" "cv_robotID ` set (cv_proposals v) \<subseteq> set active"
  shows "isAgreed active v \<longleftrightarrow>
    (\<forall>i \<in> set active. \<exists>p \<in> set (cv_proposals v).
       cv_robotID p = i \<and> cv_lamportAge v \<le> cv_lamportAge p \<and> cv_val p = cv_val v)"
    (is "_ \<longleftrightarrow> ?all")
proof -
  have card: "card (cv_robotID ` set (cv_proposals v)) = length (cv_proposals v)"
    using distinct_card [OF ids(1)] by simp
  have full: "length active \<le> length (cv_proposals v) \<longleftrightarrow> cv_robotID ` set (cv_proposals v) = set active"
    using card distinct_card [OF act] ids(2) card_subset_eq [OF _ ids(2)] card_mono [OF _ ids(2)]
    by (auto simp: le_antisym)
  have uniq: "p = q" if "p \<in> set (cv_proposals v)" "q \<in> set (cv_proposals v)" "cv_robotID p = cv_robotID q" for p q
    using ids(1) that by (auto simp: distinct_map dest: inj_onD)
  have "isAgreed active v \<longleftrightarrow> cv_robotID ` set (cv_proposals v) = set active \<and>
      (\<forall>p \<in> set (cv_proposals v). cv_lamportAge v \<le> cv_lamportAge p \<and> cv_val p = cv_val v)"
    using full ids(2) val
    by (auto simp: isAgreed_def isAcknowledged_def checkConflict_def list_all_iff list_ex_iff
        valueEqual_iff not_le not_less; force)
  also have "\<dots> \<longleftrightarrow> ?all"
  proof
    assume a: ?all
    then have "set active \<subseteq> cv_robotID ` set (cv_proposals v)" by auto
    moreover have "cv_lamportAge v \<le> cv_lamportAge p \<and> cv_val p = cv_val v" if p: "p \<in> set (cv_proposals v)" for p
    proof -
      have "cv_robotID p \<in> set active" using ids(2) p by auto
      with a obtain q where "q \<in> set (cv_proposals v)" "cv_robotID q = cv_robotID p"
        "cv_lamportAge v \<le> cv_lamportAge q" "cv_val q = cv_val v" by blast
      moreover from this have "p = q" using uniq [OF p] by simp
      ultimately show ?thesis by simp
    qed
    ultimately show "cv_robotID ` set (cv_proposals v) = set active \<and>
        (\<forall>p \<in> set (cv_proposals v). cv_lamportAge v \<le> cv_lamportAge p \<and> cv_val p = cv_val v)"
      using ids(2) by blast
  next
    assume a: "cv_robotID ` set (cv_proposals v) = set active \<and>
        (\<forall>p \<in> set (cv_proposals v). cv_lamportAge v \<le> cv_lamportAge p \<and> cv_val p = cv_val v)"
    show ?all
    proof
      fix i assume "i \<in> set active"
      then obtain p where "p \<in> set (cv_proposals v)" "cv_robotID p = i" using a by (metis imageE)
      then show "\<exists>p \<in> set (cv_proposals v). cv_robotID p = i \<and>
          cv_lamportAge v \<le> cv_lamportAge p \<and> cv_val p = cv_val v" using a by auto
    qed
  qed
  finally show ?thesis .
qed

theorem agreed_iff_all_agents_agree_witness:
  "isAgreed [2, 3] (demo_cvar 1 7 [5] [demo_belief 3 7 [5], demo_belief 2 8 [5]])"
  by (subst agreed_iff_all_agents_agree) (simp_all add: demo_defs)

definition belief_key :: "belief \<Rightarrow> 64 word \<times> int \<times> byte list" where
  "belief_key b = (cv_lamportAge b, cv_robotID b, cv_val b)"

definition seen_beliefs :: "cvar \<Rightarrow> (64 word \<times> int \<times> byte list) set" where
  "seen_beliefs v = belief_key ` insert (own_belief v) (set (cv_proposals v))"

lemma accepted_key_in: "belief_key (accepted_belief v) \<in> seen_beliefs v"
  unfolding seen_beliefs_def by (rule imageI) (rule accepted_belief_in)

lemma accepted_key_best:
  assumes "cv_acceptFunction v = Default_accept" and "(a, i, x) \<in> seen_beliefs v"
  shows "a < cv_lamportAge (accepted_belief v) \<or>
    a = cv_lamportAge (accepted_belief v) \<and> i \<le> cv_robotID (accepted_belief v)"
proof -
  from assms(2) obtain b where "b \<in> insert (own_belief v) (set (cv_proposals v))"
    "(a, i, x) = belief_key b"
    unfolding seen_beliefs_def by blast
  then have "newer b (accepted_belief v)" "a = cv_lamportAge b" "i = cv_robotID b"
    using default_newest [OF assms(1)] by (simp_all add: belief_key_def)
  then show ?thesis by (simp add: newer_def)
qed

text \<open>
  C28. The default strategy makes agents converge: two variables whose agents have seen the same
  beliefs (their own and the received ones, as triples of Lamport age, robot id and value) hold
  the same value with the same age after one call of \<open>acceptProposals\<close>, whatever the order of
  the proposals, provided that no robot has two values of one age among them. The value is that
  of the belief with the greatest age, and of equal ages that of the greatest robot id.
\<close>

theorem default_strategy_converges:
  assumes fn: "cv_acceptFunction v = Default_accept" "cv_acceptFunction u = Default_accept"
    and same: "seen_beliefs v = seen_beliefs u"
    and one: "\<And>a i x y. (a, i, x) \<in> seen_beliefs v \<Longrightarrow> (a, i, y) \<in> seen_beliefs v \<Longrightarrow> x = y"
    and v': "v' = fst (acceptProposals None v)" and u': "u' = fst (acceptProposals None u)"
  shows "cv_val v' = cv_val u' \<and> cv_lamportAge v' = cv_lamportAge u' \<and>
    (\<exists>w. (cv_lamportAge v', w, cv_val v') \<in> seen_beliefs v \<and>
      (\<forall>(a, i, x) \<in> seen_beliefs v. a < cv_lamportAge v' \<or> a = cv_lamportAge v' \<and> i \<le> w))"
proof -
  let ?v = "accepted_belief v" and ?u = "accepted_belief u"
  have in_v: "(cv_lamportAge ?v, cv_robotID ?v, cv_val ?v) \<in> seen_beliefs v"
    using accepted_key_in [of v] by (simp add: belief_key_def)
  have in_u: "(cv_lamportAge ?u, cv_robotID ?u, cv_val ?u) \<in> seen_beliefs v"
    using accepted_key_in [of u] by (simp add: belief_key_def same)
  have key: "cv_lamportAge ?v = cv_lamportAge ?u \<and> cv_robotID ?v = cv_robotID ?u"
    using accepted_key_best [OF fn(1) in_u] accepted_key_best [OF fn(2) in_v [unfolded same]]
    by (auto intro: antisym)
  have val: "cv_val ?v = cv_val ?u"
    by (rule one [OF in_v]) (use in_u key in simp)
  have res: "cv_val v' = cv_val ?v" "cv_lamportAge v' = cv_lamportAge ?v"
    "cv_val u' = cv_val ?u" "cv_lamportAge u' = cv_lamportAge ?u"
    using acceptProposals_value [of v] acceptProposals_value [of u] by (simp_all add: fn v' u')
  show ?thesis
    unfolding res using in_v accepted_key_best [OF fn(1)] key val by blast
qed

theorem default_strategy_converges_witness:
  "cv_val (fst (acceptProposals None (demo_cvar 1 5 [1] [demo_belief 2 5 [2], demo_belief 3 4 [3]]))) =
   cv_val (fst (acceptProposals None (demo_cvar 2 5 [2] [demo_belief 3 4 [3], demo_belief 1 5 [1]])))"
proof -
  let ?v = "demo_cvar 1 5 [1] [demo_belief 2 5 [2], demo_belief 3 4 [3]]"
  let ?u = "demo_cvar 2 5 [2] [demo_belief 3 4 [3], demo_belief 1 5 [1]]"
  have s: "seen_beliefs ?v = {(5, 1, [1]), (5, 2, [2]), (4, 3, [3])}"
    "seen_beliefs ?u = {(5, 1, [1]), (5, 2, [2]), (4, 3, [3])}"
    by (auto simp: seen_beliefs_def belief_key_def own_belief_def demo_defs)
  show ?thesis
    by (rule default_strategy_converges [THEN conjunct1, OF _ _ _ _ refl refl])
      (auto simp: s, simp_all add: demo_defs strategy_codes)
qed

text \<open>
  The lowest-id and most-recent strategies take the value of a belief with the lowest robot
  id, respectively the latest decision time, among the variable itself and the proposals
  that have a value.
\<close>

theorem keyed_strategies_choose_best:
  assumes w: "w = accepted_belief v"
  shows "(cv_acceptFunction v = LowestID_accept \<longrightarrow>
      cv_val (fst (acceptProposals None v)) = cv_val w \<and>
      (w = own_belief v \<or> w \<in> set (cv_proposals v) \<and> cv_hasValue w) \<and>
      cv_robotID w \<le> cv_robotID v \<and>
      (\<forall>p \<in> set (cv_proposals v). cv_hasValue p \<longrightarrow> cv_robotID w \<le> cv_robotID p)) \<and>
    (cv_acceptFunction v = MostRecent_accept \<longrightarrow>
      cv_val (fst (acceptProposals None v)) = cv_val w \<and>
      (w = own_belief v \<or> w \<in> set (cv_proposals v) \<and> cv_hasValue w) \<and>
      cv_decissionTime v \<le> cv_decissionTime w \<and>
      (\<forall>p \<in> set (cv_proposals v). cv_hasValue p \<longrightarrow> cv_decissionTime p \<le> cv_decissionTime w))"
proof (intro conjI impI ballI)
  assume fn: "cv_acceptFunction v = LowestID_accept"
  show "cv_val (fst (acceptProposals None v)) = cv_val w"
    unfolding w by (rule acceptProposals_value) (simp add: fn)
  show "w = own_belief v \<or> w \<in> set (cv_proposals v) \<and> cv_hasValue w"
    using accepted_belief_in [of v] winner_has_value [of LowestID_accept "own_belief v" "cv_proposals v"]
    by (auto simp: w accepted_belief_def fn stays_def)
  have best: "cv_robotID w \<le> cv_robotID x"
    if "x \<in> insert (own_belief v) (set (cv_proposals v))" "x = own_belief v \<or> cv_hasValue x" for x
    unfolding w accepted_belief_def fn
    by (rule stays_by_key [where key = cv_robotID, OF _ _ that]) (simp_all add: stays_def)
  show "cv_robotID w \<le> cv_robotID v" using best [of "own_belief v"] by simp
  fix p assume "p \<in> set (cv_proposals v)" "cv_hasValue p"
  then show "cv_robotID w \<le> cv_robotID p" using best [of p] by simp
next
  assume fn: "cv_acceptFunction v = MostRecent_accept"
  show "cv_val (fst (acceptProposals None v)) = cv_val w"
    unfolding w by (rule acceptProposals_value) (simp add: fn)
  show "w = own_belief v \<or> w \<in> set (cv_proposals v) \<and> cv_hasValue w"
    using accepted_belief_in [of v] winner_has_value [of MostRecent_accept "own_belief v" "cv_proposals v"]
    by (auto simp: w accepted_belief_def fn stays_def)
  have best: "- uint (cv_decissionTime w) \<le> - uint (cv_decissionTime x)"
    if "x \<in> insert (own_belief v) (set (cv_proposals v))" "x = own_belief v \<or> cv_hasValue x" for x
    unfolding w accepted_belief_def fn
    by (rule stays_by_key [where key = "\<lambda>b. - uint (cv_decissionTime b)", OF _ _ that])
      (simp_all add: stays_def word_less_def)
  show "cv_decissionTime v \<le> cv_decissionTime w" using best [of "own_belief v"] by (simp add: word_le_def)
  fix p assume "p \<in> set (cv_proposals v)" "cv_hasValue p"
  then show "cv_decissionTime p \<le> cv_decissionTime w" using best [of p] by (simp add: word_le_def)
qed

theorem keyed_strategies_choose_best_witness:
  "cv_val (fst (acceptProposals None ((demo_cvar 3 1 [3] [demo_belief 2 0 [2], demo_belief 1 0 []])
     \<lparr>cv_acceptFunction := LowestID_accept\<rparr>))) = [2]"
proof -
  let ?v = "(demo_cvar 3 1 [3] [demo_belief 2 0 [2], demo_belief 1 0 []])\<lparr>cv_acceptFunction := LowestID_accept\<rparr>"
  have "cv_val (fst (acceptProposals None ?v)) = cv_val (accepted_belief ?v)"
    using keyed_strategies_choose_best [of "accepted_belief ?v" ?v] by simp
  also have "cv_val (accepted_belief ?v) = [2]" by code_simp
  finally show ?thesis .
qed

text \<open>The list strategy takes the last proposal, whatever it holds.\<close>

lemma list_strategy_takes_last:
  assumes "cv_acceptFunction v = List_accept" and "cv_proposals v \<noteq> []"
  shows "cv_val (fst (acceptProposals None v)) = cv_val (last (cv_proposals v))"
proof -
  have "ps \<noteq> [] \<Longrightarrow> winner_of (stays List_accept) g ps = last ps" for g ps
    by (induction ps arbitrary: g) (auto simp: stays_def)
  then show ?thesis using assms acceptProposals_value(1) [of v] by (simp add: accepted_belief_def)
qed

text \<open>\<open>acceptProposals\<close> never reports that it changed the variable.\<close>

lemma acceptProposals_returns_false: "fst (snd (acceptProposals cmd v)) = False"
  by (simp add: acceptProposals_def Let_def split: prod.split)

text \<open>
  A variable that got a value of a custom type counts as having none: it is equal to no
  belief, is printed as empty, and two such variables are not equal even to themselves.
\<close>

lemma custom_value_without_value:
  assumes "setValue_custom x v = Inr u" and "\<not> cv_hasValue v"
  shows "\<not> believeEqual u u \<and> valueAsString fmt room u = Inr '' ''"
  using assms by (cases "serialize x []") (auto simp: setValue_custom_def believeEqual_def valueEqual_iff valueAsString_def)

text \<open>
  Only the number of proposals is compared with the number of active agents: with the
  proposal of an agent that is no longer active, a variable counts as acknowledged although
  the active agent has not answered.
\<close>

lemma inactive_agent_acknowledges:
  "isAgreed [2] (demo_cvar 1 7 [5] [demo_belief 3 7 [9]])"
  by (simp add: isAgreed_def isAcknowledged_def checkConflict_def demo_defs)

end
