(* ===== verification/CaceStore.thy ===== *)
theory CaceStore
  imports CaceVariable SortedMap "HOL-Library.List_Lexorder" "HOL-Library.Char_ord"
begin

text \<open>
  \<open>cace/src/variableStore/CVariableStore.cpp\<close>: the variables of an agent, by name, and the
  responses to its requests. A \<open>std::map<string, ...>\<close> is an association list that is kept
  in the order of its keys, in which the code iterates over it; it implements the interface
  \<open>finite_map\<close>. A variable that is changed through a shared pointer is changed in the map.
\<close>

section \<open>The store\<close>

record var_store =
  vs_store :: "(string, cvar) smap"
  vs_responses :: "cvar list"

definition CVariableStore :: var_store where
  "CVariableStore = \<lparr>vs_store = [], vs_responses = []\<rparr>"

definition addVariable :: "var_store \<Rightarrow> cvar \<Rightarrow> var_store \<times> bool" where
  "addVariable s var =
     (if smap_get (vs_store s) (cv_name var) = None
      then (s\<lparr>vs_store := smap_put (vs_store s) (cv_name var) var\<rparr>, True)
      else (s, False))"

definition addResponse :: "var_store \<Rightarrow> cvar \<Rightarrow> var_store" where
  "addResponse s var = s\<lparr>vs_responses := vs_responses s @ [var]\<rparr>"

definition existsVariable :: "var_store \<Rightarrow> string \<Rightarrow> bool" where
  "existsVariable s name = (smap_get (vs_store s) name \<noteq> None)"

definition existsResponse :: "var_store \<Rightarrow> string \<Rightarrow> bool" where
  "existsResponse s name = list_ex (\<lambda>v. cv_name v = name) (vs_responses s)"

definition deleteVariable :: "var_store \<Rightarrow> string \<Rightarrow> var_store" where
  "deleteVariable s name =
     (if smap_get (vs_store s) name \<noteq> None then s\<lparr>vs_store := smap_erase (vs_store s) name\<rparr> else s)"

text \<open>The loop of \<open>deleteResponse\<close>: after an \<open>erase\<close> the index is still incremented.\<close>

function delete_responses :: "string \<Rightarrow> cvar list \<Rightarrow> nat \<Rightarrow> cvar list" where
  "delete_responses name rs i =
     (if i < length rs
      then (let v = rs ! i
            in if cv_name v = name then delete_responses name (take i rs @ drop (i + 1) rs) (i + 1)
               else delete_responses name rs (i + 1))
      else rs)"
  by pat_completeness auto
termination by (relation "measure (\<lambda>(name, rs, i). length rs - i)") auto

declare delete_responses.simps [simp del]

definition deleteResponse :: "var_store \<Rightarrow> string \<Rightarrow> var_store" where
  "deleteResponse s name = s\<lparr>vs_responses := delete_responses name (vs_responses s) 0\<rparr>"

definition getVariable :: "var_store \<Rightarrow> string \<Rightarrow> cvar option" where
  "getVariable s name = smap_get (vs_store s) name"

fun take_response :: "string \<Rightarrow> cvar list \<Rightarrow> cvar option \<times> cvar list" where
  "take_response name [] = (None, [])"
| "take_response name (v # rs) =
     (if cv_name v = name then (Some v, rs)
      else (case take_response name rs of (r, rs) \<Rightarrow> (r, v # rs)))"

definition getResponse :: "var_store \<Rightarrow> string \<Rightarrow> var_store \<times> cvar option" where
  "getResponse s name =
     (case take_response name (vs_responses s) of (r, rs) \<Rightarrow> (s\<lparr>vs_responses := rs\<rparr>, r))"

definition deleteAllVariables :: "var_store \<Rightarrow> var_store" where
  "deleteAllVariables s = s\<lparr>vs_store := []\<rparr>"

section \<open>Updates for an agent, expiry and text\<close>

text \<open>The age of the first proposal of the agent, 0 without one.\<close>

fun last_known_update :: "int \<Rightarrow> belief list \<Rightarrow> 64 word" where
  "last_known_update ident [] = 0"
| "last_known_update ident (c # cs) =
     (if cv_robotID c = ident then cv_lamportAge c else last_known_update ident cs)"

definition needs_update :: "int \<Rightarrow> string \<Rightarrow> cvar \<Rightarrow> bool" where
  "needs_update ident scope var =
     (take (length (getScope var)) scope = getScope var \<and> cv_hasValue var \<and>
      last_known_update ident (cv_proposals var) < cv_lamportAge var \<and> cv_strategy var > FireAndForget)"

text \<open>
  \<open>sendBelieveUpdates\<close> returns the arguments of the jobs that are created: the variable, its
  value, the receivers and the Lamport time.
\<close>

fun send_updates :: "int \<Rightarrow> string \<Rightarrow> 64 word \<Rightarrow> (string, cvar) smap \<Rightarrow> (cvar \<times> byte list \<times> int list \<times> 64 word) list" where
  "send_updates ident scope lamport [] = []"
| "send_updates ident scope lamport ((_, var) # m) =
     (if needs_update ident scope var then [(var, cv_val var, [ident], lamport)] else []) @
     send_updates ident scope lamport m"

definition sendBelieveUpdates ::
  "var_store \<Rightarrow> int \<Rightarrow> string \<Rightarrow> 64 word \<Rightarrow> (cvar \<times> byte list \<times> int list \<times> 64 word) list" where
  "sendBelieveUpdates s ident scope lamport = send_updates ident scope lamport (vs_store s)"

text \<open>\<open>invalidate\<close> reads the clock again for every variable: \<open>clock i\<close> is the \<open>i\<close>-th reading.\<close>

fun invalidate_from :: "(nat \<Rightarrow> 64 word) \<Rightarrow> nat \<Rightarrow> (string, cvar) smap \<Rightarrow> (string, cvar) smap" where
  "invalidate_from clock i [] = []"
| "invalidate_from clock i ((k, var) # m) =
     (k, if cv_validityTime var < clock i then var\<lparr>cv_hasValue := False\<rparr> else var) #
     invalidate_from clock (i + 1) m"

definition invalidate :: "(nat \<Rightarrow> 64 word) \<Rightarrow> var_store \<Rightarrow> var_store" where
  "invalidate clock s = s\<lparr>vs_store := invalidate_from clock 0 (vs_store s)\<rparr>"

primrec entries_string ::
  "(cvar \<Rightarrow> string outcome) \<Rightarrow> (string \<Rightarrow> string) \<Rightarrow> cvar list \<Rightarrow> string outcome" where
  "entries_string show wrap [] = Inr []"
| "entries_string show wrap (v # vs) =
     bindE (show v) (\<lambda>t. bindE (entries_string show wrap vs) (\<lambda>r. Inr (wrap t @ r)))"

definition store_toString :: "(64 word \<Rightarrow> string) \<Rightarrow> room_fn \<Rightarrow> var_store \<Rightarrow> string outcome" where
  "store_toString fmt room s =
     bindE (entries_string (cvar_toString fmt room) (\<lambda>t. t @ [CHR 0x0A]) (map snd (vs_store s))) (\<lambda>r.
       Inr (''Entries: '' @ nat_to_string (length (vs_store s)) @ CHR 0x0A # r))"

definition store_toStringNoNewLine :: "(64 word \<Rightarrow> string) \<Rightarrow> room_fn \<Rightarrow> var_store \<Rightarrow> string outcome" where
  "store_toStringNoNewLine fmt room s =
     bindE (entries_string (cvar_toString fmt room) (\<lambda>t. ''> '' @ t @ '' <'' @ [CHR 0x09]) (map snd (vs_store s))) (\<lambda>r.
       Inr (''Entries: '' @ nat_to_string (length (vs_store s)) @ CHR 0x09 # r))"

definition store_toString_scope ::
  "(64 word \<Rightarrow> string) \<Rightarrow> room_fn \<Rightarrow> var_store \<Rightarrow> string \<Rightarrow> string outcome" where
  "store_toString_scope fmt room s scope =
     entries_string (cvar_toString fmt room) (\<lambda>t. t @ [CHR 0x0A])
       (filter (\<lambda>v. getScope v = scope) (map snd (vs_store s)))"


section \<open>Lemmas\<close>

text \<open>The names under which the variables are kept are their names.\<close>

definition store_wf :: "var_store \<Rightarrow> bool" where
  "store_wf s = (smap_wf (vs_store s) \<and> (\<forall>(k, v) \<in> set (vs_store s). cv_name v = k))"

lemma set_smap_put_sub: "set (smap_put m k v) \<subseteq> insert (k, v) (set m)"
  by (induction m k v rule: smap_put.induct) auto

lemma store_wf_new [wf_intros]: "store_wf CVariableStore"
  by (simp add: store_wf_def CVariableStore_def smap_wf_def)

lemma store_wf_put:
  "store_wf s \<Longrightarrow> cv_name v = k \<Longrightarrow> store_wf (s\<lparr>vs_store := smap_put (vs_store s) k v\<rparr>)"
  using set_smap_put_sub [of "vs_store s" k v] by (fastforce simp: store_wf_def smap_wf_put)

lemma store_wf_add [wf_intros]: "store_wf s \<Longrightarrow> store_wf (fst (addVariable s v))"
  by (simp add: addVariable_def store_wf_put)

lemma store_wf_delete [wf_intros]: "store_wf s \<Longrightarrow> store_wf (deleteVariable s k)"
  using smap_wf_erase [of "vs_store s" k]
  by (auto simp: deleteVariable_def store_wf_def) (auto simp: smap_erase_def)

lemma store_wf_responses [wf_intros]:
  "store_wf s \<Longrightarrow> store_wf (addResponse s v)" "store_wf s \<Longrightarrow> store_wf (deleteResponse s k)"
  "store_wf s \<Longrightarrow> store_wf (fst (getResponse s k))"
  by (simp_all add: store_wf_def addResponse_def deleteResponse_def getResponse_def split: prod.split)

lemma invalidate_from_keys: "map fst (invalidate_from clock i m) = map fst m"
  by (induction clock i m rule: invalidate_from.induct) auto

lemma invalidate_from_nth:
  "j < length m \<Longrightarrow> invalidate_from clock i m ! j =
     (fst (m ! j), if cv_validityTime (snd (m ! j)) < clock (i + j)
                   then (snd (m ! j))\<lparr>cv_hasValue := False\<rparr> else snd (m ! j))"
proof (induction clock i m arbitrary: j rule: invalidate_from.induct)
  case (2 clock i k var m)
  then show ?case by (cases j) auto
qed simp

lemma length_invalidate_from [simp]: "length (invalidate_from clock i m) = length m"
  using invalidate_from_keys [of clock i m] by (metis length_map)

lemma store_wf_invalidate [wf_intros]: "store_wf s \<Longrightarrow> store_wf (invalidate clock s)"
  by (fastforce simp: store_wf_def invalidate_def smap_wf_def invalidate_from_keys in_set_conv_nth
      invalidate_from_nth split: prod.splits)

lemma getVariable_simps:
  "store_wf s \<Longrightarrow> getVariable (fst (addVariable s v)) k =
     (if k = cv_name v \<and> getVariable s k = None then Some v else getVariable s k)"
  "store_wf s \<Longrightarrow> getVariable (deleteVariable s n) k = (if k = n then None else getVariable s k)"
  by (auto simp: getVariable_def addVariable_def deleteVariable_def store_wf_def smap_get_put smap_get_erase)

lemma getVariable_name: "store_wf s \<Longrightarrow> getVariable s k = Some v \<Longrightarrow> cv_name v = k"
  by (auto simp: getVariable_def store_wf_def smap_get_in)

lemma send_updates_filter:
  "send_updates ident scope lamport m =
     map (\<lambda>v. (v, cv_val v, [ident], lamport)) (filter (needs_update ident scope) (map snd m))"
  by (induction ident scope lamport m rule: send_updates.induct) auto

lemma find_last_of_split:
  "CHR ''/'' \<notin> set b \<Longrightarrow> find_last_of (CHR ''/'') (a @ CHR ''/'' # b) = Some (length a)"
proof (induction a)
  case Nil
  then have "find_last_of (CHR ''/'') b = None" by (induction b) auto
  then show ?case by simp
qed simp

lemma getScope_path:
  "cv_name v = a @ CHR ''/'' # b \<Longrightarrow> CHR ''/'' \<notin> set b \<Longrightarrow> getScope v = a @ ''/''"
  by (simp add: getScope_def find_last_of_split)

text \<open>Two neighbouring responses: the second is skipped.\<close>

lemma delete_responses_step:
  "delete_responses name (xs @ v # rs) (length xs) =
     (if cv_name v = name
      then (case rs of [] \<Rightarrow> xs | u # us \<Rightarrow> delete_responses name (xs @ u # us) (length xs + 1))
      else delete_responses name ((xs @ [v]) @ rs) (length (xs @ [v])))"
  by (subst delete_responses.simps)
    (auto simp: delete_responses.simps [of name xs "Suc (length xs)"] split: list.split)

lemma delete_responses_end: "delete_responses name xs (length xs) = xs"
  by (subst delete_responses.simps) simp

fun skip_delete :: "string \<Rightarrow> cvar list \<Rightarrow> cvar list" where
  "skip_delete name [] = []"
| "skip_delete name [v] = (if cv_name v = name then [] else [v])"
| "skip_delete name (v # u # rs) =
     (if cv_name v = name then u # skip_delete name rs else v # skip_delete name (u # rs))"

lemma delete_responses_skip:
  "delete_responses name (xs @ rs) (length xs) = xs @ skip_delete name rs"
proof (induction name rs arbitrary: xs rule: skip_delete.induct)
  case (1 name)
  show ?case using delete_responses_end [of name xs] by simp
next
  case (2 name v)
  show ?case using delete_responses_end [of name "xs @ [v]"]
    by (simp add: delete_responses_step [of name xs v "[]"])
next
  case (3 name v u rs)
  show ?case
  proof (cases "cv_name v = name")
    case True
    then show ?thesis using 3(1) [OF True, of "xs @ [u]"]
      by (simp add: delete_responses_step [of name xs v "u # rs"])
  next
    case False
    then show ?thesis using 3(2) [OF False, of "xs @ [v]"]
      by (simp add: delete_responses_step [of name xs v "u # rs"])
  qed
qed

section \<open>Properties\<close>

text \<open>
  When an agent joins, the updates that are sent to it are, in the order of the names, exactly
  those of the variables in scope that have a value and a strategy that is acknowledged, and of
  which the agent is not yet known to hold a belief of this age.
\<close>

theorem believe_updates_exact:
  assumes "store_wf s"
  shows "set (sendBelieveUpdates s ident scope lamport) =
     (\<lambda>var. (var, cv_val var, [ident], lamport)) `
       {var. getVariable s (cv_name var) = Some var \<and> needs_update ident scope var} \<and>
   sorted_wrt (<) (map (\<lambda>(var, _). cv_name var) (sendBelieveUpdates s ident scope lamport))"
proof
  have name: "cv_name v = k" if "(k, v) \<in> set (vs_store s)" for k v
    using assms that by (auto simp: store_wf_def)
  have wf: "smap_wf (vs_store s)" using assms by (simp add: store_wf_def)
  have "snd ` set (vs_store s) = {v. getVariable s (cv_name v) = Some v}"
    using name by (force simp: getVariable_def smap_get_in [OF wf])
  then show "set (sendBelieveUpdates s ident scope lamport) =
     (\<lambda>var. (var, cv_val var, [ident], lamport)) `
       {var. getVariable s (cv_name var) = Some var \<and> needs_update ident scope var}"
    by (simp add: sendBelieveUpdates_def send_updates_filter Collect_conj_eq Int_def [symmetric])
  have "map (cv_name \<circ> snd) (vs_store s) = map fst (vs_store s)"
    using name by (auto intro: map_cong)
  then have "sorted_wrt (<) (map cv_name (map snd (vs_store s)))"
    using wf by (simp add: smap_wf_def flip: map_map)
  then have "sorted_wrt (<) (map cv_name (filter P (map snd (vs_store s))))" for P
    by (simp add: sorted_wrt_map sorted_wrt_filter)
  then show "sorted_wrt (<) (map (\<lambda>(var, _). cv_name var) (sendBelieveUpdates s ident scope lamport))"
    by (simp add: sendBelieveUpdates_def send_updates_filter comp_def)
qed

definition demo_store :: var_store where
  "demo_store = fst (addVariable (fst (addVariable CVariableStore (demo_cvar 1 7 [5] [demo_belief 2 3 [5]])))
     ((demo_cvar 1 2 [6] [])\<lparr>cv_name := ''t/y''\<rparr>))"

lemma demo_store_wf: "store_wf demo_store"
  unfolding demo_store_def by (intro wf_intros)

theorem believe_updates_exact_witness:
  "map (\<lambda>(var, x, ids, _). (cv_name var, x, ids)) (sendBelieveUpdates demo_store 2 ''t/'' 9) = [(''t/y'', [6], [2])] \<and>
   sorted_wrt (<) (map (\<lambda>(var, _). cv_name var) (sendBelieveUpdates demo_store 2 ''t/'' 9))"
proof
  show "sorted_wrt (<) (map (\<lambda>(var, _). cv_name var) (sendBelieveUpdates demo_store 2 ''t/'' 9))"
    by (rule conjunct2 [OF believe_updates_exact [OF demo_store_wf]])
qed code_simp

text \<open>
  After \<open>invalidate\<close> no variable whose validity time is before the first reading of the clock
  has a value (the clock does not run backwards); a variable that is valid at every reading
  is unchanged, and no variable is added or removed.
\<close>

theorem invalidate_removes_expired:
  assumes "store_wf s" and clock: "\<And>i j. i \<le> j \<Longrightarrow> clock i \<le> clock j"
  shows "case (getVariable s k, getVariable (invalidate clock s) k) of
      (None, u) \<Rightarrow> u = None
    | (Some v, None) \<Rightarrow> False
    | (Some v, Some u) \<Rightarrow> (cv_hasValue u \<longrightarrow> clock 0 \<le> cv_validityTime u) \<and>
        u = v\<lparr>cv_hasValue := cv_hasValue u\<rparr> \<and> (cv_hasValue u \<longrightarrow> cv_hasValue v) \<and>
        ((\<forall>i. clock i \<le> cv_validityTime v) \<longrightarrow> u = v)"
proof -
  have wf: "smap_wf (vs_store s)" "smap_wf (invalidate_from clock 0 (vs_store s))"
    using assms(1) by (simp_all add: store_wf_def smap_wf_def invalidate_from_keys)
  have keys: "fst ` set (invalidate_from clock 0 (vs_store s)) = fst ` set (vs_store s)"
    by (metis invalidate_from_keys set_map)
  show ?thesis
  proof (cases "smap_get (vs_store s) k")
    case None
    then have "k \<notin> fst ` set (invalidate_from clock 0 (vs_store s))"
      unfolding keys by (simp add: smap_get_def map_of_eq_None_iff)
    then have "smap_get (invalidate_from clock 0 (vs_store s)) k = None"
      by (simp add: smap_get_def map_of_eq_None_iff)
    then show ?thesis using None by (simp add: getVariable_def invalidate_def)
  next
    case (Some v)
    then have "(k, v) \<in> set (vs_store s)" by (simp add: smap_get_in [OF wf(1)])
    then obtain j where j: "j < length (vs_store s)" "vs_store s ! j = (k, v)"
      by (auto simp: in_set_conv_nth)
    define u where "u = (if cv_validityTime v < clock j then v\<lparr>cv_hasValue := False\<rparr> else v)"
    have "invalidate_from clock 0 (vs_store s) ! j = (k, u)"
      using j by (simp add: invalidate_from_nth u_def)
    then have "(k, u) \<in> set (invalidate_from clock 0 (vs_store s))"
      using j(1) by (metis length_invalidate_from nth_mem)
    then have "smap_get (invalidate_from clock 0 (vs_store s)) k = Some u" by (simp add: smap_get_in [OF wf(2)])
    moreover have "clock 0 \<le> clock j" by (rule clock) simp
    moreover have "(\<forall>i. clock i \<le> cv_validityTime v) \<longrightarrow> u = v"
      using leD by (fastforce simp: u_def)
    ultimately show ?thesis using Some
      by (auto simp: getVariable_def invalidate_def u_def not_less split: if_splits intro: order_trans)
  qed
qed

theorem invalidate_removes_expired_witness:
  "case (getVariable demo_store ''x'', getVariable (invalidate (\<lambda>_. 200) demo_store) ''x'') of
      (None, u) \<Rightarrow> u = None
    | (Some v, None) \<Rightarrow> False
    | (Some v, Some u) \<Rightarrow> (cv_hasValue u \<longrightarrow> 200 \<le> cv_validityTime u) \<and>
        u = v\<lparr>cv_hasValue := cv_hasValue u\<rparr> \<and> (cv_hasValue u \<longrightarrow> cv_hasValue v) \<and>
        ((\<forall>i::nat. 200 \<le> cv_validityTime v) \<longrightarrow> u = v)"
  by (rule invalidate_removes_expired [OF demo_store_wf]) simp

text \<open>
  \<open>deleteResponse\<close> removes every response with the name if no two of them are neighbours; of
  \<open>n\<close> neighbouring ones it leaves half, since it skips the one after each that it removes.
\<close>

theorem deleteResponse_skips:
  "(\<forall>v \<in> set vs. cv_name v = name) \<longrightarrow>
     length (vs_responses (deleteResponse (s\<lparr>vs_responses := vs\<rparr>) name)) = length vs div 2"
proof
  have "length (skip_delete name vs) = length vs div 2" if "\<forall>v \<in> set vs. cv_name v = name"
    using that by (induction name vs rule: skip_delete.induct) simp_all
  moreover assume "\<forall>v \<in> set vs. cv_name v = name"
  ultimately show "length (vs_responses (deleteResponse (s\<lparr>vs_responses := vs\<rparr>) name)) = length vs div 2"
    using delete_responses_skip [of name "[]" vs] by (simp add: deleteResponse_def)
qed

theorem deleteResponse_skips_witness:
  "length (vs_responses (deleteResponse (demo_store\<lparr>vs_responses := [demo_cvar 1 0 [] [], demo_cvar 2 0 [] []]\<rparr>) ''x'')) = 1"
  using deleteResponse_skips [of "[demo_cvar 1 0 [] [], demo_cvar 2 0 [] []]" "''x''" demo_store]
  by (simp add: demo_defs)

lemma deleteResponse_all:
  assumes "\<And>i. Suc i < length (vs_responses s) \<Longrightarrow>
    \<not> (cv_name (vs_responses s ! i) = name \<and> cv_name (vs_responses s ! Suc i) = name)"
  shows "vs_responses (deleteResponse s name) = filter (\<lambda>v. cv_name v \<noteq> name) (vs_responses s)"
proof -
  have "skip_delete name vs = filter (\<lambda>v. cv_name v \<noteq> name) vs"
    if "\<And>i. Suc i < length vs \<Longrightarrow> \<not> (cv_name (vs ! i) = name \<and> cv_name (vs ! Suc i) = name)" for vs
    using that
  proof (induction name vs rule: skip_delete.induct)
    case (3 name v u rs)
    have tail: "\<not> (cv_name ((u # rs) ! i) = name \<and> cv_name ((u # rs) ! Suc i) = name)"
      if "Suc i < length (u # rs)" for i using 3(3) [of "Suc i"] that by simp
    have tail2: "\<not> (cv_name (rs ! i) = name \<and> cv_name (rs ! Suc i) = name)"
      if "Suc i < length rs" for i using tail [of "Suc i"] that by simp
    show ?case using 3(1) [OF _ tail2] 3(2) [OF _ tail] 3(3) [of 0] by simp
  qed simp_all
  then show ?thesis using delete_responses_skip [of name "[]" "vs_responses s"] assms
    by (simp add: deleteResponse_def)
qed

end
