(* ===== verification/CaceAgent.thy ===== *)
theory CaceAgent
  imports CaceStore
begin

text \<open>
  An agent of the CACE middleware: \<open>communication/CaceCommunication.cpp\<close> (message handlers and
  sending), \<open>communication/jobs/*.cpp\<close> and \<open>CommunicationWorker.cpp\<close> (the jobs that carry out a
  handshake, with their retries), and the parts of \<open>cace.cpp\<close>, \<open>caceSpace.cpp\<close> and
  \<open>TimeManager.cpp\<close> that drive them. An operation returns the agent and what it sent; the
  transport (ROS topics or multicast) is outside. One operation reads the clock once. What the
  time manager estimates for another agent is an argument. A \<open>NullPointer\<close> is a job whose
  variable does not exist.
\<close>

section \<open>Messages\<close>

text \<open>\<open>CaceCommand\<close>; \<open>CaceBelieveNotification\<close> has the same fields.\<close>

record cace_command =
  cc_senderID :: int
  cc_receiverID :: "int list"
  cc_variableName :: string
  cc_value :: "byte list"
  cc_decissionTime :: "64 word"
  cc_validityTime :: "64 word"
  cc_level :: int
  cc_msgID :: int
  cc_lamportTime :: "64 word"
  cc_type :: int

record cace_ack =
  ca_senderID :: int
  ca_receiverID :: "int list"
  ca_variableName :: string
  ca_value :: "byte list"
  ca_msgID :: int
  ca_lamportTime :: "64 word"
  ca_type :: int

record cace_short_ack =
  sa_senderID :: int
  sa_receiverID :: "int list"
  sa_variableName :: string
  sa_msgID :: int
  sa_lamportTime :: "64 word"

record cace_request =
  vr_senderID :: int
  vr_receiverID :: "int list"
  vr_variableName :: string
  vr_msgID :: int

record cace_time =
  ct_senderID :: int
  ct_localtime :: "64 word"
  ct_distributedTime :: "64 word"
  ct_lamportTime :: "64 word"

text \<open>What an agent does to the outside: one constructor per topic, and the calls of delegates.\<close>

datatype net_out =
    Out_command cace_command
  | Out_response cace_command
  | Out_write cace_command
  | Out_notification cace_command
  | Out_ack cace_ack
  | Out_short_ack cace_short_ack
  | Out_write_ack cace_short_ack
  | Out_request cace_request
  | Out_time cace_time
  | Call_delegate nat cvar

text \<open>Conversions to \<open>short\<close> and, through \<open>char\<close>, to the \<open>uint8\<close> of a message.\<close>

definition to_short :: "int \<Rightarrow> int" where
  "to_short i = sint (word_of_int i :: 16 word)"

definition to_uint8 :: "int \<Rightarrow> int" where
  "to_uint8 i = i mod 256"

section \<open>The agent\<close>

text \<open>The variable of a job: a shared pointer to an object of the store or to another one.\<close>

datatype var_ref = No_variable | In_store string | Detached cvar

record job_state =
  js_robotID :: int
  js_retrys :: int
  js_lastSent :: "64 word"

datatype job_kind =
    CommandJob
  | CommandAcknowledgeJob cace_command
  | BelieveNotificationJob
  | BelieveAcknowledgeJob cace_command
  | ShortAckJob cace_ack
  | WriteJob "cace_short_ack list"
  | WriteAckJob cace_command
  | RequestJob

text \<open>
  The members of a job. \<open>CommandAcknowledgeJob\<close> and \<open>BelieveAcknowledgeJob\<close> redeclare
  \<open>lamportTime\<close>, with 0, and use theirs; it is \<open>jb_lamportTime\<close> for these kinds.
\<close>

record job =
  jb_kind :: job_kind
  jb_name :: string
  jb_variable :: var_ref
  jb_expected :: "int list"
  jb_lamportTime :: "64 word"
  jb_startTime :: "64 word"
  jb_attempts :: int
  jb_msgID :: int
  jb_value :: "byte list"
  jb_entities :: "job_state list"
  jb_remaining :: int

record agent =
  ag_ownID :: int
  ag_lamport :: "64 word"
  ag_active :: "int list"
  ag_store :: var_store
  ag_jobs :: "job list"
  ag_remove :: "int list"
  ag_blacklist :: "int set"
  ag_commands :: "cace_command list"
  ag_notifications :: "cace_command list"
  ag_shortAcks :: "cace_short_ack list"
  ag_writeAcks :: "cace_short_ack list"
  ag_safeStep :: bool
  ag_quiet :: bool
  ag_scope :: "string list"

text \<open>
  What an operation reads from outside: the local and the distributed time, the estimated
  resend time per agent (\<open>None\<close> without a model of the agent), and the configuration.
\<close>

record cace_env =
  e_local :: "64 word"
  e_dist :: "64 word"
  e_estimate :: "int \<Rightarrow> 64 word option"
  e_maxResend :: "64 word"
  e_minResend :: "64 word"
  e_maxRetrys :: int

definition timeResolutionDevisor :: "64 word" where
  "timeResolutionDevisor = 1"

definition local_ticks :: "cace_env \<Rightarrow> 64 word" where
  "local_ticks env = e_local env div timeResolutionDevisor"

definition getEstimatedResendTime :: "cace_env \<Rightarrow> int \<Rightarrow> 64 word" where
  "getEstimatedResendTime env i =
     (case e_estimate env i of
        None \<Rightarrow> e_maxResend env
      | Some t \<Rightarrow> max (min (t div timeResolutionDevisor) (e_maxResend env)) (e_minResend env))"

definition Cace_init :: "int \<Rightarrow> agent" where
  "Cace_init own = \<lparr>ag_ownID = own, ag_lamport = 1, ag_active = [], ag_store = CVariableStore,
     ag_jobs = [], ag_remove = [], ag_blacklist = {own}, ag_commands = [], ag_notifications = [],
     ag_shortAcks = [], ag_writeAcks = [], ag_safeStep = False, ag_quiet = False, ag_scope = []\<rparr>"

text \<open>Sequencing of operations that may fail and that send.\<close>

type_synonym act = "agent \<Rightarrow> (agent \<times> net_out list) outcome"

definition skip :: act where
  "skip ag = Inr (ag, [])"

definition seq :: "act \<Rightarrow> act \<Rightarrow> act" where
  "seq f g ag = bindE (f ag) (\<lambda>(ag, os). bindE (g ag) (\<lambda>(ag, os'). Inr (ag, os @ os')))"

primrec for_each :: "('x \<Rightarrow> act) \<Rightarrow> 'x list \<Rightarrow> act" where
  "for_each f [] = skip"
| "for_each f (x # xs) = seq (f x) (for_each f xs)"

definition updateLamportTime :: "64 word \<Rightarrow> agent \<Rightarrow> agent" where
  "updateLamportTime seen ag = (if ag_lamport ag < seen then ag\<lparr>ag_lamport := seen + 1\<rparr> else ag)"

definition tick :: "agent \<Rightarrow> agent" where
  "tick ag = ag\<lparr>ag_lamport := ag_lamport ag + 1\<rparr>"

section \<open>Sending\<close>

definition command_of :: "agent \<Rightarrow> cvar \<Rightarrow> int \<Rightarrow> byte list \<Rightarrow> int \<Rightarrow> 64 word \<Rightarrow> cace_command" where
  "command_of ag cv msgID value receiver lamport =
     \<lparr>cc_senderID = ag_ownID ag, cc_receiverID = [receiver], cc_variableName = cv_name cv,
      cc_value = value, cc_decissionTime = cv_decissionTime cv, cc_validityTime = cv_validityTime cv,
      cc_level = to_short (cv_strategy cv), cc_msgID = msgID, cc_lamportTime = lamport,
      cc_type = to_uint8 (cv_type cv)\<rparr>"

definition sendCaceCommand_at :: "cvar \<Rightarrow> int \<Rightarrow> byte list \<Rightarrow> int \<Rightarrow> 64 word \<Rightarrow> act" where
  "sendCaceCommand_at cv msgID value receiver lamport ag =
     Inr (ag, [Out_command (command_of ag cv msgID value receiver lamport)])"

definition sendCaceCommand :: "cvar \<Rightarrow> int \<Rightarrow> byte list \<Rightarrow> int \<Rightarrow> act" where
  "sendCaceCommand cv msgID value receiver ag =
     (let ag = tick ag in sendCaceCommand_at cv msgID value receiver (ag_lamport ag) ag)"

definition sendCaceResponse_at :: "cvar \<Rightarrow> int \<Rightarrow> int \<Rightarrow> 64 word \<Rightarrow> act" where
  "sendCaceResponse_at cv msgID receiver lamport ag =
     Inr (ag, [Out_response (command_of ag cv msgID (cv_val cv) receiver lamport)])"

definition sendCaceResponse :: "cvar \<Rightarrow> int \<Rightarrow> int \<Rightarrow> act" where
  "sendCaceResponse cv msgID receiver ag =
     (let ag = tick ag in sendCaceResponse_at cv msgID receiver (ag_lamport ag) ag)"

definition sendWriteCommand_at :: "cvar \<Rightarrow> int \<Rightarrow> int \<Rightarrow> 64 word \<Rightarrow> act" where
  "sendWriteCommand_at cv msgID receiver lamport ag =
     Inr (ag, [Out_write (command_of ag cv msgID (cv_val cv) receiver lamport)])"

definition sendWriteCommand :: "cvar \<Rightarrow> int \<Rightarrow> int \<Rightarrow> act" where
  "sendWriteCommand cv msgID receiver ag =
     (let ag = tick ag in sendWriteCommand_at cv msgID receiver (ag_lamport ag) ag)"

text \<open>The parameters of \<open>sendCaceBelieveNotification\<close> are the receiver and then the message id.\<close>

definition sendCaceBelieveNotification_at :: "cvar \<Rightarrow> int \<Rightarrow> int \<Rightarrow> 64 word \<Rightarrow> act" where
  "sendCaceBelieveNotification_at cv receiverID msgID lamport ag =
     Inr (ag, [Out_notification (command_of ag cv msgID (cv_val cv) receiverID lamport)])"

definition sendCaceBelieveNotification :: "cvar \<Rightarrow> int \<Rightarrow> int \<Rightarrow> act" where
  "sendCaceBelieveNotification cv receiverID msgID ag =
     (let ag = tick ag in sendCaceBelieveNotification_at cv receiverID msgID (ag_lamport ag) ag)"

definition sendCaceAcknowledge_at :: "string \<Rightarrow> byte list \<Rightarrow> int \<Rightarrow> int \<Rightarrow> int \<Rightarrow> 64 word \<Rightarrow> act" where
  "sendCaceAcknowledge_at name value messageID receiver ty lamport ag =
     Inr (ag, [Out_ack \<lparr>ca_senderID = ag_ownID ag, ca_receiverID = [receiver], ca_variableName = name,
       ca_value = value, ca_msgID = messageID, ca_lamportTime = lamport, ca_type = to_uint8 ty\<rparr>])"

definition sendCaceAcknowledge :: "string \<Rightarrow> byte list \<Rightarrow> int \<Rightarrow> int \<Rightarrow> int \<Rightarrow> act" where
  "sendCaceAcknowledge name value messageID receiver ty ag =
     (let ag = tick ag in sendCaceAcknowledge_at name value messageID receiver ty (ag_lamport ag) ag)"

definition sendCaceShortAck_at :: "string \<Rightarrow> int \<Rightarrow> int \<Rightarrow> 64 word \<Rightarrow> act" where
  "sendCaceShortAck_at name messageID receiver lamport ag =
     Inr (ag, [Out_short_ack \<lparr>sa_senderID = ag_ownID ag, sa_receiverID = [receiver],
       sa_variableName = name, sa_msgID = messageID, sa_lamportTime = lamport\<rparr>])"

definition sendCaceShortAck :: "string \<Rightarrow> int \<Rightarrow> int \<Rightarrow> act" where
  "sendCaceShortAck name messageID receiver ag =
     (let ag = tick ag in sendCaceShortAck_at name messageID receiver (ag_lamport ag) ag)"

text \<open>
  \<open>sendCaceWriteAck\<close> with a Lamport time publishes a write acknowledgement; the one without,
  which the jobs call, calls \<open>sendCaceShortAck\<close> instead of it.
\<close>

definition sendCaceWriteAck_at :: "string \<Rightarrow> int \<Rightarrow> int \<Rightarrow> 64 word \<Rightarrow> act" where
  "sendCaceWriteAck_at name messageID receiver lamport ag =
     Inr (ag, [Out_write_ack \<lparr>sa_senderID = ag_ownID ag, sa_receiverID = [receiver],
       sa_variableName = name, sa_msgID = messageID, sa_lamportTime = lamport\<rparr>])"

definition sendCaceWriteAck :: "string \<Rightarrow> int \<Rightarrow> int \<Rightarrow> act" where
  "sendCaceWriteAck name messageID receiver ag =
     (let ag = tick ag in sendCaceShortAck_at name messageID receiver (ag_lamport ag) ag)"

text \<open>A request carries no time, but publishing it advances the clock.\<close>

definition sendCaceVariableRequest_at :: "int \<Rightarrow> int \<Rightarrow> string \<Rightarrow> 64 word \<Rightarrow> act" where
  "sendCaceVariableRequest_at receiverID msgID name lamport ag =
     (let ag = tick ag
      in Inr (ag, [Out_request \<lparr>vr_senderID = ag_ownID ag, vr_receiverID = [receiverID],
           vr_variableName = name, vr_msgID = msgID\<rparr>]))"

definition sendCaceVariableRequest :: "int \<Rightarrow> int \<Rightarrow> string \<Rightarrow> act" where
  "sendCaceVariableRequest receiverID msgID name ag =
     sendCaceVariableRequest_at receiverID msgID name (ag_lamport ag) ag"

text \<open>\<open>sendTime\<close> sends the Lamport time and then advances it.\<close>

definition sendTime :: "cace_env \<Rightarrow> act" where
  "sendTime env ag =
     Inr (tick ag, [Out_time \<lparr>ct_senderID = ag_ownID ag, ct_localtime = e_local env,
       ct_distributedTime = e_dist env, ct_lamportTime = ag_lamport ag\<rparr>])"

section \<open>Jobs\<close>

definition var_of :: "agent \<Rightarrow> var_ref \<Rightarrow> cvar outcome" where
  "var_of ag r = (case r of
     No_variable \<Rightarrow> Inl NullPointer
   | Detached v \<Rightarrow> Inr v
   | In_store name \<Rightarrow> (case getVariable (ag_store ag) name of None \<Rightarrow> Inl NullPointer | Some v \<Rightarrow> Inr v))"

definition job_new :: "cace_env \<Rightarrow> job_kind \<Rightarrow> string \<Rightarrow> var_ref \<Rightarrow> int list \<Rightarrow> 64 word \<Rightarrow> int \<Rightarrow> byte list \<Rightarrow> job" where
  "job_new env kind name variable robotids lamport msgID value =
     \<lparr>jb_kind = kind, jb_name = name, jb_variable = variable, jb_expected = robotids,
      jb_lamportTime = lamport, jb_startTime = e_dist env, jb_attempts = 0, jb_msgID = msgID,
      jb_value = value, jb_entities = [], jb_remaining = 1\<rparr>"

text \<open>\<open>(short)((int)(lamportTime + 100) * ownID)\<close>, the message id that should be unique.\<close>

definition make_msgID :: "agent \<Rightarrow> int" where
  "make_msgID ag = to_short (sint (ucast (ag_lamport ag + 100) :: 32 word) * ag_ownID ag)"

definition command_maxRetrys :: int where
  "command_maxRetrys = 10"

definition entities_for :: "cace_env \<Rightarrow> int \<Rightarrow> int list \<Rightarrow> job_state list" where
  "entities_for env retrys ids =
     map (\<lambda>i. \<lparr>js_robotID = i, js_retrys = retrys, js_lastSent = local_ticks env\<rparr>) ids"

definition append_job :: "job \<Rightarrow> agent \<Rightarrow> agent" where
  "append_job j ag = ag\<lparr>ag_jobs := ag_jobs ag @ [j]\<rparr>"

subsection \<open>Updating the variable\<close>

text \<open>
  The loop over \<open>proposals\<close> in \<open>doVariableUpdate\<close>: a newer message replaces the proposal of its
  sender, an unknown sender is added; the flag is \<open>proposalsUpdated\<close>.
\<close>

definition merge_proposal ::
  "int \<Rightarrow> 64 word \<Rightarrow> (belief \<Rightarrow> belief) \<Rightarrow> belief \<Rightarrow> belief list \<Rightarrow> belief list \<times> bool" where
  "merge_proposal sender lamport upd new ps =
     (let found = list_ex (\<lambda>p. cv_robotID p = sender) ps;
          updated = list_ex (\<lambda>p. cv_robotID p = sender \<and> cv_lamportAge p < lamport) ps;
          ps = map (\<lambda>p. if cv_robotID p = sender \<and> cv_lamportAge p < lamport then upd p else p) ps
      in if found then (ps, updated) else (ps @ [new], True))"

definition accept_in :: "byte list option \<Rightarrow> cvar \<Rightarrow> cvar \<times> net_out list" where
  "accept_in cmd cv = (case acceptProposals cmd cv of (cv, _, calls) \<Rightarrow> (cv, map (\<lambda>(d, v). Call_delegate d v) calls))"

definition put_var :: "cvar \<Rightarrow> string \<Rightarrow> agent \<Rightarrow> agent" where
  "put_var cv name ag = ag\<lparr>ag_store := (ag_store ag)\<lparr>vs_store := smap_put (vs_store (ag_store ag)) name cv\<rparr>\<rparr>"

definition belief_of_command :: "cace_env \<Rightarrow> cace_command \<Rightarrow> belief" where
  "belief_of_command env cc =
     (let v = belief_new (cc_variableName cc) (cc_level cc) (cc_validityTime cc) (cc_senderID cc)
                (cc_decissionTime cc) (cc_lamportTime cc) (cc_type cc);
          v = setValue_bytes (cc_value cc) v
      in v\<lparr>cv_arrivalTime := e_local env\<rparr>)"

definition refresh_belief :: "cace_env \<Rightarrow> cace_command \<Rightarrow> belief \<Rightarrow> belief" where
  "refresh_belief env cc p =
     (let p = setValue_bytes (cc_value cc) p;
          p = p\<lparr>cv_arrivalTime := e_local env, cv_decissionTime := cc_decissionTime cc,
                cv_validityTime := cc_validityTime cc, cv_lamportAge := cc_lamportTime cc\<rparr>;
          p = setAcceptStrategy (cc_level cc) p
      in p\<lparr>cv_type := cc_type cc\<rparr>)"

definition command_doVariableUpdate ::
  "cace_env \<Rightarrow> cace_command \<Rightarrow> agent \<Rightarrow> agent \<times> cvar \<times> net_out list" where
  "command_doVariableUpdate env cc ag =
     (case getVariable (ag_store ag) (cc_variableName cc) of
        Some cv \<Rightarrow>
          (let (ps, updated) = merge_proposal (cc_senderID cc) (cc_lamportTime cc) (refresh_belief env cc)
                 (belief_of_command env cc) (cv_proposals cv);
               cv = cv\<lparr>cv_proposals := ps\<rparr>;
               (cv, calls) = (if updated then accept_in None cv else (cv, []))
           in (put_var cv (cc_variableName cc) ag, cv, calls))
      | None \<Rightarrow>
          (let cv = ConsensusVariable (cc_variableName cc) (cc_level cc) (cc_validityTime cc) (ag_ownID ag)
                 (cc_decissionTime cc) (cc_lamportTime cc) (cc_type cc);
               cv = cv\<lparr>cv_proposals := cv_proposals cv @ [belief_of_command env cc]\<rparr>;
               (cv, calls) = accept_in (Some (cc_value cc)) cv
           in (ag\<lparr>ag_store := fst (addVariable (ag_store ag) cv)\<rparr>, cv, calls)))"

text \<open>\<open>BelieveAcknowledgeJob::doVariableUpdate\<close> does the same with a notification.\<close>

definition believe_doVariableUpdate ::
  "cace_env \<Rightarrow> cace_command \<Rightarrow> agent \<Rightarrow> agent \<times> cvar \<times> net_out list" where
  "believe_doVariableUpdate env n ag = command_doVariableUpdate env n ag"

text \<open>An acknowledgement has no times of its own and no strategy.\<close>

definition belief_of_ack :: "cace_env \<Rightarrow> cvar \<Rightarrow> cace_ack \<Rightarrow> belief" where
  "belief_of_ack env cv ack =
     (let v = belief_new (ca_variableName ack) (cv_strategy cv) (cv_validityTime cv) (ca_senderID ack)
                (cv_decissionTime cv) (ca_lamportTime ack) (ca_type ack)
      in (setValue_bytes (ca_value ack) v)\<lparr>cv_arrivalTime := e_local env\<rparr>)"

definition refresh_from_ack :: "cace_env \<Rightarrow> cace_ack \<Rightarrow> belief \<Rightarrow> belief" where
  "refresh_from_ack env ack p =
     (setValue_bytes (ca_value ack) p)\<lparr>cv_arrivalTime := e_local env, cv_decissionTime := long_max,
       cv_validityTime := long_max, cv_lamportAge := ca_lamportTime ack, cv_type := ca_type ack\<rparr>"

definition ack_doVariableUpdate :: "cace_env \<Rightarrow> cace_ack \<Rightarrow> agent \<Rightarrow> agent \<times> cvar \<times> net_out list" where
  "ack_doVariableUpdate env ack ag =
     (case getVariable (ag_store ag) (ca_variableName ack) of
        Some cv \<Rightarrow>
          (let (ps, updated) = merge_proposal (ca_senderID ack) (ca_lamportTime ack) (refresh_from_ack env ack)
                 (belief_of_ack env cv ack) (cv_proposals cv);
               cv = cv\<lparr>cv_proposals := ps\<rparr>;
               (cv, calls) = (if updated then accept_in None cv else (cv, []))
           in (put_var cv (ca_variableName ack) ag, cv, calls))
      | None \<Rightarrow>
          (let cv = ConsensusVariable (ca_variableName ack) ThreeWayHandShake (long_max - 1) (ag_ownID ag)
                 (long_max - 1) 0 (ca_type ack);
               co = belief_new (ca_variableName ack) ThreeWayHandShake long_max (ca_senderID ack)
                 long_max (ca_lamportTime ack) (ca_type ack);
               co = (setValue_bytes (ca_value ack) co)\<lparr>cv_arrivalTime := e_local env\<rparr>;
               cv = cv\<lparr>cv_proposals := cv_proposals cv @ [co]\<rparr>;
               (cv, calls) = accept_in (Some (ca_value ack)) cv
           in (ag\<lparr>ag_store := fst (addVariable (ag_store ag) cv)\<rparr>, cv, calls)))"

definition write_doVariableUpdate :: "cace_env \<Rightarrow> cace_command \<Rightarrow> agent \<Rightarrow> agent \<times> cvar \<times> net_out list" where
  "write_doVariableUpdate env cmd ag =
     (case getVariable (ag_store ag) (cc_variableName cmd) of
        Some cv \<Rightarrow>
          (let cv = setValue_bytes (cc_value cmd) cv;
               cv = cv\<lparr>cv_arrivalTime := e_local env, cv_decissionTime := cc_decissionTime cmd,
                 cv_validityTime := cc_validityTime cmd, cv_lamportAge := cc_lamportTime cmd,
                 cv_type := cc_type cmd\<rparr>;
               cv = setAcceptStrategy (cc_level cmd) cv;
               cv = cv\<lparr>cv_robotID := ag_ownID ag\<rparr>
           in (put_var cv (cc_variableName cmd) ag, cv, map (\<lambda>(d, v). Call_delegate d v) (notify cv)))
      | None \<Rightarrow>
          (let cv = ConsensusVariable (cc_variableName cmd) (cc_level cmd) (cc_validityTime cmd) (ag_ownID ag)
                 (cc_decissionTime cmd) (cc_lamportTime cmd) (cc_type cmd);
               cv = (setValue_bytes (cc_value cmd) cv)\<lparr>cv_arrivalTime := e_local env\<rparr>
           in (ag\<lparr>ag_store := fst (addVariable (ag_store ag) cv)\<rparr>, cv, [])))"

subsection \<open>Creating jobs\<close>

text \<open>A constructor appends nothing to the worker; its callers do.\<close>

definition CommandJob_new ::
  "cace_env \<Rightarrow> string \<Rightarrow> var_ref \<Rightarrow> byte list \<Rightarrow> int list \<Rightarrow> 64 word \<Rightarrow> agent \<Rightarrow> (job \<times> agent \<times> net_out list) outcome" where
  "CommandJob_new env name variable value robotids lamport ag =
     (let j = job_new env CommandJob name variable robotids lamport (make_msgID ag) value in
     bindE (var_of ag variable) (\<lambda>v.
       if cv_strategy v > NoDistribution
       then bindE (sendCaceCommand v (jb_msgID j) value 0 ag) (\<lambda>(ag, os).
              Inr (j\<lparr>jb_entities := entities_for env command_maxRetrys robotids\<rparr>, ag, os))
       else Inr (j, ag, [])))"

definition BelieveNotificationJob_new ::
  "cace_env \<Rightarrow> string \<Rightarrow> var_ref \<Rightarrow> byte list \<Rightarrow> int list \<Rightarrow> 64 word \<Rightarrow> agent \<Rightarrow> (job \<times> agent \<times> net_out list) outcome" where
  "BelieveNotificationJob_new env name variable value robotids lamport ag =
     (let j = job_new env BelieveNotificationJob name variable robotids lamport (make_msgID ag) [] in
     bindE (var_of ag variable) (\<lambda>v.
       if cv_strategy v > NoDistribution
       then bindE (for_each (\<lambda>i. sendCaceBelieveNotification v (to_short i) (jb_msgID j)) robotids ag) (\<lambda>(ag, os).
              Inr (j\<lparr>jb_entities := entities_for env (e_maxRetrys env) robotids\<rparr>, ag, os))
       else Inr (j, ag, [])))"

text \<open>
  The answer to a command, sent by the constructor of \<open>CommandAcknowledgeJob\<close> or, in safe step
  mode, by its first \<open>process\<close>: the update and an acknowledgement to everybody.
\<close>

definition command_acknowledge ::
  "cace_env \<Rightarrow> (cvar \<Rightarrow> act) \<Rightarrow> cace_command \<Rightarrow> job \<Rightarrow> agent \<Rightarrow> (job \<times> agent \<times> net_out list) outcome" where
  "command_acknowledge env send cc j ag =
     (case command_doVariableUpdate env cc ag of (ag, cv, calls) \<Rightarrow>
       if cc_level cc > FireAndForget
       then bindE (send cv ag) (\<lambda>(ag, os).
              Inr (j\<lparr>jb_entities := jb_entities j @ entities_for env command_maxRetrys (jb_expected j)\<rparr>, ag, calls @ os))
       else Inr (j, ag, calls))"

definition CommandAcknowledgeJob_new ::
  "cace_env \<Rightarrow> int list \<Rightarrow> 64 word \<Rightarrow> cace_command \<Rightarrow> agent \<Rightarrow> (job \<times> agent \<times> net_out list) outcome" where
  "CommandAcknowledgeJob_new env robotids lamport cc ag =
     (let j = job_new env (CommandAcknowledgeJob cc) (cc_variableName cc) (In_store (cc_variableName cc))
                robotids 0 (to_short (cc_msgID cc)) [] in
     if \<not> ag_safeStep ag
     then command_acknowledge env
            (\<lambda>cv. sendCaceAcknowledge_at (cv_name cv) (cv_val cv) (jb_msgID j) 0 (cv_type cv) lamport) cc j ag
     else Inr (j, ag, []))"

definition believe_acknowledge ::
  "cace_env \<Rightarrow> cace_command \<Rightarrow> job \<Rightarrow> agent \<Rightarrow> (job \<times> agent \<times> net_out list) outcome" where
  "believe_acknowledge env n j ag =
     (case believe_doVariableUpdate env n ag of (ag, cv, calls) \<Rightarrow>
       if cc_level n > FireAndForget
       then bindE (for_each (\<lambda>i. sendCaceAcknowledge (cv_name cv) (cv_val cv) (jb_msgID j) (to_short i) (cv_type cv))
                     (jb_expected j) ag) (\<lambda>(ag, os).
              Inr (j\<lparr>jb_entities := jb_entities j @ entities_for env (e_maxRetrys env) (jb_expected j)\<rparr>, ag, calls @ os))
       else Inr (j, ag, calls))"

definition BelieveAcknowledgeJob_new ::
  "cace_env \<Rightarrow> int list \<Rightarrow> 64 word \<Rightarrow> cace_command \<Rightarrow> agent \<Rightarrow> (job \<times> agent \<times> net_out list) outcome" where
  "BelieveAcknowledgeJob_new env robotids lamport n ag =
     (let j = job_new env (BelieveAcknowledgeJob n) (cc_variableName n) No_variable robotids 0 (cc_msgID n) [] in
     if \<not> ag_safeStep ag then believe_acknowledge env n j ag else Inr (j, ag, []))"

definition short_acknowledge :: "cace_env \<Rightarrow> cace_ack \<Rightarrow> act" where
  "short_acknowledge env ack ag =
     (case ack_doVariableUpdate env ack ag of (ag, cv, calls) \<Rightarrow>
       if cv_strategy cv > TwoWayHandShake
       then bindE (sendCaceShortAck (cv_name cv) (ca_msgID ack) (ca_senderID ack) ag) (\<lambda>(ag, os). Inr (ag, calls @ os))
       else Inr (ag, calls))"

definition ShortAckJob_new ::
  "cace_env \<Rightarrow> 64 word \<Rightarrow> cace_ack \<Rightarrow> agent \<Rightarrow> (job \<times> agent \<times> net_out list) outcome" where
  "ShortAckJob_new env lamport ack ag =
     (let j = job_new env (ShortAckJob ack) (ca_variableName ack) No_variable [] lamport 0 [] in
     if \<not> ag_safeStep ag then bindE (short_acknowledge env ack ag) (\<lambda>(ag, os). Inr (j, ag, os))
     else Inr (j, ag, []))"

definition write_acknowledge :: "cace_env \<Rightarrow> cace_command \<Rightarrow> act" where
  "write_acknowledge env cmd ag =
     (case write_doVariableUpdate env cmd ag of (ag, cv, calls) \<Rightarrow>
       bindE (sendCaceWriteAck (cv_name cv) (cc_msgID cmd) (cc_senderID cmd) ag) (\<lambda>(ag, os). Inr (ag, calls @ os)))"

definition WriteAckJob_new ::
  "cace_env \<Rightarrow> 64 word \<Rightarrow> cace_command \<Rightarrow> agent \<Rightarrow> (job \<times> agent \<times> net_out list) outcome" where
  "WriteAckJob_new env lamport cmd ag =
     (let j = job_new env (WriteAckJob cmd) (cc_variableName cmd) No_variable [] lamport 0 [] in
     if \<not> ag_safeStep ag then bindE (write_acknowledge env cmd ag) (\<lambda>(ag, os). Inr (j, ag, os))
     else Inr (j, ag, []))"

definition WriteJob_new ::
  "cace_env \<Rightarrow> string \<Rightarrow> var_ref \<Rightarrow> byte list \<Rightarrow> int list \<Rightarrow> 64 word \<Rightarrow> agent \<Rightarrow> (job \<times> agent \<times> net_out list) outcome" where
  "WriteJob_new env name variable value robotids lamport ag =
     (case robotids of
        [] \<Rightarrow> Inl OutOfBounds
      | target # _ \<Rightarrow>
          (let j = job_new env (WriteJob []) name variable robotids lamport (make_msgID ag) [] in
          bindE (var_of ag variable) (\<lambda>v.
          bindE (sendWriteCommand v (jb_msgID j) (to_short target) ag) (\<lambda>(ag, os).
            Inr (j\<lparr>jb_entities := entities_for env (e_maxRetrys env) robotids\<rparr>, ag, os)))))"

definition RequestJob_new ::
  "cace_env \<Rightarrow> string \<Rightarrow> int list \<Rightarrow> 64 word \<Rightarrow> agent \<Rightarrow> (job \<times> agent \<times> net_out list) outcome" where
  "RequestJob_new env name robotids lamport ag =
     (case robotids of
        [] \<Rightarrow> Inl OutOfBounds
      | target # _ \<Rightarrow>
          (let j = job_new env RequestJob name No_variable robotids lamport (make_msgID ag) [] in
          bindE (sendCaceVariableRequest (to_short target) (jb_msgID j) name ag) (\<lambda>(ag, os).
            Inr (j\<lparr>jb_entities := entities_for env (e_maxRetrys env) robotids\<rparr>, ag, os))))"

subsection \<open>Processing jobs\<close>

text \<open>Acknowledgements are taken out of their queue by message id.\<close>

definition getCaceShortAcksAndRemove :: "int \<Rightarrow> agent \<Rightarrow> agent \<times> cace_short_ack list" where
  "getCaceShortAcksAndRemove msgID ag =
     (ag\<lparr>ag_shortAcks := filter (\<lambda>a. sa_msgID a \<noteq> msgID) (ag_shortAcks ag)\<rparr>,
      filter (\<lambda>a. sa_msgID a = msgID) (ag_shortAcks ag))"

definition getWriteAcknowledgesAndRemove :: "int \<Rightarrow> agent \<Rightarrow> agent \<times> cace_short_ack list" where
  "getWriteAcknowledgesAndRemove msgID ag =
     (ag\<lparr>ag_writeAcks := filter (\<lambda>a. sa_msgID a \<noteq> msgID) (ag_writeAcks ag)\<rparr>,
      filter (\<lambda>a. sa_msgID a = msgID) (ag_writeAcks ag))"

text \<open>Agents whose proposal is at least as new as the job are no longer expected to answer.\<close>

definition drop_updated :: "cvar \<Rightarrow> 64 word \<Rightarrow> int list \<Rightarrow> int list" where
  "drop_updated v lamport expected =
     filter (\<lambda>i. \<not> list_ex (\<lambda>p. cv_robotID p = i \<and> cv_lamportAge p \<ge> lamport) (cv_proposals v)) expected"

definition drop_acked :: "cace_short_ack list \<Rightarrow> int list \<Rightarrow> int list" where
  "drop_acked acks expected = filter (\<lambda>i. \<not> list_ex (\<lambda>a. sa_senderID a = i) acks) expected"

text \<open>
  The loop of \<open>WriteJob\<close>. When an acknowledgement matches, the entry is erased and the index goes
  back, but the inner loop goes on with the next acknowledgement; \<open>expectedRobotIDs.at(-1)\<close> throws.
\<close>

fun write_scan :: "cace_short_ack list \<Rightarrow> int list \<Rightarrow> int \<Rightarrow> (int list \<times> int) outcome" where
  "write_scan [] expected i = Inr (expected, i)"
| "write_scan (a # as) expected i =
     (if i < 0 \<or> int (length expected) \<le> i then Inl OutOfBounds
      else if sa_senderID a = expected ! nat i
      then write_scan as (take (nat i) expected @ drop (nat i + 1) expected) (i - 1)
      else write_scan as expected i)"

lemma bindE_cong [fundef_cong]:
  "m = m' \<Longrightarrow> (\<And>x. m' = Inr x \<Longrightarrow> f x = g x) \<Longrightarrow> bindE m f = bindE m' g"
  by (cases m') simp_all

lemma write_scan_gap:
  "write_scan as expected i = Inr (expected', i') \<Longrightarrow>
     int (length expected') - i' = int (length expected) - i"
proof (induction "as" expected i rule: write_scan.induct)
  case (2 a "as" expected i)
  then show ?case by (auto split: if_splits)
qed simp

function write_expected :: "cace_short_ack list \<Rightarrow> int list \<Rightarrow> int \<Rightarrow> int list outcome" where
  "write_expected acks expected i =
     (if 0 \<le> i \<and> i < int (length expected)
      then bindE (write_scan acks expected i) (\<lambda>(expected, i). write_expected acks expected (i + 1))
      else Inr expected)"
  by pat_completeness auto
termination
  by (relation "measure (\<lambda>(acks, expected, i). nat (int (length expected) - i))") (auto dest!: write_scan_gap)

declare write_expected.simps [simp del]

text \<open>
  The retry loop shared by the jobs: the outer loop over the entities, the inner one over the
  expected agents. It counts the retries that are left and sends again where the resend time
  has passed. \<open>agentDisengangement\<close> has an empty body.
\<close>

definition resend_due :: "cace_env \<Rightarrow> int \<Rightarrow> job_state \<Rightarrow> bool" where
  "resend_due env i jse =
     (js_robotID jse = i \<and> js_retrys jse > 0 \<and>
      js_lastSent jse + getEstimatedResendTime env i < local_ticks env)"

fun resend_expected ::
  "cace_env \<Rightarrow> (int \<Rightarrow> act) \<Rightarrow> int list \<Rightarrow> job_state \<Rightarrow> int \<Rightarrow> agent \<Rightarrow> (job_state \<times> int \<times> agent \<times> net_out list) outcome" where
  "resend_expected env send [] jse rem ag = Inr (jse, rem, ag, [])"
| "resend_expected env send (i # is) jse rem ag =
     (let rem = (if i = js_robotID jse then rem + max (js_retrys jse) 0 else rem)
      in if resend_due env i jse
         then bindE (send i ag) (\<lambda>(ag, os).
              bindE (resend_expected env send is
                       (jse\<lparr>js_lastSent := local_ticks env, js_retrys := js_retrys jse - 1\<rparr>) rem ag) (\<lambda>(jse, rem, ag, os').
                Inr (jse, rem, ag, os @ os')))
         else resend_expected env send is jse rem ag)"

fun resend_entities ::
  "cace_env \<Rightarrow> (int \<Rightarrow> act) \<Rightarrow> int list \<Rightarrow> job_state list \<Rightarrow> int \<Rightarrow> agent \<Rightarrow> (job_state list \<times> int \<times> agent \<times> net_out list) outcome" where
  "resend_entities env send expected [] rem ag = Inr ([], rem, ag, [])"
| "resend_entities env send expected (jse # es) rem ag =
     bindE (resend_expected env send expected jse rem ag) (\<lambda>(jse, rem, ag, os).
     bindE (resend_entities env send expected es rem ag) (\<lambda>(es, rem, ag, os').
       Inr (jse # es, rem, ag, os @ os')))"

definition resend_job :: "cace_env \<Rightarrow> (int \<Rightarrow> act) \<Rightarrow> job \<Rightarrow> agent \<Rightarrow> (job \<times> agent \<times> net_out list) outcome" where
  "resend_job env send j ag =
     bindE (resend_entities env send (jb_expected j) (jb_entities j) 0 ag) (\<lambda>(es, rem, ag, os).
       Inr (j\<lparr>jb_entities := es, jb_remaining := rem\<rparr>, ag, os))"

type_synonym process_result = "(bool \<times> job \<times> agent \<times> net_out list) outcome"

definition CommandJob_process :: "cace_env \<Rightarrow> job \<Rightarrow> agent \<Rightarrow> process_result" where
  "CommandJob_process env j ag =
     bindE (var_of ag (jb_variable j)) (\<lambda>v.
     let j = j\<lparr>jb_attempts := jb_attempts j + 1\<rparr>;
         j = j\<lparr>jb_expected := drop_updated v (jb_lamportTime j) (jb_expected j)\<rparr> in
     bindE (if cv_strategy v > FireAndForget
            then resend_job env (\<lambda>i. sendCaceCommand_at v (jb_msgID j) (jb_value j) (to_short i) (jb_lamportTime j)) j ag
            else Inr (j, ag, [])) (\<lambda>(j, ag, os).
       Inr (jb_expected j = [] \<or> jb_remaining j \<le> 0 \<or> cv_strategy v \<le> FireAndForget, j, ag, os)))"

text \<open>The retry passes the message id as the receiver and the receiver as the message id.\<close>

definition BelieveNotificationJob_process :: "cace_env \<Rightarrow> job \<Rightarrow> agent \<Rightarrow> process_result" where
  "BelieveNotificationJob_process env j ag =
     bindE (var_of ag (jb_variable j)) (\<lambda>v.
     let j = j\<lparr>jb_attempts := jb_attempts j + 1\<rparr>;
         j = j\<lparr>jb_expected := drop_updated v (jb_lamportTime j) (jb_expected j)\<rparr> in
     bindE (if cv_strategy v > FireAndForget
            then resend_job env (\<lambda>i. sendCaceBelieveNotification_at v (jb_msgID j) (to_short i) (jb_lamportTime j)) j ag
            else Inr (j, ag, [])) (\<lambda>(j, ag, os).
       Inr (jb_expected j = [] \<or> jb_remaining j \<le> 0 \<or> cv_strategy v \<le> NoDistribution, j, ag, os)))"

definition CommandAcknowledgeJob_process :: "cace_env \<Rightarrow> cace_command \<Rightarrow> job \<Rightarrow> agent \<Rightarrow> process_result" where
  "CommandAcknowledgeJob_process env cc j ag =
     bindE (if jb_attempts j = 0 \<and> ag_safeStep ag
            then bindE (command_acknowledge env
                   (\<lambda>cv. sendCaceAcknowledge (cv_name cv) (cv_val cv) (jb_msgID j) 0 (cv_type cv)) cc j ag)
                   (\<lambda>(j, ag, os). Inr
                      ((if cc_level cc > FireAndForget then j\<lparr>jb_lamportTime := ag_lamport ag\<rparr> else j), ag, os))
            else Inr (j, ag, [])) (\<lambda>(j, ag, os1).
     let j = j\<lparr>jb_attempts := jb_attempts j + 1\<rparr>;
         (ag, newAcks) = getCaceShortAcksAndRemove (jb_msgID j) ag;
         j = j\<lparr>jb_expected := drop_acked newAcks (jb_expected j)\<rparr> in
     bindE (if cc_level cc > FireAndForget
            then resend_job env (\<lambda>i ag. bindE (var_of ag (jb_variable j)) (\<lambda>cv.
                   sendCaceAcknowledge_at (cv_name cv) (cv_val cv) (jb_msgID j) (to_short i) (cv_type cv)
                     (jb_lamportTime j) ag)) j ag
            else Inr (j, ag, [])) (\<lambda>(j, ag, os2).
       Inr (jb_expected j = [] \<or> jb_remaining j \<le> 0 \<or> cc_level cc \<le> TwoWayHandShake, j, ag, os1 @ os2)))"

text \<open>The retry repeats the value of the notification, not the own one.\<close>

definition BelieveAcknowledgeJob_process :: "cace_env \<Rightarrow> cace_command \<Rightarrow> job \<Rightarrow> agent \<Rightarrow> process_result" where
  "BelieveAcknowledgeJob_process env n j ag =
     bindE (if jb_attempts j = 0 \<and> ag_safeStep ag
            then bindE (believe_acknowledge env n j ag) (\<lambda>(j, ag, os). Inr
                   ((if cc_level n > FireAndForget \<and> jb_expected j \<noteq> []
                     then j\<lparr>jb_lamportTime := ag_lamport ag\<rparr> else j), ag, os))
            else Inr (j, ag, [])) (\<lambda>(j, ag, os1).
     let j = j\<lparr>jb_attempts := jb_attempts j + 1\<rparr>;
         (ag, newAcks) = getCaceShortAcksAndRemove (jb_msgID j) ag;
         j = j\<lparr>jb_expected := drop_acked newAcks (jb_expected j)\<rparr> in
     bindE (if cc_level n > FireAndForget
            then resend_job env (\<lambda>i. sendCaceAcknowledge_at (cc_variableName n) (cc_value n) (jb_msgID j) (to_short i)
                   (cc_type n) (jb_lamportTime j)) j ag
            else Inr (j, ag, [])) (\<lambda>(j, ag, os2).
       Inr (jb_expected j = [] \<or> jb_remaining j \<le> 0, j, ag, os1 @ os2)))"

definition ShortAckJob_process :: "cace_env \<Rightarrow> cace_ack \<Rightarrow> job \<Rightarrow> agent \<Rightarrow> process_result" where
  "ShortAckJob_process env ack j ag =
     bindE (if jb_attempts j = 0 \<and> ag_safeStep ag then short_acknowledge env ack ag else skip ag) (\<lambda>(ag, os).
       Inr (True, j\<lparr>jb_attempts := jb_attempts j + 1\<rparr>, ag, os))"

definition WriteAckJob_process :: "cace_env \<Rightarrow> cace_command \<Rightarrow> job \<Rightarrow> agent \<Rightarrow> process_result" where
  "WriteAckJob_process env cmd j ag =
     bindE (if jb_attempts j = 0 \<and> ag_safeStep ag then write_acknowledge env cmd ag else skip ag) (\<lambda>(ag, os).
       Inr (True, j\<lparr>jb_attempts := jb_attempts j + 1\<rparr>, ag, os))"

definition WriteJob_process :: "cace_env \<Rightarrow> cace_short_ack list \<Rightarrow> job \<Rightarrow> agent \<Rightarrow> process_result" where
  "WriteJob_process env acks j ag =
     (let j = j\<lparr>jb_attempts := jb_attempts j + 1\<rparr>;
          (ag, newAcks) = getWriteAcknowledgesAndRemove (jb_msgID j) ag;
          acks = acks @ newAcks in
     bindE (write_expected acks (jb_expected j) 0) (\<lambda>expected.
     let j = j\<lparr>jb_kind := WriteJob acks, jb_expected := expected\<rparr> in
     bindE (resend_job env (\<lambda>i ag. bindE (var_of ag (jb_variable j)) (\<lambda>v.
              sendWriteCommand v (jb_msgID j) (to_short i) ag)) j ag) (\<lambda>(j, ag, os).
       Inr (jb_expected j = [] \<or> jb_remaining j \<le> 0, j, ag, os))))"

definition RequestJob_process :: "cace_env \<Rightarrow> job \<Rightarrow> agent \<Rightarrow> process_result" where
  "RequestJob_process env j ag =
     (let j = j\<lparr>jb_attempts := jb_attempts j + 1\<rparr> in
     if existsResponse (ag_store ag) (jb_name j) then Inr (True, j\<lparr>jb_expected := []\<rparr>, ag, [])
     else bindE (resend_job env (\<lambda>i. sendCaceVariableRequest_at (to_short i) (jb_msgID j) (jb_name j)
            (jb_lamportTime j)) j ag) (\<lambda>(j, ag, os).
       Inr (jb_expected j = [] \<or> jb_remaining j \<le> 0, j, ag, os)))"

definition job_process :: "cace_env \<Rightarrow> job \<Rightarrow> agent \<Rightarrow> process_result" where
  "job_process env j ag =
     (case jb_kind j of
        CommandJob \<Rightarrow> CommandJob_process env j ag
      | CommandAcknowledgeJob cc \<Rightarrow> CommandAcknowledgeJob_process env cc j ag
      | BelieveNotificationJob \<Rightarrow> BelieveNotificationJob_process env j ag
      | BelieveAcknowledgeJob n \<Rightarrow> BelieveAcknowledgeJob_process env n j ag
      | ShortAckJob ack \<Rightarrow> ShortAckJob_process env ack j ag
      | WriteJob acks \<Rightarrow> WriteJob_process env acks j ag
      | WriteAckJob cmd \<Rightarrow> WriteAckJob_process env cmd j ag
      | RequestJob \<Rightarrow> RequestJob_process env j ag)"

text \<open>\<open>failed\<close>: jobs that are answered at once never fail.\<close>

definition job_failed :: "job \<Rightarrow> bool" where
  "job_failed j =
     (case jb_kind j of ShortAckJob _ \<Rightarrow> False | WriteAckJob _ \<Rightarrow> False | _ \<Rightarrow> jb_remaining j \<le> 0)"

text \<open>\<open>CommunicationWorker::processJobs\<close>: finished jobs are removed, with the agents that did not answer.\<close>

fun process_list :: "cace_env \<Rightarrow> job list \<Rightarrow> agent \<Rightarrow> (job list \<times> agent \<times> net_out list) outcome" where
  "process_list env [] ag = Inr ([], ag, [])"
| "process_list env (j # js) ag =
     bindE (job_process env j ag) (\<lambda>(finished, j, ag, os).
     let ag = (if finished \<and> job_failed j then ag\<lparr>ag_remove := ag_remove ag @ jb_expected j\<rparr> else ag) in
     bindE (process_list env js ag) (\<lambda>(js, ag, os').
       Inr (if finished then js else j # js, ag, os @ os')))"

definition processJobs :: "cace_env \<Rightarrow> act" where
  "processJobs env ag =
     bindE (process_list env (ag_jobs ag) ag) (\<lambda>(js, ag, os). Inr (ag\<lparr>ag_jobs := js\<rparr>, os))"

text \<open>\<open>getNewestVariableJob\<close>, the newest open job of a variable that may still change agents.\<close>

definition counts_for :: "int \<Rightarrow> job \<Rightarrow> bool" where
  "counts_for strategy j =
     ((strategy > TwoWayHandShake \<and> (case jb_kind j of ShortAckJob _ \<Rightarrow> False | _ \<Rightarrow> True)) \<or>
      (strategy > FireAndForget \<and> (jb_kind j = CommandJob \<or> jb_kind j = BelieveNotificationJob)))"

fun newest_job :: "string \<Rightarrow> int \<Rightarrow> job list \<Rightarrow> 64 word \<Rightarrow> job option \<Rightarrow> job option" where
  "newest_job name strategy [] time ret = ret"
| "newest_job name strategy (j # js) time ret =
     (if counts_for strategy j \<and> name = jb_name j \<and> jb_startTime j > time
      then newest_job name strategy js (jb_startTime j) (Some j)
      else newest_job name strategy js time ret)"

definition getNewestVariableJob :: "agent \<Rightarrow> string \<Rightarrow> int \<Rightarrow> job option" where
  "getNewestVariableJob ag name strategy = newest_job name strategy (ag_jobs ag) 0 None"

section \<open>Message handlers\<close>

definition broadcastID :: int where
  "broadcastID = 0"

definition includesID :: "int list \<Rightarrow> int \<Rightarrow> bool" where
  "includesID ids i = list_ex (\<lambda>x. x = i) ids"

definition isBlacklisted :: "agent \<Rightarrow> int \<Rightarrow> bool" where
  "isBlacklisted ag i = (i \<in> ag_blacklist ag)"

definition addToBlacklist :: "int \<Rightarrow> agent \<Rightarrow> agent" where
  "addToBlacklist i ag = ag\<lparr>ag_blacklist := insert i (ag_blacklist ag)\<rparr>"

definition removeFromBlackList :: "int \<Rightarrow> agent \<Rightarrow> agent" where
  "removeFromBlackList i ag = ag\<lparr>ag_blacklist := ag_blacklist ag - {i}\<rparr>"

definition setOwnID :: "int \<Rightarrow> agent \<Rightarrow> agent" where
  "setOwnID i ag = ag\<lparr>ag_blacklist := insert i (ag_blacklist ag - {ag_ownID ag}), ag_ownID := to_short i\<rparr>"

definition addressed :: "agent \<Rightarrow> int list \<Rightarrow> bool" where
  "addressed ag receivers = (includesID receivers broadcastID \<or> includesID receivers (ag_ownID ag))"

definition with_job :: "(agent \<Rightarrow> (job \<times> agent \<times> net_out list) outcome) \<Rightarrow> act" where
  "with_job create ag = bindE (create ag) (\<lambda>(j, ag, os). Inr (append_job j ag, os))"

definition handleCaceVariableRequest :: "cace_request \<Rightarrow> act" where
  "handleCaceVariableRequest cvr ag =
     (if isBlacklisted ag (vr_senderID cvr) then skip ag
      else if addressed ag (vr_receiverID cvr)
      then sendCaceResponse
             (case getVariable (ag_store ag) (vr_variableName cvr) of
                Some cv \<Rightarrow> cv
              | None \<Rightarrow> ConsensusVariable (vr_variableName cvr) NoDistribution 0 (ag_ownID ag) 0 0 0)
             (vr_msgID cvr) (vr_senderID cvr) ag
      else skip ag)"

definition response_variable :: "cace_env \<Rightarrow> cace_command \<Rightarrow> cvar" where
  "response_variable env cc =
     (let cv = ConsensusVariable (cc_variableName cc) (cc_level cc) (cc_validityTime cc) (cc_senderID cc)
            (cc_decissionTime cc) (cc_lamportTime cc) (cc_type cc)
      in if cc_value cc \<noteq> [] then (setValue_bytes (cc_value cc) cv)\<lparr>cv_arrivalTime := e_local env\<rparr> else cv)"

definition handleCaceResponse :: "cace_env \<Rightarrow> cace_command \<Rightarrow> act" where
  "handleCaceResponse env cc ag =
     (if isBlacklisted ag (cc_senderID cc) then skip ag
      else let ag = updateLamportTime (cc_lamportTime cc) ag
           in if addressed ag (cc_receiverID cc)
              then Inr (ag\<lparr>ag_store := addResponse (ag_store ag) (response_variable env cc)\<rparr>, [])
              else skip ag)"

definition handleCaceWrite :: "cace_env \<Rightarrow> cace_command \<Rightarrow> act" where
  "handleCaceWrite env cc ag =
     (if isBlacklisted ag (cc_senderID cc) then skip ag
      else let ag = updateLamportTime (cc_lamportTime cc) ag
           in if addressed ag (cc_receiverID cc) then with_job (WriteAckJob_new env (ag_lamport ag) cc) ag
              else skip ag)"

definition handleCaceWriteAck :: "cace_short_ack \<Rightarrow> act" where
  "handleCaceWriteAck ca ag =
     (if isBlacklisted ag (sa_senderID ca) then skip ag
      else let ag = updateLamportTime (sa_lamportTime ca) ag
           in if addressed ag (sa_receiverID ca) then Inr (ag\<lparr>ag_writeAcks := ag_writeAcks ag @ [ca]\<rparr>, [])
              else skip ag)"

definition handleCaceCommand :: "cace_env \<Rightarrow> cace_command \<Rightarrow> act" where
  "handleCaceCommand env cc ag =
     (if isBlacklisted ag (cc_senderID cc) then skip ag
      else let ag = updateLamportTime (cc_lamportTime cc) ag
           in if addressed ag (cc_receiverID cc)
              then with_job (CommandAcknowledgeJob_new env (ag_active ag) (ag_lamport ag) cc) ag
              else skip ag)"

definition handleCaceAcknowledge :: "cace_env \<Rightarrow> cace_ack \<Rightarrow> act" where
  "handleCaceAcknowledge env ca ag =
     (if isBlacklisted ag (ca_senderID ca) then skip ag
      else let ag = updateLamportTime (ca_lamportTime ca) ag
           in if addressed ag (ca_receiverID ca) then with_job (ShortAckJob_new env (ag_lamport ag) ca) ag
              else skip ag)"

definition handleCaceBelieveNotification :: "cace_command \<Rightarrow> act" where
  "handleCaceBelieveNotification cbn ag =
     (if isBlacklisted ag (cc_senderID cbn) then skip ag
      else let ag = updateLamportTime (cc_lamportTime cbn) ag
           in if addressed ag (cc_receiverID cbn)
              then Inr (ag\<lparr>ag_notifications := ag_notifications ag @ [cbn]\<rparr>, []) else skip ag)"

definition handleCaceShortAck :: "cace_short_ack \<Rightarrow> act" where
  "handleCaceShortAck sa ag =
     (if isBlacklisted ag (sa_senderID sa) then skip ag
      else let ag = updateLamportTime (sa_lamportTime sa) ag
           in if addressed ag (sa_receiverID sa) then Inr (ag\<lparr>ag_shortAcks := ag_shortAcks ag @ [sa]\<rparr>, [])
              else skip ag)"

definition getCommands :: "agent \<Rightarrow> agent \<times> cace_command list" where
  "getCommands ag = (ag\<lparr>ag_commands := []\<rparr>, ag_commands ag)"

definition getCaceBelieveNotifications :: "agent \<Rightarrow> agent \<times> cace_command list" where
  "getCaceBelieveNotifications ag = (ag\<lparr>ag_notifications := []\<rparr>, ag_notifications ag)"

definition clearAllMessageLists :: "agent \<Rightarrow> agent" where
  "clearAllMessageLists ag =
     ag\<lparr>ag_commands := [], ag_writeAcks := [], ag_shortAcks := [], ag_notifications := []\<rparr>"

section \<open>The agent loop\<close>

definition getLocalScopeString :: "agent \<Rightarrow> string" where
  "getLocalScopeString ag = ''/'' @ concat (map (\<lambda>s. s @ ''/'') (ag_scope ag))"

text \<open>The scope that is compared with the scopes of variables: without the leading slash.\<close>

definition update_scope :: "agent \<Rightarrow> string" where
  "update_scope ag =
     (let scope = getLocalScopeString ag;
          scope = (if scope \<noteq> [] \<and> hd scope = CHR ''/'' then tl scope else scope)
      in if scope = [] \<or> last scope \<noteq> CHR ''/'' then scope @ ''/'' else scope)"

definition send_believe_updates :: "cace_env \<Rightarrow> int \<Rightarrow> act" where
  "send_believe_updates env i ag =
     for_each (\<lambda>(v, x, ids, lamport).
         with_job (BelieveNotificationJob_new env (cv_name v) (In_store (cv_name v)) x ids lamport))
       (sendBelieveUpdates (ag_store ag) i (update_scope ag) (ag_lamport ag)) ag"

definition agentEngangement :: "cace_env \<Rightarrow> int \<Rightarrow> bool \<Rightarrow> act" where
  "agentEngangement env i updates ag =
     (if i = ag_ownID ag then skip ag
      else if list_ex (\<lambda>k. k = i) (ag_active ag) then skip ag
      else let ag = ag\<lparr>ag_active := ag_active ag @ [i]\<rparr>
           in if updates then send_believe_updates env i ag else skip ag)"

definition agentDisengangement :: "int \<Rightarrow> agent \<Rightarrow> agent" where
  "agentDisengangement i ag = ag"

definition changeScopeAndRestoreConsistency :: "cace_env \<Rightarrow> string list \<Rightarrow> act" where
  "changeScopeAndRestoreConsistency env scope ag =
     (let ag = ag\<lparr>ag_scope := scope\<rparr> in for_each (send_believe_updates env) (ag_active ag) ag)"

text \<open>
  \<open>handleCaceTime\<close>, without the model of the communication delays that it also feeds; with it, it is
  \<open>handle_time_message\<close> of \<open>CaceTime\<close>.
\<close>

definition handleCaceTime :: "cace_env \<Rightarrow> cace_time \<Rightarrow> act" where
  "handleCaceTime env ct ag =
     (if isBlacklisted ag (ct_senderID ct) then skip ag
      else let ag = updateLamportTime (ct_lamportTime ct) ag
           in if list_ex (\<lambda>i. i = ct_senderID ct) (ag_active ag) then skip ag
              else agentEngangement env (ct_senderID ct) True ag)"

definition agent_step :: "cace_env \<Rightarrow> act" where
  "agent_step env ag =
     (case getCommands ag of (ag, commands) \<Rightarrow>
     bindE (for_each (\<lambda>cc ag. with_job (CommandAcknowledgeJob_new env (ag_active ag) (ag_lamport ag) cc) ag) commands ag) (\<lambda>(ag, os1).
     case getCaceBelieveNotifications ag of (ag, notifications) \<Rightarrow>
     bindE (for_each (\<lambda>n ag. with_job (BelieveAcknowledgeJob_new env [cc_senderID n] (ag_lamport ag) n) ag) notifications ag) (\<lambda>(ag, os2).
     bindE (processJobs env ag) (\<lambda>(ag, os3).
       let ag = fold agentDisengangement (ag_remove ag) ag;
           ag = ag\<lparr>ag_remove := []\<rparr>;
           ag = (if ag_quiet ag \<and> ag_jobs ag = [] then clearAllMessageLists ag else ag)
       in Inr (ag\<lparr>ag_store := invalidate (\<lambda>_. e_dist env) (ag_store ag)\<rparr>, os1 @ os2 @ os3)))))"

section \<open>The interface for applications\<close>

definition distributeValue :: "cace_env \<Rightarrow> string \<Rightarrow> byte list \<Rightarrow> int \<Rightarrow> int \<Rightarrow> act" where
  "distributeValue env name value ty strategy ag =
     (let ag = (case getVariable (ag_store ag) name of
            None \<Rightarrow> ag\<lparr>ag_store := fst (addVariable (ag_store ag)
              (setValue_bytes value (ConsensusVariable name strategy long_max (ag_ownID ag) (e_dist env) (ag_lamport ag) ty)))\<rparr>
          | Some v \<Rightarrow>
              put_var ((setAcceptStrategy strategy
                ((setValue_bytes value v)\<lparr>cv_type := ty, cv_lamportAge := ag_lamport ag\<rparr>))
                \<lparr>cv_decissionTime := e_dist env\<rparr>) name ag)
      in with_job (CommandJob_new env name (In_store name) value (ag_active ag) (ag_lamport ag)) ag)"

definition requestVariable :: "cace_env \<Rightarrow> string \<Rightarrow> int \<Rightarrow> act" where
  "requestVariable env name agentID ag =
     (let ag = ag\<lparr>ag_store := deleteResponse (ag_store ag) name\<rparr>
      in with_job (RequestJob_new env name [agentID] (ag_lamport ag)) ag)"

definition writeVariable :: "cace_env \<Rightarrow> var_ref \<Rightarrow> int \<Rightarrow> act" where
  "writeVariable env r agentID ag =
     bindE (var_of ag r) (\<lambda>cv.
       with_job (WriteJob_new env (cv_name cv) r (cv_val cv) [agentID] (ag_lamport ag)) ag)"

definition getRequestedVariable :: "string \<Rightarrow> agent \<Rightarrow> agent \<times> cvar option" where
  "getRequestedVariable name ag =
     (case getResponse (ag_store ag) name of (s, r) \<Rightarrow> (ag\<lparr>ag_store := s\<rparr>, r))"

text \<open>\<open>addVariable\<close> with an object that is not in the store yet.\<close>

definition space_addVariable :: "cace_env \<Rightarrow> cvar \<Rightarrow> bool \<Rightarrow> agent \<Rightarrow> (agent \<times> net_out list \<times> bool) outcome" where
  "space_addVariable env var distribute ag =
     (case addVariable (ag_store ag) var of (s, ret) \<Rightarrow>
       let ag = ag\<lparr>ag_store := s\<rparr>;
           r = (if ret then In_store (cv_name var) else Detached var)
       in bindE (if distribute
                 then with_job (CommandJob_new env (cv_name var) r (cv_val var) (ag_active ag) (ag_lamport ag)) ag
                 else skip ag) (\<lambda>(ag, os). Inr (ag, os, ret)))"

end
