(* ===== verification/CaceHandshake.thy ===== *)
theory CaceHandshake
  imports CaceAgent
begin

text \<open>
  What the handshakes of \<open>CaceAgent\<close> achieve and where they do not: agreement of two agents on
  a distributed value, the retries of a job, requests and responses, what an agent sends at all,
  and the messages that the code sends to the wrong place or with a time that the receiver
  ignores.
\<close>

section \<open>Lemmas on the operations\<close>

lemma seq_skip [simp]: "seq skip f = f"
  by (rule ext) (auto simp: seq_def skip_def bindE_def split: sum.splits)

lemma updateLamportTime_ge: "seen \<noteq> - 1 \<Longrightarrow> ag_lamport ag \<le> ag_lamport (updateLamportTime seen ag)"
  by (simp add: updateLamportTime_def word_le_nat_alt word_less_nat_alt unat_plus1)

lemma updateLamportTime_seen: "seen \<noteq> - 1 \<Longrightarrow> seen \<le> ag_lamport (updateLamportTime seen ag)"
  using word_less_plus1_self [of seen] by (auto simp: updateLamportTime_def)

lemma updateLamportTime_simps [simp]:
  "ag_ownID (updateLamportTime t ag) = ag_ownID ag" "ag_store (updateLamportTime t ag) = ag_store ag"
  "ag_blacklist (updateLamportTime t ag) = ag_blacklist ag" "ag_active (updateLamportTime t ag) = ag_active ag"
  "ag_safeStep (updateLamportTime t ag) = ag_safeStep ag" "ag_jobs (updateLamportTime t ag) = ag_jobs ag"
  "ag_notifications (updateLamportTime t ag) = ag_notifications ag"
  "ag_shortAcks (updateLamportTime t ag) = ag_shortAcks ag" "ag_writeAcks (updateLamportTime t ag) = ag_writeAcks ag"
  by (simp_all add: updateLamportTime_def)

lemma tick_simps [simp]:
  "ag_ownID (tick ag) = ag_ownID ag" "ag_store (tick ag) = ag_store ag" "ag_lamport (tick ag) = ag_lamport ag + 1"
  "ag_blacklist (tick ag) = ag_blacklist ag" "ag_active (tick ag) = ag_active ag" "ag_jobs (tick ag) = ag_jobs ag"
  "ag_safeStep (tick ag) = ag_safeStep ag" "ag_writeAcks (tick ag) = ag_writeAcks ag"
  by (simp_all add: tick_def)

lemma ConsensusVariable_simps [simp]:
  "cv_hasValue (ConsensusVariable n s vt r dt l t) = False" "cv_val (ConsensusVariable n s vt r dt l t) = []"
  "cv_name (ConsensusVariable n s vt r dt l t) = n" "cv_type (ConsensusVariable n s vt r dt l t) = t"
  "cv_robotID (ConsensusVariable n s vt r dt l t) = r" "cv_lamportAge (ConsensusVariable n s vt r dt l t) = l"
  "cv_decissionTime (ConsensusVariable n s vt r dt l t) = dt" "cv_validityTime (ConsensusVariable n s vt r dt l t) = vt"
  "cv_strategy (ConsensusVariable n s vt r dt l t) = s" "cv_changeNotify (ConsensusVariable n s vt r dt l t) = []"
  "cv_proposals (ConsensusVariable n s vt r dt l t) = []"
  by (simp_all add: ConsensusVariable_def cvar_of_def belief_new_def setAcceptStrategy_def belief.defs)

lemma belief_new_simps [simp]:
  "cv_hasValue (belief_new n s vt r dt l t) = False" "cv_val (belief_new n s vt r dt l t) = []"
  "cv_name (belief_new n s vt r dt l t) = n" "cv_type (belief_new n s vt r dt l t) = t"
  "cv_robotID (belief_new n s vt r dt l t) = r" "cv_lamportAge (belief_new n s vt r dt l t) = l"
  "cv_decissionTime (belief_new n s vt r dt l t) = dt" "cv_validityTime (belief_new n s vt r dt l t) = vt"
  "cv_strategy (belief_new n s vt r dt l t) = s" "cv_changeNotify (belief_new n s vt r dt l t) = []"
  by (simp_all add: belief_new_def)

lemma setValue_bytes_simps [simp]:
  "cv_hasValue (setValue_bytes x v) = (x \<noteq> [])" "cv_val (setValue_bytes x v) = x"
  "cv_name (setValue_bytes x v) = cv_name v" "cv_type (setValue_bytes x v) = cv_type v"
  "cv_robotID (setValue_bytes x v) = cv_robotID v" "cv_lamportAge (setValue_bytes x v) = cv_lamportAge v"
  "cv_decissionTime (setValue_bytes x v) = cv_decissionTime v" "cv_validityTime (setValue_bytes x v) = cv_validityTime v"
  "cv_strategy (setValue_bytes x v) = cv_strategy v" "cv_changeNotify (setValue_bytes x v) = cv_changeNotify v"
  "cv_acceptFunction (setValue_bytes x v) = cv_acceptFunction v" "cv_arrivalTime (setValue_bytes x v) = cv_arrivalTime v"
  "cv_proposals (setValue_bytes x u) = cv_proposals (u :: cvar)"
  by (simp_all add: setValue_bytes_def)

lemma cv_update_changeNotify [simp]: "cv_changeNotify (cv_update w v) = cv_changeNotify v @ cv_changeNotify w"
  "cv_acceptFunction (cv_update w v) = cv_acceptFunction (setAcceptStrategy (cv_strategy w) v)"
  by (simp_all add: cv_update_def Let_def setAcceptStrategy_def)

definition uses_default :: "int \<Rightarrow> bool" where
  "uses_default s = (s = TwoWayHandShake \<or> s = ThreeWayHandShake)"

lemma uses_default_accept: "uses_default s \<Longrightarrow> cv_acceptFunction (setAcceptStrategy s v) = Default_accept"
  by (auto simp: uses_default_def setAcceptStrategy_def strategy_codes)

lemma uses_default_new:
  "uses_default s \<Longrightarrow> cv_acceptFunction (ConsensusVariable n s vt r dt l t) = Default_accept"
  "uses_default s \<Longrightarrow> cv_acceptFunction (belief_new n s vt r dt l t) = Default_accept"
  by (auto simp: uses_default_def ConsensusVariable_def cvar_of_def belief_new_def setAcceptStrategy_def
      strategy_codes belief.defs)

lemma uses_default_short: "uses_default s \<Longrightarrow> to_short s = s"
  by (auto simp: uses_default_def to_short_def strategy_codes)

lemma uses_default_level: "uses_default s \<Longrightarrow> s > NoDistribution" "uses_default s \<Longrightarrow> s > FireAndForget"
  by (auto simp: uses_default_def strategy_codes)

text \<open>A command for an unknown variable creates it with the commanded value.\<close>

lemma belief_of_command_simps [simp]:
  "cv_val (belief_of_command env cc) = cc_value cc" "cv_hasValue (belief_of_command env cc) = (cc_value cc \<noteq> [])"
  "cv_name (belief_of_command env cc) = cc_variableName cc" "cv_robotID (belief_of_command env cc) = cc_senderID cc"
  "cv_lamportAge (belief_of_command env cc) = cc_lamportTime cc" "cv_strategy (belief_of_command env cc) = cc_level cc"
  "cv_changeNotify (belief_of_command env cc) = []"
  by (simp_all add: belief_of_command_def Let_def)

lemma belief_of_ack_simps [simp]:
  "cv_val (belief_of_ack env v a) = ca_value a" "cv_hasValue (belief_of_ack env v a) = (ca_value a \<noteq> [])"
  "cv_name (belief_of_ack env v a) = ca_variableName a" "cv_robotID (belief_of_ack env v a) = ca_senderID a"
  "cv_lamportAge (belief_of_ack env v a) = ca_lamportTime a" "cv_strategy (belief_of_ack env v a) = cv_strategy v"
  "cv_changeNotify (belief_of_ack env v a) = []"
  by (simp_all add: belief_of_ack_def Let_def)

lemma unknown_command:
  assumes new: "getVariable (ag_store ag) (cc_variableName cc) = None" and wf: "store_wf (ag_store ag)"
    and s: "uses_default (cc_level cc)"
  obtains ag' cv where "command_doVariableUpdate env cc ag = (ag', cv, [])"
    and "getVariable (ag_store ag') (cc_variableName cc) = Some cv" and "store_wf (ag_store ag')"
    and "cv_name cv = cc_variableName cc" and "cv_val cv = cc_value cc"
    and "ag' = ag\<lparr>ag_store := ag_store ag'\<rparr>"
proof -
  define v where "v = (ConsensusVariable (cc_variableName cc) (cc_level cc) (cc_validityTime cc) (ag_ownID ag)
      (cc_decissionTime cc) (cc_lamportTime cc) (cc_type cc))\<lparr>cv_proposals := [belief_of_command env cc]\<rparr>"
  have fn: "cv_acceptFunction v = Default_accept" by (simp add: v_def uses_default_new [OF s])
  have v: "cv_proposals v = [belief_of_command env cc]" "cv_name v = cc_variableName cc" "cv_changeNotify v = []"
    by (simp_all add: v_def)
  define u where "u = fst (accept_in (Some (cc_value cc)) v)"
  have u: "accept_in (Some (cc_value cc)) v = (u, [])" "cv_name u = cc_variableName cc" "cv_val u = cc_value cc"
    unfolding u_def
    by (simp_all add: accept_in_def acceptProposals_def accept_call_def fn defaultAcceptStrategy_def
        take_commanded_def Let_def notify_def v)
  define ag' where "ag' = ag\<lparr>ag_store := fst (addVariable (ag_store ag) u)\<rparr>"
  have "command_doVariableUpdate env cc ag = (ag', u, [])"
    using new u(1) by (simp add: command_doVariableUpdate_def v_def [symmetric] ag'_def)
  moreover have "getVariable (ag_store ag') (cc_variableName cc) = Some u" "store_wf (ag_store ag')"
    using new wf by (simp_all add: ag'_def getVariable_simps u(2) store_wf_add)
  ultimately show thesis by (rule that) (use u in \<open>simp_all add: ag'_def\<close>)
qed

lemma getVariable_put_var:
  "store_wf (ag_store ag) \<Longrightarrow> getVariable (ag_store (put_var v n ag)) k = (if k = n then Some v else getVariable (ag_store ag) k)"
  by (simp add: put_var_def getVariable_def store_wf_def smap_get_put)

text \<open>A newer belief of the only other agent is taken over.\<close>

lemma first_ack:
  assumes v: "getVariable (ag_store ag) (ca_variableName ack) = Some v" "cv_proposals v = []"
      "cv_changeNotify v = []" "cv_acceptFunction v = Default_accept"
    and wf: "store_wf (ag_store ag)" and newer: "cv_lamportAge v < ca_lamportTime ack"
  obtains ag' u where "ack_doVariableUpdate env ack ag = (ag', u, [])"
    and "getVariable (ag_store ag') (ca_variableName ack) = Some u"
    and "cv_val u = ca_value ack" "cv_hasValue u = (ca_value ack \<noteq> [])" "cv_lamportAge u = ca_lamportTime ack"
    and "cv_proposals u = [belief_of_ack env v ack]" "cv_strategy u = cv_strategy v" "cv_name u = ca_variableName ack"
    and "ag' = ag\<lparr>ag_store := ag_store ag'\<rparr>"
proof -
  define w where "w = v\<lparr>cv_proposals := [belief_of_ack env v ack]\<rparr>"
  have w: "cv_proposals w = [belief_of_ack env v ack]" "cv_changeNotify w = []" "cv_acceptFunction w = Default_accept"
    "cv_lamportAge w = cv_lamportAge v"
    using v by (simp_all add: w_def)
  define u where "u = cv_update (belief_of_ack env v ack) w"
  have "winner_view w None = own_belief w" by (simp add: winner_view_def own_belief_def)
  then have "accept_in None w = (u, [])"
    using newer less_imp_neq [OF newer] by (simp add: accept_in_def acceptProposals_def accept_call_def w defaultAcceptStrategy_def
        take_commanded_def Let_def notify_def u_def)
  then have "ack_doVariableUpdate env ack ag = (put_var u (ca_variableName ack) ag, u, [])"
    using v(1,2) by (simp add: ack_doVariableUpdate_def merge_proposal_def Let_def w_def [symmetric])
  then show thesis
  proof (rule that)
    show "getVariable (ag_store (put_var u (ca_variableName ack) ag)) (ca_variableName ack) = Some u"
      by (simp add: getVariable_put_var wf)
  qed (simp_all add: u_def w put_var_def)
qed

section \<open>Two agents agree\<close>

text \<open>What the theorem needs of the two agents before the value is distributed.\<close>

definition ready_pair :: "agent \<Rightarrow> agent \<Rightarrow> string \<Rightarrow> bool" where
  "ready_pair a b name =
     (store_wf (ag_store a) \<and> store_wf (ag_store b) \<and>
      getVariable (ag_store a) name = None \<and> getVariable (ag_store b) name = None \<and>
      \<not> isBlacklisted a (ag_ownID b) \<and> \<not> isBlacklisted b (ag_ownID a) \<and>
      \<not> ag_safeStep a \<and> \<not> ag_safeStep b \<and> ag_active a = [ag_ownID b] \<and>
      unat (ag_lamport a) + 2 < 2 ^ 64)"

lemma distribute_new:
  assumes wf: "store_wf (ag_store a)" and new: "getVariable (ag_store a) name = None" and s: "uses_default s"
  obtains a' j v where "distributeValue env name x ty s a =
      Inr (a', [Out_command (command_of a v (jb_msgID j) x 0 (ag_lamport a + 1))])"
    and "getVariable (ag_store a') name = Some v" "store_wf (ag_store a')"
    and "cv_name v = name" "cv_val v = x" "cv_strategy v = s" "cv_proposals v = []" "cv_changeNotify v = []"
    and "cv_acceptFunction v = Default_accept" "cv_lamportAge v = ag_lamport a"
    and "ag_lamport a' = ag_lamport a + 1" "ag_ownID a' = ag_ownID a" "ag_blacklist a' = ag_blacklist a"
    and "ag_safeStep a' = ag_safeStep a" "ag_jobs a' = ag_jobs a @ [j]" "jb_kind j = CommandJob"
    and "jb_variable j = In_store name" "jb_expected j = ag_active a" "jb_lamportTime j = ag_lamport a"
proof -
  define v where "v = setValue_bytes x (ConsensusVariable name s long_max (ag_ownID a) (e_dist env) (ag_lamport a) ty)"
  have v: "cv_name v = name" "cv_val v = x" "cv_strategy v = s" "cv_proposals v = []" "cv_changeNotify v = []"
    "cv_acceptFunction v = Default_accept" "cv_lamportAge v = ag_lamport a"
    by (simp_all add: v_def uses_default_new [OF s])
  define a1 where "a1 = a\<lparr>ag_store := fst (addVariable (ag_store a) v)\<rparr>"
  have a1: "getVariable (ag_store a1) name = Some v" "store_wf (ag_store a1)"
    using wf new by (simp_all add: a1_def getVariable_simps v store_wf_add)
  define j where "j = (job_new env CommandJob name (In_store name) (ag_active a1) (ag_lamport a1) (make_msgID a1) x)
      \<lparr>jb_entities := entities_for env command_maxRetrys (ag_active a1)\<rparr>"
  define a2 where "a2 = append_job j (tick a1)"
  have own: "command_of (tick a1) w i y r l = command_of a w i y r l" for w i y r l
    by (simp add: command_of_def a1_def)
  have "distributeValue env name x ty s a = with_job (CommandJob_new env name (In_store name) x (ag_active a1) (ag_lamport a1)) a1"
    by (simp add: distributeValue_def new v_def a1_def)
  also have "\<dots> = Inr (a2, [Out_command (command_of a v (jb_msgID j) x 0 (ag_lamport a + 1))])"
    using uses_default_level(1) [OF s]
    by (simp add: with_job_def CommandJob_new_def var_of_def a1(1) v Let_def sendCaceCommand_def
        sendCaceCommand_at_def own a2_def j_def job_new_def a1_def [THEN arg_cong [of _ _ ag_lamport]])
  finally show thesis
    by (rule that) (use a1 v in \<open>simp_all add: a2_def append_job_def j_def job_new_def a1_def [THEN arg_cong [of _ _ ag_lamport]]
      a1_def [THEN arg_cong [of _ _ ag_ownID]] a1_def [THEN arg_cong [of _ _ ag_blacklist]]
      a1_def [THEN arg_cong [of _ _ ag_safeStep]] a1_def [THEN arg_cong [of _ _ ag_jobs]]
      a1_def [THEN arg_cong [of _ _ ag_active]]\<close>)
qed

lemma handle_new_command:
  assumes wf: "store_wf (ag_store b)" and new: "getVariable (ag_store b) (cc_variableName cc) = None"
    and s: "uses_default (cc_level cc)" and sender: "\<not> isBlacklisted b (cc_senderID cc)" "cc_receiverID cc = [0]"
    and live: "\<not> ag_safeStep b"
  obtains b' k w where "handleCaceCommand env cc b = Inr (b', [Out_ack k])"
    and "getVariable (ag_store b') (cc_variableName cc) = Some w" "cv_val w = cc_value cc"
    and "ca_senderID k = ag_ownID b" "ca_receiverID k = [0]" "ca_variableName k = cc_variableName cc"
    and "ca_value k = cc_value cc" "ca_lamportTime k = ag_lamport (updateLamportTime (cc_lamportTime cc) b)"
proof -
  define b1 where "b1 = updateLamportTime (cc_lamportTime cc) b"
  have b1: "ag_store b1 = ag_store b" "ag_safeStep b1 = ag_safeStep b" "ag_ownID b1 = ag_ownID b"
    by (simp_all add: b1_def)
  obtain b2 w where up: "command_doVariableUpdate env cc b1 = (b2, w, [])"
    and w: "getVariable (ag_store b2) (cc_variableName cc) = Some w" "cv_name w = cc_variableName cc" "cv_val w = cc_value cc"
    and b2: "b2 = b1\<lparr>ag_store := ag_store b2\<rparr>"
    by (rule unknown_command [of b1 cc env]) (use new wf s b1 in auto)
  have own: "ag_ownID b2 = ag_ownID b" by (subst b2) (simp add: b1)
  define j where "j = job_new env (CommandAcknowledgeJob cc) (cc_variableName cc) (In_store (cc_variableName cc))
      (ag_active b1) 0 (to_short (cc_msgID cc)) []"
  define k where "k = \<lparr>ca_senderID = ag_ownID b, ca_receiverID = [0], ca_variableName = cc_variableName cc,
      ca_value = cc_value cc, ca_msgID = jb_msgID j, ca_lamportTime = ag_lamport b1, ca_type = to_uint8 (cv_type w)\<rparr>"
  define b3 where "b3 = append_job (j\<lparr>jb_entities := jb_entities j @ entities_for env command_maxRetrys (jb_expected j)\<rparr>) b2"
  have addr: "addressed b1 (cc_receiverID cc)" by (simp add: addressed_def includesID_def broadcastID_def sender)
  have "handleCaceCommand env cc b = with_job (CommandAcknowledgeJob_new env (ag_active b1) (ag_lamport b1) cc) b1"
    using sender(1) addr by (simp add: handleCaceCommand_def b1_def [symmetric])
  also have "\<dots> = Inr (b3, [Out_ack k])"
    using live uses_default_level(2) [OF s]
    by (simp add: with_job_def CommandAcknowledgeJob_new_def b1 j_def [symmetric] command_acknowledge_def up
        sendCaceAcknowledge_at_def own w k_def b3_def)
  finally show thesis
    by (rule that [of b3 k w]) (simp_all add: b3_def append_job_def w k_def b1_def)
qed

text \<open>
  C26. A new value distributed with a handshake reaches agreement of two agents that do not know the
  variable yet (\<open>ready_pair\<close>; they do not block each other, are not in safe step mode, and the clock
  is not about to wrap): the only other active agent stores the value and acknowledges, and once
  the acknowledgement is handled the variable is agreed and both hold the value.
\<close>

theorem two_agents_agree:
  assumes ready: "ready_pair a b name" and s: "uses_default s" and x: "x \<noteq> []"
  shows "\<exists>a1 c b1 k a2 os v w. distributeValue env name x ty s a = Inr (a1, [Out_command c]) \<and>
    handleCaceCommand env' c b = Inr (b1, [Out_ack k]) \<and>
    handleCaceAcknowledge env k a1 = Inr (a2, os) \<and>
    getVariable (ag_store a2) name = Some v \<and> getVariable (ag_store b1) name = Some w \<and>
    cv_val v = x \<and> cv_val w = x \<and> isAgreed [ag_ownID b] v"
proof -
  have r: "store_wf (ag_store a)" "store_wf (ag_store b)" "getVariable (ag_store a) name = None"
    "getVariable (ag_store b) name = None" "\<not> isBlacklisted a (ag_ownID b)" "\<not> isBlacklisted b (ag_ownID a)"
    "\<not> ag_safeStep a" "\<not> ag_safeStep b" "unat (ag_lamport a) + 2 < 2 ^ 64"
    using ready by (simp_all add: ready_pair_def)
  obtain a1 and j :: job and v0 where d: "distributeValue env name x ty s a =
      Inr (a1, [Out_command (command_of a v0 (jb_msgID j) x 0 (ag_lamport a + 1))])"
    and v0: "getVariable (ag_store a1) name = Some v0" "store_wf (ag_store a1)" "cv_name v0 = name"
      "cv_strategy v0 = s" "cv_proposals v0 = []" "cv_changeNotify v0 = []"
      "cv_acceptFunction v0 = Default_accept" "cv_lamportAge v0 = ag_lamport a"
    and a1: "ag_blacklist a1 = ag_blacklist a" "ag_safeStep a1 = ag_safeStep a"
    by (rule distribute_new [OF r(1,3) s, of env x ty]) blast
  define c where "c = command_of a v0 (jb_msgID j) x 0 (ag_lamport a + 1)"
  have c: "cc_variableName c = name" "cc_level c = s" "cc_senderID c = ag_ownID a" "cc_receiverID c = [0]"
    "cc_value c = x" "cc_lamportTime c = ag_lamport a + 1"
    using uses_default_short [OF s] by (simp_all add: c_def command_of_def v0)
  obtain b1 k w where h: "handleCaceCommand env' c b = Inr (b1, [Out_ack k])"
    and w: "getVariable (ag_store b1) name = Some w" "cv_val w = x"
    and k: "ca_senderID k = ag_ownID b" "ca_receiverID k = [0]" "ca_variableName k = name" "ca_value k = x"
      "ca_lamportTime k = ag_lamport (updateLamportTime (ag_lamport a + 1) b)"
    by (rule handle_new_command [of b c env']) (use r s c in auto)
  have m1: "unat (- 1 :: 64 word) = 2 ^ 64 - 1" by (simp add: unsigned_minus_1_eq_mask mask_eq_exp_minus_1)
  have "ag_lamport a \<noteq> - 1" using r(9) m1 by auto
  moreover from this have "ag_lamport a + 1 \<noteq> - 1"
    using r(9) m1 unat_plus1 [of "ag_lamport a"] by (metis add.assoc less_diff_conv nat_less_le one_add_one)
  ultimately have newer: "cv_lamportAge v0 < ca_lamportTime k"
    using updateLamportTime_seen [of "ag_lamport a + 1" b] word_less_plus1_self [of "ag_lamport a"]
    by (simp add: k v0 order_less_le_trans)
  define a2 where "a2 = updateLamportTime (ca_lamportTime k) a1"
  obtain a3 v where up: "ack_doVariableUpdate env k a2 = (a3, v, [])"
    and v: "getVariable (ag_store a3) name = Some v" "cv_val v = x" "cv_hasValue v = (x \<noteq> [])"
      "cv_lamportAge v = ca_lamportTime k" "cv_proposals v = [belief_of_ack env v0 k]" "cv_strategy v = s"
    by (rule first_ack [of a2 k v0 env]) (use v0 newer k in \<open>auto simp: a2_def\<close>)
  have agreed: "isAgreed [ag_ownID b] v"
    using x by (simp add: isAgreed_def isAcknowledged_def checkConflict_def valueEqual_iff v k)
  have addr: "addressed a2 (ca_receiverID k)" by (simp add: addressed_def includesID_def broadcastID_def k)
  have "handleCaceAcknowledge env k a1 = with_job (ShortAckJob_new env (ag_lamport a2) k) a2"
    using r(5) addr by (simp add: handleCaceAcknowledge_def isBlacklisted_def a1 k(1) a2_def [symmetric])
  moreover have "\<not> ag_safeStep a2" using r(7) a1(2) by (simp add: a2_def)
  then have "\<exists>a4 os. with_job (ShortAckJob_new env (ag_lamport a2) k) a2 = Inr (a4, os) \<and> ag_store a4 = ag_store a3"
    by (cases "cv_strategy v > TwoWayHandShake")
      (simp_all add: with_job_def ShortAckJob_new_def short_acknowledge_def up sendCaceShortAck_def sendCaceShortAck_at_def append_job_def Let_def)
  then obtain a4 os where a4: "with_job (ShortAckJob_new env (ag_lamport a2) k) a2 = Inr (a4, os)"
    "ag_store a4 = ag_store a3" by blast
  ultimately have "handleCaceAcknowledge env k a1 = Inr (a4, os)" by simp
  moreover have "getVariable (ag_store a4) name = Some v" using v(1) a4(2) by simp
  ultimately show ?thesis
    using d [folded c_def] h v(2) w agreed by (intro exI conjI) assumption+
qed

definition demo_env :: cace_env where
  "demo_env = \<lparr>e_local = 50, e_dist = 60, e_estimate = (\<lambda>_. None), e_maxResend = 10, e_minResend = 1, e_maxRetrys = 3\<rparr>"

definition demo_agent :: "int \<Rightarrow> 64 word \<Rightarrow> int list \<Rightarrow> agent" where
  "demo_agent i lamport active = (Cace_init i)\<lparr>ag_lamport := lamport, ag_active := active\<rparr>"

lemma demo_ready: "ready_pair (demo_agent 1 5 [2]) (demo_agent 2 9 [1]) ''x''"
  using store_wf_new
  by (simp add: ready_pair_def demo_agent_def Cace_init_def isBlacklisted_def getVariable_def smap_get_def CVariableStore_def)

theorem two_agents_agree_witness:
  "\<exists>a1 c b1 k a2 os v w. distributeValue demo_env ''x'' [7] CInt TwoWayHandShake (demo_agent 1 5 [2]) = Inr (a1, [Out_command c]) \<and>
    handleCaceCommand demo_env c (demo_agent 2 9 [1]) = Inr (b1, [Out_ack k]) \<and>
    handleCaceAcknowledge demo_env k a1 = Inr (a2, os) \<and>
    getVariable (ag_store a2) ''x'' = Some v \<and> getVariable (ag_store b1) ''x'' = Some w \<and>
    cv_val v = [7] \<and> cv_val w = [7] \<and> isAgreed [2] v"
proof -
  have "ag_ownID (demo_agent 2 9 [1]) = 2" by (simp add: demo_agent_def Cace_init_def)
  then show ?thesis
    using two_agents_agree [OF demo_ready, of TwoWayHandShake "[7]" demo_env CInt demo_env]
    by (simp add: uses_default_def)
qed

section \<open>More than two agents\<close>

text \<open>
  \<open>update\<close> also copies the Lamport age, although its comment excludes it. With the default
  acceptance the variable has the largest age of all proposals afterwards, so that it counts
  as acknowledged only if all agents answered with the same Lamport time.
\<close>

theorem acknowledged_needs_equal_ages:
  assumes fn: "cv_acceptFunction v = Default_accept" and u: "u = fst (acceptProposals None v)"
    and p: "p \<in> set (cv_proposals u)" and ack: "isAcknowledged active u"
  shows "cv_lamportAge p = cv_lamportAge u"
proof (rule antisym)
  have ps: "cv_proposals u = cv_proposals v"
    using acceptProposals_takes [of v] fn by (auto simp: u)
  have "newer p (accepted_belief v)" by (rule default_newest [OF fn]) (use p ps in simp)
  then show "cv_lamportAge p \<le> cv_lamportAge u"
    using acceptProposals_value(2) [of v] fn by (auto simp: u newer_def)
  show "cv_lamportAge u \<le> cv_lamportAge p"
    using p ack by (auto simp: isAcknowledged_def list_all_iff not_less split: if_splits)
qed

theorem acknowledged_needs_equal_ages_witness:
  "cv_lamportAge (demo_belief 2 9 [7]) =
   cv_lamportAge (fst (acceptProposals None (demo_cvar 1 5 [7] [demo_belief 2 9 [7], demo_belief 3 9 [7]])))"
  by (rule acknowledged_needs_equal_ages [where v = "demo_cvar 1 5 [7] [demo_belief 2 9 [7], demo_belief 3 9 [7]]"
        and active = "[2, 3]", OF _ refl]) (code_simp)+

text \<open>Three agents hold the same value, and the one that distributed it is not agreed.\<close>

definition demo_three :: "(agent \<times> net_out list) outcome" where
  "demo_three =
     bindE (distributeValue demo_env ''x'' [7] CInt TwoWayHandShake (demo_agent 1 5 [2, 3])) (\<lambda>(a, os).
     case os of
       [Out_command c] \<Rightarrow>
         bindE (handleCaceCommand demo_env c (demo_agent 2 9 [1, 3])) (\<lambda>(_, os2).
         bindE (handleCaceCommand demo_env c (demo_agent 3 20 [1, 2])) (\<lambda>(_, os3).
         case os2 @ os3 of
           [Out_ack k2, Out_ack k3] \<Rightarrow>
             bindE (handleCaceAcknowledge demo_env k2 a) (\<lambda>(a, _). handleCaceAcknowledge demo_env k3 a)
         | _ \<Rightarrow> Inr (a, [])))
     | _ \<Rightarrow> Inr (a, []))"

lemma three_agents_not_agreed:
  "case demo_three of
     Inl _ \<Rightarrow> False
   | Inr (a, _) \<Rightarrow> (case getVariable (ag_store a) ''x'' of
        None \<Rightarrow> False
      | Some v \<Rightarrow> cv_val v = [7] \<and> map cv_val (cv_proposals v) = [[7], [7]] \<and>
          map cv_robotID (cv_proposals v) = [2, 3] \<and> \<not> isAgreed [2, 3] v)"
  by code_simp

text \<open>
  Two commands with the same Lamport time: since \<open>update\<close> keeps the own robot id, what an agent
  believes in the end depends on the order in which they arrive.
\<close>

definition demo_command :: "int \<Rightarrow> 64 word \<Rightarrow> byte list \<Rightarrow> cace_command" where
  "demo_command sender lamport x = \<lparr>cc_senderID = sender, cc_receiverID = [0], cc_variableName = ''x'',
     cc_value = x, cc_decissionTime = 60, cc_validityTime = long_max, cc_level = 40, cc_msgID = 1,
     cc_lamportTime = lamport, cc_type = 2\<rparr>"

definition final_value :: "act list \<Rightarrow> agent \<Rightarrow> byte list option" where
  "final_value fs ag =
     (case fold (\<lambda>f m. bindE m (\<lambda>(ag, _). f ag)) fs (Inr (ag, [])) of
        Inl _ \<Rightarrow> None
      | Inr (ag, _) \<Rightarrow> map_option cv_val (getVariable (ag_store ag) ''x''))"

theorem equal_times_depend_on_order:
  "final_value [handleCaceCommand demo_env (demo_command 2 5 [22]), handleCaceCommand demo_env (demo_command 3 5 [33])]
     (demo_agent 4 1 [2, 3]) = Some [22] \<and>
   final_value [handleCaceCommand demo_env (demo_command 3 5 [33]), handleCaceCommand demo_env (demo_command 2 5 [22])]
     (demo_agent 4 1 [2, 3]) = Some [33] \<and>
   final_value [handleCaceCommand demo_env (demo_command 2 5 [22]), handleCaceCommand demo_env (demo_command 3 5 [33])]
     (demo_agent 1 1 [2, 3]) = Some [33]"
  by code_simp

section \<open>Retries\<close>

definition retries_left :: "job_state list \<Rightarrow> nat" where
  "retries_left es = sum_list (map (\<lambda>e. nat (js_retrys e)) es)"

text \<open>An action that sends one message, for every agent with the given store, which it leaves as it is.\<close>

definition sends_one :: "var_store \<Rightarrow> (int \<Rightarrow> act) \<Rightarrow> bool" where
  "sends_one st send = (\<forall>i ag. ag_store ag = st \<longrightarrow> (\<exists>ag' m. send i ag = Inr (ag', [m]) \<and> ag_store ag' = st))"

definition is_due :: "cace_env \<Rightarrow> job_state \<Rightarrow> bool" where
  "is_due env e = (js_lastSent e + getEstimatedResendTime env (js_robotID e) < local_ticks env)"

lemma resend_expected_counts:
  assumes "sends_one st send" and "ag_store ag = st"
  shows "\<exists>e' rem' ag' os. resend_expected env send is e rem ag = Inr (e', rem', ag', os) \<and>
    nat (js_retrys e) = nat (js_retrys e') + length os \<and> rem \<le> rem' \<and>
    (rem < rem' \<and> is_due env e \<longrightarrow> os \<noteq> []) \<and> ag_store ag' = st"
  using assms(2)
proof (induction "is" arbitrary: e rem ag)
  case (Cons i "is")
  define rem1 where "rem1 = (if i = js_robotID e then rem + max (js_retrys e) 0 else rem)"
  show ?case
  proof (cases "resend_due env i e")
    case True
    obtain ag1 m where s: "send i ag = Inr (ag1, [m])" and st: "ag_store ag1 = st"
      using assms(1) Cons.prems unfolding sends_one_def by blast
    define e1 where "e1 = e\<lparr>js_lastSent := local_ticks env, js_retrys := js_retrys e - 1\<rparr>"
    obtain e' rem' ag' os where r: "resend_expected env send is e1 rem1 ag1 = Inr (e', rem', ag', os)"
      and n: "nat (js_retrys e1) = nat (js_retrys e') + length os" "rem1 \<le> rem'" "ag_store ag' = st"
      using Cons.IH [OF st] by blast
    have "0 < js_retrys e" using True by (simp add: resend_due_def)
    then have "nat (js_retrys e) = Suc (nat (js_retrys e1))" by (simp add: e1_def Suc_nat_eq_nat_zadd1)
    then show ?thesis using True s r n by (simp add: rem1_def [symmetric] e1_def [symmetric]) (simp add: rem1_def split: if_splits)
  next
    case False
    obtain e' rem' ag' os where r: "resend_expected env send is e rem1 ag = Inr (e', rem', ag', os)"
      and n: "nat (js_retrys e) = nat (js_retrys e') + length os" "rem1 \<le> rem'"
        "rem1 < rem' \<and> is_due env e \<longrightarrow> os \<noteq> []" "ag_store ag' = st"
      using Cons.IH [OF Cons.prems] by blast
    have "rem1 = rem" if "is_due env e" using False that by (auto simp: resend_due_def is_due_def rem1_def)
    then show ?thesis using False r n by (auto simp: rem1_def [symmetric]) (auto simp: rem1_def split: if_splits)
  qed
qed simp

lemma resend_entities_counts:
  assumes "sends_one st send" and "ag_store ag = st"
  shows "\<exists>es' rem' ag' os. resend_entities env send ids es rem ag = Inr (es', rem', ag', os) \<and>
    retries_left es = retries_left es' + length os \<and> rem \<le> rem' \<and>
    (rem < rem' \<and> (\<forall>e \<in> set es. is_due env e) \<longrightarrow> os \<noteq> []) \<and> ag_store ag' = st"
  using assms(2)
proof (induction es arbitrary: rem ag)
  case (Cons e es)
  obtain e' rem1 ag1 os1 where 1: "resend_expected env send ids e rem ag = Inr (e', rem1, ag1, os1)"
    "nat (js_retrys e) = nat (js_retrys e') + length os1" "rem \<le> rem1" "rem < rem1 \<and> is_due env e \<longrightarrow> os1 \<noteq> []"
    "ag_store ag1 = st"
    using resend_expected_counts [OF assms(1) Cons.prems] by blast
  obtain es' rem2 ag2 os2 where 2: "resend_entities env send ids es rem1 ag1 = Inr (es', rem2, ag2, os2)"
    "retries_left es = retries_left es' + length os2" "rem1 \<le> rem2"
    "rem1 < rem2 \<and> (\<forall>e \<in> set es. is_due env e) \<longrightarrow> os2 \<noteq> []" "ag_store ag2 = st"
    using Cons.IH [OF 1(5)] by blast
  show ?case using 1 2 by (auto simp: retries_left_def)
qed (simp add: retries_left_def)

lemma resend_job_counts:
  assumes "sends_one st send" and "ag_store ag = st"
  shows "\<exists>j' ag' os. resend_job env send j ag = Inr (j', ag', os) \<and> jb_expected j' = jb_expected j \<and>
    retries_left (jb_entities j) = retries_left (jb_entities j') + length os \<and>
    (0 < jb_remaining j' \<and> (\<forall>e \<in> set (jb_entities j). is_due env e) \<longrightarrow> os \<noteq> [])"
proof -
  obtain es' rem' ag' os where "resend_entities env send (jb_expected j) (jb_entities j) 0 ag = Inr (es', rem', ag', os)"
    "retries_left (jb_entities j) = retries_left es' + length os"
    "0 < rem' \<and> (\<forall>e \<in> set (jb_entities j). is_due env e) \<longrightarrow> os \<noteq> []"
    using resend_entities_counts [OF assms] by blast
  then show ?thesis by (auto simp: resend_job_def)
qed

lemma sends_one_simps [simp]:
  "sends_one st (\<lambda>i. sendCaceCommand_at v m x (f i) l)" "sends_one st (\<lambda>i. sendCaceBelieveNotification_at v r (f i) l)"
  "sends_one st (\<lambda>i. sendCaceVariableRequest_at (f i) m n l)" "sends_one st (\<lambda>i. sendCaceAcknowledge_at n x m (f i) ty l)"
  by (simp_all add: sends_one_def sendCaceCommand_at_def sendCaceBelieveNotification_at_def
      sendCaceVariableRequest_at_def sendCaceAcknowledge_at_def tick_def Let_def)

lemma var_of_store: "ag_store bg = ag_store ag \<Longrightarrow> var_of bg r = var_of ag r"
  by (cases r) (simp_all add: var_of_def)

definition has_var :: "agent \<Rightarrow> var_ref \<Rightarrow> bool" where
  "has_var ag r = (case var_of ag r of Inr _ \<Rightarrow> True | Inl _ \<Rightarrow> False)"

lemma has_varE:
  assumes "has_var ag r"
  obtains v where "var_of ag r = Inr v"
  using assms by (auto simp: has_var_def split: sum.splits)

lemma sends_one_of_variable:
  assumes "has_var ag r"
  shows "sends_one (ag_store ag) (\<lambda>i ag. bindE (var_of ag r) (\<lambda>v. sendCaceAcknowledge_at (n v) (x v) m (f i) (ty v) l ag))"
    and "sends_one (ag_store ag) (\<lambda>i ag. bindE (var_of ag r) (\<lambda>v. sendWriteCommand v m (f i) ag))"
proof -
  from assms obtain v where v: "var_of ag r = Inr v" by (rule has_varE)
  have same: "var_of bg r = Inr v" if "ag_store bg = ag_store ag" for bg
    using v var_of_store [OF that] by simp
  show "sends_one (ag_store ag) (\<lambda>i ag. bindE (var_of ag r) (\<lambda>v. sendCaceAcknowledge_at (n v) (x v) m (f i) (ty v) l ag))"
    "sends_one (ag_store ag) (\<lambda>i ag. bindE (var_of ag r) (\<lambda>v. sendWriteCommand v m (f i) ag))"
    by (simp_all add: sends_one_def same sendCaceAcknowledge_at_def sendWriteCommand_def sendWriteCommand_at_def
        tick_def Let_def)
qed

text \<open>A job that processes without an error uses up a retry for every message it sends.\<close>

definition spends :: "cace_env \<Rightarrow> job \<Rightarrow> process_result \<Rightarrow> bool" where
  "spends env j r = (\<exists>finished j' ag' os. r = Inr (finished, j', ag', os) \<and>
     retries_left (jb_entities j) = retries_left (jb_entities j') + length os \<and>
     (\<not> finished \<and> (\<forall>e \<in> set (jb_entities j). is_due env e) \<longrightarrow>
        retries_left (jb_entities j') < retries_left (jb_entities j)))"

lemma resend_spends:
  assumes "sends_one (ag_store ag) send" and "jb_entities k = jb_entities j"
    and fin: "\<And>k'. jb_remaining k' \<le> 0 \<Longrightarrow> finished k'"
  shows "spends env j (bindE (resend_job env send k ag) (\<lambda>(k, ag, os). Inr (finished k, k, ag, os)))"
proof -
  obtain j' ag' os where r: "resend_job env send k ag = Inr (j', ag', os)"
    and c: "retries_left (jb_entities j) = retries_left (jb_entities j') + length os"
      "0 < jb_remaining j' \<and> (\<forall>e \<in> set (jb_entities j). is_due env e) \<longrightarrow> os \<noteq> []"
    using resend_job_counts [OF assms(1) refl, of env k] assms(2) by auto
  have "retries_left (jb_entities j') < retries_left (jb_entities j)"
    if "\<not> finished j'" "\<forall>e \<in> set (jb_entities j). is_due env e"
    using c that fin [of j'] by (cases os) force+
  then show ?thesis using r c(1) by (auto simp: spends_def)
qed

lemma finishes_spends: "jb_entities k = jb_entities j \<Longrightarrow> spends env j (Inr (True, k, ag, []))"
  unfolding spends_def by (intro exI [of _ True] exI [of _ k] exI [of _ ag] exI [of _ "[]"]) simp

text \<open>
  The calls of \<open>process\<close> that only repeat messages: not the first call in safe step mode, which does the
  work of the constructor; the variable of the job exists, and \<open>WriteJob\<close> takes its
  acknowledgements off the list without leaving it. The jobs for a notification of a variable
  that is not acknowledged are left out; they never end (\<open>notification_job_never_ends\<close>,
  \<open>believe_acknowledge_job_never_ends\<close>).
\<close>

definition only_repeats :: "agent \<Rightarrow> job \<Rightarrow> bool" where
  "only_repeats ag j =
     (let started = (jb_attempts j \<noteq> 0 \<or> \<not> ag_safeStep ag) in
      case jb_kind j of
        CommandJob \<Rightarrow> has_var ag (jb_variable j)
      | CommandAcknowledgeJob cc \<Rightarrow> started \<and> (cc_level cc > FireAndForget \<longrightarrow> has_var ag (jb_variable j))
      | BelieveNotificationJob \<Rightarrow> (case var_of ag (jb_variable j) of Inr v \<Rightarrow> cv_strategy v > FireAndForget | Inl _ \<Rightarrow> False)
      | BelieveAcknowledgeJob n \<Rightarrow> started \<and> cc_level n > FireAndForget
      | ShortAckJob ack \<Rightarrow> started
      | WriteJob acks \<Rightarrow> has_var ag (jb_variable j) \<and>
          (case write_expected (acks @ snd (getWriteAcknowledgesAndRemove (jb_msgID j) ag)) (jb_expected j) 0 of
             Inr _ \<Rightarrow> True | Inl _ \<Rightarrow> False)
      | WriteAckJob cmd \<Rightarrow> started
      | RequestJob \<Rightarrow> True)"

lemma getAcksAndRemove_store [simp]:
  "ag_store (fst (getCaceShortAcksAndRemove m ag)) = ag_store ag"
  "ag_store (fst (getWriteAcknowledgesAndRemove m ag)) = ag_store ag"
  by (simp_all add: getCaceShortAcksAndRemove_def getWriteAcknowledgesAndRemove_def)

lemma CommandJob_spends:
  assumes "has_var ag (jb_variable j)"
  shows "spends env j (CommandJob_process env j ag)"
proof -
  from assms obtain v where v: "var_of ag (jb_variable j) = Inr v" by (rule has_varE)
  show ?thesis
    by (cases "cv_strategy v > FireAndForget")
      (auto simp: CommandJob_process_def v Let_def intro!: resend_spends finishes_spends)
qed

lemma BelieveNotificationJob_spends:
  assumes "var_of ag (jb_variable j) = Inr v" and "cv_strategy v > FireAndForget"
  shows "spends env j (BelieveNotificationJob_process env j ag)"
  using assms by (auto simp: BelieveNotificationJob_process_def Let_def intro!: resend_spends)

lemma RequestJob_spends: "spends env j (RequestJob_process env j ag)"
  by (auto simp: RequestJob_process_def Let_def intro!: resend_spends finishes_spends)

lemma CommandAcknowledgeJob_spends:
  assumes "jb_attempts j \<noteq> 0 \<or> \<not> ag_safeStep ag" and "cc_level cc > FireAndForget \<longrightarrow> has_var ag (jb_variable j)"
  shows "spends env j (CommandAcknowledgeJob_process env cc j ag)"
proof -
  define bg where "bg = fst (getCaceShortAcksAndRemove (jb_msgID j) ag)"
  have st: "ag_store bg = ag_store ag" by (simp add: bg_def)
  have ack: "has_var bg (jb_variable j)" if "cc_level cc > FireAndForget"
    using assms(2) that by (simp add: has_var_def var_of_store [OF st])
  show ?thesis
    using assms(1) by (cases "cc_level cc > FireAndForget")
      (auto simp: CommandAcknowledgeJob_process_def Let_def split_beta bg_def [symmetric] strategy_codes
        intro!: resend_spends finishes_spends sends_one_of_variable ack)
qed

lemma BelieveAcknowledgeJob_spends:
  assumes "jb_attempts j \<noteq> 0 \<or> \<not> ag_safeStep ag" and "cc_level n > FireAndForget"
  shows "spends env j (BelieveAcknowledgeJob_process env n j ag)"
  using assms by (auto simp: BelieveAcknowledgeJob_process_def Let_def split_beta intro!: resend_spends)

lemma answer_jobs_spend:
  assumes "jb_attempts j \<noteq> 0 \<or> \<not> ag_safeStep ag"
  shows "spends env j (ShortAckJob_process env ack j ag)" "spends env j (WriteAckJob_process env cmd j ag)"
  using assms by (auto simp: ShortAckJob_process_def WriteAckJob_process_def skip_def intro!: finishes_spends)

lemma WriteJob_spends:
  assumes v: "has_var ag (jb_variable j)"
    and x: "write_expected (acks @ snd (getWriteAcknowledgesAndRemove (jb_msgID j) ag)) (jb_expected j) 0 = Inr expected"
  shows "spends env j (WriteJob_process env acks j ag)"
proof -
  define bg where "bg = fst (getWriteAcknowledgesAndRemove (jb_msgID j) ag)"
  have st: "ag_store bg = ag_store ag" by (simp add: bg_def)
  have "has_var bg (jb_variable j)" using v by (simp add: has_var_def var_of_store [OF st])
  then show ?thesis
    by (auto simp: WriteJob_process_def Let_def split_beta x bg_def [symmetric]
        intro!: resend_spends sends_one_of_variable)
qed

lemma job_spends:
  assumes "only_repeats ag j"
  shows "spends env j (job_process env j ag)"
  using assms
  by (cases "jb_kind j")
    (auto simp: only_repeats_def job_process_def Let_def split: sum.splits
      intro: CommandJob_spends BelieveNotificationJob_spends RequestJob_spends CommandAcknowledgeJob_spends
        BelieveAcknowledgeJob_spends answer_jobs_spend WriteJob_spends)

text \<open>Calls, each with the agent as it is then, that leave the job open although all its resend times have passed.\<close>

fun stays_open :: "(cace_env \<times> agent) list \<Rightarrow> job \<Rightarrow> bool" where
  "stays_open [] j = True"
| "stays_open ((env, ag) # calls) j =
     (only_repeats ag j \<and> list_all (is_due env) (jb_entities j) \<and>
      (case job_process env j ag of
         Inr (finished, j', _) \<Rightarrow> \<not> finished \<and> stays_open calls j'
       | Inl _ \<Rightarrow> False))"

lemma stays_open_bound: "stays_open calls j \<Longrightarrow> length calls \<le> retries_left (jb_entities j)"
proof (induction calls j rule: stays_open.induct)
  case (2 env ag calls j)
  from job_spends [of ag j env] 2(2) obtain finished j' ag' os where
    p: "job_process env j ag = Inr (finished, j', ag', os)"
    and less: "\<not> finished \<longrightarrow> retries_left (jb_entities j') < retries_left (jb_entities j)"
    by (auto simp: spends_def list_all_iff)
  have "stays_open calls j'" "\<not> finished" using 2(2) p by simp_all
  moreover have "length calls \<le> retries_left (jb_entities j')" if "stays_open calls j'"
    using 2(1) [OF p refl refl that] .
  ultimately show ?case using less by simp
qed simp

text \<open>
  C27. Retries run out, for all eight kinds of jobs, except the jobs for a notification of a variable
  that is not acknowledged, which never end. Every call of \<open>process\<close> that only repeats messages
  (\<open>only_repeats\<close>: not the first one in safe step mode; the variable of the job exists) sends
  exactly as many messages as it takes from the retries that the job has left. A call that
  does not finish the job when all resend times have passed takes at least one, so that at most
  as many such calls as the job has retries leave it open.
\<close>

theorem retries_run_out:
  assumes "only_repeats ag j"
  shows "(\<exists>finished j' ag' os. job_process env j ag = Inr (finished, j', ag', os) \<and>
      retries_left (jb_entities j) = retries_left (jb_entities j') + length os \<and>
      (\<not> finished \<and> (\<forall>e \<in> set (jb_entities j). is_due env e) \<longrightarrow>
         retries_left (jb_entities j') < retries_left (jb_entities j))) \<and>
    (\<forall>calls. stays_open calls j \<longrightarrow> length calls \<le> retries_left (jb_entities j))"
  using job_spends [OF assms, of env] stays_open_bound [of _ j] by (simp add: spends_def)

text \<open>A job with ten retries for one agent, before and after a resend.\<close>

definition demo_job :: job where
  "demo_job = (job_new demo_env RequestJob ''x'' No_variable [2] 5 105 [])
     \<lparr>jb_entities := [\<lparr>js_robotID = 2, js_retrys = 3, js_lastSent = 20\<rparr>]\<rparr>"

theorem retries_run_out_witness:
  "case job_process demo_env demo_job (demo_agent 1 5 [2]) of
     Inr (finished, j', ag', os) \<Rightarrow> \<not> finished \<and> length os = 1 \<and> retries_left (jb_entities demo_job) = retries_left (jb_entities j') + 1
   | Inl _ \<Rightarrow> False"
proof -
  have "only_repeats (demo_agent 1 5 [2]) demo_job" by (simp add: only_repeats_def demo_job_def job_new_def)
  from conjunct1 [OF retries_run_out [OF this, of demo_env]] obtain finished j' ag' os where
    p: "job_process demo_env demo_job (demo_agent 1 5 [2]) = Inr (finished, j', ag', os)"
    and r: "retries_left (jb_entities demo_job) = retries_left (jb_entities j') + length os"
    by blast
  have "case job_process demo_env demo_job (demo_agent 1 5 [2]) of
      Inr (finished, j', ag', os) \<Rightarrow> \<not> finished \<and> length os = 1
    | Inl _ \<Rightarrow> False" by code_simp
  then show ?thesis using p r by simp
qed

text \<open>
  A notification job of a variable that is no longer acknowledged never ends: it compares with
  \<open>NoDistribution\<close> where \<open>CommandJob\<close> compares with \<open>FireAndForget\<close>.
\<close>

lemma notification_job_never_ends:
  assumes "var_of ag (jb_variable j) = Inr v" and "cv_strategy v = FireAndForget"
    and "drop_updated v (jb_lamportTime j) (jb_expected j) \<noteq> []" and "0 < jb_remaining j"
  shows "\<exists>j'. BelieveNotificationJob_process env j ag = Inr (False, j', ag, []) \<and> 0 < jb_remaining j'"
  using assms by (simp add: BelieveNotificationJob_process_def Let_def strategy_codes)

text \<open>The job that answers such a notification waits for short acknowledgements that nobody sends.\<close>

lemma believe_acknowledge_job_never_ends:
  assumes "cc_level n \<le> FireAndForget" and "jb_attempts j \<noteq> 0 \<or> \<not> ag_safeStep ag"
    and "drop_acked (snd (getCaceShortAcksAndRemove (jb_msgID j) ag)) (jb_expected j) \<noteq> []" and "0 < jb_remaining j"
  shows "\<exists>j' ag'. BelieveAcknowledgeJob_process env n j ag = Inr (False, j', ag', []) \<and> 0 < jb_remaining j'"
  using assms by (auto simp: BelieveAcknowledgeJob_process_def Let_def split_beta)

section \<open>Messages that are lost by construction\<close>

definition only :: "(net_out \<Rightarrow> bool) \<Rightarrow> (int \<Rightarrow> act) \<Rightarrow> bool" where
  "only P send = (\<forall>i ag ag' os. send i ag = Inr (ag', os) \<longrightarrow> (\<forall>m \<in> set os. P m))"

lemma onlyD: "only P send \<Longrightarrow> send i ag = Inr (ag', os) \<Longrightarrow> m \<in> set os \<Longrightarrow> P m"
  by (auto simp: only_def)

lemma resend_expected_only:
  assumes o: "only P send"
  shows "resend_expected env send is e rem ag = Inr (e', rem', ag', os) \<Longrightarrow> m \<in> set os \<Longrightarrow> P m"
proof (induction "is" arbitrary: e rem ag os)
  case (Cons i "is")
  define rem1 where "rem1 = (if i = js_robotID e then rem + max (js_retrys e) 0 else rem)"
  show ?case
  proof (cases "resend_due env i e")
    case True
    then obtain ag1 os1 e1 os2 where "send i ag = Inr (ag1, os1)"
      and "resend_expected env send is e1 rem1 ag1 = Inr (e', rem', ag', os2)" and "os = os1 @ os2"
      using Cons.prems(1) by (auto simp: bindE_Inr rem1_def [symmetric])
    then show ?thesis using Cons.IH Cons.prems(2) onlyD [OF o] by auto
  next
    case False
    then show ?thesis using Cons.prems Cons.IH by (simp add: rem1_def [symmetric])
  qed
qed simp

lemma resend_entities_only:
  assumes o: "only P send"
  shows "resend_entities env send ids es rem ag = Inr (es', rem', ag', os) \<Longrightarrow> m \<in> set os \<Longrightarrow> P m"
proof (induction es arbitrary: rem ag es' os)
  case (Cons e es)
  from Cons.prems(1) obtain e1 rem1 ag1 os1 es1 os2 where
    1: "resend_expected env send ids e rem ag = Inr (e1, rem1, ag1, os1)"
    and 2: "resend_entities env send ids es rem1 ag1 = Inr (es1, rem', ag', os2)" and os: "os = os1 @ os2"
    by (auto simp: bindE_Inr)
  show ?case using resend_expected_only [OF o 1] Cons.IH [OF 2] Cons.prems(2) os by auto
qed simp

lemma resend_job_only:
  assumes o: "only P send" and r: "resend_job env send j ag = Inr (j', ag', os)" and m: "m \<in> set os"
  shows "P m"
proof -
  from r obtain es rem where
    e: "resend_entities env send (jb_expected j) (jb_entities j) 0 ag = Inr (es, rem, ag', os)"
    by (auto simp: resend_job_def bindE_Inr)
  show ?thesis by (rule resend_entities_only [OF o e m])
qed

text \<open>
  A repeated belief notification is addressed to the agent whose id is the message id of the
  job; an agent with another id drops it.
\<close>

theorem notification_retry_misdirected:
  assumes p: "BelieveNotificationJob_process env j ag = Inr (finished, j', ag', os)"
    and m: "Out_notification n \<in> set os" and r: "ag_ownID r \<noteq> jb_msgID j" "jb_msgID j \<noteq> 0"
  shows "cc_receiverID n = [jb_msgID j] \<and>
    (\<exists>r'. handleCaceBelieveNotification n r = Inr (r', []) \<and> ag_notifications r' = ag_notifications r)"
proof -
  obtain v where v: "var_of ag (jb_variable j) = Inr v"
    using p by (auto simp: BelieveNotificationJob_process_def bindE_Inr)
  let ?send = "\<lambda>i. sendCaceBelieveNotification_at v (jb_msgID j) (to_short i) (jb_lamportTime j)"
  have o: "only (\<lambda>m. \<exists>n. m = Out_notification n \<and> cc_receiverID n = [jb_msgID j]) ?send"
    by (auto simp: only_def sendCaceBelieveNotification_at_def command_of_def)
  define j2 where "j2 = j\<lparr>jb_attempts := jb_attempts j + 1,
      jb_expected := drop_updated v (jb_lamportTime j) (jb_expected j)\<rparr>"
  have "\<exists>k. resend_job env ?send j2 ag = Inr (k, ag', os) \<or> os = []"
    using p by (auto simp: BelieveNotificationJob_process_def v Let_def bindE_Inr j2_def split: if_splits)
  then obtain k where "resend_job env ?send j2 ag = Inr (k, ag', os)" using m by auto
  from resend_job_only [OF o this m] have n: "cc_receiverID n = [jb_msgID j]" by simp
  then show ?thesis using r
    by (auto simp: handleCaceBelieveNotification_def skip_def Let_def addressed_def includesID_def broadcastID_def)
qed

definition demo_notification_job :: job where
  "demo_notification_job = (job_new demo_env BelieveNotificationJob ''x'' (Detached (demo_cvar 1 5 [7] [])) [2] 5 105 [])
     \<lparr>jb_entities := [\<lparr>js_robotID = 2, js_retrys = 3, js_lastSent = 20\<rparr>]\<rparr>"

theorem notification_retry_misdirected_witness:
  "\<exists>finished j' ag' n. BelieveNotificationJob_process demo_env demo_notification_job (demo_agent 1 5 [2]) =
      Inr (finished, j', ag', [Out_notification n]) \<and> cc_receiverID n = [105]"
proof -
  have "case BelieveNotificationJob_process demo_env demo_notification_job (demo_agent 1 5 [2]) of
      Inr (finished, j', ag', [Out_notification n]) \<Rightarrow> True | _ \<Rightarrow> False" by code_simp
  then obtain finished j' ag' n where p: "BelieveNotificationJob_process demo_env demo_notification_job (demo_agent 1 5 [2]) =
      Inr (finished, j', ag', [Out_notification n])"
    by (auto split: sum.splits prod.splits list.splits net_out.splits)
  have "cc_receiverID n = [jb_msgID demo_notification_job]"
    by (rule conjunct1 [OF notification_retry_misdirected [OF p, of n "demo_agent 2 9 [1]"]])
      (simp_all add: demo_notification_job_def job_new_def demo_agent_def Cace_init_def)
  then show ?thesis using p by (auto simp: demo_notification_job_def job_new_def)
qed

text \<open>
  Everything an agent does: its handlers of messages, a run of the agent loop with the jobs it
  processes, and the calls of applications.
\<close>

inductive agent_action :: "cace_env \<Rightarrow> act \<Rightarrow> bool" for env where
  "agent_action env (handleCaceVariableRequest r)"
| "agent_action env (handleCaceResponse env c)"
| "agent_action env (handleCaceWrite env c)"
| "agent_action env (handleCaceWriteAck s)"
| "agent_action env (handleCaceCommand env c)"
| "agent_action env (handleCaceAcknowledge env k)"
| "agent_action env (handleCaceBelieveNotification c)"
| "agent_action env (handleCaceShortAck s)"
| "agent_action env (handleCaceTime env t)"
| "agent_action env (sendTime env)"
| "agent_action env (agent_step env)"
| "agent_action env (changeScopeAndRestoreConsistency env scope)"
| "agent_action env (distributeValue env name x ty strategy)"
| "agent_action env (requestVariable env name i)"
| "agent_action env (writeVariable env v i)"
| "agent_action env (agentEngangement env i updates)"
| "agent_action env (\<lambda>ag. bindE (space_addVariable env u distribute ag) (\<lambda>(ag, os, _). Inr (ag, os)))"

definition no_write_ack :: "net_out list \<Rightarrow> bool" where
  "no_write_ack os = (\<forall>m \<in> set os. \<forall>a. m \<noteq> Out_write_ack a)"

lemma no_write_ack_simps [simp]:
  "no_write_ack []" "no_write_ack (m # os) \<longleftrightarrow> (\<forall>a. m \<noteq> Out_write_ack a) \<and> no_write_ack os"
  "no_write_ack (os @ os') \<longleftrightarrow> no_write_ack os \<and> no_write_ack os'"
  by (auto simp: no_write_ack_def)

text \<open>An action whose messages are no write acknowledgements.\<close>

definition writes_none :: "act \<Rightarrow> bool" where
  "writes_none f = (\<forall>ag ag' os. f ag = Inr (ag', os) \<longrightarrow> no_write_ack os)"

lemma writes_noneD: "writes_none f \<Longrightarrow> f ag = Inr (ag', os) \<Longrightarrow> no_write_ack os"
  by (simp add: writes_none_def)

lemmas send_defs = sendCaceCommand_at_def sendCaceCommand_def sendCaceResponse_at_def sendCaceResponse_def
  sendWriteCommand_at_def sendWriteCommand_def sendCaceBelieveNotification_at_def sendCaceBelieveNotification_def
  sendCaceAcknowledge_at_def sendCaceAcknowledge_def sendCaceShortAck_at_def sendCaceShortAck_def
  sendCaceWriteAck_def sendCaceVariableRequest_at_def sendCaceVariableRequest_def sendTime_def

lemma sends_write_none [simp]:
  "writes_none (sendCaceCommand_at v m x i l)" "writes_none (sendCaceCommand v m x i)"
  "writes_none (sendCaceResponse v m i)" "writes_none (sendWriteCommand v m i)"
  "writes_none (sendCaceBelieveNotification_at v i m l)" "writes_none (sendCaceBelieveNotification v i m)"
  "writes_none (sendCaceAcknowledge_at n x m i ty l)" "writes_none (sendCaceAcknowledge n x m i ty)"
  "writes_none (sendCaceShortAck n m i)" "writes_none (sendCaceWriteAck n m i)"
  "writes_none (sendCaceVariableRequest_at i m n l)" "writes_none (sendCaceVariableRequest i m n)"
  "writes_none (sendTime env)" "writes_none skip"
  by (auto simp: writes_none_def send_defs skip_def Let_def)

lemma writes_none_of_variable [simp]:
  "(\<And>v. writes_none (f v)) \<Longrightarrow> writes_none (\<lambda>ag. bindE (var_of ag r) (\<lambda>v. f v ag))"
  by (auto simp: writes_none_def bindE_Inr)

lemma for_each_writes_none [simp]:
  assumes "\<And>x. writes_none (f x)"
  shows "writes_none (for_each f xs)"
proof (induction xs)
  case (Cons x xs)
  then show ?case using assms [of x] by (fastforce simp: writes_none_def seq_def bindE_Inr)
qed simp

text \<open>The observers that are called get variables only.\<close>

lemma accept_in_none: "accept_in cmd v = (u, os) \<Longrightarrow> no_write_ack os"
  by (auto simp: accept_in_def no_write_ack_def split: prod.splits)

lemma updates_write_none:
  "command_doVariableUpdate env c ag = (ag', v, os) \<Longrightarrow> no_write_ack os"
  "ack_doVariableUpdate env k ag = (ag', v, os) \<Longrightarrow> no_write_ack os"
  "write_doVariableUpdate env c ag = (ag', v, os) \<Longrightarrow> no_write_ack os"
  by (auto simp: command_doVariableUpdate_def ack_doVariableUpdate_def write_doVariableUpdate_def Let_def
      split: option.splits prod.splits if_splits dest: accept_in_none) (auto simp: no_write_ack_def)

lemmas quiet_sends = sends_write_none [THEN writes_noneD]

lemma quiet_each:
  "for_each (\<lambda>i. sendCaceAcknowledge n x m (f i) ty) ids ag = Inr (ag', os) \<Longrightarrow> no_write_ack os"
  "for_each (\<lambda>i. sendCaceBelieveNotification v (f i) m) ids ag = Inr (ag', os) \<Longrightarrow> no_write_ack os"
  by (erule writes_noneD [rotated], rule for_each_writes_none, simp)+

lemma acknowledge_writes_none:
  assumes "\<And>v. writes_none (send v)"
  shows "command_acknowledge env send c j ag = Inr (j', ag', os) \<Longrightarrow> no_write_ack os"
  by (auto simp: command_acknowledge_def bindE_Inr split: prod.splits if_splits
      dest: updates_write_none writes_noneD [OF assms])

lemma answers_write_none:
  "command_acknowledge env (\<lambda>v. sendCaceAcknowledge_at (n v) (x v) m i (ty v) l) c j ag = Inr (j', ag', os) \<Longrightarrow> no_write_ack os"
  "command_acknowledge env (\<lambda>v. sendCaceAcknowledge (n v) (x v) m i (ty v)) c j ag = Inr (j', ag', os) \<Longrightarrow> no_write_ack os"
  "believe_acknowledge env cn j ag = Inr (j', ag', os) \<Longrightarrow> no_write_ack os"
  "short_acknowledge env k ag = Inr (ag', os) \<Longrightarrow> no_write_ack os"
  "write_acknowledge env c ag = Inr (ag', os) \<Longrightarrow> no_write_ack os"
  by (rule acknowledge_writes_none [rotated], assumption, simp)+
    (auto simp: believe_acknowledge_def believe_doVariableUpdate_def short_acknowledge_def write_acknowledge_def
      bindE_Inr split: prod.splits if_splits dest: updates_write_none quiet_sends quiet_each)

lemma new_jobs_write_none:
  "CommandJob_new env name r x ids l ag = Inr (j, ag', os) \<Longrightarrow> no_write_ack os"
  "BelieveNotificationJob_new env name r x ids l ag = Inr (j, ag', os) \<Longrightarrow> no_write_ack os"
  "CommandAcknowledgeJob_new env ids l c ag = Inr (j, ag', os) \<Longrightarrow> no_write_ack os"
  "BelieveAcknowledgeJob_new env ids l c ag = Inr (j, ag', os) \<Longrightarrow> no_write_ack os"
  "ShortAckJob_new env l k ag = Inr (j, ag', os) \<Longrightarrow> no_write_ack os"
  "WriteAckJob_new env l c ag = Inr (j, ag', os) \<Longrightarrow> no_write_ack os"
  "WriteJob_new env name r x ids l ag = Inr (j, ag', os) \<Longrightarrow> no_write_ack os"
  "RequestJob_new env name ids l ag = Inr (j, ag', os) \<Longrightarrow> no_write_ack os"
  by (auto simp: CommandJob_new_def BelieveNotificationJob_new_def CommandAcknowledgeJob_new_def
      BelieveAcknowledgeJob_new_def ShortAckJob_new_def WriteAckJob_new_def WriteJob_new_def RequestJob_new_def
      Let_def bindE_Inr split: if_splits list.splits
      dest: answers_write_none quiet_sends quiet_each)

text \<open>Processing: repeated messages are of the kind of the job, none a write acknowledgement.\<close>

lemma resend_writes_none:
  assumes "\<And>i. writes_none (send i)" and "resend_job env send j ag = Inr (j', ag', os)"
  shows "no_write_ack os"
proof -
  have o: "only (\<lambda>m. \<forall>a. m \<noteq> Out_write_ack a) send"
    using assms(1) by (auto simp: only_def writes_none_def no_write_ack_def)
  show ?thesis using resend_job_only [OF o assms(2)] by (simp add: no_write_ack_def)
qed

lemma quiet_resends:
  "resend_job env (\<lambda>i. sendCaceCommand_at v m x (f i) l) j ag = Inr (j', ag', os) \<Longrightarrow> no_write_ack os"
  "resend_job env (\<lambda>i. sendCaceBelieveNotification_at v n (f i) l) j ag = Inr (j', ag', os) \<Longrightarrow> no_write_ack os"
  "resend_job env (\<lambda>i. sendCaceVariableRequest_at (f i) m name l) j ag = Inr (j', ag', os) \<Longrightarrow> no_write_ack os"
  "resend_job env (\<lambda>i. sendCaceAcknowledge_at name x m (f i) ty l) j ag = Inr (j', ag', os) \<Longrightarrow> no_write_ack os"
  "resend_job env (\<lambda>i ag. bindE (var_of ag r) (\<lambda>v. sendCaceAcknowledge_at (cv_name v) (cv_val v) m (f i) (cv_type v) l ag)) j ag =
     Inr (j', ag', os) \<Longrightarrow> no_write_ack os"
  "resend_job env (\<lambda>i ag. bindE (var_of ag r) (\<lambda>v. sendWriteCommand v m (f i) ag)) j ag = Inr (j', ag', os) \<Longrightarrow> no_write_ack os"
  by (erule resend_writes_none [rotated], simp)+

lemma job_process_writes_none:
  assumes "job_process env j ag = Inr (finished, j', ag', os)"
  shows "no_write_ack os"
proof (cases "jb_kind j")
  case CommandJob
  with assms show ?thesis
    by (auto simp: job_process_def CommandJob_process_def Let_def bindE_Inr split: if_splits
        dest: quiet_resends)
next
  case (CommandAcknowledgeJob c)
  with assms show ?thesis
    by (auto simp: job_process_def CommandAcknowledgeJob_process_def Let_def bindE_Inr split_beta split: if_splits
        dest: answers_write_none quiet_resends)
next
  case BelieveNotificationJob
  with assms show ?thesis
    by (auto simp: job_process_def BelieveNotificationJob_process_def Let_def bindE_Inr split: if_splits
        dest: quiet_resends)
next
  case (BelieveAcknowledgeJob n)
  with assms show ?thesis
    by (auto simp: job_process_def BelieveAcknowledgeJob_process_def Let_def bindE_Inr split_beta split: if_splits
        dest: answers_write_none quiet_resends)
next
  case (ShortAckJob k)
  with assms show ?thesis
    by (auto simp: job_process_def ShortAckJob_process_def bindE_Inr skip_def split: if_splits dest: answers_write_none)
next
  case (WriteJob s)
  with assms show ?thesis
    by (auto simp: job_process_def WriteJob_process_def Let_def bindE_Inr split_beta dest: quiet_resends)
next
  case (WriteAckJob c)
  with assms show ?thesis
    by (auto simp: job_process_def WriteAckJob_process_def bindE_Inr skip_def split: if_splits dest: answers_write_none)
next
  case RequestJob
  with assms show ?thesis
    by (auto simp: job_process_def RequestJob_process_def Let_def bindE_Inr split: if_splits
        dest: quiet_resends)
qed

lemma process_list_writes_none:
  "process_list env js ag = Inr (js', ag', os) \<Longrightarrow> no_write_ack os"
proof (induction js arbitrary: ag js' ag' os)
  case (Cons j js)
  then show ?case by (auto simp: bindE_Inr Let_def dest!: job_process_writes_none)
qed simp

lemma processJobs_writes_none: "writes_none (processJobs env)"
  by (auto simp: writes_none_def processJobs_def bindE_Inr dest: process_list_writes_none)

lemma with_job_writes_none:
  assumes "\<And>ag j ag' os. create ag = Inr (j, ag', os) \<Longrightarrow> no_write_ack os"
  shows "writes_none (with_job create)"
  using assms by (auto simp: writes_none_def with_job_def bindE_Inr)

lemma new_jobs_appended [simp]:
  "writes_none (with_job (CommandJob_new env name r x ids l))"
  "writes_none (with_job (BelieveNotificationJob_new env name r x ids l))"
  "writes_none (with_job (CommandAcknowledgeJob_new env ids l c))"
  "writes_none (with_job (BelieveAcknowledgeJob_new env ids l c))"
  "writes_none (with_job (ShortAckJob_new env l k))"
  "writes_none (with_job (WriteAckJob_new env l c))"
  "writes_none (with_job (WriteJob_new env name r x ids l))"
  "writes_none (with_job (RequestJob_new env name ids l))"
  by (rule with_job_writes_none, erule new_jobs_write_none)+

lemma seq_writes_none:
  assumes "writes_none f" and "writes_none g"
  shows "writes_none (seq f g)"
  using assms by (fastforce simp: writes_none_def seq_def bindE_Inr)

lemma send_believe_updates_writes_none [simp]: "writes_none (send_believe_updates env i)"
proof -
  have "writes_none (for_each (\<lambda>(v, x, ids, l).
      with_job (BelieveNotificationJob_new env (cv_name v) (In_store (cv_name v)) x ids l)) xs)" for xs
    by (rule for_each_writes_none) (simp split: prod.split)
  from writes_noneD [OF this] show ?thesis unfolding writes_none_def send_believe_updates_def by blast
qed

lemma agentEngangement_writes_none [simp]: "writes_none (agentEngangement env i u)"
  unfolding writes_none_def agentEngangement_def Let_def
  by (auto simp: skip_def split: if_splits dest: writes_noneD [OF send_believe_updates_writes_none])

lemma each_job_quiet:
  "for_each (\<lambda>c ag. with_job (CommandAcknowledgeJob_new env (ag_active ag) (ag_lamport ag) c) ag) cs ag = Inr (ag', os) \<Longrightarrow> no_write_ack os"
  "for_each (\<lambda>n ag. with_job (BelieveAcknowledgeJob_new env [cc_senderID n] (ag_lamport ag) n) ag) ns ag = Inr (ag', os) \<Longrightarrow> no_write_ack os"
  by (erule writes_noneD [rotated], rule for_each_writes_none,
      simp add: writes_none_def with_job_def bindE_Inr, blast dest: new_jobs_write_none)+

lemma agent_step_writes_none: "writes_none (agent_step env)"
  by (auto simp: writes_none_def agent_step_def getCommands_def getCaceBelieveNotifications_def bindE_Inr Let_def
      dest: each_job_quiet writes_noneD [OF processJobs_writes_none])

lemma agent_action_writes_none: "agent_action env f \<Longrightarrow> writes_none f"
proof (induction rule: agent_action.induct)
  case (11)
  show ?case by (rule agent_step_writes_none)
qed (auto simp: writes_none_def handleCaceVariableRequest_def handleCaceResponse_def handleCaceWrite_def
    handleCaceWriteAck_def handleCaceCommand_def handleCaceAcknowledge_def handleCaceBelieveNotification_def
    handleCaceShortAck_def handleCaceTime_def changeScopeAndRestoreConsistency_def distributeValue_def
    requestVariable_def writeVariable_def space_addVariable_def Let_def skip_def bindE_Inr split: if_splits prod.splits
    dest: quiet_sends new_jobs_appended [THEN writes_noneD] writes_noneD [OF agentEngangement_writes_none]
      writes_noneD [OF for_each_writes_none [OF send_believe_updates_writes_none]])

text \<open>
  C31. A write is never acknowledged: nothing that an agent does sends a write acknowledgement, neither
  the handler of write commands nor a job that answers one in safe step mode. The answer is a
  short acknowledgement, which the writer keeps in another queue than the one its job reads.
\<close>

theorem write_never_acknowledged:
  assumes "agent_action env f" and "f ag = Inr (ag', os)"
  shows "Out_write_ack a \<notin> set os \<and>
    (Out_short_ack sa \<in> set os \<and> handleCaceShortAck sa w = Inr (w', os') \<longrightarrow> ag_writeAcks w' = ag_writeAcks w)"
proof -
  have "no_write_ack os" by (rule writes_noneD [OF agent_action_writes_none [OF assms(1)] assms(2)])
  then show ?thesis by (auto simp: no_write_ack_def handleCaceShortAck_def skip_def Let_def split: if_splits)
qed

text \<open>In safe step mode the write command is answered by the next run of the agent loop.\<close>

definition demo_safe_step :: "(agent \<times> net_out list) outcome" where
  "demo_safe_step = bindE (handleCaceWrite demo_env (demo_command 1 5 [7]) ((demo_agent 2 9 [1])\<lparr>ag_safeStep := True\<rparr>))
     (\<lambda>(ag, _). agent_step demo_env ag)"

theorem write_never_acknowledged_witness:
  "case demo_safe_step of
     Inr (ag', os) \<Rightarrow> (\<forall>a. Out_write_ack a \<notin> set os) \<and> (\<exists>sa. Out_short_ack sa \<in> set os) | Inl _ \<Rightarrow> False"
proof -
  have x: "case demo_safe_step of Inr (_, os) \<Rightarrow> list_ex (\<lambda>m. case m of Out_short_ack _ \<Rightarrow> True | _ \<Rightarrow> False) os
      | Inl _ \<Rightarrow> False" by code_simp
  then obtain ag' os where d: "demo_safe_step = Inr (ag', os)"
    and s: "list_ex (\<lambda>m. case m of Out_short_ack _ \<Rightarrow> True | _ \<Rightarrow> False) os"
    by (auto split: sum.splits)
  from d obtain ag where h: "agent_step demo_env ag = Inr (ag', os)"
    by (auto simp: demo_safe_step_def bindE_Inr)
  have "Out_write_ack a \<notin> set os" for a
    by (rule write_never_acknowledged [OF agent_action.intros(11) h, THEN conjunct1])
  moreover have "\<exists>sa. Out_short_ack sa \<in> set os"
  proof -
    from s obtain m where "m \<in> set os" "case m of Out_short_ack _ \<Rightarrow> True | _ \<Rightarrow> False"
      by (auto simp: list_ex_iff)
    then show ?thesis by - (cases m, auto)
  qed
  ultimately show ?thesis by (auto simp: d)
qed

text \<open>
  \<open>CommandAcknowledgeJob\<close> redeclares \<open>lamportTime\<close>, and its constructor assigns the parameter of
  that name, so the member stays 0 (\<open>CommandAcknowledgeJob_new_time\<close>) and every repeated
  acknowledgement carries the time 0.
\<close>

lemma CommandAcknowledgeJob_new_time:
  "CommandAcknowledgeJob_new env ids lamport cc ag = Inr (j, ag', os) \<Longrightarrow> jb_lamportTime j = 0"
  by (auto simp: CommandAcknowledgeJob_new_def Let_def command_acknowledge_def bindE_Inr job_new_def
      split: if_splits prod.splits)

lemma accept_call_proposals: "cv_proposals (fst (accept_call this w p cmd)) = cv_proposals this"
  by (auto simp: accept_call_def defaultAcceptStrategy_def lowestIDAcceptStrategy_def mostRecentAcceptStrategy_def
      electionAcceptStrategy_def listAcceptStrategy_def take_commanded_def Let_def split: accept_fn.split option.split)

lemma accept_loop_proposals: "cv_proposals (fst (accept_loop this w cmd ps)) = cv_proposals this"
proof (induction ps arbitrary: this w)
  case (Cons p ps)
  obtain t b where c: "accept_call this w p cmd = (t, b)" by force
  then have "cv_proposals t = cv_proposals this" using accept_call_proposals [of this w p cmd] by simp
  then show ?case using Cons.IH [of t] by (simp add: c)
qed simp

lemma accept_in_proposals: "cv_proposals (fst (accept_in cmd v)) = cv_proposals v"
  using accept_loop_proposals [of v None cmd "cv_proposals v"]
  by (auto simp: accept_in_def acceptProposals_def Let_def split: prod.splits option.splits)

lemma merge_proposal_old:
  assumes "merge_proposal sender 0 upd new ps = (ps', b)" and "cv_lamportAge new = 0"
  shows "\<exists>qs. ps' = ps @ qs \<and> (\<forall>q \<in> set qs. cv_lamportAge q = 0)"
proof -
  have "\<not> cv_lamportAge p < 0" for p :: belief by simp
  then have "ps' = ps \<or> ps' = ps @ [new]"
    using assms(1) by (auto simp: merge_proposal_def Let_def split: if_splits)
  then show ?thesis using assms(2) by auto
qed

lemma drop_updated_old:
  assumes "cv_proposals u = cv_proposals v @ qs" and "\<forall>q \<in> set qs. cv_lamportAge q = 0" and "0 < lamport"
  shows "drop_updated u lamport ids = drop_updated v lamport ids"
  using assms by (auto simp: drop_updated_def list_ex_iff intro!: filter_cong)

lemma with_job_store: "with_job create ag = Inr (ag', os) \<Longrightarrow> \<exists>j ag1. create ag = Inr (j, ag1, os) \<and> ag_store ag' = ag_store ag1"
  by (auto simp: with_job_def bindE_Inr append_job_def)

lemma ack_time_zero:
  assumes v: "getVariable (ag_store ag) (ca_variableName k) = Some v" and wf: "store_wf (ag_store ag)"
    and t: "ca_lamportTime k = 0"
  shows "\<exists>u ag' calls. ack_doVariableUpdate env k ag = (ag', u, calls) \<and>
    getVariable (ag_store ag') (ca_variableName k) = Some u \<and>
    (\<exists>qs. cv_proposals u = cv_proposals v @ qs \<and> (\<forall>q \<in> set qs. cv_lamportAge q = 0))"
proof -
  obtain ps b where m: "merge_proposal (ca_senderID k) (ca_lamportTime k) (refresh_from_ack env k)
      (belief_of_ack env v k) (cv_proposals v) = (ps, b)" by force
  then obtain qs where qs: "ps = cv_proposals v @ qs" "\<forall>q \<in> set qs. cv_lamportAge q = 0"
    using merge_proposal_old [of "ca_senderID k"] t by fastforce
  define w where "w = v\<lparr>cv_proposals := ps\<rparr>"
  obtain u calls where u: "(if b then accept_in None w else (w, [])) = (u, calls)" by force
  then have "cv_proposals u = cv_proposals w" using accept_in_proposals [of None w] by (auto split: if_splits)
  then have "cv_proposals u = ps" by (simp add: w_def)
  moreover have "ack_doVariableUpdate env k ag = (put_var u (ca_variableName k) ag, u, calls)"
    using v m u by (simp add: ack_doVariableUpdate_def w_def [symmetric])
  ultimately show ?thesis using qs by (auto simp: getVariable_put_var wf)
qed

text \<open>
  The receiver of a repeated acknowledgement does not count it: the agents it still expects an
  answer from are the same before and after.
\<close>

theorem repeated_acknowledgement_ignored:
  assumes p: "CommandAcknowledgeJob_process env cc j ag = Inr (finished, j', ag', os)"
    and j: "jb_lamportTime j = 0" "\<not> ag_safeStep ag" and k: "Out_ack k \<in> set os"
    and r: "handleCaceAcknowledge env' k r = Inr (r', os')" "store_wf (ag_store r)" "\<not> ag_safeStep r"
    and v: "getVariable (ag_store r) (ca_variableName k) = Some v" and lamport: "0 < lamport"
  shows "\<exists>u. getVariable (ag_store r') (ca_variableName k) = Some u \<and>
    drop_updated u lamport ids = drop_updated v lamport ids"
proof -
  define ag1 where "ag1 = fst (getCaceShortAcksAndRemove (jb_msgID j) ag)"
  define j2 where "j2 = j\<lparr>jb_attempts := jb_attempts j + 1,
      jb_expected := drop_acked (snd (getCaceShortAcksAndRemove (jb_msgID j) ag)) (jb_expected j)\<rparr>"
  let ?send = "\<lambda>i ag. bindE (var_of ag (jb_variable j)) (\<lambda>cv.
      sendCaceAcknowledge_at (cv_name cv) (cv_val cv) (jb_msgID j) (to_short i) (cv_type cv) 0 ag)"
  have o: "only (\<lambda>m. \<exists>k. m = Out_ack k \<and> ca_lamportTime k = 0) ?send"
    by (auto simp: only_def sendCaceAcknowledge_at_def bindE_Inr)
  have "\<exists>k. resend_job env ?send j2 ag1 = Inr (k, ag', os) \<or> os = []"
    using p j by (auto simp: CommandAcknowledgeJob_process_def Let_def bindE_Inr j2_def ag1_def
        split: if_splits prod.splits)
  then obtain l where "resend_job env ?send j2 ag1 = Inr (l, ag', os)" using k by auto
  from resend_job_only [OF o this k] have t: "ca_lamportTime k = 0" by simp
  define r1 where "r1 = updateLamportTime (ca_lamportTime k) r"
  have r1: "ag_store r1 = ag_store r" "\<not> ag_safeStep r1" using r(3) by (simp_all add: r1_def)
  obtain u r2 calls qs where up: "ack_doVariableUpdate env' k r1 = (r2, u, calls)"
    and u: "getVariable (ag_store r2) (ca_variableName k) = Some u"
    and qs: "cv_proposals u = cv_proposals v @ qs" "\<forall>q \<in> set qs. cv_lamportAge q = 0"
    using ack_time_zero [of r1 k v env'] v r(2) t r1 by auto
  have "r' = r \<or> r' = r1 \<or> ag_store r' = ag_store r2"
    using r(1)
    by (auto simp: handleCaceAcknowledge_def skip_def Let_def ShortAckJob_new_def short_acknowledge_def up r1 bindE_Inr
        sendCaceShortAck_def sendCaceShortAck_at_def r1_def [symmetric] dest!: with_job_store split: if_splits)
  then show ?thesis using v u r1(1) drop_updated_old [OF qs lamport, of ids] by auto
qed

definition demo_answer_job :: job where
  "demo_answer_job = (job_new demo_env (CommandAcknowledgeJob ((demo_command 1 5 [7])\<lparr>cc_level := 70\<rparr>)) ''x''
     (Detached (demo_cvar 2 5 [7] [])) [1] 0 105 [])
     \<lparr>jb_entities := [\<lparr>js_robotID = 1, js_retrys = 3, js_lastSent = 20\<rparr>], jb_attempts := 1\<rparr>"

definition demo_receiver :: agent where
  "demo_receiver = (demo_agent 1 5 [2])\<lparr>ag_store := demo_store\<rparr>"

lemma single_ack:
  "(case r of Inl _ \<Rightarrow> False | Inr (f, j, a, os) \<Rightarrow> (case os of [Out_ack k] \<Rightarrow> Q k | _ \<Rightarrow> False)) \<Longrightarrow>
     \<exists>f j a k. r = Inr (f, j, a, [Out_ack k]) \<and> Q k"
proof -
  assume h: "case r of Inl _ \<Rightarrow> False | Inr (f, j, a, os) \<Rightarrow> (case os of [Out_ack k] \<Rightarrow> Q k | _ \<Rightarrow> False)"
  then obtain f j a os where r: "r = Inr (f, j, a, os)" by (auto split: sum.splits prod.splits)
  with h have o: "case os of [Out_ack k] \<Rightarrow> Q k | _ \<Rightarrow> False" by simp
  then obtain m ms where os: "os = m # ms" by (cases os) auto
  with o have "ms = []" by (cases ms; cases m) auto
  then show ?thesis using o os r by (cases m) auto
qed

theorem repeated_acknowledgement_ignored_witness:
  "\<exists>finished j' ag' k r' os' v u.
     CommandAcknowledgeJob_process demo_env ((demo_command 1 5 [7])\<lparr>cc_level := 70\<rparr>) demo_answer_job (demo_agent 2 9 [1]) =
       Inr (finished, j', ag', [Out_ack k]) \<and>
     handleCaceAcknowledge demo_env k demo_receiver = Inr (r', os') \<and>
     getVariable demo_store (ca_variableName k) = Some v \<and> getVariable (ag_store r') (ca_variableName k) = Some u \<and>
     drop_updated u 7 [2] = drop_updated v 7 [2]"
proof -
  let ?p = "CommandAcknowledgeJob_process demo_env ((demo_command 1 5 [7])\<lparr>cc_level := 70\<rparr>) demo_answer_job (demo_agent 2 9 [1])"
  let ?h = "\<lambda>k. handleCaceAcknowledge demo_env k demo_receiver"
  have "case ?p of Inl _ \<Rightarrow> False | Inr (f, j, a, os) \<Rightarrow> (case os of [Out_ack k] \<Rightarrow>
      (case ?h k of Inl _ \<Rightarrow> False | Inr _ \<Rightarrow> True) \<and> getVariable demo_store (ca_variableName k) \<noteq> None | _ \<Rightarrow> False)"
    by code_simp
  from single_ack [OF this] obtain finished j' ag' k where p: "?p = Inr (finished, j', ag', [Out_ack k])"
    and q: "case ?h k of Inl _ \<Rightarrow> False | Inr _ \<Rightarrow> True" "getVariable demo_store (ca_variableName k) \<noteq> None"
    by blast
  from q obtain r' os' v where h: "?h k = Inr (r', os')" and v: "getVariable demo_store (ca_variableName k) = Some v"
    by (cases "?h k") auto
  have "\<exists>u. getVariable (ag_store r') (ca_variableName k) = Some u \<and> drop_updated u 7 [2] = drop_updated v 7 [2]"
    by (rule repeated_acknowledgement_ignored [OF p _ _ _ h])
      (use v demo_store_wf in \<open>simp_all add: demo_answer_job_def job_new_def demo_agent_def Cace_init_def demo_receiver_def\<close>)
  then show ?thesis using p h v by blast
qed

text \<open>Two queued acknowledgements of one write job stop the program with an exception.\<close>

lemma duplicate_write_acks:
  assumes "jb_expected j = [i]" and "filter (\<lambda>a. sa_msgID a = jb_msgID j) (ag_writeAcks ag) = a # b # as"
    and "sa_senderID a = i"
  shows "WriteJob_process env [] j ag = Inl OutOfBounds"
  using assms by (simp add: WriteJob_process_def getWriteAcknowledgesAndRemove_def Let_def write_expected.simps)

section \<open>Requests\<close>

text \<open>
  A request for a variable brings its value back: the other agent answers with its variable,
  and \<open>getRequestedVariable\<close> then returns one with that name and value.
\<close>

theorem request_brings_value:
  assumes ids: "to_short (ag_ownID b) = ag_ownID b"
    and seen: "\<not> isBlacklisted a (ag_ownID b)" "\<not> isBlacklisted b (ag_ownID a)"
    and w: "getVariable (ag_store b) name = Some w" "cv_name w = name"
    and none: "\<not> existsResponse (ag_store a) name"
  shows "\<exists>a1 q b1 r a2 v. requestVariable env name (ag_ownID b) a = Inr (a1, [Out_request q]) \<and>
    handleCaceVariableRequest q b = Inr (b1, [Out_response r]) \<and>
    handleCaceResponse env r a1 = Inr (a2, []) \<and>
    snd (getRequestedVariable name a2) = Some v \<and> cv_val v = cv_val w \<and> cv_name v = name \<and>
    cv_robotID v = ag_ownID b"
proof -
  have del: "deleteResponse (ag_store a) name = ag_store a"
  proof -
    have "vs_responses (deleteResponse (ag_store a) name) = filter (\<lambda>v. cv_name v \<noteq> name) (vs_responses (ag_store a))"
      by (rule deleteResponse_all) (use none in \<open>auto simp: existsResponse_def list_ex_iff dest: nth_mem\<close>)
    also have "\<dots> = vs_responses (ag_store a)"
      using none by (auto simp: existsResponse_def list_ex_iff filter_id_conv)
    finally show ?thesis by (simp add: deleteResponse_def)
  qed
  have miss: "take_response name (rs @ [v]) = (Some v, rs)"
    if "\<forall>u \<in> set rs. cv_name u \<noteq> name" "cv_name v = name" for rs v
    using that by (induction rs) auto
  define q where "q = \<lparr>vr_senderID = ag_ownID a, vr_receiverID = [ag_ownID b], vr_variableName = name, vr_msgID = make_msgID a\<rparr>"
  obtain a1 where a1: "requestVariable env name (ag_ownID b) a = Inr (a1, [Out_request q])"
    "ag_store a1 = ag_store a" "ag_blacklist a1 = ag_blacklist a" "ag_ownID a1 = ag_ownID a"
    by (simp add: requestVariable_def del with_job_def RequestJob_new_def sendCaceVariableRequest_def sendCaceVariableRequest_at_def Let_def
        append_job_def ids q_def job_new_def)
  define r where "r = command_of (tick b) w (make_msgID a) (cv_val w) (ag_ownID a) (ag_lamport b + 1)"
  have h: "handleCaceVariableRequest q b = Inr (tick b, [Out_response r])"
    using seen(2) w by (simp add: handleCaceVariableRequest_def q_def addressed_def includesID_def sendCaceResponse_def sendCaceResponse_at_def
        Let_def r_def)
  define v where "v = response_variable env r"
  have v: "cv_val v = cv_val w" "cv_name v = name" "cv_robotID v = ag_ownID b"
    by (simp_all add: v_def response_variable_def r_def command_of_def w Let_def)
  define a2 where "a2 = (updateLamportTime (cc_lamportTime r) a1)
      \<lparr>ag_store := addResponse (ag_store a1) v\<rparr>"
  have "handleCaceResponse env r a1 = Inr (a2, [])"
    using seen(1) by (simp add: handleCaceResponse_def isBlacklisted_def a1 r_def [THEN arg_cong [of _ _ cc_senderID]]
        command_of_def Let_def addressed_def includesID_def r_def [THEN arg_cong [of _ _ cc_receiverID]] a2_def v_def)
  moreover have "snd (getRequestedVariable name a2) = Some v"
    using none miss [of "vs_responses (ag_store a)" v] v(2)
    by (simp add: getRequestedVariable_def getResponse_def a2_def addResponse_def a1 existsResponse_def list_ex_iff)
  ultimately show ?thesis using a1(1) h v by blast
qed

theorem request_brings_value_witness:
  "\<exists>a1 q b1 r a2 v. requestVariable demo_env ''x'' (ag_ownID demo_receiver) (demo_agent 2 9 [1]) = Inr (a1, [Out_request q]) \<and>
    handleCaceVariableRequest q demo_receiver = Inr (b1, [Out_response r]) \<and>
    handleCaceResponse demo_env r a1 = Inr (a2, []) \<and>
    snd (getRequestedVariable ''x'' a2) = Some v \<and> cv_val v = cv_val (demo_cvar 1 7 [5] [demo_belief 2 3 [5]]) \<and>
    cv_name v = ''x'' \<and> cv_robotID v = ag_ownID demo_receiver"
proof (rule request_brings_value)
  show "getVariable (ag_store demo_receiver) ''x'' = Some (demo_cvar 1 7 [5] [demo_belief 2 3 [5]])" by code_simp
qed (simp_all add: demo_receiver_def demo_agent_def Cace_init_def isBlacklisted_def to_short_def existsResponse_def
    CVariableStore_def demo_defs)

section \<open>Scopes\<close>

text \<open>
  A variable without a path has the scope \<open>/\<close>, but the scope it is compared with has lost its
  leading slash: as soon as an agent has a local scope, its top-level variables are no longer
  sent to agents that join.
\<close>

lemma top_level_not_restored:
  assumes "ag_scope ag = (c # s) # ss" and "c \<noteq> CHR ''/''" and "find_last_of (CHR ''/'') (cv_name v) = None"
  shows "\<not> needs_update i (update_scope ag) v"
  using assms by (auto simp: needs_update_def getScope_def update_scope_def getLocalScopeString_def Let_def)

end
