(* ===== verification/CaceSpace.thy ===== *)
theory CaceSpace
  imports CaceAgent
begin

text \<open>
  What applications use of CACE besides \<open>distributeValue\<close>: the rest of \<open>caceSpace.cpp\<close>, the mutex
  (\<open>variables/CaceMutex.cpp\<close>) and the election (\<open>variables/Election.cpp\<close>). Both are consensus
  variables that the application may also put into the store; a mutex is here the reference to
  its variable. A \<open>double\<close> is its bit pattern, whose order is written out.
\<close>

section \<open>Values of the space\<close>

text \<open>The bytes of a number, as the casts to \<open>char*\<close> read them.\<close>

definition distributeValue_int :: "cace_env \<Rightarrow> string \<Rightarrow> 32 word \<Rightarrow> int \<Rightarrow> act" where
  "distributeValue_int env name value strategy = distributeValue env name (le_bytes 4 (unat value)) CInt strategy"

definition distributeValue_double :: "cace_env \<Rightarrow> string \<Rightarrow> 64 word \<Rightarrow> int \<Rightarrow> act" where
  "distributeValue_double env name value strategy =
     distributeValue env name (le_bytes 8 (unat value)) CDouble strategy"

text \<open>
  The result tells whether the variable exists; the second part is what is written through the
  pointer. Setting the pointer to \<open>nullptr\<close> has no effect outside.
\<close>

definition getVariableValue_with ::
  "(cvar \<Rightarrow> 'w option outcome) \<Rightarrow> string \<Rightarrow> agent \<Rightarrow> (bool \<times> 'w option) outcome" where
  "getVariableValue_with get name ag =
     (case getVariable (ag_store ag) name of
        None \<Rightarrow> Inr (False, None)
      | Some v \<Rightarrow> if cv_hasValue v then bindE (get v) (\<lambda>x. Inr (True, x)) else Inr (True, None))"

definition getVariableValue_double :: "room_fn \<Rightarrow> string \<Rightarrow> agent \<Rightarrow> (bool \<times> 64 word option) outcome" where
  "getVariableValue_double room = getVariableValue_with (getValue_double room)"

definition getVariableValue_int :: "room_fn \<Rightarrow> string \<Rightarrow> agent \<Rightarrow> (bool \<times> 32 word option) outcome" where
  "getVariableValue_int room = getVariableValue_with (getValue_int room)"

definition space_getVariable :: "string \<Rightarrow> agent \<Rightarrow> cvar option" where
  "space_getVariable name ag = getVariable (ag_store ag) name"

definition checkAvailableResponse :: "string \<Rightarrow> agent \<Rightarrow> bool" where
  "checkAvailableResponse name ag = existsResponse (ag_store ag) name"

text \<open>The reference that is returned is the one the caller's pointer holds afterwards.\<close>

definition distributeVariable :: "cace_env \<Rightarrow> var_ref \<Rightarrow> agent \<Rightarrow> (var_ref \<times> agent \<times> net_out list) outcome" where
  "distributeVariable env r ag =
     bindE (var_of ag r) (\<lambda>var.
       let name = cv_name var; send = (\<lambda>v. with_job
             (CommandJob_new env name (In_store name) (cv_val v) (ag_active ag) (ag_lamport ag)))
       in case getVariable (ag_store ag) name of
            Some inStoreVar \<Rightarrow>
              if r = In_store name then bindE (send var ag) (\<lambda>(ag, os). Inr (r, ag, os))
              else let v = cv_update (belief.truncate var) inStoreVar
                   in bindE (send v (put_var v name ag)) (\<lambda>(ag, os). Inr (In_store name, ag, os))
          | None \<Rightarrow> bindE (space_addVariable env var True ag) (\<lambda>(ag, os, ret). Inr (In_store name, ag, os)))"

section \<open>The mutex\<close>

record mutex =
  mx_var :: var_ref
  mx_strict :: bool

definition mutexNamespace :: string where
  "mutexNamespace = ''m/''"

text \<open>
  The type that the constructor passes to its base class is the member that the base class is
  about to initialise: \<open>junk\<close>.
\<close>

definition CaceMutex :: "int \<Rightarrow> agent \<Rightarrow> string \<Rightarrow> 64 word \<Rightarrow> 64 word \<Rightarrow> 64 word \<Rightarrow> bool \<Rightarrow> mutex outcome" where
  "CaceMutex junk ag name validityTime decissionTime lamportAge strict =
     bindE (setValue_int 0 (ConsensusVariable (mutexNamespace @ name) ThreeWayHandShake validityTime (ag_ownID ag)
         decissionTime lamportAge junk)) (\<lambda>v.
       Inr \<lparr>mx_var = Detached v, mx_strict = strict\<rparr>)"

definition CaceMutex_copy :: "cvar \<Rightarrow> bool \<Rightarrow> mutex" where
  "CaceMutex_copy v strict = \<lparr>mx_var = Detached (ConsensusVariable_copy v), mx_strict = strict\<rparr>"

text \<open>\<open>getValue(&x)\<close> with an \<open>int\<close>: a value of another type leaves \<open>x\<close> as it was.\<close>

definition read_int :: "room_fn \<Rightarrow> int \<Rightarrow> 'a belief_scheme \<Rightarrow> int outcome" where
  "read_int room old v = bindE (getValue_int room v) (\<lambda>x. Inr (case x of None \<Rightarrow> old | Some w \<Rightarrow> sint w))"

definition contains :: "int list \<Rightarrow> int \<Rightarrow> bool" where
  "contains robots r = list_ex (\<lambda>i. i = r) robots"

text \<open>\<open>junk v\<close> is what the uninitialised \<open>int b\<close> holds in the turn for \<open>v\<close>.\<close>

fun free_among :: "room_fn \<Rightarrow> (belief \<Rightarrow> int) \<Rightarrow> bool \<Rightarrow> int list \<Rightarrow> belief list \<Rightarrow> bool outcome" where
  "free_among room junk strict robots [] = Inr True"
| "free_among room junk strict robots (v # vs) =
     (if \<not> cv_hasValue v then free_among room junk strict robots vs
      else bindE (read_int room (junk v) v) (\<lambda>b.
        if b > 0 \<and> (strict \<or> contains robots (cv_robotID v)) then Inr False
        else free_among room junk strict robots vs))"

definition isFree :: "room_fn \<Rightarrow> (belief \<Rightarrow> int) \<Rightarrow> int list \<Rightarrow> mutex \<Rightarrow> agent \<Rightarrow> bool outcome" where
  "isFree room junk robots m ag =
     bindE (var_of ag (mx_var m)) (\<lambda>this.
     bindE (read_int room 0 this) (\<lambda>bel.
       if cv_hasValue this \<and> bel > 0 then Inr False
       else free_among room junk (mx_strict m) robots (cv_proposals this)))"

text \<open>
  The loops of \<open>isOwner\<close>: \<open>bel\<close> keeps the value of the turn before; the list of robots is
  searched for the believed owner.
\<close>

fun owner_among ::
  "room_fn \<Rightarrow> bool \<Rightarrow> int list \<Rightarrow> int \<Rightarrow> int \<Rightarrow> bool \<Rightarrow> nat \<Rightarrow> belief list \<Rightarrow> (bool \<times> nat) outcome" where
  "owner_among room strict robots robotID bel own believer [] = Inr (own, believer)"
| "owner_among room strict robots robotID bel own believer (v # vs) =
     (if \<not> cv_hasValue v
      then owner_among room strict robots robotID bel (own \<and> \<not> (strict \<or> contains robots bel)) believer vs
      else bindE (read_int room bel v) (\<lambda>bel.
        if bel \<noteq> robotID \<and> (strict \<or> contains robots bel)
        then owner_among room strict robots robotID bel False believer vs
        else owner_among room strict robots robotID bel own (believer + 1) vs))"

definition isOwner :: "room_fn \<Rightarrow> int \<Rightarrow> int list \<Rightarrow> mutex \<Rightarrow> agent \<Rightarrow> bool outcome" where
  "isOwner room robotID robots m ag =
     bindE (var_of ag (mx_var m)) (\<lambda>this.
     bindE (read_int room 0 this) (\<lambda>bel.
     bindE (owner_among room (mx_strict m) robots robotID bel (cv_hasValue this \<and> bel = robotID) 0 (cv_proposals this))
       (\<lambda>(own, believer). Inr (own \<and> \<not> believer < length robots))))"

definition pNoBlock ::
  "cace_env \<Rightarrow> room_fn \<Rightarrow> (belief \<Rightarrow> int) \<Rightarrow> int list \<Rightarrow> mutex \<Rightarrow> agent \<Rightarrow> (bool \<times> agent \<times> net_out list) outcome" where
  "pNoBlock env room junk robots m ag =
     bindE (var_of ag (mx_var m)) (\<lambda>this.
     bindE (read_int room 0 this) (\<lambda>bel.
     bindE (isFree room junk robots m ag) (\<lambda>free.
       if \<not> free then Inr (False, ag, [])
       else bindE (isOwner room (ag_ownID ag) robots m ag) (\<lambda>own.
         if own then Inr (True, ag, [])
         else if isAcknowledged (ag_active ag) this
         then bindE (distributeValue_int env (cv_name this) (word_of_int (ag_ownID ag)) (cv_strategy this) ag)
                (\<lambda>(ag, os). Inr (False, ag, os))
         else Inr (False, ag, [])))))"

definition pNoBlock_active ::
  "cace_env \<Rightarrow> room_fn \<Rightarrow> (belief \<Rightarrow> int) \<Rightarrow> mutex \<Rightarrow> agent \<Rightarrow> (bool \<times> agent \<times> net_out list) outcome" where
  "pNoBlock_active env room junk m ag = pNoBlock env room junk (ag_active ag) m ag"

text \<open>
  The loop of \<open>p\<close> from its \<open>k\<close>-th turn on; \<open>others k\<close> is what the other threads do to the agent
  while it sleeps for a millisecond.
\<close>

partial_function (option) p_from ::
  "(nat \<Rightarrow> cace_env) \<Rightarrow> (nat \<Rightarrow> agent \<Rightarrow> agent) \<Rightarrow> room_fn \<Rightarrow> (belief \<Rightarrow> int) \<Rightarrow> int list \<Rightarrow> mutex \<Rightarrow> nat \<Rightarrow> agent \<Rightarrow>
     (agent \<times> net_out list) run" where
  "p_from env others room junk robots m k ag =
     bindR (Some (pNoBlock (env k) room junk robots m ag)) (\<lambda>(b, ag, os).
       if b then bindR (p_from env others room junk robots m (k + 1) (others k ag)) (\<lambda>(ag, os'). Some (Inr (ag, os @ os')))
       else Some (Inr (ag, os)))"

definition mutex_p ::
  "(nat \<Rightarrow> cace_env) \<Rightarrow> (nat \<Rightarrow> agent \<Rightarrow> agent) \<Rightarrow> room_fn \<Rightarrow> (belief \<Rightarrow> int) \<Rightarrow> int list \<Rightarrow> mutex \<Rightarrow> agent \<Rightarrow>
     (agent \<times> net_out list) run" where
  "mutex_p env others room junk robots m ag = p_from env others room junk robots m 0 ag"

definition mutex_p_active ::
  "(nat \<Rightarrow> cace_env) \<Rightarrow> (nat \<Rightarrow> agent \<Rightarrow> agent) \<Rightarrow> room_fn \<Rightarrow> (belief \<Rightarrow> int) \<Rightarrow> mutex \<Rightarrow> agent \<Rightarrow>
     (agent \<times> net_out list) run" where
  "mutex_p_active env others room junk m ag = mutex_p env others room junk (ag_active ag) m ag"

definition mutex_v :: "cace_env \<Rightarrow> room_fn \<Rightarrow> mutex \<Rightarrow> agent \<Rightarrow> (bool \<times> agent \<times> net_out list) outcome" where
  "mutex_v env room m ag =
     bindE (var_of ag (mx_var m)) (\<lambda>this.
     bindE (read_int room 0 this) (\<lambda>bel.
       if bel \<noteq> ag_ownID ag then Inr (False, ag, [])
       else bindE (distributeValue_int env (cv_name this) (- 1) (cv_strategy this) ag) (\<lambda>(ag, os). Inr (True, ag, os))))"

section \<open>The election\<close>

definition electionNamespace :: string where
  "electionNamespace = ''e/''"

definition Election :: "agent \<Rightarrow> string \<Rightarrow> 64 word \<Rightarrow> 64 word \<Rightarrow> 64 word \<Rightarrow> cvar" where
  "Election ag name validityTime decissionTime lamportAge =
     ConsensusVariable (electionNamespace @ name) TwoWayHandShakeElection validityTime (ag_ownID ag) decissionTime
       lamportAge CDouble"

text \<open>The order of \<open>double\<close>: by sign and magnitude, and never true of a number that is not one.\<close>

definition dbl_nan :: "64 word \<Rightarrow> bool" where
  "dbl_nan x \<longleftrightarrow> 9218868437227405312 < take_bit 63 x"

definition dbl_key :: "64 word \<Rightarrow> int" where
  "dbl_key x = (let m = uint (take_bit 63 x) in if bit x 63 then - m else m)"

definition dbl_gt :: "64 word \<Rightarrow> 64 word \<Rightarrow> bool" where
  "dbl_gt x y \<longleftrightarrow> \<not> dbl_nan x \<and> \<not> dbl_nan y \<and> dbl_key y < dbl_key x"

definition read_double :: "room_fn \<Rightarrow> 64 word \<Rightarrow> 'a belief_scheme \<Rightarrow> 64 word outcome" where
  "read_double room old v = bindE (getValue_double room v) (\<lambda>x. Inr (case x of None \<Rightarrow> old | Some w \<Rightarrow> w))"

text \<open>One bid: the value that was read last, the best bid so far and the robot that made it.\<close>

definition take_bid ::
  "room_fn \<Rightarrow> 'a belief_scheme \<Rightarrow> 64 word \<times> 64 word \<times> int \<Rightarrow> (64 word \<times> 64 word \<times> int) outcome" where
  "take_bid room v st =
     (case st of (val, bet, ret) \<Rightarrow>
        if cv_hasValue v
        then bindE (read_double room val v) (\<lambda>val.
               if dbl_gt val bet then Inr (val, val, cv_robotID v) else Inr (val, bet, ret))
        else Inr (val, bet, ret))"

fun take_bids :: "room_fn \<Rightarrow> belief list \<Rightarrow> 64 word \<times> 64 word \<times> int \<Rightarrow> (64 word \<times> 64 word \<times> int) outcome" where
  "take_bids room [] st = Inr st"
| "take_bids room (v # vs) st = bindE (take_bid room v st) (take_bids room vs)"

definition getWinner_bet :: "room_fn \<Rightarrow> cvar \<Rightarrow> (64 word \<times> int) outcome" where
  "getWinner_bet room this =
     bindE (take_bid room this (double_min, double_min, 0)) (\<lambda>st.
     bindE (take_bids room (cv_proposals this) st) (\<lambda>(val, bet, ret). Inr (bet, ret)))"

definition getWinner :: "room_fn \<Rightarrow> cvar \<Rightarrow> int outcome" where
  "getWinner room this = bindE (getWinner_bet room this) (\<lambda>(bet, ret). Inr ret)"

section \<open>Lemmas\<close>

lemma get_le_bytes:
  "cv_type v = CInt \<Longrightarrow> cv_val v = le_bytes 4 (unat x) \<Longrightarrow> getValue_int room v = Inr (Some x)"
  "cv_type v = CDouble \<Longrightarrow> cv_val v = le_bytes 8 (unat y) \<Longrightarrow> getValue_double room v = Inr (Some y)"
  by (simp_all add: getValue_int_def getValue_double_def getValue_ser_def omap_def deserialize_def read_bytes_def
      word_pod_def [symmetric])

text \<open>Distributing a value stores it; the job that is created sends it once.\<close>

lemma distributeValue_stores:
  assumes "store_wf (ag_store ag)"
  shows "\<exists>ag' os v. distributeValue env name x ty s ag = Inr (ag', os) \<and> getVariable (ag_store ag') name = Some v \<and>
    cv_val v = x \<and> cv_hasValue v = (x \<noteq> []) \<and> cv_type v = ty \<and> cv_proposals v =
      (case getVariable (ag_store ag) name of None \<Rightarrow> [] | Some w \<Rightarrow> cv_proposals w) \<and>
    ag_ownID ag' = ag_ownID ag \<and> ag_active ag' = ag_active ag"
proof -
  have wf: "smap_wf (vs_store (ag_store ag))" using assms by (simp add: store_wf_def)
  show ?thesis
    by (cases "getVariable (ag_store ag) name")
      (auto simp: distributeValue_def with_job_def CommandJob_new_def sendCaceCommand_def sendCaceCommand_at_def tick_def
        var_of_def addVariable_def put_var_def getVariable_def smap_get_put wf append_job_def job_new_def Let_def
        ConsensusVariable_def cvar_of_def belief_new_def setValue_bytes_def belief.defs)
qed

text \<open>The second argument of \<open>owner_among\<close> is never set to true again.\<close>

lemma owner_among_lost: "owner_among room strict robots i bel False k vs = Inr (own, n) \<Longrightarrow> \<not> own"
  by (induction room strict robots i bel "False" k vs rule: owner_among.induct)
    (auto simp: bindE_Inr split: if_splits)

lemma free_not_owned:
  assumes "isFree room junk robots m ag = Inr True" and "isOwner room i robots' m ag = Inr own" and "0 < i"
  shows "\<not> own"
proof -
  obtain this bel where t: "var_of ag (mx_var m) = Inr this" "read_int room 0 this = Inr bel" "\<not> (cv_hasValue this \<and> bel > 0)"
    using assms(1) by (auto simp: isFree_def bindE_Inr split: if_splits)
  then have "\<not> (cv_hasValue this \<and> bel = i)" using assms(3) by auto
  then obtain o2 n where "owner_among room (mx_strict m) robots' i bel False 0 (cv_proposals this) = Inr (o2, n)" "own \<longrightarrow> o2"
    using assms(2) t(1,2) by (auto simp: isOwner_def bindE_Inr)
  then show ?thesis using owner_among_lost by blast
qed

lemma pNoBlock_false:
  assumes "0 < ag_ownID ag" and "pNoBlock env room junk robots m ag = Inr (b, ag', os)"
  shows "\<not> b"
  using assms(2) free_not_owned [OF _ _ assms(1), of room junk robots m]
  by (auto simp: pNoBlock_def bindE_Inr split: if_splits)

section \<open>The best bid\<close>

lemma dbl_gt_irrefl [simp]: "\<not> dbl_gt x x"
  by (simp add: dbl_gt_def)

text \<open>The bids that count: of the variable and its proposals, those that hold a \<open>double\<close>.\<close>

definition bid_of :: "room_fn \<Rightarrow> 'a belief_scheme \<Rightarrow> (int \<times> 64 word) option" where
  "bid_of room v =
     (if cv_hasValue v
      then (case getValue_double room v of Inr (Some x) \<Rightarrow> Some (cv_robotID v, x) | _ \<Rightarrow> None) else None)"

definition bid_list :: "room_fn \<Rightarrow> 'a belief_scheme \<Rightarrow> (int \<times> 64 word) list" where
  "bid_list room v = (case bid_of room v of None \<Rightarrow> [] | Some b \<Rightarrow> [b])"

definition bids :: "room_fn \<Rightarrow> cvar \<Rightarrow> (int \<times> 64 word) list" where
  "bids room this = bid_list room this @ concat (map (bid_list room) (cv_proposals this))"

text \<open>What holds after the bids \<open>bs\<close>.\<close>

definition best_so_far :: "(int \<times> 64 word) list \<Rightarrow> 64 word \<times> 64 word \<times> int \<Rightarrow> bool" where
  "best_so_far bs st \<longleftrightarrow>
     (case st of (val, bet, ret) \<Rightarrow>
        \<not> dbl_gt val bet \<and> (\<forall>(r, x) \<in> set bs. \<not> dbl_gt x bet) \<and>
        ((ret, bet) \<in> set bs \<and> dbl_gt bet double_min \<or> ret = 0 \<and> bet = double_min))"

lemma take_bid_best:
  assumes "best_so_far bs st" and "take_bid room v st = Inr st'"
  shows "best_so_far (bs @ bid_list room v) st'"
proof -
  obtain val bet ret where st: "st = (val, bet, ret)" by (cases st)
  show ?thesis
  proof (cases "cv_hasValue v")
    case False
    then show ?thesis using assms by (simp add: st take_bid_def bid_list_def bid_of_def)
  next
    case True
    obtain x where g: "getValue_double room v = Inr x"
      using assms(2) True by (auto simp: st take_bid_def read_double_def bindE_Inr)
    show ?thesis
    proof (cases x)
      case None
      then show ?thesis
        using assms True g by (auto simp: st take_bid_def read_double_def bid_list_def bid_of_def best_so_far_def)
    next
      case (Some w)
      have "\<not> dbl_gt y w" if "dbl_gt w bet" "\<not> dbl_gt y bet" for y
        using that by (auto simp: dbl_gt_def)
      moreover have "dbl_gt w double_min" if "dbl_gt w bet" "dbl_gt bet double_min" using that by (auto simp: dbl_gt_def)
      ultimately show ?thesis
        using assms True g Some
        by (auto simp: st take_bid_def read_double_def bid_list_def bid_of_def best_so_far_def split: if_splits)
    qed
  qed
qed

lemma take_bids_best:
  "best_so_far bs st \<Longrightarrow> take_bids room vs st = Inr st' \<Longrightarrow>
   best_so_far (bs @ concat (map (bid_list room) vs)) st'"
proof (induction room vs st arbitrary: bs rule: take_bids.induct)
  case (2 room v vs st)
  obtain st1 where s: "take_bid room v st = Inr st1" "take_bids room vs st1 = Inr st'"
    using 2(3) by (auto simp: bindE_Inr)
  then show ?case using 2(1) [OF s(1) take_bid_best [OF 2(2) s(1)] s(2)] by simp
qed simp

section \<open>Properties\<close>

text \<open>
  C39. The mutex never makes anybody wait. \<open>pNoBlock\<close> reports success for no agent with a positive
  id, since it asks first whether the mutex is free, and a mutex that the agent owns is not
  free; and \<open>p\<close>, which should wait for success, waits while \<open>pNoBlock\<close> succeeds. So \<open>p\<close> returns
  after one turn, at once and without a message when another agent holds the mutex.
\<close>

theorem mutex_never_waits:
  assumes "0 < ag_ownID ag"
  shows "(\<forall>b ag' os. pNoBlock env room junk robots m ag = Inr (b, ag', os) \<longrightarrow> \<not> b) \<and>
    mutex_p envs others room junk robots m ag =
      Some (bindE (pNoBlock (envs 0) room junk robots m ag) (\<lambda>(b, ag', os). Inr (ag', os))) \<and>
    (isFree room junk robots m ag = Inr False \<longrightarrow> mutex_p envs others room junk robots m ag = Some (Inr (ag, [])))"
proof -
  have p: "mutex_p envs others room junk robots m ag =
      Some (bindE (pNoBlock (envs 0) room junk robots m ag) (\<lambda>(b, ag', os). Inr (ag', os)))"
  proof (cases "pNoBlock (envs 0) room junk robots m ag")
    case (Inl e)
    then show ?thesis unfolding mutex_p_def by (subst p_from.simps) simp
  next
    case (Inr x)
    obtain b ag' os where x: "x = (b, ag', os)" by (cases x)
    have "\<not> b" using pNoBlock_false [OF assms] Inr x by blast
    then show ?thesis using Inr x unfolding mutex_p_def by (subst p_from.simps) simp
  qed
  moreover have "pNoBlock (envs 0) room junk robots m ag = Inr (False, ag, [])"
    if f: "isFree room junk robots m ag = Inr False"
  proof -
    obtain this bel where "var_of ag (mx_var m) = Inr this" "read_int room 0 this = Inr bel"
      using f by (auto simp: isFree_def bindE_Inr)
    then show ?thesis by (simp add: pNoBlock_def f)
  qed
  ultimately show ?thesis using pNoBlock_false [OF assms] by (intro conjI allI impI) (blast, simp_all)
qed

text \<open>Agents 1 and 2 know each other; the mutex \<open>x\<close> is in both stores, and free.\<close>

definition mutex_agent :: "int \<Rightarrow> int \<Rightarrow> agent" where
  "mutex_agent own other =
     (let v = belief_new ''m/x'' ThreeWayHandShake long_max own 5 1 CInt;
          b = belief_new ''m/x'' ThreeWayHandShake long_max other 5 1 CInt
      in (Cace_init own)\<lparr>ag_active := [other],
           ag_store := \<lparr>vs_store = [(''m/x'', cvar_of (setValue_bytes [0, 0, 0, 0] v) [setValue_bytes [0, 0, 0, 0] b])],
             vs_responses = []\<rparr>\<rparr>)"

definition mutex_x :: mutex where
  "mutex_x = \<lparr>mx_var = In_store ''m/x'', mx_strict = True\<rparr>"

definition mutex_env :: cace_env where
  "mutex_env = \<lparr>e_local = 7, e_dist = 7, e_estimate = (\<lambda>_. None), e_maxResend = 100, e_minResend = 1, e_maxRetrys = 3\<rparr>"

lemma both_agents_pass:
  "case pNoBlock mutex_env (\<lambda>_ _. True) (\<lambda>_. 0) [2] mutex_x (mutex_agent 1 2) of
     Inl e \<Rightarrow> False | Inr (b, ag, os) \<Rightarrow> getVariableValue_int (\<lambda>_ _. True) ''m/x'' ag = Inr (True, Some 1)"
  "case pNoBlock mutex_env (\<lambda>_ _. True) (\<lambda>_. 0) [1] mutex_x (mutex_agent 2 1) of
     Inl e \<Rightarrow> False | Inr (b, ag, os) \<Rightarrow> getVariableValue_int (\<lambda>_ _. True) ''m/x'' ag = Inr (True, Some 2)"
  by code_simp+

theorem mutex_never_waits_witness:
  "\<exists>a1 o1 a2 o2.
     mutex_p (\<lambda>_. mutex_env) (\<lambda>_ a. a) (\<lambda>_ _. True) (\<lambda>_. 0) [2] mutex_x (mutex_agent 1 2) = Some (Inr (a1, o1)) \<and>
     mutex_p (\<lambda>_. mutex_env) (\<lambda>_ a. a) (\<lambda>_ _. True) (\<lambda>_. 0) [1] mutex_x (mutex_agent 2 1) = Some (Inr (a2, o2)) \<and>
     getVariableValue_int (\<lambda>_ _. True) ''m/x'' a1 = Inr (True, Some 1) \<and>
     getVariableValue_int (\<lambda>_ _. True) ''m/x'' a2 = Inr (True, Some 2)"
proof -
  have own: "0 < ag_ownID (mutex_agent 1 2)" "0 < ag_ownID (mutex_agent 2 1)"
    by (simp_all add: mutex_agent_def Cace_init_def Let_def)
  show ?thesis
    using mutex_never_waits [OF own(1), of mutex_env "\<lambda>_ _. True" "\<lambda>_. 0" "[2]" mutex_x "\<lambda>_. mutex_env" "\<lambda>_ a. a"]
      mutex_never_waits [OF own(2), of mutex_env "\<lambda>_ _. True" "\<lambda>_. 0" "[1]" mutex_x "\<lambda>_. mutex_env" "\<lambda>_ a. a"]
      both_agents_pass
    by (auto split: sum.splits prod.splits)
qed

text \<open>
  The owner of a mutex that is not strict: robot 3, which is asked for, says that robot 2 owns
  the mutex, and robot 1 counts as the owner all the same, because the list of robots is
  searched for the owner that robot 3 names and not for robot 3.
\<close>

theorem other_owner_overlooked:
  "isOwner (\<lambda>_ _. True) 1 [3] \<lparr>mx_var = Detached (cvar_of (setValue_bytes [1, 0, 0, 0]
       (belief_new ''m/x'' ThreeWayHandShake long_max 1 5 1 CInt)) [setValue_bytes [2, 0, 0, 0]
       (belief_new ''m/x'' ThreeWayHandShake long_max 3 5 1 CInt)]), mx_strict = False\<rparr> (Cace_init 1) = Inr True"
  by code_simp

text \<open>
  C40. The winner of an election made the highest bid: no bid is above the one that is returned, and
  the returned robot made it, as its value or as the value others heard of it. When no bid is
  above the smallest positive normal number, as when all are 0 or negative, robot 0 wins.
\<close>

theorem election_winner_highest:
  assumes "getWinner_bet room this = Inr (bet, ret)"
  shows "(\<forall>(r, x) \<in> set (bids room this). \<not> dbl_gt x bet) \<and>
    ((ret, bet) \<in> set (bids room this) \<and> dbl_gt bet double_min \<or>
     ret = 0 \<and> bet = double_min)"
proof -
  obtain st val where st: "take_bid room this (double_min, double_min, 0) = Inr st"
    "take_bids room (cv_proposals this) st = Inr (val, bet, ret)"
    using assms by (auto simp: getWinner_bet_def bindE_Inr)
  have "best_so_far [] (double_min, double_min, 0)" by (simp add: best_so_far_def)
  from take_bids_best [OF take_bid_best [OF this st(1)] st(2)]
  have "best_so_far (bids room this) (val, bet, ret)" by (simp add: bids_def)
  then show ?thesis by (simp add: best_so_far_def)
qed

text \<open>Robot 4 bids 2.0, robot 5 bids 3.0, and a robot whose bid is not a number does not win; bids of 0 and -1 lose to nobody.\<close>

definition demo_bid :: "int \<Rightarrow> 64 word \<Rightarrow> belief" where
  "demo_bid robot x =
     setValue_bytes (le_bytes 8 (unat x)) (belief_new ''e/x'' TwoWayHandShakeElection long_max robot 5 1 CDouble)"

theorem election_winner_highest_witness:
  "getWinner_bet (\<lambda>_ _. True) (cvar_of (demo_bid 4 0x4000000000000000)
     [demo_bid 6 0x7FF8000000000000, demo_bid 5 0x4008000000000000]) = Inr (0x4008000000000000, 5) \<and>
   dbl_gt 0x4008000000000000 double_min \<and>
   getWinner_bet (\<lambda>_ _. True) (cvar_of (demo_bid 4 0) [demo_bid 5 0xBFF0000000000000]) = Inr (double_min, 0)"
proof -
  let ?v = "cvar_of (demo_bid 4 0x4000000000000000) [demo_bid 6 0x7FF8000000000000, demo_bid 5 0x4008000000000000]"
  have fields: "cv_hasValue (demo_bid i x)" "cv_type (demo_bid i x) = CDouble" "cv_robotID (demo_bid i x) = i"
    "cv_val (demo_bid i x) = le_bytes 8 (unat x)" for i x
  proof -
    have "length (le_bytes 8 (unat x)) = 8" by simp
    then have "le_bytes 8 (unat x) \<noteq> []" by (metis list.size(3) zero_neq_numeral)
    then show "cv_hasValue (demo_bid i x)" "cv_type (demo_bid i x) = CDouble" "cv_robotID (demo_bid i x) = i"
      "cv_val (demo_bid i x) = le_bytes 8 (unat x)"
      by (simp_all add: demo_bid_def setValue_bytes_def belief_new_def)
  qed
  have extend: "cv_hasValue (cvar_of b ps) = cv_hasValue b" "cv_type (cvar_of b ps) = cv_type b"
    "cv_robotID (cvar_of b ps) = cv_robotID b" "cv_val (cvar_of b ps) = cv_val b" "cv_proposals (cvar_of b ps) = ps" for b ps
    by (simp_all add: cvar_of_def belief.defs)
  have read: "read_double room old (demo_bid i x) = Inr x" "read_double room old (cvar_of (demo_bid i x) ps) = Inr x" for room old i x ps
    by (simp_all add: read_double_def get_le_bytes fields extend)
  have w: "getWinner_bet (\<lambda>_ _. True) ?v = Inr (0x4008000000000000, 5)"
    "getWinner_bet (\<lambda>_ _. True) (cvar_of (demo_bid 4 0) [demo_bid 5 0xBFF0000000000000]) = Inr (double_min, 0)"
    by (simp_all add: getWinner_bet_def take_bid_def fields extend read dbl_gt_def dbl_nan_def dbl_key_def double_min_def)
  have "dbl_gt 0x4008000000000000 double_min" using election_winner_highest [OF w(1)] by simp
  then show ?thesis using w by simp
qed

text \<open>
  A number that is distributed is what the application reads back, as \<open>int\<close> and as \<open>double\<close>.
  A variable without a value is reported as read, but nothing is written.
\<close>

theorem distributed_value_read:
  assumes "store_wf (ag_store ag)"
  shows "(\<exists>ag' os. distributeValue_int env name x s ag = Inr (ag', os) \<and>
      getVariableValue_int room name ag' = Inr (True, Some x)) \<and>
    (\<exists>ag' os. distributeValue_double env name y s ag = Inr (ag', os) \<and>
      getVariableValue_double room name ag' = Inr (True, Some y))"
proof -
  have "length (le_bytes 4 (unat x)) = 4" "length (le_bytes 8 (unat y)) = 8" by simp_all
  then have ne: "le_bytes 4 (unat x) \<noteq> []" "le_bytes 8 (unat y) \<noteq> []" by (metis list.size(3) zero_neq_numeral)+
  show ?thesis
    using distributeValue_stores [OF assms, of env name "le_bytes 4 (unat x)" CInt s]
      distributeValue_stores [OF assms, of env name "le_bytes 8 (unat y)" CDouble s] ne
    by (auto simp: distributeValue_int_def distributeValue_double_def getVariableValue_int_def
        getVariableValue_double_def getVariableValue_with_def get_le_bytes)
qed

theorem distributed_value_read_witness:
  "\<exists>ag' os. distributeValue_int mutex_env ''x'' (- 3) FireAndForget (Cace_init 1) = Inr (ag', os) \<and>
     getVariableValue_int (\<lambda>_ _. True) ''x'' ag' = Inr (True, Some (- 3))"
proof -
  have "store_wf (ag_store (Cace_init 1))" by (simp add: Cace_init_def store_wf_new)
  from distributed_value_read [OF this] show ?thesis by blast
qed

end
