(* ===== verification/CaceTime.thy ===== *)
theory CaceTime
  imports CaceSpace Complex_Main "HOL-Library.Signed_Division"
begin

text \<open>
  \<open>timeManager/TimeManager.cpp\<close>, \<open>AgentCommunicationModel.cpp\<close> and \<open>AgentTimeData.cpp\<close>: the clock
  that the agents agree on, and what an agent estimates about the messages of another one from
  the time messages it has received: their delay, how often they get lost, and how long to wait
  before a message is sent again. \<open>long\<close> and \<open>unsigned long\<close> are 64-bit words; \<open>sint\<close> is their
  signed reading, and overflow wraps. \<open>double\<close> is a type with the operations of a record
  (\<open>fpu\<close>), so the statements hold for every arithmetic, that of the hardware among them, unless
  they name the exact arithmetic of real numbers (\<open>exact_fpu\<close>). Where a statement needs laws of the
  arithmetic, they are named (\<open>exact_small\<close>) and hold of IEEE doubles and of real numbers.
\<close>

section \<open>Arithmetic\<close>

text \<open>\<open>f_lit F m k\<close> is the literal \<open>m / 10 ^ k\<close>; the conversions are those of the casts.\<close>

record 'd fpu =
  f_lit :: "int \<Rightarrow> nat \<Rightarrow> 'd"
  f_add :: "'d \<Rightarrow> 'd \<Rightarrow> 'd"
  f_sub :: "'d \<Rightarrow> 'd \<Rightarrow> 'd"
  f_mul :: "'d \<Rightarrow> 'd \<Rightarrow> 'd"
  f_div :: "'d \<Rightarrow> 'd \<Rightarrow> 'd"
  f_neg :: "'d \<Rightarrow> 'd"
  f_abs :: "'d \<Rightarrow> 'd"
  f_exp :: "'d \<Rightarrow> 'd"
  f_log :: "'d \<Rightarrow> 'd"
  f_sqrt :: "'d \<Rightarrow> 'd"
  f_less :: "'d \<Rightarrow> 'd \<Rightarrow> bool"
  f_leq :: "'d \<Rightarrow> 'd \<Rightarrow> bool"
  f_eq :: "'d \<Rightarrow> 'd \<Rightarrow> bool"
  f_of_long :: "64 word \<Rightarrow> 'd"
  f_of_ulong :: "64 word \<Rightarrow> 'd"
  f_to_long :: "'d \<Rightarrow> 64 word"

definition f_num :: "('d, 'z) fpu_scheme \<Rightarrow> int \<Rightarrow> 'd" where
  "f_num F m = f_lit F m 0"

definition f_max :: "('d, 'z) fpu_scheme \<Rightarrow> 'd \<Rightarrow> 'd \<Rightarrow> 'd" where
  "f_max F x y = (if f_less F x y then y else x)"

definition exact_fpu :: "real fpu" where
  "exact_fpu = \<lparr>f_lit = (\<lambda>m k. real_of_int m / 10 ^ k), f_add = (+), f_sub = (-), f_mul = (*), f_div = (/),
     f_neg = uminus, f_abs = abs, f_exp = exp, f_log = ln, f_sqrt = sqrt, f_less = (<), f_leq = (\<le>), f_eq = (=),
     f_of_long = (\<lambda>w. real_of_int (sint w)), f_of_ulong = (\<lambda>w. real (unat w)),
     f_to_long = (\<lambda>x. word_of_int (if x < 0 then \<lceil>x\<rceil> else \<lfloor>x\<rfloor>))\<rparr>"

text \<open>
  What IEEE doubles and real numbers have in common: natural numbers below \<open>2 ^ 53\<close> are
  represented, converted, added and divided without remainder exactly, and 0 times a finite number is
  equal to 0. A number is finite when it minus itself is equal to 0; an infinity or a NaN is not.
\<close>

definition f_finite :: "('d, 'z) fpu_scheme \<Rightarrow> 'd \<Rightarrow> bool" where
  "f_finite F x \<longleftrightarrow> f_eq F (f_sub F x x) (f_num F 0)"

definition exact_small :: "('d, 'z) fpu_scheme \<Rightarrow> bool" where
  "exact_small F \<longleftrightarrow>
     (\<forall>w. unat w < 2 ^ 53 \<longrightarrow> f_of_ulong F w = f_num F (int (unat w))) \<and>
     (\<forall>a b. 0 \<le> a \<longrightarrow> 0 \<le> b \<longrightarrow> a + b < 2 ^ 53 \<longrightarrow> f_add F (f_num F a) (f_num F b) = f_num F (a + b)) \<and>
     (\<forall>a b. 0 \<le> a \<longrightarrow> 0 < b \<longrightarrow> a * b < 2 ^ 53 \<longrightarrow> f_div F (f_num F (a * b)) (f_num F b) = f_num F a) \<and>
     f_sub F (f_num F 1) (f_num F 1) = f_num F 0 \<and>
     (\<forall>x. f_finite F x \<longrightarrow> f_eq F (f_mul F x (f_num F 0)) (f_num F 0))"

lemma exact_smallD:
  assumes "exact_small F"
  shows "unat w < 2 ^ 53 \<Longrightarrow> f_of_ulong F w = f_num F (int (unat w))"
    and "0 \<le> a \<Longrightarrow> 0 \<le> b \<Longrightarrow> a + b < 2 ^ 53 \<Longrightarrow> f_add F (f_num F a) (f_num F b) = f_num F (a + b)"
    and "0 \<le> a \<Longrightarrow> 0 < b \<Longrightarrow> a * b < 2 ^ 53 \<Longrightarrow> f_div F (f_num F (a * b)) (f_num F b) = f_num F a"
    and "f_sub F (f_num F 1) (f_num F 1) = f_num F 0"
    and "f_finite F x \<Longrightarrow> f_eq F (f_mul F x (f_num F 0)) (f_num F 0)"
  using assms unfolding exact_small_def by blast+

lemma exact_fpu_small: "exact_small exact_fpu"
  by (simp add: exact_small_def exact_fpu_def f_num_def)

definition labs :: "64 word \<Rightarrow> 64 word" where
  "labs x = (if sint x < 0 then - x else x)"

definition ldiv :: "64 word \<Rightarrow> 64 word \<Rightarrow> 64 word" where
  "ldiv x y = word_of_int (sint x sdiv sint y)"

definition long_div :: "64 word \<Rightarrow> 64 word \<Rightarrow> 64 word outcome" where
  "long_div x y = (if y = 0 then Inl DivideByZero else Inr (ldiv x y))"

section \<open>What is known of an agent\<close>

record agent_time_data =
  td_localTime :: "64 word"
  td_distributedTime :: "64 word"
  td_distributedMessageArrivalTime :: "64 word"
  td_localMessageArrivalTime :: "64 word"
  td_robotID :: int

definition AgentTimeData :: "64 word \<Rightarrow> 64 word \<Rightarrow> 64 word \<Rightarrow> 64 word \<Rightarrow> int \<Rightarrow> agent_time_data" where
  "AgentTimeData localTime distributedTime distributedMessageArrivalTime localMessageArrivalTime robotID =
     \<lparr>td_localTime = localTime, td_distributedTime = distributedTime,
      td_distributedMessageArrivalTime = distributedMessageArrivalTime,
      td_localMessageArrivalTime = localMessageArrivalTime, td_robotID = robotID\<rparr>"

record comm_model =
  cm_data :: "agent_time_data list"
  cm_robotID :: int
  cm_maxEntrys :: nat

definition AgentCommunicationModel :: "int \<Rightarrow> comm_model" where
  "AgentCommunicationModel robotID = \<lparr>cm_data = [], cm_robotID = robotID, cm_maxEntrys = 30\<rparr>"

text \<open>The configuration, with the static members that hold parts of it.\<close>

record 'd time_config =
  tc_defaultDelay :: "64 word"
  tc_defaultDelayVariance :: "64 word"
  tc_timeMessageInterval :: "64 word"
  tc_maxResendTime :: "64 word"
  tc_minResendTime :: "64 word"
  tc_resendArrivalPropability :: 'd

function drop_oldest :: "nat \<Rightarrow> agent_time_data list \<Rightarrow> agent_time_data list" where
  "drop_oldest maxEntrys data =
     (if length data > maxEntrys then drop_oldest maxEntrys (tl data) else data)"
  by pat_completeness auto
termination by (relation "measure (length \<circ> snd)") auto

declare drop_oldest.simps [simp del]

definition addData :: "agent_time_data \<Rightarrow> comm_model \<Rightarrow> comm_model" where
  "addData adt m = m\<lparr>cm_data := drop_oldest (cm_maxEntrys m) (cm_data m @ [adt])\<rparr>"

definition data_size :: "comm_model \<Rightarrow> 64 word" where
  "data_size m = of_nat (length (cm_data m))"

text \<open>The loops over \<open>data\<close>.\<close>

definition getMaxLikelihoodDelay :: "'d time_config \<Rightarrow> comm_model \<Rightarrow> 64 word" where
  "getMaxLikelihoodDelay cfg m =
     (if length (cm_data m) \<le> 1 then tc_defaultDelay cfg
      else foldl (\<lambda>s d. s + ldiv (labs (td_distributedMessageArrivalTime d - td_distributedTime d)) (data_size m))
             0 (cm_data m))"

definition getWeightedDelay :: "'d fpu \<Rightarrow> 'd time_config \<Rightarrow> comm_model \<Rightarrow> 64 word" where
  "getWeightedDelay F cfg m =
     (if length (cm_data m) \<le> 1 then tc_defaultDelay cfg
      else let s = foldl (\<lambda>s d.
             let delay = labs (ldiv (td_distributedMessageArrivalTime d) 1000000 - ldiv (td_distributedTime d) 1000000)
             in s + delay * delay) 0 (cm_data m)
           in f_to_long F (f_div F (f_mul F (f_sqrt F (f_of_long F s)) (f_num F 1000000)) (f_of_long F (data_size m))))"

definition getEstimatedTimeDifference :: "'d fpu \<Rightarrow> 'd time_config \<Rightarrow> comm_model \<Rightarrow> 64 word outcome" where
  "getEstimatedTimeDifference F cfg m =
     (let delay = getWeightedDelay F cfg m;
          ret = foldl (\<lambda>r d. r + ((td_localTime d + delay) - td_localMessageArrivalTime d)) 0 (cm_data m)
      in long_div ret (data_size m))"

definition getMaxLikelihoodDelayVariance :: "'d time_config \<Rightarrow> comm_model \<Rightarrow> 64 word \<Rightarrow> 64 word" where
  "getMaxLikelihoodDelayVariance cfg m averageDelay =
     (if length (cm_data m) \<le> 1 then tc_defaultDelayVariance cfg
      else foldl (\<lambda>s d.
             let delay = td_distributedMessageArrivalTime d - td_distributedTime d
             in s + ldiv (labs (delay - averageDelay)) (data_size m)) 0 (cm_data m))"

text \<open>The oldest and the newest entry, by the time at which they were sent.\<close>

definition oldest_data :: "agent_time_data \<Rightarrow> agent_time_data list \<Rightarrow> agent_time_data" where
  "oldest_data = foldl (\<lambda>x d. if td_distributedTime d < td_distributedTime x then d else x)"

definition newest_data :: "agent_time_data \<Rightarrow> agent_time_data list \<Rightarrow> agent_time_data" where
  "newest_data = foldl (\<lambda>x d. if td_distributedTime x < td_distributedTime d then d else x)"

definition getProbabilityForPacketLoss :: "'d fpu \<Rightarrow> 'd time_config \<Rightarrow> comm_model \<Rightarrow> 'd" where
  "getProbabilityForPacketLoss F cfg m =
     (if length (cm_data m) < 2 then f_lit F 1 1
      else let d = hd (cm_data m);
               diff = td_distributedTime (newest_data d (cm_data m)) - td_distributedTime (oldest_data d (cm_data m))
           in if diff = 0 then f_lit F 1 1
              else f_div F (f_of_ulong F (data_size m))
                     (f_add F (f_num F 1) (f_div F (f_of_ulong F diff)
                        (f_of_ulong F (tc_timeMessageInterval cfg * 1000000)))))"

text \<open>\<open>timeSincePacketSend - m\<close> and the comparison of the two are done without sign.\<close>

definition laplace_arrival :: "'d fpu \<Rightarrow> 64 word \<Rightarrow> 64 word \<Rightarrow> 64 word \<Rightarrow> 'd" where
  "laplace_arrival F timeSincePacketSend m v =
     (let x = f_div F (f_of_ulong F (timeSincePacketSend - m)) (f_of_long F v)
      in if m > timeSincePacketSend then f_mul F (f_lit F 5 1) (f_exp F x)
         else f_sub F (f_num F 1) (f_mul F (f_lit F 5 1) (f_exp F (f_neg F x))))"

definition single_packet_arrival :: "'d fpu \<Rightarrow> 64 word \<Rightarrow> 64 word \<Rightarrow> 64 word \<Rightarrow> 'd \<Rightarrow> 'd" where
  "single_packet_arrival F timeSincePacketSend m v PLoss =
     (let ret = laplace_arrival F timeSincePacketSend m v
      in f_mul F ret (f_sub F (f_num F 1) PLoss))"

definition getPropabilitySinglePacketArrival :: "'d fpu \<Rightarrow> 'd time_config \<Rightarrow> comm_model \<Rightarrow> 64 word \<Rightarrow> 'd" where
  "getPropabilitySinglePacketArrival F cfg acm timeSincePacketSend =
     (let m = getMaxLikelihoodDelay cfg acm
      in single_packet_arrival F timeSincePacketSend m (getMaxLikelihoodDelayVariance cfg acm m)
           (getProbabilityForPacketLoss F cfg acm))"

section \<open>The Lambert W function\<close>

text \<open>A result is the returned code with the values of \<open>val\<close> and \<open>err\<close>.\<close>

definition GSL_DBL_EPSILON :: "'d fpu \<Rightarrow> 'd" where
  "GSL_DBL_EPSILON F = f_lit F 22204460492503131 32"

primrec halley_loop :: "'d fpu \<Rightarrow> 'd \<Rightarrow> nat \<Rightarrow> nat \<Rightarrow> 'd \<Rightarrow> nat \<times> 'd \<times> 'd" where
  "halley_loop F x max_iters 0 w = (max_iters + 1, w, f_abs F w)"
| "halley_loop F x max_iters (Suc k) w =
     (let e = f_exp F w;
          p = f_add F w (f_num F 1);
          t = f_sub F (f_mul F w e) x;
          t = (if f_less F (f_num F 0) w then f_div F (f_div F t p) e
               else f_div F t (f_sub F (f_mul F e p)
                      (f_div F (f_mul F (f_mul F (f_lit F 5 1) (f_add F p (f_num F 1))) t) p)));
          w = f_sub F w t;
          tol = f_mul F (f_mul F (f_num F 10) (GSL_DBL_EPSILON F))
                  (f_max F (f_abs F w) (f_div F (f_num F 1) (f_mul F (f_abs F p) e)))
      in if f_less F (f_abs F t) tol then (1, w, f_mul F (f_num F 2) tol)
         else halley_loop F x max_iters k w)"

definition halleyIteration :: "'d fpu \<Rightarrow> 'd \<Rightarrow> 'd \<Rightarrow> nat \<Rightarrow> nat \<times> 'd \<times> 'd" where
  "halleyIteration F x w_initial max_iters = halley_loop F x max_iters max_iters w_initial"

definition seriesEval :: "'d fpu \<Rightarrow> 'd \<Rightarrow> 'd" where
  "seriesEval F r =
     (let c0 = f_num F (- 1);
          c1 = f_lit F 2331643981597124203363536062168 30;
          c2 = f_lit F (- 1812187885639363490240191647568) 30;
          c3 = f_lit F 1936631114492359755363277457668 30;
          c4 = f_lit F (- 2353551201881614516821543561516) 30;
          c5 = f_lit F 3066858901050631912893148922704 30;
          c6 = f_lit F (- 4175335600258177138854984177460) 30;
          c7 = f_lit F 5858023729874774148815053846119 30;
          c8 = f_lit F (- 8401032217523977370984161688514) 30;
          c9 = f_lit F 12250753501314460424 18;
          c10 = f_lit F (- 18100697012472442755) 18;
          c11 = f_lit F 27029044799010561650 18;
          step = (\<lambda>c t. f_add F c (f_mul F r t));
          t_8 = step c8 (step c9 (step c10 c11));
          t_5 = step c5 (step c6 (step c7 t_8));
          t_1 = step c1 (step c2 (step c3 (step c4 t_5)))
      in step c0 t_1)"

definition one_over_E :: "'d fpu \<Rightarrow> 'd" where
  "one_over_E F = f_div F (f_num F 1) (f_exp F (f_num F 1))"

definition gSLLambertW0e :: "'d fpu \<Rightarrow> 'd \<Rightarrow> nat \<times> 'd \<times> 'd" where
  "gSLLambertW0e F x =
     (let q = f_add F x (one_over_E F)
      in if f_eq F x (f_num F 0) then (1, f_num F 0, f_num F 0)
         else if f_less F q (f_num F 0) then (0, f_num F (- 1), f_sqrt F (f_neg F q))
         else if f_eq F q (f_num F 0) then (1, f_num F (- 1), GSL_DBL_EPSILON F)
         else if f_less F q (f_lit F 1 3)
         then let val = seriesEval F (f_sqrt F q)
              in (1, val, f_mul F (f_mul F (f_num F 2) (GSL_DBL_EPSILON F)) (f_abs F val))
         else let w = (if f_less F x (f_num F 1)
                       then let p = f_sqrt F (f_mul F (f_mul F (f_num F 2) (f_exp F (f_num F 1))) q)
                            in f_add F (f_num F (- 1)) (f_mul F p (f_add F (f_num F 1) (f_mul F p
                                 (f_add F (f_div F (f_num F (- 1)) (f_num F 3))
                                    (f_div F (f_mul F p (f_num F 11)) (f_num F 72))))))
                       else let w = f_log F x
                            in if f_less F (f_num F 3) x then f_sub F w (f_log F w) else w)
              in halleyIteration F x w 10)"

definition gSLLambertW1e :: "'d fpu \<Rightarrow> 'd \<Rightarrow> nat \<times> 'd \<times> 'd" where
  "gSLLambertW1e F x =
     (if f_less F (f_num F 0) x then gSLLambertW0e F x
      else if f_eq F x (f_num F 0) then (1, f_num F 0, f_num F 0)
      else let q = f_add F x (one_over_E F)
           in if f_less F q (f_num F 0) then (0, f_num F (- 1), f_sqrt F (f_neg F q))
              else if f_less F x (f_lit F (- 1) 6)
              then let w = seriesEval F (f_neg F (f_sqrt F q))
                   in if f_less F q (f_lit F 3 3)
                      then (1, w, f_mul F (f_mul F (f_num F 5) (GSL_DBL_EPSILON F)) (f_abs F w))
                      else halleyIteration F x w 32
              else let L_1 = f_log F (f_neg F x); L_2 = f_log F (f_neg F L_1)
                   in halleyIteration F x (f_add F (f_sub F L_1 L_2) (f_div F L_2 L_1)) 32)"

section \<open>Estimated times\<close>

text \<open>\<open>val\<close> of a result.\<close>

definition lambert_val :: "nat \<times> 'd \<times> 'd \<Rightarrow> 'd" where
  "lambert_val r = fst (snd r)"

definition estimated_resend_time :: "'d fpu \<Rightarrow> 'd \<Rightarrow> 64 word \<Rightarrow> 64 word \<Rightarrow> 64 word" where
  "estimated_resend_time F propability m v =
     (let e2 = f_exp F (f_num F 2);
          ret = (if f_leq F (f_lit F 5 1) propability
                 then let val = lambert_val (gSLLambertW1e F
                            (f_div F (f_mul F (f_num F 4) (f_sub F propability (f_num F 1))) e2))
                      in f_to_long F (f_mul F (f_neg F (f_of_long F v)) (f_add F val (f_num F 2)))
                 else let val = lambert_val (gSLLambertW1e F (f_div F (f_mul F (f_num F (- 4)) propability) e2))
                      in f_to_long F (f_mul F (f_of_long F v) (f_add F val (f_num F 2))))
      in ret + 2 * m)"

definition acm_getEstimatedResendTime :: "'d fpu \<Rightarrow> 'd time_config \<Rightarrow> 'd \<Rightarrow> comm_model \<Rightarrow> 64 word" where
  "acm_getEstimatedResendTime F cfg propability acm =
     (let m = getMaxLikelihoodDelay cfg acm
      in estimated_resend_time F propability m (getMaxLikelihoodDelayVariance cfg acm m))"

definition getEstimatedArrivalTime :: "'d fpu \<Rightarrow> 'd time_config \<Rightarrow> 'd \<Rightarrow> comm_model \<Rightarrow> 64 word" where
  "getEstimatedArrivalTime F cfg propability acm =
     (let m = getMaxLikelihoodDelay cfg acm; v = getMaxLikelihoodDelayVariance cfg acm m
      in if f_leq F (f_lit F 5 1) propability
         then f_to_long F (f_add F (f_mul F (f_neg F (f_of_long F v))
                (f_log F (f_add F (f_mul F (f_num F (- 2)) propability) (f_num F 2)))) (f_of_long F m))
         else f_to_long F (f_add F (f_mul F (f_of_long F v) (f_log F (f_mul F (f_num F 2) propability)))
                (f_of_long F m)))"

text \<open>
  \<open>getPropabilityConsensus\<close>, for a resend time and the probability that one message has arrived
  after a time; \<open>trails\<close> is converted to \<open>int\<close>.
\<close>

definition consensus_turn :: "'d fpu \<Rightarrow> (64 word \<Rightarrow> 'd) \<Rightarrow> 'd \<Rightarrow> 64 word \<Rightarrow> 64 word \<Rightarrow> 'd \<Rightarrow> nat \<Rightarrow> 'd" where
  "consensus_turn F single PLoss timeSincePacketSend resendTime ret i =
     (if i = 0 then (if timeSincePacketSend > 0 then f_add F ret (single timeSincePacketSend) else ret)
      else let rest = timeSincePacketSend - of_nat i * resendTime
           in if rest > 0
              then let t = ((\<lambda>t. f_mul F t PLoss) ^^ (i - 1)) PLoss in f_add F ret (f_mul F t (single rest))
              else ret)"

definition consensus_sum :: "'d fpu \<Rightarrow> (64 word \<Rightarrow> 'd) \<Rightarrow> 'd \<Rightarrow> 64 word \<Rightarrow> 64 word \<Rightarrow> 'd outcome" where
  "consensus_sum F single PLoss timeSincePacketSend resendTime =
     (if resendTime = 0 then Inl DivideByZero
      else let trails = sint (ucast (timeSincePacketSend div resendTime) :: 32 word)
           in Inr (foldl (consensus_turn F single PLoss timeSincePacketSend resendTime) (f_num F 0) [0..<nat (trails + 1)]))"

definition getPropabilityConsensus :: "'d fpu \<Rightarrow> 'd time_config \<Rightarrow> comm_model \<Rightarrow> 64 word \<Rightarrow> 'd \<Rightarrow> 'd outcome" where
  "getPropabilityConsensus F cfg acm timeSincePacketSend minResendProbability =
     consensus_sum F (getPropabilitySinglePacketArrival F cfg acm) (getProbabilityForPacketLoss F cfg acm)
       timeSincePacketSend (acm_getEstimatedResendTime F cfg minResendProbability acm)"

definition getPropabilityConsensus_at ::
  "'d fpu \<Rightarrow> 64 word \<Rightarrow> 'd \<Rightarrow> 64 word \<Rightarrow> 64 word \<Rightarrow> 'd \<Rightarrow> 'd outcome" where
  "getPropabilityConsensus_at F timeSincePacketSend minResendProbability m v PLoss =
     consensus_sum F (\<lambda>t. single_packet_arrival F t m v PLoss) PLoss timeSincePacketSend
       (estimated_resend_time F minResendProbability m v)"

text \<open>\<open>fmt\<close> is \<open>to_string\<close> of a \<open>double\<close>.\<close>

definition acm_toString :: "'d fpu \<Rightarrow> ('d \<Rightarrow> string) \<Rightarrow> 'd time_config \<Rightarrow> comm_model \<Rightarrow> string outcome" where
  "acm_toString F fmt cfg acm =
     bindE (getEstimatedTimeDifference F cfg acm) (\<lambda>diff.
       let m = getMaxLikelihoodDelay cfg acm
       in Inr (''AgendCommunicationModel: RobotID '' @ int_to_string (cm_robotID acm) @ '' DataCount '' @
            nat_to_string (length (cm_data acm)) @ '' PaketLoss: '' @ fmt (getProbabilityForPacketLoss F cfg acm) @
            '' NetworkDelay '' @ nat_to_string (unat m) @ '' NetworkVariance '' @
            nat_to_string (unat (getMaxLikelihoodDelayVariance cfg acm m)) @ '' EstimatedTimeDifference '' @
            int_to_string (sint diff)))"

section \<open>The time manager\<close>

text \<open>\<open>now\<close> is a reading of the clock, in nanoseconds.\<close>

record time_manager =
  tm_timeDiff :: "64 word"
  tm_timeEvalOffset :: "64 word"
  tm_timeReceiveEvalOffset :: "64 word"
  tm_lastSent :: "64 word"
  tm_models :: "(int, comm_model) smap"

definition TimeManager :: time_manager where
  "TimeManager = \<lparr>tm_timeDiff = 0, tm_timeEvalOffset = 0, tm_timeReceiveEvalOffset = 0, tm_lastSent = 0,
     tm_models = []\<rparr>"

definition getDistributedTime :: "time_manager \<Rightarrow> 64 word \<Rightarrow> 64 word" where
  "getDistributedTime tm now = tm_timeDiff tm + now + tm_timeEvalOffset tm"

definition getLocalTime :: "time_manager \<Rightarrow> 64 word \<Rightarrow> 64 word" where
  "getLocalTime tm now = now + tm_timeEvalOffset tm"

definition milliseconds :: "64 word \<Rightarrow> 64 word" where
  "milliseconds t = t div 1000000"

text \<open>A step reads the clock up to four times: for the test, for the message, and afterwards.\<close>

definition tm_step ::
  "'d time_config \<Rightarrow> 64 word \<times> 64 word \<times> 64 word \<times> 64 word \<Rightarrow> cace_env \<Rightarrow> time_manager \<Rightarrow> agent \<Rightarrow>
     (time_manager \<times> agent \<times> net_out list) outcome" where
  "tm_step cfg nows env tm ag =
     (case nows of (t1, t2, t3, t4) \<Rightarrow>
       if tm_lastSent tm + tc_timeMessageInterval cfg < milliseconds (getLocalTime tm t1)
       then bindE (sendTime (env\<lparr>e_dist := getDistributedTime tm t2, e_local := getLocalTime tm t3\<rparr>) ag) (\<lambda>(ag, os).
              Inr (tm\<lparr>tm_lastSent := milliseconds (getLocalTime tm t4)\<rparr>, ag, os))
       else Inr (tm, ag, []))"

definition tm_getEstimatedResendTime :: "'d fpu \<Rightarrow> 'd time_config \<Rightarrow> time_manager \<Rightarrow> int \<Rightarrow> 64 word" where
  "tm_getEstimatedResendTime F cfg tm agentID =
     (case smap_get (tm_models tm) agentID of
        None \<Rightarrow> tc_maxResendTime cfg
      | Some acm \<Rightarrow>
          max (min (acm_getEstimatedResendTime F cfg (tc_resendArrivalPropability cfg) acm div timeResolutionDevisor)
                   (tc_maxResendTime cfg)) (tc_minResendTime cfg))"

definition getEstimatedPacketLoss :: "'d fpu \<Rightarrow> 'd time_config \<Rightarrow> time_manager \<Rightarrow> int \<Rightarrow> 'd" where
  "getEstimatedPacketLoss F cfg tm agentID =
     (case smap_get (tm_models tm) agentID of
        None \<Rightarrow> f_num F 1
      | Some acm \<Rightarrow> getProbabilityForPacketLoss F cfg acm)"

definition getPropabilityforConsensus ::
  "'d fpu \<Rightarrow> 'd time_config \<Rightarrow> time_manager \<Rightarrow> int \<Rightarrow> 64 word \<Rightarrow> 'd outcome" where
  "getPropabilityforConsensus F cfg tm agentID jobStart =
     (case smap_get (tm_models tm) agentID of
        None \<Rightarrow> Inr (f_num F 0)
      | Some acm \<Rightarrow> getPropabilityConsensus F cfg acm jobStart (tc_resendArrivalPropability cfg))"

definition getAgentCommunicationDelay :: "'d time_config \<Rightarrow> time_manager \<Rightarrow> int \<Rightarrow> 64 word" where
  "getAgentCommunicationDelay cfg tm agentID =
     (case smap_get (tm_models tm) agentID of None \<Rightarrow> 0 | Some acm \<Rightarrow> getMaxLikelihoodDelay cfg acm)"

text \<open>The model of the sender, which is made when it is asked for.\<close>

definition model_of :: "time_manager \<Rightarrow> int \<Rightarrow> comm_model" where
  "model_of tm agentID =
     (case smap_get (tm_models tm) agentID of None \<Rightarrow> AgentCommunicationModel agentID | Some acm \<Rightarrow> acm)"

primrec sum_differences ::
  "'d fpu \<Rightarrow> 'd time_config \<Rightarrow> (int \<times> comm_model) list \<Rightarrow> 64 word \<Rightarrow> 64 word \<Rightarrow> (64 word \<times> 64 word) outcome" where
  "sum_differences F cfg [] diffSum n = Inr (diffSum, n)"
| "sum_differences F cfg (p # ps) diffSum n =
     (if length (cm_data (snd p)) > 1
      then bindE (getEstimatedTimeDifference F cfg (snd p)) (\<lambda>d. sum_differences F cfg ps (diffSum + d) (n + 1))
      else sum_differences F cfg ps diffSum n)"

definition adjusted :: "'d fpu \<Rightarrow> 64 word \<Rightarrow> 64 word \<Rightarrow> 64 word" where
  "adjusted F diff mean =
     f_to_long F (f_add F (f_of_long F diff) (f_mul F (f_of_long F (mean - diff)) (f_lit F 3 1)))"

definition addTimeMessage :: "'d fpu \<Rightarrow> 'd time_config \<Rightarrow> cace_time \<Rightarrow> 64 word \<Rightarrow> time_manager \<Rightarrow> time_manager outcome" where
  "addTimeMessage F cfg ct receivedTime tm =
     (let receivedTime = receivedTime + tm_timeReceiveEvalOffset tm;
          agt = AgentTimeData (ct_localtime ct) (ct_distributedTime ct) (receivedTime + tm_timeDiff tm) receivedTime
                  (ct_senderID ct);
          models = smap_put (tm_models tm) (ct_senderID ct) (addData agt (model_of tm (ct_senderID ct)))
      in bindE (sum_differences F cfg models 0 0) (\<lambda>(diffSum, n).
         bindE (long_div diffSum (n + 1)) (\<lambda>mean.
           Inr (tm\<lparr>tm_models := models, tm_timeDiff := adjusted F (tm_timeDiff tm) mean\<rparr>))))"

primrec models_toString ::
  "'d fpu \<Rightarrow> ('d \<Rightarrow> string) \<Rightarrow> 'd time_config \<Rightarrow> (int \<times> comm_model) list \<Rightarrow> string outcome" where
  "models_toString F fmt cfg [] = Inr []"
| "models_toString F fmt cfg (p # ps) =
     bindE (acm_toString F fmt cfg (snd p)) (\<lambda>s.
     bindE (models_toString F fmt cfg ps) (\<lambda>t. Inr (''> '' @ s @ '' <'' @ [CHR 0x09] @ t)))"

definition tm_toString ::
  "'d fpu \<Rightarrow> ('d \<Rightarrow> string) \<Rightarrow> 'd time_config \<Rightarrow> 64 word \<Rightarrow> 64 word \<Rightarrow> time_manager \<Rightarrow> agent \<Rightarrow> string outcome" where
  "tm_toString F fmt cfg t1 t2 tm ag =
     bindE (models_toString F fmt cfg (tm_models tm)) (\<lambda>acmstring.
       Inr (''Distributed Time: '' @ nat_to_string (unat (getDistributedTime tm t1)) @ '' LocalTime '' @
            nat_to_string (unat (getLocalTime tm t2)) @ '' LamportTime '' @ nat_to_string (unat (ag_lamport ag)) @
            '' Models('' @ nat_to_string (length (tm_models tm)) @ '') '' @ acmstring))"

definition clearQueues :: "time_manager \<Rightarrow> time_manager" where
  "clearQueues tm = tm\<lparr>tm_models := []\<rparr>"

section \<open>The agent with its time manager\<close>

text \<open>What the other operations of an agent read from its time manager when the clock shows \<open>now\<close>.\<close>

definition tm_env :: "'d fpu \<Rightarrow> 'd time_config \<Rightarrow> time_manager \<Rightarrow> 64 word \<Rightarrow> int \<Rightarrow> cace_env" where
  "tm_env F cfg tm now retrys =
     \<lparr>e_local = getLocalTime tm now, e_dist = getDistributedTime tm now,
      e_estimate = (\<lambda>i. map_option (acm_getEstimatedResendTime F cfg (tc_resendArrivalPropability cfg))
                          (smap_get (tm_models tm) i)),
      e_maxResend = tc_maxResendTime cfg, e_minResend = tc_minResendTime cfg, e_maxRetrys = retrys\<rparr>"

definition handle_time_message ::
  "'d fpu \<Rightarrow> 'd time_config \<Rightarrow> 64 word \<Rightarrow> int \<Rightarrow> cace_time \<Rightarrow> time_manager \<Rightarrow> agent \<Rightarrow>
     (time_manager \<times> agent \<times> net_out list) outcome" where
  "handle_time_message F cfg now retrys ct tm ag =
     (let current = getLocalTime tm now
      in if isBlacklisted ag (ct_senderID ct) then Inr (tm, ag, [])
         else bindE (addTimeMessage F cfg ct current tm) (\<lambda>tm.
              bindE (handleCaceTime (tm_env F cfg tm now retrys) ct ag) (\<lambda>(ag, os). Inr (tm, ag, os))))"

definition getProbabilityForBelieveConsistency ::
  "'d fpu \<Rightarrow> 'd time_config \<Rightarrow> 64 word \<Rightarrow> string \<Rightarrow> int \<Rightarrow> time_manager \<Rightarrow> agent \<Rightarrow> 'd outcome" where
  "getProbabilityForBelieveConsistency F cfg now name agentID tm ag =
     (case getVariable (ag_store ag) name of
        None \<Rightarrow> Inr (f_num F 0)
      | Some v \<Rightarrow>
          if cv_strategy v \<le> NoDistribution then Inr (f_num F 0)
          else if cv_strategy v \<le> FireAndForget then Inr (getEstimatedPacketLoss F cfg tm agentID)
          else (case getNewestVariableJob ag name (cv_strategy v) of
                  None \<Rightarrow> Inr (f_num F 1)
                | Some j \<Rightarrow>
                    if \<not> contains (jb_expected j) agentID then Inr (f_num F 1)
                    else getPropabilityforConsensus F cfg tm agentID (getDistributedTime tm now - jb_startTime j)))"

section \<open>Histories\<close>

text \<open>A history is a list of time messages, each with the clock reading when it is handled.\<close>

primrec hear :: "'d fpu \<Rightarrow> 'd time_config \<Rightarrow> (64 word \<times> cace_time) list \<Rightarrow> time_manager \<Rightarrow> time_manager outcome" where
  "hear F cfg [] tm = Inr tm"
| "hear F cfg (m # ms) tm =
     bindE (addTimeMessage F cfg (snd m) (getLocalTime tm (fst m)) tm) (\<lambda>tm. hear F cfg ms tm)"

definition sent_by :: "int \<Rightarrow> (64 word \<times> cace_time) list \<Rightarrow> cace_time list" where
  "sent_by i ms = filter (\<lambda>ct. ct_senderID ct = i) (map snd ms)"

definition last_n :: "nat \<Rightarrow> 'a list \<Rightarrow> 'a list" where
  "last_n n xs = drop (length xs - n) xs"

lemma drop_oldest_last: "drop_oldest n xs = last_n n xs"
proof (induction n xs rule: drop_oldest.induct)
  case (1 n xs)
  show ?case
  proof (cases "length xs > n")
    case True
    then obtain y ys where xs: "xs = y # ys" by (cases xs) auto
    have "drop (length xs - n) xs = drop (length ys - n) ys"
      using True xs by (simp add: Suc_diff_le)
    with True 1 xs show ?thesis by (subst drop_oldest.simps) (simp add: last_n_def)
  qed (subst drop_oldest.simps, simp add: last_n_def)
qed

lemma length_last_n: "length (last_n n xs) = min n (length xs)"
  by (simp add: last_n_def)

lemma map_last_n: "map f (last_n n xs) = last_n n (map f xs)"
  by (simp add: last_n_def drop_map)

lemma last_n_snoc: "last_n n (last_n n xs @ [x]) = last_n n (xs @ [x])"
proof (cases "length xs \<le> n")
  case False
  then have "drop (Suc 0) (drop (length xs - n) xs) = drop (Suc (length xs - n)) xs" by simp
  with False show ?thesis by (simp add: last_n_def Suc_diff_le)
qed (simp add: last_n_def)

text \<open>What the models hold after a history: the messages of each sender, the last 30 of them.\<close>

definition summary :: "agent_time_data \<Rightarrow> 64 word \<times> 64 word \<times> int" where
  "summary d = (td_localTime d, td_distributedTime d, td_robotID d)"

definition stamps :: "cace_time \<Rightarrow> 64 word \<times> 64 word \<times> int" where
  "stamps ct = (ct_localtime ct, ct_distributedTime ct, ct_senderID ct)"

definition recalls :: "cace_time list \<Rightarrow> comm_model option \<Rightarrow> bool" where
  "recalls own acm = (case acm of
     None \<Rightarrow> own = []
   | Some acm \<Rightarrow> own \<noteq> [] \<and> cm_maxEntrys acm = 30 \<and> map summary (cm_data acm) = map stamps (last_n 30 own))"

definition remembers :: "time_manager \<Rightarrow> cace_time list \<Rightarrow> bool" where
  "remembers tm cts \<longleftrightarrow> smap_wf (tm_models tm) \<and> length (tm_models tm) \<le> length cts \<and>
     (\<forall>i. recalls (filter (\<lambda>ct. ct_senderID ct = i) cts) (smap_get (tm_models tm) i))"

lemma data_size_nonzero: "0 < length (cm_data acm) \<Longrightarrow> length (cm_data acm) < 2 ^ 64 \<Longrightarrow> data_size acm \<noteq> 0"
  by (simp add: data_size_def word_of_nat_eq_0_iff nat_dvd_not_less)

lemma length_smap_put: "length (smap_put m k v) \<le> length m + 1"
  by (induction m k v rule: smap_put.induct) auto

lemma sum_differences_ok:
  assumes "\<forall>p \<in> set ps. length (cm_data (snd p)) < 2 ^ 64" "unat n + length ps < 2 ^ 64"
  shows "\<exists>d n'. sum_differences F cfg ps s n = Inr (d, n') \<and> unat n' \<le> unat n + length ps"
  using assms
proof (induction ps arbitrary: s n)
  case (Cons p ps)
  show ?case
  proof (cases "length (cm_data (snd p)) > 1")
    case True
    have "data_size (snd p) \<noteq> 0" using True Cons.prems(1) by (intro data_size_nonzero) auto
    then obtain d where d: "getEstimatedTimeDifference F cfg (snd p) = Inr d"
      by (auto simp: getEstimatedTimeDifference_def long_div_def Let_def)
    have u: "unat (n + 1) = unat n + 1" using Cons.prems(2) by (intro unat_add_lem [THEN iffD1, THEN trans]) auto
    show ?thesis using Cons.IH [of "n + 1" "s + d"] Cons.prems True d by (auto simp: u)
  next
    case False
    then show ?thesis using Cons.IH [of n s] Cons.prems by fastforce
  qed
qed simp

lemma recalls_window: "recalls own (Some acm) \<Longrightarrow> length (cm_data acm) \<le> 30"
  using length_last_n [of 30 own] by (auto simp: recalls_def dest!: arg_cong [of "map _ _" _ length])

lemma remembers_window: "remembers tm cts \<Longrightarrow> (i, acm) \<in> set (tm_models tm) \<Longrightarrow> length (cm_data acm) \<le> 30"
  unfolding remembers_def by (metis recalls_window smap_get_in)

lemma recalls_add:
  assumes "recalls own acm" "summary agt = stamps ct"
  shows "recalls (own @ [ct]) (Some (addData agt (case acm of None \<Rightarrow> AgentCommunicationModel i | Some m \<Rightarrow> m)))"
proof (cases acm)
  case None
  with assms show ?thesis
    by (simp add: recalls_def addData_def drop_oldest_last AgentCommunicationModel_def last_n_def)
next
  case (Some m)
  have "map summary (cm_data m) = last_n 30 (map stamps own)" "cm_maxEntrys m = 30"
    using assms(1) Some by (auto simp: recalls_def map_last_n)
  with Some assms(2) show ?thesis by (simp add: recalls_def addData_def drop_oldest_last map_last_n last_n_snoc)
qed

lemma remembers_add:
  assumes "remembers tm cts" "summary agt = stamps ct"
  shows "remembers (tm\<lparr>tm_models := smap_put (tm_models tm) (ct_senderID ct) (addData agt (model_of tm (ct_senderID ct)))\<rparr>)
           (cts @ [ct])"
proof -
  let ?s = "ct_senderID ct"
  have wf: "smap_wf (tm_models tm)" "length (tm_models tm) \<le> length cts"
      and rc: "\<And>i. recalls (filter (\<lambda>ct. ct_senderID ct = i) cts) (smap_get (tm_models tm) i)"
    using assms(1) by (auto simp: remembers_def)
  have "recalls (filter (\<lambda>c. ct_senderID c = ?s) cts @ [ct]) (Some (addData agt (model_of tm ?s)))"
    unfolding model_of_def by (rule recalls_add [OF rc assms(2)])
  then show ?thesis
    using wf rc length_smap_put [of "tm_models tm" ?s "addData agt (model_of tm ?s)"]
    by (auto simp: remembers_def smap_wf_put smap_get_put)
qed

lemma addTimeMessage_remembers:
  assumes "remembers tm cts" "length cts + 2 < 2 ^ 64"
  shows "\<exists>tm'. addTimeMessage F cfg ct r tm = Inr tm' \<and> remembers tm' (cts @ [ct])"
proof -
  define agt where "agt = AgentTimeData (ct_localtime ct) (ct_distributedTime ct)
    (r + tm_timeReceiveEvalOffset tm + tm_timeDiff tm) (r + tm_timeReceiveEvalOffset tm) (ct_senderID ct)"
  define models where "models = smap_put (tm_models tm) (ct_senderID ct) (addData agt (model_of tm (ct_senderID ct)))"
  have rem: "remembers (tm\<lparr>tm_models := models\<rparr>) (cts @ [ct])"
    unfolding models_def by (rule remembers_add [OF assms(1)]) (auto simp: agt_def AgentTimeData_def summary_def stamps_def)
  have "\<forall>p \<in> set models. length (cm_data (snd p)) < 2 ^ 64"
    using remembers_window [OF rem] by fastforce
  moreover have "length models \<le> length cts + 1" using rem by (auto simp: remembers_def)
  ultimately obtain d n' where s: "sum_differences F cfg models 0 0 = Inr (d, n')" "unat n' \<le> length cts + 1"
    using sum_differences_ok [of models 0 F cfg 0] assms(2) by fastforce
  have "unat (n' + 1) = unat n' + 1"
    using s(2) assms(2) by (intro unat_add_lem [THEN iffD1, THEN trans]) auto
  then have nz: "n' + 1 \<noteq> 0" by (metis add_is_0 unat_eq_zero zero_neq_one)
  show ?thesis
    using rem s(1) nz unfolding addTimeMessage_def Let_def
    by (simp add: agt_def [symmetric] models_def [symmetric] long_div_def remembers_def)
qed

lemma hear_remembers:
  assumes "remembers tm cts" "length cts + length ms + 2 < 2 ^ 64"
  shows "\<exists>tm'. hear F cfg ms tm = Inr tm' \<and> remembers tm' (cts @ map snd ms)"
  using assms
proof (induction ms arbitrary: tm cts)
  case (Cons m ms)
  have "length cts + 2 < 2 ^ 64" using Cons.prems(2) by simp
  then obtain tm' where tm': "addTimeMessage F cfg (snd m) (getLocalTime tm (fst m)) tm = Inr tm'"
      "remembers tm' (cts @ [snd m])"
    using addTimeMessage_remembers [OF Cons.prems(1)] by blast
  show ?case using Cons.IH [OF tm'(2)] Cons.prems tm'(1) by simp
qed simp

lemma remembers_start: "remembers TimeManager []"
  by (simp add: remembers_def recalls_def TimeManager_def smap_wf_def smap_get_def)

section \<open>Resending\<close>

text \<open>The manager's answer is the one that the jobs use.\<close>

lemma tm_env_resend: "getEstimatedResendTime (tm_env F cfg tm now retrys) i = tm_getEstimatedResendTime F cfg tm i"
  by (simp add: getEstimatedResendTime_def tm_getEstimatedResendTime_def tm_env_def split: option.split)

lemma tm_env_local: "e_local (tm_env F cfg tm now retrys) = getLocalTime tm now"
  by (simp add: tm_env_def)

lemma resend_between:
  assumes "tc_minResendTime cfg \<le> tc_maxResendTime cfg"
  shows "tc_minResendTime cfg \<le> tm_getEstimatedResendTime F cfg tm i"
    "tm_getEstimatedResendTime F cfg tm i \<le> tc_maxResendTime cfg"
  using assms by (auto simp: tm_getEstimatedResendTime_def split: option.split)

lemma due_by_resend:
  "resend_due (tm_env F cfg tm now retrys) i e \<longleftrightarrow> js_robotID e = i \<and> 0 < js_retrys e \<and>
     js_lastSent e + tm_getEstimatedResendTime F cfg tm (js_robotID e) < getLocalTime tm now"
  by (auto simp: resend_due_def tm_env_resend tm_env_local local_ticks_def timeResolutionDevisor_def)

section \<open>The packet loss\<close>

lemma newest_is_last:
  assumes "sorted (map td_distributedTime (d # ds))"
  shows "td_distributedTime (newest_data d ds) = td_distributedTime (last (d # ds))"
  using assms
proof (induction ds rule: rev_induct)
  case (snoc x xs)
  then have IH: "td_distributedTime (newest_data d xs) = td_distributedTime (last (d # xs))"
    by (simp add: sorted_append)
  have "td_distributedTime (last (d # xs)) \<le> td_distributedTime x"
    using snoc.prems by (auto simp: sorted_append)
  then show ?case using IH by (auto simp: newest_data_def)
qed (simp add: newest_data_def)

lemma oldest_is_first:
  assumes "\<forall>x \<in> set ds. td_distributedTime d \<le> td_distributedTime x"
  shows "oldest_data d ds = d"
  using assms by (induction ds) (auto simp: oldest_data_def)

lemma unat_64: "unat (w :: 64 word) < 2 ^ 64"
  using unsigned_less [of w] by simp

lemma length_increasing: "sorted_wrt (<) ks \<Longrightarrow> ks \<noteq> [] \<Longrightarrow> length ks \<le> last ks - hd ks + (1 :: nat)"
proof (induction ks rule: rev_induct)
  case (snoc x xs)
  show ?case
  proof (cases "xs = []")
    case False
    then have "last xs < x" using snoc.prems by (simp add: sorted_wrt_append)
    moreover have "hd xs \<le> last xs"
      using snoc.prems False by (cases xs) (auto simp: sorted_wrt_append less_imp_le)
    moreover have "length xs \<le> last xs - hd xs + 1" using snoc.IH snoc.prems False by (simp add: sorted_wrt_append)
    ultimately show ?thesis using False by (simp add: Suc_diff_le)
  qed simp
qed simp

lemma loss_of_window:
  assumes data: "map (\<lambda>d. unat (td_distributedTime d)) (cm_data acm) = map (\<lambda>k. t + k * (unat (tc_timeMessageInterval cfg) * 1000000)) ks"
    and ks: "sorted_wrt (<) ks" "2 \<le> length ks" and interval: "0 < tc_timeMessageInterval cfg"
    and small: "(last ks - hd ks + 1) * (unat (tc_timeMessageInterval cfg) * 1000000) < 2 ^ 53" and F: "exact_small F"
  shows "getProbabilityForPacketLoss F cfg acm = f_div F (f_num F (int (length ks))) (f_num F (int (last ks - hd ks + 1)))"
proof -
  let ?I = "unat (tc_timeMessageInterval cfg) * 1000000"
  obtain k k' ks' where k: "ks = k # k' # ks'" using ks(2) by (cases ks; cases "tl ks") auto
  have len: "length (cm_data acm) = length ks" using arg_cong [OF data, of length] by simp
  obtain d ds where d: "cm_data acm = d # ds" using len k by (cases "cm_data acm") auto
  have klast: "k < last ks" using ks(1) k by (auto simp: last_in_set)
  have I0: "0 < ?I" using interval by (simp add: unat_gt_0)
  have hd: "unat (td_distributedTime d) = t + k * ?I" using data d k by simp
  have "unat (td_distributedTime (last (cm_data acm))) = last (map (\<lambda>d. unat (td_distributedTime d)) (cm_data acm))"
    using d by (simp add: last_map)
  also have "\<dots> = t + last ks * ?I" unfolding data using k by (simp only: last_map list.distinct not_False_eq_True)
  finally have lst: "unat (td_distributedTime (last (cm_data acm))) = t + last ks * ?I" .
  have "sorted (map (\<lambda>k. t + k * ?I) ks)"
    using ks(1) by (auto simp: sorted_wrt_map elim!: sorted_wrt_mono_rel [rotated])
  then have "sorted (map (\<lambda>d. unat (td_distributedTime d)) (cm_data acm))" unfolding data .
  then have srt: "sorted (map td_distributedTime (cm_data acm))" by (simp add: sorted_wrt_map word_le_nat_alt)
  have new: "td_distributedTime (newest_data d (cm_data acm)) = td_distributedTime (last (cm_data acm))"
    using newest_is_last [of d "cm_data acm"] srt d by simp
  have old: "oldest_data d (cm_data acm) = d" using srt d by (intro oldest_is_first) auto
  define diff where "diff = td_distributedTime (last (cm_data acm)) - td_distributedTime d"
  have "td_distributedTime d \<le> td_distributedTime (last (cm_data acm))"
    unfolding word_le_nat_alt hd lst using klast by simp
  then have "unat diff = (last ks - k) * ?I"
    unfolding diff_def using hd lst klast by (simp add: unat_sub diff_mult_distrib)
  moreover have "?I \<le> (last ks - k) * ?I" using klast by (cases "last ks - k") auto
  ultimately have le: "?I \<le> unat diff" and ud: "unat diff = (last ks - k) * ?I" by auto
  have I: "unat (tc_timeMessageInterval cfg * 1000000) = ?I"
    using le unat_64 [of diff] by (subst unat_mult_lem [THEN iffD1]) auto
  have one: "1 \<le> ?I" using I0 by linarith
  have small_diff: "unat diff < 2 ^ 53" "?I < 2 ^ 53" "last ks - k + 1 < 2 ^ 53"
  proof -
    have hk: "hd ks = k" using k by simp
    have "last ks - k + 1 \<le> (last ks - k + 1) * ?I"
      using mult_le_mono2 [OF one, of "last ks - k + 1"] by (simp only: mult_1_right)
    then show "last ks - k + 1 < 2 ^ 53" using small unfolding hk by linarith
    have "unat diff \<le> (last ks - k + 1) * ?I" unfolding ud by (rule mult_le_mono1) simp
    then show "unat diff < 2 ^ 53" using small unfolding hk by (rule le_less_trans)
    then show "?I < 2 ^ 53" using le by linarith
  qed
  have count: "length ks \<le> last ks - k + 1" using length_increasing [OF ks(1)] k by simp
  then have "length ks < 2 ^ 53" using small_diff(3) by (rule le_less_trans)
  then have "length ks < 2 ^ 64" by simp
  then have size: "unat (data_size acm) = length ks"
    using len by (simp add: data_size_def unat_of_nat take_bit_nat_eq_self)
  note law = exact_smallD [OF F]
  have ratio: "f_div F (f_of_ulong F diff) (f_of_ulong F (tc_timeMessageInterval cfg * 1000000)) = f_num F (int (last ks - k))"
  proof -
    have "int (last ks - k) * int ?I < 2 ^ 53" using small_diff(1) unfolding ud by (metis of_nat_less_iff of_nat_mult of_nat_numeral of_nat_power)
    then show ?thesis
      using law(3) [of "int (last ks - k)" "int ?I"] law(1) [of diff] law(1) [of "tc_timeMessageInterval cfg * 1000000"]
        small_diff(1,2) one by (simp only: ud I of_nat_mult)
  qed
  have "diff \<noteq> 0" using le I0 by auto
  then have "getProbabilityForPacketLoss F cfg acm =
      f_div F (f_of_ulong F (data_size acm)) (f_add F (f_num F 1)
        (f_div F (f_of_ulong F diff) (f_of_ulong F (tc_timeMessageInterval cfg * 1000000))))"
    unfolding getProbabilityForPacketLoss_def Let_def
    using new old d len ks(2) by (simp add: diff_def)
  also have "\<dots> = f_div F (f_num F (int (length ks))) (f_num F (1 + int (last ks - k)))"
    unfolding ratio using law(1) [of "data_size acm"] law(2) [of 1 "int (last ks - k)"] small_diff(3) count size by simp
  finally show ?thesis using k by (simp add: add.commute)
qed

text \<open>The probability that a message has arrived, when every time message has.\<close>

lemma arrival_of_full_window:
  assumes "exact_small F" and "getProbabilityForPacketLoss F cfg acm = f_num F 1"
    and "f_finite F (laplace_arrival F since (getMaxLikelihoodDelay cfg acm)
           (getMaxLikelihoodDelayVariance cfg acm (getMaxLikelihoodDelay cfg acm)))"
  shows "f_eq F (getPropabilitySinglePacketArrival F cfg acm since) (f_num F 0)"
  unfolding getPropabilitySinglePacketArrival_def single_packet_arrival_def Let_def assms(2)
  using exact_smallD(4,5) [OF assms(1)] assms(3) by simp

lemma exp_above: "1 \<le> x \<Longrightarrow> 5 / 2 \<le> exp (x :: real)"
  using exp_lower_Taylor_quadratic [of x] one_le_power [of x 2] by linarith

text \<open>Before the mean delay has passed, the difference wraps around.\<close>

lemma early_arrival_certain:
  assumes "since < m" "unat m \<le> 2 ^ 63" "0 < sint v" "loss \<le> 1 / 10"
  shows "1 < single_packet_arrival exact_fpu since m v loss"
proof -
  let ?x = "real (unat (since - m)) / real_of_int (sint v)"
  have "unat (since - m) = 2 ^ 64 - (unat m - unat since)"
  proof -
    have "unat since < unat m" using assms(1) by (simp add: word_less_nat_alt)
    then show ?thesis using unat_sub_if' [of since m] unat_64 [of m] by simp
  qed
  then have "2 ^ 63 \<le> unat (since - m)" using assms(2) by simp
  then have big: "(2::real) ^ 63 \<le> real (unat (since - m))"
    using of_nat_mono [of "2 ^ 63" "unat (since - m)", where 'a = real] by simp
  have "sint v < 2 ^ 63" using sint_lt [of v] by simp
  then have "real_of_int (sint v) < 2 ^ 63"
    using of_int_less_iff [of "sint v" "2 ^ 63", where 'a = real] by (simp del: of_int_sint)
  then have "1 \<le> ?x" using big assms(3) by (simp add: le_divide_eq del: of_int_sint of_nat_unat)
  then have "5 / 2 \<le> exp ?x" by (rule exp_above)
  then have "1 < 1 / 2 * exp ?x * (1 - loss)"
    using assms(4) mult_mono [of "5 / 4" "1 / 2 * exp ?x" "9 / 10" "1 - loss"] by simp
  then show ?thesis
    using assms(1) by (simp add: single_packet_arrival_def laplace_arrival_def exact_fpu_def f_num_def Let_def)
qed

section \<open>The agreed clock\<close>

lemma trunc_near: "\<bar>real_of_int (if x < 0 then \<lceil>x\<rceil> else \<lfloor>x\<rfloor>) - x\<bar> \<le> 1"
  by (cases "x < 0") (simp_all, linarith+)

lemma step_nearer:
  fixes a d m :: real
  assumes "\<bar>a - (7 / 10 * d + 3 / 10 * m)\<bar> \<le> 1"
  shows "\<bar>a - m\<bar> \<le> 7 / 10 * \<bar>d - m\<bar> + 1"
proof -
  have "a - m = (a - (7 / 10 * d + 3 / 10 * m)) + 7 / 10 * (d - m)" by (simp add: field_simps)
  then have "\<bar>a - m\<bar> \<le> \<bar>a - (7 / 10 * d + 3 / 10 * m)\<bar> + \<bar>7 / 10 * (d - m)\<bar>"
    by (metis abs_triangle_ineq)
  also have "\<bar>7 / 10 * (d - m)\<bar> = 7 / 10 * \<bar>d - m\<bar>" by (simp only: abs_mult)
  finally show ?thesis using assms by linarith
qed

lemma sint_small: "- (2 ^ 63) \<le> k \<Longrightarrow> k < 2 ^ 63 \<Longrightarrow> sint (word_of_int k :: 64 word) = k"
  by (simp add: sint_sbintrunc' signed_take_bit_int_eq_self)

lemma adjusted_nearer:
  assumes "\<bar>sint d\<bar> < 2 ^ 61" "\<bar>sint mean\<bar> < 2 ^ 61"
  shows "\<bar>real_of_int (sint (adjusted exact_fpu d mean)) - sint mean\<bar> \<le> 7 / 10 * \<bar>real_of_int (sint d) - sint mean\<bar> + 1"
proof -
  have "mean - d = word_of_int (sint mean - sint d)" by (simp add: wi_hom_sub [symmetric])
  then have diff: "sint (mean - d) = sint mean - sint d"
    using assms by (simp only:) (rule sint_small; simp)
  define x where "x = real_of_int (sint d) + real_of_int (sint (mean - d)) * (3 / 10)"
  define k where "k = (if x < 0 then \<lceil>x\<rceil> else \<lfloor>x\<rfloor>)"
  have near: "\<bar>real_of_int k - x\<bar> \<le> 1" unfolding k_def by (rule trunc_near)
  have x: "x = 7 / 10 * sint d + 3 / 10 * sint mean" unfolding x_def diff by (simp add: field_simps del: of_int_sint)
  have "\<bar>real_of_int (sint d)\<bar> < 2 ^ 61" "\<bar>real_of_int (sint mean)\<bar> < 2 ^ 61"
    using assms of_int_less_iff [of "\<bar>sint d\<bar>" "2 ^ 61", where 'a = real]
      of_int_less_iff [of "\<bar>sint mean\<bar>" "2 ^ 61", where 'a = real] by (simp_all del: of_int_sint)
  then have "\<bar>x\<bar> < 2 ^ 61" unfolding x by linarith
  moreover have "(2 :: real) ^ 62 = 2 * 2 ^ 61" "1 \<le> (2 :: real) ^ 61" by simp_all
  ultimately have "\<bar>real_of_int k\<bar> < 2 ^ 62" using near by linarith
  then have "\<bar>k\<bar> < 2 ^ 62" using of_int_less_iff [of "\<bar>k\<bar>" "2 ^ 62", where 'a = real] by simp
  then have k: "sint (word_of_int k :: 64 word) = k" by (intro sint_small) simp_all
  have "adjusted exact_fpu d mean = word_of_int k"
    by (simp add: adjusted_def exact_fpu_def k_def x_def)
  then have "sint (adjusted exact_fpu d mean) = k" using k by simp
  then show ?thesis using step_nearer [of k "sint d" "sint mean"] near unfolding x by (simp del: of_int_sint)
qed

section \<open>Properties\<close>

text \<open>
  C34. What an agent remembers of the time messages it has handled. From any history of time
  messages, whatever the arithmetic, each of them is handled without an error, and the model of
  an agent holds the stamps of its last 30 messages, in their order. An agent that has sent none
  has no model.
\<close>

theorem time_window_kept:
  assumes "length ms + 2 < 2 ^ 64"
  shows "\<exists>tm. hear F cfg ms TimeManager = Inr tm \<and>
    (\<forall>i. map_option (\<lambda>acm. map summary (cm_data acm)) (smap_get (tm_models tm) i) =
       (if sent_by i ms = [] then None else Some (map stamps (last_n 30 (sent_by i ms)))))"
proof -
  obtain tm where tm: "hear F cfg ms TimeManager = Inr tm" "remembers tm (map snd ms)"
    using hear_remembers [OF remembers_start, of ms F cfg] assms by auto
  then show ?thesis
    by (auto simp: remembers_def recalls_def sent_by_def split: option.splits)
qed

text \<open>
  C35. An answer that is missing is asked for again after a bounded time. Whatever the history and
  the arithmetic, a message to an agent is not sent again before the least resend time has passed
  since it was last sent, and is sent again, as long as retries are left, once more than the
  greatest has.
\<close>

theorem resend_time_bounded:
  assumes "tc_minResendTime cfg \<le> tc_maxResendTime cfg"
    and "unat (js_lastSent e) + unat (tc_maxResendTime cfg) < 2 ^ 64"
  shows "(resend_due (tm_env F cfg tm now retrys) i e \<longrightarrow> js_lastSent e + tc_minResendTime cfg < getLocalTime tm now) \<and>
    (js_robotID e = i \<and> 0 < js_retrys e \<and> js_lastSent e + tc_maxResendTime cfg < getLocalTime tm now \<longrightarrow>
     resend_due (tm_env F cfg tm now retrys) i e)"
proof -
  let ?r = "tm_getEstimatedResendTime F cfg tm (js_robotID e)"
  have r: "unat (tc_minResendTime cfg) \<le> unat ?r" "unat ?r \<le> unat (tc_maxResendTime cfg)"
    using resend_between [OF assms(1), of F tm "js_robotID e"] by (auto simp: word_le_nat_alt)
  have add: "unat (js_lastSent e + t) = unat (js_lastSent e) + unat t" if "unat t \<le> unat (tc_maxResendTime cfg)" for t
    using assms(2) that by (intro unat_add_lem [THEN iffD1]) auto
  have "unat (tc_minResendTime cfg) \<le> unat (tc_maxResendTime cfg)" using r by simp
  then show ?thesis using r unfolding due_by_resend by (auto simp: word_less_nat_alt add)
qed

definition demo_time_config :: "real time_config" where
  "demo_time_config = \<lparr>tc_defaultDelay = 2, tc_defaultDelayVariance = 1, tc_timeMessageInterval = 100,
     tc_maxResendTime = 500, tc_minResendTime = 50, tc_resendArrivalPropability = 9 / 10\<rparr>"

definition demo_waiting :: job_state where
  "demo_waiting = \<lparr>js_robotID = 2, js_retrys = 3, js_lastSent = 1000\<rparr>"

definition demo_time_message :: "64 word \<Rightarrow> cace_time" where
  "demo_time_message t = \<lparr>ct_senderID = 2, ct_localtime = t + 7, ct_distributedTime = t, ct_lamportTime = 3\<rparr>"

theorem time_window_kept_witness:
  "\<exists>tm. hear exact_fpu demo_time_config [(1000, demo_time_message 900), (1100, demo_time_message 990)] TimeManager = Inr tm \<and>
     map_option (\<lambda>acm. map summary (cm_data acm)) (smap_get (tm_models tm) 2) = Some [(907, 900, 2), (997, 990, 2)] \<and>
     smap_get (tm_models tm) 3 = None"
proof -
  obtain tm where tm: "hear exact_fpu demo_time_config [(1000, demo_time_message 900), (1100, demo_time_message 990)] TimeManager = Inr tm"
    and m: "\<forall>i. map_option (\<lambda>acm. map summary (cm_data acm)) (smap_get (tm_models tm) i) =
       (if sent_by i [(1000 :: 64 word, demo_time_message 900), (1100, demo_time_message 990)] = [] then None
        else Some (map stamps (last_n 30 (sent_by i [(1000 :: 64 word, demo_time_message 900), (1100, demo_time_message 990)]))))"
    using time_window_kept [of "[(1000, demo_time_message 900), (1100, demo_time_message 990)]" exact_fpu demo_time_config]
    by auto
  show ?thesis using tm m [rule_format, of 2] m [rule_format, of 3]
    by (auto simp: sent_by_def last_n_def demo_time_message_def stamps_def)
qed

theorem resend_time_bounded_witness:
  "resend_due (tm_env exact_fpu demo_time_config TimeManager 1501 3) 2 demo_waiting \<and>
   \<not> resend_due (tm_env exact_fpu demo_time_config TimeManager 1050 3) 2 demo_waiting"
  using resend_time_bounded [of demo_time_config demo_waiting exact_fpu TimeManager 1501 3 2]
    resend_time_bounded [of demo_time_config demo_waiting exact_fpu TimeManager 1050 3 2]
  by (simp add: demo_time_config_def demo_waiting_def getLocalTime_def TimeManager_def)

text \<open>
  C36. What is taken for the probability that a packet to an agent gets lost is the share of the
  agent's time messages that arrived: when the messages with the numbers \<open>ks\<close> arrived out of those
  from the first to the last of \<open>ks\<close>, it is the quotient of their number and the number of those
  sent. When none was lost, the probability that a packet has arrived comes out as 0, however long
  ago it was sent, as long as the factor from the distribution of the delays is finite. It holds for
  every arithmetic that computes with natural numbers below \<open>2 ^ 53\<close> exactly, that of doubles and that
  of real numbers, when the time from the first to the last message is below \<open>2 ^ 53\<close> nanoseconds.
\<close>

theorem packet_loss_inverted:
  assumes "map (\<lambda>d. unat (td_distributedTime d)) (cm_data acm) =
      map (\<lambda>k. t + k * (unat (tc_timeMessageInterval cfg) * 1000000)) ks"
    and "sorted_wrt (<) ks" "2 \<le> length ks" "0 < tc_timeMessageInterval cfg"
    and "(last ks - hd ks + 1) * (unat (tc_timeMessageInterval cfg) * 1000000) < 2 ^ 53" and "exact_small F"
  shows "getProbabilityForPacketLoss F cfg acm = f_div F (f_num F (int (length ks))) (f_num F (int (last ks - hd ks + 1))) \<and>
    (ks = [hd ks..<last ks + 1] \<longrightarrow>
     f_finite F (laplace_arrival F since (getMaxLikelihoodDelay cfg acm)
       (getMaxLikelihoodDelayVariance cfg acm (getMaxLikelihoodDelay cfg acm))) \<longrightarrow>
     f_eq F (getPropabilitySinglePacketArrival F cfg acm since) (f_num F 0))"
proof -
  note loss = loss_of_window [OF assms]
  have "getProbabilityForPacketLoss F cfg acm = f_num F 1" if full: "ks = [hd ks..<last ks + 1]"
  proof -
    have "hd ks < last ks" using assms(2,3) by (cases ks; cases "tl ks") (auto simp: last_in_set)
    then have len: "length ks = last ks - hd ks + 1" using arg_cong [OF full, of length] by simp
    have "1 \<le> unat (tc_timeMessageInterval cfg) * 1000000" using assms(4) by (simp add: word_less_nat_alt Suc_le_eq)
    from mult_le_mono2 [OF this, of "last ks - hd ks + 1"]
    have "last ks - hd ks + 1 \<le> (last ks - hd ks + 1) * (unat (tc_timeMessageInterval cfg) * 1000000)" by (simp only: mult_1_right)
    then have "last ks - hd ks + 1 < 2 ^ 53" using assms(5) by (rule le_less_trans)
    moreover have "int n < 2 ^ 53" if "n < 2 ^ 53" for n using that by simp
    ultimately have "int (last ks - hd ks + 1) < 2 ^ 53" by blast
    then show ?thesis unfolding loss len using exact_smallD(3) [OF assms(6), of 1 "int (last ks - hd ks + 1)"] by simp
  qed
  then show ?thesis using loss arrival_of_full_window [OF assms(6)] by blast
qed

definition demo_model :: "64 word list \<Rightarrow> comm_model" where
  "demo_model ts = (AgentCommunicationModel 2)\<lparr>cm_data := map (\<lambda>t. AgentTimeData t t (t + 5) (t + 5) 2) ts\<rparr>"

theorem packet_loss_inverted_witness:
  "getProbabilityForPacketLoss exact_fpu demo_time_config (demo_model [7, 300000007]) = 1 / 2 \<and>
   getPropabilitySinglePacketArrival exact_fpu demo_time_config (demo_model [7, 100000007]) 900 = 0"
  using packet_loss_inverted [of "demo_model [7, 300000007]" 7 demo_time_config "[0, 3]" exact_fpu 0]
    packet_loss_inverted [of "demo_model [7, 100000007]" 7 demo_time_config "[0, 1]" exact_fpu 900] exact_fpu_small
  by (simp add: demo_model_def demo_time_config_def AgentTimeData_def upt_rec f_finite_def exact_fpu_def f_num_def)

text \<open>
  The agreed clock is drawn towards the others'. In exact arithmetic, with offsets below
  \<open>2 ^ 61\<close> nanoseconds, a time message leaves at most seven tenths of the distance between the
  offset and the mean that the models estimate, and a nanosecond.
\<close>

theorem clock_drawn_to_mean:
  assumes "addTimeMessage exact_fpu cfg ct r tm = Inr tm'"
    and "sum_differences exact_fpu cfg (tm_models tm') 0 0 = Inr (s, n)"
    and "\<bar>sint (tm_timeDiff tm)\<bar> < 2 ^ 61" "\<bar>sint (ldiv s (n + 1))\<bar> < 2 ^ 61"
  shows "\<bar>real_of_int (sint (tm_timeDiff tm')) - sint (ldiv s (n + 1))\<bar> \<le>
      7 / 10 * \<bar>real_of_int (sint (tm_timeDiff tm)) - sint (ldiv s (n + 1))\<bar> + 1"
proof -
  have "tm_timeDiff tm' = adjusted exact_fpu (tm_timeDiff tm) (ldiv s (n + 1))"
    using assms(1,2) by (auto simp: addTimeMessage_def Let_def long_div_def bindE_Inr split: if_splits)
  then show ?thesis using adjusted_nearer [OF assms(3,4)] by simp
qed

theorem clock_drawn_to_mean_witness:
  "\<exists>tm'. addTimeMessage exact_fpu demo_time_config (demo_time_message 900) 1000 (TimeManager\<lparr>tm_timeDiff := 1000\<rparr>) = Inr tm' \<and>
     \<bar>real_of_int (sint (tm_timeDiff tm'))\<bar> \<le> 701"
proof -
  obtain tm' where tm': "addTimeMessage exact_fpu demo_time_config (demo_time_message 900) 1000
      (TimeManager\<lparr>tm_timeDiff := 1000\<rparr>) = Inr tm'"
    and m: "sum_differences exact_fpu demo_time_config (tm_models tm') 0 0 = Inr (0, 0)"
    by (simp add: addTimeMessage_def Let_def TimeManager_def demo_time_message_def long_div_def addData_def
        drop_oldest_last last_n_def model_of_def smap_get_def AgentCommunicationModel_def)
  have "ldiv 0 (0 + 1) = 0" by (simp add: ldiv_def)
  then show ?thesis using clock_drawn_to_mean [OF tm' m] tm' by (simp add: TimeManager_def)
qed

end
