(* ===== verification/CaceMultiCast.thy ===== *)
theory CaceMultiCast
  imports CaceTime CaceSerialize
begin

text \<open>
  The transports of CACE besides ROS topics: \<open>CaceCommunicationMultiCast.cpp\<close> with
  \<open>multicast/CaceMultiCastChannel.h\<close>, which sends each kind of message as a UDP datagram on a
  port of its own, and \<open>CaceCommunicationQuiet.cpp\<close>, which sends nothing. How ROS turns a message
  into bytes and back is a parameter, a \<open>codec\<close>; reading ends with an exception (\<open>None\<close>) when the
  bytes are too few. Nothing catches it in the thread of a channel, so it ends the process. What
  \<open>recvfrom\<close> delivers is an argument.
\<close>

section \<open>Channels\<close>

datatype channel =
    commandChannel
  | ackChannel
  | shortChannel
  | notificationChannel
  | timeChannel
  | varRequestChannel
  | writeChannel
  | writeAckChannel
  | responseChannel

text \<open>The ports in the order of their \<open>port++\<close>.\<close>

fun channel_port :: "channel \<Rightarrow> 16 word" where
  "channel_port commandChannel = 50001"
| "channel_port ackChannel = 50002"
| "channel_port shortChannel = 50003"
| "channel_port notificationChannel = 50004"
| "channel_port timeChannel = 50005"
| "channel_port varRequestChannel = 50006"
| "channel_port writeChannel = 50007"
| "channel_port writeAckChannel = 50008"
| "channel_port responseChannel = 50009"

record codec =
  co_command :: "cace_command \<Rightarrow> byte list"
  co_ack :: "cace_ack \<Rightarrow> byte list"
  co_short :: "cace_short_ack \<Rightarrow> byte list"
  co_request :: "cace_request \<Rightarrow> byte list"
  co_time :: "cace_time \<Rightarrow> byte list"
  co_read_command :: "byte list \<Rightarrow> cace_command option"
  co_read_ack :: "byte list \<Rightarrow> cace_ack option"
  co_read_short :: "byte list \<Rightarrow> cace_short_ack option"
  co_read_request :: "byte list \<Rightarrow> cace_request option"
  co_read_time :: "byte list \<Rightarrow> cace_time option"

type_synonym datagram = "channel \<times> byte list"

text \<open>Sending: the functions publish one datagram each.\<close>

type_synonym mc_act = "agent \<Rightarrow> (agent \<times> datagram list) outcome"

definition mc_sendCaceVariableRequest :: "codec \<Rightarrow> int \<Rightarrow> int \<Rightarrow> string \<Rightarrow> 64 word \<Rightarrow> mc_act" where
  "mc_sendCaceVariableRequest co receiverID msgID name lamport ag =
     (let ag = tick ag
      in Inr (ag, [(varRequestChannel, co_request co \<lparr>vr_senderID = ag_ownID ag, vr_receiverID = [receiverID],
           vr_variableName = name, vr_msgID = msgID\<rparr>)]))"

definition mc_sendCaceResponse :: "codec \<Rightarrow> cvar \<Rightarrow> int \<Rightarrow> int \<Rightarrow> 64 word \<Rightarrow> mc_act" where
  "mc_sendCaceResponse co cv msgID receiver lamport ag =
     Inr (ag, [(responseChannel, co_command co \<lparr>cc_senderID = ag_ownID ag, cc_receiverID = [receiver],
       cc_variableName = cv_name cv, cc_value = cv_val cv, cc_decissionTime = cv_decissionTime cv,
       cc_validityTime = cv_validityTime cv, cc_level = to_short (cv_strategy cv), cc_msgID = msgID,
       cc_lamportTime = lamport, cc_type = to_uint8 (cv_type cv)\<rparr>)])"

definition mc_sendWriteCommand :: "codec \<Rightarrow> cvar \<Rightarrow> int \<Rightarrow> int \<Rightarrow> 64 word \<Rightarrow> mc_act" where
  "mc_sendWriteCommand co cv msgID receiver lamport ag =
     Inr (ag, [(writeChannel, co_command co \<lparr>cc_senderID = ag_ownID ag, cc_receiverID = [receiver],
       cc_variableName = cv_name cv, cc_value = cv_val cv, cc_decissionTime = cv_decissionTime cv,
       cc_validityTime = cv_validityTime cv, cc_level = to_short (cv_strategy cv), cc_msgID = msgID,
       cc_lamportTime = lamport, cc_type = to_uint8 (cv_type cv)\<rparr>)])"

definition mc_sendCaceCommand :: "codec \<Rightarrow> cvar \<Rightarrow> int \<Rightarrow> byte list \<Rightarrow> int \<Rightarrow> 64 word \<Rightarrow> mc_act" where
  "mc_sendCaceCommand co cv msgID value receiver lamport ag =
     Inr (ag, [(commandChannel, co_command co \<lparr>cc_senderID = ag_ownID ag, cc_receiverID = [receiver],
       cc_variableName = cv_name cv, cc_value = value, cc_decissionTime = cv_decissionTime cv,
       cc_validityTime = cv_validityTime cv, cc_level = to_short (cv_strategy cv), cc_msgID = msgID,
       cc_lamportTime = lamport, cc_type = to_uint8 (cv_type cv)\<rparr>)])"

definition mc_sendCaceAcknowledge :: "codec \<Rightarrow> string \<Rightarrow> byte list \<Rightarrow> int \<Rightarrow> int \<Rightarrow> int \<Rightarrow> 64 word \<Rightarrow> mc_act" where
  "mc_sendCaceAcknowledge co name value messageID receiver ty lamport ag =
     Inr (ag, [(ackChannel, co_ack co \<lparr>ca_senderID = ag_ownID ag, ca_receiverID = [receiver], ca_variableName = name,
       ca_value = value, ca_msgID = messageID, ca_lamportTime = lamport, ca_type = to_uint8 ty\<rparr>)])"

definition mc_sendCaceBelieveNotification :: "codec \<Rightarrow> cvar \<Rightarrow> int \<Rightarrow> int \<Rightarrow> 64 word \<Rightarrow> mc_act" where
  "mc_sendCaceBelieveNotification co cv receiverID msgID lamport ag =
     Inr (ag, [(notificationChannel, co_command co \<lparr>cc_senderID = ag_ownID ag, cc_receiverID = [receiverID],
       cc_variableName = cv_name cv, cc_value = cv_val cv, cc_decissionTime = cv_decissionTime cv,
       cc_validityTime = cv_validityTime cv, cc_level = to_short (cv_strategy cv), cc_msgID = msgID,
       cc_lamportTime = lamport, cc_type = to_uint8 (cv_type cv)\<rparr>)])"

definition mc_sendCaceWriteAck :: "codec \<Rightarrow> string \<Rightarrow> int \<Rightarrow> int \<Rightarrow> 64 word \<Rightarrow> mc_act" where
  "mc_sendCaceWriteAck co name messageID receiver lamport ag =
     Inr (ag, [(writeAckChannel, co_short co \<lparr>sa_senderID = ag_ownID ag, sa_receiverID = [receiver],
       sa_variableName = name, sa_msgID = messageID, sa_lamportTime = lamport\<rparr>)])"

definition mc_sendCaceShortAck :: "codec \<Rightarrow> string \<Rightarrow> int \<Rightarrow> int \<Rightarrow> 64 word \<Rightarrow> mc_act" where
  "mc_sendCaceShortAck co name messageID receiver lamport ag =
     Inr (ag, [(shortChannel, co_short co \<lparr>sa_senderID = ag_ownID ag, sa_receiverID = [receiver],
       sa_variableName = name, sa_msgID = messageID, sa_lamportTime = lamport\<rparr>)])"

definition mc_sendTime :: "codec \<Rightarrow> cace_env \<Rightarrow> mc_act" where
  "mc_sendTime co env ag =
     Inr (tick ag, [(timeChannel, co_time co \<lparr>ct_senderID = ag_ownID ag, ct_localtime = e_local env,
       ct_distributedTime = e_dist env, ct_lamportTime = ag_lamport ag\<rparr>)])"

text \<open>
  The rest of an agent is that of the base class, whose virtual calls reach the functions above:
  a message to the outside becomes a datagram.
\<close>

fun transmit :: "codec \<Rightarrow> net_out \<Rightarrow> datagram option" where
  "transmit co (Out_command m) = Some (commandChannel, co_command co m)"
| "transmit co (Out_response m) = Some (responseChannel, co_command co m)"
| "transmit co (Out_write m) = Some (writeChannel, co_command co m)"
| "transmit co (Out_notification m) = Some (notificationChannel, co_command co m)"
| "transmit co (Out_ack m) = Some (ackChannel, co_ack co m)"
| "transmit co (Out_short_ack m) = Some (shortChannel, co_short co m)"
| "transmit co (Out_write_ack m) = Some (writeAckChannel, co_short co m)"
| "transmit co (Out_request m) = Some (varRequestChannel, co_request co m)"
| "transmit co (Out_time m) = Some (timeChannel, co_time co m)"
| "transmit co (Call_delegate k v) = None"

definition over_multicast :: "codec \<Rightarrow> act \<Rightarrow> mc_act" where
  "over_multicast co f ag = bindE (f ag) (\<lambda>(ag, os). Inr (ag, List.map_filter (transmit co) os))"

lemma mc_sends:
  "mc_sendCaceVariableRequest co r i n l = over_multicast co (sendCaceVariableRequest_at r i n l)"
  "mc_sendCaceResponse co cv i r l = over_multicast co (sendCaceResponse_at cv i r l)"
  "mc_sendWriteCommand co cv i r l = over_multicast co (sendWriteCommand_at cv i r l)"
  "mc_sendCaceCommand co cv i v r l = over_multicast co (sendCaceCommand_at cv i v r l)"
  "mc_sendCaceAcknowledge co n v i r ty l = over_multicast co (sendCaceAcknowledge_at n v i r ty l)"
  "mc_sendCaceBelieveNotification co cv r i l = over_multicast co (sendCaceBelieveNotification_at cv r i l)"
  "mc_sendCaceWriteAck co n i r l = over_multicast co (sendCaceWriteAck_at n i r l)"
  "mc_sendCaceShortAck co n i r l = over_multicast co (sendCaceShortAck_at n i r l)"
  "mc_sendTime co env = over_multicast co (sendTime env)"
  by (auto simp: fun_eq_iff over_multicast_def List.map_filter_def command_of_def
      mc_sendCaceVariableRequest_def mc_sendCaceResponse_def mc_sendWriteCommand_def mc_sendCaceCommand_def
      mc_sendCaceAcknowledge_def mc_sendCaceBelieveNotification_def mc_sendCaceWriteAck_def mc_sendCaceShortAck_def
      mc_sendTime_def sendCaceVariableRequest_at_def sendCaceResponse_at_def sendWriteCommand_at_def
      sendCaceCommand_at_def sendCaceAcknowledge_at_def sendCaceBelieveNotification_at_def sendCaceWriteAck_at_def
      sendCaceShortAck_at_def sendTime_def Let_def tick_def)

text \<open>
  \<open>publish\<close> drops a datagram when the random number is below \<open>packetLossPropability\<close>, and counts
  its bytes in any case.
\<close>

definition publish :: "'d fpu \<Rightarrow> 'd \<Rightarrow> 'd \<Rightarrow> datagram \<Rightarrow> 64 word \<Rightarrow> 64 word \<times> datagram list" where
  "publish F packetLossPropability randomNumber d traffic =
     (traffic + of_nat (length (snd d)), if f_leq F packetLossPropability randomNumber then [d] else [])"

section \<open>Receiving\<close>

record node =
  nd_agent :: agent
  nd_time :: time_manager
  nd_recvArray :: "channel \<Rightarrow> byte list"
  nd_running :: bool

definition MAX_PACKETSIZE :: nat where
  "MAX_PACKETSIZE = 100000"

text \<open>
  A handler of datagrams reads the message and calls the handler of the base class; \<open>short\<close> is
  how it ends when the bytes are too few.
\<close>

definition mhandle_with :: "(byte list \<Rightarrow> 'm option) \<Rightarrow> ('m \<Rightarrow> act) \<Rightarrow> c_error \<Rightarrow> byte list \<Rightarrow> act" where
  "mhandle_with read handle short buffer ag = (case read buffer of None \<Rightarrow> Inl short | Some m \<Rightarrow> handle m ag)"

definition mhandleCaceVariableRequest :: "codec \<Rightarrow> c_error \<Rightarrow> byte list \<Rightarrow> act" where
  "mhandleCaceVariableRequest co = mhandle_with (co_read_request co) handleCaceVariableRequest"

definition mhandleCaceResponse :: "codec \<Rightarrow> cace_env \<Rightarrow> c_error \<Rightarrow> byte list \<Rightarrow> act" where
  "mhandleCaceResponse co env = mhandle_with (co_read_command co) (handleCaceResponse env)"

definition mhandleCaceWrite :: "codec \<Rightarrow> cace_env \<Rightarrow> c_error \<Rightarrow> byte list \<Rightarrow> act" where
  "mhandleCaceWrite co env = mhandle_with (co_read_command co) (handleCaceWrite env)"

definition mhandleCaceAcknowledge :: "codec \<Rightarrow> cace_env \<Rightarrow> c_error \<Rightarrow> byte list \<Rightarrow> act" where
  "mhandleCaceAcknowledge co env = mhandle_with (co_read_ack co) (handleCaceAcknowledge env)"

definition mhandleCaceWriteAck :: "codec \<Rightarrow> c_error \<Rightarrow> byte list \<Rightarrow> act" where
  "mhandleCaceWriteAck co = mhandle_with (co_read_short co) handleCaceWriteAck"

definition mhandleCaceCommand :: "codec \<Rightarrow> cace_env \<Rightarrow> c_error \<Rightarrow> byte list \<Rightarrow> act" where
  "mhandleCaceCommand co env = mhandle_with (co_read_command co) (handleCaceCommand env)"

definition mhandleCaceBelieveNotification :: "codec \<Rightarrow> c_error \<Rightarrow> byte list \<Rightarrow> act" where
  "mhandleCaceBelieveNotification co = mhandle_with (co_read_command co) handleCaceBelieveNotification"

definition mhandleCaceShortAck :: "codec \<Rightarrow> c_error \<Rightarrow> byte list \<Rightarrow> act" where
  "mhandleCaceShortAck co = mhandle_with (co_read_short co) handleCaceShortAck"

text \<open>What is read from outside while a datagram is handled: the clock, and the configuration.\<close>

record 'd node_env =
  ne_fpu :: "'d fpu"
  ne_config :: "'d time_config"
  ne_now :: "64 word"
  ne_maxRetrys :: int

definition node_reads :: "'d node_env \<Rightarrow> node \<Rightarrow> cace_env" where
  "node_reads ne nd = tm_env (ne_fpu ne) (ne_config ne) (nd_time nd) (ne_now ne) (ne_maxRetrys ne)"

definition run_agent :: "act \<Rightarrow> node \<Rightarrow> (node \<times> net_out list) outcome" where
  "run_agent f nd = bindE (f (nd_agent nd)) (\<lambda>(ag, os). Inr (nd\<lparr>nd_agent := ag\<rparr>, os))"

definition time_message :: "'d node_env \<Rightarrow> cace_time \<Rightarrow> node \<Rightarrow> (node \<times> net_out list) outcome" where
  "time_message ne ct nd =
     bindE (handle_time_message (ne_fpu ne) (ne_config ne) (ne_now ne) (ne_maxRetrys ne) ct (nd_time nd) (nd_agent nd))
       (\<lambda>(tm, ag, os). Inr (nd\<lparr>nd_agent := ag, nd_time := tm\<rparr>, os))"

definition mhandleCaceTime :: "codec \<Rightarrow> 'd node_env \<Rightarrow> c_error \<Rightarrow> byte list \<Rightarrow> node \<Rightarrow> (node \<times> net_out list) outcome" where
  "mhandleCaceTime co ne short buffer nd =
     (case co_read_time co buffer of None \<Rightarrow> Inl short | Some ct \<Rightarrow> time_message ne ct nd)"

fun mc_callback :: "codec \<Rightarrow> 'd node_env \<Rightarrow> c_error \<Rightarrow> channel \<Rightarrow> byte list \<Rightarrow> node \<Rightarrow> (node \<times> net_out list) outcome" where
  "mc_callback co ne short commandChannel bs nd = run_agent (mhandleCaceCommand co (node_reads ne nd) short bs) nd"
| "mc_callback co ne short ackChannel bs nd = run_agent (mhandleCaceAcknowledge co (node_reads ne nd) short bs) nd"
| "mc_callback co ne short shortChannel bs nd = run_agent (mhandleCaceShortAck co short bs) nd"
| "mc_callback co ne short notificationChannel bs nd = run_agent (mhandleCaceBelieveNotification co short bs) nd"
| "mc_callback co ne short timeChannel bs nd = mhandleCaceTime co ne short bs nd"
| "mc_callback co ne short varRequestChannel bs nd = run_agent (mhandleCaceVariableRequest co short bs) nd"
| "mc_callback co ne short writeChannel bs nd = run_agent (mhandleCaceWrite co (node_reads ne nd) short bs) nd"
| "mc_callback co ne short writeAckChannel bs nd = run_agent (mhandleCaceWriteAck co short bs) nd"
| "mc_callback co ne short responseChannel bs nd = run_agent (mhandleCaceResponse co (node_reads ne nd) short bs) nd"

text \<open>
  One turn of \<open>call\<close>. A datagram is written over the start of \<open>recvArray\<close>, and its first bytes
  are handled. When \<open>recvfrom\<close> fails (\<open>None\<close>) its -1 is handed on as the number of bytes, which
  the stream takes for \<open>2 ^ 32 - 1\<close>: the array is read as it is, and past its end when it holds no
  complete message. The result tells whether the loop goes on.
\<close>

definition received_array :: "byte list \<Rightarrow> byte list \<Rightarrow> byte list" where
  "received_array arr bs = take MAX_PACKETSIZE bs @ drop (length (take MAX_PACKETSIZE bs)) arr"

definition mc_turn ::
  "codec \<Rightarrow> 'd node_env \<Rightarrow> channel \<Rightarrow> byte list option \<Rightarrow> node \<Rightarrow> (bool \<times> node \<times> net_out list) outcome" where
  "mc_turn co ne ch r nd =
     (let arr = (case r of None \<Rightarrow> nd_recvArray nd ch | Some bs \<Rightarrow> received_array (nd_recvArray nd ch) bs);
          nd = nd\<lparr>nd_recvArray := (nd_recvArray nd)(ch := arr)\<rparr>
      in if \<not> nd_running nd then Inr (False, nd, [])
         else bindE (case r of
             Some bs \<Rightarrow> mc_callback co ne ProcessExit ch (take MAX_PACKETSIZE bs) nd
           | None \<Rightarrow> mc_callback co ne OutOfBounds ch arr nd) (\<lambda>(nd, os). Inr (True, nd, os)))"

primrec mc_call ::
  "codec \<Rightarrow> channel \<Rightarrow> ('d node_env \<times> byte list option) list \<Rightarrow> node \<Rightarrow> (bool \<times> node \<times> net_out list) outcome" where
  "mc_call co ch [] nd = Inr (True, nd, [])"
| "mc_call co ch (x # xs) nd =
     bindE (mc_turn co (fst x) ch (snd x) nd) (\<lambda>(go, nd, os).
       if go then bindE (mc_call co ch xs nd) (\<lambda>(go, nd, os'). Inr (go, nd, os @ os')) else Inr (False, nd, os))"

section \<open>The quiet transport\<close>

text \<open>Its sending functions are empty; commands and acknowledgements get a Lamport time of its own.\<close>

definition quiet_send :: act where
  "quiet_send ag = Inr (ag, [])"

definition quiet_handleCaceCommand :: "cace_env \<Rightarrow> cace_command \<Rightarrow> act" where
  "quiet_handleCaceCommand env cc ag = handleCaceCommand env (cc\<lparr>cc_lamportTime := ag_lamport ag + 1\<rparr>) ag"

definition quiet_handleCaceAcknowledge :: "cace_env \<Rightarrow> cace_ack \<Rightarrow> act" where
  "quiet_handleCaceAcknowledge env ca ag = handleCaceAcknowledge env (ca\<lparr>ca_lamportTime := ag_lamport ag + 1\<rparr>) ag"

section \<open>Changing the transport\<close>

text \<open>
  \<open>setQuiet\<close> and \<open>unsetQuiet\<close> put a new transport and a new time manager in the place of the old
  ones: the message lists and the blacklist are those of a new object, and so is the Lamport time.
  \<open>configured\<close> is the id of the configuration.
\<close>

definition new_transport :: "int \<Rightarrow> node \<Rightarrow> node" where
  "new_transport ident nd =
     nd\<lparr>nd_agent := setOwnID ident ((clearAllMessageLists (nd_agent nd))\<lparr>ag_blacklist := {}, ag_lamport := 1\<rparr>),
        nd_time := TimeManager\<rparr>"

definition setQuiet :: "int \<Rightarrow> int \<Rightarrow> node \<Rightarrow> node" where
  "setQuiet configured ident nd =
     (let nd = new_transport (if ident \<noteq> 0 then ident else configured) nd
      in nd\<lparr>nd_agent := (nd_agent nd)\<lparr>ag_quiet := True\<rparr>\<rparr>)"

definition unsetQuiet :: "int \<Rightarrow> node \<Rightarrow> node" where
  "unsetQuiet ident nd =
     (let nd = new_transport (to_short ident) nd in nd\<lparr>nd_agent := (nd_agent nd)\<lparr>ag_quiet := False\<rparr>\<rparr>)"

definition clearJobs :: "agent \<Rightarrow> agent" where
  "clearJobs ag = ag\<lparr>ag_jobs := []\<rparr>"

definition printActiveRobots :: "agent \<Rightarrow> string" where
  "printActiveRobots ag = concat (map (\<lambda>i. int_to_string i @ '' '') (ag_active ag))"

definition getGlobalScope :: "agent \<Rightarrow> string" where
  "getGlobalScope ag = int_to_string (ag_ownID ag) @ ''/'' @ concat (map (\<lambda>s. s @ ''/'') (ag_scope ag))"

text \<open>
  After the change the Lamport time of an agent is 1 again: what it then gives a value is older
  than what it gave before.
\<close>

lemma change_restarts_time:
  "ag_lamport (nd_agent (setQuiet configured ident nd)) = 1" "ag_lamport (nd_agent (unsetQuiet ident nd)) = 1"
  by (simp_all add: setQuiet_def unsetQuiet_def new_transport_def setOwnID_def Let_def)

section \<open>Datagrams and messages\<close>

text \<open>
  What is asked of a codec: reading gives back a message from its bytes, whatever follows them.
  \<open>ok\<close> tells for which messages, those whose numbers fit their fields.
\<close>

definition reads_back :: "('m \<Rightarrow> bool) \<Rightarrow> ('m \<Rightarrow> byte list) \<Rightarrow> (byte list \<Rightarrow> 'm option) \<Rightarrow> bool" where
  "reads_back ok put get = (\<forall>m rest. ok m \<longrightarrow> get (put m @ rest) = Some m)"

record wire_fits =
  fits_command :: "cace_command \<Rightarrow> bool"
  fits_ack :: "cace_ack \<Rightarrow> bool"
  fits_short :: "cace_short_ack \<Rightarrow> bool"
  fits_request :: "cace_request \<Rightarrow> bool"
  fits_time :: "cace_time \<Rightarrow> bool"

definition mc_codec_ok :: "wire_fits \<Rightarrow> codec \<Rightarrow> bool" where
  "mc_codec_ok ft co \<longleftrightarrow> reads_back (fits_command ft) (co_command co) (co_read_command co) \<and>
     reads_back (fits_ack ft) (co_ack co) (co_read_ack co) \<and>
     reads_back (fits_short ft) (co_short co) (co_read_short co) \<and>
     reads_back (fits_request ft) (co_request co) (co_read_request co) \<and>
     reads_back (fits_time ft) (co_time co) (co_read_time co)"

fun mc_message_fits :: "wire_fits \<Rightarrow> net_out \<Rightarrow> bool" where
  "mc_message_fits ft (Out_command m) = fits_command ft m"
| "mc_message_fits ft (Out_response m) = fits_command ft m"
| "mc_message_fits ft (Out_write m) = fits_command ft m"
| "mc_message_fits ft (Out_notification m) = fits_command ft m"
| "mc_message_fits ft (Out_ack m) = fits_ack ft m"
| "mc_message_fits ft (Out_short_ack m) = fits_short ft m"
| "mc_message_fits ft (Out_write_ack m) = fits_short ft m"
| "mc_message_fits ft (Out_request m) = fits_request ft m"
| "mc_message_fits ft (Out_time m) = fits_time ft m"
| "mc_message_fits ft (Call_delegate k v) = True"

text \<open>What a message does at a node, without its way there.\<close>

fun deliver :: "'d node_env \<Rightarrow> net_out \<Rightarrow> node \<Rightarrow> (node \<times> net_out list) outcome" where
  "deliver ne (Out_command m) nd = run_agent (handleCaceCommand (node_reads ne nd) m) nd"
| "deliver ne (Out_response m) nd = run_agent (handleCaceResponse (node_reads ne nd) m) nd"
| "deliver ne (Out_write m) nd = run_agent (handleCaceWrite (node_reads ne nd) m) nd"
| "deliver ne (Out_notification m) nd = run_agent (handleCaceBelieveNotification m) nd"
| "deliver ne (Out_ack m) nd = run_agent (handleCaceAcknowledge (node_reads ne nd) m) nd"
| "deliver ne (Out_short_ack m) nd = run_agent (handleCaceShortAck m) nd"
| "deliver ne (Out_write_ack m) nd = run_agent (handleCaceWriteAck m) nd"
| "deliver ne (Out_request m) nd = run_agent (handleCaceVariableRequest m) nd"
| "deliver ne (Out_time m) nd = time_message ne m nd"
| "deliver ne (Call_delegate k v) nd = Inr (nd, [])"

lemmas mhandle_defs = mhandleCaceCommand_def mhandleCaceResponse_def mhandleCaceWrite_def
  mhandleCaceBelieveNotification_def mhandleCaceAcknowledge_def mhandleCaceShortAck_def mhandleCaceWriteAck_def
  mhandleCaceVariableRequest_def mhandleCaceTime_def mhandle_with_def

lemma callback_delivers:
  assumes "mc_codec_ok ft co" "mc_message_fits ft m" "transmit co m = Some (ch, bs)"
  shows "mc_callback co ne short ch (bs @ rest) nd = deliver ne m nd"
  using assms by (cases m) (auto simp: mc_codec_ok_def reads_back_def mhandle_defs run_agent_def)

lemma run_agent_keeps: "run_agent f nd = Inr (nd', os) \<Longrightarrow> nd_recvArray nd' = nd_recvArray nd \<and> nd_running nd' = nd_running nd"
  by (auto simp: run_agent_def bindE_Inr)

lemma deliver_keeps: "deliver ne m nd = Inr (nd', os) \<Longrightarrow> nd_recvArray nd' = nd_recvArray nd \<and> nd_running nd' = nd_running nd"
  by (cases m) (auto simp: time_message_def bindE_Inr dest: run_agent_keeps)

lemma deliver_result_keeps:
  "deliver ne m nd = Inr r \<Longrightarrow> nd_recvArray (fst r) = nd_recvArray nd \<and> nd_running (fst r) = nd_running nd"
  by (cases r) (auto dest: deliver_keeps)

definition with_datagram :: "channel \<Rightarrow> byte list \<Rightarrow> node \<Rightarrow> node" where
  "with_datagram ch bs nd = nd\<lparr>nd_recvArray := (nd_recvArray nd)(ch := received_array (nd_recvArray nd ch) bs)\<rparr>"

text \<open>
  C37. A message that goes over multicast does at the receiver what it does when it is handed to
  it directly. For any codec that reads back what it writes, the datagram of a message of at most
  \<open>MAX_PACKETSIZE\<close> bytes reaches the handler of its kind with all its fields.
\<close>

theorem multicast_delivers:
  assumes "mc_codec_ok ft co" "mc_message_fits ft m" "transmit co m = Some (ch, bs)"
    and "length bs \<le> MAX_PACKETSIZE" "nd_running nd"
  shows "mc_turn co ne ch (Some bs) nd =
    bindE (deliver ne m (with_datagram ch bs nd)) (\<lambda>(nd, os). Inr (True, nd, os))"
  using callback_delivers [OF assms(1-3), where ne = ne and rest = "[]"] assms(4,5)
  by (simp add: mc_turn_def with_datagram_def)

text \<open>
  C38. When receiving fails after a message, the message is handled again. The channel takes the
  number of bytes \<open>-1\<close> for a length and reads what the last datagram left in its array.
\<close>

theorem failed_receive_repeats:
  assumes "mc_codec_ok ft co" "mc_message_fits ft m" "transmit co m = Some (ch, bs)"
    and "length bs \<le> MAX_PACKETSIZE" "nd_running nd"
  shows "mc_call co ch [(ne, Some bs), (ne', None)] nd =
    bindE (deliver ne m (with_datagram ch bs nd)) (\<lambda>(nd, os).
    bindE (deliver ne' m nd) (\<lambda>(nd, os'). Inr (True, nd, os @ os')))"
proof (cases "deliver ne m (with_datagram ch bs nd)")
  case (Inr r)
  let ?nd = "fst r"
  have k: "nd_running ?nd" "nd_recvArray ?nd ch = bs @ drop (length bs) (nd_recvArray nd ch)"
    using deliver_result_keeps [OF Inr] assms(4,5) by (auto simp: with_datagram_def received_array_def)
  have "mc_turn co ne' ch None ?nd = bindE (deliver ne' m ?nd) (\<lambda>(nd, os). Inr (True, nd, os))"
    unfolding mc_turn_def Let_def using k callback_delivers [OF assms(1-3), where ne = ne' and nd = ?nd]
    by (simp add: fun_upd_idem)
  moreover have "mc_turn co ne ch (Some bs) nd = Inr (True, ?nd, snd r)"
    using callback_delivers [OF assms(1-3), where ne = ne and rest = "[]"] assms(4,5) Inr
    by (simp add: mc_turn_def with_datagram_def split_beta)
  ultimately show ?thesis using Inr
    by (cases "deliver ne' m ?nd") (auto simp: split_beta)
next
  case (Inl e)
  then show ?thesis
    using callback_delivers [OF assms(1-3), where ne = ne and rest = "[]"] assms(4,5)
    by (simp add: mc_turn_def with_datagram_def)
qed

section \<open>A codec\<close>

text \<open>
  The format that ROS documents: numbers with their low byte first, sequences after their length
  in four bytes, the fields of a message in the order of its \<open>.msg\<close> file. It is an instance of
  the parameter, on which the statements above can be evaluated.
\<close>

type_synonym 'a wire_reader = "byte list \<Rightarrow> ('a \<times> byte list) option"

definition w_and :: "'a wire_reader \<Rightarrow> ('a \<Rightarrow> 'b wire_reader) \<Rightarrow> 'b wire_reader" where
  "w_and r f bs = (case r bs of None \<Rightarrow> None | Some (x, bs) \<Rightarrow> f x bs)"

definition w_done :: "'a \<Rightarrow> 'a wire_reader" where
  "w_done x bs = Some (x, bs)"

definition w_all :: "'a wire_reader \<Rightarrow> byte list \<Rightarrow> 'a option" where
  "w_all r bs = map_option fst (r bs)"

definition rd_nat :: "nat \<Rightarrow> nat wire_reader" where
  "rd_nat k bs = (if length bs < k then None else Some (le_nat (take k bs), drop k bs))"

definition wr_signed :: "nat \<Rightarrow> int \<Rightarrow> byte list" where
  "wr_signed k x = le_bytes k (nat (x mod 256 ^ k))"

definition rd_signed :: "nat \<Rightarrow> int wire_reader" where
  "rd_signed k = w_and (rd_nat k) (\<lambda>n. w_done (if 2 * int n < 256 ^ k then int n else int n - 256 ^ k))"

definition wr_time :: "64 word \<Rightarrow> byte list" where
  "wr_time w = le_bytes 8 (unat w)"

definition rd_time :: "64 word wire_reader" where
  "rd_time = w_and (rd_nat 8) (\<lambda>n. w_done (of_nat n))"

definition wr_seq :: "('a \<Rightarrow> byte list) \<Rightarrow> 'a list \<Rightarrow> byte list" where
  "wr_seq wr xs = le_bytes 4 (length xs) @ concat (map wr xs)"

primrec rd_times :: "'a wire_reader \<Rightarrow> nat \<Rightarrow> 'a list wire_reader" where
  "rd_times rd 0 = w_done []"
| "rd_times rd (Suc n) = w_and rd (\<lambda>x. w_and (rd_times rd n) (\<lambda>xs. w_done (x # xs)))"

definition rd_seq :: "'a wire_reader \<Rightarrow> 'a list wire_reader" where
  "rd_seq rd = w_and (rd_nat 4) (rd_times rd)"

definition rd_byte :: "byte wire_reader" where
  "rd_byte = w_and (rd_nat 1) (\<lambda>n. w_done (of_nat n))"

definition rd_char :: "char wire_reader" where
  "rd_char = w_and (rd_nat 1) (\<lambda>n. w_done (char_of n))"

definition fits_signed :: "nat \<Rightarrow> int \<Rightarrow> bool" where
  "fits_signed k x \<longleftrightarrow> - (256 ^ k) \<le> 2 * x \<and> 2 * x < 256 ^ k"

named_theorems wire_reads

lemma w_and_Some [simp]: "r bs = Some (x, bs') \<Longrightarrow> w_and r f bs = f x bs'"
  by (simp add: w_and_def)

lemma w_done_app [simp]: "w_done x bs = Some (x, bs)"
  by (simp add: w_done_def)

lemma rd_nat_le_bytes [wire_reads]: "n < 256 ^ k \<Longrightarrow> rd_nat k (le_bytes k n @ bs) = Some (n, bs)"
  by (simp add: rd_nat_def le_nat_le_bytes)

lemma rd_signed_wr [wire_reads]: "fits_signed k x \<Longrightarrow> rd_signed k (wr_signed k x @ bs) = Some (x, bs)"
proof -
  assume x: "fits_signed k x"
  have "nat (x mod 256 ^ k) < 256 ^ k" by (simp add: nat_less_iff)
  moreover have "x mod 256 ^ k = (if 0 \<le> x then x else x + 256 ^ k)"
    using x mod_add_self2 [of x "256 ^ k"] mod_pos_pos_trivial [of "x + 256 ^ k" "256 ^ k"]
    by (auto simp: fits_signed_def)
  ultimately show ?thesis
    using x by (auto simp: rd_signed_def wr_signed_def fits_signed_def rd_nat_le_bytes)
qed

lemma rd_time_wr [wire_reads]: "rd_time (wr_time w @ bs) = Some (w, bs)"
  using unat_64 [of w] by (simp add: rd_time_def wr_time_def rd_nat_le_bytes)

lemma rd_byte_wr: "rd_byte (b # bs) = Some (b, bs)"
  by (simp add: rd_byte_def rd_nat_def)

lemma rd_char_wr: "rd_char (of_nat (of_char c) # bs) = Some (c, bs)"
  by (simp add: rd_char_def rd_nat_def unsigned_of_nat take_bit_eq_mod)

lemma rd_times_wr:
  assumes "\<And>x bs. x \<in> set xs \<Longrightarrow> rd (wr x @ bs) = Some (x, bs)"
  shows "rd_times rd (length xs) (concat (map wr xs) @ bs) = Some (xs, bs)"
  using assms by (induction xs) simp_all

lemma rd_seq_wr:
  assumes "\<And>x bs. x \<in> set xs \<Longrightarrow> rd (wr x @ bs) = Some (x, bs)" "length xs < 2 ^ 32"
  shows "rd_seq rd (wr_seq wr xs @ bs) = Some (xs, bs)"
  using assms rd_times_wr [of xs rd wr bs] by (simp add: rd_seq_def wr_seq_def rd_nat_le_bytes)

definition wr_ids :: "int list \<Rightarrow> byte list" where "wr_ids = wr_seq (wr_signed 2)"
definition rd_ids :: "int list wire_reader" where "rd_ids = rd_seq (rd_signed 2)"
definition wr_text :: "string \<Rightarrow> byte list" where "wr_text = wr_seq (\<lambda>c. [of_nat (of_char c)])"
definition rd_text :: "string wire_reader" where "rd_text = rd_seq rd_char"
definition wr_value :: "byte list \<Rightarrow> byte list" where "wr_value = wr_seq (\<lambda>b. [b])"
definition rd_value :: "byte list wire_reader" where "rd_value = rd_seq rd_byte"
definition fits_ids :: "int list \<Rightarrow> bool" where
  "fits_ids is \<longleftrightarrow> list_all (fits_signed 2) is \<and> length is < 2 ^ 32"

lemma rd_ids_wr [wire_reads]: "fits_ids is \<Longrightarrow> rd_ids (wr_ids is @ bs) = Some (is, bs)"
  by (auto simp: rd_ids_def wr_ids_def fits_ids_def list_all_iff intro!: rd_seq_wr rd_signed_wr)

lemma rd_text_wr [wire_reads]: "length s < 2 ^ 32 \<Longrightarrow> rd_text (wr_text s @ bs) = Some (s, bs)"
  unfolding rd_text_def wr_text_def by (rule rd_seq_wr) (simp_all add: rd_char_wr)

lemma rd_value_wr [wire_reads]: "length v < 2 ^ 32 \<Longrightarrow> rd_value (wr_value v @ bs) = Some (v, bs)"
  unfolding rd_value_def wr_value_def by (rule rd_seq_wr) (simp_all add: rd_byte_wr)

definition ros_codec :: codec where
  "ros_codec =
     \<lparr>co_command = (\<lambda>m. wr_signed 2 (cc_senderID m) @ wr_ids (cc_receiverID m) @ wr_text (cc_variableName m) @
        wr_value (cc_value m) @ wr_time (cc_decissionTime m) @ wr_time (cc_validityTime m) @ wr_signed 2 (cc_level m) @
        wr_signed 2 (cc_msgID m) @ wr_time (cc_lamportTime m) @ le_bytes 1 (nat (cc_type m))),
      co_ack = (\<lambda>m. wr_signed 2 (ca_senderID m) @ wr_ids (ca_receiverID m) @ wr_text (ca_variableName m) @
        wr_value (ca_value m) @ wr_signed 2 (ca_msgID m) @ wr_time (ca_lamportTime m) @ le_bytes 1 (nat (ca_type m))),
      co_short = (\<lambda>m. wr_signed 2 (sa_senderID m) @ wr_ids (sa_receiverID m) @ wr_text (sa_variableName m) @
        wr_signed 2 (sa_msgID m) @ wr_time (sa_lamportTime m)),
      co_request = (\<lambda>m. wr_signed 2 (vr_senderID m) @ wr_ids (vr_receiverID m) @ wr_text (vr_variableName m) @
        wr_signed 2 (vr_msgID m)),
      co_time = (\<lambda>m. wr_signed 2 (ct_senderID m) @ wr_time (ct_localtime m) @ wr_time (ct_distributedTime m) @
        wr_time (ct_lamportTime m)),
      co_read_command = w_all (w_and (rd_signed 2) (\<lambda>sender. w_and rd_ids (\<lambda>receivers. w_and rd_text (\<lambda>name.
        w_and rd_value (\<lambda>value. w_and rd_time (\<lambda>decission. w_and rd_time (\<lambda>validity. w_and (rd_signed 2) (\<lambda>level.
        w_and (rd_signed 2) (\<lambda>msgID. w_and rd_time (\<lambda>lamport. w_and (rd_nat 1) (\<lambda>ty.
          w_done \<lparr>cc_senderID = sender, cc_receiverID = receivers, cc_variableName = name, cc_value = value,
            cc_decissionTime = decission, cc_validityTime = validity, cc_level = level, cc_msgID = msgID,
            cc_lamportTime = lamport, cc_type = int ty\<rparr>))))))))))),
      co_read_ack = w_all (w_and (rd_signed 2) (\<lambda>sender. w_and rd_ids (\<lambda>receivers. w_and rd_text (\<lambda>name.
        w_and rd_value (\<lambda>value. w_and (rd_signed 2) (\<lambda>msgID. w_and rd_time (\<lambda>lamport. w_and (rd_nat 1) (\<lambda>ty.
          w_done \<lparr>ca_senderID = sender, ca_receiverID = receivers, ca_variableName = name, ca_value = value,
            ca_msgID = msgID, ca_lamportTime = lamport, ca_type = int ty\<rparr>)))))))),
      co_read_short = w_all (w_and (rd_signed 2) (\<lambda>sender. w_and rd_ids (\<lambda>receivers. w_and rd_text (\<lambda>name.
        w_and (rd_signed 2) (\<lambda>msgID. w_and rd_time (\<lambda>lamport.
          w_done \<lparr>sa_senderID = sender, sa_receiverID = receivers, sa_variableName = name, sa_msgID = msgID,
            sa_lamportTime = lamport\<rparr>)))))),
      co_read_request = w_all (w_and (rd_signed 2) (\<lambda>sender. w_and rd_ids (\<lambda>receivers. w_and rd_text (\<lambda>name.
        w_and (rd_signed 2) (\<lambda>msgID.
          w_done \<lparr>vr_senderID = sender, vr_receiverID = receivers, vr_variableName = name, vr_msgID = msgID\<rparr>))))),
      co_read_time = w_all (w_and (rd_signed 2) (\<lambda>sender. w_and rd_time (\<lambda>localtime. w_and rd_time (\<lambda>distributed.
        w_and rd_time (\<lambda>lamport.
          w_done \<lparr>ct_senderID = sender, ct_localtime = localtime, ct_distributedTime = distributed,
            ct_lamportTime = lamport\<rparr>)))))\<rparr>"

definition fits_head :: "int \<Rightarrow> int list \<Rightarrow> string \<Rightarrow> int \<Rightarrow> bool" where
  "fits_head sender receivers name msgID \<longleftrightarrow>
     fits_signed 2 sender \<and> fits_ids receivers \<and> length name < 2 ^ 32 \<and> fits_signed 2 msgID"

definition ros_fits :: wire_fits where
  "ros_fits =
     \<lparr>fits_command = (\<lambda>m. fits_head (cc_senderID m) (cc_receiverID m) (cc_variableName m) (cc_msgID m) \<and>
        length (cc_value m) < 2 ^ 32 \<and> fits_signed 2 (cc_level m) \<and> 0 \<le> cc_type m \<and> cc_type m < 256),
      fits_ack = (\<lambda>m. fits_head (ca_senderID m) (ca_receiverID m) (ca_variableName m) (ca_msgID m) \<and>
        length (ca_value m) < 2 ^ 32 \<and> 0 \<le> ca_type m \<and> ca_type m < 256),
      fits_short = (\<lambda>m. fits_head (sa_senderID m) (sa_receiverID m) (sa_variableName m) (sa_msgID m)),
      fits_request = (\<lambda>m. fits_head (vr_senderID m) (vr_receiverID m) (vr_variableName m) (vr_msgID m)),
      fits_time = (\<lambda>m. fits_signed 2 (ct_senderID m))\<rparr>"

lemma ros_codec_ok: "mc_codec_ok ros_fits ros_codec"
  by (simp add: mc_codec_ok_def reads_back_def ros_codec_def ros_fits_def fits_head_def w_all_def wire_reads
      nat_less_iff del: One_nat_def)

definition demo_node :: node where
  "demo_node = \<lparr>nd_agent = Cace_init 1, nd_time = TimeManager, nd_recvArray = (\<lambda>_. replicate MAX_PACKETSIZE 0),
     nd_running = True\<rparr>"

definition demo_node_env :: "real node_env" where
  "demo_node_env = \<lparr>ne_fpu = exact_fpu, ne_config = demo_time_config, ne_now = 1000, ne_maxRetrys = 3\<rparr>"

definition demo_short :: cace_short_ack where
  "demo_short = \<lparr>sa_senderID = 2, sa_receiverID = [1], sa_variableName = ''x'', sa_msgID = 77, sa_lamportTime = 9\<rparr>"

text \<open>The acknowledgement of agent 2 is stored once, and twice when receiving fails after it.\<close>

lemma demo_short_fits: "mc_message_fits ros_fits (Out_write_ack demo_short)"
  by (simp add: ros_fits_def fits_head_def demo_short_def fits_signed_def fits_ids_def)

lemma demo_short_length: "length (co_short ros_codec demo_short) \<le> MAX_PACKETSIZE"
  by (simp add: ros_codec_def demo_short_def wr_signed_def wr_ids_def wr_text_def wr_seq_def wr_time_def MAX_PACKETSIZE_def)

lemmas demo_handling = demo_node_def with_datagram_def run_agent_def handleCaceWriteAck_def isBlacklisted_def
  Cace_init_def updateLamportTime_def addressed_def includesID_def demo_short_def

theorem multicast_delivers_witness:
  "\<exists>nd. mc_turn ros_codec demo_node_env writeAckChannel (Some (co_short ros_codec demo_short)) demo_node =
     Inr (True, nd, []) \<and> ag_writeAcks (nd_agent nd) = [demo_short] \<and> ag_lamport (nd_agent nd) = 10"
proof -
  have "nd_running demo_node" by (simp add: demo_node_def)
  from multicast_delivers [OF ros_codec_ok demo_short_fits _ demo_short_length this,
      of writeAckChannel demo_node_env]
  have t: "mc_turn ros_codec demo_node_env writeAckChannel (Some (co_short ros_codec demo_short)) demo_node =
      bindE (deliver demo_node_env (Out_write_ack demo_short)
        (with_datagram writeAckChannel (co_short ros_codec demo_short) demo_node)) (\<lambda>(nd, os). Inr (True, nd, os))"
    by simp
  show ?thesis unfolding t by (simp add: demo_handling)
qed

theorem failed_receive_repeats_witness:
  "\<exists>nd. mc_call ros_codec writeAckChannel
      [(demo_node_env, Some (co_short ros_codec demo_short)), (demo_node_env, None)] demo_node =
     Inr (True, nd, []) \<and> ag_writeAcks (nd_agent nd) = [demo_short, demo_short]"
proof -
  have "nd_running demo_node" by (simp add: demo_node_def)
  from failed_receive_repeats [OF ros_codec_ok demo_short_fits _ demo_short_length this,
      of writeAckChannel demo_node_env demo_node_env]
  have t: "mc_call ros_codec writeAckChannel
      [(demo_node_env, Some (co_short ros_codec demo_short)), (demo_node_env, None)] demo_node =
      bindE (deliver demo_node_env (Out_write_ack demo_short)
        (with_datagram writeAckChannel (co_short ros_codec demo_short) demo_node)) (\<lambda>(nd, os).
      bindE (deliver demo_node_env (Out_write_ack demo_short) nd) (\<lambda>(nd, os'). Inr (True, nd, os @ os')))"
    by simp
  show ?thesis unfolding t by (simp add: demo_handling)
qed

end
