(* ===== verification/Spec2Isabelle.thy ===== *)
theory Spec2Isabelle
  imports EvSystem StorageLmdb StorageBdb Samples CaceHandshake CaceMultiCast
begin

text \<open>
  The repository holds two programs for groups of processes that have to agree: LibPaxos3
  (\<open>paxostest/\<close>) and the middleware CACE (\<open>cace/\<close>). The first part of this header is about
  LibPaxos3, the second about CACE.

  LibPaxos3 (\<open>paxostest/\<close>): a C implementation of Multi-Paxos. Clients hand values to a
  proposer; for every instance a proposer prepares a ballot with a majority of acceptors,
  sends them an accept request, and learners deliver the value that a majority accepted, in
  instance order. This development models the state machines of \<open>paxos/*.c\<close> with their data
  structures, and the processes of \<open>evpaxos/*.c\<close> that run them over connections; it proves what
  each of them promises and that together they agree.

  Theories and the code they model, in the order of their imports:

    \<^item> \<open>PaxosPrelude\<close>: machine types, error values (\<open>c_error\<close>, \<open>outcome\<close>) and list lemmas.
    \<^item> \<open>PaxosTypes\<close>: \<open>paxos_types.h\<close>, \<open>paxos.h\<close> and \<open>paxos.c\<close>: values, messages,
      configuration, \<open>paxos_quorum\<close>.
    \<^item> \<open>Quorum\<close>: \<open>quorum.c\<close>, the vote counter of the proposer.
    \<^item> \<open>CArray\<close>: \<open>carray.c\<close>, the growing ring buffer that holds client values.
    \<^item> \<open>KHash\<close>: \<open>khash.h\<close>, the open-addressing table of instances; its rehash, in place, is shown to
      do what one with separate old and new arrays does.
    \<^item> \<open>Storage\<close>: \<open>storage.c\<close> (the interface, a record of functions) and \<open>storage_mem.c\<close>.
    \<^item> \<open>Acceptor\<close>, \<open>Learner\<close>, \<open>Proposer\<close>: \<open>acceptor.c\<close>, \<open>learner.c\<close>, \<open>proposer.c\<close>.
    \<^item> \<open>SortedMap\<close>: maps in key order. \<open>StorageDb\<close>: \<open>storage_utils.c\<close>, records in a buffer, and the
      trim loop of the databases. \<open>Durable\<close>: acceptors whose process ends and starts again.
    \<^item> \<open>StorageLmdb\<close>, \<open>StorageBdb\<close>: \<open>storage_lmdb.c\<close> and \<open>storage_bdb.c\<close>, the database backends.
    \<^item> \<open>Consensus\<close>: the safety argument over sets of messages, without any process state.
    \<^item> \<open>PaxosSystem\<close>: the processes composed over an unreliable network; \<open>PaxosSafety\<close>: its
      inductive invariant; this theory: agreement and validity, and the run that breaks
      agreement once repeat requests are served.
    \<^item> \<open>MsgPack\<close>: \<open>paxos_types_pack.c\<close> and \<open>message.c\<close>, messages on the wire; \<open>EvConfig\<close>: \<open>config.c\<close>,
      the configuration file; \<open>EvPeers\<close>: \<open>peers.c\<close>, connections, the reading loop and dispatch.
    \<^item> \<open>EvAcceptor\<close>, \<open>EvLearner\<close>, \<open>EvProposer\<close>, \<open>EvReplica\<close>: \<open>evacceptor.c\<close>, \<open>evlearner.c\<close>,
      \<open>evproposer.c\<close>, \<open>evreplica.c\<close>: message handlers, timers and set-up of the processes.
    \<^item> \<open>EvSystem\<close>: replicas composed over their connections, and that they refine \<open>PaxosSystem\<close>.
    \<^item> \<open>Samples\<close>: \<open>sample/counter.c\<close> and \<open>sample/client.c\<close>, two programs on top of a replica and a
      learner.

  How the parts of \<open>evpaxos/\<close> work together: libevent calls \<open>on_read\<close> with the bytes that have
  arrived; it unpacks every complete message and calls the callbacks subscribed for its type;
  a callback runs an operation of \<open>paxos/\<close> and writes the replies. A handler of the model
  returns the new state and the list of its actions (\<open>net_action\<close>): calls of libevent, writes to
  a connection, deliveries to the application. What libevent and the operating system return
  (buffers, event flags, whether a port was bound, the contents of the configuration file) are
  arguments. A callback subscribed by name (\<open>ev_cb\<close>) gets its meaning in \<open>EvReplica\<close>
  (\<open>ev_handler\<close>). A loop that the code does not bound is a \<open>partial_function\<close>; not returning is
  \<open>None\<close>, an error is \<open>Some (Inl e)\<close> (type \<open>run\<close>). The msgpack library is a parameter:
  \<open>codec_ok emit unpack_next\<close> states its documented behaviour, that what one packs, in calls of
  its packer, is unpacked as the same objects, and an incomplete object is not unpacked;
  \<open>wire_codec_ok\<close> shows it for a concrete codec.

  The processes together (\<open>EvSystem\<close>). Every replica of a configuration runs \<open>evpaxos_replica_init\<close>
  and then the callbacks of libevent: a message arrives on a connection, a timer fires, a
  connection comes or goes. What a callback writes to a connection is from then on in the set of
  what the network may deliver there, whole, any number of times and in any order
  (\<open>stream_in_order\<close> of \<open>EvPeers\<close> covers the way through bytes). \<open>replicas_refine_paxos\<close> maps every
  reachable state of the replicas to one of the abstract system, so agreement and validity hold
  for the code with its callbacks (\<open>replicas_agree\<close>, \<open>replicas_deliver_submitted\<close>). Repeat
  requests, which the learners send by default, are served as the code serves them. Agreement can
  then be lost (\<open>repeat_breaks_agreement\<close>), so the theorems are about the runs in which no acceptor
  has answered one with a ballot above that at which it accepted the value (\<open>no_overclaim\<close>), and in
  which no ballot has wrapped around (\<open>no_wrap\<close>); both speak of what has been sent until the end of
  the run. The steps (\<open>ev_exec\<close>) also say that each connection has a buffer of its own.

  The samples. The state file of a counter is its content; \<open>counter_restart_resumes\<close> takes the
  instances after the one that the file names as what the learner delivers after a restart, which
  is what \<open>evpaxos_replica_set_instance_id\<close> asks for. The numbers in the files and in the values
  are read by the model of \<open>strtol\<close> in \<open>EvConfig\<close>.

  The databases. LMDB, BerkeleyDB and the calls of the operating system that their backends
  make are a record of functions (\<open>mdb_lib\<close>, \<open>bdb_lib\<close>) on a state of the library and the disk,
  which the handle of the storage carries. \<open>mdb_works\<close> and \<open>bdb_works\<close> state the documented
  behaviour: what a user sees of the state (\<open>mdb_state\<close>, \<open>bdb_state\<close>: files, environments,
  transactions, databases, cursors) and that a call that is used as documented succeeds and
  changes it in the documented way; keys are in the order of the comparison function; a
  transaction works on a copy that its commit puts on disk. \<open>ref_mdb_works\<close> and \<open>ref_bdb_works\<close>
  show them for concrete libraries. A process that ends leaves what was committed last; the
  file synchronisation of the operating system is not modelled, nor are two processes on one
  environment. \<open>trash_files\<close>, an option for tests that removes the files, is off.

  Correspondence. A struct is a record with the fields of the struct; a pointer that may be
  \<open>NULL\<close> is an option; \<open>iid_t\<close> and \<open>ballot_t\<close> are 32-bit words, so instance and ballot
  numbers wrap around as in C; \<open>int\<close> is the unbounded \<open>int\<close> (counts and acceptor ids, which
  stay far below the limits); array sizes and bucket counts are \<open>nat\<close>. An operation has the
  name of its C function and returns the new state with its result; \<open>out\<close> parameters that are
  only written when the function returns 1 are options. \<open>Inl\<close> is a failed \<open>assert\<close>, a call of
  \<open>exit\<close>, an access outside an array or through a null pointer. An instance that the C code
  reaches through a pointer from its hash table is changed in the table under its key. The
  clock (\<open>gettimeofday\<close>) is an argument. The static functions called \<open>instance_*\<close> of
  \<open>learner.c\<close> are \<open>linstance_*\<close> here, since \<open>proposer.c\<close> uses the same names.

  Lemma groups. Every component theory ends with its properties; before them stand the case
  lemmas of its operations, its invariant (\<open>quorum_wf\<close>, \<open>carray_wf\<close>, \<open>kh_wf\<close>, \<open>acceptor_wf\<close>,
  \<open>learner_inv\<close>, \<open>proposer_inv\<close>, \<open>sys_inv\<close>) with a preservation lemma per operation, and its
  abstraction (\<open>quorum_voters\<close>, \<open>carray_list\<close>, \<open>kh_map\<close>, \<open>mem_view\<close>). The interfaces are
  locales: \<open>vote_counter\<close>, \<open>fifo_queue\<close>, \<open>finite_map\<close>, \<open>record_store\<close>, \<open>key_cursor\<close> (what the trim
  loop needs of a cursor) and \<open>durable_store\<close> (a \<open>record_store\<close> that finds its records again),
  each interpreted on the model of the code that provides it. The acceptor is proved inside
  \<open>record_store\<close>, for every storage that keeps its laws, and over restarts inside
  \<open>durable_store\<close>, which both databases interpret.

  Bounds. The probe loops of the hash table carry a step bound of twice the bucket count. It
  makes the definitions total on arbitrary bucket lists; on well-formed tables the loops end
  before it (quadratic probing over a power of two reaches every bucket), which the lemmas
  of \<open>KHash\<close> prove. The trim loop of the databases has \<open>trim_rounds\<close>, more than there are
  instance ids, and passes every key once (\<open>trims\<close>). No other definition has fuel. The loops of the processes are shown to
  return (\<open>accept_loop_returns\<close>, \<open>retries_total\<close>, \<open>deliver_loop_returns\<close>, \<open>repeat_loop_answers\<close>), or not
  to, where they do not (\<open>repeat_request_diverges\<close>, \<open>timeouts_diverge\<close>).

  Assumptions of the system model. Messages may be lost, delayed, duplicated and reordered,
  but not made up. Proposer ids are below \<open>MAX_N_OF_PROPOSERS\<close> and distinct; ballots do not
  wrap around (\<open>ballot_sane\<close>), and client values are not empty: \<open>proposer_receive_promise\<close>
  takes a promise with an empty value for one without a value. Acceptors use the in-memory
  storage and do not restart (restarts are the subject of \<open>Durable\<close>); trim requests and acceptor states are arbitrary.

  CACE (\<open>cace/\<close>) is a C++ middleware with which robots share variables. Every agent keeps, for
  a variable, its own belief and the last belief it heard of every other agent. A strategy
  number says how a new value is spread: sent once, or in a handshake of two or three steps,
  repeated until every agent has acknowledged; and which acceptance function picks the belief
  that all take over. The main loop \<open>Cace::step\<close> works off the received messages: a message
  becomes a job of the worker; a job updates the variable store, answers, and waits, with
  retries, for the answers it expects. Theories:

    \<^item> \<open>CaceSerialize\<close>: \<open>variables/serializer/serialize.h\<close>, values as bytes.
    \<^item> \<open>CaceVariable\<close>: \<open>ConsensusVariable.cpp\<close>, beliefs, proposals and acceptance functions.
    \<^item> \<open>CaceStore\<close>: \<open>CVariableStore.cpp\<close>, the variables and responses by name.
    \<^item> \<open>CaceAgent\<close>: \<open>CaceCommunication.cpp\<close> and \<open>CaceCommunicationRos.cpp\<close> (handlers, message
      lists, sending), \<open>jobs/*.cpp\<close>, \<open>JobStateEntity.cpp\<close> and \<open>CommunicationWorker.cpp\<close>, and what
      drives them in \<open>cace.cpp\<close>, \<open>caceSpace.cpp\<close> and \<open>TimeManager.cpp\<close> (the Lamport time).
    \<^item> \<open>CaceHandshake\<close>: what two agents that run this code achieve, and where they do not.
    \<^item> \<open>CaceSpace\<close>: the rest of \<open>caceSpace.cpp\<close>, \<open>CaceMutex.cpp\<close> and \<open>Election.cpp\<close>, what applications use.
    \<^item> \<open>CaceTime\<close>: \<open>TimeManager.cpp\<close>, \<open>AgentCommunicationModel.cpp\<close> and \<open>AgentTimeData.cpp\<close>: the agreed
      clock, and the estimates of delays, losses and resend times from time messages.
    \<^item> \<open>CaceMultiCast\<close>: \<open>CaceCommunicationMultiCast.cpp\<close>, \<open>CaceMultiCastChannel.h\<close> and
      \<open>CaceCommunicationQuiet.cpp\<close>: messages as datagrams, and changing the transport (\<open>cace.cpp\<close>).

  Conventions of the CACE part. A class is a record; the derived job classes are one record
  \<open>job\<close> with a kind. A variable behind a \<open>shared_ptr\<close> is changed in the store under its name; a
  job that still holds a variable the store has dropped holds it \<open>Detached\<close>. A
  \<open>std::map\<close> is an association list in key order, which implements the interface
  \<open>finite_map\<close> (interpretation \<open>sm\<close>). An operation returns the agent and the list of what it sent
  (\<open>net_out\<close>); \<open>sendX\<close> advances the Lamport time as the code does. One operation reads the clock
  once. \<open>double\<close> values are 64-bit patterns. What the code takes from elsewhere is an argument:
  the text of a \<open>double\<close> (\<open>fmt\<close>), whether a container of a size can be allocated (\<open>room\<close>), and
  the delay that is estimated for an agent (\<open>e_estimate\<close>, which \<open>tm_env\<close> of \<open>CaceTime\<close> takes from the
  time manager). The delay model computes with \<open>double\<close>: there it is a type with the operations of
  a record \<open>fpu\<close>, and a statement holds for every such arithmetic, or for those that are exact for
  natural numbers below \<open>2 ^ 53\<close> (\<open>exact_small\<close>, which doubles are), unless it names \<open>exact_fpu\<close>, that
  of the real numbers; there \<open>exp\<close> does not overflow. The loops of the delay model are bounded by the length of the history, the
  Halley iteration by its own count. The serialisation of ROS messages is a record \<open>codec\<close>;
  \<open>mc_codec_ok\<close> states that reading gives back what was written, and \<open>ros_codec_ok\<close> shows it for the
  documented format. Exceptions and null pointers are \<open>Inl\<close>, a division by 0 is
  \<open>Inl DivideByZero\<close>; an exception that ends the thread of a channel ends the process. Mutexes and the effects of the callbacks on the application are left out. The
  loops over the jobs and their waiting lists end by their measures.

  What the lemma groups of these theories show. \<open>CaceHandshake\<close>: a job spends a retry for every
  message it repeats (\<open>spends\<close>, for each kind), and what an agent sends at all (\<open>agent_action\<close>,
  \<open>writes_none\<close>). \<open>CaceSpace\<close>: the mutex keeps nobody out
  (\<open>pNoBlock_false\<close>), and the scan for the best bid (\<open>take_bids_best\<close>). \<open>CaceTime\<close>: what the models
  remember (\<open>remembers\<close>, kept by \<open>addTimeMessage\<close>), the bounds of resend times, what the loss
  estimate computes (\<open>loss_of_window\<close>), and the step of the clock (\<open>adjusted_nearer\<close>).
  \<open>CaceMultiCast\<close>: the overridden sending functions are those of the base class followed by the
  encoding (\<open>mc_sends\<close>), and a datagram reaches its handler (\<open>callback_delivers\<close>). \<open>Samples\<close>: what a
  state file describes (\<open>resumes\<close>) and what the reports of the replicas say (\<open>trim_ok\<close>).

  Not modelled: memory management (\<open>*_free\<close>, \<open>*_destroy\<close>, except which objects a process
  hands back to libevent), logging, allocation failures, \<open>storage_init\<close> of a build with
  databases (its two extra cases call \<open>storage_init_bdb\<close> and \<open>storage_init_lmdb\<close>), the command
  lines and signals of the sample programs; of CACE the set-up of the ROS node, the threads and
  locks, the socket calls of \<open>PracticalSocket.cpp\<close>, the monitor, which prints, the empty class
  \<open>TaskSet\<close>, and the tests. The packages beside \<open>cace/\<close> and \<open>paxostest/\<close> connect CACE to programs
  that are not in the repository.
\<close>

section \<open>Concrete messages\<close>

definition demo_time :: timeval where
  "demo_time = \<lparr>tv_sec = 0, tv_usec = 0\<rparr>"

definition demo_value :: "byte \<Rightarrow> paxos_value" where
  "demo_value x = \<lparr>paxos_value_len = 1, paxos_value_val = Some [x]\<rparr>"

definition demo_prepare :: "ballot_t \<Rightarrow> paxos_prepare" where
  "demo_prepare b = \<lparr>prepare_iid = 1, prepare_ballot = b\<rparr>"

definition demo_accept :: "ballot_t \<Rightarrow> byte \<Rightarrow> paxos_accept" where
  "demo_accept b x = \<lparr>accept_iid = 1, accept_ballot = b, accept_value = demo_value x\<rparr>"

definition demo_promise :: "ballot_t \<Rightarrow> paxos_promise" where
  "demo_promise b =
     \<lparr>promise_iid = 1, promise_ballot = b, promise_value_ballot = 0, promise_value = null_value\<rparr>"

definition demo_accepted :: "ballot_t \<Rightarrow> ballot_t \<Rightarrow> byte \<Rightarrow> paxos_accepted" where
  "demo_accepted b vb x = \<lparr>accepted_iid = 1, accepted_ballot = b, accepted_value_ballot = vb,
     accepted_value = demo_value x\<rparr>"

text \<open>Three acceptors, one proposer, two learners: value 1 is chosen and delivered twice.\<close>

definition demo_run :: "sys_event list" where
  "demo_run =
     [E_propose 0 [1], E_prepare 0 demo_time,
      E_acceptor_prepare 0 (demo_prepare 10), E_acceptor_prepare 1 (demo_prepare 10),
      E_promise 0 (demo_promise 10) 0 demo_time, E_promise 0 (demo_promise 10) 1 demo_time,
      E_try_accept 0,
      E_acceptor_accept 0 (demo_accept 10 1) 0, E_acceptor_accept 1 (demo_accept 10 1) 0,
      E_learner_accepted 0 (demo_accepted 10 10 1) 0, E_learner_accepted 0 (demo_accepted 10 10 1) 1,
      E_learner_deliver 0,
      E_learner_accepted 1 (demo_accepted 10 10 1) 1, E_learner_accepted 1 (demo_accepted 10 10 1) 0,
      E_learner_deliver 1]"

lemma demo_run_reachable:
  obtains s where "reachable False default_config 3 s"
    and "(0, demo_accepted 10 10 1) \<in> sys_delivered s" and "(1, demo_accepted 10 10 1) \<in> sys_delivered s"
    and "(demo_accept 10 1, 0) \<in> sys_accepts s"
proof -
  have "case sys_run False 3 (sys_start default_config 3) demo_run of
      None \<Rightarrow> False
    | Some s \<Rightarrow> (0, demo_accepted 10 10 1) \<in> sys_delivered s \<and> (1, demo_accepted 10 10 1) \<in> sys_delivered s \<and>
        (demo_accept 10 1, 0) \<in> sys_accepts s"
    by code_simp
  then obtain s where r: "sys_run False 3 (sys_start default_config 3) demo_run = Some s"
    and d: "(0, demo_accepted 10 10 1) \<in> sys_delivered s" "(1, demo_accepted 10 10 1) \<in> sys_delivered s"
      "(demo_accept 10 1, 0) \<in> sys_accepts s"
    by (cases "sys_run False 3 (sys_start default_config 3) demo_run") auto
  show thesis by (rule that [OF run_reachable [OF reachable.start r] d])
qed

section \<open>Agreement\<close>

text \<open>
  C1. Agreement. In every reachable state of any number of acceptors, ten proposers and any
  number of learners over a network that loses, delays, duplicates and reorders messages, as
  long as no repeat request is served: two values delivered for the same instance, by the
  same learner or by different ones, are the same value.
\<close>

theorem paxos_agreement:
  assumes "reachable False cfg n s" and "0 \<le> n"
    and "(j, r) \<in> sys_delivered s" and "(j', r') \<in> sys_delivered s" and "accepted_iid r = accepted_iid r'"
  shows "accepted_value r = accepted_value r'"
proof -
  have inv: "sys_inv n s" using reachable_inv [OF assms(1) _ assms(2)] by simp
  show ?thesis by (rule delivered_agree [OF inv assms(3-5)])
qed

theorem paxos_agreement_witness:
  "\<exists>s r r'. reachable False default_config 3 s \<and> (0, r) \<in> sys_delivered s \<and> (1, r') \<in> sys_delivered s \<and>
     accepted_value r = accepted_value r'"
proof -
  obtain s where s: "reachable False default_config 3 s"
    "(0, demo_accepted 10 10 1) \<in> sys_delivered s" "(1, demo_accepted 10 10 1) \<in> sys_delivered s"
    by (rule demo_run_reachable)
  have "accepted_value (demo_accepted 10 10 1) = accepted_value (demo_accepted 10 10 1)"
    by (rule paxos_agreement [OF s(1) _ s(2,3)]) simp_all
  then show ?thesis using s by blast
qed

text \<open>
  Validity. A delivered value is one that some client proposed, byte for byte.
\<close>

theorem paxos_validity:
  assumes "reachable False cfg n s" and "0 \<le> n" and "(j, r) \<in> sys_delivered s"
  shows "accepted_value r \<in> sys_proposed s"
proof -
  have inv: "sys_inv n s" using reachable_inv [OF assms(1) _ assms(2)] by simp
  show ?thesis by (rule delivered_proposed [OF inv assms(3)])
qed

theorem paxos_validity_witness:
  "\<exists>s. reachable False default_config 3 s \<and> demo_value 1 \<in> sys_proposed s"
proof -
  obtain s where s: "reachable False default_config 3 s" "(0, demo_accepted 10 10 1) \<in> sys_delivered s"
    by (rule demo_run_reachable)
  show ?thesis using paxos_validity [OF s(1) _ s(2)] s(1) by (auto simp: demo_accepted_def)
qed

text \<open>
  Ballots are never shared: in every reachable state, two accept requests for one instance
  at one ballot come from the same proposer and carry the same value, and the ballot tells
  the proposer's id modulo \<open>MAX_N_OF_PROPOSERS\<close>.
\<close>

theorem accept_ballots_unique:
  assumes "reachable False cfg n s" and "0 \<le> n"
    and "(m, i) \<in> sys_accepts s" and "(m', i') \<in> sys_accepts s"
    and "accept_iid m = accept_iid m'" and "accept_ballot m = accept_ballot m'"
  shows "i = i' \<and> accept_value m = accept_value m' \<and> int (unat (accept_ballot m) mod MAX_N_OF_PROPOSERS) = i"
proof -
  have inv: "sys_inv n s" using reachable_inv [OF assms(1) _ assms(2)] by simp
  have o: "owns i (accept_ballot m)" "owns i' (accept_ballot m)"
    using sys_invD(2) [OF inv assms(3)] sys_invD(2) [OF inv assms(4)] assms(6) by simp_all
  have "accept_value m = accept_value m'"
    using history_okD(4) [OF sys_invD(1) [OF inv]] assms(3-6) unfolding accepts_unique_def by blast
  then show ?thesis using owns_unique [OF o] o(1) by (simp add: owns_def)
qed

theorem accept_ballots_unique_witness:
  "\<exists>s. reachable False default_config 3 s \<and> (demo_accept 10 1, 0) \<in> sys_accepts s \<and>
     int (unat (accept_ballot (demo_accept 10 1)) mod MAX_N_OF_PROPOSERS) = 0"
proof -
  obtain s where s: "reachable False default_config 3 s" "(demo_accept 10 1, 0) \<in> sys_accepts s"
    by (rule demo_run_reachable)
  show ?thesis using accept_ballots_unique [OF s(1) _ s(2) s(2)] s by auto
qed

section \<open>Repeat requests break agreement\<close>

text \<open>
  Acceptor 0 accepts value 1 at ballot 10, acceptor 2 accepts value 2 at ballot 11, and all
  three promise ballot 20. The records of acceptors 0 and 2 now both say ballot 20, and when
  they answer a repeat request learner 0 counts a majority at ballot 20 and delivers value 2.
  Proposer 0 goes on to get value 1 chosen at ballot 20, which learner 1 delivers.
\<close>

definition repeat_run :: "sys_event list" where
  "repeat_run =
     [E_propose 0 [1], E_propose 1 [2], E_prepare 0 demo_time, E_prepare 1 demo_time,
      E_acceptor_prepare 0 (demo_prepare 10), E_acceptor_prepare 1 (demo_prepare 10),
      E_promise 0 (demo_promise 10) 0 demo_time, E_promise 0 (demo_promise 10) 1 demo_time,
      E_try_accept 0, E_acceptor_accept 0 (demo_accept 10 1) 0,
      E_acceptor_prepare 1 (demo_prepare 11), E_acceptor_prepare 2 (demo_prepare 11),
      E_promise 1 (demo_promise 11) 1 demo_time, E_promise 1 (demo_promise 11) 2 demo_time,
      E_try_accept 1, E_acceptor_accept 2 (demo_accept 11 2) 1,
      E_acceptor_accept 1 (demo_accept 10 1) 0,
      E_preempted 0 \<lparr>preempted_iid = 1, preempted_ballot = 11\<rparr> demo_time,
      E_acceptor_prepare 0 (demo_prepare 20), E_acceptor_prepare 1 (demo_prepare 20),
      E_acceptor_prepare 2 (demo_prepare 20),
      E_promise 0 ((demo_promise 20)\<lparr>promise_value_ballot := 10, promise_value := demo_value 1\<rparr>) 0 demo_time,
      E_promise 0 (demo_promise 20) 1 demo_time,
      E_acceptor_repeat 0 1, E_acceptor_repeat 2 1,
      E_learner_accepted 0 (demo_accepted 20 10 1) 0, E_learner_accepted 0 (demo_accepted 20 11 2) 2,
      E_learner_deliver 0,
      E_try_accept 0, E_acceptor_accept 0 (demo_accept 20 1) 0, E_acceptor_accept 1 (demo_accept 20 1) 0,
      E_learner_accepted 1 (demo_accepted 20 20 1) 0, E_learner_accepted 1 (demo_accepted 20 20 1) 1,
      E_learner_deliver 1]"

text \<open>
  C5. When repeat requests are served, agreement fails: a state is reachable in which two
  learners have delivered different values for the same instance.
\<close>

theorem repeat_breaks_agreement:
  "\<exists>s r r'. reachable True default_config 3 s \<and> (0, r) \<in> sys_delivered s \<and> (1, r') \<in> sys_delivered s \<and>
     accepted_iid r = accepted_iid r' \<and> accepted_value r \<noteq> accepted_value r'"
proof -
  have "case sys_run True 3 (sys_start default_config 3) repeat_run of
      None \<Rightarrow> False
    | Some s \<Rightarrow> (0, demo_accepted 20 11 2) \<in> sys_delivered s \<and> (1, demo_accepted 20 20 1) \<in> sys_delivered s"
    by code_simp
  then obtain s where "sys_run True 3 (sys_start default_config 3) repeat_run = Some s"
    "(0, demo_accepted 20 11 2) \<in> sys_delivered s" "(1, demo_accepted 20 20 1) \<in> sys_delivered s"
    by (auto split: option.splits)
  moreover have "accepted_iid (demo_accepted 20 11 2) = accepted_iid (demo_accepted 20 20 1)"
    "accepted_value (demo_accepted 20 11 2) \<noteq> accepted_value (demo_accepted 20 20 1)"
    by (simp_all add: demo_accepted_def demo_value_def)
  ultimately show ?thesis using run_reachable [OF reachable.start] by blast
qed

end
